(* ===== verification/Rsdd_Prelude.thy ===== *)
theory Rsdd_Prelude
  imports Main "HOL-Library.Word" "HOL-Library.Code_Target_Nat"
begin

text \<open>
  What every component shares: Go's byte slices and their decoding, the result type of a Go call (a value,
  an error or a panic), and the generic facts about lists and words the component proofs use.
\<close>

unbundle bit_operations_syntax

named_theorems res_simps \<open>evaluation of the result type\<close>
named_theorems dec_simps \<open>decoding of fixed-width integers\<close>

section \<open>Types\<close>

type_synonym byte = "8 word"
type_synonym bytes = "8 word list"
type_synonym u16 = "16 word"
type_synonym u32 = "32 word"
type_synonym u64 = "64 word"

text \<open>
  The outcome of a Go call that returns \<open>(value, error)\<close>: the value, the error, or a panic (an index or
  bslice expression out of range).
\<close>

datatype ('e, 'a) res = Ok 'a | Fail 'e | Panic

fun andthen :: "('e, 'a) res \<Rightarrow> ('a \<Rightarrow> ('e, 'b) res) \<Rightarrow> ('e, 'b) res" where
  "andthen (Ok x) f = f x"
| "andthen (Fail e) f = Fail e"
| "andthen Panic f = Panic"

fun is_ok :: "('e, 'a) res \<Rightarrow> bool" where
  "is_ok (Ok x) = True"
| "is_ok _ = False"

definition no_panic :: "('e, 'a) res \<Rightarrow> bool" where
  "no_panic m \<longleftrightarrow> m \<noteq> Panic"

lemma no_panic_simps [simp, res_simps]:
  "no_panic (Ok x)" "no_panic (Fail e)" "\<not> no_panic Panic"
  by (simp_all add: no_panic_def)

lemma andthen_Ok_iff [res_simps]: "andthen m f = Ok y \<longleftrightarrow> (\<exists>x. m = Ok x \<and> f x = Ok y)"
  by (cases m) auto

lemma andthen_Fail_iff [res_simps]:
  "andthen m f = Fail e \<longleftrightarrow> m = Fail e \<or> (\<exists>x. m = Ok x \<and> f x = Fail e)"
  by (cases m) auto

lemma andthen_Panic_iff [res_simps]:
  "andthen m f = Panic \<longleftrightarrow> m = Panic \<or> (\<exists>x. m = Ok x \<and> f x = Panic)"
  by (cases m) auto

lemma no_panic_andthen [intro]:
  assumes "no_panic m" and "\<And>x. m = Ok x \<Longrightarrow> no_panic (f x)"
  shows "no_panic (andthen m f)"
  using assms by (cases m) auto

lemma no_panic_if [intro]:
  assumes "b \<Longrightarrow> no_panic x" and "\<not> b \<Longrightarrow> no_panic y"
  shows "no_panic (if b then x else y)"
  using assms by simp

section \<open>Fixed-width integers in byte slices\<close>

fun le_nat :: "bytes \<Rightarrow> nat" where
  "le_nat [] = 0"
| "le_nat (b # bs) = unat b + 256 * le_nat bs"

definition be_nat :: "bytes \<Rightarrow> nat" where
  "be_nat bs = le_nat (rev bs)"

definition bslice :: "bytes \<Rightarrow> nat \<Rightarrow> nat \<Rightarrow> bytes" where
  \<comment> \<open>Go's \<open>b[lo:hi]\<close> for \<open>lo \<le> hi \<le> len(b)\<close>; the callers check the range.\<close>
  "bslice b lo hi = take (hi - lo) (drop lo b)"

definition le16 :: "bytes \<Rightarrow> nat \<Rightarrow> u16" where
  "le16 b off = word_of_nat (le_nat (bslice b off (off + 2)))"

definition le32 :: "bytes \<Rightarrow> nat \<Rightarrow> u32" where
  "le32 b off = word_of_nat (le_nat (bslice b off (off + 4)))"

definition le64 :: "bytes \<Rightarrow> nat \<Rightarrow> u64" where
  "le64 b off = word_of_nat (le_nat (bslice b off (off + 8)))"

definition be32 :: "bytes \<Rightarrow> nat \<Rightarrow> u32" where
  "be32 b off = word_of_nat (be_nat (bslice b off (off + 4)))"

lemma le_nat_bound: "le_nat bs < 256 ^ length bs"
proof (induction bs)
  case Nil
  show ?case by simp
next
  case (Cons b bs)
  have "unat b < 256" using unsigned_less [of b, where 'a=nat] by simp
  with Cons.IH show ?case by simp
qed

lemma le_nat_append: "le_nat (xs @ ys) = le_nat xs + 256 ^ length xs * le_nat ys"
  by (induction xs) (simp_all add: algebra_simps)

lemma length_bslice [simp]: "length (bslice b lo hi) = min (hi - lo) (length b - lo)"
  by (simp add: bslice_def)

lemma le_nat_bslice_bound: "le_nat (bslice b off (off + n)) < 256 ^ n"
proof -
  have "256 ^ length (bslice b off (off + n)) \<le> (256::nat) ^ n"
    by (rule power_increasing) simp_all
  then show ?thesis
    using le_nat_bound [of "bslice b off (off + n)"] by linarith
qed

lemma unat_le16 [dec_simps]: "unat (le16 b off) = le_nat (bslice b off (off + 2))"
  using le_nat_bslice_bound [of b off 2] by (simp add: le16_def unat_of_nat take_bit_eq_mod)

lemma unat_le32 [dec_simps]: "unat (le32 b off) = le_nat (bslice b off (off + 4))"
  using le_nat_bslice_bound [of b off 4] by (simp add: le32_def unat_of_nat take_bit_eq_mod)

lemma unat_le64 [dec_simps]: "unat (le64 b off) = le_nat (bslice b off (off + 8))"
  using le_nat_bslice_bound [of b off 8] by (simp add: le64_def unat_of_nat take_bit_eq_mod)

section \<open>Words\<close>

lemma xor_left_cancel: "(a :: 'a::len word) XOR b = a XOR c \<longleftrightarrow> b = c"
  by (metis word_bw_assocs(3) word_bw_same(3) xor.left_neutral)

lemma xor_right_cancel: "(b :: 'a::len word) XOR a = c XOR a \<longleftrightarrow> b = c"
  by (metis xor.commute xor_left_cancel)

lemma xor_0_iff: "(a :: 'a::len word) XOR b = 0 \<longleftrightarrow> a = b"
  using xor_right_cancel [of a b b] by simp

lemma xor_move: "(x :: 'a::len word) XOR a = t \<longleftrightarrow> x = t XOR a"
  using xor_right_cancel [of x a "t XOR a"] by (simp add: xor.assoc)

lemma bit_byte_lt: "bit (b :: byte) n \<Longrightarrow> n < 8"
  using bit_imp_le_length [of b n] by auto

lemma ucast_byte_eq: "(ucast (b :: byte) :: u16) = ucast c \<longleftrightarrow> b = c"
proof
  assume eq: "(ucast b :: u16) = ucast c"
  show "b = c"
  proof (rule bit_word_eqI)
    fix n assume "n < LENGTH(8)"
    then show "bit b n = bit c n"
      using arg_cong [OF eq, of "\<lambda>w. bit w n"] by (simp add: bit_ucast_iff)
  qed
qed simp

lemma push_ucast_byte_eq: "push_bit 8 (ucast (b :: byte) :: u16) = push_bit 8 (ucast c) \<longleftrightarrow> b = c"
proof
  assume eq: "push_bit 8 (ucast b :: u16) = push_bit 8 (ucast c)"
  show "b = c"
  proof (rule bit_word_eqI)
    fix n assume "n < LENGTH(8)"
    then show "bit b n = bit c n"
      using arg_cong [OF eq, of "\<lambda>w. bit w (n + 8)"] by (simp add: bit_push_bit_iff bit_ucast_iff)
  qed
qed simp

section \<open>Checksum registers\<close>

text \<open>
  The interface of every checksum in the program: a register updated once per byte. The two laws are what the
  detection of a one-byte error rests on.
\<close>

locale byte_register =
  fixes upd :: "'s \<Rightarrow> byte \<Rightarrow> 's"
  assumes upd_state_inj: "upd s b = upd t b \<Longrightarrow> s = t"
    and upd_byte_inj: "upd s b = upd s c \<Longrightarrow> b = c"
begin

lemma fold_state_inj: "foldl upd s bs = foldl upd t bs \<Longrightarrow> s = t"
proof (induction bs arbitrary: s t)
  case Nil
  then show ?case by simp
next
  case (Cons b bs)
  then have "upd s b = upd t b" by simp
  then show ?case by (rule upd_state_inj)
qed

lemma one_byte_error: "foldl upd s (xs @ b # ys) = foldl upd s (xs @ c # ys) \<longleftrightarrow> b = c"
proof
  assume "foldl upd s (xs @ b # ys) = foldl upd s (xs @ c # ys)"
  then have "upd (foldl upd s xs) b = upd (foldl upd s xs) c"
    by (simp only: foldl_append foldl_Cons) (rule fold_state_inj [of _ ys])
  then show "b = c" by (rule upd_byte_inj)
qed simp

end

end
