(* ===== verification/Serial_Checksum.thy ===== *)
theory Serial_Checksum
  imports Rsdd_Prelude "HOL-Library.Multiset" "HOL-Library.List_Lexorder" "HOL-Library.Product_Lexorder" "HOL-Library.Char_ord"
begin

text \<open>
  The checksum algorithms of \<open>internal/serial/framechecksum.go\<close>, the two tests that try them on the
  frames of a capture, and the ranking of the results. The locale \<open>byte_register\<close> is the interface the
  algorithms share: a register updated once per byte, injectively in the register and in the byte. Every
  algorithm is interpreted as such a register, which gives the detection of a one-byte error once for all.
\<close>

section \<open>The algorithms\<close>

definition sum8 :: "bytes \<Rightarrow> u16" where
  "sum8 b = ucast (foldl (\<lambda>s c. s + c) (0 :: byte) b)"

definition twosComp8 :: "bytes \<Rightarrow> u16" where
  "twosComp8 b = ucast (- (ucast (sum8 b) :: byte))"

definition xor8 :: "bytes \<Rightarrow> u16" where
  "xor8 b = ucast (foldl (\<lambda>x c. x XOR c) (0 :: byte) b)"

definition modbus_shift :: "u16 \<Rightarrow> u16" where
  "modbus_shift crc = (if crc AND 1 \<noteq> 0 then drop_bit 1 crc XOR 0xA001 else drop_bit 1 crc)"

definition modbus_byte :: "u16 \<Rightarrow> byte \<Rightarrow> u16" where
  "modbus_byte crc c = (modbus_shift ^^ 8) (crc XOR ucast c)"

definition crc16Modbus :: "bytes \<Rightarrow> u16" where
  "crc16Modbus b = foldl modbus_byte 0xFFFF b"

definition ccitt_shift :: "u16 \<Rightarrow> u16" where
  "ccitt_shift crc = (if crc AND 0x8000 \<noteq> 0 then push_bit 1 crc XOR 0x1021 else push_bit 1 crc)"

definition ccitt_byte :: "u16 \<Rightarrow> byte \<Rightarrow> u16" where
  "ccitt_byte crc c = (ccitt_shift ^^ 8) (crc XOR push_bit 8 (ucast c))"

definition crc16CCITT :: "bytes \<Rightarrow> u16" where
  "crc16CCITT b = foldl ccitt_byte 0xFFFF b"

section \<open>The tests over the frames\<close>

text \<open>\<open>checksumResult\<close>: \<open>littleEndian\<close> is \<open>None\<close> for a one-byte checksum.\<close>

record checksumResult =
  cr_name :: string
  cr_skip :: nat
  cr_littleEndian :: "bool option"
  cr_used :: nat
  cr_hits :: nat

definition candidate :: "checksumResult \<Rightarrow> bool" where
  "candidate r \<longleftrightarrow> cr_used r > 0 \<and> cr_hits r = cr_used r"

definition one_byte_step :: "(bytes \<Rightarrow> u16) \<Rightarrow> nat \<Rightarrow> checksumResult \<Rightarrow> bytes \<Rightarrow> checksumResult" where
  "one_byte_step fn skip r fr =
     (if length fr > skip + 1
      then let r' = r\<lparr>cr_used := cr_used r + 1\<rparr>
           in if fn (bslice fr skip (length fr - 1)) = ucast (fr ! (length fr - 1))
              then r'\<lparr>cr_hits := cr_hits r' + 1\<rparr> else r'
      else r)"

definition testOneByte :: "bytes list \<Rightarrow> (bytes \<Rightarrow> u16) \<Rightarrow> string \<Rightarrow> nat \<Rightarrow> checksumResult" where
  "testOneByte frames fn name skip =
     foldl (one_byte_step fn skip)
       \<lparr>cr_name = name, cr_skip = skip, cr_littleEndian = None, cr_used = 0, cr_hits = 0\<rparr> frames"

definition two_byte_want :: "bool \<Rightarrow> bytes \<Rightarrow> u16" where
  "two_byte_want littleEndian fr =
     (let hi = ucast (fr ! (length fr - 2)); lo = ucast (fr ! (length fr - 1))
      in if littleEndian then push_bit 8 lo OR hi else push_bit 8 hi OR lo)"

definition two_byte_step ::
    "(bytes \<Rightarrow> u16) \<Rightarrow> bool \<Rightarrow> nat \<Rightarrow> checksumResult \<Rightarrow> bytes \<Rightarrow> checksumResult" where
  "two_byte_step fn littleEndian skip r fr =
     (if length fr < skip + 3 then r
      else let r' = r\<lparr>cr_used := cr_used r + 1\<rparr>
           in if fn (bslice fr skip (length fr - 2)) = two_byte_want littleEndian fr
              then r'\<lparr>cr_hits := cr_hits r' + 1\<rparr> else r')"

definition testTwoByte ::
    "bytes list \<Rightarrow> (bytes \<Rightarrow> u16) \<Rightarrow> string \<Rightarrow> bool \<Rightarrow> nat \<Rightarrow> checksumResult" where
  "testTwoByte frames fn name littleEndian skip =
     foldl (two_byte_step fn littleEndian skip)
       \<lparr>cr_name = name, cr_skip = skip, cr_littleEndian = Some littleEndian, cr_used = 0, cr_hits = 0\<rparr> frames"

text \<open>
  The body of \<open>checksum\<close>: the frames of at least three bytes, twelve tests over them (none without a useful
  frame), ranked by descending hits, then by name, equal keys in the generated order.
\<close>

definition useful_frames :: "bytes list \<Rightarrow> bytes list" where
  "useful_frames frames = filter (\<lambda>fr. length fr \<ge> 3) frames"

definition tests_for :: "bytes list \<Rightarrow> nat \<Rightarrow> checksumResult list" where
  "tests_for useful skip =
     [testOneByte useful sum8 ''sum8'' skip,
      testOneByte useful twosComp8 ''twos-comp8'' skip,
      testOneByte useful xor8 ''xor8'' skip,
      testTwoByte useful crc16Modbus ''crc16-modbus'' True skip,
      testTwoByte useful crc16Modbus ''crc16-modbus'' False skip,
      testTwoByte useful crc16CCITT ''crc16-ccitt'' False skip]"

definition rank_key :: "checksumResult \<Rightarrow> int \<times> string" where
  "rank_key r = (- int (cr_hits r), cr_name r)"

definition checksum_results :: "bytes list \<Rightarrow> checksumResult list" where
  "checksum_results frames =
     (let useful = useful_frames frames
      in if useful = [] then []
         else sort_key rank_key (concat (map (tests_for useful) [0..<2])))"

section \<open>Each algorithm is an injective byte register\<close>

lemma bit_modbus_shift:
  "bit (modbus_shift s) n \<longleftrightarrow> (bit s (Suc n) \<noteq> (bit s 0 \<and> bit (0xA001 :: u16) n))"
  by (auto simp: modbus_shift_def bit_simps and_one_eq mod_2_eq_odd bit_0)

lemma modbus_shift_inj: "modbus_shift s = modbus_shift t \<Longrightarrow> s = t"
proof (rule bit_word_eqI)
  fix n
  assume eq: "modbus_shift s = modbus_shift t" and n: "n < LENGTH(16)"
  have top: "bit (0xA001 :: u16) 15" by simp
  have out: "\<not> bit (w :: u16) 16" for w
    by (auto dest: bit_imp_le_length)
  have "bit (modbus_shift s) 15 = bit (modbus_shift t) 15" using eq by simp
  then have zero: "bit s 0 = bit t 0" using top out [of s] out [of t] by (simp add: bit_modbus_shift)
  show "bit s n = bit t n"
  proof (cases n)
    case 0
    with zero show ?thesis by simp
  next
    case (Suc m)
    have "bit (modbus_shift s) m = bit (modbus_shift t) m" using eq by simp
    with zero Suc show ?thesis by (auto simp: bit_modbus_shift)
  qed
qed

lemma bit_ccitt_shift:
  "bit (ccitt_shift s) n \<longleftrightarrow> n < 16 \<and> ((n > 0 \<and> bit s (n - 1)) \<noteq> (bit s 15 \<and> bit (0x1021 :: u16) n))"
proof -
  have "s AND 0x8000 = 0 \<longleftrightarrow> \<not> bit s 15"
    using and_exp_eq_0_iff_not_bit [of s 15] by simp
  moreover have "bit (push_bit 1 s) n \<longleftrightarrow> n < 16 \<and> n > 0 \<and> bit s (n - 1)"
    by (simp only: bit_push_bit_iff) (auto dest: bit_imp_le_length)
  moreover have "bit (0x1021 :: u16) n \<Longrightarrow> n < 16"
    by (auto dest: bit_imp_le_length)
  ultimately show ?thesis
    unfolding ccitt_shift_def by (cases "bit s 15") (simp_all only: bit_xor_iff if_True if_False HOL.simp_thms, auto)
qed

lemma ccitt_shift_inj: "ccitt_shift s = ccitt_shift t \<Longrightarrow> s = t"
proof (rule bit_word_eqI)
  fix n
  assume eq: "ccitt_shift s = ccitt_shift t" and n: "n < LENGTH(16)"
  have low: "bit (0x1021 :: u16) 0" by simp
  have "bit (ccitt_shift s) 0 = bit (ccitt_shift t) 0" using eq by simp
  then have top: "bit s 15 = bit t 15" using low by (simp add: bit_ccitt_shift)
  show "bit s n = bit t n"
  proof (cases "n = 15")
    case False
    with n have m: "Suc n < 16" by simp
    have "bit (ccitt_shift s) (Suc n) = bit (ccitt_shift t) (Suc n)" using eq by simp
    with top m show ?thesis by (auto simp: bit_ccitt_shift)
  qed (use top in simp)
qed

lemma modbus_shifts_inj: "(modbus_shift ^^ n) s = (modbus_shift ^^ n) t \<Longrightarrow> s = t"
  by (rule injD [OF inj_fn [OF injI]]) (rule modbus_shift_inj)

lemma ccitt_shifts_inj: "(ccitt_shift ^^ n) s = (ccitt_shift ^^ n) t \<Longrightarrow> s = t"
  by (rule injD [OF inj_fn [OF injI]]) (rule ccitt_shift_inj)

interpretation sum_reg: byte_register "\<lambda>s c. s + c :: byte"
  by unfold_locales auto

interpretation xor_reg: byte_register "\<lambda>s c. s XOR c :: byte"
  by unfold_locales (simp_all add: xor_left_cancel xor_right_cancel)

interpretation modbus_reg: byte_register modbus_byte
  by unfold_locales
    (auto simp: modbus_byte_def xor_left_cancel xor_right_cancel ucast_byte_eq dest!: modbus_shifts_inj)

interpretation ccitt_reg: byte_register ccitt_byte
  by unfold_locales
    (auto simp: ccitt_byte_def xor_left_cancel xor_right_cancel push_ucast_byte_eq dest!: ccitt_shifts_inj)

lemma modbus_shift_even: "\<not> bit s 0 \<Longrightarrow> modbus_shift s = drop_bit 1 s"
  by (simp add: modbus_shift_def and_one_eq mod_2_eq_odd bit_0)

lemma modbus_shifts_low_zero:
  "(\<And>i. i < k \<Longrightarrow> \<not> bit s i) \<Longrightarrow> (modbus_shift ^^ k) s = drop_bit k s"
proof (induction k)
  case (Suc k)
  then have "(modbus_shift ^^ k) s = drop_bit k s" by simp
  moreover have "\<not> bit (drop_bit k s) 0" using Suc.prems [of k] by (simp add: bit_drop_bit_eq)
  ultimately show ?case by (simp add: modbus_shift_even)
qed simp

lemma ccitt_shift_top: "\<not> bit s 15 \<Longrightarrow> ccitt_shift s = push_bit 1 s"
  using and_exp_eq_0_iff_not_bit [of s 15] by (simp add: ccitt_shift_def)

lemma ccitt_shifts_high_zero:
  "k \<le> 8 \<Longrightarrow> (\<And>i. 8 \<le> i \<Longrightarrow> \<not> bit s i) \<Longrightarrow> (ccitt_shift ^^ k) s = push_bit k s"
proof (induction k)
  case (Suc k)
  then have "(ccitt_shift ^^ k) s = push_bit k s" by simp
  moreover have "\<not> bit (push_bit k s) 15" using Suc.prems by (auto simp: bit_push_bit_iff)
  ultimately show ?case using ccitt_shift_top [of "push_bit k s"] by (simp del: push_bit_Suc add: push_bit_push_bit)
qed simp

section \<open>Residues\<close>

text \<open>
  A shift register whose low (high) bits are clear only shifts; so the two trailing bytes of a frame bring the
  register to 0 exactly when they hold the register in the order the algorithm stores it.
\<close>

lemma modbus_shifts_zero [simp]: "(modbus_shift ^^ n) 0 = 0"
  by (induction n) (simp_all add: modbus_shift_def)

lemma ccitt_shifts_zero [simp]: "(ccitt_shift ^^ n) 0 = 0"
  by (induction n) (simp_all add: ccitt_shift_def)

lemma modbus_shifts_0_iff: "(modbus_shift ^^ n) s = 0 \<longleftrightarrow> s = 0"
  using modbus_shifts_inj [of n s 0] by auto

lemma ccitt_shifts_0_iff: "(ccitt_shift ^^ n) s = 0 \<longleftrightarrow> s = 0"
  using ccitt_shifts_inj [of n s 0] by auto

lemma modbus_two_bytes:
  "foldl modbus_byte s [a, b] = 0 \<longleftrightarrow> s = push_bit 8 (ucast b) OR ucast a"
proof -
  have "(modbus_shift ^^ 8) (push_bit 8 (ucast b)) = (ucast b :: u16)"
  proof -
    have "(modbus_shift ^^ 8) (push_bit 8 (ucast b)) = drop_bit 8 (push_bit 8 (ucast b) :: u16)"
      by (rule modbus_shifts_low_zero) (simp add: bit_push_bit_iff)
    also have "\<dots> = ucast b"
      by (rule bit_word_eqI) (auto simp: bit_drop_bit_eq bit_push_bit_iff bit_ucast_iff dest: bit_byte_lt)
    finally show ?thesis .
  qed
  then have "(modbus_shift ^^ 8) x = ucast b \<longleftrightarrow> x = push_bit 8 (ucast b)" for x
    using modbus_shifts_inj [of 8 x "push_bit 8 (ucast b)"] by auto
  then have "foldl modbus_byte s [a, b] = 0 \<longleftrightarrow> s XOR ucast a = push_bit 8 (ucast b)"
    by (simp add: modbus_byte_def modbus_shifts_0_iff xor_0_iff)
  also have "\<dots> \<longleftrightarrow> s = push_bit 8 (ucast b) XOR ucast a"
    by (rule xor_move)
  also have "push_bit 8 (ucast b) XOR ucast a = (push_bit 8 (ucast b) OR ucast a :: u16)"
    by (rule bit_word_eqI) (auto simp: bit_xor_iff bit_or_iff bit_push_bit_iff bit_ucast_iff dest: bit_byte_lt)
  finally show ?thesis .
qed

lemma ccitt_two_bytes:
  "foldl ccitt_byte s [a, b] = 0 \<longleftrightarrow> s = push_bit 8 (ucast a) OR ucast b"
proof -
  have "(ccitt_shift ^^ 8) (ucast b) = (push_bit 8 (ucast b) :: u16)"
    by (rule ccitt_shifts_high_zero) (auto simp: bit_ucast_iff dest: bit_byte_lt)
  then have "(ccitt_shift ^^ 8) x = push_bit 8 (ucast b) \<longleftrightarrow> x = ucast b" for x
    using ccitt_shifts_inj [of 8 x "ucast b"] by auto
  then have "foldl ccitt_byte s [a, b] = 0 \<longleftrightarrow> s XOR push_bit 8 (ucast a) = ucast b"
    by (simp add: ccitt_byte_def ccitt_shifts_0_iff xor_0_iff)
  also have "\<dots> \<longleftrightarrow> s = ucast b XOR push_bit 8 (ucast a)"
    by (rule xor_move)
  also have "ucast b XOR push_bit 8 (ucast a) = (push_bit 8 (ucast a) OR ucast b :: u16)"
    by (rule bit_word_eqI) (auto simp: bit_xor_iff bit_or_iff bit_push_bit_iff bit_ucast_iff dest: bit_byte_lt)
  finally show ?thesis .
qed

lemma two_byte_frame:
  assumes "skip + 3 \<le> length fr"
  shows "drop skip fr = bslice fr skip (length fr - 2) @ [fr ! (length fr - 2), fr ! (length fr - 1)]"
proof -
  have "drop (length fr - 2) fr = [fr ! (length fr - 2), fr ! (length fr - 1)]"
    using assms by (intro nth_equalityI) (auto simp: nth_Cons less_Suc_eq split: nat.splits)
  moreover have "drop skip fr = bslice fr skip (length fr - 2) @ drop (length fr - 2) fr"
    using assms append_take_drop_id [of "length fr - 2 - skip" "drop skip fr"] by (simp add: bslice_def)
  ultimately show ?thesis by simp
qed

lemma modbus_test_residue:
  "skip + 3 \<le> length fr \<Longrightarrow>
    crc16Modbus (bslice fr skip (length fr - 2)) = two_byte_want True fr \<longleftrightarrow> crc16Modbus (drop skip fr) = 0"
  using modbus_two_bytes
  by (simp add: two_byte_frame crc16Modbus_def two_byte_want_def Let_def)

lemma ccitt_test_residue:
  "skip + 3 \<le> length fr \<Longrightarrow>
    crc16CCITT (bslice fr skip (length fr - 2)) = two_byte_want False fr \<longleftrightarrow> crc16CCITT (drop skip fr) = 0"
  using ccitt_two_bytes
  by (simp add: two_byte_frame crc16CCITT_def two_byte_want_def Let_def)

section \<open>What the tests count\<close>

definition one_byte_valid :: "(bytes \<Rightarrow> u16) \<Rightarrow> nat \<Rightarrow> bytes \<Rightarrow> bool" where
  "one_byte_valid fn skip fr \<longleftrightarrow> fn (bslice fr skip (length fr - 1)) = ucast (fr ! (length fr - 1))"

lemma one_byte_fold:
  "foldl (one_byte_step fn skip) r frames =
     r\<lparr>cr_used := cr_used r + length (filter (\<lambda>fr. skip + 1 < length fr) frames),
       cr_hits := cr_hits r + length (filter (\<lambda>fr. skip + 1 < length fr \<and> one_byte_valid fn skip fr) frames)\<rparr>"
  by (induction frames arbitrary: r) (auto simp: one_byte_step_def one_byte_valid_def Let_def)

lemma testOneByte_counts:
  "testOneByte frames fn name skip =
     \<lparr>cr_name = name, cr_skip = skip, cr_littleEndian = None,
      cr_used = length (filter (\<lambda>fr. skip + 1 < length fr) frames),
      cr_hits = length (filter (\<lambda>fr. skip + 1 < length fr \<and> one_byte_valid fn skip fr) frames)\<rparr>"
  by (simp add: testOneByte_def one_byte_fold)

definition two_byte_valid :: "(bytes \<Rightarrow> u16) \<Rightarrow> bool \<Rightarrow> nat \<Rightarrow> bytes \<Rightarrow> bool" where
  "two_byte_valid fn le skip fr \<longleftrightarrow> fn (bslice fr skip (length fr - 2)) = two_byte_want le fr"

lemma two_byte_fold:
  "foldl (two_byte_step fn le skip) r frames =
     r\<lparr>cr_used := cr_used r + length (filter (\<lambda>fr. skip + 3 \<le> length fr) frames),
       cr_hits := cr_hits r + length (filter (\<lambda>fr. skip + 3 \<le> length fr \<and> two_byte_valid fn le skip fr) frames)\<rparr>"
  by (induction frames arbitrary: r) (auto simp: two_byte_step_def two_byte_valid_def Let_def)

lemma testTwoByte_counts:
  "testTwoByte frames fn name le skip =
     \<lparr>cr_name = name, cr_skip = skip, cr_littleEndian = Some le,
      cr_used = length (filter (\<lambda>fr. skip + 3 \<le> length fr) frames),
      cr_hits = length (filter (\<lambda>fr. skip + 3 \<le> length fr \<and> two_byte_valid fn le skip fr) frames)\<rparr>"
  by (simp add: testTwoByte_def two_byte_fold)

lemma length_filter_conj_eq:
  "length (filter (\<lambda>x. P x \<and> Q x) xs) = length (filter P xs) \<longleftrightarrow> (\<forall>x \<in> set xs. P x \<longrightarrow> Q x)"
proof -
  have "length (filter (\<lambda>x. P x \<and> Q x) xs) + length (filter (\<lambda>x. P x \<and> \<not> Q x) xs) = length (filter P xs)"
    using sum_length_filter_compl [of Q "filter P xs"] by (simp add: conj_commute)
  then have "length (filter (\<lambda>x. P x \<and> Q x) xs) = length (filter P xs) \<longleftrightarrow>
      filter (\<lambda>x. P x \<and> \<not> Q x) xs = []"
    by (metis add_cancel_right_right length_0_conv)
  then show ?thesis by (auto simp: filter_empty_conv)
qed

section \<open>Properties\<close>

text \<open>
  C34. Over any capture, the little-endian crc16-modbus test and the big-endian crc16-ccitt test count exactly
  the frames (of at least \<open>skip + 3\<close> bytes) whose whole content after the skip, trailing checksum included,
  drives the register to 0: comparing the stored checksum is the same as checking the CRC residue.
\<close>

theorem crc16_hits_are_residues:
  "cr_hits (testTwoByte frames crc16Modbus name True skip) =
     length (filter (\<lambda>fr. skip + 3 \<le> length fr \<and> crc16Modbus (drop skip fr) = 0) frames)
   \<and> cr_hits (testTwoByte frames crc16CCITT name False skip) =
     length (filter (\<lambda>fr. skip + 3 \<le> length fr \<and> crc16CCITT (drop skip fr) = 0) frames)"
  by (auto simp: testTwoByte_counts two_byte_valid_def modbus_test_residue ccitt_test_residue
      intro!: arg_cong [of _ _ length] filter_cong)

text \<open>
  Every checksum of the tool detects every one-byte error: two byte strings that differ in one position
  have equal checksums only if they are equal.
\<close>

theorem one_byte_errors_detected:
  "(sum8 (xs @ b # ys) = sum8 (xs @ c # ys) \<longleftrightarrow> b = c)
   \<and> (twosComp8 (xs @ b # ys) = twosComp8 (xs @ c # ys) \<longleftrightarrow> b = c)
   \<and> (xor8 (xs @ b # ys) = xor8 (xs @ c # ys) \<longleftrightarrow> b = c)
   \<and> (crc16Modbus (xs @ b # ys) = crc16Modbus (xs @ c # ys) \<longleftrightarrow> b = c)
   \<and> (crc16CCITT (xs @ b # ys) = crc16CCITT (xs @ c # ys) \<longleftrightarrow> b = c)"
proof -
  have down: "(ucast (ucast w :: u16) :: byte) = w" for w :: byte
    by (rule bit_word_eqI) (simp add: bit_ucast_iff)
  show ?thesis
    unfolding sum8_def twosComp8_def xor8_def crc16Modbus_def crc16CCITT_def down ucast_byte_eq
    by (simp only: sum_reg.one_byte_error xor_reg.one_byte_error modbus_reg.one_byte_error
        ccitt_reg.one_byte_error neg_equal_iff_equal simp_thms)
qed

text \<open>
  An algorithm is reported as a candidate exactly when at least one frame is long enough to be tested and
  every such frame ends with the checksum of its body.
\<close>

theorem candidate_iff_all_frames_validate:
  "(candidate (testOneByte frames fn name skip) \<longleftrightarrow>
      (\<exists>fr \<in> set frames. skip + 1 < length fr)
      \<and> (\<forall>fr \<in> set frames. skip + 1 < length fr \<longrightarrow>
           fn (bslice fr skip (length fr - 1)) = ucast (fr ! (length fr - 1))))
   \<and> (candidate (testTwoByte frames fn name le skip) \<longleftrightarrow>
      (\<exists>fr \<in> set frames. skip + 3 \<le> length fr)
      \<and> (\<forall>fr \<in> set frames. skip + 3 \<le> length fr \<longrightarrow>
           fn (bslice fr skip (length fr - 2)) = two_byte_want le fr))"
  by (auto simp: candidate_def testOneByte_counts testTwoByte_counts length_filter_conj_eq
      one_byte_valid_def two_byte_valid_def filter_empty_conv)

theorem candidate_iff_all_frames_validate_witness:
  "candidate (testOneByte [[1, 2, 3], [9]] sum8 ''sum8'' 0)
   \<and> sum8 (bslice [1, 2, 3] 0 (length [1, 2, 3 :: byte] - 1)) = ucast ([1, 2, 3 :: byte] ! (length [1, 2, 3 :: byte] - 1))"
  using candidate_iff_all_frames_validate [of "[[1, 2, 3], [9]]" sum8 "''sum8''" 0]
  by (simp add: sum8_def bslice_def)

text \<open>
  The report ranks the twelve tests and nothing else: with a useful frame the result list is a permutation
  of the tests for both skips, in which a result never follows one with fewer hits, equal hits are in name
  order, and equal keys keep the generated order (skip 0 first); without a useful frame it is empty.
\<close>

theorem checksum_results_ranked:
  "(useful_frames frames = [] \<longrightarrow> checksum_results frames = [])
   \<and> (useful_frames frames \<noteq> [] \<longrightarrow>
        mset (checksum_results frames)
          = mset (tests_for (useful_frames frames) 0 @ tests_for (useful_frames frames) 1))
   \<and> sorted_wrt (\<lambda>x y. cr_hits y < cr_hits x \<or> (cr_hits x = cr_hits y \<and> cr_name x \<le> cr_name y))
       (checksum_results frames)
   \<and> (\<forall>k. filter (\<lambda>r. rank_key r = k) (checksum_results frames)
        = (if useful_frames frames = [] then []
           else filter (\<lambda>r. rank_key r = k)
             (tests_for (useful_frames frames) 0 @ tests_for (useful_frames frames) 1)))"
proof -
  let ?u = "useful_frames frames"
  have two: "[0..<2] = [0, 1::nat]" by (simp add: numeral_2_eq_2)
  have res: "checksum_results frames =
      (if ?u = [] then [] else sort_key rank_key (tests_for ?u 0 @ tests_for ?u 1))"
    by (simp only: checksum_results_def Let_def two list.map concat.simps append_Nil2)
  have "sorted (map rank_key (checksum_results frames))"
    unfolding res by (simp del: sort_key_simps)
  then have sorted: "sorted_wrt (\<lambda>x y. rank_key x \<le> rank_key y) (checksum_results frames)"
    by (simp add: sorted_map)
  have key: "sorted_wrt (\<lambda>x y. cr_hits y < cr_hits x \<or> (cr_hits x = cr_hits y \<and> cr_name x \<le> cr_name y))
      (checksum_results frames)"
    by (rule sorted_wrt_mono_rel [OF _ sorted]) (auto simp: rank_key_def less_eq_prod_def)
  have perm: "?u \<noteq> [] \<Longrightarrow> mset (checksum_results frames) = mset (tests_for ?u 0 @ tests_for ?u 1)"
    unfolding res by (simp only: if_False mset_sort)
  have stable: "?u \<noteq> [] \<Longrightarrow> filter (\<lambda>r. rank_key r = k) (checksum_results frames)
      = filter (\<lambda>r. rank_key r = k) (tests_for ?u 0 @ tests_for ?u 1)" for k
    unfolding res by (simp only: if_False sort_key_stable)
  show ?thesis
    using key perm stable res by (cases "?u = []") simp_all
qed

theorem checksum_results_ranked_witness:
  "checksum_results [[1, 2]] = [] \<and> mset (checksum_results [[1, 2, 3]])
     = mset (tests_for [[1, 2, 3]] 0 @ tests_for [[1, 2, 3]] 1)"
  using checksum_results_ranked [of "[[1, 2]]"] checksum_results_ranked [of "[[1, 2, 3]]"]
  by (simp add: useful_frames_def del: mset_append)

end
