(* ===== verification/Go_Std.thy ===== *)
theory Go_Std
  imports Rsdd_Prelude "HOL-Library.Char_ord"
begin

text \<open>
  The part of Go's standard library the modelled packages use: \<open>strings.Split\<close>, \<open>strconv.ParseUint\<close>, decimal
  and hexadecimal formatting.
\<close>

section \<open>Strings\<close>

text \<open>\<open>strings.Split(s, sep)\<close> for a one-byte separator: always at least one part, empty parts kept.\<close>

fun split_on :: "'a \<Rightarrow> 'a list \<Rightarrow> 'a list list" where
  "split_on c [] = [[]]"
| "split_on c (x # xs) =
     (if x = c then [] # split_on c xs
      else (case split_on c xs of [] \<Rightarrow> [[x]] | p # ps \<Rightarrow> (x # p) # ps))"

fun join_with :: "'a list \<Rightarrow> 'a list list \<Rightarrow> 'a list" where
  "join_with sep [] = []"
| "join_with sep [p] = p"
| "join_with sep (p # q # ps) = p @ sep @ join_with sep (q # ps)"

lemma split_on_nonempty [simp]: "split_on c s \<noteq> []"
  by (induction s) (auto split: list.splits)

lemma split_on_no_sep: "c \<notin> set s \<Longrightarrow> split_on c s = [s]"
  by (induction s) auto

lemma split_on_append: "c \<notin> set p \<Longrightarrow> split_on c (p @ c # s) = p # split_on c s"
  by (induction p) auto

lemma split_on_parts: "p \<in> set (split_on c s) \<Longrightarrow> c \<notin> set p"
  by (induction s arbitrary: p) (auto split: list.splits if_splits)

lemma join_split: "join_with [c] (split_on c s) = s"
proof (induction s)
  case Nil
  show ?case by simp
next
  case (Cons x xs)
  then show ?case
    by (cases "split_on c xs" rule: remdups_adj.cases) (auto split: list.splits)
qed

lemma split_on_append_sep: "split_on c (p @ c # s) = split_on c p @ split_on c s"
  by (induction p) (auto split: list.splits)

lemma join_with_append:
  "xs \<noteq> [] \<Longrightarrow> ys \<noteq> [] \<Longrightarrow> join_with sep (xs @ ys) = join_with sep xs @ sep @ join_with sep ys"
proof (induction sep xs rule: join_with.induct)
  case (2 sep p)
  then show ?case by (cases ys) simp_all
qed simp_all

lemma split_join:
  "ps \<noteq> [] \<Longrightarrow> (\<And>p. p \<in> set ps \<Longrightarrow> c \<notin> set p) \<Longrightarrow> split_on c (join_with [c] ps) = ps"
  by (induction "[c]" ps rule: join_with.induct) (auto simp: split_on_no_sep split_on_append)

section \<open>Numbers\<close>

definition digit_char :: "nat \<Rightarrow> char" where
  "digit_char d = (char_of (if d < 10 then 48 + d else 55 + d) :: char)"

text \<open>\<open>%d\<close> of a non-negative integer, and \<open>%0wX\<close>.\<close>

fun dec_str :: "nat \<Rightarrow> string" where
  "dec_str n = (if n < 10 then [digit_char n] else dec_str (n div 10) @ [digit_char (n mod 10)])"

declare dec_str.simps [simp del]

fun hex_digits :: "nat \<Rightarrow> nat \<Rightarrow> string" where
  "hex_digits 0 n = []"
| "hex_digits (Suc w) n = hex_digits w (n div 16) @ [digit_char (n mod 16)]"

text \<open>Lower-case hexadecimal: \<open>%0wx\<close> of a number of at most \<open>w\<close> digits, and \<open>hex.EncodeToString\<close>.\<close>

definition hex_low :: "nat \<Rightarrow> nat \<Rightarrow> string" where
  \<comment> \<open>\<open>%0wx\<close>\<close>
  "hex_low w n = map (\<lambda>i. let d = n div 16 ^ i mod 16 in char_of (if d < 10 then 48 + d else 87 + d)) (rev [0..<w])"

definition hex_string :: "bytes \<Rightarrow> string" where
  \<comment> \<open>\<open>hex.EncodeToString\<close>\<close>
  "hex_string bs = concat (map (\<lambda>b. hex_low 2 (unat b)) bs)"

text \<open>The value of a digit character (either case), as \<open>strconv\<close> reads it.\<close>

definition digit_val :: "char \<Rightarrow> nat option" where
  "digit_val c =
     (let n = (of_char c :: nat)
      in if 48 \<le> n \<and> n \<le> 57 then Some (n - 48)
         else if 97 \<le> n \<and> n \<le> 122 then Some (n - 87)
         else if 65 \<le> n \<and> n \<le> 90 then Some (n - 55)
         else None)"

fun digits_val :: "nat \<Rightarrow> nat \<Rightarrow> string \<Rightarrow> nat option" where
  "digits_val base acc [] = Some acc"
| "digits_val base acc (c # cs) =
     (case digit_val c of
        None \<Rightarrow> None
      | Some d \<Rightarrow> if d < base then digits_val base (base * acc + d) cs else None)"

text \<open>\<open>strconv.ParseUint(s, base, bits)\<close> for a given base: \<open>None\<close> for a syntax or a range error.\<close>

definition parse_uint :: "nat \<Rightarrow> nat \<Rightarrow> string \<Rightarrow> nat option" where
  "parse_uint base bits s =
     (if s = [] then None
      else case digits_val base 0 s of
             None \<Rightarrow> None
           | Some n \<Rightarrow> if n < 2 ^ bits then Some n else None)"

lemma digit_val_char: "d < 10 \<Longrightarrow> digit_val (digit_char d) = Some d"
  by (simp add: digit_val_def digit_char_def Let_def)

lemma digits_val_append:
  "digits_val base acc (xs @ ys) =
     (case digits_val base acc xs of None \<Rightarrow> None | Some a \<Rightarrow> digits_val base a ys)"
  by (induction xs arbitrary: acc) (auto split: option.splits)

lemma digits_val_dec_str: "digits_val 10 0 (dec_str n) = Some n"
proof (induction n rule: dec_str.induct)
  case (1 n)
  then show ?case
    by (cases "n < 10")
      (simp_all add: dec_str.simps [of n] digits_val_append digit_val_char)
qed

lemma dec_str_nonempty [simp]: "dec_str n \<noteq> []"
  by (subst dec_str.simps) simp

lemma dec_str_digits: "c \<in> set (dec_str n) \<Longrightarrow> \<exists>d < 10. c = digit_char d"
proof (induction n rule: dec_str.induct)
  case (1 n)
  then show ?case
    by (cases "n < 10") (auto simp: dec_str.simps [of n] intro: exI [of _ "n mod 10"])
qed

lemma parse_uint_dec_str: "n < 2 ^ bits \<Longrightarrow> parse_uint 10 bits (dec_str n) = Some n"
  by (simp add: parse_uint_def digits_val_dec_str)

lemma dec_str_leading_zero: "hd (dec_str n) = digit_char 0 \<Longrightarrow> n = 0"
proof (induction n rule: dec_str.induct)
  case (1 n)
  show ?case
  proof (cases "n < 10")
    case True
    with 1 show ?thesis by (simp add: dec_str.simps [of n] digit_char_def)
  next
    case False
    with 1 have "n div 10 = 0" by (simp add: dec_str.simps [of n])
    with False show ?thesis by simp
  qed
qed

end
