(* ===== verification/Bacnet_Wire.thy ===== *)
theory Bacnet_Wire
  imports Go_Std
begin

text \<open>
  The BACnet/IP frames of \<open>internal/bacnet/wire.go\<close> and the address reading of \<open>link.go\<close>. A byte-slice index
  that the source does not guard itself is a read that may panic, so the absence of panics is a theorem.
\<close>

section \<open>Frames\<close>

definition bvlcType :: byte where "bvlcType = 0x81"
definition fnOriginalUnicast :: byte where "fnOriginalUnicast = 0x0A"
definition fnOriginalBroadcast :: byte where "fnOriginalBroadcast = 0x0B"
definition fnForwardedNPDU :: byte where "fnForwardedNPDU = 0x04"
definition fnReadBDT :: byte where "fnReadBDT = 0x02"
definition fnReadBDTAck :: byte where "fnReadBDTAck = 0x03"
definition fnReadFDT :: byte where "fnReadFDT = 0x06"
definition fnReadFDTAck :: byte where "fnReadFDTAck = 0x07"
definition apduUnconfirmed :: byte where "apduUnconfirmed = 0x10"
definition svcWhoIs :: byte where "svcWhoIs = 0x08"
definition svcIAm :: byte where "svcIAm = 0x00"

lemmas wire_consts = bvlcType_def fnOriginalUnicast_def fnOriginalBroadcast_def fnForwardedNPDU_def
  fnReadBDT_def fnReadBDTAck_def fnReadFDT_def fnReadFDTAck_def apduUnconfirmed_def svcWhoIs_def svcIAm_def

definition bvlc :: "byte \<Rightarrow> bytes \<Rightarrow> bytes" where
  "bvlc fn payload =
     (let n = 4 + length payload
      in [bvlcType, fn, word_of_nat (n div 256), word_of_nat n] @ payload)"

definition buildWhoIs :: "bool \<Rightarrow> bytes" where
  "buildWhoIs broadcast =
     bvlc (if broadcast then fnOriginalBroadcast else fnOriginalUnicast) [0x01, 0x00, apduUnconfirmed, svcWhoIs]"

definition buildReadBDT :: bytes where "buildReadBDT = bvlc fnReadBDT []"

definition buildReadFDT :: bytes where "buildReadFDT = bvlc fnReadFDT []"

definition be16_at :: "bytes \<Rightarrow> nat \<Rightarrow> nat" where
  \<comment> \<open>\<open>int(b[i])<<8 | int(b[i+1])\<close>\<close>
  "be16_at b i = 256 * unat (b ! i) + unat (b ! (i + 1))"

definition parseBVLC :: "bytes \<Rightarrow> (byte \<times> bytes) option" where
  "parseBVLC data =
     (if length data < 4 \<or> data ! 0 \<noteq> bvlcType then None
      else let ln = be16_at data 2
           in Some (data ! 1, bslice data 4 (max 4 (min ln (length data)))))"

definition parseIAm :: "bytes \<Rightarrow> u32 option" where
  "parseIAm apdu =
     (if take 2 apdu \<noteq> [apduUnconfirmed, svcIAm] then None
      else let body = drop 2 apdu
           in if length body < 5 \<or> body ! 0 \<noteq> 0xC4 then None
              else let id = push_bit 24 (ucast (body ! 1)) OR push_bit 16 (ucast (body ! 2))
                            OR push_bit 8 (ucast (body ! 3)) OR ucast (body ! 4)
                   in if drop_bit 22 id \<noteq> 8 then None else Some (id AND 0x3FFFFF))"

text \<open>A byte read that panics when it is out of range.\<close>

definition idx :: "bytes \<Rightarrow> nat \<Rightarrow> ('e, byte) res" where
  "idx b i = (if i < length b then Ok (b ! i) else Panic)"

text \<open>The skip of one address specifier: \<open>Fail ()\<close> is the early \<open>return 0, false\<close>.\<close>

definition skip_addr :: "bytes \<Rightarrow> byte \<Rightarrow> byte \<Rightarrow> nat \<Rightarrow> (unit, nat) res" where
  "skip_addr npdu ctrl bitmask i =
     (if ctrl AND bitmask \<noteq> 0
      then if length npdu \<le> i + 2 then Fail ()
           else andthen (idx npdu (i + 2)) (\<lambda>l. Ok (i + (3 + unat l)))
      else Ok i)"

definition npdu_of :: "byte \<Rightarrow> bytes \<Rightarrow> bytes option" where
  "npdu_of fn payload =
     (if fn = fnOriginalUnicast \<or> fn = fnOriginalBroadcast then Some payload
      else if fn = fnForwardedNPDU then Some (drop (min 6 (length payload)) payload)
      else None)"

definition extractIAm :: "byte \<Rightarrow> bytes \<Rightarrow> (unit, u32) res" where
  "extractIAm fn payload =
     (case npdu_of fn payload of
        None \<Rightarrow> Fail ()
      | Some npdu \<Rightarrow>
          if length npdu \<le> 1 then Fail ()
          else andthen (idx npdu 1) (\<lambda>ctrl.
               andthen (skip_addr npdu ctrl 0x20 2) (\<lambda>i.
               andthen (skip_addr npdu ctrl 0x08 i) (\<lambda>j.
                 let k = (if ctrl AND 0x20 \<noteq> 0 then j + 1 else j)
                 in case parseIAm (drop (min k (length npdu)) npdu) of None \<Rightarrow> Fail () | Some inst \<Rightarrow> Ok inst))))"

definition dotted4 :: "byte \<Rightarrow> byte \<Rightarrow> byte \<Rightarrow> byte \<Rightarrow> string" where
  "dotted4 a b c d = join_with ''.'' (map (\<lambda>x. dec_str (unat x)) [a, b, c, d])"

definition addr6 :: "bytes \<Rightarrow> string" where
  "addr6 b = dotted4 (b ! 0) (b ! 1) (b ! 2) (b ! 3) @ '':0x'' @ hex_digits 4 (be16_at b 4)"

record bdt_entry =
  bdt_addr :: string
  bdt_mask :: string

record fdt_entry =
  fdt_addr :: string
  fdt_ttl :: nat
  fdt_remaining :: nat

definition bdt_entry_at :: "bytes \<Rightarrow> nat \<Rightarrow> bdt_entry" where
  "bdt_entry_at p i =
     \<lparr>bdt_addr = addr6 (bslice p i (i + 6)),
      bdt_mask = dotted4 (p ! (i + 6)) (p ! (i + 7)) (p ! (i + 8)) (p ! (i + 9))\<rparr>"

definition fdt_entry_at :: "bytes \<Rightarrow> nat \<Rightarrow> fdt_entry" where
  "fdt_entry_at p i =
     \<lparr>fdt_addr = addr6 (bslice p i (i + 6)), fdt_ttl = be16_at p (i + 6), fdt_remaining = be16_at p (i + 8)\<rparr>"

text \<open>The loop \<open>for i := 0; i+10 <= len(payload); i += 10\<close> of both acks.\<close>

function records10 :: "(bytes \<Rightarrow> nat \<Rightarrow> 'a) \<Rightarrow> bytes \<Rightarrow> nat \<Rightarrow> 'a list" where
  "records10 f p i = (if i + 10 \<le> length p then f p i # records10 f p (i + 10) else [])"
  by pat_completeness auto
termination
  by (relation "measure (\<lambda>(f, p, i). length p - i)") auto

declare records10.simps [simp del]

definition parseBDTAck :: "bytes \<Rightarrow> bdt_entry list option" where
  "parseBDTAck data =
     (case parseBVLC data of
        None \<Rightarrow> None
      | Some (fn, payload) \<Rightarrow> if fn \<noteq> fnReadBDTAck then None else Some (records10 bdt_entry_at payload 0))"

definition parseFDTAck :: "bytes \<Rightarrow> fdt_entry list option" where
  "parseFDTAck data =
     (case parseBVLC data of
        None \<Rightarrow> None
      | Some (fn, payload) \<Rightarrow> if fn \<noteq> fnReadFDTAck then None else Some (records10 fdt_entry_at payload 0))"

definition first3 :: "string \<Rightarrow> string list" where
  "first3 s = (let p = split_on (CHR ''.'') s in take (min 3 (length p)) p)"

definition sameSlash24 :: "string \<Rightarrow> string \<Rightarrow> bool" where
  "sameSlash24 a b \<longleftrightarrow> first3 a = first3 b"

section \<open>Addresses\<close>

text \<open>\<open>inetAton\<close>: one part's base and digits, then the parts in order.\<close>

definition inet_part :: "string \<Rightarrow> nat option" where
  "inet_part p =
     (let (base, digits) =
        (if length p > 2 \<and> (take 2 p = ''0x'' \<or> take 2 p = ''0X'') then (16, drop 2 p)
         else if length p > 1 \<and> p ! 0 = CHR ''0'' then (8, drop 1 p)
         else (10, p))
      in if list_ex (\<lambda>c. c \<in> set ''+-_'') digits then None else parse_uint base 32 digits)"

fun inet_parts :: "nat \<Rightarrow> nat \<Rightarrow> string list \<Rightarrow> u64 \<Rightarrow> u64 option" where
  "inet_parts n i [] v = Some v"
| "inet_parts n i (p # ps) v =
     (if p = [] then None
      else case inet_part p of
        None \<Rightarrow> None
      | Some x \<Rightarrow>
          if i < n - 1
          then if x > 255 then None
               else inet_parts n (i + 1) ps (v OR push_bit (8 * (3 - i)) (word_of_nat x))
          else if x \<ge> 2 ^ (8 * (5 - n)) then None
               else inet_parts n (i + 1) ps (v OR word_of_nat x))"

definition inetAton :: "string \<Rightarrow> bytes option" where
  "inetAton s =
     (let parts = split_on (CHR ''.'') s
      in if length parts > 4 then None
         else case inet_parts (length parts) 0 parts 0 of
                None \<Rightarrow> None
              | Some v \<Rightarrow> Some [ucast (drop_bit 24 v), ucast (drop_bit 16 v), ucast (drop_bit 8 v), ucast v])"

record pyError =
  pe_kind :: string
  pe_msg :: string

definition checkPort :: "int \<Rightarrow> string \<Rightarrow> pyError option" where
  "checkPort p caller =
     (if p < 0 \<or> p > 0xffff
      then Some \<lparr>pe_kind = ''OverflowError'', pe_msg = caller @ ''(): port must be 0-65535.''\<rparr>
      else None)"

text \<open>
  The resolver is outside the program: it returns IP addresses (4 or 16 bytes) or fails, with the two flags of
  \<open>net.DNSError\<close> when the failure is one.
\<close>

datatype lookup_error = DNSError bool bool | OtherError

definition unmap4 :: "bytes \<Rightarrow> bytes option" where
  \<comment> \<open>\<open>netip.AddrFromSlice\<close>, then \<open>Unmap\<close>: an IPv4 address, plain or IPv4-mapped\<close>
  "unmap4 ip =
     (if length ip = 4 then Some ip
      else if length ip = 16 \<and> take 12 ip = replicate 10 0 @ [0xff, 0xff] then Some (drop 12 ip)
      else None)"

definition resolveIPv4 :: "(string \<Rightarrow> lookup_error + bytes list) \<Rightarrow> string \<Rightarrow> pyError + bytes" where
  "resolveIPv4 lookupIPv4 host =
     (if host = [] then Inr [0, 0, 0, 0]
      else if host = ''<broadcast>'' then Inr [255, 255, 255, 255]
      else case inetAton host of
        Some a \<Rightarrow> Inr a
      | None \<Rightarrow>
          (case lookupIPv4 host of
             Inr ips \<Rightarrow>
               (case List.map_filter unmap4 ips of
                  a # _ \<Rightarrow> Inr a
                | [] \<Rightarrow> Inl \<lparr>pe_kind = ''OSError'', pe_msg = ''[Errno -2] Name or service not known''\<rparr>)
           | Inl (DNSError temporary not_found) \<Rightarrow>
               if temporary \<and> \<not> not_found
               then Inl \<lparr>pe_kind = ''OSError'', pe_msg = ''[Errno -3] Temporary failure in name resolution''\<rparr>
               else Inl \<lparr>pe_kind = ''OSError'', pe_msg = ''[Errno -2] Name or service not known''\<rparr>
           | Inl OtherError \<Rightarrow> Inl \<lparr>pe_kind = ''OSError'', pe_msg = ''[Errno -2] Name or service not known''\<rparr>))"

section \<open>Frames that are built are read back\<close>

lemma be16_hi_lo: "n < 65536 \<Longrightarrow>
    256 * unat (word_of_nat (n div 256) :: byte) + unat (word_of_nat n :: byte) = n"
  by (simp add: unat_of_nat take_bit_eq_mod)

lemma be16_at_len:
  "be16_at ([t, fn, word_of_nat (n div 256), word_of_nat n] @ p) 2 = n mod 65536"
proof -
  have "(n div 256) mod 256 * 256 + n mod 256 = n mod 65536"
    using mod_mult2_eq [of n 256 256] by simp
  then show ?thesis by (simp add: be16_at_def unat_of_nat take_bit_eq_mod)
qed

lemma bvlc_parse:
  "parseBVLC (bvlc fn payload) = Some (fn, take ((4 + length payload) mod 65536 - 4) payload)"
proof -
  let ?n = "4 + length payload"
  let ?d = "[bvlcType, fn, word_of_nat (?n div 256), word_of_nat ?n] @ payload"
  have ln: "be16_at ?d 2 = ?n mod 65536" by (rule be16_at_len)
  have "?n mod 65536 \<le> ?n" by simp
  then have "max 4 (min (?n mod 65536) ?n) - 4 = ?n mod 65536 - 4" by simp
  then show ?thesis
    unfolding bvlc_def Let_def parseBVLC_def ln by (simp add: bslice_def)
qed

text \<open>
  A frame that is built is read back: \<open>parseBVLC\<close> of \<open>bvlc fn payload\<close> gives the function code and the
  payload, cut to what the 16-bit length field can count (the length wraps modulo 65536), so a payload of up
  to 65531 bytes comes back whole; and what is read from any datagram is at most what follows the header.
\<close>

theorem parse_bvlc_roundtrip:
  "parseBVLC (bvlc fn payload) = Some (fn, take ((4 + length payload) mod 65536 - 4) payload)
   \<and> (length payload < 65532 \<longrightarrow> parseBVLC (bvlc fn payload) = Some (fn, payload))
   \<and> (\<forall>data fn' p. parseBVLC data = Some (fn', p) \<longrightarrow>
        (\<exists>rest. drop 4 data = p @ rest) \<and> data ! 1 = fn' \<and> length p + 4 \<le> max 4 (be16_at data 2))"
  unfolding bvlc_parse by (auto simp: parseBVLC_def bslice_def Let_def split: if_splits) (metis append_take_drop_id)

theorem parse_bvlc_roundtrip_witness:
  "parseBVLC (bvlc fnReadBDT [1, 2]) = Some (fnReadBDT, [1, 2])
   \<and> drop 4 (bvlc fnReadBDT [1, 2]) = [1, 2] @ []"
  using parse_bvlc_roundtrip [of fnReadBDT "[1, 2]"] by (simp add: bvlc_def)

section \<open>I-Am\<close>

definition encode_IAm :: "u32 \<Rightarrow> bytes" where
  "encode_IAm inst =
     (let obj = 0x02000000 OR inst
      in [apduUnconfirmed, svcIAm, 0xC4, ucast (drop_bit 24 obj), ucast (drop_bit 16 obj),
          ucast (drop_bit 8 obj), ucast obj])"

lemma recombine32:
  "push_bit 24 (ucast (ucast (drop_bit 24 x) :: byte)) OR push_bit 16 (ucast (ucast (drop_bit 16 x) :: byte))
     OR push_bit 8 (ucast (ucast (drop_bit 8 x) :: byte)) OR ucast (ucast x :: byte) = (x :: u32)"
proof (rule bit_word_eqI)
  fix n assume "n < LENGTH(32)"
  then consider "n < 8" | "8 \<le> n" "n < 16" | "16 \<le> n" "n < 24" | "24 \<le> n" "n < 32" by fastforce
  then show "bit (push_bit 24 (ucast (ucast (drop_bit 24 x) :: byte)) OR push_bit 16 (ucast (ucast (drop_bit 16 x) :: byte))
     OR push_bit 8 (ucast (ucast (drop_bit 8 x) :: byte)) OR ucast (ucast x :: byte) :: u32) n = bit x n"
    by cases (auto simp: bit_or_iff bit_push_bit_iff bit_ucast_iff bit_drop_bit_eq)
qed

lemma parse_object:
  "parseIAm ([apduUnconfirmed, svcIAm, 0xC4, ucast (drop_bit 24 obj), ucast (drop_bit 16 obj),
      ucast (drop_bit 8 obj), ucast obj] @ rest)
    = (if drop_bit 22 obj \<noteq> 8 then None else Some (obj AND 0x3FFFFF))"
  by (simp add: parseIAm_def Let_def recombine32)

lemma parse_encode_IAm:
  assumes "inst AND 0x3FFFFF = inst"
  shows "parseIAm (encode_IAm inst @ rest) = Some inst"
proof -
  have mask22: "(0x3FFFFF :: u32) = mask 22" by (simp add: mask_eq_exp_minus_1)
  have lt: "\<not> bit inst n" if "22 \<le> n" for n
  proof -
    have "\<not> bit (0x3FFFFF :: u32) n"
      unfolding mask22 by (simp only: bit_mask_iff) (use that in simp)
    then show ?thesis using assms by (metis bit_and_iff)
  qed
  have top: "drop_bit 22 (0x02000000 OR inst) = 8"
    by (rule bit_word_eqI) (auto simp: bit_drop_bit_eq bit_or_iff lt)
  have low: "(0x02000000 OR inst) AND 0x3FFFFF = inst"
    using assms by (simp add: and.commute bit.conj_disj_distrib)
  show ?thesis
    unfolding encode_IAm_def Let_def parse_object using top low by simp
qed


text \<open>
  An NPDU with the optional DNET and SNET specifiers the reader skips (network number, address length,
  address), the hop count that follows when a DNET is present, then the APDU.
\<close>

definition specifier :: "(byte \<times> byte \<times> bytes) option \<Rightarrow> bytes" where
  "specifier s = (case s of None \<Rightarrow> [] | Some (hi, lo, addr) \<Rightarrow> [hi, lo, word_of_nat (length addr)] @ addr)"

definition specifier_ok :: "(byte \<times> byte \<times> bytes) option \<Rightarrow> bool" where
  "specifier_ok s = (case s of None \<Rightarrow> True | Some (hi, lo, addr) \<Rightarrow> length addr < 256)"

definition npdu_frame ::
    "(byte \<times> byte \<times> bytes) option \<Rightarrow> (byte \<times> byte \<times> bytes) option \<Rightarrow> byte \<Rightarrow> bytes \<Rightarrow> bytes" where
  "npdu_frame dnet snet hop apdu =
     [0x01, (if dnet = None then 0 else 0x20) OR (if snet = None then 0 else 0x08)]
     @ specifier dnet @ specifier snet @ (if dnet = None then [] else [hop]) @ apdu"

lemma skip_addr_specifier:
  assumes "specifier_ok s" and "(ctrl AND b \<noteq> 0) = (s \<noteq> None)"
  shows "skip_addr (pre @ specifier s @ rest) ctrl b (length pre) = Ok (length pre + length (specifier s))"
proof (cases s)
  case None
  then show ?thesis using assms by (simp add: skip_addr_def specifier_def)
next
  case (Some x)
  obtain hi lo addr where x: "x = (hi, lo, addr)" by (cases x)
  have len: "unat (word_of_nat (length addr) :: byte) = length addr"
    using assms(1) Some x by (simp add: specifier_ok_def unat_of_nat take_bit_eq_mod)
  have "(pre @ specifier s @ rest) ! (length pre + 2) = word_of_nat (length addr)"
    using Some x by (simp add: specifier_def nth_append)
  then show ?thesis
    using assms Some x len by (simp add: skip_addr_def specifier_def idx_def)
qed

lemma extract_npdu_frame:
  assumes "npdu_of fn payload = Some (npdu_frame dnet snet hop apdu)"
    and "specifier_ok dnet" and "specifier_ok snet" and "parseIAm apdu = Some inst"
  shows "extractIAm fn payload = Ok inst"
proof -
  define ctrl :: byte where "ctrl = (if dnet = None then 0 else 0x20) OR (if snet = None then 0 else 0x08)"
  define tail where "tail = (if dnet = None then [] else [hop]) @ apdu"
  define npdu where "npdu = npdu_frame dnet snet hop apdu"
  let ?k = "2 + length (specifier dnet) + length (specifier snet)"
  have d: "(ctrl AND 0x20 \<noteq> 0) = (dnet \<noteq> None)" and s: "(ctrl AND 0x08 \<noteq> 0) = (snet \<noteq> None)"
    by (simp_all add: ctrl_def)
  have frame: "npdu = [0x01, ctrl] @ specifier dnet @ specifier snet @ tail"
    by (simp only: npdu_def npdu_frame_def ctrl_def tail_def append_assoc)
  have s1: "skip_addr npdu ctrl 0x20 2 = Ok (2 + length (specifier dnet))"
    using skip_addr_specifier [OF assms(2) d, of "[0x01, ctrl]" "specifier snet @ tail"] by (simp add: frame numeral_2_eq_2)
  have s2: "skip_addr npdu ctrl 0x08 (2 + length (specifier dnet)) = Ok ?k"
    using skip_addr_specifier [OF assms(3) s, of "[0x01, ctrl] @ specifier dnet" tail] by (simp add: frame)
  have hop: "drop (if ctrl AND 0x20 \<noteq> 0 then ?k + 1 else ?k) npdu = apdu"
    unfolding d frame by (simp add: tail_def)
  have le: "(if ctrl AND 0x20 \<noteq> 0 then ?k + 1 else ?k) \<le> length npdu"
    unfolding d frame by (simp add: tail_def)
  have c: "idx npdu 1 = Ok ctrl" and l: "\<not> length npdu \<le> 1"
    by (simp_all add: frame idx_def)
  show ?thesis
    unfolding extractIAm_def assms(1) npdu_def [symmetric] option.case
    by (simp only: c l if_False andthen.simps s1 s2 Let_def min_absorb1 [OF le] hop assms(4) option.case)
qed
text \<open>
  An I-Am is found wherever the network layer puts it: for every device instance of 22 bits, whatever DNET
  and SNET specifiers the NPDU carries (any network, any address of up to 255 bytes, the hop count included),
  in an original unicast, an original broadcast, and behind the 6-byte address of a forwarded NPDU.
\<close>

theorem iam_found:
  assumes "inst AND 0x3FFFFF = inst" and "specifier_ok dnet" and "specifier_ok snet" and "length origin = 6"
  shows "extractIAm fnOriginalUnicast (npdu_frame dnet snet hop (encode_IAm inst @ rest)) = Ok inst
    \<and> extractIAm fnOriginalBroadcast (npdu_frame dnet snet hop (encode_IAm inst @ rest)) = Ok inst
    \<and> extractIAm fnForwardedNPDU (origin @ npdu_frame dnet snet hop (encode_IAm inst @ rest)) = Ok inst"
proof -
  note found = extract_npdu_frame [OF _ assms(2,3) parse_encode_IAm [OF assms(1)]]
  show ?thesis
    by (intro conjI found) (use assms(4) in \<open>simp_all add: npdu_of_def wire_consts\<close>)
qed

theorem iam_found_witness:
  "extractIAm fnForwardedNPDU ([10, 0, 0, 1, 0xBA, 0xC0]
     @ npdu_frame (Some (0, 5, [7])) None 255 (encode_IAm 1234 @ [1])) = Ok 1234"
  using iam_found [of 1234 "Some (0, 5, [7])" None "[10, 0, 0, 1, 0xBA, 0xC0]" 255 "[1]"]
  by (simp add: specifier_ok_def)

text \<open>
  Whatever the datagram holds, \<open>extractIAm\<close> never reads out of range, and an instance it returns has at
  most 22 bits.
\<close>

theorem extractIAm_safe:
  "case extractIAm fn payload of Panic \<Rightarrow> False | Fail _ \<Rightarrow> True | Ok inst \<Rightarrow> unat inst < 2 ^ 22"
proof -
  have bound: "unat inst < 2 ^ 22" if "parseIAm apdu = Some inst" for apdu inst
  proof -
    from that obtain w :: u32 where "inst = w AND 0x3FFFFF"
      by (auto simp: parseIAm_def Let_def split: if_splits)
    then have "unat inst \<le> unat (0x3FFFFF :: u32)"
      by (simp only: word_le_nat_alt [symmetric] word_and_le1)
    then show ?thesis by simp
  qed
  have safe: "extractIAm fn payload \<noteq> Panic"
    by (auto simp: extractIAm_def Let_def res_simps skip_addr_def idx_def split: option.splits if_splits)
  have found: "\<exists>apdu. parseIAm apdu = Some inst" if "extractIAm fn payload = Ok inst" for inst
    using that by (auto simp: extractIAm_def Let_def res_simps split: option.splits if_splits)
  show ?thesis
    using safe found bound by (auto split: res.split)
qed

lemma records10_nth:
  "records10 f p i = map (\<lambda>k. f p (i + 10 * k)) [0..<(length p - i) div 10]"
proof (induction f p i rule: records10.induct)
  case (1 f p i)
  show ?case
  proof (cases "i + 10 \<le> length p")
    case True
    then have n: "(length p - i) div 10 = Suc ((length p - (i + 10)) div 10)"
      by (simp add: div_if [of "length p - i"])
    have "records10 f p i = f p i # map (\<lambda>k. f p (i + 10 + 10 * k)) [0..<(length p - (i + 10)) div 10]"
      using True 1 by (subst records10.simps) simp
    also have "\<dots> = map (\<lambda>k. f p (i + 10 * k)) [0..<Suc ((length p - (i + 10)) div 10)]"
      by (simp add: upt_conv_Cons map_Suc_upt [symmetric] del: upt_Suc) (simp add: o_def algebra_simps)
    finally show ?thesis by (simp only: n)
  next
    case False
    then show ?thesis by (subst records10.simps) simp
  qed
qed

text \<open>
  Both table acks list exactly the whole 10-byte records of the payload, in order; a trailing partial
  record is ignored. A frame of another function is no ack.
\<close>

theorem table_acks_list_whole_records:
  "(parseBDTAck (bvlc fnReadBDTAck payload) =
      (let p = take ((4 + length payload) mod 65536 - 4) payload
       in Some (map (\<lambda>k. bdt_entry_at p (10 * k)) [0..<length p div 10])))
   \<and> (parseFDTAck (bvlc fnReadFDTAck payload) =
      (let p = take ((4 + length payload) mod 65536 - 4) payload
       in Some (map (\<lambda>k. fdt_entry_at p (10 * k)) [0..<length p div 10])))
   \<and> (fn \<noteq> fnReadBDTAck \<longrightarrow> parseBDTAck (bvlc fn payload) = None)
   \<and> (fn \<noteq> fnReadFDTAck \<longrightarrow> parseFDTAck (bvlc fn payload) = None)"
  unfolding parseBDTAck_def parseFDTAck_def
  by (simp add: bvlc_parse records10_nth Let_def wire_consts)

theorem table_acks_list_whole_records_witness:
  "parseBDTAck (bvlc fnReadFDTAck [1]) = None \<and> parseFDTAck (bvlc fnReadBDTAck [1]) = None"
  using table_acks_list_whole_records [of "[1]" fnReadFDTAck] table_acks_list_whole_records [of "[1]" fnReadBDTAck]
  by (simp add: wire_consts)

section \<open>Dotted addresses\<close>

lemma digit_char_less: "d < 10 \<Longrightarrow> (of_char (digit_char d) :: nat) = 48 + d"
  by (simp add: digit_char_def)

lemma digit_char_0: "digit_char 0 = CHR ''0''"
  by code_simp

lemma dec_str_no_special:
  assumes "c \<in> set (dec_str n)"
  shows "c \<noteq> CHR ''.'' \<and> c \<noteq> CHR ''+'' \<and> c \<noteq> CHR ''-'' \<and> c \<noteq> CHR ''_'' \<and> c \<noteq> CHR ''x'' \<and> c \<noteq> CHR ''X''"
proof -
  from dec_str_digits [OF assms] obtain d where d: "d < 10" "c = digit_char d" by blast
  then have "(of_char c :: nat) = 48 + d" by (simp add: digit_char_less)
  with d show ?thesis by auto
qed

lemma dec_str_inj: "dec_str m = dec_str n \<longleftrightarrow> m = n"
  by (metis digits_val_dec_str option.inject)

lemma split_dotted4:
  "split_on (CHR ''.'') (dotted4 a b c d) = map (\<lambda>x. dec_str (unat x)) [a, b, c, d]"
  unfolding dotted4_def by (rule split_join) (auto dest: dec_str_no_special)

lemma dec_str_hd_zero: "length (dec_str n) > 1 \<Longrightarrow> dec_str n ! 0 \<noteq> CHR ''0''"
proof
  assume len: "length (dec_str n) > 1" and "dec_str n ! 0 = CHR ''0''"
  then have "hd (dec_str n) = digit_char 0" by (simp add: hd_conv_nth digit_char_0)
  then have "n = 0" by (rule dec_str_leading_zero)
  with len show False by (simp add: dec_str.simps [of 0])
qed

lemma inet_part_dec: "n < 2 ^ 32 \<Longrightarrow> inet_part (dec_str n) = Some n"
proof -
  assume n: "n < 2 ^ 32"
  have hex: "\<not> (length (dec_str n) > 2 \<and> (take 2 (dec_str n) = ''0x'' \<or> take 2 (dec_str n) = ''0X''))"
  proof
    assume h: "length (dec_str n) > 2 \<and> (take 2 (dec_str n) = ''0x'' \<or> take 2 (dec_str n) = ''0X'')"
    then have "take 2 (dec_str n) ! 0 = CHR ''0''"
      by (metis nth_Cons_0)
    then have "dec_str n ! 0 = CHR ''0''" by simp
    then show False using dec_str_hd_zero [of n] h by simp
  qed
  have oct: "\<not> (length (dec_str n) > 1 \<and> dec_str n ! 0 = CHR ''0'')"
    using dec_str_hd_zero [of n] by auto
  have sign: "\<not> list_ex (\<lambda>c. c \<in> set ''+-_'') (dec_str n)"
    by (auto simp: list_ex_iff dest: dec_str_no_special)
  show ?thesis
    unfolding inet_part_def if_not_P [OF hex] if_not_P [OF oct] Let_def prod.case if_not_P [OF sign]
    by (rule parse_uint_dec_str [OF n])
qed

lemma four_bytes_or:
  "(word_of_nat (unat (b :: byte)) :: u64) = ucast b"
  by (rule bit_word_eqI) (simp add: bit_simps)

text \<open>
  \<open>inetAton\<close> reads every dotted-decimal address back to its four bytes, so the resolver never looks such a
  host up.
\<close>

theorem inetAton_dotted:
  "inetAton (dotted4 a b c d) = Some [a, b, c, d]
   \<and> resolveIPv4 lookup (dotted4 a b c d) = Inr [a, b, c, d]"
proof -
  have lt: "unat (x :: byte) < 256" for x using unsigned_less [of x, where 'a = nat] by simp
  have part: "inet_part (dec_str (unat (x :: byte))) = Some (unat x)" for x
    using lt [of x] by (intro inet_part_dec) simp
  have le: "\<not> 255 < unat (x :: byte)" for x using lt [of x] by simp
  have len: "length (map (\<lambda>x. dec_str (unat x)) [a, b, c, d]) = 4" by simp
  let ?v = "push_bit 24 (ucast a) OR push_bit 16 (ucast b) OR push_bit 8 (ucast c) OR ucast d :: u64"
  have v: "inet_parts 4 0 (map (\<lambda>x. dec_str (unat x)) [a, b, c, d]) 0 = Some ?v"
    using le [of a] le [of b] le [of c] lt [of d]
    by (simp add: part four_bytes_or or.assoc not_le)
  have "(ucast (drop_bit 24 ?v) :: byte) = a" "(ucast (drop_bit 16 ?v) :: byte) = b"
    "(ucast (drop_bit 8 ?v) :: byte) = c" "(ucast ?v :: byte) = d"
    by (rule bit_word_eqI, auto simp: bit_ucast_iff bit_drop_bit_eq bit_or_iff bit_push_bit_iff dest: bit_byte_lt)+
  then have A: "inetAton (dotted4 a b c d) = Some [a, b, c, d]"
    unfolding inetAton_def split_dotted4 Let_def len v by simp
  have "dotted4 a b c d \<noteq> []" "dotted4 a b c d \<noteq> ''<broadcast>''"
    using split_dotted4 [of a b c d] by auto
  then show ?thesis using A by (simp add: resolveIPv4_def)
qed

text \<open>
  \<open>sameSlash24\<close> decides what its name says on dotted addresses (equal first three bytes), and on any
  strings it is an equivalence.
\<close>

theorem sameSlash24_spec:
  "(sameSlash24 (dotted4 a b c d) (dotted4 a' b' c' d') \<longleftrightarrow> a = a' \<and> b = b' \<and> c = c')
   \<and> sameSlash24 s s \<and> sameSlash24 s t = sameSlash24 t s"
  by (auto simp: sameSlash24_def first3_def split_dotted4 Let_def dec_str_inj word_eq_iff_unsigned [where 'a = nat])

end
