(* ===== verification/Bacnet_Probe.thy ===== *)
theory Bacnet_Probe
  imports Bacnet_Wire
begin

text \<open>
  The live probe of \<open>internal/bacnet/probe.go\<close>. The network and the clock are outside the program: a read loop
  runs over a given list of clock readings and receive outcomes (running off the list is a loop that has not
  returned), and the reaction to a send is a given function of everything sent so far. The frames sent are part
  of the state, so that what the probe puts on the wire is a theorem.
\<close>

section \<open>The collection loop\<close>

record reply =
  rp_ip :: string
  rp_inst :: "u32 option"
  rp_raw :: bytes

text \<open>
  One turn of the loop: the clock read at its head, the clock read when the deadline of the read is armed, and
  the outcome of \<open>recv\<close> (\<open>None\<close> for any error).
\<close>

record recv_step =
  st_head :: int
  st_arm :: int
  st_recv :: "(string \<times> bytes) option"

definition minRead :: int where "minRead = 10000000"

definition iam_of :: "byte \<Rightarrow> bytes \<Rightarrow> u32 option" where
  "iam_of fn payload = (case extractIAm fn payload of Ok inst \<Rightarrow> Some inst | _ \<Rightarrow> None)"

definition mk_reply :: "bool \<Rightarrow> string \<Rightarrow> bytes \<Rightarrow> byte \<times> bytes \<Rightarrow> reply" where
  "mk_reply wantIAm ip data fp =
     \<lparr>rp_ip = ip, rp_inst = (if wantIAm then iam_of (fst fp) (snd fp) else None), rp_raw = data\<rparr>"

text \<open>The result carries the deadlines armed, in order, next to the replies kept.\<close>

fun collect_loop :: "int \<Rightarrow> bool \<Rightarrow> recv_step list \<Rightarrow> (reply list \<times> int list) option" where
  "collect_loop deadline wantIAm [] = None"
| "collect_loop deadline wantIAm (s # ss) =
     (let rem = deadline - st_head s
      in if rem \<le> 0 then Some ([], [])
         else let armed = st_arm s + max rem minRead
              in case st_recv s of
                   None \<Rightarrow> Some ([], [armed])
                 | Some (ip, data) \<Rightarrow>
                     (case collect_loop deadline wantIAm ss of
                        None \<Rightarrow> None
                      | Some (rs, as) \<Rightarrow>
                          (case parseBVLC data of
                             None \<Rightarrow> Some (rs, armed # as)
                           | Some fp \<Rightarrow> Some (mk_reply wantIAm ip data fp # rs, armed # as))))"

definition collect :: "int \<Rightarrow> recv_step list \<Rightarrow> int \<Rightarrow> bool \<Rightarrow> reply list option" where
  "collect start steps window wantIAm = map_option fst (collect_loop (start + window) wantIAm steps)"

section \<open>The probe\<close>

record probeConfig =
  pc_host :: string
  pc_bbmd :: string
  pc_bcast :: string
  pc_port :: int
  pc_timeout :: int

type_synonym sent = "(bytes \<times> string \<times> int) list"
type_synonym network = "sent \<Rightarrow> pyError option \<times> int \<times> recv_step list"

datatype probe_stop = SendError pyError | StillRunning

text \<open>One send followed by one collection window.\<close>

definition exchange ::
    "network \<Rightarrow> probeConfig \<Rightarrow> bytes \<Rightarrow> string \<Rightarrow> bool \<Rightarrow> sent \<Rightarrow> (probe_stop, reply list) res \<times> sent" where
  "exchange net c frame host wantIAm hist =
     (let hist' = hist @ [(frame, host, pc_port c)]
      in case net hist' of
           (Some e, _, _) \<Rightarrow> (Fail (SendError e), hist')
         | (None, start, steps) \<Rightarrow>
             (case collect start steps (pc_timeout c) wantIAm of
                None \<Rightarrow> (Fail StillRunning, hist')
              | Some rs \<Rightarrow> (Ok rs, hist')))"

definition then_state :: "('e, 'a) res \<times> 's \<Rightarrow> ('a \<Rightarrow> 's \<Rightarrow> ('e, 'b) res \<times> 's) \<Rightarrow> ('e, 'b) res \<times> 's" where
  "then_state m f =
     (case m of (Ok x, s) \<Rightarrow> f x s | (Fail e, s) \<Rightarrow> (Fail e, s) | (Panic, s) \<Rightarrow> (Panic, s))"

definition unicast_hit :: "string \<Rightarrow> reply list \<Rightarrow> u32 option" where
  "unicast_hit host rs =
     (case filter (\<lambda>r. rp_ip r = host \<and> rp_inst r \<noteq> None) rs of [] \<Rightarrow> None | r # _ \<Rightarrow> rp_inst r)"

text \<open>The \<open>seen\<close> map: each responding address with its instances, sorted, each once.\<close>

definition responders :: "reply list \<Rightarrow> (string \<times> nat list) list" where
  "responders rs =
     (let iams = List.map_filter (\<lambda>r. map_option (\<lambda>i. (rp_ip r, unat i)) (rp_inst r)) rs
      in map (\<lambda>ip. (ip, sort (remdups (map snd (filter (\<lambda>x. fst x = ip) iams))))) (remdups (map fst iams)))"

definition crossed_of :: "string \<Rightarrow> (string \<times> nat list) list \<Rightarrow> (string \<times> nat list) list" where
  "crossed_of host resp = filter (\<lambda>x. sameSlash24 (fst x) host) resp"

definition local_of :: "string \<Rightarrow> (string \<times> nat list) list \<Rightarrow> (string \<times> nat list) list" where
  "local_of host resp = filter (\<lambda>x. \<not> sameSlash24 (fst x) host) resp"

fun candidates :: "string list \<Rightarrow> string list \<Rightarrow> string list" where
  "candidates acc [] = acc"
| "candidates acc (t # ts) =
     (if t = [] \<or> (acc \<noteq> [] \<and> acc ! 0 = t) then candidates acc ts else candidates (acc @ [t]) ts)"

record bbmd_entry =
  be_target :: string
  be_is_bbmd :: bool
  be_bdt :: "bdt_entry list option"
  be_fdt :: "fdt_entry list option"

text \<open>The last ack of a window wins.\<close>

definition last_some :: "'a option list \<Rightarrow> 'a option" where
  "last_some xs = foldl (\<lambda>acc x. case x of None \<Rightarrow> acc | Some _ \<Rightarrow> x) None xs"

definition probe_bbmd ::
    "network \<Rightarrow> probeConfig \<Rightarrow> string \<Rightarrow> sent \<Rightarrow> (probe_stop, bbmd_entry) res \<times> sent" where
  "probe_bbmd net c tgt hist =
     then_state (exchange net c buildReadBDT tgt False hist) (\<lambda>rs hist1.
       let bdt = last_some (map (\<lambda>r. parseBDTAck (rp_raw r)) rs)
       in if bdt = None
          then (Ok \<lparr>be_target = tgt, be_is_bbmd = False, be_bdt = None, be_fdt = None\<rparr>, hist1)
          else then_state (exchange net c buildReadFDT tgt False hist1) (\<lambda>rs2 hist2.
                 (Ok \<lparr>be_target = tgt, be_is_bbmd = True, be_bdt = bdt,
                      be_fdt = last_some (map (\<lambda>r. parseFDTAck (rp_raw r)) rs2)\<rparr>, hist2)))"

fun probe_bbmds ::
    "network \<Rightarrow> probeConfig \<Rightarrow> string list \<Rightarrow> sent \<Rightarrow> (probe_stop, bbmd_entry list) res \<times> sent" where
  "probe_bbmds net c [] hist = (Ok [], hist)"
| "probe_bbmds net c (t # ts) hist =
     then_state (probe_bbmd net c t hist) (\<lambda>e hist1.
     then_state (probe_bbmds net c ts hist1) (\<lambda>es hist2. (Ok (e # es), hist2)))"

datatype verdict = RebindOk bool | RebindFail | Inconclusive

record evidence =
  ev_unicast :: "u32 option"
  ev_responders :: "(string \<times> nat list) list option" \<comment> \<open>\<open>None\<close>: the broadcast was skipped\<close>
  ev_crossed :: "(string \<times> nat list) list"
  ev_local :: "(string \<times> nat list) list"
  ev_bbmds :: "bbmd_entry list"
  ev_verdict :: verdict

definition decide :: "(string \<times> nat list) list \<Rightarrow> bbmd_entry list \<Rightarrow> u32 option \<Rightarrow> verdict" where
  "decide crossed bbmds hit =
     (let anyBBMD = list_ex be_is_bbmd bbmds
      in if crossed \<noteq> [] \<or> anyBBMD then RebindOk anyBBMD
         else if hit \<noteq> None then RebindFail else Inconclusive)"

definition broadcast_part ::
    "network \<Rightarrow> probeConfig \<Rightarrow> sent \<Rightarrow> (probe_stop, (string \<times> nat list) list option) res \<times> sent" where
  "broadcast_part net c hist =
     (if pc_bcast c \<noteq> []
      then then_state (exchange net c (buildWhoIs True) (pc_bcast c) True hist)
             (\<lambda>rs hist1. (Ok (Some (responders rs)), hist1))
      else (Ok None, hist))"

definition probeLive :: "network \<Rightarrow> probeConfig \<Rightarrow> (probe_stop, evidence \<times> nat) res \<times> sent" where
  "probeLive net c =
     then_state (exchange net c (buildWhoIs False) (pc_host c) True []) (\<lambda>rs hist1.
     let hit = unicast_hit (pc_host c) rs
     in then_state (broadcast_part net c hist1) (\<lambda>bc hist2.
        let resp = (case bc of None \<Rightarrow> [] | Some l \<Rightarrow> l);
            crossed = crossed_of (pc_host c) resp
        in then_state (probe_bbmds net c (candidates [] [pc_host c, pc_bbmd c]) hist2) (\<lambda>bs hist3.
           let v = decide crossed bs hit
           in (Ok (\<lparr>ev_unicast = hit, ev_responders = bc, ev_crossed = crossed,
                    ev_local = local_of (pc_host c) resp, ev_bbmds = bs, ev_verdict = v\<rparr>,
                   (case v of RebindOk _ \<Rightarrow> 0 | _ \<Rightarrow> 1)), hist3))))"

section \<open>What a collection window keeps\<close>

text \<open>A turn that goes on: the deadline is not reached and a datagram arrived.\<close>

definition turn_goes_on :: "int \<Rightarrow> recv_step \<Rightarrow> bool" where
  "turn_goes_on deadline s \<longleftrightarrow> st_head s < deadline \<and> st_recv s \<noteq> None"

definition turn_reply :: "bool \<Rightarrow> recv_step \<Rightarrow> reply option" where
  "turn_reply wantIAm s =
     (case st_recv s of
        None \<Rightarrow> None
      | Some (ip, data) \<Rightarrow> map_option (mk_reply wantIAm ip data) (parseBVLC data))"

lemma collect_loop_kept:
  "map_option fst (collect_loop deadline wantIAm steps) =
     (if dropWhile (turn_goes_on deadline) steps = [] then None
      else Some (List.map_filter (turn_reply wantIAm) (takeWhile (turn_goes_on deadline) steps)))"
proof (induction steps)
  case Nil
  show ?case by simp
next
  case (Cons s ss)
  show ?case
  proof (cases "turn_goes_on deadline s")
    case True
    then obtain ip data where "st_recv s = Some (ip, data)" "st_head s < deadline"
      by (auto simp: turn_goes_on_def)
    then have "turn_reply wantIAm s = map_option (mk_reply wantIAm ip data) (parseBVLC data)"
      by (simp add: turn_reply_def)
    with True Cons.IH \<open>st_recv s = _\<close> \<open>st_head s < _\<close> show ?thesis
      by (cases "collect_loop deadline wantIAm ss")
        (auto simp: Let_def List.map_filter_simps split: option.splits if_splits)
  next
    case False
    then show ?thesis
      by (auto simp: turn_goes_on_def Let_def List.map_filter_simps split: option.splits)
  qed
qed

lemma collect_loop_armed:
  "collect_loop deadline wantIAm steps = Some (rs, as) \<Longrightarrow>
     as = map (\<lambda>s. st_arm s + max (deadline - st_head s) minRead) (take (length as) steps)"
proof (induction steps arbitrary: rs as)
  case Nil
  then show ?case by simp
next
  case (Cons s ss)
  then show ?case
    by (cases "collect_loop deadline wantIAm ss")
      (force simp: Let_def split: if_splits option.splits prod.splits)+
qed

text \<open>
  A collection window returns as soon as, and only if, a turn finds the deadline reached or the read
  fails, and then holds exactly the well-formed BVLC datagrams received before that turn, in order; every read
  is armed with the time left, at least 10 ms.
\<close>

theorem collect_spec:
  "collect start steps window wantIAm =
     (if dropWhile (turn_goes_on (start + window)) steps = [] then None
      else Some (List.map_filter (turn_reply wantIAm) (takeWhile (turn_goes_on (start + window)) steps)))
   \<and> (\<forall>rs as. collect_loop (start + window) wantIAm steps = Some (rs, as) \<longrightarrow>
        as = map (\<lambda>s. st_arm s + max (start + window - st_head s) minRead) (take (length as) steps))"
  unfolding collect_def collect_loop_kept using collect_loop_armed by blast

theorem collect_spec_witness:
  "collect_loop (0 + 5) False [\<lparr>st_head = 1, st_arm = 2, st_recv = None\<rparr>] = Some ([], [10000002])
   \<and> [10000002] = map (\<lambda>s. st_arm s + max (0 + 5 - st_head s) minRead)
        (take (length [10000002 :: int]) [\<lparr>st_head = 1, st_arm = 2, st_recv = None\<rparr>])"
proof -
  have run: "collect_loop (0 + 5) False [\<lparr>st_head = 1, st_arm = 2, st_recv = None\<rparr>] = Some ([], [10000002])"
    by (simp add: Let_def minRead_def)
  then show ?thesis
    using collect_spec [of 0 "[\<lparr>st_head = 1, st_arm = 2, st_recv = None\<rparr>]" 5 False] by blast
qed

section \<open>What the probe sends\<close>

definition probe_frames :: "bytes set" where
  "probe_frames = {buildWhoIs False, buildWhoIs True, buildReadBDT, buildReadFDT}"

definition sends_only :: "probeConfig \<Rightarrow> sent \<Rightarrow> bool" where
  "sends_only c hist \<longleftrightarrow>
     list_all (\<lambda>(frame, host, port). frame \<in> probe_frames \<and> host \<in> {pc_host c, pc_bcast c, pc_bbmd c}
        \<and> port = pc_port c) hist"

definition adds_at_most :: "nat \<Rightarrow> sent \<Rightarrow> 'a \<times> sent \<Rightarrow> bool" where
  "adds_at_most n hist m \<longleftrightarrow> length (snd m) \<le> length hist + n"

lemma snd_exchange: "snd (exchange net c frame host w hist) = hist @ [(frame, host, pc_port c)]"
  by (auto simp: exchange_def Let_def split: prod.splits option.splits)

lemma snd_then_state:
  "snd (then_state m f) = (case fst m of Ok x \<Rightarrow> snd (f x (snd m)) | _ \<Rightarrow> snd m)"
  by (cases m) (auto simp: then_state_def split: res.splits)

lemma sends_only_snoc:
  "sends_only c (hist @ [(f, h, pc_port c)]) \<longleftrightarrow>
     sends_only c hist \<and> f \<in> probe_frames \<and> h \<in> {pc_host c, pc_bcast c, pc_bbmd c}"
  by (simp add: sends_only_def)

lemma sends_only_append: "sends_only c (xs @ ys) \<longleftrightarrow> sends_only c xs \<and> sends_only c ys"
  by (simp add: sends_only_def)

lemma then_state_inv:
  "P (snd m) \<Longrightarrow> (\<And>x. P (snd (f x (snd m)))) \<Longrightarrow> P (snd (then_state m f))"
  by (simp add: snd_then_state split: res.split)

lemma probe_bbmd_sends:
  assumes "sends_only c hist" and "tgt \<in> {pc_host c, pc_bbmd c}"
  shows "sends_only c (snd (probe_bbmd net c tgt hist))"
    and "length (snd (probe_bbmd net c tgt hist)) \<le> length hist + 2"
  using assms
  by (auto simp: probe_bbmd_def snd_then_state snd_exchange sends_only_append probe_frames_def Let_def
      sends_only_def split: res.split)

lemma probe_bbmds_sends:
  assumes "sends_only c hist" and "set ts \<subseteq> {pc_host c, pc_bbmd c}"
  shows "sends_only c (snd (probe_bbmds net c ts hist))
    \<and> length (snd (probe_bbmds net c ts hist)) \<le> length hist + 2 * length ts"
  using assms
proof (induction ts arbitrary: hist)
  case Nil
  then show ?case by simp
next
  case (Cons t ts)
  have step: "sends_only c (snd (probe_bbmd net c t hist))"
    and len: "length (snd (probe_bbmd net c t hist)) \<le> length hist + 2"
    using probe_bbmd_sends [OF Cons.prems(1)] Cons.prems(2) by auto
  have "set ts \<subseteq> {pc_host c, pc_bbmd c}" using Cons.prems(2) by simp
  from Cons.IH [OF step this] len step show ?case
    by (auto simp: snd_then_state split: res.split)
qed

lemma candidates_two: "set (candidates [] [a, b]) \<subseteq> {a, b} \<and> length (candidates [] [a, b]) \<le> 2"
  by auto

text \<open>
  C33. The probe is read-only and bounded, whatever the network answers: it sends nothing but the two Who-Is
  frames, Read-BDT and Read-FDT, only to the three configured addresses and the configured port, and at most
  six datagrams, on every path, failures included.
\<close>

theorem probe_sends_only_queries:
  "sends_only c (snd (probeLive net c)) \<and> length (snd (probeLive net c)) \<le> 6"
proof -
  let ?cs = "candidates [] [pc_host c, pc_bbmd c]"
  have h1: "sends_only c (snd (exchange net c (buildWhoIs False) (pc_host c) True []))"
    by (simp add: snd_exchange sends_only_def probe_frames_def)
  have l1: "length (snd (exchange net c (buildWhoIs False) (pc_host c) True [])) \<le> 1"
    by (simp add: snd_exchange)
  have h2: "sends_only c hist \<Longrightarrow> sends_only c (snd (broadcast_part net c hist))
      \<and> length (snd (broadcast_part net c hist)) \<le> length hist + 1" for hist
    by (auto simp: broadcast_part_def snd_then_state snd_exchange sends_only_snoc probe_frames_def
        split: res.split)
  have h3: "sends_only c hist \<Longrightarrow> sends_only c (snd (probe_bbmds net c ?cs hist))
      \<and> length (snd (probe_bbmds net c ?cs hist)) \<le> length hist + 4" for hist
    using probe_bbmds_sends [of c hist ?cs net] candidates_two [of "pc_host c" "pc_bbmd c"] by fastforce
  let ?P = "\<lambda>h. sends_only c h \<and> length h \<le> 6"
  let ?e1 = "exchange net c (buildWhoIs False) (pc_host c) True []"
  have b: "sends_only c (snd (broadcast_part net c (snd ?e1)))
      \<and> length (snd (broadcast_part net c (snd ?e1))) \<le> 2"
    using h2 [OF h1] l1 by linarith
  have d: "?P (snd (probe_bbmds net c ?cs (snd (broadcast_part net c (snd ?e1)))))"
    using h3 [OF conjunct1 [OF b]] b by linarith
  show ?thesis
    unfolding probeLive_def Let_def
    by (rule then_state_inv [where P = ?P], use h1 l1 in simp,
        rule then_state_inv [where P = ?P], use b in simp,
        rule then_state_inv [where P = ?P], use d in simp, use d in simp)
qed

section \<open>The verdict\<close>

text \<open>What the network says in a window: the datagrams that arrive before the deadline or the first failed read.\<close>

definition heard :: "network \<Rightarrow> probeConfig \<Rightarrow> sent \<Rightarrow> (string \<times> bytes) list" where
  "heard net c hist =
     (case net hist of
        (_, start, steps) \<Rightarrow> List.map_filter st_recv (takeWhile (turn_goes_on (start + pc_timeout c)) steps))"

definition announces :: "bytes \<Rightarrow> u32 \<Rightarrow> bool" where
  \<comment> \<open>the datagram is a BVLC frame with an I-Am of this instance\<close>
  "announces data i = (case parseBVLC data of None \<Rightarrow> False | Some (fn, p) \<Rightarrow> extractIAm fn p = Ok i)"

definition first_from :: "string \<Rightarrow> (string \<times> bytes) list \<Rightarrow> u32 option \<Rightarrow> bool" where
  \<comment> \<open>the instance of the first I-Am that came from this address, if one came\<close>
  "first_from host ds hit =
     (case hit of
        None \<Rightarrow> \<forall>data i. (host, data) \<in> set ds \<longrightarrow> \<not> announces data i
      | Some i \<Rightarrow> \<exists>pre data post. ds = pre @ (host, data) # post \<and> announces data i
          \<and> (\<forall>d j. (host, d) \<in> set pre \<longrightarrow> \<not> announces d j))"

definition last_ack :: "(bytes \<Rightarrow> 'a option) \<Rightarrow> (string \<times> bytes) list \<Rightarrow> 'a option \<Rightarrow> bool" where
  \<comment> \<open>the table of the last datagram that is an ack, if one is\<close>
  "last_ack ack ds t =
     (case t of
        None \<Rightarrow> \<forall>x \<in> set ds. ack (snd x) = None
      | Some v \<Rightarrow> \<exists>pre x post. ds = pre @ x # post \<and> ack (snd x) = Some v \<and> (\<forall>y \<in> set post. ack (snd y) = None))"

definition seen_all :: "(string \<times> bytes) list \<Rightarrow> (string \<times> nat list) list \<Rightarrow> bool" where
  \<comment> \<open>each address that announced an instance, once, with all its instances in rising order\<close>
  "seen_all ds l \<longleftrightarrow>
     distinct (map fst l)
   \<and> fst ` set l = {ip. \<exists>data i. (ip, data) \<in> set ds \<and> announces data i}
   \<and> (\<forall>(ip, is) \<in> set l. sorted is \<and> distinct is
        \<and> set is = {unat i |i. \<exists>data. (ip, data) \<in> set ds \<and> announces data i})"

definition bbmd_true :: "network \<Rightarrow> probeConfig \<Rightarrow> sent \<Rightarrow> bbmd_entry \<Rightarrow> bool" where
  \<comment> \<open>the entry is what the network said after the Read-BDT, and after the Read-FDT, sent to its target\<close>
  "bbmd_true net c hist b \<longleftrightarrow>
     (\<exists>before after.
        let q = before @ [(buildReadBDT, be_target b, pc_port c)];
            q2 = q @ [(buildReadFDT, be_target b, pc_port c)]
        in (be_is_bbmd b \<longleftrightarrow> be_bdt b \<noteq> None) \<and> last_ack parseBDTAck (heard net c q) (be_bdt b)
         \<and> (if be_is_bbmd b then hist = q2 @ after \<and> last_ack parseFDTAck (heard net c q2) (be_fdt b)
            else hist = q @ after \<and> be_fdt b = None))"

definition kept :: "bool \<Rightarrow> (string \<times> bytes) list \<Rightarrow> reply list" where
  "kept w ds = List.map_filter (\<lambda>(ip, data). map_option (mk_reply w ip data) (parseBVLC data)) ds"

lemma kept_simps [simp]:
  "kept w [] = []"
  "kept w ((ip, data) # ds) =
     (case parseBVLC data of None \<Rightarrow> kept w ds | Some fp \<Rightarrow> mk_reply w ip data fp # kept w ds)"
  by (auto simp: kept_def List.map_filter_simps split: option.split)

lemma turns_kept:
  "List.map_filter (turn_reply w) (takeWhile (turn_goes_on d) steps) =
     kept w (List.map_filter st_recv (takeWhile (turn_goes_on d) steps))"
  by (induction steps)
    (auto simp: List.map_filter_simps turn_reply_def turn_goes_on_def split: option.splits)

lemma exchange_Ok:
  assumes "exchange net c f h w hist = (Ok rs, hist')"
  shows "hist' = hist @ [(f, h, pc_port c)]" and "rs = kept w (heard net c hist')"
  using assms
  by (auto simp: exchange_def Let_def collect_def collect_loop_kept heard_def turns_kept
      split: prod.splits option.splits if_splits)

lemma mk_reply_sel [simp]:
  "rp_ip (mk_reply w ip data fp) = ip" "rp_raw (mk_reply w ip data fp) = data"
  "rp_inst (mk_reply True ip data fp) = iam_of (fst fp) (snd fp)"
  by (simp_all add: mk_reply_def)

lemma iam_of_Some: "iam_of fn p = Some i \<longleftrightarrow> extractIAm fn p = Ok i"
  by (auto simp: iam_of_def split: res.split)

lemma iam_of_None: "iam_of fn p = None \<longleftrightarrow> (\<forall>i. extractIAm fn p \<noteq> Ok i)"
  by (auto simp: iam_of_def split: res.split)

lemma unicast_hit_kept: "first_from host ds (unicast_hit host (kept True ds))"
proof (induction ds)
  case Nil
  then show ?case by (simp add: first_from_def unicast_hit_def)
next
  case (Cons x ds)
  obtain ip data where x: "x = (ip, data)" by (cases x)
  show ?case
  proof (cases "ip = host \<and> (\<exists>i. announces data i)")
    case True
    then obtain i where i: "announces data i" by blast
    then have "unicast_hit host (kept True (x # ds)) = Some i"
      using True by (auto simp: x unicast_hit_def announces_def iam_of_Some split: option.splits)
    moreover have "first_from host (x # ds) (Some i)"
      unfolding first_from_def option.case using True i x
      by (intro exI [of _ "[]"] exI [of _ data] exI [of _ ds]) simp
    ultimately show ?thesis by simp
  next
    case False
    then have same: "unicast_hit host (kept True (x # ds)) = unicast_hit host (kept True ds)"
      by (auto simp: x unicast_hit_def announces_def iam_of_Some split: option.splits)
    have "\<not> announces d j" if "(host, d) = x" for d j using that False x by auto
    then show ?thesis
      unfolding same using Cons.IH
      by (cases "unicast_hit host (kept True ds)") (force simp: first_from_def intro: exI [of _ "x # _"])+
  qed
qed

lemma iams_kept:
  "set (List.map_filter (\<lambda>r. map_option (\<lambda>i. (rp_ip r, unat i)) (rp_inst r)) (kept True ds)) =
     {(ip, unat i) |ip i. \<exists>data. (ip, data) \<in> set ds \<and> announces data i}"
proof (induction ds)
  case Nil
  then show ?case by (simp add: List.map_filter_simps)
next
  case (Cons x ds)
  obtain ip data where x: "x = (ip, data)" by (cases x)
  show ?case
  proof (cases "\<exists>i. announces data i")
    case True
    then obtain i where i: "announces data i" by blast
    then have only: "announces data j \<longleftrightarrow> j = i" for j by (auto simp: announces_def split: option.splits)
    have "set (List.map_filter (\<lambda>r. map_option (\<lambda>i. (rp_ip r, unat i)) (rp_inst r)) (kept True (x # ds)))
        = insert (ip, unat i) {(ip, unat i) |ip i. \<exists>data. (ip, data) \<in> set ds \<and> announces data i}"
    proof -
      obtain fn p where fp: "parseBVLC data = Some (fn, p)" "extractIAm fn p = Ok i"
        using i by (auto simp: announces_def split: option.splits)
      then have "iam_of fn p = Some i" by (simp add: iam_of_Some)
      then show ?thesis using Cons.IH by (simp add: x fp(1) List.map_filter_simps)
    qed
    then show ?thesis using only by (auto simp: x) (use i in blast)
  next
    case False
    then have "List.map_filter (\<lambda>r. map_option (\<lambda>i. (rp_ip r, unat i)) (rp_inst r)) (kept True (x # ds))
        = List.map_filter (\<lambda>r. map_option (\<lambda>i. (rp_ip r, unat i)) (rp_inst r)) (kept True ds)"
      by (auto simp: x announces_def List.map_filter_simps iam_of_None iam_of_Some split: option.splits)
    then show ?thesis using False Cons.IH by (auto simp: x)
  qed
qed

lemma responders_kept: "seen_all ds (responders (kept True ds))"
proof -
  let ?iams = "List.map_filter (\<lambda>r. map_option (\<lambda>i. (rp_ip r, unat i)) (rp_inst r)) (kept True ds)"
  have fsts: "fst ` set ?iams = {ip. \<exists>data i. (ip, data) \<in> set ds \<and> announces data i}"
    unfolding iams_kept by force
  have insts: "snd ` {x \<in> set ?iams. fst x = ip} = {unat i |i. \<exists>data. (ip, data) \<in> set ds \<and> announces data i}" for ip
    unfolding iams_kept by force
  have ids: "map (fst \<circ> (\<lambda>ip. (ip, g ip))) xs = xs" for xs :: "string list" and g :: "string \<Rightarrow> nat list"
    by (simp add: comp_def)
  show ?thesis
    unfolding seen_all_def responders_def Let_def
  proof (intro conjI ballI)
    show "fst ` set (map (\<lambda>ip. (ip, sort (remdups (map snd (filter (\<lambda>x. fst x = ip) ?iams))))) (remdups (map fst ?iams)))
        = {ip. \<exists>data i. (ip, data) \<in> set ds \<and> announces data i}"
      using fsts by (simp add: image_image)
  next
    fix x
    assume "x \<in> set (map (\<lambda>ip. (ip, sort (remdups (map snd (filter (\<lambda>x. fst x = ip) ?iams))))) (remdups (map fst ?iams)))"
    then obtain ip where "x = (ip, sort (remdups (map snd (filter (\<lambda>x. fst x = ip) ?iams))))" by auto
    then show "case x of (ip, is) \<Rightarrow> sorted is \<and> distinct is
        \<and> set is = {unat i |i. \<exists>data. (ip, data) \<in> set ds \<and> announces data i}"
      using insts [of ip] by simp
  qed (simp add: ids)
qed

lemma last_some_map: "last_ack ack ds (last_some (map (\<lambda>x. ack (snd x)) ds))"
proof (induction ds rule: rev_induct)
  case Nil
  then show ?case by (simp add: last_some_def last_ack_def)
next
  case (snoc x ds)
  show ?case
  proof (cases "ack (snd x)")
    case None
    then have same: "last_some (map (\<lambda>x. ack (snd x)) (ds @ [x])) = last_some (map (\<lambda>x. ack (snd x)) ds)"
      by (simp add: last_some_def)
    show ?thesis
      unfolding same using snoc None
      by (cases "last_some (map (\<lambda>x. ack (snd x)) ds)") (force simp: last_ack_def)+
  next
    case (Some v)
    then have "last_some (map (\<lambda>x. ack (snd x)) (ds @ [x])) = Some v" by (simp add: last_some_def)
    with Some show ?thesis
      unfolding last_ack_def by simp (intro exI [of _ ds] exI [of _ "fst x"] exI [of _ "snd x"] exI [of _ "[]"], simp)
  qed
qed

lemma last_some_kept:
  assumes "\<And>data. parseBVLC data = None \<Longrightarrow> ack data = None"
  shows "last_some (map (\<lambda>r. ack (rp_raw r)) (kept w ds)) = last_some (map (\<lambda>x. ack (snd x)) ds)"
proof (induction ds rule: rev_induct)
  case (snoc x ds)
  have app: "kept w (xs @ ys) = kept w xs @ kept w ys" for xs ys
    by (simp add: kept_def List.map_filter_def)
  have step: "last_some (xs @ [y]) = (case y of None \<Rightarrow> last_some xs | Some _ \<Rightarrow> y)" for xs and y :: "'a option"
    by (cases y) (simp_all add: last_some_def)
  show ?case using snoc assms [of "snd x"]
    by (cases x; cases "parseBVLC (snd x)"; cases "ack (snd x)") (simp_all add: app step)
qed simp

lemma acks_are_frames:
  "parseBVLC data = None \<Longrightarrow> parseBDTAck data = None"
  "parseBVLC data = None \<Longrightarrow> parseFDTAck data = None"
  by (simp_all add: parseBDTAck_def parseFDTAck_def)

lemma exchange_acks:
  assumes "exchange net c f h w hist = (Ok rs, hist')"
  shows "last_ack parseBDTAck (heard net c hist') (last_some (map (\<lambda>r. parseBDTAck (rp_raw r)) rs))"
    and "last_ack parseFDTAck (heard net c hist') (last_some (map (\<lambda>r. parseFDTAck (rp_raw r)) rs))"
  unfolding exchange_Ok(2) [OF assms]
  using last_some_map [of parseBDTAck] last_some_map [of parseFDTAck]
  by (simp_all add: last_some_kept acks_are_frames)

lemma then_state_Ok:
  "then_state m f = (Ok y, s) \<longleftrightarrow> (\<exists>x s'. m = (Ok x, s') \<and> f x s' = (Ok y, s))"
  by (cases m; cases "fst m") (auto simp: then_state_def)

lemma probe_bbmd_true:
  assumes "probe_bbmd net c t hist = (Ok b, hist')"
  shows "bbmd_true net c hist' b" and "be_target b = t" and "\<exists>new. hist' = hist @ new"
proof -
  let ?q = "hist @ [(buildReadBDT, t, pc_port c)]"
  from assms obtain rs h1 where e: "exchange net c buildReadBDT t False hist = (Ok rs, h1)"
    and r: "(let bdt = last_some (map (\<lambda>r. parseBDTAck (rp_raw r)) rs)
       in if bdt = None
          then (Ok \<lparr>be_target = t, be_is_bbmd = False, be_bdt = None, be_fdt = None\<rparr>, h1)
          else then_state (exchange net c buildReadFDT t False h1) (\<lambda>rs2 hist2.
                 (Ok \<lparr>be_target = t, be_is_bbmd = True, be_bdt = bdt,
                      be_fdt = last_some (map (\<lambda>r. parseFDTAck (rp_raw r)) rs2)\<rparr>, hist2))) = (Ok b, hist')"
    unfolding probe_bbmd_def then_state_Ok by blast
  have h1: "h1 = ?q" using exchange_Ok(1) [OF e] .
  note bdt = exchange_acks(1) [OF e, unfolded h1]
  show "be_target b = t" and "\<exists>new. hist' = hist @ new"
    using r by (auto simp: Let_def h1 then_state_Ok dest: exchange_Ok(1) split: if_splits)
  show "bbmd_true net c hist' b"
  proof (cases "last_some (map (\<lambda>r. parseBDTAck (rp_raw r)) rs)")
    case None
    with r h1 bdt show ?thesis
      unfolding bbmd_true_def by (intro exI [of _ hist] exI [of _ "[]"]) (auto simp: Let_def)
  next
    case (Some v)
    with r obtain rs2 where e2: "exchange net c buildReadFDT t False h1 = (Ok rs2, hist')"
      and b: "b = \<lparr>be_target = t, be_is_bbmd = True, be_bdt = Some v,
                   be_fdt = last_some (map (\<lambda>r. parseFDTAck (rp_raw r)) rs2)\<rparr>"
      by (auto simp: then_state_Ok)
    have h2: "hist' = ?q @ [(buildReadFDT, t, pc_port c)]" using exchange_Ok(1) [OF e2] h1 by simp
    show ?thesis
      using bdt Some exchange_acks(2) [OF e2] h2
      unfolding bbmd_true_def by (intro exI [of _ hist] exI [of _ "[]"]) (simp add: Let_def b)
  qed
qed

lemma bbmd_true_later: "bbmd_true net c hist b \<Longrightarrow> bbmd_true net c (hist @ new) b"
  unfolding bbmd_true_def Let_def by (metis append_assoc)

lemma probe_bbmds_true:
  "probe_bbmds net c ts hist = (Ok bs, hist') \<Longrightarrow>
     map be_target bs = ts \<and> (\<forall>b \<in> set bs. bbmd_true net c hist' b) \<and> (\<exists>new. hist' = hist @ new)"
proof (induction ts arbitrary: hist bs)
  case (Cons t ts)
  then obtain b bs1 h1 where b: "probe_bbmd net c t hist = (Ok b, h1)"
      and r: "probe_bbmds net c ts h1 = (Ok bs1, hist')" "bs = b # bs1"
    by (auto simp: then_state_Ok)
  from Cons.IH [OF r(1)] probe_bbmd_true [OF b] r(2) show ?case
    using bbmd_true_later [of net c h1 b] by auto
qed simp

lemma exchange_first:
  "exchange net c f h w [] = (Ok rs, hist') \<Longrightarrow>
     hist' = [(f, h, pc_port c)] \<and> exchange net c f h w [] = (Ok rs, [(f, h, pc_port c)])"
  using exchange_Ok(1) [of net c f h w "[]"] by auto

text \<open>A network in which only the directed Who-Is is answered, for the witness below.\<close>

definition demo_net :: network where
  "demo_net h =
     (None, 0,
      (if length h = 1
       then [\<lparr>st_head = 0, st_arm = 0,
              st_recv = Some (''10.0.0.9'', bvlc fnOriginalUnicast (npdu_frame None None 0 (encode_IAm 77)))\<rparr>]
       else []) @ [\<lparr>st_head = 1, st_arm = 1, st_recv = None\<rparr>])"
definition demo_config :: probeConfig where
  "demo_config = \<lparr>pc_host = ''10.0.0.9'', pc_bbmd = [], pc_bcast = [], pc_port = 47808, pc_timeout = 100\<rparr>"

lemma demo_run: "probeLive demo_net demo_config =
  (Ok (\<lparr>ev_unicast = Some 77, ev_responders = None, ev_crossed = [], ev_local = [],
     ev_bbmds = [\<lparr>be_target = ''10.0.0.9'', be_is_bbmd = False, be_bdt = None, be_fdt = None\<rparr>],
     ev_verdict = RebindFail\<rparr>, 1),
   [(buildWhoIs False, ''10.0.0.9'', 47808), (buildReadBDT, ''10.0.0.9'', 47808)])"
  by code_simp
text \<open>
  C32. A finished probe tells what the network said. Its first send is the directed Who-Is, and the unicast
  instance is that of the first I-Am of that window that came from the host's own address (none if none
  came). With a broadcast address, its second send is the broadcast Who-Is, and the responders are exactly the
  addresses that announced an instance in that window, each once, with all its instances in rising order;
  without one the broadcast is skipped. The targets are the configured addresses, each once, the empty ones
  left out; a target is a BBMD exactly when a Read-BDT ack was heard after the Read-BDT sent to it, and the tables are those of
  the last acks heard. The exit is 0 exactly when an address of the host's /24 answered the broadcast or some target
  is a BBMD, with a verdict that says which of the two; otherwise it is 1, and the verdict is
  \<open>inconclusive\<close> when the host did not answer the directed Who-Is and \<open>rebind_fail\<close> when it did.
\<close>

theorem probe_verdict:
  assumes "probeLive net c = (Ok (ev, code), hist)"
  shows "\<exists>q1 rest.
     q1 = [(buildWhoIs False, pc_host c, pc_port c)] \<and> hist = q1 @ rest
   \<and> first_from (pc_host c) (heard net c q1) (ev_unicast ev)
   \<and> (case ev_responders ev of
        None \<Rightarrow> pc_bcast c = [] \<and> ev_crossed ev = [] \<and> ev_local ev = []
      | Some l \<Rightarrow> pc_bcast c \<noteq> [] \<and> rest \<noteq> [] \<and> hd rest = (buildWhoIs True, pc_bcast c, pc_port c)
          \<and> seen_all (heard net c (q1 @ [hd rest])) l
          \<and> set (ev_crossed ev) = {x \<in> set l. sameSlash24 (fst x) (pc_host c)}
          \<and> set (ev_local ev) = set l - set (ev_crossed ev))
   \<and> set (map be_target (ev_bbmds ev)) = {pc_host c, pc_bbmd c} - {[]} \<and> distinct (map be_target (ev_bbmds ev))
   \<and> (\<forall>b \<in> set (ev_bbmds ev). bbmd_true net c hist b)
   \<and> (ev_verdict ev, code) =
       (if ev_crossed ev \<noteq> [] \<or> (\<exists>b \<in> set (ev_bbmds ev). be_bdt b \<noteq> None)
        then (RebindOk (\<exists>b \<in> set (ev_bbmds ev). be_bdt b \<noteq> None), 0)
        else if ev_unicast ev = None then (Inconclusive, 1) else (RebindFail, 1))"
proof -
  let ?q1 = "[(buildWhoIs False, pc_host c, pc_port c)]"
  obtain rs bc bs h3 where
      e: "exchange net c (buildWhoIs False) (pc_host c) True [] = (Ok rs, ?q1)"
    and b: "broadcast_part net c ?q1 = (Ok bc, h3)"
    and bs: "probe_bbmds net c (candidates [] [pc_host c, pc_bbmd c]) h3 = (Ok bs, hist)"
    and ev: "ev = \<lparr>ev_unicast = unicast_hit (pc_host c) rs, ev_responders = bc,
        ev_crossed = crossed_of (pc_host c) (case bc of None \<Rightarrow> [] | Some l \<Rightarrow> l),
        ev_local = local_of (pc_host c) (case bc of None \<Rightarrow> [] | Some l \<Rightarrow> l), ev_bbmds = bs,
        ev_verdict = decide (crossed_of (pc_host c) (case bc of None \<Rightarrow> [] | Some l \<Rightarrow> l)) bs (unicast_hit (pc_host c) rs)\<rparr>"
    and code: "code = (case ev_verdict ev of RebindOk _ \<Rightarrow> 0 | _ \<Rightarrow> 1)"
  proof -
    obtain rs h1 bc h3 bs h4 where run: "exchange net c (buildWhoIs False) (pc_host c) True [] = (Ok rs, h1)"
        "broadcast_part net c h1 = (Ok bc, h3)"
        "probe_bbmds net c (candidates [] [pc_host c, pc_bbmd c]) h3 = (Ok bs, h4)"
        "(ev, code, hist) = (\<lparr>ev_unicast = unicast_hit (pc_host c) rs, ev_responders = bc,
        ev_crossed = crossed_of (pc_host c) (case bc of None \<Rightarrow> [] | Some l \<Rightarrow> l),
        ev_local = local_of (pc_host c) (case bc of None \<Rightarrow> [] | Some l \<Rightarrow> l), ev_bbmds = bs,
        ev_verdict = decide (crossed_of (pc_host c) (case bc of None \<Rightarrow> [] | Some l \<Rightarrow> l)) bs (unicast_hit (pc_host c) rs)\<rparr>,
        (case decide (crossed_of (pc_host c) (case bc of None \<Rightarrow> [] | Some l \<Rightarrow> l)) bs (unicast_hit (pc_host c) rs)
          of RebindOk _ \<Rightarrow> 0 | _ \<Rightarrow> 1), h4)"
      using assms unfolding probeLive_def Let_def then_state_Ok prod.inject res.inject by metis
    show thesis
      using run exchange_first [OF run(1)] by (intro that [of rs bc h3 bs]) simp_all
  qed
  note bbmds = probe_bbmds_true [OF bs]
  from bbmds obtain new where new: "hist = h3 @ new" by blast
  have is_bbmd: "be_is_bbmd b \<longleftrightarrow> be_bdt b \<noteq> None" if "b \<in> set bs" for b
    using bbmds that by (auto simp: bbmd_true_def Let_def)
  have targets: "set (map be_target bs) = {pc_host c, pc_bbmd c} - {[]} \<and> distinct (map be_target bs)"
    using bbmds by auto
  have verdict: "(ev_verdict ev, code) =
       (if ev_crossed ev \<noteq> [] \<or> (\<exists>b \<in> set (ev_bbmds ev). be_bdt b \<noteq> None)
        then (RebindOk (\<exists>b \<in> set (ev_bbmds ev). be_bdt b \<noteq> None), 0)
        else if ev_unicast ev = None then (Inconclusive, 1) else (RebindFail, 1))"
    using is_bbmd by (auto simp: code ev decide_def list_ex_iff Let_def)
  have hit: "first_from (pc_host c) (heard net c ?q1) (ev_unicast ev)"
    by (simp add: ev exchange_Ok(2) [OF e] unicast_hit_kept)
  have bcast: "\<exists>rest. hist = ?q1 @ rest
      \<and> (case ev_responders ev of
        None \<Rightarrow> pc_bcast c = [] \<and> ev_crossed ev = [] \<and> ev_local ev = []
      | Some l \<Rightarrow> pc_bcast c \<noteq> [] \<and> rest \<noteq> [] \<and> hd rest = (buildWhoIs True, pc_bcast c, pc_port c)
          \<and> seen_all (heard net c (?q1 @ [hd rest])) l
          \<and> set (ev_crossed ev) = {x \<in> set l. sameSlash24 (fst x) (pc_host c)}
          \<and> set (ev_local ev) = set l - set (ev_crossed ev))"
  proof (cases "pc_bcast c = []")
    case True
    with b have "bc = None" "h3 = ?q1" by (auto simp: broadcast_part_def)
    then show ?thesis by (simp add: ev new True crossed_of_def local_of_def)
  next
    case False
    with b obtain rs2 where e2: "exchange net c (buildWhoIs True) (pc_bcast c) True ?q1 = (Ok rs2, h3)"
      and bc: "bc = Some (responders rs2)"
      by (auto simp: broadcast_part_def then_state_Ok)
    note h3 = exchange_Ok(1) [OF e2]
    have "seen_all (heard net c h3) (responders rs2)"
      unfolding exchange_Ok(2) [OF e2] by (rule responders_kept)
    then show ?thesis
      by (intro exI [of _ "(buildWhoIs True, pc_bcast c, pc_port c) # new"])
        (auto simp: ev new h3 bc False crossed_of_def local_of_def)
  qed
  then show ?thesis
    using hit targets bbmds verdict by (auto simp: ev)
qed

theorem probe_verdict_witness:
  "\<exists>ev hist. probeLive demo_net demo_config = (Ok (ev, 1), hist) \<and> ev_unicast ev = Some 77
     \<and> ev_verdict ev = RebindFail \<and> ev_crossed ev = []"
  using probe_verdict [OF demo_run] demo_run by simp

end
