(* ===== verification/Go_Utf8.thy ===== *)
theory Go_Utf8
  imports Rsdd_Prelude
begin

text \<open>
  Text. Go's \<open>utf8.DecodeRune\<close>, \<open>utf8.Valid\<close> and the conversions between byte strings and runes, and the two
  independent ports of Python's \<open>bytes.decode("utf-8", errors="replace")\<close>: \<open>pyDecodeReplace\<close> of
  \<open>internal/serial/pyutil.go\<close> and \<open>zipDecodeUTF8Replace\<close> of \<open>internal/formats/zipname.go\<close>. A decoded text
  is a list of runes (code points).
\<close>

section \<open>The standard library\<close>

type_synonym rune = nat

definition RuneError :: rune where "RuneError = 0xFFFD"

definition cont :: "byte \<Rightarrow> bool" where
  "cont b \<longleftrightarrow> 0x80 \<le> unat b \<and> unat b \<le> 0xBF"

definition in_range :: "nat \<Rightarrow> nat \<Rightarrow> byte \<Rightarrow> bool" where
  "in_range lo hi b \<longleftrightarrow> lo \<le> unat b \<and> unat b \<le> hi"

text \<open>The second byte a lead byte accepts (the \<open>acceptRanges\<close> of the library).\<close>

definition accept_lo :: "nat \<Rightarrow> nat" where
  "accept_lo b0 = (if b0 = 0xE0 then 0xA0 else if b0 = 0xF0 then 0x90 else 0x80)"

definition accept_hi :: "nat \<Rightarrow> nat" where
  "accept_hi b0 = (if b0 = 0xED then 0x9F else if b0 = 0xF4 then 0x8F else 0xBF)"

text \<open>\<open>utf8.DecodeRune\<close>: the rune and its width, \<open>(RuneError, 1)\<close> for an invalid encoding.\<close>

fun decode_rune :: "bytes \<Rightarrow> rune \<times> nat" where
  "decode_rune [] = (RuneError, 0)"
| "decode_rune (b # bs) =
     (let b0 = unat b
      in if b0 < 0x80 then (b0, 1)
         else if 0xC2 \<le> b0 \<and> b0 \<le> 0xDF
         then (case bs of
                 c1 # _ \<Rightarrow> if cont c1 then ((b0 - 0xC0) * 64 + (unat c1 - 0x80), 2) else (RuneError, 1)
               | [] \<Rightarrow> (RuneError, 1))
         else if 0xE0 \<le> b0 \<and> b0 \<le> 0xEF
         then (case bs of
                 c1 # c2 # _ \<Rightarrow>
                   if in_range (accept_lo b0) (accept_hi b0) c1 \<and> cont c2
                   then ((b0 - 0xE0) * 4096 + (unat c1 - 0x80) * 64 + (unat c2 - 0x80), 3) else (RuneError, 1)
               | _ \<Rightarrow> (RuneError, 1))
         else if 0xF0 \<le> b0 \<and> b0 \<le> 0xF4
         then (case bs of
                 c1 # c2 # c3 # _ \<Rightarrow>
                   if in_range (accept_lo b0) (accept_hi b0) c1 \<and> cont c2 \<and> cont c3
                   then ((b0 - 0xF0) * 262144 + (unat c1 - 0x80) * 4096 + (unat c2 - 0x80) * 64 + (unat c3 - 0x80), 4)
                   else (RuneError, 1)
               | _ \<Rightarrow> (RuneError, 1))
         else (RuneError, 1))"

declare decode_rune.simps(2) [simp del]

definition encode_rune :: "rune \<Rightarrow> bytes" where
  "encode_rune r =
     (if r < 0x80 then [word_of_nat r]
      else if r < 0x800 then [word_of_nat (0xC0 + r div 64), word_of_nat (0x80 + r mod 64)]
      else if r < 0x10000
      then [word_of_nat (0xE0 + r div 4096), word_of_nat (0x80 + r div 64 mod 64), word_of_nat (0x80 + r mod 64)]
      else [word_of_nat (0xF0 + r div 262144), word_of_nat (0x80 + r div 4096 mod 64),
            word_of_nat (0x80 + r div 64 mod 64), word_of_nat (0x80 + r mod 64)])"

definition valid_rune :: "rune \<Rightarrow> bool" where
  "valid_rune r \<longleftrightarrow> r < 0xD800 \<or> (0xE000 \<le> r \<and> r < 0x110000)"

lemma decode_rune_width: "bs \<noteq> [] \<Longrightarrow> 1 \<le> snd (decode_rune bs)"
  by (cases bs) (auto simp: decode_rune.simps(2) Let_def split: list.split)

lemma decode_rune_width_le: "snd (decode_rune bs) \<le> length bs"
  by (cases bs) (auto simp: decode_rune.simps(2) Let_def split: list.split)

lemma decode_rune_shrinks [simp]: "bs \<noteq> [] \<Longrightarrow> length bs - snd (decode_rune bs) < length bs"
  using decode_rune_width [of bs] by (simp add: diff_less)

text \<open>\<open>utf8.Valid\<close>, and \<open>[]rune(s)\<close> (one \<open>RuneError\<close> per invalid byte).\<close>

function utf8_valid :: "bytes \<Rightarrow> bool" where
  "utf8_valid bs =
     (if bs = [] then True
      else if decode_rune bs = (RuneError, 1) then False
      else utf8_valid (drop (snd (decode_rune bs)) bs))"
  by pat_completeness auto
termination
  by (relation "measure length") simp_all

function runes_of :: "bytes \<Rightarrow> rune list" where
  "runes_of bs =
     (if bs = [] then []
      else fst (decode_rune bs) # runes_of (drop (snd (decode_rune bs)) bs))"
  by pat_completeness auto
termination
  by (relation "measure length") simp_all

definition bytes_of :: "rune list \<Rightarrow> bytes" where
  "bytes_of rs = concat (map encode_rune rs)"

declare utf8_valid.simps [simp del] runes_of.simps [simp del]

section \<open>The ports of the replacing decoder\<close>

fun run_while :: "nat \<Rightarrow> nat \<Rightarrow> bytes \<Rightarrow> nat" where
  \<comment> \<open>how many of the bytes fit, the first in \<open>[lo, hi]\<close>, the others any continuation byte\<close>
  "run_while lo hi [] = 0"
| "run_while lo hi (b # bs) = (if in_range lo hi b then Suc (run_while 0x80 0xBF bs) else 0)"

text \<open>\<open>invalidPrefixLen\<close> of \<open>serial/pyutil.go\<close>.\<close>

definition serial_invalidPrefixLen :: "bytes \<Rightarrow> nat" where
  "serial_invalidPrefixLen b =
     (let lead = unat (b ! 0)
      in if 0xe0 \<le> lead \<and> lead \<le> 0xef
         then 1 + run_while (if lead = 0xe0 then 0xa0 else 0x80) (if lead = 0xed then 0x9f else 0xbf) (drop 1 b)
         else if 0xf0 \<le> lead \<and> lead \<le> 0xf4
         then 1 + run_while (if lead = 0xf0 then 0x90 else 0x80) (if lead = 0xf4 then 0x8f else 0xbf) (drop 1 b)
         else 1)"

text \<open>\<open>invalidPrefixLen\<close> of \<open>formats/zipname.go\<close>: the lead byte's row, then at most \<open>need\<close> bytes.\<close>

definition lead_row :: "nat \<Rightarrow> (nat \<times> nat \<times> nat) option" where
  "lead_row c =
     (if 0xC2 \<le> c \<and> c \<le> 0xDF then Some (1, 0x80, 0xBF)
      else if c = 0xE0 then Some (2, 0xA0, 0xBF)
      else if (0xE1 \<le> c \<and> c \<le> 0xEC) \<or> c = 0xEE \<or> c = 0xEF then Some (2, 0x80, 0xBF)
      else if c = 0xED then Some (2, 0x80, 0x9F)
      else if c = 0xF0 then Some (3, 0x90, 0xBF)
      else if 0xF1 \<le> c \<and> c \<le> 0xF3 then Some (3, 0x80, 0xBF)
      else if c = 0xF4 then Some (3, 0x80, 0x8F)
      else None)"

fun run_upto :: "nat \<Rightarrow> nat \<Rightarrow> nat \<Rightarrow> bytes \<Rightarrow> nat" where
  "run_upto need lo hi [] = 0"
| "run_upto need lo hi (b # bs) =
     (if need = 0 \<or> unat b < lo \<or> unat b > hi then 0 else Suc (run_upto (need - 1) 0x80 0xBF bs))"

definition zip_invalidPrefixLen :: "bytes \<Rightarrow> nat" where
  "zip_invalidPrefixLen b =
     (case lead_row (unat (b ! 0)) of
        None \<Rightarrow> 1
      | Some (need, lo, hi) \<Rightarrow> 1 + run_upto need lo hi (drop 1 b))"

function pyDecodeReplace :: "bytes \<Rightarrow> rune list" where
  "pyDecodeReplace b =
     (if b = [] then []
      else if decode_rune b = (RuneError, 1)
      then RuneError # pyDecodeReplace (drop (serial_invalidPrefixLen b) b)
      else fst (decode_rune b) # pyDecodeReplace (drop (snd (decode_rune b)) b))"
  by pat_completeness auto
termination
  by (relation "measure length") (simp_all add: serial_invalidPrefixLen_def Let_def)

function zip_replace_loop :: "bytes \<Rightarrow> rune list" where
  "zip_replace_loop raw =
     (if raw = [] then []
      else let (r, n) = decode_rune raw
           in if r \<noteq> RuneError \<or> n > 1 then r # zip_replace_loop (drop n raw)
              else RuneError # zip_replace_loop (drop (zip_invalidPrefixLen raw) raw))"
  by pat_completeness auto
termination
proof (relation "measure length")
  fix raw :: bytes and x r n
  assume *: "raw \<noteq> []" "x = decode_rune raw" "(r, n) = x" "r \<noteq> RuneError \<or> n > 1"
  then have "n = snd (decode_rune raw)" by (metis snd_conv)
  with * show "(drop n raw, raw) \<in> measure length" by simp
qed (auto simp: zip_invalidPrefixLen_def split: option.split)

definition zipDecodeUTF8Replace :: "bytes \<Rightarrow> rune list" where
  "zipDecodeUTF8Replace raw = (if utf8_valid raw then runes_of raw else zip_replace_loop raw)"

declare pyDecodeReplace.simps [simp del] zip_replace_loop.simps [simp del]

section \<open>Encoding and decoding\<close>

lemma valid_rune_error [simp]: "valid_rune RuneError"
  by (simp add: valid_rune_def RuneError_def)

lemma byte_of_nat [simp]: "n < 256 \<Longrightarrow> unat (word_of_nat n :: byte) = n"
  by (simp add: unat_of_nat take_bit_eq_mod)

lemma base64_digits: obtains q d :: nat where "r = q * 64 + d" "d < 64"
  by (rule that [of "r div 64" "r mod 64"]) simp_all

lemma encode_rune_2:
  "2 \<le> a \<Longrightarrow> a < 32 \<Longrightarrow> d < 64 \<Longrightarrow> encode_rune (a * 64 + d) = [word_of_nat (0xC0 + a), word_of_nat (0x80 + d)]"
  by (simp add: encode_rune_def)

lemma encode_rune_3:
  assumes q: "32 \<le> q" "q = a * 64 + c" "c < 64" and ad: "a < 16" "d < 64"
  shows "encode_rune (q * 64 + d) = [word_of_nat (0xE0 + a), word_of_nat (0x80 + c), word_of_nat (0x80 + d)]"
proof -
  let ?r = "q * 64 + d"
  have 1: "?r div 64 = q" "?r mod 64 = d" using ad by simp_all
  have 2: "q div 64 = a" "q mod 64 = c" using q by simp_all
  have "?r div 4096 = (?r div 64) div 64"
    by (simp only: div_mult2_eq [symmetric]) simp
  then have 3: "?r div 4096 = a" by (simp only: 1 2)
  have "\<not> ?r < 0x80" "\<not> ?r < 0x800" "?r < 0x10000" using q ad by simp_all
  then show ?thesis
    unfolding encode_rune_def 1 2 3 by (simp only: if_False if_True 1 2)
qed

lemma encode_rune_4:
  assumes p: "1024 \<le> p" "p = q * 64 + d" "d < 64" and q: "q = a * 64 + c" "c < 64" and e: "e < 64"
  shows "encode_rune (p * 64 + e) =
    [word_of_nat (0xF0 + a), word_of_nat (0x80 + c), word_of_nat (0x80 + d), word_of_nat (0x80 + e)]"
proof -
  let ?r = "p * 64 + e"
  have 1: "?r div 64 = p" "?r mod 64 = e" using e by simp_all
  have 2: "p div 64 = q" "p mod 64 = d" unfolding p(2) using p(3) by simp_all
  have 2: "p div 64 = q" "p mod 64 = d" "q div 64 = a" "q mod 64 = c" using 2 q by simp_all
  have "?r div 4096 = (?r div 64) div 64" "?r div 262144 = ((?r div 64) div 64) div 64"
    by (simp_all only: div_mult2_eq [symmetric]) simp_all
  then have 3: "?r div 4096 = q" "?r div 262144 = a" by (simp_all only: 1 2)
  have "\<not> ?r < 0x80" "\<not> ?r < 0x800" "\<not> ?r < 0x10000" using p by simp_all
  then show ?thesis
    unfolding encode_rune_def 1 2 3 by (simp only: if_False if_True 1 2)
qed

lemma decode_encode: "valid_rune r \<Longrightarrow> decode_rune (encode_rune r @ bs) = (r, length (encode_rune r))"
proof -
  assume v: "valid_rune r"
  obtain q3 e where r: "r = q3 * 64 + e" "e < 64" by (rule base64_digits)
  obtain q2 d where q3: "q3 = q2 * 64 + d" "d < 64" by (rule base64_digits)
  obtain a c where q2: "q2 = a * 64 + c" "c < 64" by (rule base64_digits)
  consider "r < 0x80" | "0x80 \<le> r" "r < 0x800" | "0x800 \<le> r" "r < 0x10000" | "0x10000 \<le> r"
    by linarith
  then show ?thesis
  proof cases
    case 1
    then show ?thesis by (simp add: encode_rune_def decode_rune.simps(2))
  next
    case 2
    then have "2 \<le> q3" "q3 < 32" using r by simp_all
    then show ?thesis
      using r by (simp add: encode_rune_2 decode_rune.simps(2) cont_def Let_def del: of_nat_add)
  next
    case 3
    then have "32 \<le> q3" "q2 < 16" using r q3 by simp_all
    moreover have "accept_lo (224 + q2) \<le> 128 + d"
      using calculation q3 by (simp add: accept_lo_def)
    moreover have "128 + d \<le> accept_hi (224 + q2)"
      using v 3 r q3 by (auto simp: accept_hi_def valid_rune_def)
    ultimately show ?thesis
      using r(2) q3(2) unfolding r(1)
      by (simp add: encode_rune_3 [OF _ q3] decode_rune.simps(2) cont_def in_range_def Let_def del: of_nat_add)
        (simp add: q3)
  next
    case 4
    then have "1024 \<le> q3" using r by simp
    moreover have "a \<le> 4"
      using v 4 r q3 q2 by (simp add: valid_rune_def)
    moreover have "accept_lo (240 + a) \<le> 128 + c"
      using 4 r q3 q2 by (simp add: accept_lo_def)
    moreover have "128 + c \<le> accept_hi (240 + a)"
      using v 4 r q3 q2 by (auto simp: accept_hi_def valid_rune_def)
    ultimately show ?thesis
      using r(2) q3(2) q2(2) unfolding r(1)
      by (simp add: encode_rune_4 [OF _ q3 q2] decode_rune.simps(2) cont_def in_range_def Let_def del: of_nat_add)
        (simp add: q3 q2)
  qed
qed

lemma encode_rune_length: "1 \<le> length (encode_rune r)"
  by (simp add: encode_rune_def)

lemma encode_rune_ne [simp]: "encode_rune r \<noteq> []"
  by (simp add: encode_rune_def)

lemma decode_encode_valid: "valid_rune r \<Longrightarrow> decode_rune (encode_rune r @ bs) \<noteq> (RuneError, 1)"
proof
  assume "valid_rune r" "decode_rune (encode_rune r @ bs) = (RuneError, 1)"
  then have "r = RuneError" "length (encode_rune r) = 1" by (auto simp: decode_encode)
  then show False by (simp add: encode_rune_def RuneError_def)
qed

text \<open>What is decoded, when it is not an error, is the encoding of a valid rune.\<close>

lemma byte_restore: "k \<le> unat (b :: byte) \<Longrightarrow> word_of_nat (k + (unat b - k)) = b"
  by simp

lemma decode_cases:
  assumes "decode_rune (b # bs) = (r, n)" "(r, n) \<noteq> (RuneError, 1)"
  obtains (ascii) "unat b < 0x80" "r = unat b" "n = 1"
  | (two) c1 where "0xC2 \<le> unat b" "unat b \<le> 0xDF" "cont c1" "take 1 bs = [c1]"
      "r = (unat b - 0xC0) * 64 + (unat c1 - 0x80)" "n = 2"
  | (three) c1 c2 where "0xE0 \<le> unat b" "unat b \<le> 0xEF"
      "in_range (accept_lo (unat b)) (accept_hi (unat b)) c1" "cont c2" "take 2 bs = [c1, c2]"
      "r = (unat b - 0xE0) * 4096 + (unat c1 - 0x80) * 64 + (unat c2 - 0x80)" "n = 3"
  | (four) c1 c2 c3 where "0xF0 \<le> unat b" "unat b \<le> 0xF4"
      "in_range (accept_lo (unat b)) (accept_hi (unat b)) c1" "cont c2" "cont c3" "take 3 bs = [c1, c2, c3]"
      "r = (unat b - 0xF0) * 262144 + (unat c1 - 0x80) * 4096 + (unat c2 - 0x80) * 64 + (unat c3 - 0x80)" "n = 4"
proof -
  consider "unat b < 0x80" | "0xC2 \<le> unat b" "unat b \<le> 0xDF" | "0xE0 \<le> unat b" "unat b \<le> 0xEF"
    | "0xF0 \<le> unat b" "unat b \<le> 0xF4"
    using assms by (simp add: decode_rune.simps(2) Let_def split: if_splits)
  then show thesis
  proof cases
    case 1
    with assms show thesis by (intro ascii) (simp_all add: decode_rune.simps(2))
  next
    case 2
    with assms obtain c1 cs where "bs = c1 # cs" "cont c1"
      by (auto simp: decode_rune.simps(2) Let_def split: list.splits if_splits)
    with 2 assms show thesis by (intro two [of c1]) (simp_all add: decode_rune.simps(2))
  next
    case 3
    with assms obtain c1 c2 cs where "bs = c1 # c2 # cs"
        "in_range (accept_lo (unat b)) (accept_hi (unat b)) c1" "cont c2"
      by (auto simp: decode_rune.simps(2) Let_def split: list.splits if_splits)
    with 3 assms show thesis by (intro three [of c1 c2]) (simp_all add: decode_rune.simps(2) numeral_2_eq_2)
  next
    case 4
    with assms obtain c1 c2 c3 cs where "bs = c1 # c2 # c3 # cs"
        "in_range (accept_lo (unat b)) (accept_hi (unat b)) c1" "cont c2" "cont c3"
      by (auto simp: decode_rune.simps(2) Let_def split: list.splits if_splits)
    with 4 assms show thesis by (intro four [of c1 c2 c3]) (simp_all add: decode_rune.simps(2) numeral_3_eq_3)
  qed
qed

lemma decode_valid:
  assumes "decode_rune b = (r, n)" "b \<noteq> []" "(r, n) \<noteq> (RuneError, 1)"
  shows "valid_rune r \<and> take n b = encode_rune r"
proof -
  obtain b0 bs where b: "b = b0 # bs" using assms(2) by (cases b) auto
  from assms(1,3) [unfolded b] show ?thesis
  proof (cases rule: decode_cases)
    case ascii
    then show ?thesis by (simp add: b valid_rune_def encode_rune_def)
  next
    case (two c1)
    have r: "r = (unat b0 - 0xC0) * 64 + (unat c1 - 0x80)" using two by simp
    have "encode_rune r = [b0, c1]"
      unfolding r using two by (subst encode_rune_2) (auto simp: cont_def simp del: of_nat_add)
    moreover have "r < 0xD800" using two unfolding r cont_def by linarith
    ultimately show ?thesis using two by (simp add: b valid_rune_def numeral_2_eq_2)
  next
    case (three c1 c2)
    let ?q = "(unat b0 - 0xE0) * 64 + (unat c1 - 0x80)"
    have c1: "0x80 \<le> unat c1" "unat c1 \<le> 0xBF" "32 \<le> ?q"
      using three by (auto simp: in_range_def accept_lo_def accept_hi_def split: if_splits)
    have r: "r = ?q * 64 + (unat c2 - 0x80)" using three by simp
    have "encode_rune r = [b0, c1, c2]"
      unfolding r using three c1
      by (subst encode_rune_3 [OF _ refl]) (auto simp: cont_def simp del: of_nat_add)
    moreover have "valid_rune r"
    proof -
      obtain a x y where "unat b0 = 0xE0 + a" "unat c1 = 0x80 + x" "unat c2 = 0x80 + y"
        using three c1 unfolding cont_def by (metis le_Suc_ex)
      moreover from this have "a < 16" "x < 64" "y < 64" "a = 13 \<longrightarrow> x < 32"
        using three c1 by (auto simp: cont_def in_range_def accept_hi_def)
      moreover from this have "a < 13 \<or> a = 13 \<or> 13 < a" by auto
      ultimately show ?thesis using three by (auto simp: valid_rune_def)
    qed
    ultimately show ?thesis using three by (simp add: b numeral_3_eq_3 numeral_2_eq_2)
  next
    case (four c1 c2 c3)
    let ?q = "(unat b0 - 0xF0) * 64 + (unat c1 - 0x80)"
    let ?p = "?q * 64 + (unat c2 - 0x80)"
    have c1: "0x80 \<le> unat c1" "unat c1 \<le> 0xBF" "1024 \<le> ?p"
      using four by (auto simp: in_range_def accept_lo_def accept_hi_def split: if_splits)
    have r: "r = ?p * 64 + (unat c3 - 0x80)" using four by simp
    have "encode_rune r = [b0, c1, c2, c3]"
      unfolding r using four c1
      by (subst encode_rune_4 [OF _ refl _ refl]) (auto simp: cont_def simp del: of_nat_add)
    moreover have "valid_rune r"
    proof -
      obtain a x y z where "unat b0 = 0xF0 + a" "unat c1 = 0x80 + x" "unat c2 = 0x80 + y" "unat c3 = 0x80 + z"
        using four c1 unfolding cont_def by (metis le_Suc_ex)
      moreover from this have "a \<le> 4" "x < 64" "y < 64" "z < 64" "a = 0 \<longrightarrow> 16 \<le> x" "a = 4 \<longrightarrow> x < 16"
        using four c1 by (auto simp: cont_def in_range_def accept_hi_def accept_lo_def)
      ultimately have *: "r = a * 262144 + x * 4096 + y * 64 + z" "a \<le> 4" "x < 64" "y < 64" "z < 64"
          "a = 0 \<longrightarrow> 16 \<le> x" "a = 4 \<longrightarrow> x < 16"
        using four by simp_all
      have "0xE000 \<le> r"
      proof (cases "a = 0")
        case True
        then show ?thesis using *(1,6) by simp
      next
        case False
        then have "1 \<le> a" by simp
        then show ?thesis unfolding *(1) by linarith
      qed
      moreover have "r < 0x110000"
      proof (cases "a = 4")
        case True
        then have "a = 4" "x \<le> 15" using *(7) by auto
        then show ?thesis using *(4,5) unfolding *(1) by linarith
      next
        case False
        then have "a \<le> 3" using *(2) by simp
        then show ?thesis using *(3,4,5) unfolding *(1) by linarith
      qed
      ultimately show ?thesis by (simp add: valid_rune_def)
    qed
    ultimately show ?thesis using four(6,8) by (simp add: b take_Cons_numeral)
  qed
qed

lemma utf8_valid_encode: "valid_rune r \<Longrightarrow> utf8_valid (encode_rune r @ bs) \<longleftrightarrow> utf8_valid bs"
  using decode_encode_valid [of r bs] by (subst utf8_valid.simps) (auto simp: decode_encode)

lemma runes_of_encode: "valid_rune r \<Longrightarrow> runes_of (encode_rune r @ bs) = r # runes_of bs"
  by (subst runes_of.simps) (simp add: decode_encode)

lemma pyDecodeReplace_encode: "valid_rune r \<Longrightarrow> pyDecodeReplace (encode_rune r @ bs) = r # pyDecodeReplace bs"
  using decode_encode_valid [of r bs] by (subst pyDecodeReplace.simps) (auto simp: decode_encode)

lemma bytes_of_simps [simp]: "bytes_of [] = []" "bytes_of (r # rs) = encode_rune r @ bytes_of rs"
  by (simp_all add: bytes_of_def)

lemma encoded_runes:
  "list_all valid_rune rs \<Longrightarrow>
     utf8_valid (bytes_of rs) \<and> runes_of (bytes_of rs) = rs \<and> pyDecodeReplace (bytes_of rs) = rs"
proof (induction rs)
  case Nil
  show ?case by (simp add: utf8_valid.simps [of "[]"] runes_of.simps [of "[]"] pyDecodeReplace.simps [of "[]"])
next
  case (Cons r rs)
  then show ?case by (simp add: utf8_valid_encode runes_of_encode pyDecodeReplace_encode)
qed

lemma decode_rune_runes: "b \<noteq> [] \<Longrightarrow> valid_rune (fst (decode_rune b))"
  using decode_valid [of b "fst (decode_rune b)" "snd (decode_rune b)"]
  by (cases "decode_rune b = (RuneError, 1)") auto

lemma pyDecodeReplace_runes: "list_all valid_rune (pyDecodeReplace b)"
proof (induction b rule: pyDecodeReplace.induct)
  case (1 b)
  then show ?case
    by (subst pyDecodeReplace.simps) (simp add: decode_rune_runes)
qed

text \<open>On valid input nothing is replaced.\<close>

lemma utf8_valid_decode:
  "utf8_valid b \<Longrightarrow> bytes_of (pyDecodeReplace b) = b \<and> runes_of b = pyDecodeReplace b"
proof (induction b rule: utf8_valid.induct)
  case (1 b)
  show ?case
  proof (cases "b = []")
    case True
    then show ?thesis by (simp add: pyDecodeReplace.simps [of "[]"] runes_of.simps [of "[]"])
  next
    case False
    obtain r n where d: "decode_rune b = (r, n)" by (cases "decode_rune b")
    with 1 False have v: "(r, n) \<noteq> (RuneError, 1)" "utf8_valid (drop n b)"
      by (auto simp: utf8_valid.simps [of b] split: if_splits)
    have "take n b = encode_rune r" using decode_valid [OF d False v(1)] by simp
    moreover have "bytes_of (pyDecodeReplace (drop n b)) = drop n b \<and> runes_of (drop n b) = pyDecodeReplace (drop n b)"
      using 1 False d v by simp
    ultimately show ?thesis
      using d v(1) False by (simp add: pyDecodeReplace.simps [of b] runes_of.simps [of b]) (metis append_take_drop_id)
  qed
qed

text \<open>The two ports skip the same bytes at an invalid encoding.\<close>

lemma invalidPrefixLen_ports:
  assumes "b \<noteq> []" "decode_rune b = (RuneError, 1)"
  shows "serial_invalidPrefixLen b = zip_invalidPrefixLen b"
proof -
  obtain b0 bs where b: "b = b0 # bs" using assms(1) by (cases b) auto
  note defs = b serial_invalidPrefixLen_def zip_invalidPrefixLen_def lead_row_def decode_rune.simps(2)
    in_range_def cont_def accept_lo_def accept_hi_def RuneError_def
  consider "unat b0 < 0xC2" | "0xC2 \<le> unat b0" "unat b0 \<le> 0xDF" | "0xE0 \<le> unat b0" "unat b0 \<le> 0xEF"
    | "0xF0 \<le> unat b0" "unat b0 \<le> 0xF4" | "0xF4 < unat b0" by linarith
  then show ?thesis
  proof cases
    case 1
    then show ?thesis by (simp add: defs)
  next
    case 2
    with assms show ?thesis by (cases bs) (auto simp: defs split: if_splits)
  next
    case 3
    show ?thesis
    proof (cases bs)
      case Nil
      with 3 show ?thesis by (simp add: defs Let_def numeral_2_eq_2)
    next
      case (Cons c1 cs)
      with 3 assms show ?thesis
        by (cases cs) (auto simp: defs Let_def numeral_2_eq_2 split: if_splits)
    qed
  next
    case 4
    show ?thesis
    proof (cases bs)
      case Nil
      with 4 show ?thesis by (simp add: defs Let_def numeral_3_eq_3)
    next
      case (Cons c1 cs)
      with 4 assms show ?thesis
        by (cases cs; cases "tl cs") (auto simp: defs Let_def numeral_3_eq_3 split: if_splits)
    qed
  next
    case 5
    then show ?thesis by (simp add: defs)
  qed
qed

lemma zip_replace_loop_port: "zip_replace_loop b = pyDecodeReplace b"
proof (induction b rule: pyDecodeReplace.induct)
  case (1 b)
  show ?case
  proof (cases "b = [] \<or> decode_rune b = (RuneError, 1)")
    case True
    with 1 show ?thesis
      by (auto simp: zip_replace_loop.simps [of b] pyDecodeReplace.simps [of b] invalidPrefixLen_ports)
  next
    case False
    obtain r n where d: "decode_rune b = (r, n)" by (cases "decode_rune b")
    have "1 \<le> n" using decode_rune_width [of b] d False by simp
    with False d have "r \<noteq> RuneError \<or> n > 1" by auto
    with 1 False d show ?thesis
      by (auto simp: zip_replace_loop.simps [of b] pyDecodeReplace.simps [of b])
  qed
qed

lemma zipDecodeUTF8Replace_port: "zipDecodeUTF8Replace b = pyDecodeReplace b"
  by (simp add: zipDecodeUTF8Replace_def utf8_valid_decode zip_replace_loop_port)

lemma ascii_text:
  "list_all (\<lambda>b. b < (0x80 :: byte)) bs \<Longrightarrow>
     utf8_valid bs \<and> runes_of bs = map unat bs \<and> bytes_of (map unat bs) = bs"
proof (induction bs)
  case Nil
  show ?case by (simp add: runes_of.simps [of "[]"] utf8_valid.simps [of "[]"])
next
  case (Cons b bs)
  then have "unat b < 128" by (simp add: word_less_nat_alt)
  with Cons show ?case
    by (simp add: runes_of.simps [of "b # bs"] utf8_valid.simps [of "b # bs"] decode_rune.simps(2) encode_rune_def
        RuneError_def)
qed

section \<open>Properties\<close>

text \<open>
  The two ports of Python's \<open>bytes.decode("utf-8", errors="replace")\<close>, one bounding the invalid run by
  the lead byte's table and one by scanning, decode every byte string to the same text.
\<close>

theorem decode_replace_ports_agree: "zipDecodeUTF8Replace b = pyDecodeReplace b"
  by (rule zipDecodeUTF8Replace_port)

text \<open>
  The replacing decoder always yields valid code points, and it loses nothing exactly when the input was
  valid UTF-8: re-encoding its result gives the input back if and only if \<open>utf8.Valid\<close> accepts the input.
\<close>

theorem decode_replace_lossless_iff:
  "list_all valid_rune (pyDecodeReplace b) \<and> (bytes_of (pyDecodeReplace b) = b \<longleftrightarrow> utf8_valid b)"
  using pyDecodeReplace_runes [of b] encoded_runes [of "pyDecodeReplace b"] utf8_valid_decode [of b] by auto

end
