(* ===== verification/Jsonout.thy ===== *)
theory Jsonout
  imports Go_Utf8 Go_Std "HOL-Library.List_Lexorder" "HOL-Library.Multiset"
begin

text \<open>
  Canonical JSON: \<open>internal/core/jsonout/jsonout.go\<close>, the one encoder behind every report of the program. A Go
  value is a \<open>jval\<close>; a Go string is its bytes. A \<open>float64\<close> is what the encoder sees of it: not finite, zero, or
  the digits and the exponent of its shortest decimal form (\<open>strconv.FormatFloat(f, 'e', -1, 64)\<close>).
\<close>

section \<open>Values and options\<close>

datatype jfloat =
    NotFinite
  | FZero bool \<comment> \<open>the sign\<close>
  | Finite bool nat int \<comment> \<open>the sign, the shortest digits read as a number, the decimal exponent\<close>

datatype jval =
    JNull
  | JBool bool
  | JStr bytes
  | JNumber string \<comment> \<open>\<open>json.Number\<close>\<close>
  | JInt int \<comment> \<open>any sized integer\<close>
  | JFloat jfloat
  | JList "jval list"
  | JMap "(bytes \<times> jval) list" \<comment> \<open>a map with string keys\<close>
  | JPtr "jval option" \<comment> \<open>a pointer or an interface\<close>
  | JByteSlice
  | JOtherMap \<comment> \<open>a map whose keys are no strings\<close>
  | JOther \<comment> \<open>a struct, a function, a channel\<close>

record options =
  Indent :: nat
  ASCII :: bool

datatype json_err =
    ErrDepth | ErrIndirection | ErrUtf8 bytes | ErrNumber string | ErrNotFinite | ErrBytes | ErrKey | ErrType

definition MaxDepth :: nat where "MaxDepth = 1000"

definition asc :: "string \<Rightarrow> bytes" where
  "asc s = map (\<lambda>c. word_of_nat (of_char c)) s"

section \<open>Strings\<close>

definition hex_digit :: "nat \<Rightarrow> byte" where
  "hex_digit d = word_of_nat (if d < 10 then 48 + d else 87 + d)"

definition u16_esc :: "nat \<Rightarrow> bytes" where
  "u16_esc r = [92, 117, hex_digit (r div 4096 mod 16), hex_digit (r div 256 mod 16),
            hex_digit (r div 16 mod 16), hex_digit (r mod 16)]"

definition str_rune :: "options \<Rightarrow> rune \<Rightarrow> bytes" where
  "str_rune opt r =
     (if r = 34 then [92, 34]
      else if r = 92 then [92, 92]
      else if r = 10 then [92, 110]
      else if r = 13 then [92, 114]
      else if r = 9 then [92, 116]
      else if r = 8 then [92, 98]
      else if r = 12 then [92, 102]
      else if r < 0x20 then u16_esc r
      else if \<not> ASCII opt then encode_rune r
      else if 0x20 \<le> r \<and> r \<le> 0x7e then [word_of_nat r]
      else if 0x10000 \<le> r
      then u16_esc (0xd800 + (r - 0x10000) div 1024) @ u16_esc (0xdc00 + (r - 0x10000) mod 1024)
      else u16_esc r)"

definition enc_str :: "options \<Rightarrow> bytes \<Rightarrow> (json_err, bytes) res" where
  "enc_str opt s =
     (if \<not> utf8_valid s then Fail (ErrUtf8 s)
      else Ok (34 # concat (map (str_rune opt) (runes_of s)) @ [34]))"

section \<open>Numbers\<close>

definition is_digit :: "char \<Rightarrow> bool" where
  "is_digit c \<longleftrightarrow> 48 \<le> (of_char c :: nat) \<and> (of_char c :: nat) \<le> 57"

text \<open>The regular expression \<open>numberSyntax\<close>.\<close>

definition drop_fraction :: "string \<Rightarrow> string" where
  "drop_fraction s =
     (case s of
        c # t \<Rightarrow> if c = CHR ''.'' \<and> takeWhile is_digit t \<noteq> [] then dropWhile is_digit t else s
      | [] \<Rightarrow> [])"

definition exponent_or_end :: "string \<Rightarrow> bool" where
  "exponent_or_end s =
     (case s of
        [] \<Rightarrow> True
      | c # t \<Rightarrow>
          (c = CHR ''e'' \<or> c = CHR ''E'') \<and>
          (let ds = (case t of d # u \<Rightarrow> if d = CHR ''+'' \<or> d = CHR ''-'' then u else t | [] \<Rightarrow> [])
           in ds \<noteq> [] \<and> list_all is_digit ds))"

definition strip_minus :: "string \<Rightarrow> string" where
  "strip_minus s = (case s of c # t \<Rightarrow> if c = CHR ''-'' then t else s | [] \<Rightarrow> [])"

definition numberSyntax :: "string \<Rightarrow> bool" where
  "numberSyntax s =
     (let t = strip_minus s; ds = takeWhile is_digit t
      in ds \<noteq> [] \<and> (hd ds = CHR ''0'' \<longrightarrow> length ds = 1) \<and>
         exponent_or_end (drop_fraction (dropWhile is_digit t)))"

definition int_str :: "int \<Rightarrow> string" where
  "int_str i = (if i < 0 then CHR ''-'' # dec_str (nat (- i)) else dec_str (nat i))"

text \<open>\<open>big.Int.SetString(s, 10)\<close>, and the \<open>'e'\<close> form of \<open>strconv.FormatFloat\<close>.\<close>

definition big_int :: "string \<Rightarrow> int option" where
  "big_int s =
     (let t = strip_minus s
      in if t = [] then None
         else map_option (\<lambda>n. if t = s then int n else - int n) (digits_val 10 0 t))"

definition sci_str :: "string \<Rightarrow> int \<Rightarrow> string" where
  "sci_str digits e =
     take 1 digits @ (if length digits > 1 then CHR ''.'' # drop 1 digits else []) @ ''e'' @
     (if e < 0 then ''-'' else ''+'') @ (if \<bar>e\<bar> < 10 then ''0'' else []) @ dec_str (nat \<bar>e\<bar>)"

definition pyFloat :: "jfloat \<Rightarrow> string" where
  "pyFloat f =
     (case f of
        NotFinite \<Rightarrow> []
      | FZero neg \<Rightarrow> (if neg then ''-'' else []) @ ''0.0''
      | Finite neg m e \<Rightarrow>
         (let digits = dec_str m
          in (if neg then ''-'' else []) @
          (if 16 \<le> e \<or> e < -4 then sci_str digits e
           else if 0 \<le> e
           then (if int (length digits) \<le> e + 1
                 then digits @ replicate (nat (e + 1) - length digits) (CHR ''0'') @ ''.0''
                 else take (nat (e + 1)) digits @ CHR ''.'' # drop (nat (e + 1)) digits)
           else ''0.'' @ replicate (nat (- e - 1)) (CHR ''0'') @ digits)))"

definition enc_float :: "jfloat \<Rightarrow> (json_err, bytes) res" where
  "enc_float f = (if f = NotFinite then Fail ErrNotFinite else Ok (asc (pyFloat f)))"

text \<open>\<open>parse_float\<close> stands for \<open>strconv.ParseFloat\<close>: \<open>None\<close> is a range error.\<close>

definition enc_number :: "(string \<Rightarrow> jfloat option) \<Rightarrow> string \<Rightarrow> (json_err, bytes) res" where
  "enc_number parse_float s =
     (if \<not> numberSyntax s then Fail (ErrNumber s)
      else if \<not> (CHR ''.'' \<in> set s \<or> CHR ''e'' \<in> set s \<or> CHR ''E'' \<in> set s)
      then (case big_int s of None \<Rightarrow> Fail (ErrNumber s) | Some i \<Rightarrow> Ok (asc (int_str i)))
      else (case parse_float s of None \<Rightarrow> Fail (ErrNumber s) | Some f \<Rightarrow> enc_float f))"

section \<open>The encoder\<close>

definition newline :: "options \<Rightarrow> nat \<Rightarrow> bytes" where
  "newline opt depth = 10 # replicate (Indent opt * depth) 32"

definition brk :: "options \<Rightarrow> nat \<Rightarrow> bytes" where
  "brk opt depth = (if 0 < Indent opt then newline opt depth else [])"

text \<open>
  \<open>enc_items\<close> and \<open>enc_fields\<close> are the loops of \<open>list\<close> and \<open>object\<close>: the flag says whether it is the first turn, that is, whether a
  comma is due. \<open>hops\<close> counts the pointers on the current path.
\<close>

function enc_value :: "(string \<Rightarrow> jfloat option) \<Rightarrow> options \<Rightarrow> nat \<Rightarrow> nat \<Rightarrow> jval \<Rightarrow> (json_err, bytes) res"
  and enc_items :: "(string \<Rightarrow> jfloat option) \<Rightarrow> options \<Rightarrow> nat \<Rightarrow> nat \<Rightarrow> bool \<Rightarrow> jval list \<Rightarrow> (json_err, bytes) res"
  and enc_fields :: "(string \<Rightarrow> jfloat option) \<Rightarrow> options \<Rightarrow> nat \<Rightarrow> nat \<Rightarrow> bool \<Rightarrow> (bytes \<times> jval) list \<Rightarrow> (json_err, bytes) res"
where
  "enc_value pf opt hops depth JNull = Ok (asc ''null'')"
| "enc_value pf opt hops depth (JBool b) = Ok (asc (if b then ''true'' else ''false''))"
| "enc_value pf opt hops depth (JStr s) = enc_str opt s"
| "enc_value pf opt hops depth (JNumber s) = enc_number pf s"
| "enc_value pf opt hops depth (JInt i) = Ok (asc (int_str i))"
| "enc_value pf opt hops depth (JFloat f) = enc_float f"
| "enc_value pf opt hops depth (JList vs) =
     (if MaxDepth \<le> depth then Fail ErrDepth
      else if vs = [] then Ok (asc ''[]'')
      else andthen (enc_items pf opt hops depth True vs) (\<lambda>body. Ok (91 # body @ brk opt depth @ [93])))"
| "enc_value pf opt hops depth (JMap fs) =
     (if MaxDepth \<le> depth then Fail ErrDepth
      else if fs = [] then Ok (asc ''{}'')
      else andthen (enc_fields pf opt hops depth True (sort_key fst fs))
        (\<lambda>body. Ok (123 # body @ brk opt depth @ [125])))"
| "enc_value pf opt hops depth (JPtr None) = Ok (asc ''null'')"
| "enc_value pf opt hops depth (JPtr (Some v)) =
     (if MaxDepth \<le> hops then Fail ErrIndirection else enc_value pf opt (Suc hops) depth v)"
| "enc_value pf opt hops depth JByteSlice = Fail ErrBytes"
| "enc_value pf opt hops depth JOtherMap = (if MaxDepth \<le> depth then Fail ErrDepth else Fail ErrKey)"
| "enc_value pf opt hops depth JOther = Fail ErrType"
| "enc_items pf opt hops depth first [] = Ok []"
| "enc_items pf opt hops depth first (v # vs) =
     andthen (enc_value pf opt hops (depth + 1) v) (\<lambda>x.
     andthen (enc_items pf opt hops depth False vs) (\<lambda>rest.
       Ok ((if first then [] else [44]) @ brk opt (depth + 1) @ x @ rest)))"
| "enc_fields pf opt hops depth first [] = Ok []"
| "enc_fields pf opt hops depth first ((k, v) # fs) =
     andthen (enc_str opt k) (\<lambda>ks.
     andthen (enc_value pf opt hops (depth + 1) v) (\<lambda>x.
     andthen (enc_fields pf opt hops depth False fs) (\<lambda>rest.
       Ok ((if first then [] else [44]) @ brk opt (depth + 1) @ ks @ 58 #
           (if 0 < Indent opt then [32] else []) @ x @ rest))))"
  by pat_completeness auto
termination
proof (relation "measure (\<lambda>x. case x of
      Inl (_, _, _, _, v) \<Rightarrow> size v
    | Inr (Inl (_, _, _, _, _, vs)) \<Rightarrow> size_list size vs
    | Inr (Inr (_, _, _, _, _, fs)) \<Rightarrow> size_list (size_prod (\<lambda>_. 0) size) fs)", goal_cases)
  case (3 pf opt hops depth fs)
  have "size_list (size_prod (\<lambda>_. 0) size) (sort_key fst fs) = size_list (size_prod (\<lambda>_. 0) size) fs"
    by (simp add: size_list_conv_sum_list sum_mset_sum_list [symmetric])
  then show ?case by simp
qed simp_all

definition Encode :: "(string \<Rightarrow> jfloat option) \<Rightarrow> options \<Rightarrow> jval \<Rightarrow> (json_err, bytes) res" where
  "Encode pf opt v = andthen (enc_value pf opt 0 0 v) (\<lambda>b. Ok (b @ [10]))"

definition Canonical :: "(string \<Rightarrow> jfloat option) \<Rightarrow> jval \<Rightarrow> (json_err, bytes) res" where
  "Canonical pf v = Encode pf \<lparr>Indent = 0, ASCII = True\<rparr> v"

definition CanonicalUnicode :: "(string \<Rightarrow> jfloat option) \<Rightarrow> jval \<Rightarrow> (json_err, bytes) res" where
  "CanonicalUnicode pf v = Encode pf \<lparr>Indent = 0, ASCII = False\<rparr> v"

definition Indented :: "(string \<Rightarrow> jfloat option) \<Rightarrow> jval \<Rightarrow> (json_err, bytes) res" where
  "Indented pf v = Encode pf \<lparr>Indent = 2, ASCII = True\<rparr> v"

section \<open>When it succeeds\<close>

text \<open>
  The grammar of JSON numbers (RFC 8259): a sign, an integer part without leading zeros, a fraction and an
  exponent, the last two optional.
\<close>

definition digit_seq :: "string \<Rightarrow> bool" where
  "digit_seq ds \<longleftrightarrow> ds \<noteq> [] \<and> set ds \<subseteq> set ''0123456789''"

definition json_int :: "string \<Rightarrow> bool" where
  "json_int i \<longleftrightarrow> i = ''0'' \<or> digit_seq i \<and> hd i \<noteq> CHR ''0''"

definition json_frac :: "string \<Rightarrow> bool" where
  "json_frac f \<longleftrightarrow> f = [] \<or> (\<exists>ds. f = ''.'' @ ds \<and> digit_seq ds)"

definition json_exp :: "string \<Rightarrow> bool" where
  "json_exp e \<longleftrightarrow> e = [] \<or> (\<exists>l sg ds. e = l @ sg @ ds \<and> l \<in> {''e'', ''E''} \<and> sg \<in> {[], ''+'', ''-''} \<and> digit_seq ds)"

definition json_number :: "string \<Rightarrow> bool" where
  "json_number s \<longleftrightarrow>
     (\<exists>sg i f e. s = sg @ i @ f @ e \<and> sg \<in> {[], ''-''} \<and> json_int i \<and> json_frac f \<and> json_exp e)"

text \<open>
  A number is accepted when it is one of the grammar and, if it is written with a fraction or an exponent,
  \<open>strconv.ParseFloat\<close> finds it in range. An integer has no bound.
\<close>

definition number_ok :: "(string \<Rightarrow> jfloat option) \<Rightarrow> string \<Rightarrow> bool" where
  "number_ok pf s \<longleftrightarrow>
     json_number s \<and> (set s \<inter> set ''.eE'' \<noteq> {} \<longrightarrow> (\<exists>f. pf s = Some f \<and> f \<noteq> NotFinite))"

lemma is_digit_iff: "is_digit c \<longleftrightarrow> c \<in> set ''0123456789''"
proof
  assume "is_digit c"
  moreover have "n \<in> {48, 49, 50, 51, 52, 53, 54, 55, 56, 57}" if "48 \<le> n" "n \<le> 57" for n :: nat
    using that by (simp, presburger)
  ultimately have "(of_char c :: nat) \<in> {48, 49, 50, 51, 52, 53, 54, 55, 56, 57}"
    by (simp only: is_digit_def)
  then have "(of_char c :: nat) \<in> of_char ` set ''0123456789''" by simp
  then obtain d where "d \<in> set ''0123456789''" "(of_char c :: nat) = of_char d" by blast
  then show "c \<in> set ''0123456789''" by (simp only: of_char_eq_iff)
qed (auto simp: is_digit_def)

lemma digit_seq_iff: "digit_seq ds \<longleftrightarrow> ds \<noteq> [] \<and> list_all is_digit ds"
  by (simp only: digit_seq_def list_all_iff is_digit_iff subset_iff Ball_def)

definition exp_sign :: "string \<Rightarrow> string \<times> string" where
  "exp_sign t = (case t of d # u \<Rightarrow> if d = CHR ''+'' \<or> d = CHR ''-'' then ([d], u) else ([], t) | [] \<Rightarrow> ([], []))"

lemma exponent_or_end_Cons:
  "exponent_or_end (c # t) \<longleftrightarrow> (c = CHR ''e'' \<or> c = CHR ''E'') \<and> digit_seq (snd (exp_sign t))"
  by (simp add: exponent_or_end_def exp_sign_def digit_seq_iff Let_def split: list.split)

lemma exp_sign_split: "t = fst (exp_sign t) @ snd (exp_sign t) \<and> fst (exp_sign t) \<in> {[], ''+'', ''-''}"
  by (simp add: exp_sign_def split: list.split)

lemma exp_sign_append: "sg \<in> {[], ''+'', ''-''} \<Longrightarrow> digit_seq ds \<Longrightarrow> exp_sign (sg @ ds) = (sg, ds)"
  by (cases ds) (auto simp: exp_sign_def digit_seq_iff is_digit_def)

lemma exponent_or_end_iff: "exponent_or_end s \<longleftrightarrow> json_exp s"
proof (cases s)
  case (Cons c t)
  show ?thesis
  proof
    assume "exponent_or_end s"
    then have "c = CHR ''e'' \<or> c = CHR ''E''" "digit_seq (snd (exp_sign t))"
      by (simp_all add: Cons exponent_or_end_Cons)
    then show "json_exp s"
      unfolding json_exp_def using exp_sign_split [of t] Cons
      by (intro disjI2 exI [of _ "[c]"] exI [of _ "fst (exp_sign t)"] exI [of _ "snd (exp_sign t)"]) simp
  next
    assume "json_exp s"
    then obtain l sg ds where s: "s = l @ sg @ ds" "l \<in> {''e'', ''E''}" and d: "sg \<in> {[], ''+'', ''-''}" "digit_seq ds"
      unfolding json_exp_def Cons by blast
    then show "exponent_or_end s"
      using exp_sign_append [OF d] by (auto simp: exponent_or_end_Cons)
  qed
qed (simp add: exponent_or_end_def json_exp_def)

lemma fraction_exponent_iff:
  "exponent_or_end (drop_fraction s) \<longleftrightarrow> (\<exists>f e. s = f @ e \<and> json_frac f \<and> json_exp e)"
proof
  assume e: "exponent_or_end (drop_fraction s)"
  show "\<exists>f e. s = f @ e \<and> json_frac f \<and> json_exp e"
  proof (cases "\<exists>t. s = CHR ''.'' # t \<and> takeWhile is_digit t \<noteq> []")
    case True
    then obtain t where t: "s = CHR ''.'' # t" "takeWhile is_digit t \<noteq> []" by blast
    then have "digit_seq (takeWhile is_digit t)" "json_exp (dropWhile is_digit t)"
      using e by (auto simp: digit_seq_iff list_all_iff drop_fraction_def exponent_or_end_iff dest: set_takeWhileD)
    then show ?thesis
      using t by (intro exI [of _ "''.'' @ takeWhile is_digit t"] exI [of _ "dropWhile is_digit t"])
        (auto simp: json_frac_def)
  next
    case False
    then have "drop_fraction s = s" by (auto simp: drop_fraction_def split: list.splits)
    with e show ?thesis by (intro exI [of _ "[]"] exI [of _ s]) (simp add: json_frac_def exponent_or_end_iff)
  qed
next
  assume "\<exists>f e. s = f @ e \<and> json_frac f \<and> json_exp e"
  then obtain f e where s: "s = f @ e" "json_frac f" and e: "json_exp e" by blast
  have noDigit: "takeWhile is_digit e = [] \<and> dropWhile is_digit e = e" and "drop_fraction e = e"
    using e by (auto simp: json_exp_def is_digit_def drop_fraction_def split: list.split)
  moreover have "drop_fraction (''.'' @ ds @ e) = e" if "digit_seq ds" for ds
    using that noDigit by (simp add: drop_fraction_def digit_seq_iff list_all_iff takeWhile_append2 dropWhile_append2)
  ultimately have "drop_fraction s = e" using s by (auto simp: json_frac_def)
  with e show "exponent_or_end (drop_fraction s)" by (simp add: exponent_or_end_iff)
qed

lemma json_int_iff: "json_int i \<longleftrightarrow> i \<noteq> [] \<and> list_all is_digit i \<and> (hd i = CHR ''0'' \<longrightarrow> length i = 1)"
  by (cases i) (auto simp: json_int_def digit_seq_iff is_digit_def length_Suc_conv)

lemma numberSyntax_iff: "numberSyntax s \<longleftrightarrow> json_number s"
proof
  let ?t = "strip_minus s"
  assume n: "numberSyntax s"
  then have "json_int (takeWhile is_digit ?t)"
    by (auto simp: numberSyntax_def Let_def json_int_iff list_all_iff dest: set_takeWhileD)
  moreover from n obtain f e where "dropWhile is_digit ?t = f @ e" "json_frac f" "json_exp e"
    by (auto simp: numberSyntax_def Let_def fraction_exponent_iff)
  moreover obtain sg where "s = sg @ ?t" "sg \<in> {[], ''-''}"
  proof (cases "\<exists>u. s = CHR ''-'' # u")
    case True
    then show ?thesis by (intro that [of "''-''"]) (auto simp: strip_minus_def)
  next
    case False
    then show ?thesis by (intro that [of "[]"]) (auto simp: strip_minus_def split: list.split)
  qed
  ultimately show "json_number s"
    unfolding json_number_def by (metis takeWhile_dropWhile_id)
next
  assume "json_number s"
  then obtain sg i f e where s: "s = sg @ i @ f @ e" "sg \<in> {[], ''-''}"
    and i: "json_int i" and fe: "json_frac f" "json_exp e" by (auto simp: json_number_def)
  from i s(2) have t: "strip_minus s = i @ f @ e"
    by (cases i) (auto simp: s(1) strip_minus_def json_int_iff is_digit_def)
  have "f @ e = [] \<or> \<not> is_digit (hd (f @ e))"
    using fe by (auto simp: json_frac_def json_exp_def is_digit_def)
  then have "takeWhile is_digit (f @ e) = [] \<and> dropWhile is_digit (f @ e) = f @ e"
    by (cases "f @ e") auto
  then have "takeWhile is_digit (i @ f @ e) = i" "dropWhile is_digit (i @ f @ e) = f @ e"
    using i by (simp_all add: json_int_iff list_all_iff takeWhile_append2 dropWhile_append2)
  then show "numberSyntax s"
    using i fe by (auto simp: numberSyntax_def t Let_def json_int_iff fraction_exponent_iff)
qed

lemma digits_val_digits: "list_all is_digit s \<Longrightarrow> \<exists>n. digits_val 10 acc s = Some n"
proof (induction s arbitrary: acc)
  case (Cons c s)
  then have "\<exists>d < 10. digit_val c = Some d" by (auto simp: is_digit_def digit_val_def Let_def)
  with Cons show ?case by auto
qed simp

lemma enc_number_ok: "is_ok (enc_number pf s) \<longleftrightarrow> number_ok pf s"
proof (cases "json_number s \<and> set s \<inter> set ''.eE'' = {}")
  case True
  then obtain sg i f e where s: "s = sg @ i @ f @ e" "sg \<in> {[], ''-''}" "json_int i" "json_frac f" "json_exp e"
    and none: "set s \<inter> set ''.eE'' = {}" unfolding json_number_def by blast
  then have "f = []" "e = []" by (auto simp: json_frac_def json_exp_def)
  with s(1-3) have "strip_minus s = i"
    by (cases i) (auto simp: strip_minus_def json_int_iff is_digit_def)
  moreover obtain n where "digits_val 10 0 i = Some n"
    using s(3) digits_val_digits [of i 0] by (auto simp: json_int_iff)
  ultimately have "big_int s \<noteq> None" using s(3) by (auto simp: big_int_def Let_def json_int_iff)
  then show ?thesis using True none
    by (auto simp: enc_number_def numberSyntax_iff number_ok_def)
next
  case False
  then show ?thesis
    by (auto simp: enc_number_def numberSyntax_iff number_ok_def enc_float_def split: option.split)
qed

text \<open>What the values nested in a value must satisfy, and how deep containers and pointers nest.\<close>

fun encodable :: "(string \<Rightarrow> jfloat option) \<Rightarrow> jval \<Rightarrow> bool" where
  "encodable pf (JStr s) = utf8_valid s"
| "encodable pf (JNumber s) = number_ok pf s"
| "encodable pf (JFloat f) = (f \<noteq> NotFinite)"
| "encodable pf (JList vs) = list_all (encodable pf) vs"
| "encodable pf (JMap fs) = list_all (\<lambda>(k, v). utf8_valid k \<and> encodable pf v) fs"
| "encodable pf (JPtr p) = (case p of None \<Rightarrow> True | Some v \<Rightarrow> encodable pf v)"
| "encodable pf JByteSlice = False"
| "encodable pf JOtherMap = False"
| "encodable pf JOther = False"
| "encodable pf _ = True"

fun within :: "nat \<Rightarrow> nat \<Rightarrow> jval \<Rightarrow> bool" where
  \<comment> \<open>at most \<open>d\<close> containers and \<open>h\<close> pointers nest\<close>
  "within d h (JList vs) = (0 < d \<and> list_all (within (d - 1) h) vs)"
| "within d h (JMap fs) = (0 < d \<and> list_all (\<lambda>(k, v). within (d - 1) h v) fs)"
| "within d h (JPtr p) = (case p of None \<Rightarrow> True | Some v \<Rightarrow> 0 < h \<and> within d (h - 1) v)"
| "within d h _ = True"

lemma is_ok_andthen: "is_ok (andthen m f) \<longleftrightarrow> (\<exists>x. m = Ok x \<and> is_ok (f x))"
  by (cases m) auto

lemma is_ok_iff: "is_ok m \<longleftrightarrow> (\<exists>x. m = Ok x)"
  by (cases m) auto

lemma is_ok_andthen_Ok [simp]: "is_ok (andthen m (\<lambda>x. Ok (g x))) \<longleftrightarrow> is_ok m"
  by (cases m) auto

lemma enc_ok_iff:
  "is_ok (enc_value pf opt hops depth v) \<longleftrightarrow> encodable pf v \<and> within (MaxDepth - depth) (MaxDepth - hops) v"
  "is_ok (enc_items pf opt hops depth first vs) \<longleftrightarrow>
     list_all (\<lambda>v. encodable pf v \<and> within (MaxDepth - (depth + 1)) (MaxDepth - hops) v) vs"
  "is_ok (enc_fields pf opt hops depth first fs) \<longleftrightarrow>
     list_all (\<lambda>(k, v). utf8_valid k \<and> encodable pf v \<and> within (MaxDepth - (depth + 1)) (MaxDepth - hops) v) fs"
proof (induction pf opt hops depth v and pf opt hops depth first vs and pf opt hops depth first fs
    rule: enc_value_enc_items_enc_fields.induct)
  case (8 pf opt hops depth fs)
  then show ?case
    by (cases "MaxDepth \<le> depth"; cases "fs = []") (simp_all add: list_all_iff case_prod_unfold Ball_def, blast)
next
  case (15 pf opt hops depth first v vs)
  then show ?case by (cases "enc_value pf opt hops (depth + 1) v") auto
next
  case (17 pf opt hops depth first k v fs)
  then show ?case
    by (cases "enc_value pf opt hops (depth + 1) v"; cases "utf8_valid k") (auto simp: enc_str_def)
qed (auto simp: enc_str_def enc_float_def enc_number_ok list_all_iff)

section \<open>One line\<close>

definition plain_bytes :: "options \<Rightarrow> bytes \<Rightarrow> bool" where
  \<comment> \<open>no control character; in the ASCII form nothing above \<open>~\<close> either\<close>
  "plain_bytes opt bs \<longleftrightarrow> list_all (\<lambda>b. 0x20 \<le> unat b \<and> (ASCII opt \<longrightarrow> unat b \<le> 0x7e)) bs"

lemma plain_bytes_simps [simp]:
  "plain_bytes opt []"
  "plain_bytes opt (b # bs) \<longleftrightarrow> 0x20 \<le> unat b \<and> (ASCII opt \<longrightarrow> unat b \<le> 0x7e) \<and> plain_bytes opt bs"
  "plain_bytes opt (xs @ ys) \<longleftrightarrow> plain_bytes opt xs \<and> plain_bytes opt ys"
  by (auto simp: plain_bytes_def)

lemma hex_digit_plain: "n < 16 \<Longrightarrow> 32 \<le> unat (hex_digit n) \<and> unat (hex_digit n) \<le> 126"
  by (simp add: hex_digit_def del: of_nat_add)

lemma u16_esc_plain [simp]: "plain_bytes opt (u16_esc r)"
  using hex_digit_plain [of "r mod 16"] hex_digit_plain [of "r div 16 mod 16"]
    hex_digit_plain [of "r div 256 mod 16"] hex_digit_plain [of "r div 4096 mod 16"]
  by (simp add: u16_esc_def)

lemma encode_rune_plain: "0x20 \<le> r \<Longrightarrow> valid_rune r \<Longrightarrow> \<forall>b \<in> set (encode_rune r). 32 \<le> unat b"
  by (auto simp: encode_rune_def valid_rune_def simp del: of_nat_add)

lemma str_rune_plain: "valid_rune r \<Longrightarrow> plain_bytes opt (str_rune opt r)"
  using encode_rune_plain [of r]
  by (simp add: str_rune_def) (simp add: plain_bytes_def list_all_iff)

lemma runes_of_valid: "utf8_valid s \<Longrightarrow> list_all valid_rune (runes_of s)"
  using pyDecodeReplace_runes [of s] by (simp add: utf8_valid_decode)

lemma enc_str_plain: "enc_str opt s = Ok b \<Longrightarrow> plain_bytes opt b"
proof -
  assume e: "enc_str opt s = Ok b"
  then have "list_all valid_rune (runes_of s)"
    by (simp add: enc_str_def runes_of_valid split: if_splits)
  moreover have "list_all valid_rune rs \<Longrightarrow> plain_bytes opt (concat (map (str_rune opt) rs))" for rs
    by (induction rs) (simp_all add: str_rune_plain)
  ultimately show ?thesis using e by (auto simp: enc_str_def split: if_splits)
qed

definition ascii_printable :: "string \<Rightarrow> bool" where
  "ascii_printable s \<longleftrightarrow> list_all (\<lambda>c. 0x20 \<le> (of_char c :: nat) \<and> (of_char c :: nat) \<le> 0x7e) s"

lemma asc_plain: "ascii_printable s \<Longrightarrow> plain_bytes opt (asc s)"
  by (auto simp: ascii_printable_def plain_bytes_def asc_def list_all_iff)

lemma utf8_valid_append: "utf8_valid a \<Longrightarrow> utf8_valid (a @ b) \<longleftrightarrow> utf8_valid b"
proof -
  have "list_all valid_rune rs \<Longrightarrow> utf8_valid (bytes_of rs @ b) \<longleftrightarrow> utf8_valid b" for rs
    by (induction rs) (simp_all add: utf8_valid_encode)
  then show "utf8_valid a \<Longrightarrow> utf8_valid (a @ b) \<longleftrightarrow> utf8_valid b"
    using utf8_valid_decode [of a] pyDecodeReplace_runes [of a] by metis
qed

lemma asc_valid: "ascii_printable s \<Longrightarrow> utf8_valid (asc s)"
proof -
  assume s: "ascii_printable s"
  have "list_all (\<lambda>b. b < (0x80 :: byte)) (asc s)"
    using s by (auto simp: asc_def list_all_iff ascii_printable_def word_less_nat_alt unat_of_nat
        take_bit_eq_mod intro: le_less_trans [OF mod_less_eq_dividend])
  then show ?thesis using ascii_text by blast
qed

lemma dec_str_printable: "ascii_printable (dec_str n)"
  using dec_str_digits [of _ n] by (fastforce simp: ascii_printable_def list_all_iff digit_char_def)

lemma ascii_printable_simps [simp]:
  "ascii_printable []"
  "ascii_printable (c # s) \<longleftrightarrow> 0x20 \<le> (of_char c :: nat) \<and> (of_char c :: nat) \<le> 0x7e \<and> ascii_printable s"
  "ascii_printable (s @ t) \<longleftrightarrow> ascii_printable s \<and> ascii_printable t"
  "ascii_printable (replicate n c) \<longleftrightarrow> n = 0 \<or> 0x20 \<le> (of_char c :: nat) \<and> (of_char c :: nat) \<le> 0x7e"
  by (auto simp: ascii_printable_def list_all_iff)

lemma ascii_printable_take: "ascii_printable s \<Longrightarrow> ascii_printable (take n s) \<and> ascii_printable (drop n s)"
  by (auto simp: ascii_printable_def list_all_iff dest: in_set_takeD in_set_dropD)

lemma pyFloat_printable: "ascii_printable (pyFloat f)"
  by (auto simp: pyFloat_def sci_str_def Let_def dec_str_printable ascii_printable_take split: jfloat.splits)

lemma int_str_printable: "ascii_printable (int_str i)"
  by (simp add: int_str_def dec_str_printable)

lemma enc_number_plain: "enc_number pf s = Ok b \<Longrightarrow> plain_bytes opt b"
  by (auto simp: enc_number_def enc_float_def asc_plain pyFloat_printable int_str_printable
      split: if_splits option.splits)

lemma enc_plain:
  "enc_value pf opt hops depth v = Ok b \<Longrightarrow> Indent opt = 0 \<Longrightarrow> plain_bytes opt b"
  "enc_items pf opt hops depth first vs = Ok b \<Longrightarrow> Indent opt = 0 \<Longrightarrow> plain_bytes opt b"
  "enc_fields pf opt hops depth first fs = Ok b \<Longrightarrow> Indent opt = 0 \<Longrightarrow> plain_bytes opt b"
proof (induction pf opt hops depth v and pf opt hops depth first vs and pf opt hops depth first fs
    arbitrary: b and b and b rule: enc_value_enc_items_enc_fields.induct)
  case (7 pf opt hops depth vs)
  then show ?case by (auto simp: andthen_Ok_iff asc_plain brk_def split: if_splits)
next
  case (8 pf opt hops depth fs)
  then show ?case by (auto simp: andthen_Ok_iff asc_plain brk_def split: if_splits)
qed (auto simp: andthen_Ok_iff asc_plain brk_def enc_float_def enc_number_plain pyFloat_printable int_str_printable
    split: if_splits dest: enc_str_plain)

section \<open>The order of the keys of a map does not matter\<close>

inductive jsame :: "jval \<Rightarrow> jval \<Rightarrow> bool" where
  same_refl: "jsame v v"
| same_list: "list_all2 jsame vs ws \<Longrightarrow> jsame (JList vs) (JList ws)"
| same_map: "distinct (map fst fs) \<Longrightarrow> mset fs = mset fs' \<Longrightarrow> list_all2 (rel_prod (=) jsame) fs' gs \<Longrightarrow>
    jsame (JMap fs) (JMap gs)"
| same_ptr: "jsame v w \<Longrightarrow> jsame (JPtr (Some v)) (JPtr (Some w))"

lemma rel_prod_eq_fst: "rel_prod (=) R = (\<lambda>x y. fst x = fst y \<and> R (snd x) (snd y))"
  by (simp add: fun_eq_iff rel_prod_sel)

lemma insort_key_rel:
  "list_all2 (rel_prod (=) R) xs ys \<Longrightarrow> rel_prod (=) R x y \<Longrightarrow>
     list_all2 (rel_prod (=) R) (insort_key fst x xs) (insort_key fst y ys)"
  unfolding rel_prod_eq_fst by (induction xs ys rule: list_all2_induct) auto

lemma sort_key_rel:
  "list_all2 (rel_prod (=) R) xs ys \<Longrightarrow>
     list_all2 (rel_prod (=) R) (sort_key fst xs) (sort_key fst ys)"
  by (induction xs ys rule: list_all2_induct) (auto simp: insort_key_rel)

lemma enc_items_cong:
  "list_all2 (\<lambda>v w. \<forall>depth. enc_value pf opt hops depth v = enc_value pf opt hops depth w) vs ws \<Longrightarrow>
     enc_items pf opt hops depth first vs = enc_items pf opt hops depth first ws"
  by (induction vs ws arbitrary: first rule: list_all2_induct) auto

lemma enc_fields_cong:
  "list_all2 (rel_prod (=) (\<lambda>v w. \<forall>depth. enc_value pf opt hops depth v = enc_value pf opt hops depth w)) fs gs \<Longrightarrow>
     enc_fields pf opt hops depth first fs = enc_fields pf opt hops depth first gs"
  by (induction fs gs arbitrary: first rule: list_all2_induct) (auto simp: rel_prod_sel)

lemma sort_key_mset_eq:
  assumes "distinct (map fst fs)" "mset fs = mset fs'"
  shows "sort_key fst fs = sort_key fst fs'"
proof (rule sort_key_inj_key_eq)
  show "mset fs = mset (sort_key fst fs')" using assms by simp
  show "inj_on fst (set fs)" using assms(1) by (simp add: distinct_map)
qed simp

lemma enc_value_same: "jsame v w \<Longrightarrow> enc_value pf opt hops depth v = enc_value pf opt hops depth w"
proof (induction v w arbitrary: hops depth rule: jsame.induct)
  case (same_list vs ws)
  then have "list_all2 (\<lambda>v w. \<forall>depth. enc_value pf opt hops depth v = enc_value pf opt hops depth w) vs ws"
    by (auto elim: list.rel_mono_strong)
  moreover have "vs = [] \<longleftrightarrow> ws = []" using same_list by auto
  ultimately show ?case using enc_items_cong [of pf opt hops vs ws] by simp
next
  case (same_map fs fs' gs)
  let ?E = "\<lambda>v w. \<forall>depth. enc_value pf opt hops depth v = enc_value pf opt hops depth w"
  have "list_all2 (rel_prod (=) ?E) fs' gs"
    using same_map(3) by (rule list.rel_mono_strong) (auto simp: rel_prod_sel)
  then have "enc_fields pf opt hops depth True (sort_key fst fs') = enc_fields pf opt hops depth True (sort_key fst gs)"
    by (intro enc_fields_cong sort_key_rel)
  moreover have "fs = [] \<longleftrightarrow> gs = []" using same_map by auto
  ultimately show ?case using sort_key_mset_eq [OF same_map(1,2)] by simp
qed auto

section \<open>Byte order and code point order\<close>

lemma byte_less: "n < 256 \<Longrightarrow> m < 256 \<Longrightarrow> (word_of_nat n :: byte) < word_of_nat m \<longleftrightarrow> n < m"
  by (simp add: word_less_nat_alt)

lemma digits_less:
  fixes p e p' e' :: nat
  assumes "e < 64" "e' < 64"
  shows "p * 64 + e < p' * 64 + e' \<longleftrightarrow> p < p' \<or> (p = p' \<and> e < e')"
  using assms by (cases "p < p'"; cases "p = p'") auto

lemma digits_eq:
  fixes p e p' e' :: nat
  assumes "e < 64" "e' < 64"
  shows "p * 64 + e = p' * 64 + e' \<longleftrightarrow> p = p' \<and> e = e'"
  using digits_less [OF assms, of p p'] digits_less [OF assms(2,1), of p' p] by auto

lemma digits_less3:
  fixes q d e q' d' e' :: nat
  assumes "d < 64" "e < 64" "d' < 64" "e' < 64"
  shows "4096 * q + d * 64 + e < 4096 * q' + d' * 64 + e' \<longleftrightarrow>
    q < q' \<or> (q = q' \<and> (d < d' \<or> (d = d' \<and> e < e')))"
  using digits_less [OF assms(2,4), of "q * 64 + d" "q' * 64 + d'"] digits_less [OF assms(1,3), of q q']
    digits_eq [OF assms(1,3), of q q'] by auto

lemma digits_less4:
  fixes a c d e a' c' d' e' :: nat
  assumes "c < 64" "d < 64" "e < 64" "c' < 64" "d' < 64" "e' < 64"
  shows "262144 * a + 4096 * c + d * 64 + e < 262144 * a' + 4096 * c' + d' * 64 + e' \<longleftrightarrow>
    a < a' \<or> (a = a' \<and> (c < c' \<or> (c = c' \<and> (d < d' \<or> (d = d' \<and> e < e')))))"
  using digits_less3 [OF assms(2,3,5,6), of "a * 64 + c" "a' * 64 + c'"] digits_less [OF assms(1,4), of a a']
    digits_eq [OF assms(1,4), of a a'] by auto

lemma encode_rune_digits:
  assumes "valid_rune r"
  obtains (one) "r < 0x80" "encode_rune r = [word_of_nat r]"
  | (two) p e where "r = p * 64 + e" "e < 64" "2 \<le> p" "p < 32"
      "encode_rune r = [word_of_nat (0xC0 + p), word_of_nat (0x80 + e)]"
  | (three) q d e where "r = (q * 64 + d) * 64 + e" "d < 64" "e < 64" "32 \<le> q * 64 + d" "q < 16"
      "encode_rune r = [word_of_nat (0xE0 + q), word_of_nat (0x80 + d), word_of_nat (0x80 + e)]"
  | (four) a c d e where "r = ((a * 64 + c) * 64 + d) * 64 + e" "c < 64" "d < 64" "e < 64"
      "1024 \<le> (a * 64 + c) * 64 + d" "a < 5"
      "encode_rune r = [word_of_nat (0xF0 + a), word_of_nat (0x80 + c), word_of_nat (0x80 + d), word_of_nat (0x80 + e)]"
proof -
  have b: "r < 0x110000" using assms by (auto simp: valid_rune_def)
  obtain p e where r: "r = p * 64 + e" "e < 64" by (rule base64_digits)
  obtain q d where p: "p = q * 64 + d" "d < 64" by (rule base64_digits)
  obtain a c where q: "q = a * 64 + c" "c < 64" by (rule base64_digits)
  consider "r < 0x80" | "0x80 \<le> r" "r < 0x800" | "0x800 \<le> r" "r < 0x10000" | "0x10000 \<le> r"
    by linarith
  then show thesis
  proof cases
    case 1
    then show thesis by (intro one) (simp_all add: encode_rune_def)
  next
    case 2
    with r have "2 \<le> p" "p < 32" by simp_all
    with r show thesis by (intro two [of p e]) (simp_all add: encode_rune_2 del: of_nat_add)
  next
    case 3
    with r p have "32 \<le> p" "q < 16" by simp_all
    moreover have "encode_rune r = [word_of_nat (0xE0 + q), word_of_nat (0x80 + d), word_of_nat (0x80 + e)]"
      using encode_rune_3 [OF calculation(1) p calculation(2) r(2)] r(1) by simp
    ultimately show thesis using r p by (intro three [of q d e]) simp_all
  next
    case 4
    have "1024 \<le> p" "a < 5" using 4 b r p q by simp_all
    moreover have "encode_rune r =
        [word_of_nat (0xF0 + a), word_of_nat (0x80 + c), word_of_nat (0x80 + d), word_of_nat (0x80 + e)]"
      using encode_rune_4 [OF calculation(1) p q r(2)] r(1) by simp
    ultimately show thesis using r p q by (intro four [of a c d e]) simp_all
  qed
qed

lemma encode_rune_less:
  assumes "r < r'" "valid_rune r" "valid_rune r'"
  shows "encode_rune r @ x < encode_rune r' @ y"
  using assms(2)
proof (cases rule: encode_rune_digits)
  case one
  from assms(3) show ?thesis
    by (cases rule: encode_rune_digits) (use one assms(1) in \<open>simp_all add: byte_less del: of_nat_add\<close>)
next
  case (two p e)
  from assms(3) show ?thesis
    by (cases rule: encode_rune_digits)
      (use two assms(1) in \<open>simp_all add: byte_less digits_less digits_less3 digits_less4 del: of_nat_add, auto simp: byte_less simp del: of_nat_add\<close>)
next
  case (three q d e)
  from assms(3) show ?thesis
    by (cases rule: encode_rune_digits)
      (use three assms(1) in \<open>simp_all add: byte_less digits_less digits_less3 digits_less4 del: of_nat_add, auto simp: byte_less simp del: of_nat_add\<close>)
next
  case (four a c d e)
  from assms(3) show ?thesis
    by (cases rule: encode_rune_digits)
      (use four assms(1) in \<open>simp_all add: byte_less digits_less digits_less3 digits_less4 del: of_nat_add, auto simp: byte_less simp del: of_nat_add\<close>)
qed

lemma bytes_of_less:
  "list_all valid_rune rs \<Longrightarrow> list_all valid_rune rs' \<Longrightarrow> rs < rs' \<Longrightarrow> bytes_of rs < bytes_of rs'"
proof (induction rs arbitrary: rs')
  case Nil
  then show ?case by (cases rs') (simp_all add: encode_rune_def)
next
  case (Cons r rs)
  then obtain r' ss where rs': "rs' = r' # ss" by (cases rs') auto
  show ?case
  proof (cases "r = r'")
    case True
    with Cons rs' have "bytes_of rs < bytes_of ss" by simp
    then have "u @ bytes_of rs < u @ bytes_of ss" for u
      by (induction u) simp_all
    then show ?thesis by (simp add: rs' True)
  next
    case False
    with Cons rs' have "r < r'" by simp
    with Cons.prems rs' show ?thesis by (simp add: encode_rune_less)
  qed
qed

section \<open>Reading a string back\<close>

text \<open>A reader of JSON strings after the opening quote, written from RFC 8259.\<close>

definition hex_val :: "byte \<Rightarrow> nat option" where
  "hex_val b =
     (let n = unat b
      in if 48 \<le> n \<and> n \<le> 57 then Some (n - 48)
         else if 97 \<le> n \<and> n \<le> 102 then Some (n - 87)
         else if 65 \<le> n \<and> n \<le> 70 then Some (n - 55) else None)"

fun read_hex4 :: "bytes \<Rightarrow> (nat \<times> bytes) option" where
  "read_hex4 (a # b # c # d # bs) =
     (case (hex_val a, hex_val b, hex_val c, hex_val d) of
        (Some w, Some x, Some y, Some z) \<Rightarrow> Some (((w * 16 + x) * 16 + y) * 16 + z, bs)
      | _ \<Rightarrow> None)"
| "read_hex4 _ = None"

definition read_u :: "bytes \<Rightarrow> (rune \<times> bytes) option" where
  "read_u bs =
     (case read_hex4 bs of
        None \<Rightarrow> None
      | Some (hi, rest) \<Rightarrow>
          if 0xD800 \<le> hi \<and> hi \<le> 0xDBFF
          then (case rest of
                  x # y # rest' \<Rightarrow>
                    if x = 92 \<and> y = 117
                    then (case read_hex4 rest' of
                            None \<Rightarrow> None
                          | Some (lo, rest'') \<Rightarrow>
                              if 0xDC00 \<le> lo \<and> lo \<le> 0xDFFF
                              then Some (0x10000 + (hi - 0xD800) * 1024 + (lo - 0xDC00), rest'') else None)
                    else None
                | _ \<Rightarrow> None)
          else if 0xDC00 \<le> hi \<and> hi \<le> 0xDFFF then None else Some (hi, rest))"

definition simple_escape :: "byte \<Rightarrow> rune option" where
  "simple_escape b =
     (if b = 34 then Some 34 else if b = 92 then Some 92 else if b = 47 then Some 47
      else if b = 98 then Some 8 else if b = 102 then Some 12 else if b = 110 then Some 10
      else if b = 114 then Some 13 else if b = 116 then Some 9 else None)"

definition read_char :: "bytes \<Rightarrow> (rune \<times> bytes) option" where
  \<comment> \<open>one character of a string, escaped or not\<close>
  "read_char bs =
     (case bs of
        [] \<Rightarrow> None
      | b # t \<Rightarrow>
          if b = 92
          then (case t of
                  [] \<Rightarrow> None
                | c # u \<Rightarrow> if c = 117 then read_u u else map_option (\<lambda>r. (r, u)) (simple_escape c))
          else if unat b < 0x20 \<or> b = 34 \<or> decode_rune bs = (RuneError, 1) then None
          else Some (fst (decode_rune bs), drop (snd (decode_rune bs)) bs))"

inductive reads :: "bytes \<Rightarrow> rune list \<Rightarrow> bytes \<Rightarrow> bool" where
  \<comment> \<open>the text after an opening quote is these characters, then the closing quote and the rest\<close>
  reads_end: "reads (34 # rest) [] rest"
| reads_char: "read_char bs = Some (r, bs') \<Longrightarrow> reads bs' rs rest \<Longrightarrow> reads bs (r # rs) rest"

inductive_cases reads_elim: "reads bs rs rest"

lemma read_char_quote [simp]: "read_char (34 # bs) = None"
  by (simp add: read_char_def)

lemma reads_det: "reads bs rs rest \<Longrightarrow> reads bs ss rest' \<Longrightarrow> rs = ss \<and> rest = rest'"
proof (induction bs rs rest arbitrary: ss rest' rule: reads.induct)
  case (reads_end rest)
  then show ?case by (auto elim: reads_elim)
next
  case (reads_char bs r bs' rs rest)
  from reads_char.prems reads_char.hyps show ?case
    by (cases rule: reads.cases) (auto dest: reads_char.IH)
qed

lemma hex_val_digit: "n < 16 \<Longrightarrow> hex_val (hex_digit n) = Some n"
  by (simp add: hex_val_def hex_digit_def Let_def del: of_nat_add)

lemma read_hex4_u16: "r < 65536 \<Longrightarrow> read_hex4 (drop 2 (u16_esc r) @ bs) = Some (r, bs)"
proof -
  assume "r < 65536"
  then have top: "r div 4096 < 16" "r div 4096 mod 16 = r div 4096" by simp_all
  have "r div 256 = r div 16 div 16" "r div 4096 = r div 256 div 16"
    by (simp_all only: div_mult2_eq [symmetric]) simp_all
  then have "((r div 4096 * 16 + r div 256 mod 16) * 16 + r div 16 mod 16) * 16 + r mod 16 = r"
    by (simp only: div_mult_mod_eq)
  with top show ?thesis
    by (simp add: u16_esc_def hex_val_digit numeral_2_eq_2 del: mod_less)
qed

lemma read_u_u16: "r < 65536 \<Longrightarrow> valid_rune r \<Longrightarrow> read_u (drop 2 (u16_esc r) @ bs) = Some (r, bs)"
  by (auto simp: read_u_def read_hex4_u16 valid_rune_def)

lemma read_u_pair:
  assumes "0x10000 \<le> r" "r < 0x110000"
  shows "read_u (drop 2 (u16_esc (0xd800 + (r - 0x10000) div 1024)) @ u16_esc (0xdc00 + (r - 0x10000) mod 1024) @ bs) =
    Some (r, bs)"
proof -
  let ?q = "(r - 0x10000) div 1024" and ?m = "(r - 0x10000) mod 1024"
  have q: "?q < 1024" using assms by simp
  have m: "?m < 1024" by simp
  have "?q * 1024 + ?m = r - 0x10000" by simp
  then have eq: "0x10000 + ?q * 1024 + ?m = r" using assms by simp
  have u: "u16_esc (0xdc00 + ?m) @ bs = 92 # 117 # (drop 2 (u16_esc (0xdc00 + ?m)) @ bs)"
    by (simp add: u16_esc_def)
  show ?thesis
    using q m eq by (simp add: read_u_def read_hex4_u16 u)
qed

lemma read_char_rune: "valid_rune r \<Longrightarrow> read_char (str_rune opt r @ bs) = Some (r, bs)"
proof -
  assume v: "valid_rune r"
  have u: "read_char (u16_esc n @ bs') = read_u (drop 2 (u16_esc n) @ bs')" for n bs'
    by (simp add: u16_esc_def read_char_def)
  have enc: "read_char (encode_rune r @ bs) = Some (r, bs)" if "0x20 \<le> r" "r \<noteq> 34" "r \<noteq> 92"
  proof -
    obtain b t where bt: "encode_rune r = b # t" by (cases "encode_rune r") simp_all
    from v have "unat b \<noteq> 92 \<and> unat b \<noteq> 34 \<and> 0x20 \<le> unat b"
      by (cases rule: encode_rune_digits) (use bt that in \<open>auto simp del: of_nat_add\<close>)
    then have "b \<noteq> 92 \<and> b \<noteq> 34 \<and> 0x20 \<le> unat b" by auto
    with bt show ?thesis
      using decode_encode [OF v, of bs] decode_encode_valid [OF v, of bs] by (simp add: read_char_def)
  qed
  consider "r \<in> {34, 92, 10, 13, 9, 8, 12}" | "r < 0x20" "r \<notin> {34, 92, 10, 13, 9, 8, 12}"
    | "0x20 \<le> r" "r \<noteq> 34" "r \<noteq> 92" "\<not> ASCII opt \<or> r \<le> 0x7e"
    | "0x7e < r" "ASCII opt" "r < 0x10000" | "0x10000 \<le> r" "ASCII opt"
    by force
  then show ?thesis
  proof cases
    case 1
    then show ?thesis by (auto simp: str_rune_def read_char_def simple_escape_def)
  next
    case 2
    then show ?thesis using v by (simp add: str_rune_def u read_u_u16)
  next
    case 3
    then have "str_rune opt r = encode_rune r" by (auto simp: str_rune_def encode_rune_def)
    with 3 enc show ?thesis by simp
  next
    case 4
    then show ?thesis using v by (simp add: str_rune_def u read_u_u16)
  next
    case 5
    then have "r < 0x110000" using v by (simp add: valid_rune_def)
    with 5 show ?thesis by (simp add: str_rune_def u read_u_pair)
  qed
qed

lemma reads_runes:
  "list_all valid_rune rs \<Longrightarrow> reads (concat (map (str_rune opt) rs) @ 34 # rest) rs rest"
  by (induction rs) (auto intro!: reads_end reads_char simp: read_char_rune)

section \<open>Properties\<close>



text \<open>
  The encoding is canonical: two values that differ only in the order in which their maps list the keys
  encode to the same bytes, in every form.
\<close>

theorem encode_ignores_map_order: "jsame v w \<Longrightarrow> Encode pf opt v = Encode pf opt w"
  by (simp add: Encode_def enc_value_same)

theorem encode_ignores_map_order_witness:
  "\<forall>pf opt. Encode pf opt (JMap [([98], JInt 1), ([97], JNull)]) = Encode pf opt (JMap [([97], JNull), ([98], JInt 1)])"
  by (intro allI encode_ignores_map_order, rule same_map [of _ "[([97], JNull), ([98], JInt 1)]"])
    (auto intro: same_refl)

text \<open>
  C31. A string loses nothing: what is written for a valid UTF-8 string reads back, by the JSON rules, as exactly
  its code points, ends at the closing quote and nowhere else, and re-encodes to the string itself.
\<close>

theorem enc_str_reads_back:
  assumes "enc_str opt s = Ok b"
  shows "hd b = 34 \<and> (reads (tl b @ rest) rs rest' \<longleftrightarrow> rs = runes_of s \<and> rest' = rest) \<and> bytes_of (runes_of s) = s"
proof -
  from assms have s: "utf8_valid s" and b: "b = 34 # concat (map (str_rune opt) (runes_of s)) @ [34]"
    by (auto simp: enc_str_def split: if_splits)
  have "reads (tl b @ rest) (runes_of s) rest"
    using reads_runes [OF runes_of_valid [OF s], of opt rest] by (simp add: b)
  then have "reads (tl b @ rest) rs rest' \<longleftrightarrow> rs = runes_of s \<and> rest' = rest"
    by (metis reads_det)
  then show ?thesis
    using utf8_valid_decode [OF s] b by simp
qed

theorem enc_str_reads_back_witness:
  "reads [92, 117, 48, 48, 101, 57, 34, 44] [0xE9] [44] \<and> bytes_of [0xE9] = [0xC3, 0xA9]"
proof -
  have "enc_str \<lparr>Indent = 0, ASCII = True\<rparr> [0xC3, 0xA9] = Ok [34, 92, 117, 48, 48, 101, 57, 34]" "runes_of [0xC3, 0xA9] = [0xE9]"
    by code_simp+
  then show ?thesis
    using enc_str_reads_back [of _ "[0xC3, 0xA9]" _ "[44]" "[0xE9]" "[44]"] by force
qed

text \<open>
  Sorting keys by their UTF-8 bytes is sorting them by code points, which is Python's order: on valid strings
  the two orders agree.
\<close>

theorem byte_order_is_rune_order:
  assumes "utf8_valid s" "utf8_valid t"
  shows "s < t \<longleftrightarrow> runes_of s < runes_of t"
proof
  assume "runes_of s < runes_of t"
  then have "bytes_of (runes_of s) < bytes_of (runes_of t)"
    using assms by (intro bytes_of_less runes_of_valid)
  then show "s < t" using assms by (simp add: utf8_valid_decode)
next
  assume "s < t"
  have inv: "bytes_of (runes_of s) = s" "bytes_of (runes_of t) = t"
    using assms by (simp_all add: utf8_valid_decode)
  show "runes_of s < runes_of t"
  proof (rule ccontr)
    assume "\<not> ?thesis"
    then have "runes_of t < runes_of s \<or> runes_of t = runes_of s" by auto
    then have "bytes_of (runes_of t) \<le> bytes_of (runes_of s)"
    proof
      assume "runes_of t < runes_of s"
      then show ?thesis using assms by (intro less_imp_le bytes_of_less runes_of_valid)
    qed simp
    with \<open>s < t\<close> show False by (simp add: inv)
  qed
qed

theorem byte_order_is_rune_order_witness: "[0xEF, 0xBF, 0xBD] < ([0xF0, 0x90, 0x80, 0x80] :: bytes)"
proof -
  have "utf8_valid [0xEF, 0xBF, 0xBD]" "utf8_valid [0xF0, 0x90, 0x80, 0x80]"
    "runes_of [0xEF, 0xBF, 0xBD] < runes_of [0xF0, 0x90, 0x80, 0x80]"
    by code_simp+
  then show ?thesis using byte_order_is_rune_order by blast
qed

end
