(* ===== verification/Go_IO.thy ===== *)
theory Go_IO
  imports Rsdd_Prelude
begin

text \<open>
  The part of Go's \<open>io\<close>, \<open>bytes\<close> and \<open>hash/crc32\<close> the archive readers use: the \<open>io.ReaderAt\<close> contract as a locale with
  an in-memory reader as its instance, substring search, and CRC-32.
\<close>

section \<open>Random access\<close>

datatype io_err = EOF | UnexpectedEOF | OtherIO string

text \<open>\<open>r off n\<close> is \<open>r.ReadAt(make([]byte, n), off)\<close>: the bytes read and the error.\<close>

type_synonym reader_at = "int \<Rightarrow> nat \<Rightarrow> bytes \<times> io_err option"

locale reads_at =
  fixes r :: reader_at
  assumes read_le: "length (fst (r off n)) \<le> n"
    and short_is_error: "length (fst (r off n)) < n \<Longrightarrow> snd (r off n) \<noteq> None"
begin

lemma read_full: "snd (r off n) = None \<Longrightarrow> length (fst (r off n)) = n"
  using read_le [of off n] short_is_error [of off n] by (cases "length (fst (r off n)) < n") auto

end

text \<open>\<open>bytes.Reader\<close>: what a file of these bytes answers.\<close>

definition bytes_reader :: "bytes \<Rightarrow> reader_at" where
  "bytes_reader data off n =
     (if off < 0 then ([], Some (OtherIO ''negative offset''))
      else let got = take n (drop (nat off) data)
           in (got, if length got < n then Some EOF else None))"

interpretation bytes_reader: reads_at "bytes_reader data"
  by unfold_locales (auto simp: bytes_reader_def Let_def split: if_splits)

section \<open>Substring search\<close>

definition match_at :: "bytes \<Rightarrow> bytes \<Rightarrow> nat \<Rightarrow> bool" where
  "match_at s pat i \<longleftrightarrow> take (length pat) (drop i s) = pat"

text \<open>\<open>bytes.Index\<close> and \<open>bytes.LastIndex\<close>: the first and the last occurrence.\<close>

definition index_of :: "bytes \<Rightarrow> bytes \<Rightarrow> nat option" where
  "index_of s pat = find (match_at s pat) [0..<length s + 1 - length pat]"

definition last_index_of :: "bytes \<Rightarrow> bytes \<Rightarrow> nat option" where
  "last_index_of s pat = find (match_at s pat) (rev [0..<length s + 1 - length pat])"

lemma find_upt_Some:
  "find P [a..<b] = Some i \<longleftrightarrow> a \<le> i \<and> i < b \<and> P i \<and> (\<forall>j. a \<le> j \<and> j < i \<longrightarrow> \<not> P j)"
proof (induction "b - a" arbitrary: a)
  case 0
  then show ?case by simp
next
  case (Suc n)
  then have ab: "a < b" by simp
  have IH: "find P [Suc a..<b] = Some i \<longleftrightarrow>
      Suc a \<le> i \<and> i < b \<and> P i \<and> (\<forall>j. Suc a \<le> j \<and> j < i \<longrightarrow> \<not> P j)"
    using Suc by (intro Suc.hyps) simp
  show ?case
  proof (cases "P a")
    case True
    then show ?thesis using ab by (auto simp: upt_conv_Cons le_less)
  next
    case False
    have "(\<forall>j. a \<le> j \<and> j < i \<longrightarrow> \<not> P j) \<longleftrightarrow> (\<forall>j. Suc a \<le> j \<and> j < i \<longrightarrow> \<not> P j)"
      using False by (metis Suc_le_eq le_neq_implies_less Suc_leD)
    moreover have "P i \<Longrightarrow> a \<le> i \<longleftrightarrow> Suc a \<le> i"
      using False by (metis Suc_leD Suc_le_eq le_neq_implies_less)
    ultimately show ?thesis using ab False IH by (auto simp: upt_conv_Cons)
  qed
qed

lemma find_rev_upt_Some:
  "find P (rev [0..<b]) = Some i \<longleftrightarrow> i < b \<and> P i \<and> (\<forall>j. i < j \<and> j < b \<longrightarrow> \<not> P j)"
proof (induction b)
  case (Suc b)
  then show ?case by (auto simp: less_Suc_eq)
qed simp

lemma find_rev_upt_None: "find P (rev [0..<b]) = None \<longleftrightarrow> (\<forall>i < b. \<not> P i)"
  by (auto simp: find_None_iff)

lemma match_at_bound: "match_at s pat i \<Longrightarrow> pat \<noteq> [] \<Longrightarrow> i + length pat \<le> length s"
proof -
  assume "match_at s pat i" "pat \<noteq> []"
  have "min (length s - i) (length pat) = length pat"
    using \<open>match_at s pat i\<close> unfolding match_at_def by (metis length_drop length_take min.commute)
  moreover have "0 < length pat" using \<open>pat \<noteq> []\<close> by simp
  ultimately show ?thesis by linarith
qed

lemma last_index_of_Some:
  "last_index_of s pat = Some i \<longleftrightarrow>
     i < length s + 1 - length pat \<and> match_at s pat i \<and>
     (\<forall>j. i < j \<and> j < length s + 1 - length pat \<longrightarrow> \<not> match_at s pat j)"
  unfolding last_index_of_def by (rule find_rev_upt_Some)

lemma last_index_of_None:
  "pat \<noteq> [] \<Longrightarrow> last_index_of s pat = None \<longleftrightarrow> (\<forall>i. \<not> match_at s pat i)"
  unfolding last_index_of_def find_rev_upt_None
  using match_at_bound [of s pat] by (metis Suc_eq_plus1 less_diff_conv less_Suc_eq_le)

section \<open>CRC-32\<close>

text \<open>\<open>crc32.ChecksumIEEE\<close>, bit by bit.\<close>

definition crc32_shift :: "u32 \<Rightarrow> u32" where
  "crc32_shift s = (if bit s 0 then drop_bit 1 s XOR 0xEDB88320 else drop_bit 1 s)"

definition crc32_byte :: "u32 \<Rightarrow> byte \<Rightarrow> u32" where
  "crc32_byte s c = (crc32_shift ^^ 8) (s XOR ucast c)"

definition crc32 :: "bytes \<Rightarrow> u32" where
  "crc32 b = foldl crc32_byte 0xFFFFFFFF b XOR 0xFFFFFFFF"

lemma bit_crc32_shift:
  "bit (crc32_shift s) n \<longleftrightarrow> (bit s (Suc n) \<noteq> (bit s 0 \<and> bit (0xEDB88320 :: u32) n))"
  by (auto simp: crc32_shift_def bit_simps)

lemma crc32_shift_inj: "crc32_shift s = crc32_shift t \<Longrightarrow> s = t"
proof (rule bit_word_eqI)
  fix n
  assume eq: "crc32_shift s = crc32_shift t" and n: "n < LENGTH(32)"
  have top: "bit (0xEDB88320 :: u32) 31" by simp
  have out: "\<not> bit (w :: u32) 32" for w
    by (auto dest: bit_imp_le_length)
  have "bit (crc32_shift s) 31 = bit (crc32_shift t) 31" using eq by simp
  then have zero: "bit s 0 = bit t 0" using top out [of s] out [of t] by (simp add: bit_crc32_shift)
  show "bit s n = bit t n"
  proof (cases n)
    case (Suc m)
    have "bit (crc32_shift s) m = bit (crc32_shift t) m" using eq by simp
    with zero Suc show ?thesis by (auto simp: bit_crc32_shift)
  qed (use zero in simp)
qed

lemma ucast_byte_u32_eq: "(ucast (b :: byte) :: u32) = ucast c \<longleftrightarrow> b = c"
proof
  assume eq: "(ucast b :: u32) = ucast c"
  show "b = c"
  proof (rule bit_word_eqI)
    fix n assume "n < LENGTH(8)"
    then show "bit b n = bit c n"
      using arg_cong [OF eq, of "\<lambda>w. bit w n"] by (simp add: bit_ucast_iff)
  qed
qed simp

lemma crc32_shifts_inj: "(crc32_shift ^^ n) s = (crc32_shift ^^ n) t \<Longrightarrow> s = t"
  by (rule injD [OF inj_fn [OF injI]]) (rule crc32_shift_inj)

interpretation crc32_reg: byte_register crc32_byte
  by unfold_locales
    (auto simp: crc32_byte_def xor_left_cancel xor_right_cancel ucast_byte_u32_eq dest!: crc32_shifts_inj)

lemma crc32_one_byte: "crc32 (xs @ b # ys) = crc32 (xs @ c # ys) \<longleftrightarrow> b = c"
  by (simp only: crc32_def xor_right_cancel crc32_reg.one_byte_error)


end
