(* ===== verification/Zip_Read.thy ===== *)
theory Zip_Read
  imports Go_IO Go_Utf8 Go_Std
begin

text \<open>
  The classic-ZIP reader: \<open>internal/formats/zipread.go\<close> and the CP437 half of \<open>zipname.go\<close>. File offsets (Go's
  \<open>int64\<close>) are integers; header fields keep their width. The archive is any \<open>io.ReaderAt\<close>.
\<close>

section \<open>Errors and reads\<close>

datatype zip_err = ZipError string | ZipIO io_err

type_synonym 'a zip = "(zip_err, 'a) res"

definition zipErr :: "string \<Rightarrow> 'a zip" where
  "zipErr s = Fail (ZipError s)"

text \<open>\<open>make([]byte, size)\<close> panics for a negative size; a buffer is never indexed out of its range unchecked.\<close>

definition readFull :: "reader_at \<Rightarrow> int \<Rightarrow> int \<Rightarrow> bytes zip" where
  "readFull r n off =
     (if n = 0 then Ok []
      else if off < 0 then zipErr ''truncated ZIP structure''
      else if n < 0 then Panic
      else let (buf, err) = r off (nat n)
           in if int (length buf) = n then Ok buf
              else (case err of
                      None \<Rightarrow> zipErr ''truncated ZIP structure''
                    | Some EOF \<Rightarrow> zipErr ''truncated ZIP structure''
                    | Some UnexpectedEOF \<Rightarrow> zipErr ''truncated ZIP structure''
                    | Some e \<Rightarrow> Fail (ZipIO e)))"

text \<open>A field of a header: out of range is a panic.\<close>

definition u16_at :: "bytes \<Rightarrow> nat \<Rightarrow> u16 zip" where
  "u16_at b off = (if length b < off + 2 then Panic else Ok (le16 b off))"

definition u32_at :: "bytes \<Rightarrow> nat \<Rightarrow> u32 zip" where
  "u32_at b off = (if length b < off + 4 then Panic else Ok (le32 b off))"

section \<open>The end record\<close>

definition zipEOCDSig :: bytes where "zipEOCDSig = [0x50, 0x4B, 0x05, 0x06]"
definition zipLocatorSig :: bytes where "zipLocatorSig = [0x50, 0x4B, 0x06, 0x07]"
definition zipCentralSig :: bytes where "zipCentralSig = [0x50, 0x4B, 0x01, 0x02]"

lemma last_index_of_less: "last_index_of (take n s) zipEOCDSig = Some i \<Longrightarrow> i < n"
proof -
  assume "last_index_of (take n s) zipEOCDSig = Some i"
  then have "match_at (take n s) zipEOCDSig i" by (simp add: last_index_of_Some)
  then have "i + length zipEOCDSig \<le> length (take n s)"
    by (rule match_at_bound) (simp add: zipEOCDSig_def)
  then show "i < n" by (simp add: zipEOCDSig_def)
qed

text \<open>The loop of \<open>findEOCD\<close>: the last signature before \<open>start\<close> whose comment ends with the tail.\<close>

function eocd_scan :: "bytes \<Rightarrow> nat \<Rightarrow> nat option" where
  "eocd_scan tail start =
     (case last_index_of (take start tail) zipEOCDSig of
        None \<Rightarrow> None
      | Some i \<Rightarrow>
          let hdr = bslice tail i (min (i + 22) (length tail))
          in if length hdr = 22 \<and> i + 22 + unat (le16 hdr 20) = length tail then Some i
             else eocd_scan tail i)"
  by pat_completeness auto
termination
  by (relation "measure snd") (auto dest: last_index_of_less)

declare eocd_scan.simps [simp del]

definition findEOCD :: "reader_at \<Rightarrow> int \<Rightarrow> (int \<times> bytes) zip" where
  "findEOCD r fsize =
     (if fsize < 22 then zipErr ''truncated EOCD''
      else andthen (readFull r 22 (fsize - 22)) (\<lambda>fixed.
        andthen (u16_at fixed 20) (\<lambda>comment.
          if take 4 fixed = zipEOCDSig \<and> comment = 0 then Ok (fsize - 22, fixed)
          else let len = min fsize 65557
               in andthen (readFull r len (fsize - len)) (\<lambda>tail.
                    case eocd_scan tail (length tail) of
                      None \<Rightarrow> zipErr ''EOCD not found''
                    | Some start \<Rightarrow> Ok (fsize - len + int start, drop start tail)))))"

section \<open>Entries\<close>

record zip_caps =
  MaxCentralDirectory :: int
  MaxEntries :: int
  MaxField :: int

record zip_safety =
  Absolute :: bool
  Traversal :: bool
  Backslash :: bool
  NUL :: bool
  Duplicate :: bool

record zip_entry =
  Index :: nat
  Name :: bytes
  NameEncoding :: string
  NameRaw :: bytes
  MadeBy :: u16
  Needed :: u16
  Flags :: u16
  Method :: u16
  DosTime :: u16
  DosDate :: u16
  CRC32 :: u32
  Compressed :: u32
  Uncompressed :: u32
  Internal :: u16
  External :: u32
  LocalOffset :: u32
  Safety :: zip_safety

record zip_directory =
  Entries :: "zip_entry list"
  PrefixBytes :: int
  CentralOffset :: int
  CentralSize :: int
  EOCDOffset :: int
  EOCD :: bytes

definition EOCDComment :: "zip_directory \<Rightarrow> bytes zip" where
  "EOCDComment d = (if length (EOCD d) < 22 then Panic else Ok (drop 22 (EOCD d)))"

section \<open>Names\<close>

text \<open>\<open>zipCP437\<close>: bytes 0x80 to 0xff of the code page.\<close>

definition zipCP437 :: "rune list" where
  "zipCP437 = [
     0x00c7, 0x00fc, 0x00e9, 0x00e2, 0x00e4, 0x00e0, 0x00e5, 0x00e7,
     0x00ea, 0x00eb, 0x00e8, 0x00ef, 0x00ee, 0x00ec, 0x00c4, 0x00c5,
     0x00c9, 0x00e6, 0x00c6, 0x00f4, 0x00f6, 0x00f2, 0x00fb, 0x00f9,
     0x00ff, 0x00d6, 0x00dc, 0x00a2, 0x00a3, 0x00a5, 0x20a7, 0x0192,
     0x00e1, 0x00ed, 0x00f3, 0x00fa, 0x00f1, 0x00d1, 0x00aa, 0x00ba,
     0x00bf, 0x2310, 0x00ac, 0x00bd, 0x00bc, 0x00a1, 0x00ab, 0x00bb,
     0x2591, 0x2592, 0x2593, 0x2502, 0x2524, 0x2561, 0x2562, 0x2556,
     0x2555, 0x2563, 0x2551, 0x2557, 0x255d, 0x255c, 0x255b, 0x2510,
     0x2514, 0x2534, 0x252c, 0x251c, 0x2500, 0x253c, 0x255e, 0x255f,
     0x255a, 0x2554, 0x2569, 0x2566, 0x2560, 0x2550, 0x256c, 0x2567,
     0x2568, 0x2564, 0x2565, 0x2559, 0x2558, 0x2552, 0x2553, 0x256b,
     0x256a, 0x2518, 0x250c, 0x2588, 0x2584, 0x258c, 0x2590, 0x2580,
     0x03b1, 0x00df, 0x0393, 0x03c0, 0x03a3, 0x03c3, 0x00b5, 0x03c4,
     0x03a6, 0x0398, 0x03a9, 0x03b4, 0x221e, 0x03c6, 0x03b5, 0x2229,
     0x2261, 0x00b1, 0x2265, 0x2264, 0x2320, 0x2321, 0x00f7, 0x2248,
     0x00b0, 0x2219, 0x00b7, 0x221a, 0x207f, 0x00b2, 0x25a0, 0x00a0]"

definition zipDecodeCP437 :: "bytes \<Rightarrow> rune list" where
  "zipDecodeCP437 raw = map (\<lambda>b. if b < 0x80 then unat b else zipCP437 ! unat (b AND 0x7f)) raw"

definition hasDrivePrefix :: "bytes \<Rightarrow> bool \<Rightarrow> bool" where
  "hasDrivePrefix name needSeparator =
     (if length name < 2 \<or> name ! 1 \<noteq> 58 \<or>
         \<not> ((97 \<le> name ! 0 \<and> name ! 0 \<le> 122) \<or> (65 \<le> name ! 0 \<and> name ! 0 \<le> 90))
      then False
      else if \<not> needSeparator then True
      else 3 \<le> length name \<and> (name ! 2 = 92 \<or> name ! 2 = 47))"

fun splitOnSeparators :: "bytes \<Rightarrow> bytes list" where
  "splitOnSeparators [] = [[]]"
| "splitOnSeparators (b # s) =
     (if b = 47 \<or> b = 92 then [] # splitOnSeparators s
      else (case splitOnSeparators s of p # ps \<Rightarrow> (b # p) # ps | [] \<Rightarrow> [[b]]))"

definition dotdot :: bytes where "dotdot = [46, 46]"

definition entry_safety :: "bytes \<Rightarrow> bytes \<Rightarrow> zip_safety" where
  "entry_safety name raw =
     \<lparr>Absolute = take 1 name = [47] \<or> take 1 name = [92] \<or> hasDrivePrefix name True,
      Traversal = dotdot \<in> set (splitOnSeparators name),
      Backslash = 92 \<in> set raw,
      NUL = 0 \<in> set raw,
      Duplicate = False\<rparr>"

definition decode_name :: "u16 \<Rightarrow> bytes \<Rightarrow> string \<times> bytes" where
  "decode_name flags raw =
     (if flags AND 0x800 \<noteq> 0 then (''utf-8'', bytes_of (zipDecodeUTF8Replace raw))
      else (''cp437'', bytes_of (zipDecodeCP437 raw)))"

section \<open>Extra fields\<close>

function scanExtra :: "bytes \<Rightarrow> string \<Rightarrow> bool \<Rightarrow> unit zip" where
  \<comment> \<open>\<open>extra\<close> is what is left from the cursor on\<close>
  "scanExtra extra malformed central =
     (if extra = [] then Ok ()
      else if length extra < 4 then zipErr malformed
      else andthen (u16_at extra 0) (\<lambda>kind. andthen (u16_at extra 2) (\<lambda>len.
             if length extra < 4 + unat len
             then zipErr (if central then ''malformed extra field'' else ''ZIP64 or malformed local extra field'')
             else if kind = 1
             then zipErr (if central then ''ZIP64 is unsupported'' else ''ZIP64 or malformed local extra field'')
             else scanExtra (drop (4 + unat len) extra) malformed central)))"
  by pat_completeness auto
termination
  by (relation "measure (\<lambda>(extra, _, _). length extra)") auto

declare scanExtra.simps [simp del]

section \<open>The central directory\<close>

text \<open>
  One turn of the loop of \<open>ReadZipDirectory\<close>, up to the call of \<open>onEntry\<close>. The fields of the fixed header are read only
  when all of its 46 bytes are there: an index past its end would panic.
\<close>

definition central_header :: "nat \<Rightarrow> bytes \<Rightarrow> zip_entry" where
  "central_header index h =
     \<lparr>Index = index, Name = [], NameEncoding = [], NameRaw = [],
      MadeBy = le16 h 4, Needed = le16 h 6, Flags = le16 h 8, Method = le16 h 10,
      DosTime = le16 h 12, DosDate = le16 h 14, CRC32 = le32 h 16,
      Compressed = le32 h 20, Uncompressed = le32 h 24,
      Internal = le16 h 36, External = le32 h 38, LocalOffset = le32 h 42,
      Safety = \<lparr>Absolute = False, Traversal = False, Backslash = False, NUL = False, Duplicate = False\<rparr>\<rparr>"

definition central_entry ::
  "reader_at \<Rightarrow> zip_caps \<Rightarrow> int \<Rightarrow> int \<Rightarrow> int \<Rightarrow> nat \<Rightarrow> int \<Rightarrow> (zip_entry \<times> int) zip" where
  "central_entry r caps eocdOffset prefix actual index position =
     (if eocdOffset < position + 46 then zipErr ''truncated central-directory header''
      else andthen (readFull r 46 position) (\<lambda>h.
        if length h < 46 then Panic
        else if take 4 h \<noteq> zipCentralSig then zipErr ''invalid central-directory signature''
        else
          let e = central_header index h;
              nlen = uint (le16 h 28); xlen = uint (le16 h 30); clen = uint (le16 h 32); startDisk = le16 h 34;
              end_pos = position + 46 + nlen + xlen + clen
          in if MaxField caps < max nlen (max xlen clen)
             then zipErr ''central-directory field exceeds max-field-bytes''
             else if eocdOffset < end_pos then zipErr ''central-directory field exceeds declared range''
             else andthen (readFull r (nlen + xlen + clen) (position + 46)) (\<lambda>fields.
               if int (length fields) < nlen + xlen then Panic
               else
                 let raw = take (nat nlen) fields; extra = take (nat xlen) (drop (nat nlen) fields)
                 in andthen (scanExtra extra ''malformed extra field'' True) (\<lambda>_.
                      if startDisk \<noteq> 0 \<or> Compressed e = 0xffffffff \<or> Uncompressed e = 0xffffffff \<or> LocalOffset e = 0xffffffff
                      then zipErr ''ZIP64 or spanned entry is unsupported''
                      else if uint (LocalOffset e) + prefix < 0 \<or> actual \<le> uint (LocalOffset e) + prefix
                      then zipErr ''impossible local-header offset''
                      else let (enc, name) = decode_name (Flags e) raw
                           in Ok (e\<lparr>NameRaw := raw, NameEncoding := enc, Name := name,
                                    Safety := entry_safety name raw\<rparr>, end_pos)))))"

fun read_entries ::
  "reader_at \<Rightarrow> zip_caps \<Rightarrow> ('s \<Rightarrow> zip_entry \<Rightarrow> 's zip) \<Rightarrow> int \<Rightarrow> int \<Rightarrow> int \<Rightarrow> nat \<Rightarrow> nat \<Rightarrow> int \<Rightarrow> 's \<Rightarrow>
     (zip_entry list \<times> int \<times> 's) zip" where
  "read_entries r caps onEntry eocdOffset prefix actual 0 index position s = Ok ([], position, s)"
| "read_entries r caps onEntry eocdOffset prefix actual (Suc left) index position s =
     andthen (central_entry r caps eocdOffset prefix actual index position) (\<lambda>(e, end_pos).
     andthen (onEntry s e) (\<lambda>s'.
     andthen (read_entries r caps onEntry eocdOffset prefix actual left (index + 1) end_pos s') (\<lambda>(es, position', s'').
       Ok (e # es, position', s''))))"

definition mark_duplicates :: "zip_entry list \<Rightarrow> zip_entry list" where
  "mark_duplicates es =
     map (\<lambda>e. e\<lparr>Safety := (Safety e)\<lparr>Duplicate := 1 < length (filter (\<lambda>f. Name f = Name e) es)\<rparr>\<rparr>) es"

text \<open>\<open>onEntry\<close> is a callback with a state of its own (the closure's); a nil callback is \<open>no_callback\<close>.\<close>

definition no_callback :: "unit \<Rightarrow> zip_entry \<Rightarrow> unit zip" where
  "no_callback s e = Ok s"

definition locator_check :: "reader_at \<Rightarrow> int \<Rightarrow> unit zip" where
  "locator_check r eocdOffset =
     (if 20 \<le> eocdOffset
      then andthen (readFull r 4 (eocdOffset - 20)) (\<lambda>loc.
        if loc = zipLocatorSig then zipErr ''ZIP64 is unsupported'' else Ok ())
      else Ok ())"

definition ReadZipDirectory ::
  "reader_at \<Rightarrow> int \<Rightarrow> zip_caps \<Rightarrow> ('s \<Rightarrow> zip_entry \<Rightarrow> 's zip) \<Rightarrow> 's \<Rightarrow> (zip_directory \<times> 's) zip" where
  "ReadZipDirectory r fsize caps onEntry s =
     andthen (findEOCD r fsize) (\<lambda>(eocdOffset, eocd).
       if length eocd < 22 then Panic
       else
         let disk = le16 eocd 4; cdDisk = le16 eocd 6; diskEntries = le16 eocd 8; entries = le16 eocd 10;
             cdSize = uint (le32 eocd 12); cdOffset = uint (le32 eocd 16); comment = uint (le16 eocd 20)
         in if disk \<noteq> 0 \<or> cdDisk \<noteq> 0 \<or> diskEntries \<noteq> entries
            then zipErr ''multi-disk or spanned ZIP is unsupported''
            else if diskEntries = 0xffff \<or> entries = 0xffff \<or> cdSize = 0xffffffff \<or> cdOffset = 0xffffffff
            then zipErr ''ZIP64 is unsupported''
            else andthen (locator_check r eocdOffset) (\<lambda>_.
              if MaxEntries caps < uint entries then zipErr ''entry count exceeds max-entries''
              else if MaxCentralDirectory caps < cdSize
              then zipErr ''central directory exceeds max-central-directory-bytes''
              else if MaxField caps < comment then zipErr ''EOCD comment exceeds max-field-bytes''
              else
                let prefix = eocdOffset - cdSize - cdOffset
                in if prefix < 0 \<or> cdOffset + prefix < 0 \<or> cdOffset + prefix + cdSize \<noteq> eocdOffset
                   then zipErr ''impossible central-directory range''
                   else
                     let actual = cdOffset + prefix
                     in andthen (read_entries r caps onEntry eocdOffset prefix actual (unat entries) 0 actual s)
                          (\<lambda>(es, position, s').
                            if position \<noteq> eocdOffset
                            then zipErr ''central-directory size or entry count mismatch''
                            else Ok (\<lparr>Entries = mark_duplicates es, PrefixBytes = prefix, CentralOffset = actual,
                                      CentralSize = cdSize, EOCDOffset = eocdOffset, EOCD = eocd\<rparr>, s'))))"

definition Metadata :: "zip_directory \<Rightarrow> reader_at \<Rightarrow> bytes zip" where
  "Metadata d r = andthen (readFull r (CentralSize d) (CentralOffset d)) (\<lambda>cd. Ok (cd @ EOCD d))"

section \<open>Local headers and members\<close>

record zip_local =
  LNeeded :: u16
  LFlags :: u16
  LMethod :: u16
  LDosTime :: u16
  LDosDate :: u16
  LCRC32 :: u32
  LCompressed :: u32
  LUncompressed :: u32
  LNameRaw :: bytes
  DataOffset :: int

definition ReadLocalHeader :: "zip_directory \<Rightarrow> reader_at \<Rightarrow> zip_entry \<Rightarrow> zip_local zip" where
  "ReadLocalHeader d r e =
     (let local = PrefixBytes d + uint (LocalOffset e)
      in andthen (readFull r 30 local) (\<lambda>h.
           if length h < 30 then Panic
           else if le32 h 0 \<noteq> 0x04034b50 then zipErr ''invalid local-header signature''
           else
             let nlen = uint (le16 h 26); xlen = uint (le16 h 28)
             in andthen (readFull r (nlen + xlen) (local + 30)) (\<lambda>fields.
                  if int (length fields) < nlen then Panic
                  else andthen (scanExtra (drop (nat nlen) fields) ''malformed local extra field'' False) (\<lambda>_.
                    Ok \<lparr>LNeeded = le16 h 4, LFlags = le16 h 6, LMethod = le16 h 8, LDosTime = le16 h 10, LDosDate = le16 h 12,
                        LCRC32 = le32 h 14, LCompressed = le32 h 18, LUncompressed = le32 h 22,
                        LNameRaw = take (nat nlen) fields, DataOffset = local + 30 + nlen + xlen\<rparr>))))"

text \<open>A member's source: a section of the file, or a decompressor in some state (\<open>flate\<close> is the library's).\<close>

datatype 'f source = Section int int \<comment> \<open>the offset and the limit\<close> | Flate 'f

type_synonym 'f flate = "'f \<Rightarrow> nat \<Rightarrow> bytes \<times> io_err option \<times> 'f"

fun src_read :: "reader_at \<Rightarrow> 'f flate \<Rightarrow> 'f source \<Rightarrow> nat \<Rightarrow> bytes \<times> io_err option \<times> 'f source" where
  "src_read r flate (Section off limit) n =
     (if limit \<le> off then ([], Some EOF, Section off limit)
      else let (got, err) = r off (min n (nat (limit - off)))
           in (got, err, Section (off + int (length got)) limit))"
| "src_read r flate (Flate st) n = (let (got, err, st') = flate st n in (got, err, Flate st'))"

record 'f member_reader =
  src :: "'f source"
  crc :: u32 \<comment> \<open>the running register\<close>
  want :: u32
  msize :: int
  mread :: int
  deflated :: bool
  merr :: "zip_err option"

definition finish :: "reader_at \<Rightarrow> 'f flate \<Rightarrow> 'f member_reader \<Rightarrow> zip_err \<times> 'f member_reader" where
  "finish r flate m =
     (let (probe, _, src') = src_read r flate (src m) 1;
          m' = (if deflated m then m\<lparr>src := src'\<rparr> else m);
          e = (if deflated m \<and> probe \<noteq> [] then ZipError ''payload exceeds its declared size''
               else if crc m XOR 0xFFFFFFFF \<noteq> want m then ZipError ''payload CRC32 mismatch''
               else ZipIO EOF)
      in (e, m'\<lparr>merr := Some e\<rparr>))"

fun io_text :: "io_err \<Rightarrow> string" where
  "io_text EOF = ''EOF''"
| "io_text UnexpectedEOF = ''unexpected EOF''"
| "io_text (OtherIO s) = s"

definition classify :: "bool \<Rightarrow> io_err \<Rightarrow> zip_err" where
  "classify deflate err =
     (if err = UnexpectedEOF then ZipError ''truncated payload''
      else if deflate then ZipError (''corrupt deflate payload: '' @ io_text err)
      else ZipIO err)"

text \<open>
  \<open>Read\<close> into a buffer of \<open>len\<close> bytes. The slice of the buffer to what is still owed panics when more was read than is owed, and
  a source that claims to have read more than it was given room for runs past the buffer.
\<close>

definition member_read ::
  "reader_at \<Rightarrow> 'f flate \<Rightarrow> 'f member_reader \<Rightarrow> nat \<Rightarrow> (bytes \<times> zip_err option \<times> 'f member_reader) zip" where
  "member_read r flate m len =
     (case merr m of
        Some e \<Rightarrow> Ok ([], Some e, m)
      | None \<Rightarrow>
          if mread m = msize m then (let (e, m') = finish r flate m in Ok ([], Some e, m'))
          else let owed = min (int len) (msize m - mread m)
          in if owed < 0 then Panic
          else
            let (got, err, src') = src_read r flate (src m) (nat owed);
                m' = m\<lparr>src := src', crc := foldl crc32_byte (crc m) got, mread := mread m + int (length got)\<rparr>
            in if nat owed < length got then Panic
               else (case err of
                  None \<Rightarrow> Ok (got, None, m')
                | Some EOF \<Rightarrow>
                    if mread m' = msize m' then Ok (got, None, m')
                    else (let e = ZipError ''truncated payload'' in Ok (got, Some e, m'\<lparr>merr := Some e\<rparr>))
                | Some x \<Rightarrow> (let e = classify (deflated m) x in Ok (got, Some e, m'\<lparr>merr := Some e\<rparr>))))"

definition OpenMember ::
  "(int \<Rightarrow> int \<Rightarrow> 'f) \<Rightarrow> zip_directory \<Rightarrow> zip_entry \<Rightarrow> zip_local \<Rightarrow> 'f member_reader zip" where
  \<comment> \<open>\<open>flate_new off n\<close> is a decompressor over that section of the file\<close>
  "OpenMember flate_new d e l =
     (if CentralOffset d < DataOffset l + uint (Compressed e) then zipErr ''payload range crosses central directory''
      else
        let section = Section (DataOffset l) (DataOffset l + uint (Compressed e));
            m = \<lparr>src = section, crc = 0xFFFFFFFF, want = CRC32 e, msize = uint (Uncompressed e), mread = 0,
                 deflated = False, merr = None\<rparr>
        in if Method e = 0
           then (if Compressed e \<noteq> Uncompressed e then zipErr ''invalid STORED or directory size'' else Ok m)
           else if Method e = 8
           then Ok (m\<lparr>src := Flate (flate_new (DataOffset l) (uint (Compressed e))), deflated := True\<rparr>)
           else zipErr (''unsupported compression method '' @ dec_str (unat (Method e))))"

text \<open>
  \<open>io.ReadAll\<close>: reads until the end or an error into a buffer with \<open>room (length b)\<close> bytes left. Whether it ends
  depends on the source, so not returning is \<open>None\<close>.
\<close>

partial_function (option) read_all ::
  "reader_at \<Rightarrow> 'f flate \<Rightarrow> (nat \<Rightarrow> nat) \<Rightarrow> 'f member_reader \<Rightarrow> bytes \<Rightarrow> bytes zip option" where
  "read_all r flate room m b =
     (case member_read r flate m (room (length b)) of
        Ok (got, None, m') \<Rightarrow> read_all r flate room m' (b @ got)
      | Ok (got, Some (ZipIO EOF), m') \<Rightarrow> Some (Ok (b @ got))
      | Ok (got, Some e, m') \<Rightarrow> Some (Fail e)
      | Fail e \<Rightarrow> Some (Fail e)
      | Panic \<Rightarrow> Some Panic)"

declare read_all.simps [code]

definition ReadMember ::
  "(int \<Rightarrow> int \<Rightarrow> 'f) \<Rightarrow> 'f flate \<Rightarrow> (nat \<Rightarrow> nat) \<Rightarrow> zip_directory \<Rightarrow> reader_at \<Rightarrow> zip_entry \<Rightarrow> int \<Rightarrow> bytes zip option" where
  "ReadMember flate_new flate room d r e maxBytes =
     (if maxBytes < uint (Uncompressed e) then Some (zipErr ''entry exceeds max-entry-bytes'')
      else case ReadLocalHeader d r e of
        Fail x \<Rightarrow> Some (Fail x)
      | Panic \<Rightarrow> Some Panic
      | Ok l \<Rightarrow>
          (case OpenMember flate_new d e l of
             Fail x \<Rightarrow> Some (Fail x)
           | Panic \<Rightarrow> Some Panic
           | Ok m \<Rightarrow> read_all r flate room m []))"

section \<open>Reads from memory\<close>

lemma readFull_bytes:
  assumes "0 \<le> off" "0 \<le> n"
  shows "readFull (bytes_reader data) n off =
    (if n = 0 \<or> off + n \<le> int (length data) then Ok (take (nat n) (drop (nat off) data))
     else zipErr ''truncated ZIP structure'')"
  using assms by (auto simp: readFull_def bytes_reader_def Let_def min_def split: if_splits)

lemma readFull_length: "readFull r n off = Ok b \<Longrightarrow> int (length b) = n"
  by (auto simp: readFull_def Let_def zipErr_def split: if_splits prod.splits option.splits io_err.splits)

lemma readFull_no_panic: "0 \<le> n \<Longrightarrow> no_panic (readFull r n off)"
  by (auto simp: readFull_def Let_def zipErr_def split: prod.splits option.splits io_err.splits)

section \<open>Where the end record is\<close>

definition eocd_at :: "bytes \<Rightarrow> nat \<Rightarrow> bool" where
  \<comment> \<open>an end record whose comment runs to the end of the data\<close>
  "eocd_at data i \<longleftrightarrow>
     i + 22 \<le> length data \<and> match_at data zipEOCDSig i \<and> i + 22 + unat (le16 data (i + 20)) = length data"

definition last_eocd :: "bytes \<Rightarrow> nat option" where
  "last_eocd data = find (eocd_at data) (rev [0..<length data])"

lemma sig_length: "length zipEOCDSig = 4"
  by (simp add: zipEOCDSig_def)

lemma match_at_nth: "match_at s pat i \<Longrightarrow> k < length pat \<Longrightarrow> i + k < length s \<and> s ! (i + k) = pat ! k"
proof -
  assume m: "match_at s pat i" and k: "k < length pat"
  then have "i + length pat \<le> length s" by (intro match_at_bound) auto
  moreover have "take (length pat) (drop i s) ! k = pat ! k" using m by (simp add: match_at_def)
  ultimately show ?thesis using k by simp
qed

lemma sig_apart:
  assumes "match_at s zipEOCDSig i" "match_at s zipEOCDSig j" "i < j"
  shows "i + 4 \<le> j"
proof (rule ccontr)
  assume "\<not> ?thesis"
  then obtain k where k: "j = i + k" "0 < k" "k < 4" using assms(3) by (metis add_less_cancel_left less_imp_add_positive not_le)
  then have "zipEOCDSig ! k = zipEOCDSig ! 0"
    using match_at_nth [OF assms(1), of k] match_at_nth [OF assms(2), of 0] by (simp add: zipEOCDSig_def)
  moreover have "k = 1 \<or> k = 2 \<or> k = 3" using k by auto
  ultimately show False by (auto simp: zipEOCDSig_def)
qed

lemma match_at_take: "pat \<noteq> [] \<Longrightarrow> match_at (take n s) pat i \<longleftrightarrow> match_at s pat i \<and> i + length pat \<le> n"
proof
  assume pat: "pat \<noteq> []" and m: "match_at (take n s) pat i"
  then have "i + length pat \<le> length (take n s)" by (rule match_at_bound [rotated])
  then show "match_at s pat i \<and> i + length pat \<le> n"
    using m by (auto simp: match_at_def drop_take min_def split: if_splits)
next
  assume "match_at s pat i \<and> i + length pat \<le> n"
  then show "match_at (take n s) pat i" by (auto simp: match_at_def drop_take min_def)
qed

lemma eocd_header:
  "(length (bslice tail i (min (i + 22) (length tail))) = 22 \<and>
    i + 22 + unat (le16 (bslice tail i (min (i + 22) (length tail))) 20) = length tail) \<longleftrightarrow>
   i + 22 \<le> length tail \<and> i + 22 + unat (le16 tail (i + 20)) = length tail"
proof (cases "i + 22 \<le> length tail")
  case True
  then have "bslice (bslice tail i (i + 22)) 20 22 = bslice tail (i + 20) (i + 22)"
    by (simp add: bslice_def drop_take add.commute)
  with True show ?thesis by (simp add: le16_def min_def) (auto simp: add.commute)
next
  case False
  then show ?thesis by (simp add: min_def)
qed

lemma eocd_scan_step:
  "eocd_scan tail start =
     (case last_index_of (take start tail) zipEOCDSig of
        None \<Rightarrow> None
      | Some i \<Rightarrow>
          if i + 22 \<le> length tail \<and> i + 22 + unat (le16 tail (i + 20)) = length tail then Some i
          else eocd_scan tail i)"
  by (subst eocd_scan.simps) (simp only: Let_def eocd_header)

lemma eocd_scan_find:
  "start \<le> length tail \<Longrightarrow> start = length tail \<or> match_at tail zipEOCDSig start \<Longrightarrow>
     eocd_scan tail start = find (eocd_at tail) (rev [0..<start])"
proof (induction tail start rule: eocd_scan.induct)
  case (1 tail start)
  have sig: "zipEOCDSig \<noteq> []" "length zipEOCDSig = 4" by (simp_all add: zipEOCDSig_def)
  have inside: "match_at (take start tail) zipEOCDSig i" if "eocd_at tail i" "i < start" for i
  proof -
    have "match_at tail zipEOCDSig i" "i + 22 \<le> length tail" using that by (auto simp: eocd_at_def)
    then have "i + 4 \<le> start" using 1(2,3) that(2) sig_apart [of tail i start] by auto
    then show ?thesis using \<open>match_at tail zipEOCDSig i\<close> sig by (simp add: match_at_take)
  qed
  show ?case
  proof (cases "last_index_of (take start tail) zipEOCDSig")
    case None
    then have "\<not> eocd_at tail i" if "i < start" for i
      using inside [OF _ that] sig by (auto simp: last_index_of_None)
    then have "find (eocd_at tail) (rev [0..<start]) = None" by (simp add: find_rev_upt_None)
    with None show ?thesis by (simp add: eocd_scan_step [of tail start])
  next
    case (Some i)
    then have m: "match_at (take start tail) zipEOCDSig i" and
        above: "\<And>j. i < j \<Longrightarrow> \<not> match_at (take start tail) zipEOCDSig j"
      using sig match_at_bound [of "take start tail" zipEOCDSig] unfolding last_index_of_Some by force+
    have i: "i < start" "match_at tail zipEOCDSig i" using m sig by (auto simp: match_at_take)
    have none: "\<not> eocd_at tail j" if "i < j" "j < start" for j
      using above [OF that(1)] inside [OF _ that(2)] by blast
    show ?thesis
    proof (cases "eocd_at tail i")
      case True
      then have "find (eocd_at tail) (rev [0..<start]) = Some i"
        using i none by (auto simp: find_rev_upt_Some)
      moreover have "eocd_scan tail start = Some i"
        using True Some by (simp add: eocd_scan_step [of tail start] eocd_at_def)
      ultimately show ?thesis by simp
    next
      case False
      then have "eocd_scan tail start = eocd_scan tail i"
        using Some i by (auto simp: eocd_scan_step [of tail start] eocd_at_def)
      also have "\<dots> = find (eocd_at tail) (rev [0..<i])"
        using 1(2) i False by (intro 1(1) [OF Some refl]) (simp_all only: eocd_header, auto simp: eocd_at_def)
      also have "\<dots> = find (eocd_at tail) (rev [0..<start])"
      proof (cases "find (eocd_at tail) (rev [0..<i])")
        case None
        then show ?thesis
          using none False i by (metis find_rev_upt_None linorder_neqE_nat)
      next
        case (Some k)
        then have k: "k < i" "eocd_at tail k" "\<And>j. k < j \<Longrightarrow> j < i \<Longrightarrow> \<not> eocd_at tail j"
          by (auto simp: find_rev_upt_Some)
        have "\<not> eocd_at tail j" if "k < j" "j < start" for j
          using k(3) [of j] none [of j] False that by (cases j i rule: linorder_cases) auto
        with k i have "find (eocd_at tail) (rev [0..<start]) = Some k" by (simp add: find_rev_upt_Some)
        with Some show ?thesis by simp
      qed
      finally show ?thesis .
    qed
  qed
qed

lemma le16_drop: "le16 (drop n data) k = le16 data (n + k)"
  by (simp add: le16_def bslice_def ac_simps)

lemma eocd_at_drop: "n \<le> length data \<Longrightarrow> eocd_at (drop n data) i \<longleftrightarrow> eocd_at data (n + i)"
  by (auto simp: eocd_at_def match_at_def le16_drop ac_simps)

lemma eocd_at_near_end: "eocd_at data i \<Longrightarrow> length data - 65557 \<le> i"
proof -
  assume "eocd_at data i"
  then have "i + 22 + unat (le16 data (i + 20)) = length data" by (simp add: eocd_at_def)
  moreover have "unat (le16 data (i + 20)) < 65536"
    using unsigned_less [of "le16 data (i + 20)", where 'a=nat] by simp
  ultimately show ?thesis by linarith
qed

lemma find_window:
  assumes "w \<le> n" "\<And>i. P i \<Longrightarrow> w \<le> i"
  shows "find P (rev [0..<n]) = map_option ((+) w) (find (\<lambda>i. P (w + i)) (rev [0..<n - w]))"
proof (cases "find (\<lambda>i. P (w + i)) (rev [0..<n - w])")
  case None
  then have "\<not> P i" if "i < n" for i
    using assms that unfolding find_rev_upt_None by (metis diff_less_mono le_add_diff_inverse)
  then have "find P (rev [0..<n]) = None" by (simp add: find_rev_upt_None)
  with None show ?thesis by simp
next
  case (Some k)
  then have k: "k < n - w" "P (w + k)" "\<And>j. k < j \<Longrightarrow> j < n - w \<Longrightarrow> \<not> P (w + j)"
    by (auto simp: find_rev_upt_Some)
  have "\<not> P j" if "w + k < j" "j < n" for j
    using k(3) [of "j - w"] that assms by auto
  with k have "find P (rev [0..<n]) = Some (w + k)" by (simp add: find_rev_upt_Some)
  with Some show ?thesis by simp
qed

lemma findEOCD_bytes:
  "findEOCD (bytes_reader data) (int (length data)) =
     (if length data < 22 then zipErr ''truncated EOCD''
      else case last_eocd data of
             None \<Rightarrow> zipErr ''EOCD not found''
           | Some i \<Rightarrow> Ok (int i, drop i data))"
proof (cases "length data < 22")
  case True
  then show ?thesis by (simp add: findEOCD_def)
next
  case False
  let ?n = "length data" and ?w = "length data - 65557"
  let ?fixed = "drop (?n - 22) data"
  have fixed: "readFull (bytes_reader data) 22 (int ?n - 22) = Ok ?fixed"
    using False by (simp add: readFull_bytes nat_diff_distrib' take_all)
  have cmt: "u16_at ?fixed 20 = Ok (le16 data (?n - 2))"
    using False by (simp add: u16_at_def le16_drop)
  have sig: "take 4 ?fixed = zipEOCDSig \<longleftrightarrow> match_at data zipEOCDSig (?n - 22)"
    using sig_length by (simp add: match_at_def)
  show ?thesis
  proof (cases "match_at data zipEOCDSig (?n - 22) \<and> le16 data (?n - 2) = 0")
    case True
    then have "eocd_at data (?n - 22)" using False by (simp add: eocd_at_def)
    then have "last_eocd data = Some (?n - 22)"
      using False by (auto simp: last_eocd_def find_rev_upt_Some eocd_at_def)
    with True False show ?thesis
      by (simp add: findEOCD_def fixed cmt sig)
  next
    case slow: False
    have tail: "readFull (bytes_reader data) (min (int ?n) 65557) (int ?w) = Ok (drop ?w data)"
      using False by (auto simp: readFull_bytes min_def)
    have "eocd_scan (drop ?w data) (length (drop ?w data)) =
        find (eocd_at (drop ?w data)) (rev [0..<length (drop ?w data)])"
      by (rule eocd_scan_find) simp_all
    moreover have "eocd_at (drop ?w data) = (\<lambda>i. eocd_at data (?w + i))"
      by (simp add: fun_eq_iff eocd_at_drop)
    ultimately have scan: "last_eocd data = map_option ((+) ?w) (eocd_scan (drop ?w data) (length (drop ?w data)))"
      unfolding last_eocd_def using find_window [of ?w ?n "eocd_at data"] eocd_at_near_end by simp
    have off: "int ?n - min (int ?n) 65557 = int ?w" by (auto simp: min_def)
    show ?thesis
      unfolding findEOCD_def fixed andthen.simps cmt sig if_not_P [OF slow] Let_def off tail scan
      using False by (simp add: off add.commute split: option.split)
  qed
qed

section \<open>No panic\<close>

lemma zipErr_no_panic [simp]: "no_panic (zipErr s)"
  by (simp add: zipErr_def)

lemma zipErr_not_Ok [simp]: "zipErr s \<noteq> Ok x" "Ok x \<noteq> zipErr s"
  by (simp_all add: zipErr_def)

lemma scanExtra_no_panic: "no_panic (scanExtra extra malformed central)"
proof (induction extra malformed central rule: scanExtra.induct)
  case (1 extra malformed central)
  show ?case
    by (subst scanExtra.simps) (auto simp: u16_at_def intro!: no_panic_andthen 1)
qed

lemma eocd_scan_inside: "eocd_scan tail start = Some i \<Longrightarrow> i + 22 \<le> length tail"
proof (induction tail start rule: eocd_scan.induct)
  case (1 tail start)
  show ?case
  proof (cases "last_index_of (take start tail) zipEOCDSig")
    case None
    with 1(2) show ?thesis by (simp add: eocd_scan_step [of tail start])
  next
    case (Some j)
    show ?thesis
    proof (cases "j + 22 \<le> length tail \<and> j + 22 + unat (le16 tail (j + 20)) = length tail")
      case True
      with Some 1(2) show ?thesis by (simp add: eocd_scan_step [of tail start])
    next
      case False
      with Some have "eocd_scan tail start = eocd_scan tail j" by (auto simp: eocd_scan_step [of tail start])
      moreover have "eocd_scan tail j = Some i \<Longrightarrow> i + 22 \<le> length tail"
        using False by (intro 1(1) [OF Some refl]) (simp only: eocd_header, auto)
      ultimately show ?thesis using 1(2) by simp
    qed
  qed
qed

lemma findEOCD_no_panic: "no_panic (findEOCD r n)"
  unfolding findEOCD_def
  by (auto intro!: no_panic_andthen readFull_no_panic simp: u16_at_def Let_def dest!: readFull_length split: option.split)

lemma findEOCD_range:
  assumes "findEOCD r n = Ok (off, rec)"
  shows "22 \<le> length rec \<and> off + int (length rec) = n \<and> 0 \<le> off"
proof -
  from assms obtain fixed where f: "22 \<le> n" "readFull r 22 (n - 22) = Ok fixed"
    by (auto simp: findEOCD_def andthen_Ok_iff split: if_splits)
  then have lf: "length fixed = 22" using readFull_length [of r 22 "n - 22" fixed] by simp
  show ?thesis
  proof (cases "take 4 fixed = zipEOCDSig \<and> le16 fixed 20 = 0")
    case True
    with assms f lf show ?thesis by (simp add: findEOCD_def u16_at_def)
  next
    case False
    with assms f lf obtain tail start where
        t: "readFull r (min n 65557) (n - min n 65557) = Ok tail" "eocd_scan tail (length tail) = Some start"
          "off = n - min n 65557 + int start" "rec = drop start tail"
      by (auto simp: findEOCD_def u16_at_def andthen_Ok_iff Let_def split: option.splits)
    have "start + 22 \<le> length tail" using t(2) by (rule eocd_scan_inside)
    moreover have "int (length tail) = min n 65557" using t(1) by (rule readFull_length)
    ultimately show ?thesis using t f(1) by auto
  qed
qed

lemma central_entry_no_panic: "no_panic (central_entry r caps eo prefix actual index position)"
  unfolding central_entry_def
  by (auto intro!: no_panic_andthen readFull_no_panic scanExtra_no_panic simp: Let_def
      dest!: readFull_length split: prod.split)

lemma read_entries_no_panic:
  assumes "\<And>s e. no_panic (onEntry s e)"
  shows "no_panic (read_entries r caps onEntry eo prefix actual left index position s)"
  by (induction left arbitrary: index position s)
    (auto intro!: no_panic_andthen central_entry_no_panic assms split: prod.split)

lemma readFull_4_no_panic: "no_panic (locator_check r eo)"
  unfolding locator_check_def by (auto intro!: no_panic_andthen readFull_no_panic)

lemma ReadZipDirectory_no_panic:
  assumes "\<And>s e. no_panic (onEntry s e)"
  shows "no_panic (ReadZipDirectory r n caps onEntry s)"
  unfolding ReadZipDirectory_def
proof (rule no_panic_andthen [OF findEOCD_no_panic], goal_cases)
  case (1 x)
  then have "\<not> length (snd x) < 22" using findEOCD_range [of r n "fst x" "snd x"] by simp
  then show ?case
    unfolding case_prod_unfold Let_def if_not_P
    by (intro no_panic_if no_panic_andthen zipErr_no_panic readFull_4_no_panic read_entries_no_panic assms
        no_panic_simps) simp_all
qed

lemma ReadLocalHeader_no_panic: "no_panic (ReadLocalHeader d r e)"
  unfolding ReadLocalHeader_def Let_def
  by (auto intro!: no_panic_andthen readFull_no_panic scanExtra_no_panic dest!: readFull_length)

section \<open>What an accepted directory satisfies\<close>

lemma central_entry_ok:
  assumes "central_entry r caps eo prefix actual index position = Ok (e, p)"
  shows "Index e = index \<and> position + 46 + int (length (NameRaw e)) \<le> p \<and> p \<le> eo \<and>
    int (length (NameRaw e)) \<le> MaxField caps \<and>
    0 \<le> uint (LocalOffset e) + prefix \<and> uint (LocalOffset e) + prefix < actual \<and>
    Compressed e \<noteq> 0xFFFFFFFF \<and> Uncompressed e \<noteq> 0xFFFFFFFF \<and> LocalOffset e \<noteq> 0xFFFFFFFF \<and>
    Safety e = entry_safety (Name e) (NameRaw e) \<and> (NameEncoding e, Name e) = decode_name (Flags e) (NameRaw e)"
proof -
  from assms obtain h where h: "readFull r 46 position = Ok h"
    by (auto simp: central_entry_def andthen_Ok_iff split: if_splits)
  have nonneg: "0 \<le> uint (le16 h 28)" "0 \<le> uint (le16 h 30)" "0 \<le> uint (le16 h 32)" by simp_all
  from assms h nonneg show ?thesis
    by (auto simp: central_entry_def Let_def andthen_Ok_iff central_header_def of_nat_min
        split: if_splits prod.splits dest!: readFull_length)
qed

definition entry_ok :: "zip_caps \<Rightarrow> int \<Rightarrow> int \<Rightarrow> zip_entry \<Rightarrow> bool" where
  "entry_ok caps prefix actual e \<longleftrightarrow>
     int (length (NameRaw e)) \<le> MaxField caps \<and>
     0 \<le> prefix + uint (LocalOffset e) \<and> prefix + uint (LocalOffset e) < actual \<and>
     Compressed e \<noteq> 0xFFFFFFFF \<and> Uncompressed e \<noteq> 0xFFFFFFFF \<and> LocalOffset e \<noteq> 0xFFFFFFFF"

text \<open>The name of an entry, told from its flags and raw bytes.\<close>

definition named :: "zip_entry \<Rightarrow> bool" where
  "named e \<longleftrightarrow>
     (if bit (Flags e) 11
      then NameEncoding e = ''utf-8'' \<and> Name e = bytes_of (zipDecodeUTF8Replace (NameRaw e)) \<and>
        (Name e = NameRaw e \<longleftrightarrow> utf8_valid (NameRaw e))
      else NameEncoding e = ''cp437'' \<and>
        Name e = concat (map (\<lambda>b. encode_rune (if unat b < 128 then unat b else zipCP437 ! (unat b - 128))) (NameRaw e)))"

text \<open>The marks of an entry, told from its name, its raw bytes and the names of the others.\<close>

definition separator :: "byte \<Rightarrow> bool" where
  "separator b \<longleftrightarrow> b = 47 \<or> b = 92"

definition letter :: "byte \<Rightarrow> bool" where
  "letter b \<longleftrightarrow> 65 \<le> b \<and> b \<le> 90 \<or> 97 \<le> b \<and> b \<le> 122"

text \<open>Two dots between separators or the ends of the name.\<close>

definition goes_up :: "bytes \<Rightarrow> bool" where
  "goes_up name \<longleftrightarrow> (\<exists>a b. name = a @ [46, 46] @ b \<and> (a = [] \<or> separator (last a)) \<and> (b = [] \<or> separator (hd b)))"

text \<open>A separator first, or a drive letter, a colon and a separator.\<close>

definition rooted_name :: "bytes \<Rightarrow> bool" where
  "rooted_name name \<longleftrightarrow> (\<exists>c rest. name = c # rest \<and> separator c) \<or>
     (\<exists>c d rest. name = c # 58 # d # rest \<and> letter c \<and> separator d)"

definition marked :: "zip_entry list \<Rightarrow> zip_entry \<Rightarrow> bool" where
  "marked es e \<longleftrightarrow> (Absolute (Safety e) \<longleftrightarrow> rooted_name (Name e)) \<and> (Traversal (Safety e) \<longleftrightarrow> goes_up (Name e)) \<and>
     (Backslash (Safety e) \<longleftrightarrow> 92 \<in> set (NameRaw e)) \<and> (NUL (Safety e) \<longleftrightarrow> 0 \<in> set (NameRaw e)) \<and>
     (Duplicate (Safety e) \<longleftrightarrow> 2 \<le> length (filter (\<lambda>f. Name f = Name e) es))"

lemma split_step:
  "splitOnSeparators (x # s) =
     (if separator x then [] # splitOnSeparators s
      else (x # hd (splitOnSeparators s)) # tl (splitOnSeparators s))"
proof -
  have "splitOnSeparators s \<noteq> []" for s by (induction s) (auto split: list.splits)
  from this [of s] show ?thesis by (cases "splitOnSeparators s") (auto simp: separator_def)
qed

lemma split_ne: "splitOnSeparators s \<noteq> []"
  by (cases s) (auto simp: split_step simp del: splitOnSeparators.simps(2))

lemma split_hd: "\<exists>b. s = hd (splitOnSeparators s) @ b \<and> (b = [] \<or> separator (hd b))"
proof (induction s)
  case (Cons x s)
  then show ?case by (cases "separator x") (auto simp: split_step simp del: splitOnSeparators.simps(2))
qed simp

lemma split_tl: "p \<in> set (tl (splitOnSeparators s)) \<Longrightarrow>
    \<exists>a c b. s = a @ c # p @ b \<and> separator c \<and> (b = [] \<or> separator (hd b))"
proof (induction s)
  case (Cons x s)
  show ?case
  proof (cases "separator x \<and> p = hd (splitOnSeparators s)")
    case True
    then show ?thesis using split_hd [of s] by (metis append_Nil)
  next
    case False
    then have "p \<in> set (tl (splitOnSeparators s))"
      using Cons.prems split_ne [of s] by (cases "splitOnSeparators s") (auto simp: split_step simp del: splitOnSeparators.simps(2) split: if_splits)
    then show ?thesis using Cons.IH by (metis append_Cons)
  qed
qed simp

lemma split_piece: "\<not> list_ex separator p \<Longrightarrow> b = [] \<or> separator (hd b) \<Longrightarrow> p \<in> set (splitOnSeparators (p @ b))"
proof (induction p)
  case Nil
  then show ?case by (cases b) (auto simp: split_step simp del: splitOnSeparators.simps(2))
next
  case (Cons x p)
  have "hd (splitOnSeparators (p @ b)) = p" if "\<not> list_ex separator p" for p
    using that Cons.prems(2)
    by (induction p; cases b) (auto simp: split_step simp del: splitOnSeparators.simps(2))
  then show ?case using Cons.prems by (simp add: split_step del: splitOnSeparators.simps(2))
qed

lemma split_after: "separator c \<Longrightarrow> set (splitOnSeparators s) \<subseteq> set (splitOnSeparators (a @ c # s))"
proof (induction a)
  case (Cons x a)
  have "set (splitOnSeparators s) \<subseteq> set (tl (splitOnSeparators (a @ c # s)))" if "separator c" for a
    using that
  proof (induction a)
    case (Cons x a)
    then show ?case using split_ne [of "a @ c # s"]
      by (cases "splitOnSeparators (a @ c # s)") (auto simp: split_step simp del: splitOnSeparators.simps(2))
  qed (simp add: split_step del: splitOnSeparators.simps(2))
  moreover have "set (tl (splitOnSeparators t)) \<subseteq> set (splitOnSeparators t)" for t
    using split_ne [of t] by (cases "splitOnSeparators t") auto
  ultimately show ?case using Cons.prems by (meson subset_trans)
qed (auto simp: split_step simp del: splitOnSeparators.simps(2))

lemma traversal_iff: "dotdot \<in> set (splitOnSeparators name) \<longleftrightarrow> goes_up name"
proof
  assume "dotdot \<in> set (splitOnSeparators name)"
  then consider "dotdot = hd (splitOnSeparators name)" | "dotdot \<in> set (tl (splitOnSeparators name))"
    using split_ne [of name] by (cases "splitOnSeparators name") auto
  then show "goes_up name"
  proof cases
    case 1
    obtain b where b: "name = hd (splitOnSeparators name) @ b" "b = [] \<or> separator (hd b)"
      using split_hd [of name] by blast
    have "name = [] @ [46, 46] @ b" using b(1) 1 by (metis append_Nil dotdot_def)
    then show ?thesis using b(2) unfolding goes_up_def by blast
  next
    case 2
    then obtain a c b where "name = (a @ [c]) @ [46, 46] @ b" "separator c" "b = [] \<or> separator (hd b)"
      using split_tl [OF 2] by (auto simp: dotdot_def)
    then show ?thesis unfolding goes_up_def by (metis last_snoc)
  qed
next
  assume "goes_up name"
  then obtain a b where ab: "name = a @ [46, 46] @ b" "a = [] \<or> separator (last a)" "b = [] \<or> separator (hd b)"
    by (auto simp: goes_up_def)
  have "\<not> list_ex separator dotdot" by (simp add: separator_def dotdot_def)
  then have piece: "dotdot \<in> set (splitOnSeparators (dotdot @ b))" using split_piece ab(3) by blast
  show "dotdot \<in> set (splitOnSeparators name)"
  proof (cases a rule: rev_cases)
    case Nil
    then show ?thesis using piece ab(1) by (simp add: dotdot_def)
  next
    case (snoc a' c)
    then show ?thesis using split_after [of c "dotdot @ b" a'] piece ab by (auto simp: dotdot_def)
  qed
qed

lemma absolute_iff: "take 1 name = [47] \<or> take 1 name = [92] \<or> hasDrivePrefix name True \<longleftrightarrow> rooted_name name"
proof -
  consider "name = []" | c where "name = [c]" | c d where "name = [c, d]" | c d x rest where "name = c # d # x # rest"
    by (cases name; cases "tl name"; cases "tl (tl name)") auto
  then show ?thesis
    by cases (auto simp: rooted_name_def hasDrivePrefix_def separator_def letter_def)
qed

lemma bit_flag: "(flags :: u16) AND 0x800 \<noteq> 0 \<longleftrightarrow> bit flags 11"
  using and_exp_eq_0_iff_not_bit [of flags 11] by simp

lemma low_seven: "\<not> unat (b :: byte) < 128 \<Longrightarrow> unat (b AND 0x7F) = unat b - 128"
proof -
  assume high: "\<not> unat b < 128"
  have "b AND 0x7F = take_bit 7 b" by (simp add: take_bit_eq_mask mask_eq_exp_minus_1)
  then have "unat (b AND 0x7F) = take_bit 7 (unat b)" by (simp only: unsigned_take_bit_eq)
  then have "unat (b AND 0x7F) = unat b mod 128" by (simp add: take_bit_eq_mod)
  moreover have "unat b < 256" using unsigned_less [of b, where 'a = nat] by simp
  ultimately show ?thesis using high by (simp add: mod_if)
qed

lemma decode_replace_lossless: "bytes_of (zipDecodeUTF8Replace b) = b \<longleftrightarrow> utf8_valid b"
  using encoded_runes [OF pyDecodeReplace_runes [of b]] utf8_valid_decode [of b] by (auto simp: zipDecodeUTF8Replace_port)

lemma decoded_named: "(NameEncoding e, Name e) = decode_name (Flags e) (NameRaw e) \<Longrightarrow> named e"
proof -
  assume d: "(NameEncoding e, Name e) = decode_name (Flags e) (NameRaw e)"
  have cp: "bytes_of (zipDecodeCP437 raw) =
      concat (map (\<lambda>b. encode_rune (if unat b < 128 then unat b else zipCP437 ! (unat b - 128))) raw)" for raw
    unfolding bytes_of_def zipDecodeCP437_def map_map comp_def
    by (rule arg_cong [where f = concat], rule map_cong [OF refl]) (simp add: low_seven word_less_nat_alt)
  show ?thesis
    using d decode_replace_lossless [of "NameRaw e"]
    by (auto simp: named_def decode_name_def bit_flag cp split: if_splits)
qed

definition name_bytes :: "zip_entry list \<Rightarrow> nat" where
  "name_bytes es = sum_list (map (\<lambda>e. length (NameRaw e)) es)"

text \<open>
  The entries stand one after the other from \<open>pos\<close> to \<open>fin\<close>: each is a header of 46 bytes, of which the fields are those of
  the entry, and the name, the extra field and the comment whose lengths it gives.
\<close>

fun laid_out :: "reader_at \<Rightarrow> int \<Rightarrow> zip_entry list \<Rightarrow> int \<Rightarrow> bool" where
  "laid_out r pos [] fin \<longleftrightarrow> pos = fin"
| "laid_out r pos (e # es) fin \<longleftrightarrow> (\<exists>h fields.
     readFull r 46 pos = Ok h \<and> take 4 h = [0x50, 0x4B, 1, 2] \<and>
     MadeBy e = le16 h 4 \<and> Needed e = le16 h 6 \<and> Flags e = le16 h 8 \<and> Method e = le16 h 10 \<and> DosTime e = le16 h 12 \<and>
     DosDate e = le16 h 14 \<and> CRC32 e = le32 h 16 \<and> Compressed e = le32 h 20 \<and> Uncompressed e = le32 h 24 \<and>
     Internal e = le16 h 36 \<and> External e = le32 h 38 \<and> LocalOffset e = le32 h 42 \<and>
     readFull r (uint (le16 h 28) + uint (le16 h 30) + uint (le16 h 32)) (pos + 46) = Ok fields \<and>
     NameRaw e = take (unat (le16 h 28)) fields \<and>
     laid_out r (pos + 46 + uint (le16 h 28) + uint (le16 h 30) + uint (le16 h 32)) es fin)"

lemma read_entries_ok:
  "read_entries r caps onEntry eo prefix actual left index position s = Ok (es, p, s') \<Longrightarrow>
     length es = left \<and> map Index es = [index..<index + left] \<and>
     list_all (\<lambda>e. entry_ok caps prefix actual e \<and> named e \<and> (NameEncoding e, Name e) = decode_name (Flags e) (NameRaw e) \<and> Safety e = entry_safety (Name e) (NameRaw e)) es \<and>
     position + 46 * int left + int (name_bytes es) \<le> p"
proof (induction left arbitrary: index position s es)
  case 0
  then show ?case by (simp add: name_bytes_def)
next
  case (Suc left)
  then obtain e p1 s1 es' where
      e: "central_entry r caps eo prefix actual index position = Ok (e, p1)" and
      rest: "read_entries r caps onEntry eo prefix actual left (index + 1) p1 s1 = Ok (es', p, s')" and
      es: "es = e # es'"
    by (auto simp: andthen_Ok_iff)
  have "[index..<index + Suc left] = index # [index + 1..<index + 1 + left]"
    by (simp add: upt_conv_Cons)
  with Suc.IH [OF rest] central_entry_ok [OF e] decoded_named [of e] show ?case
    by (auto simp: es entry_ok_def name_bytes_def add.commute)
qed

lemma mark_duplicates_ok:
  "map Index (mark_duplicates es) = map Index es"
  "length (mark_duplicates es) = length es"
  "name_bytes (mark_duplicates es) = name_bytes es"
  "list_all (entry_ok caps prefix actual) (mark_duplicates es) = list_all (entry_ok caps prefix actual) es"
  "map Name (mark_duplicates es) = map Name es"
  "list_all named (mark_duplicates es) = list_all named es"
  "list_all (\<lambda>e. (NameEncoding e, Name e) = decode_name (Flags e) (NameRaw e)) (mark_duplicates es) =
     list_all (\<lambda>e. (NameEncoding e, Name e) = decode_name (Flags e) (NameRaw e)) es"
  by (simp_all add: mark_duplicates_def name_bytes_def comp_def list_all_iff entry_ok_def named_def)

lemma laid_out_marked: "laid_out r pos (mark_duplicates es) fin = laid_out r pos es fin"
proof -
  have "laid_out r pos (map (\<lambda>e. e\<lparr>Safety := g e\<rparr>) es) fin = laid_out r pos es fin" for g :: "zip_entry \<Rightarrow> zip_safety"
    by (induction es arbitrary: pos) simp_all
  then show ?thesis unfolding mark_duplicates_def .
qed

lemma read_entries_laid_out:
  "read_entries r caps onEntry eo prefix actual left index position s = Ok (es, p, s') \<Longrightarrow> laid_out r position es p"
proof (induction left arbitrary: index position s es)
  case (Suc left)
  then obtain e p1 s1 es' where
      e: "central_entry r caps eo prefix actual index position = Ok (e, p1)" and
      rest: "read_entries r caps onEntry eo prefix actual left (index + 1) p1 s1 = Ok (es', p, s')" and
      es: "es = e # es'"
    by (auto simp: andthen_Ok_iff)
  obtain h where h: "readFull r 46 position = Ok h" and sig: "take 4 h = zipCentralSig"
    using e by (auto simp: central_entry_def andthen_Ok_iff split: if_splits)
  have next_pos: "p1 = position + 46 + uint (le16 h 28) + uint (le16 h 30) + uint (le16 h 32)"
    using e h by (auto simp: central_entry_def Let_def andthen_Ok_iff split: if_splits prod.splits)
  obtain fields where fields: "readFull r (uint (le16 h 28) + uint (le16 h 30) + uint (le16 h 32)) (position + 46) = Ok fields"
    and raw: "NameRaw e = take (unat (le16 h 28)) fields"
    using e h by (auto simp: central_entry_def Let_def andthen_Ok_iff split: if_splits prod.splits)
  have "MadeBy e = le16 h 4 \<and> Needed e = le16 h 6 \<and> Flags e = le16 h 8 \<and> Method e = le16 h 10 \<and> DosTime e = le16 h 12 \<and>
     DosDate e = le16 h 14 \<and> CRC32 e = le32 h 16 \<and> Compressed e = le32 h 20 \<and> Uncompressed e = le32 h 24 \<and>
     Internal e = le16 h 36 \<and> External e = le32 h 38 \<and> LocalOffset e = le32 h 42"
    using e h by (auto simp: central_entry_def central_header_def Let_def andthen_Ok_iff split: if_splits prod.splits)
  then show ?case unfolding es laid_out.simps
    using h sig fields raw next_pos Suc.IH [OF rest] by (intro exI [of _ h] exI [of _ fields]) (simp add: zipCentralSig_def)
qed simp

lemma entry_marked:
  assumes "Safety e = (entry_safety (Name e) (NameRaw e))\<lparr>Duplicate := 1 < length (filter (\<lambda>f. Name f = Name e) es)\<rparr>"
  shows "marked es e"
  unfolding marked_def assms using traversal_iff [of "Name e"] absolute_iff [of "Name e"] by (auto simp: entry_safety_def)

lemma length_filter_name:
  "length (filter (\<lambda>f. Name f = x) es) = length (filter (\<lambda>n. n = x) (map Name es))"
  by (simp add: filter_map comp_def)

lemma mark_duplicates_safety:
  "list_all (\<lambda>e. Safety e = entry_safety (Name e) (NameRaw e)) es \<Longrightarrow>
     list_all (\<lambda>e. Safety e = (entry_safety (Name e) (NameRaw e))
         \<lparr>Duplicate := 1 < length (filter (\<lambda>f. Name f = Name e) (mark_duplicates es))\<rparr>) (mark_duplicates es)"
  unfolding length_filter_name mark_duplicates_ok(5)
  by (simp add: mark_duplicates_def list_all_iff length_filter_name)

lemma ReadZipDirectory_parts:
  assumes "ReadZipDirectory r n caps onEntry s = Ok (d, s')"
  obtains es eocd where
    "findEOCD r n = Ok (EOCDOffset d, eocd)" "EOCD d = eocd"
    "PrefixBytes d = EOCDOffset d - uint (le32 eocd 12) - uint (le32 eocd 16)" "0 \<le> PrefixBytes d"
    "CentralOffset d = uint (le32 eocd 16) + PrefixBytes d" "CentralSize d = uint (le32 eocd 12)"
    "CentralOffset d + CentralSize d = EOCDOffset d" "CentralSize d \<le> MaxCentralDirectory caps"
    "uint (le16 eocd 10) \<le> MaxEntries caps" "uint (le16 eocd 20) \<le> MaxField caps"
    "read_entries r caps onEntry (EOCDOffset d) (PrefixBytes d) (CentralOffset d) (unat (le16 eocd 10)) 0
       (CentralOffset d) s = Ok (es, EOCDOffset d, s')"
    "Entries d = mark_duplicates es"
proof -
  obtain off eocd where f: "findEOCD r n = Ok (off, eocd)"
    using assms by (auto simp: ReadZipDirectory_def andthen_Ok_iff)
  note long = findEOCD_range [OF f]
  let ?size = "uint (le32 eocd 12)" and ?co = "uint (le32 eocd 16)"
  have guards: "\<not> MaxEntries caps < uint (le16 eocd 10)" "\<not> MaxCentralDirectory caps < ?size"
      "\<not> MaxField caps < uint (le16 eocd 20)" "\<not> off - ?size - ?co < 0"
    using assms f by (auto simp: ReadZipDirectory_def andthen_Ok_iff Let_def split: if_splits)
  obtain es where es: "read_entries r caps onEntry off (off - ?size - ?co) (?co + (off - ?size - ?co))
      (unat (le16 eocd 10)) 0 (?co + (off - ?size - ?co)) s = Ok (es, off, s')"
    and d: "d = \<lparr>Entries = mark_duplicates es, PrefixBytes = off - ?size - ?co,
      CentralOffset = ?co + (off - ?size - ?co), CentralSize = ?size, EOCDOffset = off, EOCD = eocd\<rparr>"
    using assms f by (auto simp: ReadZipDirectory_def andthen_Ok_iff Let_def split: if_splits)
  show thesis
    by (rule that [of eocd es]) (use f guards es d long in simp_all)
qed

section \<open>Reading a member\<close>

definition member_inv :: "zip_entry \<Rightarrow> 'f member_reader \<Rightarrow> bytes \<Rightarrow> bool" where
  "member_inv e m b \<longleftrightarrow>
     merr m = None \<and> mread m = int (length b) \<and> msize m = uint (Uncompressed e) \<and> want m = CRC32 e \<and>
     crc m = foldl crc32_byte 0xFFFFFFFF b"

lemma OpenMember_inv: "OpenMember flate_new d e l = Ok m \<Longrightarrow> member_inv e m []"
  by (auto simp: OpenMember_def member_inv_def Let_def split: if_splits)

lemma member_read_more:
  "member_inv e m b \<Longrightarrow> member_read r flate m len = Ok (got, None, m') \<Longrightarrow> member_inv e m' (b @ got)"
  by (auto simp: member_read_def member_inv_def Let_def split: if_splits prod.splits option.splits io_err.splits)

lemma member_read_end:
  "member_inv e m b \<Longrightarrow> member_read r flate m len = Ok (got, Some (ZipIO EOF), m') \<Longrightarrow>
     int (length (b @ got)) = uint (Uncompressed e) \<and> crc32 (b @ got) = CRC32 e"
  by (auto simp: member_read_def member_inv_def finish_def classify_def crc32_def Let_def
      split: if_splits prod.splits option.splits io_err.splits)

lemma read_all_exact_aux:
  "read_all r flate room m b = Some y \<Longrightarrow> \<forall>bs. y = Ok bs \<longrightarrow> member_inv e m b \<longrightarrow>
     int (length bs) = uint (Uncompressed e) \<and> crc32 bs = CRC32 e"
proof (induct r flate room m b y rule: read_all.raw_induct [rotated, consumes 1])
  case (1 again r flate room m b y)
  show ?case
  proof (cases "member_read r flate m (room (length b))")
    case (Ok a)
    obtain got x m' where a: "a = (got, x, m')" by (cases a) auto
    note step = Ok [unfolded a]
    show ?thesis
    proof (cases x)
      case None
      with 1(2) step have "again r flate room m' (b @ got) = Some y" by simp
      from 1(1) [OF this] show ?thesis
        using member_read_more [of e m b r flate "room (length b)" got m'] step None by blast
    next
      case (Some err)
      show ?thesis
      proof (cases "err = ZipIO EOF")
        case True
        with 1(2) step Some have "y = Ok (b @ got)" by simp
        then show ?thesis
          using member_read_end [of e m b r flate "room (length b)" got m'] step Some True by simp
      next
        case False
        with 1(2) step Some show ?thesis by (auto split: zip_err.splits io_err.splits)
      qed
    qed
  qed (use 1(2) in auto)
qed

lemma read_all_exact:
  "read_all r flate room m b = Some (Ok bs) \<Longrightarrow> member_inv e m b \<Longrightarrow>
     int (length bs) = uint (Uncompressed e) \<and> crc32 bs = CRC32 e"
  using read_all_exact_aux by blast

definition section_result :: "u32 \<Rightarrow> int \<Rightarrow> bytes \<Rightarrow> bytes \<Rightarrow> bytes zip" where
  "section_result crc_want left b rest =
     (if int (length rest) < left then zipErr ''truncated payload''
      else if crc32 (b @ rest) \<noteq> crc_want then zipErr ''payload CRC32 mismatch''
      else Ok (b @ rest))"

lemma take_two: "a = n + c \<Longrightarrow> q = n + p \<Longrightarrow> take a (drop p xs) = take n (drop p xs) @ take c (drop q xs)"
  by (simp only: take_add drop_drop)

lemma read_all_section:
  assumes "\<And>n. 0 < room n" "0 \<le> off0" "mread m \<le> msize m"
    "merr m = None" "\<not> deflated m" "mread m = int (length b)" "crc m = foldl crc32_byte 0xFFFFFFFF b"
    "src m = Section (off0 + mread m) (off0 + msize m)"
  shows "read_all (bytes_reader data) flate room m b =
    Some (section_result (want m) (msize m - mread m) b
      (take (nat (msize m - mread m)) (drop (nat (off0 + mread m)) data)))"
  using assms
proof (induction "nat (msize m - mread m)" arbitrary: m b rule: less_induct)
  case less
  let ?left = "msize m - mread m" and ?off = "off0 + mread m"
  show ?case
  proof (cases "?left = 0")
    case True
    then show ?thesis
      using less.prems
      by (simp add: read_all.simps [of _ _ _ m b] member_read_def finish_def section_result_def crc32_def zipErr_def Let_def
          split: prod.split)
  next
    case False
    then have left: "0 < ?left" using less.prems by simp
    define n where "n = min (room (length b)) (nat ?left)"
    define got where "got = take n (drop (nat ?off) data)"
    define m' where "m' = m\<lparr>src := Section (?off + int (length got)) (off0 + msize m),
        crc := foldl crc32_byte (crc m) got, mread := mread m + int (length got)\<rparr>"
    have n: "0 < n" "n \<le> nat ?left" using left less.prems(1) by (simp_all add: n_def)
    have off: "0 \<le> ?off" using less.prems by simp
    have fits: "\<not> n < length got" "\<not> min (int (room (length b))) ?left < 0" using left by (simp_all add: got_def)
    have want_len: "nat (min (int (room (length b))) ?left) = n"
      using left by (cases "int (room (length b)) \<le> ?left") (auto simp: n_def min_def)
    have read: "src_read (bytes_reader data) flate (src m) n =
        (got, if length got < n then Some EOF else None, Section (?off + int (length got)) (off0 + msize m))"
      using less.prems(8) left off n(2) by (simp add: bytes_reader_def Let_def min.absorb1 got_def)
    let ?rest = "take (nat ?left) (drop (nat ?off) data)"
    have step: "member_read (bytes_reader data) flate m (room (length b)) =
        Ok (if length got < n
         then (got, Some (ZipError ''truncated payload''), m'\<lparr>merr := Some (ZipError ''truncated payload'')\<rparr>)
         else (got, None, m'))"
      if "length got < n \<Longrightarrow> mread m' \<noteq> msize m'"
      using False less.prems(4) that left fits by (simp add: member_read_def want_len read Let_def m'_def)
    show ?thesis
    proof (cases "length got < n")
      case True
      then have rest: "length ?rest = length got" using n(2) by (auto simp: got_def min_def split: if_splits)
      have short: "int (length got) < ?left" using True n(2) left by linarith
      then have "mread m' \<noteq> msize m'" by (simp add: m'_def)
      with step True have "member_read (bytes_reader data) flate m (room (length b)) =
          Ok (got, Some (ZipError ''truncated payload''), m'\<lparr>merr := Some (ZipError ''truncated payload'')\<rparr>)"
        by simp
      then have "read_all (bytes_reader data) flate room m b = Some (zipErr ''truncated payload'')"
        by (subst read_all.simps) (simp add: zipErr_def)
      moreover have "section_result (want m) ?left b ?rest = zipErr ''truncated payload''"
        unfolding section_result_def rest using short by simp
      ultimately show ?thesis by simp
    next
      case False
      then have got: "length got = n" by (simp add: got_def)
      have "nat ?left = n + nat (?left - int n)" "nat (?off + int n) = n + nat ?off"
        using left off n(2) by linarith+
      then have rest: "?rest = got @ take (nat (?left - int n)) (drop (nat (?off + int n)) data)"
        unfolding got_def by (rule take_two)
      have m': "mread m' = mread m + int n" "msize m' = msize m" "want m' = want m"
        by (simp_all add: m'_def got)
      have IH: "read_all (bytes_reader data) flate room m' (b @ got) =
        Some (section_result (want m') (msize m' - mread m') (b @ got)
          (take (nat (msize m' - mread m')) (drop (nat (off0 + mread m')) data)))"
        using less.prems got left n
        by (intro less.hyps) (simp_all add: m'_def)
      have "read_all (bytes_reader data) flate room m b = read_all (bytes_reader data) flate room m' (b @ got)"
        using step False by (subst read_all.simps) simp
      also note IH
      also have "section_result (want m') (msize m' - mread m') (b @ got)
          (take (nat (msize m' - mread m')) (drop (nat (off0 + mread m')) data)) = section_result (want m) ?left b ?rest"
        unfolding rest section_result_def m' by (simp add: got algebra_simps)
      finally show ?thesis .
    qed
  qed
qed

text \<open>
  What \<open>io.ReaderAt\<close> and \<open>io.Reader\<close> document: a read returns at most as many bytes as the buffer it is given holds.
\<close>

locale reads_within =
  fixes r :: reader_at and flate :: "'f flate"
  assumes reader_within: "length (fst (r off n)) \<le> n"
    and flate_within: "length (fst (flate st n)) \<le> n"
begin

lemma src_read_within: "src_read r flate sr n = (got, err, sr') \<Longrightarrow> length got \<le> n"
proof (cases sr)
  case (Section off limit)
  moreover assume "src_read r flate sr n = (got, err, sr')"
  moreover have "length (fst (r off (min n (nat (limit - off))))) \<le> n" using reader_within [of off "min n (nat (limit - off))"] by simp
  ultimately show ?thesis by (auto simp: Let_def split: if_splits prod.splits)
next
  case (Flate st)
  moreover assume "src_read r flate sr n = (got, err, sr')"
  ultimately show ?thesis using flate_within [of st n] by (auto simp: Let_def split: prod.splits)
qed

lemma member_read_safe:
  assumes "0 \<le> mread m" "mread m \<le> msize m"
  shows "\<exists>got err m'. member_read r flate m len = Ok (got, err, m') \<and> 0 \<le> mread m' \<and> mread m' \<le> msize m'"
proof (cases "merr m = None \<and> mread m \<noteq> msize m")
  case True
  define owed where "owed = min (int len) (msize m - mread m)"
  obtain got err src' where read: "src_read r flate (src m) (nat owed) = (got, err, src')" by (metis prod.collapse)
  have "0 \<le> owed" "owed \<le> msize m - mread m" using assms by (simp_all add: owed_def)
  moreover have "length got \<le> nat owed" by (rule src_read_within [OF read])
  ultimately show ?thesis
    using assms True read
    by (auto simp: member_read_def Let_def owed_def [symmetric] split: option.split io_err.split)
next
  case False
  then show ?thesis using assms by (auto simp: member_read_def finish_def Let_def split: option.split prod.split)
qed

lemma read_all_no_panic_aux:
  "read_all q decompress room m b = Some y \<Longrightarrow> q = r \<Longrightarrow> decompress = flate \<Longrightarrow> 0 \<le> mread m \<Longrightarrow> mread m \<le> msize m \<Longrightarrow> no_panic y"
proof (induct q decompress room m b y rule: read_all.raw_induct [rotated, consumes 1])
  case (1 again q decompress room m b y)
  obtain got x m' where m': "member_read q decompress m (room (length b)) = Ok (got, x, m')" "0 \<le> mread m'" "mread m' \<le> msize m'"
    using member_read_safe [OF 1(5,6), of "room (length b)"] 1(3,4) by blast
  then show ?case
  proof (cases x)
    case None
    then have "again q decompress room m' (b @ got) = Some y" using 1(2) m' by simp
    then show ?thesis by (rule 1(1)) (use 1(3,4) m' in simp_all)
  qed (use 1(2) m' in \<open>auto split: zip_err.splits io_err.splits\<close>)
qed

lemma ReadMember_no_panic: "ReadMember flate_new flate room d r e maxBytes \<noteq> Some Panic"
proof -
  have "OpenMember flate_new d e l \<noteq> Panic" for l
    by (simp add: OpenMember_def zipErr_def Let_def)
  moreover have "ReadLocalHeader d r e \<noteq> Panic"
    using ReadLocalHeader_no_panic [of d r e] by (simp add: no_panic_def)
  moreover have "read_all r flate room m [] \<noteq> Some Panic" if "OpenMember flate_new d e l = Ok m" for l m
    using read_all_no_panic_aux [of r flate room m "[]" Panic] OpenMember_inv [OF that]
    by (auto simp: no_panic_def member_inv_def)
  ultimately show ?thesis
    by (auto simp: ReadMember_def zipErr_def split: res.splits)
qed

end

section \<open>A concrete archive\<close>

definition no_flate :: "unit flate" where
  "no_flate st n = ([], Some EOF, st)"

interpretation stored_reads: reads_within "bytes_reader data" no_flate
  by unfold_locales (auto simp: bytes_reader_def no_flate_def Let_def)

text \<open>One stored, empty, regular file named \<open>a/b\<close>.\<close>

definition demo_zip :: bytes where
  "demo_zip =
     [80, 75, 3, 4, 20, 0, 0, 0, 0, 0, 0, 0, 33, 0, 0, 0, 0, 0, 0, 0, 0, 0, 0, 0, 0, 0, 3, 0, 0, 0, 97,
     47, 98, 80, 75, 1, 2, 20, 3, 20, 0, 0, 0, 0, 0, 0, 0, 33, 0, 0, 0, 0, 0, 0, 0, 0, 0, 0, 0, 0, 0, 3,
     0, 0, 0, 0, 0, 0, 0, 0, 0, 0, 0, 164, 129, 0, 0, 0, 0, 97, 47, 98, 80, 75, 5, 6, 0, 0, 0, 0, 1, 0,
     1, 0, 49, 0, 0, 0, 33, 0, 0, 0, 0, 0]"

definition demo_caps :: zip_caps where
  "demo_caps = \<lparr>MaxCentralDirectory = 1000, MaxEntries = 10, MaxField = 1000\<rparr>"

definition demo_entry :: zip_entry where
  "demo_entry =
     \<lparr>Index = 0, Name = [97, 47, 98], NameEncoding = ''cp437'', NameRaw = [97, 47, 98], MadeBy = 0x0314, Needed = 20,
      Flags = 0, Method = 0, DosTime = 0, DosDate = 33, CRC32 = 0, Compressed = 0, Uncompressed = 0, Internal = 0,
      External = 0x81A40000, LocalOffset = 0,
      Safety = \<lparr>Absolute = False, Traversal = False, Backslash = False, NUL = False, Duplicate = False\<rparr>\<rparr>"

definition demo_directory :: zip_directory where
  "demo_directory =
     \<lparr>Entries = [demo_entry], PrefixBytes = 0, CentralOffset = 33, CentralSize = 49, EOCDOffset = 82,
      EOCD = drop 82 demo_zip\<rparr>"

lemma demo_read: "ReadZipDirectory (bytes_reader demo_zip) 104 demo_caps no_callback () = Ok (demo_directory, ())"
  by code_simp

section \<open>Properties\<close>

text \<open>
  \<open>findEOCD\<close> finds exactly the last end record of the file: the last place where the signature stands with a
  comment that runs to the end of the file. Neither the fast path for an empty comment nor the 65557-byte window
  changes the answer.
\<close>

theorem findEOCD_finds_last_record:
  "findEOCD (bytes_reader data) (int (length data)) =
     (if length data < 22 then zipErr ''truncated EOCD''
      else case last_eocd data of
             None \<Rightarrow> zipErr ''EOCD not found''
           | Some i \<Rightarrow> Ok (int i, drop i data))"
  by (rule findEOCD_bytes)



text \<open>
  C27. An accepted directory is exactly what the file holds. The central directory ends at the end record, which ends at the
  end of the file; the caps hold; the entries are numbered from 0 and laid out one after the other, header by header, from
  the start of the central directory exactly to the end record, with the fields their headers hold; each entry's local header
  starts before the central directory. A name is its raw bytes read as UTF-8, byte for byte when they are valid, if flag bit
  11 is set, and as code page 437 if not. An entry is marked as traversal exactly if two dots stand between separators or the
  ends of its name, as absolute exactly for a leading separator or a drive, and as duplicate exactly if the name occurs twice.
\<close>

theorem directory_well_formed:
  assumes "ReadZipDirectory r n caps onEntry s = Ok (d, s')"
  shows "0 \<le> PrefixBytes d \<and> PrefixBytes d \<le> CentralOffset d \<and>
    CentralOffset d + CentralSize d = EOCDOffset d \<and> EOCDOffset d + int (length (EOCD d)) = n \<and>
    CentralSize d \<le> MaxCentralDirectory caps \<and> int (length (Entries d)) \<le> MaxEntries caps \<and>
    map Index (Entries d) = [0..<length (Entries d)] \<and>
    laid_out r (CentralOffset d) (Entries d) (EOCDOffset d) \<and>
    list_all (entry_ok caps (PrefixBytes d) (CentralOffset d)) (Entries d) \<and>
    list_all named (Entries d) \<and> list_all (marked (Entries d)) (Entries d)"
  using assms
proof (rule ReadZipDirectory_parts, goal_cases)
  case (1 es eocd)
  from findEOCD_range [OF 1(1)] have "EOCDOffset d + int (length (EOCD d)) = n" by (simp add: 1(2))
  moreover from read_entries_ok [OF 1(11)] have es: "length es = unat (le16 eocd 10)" "map Index es = [0..<length es]"
      "list_all (\<lambda>e. Safety e = entry_safety (Name e) (NameRaw e)) es"
      "list_all (entry_ok caps (PrefixBytes d) (CentralOffset d)) es" "list_all named es"
    by (auto simp: list_all_iff)
  moreover have "laid_out r (CentralOffset d) es (EOCDOffset d)" by (rule read_entries_laid_out [OF 1(11)])
  moreover have "PrefixBytes d \<le> CentralOffset d" by (simp add: 1(5))
  moreover have "int (length es) \<le> MaxEntries caps" using 1(9) es(1) by simp
  moreover have "list_all (marked (mark_duplicates es)) (mark_duplicates es)"
    using mark_duplicates_safety [OF es(3)] by (auto simp: list_all_iff intro: entry_marked)
  ultimately show ?case
    using 1(4,7,8) unfolding 1(12) mark_duplicates_ok laid_out_marked by simp
qed

theorem directory_well_formed_witness:
  "laid_out (bytes_reader demo_zip) 33 [demo_entry] 82 \<and> \<not> goes_up (Name demo_entry)"
  using directory_well_formed [OF demo_read]
  by (simp add: demo_directory_def marked_def demo_entry_def del: laid_out.simps)

text \<open>
  C17. A member that is read is exactly what its entry declares: its length is the declared size, which is within the
  caller's bound, and its CRC-32 is the declared one. This holds for any archive reader and any decompressor,
  and so for no member that differs in one byte.
\<close>

theorem member_read_exact:
  assumes "ReadMember flate_new flate room d r e maxBytes = Some (Ok bs)"
  shows "int (length bs) = uint (Uncompressed e) \<and> int (length bs) \<le> maxBytes \<and> crc32 bs = CRC32 e \<and>
    (bs = xs @ x # ys \<longrightarrow> ReadMember flate_new flate room d r' e maxBytes = Some (Ok (xs @ y # ys)) \<longrightarrow> x = y)"
proof -
  have exact: "int (length bs) = uint (Uncompressed e) \<and> int (length bs) \<le> maxBytes \<and> crc32 bs = CRC32 e"
    if member: "ReadMember flate_new flate room d r e maxBytes = Some (Ok bs)" for r bs
  proof -
    from member obtain l m where m: "OpenMember flate_new d e l = Ok m" "read_all r flate room m [] = Some (Ok bs)"
        "uint (Uncompressed e) \<le> maxBytes"
      by (auto simp: ReadMember_def split: if_splits res.splits)
    show ?thesis using read_all_exact [OF m(2) OpenMember_inv [OF m(1)]] m(3) by simp
  qed
  show ?thesis using exact [OF assms] exact [of r' "xs @ y # ys"] crc32_one_byte [of xs x ys y] by metis
qed

lemma demo_member:
  "ReadMember (\<lambda>_ _. ()) no_flate (\<lambda>_. 512) demo_directory (bytes_reader demo_zip) demo_entry 10 = Some (Ok [])"
  by code_simp

theorem member_read_exact_witness: "crc32 [] = CRC32 demo_entry"
  using member_read_exact [OF demo_member] by blast

text \<open>
  Reading a stored member of a file ends for every buffer growth, and its result depends on nothing but the bytes of
  its range: a truncation error when the file ends first, a checksum error when the CRC-32 differs, else exactly these bytes.
\<close>

theorem stored_member_read:
  assumes "\<And>n. 0 < room n" and "ReadLocalHeader d (bytes_reader data) e = Ok l"
    and "Method e = 0" "Compressed e = Uncompressed e" "uint (Uncompressed e) \<le> maxBytes"
    and "0 \<le> DataOffset l" "DataOffset l + uint (Compressed e) \<le> CentralOffset d"
  shows "ReadMember flate_new flate room d (bytes_reader data) e maxBytes =
    (let payload = take (unat (Uncompressed e)) (drop (nat (DataOffset l)) data)
     in Some (if length payload < unat (Uncompressed e) then zipErr ''truncated payload''
              else if crc32 payload \<noteq> CRC32 e then zipErr ''payload CRC32 mismatch''
              else Ok payload))"
proof -
  let ?m = "\<lparr>src = Section (DataOffset l) (DataOffset l + uint (Compressed e)), crc = 0xFFFFFFFF, want = CRC32 e,
      msize = uint (Uncompressed e), mread = 0, deflated = False, merr = None\<rparr>"
  have "OpenMember flate_new d e l = Ok ?m"
    using assms by (simp add: OpenMember_def)
  moreover have "read_all (bytes_reader data) flate room ?m [] =
      Some (section_result (CRC32 e) (uint (Uncompressed e)) []
        (take (unat (Uncompressed e)) (drop (nat (DataOffset l)) data)))"
    using read_all_section [of room "DataOffset l" ?m "[]" data flate] assms by simp
  moreover have "int k < uint w \<longleftrightarrow> k < unat w" for k and w :: u32
    by (metis of_nat_less_iff uint_nat)
  ultimately show ?thesis
    using assms by (simp add: ReadMember_def section_result_def Let_def)
qed

lemma demo_local:
  "ReadLocalHeader demo_directory (bytes_reader demo_zip) demo_entry =
     Ok \<lparr>LNeeded = 20, LFlags = 0, LMethod = 0, LDosTime = 0, LDosDate = 33, LCRC32 = 0, LCompressed = 0, LUncompressed = 0,
         LNameRaw = [97, 47, 98], DataOffset = 33\<rparr>"
  by code_simp

theorem stored_member_read_witness:
  "ReadMember (\<lambda>_ _. ()) no_flate (\<lambda>_. 1) demo_directory (bytes_reader demo_zip) demo_entry 0 = Some (Ok [])"
proof -
  have "crc32 [] = 0" by (simp add: crc32_def)
  then show ?thesis
    using stored_member_read [OF _ demo_local, of "\<lambda>_. 1" 0 "\<lambda>_ _. ()" no_flate]
    by (simp add: demo_entry_def demo_directory_def)
qed

end
