(* ===== verification/Zip_Tables.thy ===== *)
theory Zip_Tables
  imports Go_Utf8
begin

text \<open>
  The Unicode tables of \<open>internal/formats/zipdata_gen.go\<close>, row by row: the one-level canonical decompositions (the second
  component is 0 for a singleton), the compositions and the ranges of combining classes.
\<close>

definition zipCanonDecomp_1 :: "(rune \<times> rune \<times> rune) list" where
  "zipCanonDecomp_1 = [
     (0xc0, 0x41, 0x300), (0xc1, 0x41, 0x301), (0xc2, 0x41, 0x302), (0xc3, 0x41, 0x303),
     (0xc4, 0x41, 0x308), (0xc5, 0x41, 0x30a), (0xc7, 0x43, 0x327), (0xc8, 0x45, 0x300),
     (0xc9, 0x45, 0x301), (0xca, 0x45, 0x302), (0xcb, 0x45, 0x308), (0xcc, 0x49, 0x300),
     (0xcd, 0x49, 0x301), (0xce, 0x49, 0x302), (0xcf, 0x49, 0x308), (0xd1, 0x4e, 0x303),
     (0xd2, 0x4f, 0x300), (0xd3, 0x4f, 0x301), (0xd4, 0x4f, 0x302), (0xd5, 0x4f, 0x303),
     (0xd6, 0x4f, 0x308), (0xd9, 0x55, 0x300), (0xda, 0x55, 0x301), (0xdb, 0x55, 0x302),
     (0xdc, 0x55, 0x308), (0xdd, 0x59, 0x301), (0xe0, 0x61, 0x300), (0xe1, 0x61, 0x301),
     (0xe2, 0x61, 0x302), (0xe3, 0x61, 0x303), (0xe4, 0x61, 0x308), (0xe5, 0x61, 0x30a),
     (0xe7, 0x63, 0x327), (0xe8, 0x65, 0x300), (0xe9, 0x65, 0x301), (0xea, 0x65, 0x302),
     (0xeb, 0x65, 0x308), (0xec, 0x69, 0x300), (0xed, 0x69, 0x301), (0xee, 0x69, 0x302),
     (0xef, 0x69, 0x308), (0xf1, 0x6e, 0x303), (0xf2, 0x6f, 0x300), (0xf3, 0x6f, 0x301),
     (0xf4, 0x6f, 0x302), (0xf5, 0x6f, 0x303), (0xf6, 0x6f, 0x308), (0xf9, 0x75, 0x300),
     (0xfa, 0x75, 0x301), (0xfb, 0x75, 0x302), (0xfc, 0x75, 0x308), (0xfd, 0x79, 0x301),
     (0xff, 0x79, 0x308), (0x100, 0x41, 0x304), (0x101, 0x61, 0x304), (0x102, 0x41, 0x306),
     (0x103, 0x61, 0x306), (0x104, 0x41, 0x328), (0x105, 0x61, 0x328), (0x106, 0x43, 0x301),
     (0x107, 0x63, 0x301), (0x108, 0x43, 0x302), (0x109, 0x63, 0x302), (0x10a, 0x43, 0x307),
     (0x10b, 0x63, 0x307), (0x10c, 0x43, 0x30c), (0x10d, 0x63, 0x30c), (0x10e, 0x44, 0x30c),
     (0x10f, 0x64, 0x30c), (0x112, 0x45, 0x304), (0x113, 0x65, 0x304), (0x114, 0x45, 0x306),
     (0x115, 0x65, 0x306), (0x116, 0x45, 0x307), (0x117, 0x65, 0x307), (0x118, 0x45, 0x328),
     (0x119, 0x65, 0x328), (0x11a, 0x45, 0x30c), (0x11b, 0x65, 0x30c), (0x11c, 0x47, 0x302),
     (0x11d, 0x67, 0x302), (0x11e, 0x47, 0x306), (0x11f, 0x67, 0x306), (0x120, 0x47, 0x307),
     (0x121, 0x67, 0x307), (0x122, 0x47, 0x327), (0x123, 0x67, 0x327), (0x124, 0x48, 0x302),
     (0x125, 0x68, 0x302), (0x128, 0x49, 0x303), (0x129, 0x69, 0x303), (0x12a, 0x49, 0x304),
     (0x12b, 0x69, 0x304), (0x12c, 0x49, 0x306), (0x12d, 0x69, 0x306), (0x12e, 0x49, 0x328),
     (0x12f, 0x69, 0x328), (0x130, 0x49, 0x307), (0x134, 0x4a, 0x302), (0x135, 0x6a, 0x302),
     (0x136, 0x4b, 0x327), (0x137, 0x6b, 0x327), (0x139, 0x4c, 0x301), (0x13a, 0x6c, 0x301),
     (0x13b, 0x4c, 0x327), (0x13c, 0x6c, 0x327), (0x13d, 0x4c, 0x30c), (0x13e, 0x6c, 0x30c),
     (0x143, 0x4e, 0x301), (0x144, 0x6e, 0x301), (0x145, 0x4e, 0x327), (0x146, 0x6e, 0x327),
     (0x147, 0x4e, 0x30c), (0x148, 0x6e, 0x30c), (0x14c, 0x4f, 0x304), (0x14d, 0x6f, 0x304),
     (0x14e, 0x4f, 0x306), (0x14f, 0x6f, 0x306), (0x150, 0x4f, 0x30b), (0x151, 0x6f, 0x30b),
     (0x154, 0x52, 0x301), (0x155, 0x72, 0x301), (0x156, 0x52, 0x327), (0x157, 0x72, 0x327),
     (0x158, 0x52, 0x30c), (0x159, 0x72, 0x30c), (0x15a, 0x53, 0x301), (0x15b, 0x73, 0x301),
     (0x15c, 0x53, 0x302), (0x15d, 0x73, 0x302), (0x15e, 0x53, 0x327), (0x15f, 0x73, 0x327),
     (0x160, 0x53, 0x30c), (0x161, 0x73, 0x30c), (0x162, 0x54, 0x327), (0x163, 0x74, 0x327),
     (0x164, 0x54, 0x30c), (0x165, 0x74, 0x30c), (0x168, 0x55, 0x303), (0x169, 0x75, 0x303),
     (0x16a, 0x55, 0x304), (0x16b, 0x75, 0x304), (0x16c, 0x55, 0x306), (0x16d, 0x75, 0x306),
     (0x16e, 0x55, 0x30a), (0x16f, 0x75, 0x30a), (0x170, 0x55, 0x30b), (0x171, 0x75, 0x30b),
     (0x172, 0x55, 0x328), (0x173, 0x75, 0x328), (0x174, 0x57, 0x302), (0x175, 0x77, 0x302),
     (0x176, 0x59, 0x302), (0x177, 0x79, 0x302), (0x178, 0x59, 0x308), (0x179, 0x5a, 0x301),
     (0x17a, 0x7a, 0x301), (0x17b, 0x5a, 0x307), (0x17c, 0x7a, 0x307), (0x17d, 0x5a, 0x30c),
     (0x17e, 0x7a, 0x30c), (0x1a0, 0x4f, 0x31b), (0x1a1, 0x6f, 0x31b), (0x1af, 0x55, 0x31b),
     (0x1b0, 0x75, 0x31b), (0x1cd, 0x41, 0x30c), (0x1ce, 0x61, 0x30c), (0x1cf, 0x49, 0x30c),
     (0x1d0, 0x69, 0x30c), (0x1d1, 0x4f, 0x30c), (0x1d2, 0x6f, 0x30c), (0x1d3, 0x55, 0x30c),
     (0x1d4, 0x75, 0x30c), (0x1d5, 0xdc, 0x304), (0x1d6, 0xfc, 0x304), (0x1d7, 0xdc, 0x301),
     (0x1d8, 0xfc, 0x301), (0x1d9, 0xdc, 0x30c), (0x1da, 0xfc, 0x30c), (0x1db, 0xdc, 0x300),
     (0x1dc, 0xfc, 0x300), (0x1de, 0xc4, 0x304), (0x1df, 0xe4, 0x304), (0x1e0, 0x226, 0x304),
     (0x1e1, 0x227, 0x304), (0x1e2, 0xc6, 0x304), (0x1e3, 0xe6, 0x304), (0x1e6, 0x47, 0x30c),
     (0x1e7, 0x67, 0x30c), (0x1e8, 0x4b, 0x30c), (0x1e9, 0x6b, 0x30c), (0x1ea, 0x4f, 0x328),
     (0x1eb, 0x6f, 0x328), (0x1ec, 0x1ea, 0x304), (0x1ed, 0x1eb, 0x304), (0x1ee, 0x1b7, 0x30c),
     (0x1ef, 0x292, 0x30c), (0x1f0, 0x6a, 0x30c), (0x1f4, 0x47, 0x301), (0x1f5, 0x67, 0x301),
     (0x1f8, 0x4e, 0x300), (0x1f9, 0x6e, 0x300), (0x1fa, 0xc5, 0x301), (0x1fb, 0xe5, 0x301),
     (0x1fc, 0xc6, 0x301), (0x1fd, 0xe6, 0x301), (0x1fe, 0xd8, 0x301), (0x1ff, 0xf8, 0x301),
     (0x200, 0x41, 0x30f), (0x201, 0x61, 0x30f), (0x202, 0x41, 0x311), (0x203, 0x61, 0x311),
     (0x204, 0x45, 0x30f), (0x205, 0x65, 0x30f), (0x206, 0x45, 0x311), (0x207, 0x65, 0x311),
     (0x208, 0x49, 0x30f), (0x209, 0x69, 0x30f), (0x20a, 0x49, 0x311), (0x20b, 0x69, 0x311),
     (0x20c, 0x4f, 0x30f), (0x20d, 0x6f, 0x30f), (0x20e, 0x4f, 0x311), (0x20f, 0x6f, 0x311),
     (0x210, 0x52, 0x30f), (0x211, 0x72, 0x30f), (0x212, 0x52, 0x311), (0x213, 0x72, 0x311),
     (0x214, 0x55, 0x30f), (0x215, 0x75, 0x30f), (0x216, 0x55, 0x311), (0x217, 0x75, 0x311),
     (0x218, 0x53, 0x326), (0x219, 0x73, 0x326), (0x21a, 0x54, 0x326), (0x21b, 0x74, 0x326),
     (0x21e, 0x48, 0x30c), (0x21f, 0x68, 0x30c), (0x226, 0x41, 0x307), (0x227, 0x61, 0x307),
     (0x228, 0x45, 0x327), (0x229, 0x65, 0x327), (0x22a, 0xd6, 0x304), (0x22b, 0xf6, 0x304),
     (0x22c, 0xd5, 0x304), (0x22d, 0xf5, 0x304), (0x22e, 0x4f, 0x307), (0x22f, 0x6f, 0x307),
     (0x230, 0x22e, 0x304), (0x231, 0x22f, 0x304), (0x232, 0x59, 0x304), (0x233, 0x79, 0x304),
     (0x340, 0x300, 0x0), (0x341, 0x301, 0x0), (0x343, 0x313, 0x0), (0x344, 0x308, 0x301),
     (0x374, 0x2b9, 0x0), (0x37e, 0x3b, 0x0), (0x385, 0xa8, 0x301), (0x386, 0x391, 0x301),
     (0x387, 0xb7, 0x0), (0x388, 0x395, 0x301), (0x389, 0x397, 0x301), (0x38a, 0x399, 0x301),
     (0x38c, 0x39f, 0x301), (0x38e, 0x3a5, 0x301), (0x38f, 0x3a9, 0x301), (0x390, 0x3ca, 0x301),
     (0x3aa, 0x399, 0x308), (0x3ab, 0x3a5, 0x308), (0x3ac, 0x3b1, 0x301), (0x3ad, 0x3b5, 0x301),
     (0x3ae, 0x3b7, 0x301), (0x3af, 0x3b9, 0x301), (0x3b0, 0x3cb, 0x301), (0x3ca, 0x3b9, 0x308),
     (0x3cb, 0x3c5, 0x308), (0x3cc, 0x3bf, 0x301), (0x3cd, 0x3c5, 0x301), (0x3ce, 0x3c9, 0x301),
     (0x3d3, 0x3d2, 0x301), (0x3d4, 0x3d2, 0x308), (0x400, 0x415, 0x300), (0x401, 0x415, 0x308),
     (0x403, 0x413, 0x301), (0x407, 0x406, 0x308), (0x40c, 0x41a, 0x301), (0x40d, 0x418, 0x300),
     (0x40e, 0x423, 0x306), (0x419, 0x418, 0x306), (0x439, 0x438, 0x306), (0x450, 0x435, 0x300),
     (0x451, 0x435, 0x308), (0x453, 0x433, 0x301), (0x457, 0x456, 0x308), (0x45c, 0x43a, 0x301),
     (0x45d, 0x438, 0x300), (0x45e, 0x443, 0x306), (0x476, 0x474, 0x30f), (0x477, 0x475, 0x30f),
     (0x4c1, 0x416, 0x306), (0x4c2, 0x436, 0x306), (0x4d0, 0x410, 0x306), (0x4d1, 0x430, 0x306),
     (0x4d2, 0x410, 0x308), (0x4d3, 0x430, 0x308), (0x4d6, 0x415, 0x306), (0x4d7, 0x435, 0x306),
     (0x4da, 0x4d8, 0x308), (0x4db, 0x4d9, 0x308), (0x4dc, 0x416, 0x308), (0x4dd, 0x436, 0x308),
     (0x4de, 0x417, 0x308), (0x4df, 0x437, 0x308), (0x4e2, 0x418, 0x304), (0x4e3, 0x438, 0x304),
     (0x4e4, 0x418, 0x308), (0x4e5, 0x438, 0x308), (0x4e6, 0x41e, 0x308), (0x4e7, 0x43e, 0x308),
     (0x4ea, 0x4e8, 0x308), (0x4eb, 0x4e9, 0x308), (0x4ec, 0x42d, 0x308), (0x4ed, 0x44d, 0x308),
     (0x4ee, 0x423, 0x304), (0x4ef, 0x443, 0x304), (0x4f0, 0x423, 0x308), (0x4f1, 0x443, 0x308),
     (0x4f2, 0x423, 0x30b), (0x4f3, 0x443, 0x30b), (0x4f4, 0x427, 0x308), (0x4f5, 0x447, 0x308),
     (0x4f8, 0x42b, 0x308), (0x4f9, 0x44b, 0x308), (0x622, 0x627, 0x653), (0x623, 0x627, 0x654),
     (0x624, 0x648, 0x654), (0x625, 0x627, 0x655), (0x626, 0x64a, 0x654), (0x6c0, 0x6d5, 0x654),
     (0x6c2, 0x6c1, 0x654), (0x6d3, 0x6d2, 0x654), (0x929, 0x928, 0x93c), (0x931, 0x930, 0x93c),
     (0x934, 0x933, 0x93c), (0x958, 0x915, 0x93c), (0x959, 0x916, 0x93c), (0x95a, 0x917, 0x93c),
     (0x95b, 0x91c, 0x93c), (0x95c, 0x921, 0x93c), (0x95d, 0x922, 0x93c), (0x95e, 0x92b, 0x93c),
     (0x95f, 0x92f, 0x93c), (0x9cb, 0x9c7, 0x9be), (0x9cc, 0x9c7, 0x9d7), (0x9dc, 0x9a1, 0x9bc),
     (0x9dd, 0x9a2, 0x9bc), (0x9df, 0x9af, 0x9bc), (0xa33, 0xa32, 0xa3c), (0xa36, 0xa38, 0xa3c),
     (0xa59, 0xa16, 0xa3c), (0xa5a, 0xa17, 0xa3c), (0xa5b, 0xa1c, 0xa3c), (0xa5e, 0xa2b, 0xa3c),
     (0xb48, 0xb47, 0xb56), (0xb4b, 0xb47, 0xb3e), (0xb4c, 0xb47, 0xb57), (0xb5c, 0xb21, 0xb3c),
     (0xb5d, 0xb22, 0xb3c), (0xb94, 0xb92, 0xbd7), (0xbca, 0xbc6, 0xbbe), (0xbcb, 0xbc7, 0xbbe),
     (0xbcc, 0xbc6, 0xbd7), (0xc48, 0xc46, 0xc56), (0xcc0, 0xcbf, 0xcd5), (0xcc7, 0xcc6, 0xcd5),
     (0xcc8, 0xcc6, 0xcd6), (0xcca, 0xcc6, 0xcc2), (0xccb, 0xcca, 0xcd5), (0xd4a, 0xd46, 0xd3e),
     (0xd4b, 0xd47, 0xd3e), (0xd4c, 0xd46, 0xd57), (0xdda, 0xdd9, 0xdca), (0xddc, 0xdd9, 0xdcf),
     (0xddd, 0xddc, 0xdca), (0xdde, 0xdd9, 0xddf), (0xf43, 0xf42, 0xfb7), (0xf4d, 0xf4c, 0xfb7),
     (0xf52, 0xf51, 0xfb7), (0xf57, 0xf56, 0xfb7), (0xf5c, 0xf5b, 0xfb7), (0xf69, 0xf40, 0xfb5),
     (0xf73, 0xf71, 0xf72), (0xf75, 0xf71, 0xf74), (0xf76, 0xfb2, 0xf80), (0xf78, 0xfb3, 0xf80),
     (0xf81, 0xf71, 0xf80), (0xf93, 0xf92, 0xfb7), (0xf9d, 0xf9c, 0xfb7), (0xfa2, 0xfa1, 0xfb7),
     (0xfa7, 0xfa6, 0xfb7), (0xfac, 0xfab, 0xfb7), (0xfb9, 0xf90, 0xfb5), (0x1026, 0x1025, 0x102e),
     (0x1b06, 0x1b05, 0x1b35), (0x1b08, 0x1b07, 0x1b35), (0x1b0a, 0x1b09, 0x1b35), (0x1b0c, 0x1b0b, 0x1b35),
     (0x1b0e, 0x1b0d, 0x1b35), (0x1b12, 0x1b11, 0x1b35), (0x1b3b, 0x1b3a, 0x1b35), (0x1b3d, 0x1b3c, 0x1b35),
     (0x1b40, 0x1b3e, 0x1b35), (0x1b41, 0x1b3f, 0x1b35), (0x1b43, 0x1b42, 0x1b35), (0x1e00, 0x41, 0x325),
     (0x1e01, 0x61, 0x325), (0x1e02, 0x42, 0x307), (0x1e03, 0x62, 0x307), (0x1e04, 0x42, 0x323),
     (0x1e05, 0x62, 0x323), (0x1e06, 0x42, 0x331), (0x1e07, 0x62, 0x331), (0x1e08, 0xc7, 0x301),
     (0x1e09, 0xe7, 0x301), (0x1e0a, 0x44, 0x307), (0x1e0b, 0x64, 0x307), (0x1e0c, 0x44, 0x323),
     (0x1e0d, 0x64, 0x323), (0x1e0e, 0x44, 0x331), (0x1e0f, 0x64, 0x331), (0x1e10, 0x44, 0x327),
     (0x1e11, 0x64, 0x327), (0x1e12, 0x44, 0x32d), (0x1e13, 0x64, 0x32d), (0x1e14, 0x112, 0x300),
     (0x1e15, 0x113, 0x300), (0x1e16, 0x112, 0x301), (0x1e17, 0x113, 0x301), (0x1e18, 0x45, 0x32d),
     (0x1e19, 0x65, 0x32d), (0x1e1a, 0x45, 0x330), (0x1e1b, 0x65, 0x330), (0x1e1c, 0x228, 0x306),
     (0x1e1d, 0x229, 0x306), (0x1e1e, 0x46, 0x307), (0x1e1f, 0x66, 0x307), (0x1e20, 0x47, 0x304),
     (0x1e21, 0x67, 0x304), (0x1e22, 0x48, 0x307), (0x1e23, 0x68, 0x307), (0x1e24, 0x48, 0x323),
     (0x1e25, 0x68, 0x323), (0x1e26, 0x48, 0x308), (0x1e27, 0x68, 0x308), (0x1e28, 0x48, 0x327),
     (0x1e29, 0x68, 0x327), (0x1e2a, 0x48, 0x32e), (0x1e2b, 0x68, 0x32e), (0x1e2c, 0x49, 0x330),
     (0x1e2d, 0x69, 0x330), (0x1e2e, 0xcf, 0x301), (0x1e2f, 0xef, 0x301), (0x1e30, 0x4b, 0x301),
     (0x1e31, 0x6b, 0x301), (0x1e32, 0x4b, 0x323), (0x1e33, 0x6b, 0x323), (0x1e34, 0x4b, 0x331),
     (0x1e35, 0x6b, 0x331), (0x1e36, 0x4c, 0x323), (0x1e37, 0x6c, 0x323), (0x1e38, 0x1e36, 0x304),
     (0x1e39, 0x1e37, 0x304), (0x1e3a, 0x4c, 0x331), (0x1e3b, 0x6c, 0x331), (0x1e3c, 0x4c, 0x32d),
     (0x1e3d, 0x6c, 0x32d), (0x1e3e, 0x4d, 0x301), (0x1e3f, 0x6d, 0x301), (0x1e40, 0x4d, 0x307),
     (0x1e41, 0x6d, 0x307), (0x1e42, 0x4d, 0x323), (0x1e43, 0x6d, 0x323), (0x1e44, 0x4e, 0x307),
     (0x1e45, 0x6e, 0x307), (0x1e46, 0x4e, 0x323), (0x1e47, 0x6e, 0x323), (0x1e48, 0x4e, 0x331),
     (0x1e49, 0x6e, 0x331), (0x1e4a, 0x4e, 0x32d), (0x1e4b, 0x6e, 0x32d), (0x1e4c, 0xd5, 0x301),
     (0x1e4d, 0xf5, 0x301), (0x1e4e, 0xd5, 0x308), (0x1e4f, 0xf5, 0x308), (0x1e50, 0x14c, 0x300),
     (0x1e51, 0x14d, 0x300), (0x1e52, 0x14c, 0x301), (0x1e53, 0x14d, 0x301), (0x1e54, 0x50, 0x301),
     (0x1e55, 0x70, 0x301), (0x1e56, 0x50, 0x307), (0x1e57, 0x70, 0x307), (0x1e58, 0x52, 0x307),
     (0x1e59, 0x72, 0x307), (0x1e5a, 0x52, 0x323), (0x1e5b, 0x72, 0x323), (0x1e5c, 0x1e5a, 0x304),
     (0x1e5d, 0x1e5b, 0x304), (0x1e5e, 0x52, 0x331), (0x1e5f, 0x72, 0x331), (0x1e60, 0x53, 0x307),
     (0x1e61, 0x73, 0x307), (0x1e62, 0x53, 0x323), (0x1e63, 0x73, 0x323), (0x1e64, 0x15a, 0x307),
     (0x1e65, 0x15b, 0x307), (0x1e66, 0x160, 0x307), (0x1e67, 0x161, 0x307), (0x1e68, 0x1e62, 0x307),
     (0x1e69, 0x1e63, 0x307), (0x1e6a, 0x54, 0x307), (0x1e6b, 0x74, 0x307), (0x1e6c, 0x54, 0x323),
     (0x1e6d, 0x74, 0x323), (0x1e6e, 0x54, 0x331), (0x1e6f, 0x74, 0x331), (0x1e70, 0x54, 0x32d),
     (0x1e71, 0x74, 0x32d), (0x1e72, 0x55, 0x324), (0x1e73, 0x75, 0x324), (0x1e74, 0x55, 0x330),
     (0x1e75, 0x75, 0x330), (0x1e76, 0x55, 0x32d), (0x1e77, 0x75, 0x32d), (0x1e78, 0x168, 0x301),
     (0x1e79, 0x169, 0x301), (0x1e7a, 0x16a, 0x308), (0x1e7b, 0x16b, 0x308), (0x1e7c, 0x56, 0x303),
     (0x1e7d, 0x76, 0x303), (0x1e7e, 0x56, 0x323), (0x1e7f, 0x76, 0x323), (0x1e80, 0x57, 0x300),
     (0x1e81, 0x77, 0x300), (0x1e82, 0x57, 0x301), (0x1e83, 0x77, 0x301), (0x1e84, 0x57, 0x308),
     (0x1e85, 0x77, 0x308), (0x1e86, 0x57, 0x307), (0x1e87, 0x77, 0x307), (0x1e88, 0x57, 0x323),
     (0x1e89, 0x77, 0x323), (0x1e8a, 0x58, 0x307), (0x1e8b, 0x78, 0x307), (0x1e8c, 0x58, 0x308),
     (0x1e8d, 0x78, 0x308), (0x1e8e, 0x59, 0x307), (0x1e8f, 0x79, 0x307), (0x1e90, 0x5a, 0x302)]"

definition zipCanonDecomp_2 :: "(rune \<times> rune \<times> rune) list" where
  "zipCanonDecomp_2 = [
     (0x1e91, 0x7a, 0x302), (0x1e92, 0x5a, 0x323), (0x1e93, 0x7a, 0x323), (0x1e94, 0x5a, 0x331),
     (0x1e95, 0x7a, 0x331), (0x1e96, 0x68, 0x331), (0x1e97, 0x74, 0x308), (0x1e98, 0x77, 0x30a),
     (0x1e99, 0x79, 0x30a), (0x1e9b, 0x17f, 0x307), (0x1ea0, 0x41, 0x323), (0x1ea1, 0x61, 0x323),
     (0x1ea2, 0x41, 0x309), (0x1ea3, 0x61, 0x309), (0x1ea4, 0xc2, 0x301), (0x1ea5, 0xe2, 0x301),
     (0x1ea6, 0xc2, 0x300), (0x1ea7, 0xe2, 0x300), (0x1ea8, 0xc2, 0x309), (0x1ea9, 0xe2, 0x309),
     (0x1eaa, 0xc2, 0x303), (0x1eab, 0xe2, 0x303), (0x1eac, 0x1ea0, 0x302), (0x1ead, 0x1ea1, 0x302),
     (0x1eae, 0x102, 0x301), (0x1eaf, 0x103, 0x301), (0x1eb0, 0x102, 0x300), (0x1eb1, 0x103, 0x300),
     (0x1eb2, 0x102, 0x309), (0x1eb3, 0x103, 0x309), (0x1eb4, 0x102, 0x303), (0x1eb5, 0x103, 0x303),
     (0x1eb6, 0x1ea0, 0x306), (0x1eb7, 0x1ea1, 0x306), (0x1eb8, 0x45, 0x323), (0x1eb9, 0x65, 0x323),
     (0x1eba, 0x45, 0x309), (0x1ebb, 0x65, 0x309), (0x1ebc, 0x45, 0x303), (0x1ebd, 0x65, 0x303),
     (0x1ebe, 0xca, 0x301), (0x1ebf, 0xea, 0x301), (0x1ec0, 0xca, 0x300), (0x1ec1, 0xea, 0x300),
     (0x1ec2, 0xca, 0x309), (0x1ec3, 0xea, 0x309), (0x1ec4, 0xca, 0x303), (0x1ec5, 0xea, 0x303),
     (0x1ec6, 0x1eb8, 0x302), (0x1ec7, 0x1eb9, 0x302), (0x1ec8, 0x49, 0x309), (0x1ec9, 0x69, 0x309),
     (0x1eca, 0x49, 0x323), (0x1ecb, 0x69, 0x323), (0x1ecc, 0x4f, 0x323), (0x1ecd, 0x6f, 0x323),
     (0x1ece, 0x4f, 0x309), (0x1ecf, 0x6f, 0x309), (0x1ed0, 0xd4, 0x301), (0x1ed1, 0xf4, 0x301),
     (0x1ed2, 0xd4, 0x300), (0x1ed3, 0xf4, 0x300), (0x1ed4, 0xd4, 0x309), (0x1ed5, 0xf4, 0x309),
     (0x1ed6, 0xd4, 0x303), (0x1ed7, 0xf4, 0x303), (0x1ed8, 0x1ecc, 0x302), (0x1ed9, 0x1ecd, 0x302),
     (0x1eda, 0x1a0, 0x301), (0x1edb, 0x1a1, 0x301), (0x1edc, 0x1a0, 0x300), (0x1edd, 0x1a1, 0x300),
     (0x1ede, 0x1a0, 0x309), (0x1edf, 0x1a1, 0x309), (0x1ee0, 0x1a0, 0x303), (0x1ee1, 0x1a1, 0x303),
     (0x1ee2, 0x1a0, 0x323), (0x1ee3, 0x1a1, 0x323), (0x1ee4, 0x55, 0x323), (0x1ee5, 0x75, 0x323),
     (0x1ee6, 0x55, 0x309), (0x1ee7, 0x75, 0x309), (0x1ee8, 0x1af, 0x301), (0x1ee9, 0x1b0, 0x301),
     (0x1eea, 0x1af, 0x300), (0x1eeb, 0x1b0, 0x300), (0x1eec, 0x1af, 0x309), (0x1eed, 0x1b0, 0x309),
     (0x1eee, 0x1af, 0x303), (0x1eef, 0x1b0, 0x303), (0x1ef0, 0x1af, 0x323), (0x1ef1, 0x1b0, 0x323),
     (0x1ef2, 0x59, 0x300), (0x1ef3, 0x79, 0x300), (0x1ef4, 0x59, 0x323), (0x1ef5, 0x79, 0x323),
     (0x1ef6, 0x59, 0x309), (0x1ef7, 0x79, 0x309), (0x1ef8, 0x59, 0x303), (0x1ef9, 0x79, 0x303),
     (0x1f00, 0x3b1, 0x313), (0x1f01, 0x3b1, 0x314), (0x1f02, 0x1f00, 0x300), (0x1f03, 0x1f01, 0x300),
     (0x1f04, 0x1f00, 0x301), (0x1f05, 0x1f01, 0x301), (0x1f06, 0x1f00, 0x342), (0x1f07, 0x1f01, 0x342),
     (0x1f08, 0x391, 0x313), (0x1f09, 0x391, 0x314), (0x1f0a, 0x1f08, 0x300), (0x1f0b, 0x1f09, 0x300),
     (0x1f0c, 0x1f08, 0x301), (0x1f0d, 0x1f09, 0x301), (0x1f0e, 0x1f08, 0x342), (0x1f0f, 0x1f09, 0x342),
     (0x1f10, 0x3b5, 0x313), (0x1f11, 0x3b5, 0x314), (0x1f12, 0x1f10, 0x300), (0x1f13, 0x1f11, 0x300),
     (0x1f14, 0x1f10, 0x301), (0x1f15, 0x1f11, 0x301), (0x1f18, 0x395, 0x313), (0x1f19, 0x395, 0x314),
     (0x1f1a, 0x1f18, 0x300), (0x1f1b, 0x1f19, 0x300), (0x1f1c, 0x1f18, 0x301), (0x1f1d, 0x1f19, 0x301),
     (0x1f20, 0x3b7, 0x313), (0x1f21, 0x3b7, 0x314), (0x1f22, 0x1f20, 0x300), (0x1f23, 0x1f21, 0x300),
     (0x1f24, 0x1f20, 0x301), (0x1f25, 0x1f21, 0x301), (0x1f26, 0x1f20, 0x342), (0x1f27, 0x1f21, 0x342),
     (0x1f28, 0x397, 0x313), (0x1f29, 0x397, 0x314), (0x1f2a, 0x1f28, 0x300), (0x1f2b, 0x1f29, 0x300),
     (0x1f2c, 0x1f28, 0x301), (0x1f2d, 0x1f29, 0x301), (0x1f2e, 0x1f28, 0x342), (0x1f2f, 0x1f29, 0x342),
     (0x1f30, 0x3b9, 0x313), (0x1f31, 0x3b9, 0x314), (0x1f32, 0x1f30, 0x300), (0x1f33, 0x1f31, 0x300),
     (0x1f34, 0x1f30, 0x301), (0x1f35, 0x1f31, 0x301), (0x1f36, 0x1f30, 0x342), (0x1f37, 0x1f31, 0x342),
     (0x1f38, 0x399, 0x313), (0x1f39, 0x399, 0x314), (0x1f3a, 0x1f38, 0x300), (0x1f3b, 0x1f39, 0x300),
     (0x1f3c, 0x1f38, 0x301), (0x1f3d, 0x1f39, 0x301), (0x1f3e, 0x1f38, 0x342), (0x1f3f, 0x1f39, 0x342),
     (0x1f40, 0x3bf, 0x313), (0x1f41, 0x3bf, 0x314), (0x1f42, 0x1f40, 0x300), (0x1f43, 0x1f41, 0x300),
     (0x1f44, 0x1f40, 0x301), (0x1f45, 0x1f41, 0x301), (0x1f48, 0x39f, 0x313), (0x1f49, 0x39f, 0x314),
     (0x1f4a, 0x1f48, 0x300), (0x1f4b, 0x1f49, 0x300), (0x1f4c, 0x1f48, 0x301), (0x1f4d, 0x1f49, 0x301),
     (0x1f50, 0x3c5, 0x313), (0x1f51, 0x3c5, 0x314), (0x1f52, 0x1f50, 0x300), (0x1f53, 0x1f51, 0x300),
     (0x1f54, 0x1f50, 0x301), (0x1f55, 0x1f51, 0x301), (0x1f56, 0x1f50, 0x342), (0x1f57, 0x1f51, 0x342),
     (0x1f59, 0x3a5, 0x314), (0x1f5b, 0x1f59, 0x300), (0x1f5d, 0x1f59, 0x301), (0x1f5f, 0x1f59, 0x342),
     (0x1f60, 0x3c9, 0x313), (0x1f61, 0x3c9, 0x314), (0x1f62, 0x1f60, 0x300), (0x1f63, 0x1f61, 0x300),
     (0x1f64, 0x1f60, 0x301), (0x1f65, 0x1f61, 0x301), (0x1f66, 0x1f60, 0x342), (0x1f67, 0x1f61, 0x342),
     (0x1f68, 0x3a9, 0x313), (0x1f69, 0x3a9, 0x314), (0x1f6a, 0x1f68, 0x300), (0x1f6b, 0x1f69, 0x300),
     (0x1f6c, 0x1f68, 0x301), (0x1f6d, 0x1f69, 0x301), (0x1f6e, 0x1f68, 0x342), (0x1f6f, 0x1f69, 0x342),
     (0x1f70, 0x3b1, 0x300), (0x1f71, 0x3ac, 0x0), (0x1f72, 0x3b5, 0x300), (0x1f73, 0x3ad, 0x0),
     (0x1f74, 0x3b7, 0x300), (0x1f75, 0x3ae, 0x0), (0x1f76, 0x3b9, 0x300), (0x1f77, 0x3af, 0x0),
     (0x1f78, 0x3bf, 0x300), (0x1f79, 0x3cc, 0x0), (0x1f7a, 0x3c5, 0x300), (0x1f7b, 0x3cd, 0x0),
     (0x1f7c, 0x3c9, 0x300), (0x1f7d, 0x3ce, 0x0), (0x1f80, 0x1f00, 0x345), (0x1f81, 0x1f01, 0x345),
     (0x1f82, 0x1f02, 0x345), (0x1f83, 0x1f03, 0x345), (0x1f84, 0x1f04, 0x345), (0x1f85, 0x1f05, 0x345),
     (0x1f86, 0x1f06, 0x345), (0x1f87, 0x1f07, 0x345), (0x1f88, 0x1f08, 0x345), (0x1f89, 0x1f09, 0x345),
     (0x1f8a, 0x1f0a, 0x345), (0x1f8b, 0x1f0b, 0x345), (0x1f8c, 0x1f0c, 0x345), (0x1f8d, 0x1f0d, 0x345),
     (0x1f8e, 0x1f0e, 0x345), (0x1f8f, 0x1f0f, 0x345), (0x1f90, 0x1f20, 0x345), (0x1f91, 0x1f21, 0x345),
     (0x1f92, 0x1f22, 0x345), (0x1f93, 0x1f23, 0x345), (0x1f94, 0x1f24, 0x345), (0x1f95, 0x1f25, 0x345),
     (0x1f96, 0x1f26, 0x345), (0x1f97, 0x1f27, 0x345), (0x1f98, 0x1f28, 0x345), (0x1f99, 0x1f29, 0x345),
     (0x1f9a, 0x1f2a, 0x345), (0x1f9b, 0x1f2b, 0x345), (0x1f9c, 0x1f2c, 0x345), (0x1f9d, 0x1f2d, 0x345),
     (0x1f9e, 0x1f2e, 0x345), (0x1f9f, 0x1f2f, 0x345), (0x1fa0, 0x1f60, 0x345), (0x1fa1, 0x1f61, 0x345),
     (0x1fa2, 0x1f62, 0x345), (0x1fa3, 0x1f63, 0x345), (0x1fa4, 0x1f64, 0x345), (0x1fa5, 0x1f65, 0x345),
     (0x1fa6, 0x1f66, 0x345), (0x1fa7, 0x1f67, 0x345), (0x1fa8, 0x1f68, 0x345), (0x1fa9, 0x1f69, 0x345),
     (0x1faa, 0x1f6a, 0x345), (0x1fab, 0x1f6b, 0x345), (0x1fac, 0x1f6c, 0x345), (0x1fad, 0x1f6d, 0x345),
     (0x1fae, 0x1f6e, 0x345), (0x1faf, 0x1f6f, 0x345), (0x1fb0, 0x3b1, 0x306), (0x1fb1, 0x3b1, 0x304),
     (0x1fb2, 0x1f70, 0x345), (0x1fb3, 0x3b1, 0x345), (0x1fb4, 0x3ac, 0x345), (0x1fb6, 0x3b1, 0x342),
     (0x1fb7, 0x1fb6, 0x345), (0x1fb8, 0x391, 0x306), (0x1fb9, 0x391, 0x304), (0x1fba, 0x391, 0x300),
     (0x1fbb, 0x386, 0x0), (0x1fbc, 0x391, 0x345), (0x1fbe, 0x3b9, 0x0), (0x1fc1, 0xa8, 0x342),
     (0x1fc2, 0x1f74, 0x345), (0x1fc3, 0x3b7, 0x345), (0x1fc4, 0x3ae, 0x345), (0x1fc6, 0x3b7, 0x342),
     (0x1fc7, 0x1fc6, 0x345), (0x1fc8, 0x395, 0x300), (0x1fc9, 0x388, 0x0), (0x1fca, 0x397, 0x300),
     (0x1fcb, 0x389, 0x0), (0x1fcc, 0x397, 0x345), (0x1fcd, 0x1fbf, 0x300), (0x1fce, 0x1fbf, 0x301),
     (0x1fcf, 0x1fbf, 0x342), (0x1fd0, 0x3b9, 0x306), (0x1fd1, 0x3b9, 0x304), (0x1fd2, 0x3ca, 0x300),
     (0x1fd3, 0x390, 0x0), (0x1fd6, 0x3b9, 0x342), (0x1fd7, 0x3ca, 0x342), (0x1fd8, 0x399, 0x306),
     (0x1fd9, 0x399, 0x304), (0x1fda, 0x399, 0x300), (0x1fdb, 0x38a, 0x0), (0x1fdd, 0x1ffe, 0x300),
     (0x1fde, 0x1ffe, 0x301), (0x1fdf, 0x1ffe, 0x342), (0x1fe0, 0x3c5, 0x306), (0x1fe1, 0x3c5, 0x304),
     (0x1fe2, 0x3cb, 0x300), (0x1fe3, 0x3b0, 0x0), (0x1fe4, 0x3c1, 0x313), (0x1fe5, 0x3c1, 0x314),
     (0x1fe6, 0x3c5, 0x342), (0x1fe7, 0x3cb, 0x342), (0x1fe8, 0x3a5, 0x306), (0x1fe9, 0x3a5, 0x304),
     (0x1fea, 0x3a5, 0x300), (0x1feb, 0x38e, 0x0), (0x1fec, 0x3a1, 0x314), (0x1fed, 0xa8, 0x300),
     (0x1fee, 0x385, 0x0), (0x1fef, 0x60, 0x0), (0x1ff2, 0x1f7c, 0x345), (0x1ff3, 0x3c9, 0x345),
     (0x1ff4, 0x3ce, 0x345), (0x1ff6, 0x3c9, 0x342), (0x1ff7, 0x1ff6, 0x345), (0x1ff8, 0x39f, 0x300),
     (0x1ff9, 0x38c, 0x0), (0x1ffa, 0x3a9, 0x300), (0x1ffb, 0x38f, 0x0), (0x1ffc, 0x3a9, 0x345),
     (0x1ffd, 0xb4, 0x0), (0x2000, 0x2002, 0x0), (0x2001, 0x2003, 0x0), (0x2126, 0x3a9, 0x0),
     (0x212a, 0x4b, 0x0), (0x212b, 0xc5, 0x0), (0x219a, 0x2190, 0x338), (0x219b, 0x2192, 0x338),
     (0x21ae, 0x2194, 0x338), (0x21cd, 0x21d0, 0x338), (0x21ce, 0x21d4, 0x338), (0x21cf, 0x21d2, 0x338),
     (0x2204, 0x2203, 0x338), (0x2209, 0x2208, 0x338), (0x220c, 0x220b, 0x338), (0x2224, 0x2223, 0x338),
     (0x2226, 0x2225, 0x338), (0x2241, 0x223c, 0x338), (0x2244, 0x2243, 0x338), (0x2247, 0x2245, 0x338),
     (0x2249, 0x2248, 0x338), (0x2260, 0x3d, 0x338), (0x2262, 0x2261, 0x338), (0x226d, 0x224d, 0x338),
     (0x226e, 0x3c, 0x338), (0x226f, 0x3e, 0x338), (0x2270, 0x2264, 0x338), (0x2271, 0x2265, 0x338),
     (0x2274, 0x2272, 0x338), (0x2275, 0x2273, 0x338), (0x2278, 0x2276, 0x338), (0x2279, 0x2277, 0x338),
     (0x2280, 0x227a, 0x338), (0x2281, 0x227b, 0x338), (0x2284, 0x2282, 0x338), (0x2285, 0x2283, 0x338),
     (0x2288, 0x2286, 0x338), (0x2289, 0x2287, 0x338), (0x22ac, 0x22a2, 0x338), (0x22ad, 0x22a8, 0x338),
     (0x22ae, 0x22a9, 0x338), (0x22af, 0x22ab, 0x338), (0x22e0, 0x227c, 0x338), (0x22e1, 0x227d, 0x338),
     (0x22e2, 0x2291, 0x338), (0x22e3, 0x2292, 0x338), (0x22ea, 0x22b2, 0x338), (0x22eb, 0x22b3, 0x338),
     (0x22ec, 0x22b4, 0x338), (0x22ed, 0x22b5, 0x338), (0x2329, 0x3008, 0x0), (0x232a, 0x3009, 0x0),
     (0x2adc, 0x2add, 0x338), (0x304c, 0x304b, 0x3099), (0x304e, 0x304d, 0x3099), (0x3050, 0x304f, 0x3099),
     (0x3052, 0x3051, 0x3099), (0x3054, 0x3053, 0x3099), (0x3056, 0x3055, 0x3099), (0x3058, 0x3057, 0x3099),
     (0x305a, 0x3059, 0x3099), (0x305c, 0x305b, 0x3099), (0x305e, 0x305d, 0x3099), (0x3060, 0x305f, 0x3099),
     (0x3062, 0x3061, 0x3099), (0x3065, 0x3064, 0x3099), (0x3067, 0x3066, 0x3099), (0x3069, 0x3068, 0x3099),
     (0x3070, 0x306f, 0x3099), (0x3071, 0x306f, 0x309a), (0x3073, 0x3072, 0x3099), (0x3074, 0x3072, 0x309a),
     (0x3076, 0x3075, 0x3099), (0x3077, 0x3075, 0x309a), (0x3079, 0x3078, 0x3099), (0x307a, 0x3078, 0x309a),
     (0x307c, 0x307b, 0x3099), (0x307d, 0x307b, 0x309a), (0x3094, 0x3046, 0x3099), (0x309e, 0x309d, 0x3099),
     (0x30ac, 0x30ab, 0x3099), (0x30ae, 0x30ad, 0x3099), (0x30b0, 0x30af, 0x3099), (0x30b2, 0x30b1, 0x3099),
     (0x30b4, 0x30b3, 0x3099), (0x30b6, 0x30b5, 0x3099), (0x30b8, 0x30b7, 0x3099), (0x30ba, 0x30b9, 0x3099),
     (0x30bc, 0x30bb, 0x3099), (0x30be, 0x30bd, 0x3099), (0x30c0, 0x30bf, 0x3099), (0x30c2, 0x30c1, 0x3099),
     (0x30c5, 0x30c4, 0x3099), (0x30c7, 0x30c6, 0x3099), (0x30c9, 0x30c8, 0x3099), (0x30d0, 0x30cf, 0x3099),
     (0x30d1, 0x30cf, 0x309a), (0x30d3, 0x30d2, 0x3099), (0x30d4, 0x30d2, 0x309a), (0x30d6, 0x30d5, 0x3099),
     (0x30d7, 0x30d5, 0x309a), (0x30d9, 0x30d8, 0x3099), (0x30da, 0x30d8, 0x309a), (0x30dc, 0x30db, 0x3099),
     (0x30dd, 0x30db, 0x309a), (0x30f4, 0x30a6, 0x3099), (0x30f7, 0x30ef, 0x3099), (0x30f8, 0x30f0, 0x3099),
     (0x30f9, 0x30f1, 0x3099), (0x30fa, 0x30f2, 0x3099), (0x30fe, 0x30fd, 0x3099), (0xf900, 0x8c48, 0x0),
     (0xf901, 0x66f4, 0x0), (0xf902, 0x8eca, 0x0), (0xf903, 0x8cc8, 0x0), (0xf904, 0x6ed1, 0x0),
     (0xf905, 0x4e32, 0x0), (0xf906, 0x53e5, 0x0), (0xf907, 0x9f9c, 0x0), (0xf908, 0x9f9c, 0x0),
     (0xf909, 0x5951, 0x0), (0xf90a, 0x91d1, 0x0), (0xf90b, 0x5587, 0x0), (0xf90c, 0x5948, 0x0),
     (0xf90d, 0x61f6, 0x0), (0xf90e, 0x7669, 0x0), (0xf90f, 0x7f85, 0x0), (0xf910, 0x863f, 0x0),
     (0xf911, 0x87ba, 0x0), (0xf912, 0x88f8, 0x0), (0xf913, 0x908f, 0x0), (0xf914, 0x6a02, 0x0),
     (0xf915, 0x6d1b, 0x0), (0xf916, 0x70d9, 0x0), (0xf917, 0x73de, 0x0), (0xf918, 0x843d, 0x0),
     (0xf919, 0x916a, 0x0), (0xf91a, 0x99f1, 0x0), (0xf91b, 0x4e82, 0x0), (0xf91c, 0x5375, 0x0),
     (0xf91d, 0x6b04, 0x0), (0xf91e, 0x721b, 0x0), (0xf91f, 0x862d, 0x0), (0xf920, 0x9e1e, 0x0),
     (0xf921, 0x5d50, 0x0), (0xf922, 0x6feb, 0x0), (0xf923, 0x85cd, 0x0), (0xf924, 0x8964, 0x0),
     (0xf925, 0x62c9, 0x0), (0xf926, 0x81d8, 0x0), (0xf927, 0x881f, 0x0), (0xf928, 0x5eca, 0x0),
     (0xf929, 0x6717, 0x0), (0xf92a, 0x6d6a, 0x0), (0xf92b, 0x72fc, 0x0), (0xf92c, 0x90ce, 0x0),
     (0xf92d, 0x4f86, 0x0), (0xf92e, 0x51b7, 0x0), (0xf92f, 0x52de, 0x0), (0xf930, 0x64c4, 0x0),
     (0xf931, 0x6ad3, 0x0), (0xf932, 0x7210, 0x0), (0xf933, 0x76e7, 0x0), (0xf934, 0x8001, 0x0),
     (0xf935, 0x8606, 0x0), (0xf936, 0x865c, 0x0), (0xf937, 0x8def, 0x0), (0xf938, 0x9732, 0x0),
     (0xf939, 0x9b6f, 0x0), (0xf93a, 0x9dfa, 0x0), (0xf93b, 0x788c, 0x0), (0xf93c, 0x797f, 0x0),
     (0xf93d, 0x7da0, 0x0), (0xf93e, 0x83c9, 0x0), (0xf93f, 0x9304, 0x0), (0xf940, 0x9e7f, 0x0),
     (0xf941, 0x8ad6, 0x0), (0xf942, 0x58df, 0x0), (0xf943, 0x5f04, 0x0), (0xf944, 0x7c60, 0x0),
     (0xf945, 0x807e, 0x0), (0xf946, 0x7262, 0x0), (0xf947, 0x78ca, 0x0), (0xf948, 0x8cc2, 0x0),
     (0xf949, 0x96f7, 0x0), (0xf94a, 0x58d8, 0x0), (0xf94b, 0x5c62, 0x0), (0xf94c, 0x6a13, 0x0),
     (0xf94d, 0x6dda, 0x0), (0xf94e, 0x6f0f, 0x0), (0xf94f, 0x7d2f, 0x0), (0xf950, 0x7e37, 0x0),
     (0xf951, 0x964b, 0x0), (0xf952, 0x52d2, 0x0), (0xf953, 0x808b, 0x0), (0xf954, 0x51dc, 0x0),
     (0xf955, 0x51cc, 0x0), (0xf956, 0x7a1c, 0x0), (0xf957, 0x7dbe, 0x0), (0xf958, 0x83f1, 0x0),
     (0xf959, 0x9675, 0x0), (0xf95a, 0x8b80, 0x0), (0xf95b, 0x62cf, 0x0), (0xf95c, 0x6a02, 0x0),
     (0xf95d, 0x8afe, 0x0), (0xf95e, 0x4e39, 0x0), (0xf95f, 0x5be7, 0x0), (0xf960, 0x6012, 0x0),
     (0xf961, 0x7387, 0x0), (0xf962, 0x7570, 0x0), (0xf963, 0x5317, 0x0), (0xf964, 0x78fb, 0x0),
     (0xf965, 0x4fbf, 0x0), (0xf966, 0x5fa9, 0x0), (0xf967, 0x4e0d, 0x0), (0xf968, 0x6ccc, 0x0),
     (0xf969, 0x6578, 0x0), (0xf96a, 0x7d22, 0x0), (0xf96b, 0x53c3, 0x0), (0xf96c, 0x585e, 0x0),
     (0xf96d, 0x7701, 0x0), (0xf96e, 0x8449, 0x0), (0xf96f, 0x8aaa, 0x0), (0xf970, 0x6bba, 0x0),
     (0xf971, 0x8fb0, 0x0), (0xf972, 0x6c88, 0x0), (0xf973, 0x62fe, 0x0), (0xf974, 0x82e5, 0x0),
     (0xf975, 0x63a0, 0x0), (0xf976, 0x7565, 0x0), (0xf977, 0x4eae, 0x0), (0xf978, 0x5169, 0x0)]"

definition zipCanonDecomp_3 :: "(rune \<times> rune \<times> rune) list" where
  "zipCanonDecomp_3 = [
     (0xf979, 0x51c9, 0x0), (0xf97a, 0x6881, 0x0), (0xf97b, 0x7ce7, 0x0), (0xf97c, 0x826f, 0x0),
     (0xf97d, 0x8ad2, 0x0), (0xf97e, 0x91cf, 0x0), (0xf97f, 0x52f5, 0x0), (0xf980, 0x5442, 0x0),
     (0xf981, 0x5973, 0x0), (0xf982, 0x5eec, 0x0), (0xf983, 0x65c5, 0x0), (0xf984, 0x6ffe, 0x0),
     (0xf985, 0x792a, 0x0), (0xf986, 0x95ad, 0x0), (0xf987, 0x9a6a, 0x0), (0xf988, 0x9e97, 0x0),
     (0xf989, 0x9ece, 0x0), (0xf98a, 0x529b, 0x0), (0xf98b, 0x66c6, 0x0), (0xf98c, 0x6b77, 0x0),
     (0xf98d, 0x8f62, 0x0), (0xf98e, 0x5e74, 0x0), (0xf98f, 0x6190, 0x0), (0xf990, 0x6200, 0x0),
     (0xf991, 0x649a, 0x0), (0xf992, 0x6f23, 0x0), (0xf993, 0x7149, 0x0), (0xf994, 0x7489, 0x0),
     (0xf995, 0x79ca, 0x0), (0xf996, 0x7df4, 0x0), (0xf997, 0x806f, 0x0), (0xf998, 0x8f26, 0x0),
     (0xf999, 0x84ee, 0x0), (0xf99a, 0x9023, 0x0), (0xf99b, 0x934a, 0x0), (0xf99c, 0x5217, 0x0),
     (0xf99d, 0x52a3, 0x0), (0xf99e, 0x54bd, 0x0), (0xf99f, 0x70c8, 0x0), (0xf9a0, 0x88c2, 0x0),
     (0xf9a1, 0x8aaa, 0x0), (0xf9a2, 0x5ec9, 0x0), (0xf9a3, 0x5ff5, 0x0), (0xf9a4, 0x637b, 0x0),
     (0xf9a5, 0x6bae, 0x0), (0xf9a6, 0x7c3e, 0x0), (0xf9a7, 0x7375, 0x0), (0xf9a8, 0x4ee4, 0x0),
     (0xf9a9, 0x56f9, 0x0), (0xf9aa, 0x5be7, 0x0), (0xf9ab, 0x5dba, 0x0), (0xf9ac, 0x601c, 0x0),
     (0xf9ad, 0x73b2, 0x0), (0xf9ae, 0x7469, 0x0), (0xf9af, 0x7f9a, 0x0), (0xf9b0, 0x8046, 0x0),
     (0xf9b1, 0x9234, 0x0), (0xf9b2, 0x96f6, 0x0), (0xf9b3, 0x9748, 0x0), (0xf9b4, 0x9818, 0x0),
     (0xf9b5, 0x4f8b, 0x0), (0xf9b6, 0x79ae, 0x0), (0xf9b7, 0x91b4, 0x0), (0xf9b8, 0x96b8, 0x0),
     (0xf9b9, 0x60e1, 0x0), (0xf9ba, 0x4e86, 0x0), (0xf9bb, 0x50da, 0x0), (0xf9bc, 0x5bee, 0x0),
     (0xf9bd, 0x5c3f, 0x0), (0xf9be, 0x6599, 0x0), (0xf9bf, 0x6a02, 0x0), (0xf9c0, 0x71ce, 0x0),
     (0xf9c1, 0x7642, 0x0), (0xf9c2, 0x84fc, 0x0), (0xf9c3, 0x907c, 0x0), (0xf9c4, 0x9f8d, 0x0),
     (0xf9c5, 0x6688, 0x0), (0xf9c6, 0x962e, 0x0), (0xf9c7, 0x5289, 0x0), (0xf9c8, 0x677b, 0x0),
     (0xf9c9, 0x67f3, 0x0), (0xf9ca, 0x6d41, 0x0), (0xf9cb, 0x6e9c, 0x0), (0xf9cc, 0x7409, 0x0),
     (0xf9cd, 0x7559, 0x0), (0xf9ce, 0x786b, 0x0), (0xf9cf, 0x7d10, 0x0), (0xf9d0, 0x985e, 0x0),
     (0xf9d1, 0x516d, 0x0), (0xf9d2, 0x622e, 0x0), (0xf9d3, 0x9678, 0x0), (0xf9d4, 0x502b, 0x0),
     (0xf9d5, 0x5d19, 0x0), (0xf9d6, 0x6dea, 0x0), (0xf9d7, 0x8f2a, 0x0), (0xf9d8, 0x5f8b, 0x0),
     (0xf9d9, 0x6144, 0x0), (0xf9da, 0x6817, 0x0), (0xf9db, 0x7387, 0x0), (0xf9dc, 0x9686, 0x0),
     (0xf9dd, 0x5229, 0x0), (0xf9de, 0x540f, 0x0), (0xf9df, 0x5c65, 0x0), (0xf9e0, 0x6613, 0x0),
     (0xf9e1, 0x674e, 0x0), (0xf9e2, 0x68a8, 0x0), (0xf9e3, 0x6ce5, 0x0), (0xf9e4, 0x7406, 0x0),
     (0xf9e5, 0x75e2, 0x0), (0xf9e6, 0x7f79, 0x0), (0xf9e7, 0x88cf, 0x0), (0xf9e8, 0x88e1, 0x0),
     (0xf9e9, 0x91cc, 0x0), (0xf9ea, 0x96e2, 0x0), (0xf9eb, 0x533f, 0x0), (0xf9ec, 0x6eba, 0x0),
     (0xf9ed, 0x541d, 0x0), (0xf9ee, 0x71d0, 0x0), (0xf9ef, 0x7498, 0x0), (0xf9f0, 0x85fa, 0x0),
     (0xf9f1, 0x96a3, 0x0), (0xf9f2, 0x9c57, 0x0), (0xf9f3, 0x9e9f, 0x0), (0xf9f4, 0x6797, 0x0),
     (0xf9f5, 0x6dcb, 0x0), (0xf9f6, 0x81e8, 0x0), (0xf9f7, 0x7acb, 0x0), (0xf9f8, 0x7b20, 0x0),
     (0xf9f9, 0x7c92, 0x0), (0xf9fa, 0x72c0, 0x0), (0xf9fb, 0x7099, 0x0), (0xf9fc, 0x8b58, 0x0),
     (0xf9fd, 0x4ec0, 0x0), (0xf9fe, 0x8336, 0x0), (0xf9ff, 0x523a, 0x0), (0xfa00, 0x5207, 0x0),
     (0xfa01, 0x5ea6, 0x0), (0xfa02, 0x62d3, 0x0), (0xfa03, 0x7cd6, 0x0), (0xfa04, 0x5b85, 0x0),
     (0xfa05, 0x6d1e, 0x0), (0xfa06, 0x66b4, 0x0), (0xfa07, 0x8f3b, 0x0), (0xfa08, 0x884c, 0x0),
     (0xfa09, 0x964d, 0x0), (0xfa0a, 0x898b, 0x0), (0xfa0b, 0x5ed3, 0x0), (0xfa0c, 0x5140, 0x0),
     (0xfa0d, 0x55c0, 0x0), (0xfa10, 0x585a, 0x0), (0xfa12, 0x6674, 0x0), (0xfa15, 0x51de, 0x0),
     (0xfa16, 0x732a, 0x0), (0xfa17, 0x76ca, 0x0), (0xfa18, 0x793c, 0x0), (0xfa19, 0x795e, 0x0),
     (0xfa1a, 0x7965, 0x0), (0xfa1b, 0x798f, 0x0), (0xfa1c, 0x9756, 0x0), (0xfa1d, 0x7cbe, 0x0),
     (0xfa1e, 0x7fbd, 0x0), (0xfa20, 0x8612, 0x0), (0xfa22, 0x8af8, 0x0), (0xfa25, 0x9038, 0x0),
     (0xfa26, 0x90fd, 0x0), (0xfa2a, 0x98ef, 0x0), (0xfa2b, 0x98fc, 0x0), (0xfa2c, 0x9928, 0x0),
     (0xfa2d, 0x9db4, 0x0), (0xfa2e, 0x90de, 0x0), (0xfa2f, 0x96b7, 0x0), (0xfa30, 0x4fae, 0x0),
     (0xfa31, 0x50e7, 0x0), (0xfa32, 0x514d, 0x0), (0xfa33, 0x52c9, 0x0), (0xfa34, 0x52e4, 0x0),
     (0xfa35, 0x5351, 0x0), (0xfa36, 0x559d, 0x0), (0xfa37, 0x5606, 0x0), (0xfa38, 0x5668, 0x0),
     (0xfa39, 0x5840, 0x0), (0xfa3a, 0x58a8, 0x0), (0xfa3b, 0x5c64, 0x0), (0xfa3c, 0x5c6e, 0x0),
     (0xfa3d, 0x6094, 0x0), (0xfa3e, 0x6168, 0x0), (0xfa3f, 0x618e, 0x0), (0xfa40, 0x61f2, 0x0),
     (0xfa41, 0x654f, 0x0), (0xfa42, 0x65e2, 0x0), (0xfa43, 0x6691, 0x0), (0xfa44, 0x6885, 0x0),
     (0xfa45, 0x6d77, 0x0), (0xfa46, 0x6e1a, 0x0), (0xfa47, 0x6f22, 0x0), (0xfa48, 0x716e, 0x0),
     (0xfa49, 0x722b, 0x0), (0xfa4a, 0x7422, 0x0), (0xfa4b, 0x7891, 0x0), (0xfa4c, 0x793e, 0x0),
     (0xfa4d, 0x7949, 0x0), (0xfa4e, 0x7948, 0x0), (0xfa4f, 0x7950, 0x0), (0xfa50, 0x7956, 0x0),
     (0xfa51, 0x795d, 0x0), (0xfa52, 0x798d, 0x0), (0xfa53, 0x798e, 0x0), (0xfa54, 0x7a40, 0x0),
     (0xfa55, 0x7a81, 0x0), (0xfa56, 0x7bc0, 0x0), (0xfa57, 0x7df4, 0x0), (0xfa58, 0x7e09, 0x0),
     (0xfa59, 0x7e41, 0x0), (0xfa5a, 0x7f72, 0x0), (0xfa5b, 0x8005, 0x0), (0xfa5c, 0x81ed, 0x0),
     (0xfa5d, 0x8279, 0x0), (0xfa5e, 0x8279, 0x0), (0xfa5f, 0x8457, 0x0), (0xfa60, 0x8910, 0x0),
     (0xfa61, 0x8996, 0x0), (0xfa62, 0x8b01, 0x0), (0xfa63, 0x8b39, 0x0), (0xfa64, 0x8cd3, 0x0),
     (0xfa65, 0x8d08, 0x0), (0xfa66, 0x8fb6, 0x0), (0xfa67, 0x9038, 0x0), (0xfa68, 0x96e3, 0x0),
     (0xfa69, 0x97ff, 0x0), (0xfa6a, 0x983b, 0x0), (0xfa6b, 0x6075, 0x0), (0xfa6c, 0x242ee, 0x0),
     (0xfa6d, 0x8218, 0x0), (0xfa70, 0x4e26, 0x0), (0xfa71, 0x51b5, 0x0), (0xfa72, 0x5168, 0x0),
     (0xfa73, 0x4f80, 0x0), (0xfa74, 0x5145, 0x0), (0xfa75, 0x5180, 0x0), (0xfa76, 0x52c7, 0x0),
     (0xfa77, 0x52fa, 0x0), (0xfa78, 0x559d, 0x0), (0xfa79, 0x5555, 0x0), (0xfa7a, 0x5599, 0x0),
     (0xfa7b, 0x55e2, 0x0), (0xfa7c, 0x585a, 0x0), (0xfa7d, 0x58b3, 0x0), (0xfa7e, 0x5944, 0x0),
     (0xfa7f, 0x5954, 0x0), (0xfa80, 0x5a62, 0x0), (0xfa81, 0x5b28, 0x0), (0xfa82, 0x5ed2, 0x0),
     (0xfa83, 0x5ed9, 0x0), (0xfa84, 0x5f69, 0x0), (0xfa85, 0x5fad, 0x0), (0xfa86, 0x60d8, 0x0),
     (0xfa87, 0x614e, 0x0), (0xfa88, 0x6108, 0x0), (0xfa89, 0x618e, 0x0), (0xfa8a, 0x6160, 0x0),
     (0xfa8b, 0x61f2, 0x0), (0xfa8c, 0x6234, 0x0), (0xfa8d, 0x63c4, 0x0), (0xfa8e, 0x641c, 0x0),
     (0xfa8f, 0x6452, 0x0), (0xfa90, 0x6556, 0x0), (0xfa91, 0x6674, 0x0), (0xfa92, 0x6717, 0x0),
     (0xfa93, 0x671b, 0x0), (0xfa94, 0x6756, 0x0), (0xfa95, 0x6b79, 0x0), (0xfa96, 0x6bba, 0x0),
     (0xfa97, 0x6d41, 0x0), (0xfa98, 0x6edb, 0x0), (0xfa99, 0x6ecb, 0x0), (0xfa9a, 0x6f22, 0x0),
     (0xfa9b, 0x701e, 0x0), (0xfa9c, 0x716e, 0x0), (0xfa9d, 0x77a7, 0x0), (0xfa9e, 0x7235, 0x0),
     (0xfa9f, 0x72af, 0x0), (0xfaa0, 0x732a, 0x0), (0xfaa1, 0x7471, 0x0), (0xfaa2, 0x7506, 0x0),
     (0xfaa3, 0x753b, 0x0), (0xfaa4, 0x761d, 0x0), (0xfaa5, 0x761f, 0x0), (0xfaa6, 0x76ca, 0x0),
     (0xfaa7, 0x76db, 0x0), (0xfaa8, 0x76f4, 0x0), (0xfaa9, 0x774a, 0x0), (0xfaaa, 0x7740, 0x0),
     (0xfaab, 0x78cc, 0x0), (0xfaac, 0x7ab1, 0x0), (0xfaad, 0x7bc0, 0x0), (0xfaae, 0x7c7b, 0x0),
     (0xfaaf, 0x7d5b, 0x0), (0xfab0, 0x7df4, 0x0), (0xfab1, 0x7f3e, 0x0), (0xfab2, 0x8005, 0x0),
     (0xfab3, 0x8352, 0x0), (0xfab4, 0x83ef, 0x0), (0xfab5, 0x8779, 0x0), (0xfab6, 0x8941, 0x0),
     (0xfab7, 0x8986, 0x0), (0xfab8, 0x8996, 0x0), (0xfab9, 0x8abf, 0x0), (0xfaba, 0x8af8, 0x0),
     (0xfabb, 0x8acb, 0x0), (0xfabc, 0x8b01, 0x0), (0xfabd, 0x8afe, 0x0), (0xfabe, 0x8aed, 0x0),
     (0xfabf, 0x8b39, 0x0), (0xfac0, 0x8b8a, 0x0), (0xfac1, 0x8d08, 0x0), (0xfac2, 0x8f38, 0x0),
     (0xfac3, 0x9072, 0x0), (0xfac4, 0x9199, 0x0), (0xfac5, 0x9276, 0x0), (0xfac6, 0x967c, 0x0),
     (0xfac7, 0x96e3, 0x0), (0xfac8, 0x9756, 0x0), (0xfac9, 0x97db, 0x0), (0xfaca, 0x97ff, 0x0),
     (0xfacb, 0x980b, 0x0), (0xfacc, 0x983b, 0x0), (0xfacd, 0x9b12, 0x0), (0xface, 0x9f9c, 0x0),
     (0xfacf, 0x2284a, 0x0), (0xfad0, 0x22844, 0x0), (0xfad1, 0x233d5, 0x0), (0xfad2, 0x3b9d, 0x0),
     (0xfad3, 0x4018, 0x0), (0xfad4, 0x4039, 0x0), (0xfad5, 0x25249, 0x0), (0xfad6, 0x25cd0, 0x0),
     (0xfad7, 0x27ed3, 0x0), (0xfad8, 0x9f43, 0x0), (0xfad9, 0x9f8e, 0x0), (0xfb1d, 0x5d9, 0x5b4),
     (0xfb1f, 0x5f2, 0x5b7), (0xfb2a, 0x5e9, 0x5c1), (0xfb2b, 0x5e9, 0x5c2), (0xfb2c, 0xfb49, 0x5c1),
     (0xfb2d, 0xfb49, 0x5c2), (0xfb2e, 0x5d0, 0x5b7), (0xfb2f, 0x5d0, 0x5b8), (0xfb30, 0x5d0, 0x5bc),
     (0xfb31, 0x5d1, 0x5bc), (0xfb32, 0x5d2, 0x5bc), (0xfb33, 0x5d3, 0x5bc), (0xfb34, 0x5d4, 0x5bc),
     (0xfb35, 0x5d5, 0x5bc), (0xfb36, 0x5d6, 0x5bc), (0xfb38, 0x5d8, 0x5bc), (0xfb39, 0x5d9, 0x5bc),
     (0xfb3a, 0x5da, 0x5bc), (0xfb3b, 0x5db, 0x5bc), (0xfb3c, 0x5dc, 0x5bc), (0xfb3e, 0x5de, 0x5bc),
     (0xfb40, 0x5e0, 0x5bc), (0xfb41, 0x5e1, 0x5bc), (0xfb43, 0x5e3, 0x5bc), (0xfb44, 0x5e4, 0x5bc),
     (0xfb46, 0x5e6, 0x5bc), (0xfb47, 0x5e7, 0x5bc), (0xfb48, 0x5e8, 0x5bc), (0xfb49, 0x5e9, 0x5bc),
     (0xfb4a, 0x5ea, 0x5bc), (0xfb4b, 0x5d5, 0x5b9), (0xfb4c, 0x5d1, 0x5bf), (0xfb4d, 0x5db, 0x5bf),
     (0xfb4e, 0x5e4, 0x5bf), (0x105c9, 0x105d2, 0x307), (0x105e4, 0x105da, 0x307), (0x1109a, 0x11099, 0x110ba),
     (0x1109c, 0x1109b, 0x110ba), (0x110ab, 0x110a5, 0x110ba), (0x1112e, 0x11131, 0x11127), (0x1112f, 0x11132, 0x11127),
     (0x1134b, 0x11347, 0x1133e), (0x1134c, 0x11347, 0x11357), (0x11383, 0x11382, 0x113c9), (0x11385, 0x11384, 0x113bb),
     (0x1138e, 0x1138b, 0x113c2), (0x11391, 0x11390, 0x113c9), (0x113c5, 0x113c2, 0x113c2), (0x113c7, 0x113c2, 0x113b8),
     (0x113c8, 0x113c2, 0x113c9), (0x114bb, 0x114b9, 0x114ba), (0x114bc, 0x114b9, 0x114b0), (0x114be, 0x114b9, 0x114bd),
     (0x115ba, 0x115b8, 0x115af), (0x115bb, 0x115b9, 0x115af), (0x11938, 0x11935, 0x11930), (0x16121, 0x1611e, 0x1611e),
     (0x16122, 0x1611e, 0x16129), (0x16123, 0x1611e, 0x1611f), (0x16124, 0x16129, 0x1611f), (0x16125, 0x1611e, 0x16120),
     (0x16126, 0x16121, 0x1611f), (0x16127, 0x16122, 0x1611f), (0x16128, 0x16121, 0x16120), (0x16d68, 0x16d67, 0x16d67),
     (0x16d69, 0x16d63, 0x16d67), (0x16d6a, 0x16d69, 0x16d67), (0x1d15e, 0x1d157, 0x1d165), (0x1d15f, 0x1d158, 0x1d165),
     (0x1d160, 0x1d15f, 0x1d16e), (0x1d161, 0x1d15f, 0x1d16f), (0x1d162, 0x1d15f, 0x1d170), (0x1d163, 0x1d15f, 0x1d171),
     (0x1d164, 0x1d15f, 0x1d172), (0x1d1bb, 0x1d1b9, 0x1d165), (0x1d1bc, 0x1d1ba, 0x1d165), (0x1d1bd, 0x1d1bb, 0x1d16e),
     (0x1d1be, 0x1d1bc, 0x1d16e), (0x1d1bf, 0x1d1bb, 0x1d16f), (0x1d1c0, 0x1d1bc, 0x1d16f), (0x2f800, 0x4e3d, 0x0),
     (0x2f801, 0x4e38, 0x0), (0x2f802, 0x4e41, 0x0), (0x2f803, 0x20122, 0x0), (0x2f804, 0x4f60, 0x0),
     (0x2f805, 0x4fae, 0x0), (0x2f806, 0x4fbb, 0x0), (0x2f807, 0x5002, 0x0), (0x2f808, 0x507a, 0x0),
     (0x2f809, 0x5099, 0x0), (0x2f80a, 0x50e7, 0x0), (0x2f80b, 0x50cf, 0x0), (0x2f80c, 0x349e, 0x0),
     (0x2f80d, 0x2063a, 0x0), (0x2f80e, 0x514d, 0x0), (0x2f80f, 0x5154, 0x0), (0x2f810, 0x5164, 0x0),
     (0x2f811, 0x5177, 0x0), (0x2f812, 0x2051c, 0x0), (0x2f813, 0x34b9, 0x0), (0x2f814, 0x5167, 0x0),
     (0x2f815, 0x518d, 0x0), (0x2f816, 0x2054b, 0x0), (0x2f817, 0x5197, 0x0), (0x2f818, 0x51a4, 0x0),
     (0x2f819, 0x4ecc, 0x0), (0x2f81a, 0x51ac, 0x0), (0x2f81b, 0x51b5, 0x0), (0x2f81c, 0x291df, 0x0),
     (0x2f81d, 0x51f5, 0x0), (0x2f81e, 0x5203, 0x0), (0x2f81f, 0x34df, 0x0), (0x2f820, 0x523b, 0x0),
     (0x2f821, 0x5246, 0x0), (0x2f822, 0x5272, 0x0), (0x2f823, 0x5277, 0x0), (0x2f824, 0x3515, 0x0),
     (0x2f825, 0x52c7, 0x0), (0x2f826, 0x52c9, 0x0), (0x2f827, 0x52e4, 0x0), (0x2f828, 0x52fa, 0x0),
     (0x2f829, 0x5305, 0x0), (0x2f82a, 0x5306, 0x0), (0x2f82b, 0x5317, 0x0), (0x2f82c, 0x5349, 0x0),
     (0x2f82d, 0x5351, 0x0), (0x2f82e, 0x535a, 0x0), (0x2f82f, 0x5373, 0x0), (0x2f830, 0x537d, 0x0),
     (0x2f831, 0x537f, 0x0), (0x2f832, 0x537f, 0x0), (0x2f833, 0x537f, 0x0), (0x2f834, 0x20a2c, 0x0),
     (0x2f835, 0x7070, 0x0), (0x2f836, 0x53ca, 0x0), (0x2f837, 0x53df, 0x0), (0x2f838, 0x20b63, 0x0),
     (0x2f839, 0x53eb, 0x0), (0x2f83a, 0x53f1, 0x0), (0x2f83b, 0x5406, 0x0), (0x2f83c, 0x549e, 0x0),
     (0x2f83d, 0x5438, 0x0), (0x2f83e, 0x5448, 0x0), (0x2f83f, 0x5468, 0x0), (0x2f840, 0x54a2, 0x0),
     (0x2f841, 0x54f6, 0x0), (0x2f842, 0x5510, 0x0), (0x2f843, 0x5553, 0x0), (0x2f844, 0x5563, 0x0),
     (0x2f845, 0x5584, 0x0), (0x2f846, 0x5584, 0x0), (0x2f847, 0x5599, 0x0), (0x2f848, 0x55ab, 0x0),
     (0x2f849, 0x55b3, 0x0), (0x2f84a, 0x55c2, 0x0), (0x2f84b, 0x5716, 0x0), (0x2f84c, 0x5606, 0x0),
     (0x2f84d, 0x5717, 0x0), (0x2f84e, 0x5651, 0x0), (0x2f84f, 0x5674, 0x0), (0x2f850, 0x5207, 0x0),
     (0x2f851, 0x58ee, 0x0), (0x2f852, 0x57ce, 0x0), (0x2f853, 0x57f4, 0x0), (0x2f854, 0x580d, 0x0),
     (0x2f855, 0x578b, 0x0), (0x2f856, 0x5832, 0x0), (0x2f857, 0x5831, 0x0), (0x2f858, 0x58ac, 0x0),
     (0x2f859, 0x214e4, 0x0), (0x2f85a, 0x58f2, 0x0), (0x2f85b, 0x58f7, 0x0), (0x2f85c, 0x5906, 0x0),
     (0x2f85d, 0x591a, 0x0), (0x2f85e, 0x5922, 0x0), (0x2f85f, 0x5962, 0x0), (0x2f860, 0x216a8, 0x0),
     (0x2f861, 0x216ea, 0x0), (0x2f862, 0x59ec, 0x0), (0x2f863, 0x5a1b, 0x0), (0x2f864, 0x5a27, 0x0),
     (0x2f865, 0x59d8, 0x0), (0x2f866, 0x5a66, 0x0), (0x2f867, 0x36ee, 0x0), (0x2f868, 0x36fc, 0x0),
     (0x2f869, 0x5b08, 0x0), (0x2f86a, 0x5b3e, 0x0), (0x2f86b, 0x5b3e, 0x0), (0x2f86c, 0x219c8, 0x0),
     (0x2f86d, 0x5bc3, 0x0), (0x2f86e, 0x5bd8, 0x0), (0x2f86f, 0x5be7, 0x0), (0x2f870, 0x5bf3, 0x0),
     (0x2f871, 0x21b18, 0x0), (0x2f872, 0x5bff, 0x0), (0x2f873, 0x5c06, 0x0), (0x2f874, 0x5f53, 0x0),
     (0x2f875, 0x5c22, 0x0), (0x2f876, 0x3781, 0x0), (0x2f877, 0x5c60, 0x0), (0x2f878, 0x5c6e, 0x0),
     (0x2f879, 0x5cc0, 0x0), (0x2f87a, 0x5c8d, 0x0), (0x2f87b, 0x21de4, 0x0), (0x2f87c, 0x5d43, 0x0),
     (0x2f87d, 0x21de6, 0x0), (0x2f87e, 0x5d6e, 0x0), (0x2f87f, 0x5d6b, 0x0), (0x2f880, 0x5d7c, 0x0),
     (0x2f881, 0x5de1, 0x0), (0x2f882, 0x5de2, 0x0), (0x2f883, 0x382f, 0x0), (0x2f884, 0x5dfd, 0x0),
     (0x2f885, 0x5e28, 0x0), (0x2f886, 0x5e3d, 0x0), (0x2f887, 0x5e69, 0x0), (0x2f888, 0x3862, 0x0),
     (0x2f889, 0x22183, 0x0), (0x2f88a, 0x387c, 0x0), (0x2f88b, 0x5eb0, 0x0), (0x2f88c, 0x5eb3, 0x0)]"

definition zipCanonDecomp_4 :: "(rune \<times> rune \<times> rune) list" where
  "zipCanonDecomp_4 = [
     (0x2f88d, 0x5eb6, 0x0), (0x2f88e, 0x5eca, 0x0), (0x2f88f, 0x2a392, 0x0), (0x2f890, 0x5efe, 0x0),
     (0x2f891, 0x22331, 0x0), (0x2f892, 0x22331, 0x0), (0x2f893, 0x8201, 0x0), (0x2f894, 0x5f22, 0x0),
     (0x2f895, 0x5f22, 0x0), (0x2f896, 0x38c7, 0x0), (0x2f897, 0x232b8, 0x0), (0x2f898, 0x261da, 0x0),
     (0x2f899, 0x5f62, 0x0), (0x2f89a, 0x5f6b, 0x0), (0x2f89b, 0x38e3, 0x0), (0x2f89c, 0x5f9a, 0x0),
     (0x2f89d, 0x5fcd, 0x0), (0x2f89e, 0x5fd7, 0x0), (0x2f89f, 0x5ff9, 0x0), (0x2f8a0, 0x6081, 0x0),
     (0x2f8a1, 0x393a, 0x0), (0x2f8a2, 0x391c, 0x0), (0x2f8a3, 0x6094, 0x0), (0x2f8a4, 0x226d4, 0x0),
     (0x2f8a5, 0x60c7, 0x0), (0x2f8a6, 0x6148, 0x0), (0x2f8a7, 0x614c, 0x0), (0x2f8a8, 0x614e, 0x0),
     (0x2f8a9, 0x614c, 0x0), (0x2f8aa, 0x617a, 0x0), (0x2f8ab, 0x618e, 0x0), (0x2f8ac, 0x61b2, 0x0),
     (0x2f8ad, 0x61a4, 0x0), (0x2f8ae, 0x61af, 0x0), (0x2f8af, 0x61de, 0x0), (0x2f8b0, 0x61f2, 0x0),
     (0x2f8b1, 0x61f6, 0x0), (0x2f8b2, 0x6210, 0x0), (0x2f8b3, 0x621b, 0x0), (0x2f8b4, 0x625d, 0x0),
     (0x2f8b5, 0x62b1, 0x0), (0x2f8b6, 0x62d4, 0x0), (0x2f8b7, 0x6350, 0x0), (0x2f8b8, 0x22b0c, 0x0),
     (0x2f8b9, 0x633d, 0x0), (0x2f8ba, 0x62fc, 0x0), (0x2f8bb, 0x6368, 0x0), (0x2f8bc, 0x6383, 0x0),
     (0x2f8bd, 0x63e4, 0x0), (0x2f8be, 0x22bf1, 0x0), (0x2f8bf, 0x6422, 0x0), (0x2f8c0, 0x63c5, 0x0),
     (0x2f8c1, 0x63a9, 0x0), (0x2f8c2, 0x3a2e, 0x0), (0x2f8c3, 0x6469, 0x0), (0x2f8c4, 0x647e, 0x0),
     (0x2f8c5, 0x649d, 0x0), (0x2f8c6, 0x6477, 0x0), (0x2f8c7, 0x3a6c, 0x0), (0x2f8c8, 0x654f, 0x0),
     (0x2f8c9, 0x656c, 0x0), (0x2f8ca, 0x2300a, 0x0), (0x2f8cb, 0x65e3, 0x0), (0x2f8cc, 0x66f8, 0x0),
     (0x2f8cd, 0x6649, 0x0), (0x2f8ce, 0x3b19, 0x0), (0x2f8cf, 0x6691, 0x0), (0x2f8d0, 0x3b08, 0x0),
     (0x2f8d1, 0x3ae4, 0x0), (0x2f8d2, 0x5192, 0x0), (0x2f8d3, 0x5195, 0x0), (0x2f8d4, 0x6700, 0x0),
     (0x2f8d5, 0x669c, 0x0), (0x2f8d6, 0x80ad, 0x0), (0x2f8d7, 0x43d9, 0x0), (0x2f8d8, 0x6717, 0x0),
     (0x2f8d9, 0x671b, 0x0), (0x2f8da, 0x6721, 0x0), (0x2f8db, 0x675e, 0x0), (0x2f8dc, 0x6753, 0x0),
     (0x2f8dd, 0x233c3, 0x0), (0x2f8de, 0x3b49, 0x0), (0x2f8df, 0x67fa, 0x0), (0x2f8e0, 0x6785, 0x0),
     (0x2f8e1, 0x6852, 0x0), (0x2f8e2, 0x6885, 0x0), (0x2f8e3, 0x2346d, 0x0), (0x2f8e4, 0x688e, 0x0),
     (0x2f8e5, 0x681f, 0x0), (0x2f8e6, 0x6914, 0x0), (0x2f8e7, 0x3b9d, 0x0), (0x2f8e8, 0x6942, 0x0),
     (0x2f8e9, 0x69a3, 0x0), (0x2f8ea, 0x69ea, 0x0), (0x2f8eb, 0x6aa8, 0x0), (0x2f8ec, 0x236a3, 0x0),
     (0x2f8ed, 0x6adb, 0x0), (0x2f8ee, 0x3c18, 0x0), (0x2f8ef, 0x6b21, 0x0), (0x2f8f0, 0x238a7, 0x0),
     (0x2f8f1, 0x6b54, 0x0), (0x2f8f2, 0x3c4e, 0x0), (0x2f8f3, 0x6b72, 0x0), (0x2f8f4, 0x6b9f, 0x0),
     (0x2f8f5, 0x6bba, 0x0), (0x2f8f6, 0x6bbb, 0x0), (0x2f8f7, 0x23a8d, 0x0), (0x2f8f8, 0x21d0b, 0x0),
     (0x2f8f9, 0x23afa, 0x0), (0x2f8fa, 0x6c4e, 0x0), (0x2f8fb, 0x23cbc, 0x0), (0x2f8fc, 0x6cbf, 0x0),
     (0x2f8fd, 0x6ccd, 0x0), (0x2f8fe, 0x6c67, 0x0), (0x2f8ff, 0x6d16, 0x0), (0x2f900, 0x6d3e, 0x0),
     (0x2f901, 0x6d77, 0x0), (0x2f902, 0x6d41, 0x0), (0x2f903, 0x6d69, 0x0), (0x2f904, 0x6d78, 0x0),
     (0x2f905, 0x6d85, 0x0), (0x2f906, 0x23d1e, 0x0), (0x2f907, 0x6d34, 0x0), (0x2f908, 0x6e2f, 0x0),
     (0x2f909, 0x6e6e, 0x0), (0x2f90a, 0x3d33, 0x0), (0x2f90b, 0x6ecb, 0x0), (0x2f90c, 0x6ec7, 0x0),
     (0x2f90d, 0x23ed1, 0x0), (0x2f90e, 0x6df9, 0x0), (0x2f90f, 0x6f6e, 0x0), (0x2f910, 0x23f5e, 0x0),
     (0x2f911, 0x23f8e, 0x0), (0x2f912, 0x6fc6, 0x0), (0x2f913, 0x7039, 0x0), (0x2f914, 0x701e, 0x0),
     (0x2f915, 0x701b, 0x0), (0x2f916, 0x3d96, 0x0), (0x2f917, 0x704a, 0x0), (0x2f918, 0x707d, 0x0),
     (0x2f919, 0x7077, 0x0), (0x2f91a, 0x70ad, 0x0), (0x2f91b, 0x20525, 0x0), (0x2f91c, 0x7145, 0x0),
     (0x2f91d, 0x24263, 0x0), (0x2f91e, 0x719c, 0x0), (0x2f91f, 0x243ab, 0x0), (0x2f920, 0x7228, 0x0),
     (0x2f921, 0x7235, 0x0), (0x2f922, 0x7250, 0x0), (0x2f923, 0x24608, 0x0), (0x2f924, 0x7280, 0x0),
     (0x2f925, 0x7295, 0x0), (0x2f926, 0x24735, 0x0), (0x2f927, 0x24814, 0x0), (0x2f928, 0x737a, 0x0),
     (0x2f929, 0x738b, 0x0), (0x2f92a, 0x3eac, 0x0), (0x2f92b, 0x73a5, 0x0), (0x2f92c, 0x3eb8, 0x0),
     (0x2f92d, 0x3eb8, 0x0), (0x2f92e, 0x7447, 0x0), (0x2f92f, 0x745c, 0x0), (0x2f930, 0x7471, 0x0),
     (0x2f931, 0x7485, 0x0), (0x2f932, 0x74ca, 0x0), (0x2f933, 0x3f1b, 0x0), (0x2f934, 0x7524, 0x0),
     (0x2f935, 0x24c36, 0x0), (0x2f936, 0x753e, 0x0), (0x2f937, 0x24c92, 0x0), (0x2f938, 0x7570, 0x0),
     (0x2f939, 0x2219f, 0x0), (0x2f93a, 0x7610, 0x0), (0x2f93b, 0x24fa1, 0x0), (0x2f93c, 0x24fb8, 0x0),
     (0x2f93d, 0x25044, 0x0), (0x2f93e, 0x3ffc, 0x0), (0x2f93f, 0x4008, 0x0), (0x2f940, 0x76f4, 0x0),
     (0x2f941, 0x250f3, 0x0), (0x2f942, 0x250f2, 0x0), (0x2f943, 0x25119, 0x0), (0x2f944, 0x25133, 0x0),
     (0x2f945, 0x771e, 0x0), (0x2f946, 0x771f, 0x0), (0x2f947, 0x771f, 0x0), (0x2f948, 0x774a, 0x0),
     (0x2f949, 0x4039, 0x0), (0x2f94a, 0x778b, 0x0), (0x2f94b, 0x4046, 0x0), (0x2f94c, 0x4096, 0x0),
     (0x2f94d, 0x2541d, 0x0), (0x2f94e, 0x784e, 0x0), (0x2f94f, 0x788c, 0x0), (0x2f950, 0x78cc, 0x0),
     (0x2f951, 0x40e3, 0x0), (0x2f952, 0x25626, 0x0), (0x2f953, 0x7956, 0x0), (0x2f954, 0x2569a, 0x0),
     (0x2f955, 0x256c5, 0x0), (0x2f956, 0x798f, 0x0), (0x2f957, 0x79eb, 0x0), (0x2f958, 0x412f, 0x0),
     (0x2f959, 0x7a40, 0x0), (0x2f95a, 0x7a4a, 0x0), (0x2f95b, 0x7a4f, 0x0), (0x2f95c, 0x2597c, 0x0),
     (0x2f95d, 0x25aa7, 0x0), (0x2f95e, 0x25aa7, 0x0), (0x2f95f, 0x7aee, 0x0), (0x2f960, 0x4202, 0x0),
     (0x2f961, 0x25bab, 0x0), (0x2f962, 0x7bc6, 0x0), (0x2f963, 0x7bc9, 0x0), (0x2f964, 0x4227, 0x0),
     (0x2f965, 0x25c80, 0x0), (0x2f966, 0x7cd2, 0x0), (0x2f967, 0x42a0, 0x0), (0x2f968, 0x7ce8, 0x0),
     (0x2f969, 0x7ce3, 0x0), (0x2f96a, 0x7d00, 0x0), (0x2f96b, 0x25f86, 0x0), (0x2f96c, 0x7d63, 0x0),
     (0x2f96d, 0x4301, 0x0), (0x2f96e, 0x7dc7, 0x0), (0x2f96f, 0x7e02, 0x0), (0x2f970, 0x7e45, 0x0),
     (0x2f971, 0x4334, 0x0), (0x2f972, 0x26228, 0x0), (0x2f973, 0x26247, 0x0), (0x2f974, 0x4359, 0x0),
     (0x2f975, 0x262d9, 0x0), (0x2f976, 0x7f7a, 0x0), (0x2f977, 0x2633e, 0x0), (0x2f978, 0x7f95, 0x0),
     (0x2f979, 0x7ffa, 0x0), (0x2f97a, 0x8005, 0x0), (0x2f97b, 0x264da, 0x0), (0x2f97c, 0x26523, 0x0),
     (0x2f97d, 0x8060, 0x0), (0x2f97e, 0x265a8, 0x0), (0x2f97f, 0x8070, 0x0), (0x2f980, 0x2335f, 0x0),
     (0x2f981, 0x43d5, 0x0), (0x2f982, 0x80b2, 0x0), (0x2f983, 0x8103, 0x0), (0x2f984, 0x440b, 0x0),
     (0x2f985, 0x813e, 0x0), (0x2f986, 0x5ab5, 0x0), (0x2f987, 0x267a7, 0x0), (0x2f988, 0x267b5, 0x0),
     (0x2f989, 0x23393, 0x0), (0x2f98a, 0x2339c, 0x0), (0x2f98b, 0x8201, 0x0), (0x2f98c, 0x8204, 0x0),
     (0x2f98d, 0x8f9e, 0x0), (0x2f98e, 0x446b, 0x0), (0x2f98f, 0x8291, 0x0), (0x2f990, 0x828b, 0x0),
     (0x2f991, 0x829d, 0x0), (0x2f992, 0x52b3, 0x0), (0x2f993, 0x82b1, 0x0), (0x2f994, 0x82b3, 0x0),
     (0x2f995, 0x82bd, 0x0), (0x2f996, 0x82e6, 0x0), (0x2f997, 0x26b3c, 0x0), (0x2f998, 0x82e5, 0x0),
     (0x2f999, 0x831d, 0x0), (0x2f99a, 0x8363, 0x0), (0x2f99b, 0x83ad, 0x0), (0x2f99c, 0x8323, 0x0),
     (0x2f99d, 0x83bd, 0x0), (0x2f99e, 0x83e7, 0x0), (0x2f99f, 0x8457, 0x0), (0x2f9a0, 0x8353, 0x0),
     (0x2f9a1, 0x83ca, 0x0), (0x2f9a2, 0x83cc, 0x0), (0x2f9a3, 0x83dc, 0x0), (0x2f9a4, 0x26c36, 0x0),
     (0x2f9a5, 0x26d6b, 0x0), (0x2f9a6, 0x26cd5, 0x0), (0x2f9a7, 0x452b, 0x0), (0x2f9a8, 0x84f1, 0x0),
     (0x2f9a9, 0x84f3, 0x0), (0x2f9aa, 0x8516, 0x0), (0x2f9ab, 0x273ca, 0x0), (0x2f9ac, 0x8564, 0x0),
     (0x2f9ad, 0x26f2c, 0x0), (0x2f9ae, 0x455d, 0x0), (0x2f9af, 0x4561, 0x0), (0x2f9b0, 0x26fb1, 0x0),
     (0x2f9b1, 0x270d2, 0x0), (0x2f9b2, 0x456b, 0x0), (0x2f9b3, 0x8650, 0x0), (0x2f9b4, 0x865c, 0x0),
     (0x2f9b5, 0x8667, 0x0), (0x2f9b6, 0x8669, 0x0), (0x2f9b7, 0x86a9, 0x0), (0x2f9b8, 0x8688, 0x0),
     (0x2f9b9, 0x870e, 0x0), (0x2f9ba, 0x86e2, 0x0), (0x2f9bb, 0x8779, 0x0), (0x2f9bc, 0x8728, 0x0),
     (0x2f9bd, 0x876b, 0x0), (0x2f9be, 0x8786, 0x0), (0x2f9bf, 0x45d7, 0x0), (0x2f9c0, 0x87e1, 0x0),
     (0x2f9c1, 0x8801, 0x0), (0x2f9c2, 0x45f9, 0x0), (0x2f9c3, 0x8860, 0x0), (0x2f9c4, 0x8863, 0x0),
     (0x2f9c5, 0x27667, 0x0), (0x2f9c6, 0x88d7, 0x0), (0x2f9c7, 0x88de, 0x0), (0x2f9c8, 0x4635, 0x0),
     (0x2f9c9, 0x88fa, 0x0), (0x2f9ca, 0x34bb, 0x0), (0x2f9cb, 0x278ae, 0x0), (0x2f9cc, 0x27966, 0x0),
     (0x2f9cd, 0x46be, 0x0), (0x2f9ce, 0x46c7, 0x0), (0x2f9cf, 0x8aa0, 0x0), (0x2f9d0, 0x8aed, 0x0),
     (0x2f9d1, 0x8b8a, 0x0), (0x2f9d2, 0x8c55, 0x0), (0x2f9d3, 0x27ca8, 0x0), (0x2f9d4, 0x8cab, 0x0),
     (0x2f9d5, 0x8cc1, 0x0), (0x2f9d6, 0x8d1b, 0x0), (0x2f9d7, 0x8d77, 0x0), (0x2f9d8, 0x27f2f, 0x0),
     (0x2f9d9, 0x20804, 0x0), (0x2f9da, 0x8dcb, 0x0), (0x2f9db, 0x8dbc, 0x0), (0x2f9dc, 0x8df0, 0x0),
     (0x2f9dd, 0x208de, 0x0), (0x2f9de, 0x8ed4, 0x0), (0x2f9df, 0x8f38, 0x0), (0x2f9e0, 0x285d2, 0x0),
     (0x2f9e1, 0x285ed, 0x0), (0x2f9e2, 0x9094, 0x0), (0x2f9e3, 0x90f1, 0x0), (0x2f9e4, 0x9111, 0x0),
     (0x2f9e5, 0x2872e, 0x0), (0x2f9e6, 0x911b, 0x0), (0x2f9e7, 0x9238, 0x0), (0x2f9e8, 0x92d7, 0x0),
     (0x2f9e9, 0x92d8, 0x0), (0x2f9ea, 0x927c, 0x0), (0x2f9eb, 0x93f9, 0x0), (0x2f9ec, 0x9415, 0x0),
     (0x2f9ed, 0x28bfa, 0x0), (0x2f9ee, 0x958b, 0x0), (0x2f9ef, 0x4995, 0x0), (0x2f9f0, 0x95b7, 0x0),
     (0x2f9f1, 0x28d77, 0x0), (0x2f9f2, 0x49e6, 0x0), (0x2f9f3, 0x96c3, 0x0), (0x2f9f4, 0x5db2, 0x0),
     (0x2f9f5, 0x9723, 0x0), (0x2f9f6, 0x29145, 0x0), (0x2f9f7, 0x2921a, 0x0), (0x2f9f8, 0x4a6e, 0x0),
     (0x2f9f9, 0x4a76, 0x0), (0x2f9fa, 0x97e0, 0x0), (0x2f9fb, 0x2940a, 0x0), (0x2f9fc, 0x4ab2, 0x0),
     (0x2f9fd, 0x29496, 0x0), (0x2f9fe, 0x980b, 0x0), (0x2f9ff, 0x980b, 0x0), (0x2fa00, 0x9829, 0x0),
     (0x2fa01, 0x295b6, 0x0), (0x2fa02, 0x98e2, 0x0), (0x2fa03, 0x4b33, 0x0), (0x2fa04, 0x9929, 0x0),
     (0x2fa05, 0x99a7, 0x0), (0x2fa06, 0x99c2, 0x0), (0x2fa07, 0x99fe, 0x0), (0x2fa08, 0x4bce, 0x0),
     (0x2fa09, 0x29b30, 0x0), (0x2fa0a, 0x9b12, 0x0), (0x2fa0b, 0x9c40, 0x0), (0x2fa0c, 0x9cfd, 0x0),
     (0x2fa0d, 0x4cce, 0x0), (0x2fa0e, 0x4ced, 0x0), (0x2fa0f, 0x9d67, 0x0), (0x2fa10, 0x2a0ce, 0x0),
     (0x2fa11, 0x4cf8, 0x0), (0x2fa12, 0x2a105, 0x0), (0x2fa13, 0x2a20e, 0x0), (0x2fa14, 0x2a291, 0x0),
     (0x2fa15, 0x9ebb, 0x0), (0x2fa16, 0x4d56, 0x0), (0x2fa17, 0x9ef9, 0x0), (0x2fa18, 0x9efe, 0x0),
     (0x2fa19, 0x9f05, 0x0), (0x2fa1a, 0x9f0f, 0x0), (0x2fa1b, 0x9f16, 0x0), (0x2fa1c, 0x9f3b, 0x0),
     (0x2fa1d, 0x2a600, 0x0)]"

definition zipCanonDecomp :: "(rune \<times> rune \<times> rune) list" where
  "zipCanonDecomp = zipCanonDecomp_1 @ zipCanonDecomp_2 @ zipCanonDecomp_3 @ zipCanonDecomp_4"

definition zipCompose_1 :: "(rune \<times> rune \<times> rune) list" where
  "zipCompose_1 = [
     (0x3c, 0x338, 0x226e), (0x3d, 0x338, 0x2260), (0x3e, 0x338, 0x226f), (0x41, 0x300, 0xc0),
     (0x41, 0x301, 0xc1), (0x41, 0x302, 0xc2), (0x41, 0x303, 0xc3), (0x41, 0x304, 0x100),
     (0x41, 0x306, 0x102), (0x41, 0x307, 0x226), (0x41, 0x308, 0xc4), (0x41, 0x309, 0x1ea2),
     (0x41, 0x30a, 0xc5), (0x41, 0x30c, 0x1cd), (0x41, 0x30f, 0x200), (0x41, 0x311, 0x202),
     (0x41, 0x323, 0x1ea0), (0x41, 0x325, 0x1e00), (0x41, 0x328, 0x104), (0x42, 0x307, 0x1e02),
     (0x42, 0x323, 0x1e04), (0x42, 0x331, 0x1e06), (0x43, 0x301, 0x106), (0x43, 0x302, 0x108),
     (0x43, 0x307, 0x10a), (0x43, 0x30c, 0x10c), (0x43, 0x327, 0xc7), (0x44, 0x307, 0x1e0a),
     (0x44, 0x30c, 0x10e), (0x44, 0x323, 0x1e0c), (0x44, 0x327, 0x1e10), (0x44, 0x32d, 0x1e12),
     (0x44, 0x331, 0x1e0e), (0x45, 0x300, 0xc8), (0x45, 0x301, 0xc9), (0x45, 0x302, 0xca),
     (0x45, 0x303, 0x1ebc), (0x45, 0x304, 0x112), (0x45, 0x306, 0x114), (0x45, 0x307, 0x116),
     (0x45, 0x308, 0xcb), (0x45, 0x309, 0x1eba), (0x45, 0x30c, 0x11a), (0x45, 0x30f, 0x204),
     (0x45, 0x311, 0x206), (0x45, 0x323, 0x1eb8), (0x45, 0x327, 0x228), (0x45, 0x328, 0x118),
     (0x45, 0x32d, 0x1e18), (0x45, 0x330, 0x1e1a), (0x46, 0x307, 0x1e1e), (0x47, 0x301, 0x1f4),
     (0x47, 0x302, 0x11c), (0x47, 0x304, 0x1e20), (0x47, 0x306, 0x11e), (0x47, 0x307, 0x120),
     (0x47, 0x30c, 0x1e6), (0x47, 0x327, 0x122), (0x48, 0x302, 0x124), (0x48, 0x307, 0x1e22),
     (0x48, 0x308, 0x1e26), (0x48, 0x30c, 0x21e), (0x48, 0x323, 0x1e24), (0x48, 0x327, 0x1e28),
     (0x48, 0x32e, 0x1e2a), (0x49, 0x300, 0xcc), (0x49, 0x301, 0xcd), (0x49, 0x302, 0xce),
     (0x49, 0x303, 0x128), (0x49, 0x304, 0x12a), (0x49, 0x306, 0x12c), (0x49, 0x307, 0x130),
     (0x49, 0x308, 0xcf), (0x49, 0x309, 0x1ec8), (0x49, 0x30c, 0x1cf), (0x49, 0x30f, 0x208),
     (0x49, 0x311, 0x20a), (0x49, 0x323, 0x1eca), (0x49, 0x328, 0x12e), (0x49, 0x330, 0x1e2c),
     (0x4a, 0x302, 0x134), (0x4b, 0x301, 0x1e30), (0x4b, 0x30c, 0x1e8), (0x4b, 0x323, 0x1e32),
     (0x4b, 0x327, 0x136), (0x4b, 0x331, 0x1e34), (0x4c, 0x301, 0x139), (0x4c, 0x30c, 0x13d),
     (0x4c, 0x323, 0x1e36), (0x4c, 0x327, 0x13b), (0x4c, 0x32d, 0x1e3c), (0x4c, 0x331, 0x1e3a),
     (0x4d, 0x301, 0x1e3e), (0x4d, 0x307, 0x1e40), (0x4d, 0x323, 0x1e42), (0x4e, 0x300, 0x1f8),
     (0x4e, 0x301, 0x143), (0x4e, 0x303, 0xd1), (0x4e, 0x307, 0x1e44), (0x4e, 0x30c, 0x147),
     (0x4e, 0x323, 0x1e46), (0x4e, 0x327, 0x145), (0x4e, 0x32d, 0x1e4a), (0x4e, 0x331, 0x1e48),
     (0x4f, 0x300, 0xd2), (0x4f, 0x301, 0xd3), (0x4f, 0x302, 0xd4), (0x4f, 0x303, 0xd5),
     (0x4f, 0x304, 0x14c), (0x4f, 0x306, 0x14e), (0x4f, 0x307, 0x22e), (0x4f, 0x308, 0xd6),
     (0x4f, 0x309, 0x1ece), (0x4f, 0x30b, 0x150), (0x4f, 0x30c, 0x1d1), (0x4f, 0x30f, 0x20c),
     (0x4f, 0x311, 0x20e), (0x4f, 0x31b, 0x1a0), (0x4f, 0x323, 0x1ecc), (0x4f, 0x328, 0x1ea),
     (0x50, 0x301, 0x1e54), (0x50, 0x307, 0x1e56), (0x52, 0x301, 0x154), (0x52, 0x307, 0x1e58),
     (0x52, 0x30c, 0x158), (0x52, 0x30f, 0x210), (0x52, 0x311, 0x212), (0x52, 0x323, 0x1e5a),
     (0x52, 0x327, 0x156), (0x52, 0x331, 0x1e5e), (0x53, 0x301, 0x15a), (0x53, 0x302, 0x15c),
     (0x53, 0x307, 0x1e60), (0x53, 0x30c, 0x160), (0x53, 0x323, 0x1e62), (0x53, 0x326, 0x218),
     (0x53, 0x327, 0x15e), (0x54, 0x307, 0x1e6a), (0x54, 0x30c, 0x164), (0x54, 0x323, 0x1e6c),
     (0x54, 0x326, 0x21a), (0x54, 0x327, 0x162), (0x54, 0x32d, 0x1e70), (0x54, 0x331, 0x1e6e),
     (0x55, 0x300, 0xd9), (0x55, 0x301, 0xda), (0x55, 0x302, 0xdb), (0x55, 0x303, 0x168),
     (0x55, 0x304, 0x16a), (0x55, 0x306, 0x16c), (0x55, 0x308, 0xdc), (0x55, 0x309, 0x1ee6),
     (0x55, 0x30a, 0x16e), (0x55, 0x30b, 0x170), (0x55, 0x30c, 0x1d3), (0x55, 0x30f, 0x214),
     (0x55, 0x311, 0x216), (0x55, 0x31b, 0x1af), (0x55, 0x323, 0x1ee4), (0x55, 0x324, 0x1e72),
     (0x55, 0x328, 0x172), (0x55, 0x32d, 0x1e76), (0x55, 0x330, 0x1e74), (0x56, 0x303, 0x1e7c),
     (0x56, 0x323, 0x1e7e), (0x57, 0x300, 0x1e80), (0x57, 0x301, 0x1e82), (0x57, 0x302, 0x174),
     (0x57, 0x307, 0x1e86), (0x57, 0x308, 0x1e84), (0x57, 0x323, 0x1e88), (0x58, 0x307, 0x1e8a),
     (0x58, 0x308, 0x1e8c), (0x59, 0x300, 0x1ef2), (0x59, 0x301, 0xdd), (0x59, 0x302, 0x176),
     (0x59, 0x303, 0x1ef8), (0x59, 0x304, 0x232), (0x59, 0x307, 0x1e8e), (0x59, 0x308, 0x178),
     (0x59, 0x309, 0x1ef6), (0x59, 0x323, 0x1ef4), (0x5a, 0x301, 0x179), (0x5a, 0x302, 0x1e90),
     (0x5a, 0x307, 0x17b), (0x5a, 0x30c, 0x17d), (0x5a, 0x323, 0x1e92), (0x5a, 0x331, 0x1e94),
     (0x61, 0x300, 0xe0), (0x61, 0x301, 0xe1), (0x61, 0x302, 0xe2), (0x61, 0x303, 0xe3),
     (0x61, 0x304, 0x101), (0x61, 0x306, 0x103), (0x61, 0x307, 0x227), (0x61, 0x308, 0xe4),
     (0x61, 0x309, 0x1ea3), (0x61, 0x30a, 0xe5), (0x61, 0x30c, 0x1ce), (0x61, 0x30f, 0x201),
     (0x61, 0x311, 0x203), (0x61, 0x323, 0x1ea1), (0x61, 0x325, 0x1e01), (0x61, 0x328, 0x105),
     (0x62, 0x307, 0x1e03), (0x62, 0x323, 0x1e05), (0x62, 0x331, 0x1e07), (0x63, 0x301, 0x107),
     (0x63, 0x302, 0x109), (0x63, 0x307, 0x10b), (0x63, 0x30c, 0x10d), (0x63, 0x327, 0xe7),
     (0x64, 0x307, 0x1e0b), (0x64, 0x30c, 0x10f), (0x64, 0x323, 0x1e0d), (0x64, 0x327, 0x1e11),
     (0x64, 0x32d, 0x1e13), (0x64, 0x331, 0x1e0f), (0x65, 0x300, 0xe8), (0x65, 0x301, 0xe9),
     (0x65, 0x302, 0xea), (0x65, 0x303, 0x1ebd), (0x65, 0x304, 0x113), (0x65, 0x306, 0x115),
     (0x65, 0x307, 0x117), (0x65, 0x308, 0xeb), (0x65, 0x309, 0x1ebb), (0x65, 0x30c, 0x11b),
     (0x65, 0x30f, 0x205), (0x65, 0x311, 0x207), (0x65, 0x323, 0x1eb9), (0x65, 0x327, 0x229),
     (0x65, 0x328, 0x119), (0x65, 0x32d, 0x1e19), (0x65, 0x330, 0x1e1b), (0x66, 0x307, 0x1e1f),
     (0x67, 0x301, 0x1f5), (0x67, 0x302, 0x11d), (0x67, 0x304, 0x1e21), (0x67, 0x306, 0x11f),
     (0x67, 0x307, 0x121), (0x67, 0x30c, 0x1e7), (0x67, 0x327, 0x123), (0x68, 0x302, 0x125),
     (0x68, 0x307, 0x1e23), (0x68, 0x308, 0x1e27), (0x68, 0x30c, 0x21f), (0x68, 0x323, 0x1e25),
     (0x68, 0x327, 0x1e29), (0x68, 0x32e, 0x1e2b), (0x68, 0x331, 0x1e96), (0x69, 0x300, 0xec),
     (0x69, 0x301, 0xed), (0x69, 0x302, 0xee), (0x69, 0x303, 0x129), (0x69, 0x304, 0x12b),
     (0x69, 0x306, 0x12d), (0x69, 0x308, 0xef), (0x69, 0x309, 0x1ec9), (0x69, 0x30c, 0x1d0),
     (0x69, 0x30f, 0x209), (0x69, 0x311, 0x20b), (0x69, 0x323, 0x1ecb), (0x69, 0x328, 0x12f),
     (0x69, 0x330, 0x1e2d), (0x6a, 0x302, 0x135), (0x6a, 0x30c, 0x1f0), (0x6b, 0x301, 0x1e31),
     (0x6b, 0x30c, 0x1e9), (0x6b, 0x323, 0x1e33), (0x6b, 0x327, 0x137), (0x6b, 0x331, 0x1e35),
     (0x6c, 0x301, 0x13a), (0x6c, 0x30c, 0x13e), (0x6c, 0x323, 0x1e37), (0x6c, 0x327, 0x13c),
     (0x6c, 0x32d, 0x1e3d), (0x6c, 0x331, 0x1e3b), (0x6d, 0x301, 0x1e3f), (0x6d, 0x307, 0x1e41),
     (0x6d, 0x323, 0x1e43), (0x6e, 0x300, 0x1f9), (0x6e, 0x301, 0x144), (0x6e, 0x303, 0xf1),
     (0x6e, 0x307, 0x1e45), (0x6e, 0x30c, 0x148), (0x6e, 0x323, 0x1e47), (0x6e, 0x327, 0x146),
     (0x6e, 0x32d, 0x1e4b), (0x6e, 0x331, 0x1e49), (0x6f, 0x300, 0xf2), (0x6f, 0x301, 0xf3),
     (0x6f, 0x302, 0xf4), (0x6f, 0x303, 0xf5), (0x6f, 0x304, 0x14d), (0x6f, 0x306, 0x14f),
     (0x6f, 0x307, 0x22f), (0x6f, 0x308, 0xf6), (0x6f, 0x309, 0x1ecf), (0x6f, 0x30b, 0x151),
     (0x6f, 0x30c, 0x1d2), (0x6f, 0x30f, 0x20d), (0x6f, 0x311, 0x20f), (0x6f, 0x31b, 0x1a1),
     (0x6f, 0x323, 0x1ecd), (0x6f, 0x328, 0x1eb), (0x70, 0x301, 0x1e55), (0x70, 0x307, 0x1e57),
     (0x72, 0x301, 0x155), (0x72, 0x307, 0x1e59), (0x72, 0x30c, 0x159), (0x72, 0x30f, 0x211),
     (0x72, 0x311, 0x213), (0x72, 0x323, 0x1e5b), (0x72, 0x327, 0x157), (0x72, 0x331, 0x1e5f),
     (0x73, 0x301, 0x15b), (0x73, 0x302, 0x15d), (0x73, 0x307, 0x1e61), (0x73, 0x30c, 0x161),
     (0x73, 0x323, 0x1e63), (0x73, 0x326, 0x219), (0x73, 0x327, 0x15f), (0x74, 0x307, 0x1e6b),
     (0x74, 0x308, 0x1e97), (0x74, 0x30c, 0x165), (0x74, 0x323, 0x1e6d), (0x74, 0x326, 0x21b),
     (0x74, 0x327, 0x163), (0x74, 0x32d, 0x1e71), (0x74, 0x331, 0x1e6f), (0x75, 0x300, 0xf9),
     (0x75, 0x301, 0xfa), (0x75, 0x302, 0xfb), (0x75, 0x303, 0x169), (0x75, 0x304, 0x16b),
     (0x75, 0x306, 0x16d), (0x75, 0x308, 0xfc), (0x75, 0x309, 0x1ee7), (0x75, 0x30a, 0x16f),
     (0x75, 0x30b, 0x171), (0x75, 0x30c, 0x1d4), (0x75, 0x30f, 0x215), (0x75, 0x311, 0x217),
     (0x75, 0x31b, 0x1b0), (0x75, 0x323, 0x1ee5), (0x75, 0x324, 0x1e73), (0x75, 0x328, 0x173),
     (0x75, 0x32d, 0x1e77), (0x75, 0x330, 0x1e75), (0x76, 0x303, 0x1e7d), (0x76, 0x323, 0x1e7f),
     (0x77, 0x300, 0x1e81), (0x77, 0x301, 0x1e83), (0x77, 0x302, 0x175), (0x77, 0x307, 0x1e87),
     (0x77, 0x308, 0x1e85), (0x77, 0x30a, 0x1e98), (0x77, 0x323, 0x1e89), (0x78, 0x307, 0x1e8b),
     (0x78, 0x308, 0x1e8d), (0x79, 0x300, 0x1ef3), (0x79, 0x301, 0xfd), (0x79, 0x302, 0x177),
     (0x79, 0x303, 0x1ef9), (0x79, 0x304, 0x233), (0x79, 0x307, 0x1e8f), (0x79, 0x308, 0xff),
     (0x79, 0x309, 0x1ef7), (0x79, 0x30a, 0x1e99), (0x79, 0x323, 0x1ef5), (0x7a, 0x301, 0x17a),
     (0x7a, 0x302, 0x1e91), (0x7a, 0x307, 0x17c), (0x7a, 0x30c, 0x17e), (0x7a, 0x323, 0x1e93),
     (0x7a, 0x331, 0x1e95), (0xa8, 0x300, 0x1fed), (0xa8, 0x301, 0x385), (0xa8, 0x342, 0x1fc1),
     (0xc2, 0x300, 0x1ea6), (0xc2, 0x301, 0x1ea4), (0xc2, 0x303, 0x1eaa), (0xc2, 0x309, 0x1ea8),
     (0xc4, 0x304, 0x1de), (0xc5, 0x301, 0x1fa), (0xc6, 0x301, 0x1fc), (0xc6, 0x304, 0x1e2),
     (0xc7, 0x301, 0x1e08), (0xca, 0x300, 0x1ec0), (0xca, 0x301, 0x1ebe), (0xca, 0x303, 0x1ec4),
     (0xca, 0x309, 0x1ec2), (0xcf, 0x301, 0x1e2e), (0xd4, 0x300, 0x1ed2), (0xd4, 0x301, 0x1ed0),
     (0xd4, 0x303, 0x1ed6), (0xd4, 0x309, 0x1ed4), (0xd5, 0x301, 0x1e4c), (0xd5, 0x304, 0x22c),
     (0xd5, 0x308, 0x1e4e), (0xd6, 0x304, 0x22a), (0xd8, 0x301, 0x1fe), (0xdc, 0x300, 0x1db),
     (0xdc, 0x301, 0x1d7), (0xdc, 0x304, 0x1d5), (0xdc, 0x30c, 0x1d9), (0xe2, 0x300, 0x1ea7),
     (0xe2, 0x301, 0x1ea5), (0xe2, 0x303, 0x1eab), (0xe2, 0x309, 0x1ea9), (0xe4, 0x304, 0x1df),
     (0xe5, 0x301, 0x1fb), (0xe6, 0x301, 0x1fd), (0xe6, 0x304, 0x1e3), (0xe7, 0x301, 0x1e09),
     (0xea, 0x300, 0x1ec1), (0xea, 0x301, 0x1ebf), (0xea, 0x303, 0x1ec5), (0xea, 0x309, 0x1ec3),
     (0xef, 0x301, 0x1e2f), (0xf4, 0x300, 0x1ed3), (0xf4, 0x301, 0x1ed1), (0xf4, 0x303, 0x1ed7),
     (0xf4, 0x309, 0x1ed5), (0xf5, 0x301, 0x1e4d), (0xf5, 0x304, 0x22d), (0xf5, 0x308, 0x1e4f),
     (0xf6, 0x304, 0x22b), (0xf8, 0x301, 0x1ff), (0xfc, 0x300, 0x1dc), (0xfc, 0x301, 0x1d8),
     (0xfc, 0x304, 0x1d6), (0xfc, 0x30c, 0x1da), (0x102, 0x300, 0x1eb0), (0x102, 0x301, 0x1eae),
     (0x102, 0x303, 0x1eb4), (0x102, 0x309, 0x1eb2), (0x103, 0x300, 0x1eb1), (0x103, 0x301, 0x1eaf),
     (0x103, 0x303, 0x1eb5), (0x103, 0x309, 0x1eb3), (0x112, 0x300, 0x1e14), (0x112, 0x301, 0x1e16),
     (0x113, 0x300, 0x1e15), (0x113, 0x301, 0x1e17), (0x14c, 0x300, 0x1e50), (0x14c, 0x301, 0x1e52),
     (0x14d, 0x300, 0x1e51), (0x14d, 0x301, 0x1e53), (0x15a, 0x307, 0x1e64), (0x15b, 0x307, 0x1e65),
     (0x160, 0x307, 0x1e66), (0x161, 0x307, 0x1e67), (0x168, 0x301, 0x1e78), (0x169, 0x301, 0x1e79),
     (0x16a, 0x308, 0x1e7a), (0x16b, 0x308, 0x1e7b), (0x17f, 0x307, 0x1e9b), (0x1a0, 0x300, 0x1edc),
     (0x1a0, 0x301, 0x1eda), (0x1a0, 0x303, 0x1ee0), (0x1a0, 0x309, 0x1ede), (0x1a0, 0x323, 0x1ee2),
     (0x1a1, 0x300, 0x1edd), (0x1a1, 0x301, 0x1edb), (0x1a1, 0x303, 0x1ee1), (0x1a1, 0x309, 0x1edf),
     (0x1a1, 0x323, 0x1ee3), (0x1af, 0x300, 0x1eea), (0x1af, 0x301, 0x1ee8), (0x1af, 0x303, 0x1eee),
     (0x1af, 0x309, 0x1eec), (0x1af, 0x323, 0x1ef0), (0x1b0, 0x300, 0x1eeb), (0x1b0, 0x301, 0x1ee9),
     (0x1b0, 0x303, 0x1eef), (0x1b0, 0x309, 0x1eed), (0x1b0, 0x323, 0x1ef1), (0x1b7, 0x30c, 0x1ee),
     (0x1ea, 0x304, 0x1ec), (0x1eb, 0x304, 0x1ed), (0x226, 0x304, 0x1e0), (0x227, 0x304, 0x1e1),
     (0x228, 0x306, 0x1e1c), (0x229, 0x306, 0x1e1d), (0x22e, 0x304, 0x230), (0x22f, 0x304, 0x231),
     (0x292, 0x30c, 0x1ef), (0x391, 0x300, 0x1fba), (0x391, 0x301, 0x386), (0x391, 0x304, 0x1fb9),
     (0x391, 0x306, 0x1fb8), (0x391, 0x313, 0x1f08), (0x391, 0x314, 0x1f09), (0x391, 0x345, 0x1fbc),
     (0x395, 0x300, 0x1fc8), (0x395, 0x301, 0x388), (0x395, 0x313, 0x1f18), (0x395, 0x314, 0x1f19),
     (0x397, 0x300, 0x1fca), (0x397, 0x301, 0x389), (0x397, 0x313, 0x1f28), (0x397, 0x314, 0x1f29),
     (0x397, 0x345, 0x1fcc), (0x399, 0x300, 0x1fda), (0x399, 0x301, 0x38a), (0x399, 0x304, 0x1fd9),
     (0x399, 0x306, 0x1fd8), (0x399, 0x308, 0x3aa), (0x399, 0x313, 0x1f38), (0x399, 0x314, 0x1f39),
     (0x39f, 0x300, 0x1ff8), (0x39f, 0x301, 0x38c), (0x39f, 0x313, 0x1f48), (0x39f, 0x314, 0x1f49),
     (0x3a1, 0x314, 0x1fec), (0x3a5, 0x300, 0x1fea), (0x3a5, 0x301, 0x38e), (0x3a5, 0x304, 0x1fe9),
     (0x3a5, 0x306, 0x1fe8), (0x3a5, 0x308, 0x3ab), (0x3a5, 0x314, 0x1f59), (0x3a9, 0x300, 0x1ffa),
     (0x3a9, 0x301, 0x38f), (0x3a9, 0x313, 0x1f68), (0x3a9, 0x314, 0x1f69), (0x3a9, 0x345, 0x1ffc),
     (0x3ac, 0x345, 0x1fb4), (0x3ae, 0x345, 0x1fc4), (0x3b1, 0x300, 0x1f70), (0x3b1, 0x301, 0x3ac),
     (0x3b1, 0x304, 0x1fb1), (0x3b1, 0x306, 0x1fb0), (0x3b1, 0x313, 0x1f00), (0x3b1, 0x314, 0x1f01),
     (0x3b1, 0x342, 0x1fb6), (0x3b1, 0x345, 0x1fb3), (0x3b5, 0x300, 0x1f72), (0x3b5, 0x301, 0x3ad),
     (0x3b5, 0x313, 0x1f10), (0x3b5, 0x314, 0x1f11), (0x3b7, 0x300, 0x1f74), (0x3b7, 0x301, 0x3ae),
     (0x3b7, 0x313, 0x1f20), (0x3b7, 0x314, 0x1f21), (0x3b7, 0x342, 0x1fc6), (0x3b7, 0x345, 0x1fc3),
     (0x3b9, 0x300, 0x1f76), (0x3b9, 0x301, 0x3af), (0x3b9, 0x304, 0x1fd1), (0x3b9, 0x306, 0x1fd0),
     (0x3b9, 0x308, 0x3ca), (0x3b9, 0x313, 0x1f30), (0x3b9, 0x314, 0x1f31), (0x3b9, 0x342, 0x1fd6),
     (0x3bf, 0x300, 0x1f78), (0x3bf, 0x301, 0x3cc), (0x3bf, 0x313, 0x1f40), (0x3bf, 0x314, 0x1f41)]"

definition zipCompose_2 :: "(rune \<times> rune \<times> rune) list" where
  "zipCompose_2 = [
     (0x3c1, 0x313, 0x1fe4), (0x3c1, 0x314, 0x1fe5), (0x3c5, 0x300, 0x1f7a), (0x3c5, 0x301, 0x3cd),
     (0x3c5, 0x304, 0x1fe1), (0x3c5, 0x306, 0x1fe0), (0x3c5, 0x308, 0x3cb), (0x3c5, 0x313, 0x1f50),
     (0x3c5, 0x314, 0x1f51), (0x3c5, 0x342, 0x1fe6), (0x3c9, 0x300, 0x1f7c), (0x3c9, 0x301, 0x3ce),
     (0x3c9, 0x313, 0x1f60), (0x3c9, 0x314, 0x1f61), (0x3c9, 0x342, 0x1ff6), (0x3c9, 0x345, 0x1ff3),
     (0x3ca, 0x300, 0x1fd2), (0x3ca, 0x301, 0x390), (0x3ca, 0x342, 0x1fd7), (0x3cb, 0x300, 0x1fe2),
     (0x3cb, 0x301, 0x3b0), (0x3cb, 0x342, 0x1fe7), (0x3ce, 0x345, 0x1ff4), (0x3d2, 0x301, 0x3d3),
     (0x3d2, 0x308, 0x3d4), (0x406, 0x308, 0x407), (0x410, 0x306, 0x4d0), (0x410, 0x308, 0x4d2),
     (0x413, 0x301, 0x403), (0x415, 0x300, 0x400), (0x415, 0x306, 0x4d6), (0x415, 0x308, 0x401),
     (0x416, 0x306, 0x4c1), (0x416, 0x308, 0x4dc), (0x417, 0x308, 0x4de), (0x418, 0x300, 0x40d),
     (0x418, 0x304, 0x4e2), (0x418, 0x306, 0x419), (0x418, 0x308, 0x4e4), (0x41a, 0x301, 0x40c),
     (0x41e, 0x308, 0x4e6), (0x423, 0x304, 0x4ee), (0x423, 0x306, 0x40e), (0x423, 0x308, 0x4f0),
     (0x423, 0x30b, 0x4f2), (0x427, 0x308, 0x4f4), (0x42b, 0x308, 0x4f8), (0x42d, 0x308, 0x4ec),
     (0x430, 0x306, 0x4d1), (0x430, 0x308, 0x4d3), (0x433, 0x301, 0x453), (0x435, 0x300, 0x450),
     (0x435, 0x306, 0x4d7), (0x435, 0x308, 0x451), (0x436, 0x306, 0x4c2), (0x436, 0x308, 0x4dd),
     (0x437, 0x308, 0x4df), (0x438, 0x300, 0x45d), (0x438, 0x304, 0x4e3), (0x438, 0x306, 0x439),
     (0x438, 0x308, 0x4e5), (0x43a, 0x301, 0x45c), (0x43e, 0x308, 0x4e7), (0x443, 0x304, 0x4ef),
     (0x443, 0x306, 0x45e), (0x443, 0x308, 0x4f1), (0x443, 0x30b, 0x4f3), (0x447, 0x308, 0x4f5),
     (0x44b, 0x308, 0x4f9), (0x44d, 0x308, 0x4ed), (0x456, 0x308, 0x457), (0x474, 0x30f, 0x476),
     (0x475, 0x30f, 0x477), (0x4d8, 0x308, 0x4da), (0x4d9, 0x308, 0x4db), (0x4e8, 0x308, 0x4ea),
     (0x4e9, 0x308, 0x4eb), (0x627, 0x653, 0x622), (0x627, 0x654, 0x623), (0x627, 0x655, 0x625),
     (0x648, 0x654, 0x624), (0x64a, 0x654, 0x626), (0x6c1, 0x654, 0x6c2), (0x6d2, 0x654, 0x6d3),
     (0x6d5, 0x654, 0x6c0), (0x928, 0x93c, 0x929), (0x930, 0x93c, 0x931), (0x933, 0x93c, 0x934),
     (0x9c7, 0x9be, 0x9cb), (0x9c7, 0x9d7, 0x9cc), (0xb47, 0xb3e, 0xb4b), (0xb47, 0xb56, 0xb48),
     (0xb47, 0xb57, 0xb4c), (0xb92, 0xbd7, 0xb94), (0xbc6, 0xbbe, 0xbca), (0xbc6, 0xbd7, 0xbcc),
     (0xbc7, 0xbbe, 0xbcb), (0xc46, 0xc56, 0xc48), (0xcbf, 0xcd5, 0xcc0), (0xcc6, 0xcc2, 0xcca),
     (0xcc6, 0xcd5, 0xcc7), (0xcc6, 0xcd6, 0xcc8), (0xcca, 0xcd5, 0xccb), (0xd46, 0xd3e, 0xd4a),
     (0xd46, 0xd57, 0xd4c), (0xd47, 0xd3e, 0xd4b), (0xdd9, 0xdca, 0xdda), (0xdd9, 0xdcf, 0xddc),
     (0xdd9, 0xddf, 0xdde), (0xddc, 0xdca, 0xddd), (0x1025, 0x102e, 0x1026), (0x1b05, 0x1b35, 0x1b06),
     (0x1b07, 0x1b35, 0x1b08), (0x1b09, 0x1b35, 0x1b0a), (0x1b0b, 0x1b35, 0x1b0c), (0x1b0d, 0x1b35, 0x1b0e),
     (0x1b11, 0x1b35, 0x1b12), (0x1b3a, 0x1b35, 0x1b3b), (0x1b3c, 0x1b35, 0x1b3d), (0x1b3e, 0x1b35, 0x1b40),
     (0x1b3f, 0x1b35, 0x1b41), (0x1b42, 0x1b35, 0x1b43), (0x1e36, 0x304, 0x1e38), (0x1e37, 0x304, 0x1e39),
     (0x1e5a, 0x304, 0x1e5c), (0x1e5b, 0x304, 0x1e5d), (0x1e62, 0x307, 0x1e68), (0x1e63, 0x307, 0x1e69),
     (0x1ea0, 0x302, 0x1eac), (0x1ea0, 0x306, 0x1eb6), (0x1ea1, 0x302, 0x1ead), (0x1ea1, 0x306, 0x1eb7),
     (0x1eb8, 0x302, 0x1ec6), (0x1eb9, 0x302, 0x1ec7), (0x1ecc, 0x302, 0x1ed8), (0x1ecd, 0x302, 0x1ed9),
     (0x1f00, 0x300, 0x1f02), (0x1f00, 0x301, 0x1f04), (0x1f00, 0x342, 0x1f06), (0x1f00, 0x345, 0x1f80),
     (0x1f01, 0x300, 0x1f03), (0x1f01, 0x301, 0x1f05), (0x1f01, 0x342, 0x1f07), (0x1f01, 0x345, 0x1f81),
     (0x1f02, 0x345, 0x1f82), (0x1f03, 0x345, 0x1f83), (0x1f04, 0x345, 0x1f84), (0x1f05, 0x345, 0x1f85),
     (0x1f06, 0x345, 0x1f86), (0x1f07, 0x345, 0x1f87), (0x1f08, 0x300, 0x1f0a), (0x1f08, 0x301, 0x1f0c),
     (0x1f08, 0x342, 0x1f0e), (0x1f08, 0x345, 0x1f88), (0x1f09, 0x300, 0x1f0b), (0x1f09, 0x301, 0x1f0d),
     (0x1f09, 0x342, 0x1f0f), (0x1f09, 0x345, 0x1f89), (0x1f0a, 0x345, 0x1f8a), (0x1f0b, 0x345, 0x1f8b),
     (0x1f0c, 0x345, 0x1f8c), (0x1f0d, 0x345, 0x1f8d), (0x1f0e, 0x345, 0x1f8e), (0x1f0f, 0x345, 0x1f8f),
     (0x1f10, 0x300, 0x1f12), (0x1f10, 0x301, 0x1f14), (0x1f11, 0x300, 0x1f13), (0x1f11, 0x301, 0x1f15),
     (0x1f18, 0x300, 0x1f1a), (0x1f18, 0x301, 0x1f1c), (0x1f19, 0x300, 0x1f1b), (0x1f19, 0x301, 0x1f1d),
     (0x1f20, 0x300, 0x1f22), (0x1f20, 0x301, 0x1f24), (0x1f20, 0x342, 0x1f26), (0x1f20, 0x345, 0x1f90),
     (0x1f21, 0x300, 0x1f23), (0x1f21, 0x301, 0x1f25), (0x1f21, 0x342, 0x1f27), (0x1f21, 0x345, 0x1f91),
     (0x1f22, 0x345, 0x1f92), (0x1f23, 0x345, 0x1f93), (0x1f24, 0x345, 0x1f94), (0x1f25, 0x345, 0x1f95),
     (0x1f26, 0x345, 0x1f96), (0x1f27, 0x345, 0x1f97), (0x1f28, 0x300, 0x1f2a), (0x1f28, 0x301, 0x1f2c),
     (0x1f28, 0x342, 0x1f2e), (0x1f28, 0x345, 0x1f98), (0x1f29, 0x300, 0x1f2b), (0x1f29, 0x301, 0x1f2d),
     (0x1f29, 0x342, 0x1f2f), (0x1f29, 0x345, 0x1f99), (0x1f2a, 0x345, 0x1f9a), (0x1f2b, 0x345, 0x1f9b),
     (0x1f2c, 0x345, 0x1f9c), (0x1f2d, 0x345, 0x1f9d), (0x1f2e, 0x345, 0x1f9e), (0x1f2f, 0x345, 0x1f9f),
     (0x1f30, 0x300, 0x1f32), (0x1f30, 0x301, 0x1f34), (0x1f30, 0x342, 0x1f36), (0x1f31, 0x300, 0x1f33),
     (0x1f31, 0x301, 0x1f35), (0x1f31, 0x342, 0x1f37), (0x1f38, 0x300, 0x1f3a), (0x1f38, 0x301, 0x1f3c),
     (0x1f38, 0x342, 0x1f3e), (0x1f39, 0x300, 0x1f3b), (0x1f39, 0x301, 0x1f3d), (0x1f39, 0x342, 0x1f3f),
     (0x1f40, 0x300, 0x1f42), (0x1f40, 0x301, 0x1f44), (0x1f41, 0x300, 0x1f43), (0x1f41, 0x301, 0x1f45),
     (0x1f48, 0x300, 0x1f4a), (0x1f48, 0x301, 0x1f4c), (0x1f49, 0x300, 0x1f4b), (0x1f49, 0x301, 0x1f4d),
     (0x1f50, 0x300, 0x1f52), (0x1f50, 0x301, 0x1f54), (0x1f50, 0x342, 0x1f56), (0x1f51, 0x300, 0x1f53),
     (0x1f51, 0x301, 0x1f55), (0x1f51, 0x342, 0x1f57), (0x1f59, 0x300, 0x1f5b), (0x1f59, 0x301, 0x1f5d),
     (0x1f59, 0x342, 0x1f5f), (0x1f60, 0x300, 0x1f62), (0x1f60, 0x301, 0x1f64), (0x1f60, 0x342, 0x1f66),
     (0x1f60, 0x345, 0x1fa0), (0x1f61, 0x300, 0x1f63), (0x1f61, 0x301, 0x1f65), (0x1f61, 0x342, 0x1f67),
     (0x1f61, 0x345, 0x1fa1), (0x1f62, 0x345, 0x1fa2), (0x1f63, 0x345, 0x1fa3), (0x1f64, 0x345, 0x1fa4),
     (0x1f65, 0x345, 0x1fa5), (0x1f66, 0x345, 0x1fa6), (0x1f67, 0x345, 0x1fa7), (0x1f68, 0x300, 0x1f6a),
     (0x1f68, 0x301, 0x1f6c), (0x1f68, 0x342, 0x1f6e), (0x1f68, 0x345, 0x1fa8), (0x1f69, 0x300, 0x1f6b),
     (0x1f69, 0x301, 0x1f6d), (0x1f69, 0x342, 0x1f6f), (0x1f69, 0x345, 0x1fa9), (0x1f6a, 0x345, 0x1faa),
     (0x1f6b, 0x345, 0x1fab), (0x1f6c, 0x345, 0x1fac), (0x1f6d, 0x345, 0x1fad), (0x1f6e, 0x345, 0x1fae),
     (0x1f6f, 0x345, 0x1faf), (0x1f70, 0x345, 0x1fb2), (0x1f74, 0x345, 0x1fc2), (0x1f7c, 0x345, 0x1ff2),
     (0x1fb6, 0x345, 0x1fb7), (0x1fbf, 0x300, 0x1fcd), (0x1fbf, 0x301, 0x1fce), (0x1fbf, 0x342, 0x1fcf),
     (0x1fc6, 0x345, 0x1fc7), (0x1ff6, 0x345, 0x1ff7), (0x1ffe, 0x300, 0x1fdd), (0x1ffe, 0x301, 0x1fde),
     (0x1ffe, 0x342, 0x1fdf), (0x2190, 0x338, 0x219a), (0x2192, 0x338, 0x219b), (0x2194, 0x338, 0x21ae),
     (0x21d0, 0x338, 0x21cd), (0x21d2, 0x338, 0x21cf), (0x21d4, 0x338, 0x21ce), (0x2203, 0x338, 0x2204),
     (0x2208, 0x338, 0x2209), (0x220b, 0x338, 0x220c), (0x2223, 0x338, 0x2224), (0x2225, 0x338, 0x2226),
     (0x223c, 0x338, 0x2241), (0x2243, 0x338, 0x2244), (0x2245, 0x338, 0x2247), (0x2248, 0x338, 0x2249),
     (0x224d, 0x338, 0x226d), (0x2261, 0x338, 0x2262), (0x2264, 0x338, 0x2270), (0x2265, 0x338, 0x2271),
     (0x2272, 0x338, 0x2274), (0x2273, 0x338, 0x2275), (0x2276, 0x338, 0x2278), (0x2277, 0x338, 0x2279),
     (0x227a, 0x338, 0x2280), (0x227b, 0x338, 0x2281), (0x227c, 0x338, 0x22e0), (0x227d, 0x338, 0x22e1),
     (0x2282, 0x338, 0x2284), (0x2283, 0x338, 0x2285), (0x2286, 0x338, 0x2288), (0x2287, 0x338, 0x2289),
     (0x2291, 0x338, 0x22e2), (0x2292, 0x338, 0x22e3), (0x22a2, 0x338, 0x22ac), (0x22a8, 0x338, 0x22ad),
     (0x22a9, 0x338, 0x22ae), (0x22ab, 0x338, 0x22af), (0x22b2, 0x338, 0x22ea), (0x22b3, 0x338, 0x22eb),
     (0x22b4, 0x338, 0x22ec), (0x22b5, 0x338, 0x22ed), (0x3046, 0x3099, 0x3094), (0x304b, 0x3099, 0x304c),
     (0x304d, 0x3099, 0x304e), (0x304f, 0x3099, 0x3050), (0x3051, 0x3099, 0x3052), (0x3053, 0x3099, 0x3054),
     (0x3055, 0x3099, 0x3056), (0x3057, 0x3099, 0x3058), (0x3059, 0x3099, 0x305a), (0x305b, 0x3099, 0x305c),
     (0x305d, 0x3099, 0x305e), (0x305f, 0x3099, 0x3060), (0x3061, 0x3099, 0x3062), (0x3064, 0x3099, 0x3065),
     (0x3066, 0x3099, 0x3067), (0x3068, 0x3099, 0x3069), (0x306f, 0x3099, 0x3070), (0x306f, 0x309a, 0x3071),
     (0x3072, 0x3099, 0x3073), (0x3072, 0x309a, 0x3074), (0x3075, 0x3099, 0x3076), (0x3075, 0x309a, 0x3077),
     (0x3078, 0x3099, 0x3079), (0x3078, 0x309a, 0x307a), (0x307b, 0x3099, 0x307c), (0x307b, 0x309a, 0x307d),
     (0x309d, 0x3099, 0x309e), (0x30a6, 0x3099, 0x30f4), (0x30ab, 0x3099, 0x30ac), (0x30ad, 0x3099, 0x30ae),
     (0x30af, 0x3099, 0x30b0), (0x30b1, 0x3099, 0x30b2), (0x30b3, 0x3099, 0x30b4), (0x30b5, 0x3099, 0x30b6),
     (0x30b7, 0x3099, 0x30b8), (0x30b9, 0x3099, 0x30ba), (0x30bb, 0x3099, 0x30bc), (0x30bd, 0x3099, 0x30be),
     (0x30bf, 0x3099, 0x30c0), (0x30c1, 0x3099, 0x30c2), (0x30c4, 0x3099, 0x30c5), (0x30c6, 0x3099, 0x30c7),
     (0x30c8, 0x3099, 0x30c9), (0x30cf, 0x3099, 0x30d0), (0x30cf, 0x309a, 0x30d1), (0x30d2, 0x3099, 0x30d3),
     (0x30d2, 0x309a, 0x30d4), (0x30d5, 0x3099, 0x30d6), (0x30d5, 0x309a, 0x30d7), (0x30d8, 0x3099, 0x30d9),
     (0x30d8, 0x309a, 0x30da), (0x30db, 0x3099, 0x30dc), (0x30db, 0x309a, 0x30dd), (0x30ef, 0x3099, 0x30f7),
     (0x30f0, 0x3099, 0x30f8), (0x30f1, 0x3099, 0x30f9), (0x30f2, 0x3099, 0x30fa), (0x30fd, 0x3099, 0x30fe),
     (0x105d2, 0x307, 0x105c9), (0x105da, 0x307, 0x105e4), (0x11099, 0x110ba, 0x1109a), (0x1109b, 0x110ba, 0x1109c),
     (0x110a5, 0x110ba, 0x110ab), (0x11131, 0x11127, 0x1112e), (0x11132, 0x11127, 0x1112f), (0x11347, 0x1133e, 0x1134b),
     (0x11347, 0x11357, 0x1134c), (0x11382, 0x113c9, 0x11383), (0x11384, 0x113bb, 0x11385), (0x1138b, 0x113c2, 0x1138e),
     (0x11390, 0x113c9, 0x11391), (0x113c2, 0x113b8, 0x113c7), (0x113c2, 0x113c2, 0x113c5), (0x113c2, 0x113c9, 0x113c8),
     (0x114b9, 0x114b0, 0x114bc), (0x114b9, 0x114ba, 0x114bb), (0x114b9, 0x114bd, 0x114be), (0x115b8, 0x115af, 0x115ba),
     (0x115b9, 0x115af, 0x115bb), (0x11935, 0x11930, 0x11938), (0x1611e, 0x1611e, 0x16121), (0x1611e, 0x1611f, 0x16123),
     (0x1611e, 0x16120, 0x16125), (0x1611e, 0x16129, 0x16122), (0x16121, 0x1611f, 0x16126), (0x16121, 0x16120, 0x16128),
     (0x16122, 0x1611f, 0x16127), (0x16129, 0x1611f, 0x16124), (0x16d63, 0x16d67, 0x16d69), (0x16d67, 0x16d67, 0x16d68),
     (0x16d69, 0x16d67, 0x16d6a)]"

definition zipCompose :: "(rune \<times> rune \<times> rune) list" where
  "zipCompose = zipCompose_1 @ zipCompose_2"

definition zipCCC_1 :: "(rune \<times> rune \<times> nat) list" where
  "zipCCC_1 = [
     (0x300, 0x314, 230), (0x315, 0x315, 232), (0x316, 0x319, 220), (0x31a, 0x31a, 232),
     (0x31b, 0x31b, 216), (0x31c, 0x320, 220), (0x321, 0x322, 202), (0x323, 0x326, 220),
     (0x327, 0x328, 202), (0x329, 0x333, 220), (0x334, 0x338, 1), (0x339, 0x33c, 220),
     (0x33d, 0x344, 230), (0x345, 0x345, 240), (0x346, 0x346, 230), (0x347, 0x349, 220),
     (0x34a, 0x34c, 230), (0x34d, 0x34e, 220), (0x350, 0x352, 230), (0x353, 0x356, 220),
     (0x357, 0x357, 230), (0x358, 0x358, 232), (0x359, 0x35a, 220), (0x35b, 0x35b, 230),
     (0x35c, 0x35c, 233), (0x35d, 0x35e, 234), (0x35f, 0x35f, 233), (0x360, 0x361, 234),
     (0x362, 0x362, 233), (0x363, 0x36f, 230), (0x483, 0x487, 230), (0x591, 0x591, 220),
     (0x592, 0x595, 230), (0x596, 0x596, 220), (0x597, 0x599, 230), (0x59a, 0x59a, 222),
     (0x59b, 0x59b, 220), (0x59c, 0x5a1, 230), (0x5a2, 0x5a7, 220), (0x5a8, 0x5a9, 230),
     (0x5aa, 0x5aa, 220), (0x5ab, 0x5ac, 230), (0x5ad, 0x5ad, 222), (0x5ae, 0x5ae, 228),
     (0x5af, 0x5af, 230), (0x5b0, 0x5b0, 10), (0x5b1, 0x5b1, 11), (0x5b2, 0x5b2, 12),
     (0x5b3, 0x5b3, 13), (0x5b4, 0x5b4, 14), (0x5b5, 0x5b5, 15), (0x5b6, 0x5b6, 16),
     (0x5b7, 0x5b7, 17), (0x5b8, 0x5b8, 18), (0x5b9, 0x5ba, 19), (0x5bb, 0x5bb, 20),
     (0x5bc, 0x5bc, 21), (0x5bd, 0x5bd, 22), (0x5bf, 0x5bf, 23), (0x5c1, 0x5c1, 24),
     (0x5c2, 0x5c2, 25), (0x5c4, 0x5c4, 230), (0x5c5, 0x5c5, 220), (0x5c7, 0x5c7, 18),
     (0x610, 0x617, 230), (0x618, 0x618, 30), (0x619, 0x619, 31), (0x61a, 0x61a, 32),
     (0x64b, 0x64b, 27), (0x64c, 0x64c, 28), (0x64d, 0x64d, 29), (0x64e, 0x64e, 30),
     (0x64f, 0x64f, 31), (0x650, 0x650, 32), (0x651, 0x651, 33), (0x652, 0x652, 34),
     (0x653, 0x654, 230), (0x655, 0x656, 220), (0x657, 0x65b, 230), (0x65c, 0x65c, 220),
     (0x65d, 0x65e, 230), (0x65f, 0x65f, 220), (0x670, 0x670, 35), (0x6d6, 0x6dc, 230),
     (0x6df, 0x6e2, 230), (0x6e3, 0x6e3, 220), (0x6e4, 0x6e4, 230), (0x6e7, 0x6e8, 230),
     (0x6ea, 0x6ea, 220), (0x6eb, 0x6ec, 230), (0x6ed, 0x6ed, 220), (0x711, 0x711, 36),
     (0x730, 0x730, 230), (0x731, 0x731, 220), (0x732, 0x733, 230), (0x734, 0x734, 220),
     (0x735, 0x736, 230), (0x737, 0x739, 220), (0x73a, 0x73a, 230), (0x73b, 0x73c, 220),
     (0x73d, 0x73d, 230), (0x73e, 0x73e, 220), (0x73f, 0x741, 230), (0x742, 0x742, 220),
     (0x743, 0x743, 230), (0x744, 0x744, 220), (0x745, 0x745, 230), (0x746, 0x746, 220),
     (0x747, 0x747, 230), (0x748, 0x748, 220), (0x749, 0x74a, 230), (0x7eb, 0x7f1, 230),
     (0x7f2, 0x7f2, 220), (0x7f3, 0x7f3, 230), (0x7fd, 0x7fd, 220), (0x816, 0x819, 230),
     (0x81b, 0x823, 230), (0x825, 0x827, 230), (0x829, 0x82d, 230), (0x859, 0x85b, 220),
     (0x897, 0x898, 230), (0x899, 0x89b, 220), (0x89c, 0x89f, 230), (0x8ca, 0x8ce, 230),
     (0x8cf, 0x8d3, 220), (0x8d4, 0x8e1, 230), (0x8e3, 0x8e3, 220), (0x8e4, 0x8e5, 230),
     (0x8e6, 0x8e6, 220), (0x8e7, 0x8e8, 230), (0x8e9, 0x8e9, 220), (0x8ea, 0x8ec, 230),
     (0x8ed, 0x8ef, 220), (0x8f0, 0x8f0, 27), (0x8f1, 0x8f1, 28), (0x8f2, 0x8f2, 29),
     (0x8f3, 0x8f5, 230), (0x8f6, 0x8f6, 220), (0x8f7, 0x8f8, 230), (0x8f9, 0x8fa, 220),
     (0x8fb, 0x8ff, 230), (0x93c, 0x93c, 7), (0x94d, 0x94d, 9), (0x951, 0x951, 230),
     (0x952, 0x952, 220), (0x953, 0x954, 230), (0x9bc, 0x9bc, 7), (0x9cd, 0x9cd, 9),
     (0x9fe, 0x9fe, 230), (0xa3c, 0xa3c, 7), (0xa4d, 0xa4d, 9), (0xabc, 0xabc, 7),
     (0xacd, 0xacd, 9), (0xb3c, 0xb3c, 7), (0xb4d, 0xb4d, 9), (0xbcd, 0xbcd, 9),
     (0xc3c, 0xc3c, 7), (0xc4d, 0xc4d, 9), (0xc55, 0xc55, 84), (0xc56, 0xc56, 91),
     (0xcbc, 0xcbc, 7), (0xccd, 0xccd, 9), (0xd3b, 0xd3c, 9), (0xd4d, 0xd4d, 9),
     (0xdca, 0xdca, 9), (0xe38, 0xe39, 103), (0xe3a, 0xe3a, 9), (0xe48, 0xe4b, 107),
     (0xeb8, 0xeb9, 118), (0xeba, 0xeba, 9), (0xec8, 0xecb, 122), (0xf18, 0xf19, 220),
     (0xf35, 0xf35, 220), (0xf37, 0xf37, 220), (0xf39, 0xf39, 216), (0xf71, 0xf71, 129),
     (0xf72, 0xf72, 130), (0xf74, 0xf74, 132), (0xf7a, 0xf7d, 130), (0xf80, 0xf80, 130),
     (0xf82, 0xf83, 230), (0xf84, 0xf84, 9), (0xf86, 0xf87, 230), (0xfc6, 0xfc6, 220),
     (0x1037, 0x1037, 7), (0x1039, 0x103a, 9), (0x108d, 0x108d, 220), (0x135d, 0x135f, 230),
     (0x1714, 0x1715, 9), (0x1734, 0x1734, 9), (0x17d2, 0x17d2, 9), (0x17dd, 0x17dd, 230),
     (0x18a9, 0x18a9, 228), (0x1939, 0x1939, 222), (0x193a, 0x193a, 230), (0x193b, 0x193b, 220),
     (0x1a17, 0x1a17, 230), (0x1a18, 0x1a18, 220), (0x1a60, 0x1a60, 9), (0x1a75, 0x1a7c, 230),
     (0x1a7f, 0x1a7f, 220), (0x1ab0, 0x1ab4, 230), (0x1ab5, 0x1aba, 220), (0x1abb, 0x1abc, 230),
     (0x1abd, 0x1abd, 220), (0x1abf, 0x1ac0, 220), (0x1ac1, 0x1ac2, 230), (0x1ac3, 0x1ac4, 220),
     (0x1ac5, 0x1ac9, 230), (0x1aca, 0x1aca, 220), (0x1acb, 0x1adc, 230), (0x1add, 0x1add, 220),
     (0x1ae0, 0x1ae5, 230), (0x1ae6, 0x1ae6, 220), (0x1ae7, 0x1aea, 230), (0x1aeb, 0x1aeb, 234),
     (0x1b34, 0x1b34, 7), (0x1b44, 0x1b44, 9), (0x1b6b, 0x1b6b, 230), (0x1b6c, 0x1b6c, 220),
     (0x1b6d, 0x1b73, 230), (0x1baa, 0x1bab, 9), (0x1be6, 0x1be6, 7), (0x1bf2, 0x1bf3, 9),
     (0x1c37, 0x1c37, 7), (0x1cd0, 0x1cd2, 230), (0x1cd4, 0x1cd4, 1), (0x1cd5, 0x1cd9, 220),
     (0x1cda, 0x1cdb, 230), (0x1cdc, 0x1cdf, 220), (0x1ce0, 0x1ce0, 230), (0x1ce2, 0x1ce8, 1),
     (0x1ced, 0x1ced, 220), (0x1cf4, 0x1cf4, 230), (0x1cf8, 0x1cf9, 230), (0x1dc0, 0x1dc1, 230),
     (0x1dc2, 0x1dc2, 220), (0x1dc3, 0x1dc9, 230), (0x1dca, 0x1dca, 220), (0x1dcb, 0x1dcc, 230),
     (0x1dcd, 0x1dcd, 234), (0x1dce, 0x1dce, 214), (0x1dcf, 0x1dcf, 220), (0x1dd0, 0x1dd0, 202),
     (0x1dd1, 0x1df5, 230), (0x1df6, 0x1df6, 232), (0x1df7, 0x1df8, 228), (0x1df9, 0x1df9, 220),
     (0x1dfa, 0x1dfa, 218), (0x1dfb, 0x1dfb, 230), (0x1dfc, 0x1dfc, 233), (0x1dfd, 0x1dfd, 220),
     (0x1dfe, 0x1dfe, 230), (0x1dff, 0x1dff, 220), (0x20d0, 0x20d1, 230), (0x20d2, 0x20d3, 1),
     (0x20d4, 0x20d7, 230), (0x20d8, 0x20da, 1), (0x20db, 0x20dc, 230), (0x20e1, 0x20e1, 230),
     (0x20e5, 0x20e6, 1), (0x20e7, 0x20e7, 230), (0x20e8, 0x20e8, 220), (0x20e9, 0x20e9, 230),
     (0x20ea, 0x20eb, 1), (0x20ec, 0x20ef, 220), (0x20f0, 0x20f0, 230), (0x2cef, 0x2cf1, 230),
     (0x2d7f, 0x2d7f, 9), (0x2de0, 0x2dff, 230), (0x302a, 0x302a, 218), (0x302b, 0x302b, 228),
     (0x302c, 0x302c, 232), (0x302d, 0x302d, 222), (0x302e, 0x302f, 224), (0x3099, 0x309a, 8),
     (0xa66f, 0xa66f, 230), (0xa674, 0xa67d, 230), (0xa69e, 0xa69f, 230), (0xa6f0, 0xa6f1, 230),
     (0xa806, 0xa806, 9), (0xa82c, 0xa82c, 9), (0xa8c4, 0xa8c4, 9), (0xa8e0, 0xa8f1, 230),
     (0xa92b, 0xa92d, 220), (0xa953, 0xa953, 9), (0xa9b3, 0xa9b3, 7), (0xa9c0, 0xa9c0, 9),
     (0xaab0, 0xaab0, 230), (0xaab2, 0xaab3, 230), (0xaab4, 0xaab4, 220), (0xaab7, 0xaab8, 230),
     (0xaabe, 0xaabf, 230), (0xaac1, 0xaac1, 230), (0xaaf6, 0xaaf6, 9), (0xabed, 0xabed, 9),
     (0xfb1e, 0xfb1e, 26), (0xfe20, 0xfe26, 230), (0xfe27, 0xfe2d, 220), (0xfe2e, 0xfe2f, 230),
     (0x101fd, 0x101fd, 220), (0x102e0, 0x102e0, 220), (0x10376, 0x1037a, 230), (0x10a0d, 0x10a0d, 220),
     (0x10a0f, 0x10a0f, 230), (0x10a38, 0x10a38, 230), (0x10a39, 0x10a39, 1), (0x10a3a, 0x10a3a, 220),
     (0x10a3f, 0x10a3f, 9), (0x10ae5, 0x10ae5, 230), (0x10ae6, 0x10ae6, 220), (0x10d24, 0x10d27, 230),
     (0x10d69, 0x10d6d, 230), (0x10eab, 0x10eac, 230), (0x10efa, 0x10efb, 220), (0x10efd, 0x10eff, 220),
     (0x10f46, 0x10f47, 220), (0x10f48, 0x10f4a, 230), (0x10f4b, 0x10f4b, 220), (0x10f4c, 0x10f4c, 230),
     (0x10f4d, 0x10f50, 220), (0x10f82, 0x10f82, 230), (0x10f83, 0x10f83, 220), (0x10f84, 0x10f84, 230),
     (0x10f85, 0x10f85, 220), (0x11046, 0x11046, 9), (0x11070, 0x11070, 9), (0x1107f, 0x1107f, 9),
     (0x110b9, 0x110b9, 9), (0x110ba, 0x110ba, 7), (0x11100, 0x11102, 230), (0x11133, 0x11134, 9),
     (0x11173, 0x11173, 7), (0x111c0, 0x111c0, 9), (0x111ca, 0x111ca, 7), (0x11235, 0x11235, 9),
     (0x11236, 0x11236, 7), (0x112e9, 0x112e9, 7), (0x112ea, 0x112ea, 9), (0x1133b, 0x1133c, 7),
     (0x1134d, 0x1134d, 9), (0x11366, 0x1136c, 230), (0x11370, 0x11374, 230), (0x113ce, 0x113d0, 9),
     (0x11442, 0x11442, 9), (0x11446, 0x11446, 7), (0x1145e, 0x1145e, 230), (0x114c2, 0x114c2, 9),
     (0x114c3, 0x114c3, 7), (0x115bf, 0x115bf, 9), (0x115c0, 0x115c0, 7), (0x1163f, 0x1163f, 9),
     (0x116b6, 0x116b6, 9), (0x116b7, 0x116b7, 7), (0x1172b, 0x1172b, 9), (0x11839, 0x11839, 9),
     (0x1183a, 0x1183a, 7), (0x1193d, 0x1193e, 9), (0x11943, 0x11943, 7), (0x119e0, 0x119e0, 9),
     (0x11a34, 0x11a34, 9), (0x11a47, 0x11a47, 9), (0x11a99, 0x11a99, 9), (0x11c3f, 0x11c3f, 9),
     (0x11d42, 0x11d42, 7), (0x11d44, 0x11d45, 9), (0x11d97, 0x11d97, 9), (0x11f41, 0x11f42, 9),
     (0x1612f, 0x1612f, 9), (0x16af0, 0x16af4, 1), (0x16b30, 0x16b36, 230), (0x16ff0, 0x16ff1, 6),
     (0x1bc9e, 0x1bc9e, 1), (0x1d165, 0x1d166, 216), (0x1d167, 0x1d169, 1), (0x1d16d, 0x1d16d, 226),
     (0x1d16e, 0x1d172, 216), (0x1d17b, 0x1d182, 220), (0x1d185, 0x1d189, 230), (0x1d18a, 0x1d18b, 220),
     (0x1d1aa, 0x1d1ad, 230), (0x1d242, 0x1d244, 230), (0x1e000, 0x1e006, 230), (0x1e008, 0x1e018, 230),
     (0x1e01b, 0x1e021, 230), (0x1e023, 0x1e024, 230), (0x1e026, 0x1e02a, 230), (0x1e08f, 0x1e08f, 230),
     (0x1e130, 0x1e136, 230), (0x1e2ae, 0x1e2ae, 230), (0x1e2ec, 0x1e2ef, 230), (0x1e4ec, 0x1e4ed, 232),
     (0x1e4ee, 0x1e4ee, 220), (0x1e4ef, 0x1e4ef, 230), (0x1e5ee, 0x1e5ee, 230), (0x1e5ef, 0x1e5ef, 220),
     (0x1e6e3, 0x1e6e3, 230), (0x1e6e6, 0x1e6e6, 230), (0x1e6ee, 0x1e6ef, 230), (0x1e6f5, 0x1e6f5, 230),
     (0x1e8d0, 0x1e8d6, 220), (0x1e944, 0x1e949, 230), (0x1e94a, 0x1e94a, 7)]"

definition zipCCC :: "(rune \<times> rune \<times> nat) list" where
  "zipCCC = zipCCC_1"

end
