(* ===== verification/Zip_Name.thy ===== *)
theory Zip_Name
  imports Zip_Tables "HOL-Library.Multiset"
begin

text \<open>
  Unicode NFC as \<open>internal/formats/zipname.go\<close> computes it: decomposition, canonical ordering and composition over the
  generated tables, which are searched with \<open>sort.Search\<close>.
\<close>

section \<open>Searching the tables\<close>

text \<open>\<open>sort.Search\<close>: the binary search of the standard library.\<close>

function search_loop :: "(nat \<Rightarrow> bool) \<Rightarrow> nat \<Rightarrow> nat \<Rightarrow> nat" where
  "search_loop f i j =
     (if i < j then let h = (i + j) div 2 in if f h then search_loop f i h else search_loop f (h + 1) j
      else i)"
  by pat_completeness auto
termination
  by (relation "measure (\<lambda>(_, i, j). j - i)") auto

declare search_loop.simps [simp del]

definition sort_Search :: "nat \<Rightarrow> (nat \<Rightarrow> bool) \<Rightarrow> nat" where
  "sort_Search n f = search_loop f 0 n"

lemma search_loop_le: "i \<le> j \<Longrightarrow> search_loop f i j \<le> j"
proof (induction f i j rule: search_loop.induct)
  case (1 f i j)
  show ?case
  proof (cases "i < j")
    case True
    then have h: "i \<le> (i + j) div 2" "(i + j) div 2 + 1 \<le> j" "(i + j) div 2 \<le> j" by auto
    show ?thesis
      using 1(1) [OF True refl _ h(1)] 1(2) [OF True refl _ h(2)] h True
      by (subst search_loop.simps) (auto simp: Let_def)
  next
    case False
    then have "i = j" using 1(3) by simp
    then show ?thesis by (subst search_loop.simps) simp
  qed
qed

section \<open>Decomposition\<close>

definition hangulSBase :: nat where "hangulSBase = 0xAC00"
definition hangulLBase :: nat where "hangulLBase = 0x1100"
definition hangulVBase :: nat where "hangulVBase = 0x1161"
definition hangulTBase :: nat where "hangulTBase = 0x11A7"
definition hangulLCount :: nat where "hangulLCount = 19"
definition hangulVCount :: nat where "hangulVCount = 21"
definition hangulTCount :: nat where "hangulTCount = 28"
definition hangulNCount :: nat where "hangulNCount = hangulVCount * hangulTCount"
definition hangulSCount :: nat where "hangulSCount = hangulLCount * hangulNCount"

lemmas hangul_defs = hangulSBase_def hangulLBase_def hangulVBase_def hangulTBase_def hangulLCount_def
  hangulVCount_def hangulTCount_def hangulNCount_def hangulSCount_def

definition is_hangul :: "rune \<Rightarrow> bool" where
  "is_hangul r \<longleftrightarrow> hangulSBase \<le> r \<and> r < hangulSBase + hangulSCount"

definition hangul_jamo :: "rune \<Rightarrow> rune list" where
  "hangul_jamo r =
     (let s = r - hangulSBase; t = s mod hangulTCount
      in [hangulLBase + s div hangulNCount, hangulVBase + s mod hangulNCount div hangulTCount] @
         (if t \<noteq> 0 then [hangulTBase + t] else []))"

definition decomp_row :: "rune \<Rightarrow> (rune \<times> rune \<times> rune) option" where
  "decomp_row r =
     (let i = sort_Search (length zipCanonDecomp) (\<lambda>i. r \<le> fst (zipCanonDecomp ! i))
      in if i = length zipCanonDecomp \<or> fst (zipCanonDecomp ! i) \<noteq> r then None
         else Some (zipCanonDecomp ! i))"

lemma decomp_row_Some: "decomp_row r = Some (cp, a, b) \<Longrightarrow> (cp, a, b) \<in> set zipCanonDecomp \<and> cp = r"
proof -
  assume s: "decomp_row r = Some (cp, a, b)"
  let ?i = "sort_Search (length zipCanonDecomp) (\<lambda>i. r \<le> fst (zipCanonDecomp ! i))"
  from s have "?i \<noteq> length zipCanonDecomp" "fst (zipCanonDecomp ! ?i) = r" "zipCanonDecomp ! ?i = (cp, a, b)"
    by (auto simp: decomp_row_def Let_def split: if_splits)
  moreover have "?i \<le> length zipCanonDecomp" by (simp add: sort_Search_def search_loop_le)
  ultimately show ?thesis by (metis fst_conv le_neq_implies_less nth_mem)
qed

text \<open>
  Why decomposing ends. The runes that head no row lie in the gaps between the rows' runes; every second component is
  in a gap, and every first component is smaller than the row's rune, in a gap, or one of five runes whose own rows
  have both components in gaps.
\<close>

definition gap :: "rune \<Rightarrow> bool" where
  "gap x \<longleftrightarrow>
     (if x < 3946 then (if x < 2400 then (if x < 1039 then (if x < 837 then (if x < 564 then x \<le> 191 else
      (if x < 834 then 564 \<le> x \<and> x \<le> 831 else 834 \<le> x \<and> x \<le> 834)) else (if x < 913
      then 837 \<le> x \<and> x \<le> 883 else (if x < 945 then 913 \<le> x \<and> x \<le> 937 else 945 \<le> x
      \<and> x \<le> 969))) else (if x < 1575 then (if x < 1050 then 1039 \<le> x \<and> x \<le> 1048 else (if
      x < 1274 then 1050 \<le> x \<and> x \<le> 1080 else 1274 \<le> x \<and> x \<le> 1569)) else (if x < 1748
      then 1575 \<le> x \<and> x \<le> 1727 else (if x < 2357 then 1748 \<le> x \<and> x \<le> 2344 else 2357
      \<le> x \<and> x \<le> 2391)))) else (if x < 3021 then (if x < 2655 then (if x < 2509 then 2400 \<le> x
      \<and> x \<le> 2506 else (if x < 2615 then 2509 \<le> x \<and> x \<le> 2523 else 2615 \<le> x \<and> x
      \<le> 2648)) else (if x < 2893 then 2655 \<le> x \<and> x \<le> 2887 else (if x < 2965 then 2893 \<le> x
      \<and> x \<le> 2907 else 2965 \<le> x \<and> x \<le> 3017))) else (if x < 3276 then (if x < 3145 then
      3021 \<le> x \<and> x \<le> 3143 else (if x < 3265 then 3145 \<le> x \<and> x \<le> 3263 else 3265 \<le>
      x \<and> x \<le> 3270)) else (if x < 3405 then 3276 \<le> x \<and> x \<le> 3401 else (if x < 3551 then
      3405 \<le> x \<and> x \<le> 3545 else 3551 \<le> x \<and> x \<le> 3906))))) else (if x < 69804 then (if x
      < 8190 then (if x < 4013 then (if x < 3956 then 3946 \<le> x \<and> x \<le> 3954 else (if x < 3961 then
      3956 \<le> x \<and> x \<le> 3956 else 3961 \<le> x \<and> x \<le> 3968)) else (if x < 4135 then 4013
      \<le> x \<and> x \<le> 4024 else (if x < 6931 then 4135 \<le> x \<and> x \<le> 6917 else 6931 \<le> x
      \<and> x \<le> 6970))) else (if x < 10973 then (if x < 8194 then 8190 \<le> x \<and> x \<le> 8191 else
      (if x < 8656 then 8194 \<le> x \<and> x \<le> 8485 else 8656 \<le> x \<and> x \<le> 8707)) else (if x <
      12437 then 10973 \<le> x \<and> x \<le> 12363 else (if x < 67018 then 12437 \<le> x \<and> x \<le> 12445
      else 67018 \<le> x \<and> x \<le> 67043)))) else (if x < 70847 then (if x < 70546 then (if x < 69936 then
      69804 \<le> x \<and> x \<le> 69933 else (if x < 70477 then 69936 \<le> x \<and> x \<le> 70474 else 70477
      \<le> x \<and> x \<le> 70530)) else (if x < 70601 then 70546 \<le> x \<and> x \<le> 70596 else (if x <
      70845 then 70601 \<le> x \<and> x \<le> 70842 else 70845 \<le> x \<and> x \<le> 70845))) else (if x <
      90409 then (if x < 71100 then 70847 \<le> x \<and> x \<le> 71097 else (if x < 71993 then 71100 \<le> x
      \<and> x \<le> 71991 else 71993 \<le> x \<and> x \<le> 90400)) else (if x < 119141 then 90409 \<le> x
      \<and> x \<le> 93543 else (if x < 119233 then 119141 \<le> x \<and> x \<le> 119226 else 119233 \<le> x
      \<and> x \<le> 194559))))))"

definition late :: "rune \<Rightarrow> bool" where
  "late x \<longleftrightarrow> (if x < 972 then x = 970 \<or> x = 971 \<or> x = 550 \<or> x = 551 else x = 64329)"

definition row_ok :: "rune \<times> rune \<times> rune \<Rightarrow> bool" where
  "row_ok d \<longleftrightarrow>
     (case d of (cp, a, b) \<Rightarrow>
        \<not> gap cp \<and> gap b \<and> (if a < cp then if late cp then gap a else True else if gap a then True else late a \<and> \<not> late cp))"

lemma rows_1: "list_all row_ok zipCanonDecomp_1" by code_simp
lemma rows_2: "list_all row_ok zipCanonDecomp_2" by code_simp
lemma rows_3: "list_all row_ok zipCanonDecomp_3" by code_simp
lemma rows_4: "list_all row_ok zipCanonDecomp_4" by code_simp

lemma rows_ok: "d \<in> set zipCanonDecomp \<Longrightarrow> row_ok d"
  using rows_1 rows_2 rows_3 rows_4 by (auto simp: zipCanonDecomp_def list_all_iff)

definition rank :: "rune \<Rightarrow> nat" where
  "rank r = (if gap r then 0 else if late r then 1 else r + 2)"

lemma decomp_row_rank: "decomp_row r = Some (cp, a, b) \<Longrightarrow> rank a < rank r \<and> rank b < rank r"
  using rows_ok [of "(cp, a, b)"] decomp_row_Some [of r cp a b]
  by (auto simp: row_ok_def rank_def split: if_splits)

lemma decomp_row_gap: "gap r \<Longrightarrow> decomp_row r = None"
  using rows_ok decomp_row_Some by (cases "decomp_row r") (fastforce simp: row_ok_def)+

function zipDecompose :: "rune \<Rightarrow> rune list" where
  "zipDecompose r =
     (if is_hangul r then hangul_jamo r
      else case decomp_row r of
             None \<Rightarrow> [r]
           | Some (cp, a, b) \<Rightarrow> zipDecompose a @ (if b \<noteq> 0 then zipDecompose b else []))"
  by pat_completeness auto
termination
  by (relation "measure rank") (auto dest: decomp_row_rank)

declare zipDecompose.simps [simp del]

section \<open>Ordering and composition\<close>

definition zipCCCOf :: "rune \<Rightarrow> nat" where
  "zipCCCOf r =
     (let i = sort_Search (length zipCCC) (\<lambda>i. r \<le> fst (snd (zipCCC ! i)))
      in if i < length zipCCC \<and> fst (zipCCC ! i) \<le> r then snd (snd (zipCCC ! i)) else 0)"

function zipReorder :: "rune list \<Rightarrow> rune list" where
  "zipReorder [] = []"
| "zipReorder (r # rs) =
     (if zipCCCOf r = 0 then r # zipReorder rs
      else sort_key zipCCCOf (takeWhile (\<lambda>x. zipCCCOf x \<noteq> 0) (r # rs)) @
           zipReorder (dropWhile (\<lambda>x. zipCCCOf x \<noteq> 0) (r # rs)))"
  by pat_completeness auto
termination
  by (relation "measure length") (auto simp: le_imp_less_Suc length_dropWhile_le)

definition zipPairCompose :: "rune \<Rightarrow> rune \<Rightarrow> rune option" where
  "zipPairCompose a b =
     (if hangulLBase \<le> a \<and> a < hangulLBase + hangulLCount \<and> hangulVBase \<le> b \<and> b < hangulVBase + hangulVCount
      then Some (hangulSBase + ((a - hangulLBase) * hangulVCount + (b - hangulVBase)) * hangulTCount)
      else if hangulSBase \<le> a \<and> a < hangulSBase + hangulSCount \<and> (a - hangulSBase) mod hangulTCount = 0 \<and>
              hangulTBase < b \<and> b < hangulTBase + hangulTCount
      then Some (a + (b - hangulTBase))
      else
        let i = sort_Search (length zipCompose) (\<lambda>i. let c = zipCompose ! i in
              a < fst c \<or> (fst c = a \<and> b \<le> fst (snd c)))
        in if i < length zipCompose \<and> fst (zipCompose ! i) = a \<and> fst (snd (zipCompose ! i)) = b
           then Some (snd (snd (zipCompose ! i))) else None)"

text \<open>The loop of \<open>zipComposeRunes\<close>: the output, the index of the last starter and the last class.\<close>

definition compose_step :: "rune list \<times> nat \<times> nat \<Rightarrow> rune \<Rightarrow> rune list \<times> nat \<times> nat" where
  "compose_step st r =
     (case st of (out, starter, prev) \<Rightarrow>
        let class = zipCCCOf r;
            keep = (out @ [r], if class = 0 then length out else starter, class)
        in case zipPairCompose (out ! starter) r of
             None \<Rightarrow> keep
           | Some c \<Rightarrow> if prev < class \<or> prev = 0 then (out[starter := c], starter, prev) else keep)"

definition zipComposeRunes :: "rune list \<Rightarrow> rune list" where
  "zipComposeRunes rs =
     (case rs of
        [] \<Rightarrow> []
      | r # rest \<Rightarrow> fst (foldl compose_step ([r], 0, if zipCCCOf r \<noteq> 0 then 256 else 0) rest))"

definition nfc_runes :: "rune list \<Rightarrow> rune list" where
  "nfc_runes rs = zipComposeRunes (zipReorder (concat (map zipDecompose rs)))"

definition zipNFC :: "bytes \<Rightarrow> bytes" where
  "zipNFC s = bytes_of (nfc_runes (runes_of s))"

section \<open>Facts of the tables\<close>

lemma search_loop_hit: "search_loop f i j < n \<Longrightarrow> j = n \<or> f j \<Longrightarrow> i \<le> j \<Longrightarrow> f (search_loop f i j)"
proof (induction f i j rule: search_loop.induct)
  case (1 f i j)
  show ?case
  proof (cases "i < j")
    case True
    then have "i \<le> (i + j) div 2" "(i + j) div 2 + 1 \<le> j" by auto
    with 1 True show ?thesis
      by (cases "f ((i + j) div 2)") (simp_all add: search_loop.simps [of f i j])
  next
    case False
    with 1(5) have "i = j" by simp
    with 1(3,4) show ?thesis by (auto simp: search_loop.simps [of f j j])
  qed
qed

lemma sort_Search_hit: "sort_Search n f < n \<Longrightarrow> f (sort_Search n f)"
  using search_loop_hit [of f 0 n n] by (simp add: sort_Search_def)

definition ccc_row_ok :: "rune \<times> rune \<times> nat \<Rightarrow> bool" where
  "ccc_row_ok d \<longleftrightarrow>
     (case d of (lo, hi, c) \<Rightarrow> 0x300 \<le> lo \<and> (hi < 0x1100 \<or> 0x1200 \<le> lo) \<and> (hi < 0xAC00 \<or> 0xD7A4 \<le> lo))"

lemma ccc_rows: "list_all ccc_row_ok zipCCC" by code_simp

definition compose_row_ok :: "rune \<times> rune \<times> rune \<Rightarrow> bool" where
  "compose_row_ok d \<longleftrightarrow> (case d of (a, b, c) \<Rightarrow> 0x300 \<le> b)"

lemma compose_rows_1: "list_all compose_row_ok zipCompose_1" by code_simp
lemma compose_rows_2: "list_all compose_row_ok zipCompose_2" by code_simp

lemma compose_rows: "list_all compose_row_ok zipCompose"
  using compose_rows_1 compose_rows_2 by (simp add: zipCompose_def)

lemma zipCCCOf_row: "zipCCCOf r \<noteq> 0 \<Longrightarrow> \<exists>(lo, hi, c) \<in> set zipCCC. lo \<le> r \<and> r \<le> hi"
proof -
  assume nz: "zipCCCOf r \<noteq> 0"
  let ?i = "sort_Search (length zipCCC) (\<lambda>i. r \<le> fst (snd (zipCCC ! i)))"
  from nz have i: "?i < length zipCCC" "fst (zipCCC ! ?i) \<le> r" by (auto simp: zipCCCOf_def Let_def split: if_splits)
  then have "r \<le> fst (snd (zipCCC ! ?i))"
    using sort_Search_hit [of "length zipCCC" "\<lambda>i. r \<le> fst (snd (zipCCC ! i))"] by simp
  with i show ?thesis by (intro bexI [of _ "zipCCC ! ?i"]) (auto simp: case_prod_unfold)
qed

lemma ccc_zero: "r < 0x300 \<or> (0x1100 \<le> r \<and> r < 0x1200) \<or> (0xAC00 \<le> r \<and> r < 0xD7A4) \<Longrightarrow> zipCCCOf r = 0"
  using zipCCCOf_row [of r] ccc_rows by (fastforce simp: list_all_iff ccc_row_ok_def)

lemma compose_ascii: "b < 0x80 \<Longrightarrow> zipPairCompose a b = None"
proof -
  assume b: "b < 0x80"
  let ?i = "sort_Search (length zipCompose) (\<lambda>i. let c = zipCompose ! i in
              a < fst c \<or> (fst c = a \<and> b \<le> fst (snd c)))"
  have "?i < length zipCompose \<Longrightarrow> 0x300 \<le> fst (snd (zipCompose ! ?i))"
    using compose_rows by (auto simp: list_all_iff compose_row_ok_def case_prod_unfold)
  with b show ?thesis by (auto simp: zipPairCompose_def hangul_defs Let_def)
qed

section \<open>Canonical forms\<close>

fun canonically_ordered :: "rune list \<Rightarrow> bool" where
  "canonically_ordered (a # b # rs) \<longleftrightarrow>
     \<not> (0 < zipCCCOf b \<and> zipCCCOf b < zipCCCOf a) \<and> canonically_ordered (b # rs)"
| "canonically_ordered _ = True"

definition fully_decomposed :: "rune \<Rightarrow> bool" where
  "fully_decomposed r \<longleftrightarrow> \<not> is_hangul r \<and> decomp_row r = None"

lemma jamo_decomposed: "is_hangul r \<Longrightarrow> list_all fully_decomposed (hangul_jamo r)"
proof -
  assume h: "is_hangul r"
  have "fully_decomposed x" if "0x1100 \<le> x" "x < 0x1200" for x
  proof -
    have "gap x" using that by (simp add: gap_def)
    with that show ?thesis by (simp add: fully_decomposed_def decomp_row_gap is_hangul_def hangul_defs)
  qed
  moreover have "list_all (\<lambda>x. 0x1100 \<le> x \<and> x < 0x1200) (hangul_jamo r)"
    using h by (auto simp: hangul_jamo_def is_hangul_def hangul_defs Let_def)
  ultimately show ?thesis by (auto simp: list_all_iff)
qed

lemma zipDecompose_full: "list_all fully_decomposed (zipDecompose r)"
proof (induction r rule: zipDecompose.induct)
  case (1 r)
  show ?case
  proof (cases "is_hangul r")
    case True
    then show ?thesis by (simp add: zipDecompose.simps [of r] jamo_decomposed)
  next
    case hangul: False
    show ?thesis
    proof (cases "decomp_row r")
      case None
      with hangul show ?thesis by (simp add: zipDecompose.simps [of r] fully_decomposed_def)
    next
      case (Some d)
      obtain cp a b where d: "d = (cp, a, b)" by (cases d)
      with 1(1,2) [OF hangul Some] hangul Some show ?thesis
        by (simp add: zipDecompose.simps [of r])
    qed
  qed
qed

lemma zipReorder_mset: "mset (zipReorder rs) = mset rs"
proof (induction rs rule: zipReorder.induct)
  case (2 r rs)
  then show ?case
    by simp (metis (no_types, lifting) mset_append takeWhile_dropWhile_id)
qed simp

lemma canonically_ordered_Cons: "zipCCCOf r = 0 \<Longrightarrow> canonically_ordered rs \<Longrightarrow> canonically_ordered (r # rs)"
  by (cases rs) simp_all

lemma canonically_ordered_append:
  "sorted (map zipCCCOf xs) \<Longrightarrow> canonically_ordered ys \<Longrightarrow> (ys \<noteq> [] \<Longrightarrow> zipCCCOf (hd ys) = 0) \<Longrightarrow>
     canonically_ordered (xs @ ys)"
proof (induction xs)
  case (Cons x xs)
  then show ?case by (cases "xs @ ys") (cases xs; auto)+
qed simp

lemma zipReorder_head: "rs \<noteq> [] \<Longrightarrow> zipCCCOf (hd rs) = 0 \<Longrightarrow> zipCCCOf (hd (zipReorder rs)) = 0"
  by (cases rs) simp_all

lemma zipReorder_ordered: "canonically_ordered (zipReorder rs)"
proof (induction rs rule: zipReorder.induct)
  case (2 r rs)
  show ?case
  proof (cases "zipCCCOf r = 0")
    case True
    with 2 show ?thesis by (simp add: canonically_ordered_Cons)
  next
    case False
    let ?rest = "dropWhile (\<lambda>x. zipCCCOf x \<noteq> 0) (r # rs)"
    have "canonically_ordered (sort_key zipCCCOf (takeWhile (\<lambda>x. zipCCCOf x \<noteq> 0) (r # rs)) @ zipReorder ?rest)"
    proof (rule canonically_ordered_append)
      show "canonically_ordered (zipReorder ?rest)" using 2(2) [OF False] .
      assume "zipReorder ?rest \<noteq> []"
      then have "?rest \<noteq> []" by (metis zipReorder.simps(1))
      then show "zipCCCOf (hd (zipReorder ?rest)) = 0"
        using hd_dropWhile [of "\<lambda>x. zipCCCOf x \<noteq> 0" "r # rs"] by (intro zipReorder_head) auto
    qed simp
    then show ?thesis using False by simp
  qed
qed simp

lemma sort_key_sorted: "sorted (map f xs) \<Longrightarrow> sort_key f xs = xs"
  by (rule sort_key_id_if_sorted)

lemma zipReorder_id: "list_all (\<lambda>r. zipCCCOf r = 0) rs \<Longrightarrow> zipReorder rs = rs"
  by (induction rs) simp_all

lemma compose_ascii_loop:
  "list_all (\<lambda>r. r < 0x80) rs \<Longrightarrow> fst (foldl compose_step (out, starter, l) rs) = out @ rs"
  by (induction rs arbitrary: out starter l) (simp_all add: compose_step_def compose_ascii Let_def)

lemma nfc_runes_ascii: "list_all (\<lambda>r. r < 0x80) rs \<Longrightarrow> nfc_runes rs = rs"
proof -
  assume a: "list_all (\<lambda>r. r < 0x80) rs"
  have "zipDecompose r = [r]" if "r < 0x80" for r
  proof -
    have "gap r" using that by (simp add: gap_def)
    with that show ?thesis by (simp add: zipDecompose.simps [of r] decomp_row_gap is_hangul_def hangul_defs)
  qed
  then have "concat (map zipDecompose rs) = rs" using a by (induction rs) simp_all
  moreover have "zipReorder rs = rs"
    using a by (intro zipReorder_id) (auto simp: list_all_iff ccc_zero)
  moreover have "zipComposeRunes rs = rs"
    using a by (cases rs) (simp_all add: zipComposeRunes_def compose_ascii_loop)
  ultimately show ?thesis by (simp add: nfc_runes_def)
qed

lemma nfc_runes_hangul: "is_hangul r \<Longrightarrow> nfc_runes [r] = [r]"
proof -
  assume h: "is_hangul r"
  define s where "s = r - hangulSBase"
  have r: "r = hangulSBase + s" "s < 11172" using h by (auto simp: s_def is_hangul_def hangul_defs)
  define l v t where "l = s div 588" and "v = s mod 588 div 28" and "t = s mod 28"
  have bounds: "l < 19" "v < 21" "t < 28" using r(2) by (simp_all add: l_def v_def t_def)
  have "s mod 588 mod 28 = t" by (simp add: t_def mod_mod_cancel)
  then have s: "s = (l * 21 + v) * 28 + t"
  proof -
    have "\<And>a b c. 588 * a + b = s \<Longrightarrow> 28 * c + t = b \<Longrightarrow> s = (a * 21 + c) * 28 + t" by simp
    then show ?thesis
      using mult_div_mod_eq [of 588 s] mult_div_mod_eq [of 28 "s mod 588"] \<open>s mod 588 mod 28 = t\<close>
      unfolding l_def v_def by metis
  qed
  have jamo: "hangul_jamo r = [0x1100 + l, 0x1161 + v] @ (if t \<noteq> 0 then [0x11A7 + t] else [])"
    by (simp add: hangul_jamo_def s_def l_def v_def t_def hangul_defs Let_def)
  have ccc: "zipCCCOf (0x1100 + l) = 0" "zipCCCOf (0x1161 + v) = 0" "zipCCCOf (0x11A7 + t) = 0"
    using bounds by (simp_all add: ccc_zero)
  have order: "zipReorder (hangul_jamo r) = hangul_jamo r"
    unfolding jamo by (rule zipReorder_id) (simp add: ccc)
  have lv: "zipPairCompose (0x1100 + l) (0x1161 + v) = Some (0xAC00 + (l * 21 + v) * 28)"
    using bounds by (simp add: zipPairCompose_def hangul_defs)
  have lvt: "zipPairCompose (0xAC00 + (l * 21 + v) * 28) (0x11A7 + t) = Some (0xAC00 + (l * 21 + v) * 28 + t)" if "t \<noteq> 0"
    using bounds that by (simp add: zipPairCompose_def hangul_defs)
  have "zipComposeRunes (hangul_jamo r) = [r]"
    unfolding jamo using r(1) s lv lvt ccc
    by (auto simp: zipComposeRunes_def compose_step_def Let_def hangul_defs)
  then show ?thesis
    using h order by (simp add: nfc_runes_def zipDecompose.simps [of r])
qed

section \<open>Properties\<close>

text \<open>
  Decomposition and ordering give the canonical decomposition: nothing in it can be decomposed further, ordering
  only permutes it, and no rune is left before one of a smaller non-zero combining class.
\<close>

theorem nfc_decomposition_canonical:
  "let ds = concat (map zipDecompose rs)
   in list_all fully_decomposed ds \<and> mset (zipReorder ds) = mset ds \<and> canonically_ordered (zipReorder ds)"
proof -
  have "list_all fully_decomposed (concat (map zipDecompose rs))"
    by (induction rs) (simp_all add: zipDecompose_full)
  then show ?thesis by (simp add: Let_def zipReorder_mset zipReorder_ordered)
qed

text \<open>
  Names that are already composed stay as they are: NFC changes no ASCII name, and decomposing and
  composing any of the 11172 Hangul syllables gives it back.
\<close>

theorem nfc_keeps_ascii_and_hangul:
  "(list_all (\<lambda>b. b < 0x80) name \<longrightarrow> zipNFC name = name) \<and> (is_hangul r \<longrightarrow> nfc_runes [r] = [r])"
proof -
  have "list_all (\<lambda>r. r < 0x80) (map unat name)" if "list_all (\<lambda>b. b < (0x80 :: byte)) name"
    using that by (auto simp: list_all_iff word_less_nat_alt)
  then show ?thesis
    using ascii_text [of name] by (auto simp: zipNFC_def nfc_runes_ascii nfc_runes_hangul)
qed

theorem nfc_keeps_ascii_and_hangul_witness: "zipNFC [97, 47, 98] = [97, 47, 98] \<and> nfc_runes [0xAC01] = [0xAC01]"
  using nfc_keeps_ascii_and_hangul [where name = "[97, 47, 98]" and r = "0xAC01"] by (simp add: is_hangul_def hangul_defs)

end
