(* ===== verification/Zip_Stored.thy ===== *)
theory Zip_Stored
  imports Zip_Read Zip_Name Jsonout
begin

text \<open>
  The two ZIP commands above the reader: the report of \<open>internal/formats/zipmetadata.go\<close> with its size guard, and
  the admission check of \<open>internal/formats/zipstored.go\<close>, which accepts an archive only when every entry is a plain
  stored file or directory with a safe path and a payload range of its own.
\<close>

section \<open>The report of an entry\<close>

definition pad_dec :: "nat \<Rightarrow> nat \<Rightarrow> string" where
  "pad_dec w n = replicate (w - length (dec_str n)) (CHR ''0'') @ dec_str n"

definition dosTimestamp :: "u16 \<Rightarrow> u16 \<Rightarrow> string option" where
  "dosTimestamp date tm =
     (let year = 1980 + unat (drop_bit 9 date); month = unat (drop_bit 5 date AND 15); day = unat (date AND 31);
          hour = unat (drop_bit 11 tm); minute = unat (drop_bit 5 tm AND 63); second = unat (tm AND 31) * 2
      in if \<not> (1 \<le> month \<and> month \<le> 12 \<and> 1 \<le> day \<and> day \<le> 31 \<and> hour < 24 \<and> minute < 60 \<and> second < 60)
         then None
         else Some (pad_dec 4 year @ ''-'' @ pad_dec 2 month @ ''-'' @ pad_dec 2 day @ ''T'' @ pad_dec 2 hour @ '':'' @
                    pad_dec 2 minute @ '':'' @ pad_dec 2 second))"

definition field :: "string \<Rightarrow> jval \<Rightarrow> bytes \<times> jval" where
  "field k v = (asc k, v)"

definition zipRecord :: "zip_entry \<Rightarrow> jval" where
  "zipRecord e =
     JMap [
       field ''index'' (JInt (int (Index e))), field ''name'' (JStr (Name e)),
       field ''name_encoding'' (JStr (asc (NameEncoding e))), field ''name_raw_hex'' (JStr (asc (hex_string (NameRaw e)))),
       field ''method'' (JInt (uint (Method e))), field ''flags'' (JInt (uint (Flags e))),
       field ''encrypted'' (JBool (Flags e AND 1 \<noteq> 0)), field ''crc32'' (JStr (asc (hex_low 8 (unat (CRC32 e))))),
       field ''compressed_size'' (JInt (uint (Compressed e))), field ''uncompressed_size'' (JInt (uint (Uncompressed e))),
       field ''internal_attributes'' (JInt (uint (Internal e))), field ''external_attributes'' (JInt (uint (External e))),
       field ''version_made_by'' (JInt (uint (MadeBy e))), field ''version_needed'' (JInt (uint (Needed e))),
       field ''dos_date'' (JInt (uint (DosDate e))), field ''dos_time'' (JInt (uint (DosTime e))),
       field ''timestamp'' (case dosTimestamp (DosDate e) (DosTime e) of None \<Rightarrow> JNull | Some t \<Rightarrow> JStr (asc t)),
       field ''declared_local_header_offset'' (JInt (uint (LocalOffset e))),
       field ''safety'' (JMap [
         field ''absolute'' (JBool (Absolute (Safety e))), field ''traversal'' (JBool (Traversal (Safety e))),
         field ''backslash'' (JBool (Backslash (Safety e))), field ''nul'' (JBool (NUL (Safety e))),
         field ''duplicate'' (JBool (Duplicate (Safety e)))])]"

definition zipParsed :: "zip_directory \<Rightarrow> jval zip" where
  "zipParsed d =
     andthen (EOCDComment d) (\<lambda>comment.
       Ok (JMap [
         field ''entries'' (JList (map zipRecord (Entries d))), field ''archive_prefix_bytes'' (JInt (PrefixBytes d)),
         field ''central_directory_offset'' (JInt (CentralOffset d)), field ''central_directory_size'' (JInt (CentralSize d)),
         field ''eocd_offset'' (JInt (EOCDOffset d)), field ''eocd_comment_raw_hex'' (JStr (asc (hex_string comment)))]))"

text \<open>
  The report guard: its state is the number of bytes so far. An encoding error, which \<open>entry_encodes\<close> below rules out for
  the entries of a directory, is passed on.
\<close>

definition zipReportGuard :: "(string \<Rightarrow> jfloat option) \<Rightarrow> int \<Rightarrow> int \<Rightarrow> zip_entry \<Rightarrow> int zip" where
  "zipReportGuard pf maxReport sofar e =
     (case CanonicalUnicode pf (zipRecord e) of
        Fail _ \<Rightarrow> zipErr ''jsonout''
      | Panic \<Rightarrow> Panic
      | Ok b \<Rightarrow>
          let sofar' = sofar + int (length b)
          in if maxReport < sofar' then zipErr ''canonical report exceeds max-report-bytes'' else Ok sofar')"

section \<open>Admission\<close>

definition stageChunk :: "int \<Rightarrow> int \<Rightarrow> int \<Rightarrow> int" where
  "stageChunk bufLen limit sofar = min bufLen (limit - sofar + 1)"

definition isSpecialRune :: "rune \<Rightarrow> bool" where
  "isSpecialRune c \<longleftrightarrow> c < 32 \<or> c = 127"

definition unsafe_part :: "bytes \<Rightarrow> bool" where
  "unsafe_part p \<longleftrightarrow> p = [] \<or> p = [46] \<or> p = dotdot \<or> list_ex isSpecialRune (runes_of p)"

definition storedPathUnsafe :: "bytes \<Rightarrow> bytes \<Rightarrow> bytes list \<Rightarrow> bool" where
  "storedPathUnsafe name plain parts =
     (if plain = [] \<or> take 1 name = [47] \<or> 92 \<in> set name \<or> 0 \<in> set name \<or> hasDrivePrefix name False then True
      else if list_ex unsafe_part parts then True
      else zipNFC name \<noteq> name)"

record stored_limits =
  maxMetadata :: int
  maxEntries :: int
  maxPath :: int
  maxDepth :: int
  maxEntry :: int
  maxTotal :: int
  maxReport :: int

record stored_entry =
  SEntry :: zip_entry
  SLocal :: zip_local
  SPath :: bytes
  SDir :: bool

record stored_state =
  Records :: "stored_entry list"
  Total :: int
  Paths :: "bytes \<Rightarrow> string" \<comment> \<open>a missing key reads as the empty string\<close>
  Declared :: "bytes set"
  Ranges :: "(int \<times> int) list"

definition is_dir_name :: "bytes \<Rightarrow> bool" where
  "is_dir_name name \<longleftrightarrow> name \<noteq> [] \<and> last name = 47"

definition plain_name :: "bytes \<Rightarrow> bytes" where
  "plain_name name = (if is_dir_name name then butlast name else name)"

definition ancestor_keys :: "bytes list \<Rightarrow> bytes list" where
  "ancestor_keys parts = map (\<lambda>j. join_with [47] (take (j + 1) parts)) [0..<length parts - 1]"

definition unixTypeMask :: u32 where "unixTypeMask = 0xF000"
definition unixDir :: u32 where "unixDir = 0x4000"
definition unixRegular :: u32 where "unixRegular = 0x8000"

definition bad_attributes :: "zip_entry \<Rightarrow> bool \<Rightarrow> string option" where
  "bad_attributes item isDir =
     (let madeHost = drop_bit 8 (MadeBy item); mode = drop_bit 16 (External item); dosDir = External item AND 0x10 \<noteq> 0
      in if madeHost = 3
         then (if mode AND unixTypeMask \<noteq> (if isDir then unixDir else unixRegular)
               then Some ''link or special entry attributes are unsupported'' else None)
         else if dosDir \<noteq> isDir \<or> External item AND 0x40 \<noteq> 0
         then Some ''inconsistent or special entry attributes'' else None)"

definition path_conflict :: "stored_state \<Rightarrow> bytes \<Rightarrow> bool \<Rightarrow> bytes list \<Rightarrow> bool" where
  "path_conflict st plain isDir ancestors \<longleftrightarrow>
     plain \<in> Declared st \<or> (\<not> isDir \<and> Paths st plain \<noteq> []) \<or> list_ex (\<lambda>k. Paths st k = ''file'') ancestors"

definition declare_path :: "stored_state \<Rightarrow> bytes \<Rightarrow> bool \<Rightarrow> bytes list \<Rightarrow> stored_state" where
  "declare_path st plain isDir ancestors =
     (let paths = foldl (\<lambda>p k. if p k = [] then p(k := ''directory'') else p) (Paths st) ancestors
      in st\<lparr>Paths := paths(plain := (if isDir then ''directory'' else ''file'')),
            Declared := insert plain (Declared st)\<rparr>)"

definition headers_agree :: "zip_local \<Rightarrow> zip_entry \<Rightarrow> bool" where
  "headers_agree l item \<longleftrightarrow>
     LNeeded l = Needed item \<and> LFlags l = Flags item \<and> LMethod l = Method item \<and> LDosTime l = DosTime item \<and>
     LDosDate l = DosDate item \<and> LCRC32 l = CRC32 item \<and> LCompressed l = Compressed item \<and>
     LUncompressed l = Uncompressed item \<and> LNameRaw l = NameRaw item"

text \<open>One turn of the loop of \<open>inspectStored\<close>: first the name, then the attributes, sizes and the local header.\<close>

definition inspect_name :: "stored_limits \<Rightarrow> stored_state \<Rightarrow> zip_entry \<Rightarrow> stored_state zip" where
  "inspect_name lim st item =
     (if maxPath lim < int (length (NameRaw item)) then zipErr ''entry path exceeds max-path-bytes''
      else if NameEncoding item = ''utf-8'' \<and> \<not> utf8_valid (NameRaw item)
      then zipErr ''entry name is not valid in its declared encoding''
      else
        let name = Name item; isDir = is_dir_name name; plain = plain_name name; parts = split_on 47 plain;
            ancestors = ancestor_keys parts
        in if storedPathUnsafe name plain parts then zipErr ''unsafe entry path''
           else if maxDepth lim < int (length parts) then zipErr ''entry path exceeds max-depth''
           else if path_conflict st plain isDir ancestors then zipErr ''duplicate or ancestor path conflict''
           else Ok (declare_path st plain isDir ancestors))"

definition inspect_payload ::
  "stored_limits \<Rightarrow> zip_directory \<Rightarrow> reader_at \<Rightarrow> stored_state \<Rightarrow> zip_entry \<Rightarrow> stored_state zip" where
  "inspect_payload lim dir r st item =
     (let isDir = is_dir_name (Name item)
      in case bad_attributes item isDir of
           Some msg \<Rightarrow> zipErr msg
         | None \<Rightarrow>
             if Flags item AND (1 OR 8) \<noteq> 0 \<or> Method item \<noteq> 0
             then zipErr ''only unencrypted descriptor-free STORED entries are supported''
             else if Compressed item \<noteq> Uncompressed item \<or> (isDir \<and> Uncompressed item \<noteq> 0)
             then zipErr ''invalid STORED or directory size''
             else if maxEntry lim < uint (Uncompressed item) then zipErr ''entry exceeds max-entry-bytes''
             else
               let sofar = Total st + uint (Uncompressed item)
               in if maxTotal lim < sofar then zipErr ''extracted bytes exceed max-total-bytes''
                  else andthen (ReadLocalHeader dir r item) (\<lambda>local.
                    if \<not> headers_agree local item then zipErr ''central/local header mismatch''
                    else
                      let end_pos = DataOffset local + uint (LCompressed local)
                      in if CentralOffset dir < end_pos then zipErr ''payload range crosses central directory''
                         else Ok (st\<lparr>Total := sofar,
                                Ranges := Ranges st @ [(PrefixBytes dir + uint (LocalOffset item), end_pos)],
                                Records := Records st @
                                  [\<lparr>SEntry = item, SLocal = local, SPath = Name item, SDir = isDir\<rparr>]\<rparr>)))"

fun inspect_entries ::
  "stored_limits \<Rightarrow> zip_directory \<Rightarrow> reader_at \<Rightarrow> stored_state \<Rightarrow> zip_entry list \<Rightarrow> stored_state zip" where
  "inspect_entries lim dir r st [] = Ok st"
| "inspect_entries lim dir r st (item # items) =
     andthen (inspect_name lim st item) (\<lambda>st1.
     andthen (inspect_payload lim dir r st1 item) (\<lambda>st2. inspect_entries lim dir r st2 items))"

fun overlapping :: "(int \<times> int) list \<Rightarrow> bool" where
  \<comment> \<open>some range starts before its predecessor ends\<close>
  "overlapping (a # b # rs) \<longleftrightarrow> fst b < snd a \<or> overlapping (b # rs)"
| "overlapping _ \<longleftrightarrow> False"

definition empty_state :: stored_state where
  "empty_state = \<lparr>Records = [], Total = 0, Paths = (\<lambda>_. []), Declared = {}, Ranges = []\<rparr>"

definition inspectStored ::
  "(string \<Rightarrow> jfloat option) \<Rightarrow> reader_at \<Rightarrow> int \<Rightarrow> stored_limits \<Rightarrow> (zip_directory \<times> stored_entry list) zip" where
  "inspectStored pf r n lim =
     andthen (ReadZipDirectory r n
         \<lparr>MaxCentralDirectory = maxMetadata lim, MaxEntries = maxEntries lim, MaxField = maxMetadata lim\<rparr>
         (zipReportGuard pf (maxReport lim)) 0) (\<lambda>(dir, _).
     andthen (inspect_entries lim dir r empty_state (Entries dir)) (\<lambda>st.
       if overlapping (sort_key fst (Ranges st)) then zipErr ''entry ranges overlap''
       else Ok (dir, Records st)))"

section \<open>Every entry has a canonical line\<close>

lemma asc_utf8: "list_all (\<lambda>c. (of_char c :: nat) < 128) s \<Longrightarrow> utf8_valid (asc s)"
proof -
  assume "list_all (\<lambda>c. (of_char c :: nat) < 128) s"
  then have "list_all (\<lambda>b. b < (0x80 :: byte)) (asc s)"
    by (auto simp: asc_def list_all_iff word_less_nat_alt)
  then show ?thesis using ascii_text by blast
qed

lemma field_utf8 [simp]: "fst (field k v) = asc k" "snd (field k v) = v"
  by (simp_all add: field_def)

lemma hex_low_ascii: "list_all (\<lambda>c. (of_char c :: nat) < 128) (hex_low w n)"
  by (auto simp: hex_low_def list_all_iff Let_def)

lemma hex_string_ascii: "list_all (\<lambda>c. (of_char c :: nat) < 128) (hex_string bs)"
  using hex_low_ascii by (fastforce simp: hex_string_def list_all_iff)

lemma pad_dec_ascii: "list_all (\<lambda>c. (of_char c :: nat) < 128) (pad_dec w n)"
  using dec_str_printable [of n] by (auto simp: pad_dec_def list_all_iff ascii_printable_def)

lemma dosTimestamp_ascii: "dosTimestamp d t = Some s \<Longrightarrow> list_all (\<lambda>c. (of_char c :: nat) < 128) s"
  using pad_dec_ascii by (auto simp: dosTimestamp_def Let_def split: if_splits)

lemma zipCP437_valid: "list_all valid_rune zipCP437"
  by code_simp

lemma decode_name_utf8: "utf8_valid (snd (decode_name flags raw))"
proof -
  have "list_all valid_rune (zipDecodeCP437 raw)"
  proof -
    have "valid_rune (zipCP437 ! unat (b AND 0x7f))" for b :: byte
    proof -
      have "b AND 0x7f \<le> 0x7f" by (rule word_and_le1)
      then have "unat (b AND 0x7f) < length zipCP437" by (simp add: zipCP437_def word_le_nat_alt)
      then show ?thesis using zipCP437_valid by (simp add: list_all_length)
    qed
    moreover have "valid_rune (unat b)" for b :: byte
      using unsigned_less [of b, where 'a=nat] by (simp add: valid_rune_def)
    ultimately show ?thesis by (auto simp: zipDecodeCP437_def list_all_iff)
  qed
  moreover have "list_all valid_rune (zipDecodeUTF8Replace raw)"
    by (simp add: zipDecodeUTF8Replace_port pyDecodeReplace_runes)
  ultimately show ?thesis
    using encoded_runes by (simp add: decode_name_def)
qed

lemma decode_name_encoding: "fst (decode_name flags raw) = ''utf-8'' \<or> fst (decode_name flags raw) = ''cp437''"
  by (simp add: decode_name_def)

lemma record_encodes:
  assumes "(NameEncoding e, Name e) = decode_name (Flags e) (NameRaw e)"
  shows "is_ok (CanonicalUnicode pf (zipRecord e))"
proof -
  have "utf8_valid (Name e)" using decode_name_utf8 [of "Flags e" "NameRaw e"] by (simp flip: assms)
  moreover have "utf8_valid (asc (NameEncoding e))"
    using decode_name_encoding [of "Flags e" "NameRaw e"] by (auto simp flip: assms intro: asc_utf8)
  moreover have "dosTimestamp (DosDate e) (DosTime e) = Some t \<Longrightarrow> utf8_valid (asc t)" for t
    by (intro asc_utf8 dosTimestamp_ascii)
  ultimately have "encodable pf (zipRecord e) \<and> within MaxDepth MaxDepth (zipRecord e)"
    by (auto simp: zipRecord_def field_def MaxDepth_def asc_utf8 hex_low_ascii hex_string_ascii split: option.split)
  then show ?thesis
    using enc_ok_iff(1) [of pf "\<lparr>Indent = 0, ASCII = False\<rparr>" 0 0 "zipRecord e"]
    by (simp add: CanonicalUnicode_def Encode_def)
qed

definition line_length :: "(string \<Rightarrow> jfloat option) \<Rightarrow> zip_entry \<Rightarrow> int" where
  \<comment> \<open>the length of the entry's canonical line, its duplicate marker not yet set\<close>
  "line_length pf e =
     (case CanonicalUnicode pf (zipRecord (e\<lparr>Safety := (Safety e)\<lparr>Duplicate := False\<rparr>\<rparr>)) of
        Ok b \<Rightarrow> int (length b) | _ \<Rightarrow> 0)"

lemma guarded_entries:
  "read_entries r caps (zipReportGuard pf lim) eo prefix actual left index position s = Ok (es, p, s') \<Longrightarrow>
     s' = s + sum_list (map (line_length pf) es) \<and> (es \<noteq> [] \<longrightarrow> s' \<le> lim)"
proof (induction left arbitrary: index position s es)
  case 0
  then show ?case by simp
next
  case (Suc left)
  then obtain e p1 s1 es' where
      e: "central_entry r caps eo prefix actual index position = Ok (e, p1)" and
      g: "zipReportGuard pf lim s e = Ok s1" and
      rest: "read_entries r caps (zipReportGuard pf lim) eo prefix actual left (index + 1) p1 s1 = Ok (es', p, s')" and
      es: "es = e # es'"
    by (auto simp: andthen_Ok_iff)
  have "\<not> Duplicate (Safety e)"
    using central_entry_ok [OF e] by (simp add: entry_safety_def)
  then have "e\<lparr>Safety := (Safety e)\<lparr>Duplicate := False\<rparr>\<rparr> = e" by simp
  with g have "s1 = s + line_length pf e \<and> s1 \<le> lim"
    by (auto simp: zipReportGuard_def line_length_def Let_def split: res.splits if_splits)
  moreover have "es' = [] \<Longrightarrow> s' = s1"
    using Suc.IH [OF rest] by simp
  ultimately show ?case using Suc.IH [OF rest] es by auto
qed

section \<open>Paths\<close>

text \<open>\<open>k\<close> is a directory above \<open>p\<close>.\<close>

definition dir_above :: "bytes \<Rightarrow> bytes \<Rightarrow> bool" where
  "dir_above k p \<longleftrightarrow> (\<exists>rest. p = k @ 47 # rest)"

lemma dir_above_length: "dir_above k p \<Longrightarrow> length k < length p"
  by (auto simp: dir_above_def)

lemma ancestor_keys_iff: "k \<in> set (ancestor_keys (split_on 47 p)) \<longleftrightarrow> dir_above k p"
proof
  assume "k \<in> set (ancestor_keys (split_on 47 p))"
  then obtain j where j: "j < length (split_on 47 p) - 1" "k = join_with [47] (take (j + 1) (split_on 47 p))"
    by (auto simp: ancestor_keys_def)
  have "p = join_with [47] (take (j + 1) (split_on 47 p) @ drop (j + 1) (split_on 47 p))"
    by (simp add: join_split)
  also have "\<dots> = k @ [47] @ join_with [47] (drop (j + 1) (split_on 47 p))"
    using j by (subst join_with_append) auto
  finally show "dir_above k p" unfolding dir_above_def by auto
next
  assume "dir_above k p"
  then obtain rest where p: "p = k @ 47 # rest" by (auto simp: dir_above_def)
  have parts: "split_on 47 p = split_on 47 k @ split_on 47 rest" by (simp add: p split_on_append_sep)
  have "0 < length (split_on 47 k)" "0 < length (split_on 47 rest)" by simp_all
  moreover from this have "k = join_with [47] (take (length (split_on 47 k) - 1 + 1) (split_on 47 p))"
    by (simp add: parts join_split)
  moreover have "length (split_on 47 k) - 1 < length (split_on 47 p) - 1"
    using calculation(1,2) unfolding parts length_append by linarith
  ultimately show "k \<in> set (ancestor_keys (split_on 47 p))"
    unfolding ancestor_keys_def by (auto intro!: image_eqI [of _ _ "length (split_on 47 k) - 1"])
qed

text \<open>What the name of an accepted entry satisfies.\<close>

definition safe_name :: "stored_limits \<Rightarrow> bytes \<Rightarrow> bool" where
  "safe_name lim name \<longleftrightarrow>
     (let plain = plain_name name; parts = split_on 47 plain
      in plain \<noteq> [] \<and> take 1 name \<noteq> [47] \<and> 92 \<notin> set name \<and> 0 \<notin> set name \<and> \<not> hasDrivePrefix name False \<and>
         list_all (\<lambda>p. \<not> unsafe_part p) parts \<and> zipNFC name = name \<and> int (length parts) \<le> maxDepth lim)"

definition path_inv :: "stored_limits \<Rightarrow> stored_state \<Rightarrow> bytes list \<Rightarrow> bool" where
  "path_inv lim st names \<longleftrightarrow>
     distinct (map plain_name names) \<and> Declared st = plain_name ` set names \<and>
     (\<forall>k. Paths st k = ''file'' \<longleftrightarrow> (\<exists>n \<in> set names. \<not> is_dir_name n \<and> plain_name n = k)) \<and>
     (\<forall>n \<in> set names. \<forall>k. dir_above k (plain_name n) \<longrightarrow> Paths st k \<noteq> []) \<and>
     (\<forall>m \<in> set names. \<forall>n \<in> set names. \<not> is_dir_name m \<longrightarrow> \<not> dir_above (plain_name m) (plain_name n)) \<and>
     (\<forall>n \<in> set names. safe_name lim n)"

lemma add_ancestors:
  "foldl (\<lambda>p k. if p k = [] then p(k := ''directory'') else p) p ks k =
     (if p k = [] \<and> k \<in> set ks then ''directory'' else p k)"
  by (induction ks arbitrary: p) auto

lemma inspect_name_inv:
  assumes "inspect_name lim st item = Ok st'" "path_inv lim st names"
  shows "path_inv lim st' (names @ [Name item]) \<and> Records st' = Records st \<and> Total st' = Total st \<and>
    Ranges st' = Ranges st \<and> int (length (NameRaw item)) \<le> maxPath lim"
proof -
  let ?n = "Name item" and ?plain = "plain_name (Name item)"
  let ?parts = "split_on 47 ?plain"
  from assms(1) have ok: "\<not> storedPathUnsafe ?n ?plain ?parts" "int (length ?parts) \<le> maxDepth lim"
      "\<not> path_conflict st ?plain (is_dir_name ?n) (ancestor_keys ?parts)"
      "st' = declare_path st ?plain (is_dir_name ?n) (ancestor_keys ?parts)" "int (length (NameRaw item)) \<le> maxPath lim"
    by (auto simp: inspect_name_def Let_def split: if_splits)
  have safe: "safe_name lim ?n"
    using ok(1,2) by (auto simp: safe_name_def storedPathUnsafe_def Let_def list_ex_iff list_all_iff split: if_splits)
  have fresh: "?plain \<notin> plain_name ` set names"
    using ok(3) assms(2) by (auto simp: path_conflict_def path_inv_def)
  have not_file: "dir_above k ?plain \<Longrightarrow> Paths st k \<noteq> ''file''" for k
    using ok(3) by (auto simp: path_conflict_def list_ex_iff ancestor_keys_iff)
  have file_empty: "\<not> is_dir_name ?n \<Longrightarrow> Paths st ?plain = []"
    using ok(3) by (auto simp: path_conflict_def)
  have inv: "\<And>k. Paths st k = ''file'' \<longleftrightarrow> (\<exists>n \<in> set names. \<not> is_dir_name n \<and> plain_name n = k)"
      "\<And>n k. n \<in> set names \<Longrightarrow> dir_above k (plain_name n) \<Longrightarrow> Paths st k \<noteq> []"
      "\<And>m n. m \<in> set names \<Longrightarrow> n \<in> set names \<Longrightarrow> \<not> is_dir_name m \<Longrightarrow> \<not> dir_above (plain_name m) (plain_name n)"
    using assms(2) by (auto simp: path_inv_def)
  have Paths': "Paths st' k = (if k = ?plain then (if is_dir_name ?n then ''directory'' else ''file'')
      else if Paths st k = [] \<and> dir_above k ?plain then ''directory'' else Paths st k)" for k
    by (simp add: ok(4) declare_path_def Let_def add_ancestors ancestor_keys_iff)
  have self: "\<not> dir_above ?plain ?plain" using dir_above_length by blast
  have files: "Paths st' k = ''file'' \<longleftrightarrow> (\<exists>n \<in> set (names @ [?n]). \<not> is_dir_name n \<and> plain_name n = k)" for k
  proof (cases "k = ?plain")
    case True
    moreover have "n \<in> set names \<Longrightarrow> plain_name n \<noteq> ?plain" for n using fresh by (metis imageI)
    ultimately show ?thesis by (auto simp: Paths')
  next
    case False
    with inv(1) [of k] show ?thesis by (auto simp: Paths')
  qed
  moreover have "Paths st' k \<noteq> []" if "n \<in> set (names @ [?n])" "dir_above k (plain_name n)" for n k
    using that inv(2) [of n k] by (auto simp: Paths')
  moreover have "\<not> dir_above (plain_name m) (plain_name n)"
    if "m \<in> set (names @ [?n])" "n \<in> set (names @ [?n])" "\<not> is_dir_name m" for m n
    using that inv(3) [of m n] self not_file [of "plain_name m"] inv(1) [of "plain_name m"] inv(2) [of n ?plain] file_empty
    by auto
  moreover have "Declared st' = plain_name ` set (names @ [?n])"
    using assms(2) by (auto simp: ok(4) declare_path_def path_inv_def Let_def)
  ultimately have "path_inv lim st' (names @ [?n])"
    using assms(2) fresh safe by (auto simp: path_inv_def)
  then show ?thesis by (simp add: ok(4,5) declare_path_def Let_def)
qed

section \<open>Payloads\<close>

definition entry_range :: "zip_directory \<Rightarrow> stored_entry \<Rightarrow> int \<times> int" where
  \<comment> \<open>from the local header to the end of the payload\<close>
  "entry_range dir rc =
     (PrefixBytes dir + uint (LocalOffset (SEntry rc)), DataOffset (SLocal rc) + uint (LCompressed (SLocal rc)))"

definition stored_ok :: "stored_limits \<Rightarrow> zip_directory \<Rightarrow> reader_at \<Rightarrow> stored_entry \<Rightarrow> bool" where
  "stored_ok lim dir r rc \<longleftrightarrow>
     (let e = SEntry rc
      in SPath rc = Name e \<and> SDir rc = is_dir_name (Name e) \<and> ReadLocalHeader dir r e = Ok (SLocal rc) \<and>
         headers_agree (SLocal rc) e \<and> Method e = 0 \<and> Flags e AND (1 OR 8) = 0 \<and> Compressed e = Uncompressed e \<and>
         (SDir rc \<longrightarrow> Uncompressed e = 0) \<and> bad_attributes e (SDir rc) = None \<and> uint (Uncompressed e) \<le> maxEntry lim \<and>
         int (length (NameRaw e)) \<le> maxPath lim \<and>
         fst (entry_range dir rc) + 30 \<le> snd (entry_range dir rc) \<and> snd (entry_range dir rc) \<le> CentralOffset dir)"

definition payload_inv :: "stored_limits \<Rightarrow> zip_directory \<Rightarrow> reader_at \<Rightarrow> stored_state \<Rightarrow> zip_entry list \<Rightarrow> bool" where
  "payload_inv lim dir r st es \<longleftrightarrow>
     map SEntry (Records st) = es \<and> list_all (stored_ok lim dir r) (Records st) \<and>
     Ranges st = map (entry_range dir) (Records st) \<and>
     Total st = sum_list (map (\<lambda>e. uint (Uncompressed e)) es) \<and> (es \<noteq> [] \<longrightarrow> Total st \<le> maxTotal lim)"

lemma ReadLocalHeader_offset:
  assumes "ReadLocalHeader d r e = Ok l"
  shows "PrefixBytes d + uint (LocalOffset e) + 30 \<le> DataOffset l"
  using assms by (auto simp: ReadLocalHeader_def Let_def andthen_Ok_iff split: if_splits)

lemma inspect_payload_inv:
  assumes "inspect_payload lim dir r st item = Ok st'" "payload_inv lim dir r st es"
    "int (length (NameRaw item)) \<le> maxPath lim"
  shows "payload_inv lim dir r st' (es @ [item]) \<and> Paths st' = Paths st \<and> Declared st' = Declared st"
proof -
  let ?d = "is_dir_name (Name item)"
  from assms(1) obtain l where
      l: "ReadLocalHeader dir r item = Ok l" "headers_agree l item" and
      att: "bad_attributes item ?d = None" and
      checks: "Flags item AND (1 OR 8) = 0" "Method item = 0" "Compressed item = Uncompressed item"
        "?d \<longrightarrow> Uncompressed item = 0" "uint (Uncompressed item) \<le> maxEntry lim"
        "Total st + uint (Uncompressed item) \<le> maxTotal lim" "DataOffset l + uint (LCompressed l) \<le> CentralOffset dir" and
      st': "st' = st\<lparr>Total := Total st + uint (Uncompressed item),
        Ranges := Ranges st @ [(PrefixBytes dir + uint (LocalOffset item), DataOffset l + uint (LCompressed l))],
        Records := Records st @ [\<lparr>SEntry = item, SLocal = l, SPath = Name item, SDir = ?d\<rparr>]\<rparr>"
    by (auto simp: inspect_payload_def Let_def andthen_Ok_iff split: option.splits if_splits)
  have "PrefixBytes dir + uint (LocalOffset item) + 30 \<le> DataOffset l + uint (LCompressed l)"
    using ReadLocalHeader_offset [OF l(1)] uint_ge_0 [of "LCompressed l"] by linarith
  then have "stored_ok lim dir r \<lparr>SEntry = item, SLocal = l, SPath = Name item, SDir = ?d\<rparr>"
    using l att checks assms(3)
    by (simp add: stored_ok_def entry_range_def Let_def)
  then show ?thesis
    using assms(2) checks(6) by (simp add: payload_inv_def st' entry_range_def)
qed

lemma inspect_entries_inv:
  assumes "inspect_entries lim dir r st items = Ok st'"
    "path_inv lim st (map Name es)" "payload_inv lim dir r st es"
  shows "path_inv lim st' (map Name (es @ items)) \<and> payload_inv lim dir r st' (es @ items)"
  using assms
proof (induction items arbitrary: st es)
  case Nil
  then show ?case by simp
next
  case (Cons item items)
  then obtain st1 st2 where
      s: "inspect_name lim st item = Ok st1" "inspect_payload lim dir r st1 item = Ok st2"
        "inspect_entries lim dir r st2 items = Ok st'"
    by (auto simp: andthen_Ok_iff)
  note n = inspect_name_inv [OF s(1) Cons.prems(2)]
  then have "payload_inv lim dir r st1 es" using Cons.prems(3) by (auto simp: payload_inv_def)
  from inspect_payload_inv [OF s(2) this] n
  have p: "payload_inv lim dir r st2 (es @ [item]) \<and> Paths st2 = Paths st1 \<and> Declared st2 = Declared st1" by blast
  have "path_inv lim st2 (map Name (es @ [item]))" "payload_inv lim dir r st2 (es @ [item])"
    using n p by (simp_all add: path_inv_def)
  from Cons.IH [OF s(3) this] show ?case by simp
qed

lemma inspectStored_parts:
  assumes "inspectStored pf r n lim = Ok (dir, recs)"
  obtains sofar st where
    "ReadZipDirectory r n \<lparr>MaxCentralDirectory = maxMetadata lim, MaxEntries = maxEntries lim, MaxField = maxMetadata lim\<rparr>
       (zipReportGuard pf (maxReport lim)) 0 = Ok (dir, sofar)"
    "recs = Records st" "path_inv lim st (map Name (Entries dir))" "payload_inv lim dir r st (Entries dir)"
    "\<not> overlapping (sort_key fst (Ranges st))"
proof -
  from assms obtain sofar st where
      s: "ReadZipDirectory r n \<lparr>MaxCentralDirectory = maxMetadata lim, MaxEntries = maxEntries lim, MaxField = maxMetadata lim\<rparr>
         (zipReportGuard pf (maxReport lim)) 0 = Ok (dir, sofar)"
        "inspect_entries lim dir r empty_state (Entries dir) = Ok st" "recs = Records st"
        "\<not> overlapping (sort_key fst (Ranges st))"
    by (auto simp: inspectStored_def andthen_Ok_iff split: if_splits)
  have "path_inv lim empty_state (map Name [])" "payload_inv lim dir r empty_state []"
    by (simp_all add: path_inv_def payload_inv_def empty_state_def)
  from inspect_entries_inv [OF s(2) this] show thesis
    using s by (intro that [of sofar st]) simp_all
qed

text \<open>Ordering by start and comparing neighbours finds every overlap.\<close>

lemma sorted_apart:
  "sorted (map fst rs) \<Longrightarrow> \<not> overlapping rs \<Longrightarrow> list_all (\<lambda>x. fst x < snd x) rs \<Longrightarrow>
     sorted_wrt (\<lambda>x y. snd x \<le> fst y) rs"
proof (induction rs rule: overlapping.induct)
  case (1 a b rs)
  then have tail: "sorted_wrt (\<lambda>x y. snd x \<le> fst y) (b # rs)" and ab: "snd a \<le> fst b" by auto
  have "snd a \<le> fst y" if "y \<in> set (b # rs)" for y
    using that 1(2) ab by auto
  with tail show ?case by simp
qed simp_all

definition disjoint_ranges :: "int \<times> int \<Rightarrow> int \<times> int \<Rightarrow> bool" where
  "disjoint_ranges x y \<longleftrightarrow> snd x \<le> fst y \<or> snd y \<le> fst x"

lemma not_overlapping_pairwise:
  assumes "\<not> overlapping (sort_key fst rs)" "list_all (\<lambda>x. fst x < snd x) rs"
  shows "distinct rs \<and> (\<forall>x \<in> set rs. \<forall>y \<in> set rs. x \<noteq> y \<longrightarrow> disjoint_ranges x y)"
proof -
  let ?s = "sort_key fst rs"
  have nonempty: "list_all (\<lambda>x. fst x < snd x) ?s" using assms(2) by (simp add: list_all_iff)
  then have w: "sorted_wrt (\<lambda>x y. snd x \<le> fst y) ?s"
    using assms(1) by (intro sorted_apart) simp_all
  have *: "distinct xs \<and> (\<forall>x \<in> set xs. \<forall>y \<in> set xs. x \<noteq> y \<longrightarrow> disjoint_ranges x y)"
    if "sorted_wrt (\<lambda>x y. snd x \<le> fst y) xs" "list_all (\<lambda>x. fst x < snd x) xs" for xs :: "(int \<times> int) list"
    using that by (induction xs) (auto simp: disjoint_ranges_def)
  from * [OF w nonempty] show ?thesis
    by (metis (no_types, lifting) mset_eq_imp_distinct_iff mset_sort set_sort)
qed

definition demo_limits :: stored_limits where
  "demo_limits = \<lparr>maxMetadata = 1000, maxEntries = 10, maxPath = 100, maxDepth = 4, maxEntry = 100, maxTotal = 100, maxReport = 10000\<rparr>"

lemma demo_find: "findEOCD (bytes_reader demo_zip) 104 = Ok (82, drop 82 demo_zip)"
  by code_simp

lemma demo_locator: "locator_check (bytes_reader demo_zip) 82 = Ok ()"
  by code_simp

lemma demo_central: "central_entry (bytes_reader demo_zip) demo_caps 82 0 33 0 33 = Ok (demo_entry, 82)"
  by code_simp

lemma demo_end_record:
  "length (drop 82 demo_zip) = 22 \<and> le16 (drop 82 demo_zip) 4 = 0 \<and> le16 (drop 82 demo_zip) 6 = 0 \<and>
   le16 (drop 82 demo_zip) 8 = 1 \<and> le16 (drop 82 demo_zip) 10 = 1 \<and> le32 (drop 82 demo_zip) 12 = 49 \<and>
   le32 (drop 82 demo_zip) 16 = 33 \<and> le16 (drop 82 demo_zip) 20 = 0"
  by code_simp

lemma demo_mark: "mark_duplicates [demo_entry] = [demo_entry]"
  by code_simp

lemma demo_with_callback:
  "ReadZipDirectory (bytes_reader demo_zip) 104 demo_caps onEntry s =
     andthen (onEntry s demo_entry) (\<lambda>s'. Ok (demo_directory, s'))"
proof -
  have caps: "MaxEntries demo_caps = 10" "MaxCentralDirectory demo_caps = 1000" "MaxField demo_caps = 1000"
    by (simp_all add: demo_caps_def)
  show ?thesis
    using demo_end_record
    by (cases "onEntry s demo_entry")
      (simp_all add: ReadZipDirectory_def demo_find demo_locator demo_central demo_mark demo_directory_def caps
        Let_def)
qed

lemma demo_name: "inspect_name demo_limits empty_state demo_entry = Ok (declare_path empty_state [97, 47, 98] False [[97]])"
proof -
  have "zipNFC [97, 47, 98] = [97, 47, 98]"
    using ascii_text [of "[97, 47, 98]"] by (simp add: zipNFC_def nfc_runes_ascii)
  moreover have "runes_of [97] = [97]" "runes_of [98] = [98]" by code_simp+
  ultimately show ?thesis
    by (simp add: inspect_name_def demo_entry_def demo_limits_def is_dir_name_def plain_name_def storedPathUnsafe_def
        hasDrivePrefix_def unsafe_part_def dotdot_def isSpecialRune_def ancestor_keys_def path_conflict_def empty_state_def)
qed

lemma demo_payload:
  "inspect_payload demo_limits demo_directory (bytes_reader demo_zip) st demo_entry =
     (if 100 < Total st then zipErr ''extracted bytes exceed max-total-bytes''
      else Ok (st\<lparr>Ranges := Ranges st @ [(0, 33)],
         Records := Records st @ [\<lparr>SEntry = demo_entry,
           SLocal = \<lparr>LNeeded = 20, LFlags = 0, LMethod = 0, LDosTime = 0, LDosDate = 33, LCRC32 = 0, LCompressed = 0,
             LUncompressed = 0, LNameRaw = [97, 47, 98], DataOffset = 33\<rparr>,
           SPath = [97, 47, 98], SDir = False\<rparr>]\<rparr>))"
proof -
  have "bad_attributes demo_entry False = None" by code_simp
  moreover have "is_dir_name (Name demo_entry) = False" "Flags demo_entry = 0" "Method demo_entry = 0" "Compressed demo_entry = 0"
      "Uncompressed demo_entry = 0" "LocalOffset demo_entry = 0" "PrefixBytes demo_directory = 0"
      "CentralOffset demo_directory = 33" "maxEntry demo_limits = 100" "maxTotal demo_limits = 100"
      "Name demo_entry = [97, 47, 98]" "headers_agree \<lparr>LNeeded = 20, LFlags = 0, LMethod = 0, LDosTime = 0, LDosDate = 33, LCRC32 = 0, LCompressed = 0,
             LUncompressed = 0, LNameRaw = [97, 47, 98], DataOffset = 33\<rparr> demo_entry"
    by (simp_all add: is_dir_name_def demo_entry_def demo_directory_def demo_limits_def headers_agree_def)
  ultimately show ?thesis
    by (simp add: inspect_payload_def demo_local)
qed

lemma demo_inspect:
  "\<exists>rc. inspectStored pf (bytes_reader demo_zip) 104 (demo_limits\<lparr>maxReport := line_length pf demo_entry\<rparr>) =
     Ok (demo_directory, [rc]) \<and> SPath rc = [97, 47, 98] \<and> entry_range demo_directory rc = (0, 33)"
proof -
  let ?lim = "demo_limits\<lparr>maxReport := line_length pf demo_entry\<rparr>"
  have guard: "zipReportGuard pf (line_length pf demo_entry) 0 demo_entry = Ok (line_length pf demo_entry)"
  proof -
    have "is_ok (CanonicalUnicode pf (zipRecord demo_entry))"
      by (rule record_encodes) code_simp
    moreover have "demo_entry\<lparr>Safety := (Safety demo_entry)\<lparr>Duplicate := False\<rparr>\<rparr> = demo_entry" by code_simp
    ultimately show ?thesis by (auto simp: is_ok_iff zipReportGuard_def line_length_def)
  qed
  have caps: "\<lparr>MaxCentralDirectory = maxMetadata ?lim, MaxEntries = maxEntries ?lim, MaxField = maxMetadata ?lim\<rparr> = demo_caps"
    by (simp add: demo_limits_def demo_caps_def)
  have names: "inspect_name ?lim empty_state demo_entry = inspect_name demo_limits empty_state demo_entry"
    by (simp add: inspect_name_def Let_def)
  have payloads: "inspect_payload ?lim dir r st item = inspect_payload demo_limits dir r st item" for dir r st item
  proof -
    have "maxEntry ?lim = maxEntry demo_limits" "maxTotal ?lim = maxTotal demo_limits" by simp_all
    then show ?thesis unfolding inspect_payload_def by (simp only:)
  qed
  have entries: "Entries demo_directory = [demo_entry]" "PrefixBytes demo_directory = 0" "LocalOffset demo_entry = 0"
    "Total empty_state = 0" "Records empty_state = []" "Ranges empty_state = []"
    by (simp_all add: demo_directory_def demo_entry_def empty_state_def)
  show ?thesis
    unfolding inspectStored_def caps demo_with_callback
    by (simp add: guard entries names payloads demo_name demo_payload declare_path_def entry_range_def Let_def)
qed

section \<open>Properties\<close>

text \<open>
  The size guard of both ZIP commands counts what is reported: every entry of an accepted directory, whatever its
  name bytes, has a canonical JSON line, and the bytes counted are the lengths of these lines and stay within the cap.
\<close>

theorem report_guard_counts_lines:
  assumes "ReadZipDirectory r n caps (zipReportGuard pf cap) 0 = Ok (d, sofar)"
  shows "list_all (\<lambda>e. is_ok (CanonicalUnicode pf (zipRecord e))) (Entries d) \<and>
    sofar = sum_list (map (line_length pf) (Entries d)) \<and> (Entries d \<noteq> [] \<longrightarrow> sofar \<le> cap)"
  using assms
proof (rule ReadZipDirectory_parts, goal_cases)
  case (1 es eocd)
  have lines: "map (line_length pf) (mark_duplicates es) = map (line_length pf) es"
    by (simp add: mark_duplicates_def line_length_def zipRecord_def)
  have "list_all (\<lambda>e. (NameEncoding e, Name e) = decode_name (Flags e) (NameRaw e)) es"
    using read_entries_ok [OF 1(11)] by (auto simp: list_all_iff)
  then have "list_all (\<lambda>e. (NameEncoding e, Name e) = decode_name (Flags e) (NameRaw e)) (Entries d)"
    by (simp only: 1(12) mark_duplicates_ok)
  then have "list_all (\<lambda>e. is_ok (CanonicalUnicode pf (zipRecord e))) (Entries d)"
    by (auto simp: list_all_iff record_encodes)
  moreover have "Entries d = [] \<longleftrightarrow> es = []" by (simp add: 1(12) mark_duplicates_def)
  ultimately show ?case
    using guarded_entries [OF 1(11)] lines by (auto simp: 1(12))
qed

theorem report_guard_counts_lines_witness: "is_ok (CanonicalUnicode (\<lambda>_. None) (zipRecord demo_entry))"
proof -
  obtain rc where "inspectStored (\<lambda>_. None) (bytes_reader demo_zip) 104
      (demo_limits\<lparr>maxReport := line_length (\<lambda>_. None) demo_entry\<rparr>) = Ok (demo_directory, [rc])"
    using demo_inspect by blast
  then obtain sofar where "ReadZipDirectory (bytes_reader demo_zip) 104
      \<lparr>MaxCentralDirectory = 1000, MaxEntries = 10, MaxField = 1000\<rparr>
      (zipReportGuard (\<lambda>_. None) (line_length (\<lambda>_. None) demo_entry)) 0 = Ok (demo_directory, sofar)"
    by (rule inspectStored_parts) (auto simp: demo_limits_def)
  from report_guard_counts_lines [OF this] show ?thesis
    by (simp add: demo_directory_def)
qed

text \<open>
  C12. The paths of an accepted archive can be created one after the other under an empty directory and never leave it:
  each is relative, in NFC, without empty, dot or dot-dot components, backslashes, control characters or drive prefix,
  no deeper than the cap; no two are equal once a trailing slash is dropped; and no file's path is a directory of
  another entry.
\<close>

theorem accepted_paths_are_safe:
  assumes "inspectStored pf r n lim = Ok (dir, recs)"
  shows "map SPath recs = map Name (Entries dir) \<and> distinct (map plain_name (map SPath recs)) \<and>
    list_all (\<lambda>rc. safe_name lim (SPath rc) \<and> int (length (NameRaw (SEntry rc))) \<le> maxPath lim) recs \<and>
    list_all (\<lambda>f. SDir f \<or> list_all (\<lambda>rc. \<not> dir_above (plain_name (SPath f)) (plain_name (SPath rc))) recs) recs"
  using assms
proof (rule inspectStored_parts, goal_cases)
  case (1 sofar st)
  have recs: "map SEntry recs = Entries dir" "list_all (stored_ok lim dir r) recs"
    using 1(2,4) by (simp_all add: payload_inv_def)
  have paths: "map SPath recs = map Name (Entries dir)"
    unfolding recs(1) [symmetric] using recs(2) by (auto simp: list_all_iff stored_ok_def Let_def)
  have member: "SPath rc \<in> set (map Name (Entries dir))" if "rc \<in> set recs" for rc
    unfolding paths [symmetric] using that by simp
  have "distinct (map plain_name (map SPath recs))"
    unfolding paths using 1(3) by (simp add: path_inv_def)
  moreover have "list_all (\<lambda>rc. safe_name lim (SPath rc) \<and> int (length (NameRaw (SEntry rc))) \<le> maxPath lim) recs"
  proof -
    have "safe_name lim (SPath rc)" if "rc \<in> set recs" for rc
      using 1(3) member [OF that] unfolding path_inv_def by blast
    then show ?thesis using recs(2) by (auto simp: list_all_iff stored_ok_def Let_def)
  qed
  moreover have "list_all (\<lambda>f. SDir f \<or> list_all (\<lambda>rc. \<not> dir_above (plain_name (SPath f)) (plain_name (SPath rc))) recs) recs"
  proof -
    have "SDir f \<or> \<not> dir_above (plain_name (SPath f)) (plain_name (SPath rc))" if "f \<in> set recs" "rc \<in> set recs" for f rc
      using 1(3) member [OF that(1)] member [OF that(2)] recs(2) that(1)
      unfolding path_inv_def list_all_iff stored_ok_def Let_def by metis
    then show ?thesis by (auto simp: list_all_iff)
  qed
  ultimately show ?case using paths by blast
qed

theorem accepted_paths_are_safe_witness: "safe_name demo_limits [97, 47, 98]"
proof -
  obtain rc where "inspectStored (\<lambda>_. None) (bytes_reader demo_zip) 104
      (demo_limits\<lparr>maxReport := line_length (\<lambda>_. None) demo_entry\<rparr>) = Ok (demo_directory, [rc])" "SPath rc = [97, 47, 98]"
    using demo_inspect by blast
  from accepted_paths_are_safe [OF this(1)] this(2) show ?thesis
    by (simp add: safe_name_def)
qed

text \<open>
  C10. In an accepted archive the parts of the file that belong to two entries, local header and payload, never overlap, and
  all lie before the central directory; every entry is stored, agrees with its local header in every field, is
  within the per-entry cap, and the sizes add up to at most the total cap.
\<close>

theorem accepted_ranges_are_disjoint:
  assumes "inspectStored pf r n lim = Ok (dir, recs)"
  shows "list_all (stored_ok lim dir r) recs \<and> distinct (map (entry_range dir) recs) \<and>
    list_all (\<lambda>a. list_all (\<lambda>b. a = b \<or> disjoint_ranges a b) (map (entry_range dir) recs)) (map (entry_range dir) recs) \<and>
    (recs = [] \<or> sum_list (map (\<lambda>rc. uint (Uncompressed (SEntry rc))) recs) \<le> maxTotal lim)"
  using assms
proof (rule inspectStored_parts, goal_cases)
  case (1 sofar st)
  have ranges: "Ranges st = map (entry_range dir) recs" "list_all (stored_ok lim dir r) recs" "map SEntry recs = Entries dir"
    using 1(2,4) by (simp_all add: payload_inv_def)
  have "list_all (\<lambda>x. fst x < snd x) (Ranges st)"
    unfolding ranges(1) using ranges(2) by (auto simp: list_all_iff stored_ok_def Let_def)
  from not_overlapping_pairwise [OF 1(5) this] have
    "distinct (map (entry_range dir) recs)"
    "\<forall>x \<in> set (map (entry_range dir) recs). \<forall>y \<in> set (map (entry_range dir) recs). x \<noteq> y \<longrightarrow> disjoint_ranges x y"
    by (simp_all add: ranges(1))
  moreover have "recs = [] \<or> sum_list (map (\<lambda>rc. uint (Uncompressed (SEntry rc))) recs) \<le> maxTotal lim"
  proof -
    have "sum_list (map (\<lambda>e. uint (Uncompressed e)) (Entries dir)) = sum_list (map (\<lambda>rc. uint (Uncompressed (SEntry rc))) recs)"
      unfolding ranges(3) [symmetric] by (simp add: comp_def)
    then show ?thesis using 1(4) ranges(3) by (auto simp: payload_inv_def)
  qed
  ultimately show ?case using ranges(2) by (auto simp: list_all_iff)
qed

theorem accepted_ranges_are_disjoint_witness:
  "\<exists>rc. entry_range demo_directory rc = (0, 33) \<and> stored_ok demo_limits demo_directory (bytes_reader demo_zip) rc"
proof -
  obtain rc where "inspectStored (\<lambda>_. None) (bytes_reader demo_zip) 104
      (demo_limits\<lparr>maxReport := line_length (\<lambda>_. None) demo_entry\<rparr>) = Ok (demo_directory, [rc])"
      "entry_range demo_directory rc = (0, 33)"
    using demo_inspect by blast
  with accepted_ranges_are_disjoint [OF this(1)] show ?thesis
    by (intro exI [of _ rc]) (simp add: stored_ok_def)
qed

end
