(* ===== verification/Qnx6.thy ===== *)
theory Qnx6
  imports Go_IO Go_Utf8 Jsonout
begin

text \<open>
  The read-only QNX6 file-system reader: \<open>internal/formats/qnx6.go\<close>. The reader is a record, the open image is the
  three calls the reader makes of it, and every method is a function of the reader. \<open>uint64\<close> and \<open>int64\<close> are
  64-bit words, the signed ones read with \<open>sint\<close>.
\<close>

section \<open>Errors and the image file\<close>

datatype errno = EINVAL | EIO | Errno nat

datatype qnx_parse =
    BlockRange u32
  | ShortPointers nat nat
  | OffsetRange
  | ImageTooSmall
  | BadMagic u32
  | BadBlockSize u32
  | NoBlockOffset
  | InodeRange u32
  | LongnameRange u32
  | DirTruncated u32 u64 nat

datatype qnx_err = qnxParseError qnx_parse | qnxIOError errno

definition qnxSuperblockOffset :: u64 where "qnxSuperblockOffset = 0x2000"
definition qnxMagic :: u32 where "qnxMagic = 0x68191122"
definition qnxInodeSize :: u64 where "qnxInodeSize = 128"
definition qnxDirentSize :: nat where "qnxDirentSize = 32"
definition qnxLongnameSentinel :: byte where "qnxLongnameSentinel = 0xFF"
definition qnxMaxDepth :: nat where "qnxMaxDepth = 40"
definition qnxNoBlock :: u32 where "qnxNoBlock = 0xFFFFFFFF"
definition maxInt64 :: u64 where "maxInt64 = 0x7FFFFFFFFFFFFFFF"

text \<open>
  The \<open>os.File\<close>: its size, whether the kernel seeks to a position, and what \<open>io.ReadFull\<close> reads there (the error
  is one other than the end of the file). An error is its \<open>errno\<close>, when it has one.
\<close>

record os_file =
  Stat :: "(errno option, u64) res"
  Seek :: "u64 \<Rightarrow> errno option option"
  ReadFull :: "u64 \<Rightarrow> nat \<Rightarrow> bytes \<times> errno option option"

locale image_file =
  fixes f :: os_file
  assumes stat_returns: "no_panic (Stat f)"
    and read_within: "length (fst (ReadFull f pos n)) \<le> n"

definition regular_file :: "bytes \<Rightarrow> os_file" where
  "regular_file data =
     \<lparr>Stat = Ok (word_of_nat (length data)), Seek = (\<lambda>_. None),
      ReadFull = (\<lambda>pos n. (take n (drop (unat pos) data), None))\<rparr>"

interpretation regular_file: image_file "regular_file data"
  by unfold_locales (simp_all add: regular_file_def)

definition ioErrOf :: "errno option \<Rightarrow> qnx_err" where
  "ioErrOf err = (case err of Some en \<Rightarrow> qnxIOError en | None \<Rightarrow> qnxIOError EIO)"

section \<open>The reader\<close>

record rootNode =
  rn_size :: u64
  rn_ptrs :: "u32 list"
  rn_levels :: nat

record qnxInode =
  ino_size :: u64
  ino_mode :: u16
  ino_ptrs :: "u32 list"
  ino_levels :: nat

record qnxReader =
  rd_file :: os_file
  rd_poff :: u64
  rd_bs :: u64
  rd_off :: u64
  inodeRN :: rootNode
  longRN :: rootNode
  inodeTab :: bytes
  longfile :: bytes
  blockSize :: u32
  numInodes :: u32
  numBlocks :: u32

definition newQNXReader :: "os_file \<Rightarrow> u64 \<Rightarrow> qnxReader" where
  "newQNXReader f poff =
     \<lparr>rd_file = f, rd_poff = poff, rd_bs = 512, rd_off = 0,
      inodeRN = \<lparr>rn_size = 0, rn_ptrs = [], rn_levels = 0\<rparr>,
      longRN = \<lparr>rn_size = 0, rn_ptrs = [], rn_levels = 0\<rparr>,
      inodeTab = [], longfile = [], blockSize = 0, numInodes = 0, numBlocks = 0\<rparr>"

definition negative :: "u64 \<Rightarrow> bool" where "negative x \<longleftrightarrow> sint x < 0"

lemma bit63: "0 \<le> k \<Longrightarrow> k < 2 ^ 64 \<Longrightarrow> bit (k::int) 63 \<longleftrightarrow> 2 ^ 63 \<le> k"
proof -
  assume k: "0 \<le> k" "k < 2 ^ 64"
  define q where "q = k div 2 ^ 63"
  have "q = 0 \<or> q = 1" using k unfolding q_def by auto
  moreover have "k div 2 ^ 63 = 0 \<longleftrightarrow> k < 2 ^ 63" using k by auto
  ultimately show ?thesis unfolding bit_iff_odd q_def [symmetric] by auto
qed
lemma sint_u64: "sint (x :: 64 word) = (if unat x < 2 ^ 63 then int (unat x) else int (unat x) - 2 ^ 64)"
proof -
  define k where "k = uint x"
  have k: "0 \<le> k" "k < 2 ^ 64" using uint_lt2p [of x] unfolding k_def by simp_all
  have "sint x = take_bit 64 k - 2 ^ 64 * of_bool (bit k 63)"
    using signed_take_bit_eq_take_bit_minus [of 63 k] unfolding k_def by (simp add: sint_uint)
  also have "take_bit 64 k = k" using k by (simp add: take_bit_int_eq_self)
  finally have s: "sint x = k - 2 ^ 64 * of_bool (2 ^ 63 \<le> k)" by (simp only: bit63 [OF k])
  have n: "int (unat x) = k" unfolding k_def by (rule uint_nat [symmetric])
  have "unat x < 2 ^ 63 \<longleftrightarrow> k < 2 ^ 63" using of_nat_less_iff [of "unat x" "2 ^ 63", where 'a=int] by (simp only: n of_nat_power of_nat_numeral)
  then show ?thesis unfolding s n by simp
qed

lemma negative_unat: "negative x \<longleftrightarrow> 2 ^ 63 \<le> unat x"
proof -
  have "int (unat x) < 2 ^ 64" using unsigned_less [of x, where 'a=int] by simp
  then show ?thesis unfolding negative_def sint_u64 by (auto simp: not_less)
qed

definition clamp_read :: "os_file \<Rightarrow> u64 \<Rightarrow> u64 \<Rightarrow> (qnx_err, u64) res" where
  "clamp_read f pos n =
     (if 0x100000 < n
      then (case Stat f of
              Ok sz \<Rightarrow> Ok (min n (if negative (sz - pos) then 0 else sz - pos))
            | Fail err \<Rightarrow> Fail (ioErrOf err)
            | Panic \<Rightarrow> Panic)
      else Ok n)"

definition readAt :: "qnxReader \<Rightarrow> u64 \<Rightarrow> u64 \<Rightarrow> (qnx_err, bytes) res" where
  "readAt r pos n =
     (if negative pos then Fail (qnxIOError EINVAL)
      else andthen (clamp_read (rd_file r) pos n)
        (\<lambda>m. case Seek (rd_file r) pos of
               Some err \<Rightarrow> Fail (ioErrOf err)
             | None \<Rightarrow>
                 (case ReadFull (rd_file r) pos (unat m) of
                    (got, Some err) \<Rightarrow> Fail (ioErrOf err)
                  | (got, None) \<Rightarrow> Ok got)))"

text \<open>\<open>poff + (blk + off) * bs\<close>, refusing what no \<open>int64\<close> holds.\<close>

definition blockPos :: "qnxReader \<Rightarrow> u32 \<Rightarrow> (qnx_err, u64) res" where
  "blockPos r blk =
     (let prod = unat (ucast blk + rd_off r) * unat (rd_bs r);
          hi = prod div 2 ^ 64; lo = (word_of_nat prod :: u64)
      in if hi \<noteq> 0 \<or> maxInt64 < lo then Fail (qnxParseError (BlockRange blk))
         else if maxInt64 - (if negative (rd_poff r) then 0 else rd_poff r) < lo
         then Fail (qnxParseError (BlockRange blk))
         else Ok (rd_poff r + lo))"

definition rawblk :: "qnxReader \<Rightarrow> u32 \<Rightarrow> (qnx_err, bytes) res" where
  "rawblk r blk = andthen (blockPos r blk) (\<lambda>pos. readAt r pos (rd_bs r))"

text \<open>Every leaf block of a tree, depth first, until \<open>fn\<close> says stop; \<open>s\<close> is what the closure \<open>fn\<close> updates.\<close>

function eachLeaf ::
  "qnxReader \<Rightarrow> u32 list \<Rightarrow> nat \<Rightarrow> (u32 \<Rightarrow> 's \<Rightarrow> (qnx_err, bool \<times> 's) res) \<Rightarrow> 's \<Rightarrow> (qnx_err, bool \<times> 's) res"
where
  "eachLeaf r [] levels fn s = Ok (False, s)"
| "eachLeaf r (p # ps) levels fn s =
     (if p = qnxNoBlock then eachLeaf r ps levels fn s
      else if levels = 0
      then (case fn p s of
              Ok (stop, s1) \<Rightarrow> if stop then Ok (True, s1) else eachLeaf r ps levels fn s1
            | Fail e \<Rightarrow> Fail e | Panic \<Rightarrow> Panic)
      else (case rawblk r p of
              Ok raw \<Rightarrow>
                (let n = unat (rd_bs r div 4)
                 in if length raw < 4 * n then Fail (qnxParseError (ShortPointers (4 * n) (length raw)))
                    else (case eachLeaf r (map (\<lambda>i. le32 raw (4 * i)) [0..<n]) (levels - 1) fn s of
                            Ok (stop, s1) \<Rightarrow> if stop then Ok (True, s1) else eachLeaf r ps levels fn s1
                          | Fail e \<Rightarrow> Fail e | Panic \<Rightarrow> Panic))
            | Fail e \<Rightarrow> Fail e | Panic \<Rightarrow> Panic))"
  by pat_completeness auto

termination
  by (relation "measures [\<lambda>(r, ps, levels, fn, s). levels, \<lambda>(r, ps, levels, fn, s). length ps]") auto

definition parseRN :: "bytes \<Rightarrow> nat \<Rightarrow> (qnx_err, rootNode) res" where
  "parseRN sb off =
     (if length sb < off + 73 then Panic
      else Ok \<lparr>rn_size = le64 sb off, rn_ptrs = map (\<lambda>i. le32 sb (off + 8 + 4 * i)) [0..<16],
               rn_levels = unat (sb ! (off + 72))\<rparr>)"

section \<open>Opening the file system\<close>

definition first_leaf :: "qnxReader \<Rightarrow> u32 \<Rightarrow> bool \<Rightarrow> (qnx_err, bool \<times> bool) res" where
  "first_leaf r blk found =
     andthen (rawblk r blk)
       (\<lambda>raw. Ok (True,
          if 34 \<le> length raw \<and> le16 raw 32 AND 0xF000 = 0x4000 \<and> 0 < le64 raw 0 \<and> le64 raw 0 < 50000000
          then True else found))"

text \<open>The candidates of \<open>detectOff\<close>, from \<open>cand\<close> on.\<close>

function detect_from :: "qnxReader \<Rightarrow> nat \<Rightarrow> (qnx_err, u64) res" where
  "detect_from r cand =
     (if 40 \<le> cand then Fail (qnxParseError NoBlockOffset)
      else let q = r\<lparr>rd_off := word_of_nat cand\<rparr>
           in case eachLeaf q (rn_ptrs (inodeRN r)) (rn_levels (inodeRN r)) (first_leaf q) False of
                Fail (qnxIOError _) \<Rightarrow> detect_from r (cand + 1)
              | Fail e \<Rightarrow> Fail e
              | Panic \<Rightarrow> Panic
              | Ok (_, found) \<Rightarrow> if found then Ok (word_of_nat cand) else detect_from r (cand + 1))"
  by pat_completeness auto

termination by (relation "measure (\<lambda>(r, cand). 40 - cand)") auto

declare detect_from.simps [simp del]

definition detectOff :: "qnxReader \<Rightarrow> (qnx_err, u64) res" where
  "detectOff r = (if rn_size (inodeRN r) = 0 then Ok 0 else detect_from r 0)"

text \<open>How many bytes a tree is read up to: its size, or what the image holds from the partition start.\<close>

definition read_limit :: "qnxReader \<Rightarrow> rootNode \<Rightarrow> u64" where
  "read_limit r rn =
     (case Stat (rd_file r) of
        Ok sz \<Rightarrow>
          (let ahead = (if negative (rd_poff r) then 0 else rd_poff r);
               behind = - ((if negative (rd_poff r) then rd_poff r else 0) + 1) + 1;
               total_bytes = sz + behind;
               real_bytes = total_bytes - min ahead total_bytes
           in if 0 < real_bytes then min (rn_size rn) real_bytes else rn_size rn)
      | _ \<Rightarrow> rn_size rn)"

definition gather :: "qnxReader \<Rightarrow> u64 \<Rightarrow> u32 \<Rightarrow> bytes \<Rightarrow> (qnx_err, bool \<times> bytes) res" where
  "gather r limit blk buf =
     andthen (rawblk r blk) (\<lambda>raw. Ok (unat limit \<le> length (buf @ raw), buf @ raw))"

definition readRNFile :: "qnxReader \<Rightarrow> rootNode \<Rightarrow> (qnx_err, bytes) res" where
  "readRNFile r rn =
     (if rn_size rn = 0 then Ok []
      else andthen (eachLeaf r (rn_ptrs rn) (rn_levels rn) (gather r (read_limit r rn)) [])
             (\<lambda>(stop, buf). Ok (take (unat (rn_size rn)) buf)))"

text \<open>The method \<open>parse\<close>: the reader with its block size, its block offset and its two tables.\<close>

definition parse :: "qnxReader \<Rightarrow> (qnx_err, qnxReader) res" where
  "parse r =
     (if sint maxInt64 - sint qnxSuperblockOffset < sint (rd_poff r) then Fail (qnxParseError OffsetRange)
      else andthen (readAt r (rd_poff r + qnxSuperblockOffset) 0x1000)
        (\<lambda>sb. if length sb < 0x131 then Fail (qnxParseError ImageTooSmall)
              else if le32 sb 0 \<noteq> qnxMagic then Fail (qnxParseError (BadMagic (le32 sb 0)))
              else if le32 sb 48 < 512 then Fail (qnxParseError (BadBlockSize (le32 sb 48)))
              else andthen (parseRN sb 72) (\<lambda>irn. andthen (parseRN sb 232) (\<lambda>lrn.
                let r1 = r\<lparr>numInodes := le32 sb 52, numBlocks := le32 sb 60, rd_bs := ucast (le32 sb 48),
                           blockSize := le32 sb 48, inodeRN := irn, longRN := lrn\<rparr>
                in andthen (detectOff r1) (\<lambda>off.
                     let r2 = r1\<lparr>rd_off := off\<rparr>
                     in andthen (readRNFile r2 irn) (\<lambda>tab.
                          let r3 = r2\<lparr>inodeTab := tab\<rparr>
                          in andthen (readRNFile r3 lrn) (\<lambda>long. Ok (r3\<lparr>longfile := long\<rparr>))))))))"

section \<open>Inodes, names and directories\<close>

definition inode :: "qnxReader \<Rightarrow> u32 \<Rightarrow> (qnx_err, qnxInode) res" where
  "inode r ino =
     (if ino = 0 then Fail (qnxParseError (InodeRange ino))
      else let off = (ucast ino - 1) * qnxInodeSize
           in if length (inodeTab r) < unat (off + qnxInodeSize) then Fail (qnxParseError (InodeRange ino))
              else let e = bslice (inodeTab r) (unat off) (unat (off + qnxInodeSize))
                   in if length e < 101 then Panic
                      else Ok \<lparr>ino_size = le64 e 0, ino_mode = le16 e 32,
                               ino_ptrs = map (\<lambda>i. le32 e (36 + 4 * i)) [0..<16], ino_levels = unat (e ! 100)\<rparr>)"

definition latin1 :: "bytes \<Rightarrow> bytes" where
  "latin1 b = bytes_of (map unat b)"

definition longname :: "qnxReader \<Rightarrow> u32 \<Rightarrow> (qnx_err, bytes) res" where
  "longname r idx =
     (let off = ucast idx * rd_bs r
      in if length (longfile r) < unat (off + 2) then Fail (qnxParseError (LongnameRange idx))
         else if length (longfile r) < unat off + 2 then Panic
         else let ln = le16 (longfile r) (unat off);
                  fin = min (unat (off + 2 + ucast ln)) (length (longfile r))
              in if fin < unat (off + 2) then Panic
                 else Ok (latin1 (bslice (longfile r) (unat (off + 2)) fin)))"

datatype qnxEntry = QnxEntry (ent_name: bytes) (ent_ino: u32)

text \<open>The entries of the directory bytes from \<open>at\<close> on.\<close>

function dir_entries :: "qnxReader \<Rightarrow> bytes \<Rightarrow> nat \<Rightarrow> (qnx_err, qnxEntry list) res" where
  "dir_entries r data at =
     (if length data < at + qnxDirentSize then Ok []
      else let e = bslice data at (at + qnxDirentSize); deIno = le32 e 0
           in if deIno = 0 then dir_entries r data (at + qnxDirentSize)
              else andthen
                (if e ! 4 = qnxLongnameSentinel then longname r (le32 e 8)
                 else Ok (latin1 (bslice e 5 (min (5 + unat (e ! 4)) qnxDirentSize))))
                (\<lambda>name.
                   if name = asc ''.'' \<or> name = asc ''..'' then dir_entries r data (at + qnxDirentSize)
                   else andthen (dir_entries r data (at + qnxDirentSize))
                          (\<lambda>es. Ok (QnxEntry name deIno # es))))"
  by pat_completeness auto

termination by (relation "measure (\<lambda>(r, data, at). length data + 1 - at)") (auto simp: qnxDirentSize_def)

declare dir_entries.simps [simp del]

definition listdir :: "qnxReader \<Rightarrow> u32 \<Rightarrow> (qnx_err, qnxEntry list) res" where
  "listdir r ino =
     andthen (inode r ino) (\<lambda>node.
       andthen (readRNFile r \<lparr>rn_size = ino_size node, rn_ptrs = ino_ptrs node, rn_levels = ino_levels node\<rparr>)
         (\<lambda>data.
            if length data < unat (ino_size node)
            then Fail (qnxParseError (DirTruncated ino (ino_size node) (length data)))
            else dir_entries r data 0))"

text \<open>The order \<open>slices.SortFunc\<close> sorts the entries by: the name, byte by byte, then the inode.\<close>

definition entry_le :: "qnxEntry \<Rightarrow> qnxEntry \<Rightarrow> bool" where
  "entry_le a b \<longleftrightarrow> ent_name a < ent_name b \<or> (ent_name a = ent_name b \<and> ent_ino a \<le> ent_ino b)"

instantiation qnxEntry :: linorder
begin

definition less_eq_qnxEntry :: "qnxEntry \<Rightarrow> qnxEntry \<Rightarrow> bool" where
  "less_eq_qnxEntry = entry_le"

definition less_qnxEntry :: "qnxEntry \<Rightarrow> qnxEntry \<Rightarrow> bool" where
  "less_qnxEntry a b \<longleftrightarrow> ent_name a < ent_name b \<or> (ent_name a = ent_name b \<and> ent_ino a < ent_ino b)"

instance
proof
  fix x y z :: qnxEntry
  show "(x < y) = (x \<le> y \<and> \<not> y \<le> x)"
    by (auto simp: less_eq_qnxEntry_def entry_le_def less_qnxEntry_def)
  show "x \<le> x" by (simp add: less_eq_qnxEntry_def entry_le_def)
  show "x \<le> y \<Longrightarrow> y \<le> z \<Longrightarrow> x \<le> z" by (auto simp: less_eq_qnxEntry_def entry_le_def)
  show "x \<le> y \<Longrightarrow> y \<le> x \<Longrightarrow> x = y"
    by (auto simp: less_eq_qnxEntry_def entry_le_def intro: qnxEntry.expand)
  show "x \<le> y \<or> y \<le> x" by (auto simp: less_eq_qnxEntry_def entry_le_def)
qed

end

section \<open>The walk\<close>

record walkEntry =
  we_path :: bytes
  we_mode :: u16
  we_size :: u64
  we_isDir :: bool

text \<open>What the walk shares with its caller: the inodes descended into, the depth flag, the entries emitted.\<close>

record walk_state =
  visited :: "u32 list"
  truncated :: bool
  emitted :: "walkEntry list"

definition is_dir :: "qnxInode \<Rightarrow> bool" where
  "is_dir node \<longleftrightarrow> ino_mode node AND 0xF000 = 0x4000"

definition emit :: "bytes \<Rightarrow> qnxInode \<Rightarrow> walk_state \<Rightarrow> walk_state" where
  "emit path node st =
     st\<lparr>emitted := emitted st @
        [\<lparr>we_path = path, we_mode = ino_mode node, we_size = ino_size node, we_isDir = is_dir node\<rparr>]\<rparr>"

definition child_path :: "bytes \<Rightarrow> qnxEntry \<Rightarrow> bytes" where
  "child_path base e = base @ 47 # ent_name e"

definition walk_rank :: "nat \<Rightarrow> nat" where "walk_rank depth = 2 * (qnxMaxDepth + 1 - depth)"

function (sequential) walk :: "qnxReader \<Rightarrow> u32 \<Rightarrow> bytes \<Rightarrow> nat \<Rightarrow> walk_state \<Rightarrow> (qnx_err, unit) res \<times> walk_state"
  and walk_entries :: "qnxReader \<Rightarrow> qnxEntry list \<Rightarrow> bytes \<Rightarrow> nat \<Rightarrow> walk_state \<Rightarrow> (qnx_err, unit) res \<times> walk_state"
where
  "walk r ino base depth st =
     (if qnxMaxDepth < depth then (Ok (), st\<lparr>truncated := True\<rparr>)
      else if ino \<in> set (visited st) then (Ok (), st)
      else let st1 = st\<lparr>visited := visited st @ [ino]\<rparr>
           in case listdir r ino of
                Ok es \<Rightarrow> walk_entries r (sort es) base depth st1
              | Fail e \<Rightarrow> (Fail e, st1)
              | Panic \<Rightarrow> (Panic, st1))"
| "walk_entries r [] base depth st = (Ok (), st)"
| "walk_entries r (e # es) base depth st =
     (case inode r (ent_ino e) of
        Ok node \<Rightarrow>
          (let path = child_path base e; st1 = emit path node st
           in if is_dir node
              then (case walk r (ent_ino e) path (depth + 1) st1 of
                      (Ok _, st2) \<Rightarrow> walk_entries r es base depth st2
                    | (Fail err, st2) \<Rightarrow> (Fail err, st2)
                    | (Panic, st2) \<Rightarrow> (Panic, st2))
              else walk_entries r es base depth st1)
      | Fail err \<Rightarrow> (Fail err, st)
      | Panic \<Rightarrow> (Panic, st))"
  by pat_completeness auto

termination
  by (relation "measures
       [\<lambda>c. case c of Inl (r, ino, base, depth, st) \<Rightarrow> walk_rank depth
                  | Inr (r, es, base, depth, st) \<Rightarrow> max 1 (walk_rank depth - 1),
        \<lambda>c. case c of Inl _ \<Rightarrow> 0 | Inr (r, es, base, depth, st) \<Rightarrow> length es]")
    (auto simp: walk_rank_def)

declare walk.simps [simp del]

declare walk_entries.simps [simp del]

section \<open>Paths\<close>

text \<open>The parts of \<open>s\<close> from position \<open>i\<close> on, the current one from \<open>start\<close>.\<close>

function split_from :: "bytes \<Rightarrow> byte \<Rightarrow> nat \<Rightarrow> nat \<Rightarrow> bytes list" where
  "split_from s sep i start =
     (if length s < i then []
      else if i = length s \<or> s ! i = sep
      then (if start < i then [bslice s start i] else []) @ split_from s sep (i + 1) (i + 1)
      else split_from s sep (i + 1) start)"
  by pat_completeness auto

termination by (relation "measure (\<lambda>(s, sep, i, start). length s + 1 - i)") auto

declare split_from.simps [simp del]

definition splitNonEmpty :: "bytes \<Rightarrow> byte \<Rightarrow> bytes list" where
  "splitNonEmpty s sep = split_from s sep 0 0"

fun resolve_parts :: "qnxReader \<Rightarrow> u32 \<Rightarrow> bytes list \<Rightarrow> (qnx_err, u32 option) res" where
  "resolve_parts r ino [] = Ok (Some ino)"
| "resolve_parts r ino (part # parts) =
     andthen (listdir r ino)
       (\<lambda>es. case find (\<lambda>e. ent_name e = part) es of
               None \<Rightarrow> Ok None
             | Some e \<Rightarrow> resolve_parts r (ent_ino e) parts)"

definition resolve :: "qnxReader \<Rightarrow> bytes \<Rightarrow> (qnx_err, (u32 \<times> qnxInode) option) res" where
  "resolve r fsPath =
     andthen (resolve_parts r 1 (splitNonEmpty fsPath 47))
       (\<lambda>found. case found of
                  None \<Rightarrow> Ok None
                | Some ino \<Rightarrow> andthen (inode r ino) (\<lambda>node. Ok (Some (ino, node))))"

section \<open>The commands\<close>

definition num :: "nat \<Rightarrow> bytes" where "num n = asc (dec_str n)"

definition hex8 :: "u32 \<Rightarrow> bytes" where
  "hex8 w = map (\<lambda>i. hex_digit (unat w div 16 ^ i mod 16)) (rev [0..<8])"

fun parse_text :: "qnx_parse \<Rightarrow> bytes" where
  "parse_text (BlockRange blk) = asc ''block '' @ num (unat blk) @ asc '' position is out of range''"
| "parse_text (ShortPointers want got) =
     asc ''unpack_from requires a buffer of at least '' @ num want @ asc '' bytes for unpacking '' @ num want @
     asc '' bytes at offset 0 (actual buffer size is '' @ num got @ asc '')''"
| "parse_text OffsetRange = asc ''partition offset is out of range''"
| "parse_text ImageTooSmall = asc ''image too small to contain a QNX6 superblock''"
| "parse_text (BadMagic magic) =
     asc ''bad magic 0x'' @ hex8 magic @ asc '' (expected 0x'' @ hex8 qnxMagic @
     asc ''); not a QNX6 Power-Safe image''"
| "parse_text (BadBlockSize bs) = asc ''invalid block size '' @ num (unat bs) @ asc '' in superblock''"
| "parse_text NoBlockOffset =
     asc ''cannot locate block offset; image may be corrupt or use an unsupported layout''"
| "parse_text (InodeRange ino) = asc ''inode '' @ num (unat ino) @ asc '' out of range''"
| "parse_text (LongnameRange idx) = asc ''longname index '' @ num (unat idx) @ asc '' out of range''"
| "parse_text (DirTruncated ino declared got) =
     asc ''directory data truncated: inode '' @ num (unat ino) @ asc '' declared '' @ num (unat declared) @
     asc '' bytes but only '' @ num got @ asc '' were readable (image truncated or block past EOF)''"

definition entry_json :: "walkEntry \<Rightarrow> jval" where
  "entry_json e =
     JMap [(asc ''mode'', JInt (uint (we_mode e))), (asc ''path'', JStr (we_path e)),
           (asc ''size_bytes'', JInt (uint (we_size e))),
           (asc ''type'', JStr (asc (if we_isDir e then ''dir'' else ''file'')))]"

text \<open>The document of \<open>list\<close>: \<open>r\<close> is the reader once parsed, and \<open>errs\<close> is empty or the one error.\<close>

definition list_json :: "qnxReader \<Rightarrow> u64 \<Rightarrow> u64 \<Rightarrow> string \<Rightarrow> walk_state \<Rightarrow> bytes list \<Rightarrow> jval" where
  "list_json r poff sz hex st errs =
     (let dirs = length (filter we_isDir (emitted st));
          files = length (filter (\<lambda>e. \<not> we_isDir e) (emitted st));
          info = (\<lambda>w. if errs = [] then JInt (uint (w r)) else JNull)
      in JMap
       [(asc ''entries'', JList (map entry_json (emitted st))),
        (asc ''errors'', JList (map JStr errs)),
        (asc ''filesystem'',
           JMap [(asc ''filesystem_type'', JStr (asc ''QNX6 Power-Safe'')), (asc ''block_size'', info blockSize),
                 (asc ''num_blocks'', info numBlocks), (asc ''num_inodes'', info numInodes)]),
        (asc ''input'',
           JMap [(asc ''partition_offset'', JInt (sint poff)), (asc ''sha256'', JStr (asc hex)),
                 (asc ''size_bytes'', JInt (sint sz))]),
        (asc ''limitations'',
           JList [JStr (asc ''Directory tree enumerated recursively up to depth 40.''),
                  JStr (asc ''Filenames decoded as latin-1 with replacement on error.'')]),
        (asc ''schema'', JStr (asc ''qnx6-evidence.v1'')),
        (asc ''status'', JStr (asc (if errs = [] then ''complete'' else ''failed''))),
        (asc ''summary'',
           JMap [(asc ''dirs'', JInt (int dirs)), (asc ''files'', JInt (int files)),
                 (asc ''total_entries'', JInt (int (dirs + files)))]),
        (asc ''truncated'', JBool (truncated st))])"

text \<open>
  The outcome of a command: its exit code and the document or file it wrote. \<open>wr\<close> tells whether \<open>writeNew\<close>
  succeeds, \<open>hash\<close> is what hashing the image gives, \<open>pf\<close> is the \<open>ParseFloat\<close> of the encoder.
\<close>

type_synonym outcome = "nat \<times> bytes option"

definition walk_start :: walk_state where
  "walk_start = \<lparr>visited = [], truncated = False, emitted = []\<rparr>"

definition write_list ::
  "(string \<Rightarrow> jfloat option) \<Rightarrow> (bytes \<Rightarrow> bool) \<Rightarrow> jval \<Rightarrow> bytes list \<Rightarrow> (json_err, outcome) res"
where
  "write_list pf wr doc errs =
     (case Indented pf doc of
        Ok body \<Rightarrow> if \<not> wr body then Ok (2, None) else Ok (if errs \<noteq> [] then 1 else 0, Some body)
      | Fail _ \<Rightarrow> Ok (2, None)
      | Panic \<Rightarrow> Panic)"

definition qnxList ::
  "(string \<Rightarrow> jfloat option) \<Rightarrow> (bytes \<Rightarrow> bool) \<Rightarrow> (errno option, string) res \<Rightarrow> os_file \<Rightarrow> u64 \<Rightarrow> (json_err, outcome) res"
where
  "qnxList pf wr hash f poff =
     (case Stat f of
        Panic \<Rightarrow> Panic
      | Fail _ \<Rightarrow> Ok (2, None)
      | Ok sz \<Rightarrow>
          (case hash of
             Panic \<Rightarrow> Panic
           | Fail _ \<Rightarrow> Ok (2, None)
           | Ok hex \<Rightarrow>
               (let rdr = newQNXReader f poff
                in case parse rdr of
                     Panic \<Rightarrow> Panic
                   | Fail (qnxIOError _) \<Rightarrow> Ok (2, None)
                   | Fail (qnxParseError e) \<Rightarrow>
                       write_list pf wr (list_json rdr poff sz hex walk_start [parse_text e]) [parse_text e]
                   | Ok r \<Rightarrow>
                       (case walk r 1 [] 0 walk_start of
                          (Panic, st) \<Rightarrow> Panic
                        | (Fail (qnxIOError _), st) \<Rightarrow> Ok (2, None)
                        | (Fail (qnxParseError e), st) \<Rightarrow>
                            (let errs = [asc ''walk error: '' @ parse_text e]
                             in write_list pf wr (list_json r poff sz hex st errs) errs)
                        | (Ok _, st) \<Rightarrow> write_list pf wr (list_json r poff sz hex st []) []))))"

definition fail_code :: "qnx_err \<Rightarrow> nat" where
  "fail_code e = (case e of qnxIOError _ \<Rightarrow> 2 | qnxParseError _ \<Rightarrow> 1)"

definition qnxExtract :: "(bytes \<Rightarrow> bool) \<Rightarrow> os_file \<Rightarrow> u64 \<Rightarrow> bytes \<Rightarrow> (json_err, outcome) res" where
  "qnxExtract wr f poff fsPath =
     (case parse (newQNXReader f poff) of
        Panic \<Rightarrow> Panic
      | Fail e \<Rightarrow> Ok (fail_code e, None)
      | Ok r \<Rightarrow>
          (case resolve r fsPath of
             Panic \<Rightarrow> Panic
           | Fail e \<Rightarrow> Ok (fail_code e, None)
           | Ok None \<Rightarrow> Ok (1, None)
           | Ok (Some (ino, node)) \<Rightarrow>
               (case readRNFile r \<lparr>rn_size = ino_size node, rn_ptrs = ino_ptrs node, rn_levels = ino_levels node\<rparr> of
                  Panic \<Rightarrow> Panic
                | Fail e \<Rightarrow> Ok (fail_code e, None)
                | Ok data \<Rightarrow> if wr data then Ok (0, Some data) else Ok (2, None))))"

section \<open>Block positions\<close>

declare of_nat_unat [simp del]

definition block_start :: "qnxReader \<Rightarrow> u32 \<Rightarrow> nat" where
  "block_start r blk = (unat blk + unat (rd_off r)) * unat (rd_bs r)"

lemma unat_u32_less: "unat (w :: u32) < 2 ^ 32"
  using unsigned_less [of w, where 'a=nat] by simp

lemma unat_ucast_32: "unat (ucast (w :: u32) :: u64) = unat w"
  by (simp add: unsigned_ucast_eq) (rule take_bit_nat_eq_self, use unat_u32_less [of w] in simp)

lemma unat_u64_less: "unat (w :: u64) < 2 ^ 64"
  using unsigned_less [of w, where 'a=nat] by simp

lemma unat_add_u64: "unat (a :: u64) + unat b < 2 ^ 64 \<Longrightarrow> unat (a + b) = unat a + unat b"
  using unat_add_lem [of a b] by simp

lemma unat_of_nat_u64: "n < 2 ^ 64 \<Longrightarrow> unat (word_of_nat n :: u64) = n"
  by (simp add: unat_of_nat take_bit_nat_eq_self)

lemma block_sum: "unat (rd_off r) < 2 ^ 32 \<Longrightarrow> unat (ucast (blk :: u32) + rd_off r) = unat blk + unat (rd_off r)"
  using unat_u32_less [of blk] by (subst unat_add_u64) (simp_all add: unat_ucast_32)

lemma add_signed:
  assumes b: "unat b < 2 ^ 63" and a: "\<not> negative a \<Longrightarrow> unat a + unat b < 2 ^ 63"
  shows "sint (a + b) = sint a + int (unat b)"
proof (cases "negative a")
  case False
  with a have "unat (a + b) = unat a + unat b" by (intro unat_add_u64) simp
  with False a b show ?thesis by (simp add: sint_u64 negative_unat)
next
  case True
  then have a63: "2 ^ 63 \<le> unat a" by (simp add: negative_unat)
  have u: "unat (a + b) = (unat a + unat b) mod 2 ^ 64" by (simp add: unat_word_ariths)
  show ?thesis
  proof (cases "unat a + unat b < 2 ^ 64")
    case True
    then show ?thesis using a63 b u by (simp add: sint_u64)
  next
    case False
    moreover have "unat a + unat b < 2 ^ 64 + 2 ^ 63" using unat_u64_less [of a] b by simp
    ultimately have "(unat a + unat b) mod 2 ^ 64 = unat a + unat b - 2 ^ 64"
      by (simp add: mod_if)
    then show ?thesis using a63 b u False unat_u64_less [of a] by (auto simp: sint_u64 of_nat_diff)
  qed
qed

lemma blockPos_cases:
  assumes off: "unat (rd_off r) < 2 ^ 32"
  shows "blockPos r blk =
    (if int (block_start r blk) + max 0 (sint (rd_poff r)) < 2 ^ 63
     then Ok (rd_poff r + word_of_nat (block_start r blk)) else Fail (qnxParseError (BlockRange blk)))"
proof -
  let ?n = "block_start r blk"
  have n: "unat (ucast blk + rd_off r) * unat (rd_bs r) = ?n"
    unfolding block_start_def block_sum [OF off] ..
  have m: "unat maxInt64 = 2 ^ 63 - 1" by (simp add: maxInt64_def)
  have lim: "maxInt64 - (if negative (rd_poff r) then 0 else rd_poff r) < word_of_nat ?n \<longleftrightarrow>
      2 ^ 63 \<le> int ?n + max 0 (sint (rd_poff r))" if n63: "?n < 2 ^ 63"
  proof -
    let ?P = "if negative (rd_poff r) then 0 else rd_poff r"
    have P: "unat ?P < 2 ^ 63" by (simp add: negative_unat not_le)
    have "unat (maxInt64 - ?P) = 2 ^ 63 - 1 - unat ?P"
      using P by (subst unat_sub) (simp_all add: m word_le_nat_alt)
    moreover have "unat (word_of_nat ?n :: u64) = ?n" using n63 by (intro unat_of_nat_u64) simp
    moreover have "int (unat ?P) = max 0 (sint (rd_poff r))"
      using unat_u64_less [of "rd_poff r"] by (auto simp: negative_unat sint_u64)
    ultimately show ?thesis using P by (auto simp: word_less_nat_alt)
  qed
  show ?thesis
  proof (cases "?n < 2 ^ 63")
    case True
    then have "unat (word_of_nat ?n :: u64) = ?n" by (intro unat_of_nat_u64) simp
    then have "?n div 2 ^ 64 = 0" "\<not> maxInt64 < word_of_nat ?n"
      using True by (simp_all add: word_less_nat_alt m not_less)
    with lim [OF True] show ?thesis unfolding blockPos_def n Let_def by auto
  next
    case False
    have "?n div 2 ^ 64 \<noteq> 0 \<or> maxInt64 < word_of_nat ?n"
    proof (cases "?n < 2 ^ 64")
      case True
      then have "unat (word_of_nat ?n :: u64) = ?n" by (rule unat_of_nat_u64)
      with False show ?thesis by (simp add: word_less_nat_alt m)
    qed (simp add: div_eq_0_iff)
    with False show ?thesis unfolding blockPos_def n Let_def by auto
  qed
qed

lemma blockPos_value:
  assumes off: "unat (rd_off r) < 2 ^ 32" and ok: "blockPos r blk = Ok p"
  shows "sint p = sint (rd_poff r) + int (block_start r blk)"
proof -
  define n where "n = block_start r blk"
  define w where "w = (word_of_nat n :: u64)"
  have fits: "int n + max 0 (sint (rd_poff r)) < 2 ^ 63" and p: "p = rd_poff r + w"
    using ok unfolding blockPos_cases [OF off] n_def w_def by (simp_all split: if_splits)
  have "int n < 2 ^ 63" using fits by linarith
  then have n63: "n < 2 ^ 63" by simp
  then have u: "unat w = n" unfolding w_def by (intro unat_of_nat_u64) simp
  have "sint (rd_poff r + w) = sint (rd_poff r) + int (unat w)"
  proof (rule add_signed)
    show "unat w < 2 ^ 63" using n63 u by simp
    assume "\<not> negative (rd_poff r)"
    then have "sint (rd_poff r) = int (unat (rd_poff r))" by (simp add: negative_unat sint_u64)
    with fits have "int n + int (unat (rd_poff r)) < 2 ^ 63" by linarith
    then show "unat (rd_poff r) + unat w < 2 ^ 63" unfolding u by simp
  qed
  then show ?thesis unfolding p u n_def .
qed
section \<open>The walk enumerates what is reachable\<close>

definition subdir :: "qnxReader \<Rightarrow> u32 \<Rightarrow> u32 \<Rightarrow> bool" where
  "subdir r d c \<longleftrightarrow> (\<exists>es e node. listdir r d = Ok es \<and> e \<in> set es \<and> ent_ino e = c \<and> inode r c = Ok node \<and> is_dir node)"

inductive reach :: "qnxReader \<Rightarrow> u32 \<Rightarrow> u32 \<Rightarrow> bool" for r where
  here: "reach r d d"
| down: "reach r d m \<Longrightarrow> subdir r m c \<Longrightarrow> reach r d c"

lemma reach_step:
  assumes "subdir r d m" and "reach r m c"
  shows "reach r d c"
  using assms(2,1) by (induction rule: reach.induct) (auto intro: reach.intros)

definition listing :: "qnxReader \<Rightarrow> u32 \<Rightarrow> qnxEntry list" where
  "listing r d = (case listdir r d of Ok es \<Rightarrow> es | _ \<Rightarrow> [])"

text \<open>What the report says of an entry of a directory whose path is \<open>p\<close>: the path of the entry, and what its inode holds.\<close>

definition entry_record :: "qnxReader \<Rightarrow> bytes \<Rightarrow> qnxEntry \<Rightarrow> walkEntry option" where
  "entry_record r p e =
     (case inode r (ent_ino e) of
        Ok node \<Rightarrow> Some \<lparr>we_path = p @ asc ''/'' @ ent_name e, we_mode = ino_mode node, we_size = ino_size node,
                         we_isDir = (ino_mode node AND 0xF000 = 0x4000)\<rparr>
      | _ \<Rightarrow> None)"

text \<open>The entries of the directories \<open>ds\<close>, each directory \<open>d\<close> at the path \<open>pth d\<close>.\<close>

definition all_entries :: "qnxReader \<Rightarrow> (u32 \<Rightarrow> bytes) \<Rightarrow> u32 list \<Rightarrow> walkEntry option multiset" where
  "all_entries r pth ds = mset (concat (map (\<lambda>d. map (entry_record r (pth d)) (listing r d)) ds))"

lemma all_entries_simps [simp]:
  "all_entries r pth [] = {#}"
  "all_entries r pth (d # ds) = mset (map (entry_record r (pth d)) (listing r d)) + all_entries r pth ds"
  "all_entries r pth (ds @ ds') = all_entries r pth ds + all_entries r pth ds'"
  by (simp_all add: all_entries_def)

lemma all_entries_cong: "(\<And>d. d \<in> set ds \<Longrightarrow> pth d = pth' d) \<Longrightarrow> all_entries r pth ds = all_entries r pth' ds"
  by (induction ds) simp_all

text \<open>
  Every directory of \<open>ds\<close> is a root with its path, or an entry of another directory of \<open>ds\<close>, at the path of that directory,
  a slash and the name of the entry. As the paths get longer on the way down, this is the path along a chain of entries.
\<close>

definition placed :: "qnxReader \<Rightarrow> (u32 \<times> bytes) set \<Rightarrow> (u32 \<Rightarrow> bytes) \<Rightarrow> u32 list \<Rightarrow> bool" where
  "placed r roots pth ds \<longleftrightarrow> (\<forall>d \<in> set ds. (d, pth d) \<in> roots \<or>
     (\<exists>d' \<in> set ds. \<exists>e \<in> set (listing r d'). ent_ino e = d \<and> pth d = pth d' @ asc ''/'' @ ent_name e))"

definition entry_roots :: "bytes \<Rightarrow> qnxEntry list \<Rightarrow> (u32 \<times> bytes) set" where
  "entry_roots base es = (\<lambda>e. (ent_ino e, base @ asc ''/'' @ ent_name e)) ` set es"

lemma placed_Nil [simp]: "placed r R pth []"
  by (simp add: placed_def)

lemma placed_append:
  assumes "placed r R pth ds" and "placed r R' pth' ds'" and "set ds \<inter> set ds' = {}" and "R \<union> R' \<subseteq> S"
  shows "placed r S (\<lambda>d. if d \<in> set ds then pth d else pth' d) (ds @ ds')"
  unfolding placed_def
proof
  fix d assume d: "d \<in> set (ds @ ds')"
  let ?q = "\<lambda>d. if d \<in> set ds then pth d else pth' d"
  show "(d, ?q d) \<in> S \<or> (\<exists>d' \<in> set (ds @ ds'). \<exists>e \<in> set (listing r d'). ent_ino e = d \<and> ?q d = ?q d' @ asc ''/'' @ ent_name e)"
  proof (cases "d \<in> set ds")
    case True
    then show ?thesis using assms(1,4) unfolding placed_def by fastforce
  next
    case False
    then have "(d, pth' d) \<in> R' \<or> (\<exists>d' \<in> set ds'. \<exists>e \<in> set (listing r d'). ent_ino e = d \<and> pth' d = pth' d' @ asc ''/'' @ ent_name e)"
      using d assms(2) unfolding placed_def by simp
    then consider "(d, pth' d) \<in> R'" | d' e where "d' \<in> set ds'" "e \<in> set (listing r d')" "ent_ino e = d" "pth' d = pth' d' @ asc ''/'' @ ent_name e"
      by blast
    then show ?thesis
    proof cases
      case 2
      then have "?q d' = pth' d'" "d' \<in> set (ds @ ds')" using assms(3) by auto
      then have "e \<in> set (listing r d') \<and> ent_ino e = d \<and> ?q d = ?q d' @ asc ''/'' @ ent_name e" using 2 False by simp
      then show ?thesis using \<open>d' \<in> set (ds @ ds')\<close> by blast
    qed (use False assms(4) in auto)
  qed
qed

lemma placed_under:
  assumes "placed r (entry_roots base es) pth ds" and "set (listing r ino) = set es" and "ino \<notin> set ds"
  shows "placed r {(ino, base)} (pth(ino := base)) (ino # ds)"
  using assms unfolding placed_def entry_roots_def by (auto 0 4)

definition explored :: "qnxReader \<Rightarrow> u32 set \<Rightarrow> u32 list \<Rightarrow> bool" where
  "explored r V ds \<longleftrightarrow> distinct ds \<and> (\<forall>d \<in> set ds. is_ok (listdir r d) \<and> (\<forall>c. subdir r d c \<longrightarrow> c \<in> V))"

lemma explored_simps [simp]:
  "explored r V []"
  "explored r V (d # ds) \<longleftrightarrow>
     d \<notin> set ds \<and> is_ok (listdir r d) \<and> (\<forall>c. subdir r d c \<longrightarrow> c \<in> V) \<and> explored r V ds"
  by (auto simp: explored_def)

lemma explored_append:
  "explored r V ds \<Longrightarrow> explored r W ds' \<Longrightarrow> V \<subseteq> W \<Longrightarrow> set ds \<inter> set ds' = {} \<Longrightarrow> explored r W (ds @ ds')"
  by (induction ds) auto

lemma emit_simps [simp]:
  "visited (emit p n st) = visited st" "truncated (emit p n st) = truncated st"
  "mset (emitted (emit p n st)) =
     add_mset \<lparr>we_path = p, we_mode = ino_mode n, we_size = ino_size n, we_isDir = is_dir n\<rparr> (mset (emitted st))"
  by (simp_all add: emit_def)

lemma walk_truncated_mono:
  "truncated st \<Longrightarrow> truncated (snd (walk r ino base depth st))"
  "truncated st \<Longrightarrow> truncated (snd (walk_entries r es base depth st))"
proof (induction r ino base depth st and r es base depth st rule: walk_walk_entries.induct)
  case (1 r ino base depth st)
  then show ?case by (subst walk.simps) (auto simp: Let_def split: res.splits)
next
  case (2 r base depth st)
  then show ?case by (simp add: walk_entries.simps)
next
  case (3 r e es base depth st)
  show ?case
  proof (cases "inode r (ent_ino e)")
    case (Ok node)
    let ?w = "walk r (ent_ino e) (child_path base e) (depth + 1) (emit (child_path base e) node st)"
    have "is_dir node \<Longrightarrow> truncated (snd ?w)" using 3 Ok by simp
    then show ?thesis using 3 Ok
      by (cases "fst ?w"; cases ?w) (auto simp: walk_entries.simps Let_def)
  qed (use 3 in \<open>simp_all add: walk_entries.simps\<close>)
qed

definition walk_goal :: "qnxReader \<Rightarrow> walk_state \<Rightarrow> walk_state \<Rightarrow> u32 list \<Rightarrow> bool" where
  "walk_goal r st st' new \<longleftrightarrow>
     visited st' = visited st @ new \<and> set (visited st) \<inter> set new = {} \<and> explored r (set (visited st')) new"

lemma walk_explores:
  "walk r ino base depth st = (Ok u, st') \<Longrightarrow> \<not> truncated st' \<Longrightarrow>
     \<exists>new pth. walk_goal r st st' new \<and> ino \<in> set (visited st') \<and> (\<forall>d \<in> set new. reach r ino d) \<and>
       placed r {(ino, base)} pth new \<and> (ino \<in> set new \<longrightarrow> pth ino = base) \<and>
       image_mset Some (mset (emitted st')) = image_mset Some (mset (emitted st)) + all_entries r pth new"
  "walk_entries r es base depth st = (Ok u, st') \<Longrightarrow> \<not> truncated st' \<Longrightarrow>
     \<exists>new pth. walk_goal r st st' new \<and> placed r (entry_roots base es) pth new \<and>
       (\<forall>e \<in> set es. \<exists>node. inode r (ent_ino e) = Ok node \<and> (is_dir node \<longrightarrow> ent_ino e \<in> set (visited st'))) \<and>
       (\<forall>d \<in> set new. \<exists>e \<in> set es. \<exists>node. inode r (ent_ino e) = Ok node \<and> is_dir node \<and> reach r (ent_ino e) d) \<and>
       image_mset Some (mset (emitted st')) =
         image_mset Some (mset (emitted st)) + mset (map (entry_record r base) es) + all_entries r pth new"
proof (induction r ino base depth st and r es base depth st arbitrary: u st' and u st' rule: walk_walk_entries.induct)
  case (1 r ino base depth st)
  show ?case
  proof (cases "qnxMaxDepth < depth \<or> ino \<in> set (visited st)")
    case True
    then have "st' = st" "ino \<in> set (visited st)"
      using 1(2,3) by (auto simp: walk.simps split: if_splits)
    then show ?thesis by (intro exI [of _ "[]"]) (simp add: walk_goal_def explored_def)
  next
    case False
    let ?st1 = "st\<lparr>visited := visited st @ [ino]\<rparr>"
    obtain es where es: "listdir r ino = Ok es" and w: "walk_entries r (sort es) base depth ?st1 = (Ok u, st')"
      using 1(2) False by (auto simp: walk.simps Let_def split: res.splits)
    have IH: "\<exists>new pth. walk_goal r ?st1 st' new \<and> placed r (entry_roots base (sort es)) pth new \<and>
       (\<forall>e \<in> set (sort es). \<exists>node. inode r (ent_ino e) = Ok node \<and> (is_dir node \<longrightarrow> ent_ino e \<in> set (visited st'))) \<and>
       (\<forall>d \<in> set new. \<exists>e \<in> set (sort es). \<exists>node. inode r (ent_ino e) = Ok node \<and> is_dir node \<and> reach r (ent_ino e) d) \<and>
       image_mset Some (mset (emitted st')) =
         image_mset Some (mset (emitted ?st1)) + mset (map (entry_record r base) (sort es)) + all_entries r pth new"
      using 1(1) [of ?st1 es] False es w 1(3) by auto
    then obtain new pth where g: "walk_goal r ?st1 st' new"
      and pl: "placed r (entry_roots base es) pth new"
      and all: "\<And>e. e \<in> set es \<Longrightarrow> \<exists>node. inode r (ent_ino e) = Ok node \<and> (is_dir node \<longrightarrow> ent_ino e \<in> set (visited st'))"
      and fr: "\<And>d. d \<in> set new \<Longrightarrow> \<exists>e \<in> set es. \<exists>node. inode r (ent_ino e) = Ok node \<and> is_dir node \<and> reach r (ent_ino e) d"
      and em: "image_mset Some (mset (emitted st')) =
         image_mset Some (mset (emitted st)) + mset (map (entry_record r base) es) + all_entries r pth new"
      by (auto simp: entry_roots_def)
    have sub: "subdir r ino c \<Longrightarrow> c \<in> set (visited st')" for c
      using all es by (fastforce simp: subdir_def)
    have subdirs: "e \<in> set es \<Longrightarrow> inode r (ent_ino e) = Ok node \<Longrightarrow> is_dir node \<Longrightarrow> subdir r ino (ent_ino e)" for e node
      using es by (auto simp: subdir_def)
    have "walk_goal r st st' (ino # new)"
      unfolding walk_goal_def explored_simps using g False es sub by (auto simp: walk_goal_def)
    moreover have "ino \<in> set (visited st')" using g by (simp add: walk_goal_def)
    moreover have "\<forall>d \<in> set (ino # new). reach r ino d"
      using reach_step [OF subdirs] fr by (auto intro: reach.here) blast
    moreover have fresh: "ino \<notin> set new" using g by (auto simp: walk_goal_def)
    moreover have "placed r {(ino, base)} (pth(ino := base)) (ino # new)"
      using placed_under [OF pl _ fresh] es by (simp add: listing_def)
    moreover have "all_entries r (pth(ino := base)) new = all_entries r pth new"
      using fresh by (intro all_entries_cong) auto
    then have "image_mset Some (mset (emitted st')) =
        image_mset Some (mset (emitted st)) + all_entries r (pth(ino := base)) (ino # new)"
      using em es by (simp add: listing_def)
    ultimately show ?thesis by (intro exI [of _ "ino # new"] exI [of _ "pth(ino := base)"]) (simp flip: fun_upd_def)
  qed
next
  case (2 r base depth st)
  then show ?case by (intro exI [of _ "[]"]) (simp add: walk_goal_def explored_def walk_entries.simps)
next
  case (3 r e es base depth st)
  obtain node where node: "inode r (ent_ino e) = Ok node"
    using 3(4) by (cases "inode r (ent_ino e)") (auto simp: walk_entries.simps)
  let ?p = "child_path base e" let ?st1 = "emit ?p node st"
  have at: "entry_record r base e = Some \<lparr>we_path = ?p, we_mode = ino_mode node, we_size = ino_size node, we_isDir = is_dir node\<rparr>"
    by (simp add: entry_record_def node child_path_def is_dir_def asc_def)
  have root: "(ent_ino e, ?p) \<in> entry_roots base (e # es)" by (simp add: entry_roots_def child_path_def asc_def)
  have roots: "entry_roots base es \<subseteq> entry_roots base (e # es)" by (auto simp: entry_roots_def)
  show ?case
  proof (cases "is_dir node")
    case False
    then have w: "walk_entries r es base depth ?st1 = (Ok u, st')"
      using 3(4) node by (simp add: walk_entries.simps Let_def)
    obtain new pth where pl: "placed r (entry_roots base es) pth new" and "walk_goal r ?st1 st' new"
      "\<forall>e \<in> set es. \<exists>node. inode r (ent_ino e) = Ok node \<and> (is_dir node \<longrightarrow> ent_ino e \<in> set (visited st'))"
      "\<forall>d \<in> set new. \<exists>e \<in> set es. \<exists>node. inode r (ent_ino e) = Ok node \<and> is_dir node \<and> reach r (ent_ino e) d"
      "image_mset Some (mset (emitted st')) =
         image_mset Some (mset (emitted ?st1)) + mset (map (entry_record r base) es) + all_entries r pth new"
      using 3(3) [OF node refl refl False w 3(5)] by auto
    moreover have "placed r (entry_roots base (e # es)) pth new" using pl roots unfolding placed_def by blast
    ultimately show ?thesis using node False
      by (intro exI [of _ new] exI [of _ pth]) (auto simp: walk_goal_def at)
  next
    case True
    obtain v st2 where w1: "walk r (ent_ino e) ?p (depth + 1) ?st1 = (Ok v, st2)"
      and w2: "walk_entries r es base depth st2 = (Ok u, st')"
      using 3(4) node True by (auto simp: walk_entries.simps Let_def split: prod.splits res.splits)
    have t2: "\<not> truncated st2" using walk_truncated_mono(2) [of st2 r es base depth] w2 3(5) by auto
    obtain n1 p1 where n1: "walk_goal r ?st1 st2 n1" "ent_ino e \<in> set (visited st2)" "\<forall>d \<in> set n1. reach r (ent_ino e) d"
       "image_mset Some (mset (emitted st2)) = image_mset Some (mset (emitted ?st1)) + all_entries r p1 n1"
       and pl1: "placed r {(ent_ino e, ?p)} p1 n1"
      using 3(1) [OF node refl refl True w1 t2] by auto
    obtain n2 p2 where n2: "walk_goal r st2 st' n2"
      "\<forall>e \<in> set es. \<exists>node. inode r (ent_ino e) = Ok node \<and> (is_dir node \<longrightarrow> ent_ino e \<in> set (visited st'))"
      "\<forall>d \<in> set n2. \<exists>e \<in> set es. \<exists>node. inode r (ent_ino e) = Ok node \<and> is_dir node \<and> reach r (ent_ino e) d"
      "image_mset Some (mset (emitted st')) =
         image_mset Some (mset (emitted st2)) + mset (map (entry_record r base) es) + all_entries r p2 n2"
      and pl2: "placed r (entry_roots base es) p2 n2"
      using 3(2) [OF node refl refl True w1 [symmetric] refl w2 3(5)] by auto
    have "walk_goal r st st' (n1 @ n2)"
      using n1(1) n2(1) unfolding walk_goal_def by (auto intro: explored_append)
    moreover have apart: "set n1 \<inter> set n2 = {}" using n1(1) n2(1) by (auto simp: walk_goal_def)
    define q where "q = (\<lambda>d. if d \<in> set n1 then p1 d else p2 d)"
    have "placed r (entry_roots base (e # es)) q (n1 @ n2)"
      unfolding q_def by (rule placed_append [OF pl1 pl2 apart]) (use root roots in auto)
    moreover have "all_entries r q n1 = all_entries r p1 n1" "all_entries r q n2 = all_entries r p2 n2"
      using apart by (auto intro!: all_entries_cong simp: q_def)
    then have "image_mset Some (mset (emitted st')) =
         image_mset Some (mset (emitted st)) + mset (map (entry_record r base) (e # es)) + all_entries r q (n1 @ n2)"
      using n1(4) n2(4) True by (simp add: at)
    moreover have "ent_ino e \<in> set (visited st')"
      using n1(2) n2(1) by (simp add: walk_goal_def)
    ultimately show ?thesis using n1(3) n2(2,3) node True
      by (intro exI [of _ "n1 @ n2"] exI [of _ q]) auto
  qed
qed
section \<open>Reads are bounded and never panic\<close>

lemma eachLeaf_inv:
  assumes "\<And>p s stop s'. I s \<Longrightarrow> fn p s = Ok (stop, s') \<Longrightarrow> if stop then J s' else I s'"
    and "I s" and "eachLeaf r ps levels fn s = Ok (stop, s')"
  shows "if stop then J s' else I s'"
  using assms
proof (induction r ps levels fn s arbitrary: stop s' rule: eachLeaf.induct)
  case (1 r levels fn s)
  then show ?case by simp
next
  case (2 r p ps levels fn s)
  note step = 2(5) and init = 2(6) and res = 2(7)
  show ?case
  proof (cases "p = qnxNoBlock")
    case True
    with res show ?thesis by (intro 2(1) [OF True step init]) auto
  next
    case p: False
    show ?thesis
    proof (cases "levels = 0")
      case True
      then obtain b s1 where f: "fn p s = Ok (b, s1)" using res p by (auto split: res.splits)
      show ?thesis
      proof (cases b)
        case True
        with \<open>levels = 0\<close> f res p step [OF init f] show ?thesis by simp
      next
        case False
        with \<open>levels = 0\<close> f res p step [OF init f] show ?thesis
          by (intro 2(2) [OF p _ f refl False step]) auto
      qed
    next
      case lv: False
      obtain raw where raw: "rawblk r p = Ok raw" using res p lv by (auto split: res.splits)
      let ?n = "unat (rd_bs r div 4)"
      have len: "\<not> length raw < 4 * ?n" using res p lv raw by (auto simp: Let_def split: if_splits)
      then obtain b s1 where e: "eachLeaf r (map (\<lambda>i. le32 raw (4 * i)) [0..<?n]) (levels - 1) fn s = Ok (b, s1)"
        using res p lv raw by (auto simp: Let_def split: res.splits)
      have sub: "if b then J s1 else I s1"
        by (rule 2(3) [OF p lv raw refl len step init e])
      show ?thesis
      proof (cases b)
        case True
        with sub res p lv raw len e show ?thesis by (simp add: Let_def)
      next
        case False
        with sub res p lv raw len e show ?thesis
          by (intro 2(4) [OF p lv raw refl len e refl False step]) (auto simp: Let_def)
      qed
    qed
  qed
qed

lemma eachLeaf_no_panic:
  assumes "\<And>p s. no_panic (fn p s)" and "\<And>p. no_panic (rawblk r p)"
  shows "no_panic (eachLeaf r ps levels fn s)"
  using assms
proof (induction r ps levels fn s rule: eachLeaf.induct)
  case (2 r p ps levels fn s)
  have a: "fn p s \<noteq> Panic" "rawblk r p \<noteq> Panic" using 2(5,6) by (auto simp: no_panic_def)
  show ?case
  proof (cases "p = qnxNoBlock")
    case True
    with 2 show ?thesis by simp
  next
    case p: False
    show ?thesis
    proof (cases "levels = 0")
      case True
      then show ?thesis using 2(2) [OF p True] 2(5,6) p a
        by (cases "fn p s") auto
    next
      case False
      show ?thesis
      proof (cases "rawblk r p")
        case (Ok raw)
        note IH = 2(3) [OF p False Ok refl _ 2(5,6)] 2(4) [OF p False Ok refl _ _ _ _ 2(5,6)]
        show ?thesis
          using IH p False Ok by (auto simp: Let_def no_panic_def split: res.splits if_splits)
      qed (use a p False in auto)
    qed
  qed
qed simp

context image_file
begin

lemma clamp_read_le: "clamp_read f pos n = Ok m \<Longrightarrow> m \<le> n"
  by (auto simp: clamp_read_def split: if_splits res.splits)

lemma readAt_length:
  assumes "rd_file r = f" "readAt r pos n = Ok b"
  shows "length b \<le> unat n"
proof -
  obtain m where m: "clamp_read f pos n = Ok m" and b: "b = fst (ReadFull f pos (unat m))"
    using assms by (auto simp: readAt_def andthen_Ok_iff split: if_splits option.splits prod.splits)
  have "length b \<le> unat m" unfolding b by (rule read_within)
  also have "unat m \<le> unat n" using clamp_read_le [OF m] by (simp add: word_le_nat_alt)
  finally show ?thesis .
qed

lemma readAt_no_panic: "rd_file r = f \<Longrightarrow> no_panic (readAt r pos n)"
  using stat_returns
  by (auto simp: readAt_def clamp_read_def no_panic_def andthen_Panic_iff split: if_splits res.splits option.splits prod.splits)

lemma rawblk_length: "rd_file r = f \<Longrightarrow> rawblk r blk = Ok b \<Longrightarrow> length b \<le> unat (rd_bs r)"
  by (auto simp: rawblk_def andthen_Ok_iff intro: readAt_length)

lemma rawblk_no_panic: "rd_file r = f \<Longrightarrow> no_panic (rawblk r blk)"
  unfolding rawblk_def by (rule no_panic_andthen) (auto simp: blockPos_def Let_def intro: readAt_no_panic)

lemma readRNFile_length:
  assumes f: "rd_file r = f" and ok: "readRNFile r rn = Ok b"
  shows "length b \<le> unat (rn_size rn)" "length b \<le> unat (read_limit r rn) + unat (rd_bs r)"
proof -
  let ?lim = "read_limit r rn"
  have "length b \<le> unat (rn_size rn) \<and> length b \<le> unat ?lim + unat (rd_bs r)"
  proof (cases "rn_size rn = 0")
    case True
    with ok show ?thesis by (simp add: readRNFile_def)
  next
    case False
    then obtain stop buf where e: "eachLeaf r (rn_ptrs rn) (rn_levels rn) (gather r ?lim) [] = Ok (stop, buf)"
      and b: "b = take (unat (rn_size rn)) buf"
      using ok by (auto simp: readRNFile_def andthen_Ok_iff)
    have "if stop then length buf \<le> unat ?lim + unat (rd_bs r) else length buf \<le> unat ?lim"
    proof (rule eachLeaf_inv [OF _ _ e])
      fix p s stop s'
      assume s: "length s \<le> unat ?lim" and g: "gather r ?lim p s = Ok (stop, s')"
      obtain raw where "rawblk r p = Ok raw" "s' = s @ raw" "stop \<longleftrightarrow> unat ?lim \<le> length s'"
        using g by (auto simp: gather_def andthen_Ok_iff)
      moreover from this have "length raw \<le> unat (rd_bs r)" using f by (auto intro: rawblk_length)
      ultimately show "if stop then length s' \<le> unat ?lim + unat (rd_bs r) else length s' \<le> unat ?lim"
        using s by auto
    qed simp
    then show ?thesis by (auto simp: b split: if_splits)
  qed
  then show "length b \<le> unat (rn_size rn)" "length b \<le> unat ?lim + unat (rd_bs r)" by auto
qed

lemma readRNFile_no_panic: "rd_file r = f \<Longrightarrow> no_panic (readRNFile r rn)"
  unfolding readRNFile_def
  by (auto simp: gather_def intro!: no_panic_andthen eachLeaf_no_panic rawblk_no_panic)

end
text \<open>A reader whose superblock has been read.\<close>

definition reader_ok :: "qnxReader \<Rightarrow> bool" where
  "reader_ok r \<longleftrightarrow> 512 \<le> unat (rd_bs r) \<and> unat (rd_bs r) < 2 ^ 32 \<and> unat (rd_off r) < 40"

lemma unat_mult_u64: "unat (a :: u64) * unat b < 2 ^ 64 \<Longrightarrow> unat (a * b) = unat a * unat b"
  using unat_mult_lem [of a b] by simp

lemma inode_no_panic: "no_panic (inode r ino)"
proof (cases "ino = 0")
  case False
  define off :: u64 where "off = (ucast ino - 1) * qnxInodeSize"
  have "0 < unat ino" using False by (simp add: unat_gt_0)
  then have "unat (ucast ino - 1 :: u64) = unat ino - 1"
    by (subst unat_sub) (simp_all add: word_le_nat_alt unat_ucast_32)
  then have "unat off = (unat ino - 1) * 128"
    unfolding off_def qnxInodeSize_def using unat_u32_less [of ino]
    by (subst unat_mult_u64) simp_all
  then have "unat (off + qnxInodeSize) = unat off + 128"
    unfolding qnxInodeSize_def using unat_u32_less [of ino] by (subst unat_add_u64) simp_all
  then show ?thesis
    unfolding inode_def off_def [symmetric] by (simp add: False Let_def)
qed (simp add: inode_def)

lemma longname_no_panic:
  assumes "unat (rd_bs r) < 2 ^ 32"
  shows "no_panic (longname r idx)"
proof -
  define off where "off = ucast idx * rd_bs r"
  have le: "unat idx * unat (rd_bs r) \<le> (2 ^ 32 - 1) * (2 ^ 32 - 1)"
    using assms unat_u32_less [of idx] by (intro mult_le_mono) simp_all
  then have "unat off = unat idx * unat (rd_bs r)"
    unfolding off_def by (subst unat_mult_u64) (simp_all add: unat_ucast_32)
  with le have small: "unat off \<le> (2 ^ 32 - 1) * (2 ^ 32 - 1)" by simp
  then have o2: "unat (off + 2) = unat off + 2" by (subst unat_add_u64) simp_all
  have "unat (off + 2) \<le> unat (off + 2 + ucast (ln :: u16))" for ln
  proof -
    have "unat ln < 2 ^ 16" using unsigned_less [of ln, where 'a=nat] by simp
    moreover have "unat (ucast ln :: u64) = unat ln"
      by (simp add: unsigned_ucast_eq) (rule take_bit_nat_eq_self, use \<open>unat ln < 2 ^ 16\<close> in simp)
    ultimately show ?thesis using small o2 by (subst unat_add_u64 [of "off + 2"]) simp_all
  qed
  then show ?thesis
    unfolding longname_def off_def [symmetric] by (auto simp: Let_def o2 min_def) (metis not_less)
qed

lemma dir_entries_no_panic:
  assumes bs: "unat (rd_bs r) < 2 ^ 32"
  shows "no_panic (dir_entries r data at)"
proof (induction "length data - at" arbitrary: at rule: less_induct)
  case less
  have rest: "no_panic (dir_entries r data (at + qnxDirentSize))" if "\<not> length data < at + qnxDirentSize"
    using that by (intro less) (simp add: qnxDirentSize_def)
  have name: "no_panic (if c then longname r idx else Ok b)" for c idx b
    using longname_no_panic [OF bs] by simp
  show ?case
    unfolding dir_entries.simps [of r data at] Let_def
    by (intro no_panic_if no_panic_andthen name) (simp_all add: rest)
qed

context image_file
begin

lemma listdir_no_panic: "rd_file r = f \<Longrightarrow> unat (rd_bs r) < 2 ^ 32 \<Longrightarrow> no_panic (listdir r ino)"
  unfolding listdir_def
  by (auto intro!: no_panic_andthen inode_no_panic readRNFile_no_panic dir_entries_no_panic)

lemma walk_no_panic:
  "rd_file r = f \<Longrightarrow> unat (rd_bs r) < 2 ^ 32 \<Longrightarrow> no_panic (fst (walk r ino base depth st))"
  "rd_file r = f \<Longrightarrow> unat (rd_bs r) < 2 ^ 32 \<Longrightarrow> no_panic (fst (walk_entries r es base depth st))"
proof (induction r ino base depth st and r es base depth st rule: walk_walk_entries.induct)
  case (1 r ino base depth st)
  then show ?case
    using listdir_no_panic [of r ino] by (subst walk.simps) (auto simp: Let_def split: res.splits)
next
  case (2 r base depth st)
  then show ?case by (simp add: walk_entries.simps)
next
  case (3 r e es base depth st)
  show ?case
  proof (cases "inode r (ent_ino e)")
    case (Ok node)
    let ?w = "walk r (ent_ino e) (child_path base e) (depth + 1) (emit (child_path base e) node st)"
    show ?thesis
    proof (cases "is_dir node")
      case False
      then show ?thesis using 3(3) [OF Ok refl refl False 3(4,5)] Ok by (simp add: walk_entries.simps Let_def)
    next
      case True
      note w = 3(1) [OF Ok refl refl True 3(4,5)]
      show ?thesis
      proof (cases ?w)
        case (Pair res st2)
        show ?thesis
        proof (cases res)
          case (Ok u)
          then have "no_panic (fst (walk_entries r es base depth st2))"
            using 3(2) [OF \<open>inode r (ent_ino e) = Ok node\<close> refl refl True Pair [symmetric] Ok 3(4,5)] by simp
          then show ?thesis using Ok Pair True \<open>inode r (ent_ino e) = Ok node\<close> by (simp add: walk_entries.simps Let_def)
        qed (use w Pair True Ok in \<open>simp_all add: walk_entries.simps Let_def\<close>)
      qed
    qed
  qed (use inode_no_panic [of r "ent_ino e"] in \<open>simp_all add: walk_entries.simps\<close>)
qed

lemma resolve_parts_no_panic:
  "rd_file r = f \<Longrightarrow> unat (rd_bs r) < 2 ^ 32 \<Longrightarrow> no_panic (resolve_parts r ino parts)"
  by (induction r ino parts rule: resolve_parts.induct)
    (auto intro!: no_panic_andthen listdir_no_panic split: option.splits)

lemma resolve_no_panic: "rd_file r = f \<Longrightarrow> unat (rd_bs r) < 2 ^ 32 \<Longrightarrow> no_panic (resolve r fsPath)"
  unfolding resolve_def
  by (auto intro!: no_panic_andthen resolve_parts_no_panic inode_no_panic split: option.splits)

lemma detect_from_no_panic: "rd_file r = f \<Longrightarrow> no_panic (detect_from r cand)"
proof (induction r cand rule: detect_from.induct)
  case (1 r cand)
  have leaf: "no_panic (eachLeaf q (rn_ptrs (inodeRN r)) (rn_levels (inodeRN r)) (first_leaf q) False)"
    if "rd_file q = f" for q
    using that by (auto simp: first_leaf_def intro!: eachLeaf_no_panic no_panic_andthen rawblk_no_panic)
  show ?case
    using 1 leaf [of "r\<lparr>rd_off := word_of_nat cand\<rparr>"]
    by (subst detect_from.simps) (auto simp: Let_def split: res.splits qnx_err.splits)
qed

lemma parse_no_panic: "rd_file r = f \<Longrightarrow> no_panic (parse r)"
  unfolding parse_def
  by (auto simp: parseRN_def Let_def detectOff_def
      intro!: no_panic_andthen readAt_no_panic readRNFile_no_panic detect_from_no_panic)

end

lemma detect_from_range:
  assumes "detect_from r cand = Ok off"
  shows "unat off < 40"
  using assms
proof (induction "40 - cand" arbitrary: cand rule: less_induct)
  case less
  show ?case
  proof (cases "40 \<le> cand")
    case True
    with less.prems show ?thesis by (simp add: detect_from.simps [of r cand])
  next
    case False
    have IH: "detect_from r (cand + 1) = Ok off \<Longrightarrow> unat off < 40"
      using False by (intro less.hyps [of "cand + 1"]) auto
    have "detect_from r (cand + 1) = Ok off \<or> off = word_of_nat cand"
      using less.prems False unfolding detect_from.simps [of r cand] Let_def
      by (simp split: res.split_asm prod.split_asm qnx_err.split_asm if_split_asm)
    then show ?thesis using IH False by (auto simp: unat_of_nat_u64)
  qed
qed

lemma detectOff_range: "detectOff r = Ok off \<Longrightarrow> unat off < 40"
  by (auto simp: detectOff_def dest: detect_from_range split: if_splits)

lemma parse_ok:
  assumes "parse r = Ok q"
  shows "reader_ok q \<and> rd_file q = rd_file r \<and> rd_poff q = rd_poff r"
proof -
  have bs: "512 \<le> unat (ucast w :: u64)" if "\<not> w < (512 :: u32)" for w
    using that by (simp add: unat_ucast_32 word_less_nat_alt)
  have bs32: "unat (ucast (w :: u32) :: u64) < 4294967296" for w
    using unat_u32_less [of w] by (simp add: unat_ucast_32)
  show ?thesis
    using assms unfolding parse_def
    by (auto simp: andthen_Ok_iff Let_def reader_ok_def bs bs32 dest!: detectOff_range split: if_split_asm)
qed
section \<open>Where an I/O error comes from\<close>

text \<open>A result that is not an I/O error.\<close>

definition no_io :: "(qnx_err, 'a) res \<Rightarrow> bool" where
  "no_io x \<longleftrightarrow> (\<forall>en. x \<noteq> Fail (qnxIOError en))"

fun is_parse :: "qnx_err \<Rightarrow> bool" where
  "is_parse (qnxParseError e) = True"
| "is_parse (qnxIOError en) = False"

lemma no_io_simps [simp]: "no_io (Ok x)" "no_io Panic" "no_io (Fail e) \<longleftrightarrow> is_parse e"
  by (simp_all add: no_io_def) (cases e; simp)

lemma no_io_andthen: "no_io m \<Longrightarrow> (\<And>x. m = Ok x \<Longrightarrow> no_io (g x)) \<Longrightarrow> no_io (andthen m g)"
  by (cases m) (auto simp: no_io_def)

lemma eachLeaf_no_io:
  assumes "\<And>p s. no_io (fn p s)" and "\<And>p. no_io (rawblk r p)"
  shows "no_io (eachLeaf r ps levels fn s)"
  using assms
proof (induction r ps levels fn s rule: eachLeaf.induct)
  case (2 r p ps levels fn s)
  show ?case
  proof (cases "p = qnxNoBlock")
    case True
    with 2 show ?thesis by simp
  next
    case p: False
    show ?thesis
    proof (cases "levels = 0")
      case True
      show ?thesis
      proof (cases "fn p s")
        case (Ok a)
        obtain stop s1 where a: "a = (stop, s1)" by fastforce
        show ?thesis
        proof (cases stop)
          case False
          then show ?thesis using 2(2) [OF p True Ok [unfolded a] refl False 2(5,6)] p True Ok a by simp
        qed (use p True Ok a in simp)
      qed (use 2(5) [of p s] p True in simp_all)
    next
      case False
      show ?thesis
      proof (cases "rawblk r p")
        case (Ok raw)
        note IH = 2(3) [OF p False Ok refl _ 2(5,6)] 2(4) [OF p False Ok refl _ _ _ _ 2(5,6)]
        show ?thesis
          using IH p False Ok by (auto simp: Let_def split: res.splits if_splits)
      qed (use 2(6) [of p] p False in auto)
    qed
  qed
qed simp

lemma blockPos_nonneg:
  assumes "blockPos r blk = Ok p" and "\<not> negative (rd_poff r)"
  shows "\<not> negative p"
proof -
  define lo where "lo = (word_of_nat (unat (ucast blk + rd_off r) * unat (rd_bs r)) :: u64)"
  have p: "p = rd_poff r + lo" and lo: "\<not> maxInt64 - rd_poff r < lo"
    using assms by (auto simp: blockPos_def Let_def lo_def split: if_splits)
  have poff: "unat (rd_poff r) < 2 ^ 63" using assms(2) by (simp add: negative_unat)
  have "unat (maxInt64 - rd_poff r) = 2 ^ 63 - 1 - unat (rd_poff r)"
    using poff by (subst unat_sub) (simp_all add: maxInt64_def word_le_nat_alt)
  then have "unat lo \<le> 2 ^ 63 - 1 - unat (rd_poff r)" using lo by (simp add: word_less_nat_alt)
  then have "unat (rd_poff r) + unat lo < 2 ^ 63" using poff by simp
  moreover from this have "unat p = unat (rd_poff r) + unat lo" unfolding p by (intro unat_add_u64) simp
  ultimately show ?thesis by (simp add: negative_unat)
qed

text \<open>An image on which no call fails.\<close>

locale quiet_file = image_file +
  assumes stats: "is_ok (Stat f)"
    and seeks: "Seek f pos = None"
    and reads: "snd (ReadFull f pos n) = None"
begin

lemma read_pair: "\<exists>b. ReadFull f pos n = (b, None)"
  by (metis reads prod.collapse)

lemma readAt_no_io:
  assumes "rd_file r = f" and "\<not> negative pos"
  shows "no_io (readAt r pos n)"
proof -
  have "no_io (case Seek f pos of Some err \<Rightarrow> Fail (ioErrOf err)
      | None \<Rightarrow> (case ReadFull f pos (unat m) of (got, Some err) \<Rightarrow> Fail (ioErrOf err) | (got, None) \<Rightarrow> Ok got))" for m :: u64
    using read_pair [of pos "unat m"] seeks by auto
  moreover have "no_io (clamp_read f pos n)" using stats by (auto simp: clamp_read_def is_ok_iff)
  ultimately show ?thesis unfolding readAt_def assms(1) using assms(2) by (auto intro!: no_io_andthen)
qed

lemma rawblk_no_io:
  assumes "rd_file r = f" and "\<not> negative (rd_poff r)"
  shows "no_io (rawblk r blk)"
  unfolding rawblk_def
proof (rule no_io_andthen)
  show "no_io (blockPos r blk)" by (simp add: blockPos_def Let_def)
  show "no_io (readAt r pos (rd_bs r))" if "blockPos r blk = Ok pos" for pos
    using readAt_no_io [OF assms(1) blockPos_nonneg [OF that assms(2)]] .
qed

lemma readRNFile_no_io: "rd_file r = f \<Longrightarrow> \<not> negative (rd_poff r) \<Longrightarrow> no_io (readRNFile r rn)"
  unfolding readRNFile_def
  by (auto simp: gather_def intro!: no_io_andthen eachLeaf_no_io rawblk_no_io)

lemma inode_no_io: "no_io (inode r ino)"
  by (auto simp: inode_def Let_def)

lemma dir_entries_no_io: "no_io (dir_entries r data at)"
proof (induction r data at rule: dir_entries.induct)
  case (1 r data at)
  have long: "no_io (longname r idx)" for idx by (auto simp: longname_def Let_def)
  let ?e = "bslice data at (at + qnxDirentSize)"
  show ?case
  proof (cases "length data < at + qnxDirentSize \<or> le32 ?e 0 = 0")
    case True
    then show ?thesis using 1(1) by (subst dir_entries.simps) (auto simp: Let_def)
  next
    case False
    have rest: "no_io (dir_entries r data (at + qnxDirentSize))" if "name = asc ''.'' \<or> name = asc ''..'' \<or> True" for name
      using 1 False by blast
    show ?thesis using False rest long
      by (subst dir_entries.simps) (auto simp: Let_def intro!: no_io_andthen)
  qed
qed

lemma listdir_no_io: "rd_file r = f \<Longrightarrow> \<not> negative (rd_poff r) \<Longrightarrow> no_io (listdir r ino)"
  unfolding listdir_def by (auto intro!: no_io_andthen inode_no_io readRNFile_no_io dir_entries_no_io)

lemma walk_no_io:
  "rd_file r = f \<Longrightarrow> \<not> negative (rd_poff r) \<Longrightarrow> no_io (fst (walk r ino base depth st))"
  "rd_file r = f \<Longrightarrow> \<not> negative (rd_poff r) \<Longrightarrow> no_io (fst (walk_entries r es base depth st))"
proof (induction r ino base depth st and r es base depth st rule: walk_walk_entries.induct)
  case (1 r ino base depth st)
  then show ?case
    using listdir_no_io [of r ino] by (subst walk.simps) (auto simp: Let_def split: res.splits)
next
  case (2 r base depth st)
  then show ?case by (simp add: walk_entries.simps)
next
  case (3 r e es base depth st)
  show ?case
  proof (cases "inode r (ent_ino e)")
    case (Ok node)
    let ?w = "walk r (ent_ino e) (child_path base e) (depth + 1) (emit (child_path base e) node st)"
    show ?thesis
    proof (cases "is_dir node")
      case False
      then show ?thesis using 3(3) [OF Ok refl refl False 3(4,5)] Ok by (simp add: walk_entries.simps Let_def)
    next
      case True
      note w = 3(1) [OF Ok refl refl True 3(4,5)]
      show ?thesis
      proof (cases ?w)
        case (Pair res st2)
        show ?thesis
        proof (cases res)
          case (Ok u)
          then have "no_io (fst (walk_entries r es base depth st2))"
            using 3(2) [OF \<open>inode r (ent_ino e) = Ok node\<close> refl refl True Pair [symmetric] Ok 3(4,5)] by simp
          then show ?thesis using Ok Pair True \<open>inode r (ent_ino e) = Ok node\<close> by (simp add: walk_entries.simps Let_def)
        qed (use w Pair True Ok in \<open>simp_all add: walk_entries.simps Let_def\<close>)
      qed
    qed
  qed (use inode_no_io [of r "ent_ino e"] in \<open>simp_all add: walk_entries.simps\<close>)
qed

lemma resolve_parts_no_io: "rd_file r = f \<Longrightarrow> \<not> negative (rd_poff r) \<Longrightarrow> no_io (resolve_parts r ino parts)"
  by (induction r ino parts rule: resolve_parts.induct) (auto intro!: no_io_andthen listdir_no_io split: option.splits)

lemma resolve_no_io: "rd_file r = f \<Longrightarrow> \<not> negative (rd_poff r) \<Longrightarrow> no_io (resolve r fsPath)"
  unfolding resolve_def by (auto intro!: no_io_andthen resolve_parts_no_io inode_no_io split: option.splits)

lemma detect_from_no_io: "rd_file r = f \<Longrightarrow> no_io (detect_from r cand)"
proof (induction r cand rule: detect_from.induct)
  case (1 r cand)
  show ?case using 1 by (subst detect_from.simps) (auto simp: Let_def split: res.splits qnx_err.splits)
qed

lemma parse_no_io:
  assumes "rd_file r = f" and "\<not> negative (rd_poff r)"
  shows "no_io (parse r)"
proof -
  have "\<not> negative (rd_poff r + qnxSuperblockOffset)" if "\<not> sint maxInt64 - sint qnxSuperblockOffset < sint (rd_poff r)"
  proof -
    have "unat (rd_poff r) + 0x2000 < 2 ^ 63"
      using that assms(2) by (simp add: negative_unat sint_u64 maxInt64_def qnxSuperblockOffset_def)
    moreover from this have "unat (rd_poff r + qnxSuperblockOffset) = unat (rd_poff r) + 0x2000"
      by (subst unat_add_u64) (simp_all add: qnxSuperblockOffset_def)
    ultimately show ?thesis by (simp add: negative_unat)
  qed
  then show ?thesis
    using assms unfolding parse_def
    by (auto simp: parseRN_def Let_def detectOff_def intro!: no_io_andthen readAt_no_io readRNFile_no_io detect_from_no_io)
qed

end

interpretation regular_quiet: quiet_file "regular_file data"
  by unfold_locales (simp_all add: regular_file_def)

section \<open>The report is always encodable\<close>

lemma latin1_valid: "utf8_valid (latin1 b)"
proof -
  have "valid_rune (unat c)" for c :: byte
    using unsigned_less [of c, where 'a=nat] by (simp add: valid_rune_def)
  then have "list_all valid_rune (map unat b)" by (simp add: list_all_iff)
  then show ?thesis unfolding latin1_def using encoded_runes by blast
qed

lemma longname_valid: "longname r idx = Ok n \<Longrightarrow> utf8_valid n"
  by (auto simp: longname_def Let_def latin1_valid split: if_splits)

definition names_ok :: "qnxEntry list \<Rightarrow> bool" where
  "names_ok es \<longleftrightarrow> (\<forall>e \<in> set es. utf8_valid (ent_name e))"

lemma dir_entries_names: "dir_entries r data at = Ok es \<Longrightarrow> names_ok es"
proof (induction "length data - at" arbitrary: at es rule: less_induct)
  case less
  show ?case
  proof (cases "length data < at + qnxDirentSize")
    case True
    with less.prems show ?thesis by (simp add: dir_entries.simps [of r data at] names_ok_def)
  next
    case False
    let ?e = "bslice data at (at + qnxDirentSize)"
    have IH: "dir_entries r data (at + qnxDirentSize) = Ok es' \<Longrightarrow> names_ok es'" for es'
      using False by (intro less.hyps [of "at + qnxDirentSize"]) (auto simp: qnxDirentSize_def)
    have "dir_entries r data (at + qnxDirentSize) = Ok es \<or>
      (\<exists>name deIno es'. es = QnxEntry name deIno # es' \<and> dir_entries r data (at + qnxDirentSize) = Ok es' \<and>
         (longname r (le32 ?e 8) = Ok name \<or> name = latin1 (bslice ?e 5 (min (5 + unat (?e ! 4)) qnxDirentSize))))"
      using less.prems False unfolding dir_entries.simps [of r data at] Let_def
      by (auto simp: andthen_Ok_iff split: if_split_asm)
    then show ?thesis
      using IH longname_valid latin1_valid by (auto simp: names_ok_def)
  qed
qed

lemma listdir_names: "listdir r ino = Ok es \<Longrightarrow> names_ok es"
  by (auto simp: listdir_def andthen_Ok_iff split: if_split_asm intro: dir_entries_names)

definition paths_ok :: "walk_state \<Rightarrow> bool" where
  "paths_ok st \<longleftrightarrow> (\<forall>w \<in> set (emitted st). utf8_valid (we_path w))"

lemma child_path_valid: "utf8_valid base \<Longrightarrow> utf8_valid (ent_name e) \<Longrightarrow> utf8_valid (child_path base e)"
  using utf8_valid_append [of "[47]" "ent_name e"] asc_valid [of "''/''"]
  by (simp add: child_path_def utf8_valid_append ascii_printable_def asc_def)

lemma paths_ok_emit: "paths_ok st \<Longrightarrow> utf8_valid p \<Longrightarrow> paths_ok (emit p node st)"
  by (auto simp: paths_ok_def emit_def)

lemma walk_paths:
  "utf8_valid base \<Longrightarrow> paths_ok st \<Longrightarrow> paths_ok (snd (walk r ino base depth st))"
  "utf8_valid base \<Longrightarrow> names_ok es \<Longrightarrow> paths_ok st \<Longrightarrow> paths_ok (snd (walk_entries r es base depth st))"
proof (induction r ino base depth st and r es base depth st rule: walk_walk_entries.induct)
  case (1 r ino base depth st)
  have "paths_ok (st\<lparr>truncated := True\<rparr>)" "paths_ok (st\<lparr>visited := visited st @ [ino]\<rparr>)"
    using 1(3) by (simp_all add: paths_ok_def)
  moreover have "names_ok (sort es)" if "listdir r ino = Ok es" for es
    using listdir_names [OF that] by (simp add: names_ok_def)
  ultimately show ?case
    using 1 by (subst walk.simps) (auto simp: Let_def split: res.splits)
next
  case (2 r base depth st)
  then show ?case by (simp add: walk_entries.simps)
next
  case (3 r e es base depth st)
  let ?p = "child_path base e"
  have p: "utf8_valid ?p" and es: "names_ok es"
    using 3(4,5) by (auto simp: names_ok_def intro: child_path_valid)
  show ?case
  proof (cases "inode r (ent_ino e)")
    case (Ok node)
    let ?w = "walk r (ent_ino e) ?p (depth + 1) (emit ?p node st)"
    have st1: "paths_ok (emit ?p node st)" using 3(6) p by (rule paths_ok_emit)
    show ?thesis
    proof (cases "is_dir node")
      case False
      then show ?thesis using 3(3) [OF Ok refl refl False 3(4) es st1] Ok by (simp add: walk_entries.simps Let_def)
    next
      case True
      note w = 3(1) [OF Ok refl refl True p st1]
      obtain res st2 where pair: "?w = (res, st2)" by (cases ?w)
      show ?thesis
      proof (cases res)
        case (Ok u)
        then show ?thesis
          using 3(2) [OF \<open>inode r (ent_ino e) = Ok node\<close> refl refl True pair [symmetric] Ok 3(4) es] w pair True
            \<open>inode r (ent_ino e) = Ok node\<close> by (simp add: walk_entries.simps Let_def)
      qed (use w pair True Ok in \<open>simp_all add: walk_entries.simps Let_def\<close>)
    qed
  qed (use 3 in \<open>simp_all add: walk_entries.simps\<close>)
qed

lemma num_valid: "utf8_valid (num n)"
  unfolding num_def by (intro asc_valid dec_str_printable)

lemma hex8_valid: "utf8_valid (hex8 w)"
proof -
  have "hex_digit d < (0x80 :: byte)" if "d < 16" for d
    using hex_digit_plain [OF that] by (simp add: word_less_nat_alt)
  then have "list_all (\<lambda>b. b < (0x80 :: byte)) (hex8 w)"
    by (auto simp: hex8_def list_all_iff)
  then show ?thesis using ascii_text by blast
qed

lemma parse_text_valid: "utf8_valid (parse_text e)"
  by (cases e) (simp_all add: utf8_valid_append num_valid hex8_valid asc_valid)
lemma list_json_encodes:
  assumes "paths_ok st" "ascii_printable hex" "\<And>e. e \<in> set errs \<Longrightarrow> utf8_valid e"
  shows "\<exists>body. Indented pf (list_json r poff sz hex st errs) = Ok body"
proof -
  have e: "encodable pf (entry_json w) \<and> within 998 MaxDepth (entry_json w)" if "w \<in> set (emitted st)" for w
    using that assms(1) by (auto simp: entry_json_def paths_ok_def asc_valid)
  have "encodable pf (list_json r poff sz hex st errs)"
    using e assms by (simp add: list_json_def Let_def list_all_iff asc_valid ball_Un)
  moreover have "within MaxDepth MaxDepth (list_json r poff sz hex st errs)"
    using e by (simp add: list_json_def Let_def list_all_iff MaxDepth_def)
  ultimately have "is_ok (Indented pf (list_json r poff sz hex st errs))"
    using enc_ok_iff(1) [of pf "\<lparr>Indent = 2, ASCII = True\<rparr>" 0 0 "list_json r poff sz hex st errs"]
    by (simp add: Indented_def Encode_def)
  then show ?thesis by (simp add: is_ok_iff)
qed

lemma write_list_cases:
  assumes "paths_ok st" "ascii_printable hex" "\<And>e. e \<in> set errs \<Longrightarrow> utf8_valid e"
  shows "\<exists>body. Indented pf (list_json r poff sz hex st errs) = Ok body \<and>
     write_list pf wr (list_json r poff sz hex st errs) errs =
       (if wr body then Ok (if errs \<noteq> [] then 1 else 0, Some body) else Ok (2, None))"
  using list_json_encodes [OF assms] by (fastforce simp: write_list_def)

text \<open>
  A call of the operating system fails: the size, a seek or a read of the image, or the write of the output. A partition
  offset below 0 is another cause of exit 2: the reader itself answers EINVAL to a position before the start of the image.
\<close>

definition io_failed :: "(bytes \<Rightarrow> bool) \<Rightarrow> os_file \<Rightarrow> bool" where
  "io_failed wr f \<longleftrightarrow> \<not> is_ok (Stat f) \<or> (\<exists>pos. Seek f pos \<noteq> None) \<or> (\<exists>pos n. snd (ReadFull f pos n) \<noteq> None) \<or> (\<exists>body. \<not> wr body)"

lemma io_quiet: "image_file f \<Longrightarrow> \<not> io_failed wr f \<Longrightarrow> quiet_file f"
  by (simp add: quiet_file_def quiet_file_axioms_def io_failed_def)

lemma walk_start_paths: "paths_ok walk_start"
  by (simp add: paths_ok_def walk_start_def)

lemma utf8_valid_Nil: "utf8_valid []"
  using asc_valid [of "[]"] by (simp add: asc_def)

lemma qnxList_cases:
  assumes f: "image_file f" and h: "no_panic hash" "\<And>hex. hash = Ok hex \<Longrightarrow> ascii_printable hex"
  shows
   "(\<exists>r st sz hex body. parse (newQNXReader f poff) = Ok r \<and> walk r 1 [] 0 walk_start = (Ok (), st) \<and>
        Stat f = Ok sz \<and> hash = Ok hex \<and> Indented pf (list_json r poff sz hex st []) = Ok body \<and>
        qnxList pf wr hash f poff = Ok (0, Some body)) \<or>
    (\<exists>r st sz hex body e errs. (parse (newQNXReader f poff) = Fail (qnxParseError e) \<and> errs = [parse_text e] \<or>
          parse (newQNXReader f poff) = Ok r \<and> walk r 1 [] 0 walk_start = (Fail (qnxParseError e), st) \<and>
          errs = [asc ''walk error: '' @ parse_text e]) \<and>
        Stat f = Ok sz \<and> hash = Ok hex \<and> Indented pf (list_json r poff sz hex st errs) = Ok body \<and>
        qnxList pf wr hash f poff = Ok (1, Some body)) \<or>
    (qnxList pf wr hash f poff = Ok (2, None) \<and> (io_failed wr f \<or> \<not> is_ok hash \<or> negative poff))"
proof -
  let ?rdr = "newQNXReader f poff"
  have fl: "rd_file ?rdr = f" by (simp add: newQNXReader_def)
  have quiet: "parse ?rdr \<noteq> Fail (qnxIOError en)"
    "parse ?rdr = Ok r \<Longrightarrow> fst (walk r 1 [] 0 walk_start) \<noteq> Fail (qnxIOError en)"
    if "\<not> io_failed wr f" "\<not> negative poff" for r en
  proof -
    have q: "quiet_file f" by (rule io_quiet [OF f that(1)])
    show "parse ?rdr \<noteq> Fail (qnxIOError en)"
      using quiet_file.parse_no_io [OF q fl] that(2) by (auto simp: newQNXReader_def no_io_def)
    show "fst (walk r 1 [] 0 walk_start) \<noteq> Fail (qnxIOError en)" if "parse ?rdr = Ok r"
      using quiet_file.walk_no_io(1) [OF q, of r 1 "[]" 0 walk_start] parse_ok [OF that] \<open>\<not> negative poff\<close>
      by (auto simp: newQNXReader_def no_io_def)
  qed
  note no_panics = image_file.stat_returns [OF f] h(1) image_file.parse_no_panic [OF f fl]
  show ?thesis
  proof (cases "is_ok (Stat f) \<and> is_ok hash")
    case False
    then show ?thesis
      using no_panics by (cases "Stat f"; cases hash) (auto simp: qnxList_def io_failed_def)
  next
    case True
    then obtain sz hex where sz: "Stat f = Ok sz" and hex: "hash = Ok hex" by (auto simp: is_ok_iff)
    note enc = write_list_cases [where pf = pf and wr = wr and poff = poff and sz = sz, OF _ h(2) [OF hex]]
    show ?thesis
    proof (cases "parse ?rdr")
      case (Fail e)
      show ?thesis
      proof (cases e)
        case (qnxParseError pe)
        obtain body where "Indented pf (list_json ?rdr poff sz hex walk_start [parse_text pe]) = Ok body"
          "qnxList pf wr hash f poff = (if wr body then Ok (1, Some body) else Ok (2, None))"
          using enc [of walk_start "[parse_text pe]" ?rdr] walk_start_paths parse_text_valid
          by (auto simp: qnxList_def sz hex Fail qnxParseError)
        then show ?thesis
          using Fail qnxParseError sz hex by (auto simp: io_failed_def)
      qed (use Fail sz hex quiet(1) in \<open>auto simp: qnxList_def\<close>)
    next
      case (Ok r)
      have r: "rd_file r = f" "unat (rd_bs r) < 2 ^ 32"
        using parse_ok [OF Ok] fl by (auto simp: reader_ok_def)
      obtain res st where w: "walk r 1 [] 0 walk_start = (res, st)" by (cases "walk r 1 [] 0 walk_start")
      have st: "paths_ok st" using walk_paths(1) [OF utf8_valid_Nil walk_start_paths, of r 1 0] w by simp
      show ?thesis
      proof (cases res)
        case (Ok u)
        obtain body where "Indented pf (list_json r poff sz hex st []) = Ok body"
          "qnxList pf wr hash f poff = (if wr body then Ok (0, Some body) else Ok (2, None))"
          using enc [OF st, of "[]" r] by (auto simp: qnxList_def sz hex \<open>parse ?rdr = Ok r\<close> w Ok)
        then show ?thesis
          using Ok w sz hex \<open>parse ?rdr = Ok r\<close> by (cases "wr body") (auto simp: io_failed_def)
      next
        case (Fail e)
        show ?thesis
        proof (cases e)
          case (qnxParseError pe)
          let ?errs = "[asc ''walk error: '' @ parse_text pe]"
          obtain body where "Indented pf (list_json r poff sz hex st ?errs) = Ok body"
            "qnxList pf wr hash f poff = (if wr body then Ok (1, Some body) else Ok (2, None))"
            using enc [OF st, of ?errs r] parse_text_valid
            by (auto simp: qnxList_def sz hex \<open>parse ?rdr = Ok r\<close> w Fail qnxParseError utf8_valid_append asc_valid Let_def)
          then show ?thesis
            using Fail qnxParseError w sz hex \<open>parse ?rdr = Ok r\<close>
            by (cases "wr body") (auto simp: io_failed_def)
        qed (use Fail w sz hex \<open>parse ?rdr = Ok r\<close> quiet(2) [OF _ _ \<open>parse ?rdr = Ok r\<close>] in \<open>auto simp: qnxList_def\<close>)
      next
        case Panic
        then show ?thesis using image_file.walk_no_panic(1) [OF f r, of 1 "[]" 0 walk_start] w by simp
      qed
    qed (use no_panics in simp)
  qed
qed

text \<open>Why \<open>extract\<close> exits 1: a parse error of the reader, or a path that leads nowhere.\<close>

definition inode_root :: "qnxInode \<Rightarrow> rootNode" where
  "inode_root node = \<lparr>rn_size = ino_size node, rn_ptrs = ino_ptrs node, rn_levels = ino_levels node\<rparr>"

definition extract_refused :: "os_file \<Rightarrow> u64 \<Rightarrow> bytes \<Rightarrow> bool" where
  "extract_refused f poff p \<longleftrightarrow>
     (\<exists>e. parse (newQNXReader f poff) = Fail (qnxParseError e)) \<or>
     (\<exists>r. parse (newQNXReader f poff) = Ok r \<and>
        (resolve r p = Ok None \<or> (\<exists>e. resolve r p = Fail (qnxParseError e)) \<or>
         (\<exists>ino node e. resolve r p = Ok (Some (ino, node)) \<and> readRNFile r (inode_root node) = Fail (qnxParseError e))))"

lemma qnxExtract_cases:
  assumes f: "image_file f"
  shows "\<exists>code out. qnxExtract wr f poff p = Ok (code, out) \<and>
    (code = 0 \<and> (\<exists>r ino node data. parse (newQNXReader f poff) = Ok r \<and> resolve r p = Ok (Some (ino, node)) \<and>
         readRNFile r (inode_root node) = Ok data \<and> length data \<le> unat (ino_size node) \<and> out = Some data \<and> wr data) \<or>
     code = 1 \<and> out = None \<and> extract_refused f poff p \<or>
     code = 2 \<and> out = None \<and> (io_failed wr f \<or> negative poff))"
proof -
  let ?rdr = "newQNXReader f poff"
  have fl: "rd_file ?rdr = f" by (simp add: newQNXReader_def)
  have quiet: "no_io (parse ?rdr) \<and> (\<forall>r. parse ?rdr = Ok r \<longrightarrow> no_io (resolve r p) \<and> (\<forall>rn. no_io (readRNFile r rn)))"
    if "\<not> io_failed wr f" "\<not> negative poff"
  proof -
    have q: "quiet_file f" by (rule io_quiet [OF f that(1)])
    have r: "rd_file r = f \<and> \<not> negative (rd_poff r)" if "parse ?rdr = Ok r" for r
      using parse_ok [OF that] \<open>\<not> negative poff\<close> by (auto simp: newQNXReader_def)
    show ?thesis
      using quiet_file.parse_no_io [OF q fl] quiet_file.resolve_no_io [OF q] quiet_file.readRNFile_no_io [OF q] r that(2)
      by (auto simp: newQNXReader_def)
  qed
  have fails: "fail_code e = 1 \<and> is_parse e \<or> fail_code e = 2 \<and> \<not> is_parse e" for e by (cases e) (simp_all add: fail_code_def)
  have parsed: "is_parse e \<longleftrightarrow> (\<exists>pe. e = qnxParseError pe)" for e by (cases e) simp_all
  show ?thesis
  proof (cases "parse ?rdr")
    case parse: (Ok r)
    have r: "rd_file r = f" "unat (rd_bs r) < 2 ^ 32"
      using parse_ok [OF parse] fl by (auto simp: reader_ok_def)
    show ?thesis
    proof (cases "resolve r p")
      case (Ok found)
      show ?thesis
      proof (cases found)
        case (Some a)
        obtain ino node where a: "a = (ino, node)" by (cases a)
        let ?rn = "inode_root node"
        show ?thesis
        proof (cases "readRNFile r ?rn")
          case data: (Ok data)
          have "length data \<le> unat (ino_size node)"
            using image_file.readRNFile_length(1) [OF f r(1) data] by (simp add: inode_root_def)
          then show ?thesis using parse Ok Some a data by (cases "wr data") (auto simp: qnxExtract_def io_failed_def inode_root_def)
        next
          case (Fail e)
          have "is_parse e" if "\<not> io_failed wr f" "\<not> negative poff"
          proof -
            have "no_io (readRNFile r ?rn)" using quiet [OF that] parse by blast
            then show ?thesis using Fail by simp
          qed
          then show ?thesis
            using fails [of e] parsed [of e] parse Ok Some a Fail
            by (auto simp: qnxExtract_def extract_refused_def inode_root_def)
        qed (use image_file.readRNFile_no_panic [OF f r(1), of ?rn] in simp)
      qed (use Ok parse in \<open>auto simp: qnxExtract_def extract_refused_def\<close>)
    next
      case (Fail e)
      then show ?thesis
        using fails [of e] parsed [of e] quiet parse by (auto simp: qnxExtract_def extract_refused_def)
    qed (use image_file.resolve_no_panic [OF f r, of p] in simp)
  next
    case (Fail e)
    then show ?thesis
      using fails [of e] parsed [of e] quiet by (auto simp: qnxExtract_def extract_refused_def)
  qed (use image_file.parse_no_panic [OF f fl] in simp)
qed

lemma read_limit_le:
  assumes f: "rd_file r = regular_file data" and len: "length data < 2 ^ 63"
    and "sint (rd_poff r) < int (length data)"
  shows "int (unat (read_limit r rn)) \<le> int (length data) - sint (rd_poff r)"
proof -
  let ?p = "rd_poff r" let ?n = "length data"
  define sz :: u64 where "sz = word_of_nat ?n"
  have sz: "unat sz = ?n" unfolding sz_def using len by (intro unat_of_nat_u64) simp
  define ahead where "ahead = (if negative ?p then 0 else ?p)"
  define behind where "behind = - ((if negative ?p then ?p else 0) + 1) + 1"
  define rl where "rl = sz + behind - min ahead (sz + behind)"
  have "int (unat rl) = int ?n - sint ?p"
  proof (cases "negative ?p")
    case True
    then have "rl = sz - ?p" unfolding rl_def ahead_def behind_def by (simp add: min_def)
    moreover have "unat (sz - ?p) = ?n + 2 ^ 64 - unat ?p"
      using True len sz by (subst unat_sub_if') (simp add: negative_unat)
    ultimately show ?thesis
      using True unat_u64_less [of ?p] by (simp add: sint_u64 negative_unat of_nat_diff)
  next
    case False
    then have sp: "sint ?p = int (unat ?p)" by (simp add: sint_u64 negative_unat)
    then have le: "?p \<le> sz" using assms(3) sz by (simp add: word_le_nat_alt)
    then have "rl = sz - ?p" using False unfolding rl_def ahead_def behind_def by (simp add: min_def)
    then show ?thesis using le sp sz by (simp add: unat_sub word_le_nat_alt of_nat_diff)
  qed
  moreover from this have "0 < rl" using assms(3) by (auto simp: word_less_nat_alt intro!: gr0I)
  moreover have "read_limit r rn = (if 0 < rl then min (rn_size rn) rl else rn_size rn)"
    unfolding read_limit_def f rl_def ahead_def behind_def sz_def by (simp add: regular_file_def Let_def)
  ultimately show ?thesis by (simp add: min_def word_le_nat_alt)
qed

section \<open>Properties\<close>

text \<open>
  C35. A block's position is computed without overflow: it is exactly the partition offset plus the block number plus the
  block offset times the block size, as mathematical integers. The reader refuses a block exactly when the distance from the
  partition, or with an offset of at least 0 that position, is \<open>2 ^ 63\<close> or more. So with a partition offset below 0 it also
  refuses positions that an \<open>int64\<close> would hold: those whose distance alone does not fit.
\<close>

theorem qnx6_block_positions:
  assumes "unat (rd_off r) < 40"
  shows "(blockPos r blk = Ok p \<longrightarrow>
            sint p = sint (rd_poff r) + int ((unat blk + unat (rd_off r)) * unat (rd_bs r))) \<and>
         (is_ok (blockPos r blk) \<longleftrightarrow>
            int ((unat blk + unat (rd_off r)) * unat (rd_bs r)) + max 0 (sint (rd_poff r)) < 2 ^ 63) \<and>
         (is_ok (blockPos r blk) \<or> blockPos r blk = Fail (qnxParseError (BlockRange blk)))"
proof -
  have off: "unat (rd_off r) < 2 ^ 32" using assms by simp
  show ?thesis
    using blockPos_cases [OF off, of blk] blockPos_value [OF off, of blk p]
    unfolding block_start_def [symmetric] by simp
qed

theorem qnx6_block_positions_witness:
  "sint (64 :: u64) = sint (- 8192 :: u64) + int ((14 + 2) * 516)
   \<and> blockPos (newQNXReader (regular_file []) (- 8192) \<lparr>rd_off := 2, rd_bs := 516\<rparr>) 14 = Ok 64"
proof -
  let ?r = "newQNXReader (regular_file []) (- 8192) \<lparr>rd_off := 2, rd_bs := 516\<rparr>"
  have sel: "rd_off ?r = 2" "rd_bs ?r = 516" "rd_poff ?r = - 8192" by (simp_all add: newQNXReader_def)
  have "blockPos ?r 14 = Ok 64"
    unfolding blockPos_def sel by (simp add: Let_def negative_def maxInt64_def)
  moreover from this have "sint (64 :: u64) = sint (- 8192 :: u64) + int ((14 + 2) * 516)"
    using qnx6_block_positions [of ?r 14 64] unfolding sel by simp
  ultimately show ?thesis by blast
qed

text \<open>
  A crafted size cannot drive an unbounded read: what the reader gathers for a tree of any declared size is at
  most that size, and at most one block more than the image holds from the start of the partition on.
\<close>

theorem qnx6_reads_bounded:
  assumes "rd_file r = regular_file data" and "length data < 2 ^ 63"
    and "sint (rd_poff r) < int (length data)" and "readRNFile r rn = Ok b"
  shows "length b \<le> unat (rn_size rn) \<and>
         int (length b) \<le> int (length data) - sint (rd_poff r) + int (unat (rd_bs r))"
  using regular_file.readRNFile_length [OF assms(1,4)] read_limit_le [OF assms(1-3), of rn] by linarith

theorem qnx6_reads_bounded_witness:
  "\<exists>b. readRNFile (newQNXReader (regular_file [1, 2, 3]) 0)
         \<lparr>rn_size = 5000, rn_ptrs = [0], rn_levels = 0\<rparr> = Ok b \<and> length b \<le> 515"
proof -
  let ?r = "newQNXReader (regular_file [1, 2, 3]) 0"
  let ?rn = "\<lparr>rn_size = 5000, rn_ptrs = [0], rn_levels = 0\<rparr>"
  have "readRNFile ?r ?rn = Ok [1, 2, 3]" by code_simp
  moreover from this have "length [1, 2, 3 :: byte] \<le> 515"
    using qnx6_reads_bounded [of ?r "[1, 2, 3]" ?rn "[1, 2, 3]"] by (simp add: newQNXReader_def)
  ultimately show ?thesis by blast
qed
text \<open>A root directory of two entries: the file \<open>b\<close> and \<open>a\<close>, the root itself.\<close>

definition demo_dirents :: bytes where
  "demo_dirents = [2, 0, 0, 0, 1, 98] @ replicate 26 0 @ [1, 0, 0, 0, 1, 97] @ replicate 26 0"

definition demo_inodes :: bytes where
  "demo_inodes =
     [64] @ replicate 31 0 @ [0, 0x40, 0, 0, 0, 0, 0, 0] @ replicate 60 0xFF @ replicate 28 0 @
     [5] @ replicate 31 0 @ [0xA4, 0x81, 0, 0] @ replicate 64 0xFF @ replicate 28 0"

definition demo_reader :: qnxReader where
  "demo_reader = (newQNXReader (regular_file demo_dirents) 0)\<lparr>rd_bs := 64, inodeTab := demo_inodes\<rparr>"

definition demo_walk :: walk_state where
  "demo_walk = \<lparr>visited = [1], truncated = False,
     emitted = [\<lparr>we_path = [47, 97], we_mode = 0x4000, we_size = 64, we_isDir = True\<rparr>,
                \<lparr>we_path = [47, 98], we_mode = 0x81A4, we_size = 5, we_isDir = False\<rparr>]\<rparr>"

lemma demo_walk_runs: "walk demo_reader 1 [] 0 walk_start = (Ok (), demo_walk)"
  by code_simp

text \<open>
  C23. The walk ends on every image, however its directories point at one another. When it succeeds without reaching the depth
  cap it is complete and its paths are real: it descends exactly into the directories reachable from the first one, each one
  once, all of them readable; each of them but the first stands at the path of another one, a slash and the name of an
  entry of that one; and what it emits is, with multiplicity, the entries of those directories, each at the path of its
  directory, a slash and its name, with the mode, the size and the kind of its inode.
\<close>

theorem qnx6_walk_complete:
  assumes "walk r ino base depth walk_start = (Ok (), st)" and "\<not> truncated st"
  shows "set (visited st) = {d. reach r ino d} \<and> distinct (visited st) \<and>
         (\<forall>d \<in> set (visited st). is_ok (listdir r d)) \<and>
         (\<exists>pth. pth ino = base \<and> placed r {(ino, base)} pth (visited st) \<and>
            image_mset Some (mset (emitted st)) = all_entries r pth (visited st))"
proof -
  obtain new pth where new: "walk_goal r walk_start st new" "ino \<in> set (visited st)" "\<forall>d \<in> set new. reach r ino d"
      and pth: "placed r {(ino, base)} pth new" "ino \<in> set new \<longrightarrow> pth ino = base"
      "image_mset Some (mset (emitted st)) = image_mset Some (mset (emitted walk_start)) + all_entries r pth new"
    using walk_explores(1) [OF assms] by blast
  then have v: "new = visited st" and ex: "explored r (set (visited st)) (visited st)"
    by (auto simp: walk_goal_def walk_start_def)
  have "d \<in> set (visited st)" if "reach r ino d" for d
    using that new(2) by (induction rule: reach.induct) (use ex in \<open>auto simp: explored_def\<close>)
  moreover have "\<forall>d \<in> set (visited st). reach r ino d" using new(3) unfolding v .
  ultimately have "set (visited st) = {d. reach r ino d}" by blast
  moreover have "\<exists>pth. pth ino = base \<and> placed r {(ino, base)} pth (visited st) \<and>
      image_mset Some (mset (emitted st)) = all_entries r pth (visited st)"
    using pth new(2) unfolding v by (intro exI [of _ pth]) (simp add: walk_start_def)
  ultimately show ?thesis using ex by (simp add: explored_def)
qed

theorem qnx6_walk_complete_witness:
  "{d. reach demo_reader 1 d} = {1} \<and>
   (\<exists>pth. pth 1 = [] \<and> all_entries demo_reader pth [1] =
      {#Some \<lparr>we_path = [47, 97], we_mode = 0x4000, we_size = 64, we_isDir = True\<rparr>,
        Some \<lparr>we_path = [47, 98], we_mode = 0x81A4, we_size = 5, we_isDir = False\<rparr>#})"
proof -
  have "\<not> truncated demo_walk" by (simp add: demo_walk_def)
  from qnx6_walk_complete [OF demo_walk_runs this] show ?thesis
    by (auto simp: demo_walk_def simp del: all_entries_simps)
qed

text \<open>
  C24. What the two commands leave behind. Over any image file \<open>list\<close> never panics and never fails to encode its report: it
  exits 0 with the report of a finished walk, or 1 with a report that holds the parse error, or 2 with no report. \<open>extract\<close>
  exits 0 with a file, which is what the path resolves to, no longer than its inode says; or 1 with no file, for a parse
  error or a path that leads nowhere; or 2 with no file. And exit 2 has a cause outside the image: a call of the operating
  system failed (for \<open>list\<close> also the hash of the image), or the partition offset is below 0, where the reader itself answers
  EINVAL to a position before the start of the image.
\<close>

theorem qnx6_commands_outcomes:
  assumes "image_file f" and "no_panic hash" and "\<And>hex. hash = Ok hex \<Longrightarrow> ascii_printable hex"
  shows
   "((\<exists>r st sz hex body. parse (newQNXReader f poff) = Ok r \<and> walk r 1 [] 0 walk_start = (Ok (), st) \<and>
        Stat f = Ok sz \<and> hash = Ok hex \<and> Indented pf (list_json r poff sz hex st []) = Ok body \<and>
        qnxList pf wr hash f poff = Ok (0, Some body)) \<or>
     (\<exists>r st sz hex body e errs. (parse (newQNXReader f poff) = Fail (qnxParseError e) \<and> errs = [parse_text e] \<or>
          parse (newQNXReader f poff) = Ok r \<and> walk r 1 [] 0 walk_start = (Fail (qnxParseError e), st) \<and>
          errs = [asc ''walk error: '' @ parse_text e]) \<and>
        Stat f = Ok sz \<and> hash = Ok hex \<and> Indented pf (list_json r poff sz hex st errs) = Ok body \<and>
        qnxList pf wr hash f poff = Ok (1, Some body)) \<or>
     (qnxList pf wr hash f poff = Ok (2, None) \<and> (io_failed wr f \<or> \<not> is_ok hash \<or> negative poff))) \<and>
    (\<exists>code out. qnxExtract wr f poff p = Ok (code, out) \<and>
      (code = 0 \<and> (\<exists>r ino node data. parse (newQNXReader f poff) = Ok r \<and> resolve r p = Ok (Some (ino, node)) \<and>
           readRNFile r (inode_root node) = Ok data \<and> length data \<le> unat (ino_size node) \<and> out = Some data \<and> wr data) \<or>
       code = 1 \<and> out = None \<and> extract_refused f poff p \<or>
       code = 2 \<and> out = None \<and> (io_failed wr f \<or> negative poff)))"
  by (intro conjI qnxList_cases [OF assms] qnxExtract_cases [OF assms(1)]) assumption

lemma empty_image: "parse (newQNXReader (regular_file []) 0) = Fail (qnxParseError ImageTooSmall)"
proof -
  have "(case parse (newQNXReader (regular_file []) 0) of Fail e \<Rightarrow> e = qnxParseError ImageTooSmall | _ \<Rightarrow> False)"
    by code_simp
  then show ?thesis by (auto split: res.splits)
qed

theorem qnx6_commands_outcomes_witness:
  "\<exists>body. qnxList (\<lambda>_. None) (\<lambda>_. True) (Ok ''00'') (regular_file []) 0 = Ok (1, Some body)"
proof -
  have "image_file (regular_file [])" ..
  moreover have "ascii_printable ''00''" by (simp add: ascii_printable_def)
  moreover have "\<not> io_failed (\<lambda>_. True) (regular_file [])" "\<not> negative 0"
    unfolding io_failed_def by (simp_all add: regular_file_def negative_def)
  ultimately show ?thesis
    using qnx6_commands_outcomes [of "regular_file []" "Ok ''00''" 0 "\<lambda>_. None" "\<lambda>_. True"] empty_image by auto
qed
end
