(* ===== verification/Squashfs.thy ===== *)
theory Squashfs
  imports Go_IO
begin

text \<open>
  Finding a SquashFS v4 image: the superblock test and the chunked search of \<open>internal/formats/squashfs.go\<close>, the
  second superblock test of \<open>internal/corroborate/carve/candidates.go\<close>, and what relates a search that reads one
  window at a time to a search of the whole input.
\<close>

section \<open>The superblock\<close>

definition sqfsSBSize :: nat where "sqfsSBSize = 96"
definition sqfsFlagExportable :: u16 where "sqfsFlagExportable = 0x80"
definition sqfsNoTable :: u64 where "sqfsNoTable = NOT 0"
definition sqfsScanChunk :: nat where "sqfsScanChunk = 0x100000"
definition sqfsScanOverlap :: nat where "sqfsScanOverlap = 3"
definition sqfsMagic :: bytes where "sqfsMagic = [104, 115, 113, 115]"

definition valid_table :: "u64 \<Rightarrow> u64 \<Rightarrow> bool" where
  "valid_table used x \<longleftrightarrow> x = sqfsNoTable \<or> (word_of_nat sqfsSBSize \<le> x \<and> x < used)"

text \<open>The test of \<open>squashfs.go\<close>, on the 96 bytes at \<open>offset\<close> of a file of \<open>size\<close> bytes.\<close>

definition sqfsValidSuperblock :: "bytes \<Rightarrow> nat \<Rightarrow> nat \<Rightarrow> bool" where
  "sqfsValidSuperblock sb offset sz =
     (let inodes = le32 sb 4; block = le32 sb 12; fragments = le32 sb 16;
          compression = le16 sb 20; log = le16 sb 22; flags = le16 sb 24;
          ids = le16 sb 26; major = le16 sb 28; minor = le16 sb 30;
          used = le64 sb 40;
          idTable = le64 sb 48; xattr = le64 sb 56; inodeTable = le64 sb 64;
          dirTable = le64 sb 72; fragTable = le64 sb 80; exportTable = le64 sb 88;
          required = [idTable, inodeTable, dirTable] @ (if fragments \<noteq> 0 then [fragTable] else []) @
            (if flags AND sqfsFlagExportable \<noteq> 0 then [exportTable] else [])
      in if inodes = 0 \<or> ids = 0 \<or> major \<noteq> 4 \<or> minor \<noteq> 0 \<or> compression < 1 \<or> 6 < compression then False
         else if (ucast block :: u64) \<noteq> push_bit (unat log) 1 \<or> block < 4096 \<or> 1048576 < block then False
         else if word_of_int (int sz - int offset) < used then False
         else list_all (valid_table used) [idTable, xattr, inodeTable, dirTable, fragTable, exportTable] \<and>
              list_all (\<lambda>x. x \<noteq> sqfsNoTable) required)"

text \<open>The test of \<open>carve\<close>: the fields read first, then checked.\<close>

record squashSuper =
  ss_inodes :: u32
  ss_block :: u32
  ss_fragments :: u32
  ss_compression :: u16
  ss_log :: u16
  ss_flags :: u16
  ss_ids :: u16
  ss_major :: u16
  ss_mi :: u16
  ss_used :: u64
  ss_idTable :: u64
  ss_xattr :: u64
  ss_inodeTable :: u64
  ss_dirTable :: u64
  ss_fragTable :: u64
  ss_exportTable :: u64

definition parseSuper :: "bytes \<Rightarrow> squashSuper" where
  "parseSuper b =
     \<lparr>ss_inodes = le32 b 4, ss_block = le32 b 12, ss_fragments = le32 b 16,
      ss_compression = le16 b 20, ss_log = le16 b 22, ss_flags = le16 b 24, ss_ids = le16 b 26,
      ss_major = le16 b 28, ss_mi = le16 b 30,
      ss_used = le64 b 40, ss_idTable = le64 b 48, ss_xattr = le64 b 56, ss_inodeTable = le64 b 64,
      ss_dirTable = le64 b 72, ss_fragTable = le64 b 80, ss_exportTable = le64 b 88\<rparr>"

definition noTable :: u64 where "noTable = NOT 0"
definition squashfsHeader :: nat where "squashfsHeader = 96"
definition flagExportable :: u16 where "flagExportable = 0x80"

definition super_valid :: "squashSuper \<Rightarrow> nat \<Rightarrow> nat \<Rightarrow> bool" where
  "super_valid s offset sz =
     (if ss_inodes s = 0 \<or> ss_ids s = 0 \<or> ss_major s \<noteq> 4 \<or> ss_mi s \<noteq> 0 \<or>
         ss_compression s < 1 \<or> 6 < ss_compression s then False
      else if ss_log s < 12 \<or> 20 < ss_log s \<or> ss_block s \<noteq> push_bit (unat (ss_log s)) 1 then False
      else if word_of_int (int sz - int offset) < ss_used s then False
      else list_all (\<lambda>x. x = noTable \<or> (word_of_nat squashfsHeader \<le> x \<and> x < ss_used s))
             [ss_idTable s, ss_xattr s, ss_inodeTable s, ss_dirTable s, ss_fragTable s, ss_exportTable s] \<and>
           list_all (\<lambda>x. x \<noteq> noTable)
             ([ss_idTable s, ss_inodeTable s, ss_dirTable s] @
              (if ss_fragments s \<noteq> 0 then [ss_fragTable s] else []) @
              (if ss_flags s AND flagExportable \<noteq> 0 then [ss_exportTable s] else [])))"

text \<open>A block size that is a power of two in range is one whose logarithm is in range.\<close>

lemma push_bit_one_large: "64 \<le> n \<Longrightarrow> push_bit n (1 :: u64) = 0"
  by (rule bit_word_eqI) (auto simp: bit_simps)

lemma unat_push_bit_one: "n < LENGTH('a) \<Longrightarrow> unat (push_bit n (1 :: 'a::len word)) = 2 ^ n"
proof -
  assume n: "n < LENGTH('a)"
  have "push_bit n (1 :: 'a word) = word_of_nat (2 ^ n)" by (simp add: push_bit_eq_mult)
  also have "unat (word_of_nat (2 ^ n) :: 'a word) = 2 ^ n"
    using n unfolding unat_of_nat by (intro mod_less power_strict_increasing) simp_all
  finally show ?thesis .
qed

lemma unat_two_power: "n < LENGTH('a) \<Longrightarrow> unat ((2 :: 'a::len word) ^ n) = 2 ^ n"
  using unat_push_bit_one [of n, where 'a='a] by (simp add: push_bit_eq_mult)

lemma power_two_range: "(4096::nat) \<le> 2 ^ n \<and> 2 ^ n \<le> (1048576::nat) \<longleftrightarrow> 12 \<le> n \<and> n \<le> 20"
  using power_increasing_iff [of "2::nat" 12 n] power_increasing_iff [of "2::nat" n 20] by simp

lemma unat_block: "unat (ucast (w :: u32) :: u64) = unat w"
  using unsigned_less [of w, where 'a=nat] by (simp add: unsigned_ucast_eq) (rule take_bit_nat_eq_self, simp)

lemma block_log_range:
  "(ucast (block :: u32) :: u64) = push_bit n 1 \<and> \<not> block < 4096 \<and> \<not> 1048576 < block \<longleftrightarrow>
   12 \<le> n \<and> n \<le> 20 \<and> block = push_bit n 1"
proof (cases "n < 32")
  case True
  have "(ucast block :: u64) = push_bit n 1 \<longleftrightarrow> unat block = 2 ^ n"
    using True by (simp add: unat_block unat_two_power word_unat_eq_iff)
  moreover have "block = push_bit n 1 \<longleftrightarrow> unat block = 2 ^ n"
    using True by (simp add: unat_two_power word_unat_eq_iff)
  ultimately show ?thesis
    using power_two_range [of n] by (auto simp: word_less_nat_alt not_less)
next
  case False
  have "(ucast block :: u64) \<noteq> push_bit n 1" if "\<not> block < 4096"
  proof (cases "n < 64")
    case True
    have "unat block < 2 ^ n"
      using unsigned_less [of block, where 'a=nat] power_increasing [of 32 n "2::nat"] False by simp
    moreover have "unat (push_bit n (1 :: u64)) = 2 ^ n" using True by (intro unat_push_bit_one) simp
    ultimately show ?thesis using unat_block [of block] by (metis less_irrefl)
  next
    case False
    then have "push_bit n (1 :: u64) = 0" by (intro push_bit_one_large) simp
    moreover have "(ucast block :: u64) \<noteq> 0"
      using that unat_block [of block] by (auto simp: word_less_nat_alt)
    ultimately show ?thesis by metis
  qed
  then show ?thesis using False by auto
qed

lemma superblock_tests_agree: "sqfsValidSuperblock sb offset sz \<longleftrightarrow> super_valid (parseSuper sb) offset sz"
proof -
  have log: "ss_log (parseSuper sb) < 12 \<longleftrightarrow> \<not> 12 \<le> unat (le16 sb 22)"
    "20 < ss_log (parseSuper sb) \<longleftrightarrow> \<not> unat (le16 sb 22) \<le> 20"
    by (simp_all add: parseSuper_def word_less_nat_alt not_le)
  have block: "(ucast (le32 sb 12) \<noteq> (push_bit (unat (le16 sb 22)) 1 :: u64) \<or> le32 sb 12 < 4096 \<or> 1048576 < le32 sb 12) \<longleftrightarrow>
      (ss_log (parseSuper sb) < 12 \<or> 20 < ss_log (parseSuper sb) \<or>
       ss_block (parseSuper sb) \<noteq> push_bit (unat (ss_log (parseSuper sb))) 1)"
    unfolding log using block_log_range [of "le32 sb 12" "unat (le16 sb 22)"] by (auto simp: parseSuper_def)
  have table: "valid_table used = (\<lambda>x. x = noTable \<or> (word_of_nat squashfsHeader \<le> x \<and> x < used))" for used
    by (auto simp: valid_table_def fun_eq_iff noTable_def sqfsNoTable_def squashfsHeader_def sqfsSBSize_def)
  show ?thesis
    unfolding sqfsValidSuperblock_def super_valid_def Let_def block table
    by (simp add: parseSuper_def noTable_def sqfsNoTable_def flagExportable_def sqfsFlagExportable_def)
qed

section \<open>Windows\<close>

text \<open>
  A window of \<open>c + |pat| - 1\<close> bytes at \<open>b\<close> sees exactly the occurrences that start in the \<open>c\<close> bytes from \<open>b\<close> on.
\<close>

lemma match_at_drop: "match_at (drop b data) pat i \<longleftrightarrow> match_at data pat (b + i)"
  by (simp add: match_at_def add.commute)

lemma match_at_window:
  assumes "i < c"
  shows "match_at (take (c + (length pat - 1)) (drop b data)) pat i \<longleftrightarrow> match_at data pat (b + i)"
proof -
  have "take (length pat) (drop i (take (c + (length pat - 1)) (drop b data))) =
        take (length pat) (drop i (drop b data))"
    using assms by (simp add: drop_take min_def) 
  then show ?thesis by (simp add: match_at_def add.commute)
qed

lemma match_at_window_end:
  assumes "pat \<noteq> []" and "match_at (take (c + (length pat - 1)) w) pat i"
  shows "i < c"
  using match_at_bound [OF assms(2,1)] assms(1) by (cases pat) auto

lemma find_all_None: "(\<And>x. x \<in> set xs \<Longrightarrow> \<not> P x) \<Longrightarrow> find P xs = None"
  by (simp add: find_None_iff)

lemma find_append: "find P (xs @ ys) = (case find P xs of None \<Rightarrow> find P ys | Some x \<Rightarrow> Some x)"
  by (induction xs) auto

lemma find_shift: "find P [b..<b + c] = map_option (\<lambda>i. b + i) (find (\<lambda>i. P (b + i)) [0..<c])"
proof (induction c)
  case (Suc c)
  then show ?case by (simp add: find_append split: option.splits)
qed simp

lemma find_cong: "(\<And>x. x \<in> set xs \<Longrightarrow> P x \<longleftrightarrow> Q x) \<Longrightarrow> find P xs = find Q xs"
  by (induction xs) auto

lemma find_le: "(\<And>i. n \<le> i \<Longrightarrow> i < m \<Longrightarrow> \<not> P i) \<Longrightarrow> n \<le> m \<Longrightarrow> find P [0..<m] = find P [0..<n]"
proof -
  assume none: "\<And>i. n \<le> i \<Longrightarrow> i < m \<Longrightarrow> \<not> P i" and le: "n \<le> m"
  have "[0..<m] = [0..<n] @ [n..<m]" using upt_add_eq_append [of 0 n "m - n"] le by simp
  moreover have "find P [n..<m] = None" using none by (auto simp: find_None_iff)
  ultimately show ?thesis by (simp add: find_append split: option.splits)
qed

lemma index_of_bounds: "pat \<noteq> [] \<Longrightarrow> index_of w pat = Some j \<Longrightarrow> j + length pat \<le> length w \<and> match_at w pat j"
  using match_at_bound [of w pat j] by (auto simp: index_of_def find_Some_iff)

lemma index_of_find:
  assumes "pat \<noteq> []" "length w \<le> m"
  shows "index_of w pat = find (match_at w pat) [0..<m]"
proof -
  have none: "\<not> match_at w pat i" if "length w + 1 - length pat \<le> i" for i
    using match_at_bound [of w pat i] assms(1) that by (cases pat) auto
  show ?thesis
    unfolding index_of_def using assms none by (intro find_le [symmetric]) (cases pat; simp)+
qed

text \<open>What a window answers, and how the answers of consecutive windows make up the search of the whole.\<close>

lemma window_index:
  assumes "pat \<noteq> []"
  shows "index_of (take (c + (length pat - 1)) (drop b data)) pat = find (\<lambda>i. match_at data pat (b + i)) [0..<c]"
proof -
  let ?w = "take (c + (length pat - 1)) (drop b data)" let ?m = "max c (length ?w)"
  have "index_of ?w pat = find (match_at ?w pat) [0..<?m]"
    using assms by (rule index_of_find) simp
  also have "\<dots> = find (match_at ?w pat) [0..<c]"
  proof (rule find_le)
    show "\<not> match_at ?w pat i" if "c \<le> i" for i
      using match_at_window_end [OF assms, of c "drop b data" i] that by linarith
  qed simp
  also have "\<dots> = find (\<lambda>i. match_at data pat (b + i)) [0..<c]"
    using match_at_window by (intro find_cong) auto
  finally show ?thesis .
qed

lemma find_chunk:
  assumes "\<And>i. n \<le> i \<Longrightarrow> \<not> P i" and "b < n"
  shows "find P [b..<n] =
    (case map_option (\<lambda>i. b + i) (find (\<lambda>i. P (b + i)) [0..<c]) of
       None \<Rightarrow> find P [b + c..<n] | Some i \<Rightarrow> Some i)"
proof (cases "b + c \<le> n")
  case True
  then have "[b..<n] = [b..<b + c] @ [b + c..<n]"
    using upt_add_eq_append [of b "b + c" "n - (b + c)"] by simp
  then show ?thesis by (simp add: find_append find_shift)
next
  case False
  have "[b..<b + c] = [b..<n] @ [n..<b + c]"
    using upt_add_eq_append [of b n "b + c - n"] False assms(2) by simp
  moreover have "find P [n..<b + c] = None" using assms(1) by (auto simp: find_None_iff)
  ultimately have "find P [b..<b + c] = find P [b..<n]" by (simp add: find_append split: option.splits)
  then show ?thesis using False by (simp add: find_shift split: option.splits)
qed

section \<open>The chunked search\<close>

datatype sqfs_err = sqfsError | SqfsIO io_err

lemma sqfsMagic_ne [simp]: "sqfsMagic \<noteq> []"
  by (simp add: sqfsMagic_def)

text \<open>The inner loop: the candidates of one window, from position \<open>from\<close> of it on.\<close>

function scan_window :: "reader_at \<Rightarrow> nat \<Rightarrow> nat \<Rightarrow> bytes \<Rightarrow> nat \<Rightarrow> nat option" where
  "scan_window r sz base window fr =
     (case index_of (drop fr window) sqfsMagic of
        None \<Rightarrow> None
      | Some j \<Rightarrow>
          (let pos = fr + j; offset = base + pos; got = r (int offset) sqfsSBSize
           in if length (fst got) = sqfsSBSize \<and> (snd got = None \<or> snd got = Some EOF) \<and>
                 sqfsValidSuperblock (fst got) offset sz
              then Some offset
              else scan_window r sz base window (pos + 1)))"
  by pat_completeness auto

termination
  by (relation "measure (\<lambda>(r, sz, base, window, fr). length window - fr)")
    (auto dest!: index_of_bounds [rotated] simp: sqfsMagic_def)

declare scan_window.simps [simp del]

function find_offset :: "reader_at \<Rightarrow> nat \<Rightarrow> nat \<Rightarrow> (sqfs_err, nat) res" where
  "find_offset r sz base =
     (if sz \<le> base then Fail sqfsError
      else let got = r (int base) (min sqfsScanChunk sz + sqfsScanOverlap)
           in case snd got of
                Some (OtherIO e) \<Rightarrow> Fail (SqfsIO (OtherIO e))
              | Some UnexpectedEOF \<Rightarrow> Fail (SqfsIO UnexpectedEOF)
              | _ \<Rightarrow>
                  (case scan_window r sz base (fst got) 0 of
                     Some offset \<Rightarrow> Ok offset
                   | None \<Rightarrow> find_offset r sz (base + sqfsScanChunk)))"
  by pat_completeness auto

termination
  by (relation "measure (\<lambda>(r, sz, base). sz - base)") (auto simp: sqfsScanChunk_def)

declare find_offset.simps [simp del]

definition findSquashfsOffset :: "reader_at \<Rightarrow> nat \<Rightarrow> (sqfs_err, nat) res" where
  "findSquashfsOffset r sz = find_offset r sz 0"

text \<open>The specification: a superblock at \<open>i\<close> of the whole input.\<close>

definition superblock_at :: "bytes \<Rightarrow> nat \<Rightarrow> bool" where
  "superblock_at data i \<longleftrightarrow>
     match_at data sqfsMagic i \<and> i + sqfsSBSize \<le> length data \<and>
     sqfsValidSuperblock (bslice data i (i + sqfsSBSize)) i (length data)"

lemma bytes_reader_at:
  "bytes_reader data (int i) n = (take n (drop i data), if length data - i < n then Some EOF else None)"
  by (simp add: bytes_reader_def Let_def)

lemma candidate_read:
  "length (fst (bytes_reader data (int i) n)) = n \<and>
   (snd (bytes_reader data (int i) n) = None \<or> snd (bytes_reader data (int i) n) = Some EOF) \<and> P
   \<longleftrightarrow> n \<le> length data - i \<and> P"
  by (auto simp: bytes_reader_at)

lemma scan_window_spec:
  assumes "fr \<le> length w"
  shows "scan_window (bytes_reader data) (length data) base w fr =
     map_option (\<lambda>i. base + i)
       (find (\<lambda>i. match_at w sqfsMagic i \<and> sqfsSBSize \<le> length data - (base + i) \<and>
                  sqfsValidSuperblock (bslice data (base + i) (base + i + sqfsSBSize)) (base + i) (length data))
          [fr..<length w])"
  using assms
proof (induction "length w - fr" arbitrary: fr rule: less_induct)
  case less
  let ?P = "\<lambda>i. match_at w sqfsMagic i \<and> sqfsSBSize \<le> length data - (base + i) \<and>
     sqfsValidSuperblock (bslice data (base + i) (base + i + sqfsSBSize)) (base + i) (length data)"
  have ix: "index_of (drop fr w) sqfsMagic = find (\<lambda>i. match_at w sqfsMagic (fr + i)) [0..<length w - fr]"
    by (subst index_of_find [of _ _ "length w - fr"]) (simp_all add: match_at_drop [abs_def] cong: find_cong)
  show ?case
  proof (cases "index_of (drop fr w) sqfsMagic")
    case None
    then have "\<not> match_at w sqfsMagic i" if "fr \<le> i" "i < length w" for i
      using that unfolding ix find_None_iff by (auto dest: spec [of _ "i - fr"])
    then have "find ?P [fr..<length w] = None" by (auto simp: find_None_iff)
    then show ?thesis using None by (simp add: scan_window.simps [of _ _ _ _ fr])
  next
    case (Some j)
    then have j: "j < length w - fr" "match_at w sqfsMagic (fr + j)" "\<And>i. i < j \<Longrightarrow> \<not> match_at w sqfsMagic (fr + i)"
      unfolding ix by (auto simp: find_upt_Some)
    have skip: "find ?P [fr..<fr + j] = None"
    proof (rule find_all_None)
      fix i assume "i \<in> set [fr..<fr + j]"
      then have "i - fr < j" "fr + (i - fr) = i" by auto
      then show "\<not> ?P i" using j(3) [of "i - fr"] by simp
    qed
    have split: "[fr..<length w] = [fr..<fr + j] @ (fr + j) # [fr + j + 1..<length w]"
      using j(1) upt_add_eq_append [of fr "fr + j" "length w - (fr + j)"] by (simp add: upt_conv_Cons)
    have rest: "scan_window (bytes_reader data) (length data) base w (fr + j + 1) =
        map_option (\<lambda>i. base + i) (find ?P [fr + j + 1..<length w])"
      using j(1) by (intro less.hyps) simp_all
    have sl: "fst (bytes_reader data (int (base + (fr + j))) sqfsSBSize) =
        bslice data (base + (fr + j)) (base + (fr + j) + sqfsSBSize)"
      by (simp only: bytes_reader_at fst_conv) (simp add: bslice_def)
    show ?thesis
      unfolding split find_append skip scan_window.simps [of _ _ _ _ fr] Some option.case Let_def candidate_read rest sl
      using j(2) by simp
  qed
qed

lemma window_hits:
  assumes "sqfsScanChunk \<le> sz \<or> base = 0" and sz: "sz = length data"
  defines "w \<equiv> take (min sqfsScanChunk sz + sqfsScanOverlap) (drop base data)"
  shows "find (\<lambda>i. match_at w sqfsMagic i \<and> sqfsSBSize \<le> length data - (base + i) \<and>
            sqfsValidSuperblock (bslice data (base + i) (base + i + sqfsSBSize)) (base + i) (length data))
          [0..<length w] =
         find (\<lambda>i. superblock_at data (base + i)) [0..<sqfsScanChunk]"
proof -
  let ?Q = "\<lambda>i. superblock_at data (base + i)"
  have magic: "length sqfsMagic - 1 = sqfsScanOverlap" by (simp add: sqfsMagic_def sqfsScanOverlap_def)
  have cond: "sqfsSBSize \<le> length data - (base + i) \<longleftrightarrow> base + i + sqfsSBSize \<le> length data" for i
    by (auto simp: sqfsSBSize_def)
  define c where "c = min sqfsScanChunk sz"
  have w: "w = take (c + (length sqfsMagic - 1)) (drop base data)" by (simp only: w_def c_def magic)
  have small: "i < c" if "match_at w sqfsMagic i" for i
    using that unfolding w by (rule match_at_window_end [OF sqfsMagic_ne])
  have P: "match_at w sqfsMagic i \<and> sqfsSBSize \<le> length data - (base + i) \<and>
      sqfsValidSuperblock (bslice data (base + i) (base + i + sqfsSBSize)) (base + i) (length data) \<longleftrightarrow> i < c \<and> ?Q i" for i
    using small [of i] match_at_window [of i c sqfsMagic base data] unfolding superblock_at_def w cond by auto
  have len: "length w = min (c + sqfsScanOverlap) (length data - base)" by (simp only: w magic) simp
  have Qlen: "base + i + sqfsSBSize \<le> length data" if "?Q i" for i
    using that by (simp add: superblock_at_def)
  have "find (\<lambda>i. i < c \<and> ?Q i) [0..<length w] = find (\<lambda>i. i < c \<and> ?Q i) [0..<min c (length w)]"
    using Qlen by (intro find_le) auto
  also have "\<dots> = find ?Q [0..<min c (length w)]" by (intro find_cong) auto
  also have "\<dots> = find ?Q [0..<sqfsScanChunk]"
  proof (rule find_le [symmetric])
    fix i assume i: "min c (length w) \<le> i" "i < sqfsScanChunk"
    show "\<not> ?Q i"
    proof
      assume "?Q i"
      then have "base + i + sqfsSBSize \<le> length data" by (rule Qlen)
      then have "i < length data - base" "i < length data" by (auto simp: sqfsSBSize_def)
      then show False using i assms(1) by (auto simp: len c_def sz sqfsScanOverlap_def min_def split: if_splits)
    qed
  qed (simp add: c_def)
  finally show ?thesis unfolding P .
qed

lemma find_offset_spec:
  assumes "sqfsScanChunk \<le> length data \<or> base = 0 \<or> length data \<le> base"
  shows "find_offset (bytes_reader data) (length data) base =
    (case find (superblock_at data) [base..<length data] of Some i \<Rightarrow> Ok i | None \<Rightarrow> Fail sqfsError)"
  using assms
proof (induction "length data - base" arbitrary: base rule: less_induct)
  case less
  show ?case
  proof (cases "length data \<le> base")
    case True
    then show ?thesis by (simp add: find_offset.simps [of _ _ base])
  next
    case False
    let ?w = "take (min sqfsScanChunk (length data) + sqfsScanOverlap) (drop base data)"
    let ?hit = "find (\<lambda>i. superblock_at data (base + i)) [0..<sqfsScanChunk]"
    have scan: "scan_window (bytes_reader data) (length data) base ?w 0 = map_option (\<lambda>i. base + i) ?hit"
      using window_hits [of "length data" base data] False less.prems by (subst scan_window_spec) auto
    have fst_w: "fst (bytes_reader data (int base) (min sqfsScanChunk (length data) + sqfsScanOverlap)) = ?w"
      by (simp add: bytes_reader_at)
    have next_base: "find_offset (bytes_reader data) (length data) (base + sqfsScanChunk) =
      (case find (superblock_at data) [base + sqfsScanChunk..<length data] of Some i \<Rightarrow> Ok i | None \<Rightarrow> Fail sqfsError)"
      using False less.prems by (intro less.hyps) (auto simp: sqfsScanChunk_def)
    have split: "find (superblock_at data) [base..<length data] =
      (case map_option (\<lambda>i. base + i) ?hit of
         None \<Rightarrow> find (superblock_at data) [base + sqfsScanChunk..<length data] | Some i \<Rightarrow> Some i)"
      using False by (intro find_chunk) (auto simp: superblock_at_def sqfsSBSize_def)
    show ?thesis
      unfolding find_offset.simps [of _ _ base] Let_def fst_w scan split next_base
      using False by (auto simp: bytes_reader_at split: option.splits)
  qed
qed

lemma findSquashfsOffset_spec:
  "findSquashfsOffset (bytes_reader data) (length data) =
     (case find (superblock_at data) [0..<length data] of Some i \<Rightarrow> Ok i | None \<Rightarrow> Fail sqfsError)"
  unfolding findSquashfsOffset_def by (rule find_offset_spec) simp

section \<open>Properties\<close>

text \<open>
  C25. Reading the input one 1 MiB window at a time changes nothing: on every input the search answers the first
  position of the whole input where a valid superblock stands, and the refusal when there is none; no boundary
  between windows hides one or finds one twice.
\<close>

theorem squashfs_search_is_exhaustive:
  "findSquashfsOffset (bytes_reader data) (length data) =
     (case find (superblock_at data) [0..<length data] of Some i \<Rightarrow> Ok i | None \<Rightarrow> Fail sqfsError)"
  by (rule findSquashfsOffset_spec)

end
