(* ===== verification/Carve.thy ===== *)
theory Carve
  imports Squashfs Jsonout
begin

text \<open>
  Carving firmware images: \<open>internal/corroborate/carve/candidates.go\<close>. The two scans look for a magic number one
  window at a time, validate what they find and collect it under caps; what they return is compared with the
  validated ranges of the whole input. Offsets and sizes are non-negative \<open>int64\<close>s far from overflow (a file's
  size), so they are natural numbers; the caps come from the command line and are integers.
\<close>

section \<open>Candidates and caps\<close>

definition kindUImage :: string where "kindUImage = ''uimage''"
definition kindSquashFS :: string where "kindSquashFS = ''squashfs-v4-le''"
definition uimageHeader :: nat where "uimageHeader = 64"
definition scanChunk :: nat where "scanChunk = 0x100000"
definition uimageMagic :: bytes where "uimageMagic = [0x27, 0x05, 0x19, 0x56]"
definition squashfsMagic :: bytes where "squashfsMagic = [104, 115, 113, 115]"

datatype scan_err = errCandidateCaps | errOutputBytes | ScanIO io_err

datatype candidate = Candidate (cand_start: nat) (cand_end: nat) (cand_kind: string)

record caps =
  cap_carves :: int
  cap_files :: int
  cap_output :: int

record collector =
  col_caps :: caps
  col_found :: "candidate list"
  col_bytes :: int

definition col_add :: "collector \<Rightarrow> candidate \<Rightarrow> (scan_err, collector) res" where
  "col_add c item =
     (let c1 = c\<lparr>col_bytes := col_bytes c + (int (cand_end item) - int (cand_start item))\<rparr>;
          n = int (length (col_found c1))
      in if cap_carves (col_caps c1) \<le> n \<or> cap_files (col_caps c1) < n + 2 then Fail errCandidateCaps
         else if cap_output (col_caps c1) < col_bytes c1 then Fail errOutputBytes
         else Ok (c1\<lparr>col_found := col_found c1 @ [item]\<rparr>))"

text \<open>The order the candidates are sorted in.\<close>

definition cand_key :: "candidate \<Rightarrow> nat \<times> string \<times> nat" where
  "cand_key c = (cand_start c, cand_kind c, cand_end c)"

definition candidate_le :: "candidate \<Rightarrow> candidate \<Rightarrow> bool" where
  "candidate_le a b \<longleftrightarrow>
     cand_start a < cand_start b \<or>
     (cand_start a = cand_start b \<and>
       (cand_kind a < cand_kind b \<or> (cand_kind a = cand_kind b \<and> cand_end a \<le> cand_end b)))"

instantiation candidate :: linorder
begin

definition less_eq_candidate :: "candidate \<Rightarrow> candidate \<Rightarrow> bool" where
  "less_eq_candidate = candidate_le"

definition less_candidate :: "candidate \<Rightarrow> candidate \<Rightarrow> bool" where
  "less_candidate a b \<longleftrightarrow> a \<le> b \<and> \<not> b \<le> a"

instance
proof
  fix x y z :: candidate
  show "(x < y) = (x \<le> y \<and> \<not> y \<le> x)" by (simp add: less_candidate_def)
  show "x \<le> x" by (simp add: less_eq_candidate_def candidate_le_def)
  show "x \<le> y \<Longrightarrow> y \<le> z \<Longrightarrow> x \<le> z" by (auto simp: less_eq_candidate_def candidate_le_def)
  show "x \<le> y \<Longrightarrow> y \<le> x \<Longrightarrow> x = y"
    by (auto simp: less_eq_candidate_def candidate_le_def intro: candidate.expand)
  show "x \<le> y \<or> y \<le> x" by (auto simp: less_eq_candidate_def candidate_le_def)
qed

end

section \<open>The scans\<close>

text \<open>The first occurrence at or after \<open>pos\<close>, one overlapping window at a time.\<close>

function carve_find :: "reader_at \<Rightarrow> nat \<Rightarrow> bytes \<Rightarrow> nat \<Rightarrow> (scan_err, nat option) res" where
  "carve_find r sz pattern pos =
     (if sz \<le> pos then Ok None
      else let got = r (int pos) (min (scanChunk + length pattern - 1) (sz - pos))
           in case snd got of
                Some e \<Rightarrow>
                  if e = EOF \<and> 0 < length (fst got)
                  then (case index_of (fst got) pattern of
                          Some i \<Rightarrow> Ok (Some (pos + i))
                        | None \<Rightarrow> carve_find r sz pattern (pos + scanChunk))
                  else Fail (ScanIO e)
              | None \<Rightarrow>
                  (case index_of (fst got) pattern of
                     Some i \<Rightarrow> Ok (Some (pos + i))
                   | None \<Rightarrow> carve_find r sz pattern (pos + scanChunk)))"
  by pat_completeness auto

termination
  by (relation "measure (\<lambda>(r, sz, pattern, pos). sz - pos)") (auto simp: scanChunk_def)

declare carve_find.simps [simp del]

lemma carve_find_from: "carve_find r sz pattern pos = Ok (Some i) \<Longrightarrow> pos \<le> i \<and> pos < sz"
proof (induction r sz pattern pos rule: carve_find.induct)
  case (1 r sz pattern pos)
  then show ?case
    by (subst (asm) carve_find.simps)
      (auto simp: Let_def scanChunk_def split: if_splits option.splits)
qed

text \<open>The loop both scans share: every occurrence in turn, the body adding to the collector or not.\<close>

function scan_loop ::
  "reader_at \<Rightarrow> nat \<Rightarrow> bytes \<Rightarrow> (collector \<Rightarrow> nat \<Rightarrow> (scan_err, collector) res) \<Rightarrow> nat \<Rightarrow> collector \<Rightarrow> (scan_err, collector) res"
where
  "scan_loop r sz pattern body fr col =
     (case carve_find r sz pattern fr of
        Fail e \<Rightarrow> Fail e
      | Panic \<Rightarrow> Panic
      | Ok None \<Rightarrow> Ok col
      | Ok (Some offset) \<Rightarrow> andthen (body col offset) (\<lambda>col. scan_loop r sz pattern body (offset + 1) col))"
  by pat_completeness auto

termination
  by (relation "measure (\<lambda>(r, sz, pattern, body, fr, col). sz - fr)") (auto dest: carve_find_from)

declare scan_loop.simps [simp del]

text \<open>\<open>crc32.NewIEEE\<close> fed by \<open>io.Copy\<close> over a section of the input, 32 KiB at a time.\<close>

definition copyBuffer :: nat where "copyBuffer = 32768"

function crc_copy :: "reader_at \<Rightarrow> nat \<Rightarrow> nat \<Rightarrow> u32 \<Rightarrow> (scan_err, u32) res" where
  "crc_copy r pos fin state =
     (if fin \<le> pos then Ok state
      else let got = r (int pos) (min copyBuffer (fin - pos));
               state1 = foldl crc32_byte state (fst got)
           in case snd got of
                None \<Rightarrow> crc_copy r (pos + copyBuffer) fin state1
              | Some e \<Rightarrow> if e = EOF then Ok state1 else Fail (ScanIO e))"
  by pat_completeness auto

termination
  by (relation "measure (\<lambda>(r, pos, fin, state). fin - pos)") (auto simp: copyBuffer_def)

declare crc_copy.simps [simp del]

definition crcRange :: "reader_at \<Rightarrow> nat \<Rightarrow> nat \<Rightarrow> (scan_err, u32) res" where
  "crcRange r start fin = andthen (crc_copy r start fin 0xFFFFFFFF) (\<lambda>s. Ok (s XOR 0xFFFFFFFF))"

definition clear_crc :: "bytes \<Rightarrow> bytes" where
  "clear_crc header = take 4 header @ [0, 0, 0, 0] @ drop 8 header"

definition uimage_body :: "reader_at \<Rightarrow> nat \<Rightarrow> collector \<Rightarrow> nat \<Rightarrow> (scan_err, collector) res" where
  "uimage_body r sz col offset =
     (if sz < offset + uimageHeader then Ok col
      else case r (int offset) uimageHeader of
             (_, Some e) \<Rightarrow> Fail (ScanIO e)
           | (raw, None) \<Rightarrow>
               (let recorded = be32 raw 4; header = clear_crc raw;
                    len = unat (be32 header 12); payloadCRC = be32 header 24;
                    fin = offset + uimageHeader + len
                in if sz < fin \<or> crc32 header \<noteq> recorded then Ok col
                   else andthen (crcRange r (offset + uimageHeader) fin)
                     (\<lambda>sum. if sum = payloadCRC then col_add col (Candidate offset fin kindUImage) else Ok col)))"

definition scanUImage :: "reader_at \<Rightarrow> nat \<Rightarrow> collector \<Rightarrow> (scan_err, collector) res" where
  "scanUImage r sz col = scan_loop r sz uimageMagic (uimage_body r sz) 0 col"

text \<open>\<open>io.NewSectionReader(r, 0, size).ReadAt\<close>: nothing past \<open>size\<close>.\<close>

definition section_read :: "reader_at \<Rightarrow> nat \<Rightarrow> nat \<Rightarrow> nat \<Rightarrow> bytes \<times> io_err option" where
  "section_read r sz offset n =
     (if sz \<le> offset then ([], Some EOF)
      else if sz - offset < n
      then (case r (int offset) (sz - offset) of (got, e) \<Rightarrow> (got, if e = None then Some EOF else e))
      else r (int offset) n)"

definition squashfs_body :: "reader_at \<Rightarrow> nat \<Rightarrow> collector \<Rightarrow> nat \<Rightarrow> (scan_err, collector) res" where
  "squashfs_body r sz col offset =
     (case section_read r sz offset squashfsHeader of
        (_, Some e) \<Rightarrow> if e = EOF then Ok col else Fail (ScanIO e)
      | (header, None) \<Rightarrow>
          (let super = parseSuper header
           in if super_valid super offset sz
              then col_add col (Candidate offset (offset + unat (ss_used super)) kindSquashFS)
              else Ok col))"

definition scanSquashFS :: "reader_at \<Rightarrow> nat \<Rightarrow> collector \<Rightarrow> (scan_err, collector) res" where
  "scanSquashFS r sz col = scan_loop r sz squashfsMagic (squashfs_body r sz) 0 col"

definition findCandidates :: "reader_at \<Rightarrow> nat \<Rightarrow> caps \<Rightarrow> (scan_err, candidate list) res" where
  "findCandidates r sz limit =
     andthen (scanUImage r sz \<lparr>col_caps = limit, col_found = [], col_bytes = 0\<rparr>)
       (\<lambda>col. andthen (scanSquashFS r sz col) (\<lambda>col. Ok (sort (col_found col))))"

section \<open>What the scans find\<close>

definition uimage_end :: "bytes \<Rightarrow> nat \<Rightarrow> nat" where
  "uimage_end data i = i + uimageHeader + unat (be32 (bslice data i (i + uimageHeader)) 12)"

text \<open>A uImage at \<open>i\<close>: the magic, a header whose CRC is right, and a payload that ends inside and whose CRC is right.\<close>

definition uimage_at :: "bytes \<Rightarrow> nat \<Rightarrow> bool" where
  "uimage_at data i \<longleftrightarrow>
     match_at data uimageMagic i \<and> uimage_end data i \<le> length data \<and>
     (let h = bslice data i (i + uimageHeader)
      in crc32 (clear_crc h) = be32 h 4 \<and>
         crc32 (bslice data (i + uimageHeader) (uimage_end data i)) = be32 h 24)"

definition squashfs_end :: "bytes \<Rightarrow> nat \<Rightarrow> nat" where
  "squashfs_end data i = i + unat (le64 (bslice data i (i + sqfsSBSize)) 40)"

definition carvable :: "bytes \<Rightarrow> candidate list" where
  "carvable data =
     map (\<lambda>i. Candidate i (uimage_end data i) kindUImage) (filter (uimage_at data) [0..<length data]) @
     map (\<lambda>i. Candidate i (squashfs_end data i) kindSquashFS) (filter (superblock_at data) [0..<length data])"

section \<open>The scans find exactly that\<close>

lemma carve_find_spec:
  assumes pat: "pat \<noteq> []"
  shows "carve_find (bytes_reader data) (length data) pat pos = Ok (find (match_at data pat) [pos..<length data])"
proof (induction "length data - pos" arbitrary: pos rule: less_induct)
  case less
  show ?case
  proof (cases "length data \<le> pos")
    case True
    then show ?thesis by (simp add: carve_find.simps [of _ _ _ pos])
  next
    case False
    let ?n = "min (scanChunk + length pat - 1) (length data - pos)"
    have w: "fst (bytes_reader data (int pos) ?n) = take (scanChunk + (length pat - 1)) (drop pos data)"
      using pat by (cases pat) (simp_all add: bytes_reader_at min_def)
    have full: "snd (bytes_reader data (int pos) ?n) = None" by (simp add: bytes_reader_at)
    have rest: "carve_find (bytes_reader data) (length data) pat (pos + scanChunk) =
        Ok (find (match_at data pat) [pos + scanChunk..<length data])"
      using False by (intro less.hyps) (simp add: scanChunk_def)
    have split: "find (match_at data pat) [pos..<length data] =
      (case map_option (\<lambda>i. pos + i) (find (\<lambda>i. match_at data pat (pos + i)) [0..<scanChunk]) of
         None \<Rightarrow> find (match_at data pat) [pos + scanChunk..<length data] | Some i \<Rightarrow> Some i)"
    proof (rule find_chunk)
      show "\<not> match_at data pat i" if "length data \<le> i" for i
        using match_at_bound [of data pat i] pat that by (cases pat) auto
    qed (use False in simp)
    show ?thesis
      unfolding carve_find.simps [of _ _ _ pos] Let_def full w window_index [OF pat] rest split
      using False by (auto split: option.splits)
  qed
qed

fun run_steps :: "(collector \<Rightarrow> nat \<Rightarrow> (scan_err, collector) res) \<Rightarrow> collector \<Rightarrow> nat list \<Rightarrow> (scan_err, collector) res" where
  "run_steps body col [] = Ok col"
| "run_steps body col (i # is) = andthen (body col i) (\<lambda>c. run_steps body c is)"

lemma filter_upt_find:
  "find P [a..<b] = Some i \<Longrightarrow> filter P [a..<b] = i # filter P [i + 1..<b]"
  "find P [a..<b] = None \<Longrightarrow> filter P [a..<b] = []"
proof -
  assume "find P [a..<b] = Some i"
  then have i: "a \<le> i" "i < b" "P i" "\<And>j. a \<le> j \<Longrightarrow> j < i \<Longrightarrow> \<not> P j"
    by (auto simp: find_upt_Some)
  have "[a..<b] = [a..<i] @ i # [i + 1..<b]"
    using upt_add_eq_append [of a i "b - i"] i by (simp add: upt_conv_Cons)
  moreover have "filter P [a..<i] = []" using i(4) by (auto simp: filter_empty_conv)
  ultimately show "filter P [a..<b] = i # filter P [i + 1..<b]" using i(3) by simp
qed (auto simp: find_None_iff filter_empty_conv)

lemma scan_loop_spec:
  assumes pat: "pat \<noteq> []"
  shows "scan_loop (bytes_reader data) (length data) pat body fr col =
     run_steps body col (filter (match_at data pat) [fr..<length data])"
proof (induction "length data - fr" arbitrary: fr col rule: less_induct)
  case less
  show ?case
  proof (cases "find (match_at data pat) [fr..<length data]")
    case None
    then show ?thesis by (simp add: scan_loop.simps [of _ _ _ _ fr] carve_find_spec [OF pat] filter_upt_find)
  next
    case (Some i)
    then have "fr \<le> i" "i < length data" by (auto simp: find_upt_Some)
    then have "scan_loop (bytes_reader data) (length data) pat body (i + 1) =
        (\<lambda>c. run_steps body c (filter (match_at data pat) [i + 1..<length data]))"
      by (intro ext less.hyps) simp
    then show ?thesis
      using Some by (simp add: scan_loop.simps [of _ _ _ _ fr] carve_find_spec [OF pat] filter_upt_find)
  qed
qed

fun add_all :: "collector \<Rightarrow> candidate list \<Rightarrow> (scan_err, collector) res" where
  "add_all col [] = Ok col"
| "add_all col (c # cs) = andthen (col_add col c) (\<lambda>col. add_all col cs)"

lemma andthen_assoc: "andthen (andthen m f) g = andthen m (\<lambda>x. andthen (f x) g)"
  by (cases m) auto

lemma add_all_append: "add_all col (cs @ ds) = andthen (add_all col cs) (\<lambda>col. add_all col ds)"
  by (induction col cs rule: add_all.induct) (auto simp: andthen_assoc)

lemma run_steps_add_all:
  assumes "\<And>i col. i \<in> set is \<Longrightarrow> body col i = (if ok i then col_add col (mk i) else Ok col)"
  shows "run_steps body col is = add_all col (map mk (filter ok is))"
  using assms by (induction body col "is" rule: run_steps.induct) auto

text \<open>The payload's CRC, and the bodies of the two loops.\<close>

lemma crc_copy_spec:
  "fin \<le> length data \<Longrightarrow> crc_copy (bytes_reader data) pos fin st = Ok (foldl crc32_byte st (bslice data pos fin))"
proof (induction "fin - pos" arbitrary: pos st rule: less_induct)
  case less
  show ?case
  proof (cases "fin \<le> pos")
    case True
    then show ?thesis by (simp add: crc_copy.simps [of _ pos] bslice_def)
  next
    case False
    let ?n = "min copyBuffer (fin - pos)"
    have rest: "crc_copy (bytes_reader data) (pos + copyBuffer) fin st' =
        Ok (foldl crc32_byte st' (bslice data (pos + copyBuffer) fin))" for st'
      using False less.prems by (intro less.hyps) (auto simp: copyBuffer_def)
    have "take (fin - pos) (drop pos data) =
        take ?n (drop pos data) @ take (fin - (pos + copyBuffer)) (drop (pos + copyBuffer) data)"
    proof (cases "copyBuffer \<le> fin - pos")
      case True
      then have "fin - pos = copyBuffer + (fin - (pos + copyBuffer))" by simp
      then have "take (fin - pos) (drop pos data) =
          take copyBuffer (drop pos data) @ take (fin - (pos + copyBuffer)) (drop copyBuffer (drop pos data))"
        by (metis take_add)
      then show ?thesis using True by (simp add: min_def add.commute)
    qed (simp add: min_def)
    then have "bslice data pos fin = fst (bytes_reader data (int pos) ?n) @ bslice data (pos + copyBuffer) fin"
      by (simp add: bytes_reader_at bslice_def)
    moreover have "snd (bytes_reader data (int pos) ?n) = None"
      using False less.prems by (auto simp: bytes_reader_at)
    ultimately show ?thesis
      using False by (simp add: crc_copy.simps [of _ pos] rest Let_def)
  qed
qed

lemma crcRange_spec: "fin \<le> length data \<Longrightarrow> crcRange (bytes_reader data) start fin = Ok (crc32 (bslice data start fin))"
  by (simp add: crcRange_def crc_copy_spec crc32_def)

lemma clear_crc_length: "8 \<le> length h \<Longrightarrow> length (clear_crc h) = length h"
  by (simp add: clear_crc_def)

lemma clear_crc_be32: "8 \<le> off \<Longrightarrow> off + 4 \<le> length h \<Longrightarrow> be32 (clear_crc h) off = be32 h off"
proof -
  assume off: "8 \<le> off" "off + 4 \<le> length h"
  then have "clear_crc h = (take 4 h @ [0, 0, 0, 0]) @ drop 8 h" "length (take 4 h @ [0, 0, 0, 0 :: byte]) = 8"
    by (simp_all add: clear_crc_def)
  then have "drop off (clear_crc h) = drop off h" using off(1) by (simp only: drop_append) simp
  then show ?thesis by (simp add: be32_def bslice_def)
qed

lemma uimage_body_spec:
  assumes "match_at data uimageMagic i"
  shows "uimage_body (bytes_reader data) (length data) col i =
    (if uimage_at data i then col_add col (Candidate i (uimage_end data i) kindUImage) else Ok col)"
proof (cases "length data < i + uimageHeader")
  case True
  then show ?thesis by (auto simp: uimage_body_def uimage_at_def uimage_end_def)
next
  case False
  let ?h = "bslice data i (i + uimageHeader)"
  have rd: "bytes_reader data (int i) uimageHeader = (?h, None)"
    using False by (simp add: bytes_reader_at bslice_def)
  have len: "length ?h = 64" using False by (simp add: uimageHeader_def)
  have f: "be32 (clear_crc ?h) 12 = be32 ?h 12" "be32 (clear_crc ?h) 24 = be32 ?h 24"
    using len by (simp_all add: clear_crc_be32)
  show ?thesis
    using False assms
    by (auto simp: uimage_body_def rd f Let_def uimage_at_def uimage_end_def crcRange_spec not_less)
qed

lemma squashfs_body_spec:
  assumes "match_at data squashfsMagic i"
  shows "squashfs_body (bytes_reader data) (length data) col i =
    (if superblock_at data i then col_add col (Candidate i (squashfs_end data i) kindSquashFS) else Ok col)"
proof (cases "length data < i + sqfsSBSize")
  case True
  then show ?thesis
    using match_at_bound [OF assms]
    by (auto simp: squashfs_body_def section_read_def superblock_at_def squashfsHeader_def sqfsSBSize_def
        bytes_reader_at squashfsMagic_def)
next
  case False
  let ?h = "bslice data i (i + sqfsSBSize)"
  have rd: "section_read (bytes_reader data) (length data) i squashfsHeader = (?h, None)"
    using False by (auto simp: section_read_def bytes_reader_at bslice_def squashfsHeader_def sqfsSBSize_def)
  have magic: "match_at data sqfsMagic i" using assms by (simp add: sqfsMagic_def squashfsMagic_def)
  show ?thesis
    unfolding squashfs_body_def rd
    using False magic
    by (simp add: Let_def superblock_at_def superblock_tests_agree squashfs_end_def parseSuper_def)
qed

definition no_candidates :: "caps \<Rightarrow> collector" where
  "no_candidates limit = \<lparr>col_caps = limit, col_found = [], col_bytes = 0\<rparr>"

lemma filter_valid: "(\<And>i. ok i \<Longrightarrow> m i) \<Longrightarrow> filter (\<lambda>i. m i \<and> ok i) is = filter ok is"
  by (intro filter_cong) auto

lemma findCandidates_collects:
  "findCandidates (bytes_reader data) (length data) limit =
     andthen (add_all (no_candidates limit) (carvable data)) (\<lambda>col. Ok (sort (col_found col)))"
proof -
  have um: "uimage_at data i \<Longrightarrow> match_at data uimageMagic i" for i
    by (simp add: uimage_at_def)
  have sm: "superblock_at data i \<Longrightarrow> match_at data squashfsMagic i" for i
    by (simp add: superblock_at_def sqfsMagic_def squashfsMagic_def)
  have u: "scanUImage (bytes_reader data) (length data) col =
      add_all col (map (\<lambda>i. Candidate i (uimage_end data i) kindUImage) (filter (uimage_at data) [0..<length data]))" for col
    unfolding scanUImage_def
    by (subst scan_loop_spec, simp add: uimageMagic_def,
        subst run_steps_add_all [of _ _ "uimage_at data" "\<lambda>i. Candidate i (uimage_end data i) kindUImage"])
      (simp_all add: uimage_body_spec filter_valid [OF um])
  have s: "scanSquashFS (bytes_reader data) (length data) col =
      add_all col (map (\<lambda>i. Candidate i (squashfs_end data i) kindSquashFS) (filter (superblock_at data) [0..<length data]))" for col
    unfolding scanSquashFS_def
    by (subst scan_loop_spec, simp add: squashfsMagic_def,
        subst run_steps_add_all [of _ _ "superblock_at data" "\<lambda>i. Candidate i (squashfs_end data i) kindSquashFS"])
      (simp_all add: squashfs_body_spec filter_valid [OF sm])
  show ?thesis
    unfolding findCandidates_def carvable_def u s no_candidates_def
    by (simp add: add_all_append andthen_assoc)
qed

section \<open>The caps\<close>

definition total_bytes :: "candidate list \<Rightarrow> int" where
  "total_bytes cs = (\<Sum>c\<leftarrow>cs. int (cand_end c) - int (cand_start c))"

definition within_caps :: "caps \<Rightarrow> candidate list \<Rightarrow> bool" where
  "within_caps limit cs \<longleftrightarrow>
     cs = [] \<or> int (length cs) \<le> cap_carves limit \<and> int (length cs) + 1 \<le> cap_files limit \<and>
       total_bytes cs \<le> cap_output limit"

definition room :: "collector \<Rightarrow> candidate list \<Rightarrow> bool" where
  "room col cs \<longleftrightarrow>
     cs = [] \<or> int (length (col_found col) + length cs) \<le> cap_carves (col_caps col) \<and>
       int (length (col_found col) + length cs) + 1 \<le> cap_files (col_caps col) \<and>
       col_bytes col + total_bytes cs \<le> cap_output (col_caps col)"

lemma total_bytes_simps [simp]:
  "total_bytes [] = 0" "total_bytes (c # cs) = int (cand_end c) - int (cand_start c) + total_bytes cs"
  by (simp_all add: total_bytes_def)

lemma total_bytes_nonneg: "(\<And>c. c \<in> set cs \<Longrightarrow> cand_start c \<le> cand_end c) \<Longrightarrow> 0 \<le> total_bytes cs"
  unfolding total_bytes_def by (intro sum_list_nonneg) auto

lemma add_all_result:
  assumes "\<And>c. c \<in> set cs \<Longrightarrow> cand_start c \<le> cand_end c"
  shows "if room col cs
    then add_all col cs = Ok (col\<lparr>col_found := col_found col @ cs, col_bytes := col_bytes col + total_bytes cs\<rparr>)
    else add_all col cs = Fail errCandidateCaps \<or> add_all col cs = Fail errOutputBytes"
  using assms
proof (induction cs arbitrary: col)
  case Nil
  then show ?case by (simp add: room_def)
next
  case (Cons c cs)
  have nonneg: "0 \<le> total_bytes cs" using Cons.prems by (intro total_bytes_nonneg) simp
  let ?n = "int (length (col_found col))"
  let ?fits = "?n < cap_carves (col_caps col) \<and> ?n + 2 \<le> cap_files (col_caps col) \<and>
      col_bytes col + (int (cand_end c) - int (cand_start c)) \<le> cap_output (col_caps col)"
  let ?col1 = "col\<lparr>col_found := col_found col @ [c], col_bytes := col_bytes col + (int (cand_end c) - int (cand_start c))\<rparr>"
  show ?case
  proof (cases ?fits)
    case True
    then have add: "col_add col c = Ok ?col1" by (simp add: col_add_def Let_def)
    have rm: "room col (c # cs) \<longleftrightarrow> room ?col1 cs"
      using True by (cases cs) (auto simp: room_def)
    show ?thesis
      using Cons.IH [of ?col1] Cons.prems unfolding rm by (simp add: add add.assoc split: if_splits)
  next
    case False
    then have "\<not> room col (c # cs)" using nonneg by (auto simp: room_def)
    moreover have "col_add col c = Fail errCandidateCaps \<or> col_add col c = Fail errOutputBytes"
      using False by (auto simp: col_add_def Let_def)
    ultimately show ?thesis by auto
  qed
qed

lemma carvable_ranges: "c \<in> set (carvable data) \<Longrightarrow> cand_start c < cand_end c \<and> cand_end c \<le> length data"
proof -
  have u: "unat x \<le> length data - i" if "i \<le> length data" "\<not> word_of_int (int (length data) - int i) < (x :: u64)" for x i
  proof -
    have "(word_of_int (int (length data) - int i) :: u64) = word_of_nat (length data - i)"
      using that(1) by (simp add: of_nat_diff)
    then have "x \<le> word_of_nat (length data - i)" using that(2) by simp
    then have "unat x \<le> unat (word_of_nat (length data - i) :: u64)" by (simp add: word_le_nat_alt)
    also have "\<dots> \<le> length data - i" by (simp add: unat_of_nat)
    finally show ?thesis .
  qed
  have sq: "i < squashfs_end data i \<and> squashfs_end data i \<le> length data" if "superblock_at data i" for i
  proof -
    let ?sb = "bslice data i (i + sqfsSBSize)" let ?used = "le64 ?sb 40"
    have i: "i \<le> length data" and v: "super_valid (parseSuper ?sb) i (length data)"
      using that by (auto simp: superblock_at_def superblock_tests_agree)
    have lim: "\<not> word_of_int (int (length data) - int i) < ?used" and tab: "word_of_nat squashfsHeader < ?used"
      using v by (auto simp: super_valid_def parseSuper_def split: if_splits)
    have "0 < unat ?used" using tab by (simp add: word_less_nat_alt)
    then show ?thesis using u [OF i lim] i by (simp add: squashfs_end_def)
  qed
  show "c \<in> set (carvable data) \<Longrightarrow> cand_start c < cand_end c \<and> cand_end c \<le> length data"
    using sq by (auto simp: carvable_def uimage_at_def uimage_end_def uimageHeader_def)
qed

lemma carve_squashfs_first:
  "filter (\<lambda>c. cand_kind c = kindSquashFS) (carvable data) =
     map (\<lambda>i. Candidate i (squashfs_end data i) kindSquashFS) (filter (superblock_at data) [0..<length data])"
proof -
  have "filter (\<lambda>c. cand_kind c = kindSquashFS)
      (map (\<lambda>i. Candidate i (uimage_end data i) kindUImage) (filter (uimage_at data) [0..<length data])) = []"
    by (auto simp: filter_empty_conv kindUImage_def kindSquashFS_def)
  moreover have "filter (\<lambda>c. cand_kind c = kindSquashFS) (map (\<lambda>i. Candidate i (squashfs_end data i) kindSquashFS) is) =
      map (\<lambda>i. Candidate i (squashfs_end data i) kindSquashFS) is" for "is"
    by (auto simp: filter_id_conv)
  ultimately show ?thesis by (simp add: carvable_def)
qed

lemma find_filter: "find P xs = (case filter P xs of [] \<Rightarrow> None | x # _ \<Rightarrow> Some x)"
  by (induction xs) auto

section \<open>Properties\<close>

text \<open>
  C19. The scans are exact: over every input, when the validated ranges of the input fit the caps, the scan
  returns all of them and nothing else, sorted by offset, kind and end; when they do not fit it returns one of
  the two cap errors and no range. Every range is a non-empty part of the input.
\<close>

theorem carve_candidates_exact:
  "(if within_caps limit (carvable data)
    then findCandidates (bytes_reader data) (length data) limit = Ok (sort (carvable data))
    else findCandidates (bytes_reader data) (length data) limit = Fail errCandidateCaps \<or>
         findCandidates (bytes_reader data) (length data) limit = Fail errOutputBytes) \<and>
   list_all (\<lambda>c. cand_start c < cand_end c \<and> cand_end c \<le> length data) (carvable data)"
proof -
  have le: "c \<in> set (carvable data) \<Longrightarrow> cand_start c \<le> cand_end c" for c
    using carvable_ranges [of c data] by simp
  have "room (no_candidates limit) (carvable data) \<longleftrightarrow> within_caps limit (carvable data)"
    by (simp add: room_def within_caps_def no_candidates_def)
  then show ?thesis
    using add_all_result [of "carvable data" "no_candidates limit", OF le] carvable_ranges [of _ data]
    by (auto simp: findCandidates_collects no_candidates_def list_all_iff split: if_splits)
qed

text \<open>
  The two SquashFS finders of the program agree: their superblock tests, written apart, accept the same
  bytes, and the offset the extractor finds is where the first SquashFS range the carver may cut begins.
\<close>

theorem squashfs_finders_agree:
  "(sqfsValidSuperblock sb offset sz \<longleftrightarrow> super_valid (parseSuper sb) offset sz) \<and>
   findSquashfsOffset (bytes_reader data) (length data) =
     (case filter (\<lambda>c. cand_kind c = kindSquashFS) (carvable data) of
        [] \<Rightarrow> Fail sqfsError | c # _ \<Rightarrow> Ok (cand_start c))"
  unfolding findSquashfsOffset_spec carve_squashfs_first find_filter
  by (auto simp: superblock_tests_agree split: list.splits)

end
