(* ===== verification/Carve_Tree.thy ===== *)
theory Carve_Tree
  imports Carve
begin

text \<open>
  The two halves of \<open>internal/corroborate/carve\<close> and what passes between them: the worker (\<open>worker.go\<close>) re-measures
  the staged input, writes every range it found into its own file and a canonical report next to them; the parent
  (\<open>validate.go\<close>, \<open>carve.go\<close>) decodes the report, checks it against what it asked for, and checks the whole tree
  before it publishes it. The stage is the list of its entries in the order \<open>filepath.WalkDir\<close> visits them.
  SHA-256 and the JSON decoder are parameters.
\<close>

section \<open>Records and the report\<close>

type_synonym hasher = "bytes \<Rightarrow> bytes" \<comment> \<open>the hex digits of the SHA-256 of some bytes\<close>

definition sha_text :: "hasher \<Rightarrow> bytes \<Rightarrow> bytes" where
  "sha_text sha data = asc ''sha256:'' @ sha data"

record inputRecord =
  ir_path :: bytes
  ir_size :: int
  ir_sha :: bytes

record carveRecord =
  cr_kind :: bytes
  cr_offset :: int
  cr_size :: int
  cr_path :: bytes
  cr_sha :: bytes

record carve_config =
  maxInput :: int
  maxOutput :: int
  maxCarves :: int
  maxFiles :: int
  timeout_secs :: int
  maxProcs :: int
  maxMemory :: int
  bwrapPath :: bytes
  bwrapSHA :: bytes

definition schema :: bytes where "schema = asc ''firmware-carve.v1''"

definition report_name :: bytes where "report_name = schema @ asc ''.json''"

definition input_object :: "inputRecord \<Rightarrow> jval" where
  "input_object r = JMap [(asc ''path'', JStr (ir_path r)), (asc ''size'', JInt (ir_size r)), (asc ''sha256'', JStr (ir_sha r))]"

definition carve_object :: "carveRecord \<Rightarrow> jval" where
  "carve_object c =
     JMap [(asc ''kind'', JStr (cr_kind c)), (asc ''offset'', JInt (cr_offset c)), (asc ''size'', JInt (cr_size c)),
           (asc ''path'', JStr (cr_path c)), (asc ''sha256'', JStr (cr_sha c))]"

text \<open>The low eight hex digits or, for a larger number, as many as it takes: \<open>%08x\<close> of an \<open>int64\<close>.\<close>

fun hex_len :: "nat \<Rightarrow> nat" where
  "hex_len n = (if n < 16 then 1 else hex_len (n div 16) + 1)"

declare hex_len.simps [simp del]

definition fmt_08x :: "int \<Rightarrow> string" where
  "fmt_08x i =
     (if i < 0 then CHR ''-'' # hex_low (max 7 (hex_len (nat (- i)))) (nat (- i))
      else hex_low (max 8 (hex_len (nat i))) (nat i))"

definition carvePath :: "int \<Rightarrow> bytes \<Rightarrow> bytes" where
  "carvePath offset kind = asc ''carves/'' @ asc (fmt_08x offset) @ asc ''-'' @ kind @ asc ''.bin''"

definition capsObject :: "carve_config \<Rightarrow> jval" where
  "capsObject c =
     JMap [(asc ''max_input_bytes'', JInt (maxInput c)), (asc ''max_output_bytes'', JInt (maxOutput c)),
           (asc ''max_carves'', JInt (maxCarves c)), (asc ''max_files'', JInt (maxFiles c)),
           (asc ''timeout_seconds'', JInt (timeout_secs c)), (asc ''max_processes'', JInt (maxProcs c)),
           (asc ''max_memory_bytes'', JInt (maxMemory c))]"

definition isolation :: jval where
  "isolation =
     JMap [(asc ''bubblewrap'', JBool True), (asc ''network_access'', JBool False),
           (asc ''payload_execution'', JBool False), (asc ''static_only'', JBool True), (asc ''vm_boundary'', JBool False)]"

definition limitations :: jval where
  "limitations =
     JList [JStr (asc ''Bubblewrap is defense in depth, not a hostile-parser security boundary; use a disposable VM for hostile firmware.''),
            JStr (asc ''Carving validates only uImage CRCs and the SquashFS v4 little-endian structural byte range; it does not validate filesystem contents.'')]"

definition artifact_object :: "bytes \<Rightarrow> bytes \<Rightarrow> jval" where
  "artifact_object path digest = JMap [(asc ''path'', JStr path), (asc ''sha256'', JStr digest)]"

section \<open>The stage\<close>

datatype node_kind = Regular | Directory | OtherKind

record tree_node =
  nd_kind :: node_kind
  nd_perm :: nat
  nd_special :: bool \<comment> \<open>a set-id or sticky bit\<close>
  nd_uid :: "nat option"
  nd_nlink :: nat
  nd_data :: bytes

type_synonym stage = "(bytes \<times> tree_node) list"

definition own_file :: "nat \<Rightarrow> bytes \<Rightarrow> tree_node" where
  "own_file euid data =
     \<lparr>nd_kind = Regular, nd_perm = 0x100, nd_special = False, nd_uid = Some euid, nd_nlink = 1, nd_data = data\<rparr>"

definition own_dir :: "nat \<Rightarrow> tree_node" where
  "own_dir euid =
     \<lparr>nd_kind = Directory, nd_perm = 0x1C0, nd_special = False, nd_uid = Some euid, nd_nlink = 2, nd_data = []\<rparr>"

datatype carve_err =
    CarveScan scan_err | StagedType | EmptyInput | IdentityMismatch | NoImage | FileExists bytes
  | ReportEncoding json_err | BadReport | Contract | CarveRecordInvalid | CarveOrder | OwnershipOrMode | Hardlinks
  | LinkOrSpecial | TreeMismatch | SourceRange | CarveIdentity | OpenFailed bytes

section \<open>The worker\<close>

definition stagedFile :: "tree_node \<Rightarrow> nat \<Rightarrow> bool" where
  "stagedFile n euid \<longleftrightarrow>
     nd_kind n = Regular \<and> nd_uid n = Some euid \<and> nd_perm n = 0x100 \<and> \<not> nd_special n"

text \<open>\<open>O_EXCL\<close>: a name that exists is an error.\<close>

definition writeExclusive :: "nat \<Rightarrow> stage \<Rightarrow> bytes \<Rightarrow> bytes \<Rightarrow> (carve_err, stage) res" where
  "writeExclusive euid tree path data =
     (if map_of tree path \<noteq> None then Fail (FileExists path) else Ok (tree @ [(path, own_file euid data)]))"

definition carve_record :: "hasher \<Rightarrow> bytes \<Rightarrow> candidate \<Rightarrow> carveRecord" where
  "carve_record sha data item =
     \<lparr>cr_kind = asc (cand_kind item), cr_offset = int (cand_start item),
      cr_size = int (cand_end item) - int (cand_start item),
      cr_path = carvePath (int (cand_start item)) (asc (cand_kind item)),
      cr_sha = sha_text sha (bslice data (cand_start item) (cand_end item))\<rparr>"

fun writeCarves :: "hasher \<Rightarrow> nat \<Rightarrow> bytes \<Rightarrow> candidate list \<Rightarrow> stage \<Rightarrow> (carve_err, carveRecord list \<times> stage) res" where
  "writeCarves sha euid data [] tree = Ok ([], tree)"
| "writeCarves sha euid data (item # items) tree =
     (let rec = carve_record sha data item
      in andthen (writeExclusive euid tree (cr_path rec) (bslice data (cand_start item) (cand_end item)))
           (\<lambda>tree. andthen (writeCarves sha euid data items tree) (\<lambda>(recs, tree). Ok (rec # recs, tree))))"

definition worker_report :: "carve_config \<Rightarrow> inputRecord \<Rightarrow> carveRecord list \<Rightarrow> (bytes \<times> jval) list" where
  "worker_report c want recs =
     [(asc ''schema'', JStr schema), (asc ''input'', input_object want), (asc ''carves'', JList (map carve_object recs)),
      (asc ''caps'', capsObject c), (asc ''isolation'', isolation),
      (asc ''isolation_artifact'', artifact_object (bwrapPath c) (bwrapSHA c)), (asc ''limitations'', limitations)]"

definition runWorker ::
  "(string \<Rightarrow> jfloat option) \<Rightarrow> hasher \<Rightarrow> carve_config \<Rightarrow> nat \<Rightarrow> inputRecord \<Rightarrow> tree_node \<Rightarrow> (carve_err, stage) res"
where
  "runWorker pf sha c euid want meta =
     (if \<not> stagedFile meta euid then Fail StagedType
      else let data = nd_data meta; sz = length data
           in if sz = 0 then Fail EmptyInput
              else if int sz \<noteq> ir_size want \<or> sha_text sha data \<noteq> ir_sha want then Fail IdentityMismatch
              else (case findCandidates (bytes_reader data) sz \<lparr>cap_carves = maxCarves c, cap_files = maxFiles c, cap_output = maxOutput c\<rparr> of
                      Panic \<Rightarrow> Panic
                    | Fail e \<Rightarrow> Fail (CarveScan e)
                    | Ok [] \<Rightarrow> Fail NoImage
                    | Ok (item # items) \<Rightarrow>
                        andthen (writeCarves sha euid data (item # items) [(asc ''input.bin'', meta), (asc ''carves'', own_dir euid)])
                          (\<lambda>(recs, tree).
                             case Canonical pf (JMap (worker_report c want recs)) of
                               Panic \<Rightarrow> Panic
                             | Fail e \<Rightarrow> Fail (ReportEncoding e)
                             | Ok payload \<Rightarrow> writeExclusive euid tree report_name payload)))"

section \<open>The parent\<close>

text \<open>\<open>strconv.ParseInt(s, 10, 64)\<close>.\<close>

definition parse_int64 :: "string \<Rightarrow> int option" where
  "parse_int64 s =
     (let (neg, ds) = (case s of c # t \<Rightarrow> if c = CHR ''-'' then (True, t) else if c = CHR ''+'' then (False, t) else (False, s)
                               | [] \<Rightarrow> (False, s))
      in if ds = [] then None
         else case digits_val 10 0 ds of
                None \<Rightarrow> None
              | Some n \<Rightarrow>
                  if neg then (if n \<le> 2 ^ 63 then Some (- int n) else None)
                  else if n < 2 ^ 63 then Some (int n) else None)"

definition integer :: "jval option \<Rightarrow> int option" where
  "integer v = (case v of Some (JNumber s) \<Rightarrow> parse_int64 s | _ \<Rightarrow> None)"

definition text_of :: "jval option \<Rightarrow> bytes" where
  "text_of v = (case v of Some (JStr s) \<Rightarrow> s | _ \<Rightarrow> [])"

definition read_record :: "jval \<Rightarrow> (carve_err, carveRecord) res" where
  "read_record raw =
     (case raw of
        JMap m \<Rightarrow>
          (case (integer (map_of m (asc ''offset'')), integer (map_of m (asc ''size''))) of
             (Some off, Some sz) \<Rightarrow>
               Ok \<lparr>cr_kind = text_of (map_of m (asc ''kind'')), cr_offset = off, cr_size = sz,
                   cr_path = text_of (map_of m (asc ''path'')), cr_sha = text_of (map_of m (asc ''sha256''))\<rparr>
           | _ \<Rightarrow> Fail CarveRecordInvalid)
      | _ \<Rightarrow> Fail CarveRecordInvalid)"

fun read_records :: "jval list \<Rightarrow> (carve_err, carveRecord list) res" where
  "read_records [] = Ok []"
| "read_records (raw # rest) =
     andthen (read_record raw) (\<lambda>r. andthen (read_records rest) (\<lambda>rs. Ok (r # rs)))"

definition carveRecords :: "(bytes \<times> jval) list \<Rightarrow> (carve_err, carveRecord list) res" where
  "carveRecords report =
     (case map_of report (asc ''carves'') of Some (JList l) \<Rightarrow> read_records l | _ \<Rightarrow> Fail CarveRecordInvalid)"

definition reportKeys :: "bytes list" where
  "reportKeys = map asc [''caps'', ''carves'', ''input'', ''isolation'', ''isolation_artifact'', ''limitations'', ''schema'']"

definition same_encoding :: "(string \<Rightarrow> jfloat option) \<Rightarrow> jval \<Rightarrow> jval \<Rightarrow> bool" where
  "same_encoding pf v w = (case (Canonical pf v, Canonical pf w) of (Ok a, Ok b) \<Rightarrow> a = b | _ \<Rightarrow> False)"

text \<open>A key the report lacks reads as \<open>nil\<close>.\<close>

definition field_of :: "(bytes \<times> jval) list \<Rightarrow> bytes \<Rightarrow> jval" where
  "field_of report k = (case map_of report k of Some v \<Rightarrow> v | None \<Rightarrow> JNull)"

definition checkContract ::
  "(string \<Rightarrow> jfloat option) \<Rightarrow> (bytes \<times> jval) list \<Rightarrow> (bytes \<times> jval) list \<Rightarrow> (carve_err, unit) res"
where
  "checkContract pf report want =
     (if sort (map fst report) \<noteq> reportKeys \<or> map_of report (asc ''schema'') \<noteq> Some (JStr schema) then Fail Contract
      else if list_all (\<lambda>(name, expected). same_encoding pf (field_of report name) expected) want then Ok ()
      else Fail Contract)"

definition record_less :: "carveRecord \<Rightarrow> carveRecord \<Rightarrow> bool" where
  "record_less a b \<longleftrightarrow>
     (if cr_offset a \<noteq> cr_offset b then cr_offset a < cr_offset b
      else if cr_kind a \<noteq> cr_kind b then cr_kind a < cr_kind b
      else cr_size a < cr_size b)"

text \<open>\<open>slices.IsSortedFunc\<close>: no element is below the one before it.\<close>

fun records_sorted :: "carveRecord list \<Rightarrow> bool" where
  "records_sorted (a # b # rest) = (\<not> record_less b a \<and> records_sorted (b # rest))"
| "records_sorted _ = True"

text \<open>The chunked comparison of a carved file with its range of the staged input.\<close>

definition verifyChunk :: nat where "verifyChunk = 0x100000"

function verify_range :: "bytes \<Rightarrow> bytes \<Rightarrow> int \<Rightarrow> nat \<Rightarrow> bool" where
  "verify_range carved source offset done =
     (let have = take verifyChunk (drop done carved); want = bytes_reader source (offset + int done) (length have)
      in if snd want \<noteq> None \<or> fst want \<noteq> have then False
         else if length have < verifyChunk then True
         else verify_range carved source offset (done + verifyChunk))"
  by pat_completeness auto

termination
  by (relation "measure (\<lambda>(carved, source, offset, done). length carved + 1 - done)") (auto simp: verifyChunk_def)

definition openNoFollow :: "stage \<Rightarrow> bytes \<Rightarrow> (carve_err, bytes) res" where
  "openNoFollow tree path =
     (case map_of tree path of
        Some n \<Rightarrow> if nd_kind n = Regular then Ok (nd_data n) else Fail (OpenFailed path)
      | None \<Rightarrow> Fail (OpenFailed path))"

definition verifyCarve :: "hasher \<Rightarrow> stage \<Rightarrow> carveRecord \<Rightarrow> (carve_err, unit) res" where
  "verifyCarve sha tree item =
     andthen (openNoFollow tree (cr_path item)) (\<lambda>carved.
     andthen (openNoFollow tree (asc ''input.bin'')) (\<lambda>source.
       if \<not> verify_range carved source (cr_offset item) 0 then Fail SourceRange
       else if int (length carved) \<noteq> cr_size item \<or> sha_text sha carved \<noteq> cr_sha item then Fail CarveIdentity
       else Ok ()))"

fun check_records :: "hasher \<Rightarrow> stage \<Rightarrow> carveRecord list \<Rightarrow> (carve_err, unit) res" where
  "check_records sha tree [] = Ok ()"
| "check_records sha tree (item # items) =
     (if (cr_kind item \<noteq> asc kindUImage \<and> cr_kind item \<noteq> asc kindSquashFS) \<or>
         cr_path item \<noteq> carvePath (cr_offset item) (cr_kind item) \<or> cr_size item < 1
      then Fail CarveRecordInvalid
      else andthen (verifyCarve sha tree item) (\<lambda>_. check_records sha tree items))"

fun check_nodes :: "nat \<Rightarrow> stage \<Rightarrow> (carve_err, bytes list) res" where
  "check_nodes euid [] = Ok []"
| "check_nodes euid ((path, n) # rest) =
     (let want = (if nd_kind n = Directory then 0x1C0 else 0x100)
      in if nd_uid n \<noteq> Some euid \<or> nd_perm n \<noteq> want \<or> nd_special n then Fail OwnershipOrMode
         else case nd_kind n of
                Regular \<Rightarrow>
                  if nd_nlink n \<noteq> 1 then Fail Hardlinks
                  else andthen (check_nodes euid rest) (\<lambda>seen. Ok (path # seen))
              | Directory \<Rightarrow> check_nodes euid rest
              | OtherKind \<Rightarrow> Fail LinkOrSpecial)"

text \<open>On success the staged input is removed.\<close>

definition validateTree ::
  "(string \<Rightarrow> jfloat option) \<Rightarrow> hasher \<Rightarrow> stage \<Rightarrow> (bytes \<times> jval) list \<Rightarrow> nat \<Rightarrow> (carve_err, stage) res"
where
  "validateTree pf sha tree report euid =
     andthen (carveRecords report) (\<lambda>records.
       if \<not> records_sorted records then Fail CarveOrder
       else andthen (check_records sha tree records) (\<lambda>_.
         andthen (check_nodes euid tree) (\<lambda>seen.
           case Canonical pf (JMap report) of
             Panic \<Rightarrow> Panic
           | Fail e \<Rightarrow> Fail (ReportEncoding e)
           | Ok canonical \<Rightarrow>
               if set seen \<noteq> set (report_name # asc ''input.bin'' # map cr_path records) \<or>
                  openNoFollow tree report_name \<noteq> Ok canonical
               then Fail TreeMismatch
               else Ok (filter (\<lambda>(p, n). p \<noteq> asc ''input.bin'') tree))))"

text \<open>The parent, from the worker's exit to the publication. \<open>decode\<close> is \<open>decodeReport\<close>.\<close>

definition parent_accepts ::
  "(string \<Rightarrow> jfloat option) \<Rightarrow> hasher \<Rightarrow> (bytes \<Rightarrow> (bytes \<times> jval) list option) \<Rightarrow> carve_config \<Rightarrow> nat \<Rightarrow> inputRecord \<Rightarrow>
   bytes \<Rightarrow> bytes \<Rightarrow> stage \<Rightarrow> (carve_err, stage) res"
where
  "parent_accepts pf sha decode c euid rec bwrap digest tree =
     (case map_of tree report_name of
        None \<Rightarrow> Fail (OpenFailed report_name)
      | Some n \<Rightarrow>
          if \<not> stagedFile n euid then Fail StagedType
          else (case decode (nd_data n) of
                  None \<Rightarrow> Fail BadReport
                | Some report \<Rightarrow>
                    andthen (checkContract pf report
                        [(asc ''input'', input_object rec), (asc ''caps'', capsObject c), (asc ''isolation'', isolation),
                         (asc ''isolation_artifact'', artifact_object bwrap digest)])
                      (\<lambda>_. validateTree pf sha tree report euid)))"

section \<open>Decoded integers encode the same\<close>

fun numbers :: "jval \<Rightarrow> jval" where
  "numbers (JInt i) = JNumber (int_str i)"
| "numbers (JList vs) = JList (map numbers vs)"
| "numbers (JMap fs) = JMap (map (\<lambda>(k, v). (k, numbers v)) fs)"
| "numbers v = v"

text \<open>The values the report is made of.\<close>

fun plain :: "jval \<Rightarrow> bool" where
  "plain JNull = True"
| "plain (JBool b) = True"
| "plain (JStr s) = utf8_valid s"
| "plain (JInt i) = True"
| "plain (JList vs) = list_all plain vs"
| "plain (JMap fs) = (distinct (map fst fs) \<and> list_all (\<lambda>(k, v). utf8_valid k \<and> plain v) fs)"
| "plain _ = False"

lemma is_digit_char: "d < 10 \<Longrightarrow> is_digit (digit_char d)"
  by (simp add: is_digit_def digit_char_def)

lemma dec_str_all_digits: "list_all is_digit (dec_str n)"
  using dec_str_digits [of _ n] is_digit_char by (auto simp: list_all_iff)

lemma not_digit: "\<not> is_digit (CHR ''-'')" "\<not> is_digit (CHR ''+'')" "\<not> is_digit (CHR ''.'')"
  "\<not> is_digit (CHR ''e'')" "\<not> is_digit (CHR ''E'')"
  by (simp_all add: is_digit_def)

lemma dec_str_no: "\<not> is_digit c \<Longrightarrow> c \<notin> set (dec_str n)"
  using dec_str_all_digits [of n] by (auto simp: list_all_iff)

lemma dec_str_strip: "strip_minus (dec_str n) = dec_str n"
  using dec_str_no [OF not_digit(1), of n] by (auto simp: strip_minus_def split: list.splits)

lemma strip_int_str: "strip_minus (int_str i) = dec_str (nat \<bar>i\<bar>)"
  by (simp add: int_str_def dec_str_strip) (simp add: strip_minus_def)

lemma takeWhile_all: "list_all P xs \<Longrightarrow> takeWhile P xs = xs \<and> dropWhile P xs = []"
  by (induction xs) auto

lemma dec_str_zero: "dec_str 0 = [digit_char 0]"
  by (simp add: dec_str.simps [of 0])

lemma numberSyntax_int_str: "numberSyntax (int_str i)"
proof -
  have z: "digit_char 0 = CHR ''0''" unfolding digit_char_def by code_simp
  have "hd (dec_str n) = CHR ''0'' \<longrightarrow> length (dec_str n) = 1" for n
    using dec_str_leading_zero [of n] dec_str_zero z by auto
  then show ?thesis
    unfolding numberSyntax_def strip_int_str Let_def
    unfolding takeWhile_all [OF dec_str_all_digits, THEN conjunct1] takeWhile_all [OF dec_str_all_digits, THEN conjunct2]
    by (simp add: drop_fraction_def exponent_or_end_def)
qed

lemma enc_int_str: "enc_number pf (int_str i) = Ok (asc (int_str i))"
proof -
  have no: "c \<notin> set (int_str i)" if "\<not> is_digit c" "c \<noteq> CHR ''-''" for c
    using that dec_str_no by (auto simp: int_str_def)
  have "big_int (int_str i) = Some i"
    unfolding big_int_def strip_int_str Let_def
    using dec_str_no [OF not_digit(1), of "nat \<bar>i\<bar>"]
    by (auto simp: digits_val_dec_str int_str_def)
  then show ?thesis
    using no not_digit by (simp add: enc_number_def numberSyntax_int_str)
qed

lemma sort_key_map_snd:
  "sort_key fst (map (\<lambda>(k, v). (k, f v)) fs) = map (\<lambda>(k, v). (k, f v)) (sort_key fst fs)"
proof -
  have ins: "insort_key fst (k, f v) (map (\<lambda>(k, v). (k, f v)) xs) = map (\<lambda>(k, v). (k, f v)) (insort_key fst (k, v) xs)"
    for k v xs by (induction xs) auto
  show ?thesis by (induction fs) (auto simp: ins)
qed

lemma enc_numbers:
  "plain v \<Longrightarrow> enc_value pf opt hops depth (numbers v) = enc_value pf opt hops depth v"
  "list_all plain vs \<Longrightarrow> enc_items pf opt hops depth first (map numbers vs) = enc_items pf opt hops depth first vs"
  "list_all (\<lambda>(k, v). plain v) fs \<Longrightarrow>
     enc_fields pf opt hops depth first (map (\<lambda>(k, v). (k, numbers v)) fs) = enc_fields pf opt hops depth first fs"
proof (induction pf opt hops depth v and pf opt hops depth first vs and pf opt hops depth first fs
    rule: enc_value_enc_items_enc_fields.induct)
  case (8 pf opt hops depth fs)
  have "list_all (\<lambda>(k, v). plain v) (sort_key fst fs)"
    using 8(2) by (auto simp: list_all_iff)
  then show ?case
    using 8(1) by (auto simp: sort_key_map_snd)
qed (auto simp: enc_int_str)

lemma Canonical_numbers: "plain v \<Longrightarrow> Canonical pf (numbers v) = Canonical pf v"
  by (simp add: Canonical_def Encode_def enc_numbers)

section \<open>Chunks\<close>

lemma bytes_reader_full:
  "snd (bytes_reader source x n) = None \<longleftrightarrow> 0 \<le> x \<and> n \<le> length source - nat x"
  "0 \<le> x \<Longrightarrow> fst (bytes_reader source x n) = take n (drop (nat x) source)"
  by (auto simp: bytes_reader_def Let_def)

declare verify_range.simps [simp del]

lemma verify_range_slice:
  "verify_range carved source off done \<longleftrightarrow>
     0 \<le> off + int done \<and> take (length carved - done) (drop (nat (off + int done)) source) = drop done carved"
proof (induction "length carved - done" arbitrary: "done" rule: less_induct)
  case less
  let ?have = "take verifyChunk (drop done carved)" and ?k = "nat (off + int done)"
  let ?rest = "length carved - done"
  show ?case
  proof (cases "0 \<le> off + int done")
    case False
    then show ?thesis
      by (subst verify_range.simps) (simp add: Let_def bytes_reader_full)
  next
    case k: True
    have ok: "(snd (bytes_reader source (off + int done) (length ?have)) \<noteq> None \<or>
        fst (bytes_reader source (off + int done) (length ?have)) \<noteq> ?have) \<longleftrightarrow>
        take (length ?have) (drop ?k source) \<noteq> ?have"
      using k by (auto simp: bytes_reader_full) (metis length_drop length_take min.absorb_iff2 min.commute)
    show ?thesis
    proof (cases "length ?have < verifyChunk")
      case True
      then have "?have = drop done carved" by simp
      then show ?thesis
        unfolding verify_range.simps [of carved source off "done"] Let_def ok using True k by auto
    next
      case False
      then have big: "verifyChunk \<le> ?rest" by simp
      have pos: "0 < verifyChunk" by (simp add: verifyChunk_def)
      have IH: "verify_range carved source off (done + verifyChunk) \<longleftrightarrow>
          take (?rest - verifyChunk) (drop (?k + verifyChunk) source) = drop (done + verifyChunk) carved"
      proof -
        have at: "nat (off + int (done + verifyChunk)) = ?k + verifyChunk" using k by simp
        have "length carved - (done + verifyChunk) < ?rest" using big pos by simp
        from less.hyps [OF this] show ?thesis unfolding at using k big by simp
      qed
      have split: "take ?rest (drop ?k source) =
          take verifyChunk (drop ?k source) @ take (?rest - verifyChunk) (drop (?k + verifyChunk) source)"
      proof -
        have r: "?rest = verifyChunk + (?rest - verifyChunk)" using big by simp
        show ?thesis by (subst r, subst take_add) (simp add: add.commute)
      qed
      have carved: "drop done carved = ?have @ drop (done + verifyChunk) carved"
        by (metis append_take_drop_id drop_drop add.commute)
      have len: "length ?have = verifyChunk" using big by simp
      have "take ?rest (drop ?k source) = drop done carved \<longleftrightarrow>
          take verifyChunk (drop ?k source) = ?have \<and>
          take (?rest - verifyChunk) (drop (?k + verifyChunk) source) = drop (done + verifyChunk) carved"
        (is "?l \<longleftrightarrow> ?r")
      proof
        assume ?l
        then have "length source - ?k \<ge> ?rest"
          by (metis length_drop length_take min.absorb_iff2 min.commute)
        then have "length (take verifyChunk (drop ?k source)) = length ?have" using big by simp
        then show ?r using \<open>?l\<close> by (subst (asm) split, subst (asm) carved) simp
      next
        assume ?r
        then show ?l by (subst split, subst carved) simp
      qed
      then show ?thesis
        unfolding verify_range.simps [of carved source off "done"] Let_def ok IH using False k len by auto
    qed
  qed
qed


section \<open>What the parent has checked when it publishes\<close>

definition input_name :: bytes where "input_name = asc ''input.bin''"

text \<open>A carved file of the tree is the range of the input its record says.\<close>

definition carve_holds :: "hasher \<Rightarrow> stage \<Rightarrow> bytes \<Rightarrow> carveRecord \<Rightarrow> bool" where
  "carve_holds sha tree source c \<longleftrightarrow>
     0 \<le> cr_offset c \<and> 1 \<le> cr_size c \<and> cr_offset c + cr_size c \<le> int (length source) \<and>
     cr_path c = carvePath (cr_offset c) (cr_kind c) \<and>
     (\<exists>n. map_of tree (cr_path c) = Some n \<and> nd_kind n = Regular \<and>
        nd_data n = bslice source (nat (cr_offset c)) (nat (cr_offset c + cr_size c)) \<and>
        cr_sha c = sha_text sha (nd_data n))"

lemma openNoFollow_Ok: "openNoFollow tree p = Ok d \<longleftrightarrow> (\<exists>n. map_of tree p = Some n \<and> nd_kind n = Regular \<and> nd_data n = d)"
  by (auto simp: openNoFollow_def split: option.splits)

lemma verifyCarve_holds:
  assumes "verifyCarve sha tree c = Ok ()" and "1 \<le> cr_size c" and "cr_path c = carvePath (cr_offset c) (cr_kind c)"
  shows "\<exists>source. openNoFollow tree input_name = Ok source \<and> carve_holds sha tree source c"
proof -
  obtain n source where n: "map_of tree (cr_path c) = Some n" "nd_kind n = Regular"
    and source: "openNoFollow tree input_name = Ok source"
    and v: "verify_range (nd_data n) source (cr_offset c) 0"
    and id: "int (length (nd_data n)) = cr_size c" "sha_text sha (nd_data n) = cr_sha c"
    using assms(1) by (auto simp: verifyCarve_def andthen_Ok_iff openNoFollow_Ok input_name_def split: if_splits)
  from v have off: "0 \<le> cr_offset c" and eq: "take (length (nd_data n)) (drop (nat (cr_offset c)) source) = nd_data n"
    by (simp_all add: verify_range_slice)
  have "length (nd_data n) = min (length (nd_data n)) (length source - nat (cr_offset c))"
    using eq by (metis length_drop length_take min.commute)
  then have "length (nd_data n) \<le> length source - nat (cr_offset c)" by simp
  then have "cr_offset c + cr_size c \<le> int (length source)" using id assms(2) off by linarith
  moreover have "nd_data n = bslice source (nat (cr_offset c)) (nat (cr_offset c + cr_size c))"
    using eq id off by (simp add: bslice_def nat_add_distrib flip: id(1))
  ultimately have "carve_holds sha tree source c"
    using n id off assms by (auto simp: carve_holds_def)
  with source show ?thesis by blast
qed

lemma check_records_holds:
  "check_records sha tree cs = Ok () \<Longrightarrow> openNoFollow tree input_name = Ok source \<Longrightarrow>
     list_all (carve_holds sha tree source) cs"
proof (induction cs)
  case (Cons c cs)
  then have c: "1 \<le> cr_size c" "cr_path c = carvePath (cr_offset c) (cr_kind c)"
    and v: "verifyCarve sha tree c = Ok ()" "check_records sha tree cs = Ok ()"
    by (auto simp: andthen_Ok_iff split: if_splits)
  show ?case using verifyCarve_holds [OF v(1) c] Cons.IH [OF v(2) Cons.prems(2)] Cons.prems(2) by auto
qed simp

text \<open>Ownership and modes of every entry.\<close>

definition owned :: "nat \<Rightarrow> tree_node \<Rightarrow> bool" where
  "owned euid n \<longleftrightarrow>
     nd_uid n = Some euid \<and> \<not> nd_special n \<and>
     (nd_kind n = Directory \<and> nd_perm n = 0x1C0 \<or> nd_kind n = Regular \<and> nd_perm n = 0x100 \<and> nd_nlink n = 1)"

definition regular_paths :: "stage \<Rightarrow> bytes list" where
  "regular_paths tree = map fst (filter (\<lambda>(p, n). nd_kind n = Regular) tree)"

lemma check_nodes_iff:
  "check_nodes euid tree = Ok seen \<longleftrightarrow> list_all (\<lambda>(p, n). owned euid n) tree \<and> seen = regular_paths tree"
proof (induction euid tree arbitrary: seen rule: check_nodes.induct)
  case (2 euid path n rest)
  then show ?case
    by (cases "nd_kind n") (auto simp: Let_def owned_def regular_paths_def andthen_Ok_iff)
qed (auto simp: regular_paths_def)

lemma validateTree_Ok:
  "validateTree pf sha tree report euid = Ok published \<longleftrightarrow>
    (\<exists>records canonical. carveRecords report = Ok records \<and> records_sorted records \<and>
       check_records sha tree records = Ok () \<and> list_all (\<lambda>(p, n). owned euid n) tree \<and>
       Canonical pf (JMap report) = Ok canonical \<and>
       set (regular_paths tree) = set (report_name # input_name # map cr_path records) \<and>
       openNoFollow tree report_name = Ok canonical \<and>
       published = filter (\<lambda>(p, n). p \<noteq> input_name) tree)"
  unfolding validateTree_def input_name_def
  by (cases "Canonical pf (JMap report)") (auto simp: andthen_Ok_iff check_nodes_iff split: if_splits)

lemma carvePath_ne: "carvePath off kind \<noteq> input_name" "carvePath off kind \<noteq> report_name"
  by (simp_all add: carvePath_def input_name_def report_name_def schema_def asc_def)

lemma map_of_published: "p \<noteq> input_name \<Longrightarrow> map_of (filter (\<lambda>(p, n). p \<noteq> input_name) tree) p = map_of tree p"
  by (induction tree) auto

lemma publish_sound:
  assumes ok: "validateTree pf sha tree report euid = Ok published" and src: "openNoFollow tree input_name = Ok source"
  shows "\<exists>records canonical. carveRecords report = Ok records \<and> records_sorted records \<and>
    list_all (carve_holds sha published source) records \<and> list_all (\<lambda>(p, n). owned euid n) published \<and>
    set (regular_paths published) = set (report_name # map cr_path records) \<and>
    Canonical pf (JMap report) = Ok canonical \<and> openNoFollow published report_name = Ok canonical"
proof -
  obtain records canonical where r: "carveRecords report = Ok records" "records_sorted records"
      "check_records sha tree records = Ok ()" "list_all (\<lambda>(p, n). owned euid n) tree"
      "Canonical pf (JMap report) = Ok canonical"
      "set (regular_paths tree) = set (report_name # input_name # map cr_path records)"
      "openNoFollow tree report_name = Ok canonical"
    and pub: "published = filter (\<lambda>(p, n). p \<noteq> input_name) tree"
    using ok by (auto simp: validateTree_Ok)
  have holds: "list_all (carve_holds sha tree source) records"
    using check_records_holds [OF r(3) src] .
  have path: "cr_path c \<noteq> input_name" if "c \<in> set records" for c
    using holds that carvePath_ne by (auto simp: list_all_iff carve_holds_def)
  have rn: "report_name \<noteq> input_name"
    by (simp add: input_name_def report_name_def schema_def asc_def)
  have "list_all (carve_holds sha published source) records"
    using holds path by (auto simp: list_all_iff carve_holds_def pub map_of_published)
  moreover have "list_all (\<lambda>(p, n). owned euid n) published"
    using r(4) by (auto simp: pub list_all_iff)
  moreover have "set (regular_paths published) = set (regular_paths tree) - {input_name}"
    by (auto simp: pub regular_paths_def)
  then have "set (regular_paths published) = set (report_name # map cr_path records)"
    using r(6) path rn by auto
  moreover have "openNoFollow published report_name = Ok canonical"
    using r(7) rn by (simp add: openNoFollow_Ok pub map_of_published)
  ultimately show ?thesis using r by blast
qed

section \<open>The worker's stage\<close>

lemma writeExclusive_Ok: "writeExclusive euid tree p d = Ok t \<longleftrightarrow> map_of tree p = None \<and> t = tree @ [(p, own_file euid d)]"
  by (auto simp: writeExclusive_def)

definition carve_entry :: "hasher \<Rightarrow> nat \<Rightarrow> bytes \<Rightarrow> candidate \<Rightarrow> bytes \<times> tree_node" where
  "carve_entry sha euid data item =
     (cr_path (carve_record sha data item), own_file euid (bslice data (cand_start item) (cand_end item)))"

lemma writeCarves_Ok:
  "writeCarves sha euid data items tree = Ok (recs, tree') \<Longrightarrow> distinct (map fst tree) \<Longrightarrow>
     recs = map (carve_record sha data) items \<and> tree' = tree @ map (carve_entry sha euid data) items \<and>
     distinct (map fst tree')"
proof (induction items arbitrary: tree recs tree')
  case (Cons item items)
  let ?t = "tree @ [carve_entry sha euid data item]"
  obtain recs' where fresh: "map_of tree (cr_path (carve_record sha data item)) = None"
    and w: "writeCarves sha euid data items ?t = Ok (recs', tree')" and r: "recs = carve_record sha data item # recs'"
    using Cons.prems(1) by (auto simp: Let_def andthen_Ok_iff writeExclusive_Ok carve_entry_def)
  have "distinct (map fst ?t)"
    using Cons.prems(2) fresh by (auto simp: carve_entry_def map_of_eq_None_iff)
  note IH = Cons.IH [OF w this]
  then have "distinct (map fst tree')" by blast
  moreover have "tree' = tree @ map (carve_entry sha euid data) (item # items)" using IH by simp
  moreover have "recs = map (carve_record sha data) (item # items)" using IH r by simp
  ultimately show ?case by blast
qed auto

lemma map_of_unique: "distinct (map fst xs) \<Longrightarrow> (k, v) \<in> set xs \<Longrightarrow> map_of xs k = Some v"
  by simp

lemma parse_int_str: "\<bar>i\<bar> < 2 ^ 63 \<Longrightarrow> parse_int64 (int_str i) = Some i"
proof -
  assume i: "\<bar>i\<bar> < 2 ^ 63"
  have no: "CHR ''-'' \<notin> set (dec_str n)" "CHR ''+'' \<notin> set (dec_str n)" for n
    using dec_str_no not_digit by auto
  show ?thesis
  proof (cases "i < 0")
    case True
    then show ?thesis using i
      by (simp add: parse_int64_def int_str_def digits_val_dec_str nat_le_iff)
  next
    case False
    then have "nat i < 2 ^ 63" using i by (simp add: nat_less_iff)
    obtain a ds where d: "dec_str (nat i) = a # ds" using dec_str_nonempty [of "nat i"] by (cases "dec_str (nat i)") auto
    have v: "digits_val 10 0 (a # ds) = Some (nat i)" using digits_val_dec_str [of "nat i"] unfolding d .
    have a: "a \<noteq> CHR ''-''" "a \<noteq> CHR ''+''" using no [of "nat i"] unfolding d by auto
    have "int_str i = a # ds" using False d by (simp add: int_str_def)
    then show ?thesis using a v \<open>nat i < 2 ^ 63\<close> False by (simp add: parse_int64_def del: digits_val.simps)
  qed
qed

lemma asc_eq: "asc s = asc t \<longleftrightarrow> s = t"
proof -
  have c: "(word_of_nat (of_char c) :: byte) = word_of_nat (of_char d) \<longleftrightarrow> c = d" for c d :: char
  proof
    assume "(word_of_nat (of_char c) :: byte) = word_of_nat (of_char d)"
    then have "unat (word_of_nat (of_char c) :: byte) = unat (word_of_nat (of_char d) :: byte)" by simp
    moreover have "(of_char c :: nat) < 256" "(of_char d :: nat) < 256" by (simp_all add: of_char_def)
    ultimately show "c = d" by simp
  qed simp
  have "inj (\<lambda>c :: char. word_of_nat (of_char c) :: byte)" by (rule injI) (simp add: c)
  then show ?thesis unfolding asc_def by (simp add: inj_map_eq_map)
qed

section \<open>The parent accepts an honest worker\<close>

lemma read_record_numbers:
  assumes "\<bar>cr_offset c\<bar> < 2 ^ 63" "\<bar>cr_size c\<bar> < 2 ^ 63"
  shows "read_record (numbers (carve_object c)) = Ok c"
  using assms by (simp add: carve_object_def read_record_def integer_def text_of_def parse_int_str asc_eq)

lemma read_records_numbers:
  "list_all (\<lambda>c. \<bar>cr_offset c\<bar> < 2 ^ 63 \<and> \<bar>cr_size c\<bar> < 2 ^ 63) cs \<Longrightarrow>
     read_records (map numbers (map carve_object cs)) = Ok cs"
  by (induction cs) (simp_all add: read_record_numbers del: numbers.simps)

definition numbered :: "(bytes \<times> jval) list \<Rightarrow> (bytes \<times> jval) list" where
  "numbered fs = map (\<lambda>(k, v). (k, numbers v)) fs"

lemma numbered_report:
  "map_of (numbered (worker_report c want recs)) (asc ''schema'') = Some (JStr schema)"
  "field_of (numbered (worker_report c want recs)) (asc ''input'') = numbers (input_object want)"
  "field_of (numbered (worker_report c want recs)) (asc ''caps'') = numbers (capsObject c)"
  "field_of (numbered (worker_report c want recs)) (asc ''isolation'') = numbers isolation"
  "field_of (numbered (worker_report c want recs)) (asc ''isolation_artifact'') =
     numbers (artifact_object (bwrapPath c) (bwrapSHA c))"
  "map_of (numbered (worker_report c want recs)) (asc ''carves'') = Some (JList (map numbers (map carve_object recs)))"
  by (simp_all add: numbered_def worker_report_def field_of_def asc_eq)

lemma report_keys: "sort (map fst (numbered (worker_report c want recs))) = reportKeys"
proof -
  have "map fst (numbered (worker_report c want recs)) =
      map asc [''schema'', ''input'', ''carves'', ''caps'', ''isolation'', ''isolation_artifact'', ''limitations'']"
    by (simp add: numbered_def worker_report_def)
  then show ?thesis unfolding reportKeys_def by (simp only:) code_simp
qed

lemma worker_report_plain:
  assumes "Canonical pf (JMap (worker_report c want recs)) = Ok b"
  shows "plain (JMap (worker_report c want recs)) \<and> plain (input_object want) \<and>
    plain (artifact_object (bwrapPath c) (bwrapSHA c)) \<and> plain (capsObject c) \<and> plain isolation"
proof -
  have "is_ok (enc_value pf \<lparr>Indent = 0, ASCII = True\<rparr> 0 0 (JMap (worker_report c want recs)))"
    using arg_cong [OF assms, of is_ok] unfolding Canonical_def Encode_def is_ok_andthen_Ok by simp
  then have e: "encodable pf (JMap (worker_report c want recs))" unfolding enc_ok_iff by blast
  then have r: "list_all (encodable pf) (map carve_object recs)" "encodable pf (input_object want)"
      "encodable pf (artifact_object (bwrapPath c) (bwrapSHA c))"
    by (simp_all add: worker_report_def)
  have rec: "plain (carve_object x)" if "encodable pf (carve_object x)" for x
    using that by (simp add: carve_object_def asc_eq)
  have "plain (JList (map carve_object recs))"
    using r(1) rec by (auto simp: list_all_iff)
  moreover have "plain (input_object want)" using r(2) by (simp add: input_object_def asc_eq)
  moreover have "plain (artifact_object (bwrapPath c) (bwrapSHA c))" using r(3) by (simp add: artifact_object_def asc_eq)
  moreover have "plain (capsObject c)" "plain isolation" "plain limitations"
    by (simp_all add: capsObject_def isolation_def limitations_def asc_eq asc_valid)
  moreover have "utf8_valid schema" by (simp add: schema_def asc_valid)
  ultimately show ?thesis
    by (simp add: worker_report_def asc_eq asc_valid)
qed

lemma same_encoding_numbers: "plain v \<Longrightarrow> is_ok (Canonical pf v) \<Longrightarrow> same_encoding pf (numbers v) v"
  by (auto simp: same_encoding_def Canonical_numbers is_ok_iff)

lemma kinds_ordered: "kindSquashFS < kindUImage" "asc kindSquashFS < asc kindUImage"
  by code_simp+

definition kind_ok :: "candidate \<Rightarrow> bool" where
  "kind_ok c \<longleftrightarrow> cand_kind c = kindUImage \<or> cand_kind c = kindSquashFS"

lemma record_not_less:
  assumes "kind_ok a" "kind_ok b" "a \<le> b"
  shows "\<not> record_less (carve_record sha data b) (carve_record sha data a)"
proof -
  have no: "\<not> kindUImage < kindSquashFS" "\<not> asc kindUImage < asc kindSquashFS"
    using kinds_ordered by (auto dest: less_asym)
  have ne: "kindUImage \<noteq> kindSquashFS" using kinds_ordered(1) by auto
  have fields: "cr_offset (carve_record sha data x) = int (cand_start x)" "cr_kind (carve_record sha data x) = asc (cand_kind x)"
      "cr_size (carve_record sha data x) = int (cand_end x) - int (cand_start x)" for x
    by (simp_all add: carve_record_def)
  have "cand_start a < cand_start b \<or> cand_start a = cand_start b \<and>
      (cand_kind a = kindSquashFS \<and> cand_kind b = kindUImage \<or> cand_kind a = cand_kind b \<and> cand_end a \<le> cand_end b)"
    using assms no unfolding less_eq_candidate_def candidate_le_def kind_ok_def by auto
  then show ?thesis
    unfolding record_less_def fields using no(2) ne by (elim disjE conjE) (simp_all add: asc_eq)
qed

lemma records_sorted_map:
  "sorted cs \<Longrightarrow> list_all kind_ok cs \<Longrightarrow> records_sorted (map (carve_record sha data) cs)"
  by (induction cs rule: induct_list012) (auto simp: record_not_less)

lemma carvable_kinds: "list_all kind_ok (carvable data)"
  by (auto simp: list_all_iff carvable_def kind_ok_def)

lemma check_record_honest:
  assumes tree: "distinct (map fst tree)" "carve_entry sha euid data item \<in> set tree" "(input_name, meta) \<in> set tree"
    and meta: "nd_kind meta = Regular" "nd_data meta = data"
    and item: "cand_start item < cand_end item" "cand_end item \<le> length data"
  shows "verifyCarve sha tree (carve_record sha data item) = Ok ()"
proof -
  let ?d = "bslice data (cand_start item) (cand_end item)"
  have "openNoFollow tree (cr_path (carve_record sha data item)) = Ok ?d"
    using map_of_unique [OF tree(1)] tree(2) by (auto simp: openNoFollow_Ok carve_entry_def own_file_def)
  moreover have "openNoFollow tree (asc ''input.bin'') = Ok data"
    using map_of_unique [OF tree(1,3)] meta by (auto simp: openNoFollow_Ok input_name_def)
  moreover have len: "length ?d = cand_end item - cand_start item" using item by simp
  moreover have "verify_range ?d data (int (cand_start item)) 0"
    unfolding verify_range_slice len by (simp add: bslice_def)
  ultimately show ?thesis
    using item by (simp add: verifyCarve_def carve_record_def of_nat_diff)
qed

lemma check_records_honest:
  assumes "\<And>item. item \<in> set items \<Longrightarrow> verifyCarve sha tree (carve_record sha data item) = Ok ()"
    and "list_all kind_ok items" and "\<And>item. item \<in> set items \<Longrightarrow> cand_start item < cand_end item"
  shows "check_records sha tree (map (carve_record sha data) items) = Ok ()"
  using assms
proof (induction items)
  case (Cons item items)
  let ?c = "carve_record sha data item"
  have "cr_kind ?c = asc kindUImage \<or> cr_kind ?c = asc kindSquashFS" "cr_path ?c = carvePath (cr_offset ?c) (cr_kind ?c)"
    using Cons.prems(2) by (auto simp: carve_record_def kind_ok_def)
  moreover have "cand_start item < cand_end item" using Cons.prems(3) by simp
  then have "\<not> cr_size ?c < 1" by (simp add: carve_record_def)
  moreover have "verifyCarve sha tree ?c = Ok ()" using Cons.prems(1) by simp
  moreover have "check_records sha tree (map (carve_record sha data) items) = Ok ()"
    using Cons by simp
  ultimately show ?case by simp
qed simp

lemma findCandidates_Ok:
  assumes "findCandidates (bytes_reader data) (length data) limit = Ok cs"
  shows "cs = sort (carvable data)"
proof -
  have le: "c \<in> set (carvable data) \<Longrightarrow> cand_start c \<le> cand_end c" for c
    using carvable_ranges [of c data] by simp
  show ?thesis
    using add_all_result [of "carvable data" "no_candidates limit", OF le] assms
    by (auto simp: findCandidates_collects no_candidates_def andthen_Ok_iff split: if_splits)
qed

lemma plain_encodes: "is_ok (Canonical pf (JMap (worker_report c want recs))) \<Longrightarrow>
    is_ok (Canonical pf (input_object want)) \<and> is_ok (Canonical pf (capsObject c)) \<and> is_ok (Canonical pf isolation) \<and>
    is_ok (Canonical pf (artifact_object (bwrapPath c) (bwrapSHA c)))"
  unfolding Canonical_def Encode_def is_ok_andthen_Ok enc_ok_iff
  by (simp add: worker_report_def input_object_def capsObject_def isolation_def artifact_object_def MaxDepth_def asc_valid)

lemma runWorker_Ok:
  assumes "runWorker pf sha c euid rec meta = Ok tree"
  obtains recs tree1 payload where "stagedFile meta euid"
    and "writeCarves sha euid (nd_data meta) (sort (carvable (nd_data meta)))
           [(input_name, meta), (asc ''carves'', own_dir euid)] = Ok (recs, tree1)"
    and "Canonical pf (JMap (worker_report c rec recs)) = Ok payload"
    and "writeExclusive euid tree1 report_name payload = Ok tree"
proof -
  let ?data = "nd_data meta"
  let ?found = "findCandidates (bytes_reader ?data) (length ?data) \<lparr>cap_carves = maxCarves c, cap_files = maxFiles c, cap_output = maxOutput c\<rparr>"
  have staged: "stagedFile meta euid" using assms by (auto simp: runWorker_def split: if_splits)
  from assms obtain item items where f: "?found = Ok (item # items)"
    by (cases ?found) (auto simp: runWorker_def Let_def split: if_splits list.splits)
  then have "andthen (writeCarves sha euid ?data (item # items) [(asc ''input.bin'', meta), (asc ''carves'', own_dir euid)])
      (\<lambda>(recs, tree).
         case Canonical pf (JMap (worker_report c rec recs)) of
           Panic \<Rightarrow> Panic | Fail e \<Rightarrow> Fail (ReportEncoding e)
         | Ok payload \<Rightarrow> writeExclusive euid tree report_name payload) = Ok tree"
    using assms by (simp add: runWorker_def Let_def del: writeCarves.simps split: if_splits)
  then obtain recs tree1 where w: "writeCarves sha euid ?data (item # items) [(asc ''input.bin'', meta), (asc ''carves'', own_dir euid)] = Ok (recs, tree1)"
    and c: "(case Canonical pf (JMap (worker_report c rec recs)) of
           Panic \<Rightarrow> Panic | Fail e \<Rightarrow> Fail (ReportEncoding e)
         | Ok payload \<Rightarrow> writeExclusive euid tree1 report_name payload) = Ok tree"
    unfolding andthen_Ok_iff by auto
  then show thesis
    using that [OF staged] findCandidates_Ok [OF f]
    by (cases "Canonical pf (JMap (worker_report c rec recs))") (auto simp: input_name_def)
qed

lemma accepts_honest:
  assumes run: "runWorker pf sha c euid rec meta = Ok tree"
    and nlink: "nd_nlink meta = 1" and size: "length (nd_data meta) < 2 ^ 63"
    and decode: "\<And>report b. report = worker_report c rec (map (carve_record sha (nd_data meta)) (sort (carvable (nd_data meta)))) \<Longrightarrow>
      Canonical pf (JMap report) = Ok b \<Longrightarrow> decode b = Some (numbered report)"
  shows "parent_accepts pf sha decode c euid rec (bwrapPath c) (bwrapSHA c) tree =
           Ok (filter (\<lambda>(p, n). p \<noteq> input_name) tree) \<and>
         (\<exists>payload. tree = [(input_name, meta), (asc ''carves'', own_dir euid)] @
           map (carve_entry sha euid (nd_data meta)) (sort (carvable (nd_data meta))) @
           [(report_name, own_file euid payload)])"
proof -
  let ?data = "nd_data meta" let ?items = "sort (carvable (nd_data meta))"
  let ?recs = "map (carve_record sha ?data) ?items" let ?report = "worker_report c rec ?recs"
  let ?tree0 = "[(input_name, meta), (asc ''carves'', own_dir euid)]"
  obtain recs tree1 payload where staged: "stagedFile meta euid"
    and w: "writeCarves sha euid ?data ?items ?tree0 = Ok (recs, tree1)"
    and pay0: "Canonical pf (JMap (worker_report c rec recs)) = Ok payload"
    and t: "writeExclusive euid tree1 report_name payload = Ok tree"
    using runWorker_Ok [OF run] .
  have "distinct (map fst ?tree0)" by (simp add: input_name_def asc_eq)
  from writeCarves_Ok [OF w this] have recs: "recs = ?recs"
    and t1: "tree1 = ?tree0 @ map (carve_entry sha euid ?data) ?items" and d1: "distinct (map fst tree1)"
    by blast+
  have pay: "Canonical pf (JMap ?report) = Ok payload" using pay0 recs by simp
  have tree: "tree = tree1 @ [(report_name, own_file euid payload)]" and dt: "distinct (map fst tree)"
    using t d1 by (auto simp: writeExclusive_Ok map_of_eq_None_iff)
  have rep: "map_of tree report_name = Some (own_file euid payload)"
    by (rule map_of_unique [OF dt]) (simp add: tree)
  have pl: "plain (JMap ?report)" "plain (input_object rec)" "plain (artifact_object (bwrapPath c) (bwrapSHA c))"
      "plain (capsObject c)" "plain isolation"
    using worker_report_plain [OF pay] by auto
  have dec: "decode payload = Some (numbered ?report)" by (rule decode [OF refl pay])
  have "is_ok (Canonical pf (JMap ?report))" using pay by simp
  from plain_encodes [OF this] pl(2-5) have enc: "same_encoding pf (numbers (input_object rec)) (input_object rec)"
      "same_encoding pf (numbers (capsObject c)) (capsObject c)" "same_encoding pf (numbers isolation) isolation"
      "same_encoding pf (numbers (artifact_object (bwrapPath c) (bwrapSHA c))) (artifact_object (bwrapPath c) (bwrapSHA c))"
    by (simp_all add: same_encoding_numbers)
  have contract: "checkContract pf (numbered ?report)
      [(asc ''input'', input_object rec), (asc ''caps'', capsObject c), (asc ''isolation'', isolation),
       (asc ''isolation_artifact'', artifact_object (bwrapPath c) (bwrapSHA c))] = Ok ()"
    unfolding checkContract_def
    using enc by (simp add: report_keys numbered_report)
  have rng: "cand_start x < cand_end x" "cand_end x \<le> length ?data" if "x \<in> set ?items" for x
    using carvable_ranges [of x ?data] that by simp_all
  have "carveRecords (numbered ?report) = Ok ?recs"
  proof -
    have "list_all (\<lambda>c. \<bar>cr_offset c\<bar> < 2 ^ 63 \<and> \<bar>cr_size c\<bar> < 2 ^ 63) ?recs"
      using rng size by (fastforce simp: list_all_iff carve_record_def)
    then show ?thesis unfolding carveRecords_def numbered_report by (simp only: option.case jval.case read_records_numbers)
  qed
  moreover have "records_sorted ?recs"
    using carvable_kinds [of ?data] by (intro records_sorted_map) (simp_all add: list_all_iff)
  moreover have "check_records sha tree ?recs = Ok ()"
  proof (rule check_records_honest)
    fix item assume i: "item \<in> set ?items"
    show "verifyCarve sha tree (carve_record sha ?data item) = Ok ()"
      using staged i rng [OF i]
      by (intro check_record_honest [OF dt]) (auto simp: tree t1 stagedFile_def)
  qed (use carvable_kinds [of ?data] rng in \<open>simp_all add: list_all_iff\<close>)
  moreover have "list_all (\<lambda>(p, n). owned euid n) tree"
    using staged nlink by (auto simp: tree t1 list_all_iff carve_entry_def own_file_def own_dir_def owned_def stagedFile_def)
  moreover have "set (regular_paths tree) = set (report_name # input_name # map cr_path ?recs)"
    using staged by (auto simp: tree t1 regular_paths_def carve_entry_def own_file_def own_dir_def stagedFile_def image_iff)
  moreover have "openNoFollow tree report_name = Ok payload" using rep by (simp add: openNoFollow_Ok own_file_def)
  moreover have "Canonical pf (JMap (numbered ?report)) = Ok payload"
    using Canonical_numbers [OF pl(1)] pay by (simp add: numbered_def)
  ultimately have "validateTree pf sha tree (numbered ?report) euid = Ok (filter (\<lambda>(p, n). p \<noteq> input_name) tree)"
    unfolding validateTree_Ok by blast
  then have "parent_accepts pf sha decode c euid rec (bwrapPath c) (bwrapSHA c) tree =
      Ok (filter (\<lambda>(p, n). p \<noteq> input_name) tree)"
    unfolding parent_accepts_def rep using dec contract by (simp add: stagedFile_def own_file_def)
  then show ?thesis using tree t1 by auto
qed

section \<open>A staged image\<close>

text \<open>A superblock of 97 bytes whose tables stand at 96.\<close>

definition demo_squash :: bytes where
  "demo_squash =
     [104, 115, 113, 115] @ [1, 0, 0, 0] @ [0, 0, 0, 0] @ [0, 0x10, 0, 0] @ [0, 0, 0, 0] @ [1, 0] @ [12, 0] @ [0, 0] @
     [1, 0] @ [4, 0] @ [0, 0] @ replicate 8 0 @ [97, 0, 0, 0, 0, 0, 0, 0] @ [96, 0, 0, 0, 0, 0, 0, 0] @ replicate 8 0xFF @
     [96, 0, 0, 0, 0, 0, 0, 0] @ [96, 0, 0, 0, 0, 0, 0, 0] @ replicate 8 0xFF @ replicate 8 0xFF @ [0]"

definition demo_config :: carve_config where
  "demo_config =
     \<lparr>maxInput = 1000, maxOutput = 1000, maxCarves = 16, maxFiles = 17, timeout_secs = 30, maxProcs = 4, maxMemory = 1000,
      bwrapPath = [47], bwrapSHA = [48]\<rparr>"

definition demo_sha :: hasher where "demo_sha data = asc (dec_str (length data))"

definition demo_record :: inputRecord where
  "demo_record = \<lparr>ir_path = input_name, ir_size = 97, ir_sha = sha_text demo_sha demo_squash\<rparr>"

lemma demo_candidates:
  "findCandidates (bytes_reader demo_squash) (length demo_squash) \<lparr>cap_carves = 16, cap_files = 17, cap_output = 1000\<rparr> =
     Ok [Candidate 0 97 kindSquashFS]"
  by code_simp

lemma demo_lengths: "length demo_squash = 97" "demo_squash \<noteq> []"
  by code_simp+

definition demo_recs :: "carveRecord list" where
  "demo_recs = [carve_record demo_sha demo_squash (Candidate 0 97 kindSquashFS)]"

lemma demo_encodes: "\<exists>b. Canonical pf (JMap (worker_report demo_config demo_record demo_recs)) = Ok b"
proof -
  have s: "utf8_valid (asc ''0'' @ b) \<longleftrightarrow> utf8_valid b" "utf8_valid [47]" "utf8_valid [48]" "utf8_valid []" for b
    using asc_valid [of "''0''"] asc_valid [of "''/''"] asc_valid [of "[]"] utf8_valid_append [of "asc ''0''" b] by (simp_all add: utf8_valid_append asc_def)
  have sha: "utf8_valid (sha_text demo_sha d)" for d
    by (simp add: sha_text_def demo_sha_def utf8_valid_append asc_valid dec_str_printable)
  have path: "utf8_valid (carvePath 0 (asc kindSquashFS))"
  proof -
    have "carvePath 0 (asc kindSquashFS) = asc ''carves/00000000-squashfs-v4-le.bin''" by code_simp
    then show ?thesis by (simp add: asc_valid)
  qed
  have "is_ok (Canonical pf (JMap (worker_report demo_config demo_record demo_recs)))"
    unfolding Canonical_def Encode_def is_ok_andthen_Ok enc_ok_iff
    using s sha path
    by (simp add: worker_report_def demo_recs_def carve_record_def carve_object_def input_object_def capsObject_def
        isolation_def artifact_object_def limitations_def demo_config_def demo_record_def MaxDepth_def asc_valid
        schema_def input_name_def kindSquashFS_def)
  then show ?thesis by (simp add: is_ok_iff)
qed

definition demo_meta :: tree_node where "demo_meta = own_file 7 demo_squash"

lemma demo_worker_run: "\<exists>tree. runWorker pf demo_sha demo_config 7 demo_record demo_meta = Ok tree"
proof -
  obtain b where b: "Canonical pf (JMap (worker_report demo_config demo_record demo_recs)) = Ok b"
    using demo_encodes by blast
  let ?item = "Candidate 0 97 kindSquashFS" let ?tree0 = "[(input_name, demo_meta), (asc ''carves'', own_dir 7)]"
  have names: "carvePath off kind \<noteq> input_name" "carvePath off kind \<noteq> asc ''carves''" "report_name \<noteq> input_name"
      "report_name \<noteq> asc ''carves''" "report_name \<noteq> carvePath off kind" for off kind
    by (simp_all add: carvePath_def input_name_def report_name_def schema_def asc_def)
  have w: "writeCarves demo_sha 7 demo_squash [?item] ?tree0 =
      Ok (demo_recs, ?tree0 @ [carve_entry demo_sha 7 demo_squash ?item])"
    using names by (simp add: Let_def writeExclusive_def demo_recs_def carve_entry_def carve_record_def)
  have cfg: "maxCarves demo_config = 16" "maxFiles demo_config = 17" "maxOutput demo_config = 1000"
      "ir_size demo_record = 97" "ir_sha demo_record = sha_text demo_sha demo_squash" "nd_data demo_meta = demo_squash"
      "stagedFile demo_meta 7"
    by (simp_all add: demo_config_def demo_record_def demo_meta_def own_file_def stagedFile_def)
  have fresh: "map_of (?tree0 @ [carve_entry demo_sha 7 demo_squash ?item]) report_name = None"
    using names by (auto simp: carve_entry_def carve_record_def)
  then show ?thesis
    using w [unfolded input_name_def] b fresh [unfolded input_name_def]
    by (simp add: runWorker_def Let_def cfg demo_candidates [unfolded demo_lengths] demo_lengths writeExclusive_def
        del: writeCarves.simps map_of.simps map_of_append)
qed

section \<open>Properties\<close>

lemma checkContract_Ok:
  "checkContract pf report want = Ok () \<Longrightarrow>
     sort (map fst report) = reportKeys \<and> list_all (\<lambda>(name, expected). same_encoding pf (field_of report name) expected) want"
  by (simp add: checkContract_def split: if_splits)

text \<open>
  C7. What the parent checks of the tree the sandbox left. Whatever that tree holds and whatever the report decodes to,
  what is published holds the report in canonical form and one file per listed range and no other file; every such file is
  byte for byte the range it claims of the \<open>input.bin\<close> of that tree and has the size and the digest recorded; the ranges are
  in order; every entry is the caller's, read-only and linked nowhere else; and the report names the identity the parent
  recorded when it staged the input, its caps, its isolation and its launcher. The parent does not measure \<open>input.bin\<close>
  again: that its bytes are still the staged ones is up to the sandbox.
\<close>

theorem carve_publishes_only_input_ranges:
  assumes "parent_accepts pf sha decode c euid rec bwrap digest tree = Ok published"
    and "openNoFollow tree input_name = Ok source"
  shows "\<exists>report records canonical.
    openNoFollow published report_name = Ok canonical \<and> decode canonical = Some report \<and>
    Canonical pf (JMap report) = Ok canonical \<and> carveRecords report = Ok records \<and> records_sorted records \<and>
    list_all (carve_holds sha published source) records \<and> list_all (\<lambda>(p, n). owned euid n) published \<and>
    set (regular_paths published) = set (report_name # map cr_path records) \<and>
    same_encoding pf (field_of report (asc ''input'')) (input_object rec) \<and>
    same_encoding pf (field_of report (asc ''caps'')) (capsObject c) \<and>
    same_encoding pf (field_of report (asc ''isolation'')) isolation \<and>
    same_encoding pf (field_of report (asc ''isolation_artifact'')) (artifact_object bwrap digest) \<and>
    sort (map fst report) = reportKeys"
proof -
  let ?want = "[(asc ''input'', input_object rec), (asc ''caps'', capsObject c), (asc ''isolation'', isolation),
    (asc ''isolation_artifact'', artifact_object bwrap digest)]"
  obtain n report where n: "map_of tree report_name = Some n" "stagedFile n euid" "decode (nd_data n) = Some report"
    and contract: "checkContract pf report ?want = Ok ()"
    and v: "validateTree pf sha tree report euid = Ok published"
    using assms(1) by (auto simp: parent_accepts_def andthen_Ok_iff split: option.splits if_splits)
  obtain records canonical where "carveRecords report = Ok records" "records_sorted records"
    "list_all (carve_holds sha published source) records" "list_all (\<lambda>(p, n). owned euid n) published"
    "set (regular_paths published) = set (report_name # map cr_path records)"
    and can: "Canonical pf (JMap report) = Ok canonical" and "openNoFollow published report_name = Ok canonical"
    using publish_sound [OF v assms(2)] by blast
  moreover have "openNoFollow tree report_name = Ok canonical"
    using v can by (auto simp: validateTree_Ok)
  then have "nd_data n = canonical" using n(1) by (simp add: openNoFollow_Ok)
  moreover have "sort (map fst report) = reportKeys \<and> list_all (\<lambda>(name, expected). same_encoding pf (field_of report name) expected) ?want"
    using checkContract_Ok [OF contract] .
  ultimately show ?thesis using n(3) by auto
qed

theorem carve_publishes_only_input_ranges_witness:
  "\<exists>published records. list_all (carve_holds demo_sha published demo_squash) records \<and>
     set (regular_paths published) = set (report_name # map cr_path records)"
proof -
  let ?pf = "\<lambda>_. None" let ?report = "worker_report demo_config demo_record (map (carve_record demo_sha demo_squash) (sort (carvable demo_squash)))"
  let ?decode = "\<lambda>_. Some (numbered ?report)"
  obtain tree where run: "runWorker ?pf demo_sha demo_config 7 demo_record demo_meta = Ok tree" using demo_worker_run by blast
  have meta: "nd_nlink demo_meta = 1" "nd_data demo_meta = demo_squash" "nd_kind demo_meta = Regular"
    by (simp_all add: demo_meta_def own_file_def)
  have acc: "parent_accepts ?pf demo_sha ?decode demo_config 7 demo_record (bwrapPath demo_config) (bwrapSHA demo_config) tree =
      Ok (filter (\<lambda>(p, n). p \<noteq> input_name) tree)"
    and tree: "\<exists>rest. tree = (input_name, demo_meta) # rest"
    using accepts_honest [OF run meta(1), of ?decode] by (auto simp: meta demo_lengths)
  have "openNoFollow tree input_name = Ok demo_squash"
    using tree meta by (auto simp: openNoFollow_Ok)
  from carve_publishes_only_input_ranges [OF acc this] show ?thesis by blast
qed

text \<open>
  C26. And it accepts what an honest worker leaves: whenever the worker succeeds on the staged input, the parent's
  contract and tree checks pass on its stage, and what is published is one file per range of the input that can be
  carved, in order, and the report, the staged input removed. The decoder is assumed to give the report's own
  values back, its numbers as text.
\<close>

theorem carve_accepts_honest_worker:
  assumes "runWorker pf sha c euid rec meta = Ok tree"
    and "nd_nlink meta = 1" and "length (nd_data meta) < 2 ^ 63"
    and "\<And>report b. report = worker_report c rec (map (carve_record sha (nd_data meta)) (sort (carvable (nd_data meta)))) \<Longrightarrow>
      Canonical pf (JMap report) = Ok b \<Longrightarrow> decode b = Some (numbered report)"
  shows "\<exists>payload. parent_accepts pf sha decode c euid rec (bwrapPath c) (bwrapSHA c) tree =
     Ok ((asc ''carves'', own_dir euid) #
         map (carve_entry sha euid (nd_data meta)) (sort (carvable (nd_data meta))) @
         [(report_name, own_file euid payload)])"
proof -
  have other: "asc ''carves'' \<noteq> input_name" "report_name \<noteq> input_name"
      "fst (carve_entry sha euid (nd_data meta) x) \<noteq> input_name" for x
    by (simp_all add: input_name_def report_name_def schema_def carve_entry_def carve_record_def carvePath_def asc_def)
  have "filter (\<lambda>(p, n). p \<noteq> input_name) (map (carve_entry sha euid (nd_data meta)) xs) =
      map (carve_entry sha euid (nd_data meta)) xs" for xs
    using other(3) by (auto simp: filter_id_conv case_prod_unfold)
  then show ?thesis using accepts_honest [OF assms] other(1,2) by fastforce
qed

theorem carve_accepts_honest_worker_witness:
  "\<exists>tree payload. runWorker (\<lambda>_. None) demo_sha demo_config 7 demo_record demo_meta = Ok tree \<and>
     parent_accepts (\<lambda>_. None) demo_sha
       (\<lambda>_. Some (numbered (worker_report demo_config demo_record
          (map (carve_record demo_sha demo_squash) (sort (carvable demo_squash))))))
       demo_config 7 demo_record (bwrapPath demo_config) (bwrapSHA demo_config) tree =
     Ok ((asc ''carves'', own_dir 7) # map (carve_entry demo_sha 7 demo_squash) (sort (carvable demo_squash)) @
         [(report_name, own_file 7 payload)])"
proof -
  obtain tree where run: "runWorker (\<lambda>_. None) demo_sha demo_config 7 demo_record demo_meta = Ok tree"
    using demo_worker_run by blast
  have meta: "nd_nlink demo_meta = 1" "nd_data demo_meta = demo_squash"
    by (simp_all add: demo_meta_def own_file_def)
  show ?thesis
    using carve_accepts_honest_worker [OF run meta(1), of
        "\<lambda>_. Some (numbered (worker_report demo_config demo_record
          (map (carve_record demo_sha demo_squash) (sort (carvable demo_squash)))))"] run
    by (auto simp: meta demo_lengths)
qed
end
