(* ===== verification/Class_Facts.thy ===== *)
theory Class_Facts
  imports Jsonout Go_IO
begin

text \<open>
  Java class files: \<open>internal/corroborate/classfile/class.go\<close> reads the facts of one class file straight from its
  bytes, and \<open>classfile.go\<close> and \<open>jar.go\<close> summarise the facts of many in two independent ways.
\<close>

section \<open>Facts\<close>

definition classMagic :: bytes where "classMagic = [0xCA, 0xFE, 0xBA, 0xBE]"
definition classHeaderLen :: nat where "classHeaderLen = 8"
definition resugarMinMajor :: nat where "resugarMinMajor = 53"
definition cpUTF8 :: nat where "cpUTF8 = 1"

definition cpFixed :: "nat list" where
  "cpFixed = [0, 0, 0, 4, 4, 8, 8, 2, 2, 4, 4, 4, 4, 0, 0, 3, 2, 4, 4, 2, 2]"

record facts =
  majorKnown :: bool
  major :: nat
  lvtKnown :: bool
  lvt :: bool
  fpartial :: bool
  freason :: string

definition reasonTruncatedHeader :: string where "reasonTruncatedHeader = ''truncated-header''"
definition reasonBadMagic :: string where "reasonBadMagic = ''bad-magic''"
definition reasonTruncatedBody :: string where "reasonTruncatedBody = ''truncated-body''"
definition reasonBadPoolTag :: string where "reasonBadPoolTag = ''bad-constant-pool-tag''"
definition reasonEntryTooLarge :: string where "reasonEntryTooLarge = ''entry-too-large''"
definition reasonCorruptEntry :: string where "reasonCorruptEntry = ''corrupt-entry''"
definition reasonUnreadableEntry :: string where "reasonUnreadableEntry = ''unreadable-entry''"

lemmas reason_defs = reasonTruncatedHeader_def reasonBadMagic_def reasonTruncatedBody_def reasonBadPoolTag_def
  reasonEntryTooLarge_def reasonCorruptEntry_def reasonUnreadableEntry_def

definition resugarRisk :: "facts \<Rightarrow> bool" where
  "resugarRisk f \<longleftrightarrow> majorKnown f \<and> resugarMinMajor \<le> major f"

definition nullFacts :: facts where
  "nullFacts = \<lparr>majorKnown = False, major = 0, lvtKnown = False, lvt = False, fpartial = False, freason = []\<rparr>"

definition nullWith :: "string \<Rightarrow> facts" where
  "nullWith reason = nullFacts\<lparr>freason := reason\<rparr>"

section \<open>The cursor\<close>

text \<open>
  The bounds-checked cursor. The position never passes the end (\<open>cursor_ok\<close> below), so the room left is a natural
  number. A read that does not fit fails the cursor and yields nothing.
\<close>

record cursor =
  cu_b :: bytes
  cu_pos :: nat
  cu_failed :: bool
  cu_reason :: string

definition cursor_at :: "bytes \<Rightarrow> nat \<Rightarrow> cursor" where
  "cursor_at data pos = \<lparr>cu_b = data, cu_pos = pos, cu_failed = False, cu_reason = []\<rparr>"

definition cu_fail :: "string \<Rightarrow> cursor \<Rightarrow> cursor" where
  "cu_fail reason r = (if cu_failed r then r else r\<lparr>cu_reason := reason, cu_failed := True\<rparr>)"

definition cu_take :: "nat \<Rightarrow> cursor \<Rightarrow> bytes \<times> cursor" where
  "cu_take n r =
     (if length (cu_b r) - cu_pos r < n then ([], cu_fail reasonTruncatedBody r)
      else (bslice (cu_b r) (cu_pos r) (cu_pos r + n), r\<lparr>cu_pos := cu_pos r + n\<rparr>))"

definition cu_uint :: "nat \<Rightarrow> cursor \<Rightarrow> nat \<times> cursor" where
  "cu_uint n r =
     (let (chunk, r') = cu_take n r in (unat (foldl (\<lambda>v b. push_bit 8 v OR ucast b) (0 :: u64) chunk), r'))"

definition cu_u2 :: "cursor \<Rightarrow> nat \<times> cursor" where
  "cu_u2 r = cu_uint 2 r"

section \<open>The walk\<close>

datatype attr_kind = kindOther | kindCode | kindLVT

text \<open>
  \<open>attributes\<close> with its callback: a function of the kind and the body of one attribute that may change the cursor
  (the callback of a \<open>Code\<close> attribute fails it) and a result of any type.
\<close>

type_synonym 'r visitor = "attr_kind \<Rightarrow> bytes \<Rightarrow> cursor \<times> 'r \<Rightarrow> cursor \<times> 'r"

definition attr_step :: "attr_kind list \<Rightarrow> 'r visitor \<Rightarrow> cursor \<times> 'r \<Rightarrow> cursor \<times> 'r" where
  "attr_step kinds visit st =
     (let (index, r1) = cu_u2 (fst st);
          kind = (if index < length kinds then kinds ! index else kindOther);
          (len, r2) = cu_uint 4 r1;
          (body, r3) = cu_take len r2
      in visit kind body (r3, snd st))"

fun attr_loop :: "attr_kind list \<Rightarrow> 'r visitor \<Rightarrow> nat \<Rightarrow> cursor \<times> 'r \<Rightarrow> cursor \<times> 'r" where
  "attr_loop kinds visit 0 st = st"
| "attr_loop kinds visit (Suc n) st =
     (if cu_failed (fst st) then st else attr_loop kinds visit n (attr_step kinds visit st))"

definition attributes :: "attr_kind list \<Rightarrow> 'r visitor \<Rightarrow> cursor \<times> 'r \<Rightarrow> cursor \<times> 'r" where
  "attributes kinds visit st = (let (n, r) = cu_u2 (fst st) in attr_loop kinds visit n (r, snd st))"

definition codeHasLVT :: "attr_kind list \<Rightarrow> bytes \<Rightarrow> cursor \<Rightarrow> bool \<times> cursor" where
  "codeHasLVT kinds body outer =
     (let r1 = snd (cu_take 4 (cursor_at body 0));
          (len, r2) = cu_uint 4 r1;
          r3 = snd (cu_take len r2);
          (exceptions, r4) = cu_u2 r3;
          r5 = snd (cu_take (8 * exceptions) r4);
          (code, found) = attributes kinds (\<lambda>kind _ (r, found). (r, found \<or> kind = kindLVT)) (r5, False)
      in (found, if cu_failed code then cu_fail (cu_reason code) outer else outer))"

text \<open>The constant pool: the kind of name every slot holds.\<close>

definition utf8_kind :: "bytes \<Rightarrow> attr_kind \<Rightarrow> attr_kind" where
  "utf8_kind name old =
     (if name = [67, 111, 100, 101] then kindCode
      else if name = [76, 111, 99, 97, 108, 86, 97, 114, 105, 97, 98, 108, 101, 84, 97, 98, 108, 101] then kindLVT
      else old)"

definition pool_entry :: "nat \<Rightarrow> nat \<Rightarrow> cursor \<times> attr_kind list \<Rightarrow> cursor \<times> attr_kind list" where
  "pool_entry index tag st =
     (let (r, kinds) = st
      in if tag = cpUTF8 then
           (let (len, r1) = cu_u2 r; (name, r2) = cu_take len r1
            in (r2, kinds[index := utf8_kind name (kinds ! index)]))
         else if tag < length cpFixed \<and> cpFixed ! tag \<noteq> 0 then (snd (cu_take (cpFixed ! tag) r), kinds)
         else (cu_fail reasonBadPoolTag r, kinds))"

function pool_loop :: "nat \<Rightarrow> nat \<Rightarrow> cursor \<times> attr_kind list \<Rightarrow> cursor \<times> attr_kind list" where
  "pool_loop slots index st =
     (if index < slots \<and> \<not> cu_failed (fst st) then
        (let (tag, r) = cu_uint 1 (fst st);
             st' = pool_entry index tag (r, snd st)
         in pool_loop slots (if tag = 5 \<or> tag = 6 then index + 2 else index + 1) st')
      else st)"
  by pat_completeness auto
termination
  by (relation "measure (\<lambda>(slots, index, _). slots - index)") auto

declare pool_loop.simps [simp del]

text \<open>The members: fields first, then methods; only a method's \<open>Code\<close> is looked into.\<close>

definition member_visit :: "bool \<Rightarrow> attr_kind list \<Rightarrow> bool visitor" where
  "member_visit methods kinds kind body st =
     (let (r, found) = st
      in if methods \<and> kind = kindCode
         then (let (has, r') = codeHasLVT kinds body r in (r', found \<or> has))
         else (r, found))"

fun member_loop :: "bool \<Rightarrow> attr_kind list \<Rightarrow> nat \<Rightarrow> cursor \<times> bool \<Rightarrow> cursor \<times> bool" where
  "member_loop methods kinds 0 st = st"
| "member_loop methods kinds (Suc n) st =
     (if cu_failed (fst st) then st
      else member_loop methods kinds n
             (attributes kinds (member_visit methods kinds) (snd (cu_take 6 (fst st)), snd st)))"

definition members :: "bool \<Rightarrow> attr_kind list \<Rightarrow> cursor \<times> bool \<Rightarrow> cursor \<times> bool" where
  "members methods kinds st = (let (n, r) = cu_u2 (fst st) in member_loop methods kinds n (r, snd st))"

definition scanLocalVariableTable :: "bytes \<Rightarrow> bool \<times> string" where
  "scanLocalVariableTable data =
     (let (slots, r1) = cu_u2 (cursor_at data classHeaderLen);
          (r2, kinds) = pool_loop slots 1 (r1, replicate slots kindOther);
          r3 = snd (cu_take 6 r2);
          (interfaces, r4) = cu_u2 r3;
          r5 = snd (cu_take (2 * interfaces) r4);
          (r6, found) = members True kinds (members False kinds (r5, False));
          (r7, _) = attributes kinds (\<lambda>_ _ st. st) (r6, ())
      in (found, cu_reason r7))"

definition classFacts :: "bytes \<Rightarrow> facts" where
  "classFacts data =
     (if length data < classHeaderLen then nullWith reasonTruncatedHeader
      else if take 4 data \<noteq> classMagic then nullWith reasonBadMagic
      else
        let f = nullFacts\<lparr>majorKnown := True, major := unat (data ! 6) * 256 + unat (data ! 7)\<rparr>;
            (lvt, reason) = scanLocalVariableTable data
        in if reason = [] then f\<lparr>lvtKnown := True, lvt := lvt\<rparr> else f\<lparr>fpartial := True, freason := reason\<rparr>)"

section \<open>A cursor that succeeds\<close>

definition cu_at :: "cursor \<Rightarrow> bytes \<Rightarrow> bool" where
  \<comment> \<open>the cursor has not failed and these bytes are left\<close>
  "cu_at r s \<longleftrightarrow>
     \<not> cu_failed r \<and> cu_reason r = [] \<and> cu_pos r \<le> length (cu_b r) \<and> drop (cu_pos r) (cu_b r) = s"

lemma cu_take_at:
  assumes "cu_at r (x @ s)" "length x = n"
  obtains r' where "cu_take n r = (x, r')" "cu_at r' s" "cu_b r' = cu_b r"
proof
  have drop: "drop (cu_pos r) (cu_b r) = x @ s" and pos: "cu_pos r \<le> length (cu_b r)" using assms by (auto simp: cu_at_def)
  have len: "length (cu_b r) - cu_pos r = n + length s" using arg_cong [OF drop, of length] assms(2) by simp
  let ?r = "r\<lparr>cu_pos := cu_pos r + n\<rparr>"
  show "cu_take n r = (x, ?r)" using len drop assms(2) by (simp add: cu_take_def bslice_def)
  have "drop (cu_pos r + n) (cu_b r) = s"
    using arg_cong [OF drop, of "drop n"] assms(2) by (simp add: drop_drop add.commute)
  then show "cu_at ?r s" using assms len pos by (auto simp: cu_at_def)
qed simp

lemma be_word:
  "length bs \<le> 7 \<Longrightarrow> foldl (\<lambda>v (b :: byte). push_bit 8 v OR ucast b) (word_of_nat a :: u64) bs =
     word_of_nat (foldl (\<lambda>v b. v * 256 + unat b) a bs)"
proof (induction bs arbitrary: a)
  case (Cons b bs)
  have low: "\<not> bit b n" if "8 \<le> n" for n using bit_byte_lt [of b n] that by auto
  have "push_bit 8 (word_of_nat a :: u64) OR ucast b = push_bit 8 (word_of_nat a) + ucast b"
    by (rule disjunctive_add [symmetric]) (auto simp: bit_simps low)
  also have "\<dots> = word_of_nat (a * 256 + unat b)"
    by (simp add: push_bit_eq_mult)
  finally have step: "push_bit 8 (word_of_nat a :: u64) OR ucast b = word_of_nat (a * 256 + unat b)" .
  show ?case using Cons.IH [of "a * 256 + unat b"] Cons.prems by (simp only: foldl_Cons step) simp
qed simp

definition put16 :: "nat \<Rightarrow> bytes" where
  "put16 n = [word_of_nat (n div 256), word_of_nat (n mod 256)]"

definition put32 :: "nat \<Rightarrow> bytes" where
  "put32 n = put16 (n div 65536) @ put16 (n mod 65536)"

lemma length_put [simp]: "length (put16 n) = 2" "length (put32 n) = 4"
  by (simp_all add: put16_def put32_def)

lemma unat_byte: "n < 256 \<Longrightarrow> unat (word_of_nat n :: byte) = n"
  by (simp add: unat_of_nat take_bit_eq_mod)

lemma cu_uint_at:
  assumes "cu_at r (x @ s)" "length x = n" "n \<le> 7" "foldl (\<lambda>v b. v * 256 + unat b) 0 x = v" "v < 2 ^ 64"
  obtains r' where "cu_uint n r = (v, r')" "cu_at r' s" "cu_b r' = cu_b r"
proof -
  obtain r' where r': "cu_take n r = (x, r')" "cu_at r' s" "cu_b r' = cu_b r" using cu_take_at [OF assms(1,2)] .
  have "foldl (\<lambda>v b. push_bit 8 v OR ucast b) (0 :: u64) x = word_of_nat v"
    using be_word [of x 0] assms(2-4) by simp
  then have "cu_uint n r = (v, r')"
    using r'(1) assms(5) by (simp add: cu_uint_def unsigned_of_nat take_bit_nat_eq_self)
  then show thesis using r'(2,3) that by blast
qed

lemma put16_value: "n < 65536 \<Longrightarrow> foldl (\<lambda>v b. v * 256 + unat b) a (put16 n) = a * 65536 + n"
  by (simp add: put16_def unat_byte)

lemma put32_value: "n < 2 ^ 32 \<Longrightarrow> foldl (\<lambda>v b. v * 256 + unat b) 0 (put32 n) = n"
  by (simp add: put32_def put16_value less_mult_imp_div_less)

lemma cu_u2_at:
  assumes "cu_at r (put16 n @ s)" "n < 65536"
  obtains r' where "cu_u2 r = (n, r')" "cu_at r' s" "cu_b r' = cu_b r"
  unfolding cu_u2_def
  by (rule cu_uint_at [OF assms(1), of 2 n]) (use assms(2) put16_value [of n 0] in simp_all)

lemma cu_u4_at:
  assumes "cu_at r (put32 n @ s)" "n < 2 ^ 32"
  obtains r' where "cu_uint 4 r = (n, r')" "cu_at r' s" "cu_b r' = cu_b r"
  by (rule cu_uint_at [OF assms(1), of 4 n]) (use assms(2) put32_value [of n] in simp_all)

lemma cu_u1_at:
  assumes "cu_at r (b # s)"
  obtains r' where "cu_uint 1 r = (unat b, r')" "cu_at r' s" "cu_b r' = cu_b r"
proof (rule cu_uint_at [of r "[b]" s 1 "unat b"])
  show "unat b < 2 ^ 64" using unsigned_less [of b, where 'a=nat] by simp
qed (use assms in simp_all)

section \<open>Well-formed class files\<close>

text \<open>
  What a class file is: a constant pool, members with attributes, attributes whose body is a structured \<open>Code\<close> or
  plain bytes; \<open>encode_class\<close> writes it as the Java specification lays it out.
\<close>

datatype pool_item = Utf8 bytes | Const nat bytes

datatype attr_body = Bytes bytes | CodeBody bytes bytes bytes "(nat \<times> bytes) list"
  \<comment> \<open>stack and locals, the bytecode, the exception table, the attributes\<close>

record java_class =
  jc_minor :: bytes
  jc_major :: nat
  jc_pool :: "pool_item list"
  jc_names :: bytes \<comment> \<open>the flags, this class and its superclass\<close>
  jc_interfaces :: bytes
  jc_fields :: "(bytes \<times> (nat \<times> attr_body) list) list"
  jc_methods :: "(bytes \<times> (nat \<times> attr_body) list) list"
  jc_attrs :: "(nat \<times> attr_body) list"

fun enc_item :: "pool_item \<Rightarrow> bytes" where
  "enc_item (Utf8 s) = 1 # put16 (length s) @ s"
| "enc_item (Const tag bs) = word_of_nat tag # bs"

fun item_ok :: "pool_item \<Rightarrow> bool" where
  "item_ok (Utf8 s) \<longleftrightarrow> length s < 65536"
| "item_ok (Const tag bs) \<longleftrightarrow> tag < 21 \<and> cpFixed ! tag \<noteq> 0 \<and> length bs = cpFixed ! tag"

fun item_kinds :: "pool_item \<Rightarrow> attr_kind list" where
  "item_kinds (Utf8 s) = [utf8_kind s kindOther]"
| "item_kinds (Const tag bs) = (if tag = 5 \<or> tag = 6 then [kindOther, kindOther] else [kindOther])"

definition pool_kinds :: "pool_item list \<Rightarrow> attr_kind list" where
  "pool_kinds pool = kindOther # concat (map item_kinds pool)"

definition kind_at :: "attr_kind list \<Rightarrow> nat \<Rightarrow> attr_kind" where
  "kind_at kinds i = (if i < length kinds then kinds ! i else kindOther)"

fun enc_attr :: "nat \<times> bytes \<Rightarrow> bytes" where
  "enc_attr (i, b) = put16 i @ put32 (length b) @ b"

definition enc_attrs :: "(nat \<times> bytes) list \<Rightarrow> bytes" where
  "enc_attrs attrs = put16 (length attrs) @ concat (map enc_attr attrs)"

definition attrs_ok :: "(nat \<times> bytes) list \<Rightarrow> bool" where
  "attrs_ok attrs \<longleftrightarrow> length attrs < 65536 \<and> list_all (\<lambda>(i, b). i < 65536 \<and> length b < 2 ^ 32) attrs"

fun enc_body :: "attr_body \<Rightarrow> bytes" where
  "enc_body (Bytes b) = b"
| "enc_body (CodeBody stack code table attrs) =
     stack @ put32 (length code) @ code @ put16 (length table div 8) @ table @ enc_attrs attrs"

fun body_ok :: "attr_body \<Rightarrow> bool" where
  "body_ok (Bytes b) \<longleftrightarrow> True"
| "body_ok (CodeBody stack code table attrs) \<longleftrightarrow>
     length stack = 4 \<and> length code < 2 ^ 32 \<and> 8 dvd length table \<and> length table < 8 * 65536 \<and> attrs_ok attrs"

definition raw_attrs :: "(nat \<times> attr_body) list \<Rightarrow> (nat \<times> bytes) list" where
  "raw_attrs = map (\<lambda>(i, b). (i, enc_body b))"

definition enc_members :: "(bytes \<times> (nat \<times> attr_body) list) list \<Rightarrow> bytes" where
  "enc_members ms = put16 (length ms) @ concat (map (\<lambda>(head, attrs). head @ enc_attrs (raw_attrs attrs)) ms)"

definition members_ok :: "(bytes \<times> (nat \<times> attr_body) list) list \<Rightarrow> bool" where
  "members_ok ms \<longleftrightarrow>
     length ms < 65536 \<and> list_all (\<lambda>(head, attrs). length head = 6 \<and> attrs_ok (raw_attrs attrs)) ms"

text \<open>A method's \<open>Code\<close> attributes are structured, and nothing else of a method is named so.\<close>

definition attr_codes_ok :: "attr_kind list \<Rightarrow> (nat \<times> attr_body) list \<Rightarrow> bool" where
  "attr_codes_ok kinds = list_all (\<lambda>(i, b).
     body_ok b \<and> (kind_at kinds i = kindCode \<longleftrightarrow> (case b of Bytes _ \<Rightarrow> False | CodeBody _ _ _ _ \<Rightarrow> True)))"

definition codes_ok :: "attr_kind list \<Rightarrow> (bytes \<times> (nat \<times> attr_body) list) list \<Rightarrow> bool" where
  "codes_ok kinds = list_all (\<lambda>(head, attrs). attr_codes_ok kinds attrs)"

fun body_has_lvt :: "attr_kind list \<Rightarrow> attr_body \<Rightarrow> bool" where
  "body_has_lvt kinds (Bytes b) = False"
| "body_has_lvt kinds (CodeBody stack code table attrs) = list_ex (\<lambda>(j, _). kind_at kinds j = kindLVT) attrs"

definition class_has_lvt :: "java_class \<Rightarrow> bool" where
  "class_has_lvt c =
     list_ex (\<lambda>(head, attrs). list_ex (\<lambda>(i, b). body_has_lvt (pool_kinds (jc_pool c)) b) attrs) (jc_methods c)"

definition class_ok :: "java_class \<Rightarrow> bool" where
  "class_ok c \<longleftrightarrow>
     length (jc_minor c) = 2 \<and> jc_major c < 65536 \<and> list_all item_ok (jc_pool c) \<and>
     length (pool_kinds (jc_pool c)) < 65536 \<and> length (jc_names c) = 6 \<and>
     2 dvd length (jc_interfaces c) \<and> length (jc_interfaces c) < 2 * 65536 \<and>
     members_ok (jc_fields c) \<and> members_ok (jc_methods c) \<and> codes_ok (pool_kinds (jc_pool c)) (jc_methods c) \<and>
     attrs_ok (raw_attrs (jc_attrs c))"

definition class_body :: "java_class \<Rightarrow> bytes" where
  "class_body c =
     put16 (length (pool_kinds (jc_pool c))) @ concat (map enc_item (jc_pool c)) @ jc_names c @
     put16 (length (jc_interfaces c) div 2) @ jc_interfaces c @ enc_members (jc_fields c) @ enc_members (jc_methods c) @
     enc_attrs (raw_attrs (jc_attrs c))"

definition encode_class :: "java_class \<Rightarrow> bytes" where
  "encode_class c = classMagic @ jc_minor c @ put16 (jc_major c) @ class_body c"

section \<open>Reading a well-formed class\<close>

lemma attr_step_at:
  assumes "cu_at r (put16 i @ put32 (length b) @ b @ s)" "i < 65536" "length b < 2 ^ 32"
  obtains r' where "attr_step kinds visit (r, x) = visit (kind_at kinds i) b (r', x)" "cu_at r' s" "cu_b r' = cu_b r"
proof -
  obtain r1 where 1: "cu_u2 r = (i, r1)" "cu_at r1 (put32 (length b) @ b @ s)" "cu_b r1 = cu_b r"
    using cu_u2_at [OF assms(1,2)] .
  obtain r2 where 2: "cu_uint 4 r1 = (length b, r2)" "cu_at r2 (b @ s)" "cu_b r2 = cu_b r1"
    using cu_u4_at [OF 1(2) assms(3)] .
  obtain r3 where 3: "cu_take (length b) r2 = (b, r3)" "cu_at r3 s" "cu_b r3 = cu_b r2"
    using cu_take_at [OF 2(2) refl] .
  show thesis using that [of r3] 1 2 3 by (simp add: attr_step_def kind_at_def)
qed

lemma attr_loop_at:
  assumes "cu_at r (concat (map enc_attr attrs) @ s)"
    and "list_all (\<lambda>(i, b). i < 65536 \<and> length b < 2 ^ 32) attrs"
    and "\<And>i b r x. (i, b) \<in> set attrs \<Longrightarrow> \<not> cu_failed r \<Longrightarrow>
           visit (kind_at kinds i) b (r, x) = (r, upd (kind_at kinds i) b x)"
  obtains r' where "attr_loop kinds visit (length attrs) (r, x) = (r', foldl (\<lambda>x (i, b). upd (kind_at kinds i) b x) x attrs)"
    "cu_at r' s" "cu_b r' = cu_b r"
  using assms
proof (induction attrs arbitrary: r x thesis)
  case Nil
  then show ?case by simp
next
  case (Cons a attrs)
  obtain i b where a: "a = (i, b)" by force
  obtain r1 where 1: "attr_step kinds visit (r, x) = visit (kind_at kinds i) b (r1, x)"
      "cu_at r1 (concat (map enc_attr attrs) @ s)" "cu_b r1 = cu_b r"
    using Cons.prems(2,3) attr_step_at [of r i b "concat (map enc_attr attrs) @ s" kinds visit x] by (auto simp: a)
  have live: "\<not> cu_failed r" "\<not> cu_failed r1" using Cons.prems(2) 1(2) by (auto simp: cu_at_def)
  have visit: "attr_step kinds visit (r, x) = (r1, upd (kind_at kinds i) b x)"
    using 1(1) Cons.prems(4) [of i b r1 x] live by (simp add: a)
  obtain r2 where "attr_loop kinds visit (length attrs) (r1, upd (kind_at kinds i) b x) =
      (r2, foldl (\<lambda>x (i, b). upd (kind_at kinds i) b x) (upd (kind_at kinds i) b x) attrs)" "cu_at r2 s" "cu_b r2 = cu_b r1"
    using Cons.IH [of r1 "upd (kind_at kinds i) b x"] 1(2) Cons.prems(3,4) by (auto simp: a)
  then show ?case using Cons.prems(1) [of r2] live visit 1(3) by (simp add: a)
qed

lemma attributes_at:
  assumes "cu_at r (enc_attrs attrs @ s)" "attrs_ok attrs"
    and "\<And>i b r x. (i, b) \<in> set attrs \<Longrightarrow> \<not> cu_failed r \<Longrightarrow>
           visit (kind_at kinds i) b (r, x) = (r, upd (kind_at kinds i) b x)"
  obtains r' where "attributes kinds visit (r, x) = (r', foldl (\<lambda>x (i, b). upd (kind_at kinds i) b x) x attrs)"
    "cu_at r' s" "cu_b r' = cu_b r"
proof -
  obtain r1 where 1: "cu_u2 r = (length attrs, r1)"
      "cu_at r1 (concat (map enc_attr attrs) @ s)" "cu_b r1 = cu_b r"
    using cu_u2_at [of r "length attrs" "concat (map enc_attr attrs) @ s"] assms(1,2)
    by (auto simp: enc_attrs_def attrs_ok_def)
  obtain r2 where "attr_loop kinds visit (length attrs) (r1, x) =
      (r2, foldl (\<lambda>x (i, b). upd (kind_at kinds i) b x) x attrs)" "cu_at r2 s" "cu_b r2 = cu_b r1"
    using attr_loop_at [where r = r1 and attrs = attrs and s = s and kinds = kinds and visit = visit and upd = upd and x = x] 1(2) assms(2,3) by (auto simp: attrs_ok_def)
  then show thesis using that [of r2] 1 by (simp add: attributes_def)
qed

lemma codeHasLVT_at:
  assumes "body_ok (CodeBody stack code table attrs)"
  shows "codeHasLVT kinds (enc_body (CodeBody stack code table attrs)) outer =
    (body_has_lvt kinds (CodeBody stack code table attrs), outer)"
proof -
  let ?b = "enc_body (CodeBody stack code table attrs)"
  have ok: "length stack = 4" "length code < 2 ^ 32" "8 * (length table div 8) = length table" "length table div 8 < 65536"
    "attrs_ok attrs" using assms by auto
  have "cu_at (cursor_at ?b 0) (stack @ put32 (length code) @ code @ put16 (length table div 8) @ table @ enc_attrs attrs)"
    by (simp add: cu_at_def cursor_at_def)
  then obtain r1 where 1: "cu_take 4 (cursor_at ?b 0) = (stack, r1)"
      "cu_at r1 (put32 (length code) @ code @ put16 (length table div 8) @ table @ enc_attrs attrs)"
    using ok(1) by (rule cu_take_at)
  obtain r2 where 2: "cu_uint 4 r1 = (length code, r2)"
      "cu_at r2 (code @ put16 (length table div 8) @ table @ enc_attrs attrs)"
    using 1(2) ok(2) by (rule cu_u4_at)
  obtain r3 where 3: "cu_take (length code) r2 = (code, r3)" "cu_at r3 (put16 (length table div 8) @ table @ enc_attrs attrs)"
    using 2(2) refl by (rule cu_take_at)
  obtain r4 where 4: "cu_u2 r3 = (length table div 8, r4)" "cu_at r4 (table @ enc_attrs attrs)"
    using 3(2) ok(4) by (rule cu_u2_at)
  obtain r5 where 5: "cu_take (8 * (length table div 8)) r4 = (table, r5)" "cu_at r5 (enc_attrs attrs @ [])"
    using cu_take_at [OF 4(2)] ok(3) by (metis append_Nil2)
  obtain r6 where 6: "attributes kinds (\<lambda>kind _ (r, found). (r, found \<or> kind = kindLVT)) (r5, False) =
      (r6, foldl (\<lambda>x (i, b). x \<or> kind_at kinds i = kindLVT) False attrs)" "cu_at r6 []"
    using attributes_at [where r = r5 and attrs = attrs and s = "[]" and kinds = kinds and x = False
        and visit = "\<lambda>kind _ (r, found). (r, found \<or> kind = kindLVT)" and upd = "\<lambda>k b x. x \<or> k = kindLVT"] 5(2) ok(5)
    by auto
  have fold: "foldl (\<lambda>x (i, b). x \<or> kind_at kinds i = kindLVT) found attrs \<longleftrightarrow>
      found \<or> list_ex (\<lambda>(j, _). kind_at kinds j = kindLVT) attrs" for found :: bool and attrs :: "(nat \<times> bytes) list"
    by (induction attrs arbitrary: found) auto
  show ?thesis
    using 1(1) 2(1) 3(1) 4(1) 5(1) 6 ok(3) by (simp add: codeHasLVT_def Let_def fold cu_at_def)
qed

text \<open>The attributes of one member, and all members.\<close>

definition member_upd :: "bool \<Rightarrow> attr_kind list \<Rightarrow> attr_kind \<Rightarrow> bytes \<Rightarrow> bool \<Rightarrow> bool" where
  "member_upd methods kinds kind b found \<longleftrightarrow>
     found \<or> (methods \<and> kind = kindCode \<and> fst (codeHasLVT kinds b (cursor_at [] 0)))"

lemma codeHasLVT_fst: "fst (codeHasLVT kinds b r) = fst (codeHasLVT kinds b r')"
  by (simp add: codeHasLVT_def Let_def split: prod.splits)

lemma foldl_or: "foldl (\<lambda>x a. x \<or> P a) found xs \<longleftrightarrow> found \<or> list_ex P xs"
  by (induction xs arbitrary: found) auto

lemma foldl_raw_attrs:
  "foldl (\<lambda>x (i, b). member_upd methods kinds (kind_at kinds i) b x) found (raw_attrs attrs) \<longleftrightarrow>
     found \<or> list_ex (\<lambda>(i, b). methods \<and> kind_at kinds i = kindCode \<and>
       fst (codeHasLVT kinds (enc_body b) (cursor_at [] 0))) attrs"
  by (induction attrs arbitrary: found) (auto simp: raw_attrs_def member_upd_def)

lemma codeHasLVT_member:
  assumes "attr_codes_ok kinds attrs" "(i, b) \<in> set attrs"
  shows "kind_at kinds i = kindCode \<Longrightarrow> codeHasLVT kinds (enc_body b) r = (body_has_lvt kinds b, r)"
    and "kind_at kinds i \<noteq> kindCode \<Longrightarrow> \<not> body_has_lvt kinds b"
proof -
  have *: "body_ok b" "kind_at kinds i = kindCode \<longleftrightarrow> (case b of Bytes _ \<Rightarrow> False | CodeBody _ _ _ _ \<Rightarrow> True)"
    using assms by (auto simp: attr_codes_ok_def list_all_iff)
  show "codeHasLVT kinds (enc_body b) r = (body_has_lvt kinds b, r)" if "kind_at kinds i = kindCode"
  proof (cases b)
    case (CodeBody stack code table as)
    then show ?thesis using * codeHasLVT_at by metis
  qed (use that * in auto)
  show "\<not> body_has_lvt kinds b" if "kind_at kinds i \<noteq> kindCode"
    using that * by (cases b) auto
qed

lemma member_attrs_at:
  assumes "cu_at r (enc_attrs (raw_attrs attrs) @ s)" "attrs_ok (raw_attrs attrs)"
    and "methods \<Longrightarrow> attr_codes_ok kinds attrs"
  obtains r' where "attributes kinds (member_visit methods kinds) (r, found) =
      (r', found \<or> methods \<and> list_ex (\<lambda>(i, b). body_has_lvt kinds b) attrs)" "cu_at r' s" "cu_b r' = cu_b r"
proof -
  have visit: "member_visit methods kinds (kind_at kinds i) c (r, x) = (r, member_upd methods kinds (kind_at kinds i) c x)"
    if mem: "(i, c) \<in> set (raw_attrs attrs)" for i c r x
  proof -
    obtain b where b: "(i, b) \<in> set attrs" "c = enc_body b" using mem by (auto simp: raw_attrs_def)
    show ?thesis
      using codeHasLVT_member(1) [OF assms(3) b(1)] by (auto simp: member_visit_def member_upd_def b(2) split: prod.splits)
  qed
  obtain r' where r': "attributes kinds (member_visit methods kinds) (r, found) =
      (r', foldl (\<lambda>x (i, b). member_upd methods kinds (kind_at kinds i) b x) found (raw_attrs attrs))"
      "cu_at r' s" "cu_b r' = cu_b r"
    using attributes_at [where r = r and attrs = "raw_attrs attrs" and s = s and kinds = kinds and x = found
        and visit = "member_visit methods kinds" and upd = "member_upd methods kinds"] assms(1,2) visit
    by blast
  have "list_ex (\<lambda>(i, b). methods \<and> kind_at kinds i = kindCode \<and> fst (codeHasLVT kinds (enc_body b) (cursor_at [] 0))) attrs
      \<longleftrightarrow> methods \<and> list_ex (\<lambda>(i, b). body_has_lvt kinds b) attrs"
    using codeHasLVT_member [OF assms(3)] by (fastforce simp: list_ex_iff)
  then show thesis using r' that by (simp add: foldl_raw_attrs)
qed

lemma member_loop_at:
  assumes "cu_at r (concat (map (\<lambda>(head, attrs). head @ enc_attrs (raw_attrs attrs)) ms) @ s)"
    and "list_all (\<lambda>(head, attrs). length head = 6 \<and> attrs_ok (raw_attrs attrs)) ms" "methods \<Longrightarrow> codes_ok kinds ms"
  obtains r' where "member_loop methods kinds (length ms) (r, found) =
      (r', found \<or> methods \<and> list_ex (\<lambda>(head, attrs). list_ex (\<lambda>(i, b). body_has_lvt kinds b) attrs) ms)"
    "cu_at r' s" "cu_b r' = cu_b r"
  using assms
proof (induction ms arbitrary: r found thesis)
  case Nil
  then show ?case by simp
next
  case (Cons m ms)
  obtain head attrs where m: "m = (head, attrs)" by force
  let ?rest = "concat (map (\<lambda>(head, attrs). head @ enc_attrs (raw_attrs attrs)) ms) @ s"
  have live: "\<not> cu_failed r" using Cons.prems(2) by (simp add: cu_at_def)
  obtain r1 where 1: "cu_take 6 r = (head, r1)" "cu_at r1 (enc_attrs (raw_attrs attrs) @ ?rest)" "cu_b r1 = cu_b r"
    using cu_take_at [of r head "enc_attrs (raw_attrs attrs) @ ?rest" 6] Cons.prems(2,3) by (auto simp: m)
  obtain r2 where 2: "attributes kinds (member_visit methods kinds) (r1, found) =
      (r2, found \<or> methods \<and> list_ex (\<lambda>(i, b). body_has_lvt kinds b) attrs)" "cu_at r2 ?rest" "cu_b r2 = cu_b r1"
    using member_attrs_at [OF 1(2), of methods kinds found] Cons.prems(3,4) by (auto simp: m codes_ok_def)
  obtain r3 where "member_loop methods kinds (length ms) (r2, found \<or> methods \<and> list_ex (\<lambda>(i, b). body_has_lvt kinds b) attrs) =
      (r3, (found \<or> methods \<and> list_ex (\<lambda>(i, b). body_has_lvt kinds b) attrs) \<or>
        methods \<and> list_ex (\<lambda>(head, attrs). list_ex (\<lambda>(i, b). body_has_lvt kinds b) attrs) ms)" "cu_at r3 s" "cu_b r3 = cu_b r2"
    using Cons.IH [where r = r2 and found = "found \<or> methods \<and> list_ex (\<lambda>(i, b). body_has_lvt kinds b) attrs"] 2(2)
      Cons.prems(3,4) by (auto simp: codes_ok_def)
  then show ?case using Cons.prems(1) [of r3] live 1 2 by (simp add: m) blast
qed

lemma members_at:
  assumes "cu_at r (enc_members ms @ s)" "members_ok ms" "methods \<Longrightarrow> codes_ok kinds ms"
  obtains r' where "members methods kinds (r, found) =
      (r', found \<or> methods \<and> list_ex (\<lambda>(head, attrs). list_ex (\<lambda>(i, b). body_has_lvt kinds b) attrs) ms)"
    "cu_at r' s" "cu_b r' = cu_b r"
proof -
  obtain r1 where 1: "cu_u2 r = (length ms, r1)"
      "cu_at r1 (concat (map (\<lambda>(head, attrs). head @ enc_attrs (raw_attrs attrs)) ms) @ s)" "cu_b r1 = cu_b r"
    using cu_u2_at [of r "length ms" "concat (map (\<lambda>(head, attrs). head @ enc_attrs (raw_attrs attrs)) ms) @ s"] assms(1,2)
    by (auto simp: enc_members_def members_ok_def)
  show thesis
    using member_loop_at [OF 1(2), of methods kinds found] assms(2,3) 1 that by (simp add: members_def members_ok_def) blast
qed

lemma pool_loop_at:
  assumes "cu_at r (concat (map enc_item pool) @ s)" "list_all item_ok pool" "length kinds = index"
  obtains r' where "pool_loop (index + length (concat (map item_kinds pool))) index
      (r, kinds @ replicate (length (concat (map item_kinds pool))) kindOther) =
      (r', kinds @ concat (map item_kinds pool))" "cu_at r' s" "cu_b r' = cu_b r"
  using assms
proof (induction pool arbitrary: r kinds index thesis)
  case Nil
  then show ?case by (simp add: pool_loop.simps)
next
  case (Cons item pool)
  let ?rest = "concat (map enc_item pool) @ s" and ?n = "length (concat (map item_kinds pool))"
  have live: "\<not> cu_failed r" using Cons.prems(2) by (simp add: cu_at_def)
  show ?case
  proof (cases item)
    case (Utf8 name)
    obtain r1 where 1: "cu_uint 1 r = (1, r1)" "cu_at r1 (put16 (length name) @ name @ ?rest)" "cu_b r1 = cu_b r"
      using cu_u1_at [of r 1 "put16 (length name) @ name @ ?rest"] Cons.prems(2) by (auto simp: Utf8)
    obtain r2 where 2: "cu_u2 r1 = (length name, r2)" "cu_at r2 (name @ ?rest)" "cu_b r2 = cu_b r1"
      using cu_u2_at [OF 1(2)] Cons.prems(3) by (auto simp: Utf8)
    obtain r3 where 3: "cu_take (length name) r2 = (name, r3)" "cu_at r3 ?rest" "cu_b r3 = cu_b r2"
      using cu_take_at [OF 2(2) refl] .
    have step: "pool_loop (index + (1 + ?n)) index (r, kinds @ replicate (1 + ?n) kindOther) =
        pool_loop ((index + 1) + ?n) (index + 1) (r3, (kinds @ [utf8_kind name kindOther]) @ replicate ?n kindOther)"
      using live 1 2 3 Cons.prems(4)
      by (subst pool_loop.simps) (simp add: pool_entry_def cpUTF8_def nth_append list_update_append)
    show ?thesis
      using Cons.IH [where r = r3 and kinds = "kinds @ [utf8_kind name kindOther]" and index = "index + 1"] 3(2)
        Cons.prems(1,3,4) step 1(3) 2(3) 3(3)
      by (simp add: Utf8) blast
  next
    case (Const tag bs)
    have tag: "tag < 21" "cpFixed ! tag \<noteq> 0" "length bs = cpFixed ! tag" using Cons.prems(3) by (auto simp: Const)
    have not1: "tag \<noteq> 1" using tag(2) by (auto simp: cpFixed_def)
    obtain r1 where 1: "cu_uint 1 r = (tag, r1)" "cu_at r1 (bs @ ?rest)" "cu_b r1 = cu_b r"
      using cu_u1_at [of r "word_of_nat tag" "bs @ ?rest"] Cons.prems(2) unat_byte [of tag] tag(1) by (auto simp: Const)
    obtain r2 where 2: "cu_take (cpFixed ! tag) r1 = (bs, r2)" "cu_at r2 ?rest" "cu_b r2 = cu_b r1"
      using cu_take_at [OF 1(2) tag(3)] .
    let ?ks = "item_kinds item" and ?k = "length (item_kinds item)"
    have ks: "?ks = replicate ?k kindOther" "?k = (if tag = 5 \<or> tag = 6 then 2 else 1)" by (auto simp: Const numeral_2_eq_2)
    have step: "pool_loop (index + (?k + ?n)) index (r, kinds @ replicate (?k + ?n) kindOther) =
        pool_loop ((index + ?k) + ?n) (index + ?k) (r2, (kinds @ ?ks) @ replicate ?n kindOther)"
      using live 1 2 Cons.prems(4) tag(1,2) not1 ks
      by (subst pool_loop.simps) (simp add: pool_entry_def cpUTF8_def replicate_add cpFixed_def add.assoc)
    show ?thesis
      using Cons.IH [where r = r2 and kinds = "kinds @ ?ks" and index = "index + ?k"] 2(2) Cons.prems(1,3,4) step 1(3) 2(3)
      by (simp add: add.assoc) blast
  qed
qed

definition scan_end :: "bytes \<Rightarrow> cursor \<times> bool" where
  \<comment> \<open>the cursor at the end of the walk, and what was found\<close>
  "scan_end data =
     (let (slots, r1) = cu_u2 (cursor_at data classHeaderLen);
          (r2, kinds) = pool_loop slots 1 (r1, replicate slots kindOther);
          r3 = snd (cu_take 6 r2);
          (interfaces, r4) = cu_u2 r3;
          r5 = snd (cu_take (2 * interfaces) r4);
          (r6, found) = members True kinds (members False kinds (r5, False));
          (r7, _) = attributes kinds (\<lambda>_ _ st. st) (r6, ())
      in (r7, found))"

lemma scan_scan_end: "scanLocalVariableTable data = (snd (scan_end data), cu_reason (fst (scan_end data)))"
  by (simp add: scanLocalVariableTable_def scan_end_def Let_def split: prod.splits)

lemma scan_end_at:
  assumes ok: "class_ok c" and len: "length head = 8"
  obtains r where "scan_end (head @ class_body c @ rest) = (r, class_has_lvt c)" "cu_at r rest"
    "cu_b r = head @ class_body c @ rest"
proof -
  let ?kinds = "pool_kinds (jc_pool c)" and ?data = "head @ class_body c @ rest"
  let ?attrs = "enc_attrs (raw_attrs (jc_attrs c)) @ rest"
  let ?methods = "enc_members (jc_methods c) @ ?attrs"
  let ?fields = "enc_members (jc_fields c) @ ?methods"
  let ?ifaces = "jc_interfaces c @ ?fields"
  have c: "list_all item_ok (jc_pool c)" "length ?kinds < 65536" "length (jc_names c) = 6"
    "2 * (length (jc_interfaces c) div 2) = length (jc_interfaces c)" "length (jc_interfaces c) div 2 < 65536"
    "members_ok (jc_fields c)" "members_ok (jc_methods c)" "codes_ok ?kinds (jc_methods c)" "attrs_ok (raw_attrs (jc_attrs c))"
    using ok by (auto simp: class_ok_def)
  have "cu_at (cursor_at ?data classHeaderLen)
      (put16 (length ?kinds) @ concat (map enc_item (jc_pool c)) @ jc_names c @ put16 (length (jc_interfaces c) div 2) @ ?ifaces)"
    using len by (simp add: cu_at_def cursor_at_def classHeaderLen_def class_body_def)
  then obtain r1 where 1: "cu_u2 (cursor_at ?data classHeaderLen) = (length ?kinds, r1)" "cu_b r1 = ?data"
      "cu_at r1 (concat (map enc_item (jc_pool c)) @ jc_names c @ put16 (length (jc_interfaces c) div 2) @ ?ifaces)"
    using c(2) by (rule cu_u2_at) (simp add: cursor_at_def)
  obtain r2 where 2: "pool_loop (length ?kinds) 1 (r1, replicate (length ?kinds) kindOther) = (r2, ?kinds)" "cu_b r2 = ?data"
      "cu_at r2 (jc_names c @ put16 (length (jc_interfaces c) div 2) @ ?ifaces)"
    using pool_loop_at [OF 1(3) c(1), of "[kindOther]" 1] 1(2) by (auto simp: pool_kinds_def)
  obtain r3 where 3: "cu_take 6 r2 = (jc_names c, r3)" "cu_b r3 = ?data"
      "cu_at r3 (put16 (length (jc_interfaces c) div 2) @ ?ifaces)"
    using cu_take_at [OF 2(3) c(3)] 2(2) by metis
  obtain r4 where 4: "cu_u2 r3 = (length (jc_interfaces c) div 2, r4)" "cu_b r4 = ?data" "cu_at r4 ?ifaces"
    using cu_u2_at [OF 3(3) c(5)] 3(2) by metis
  obtain r5 where 5: "cu_take (length (jc_interfaces c)) r4 = (jc_interfaces c, r5)" "cu_b r5 = ?data" "cu_at r5 ?fields"
    using cu_take_at [OF 4(3) refl] 4(2) by metis
  obtain r6 where 6: "members False ?kinds (r5, False) = (r6, False)" "cu_b r6 = ?data" "cu_at r6 ?methods"
    using members_at [OF 5(3) c(6), of False ?kinds False] 5(2) by auto
  obtain r7 where 7: "members True ?kinds (r6, False) = (r7, class_has_lvt c)" "cu_b r7 = ?data" "cu_at r7 ?attrs"
    using members_at [OF 6(3) c(7), of True ?kinds False] c(8) 6(2) by (auto simp: class_has_lvt_def)
  obtain r8 where 8: "attributes ?kinds (\<lambda>_ _ st. st) (r7, ()) = (r8, ())" "cu_b r8 = ?data" "cu_at r8 rest"
    using attributes_at [where visit = "\<lambda>_ _ st. st" and upd = "\<lambda>_ _ st. st" and kinds = ?kinds and x = "()", OF 7(3) c(9)] 7(2)
    by (metis (lifting) unit.exhaust)
  have "scan_end ?data = (r8, class_has_lvt c)"
    unfolding scan_end_def 1(1) Let_def prod.case 2(1) 3(1) snd_conv 4(1) c(4) 5(1) 6(1) 7(1) 8(1) by (rule refl)
  then show thesis using 8(2,3) that by blast
qed

section \<open>A truncated class\<close>

text \<open>
  A run over a prefix follows the run over the whole until one of them fails: \<open>in_step m\<close> relates their states, with
  what the reads returned so far.
\<close>

definition stuck :: "string \<Rightarrow> cursor \<Rightarrow> bool" where
  "stuck reason r \<longleftrightarrow> cu_failed r \<and> cu_reason r = reason"

definition in_step :: "nat \<Rightarrow> cursor \<times> 'r \<Rightarrow> cursor \<times> 'r \<Rightarrow> bool" where
  "in_step m st st' \<longleftrightarrow>
     cu_failed (fst st) \<or> stuck reasonTruncatedBody (fst st') \<or>
     (fst st' = (fst st)\<lparr>cu_b := take m (cu_b (fst st))\<rparr> \<and> cu_pos (fst st) \<le> m \<and> m \<le> length (cu_b (fst st)) \<and> snd st' = snd st)"

lemma stuck_fail [simp]: "stuck x r \<Longrightarrow> stuck x (cu_fail y r)" "cu_failed r \<Longrightarrow> cu_failed (cu_fail y r)"
  by (auto simp: stuck_def cu_fail_def)

lemma stuck_take [simp]: "stuck x r \<Longrightarrow> stuck x (snd (cu_take n r))" "cu_failed r \<Longrightarrow> cu_failed (snd (cu_take n r))"
  by (auto simp: cu_take_def stuck_def cu_fail_def)

lemma stuck_uint [simp]: "stuck x r \<Longrightarrow> stuck x (snd (cu_uint n r))" "cu_failed r \<Longrightarrow> cu_failed (snd (cu_uint n r))"
  by (simp_all add: cu_uint_def split_beta Let_def)

lemma stuck_u2 [simp]: "stuck x r \<Longrightarrow> stuck x (snd (cu_u2 r))" "cu_failed r \<Longrightarrow> cu_failed (snd (cu_u2 r))"
  by (simp_all add: cu_u2_def)

lemma in_step_take:
  assumes "in_step m (r, x) (r', x')" "\<And>y. x = y \<Longrightarrow> x' = y \<Longrightarrow> n = n'"
  shows "in_step m (snd (cu_take n r), (fst (cu_take n r), x)) (snd (cu_take n' r'), (fst (cu_take n' r'), x'))"
proof -
  consider "cu_failed r" | "stuck reasonTruncatedBody r'"
    | "\<not> cu_failed r" "r' = r\<lparr>cu_b := take m (cu_b r)\<rparr>" "cu_pos r \<le> m" "m \<le> length (cu_b r)" "x' = x" "n' = n"
    using assms by (auto simp: in_step_def)
  then show ?thesis
  proof cases
    case 3
    then show ?thesis
      by (auto simp: in_step_def cu_take_def cu_fail_def stuck_def bslice_def min_def take_drop)
  qed (auto simp: in_step_def)
qed

definition sticky :: "(cursor \<Rightarrow> cursor \<times> 'r) \<Rightarrow> bool" where
  "sticky F \<longleftrightarrow> (\<forall>r. (cu_failed r \<longrightarrow> cu_failed (fst (F r))) \<and>
     (stuck reasonTruncatedBody r \<longrightarrow> stuck reasonTruncatedBody (fst (F r))))"

definition follows :: "nat \<Rightarrow> (cursor \<Rightarrow> cursor \<times> 'r) \<Rightarrow> bool" where
  \<comment> \<open>an operation that runs in step over a prefix\<close>
  "follows m F \<longleftrightarrow> sticky F \<and> (\<forall>r r'. in_step m (r, ()) (r', ()) \<longrightarrow> in_step m (F r) (F r'))"

lemma in_step_fst: "in_step m (r, x) (r', x') \<Longrightarrow> in_step m (r, ()) (r', ())"
  by (auto simp: in_step_def)

lemma in_step_bind:
  assumes "in_step m (r, x) (r', x')" "\<And>y. follows m (F y)"
  shows "in_step m (F x r) (F x' r')"
proof -
  consider "cu_failed r" | "stuck reasonTruncatedBody r'" | "x' = x" using assms(1) by (auto simp: in_step_def)
  then show ?thesis
  proof cases
    case 3
    then show ?thesis using assms(2) in_step_fst [OF assms(1)] by (auto simp: follows_def)
  qed (use assms(2) in \<open>auto simp: follows_def sticky_def in_step_def\<close>)
qed

lemma follows_bind:
  assumes "follows m F" "\<And>y. follows m (G y)"
  shows "follows m (\<lambda>r. let (r1, y) = F r in G y r1)"
proof -
  have "in_step m (G (snd (F r)) (fst (F r))) (G (snd (F r')) (fst (F r')))" if "in_step m (r, ()) (r', ())" for r r'
  proof (rule in_step_bind [OF _ assms(2)])
    show "in_step m (fst (F r), snd (F r)) (fst (F r'), snd (F r'))" using assms(1) that by (simp add: follows_def)
  qed
  then show ?thesis using assms by (auto simp: follows_def sticky_def split_beta Let_def)
qed

lemma follows_return: "follows m (\<lambda>r. (r, x))"
  by (auto simp: follows_def sticky_def in_step_def)

lemma follows_if: "follows m F \<Longrightarrow> follows m G \<Longrightarrow> follows m (\<lambda>r. if c then F r else G r)"
  by (cases c) simp_all

lemma follows_unless:
  assumes "follows m F"
  shows "follows m (\<lambda>r. if cu_failed r then (r, x) else F r)"
proof -
  have "in_step m (if cu_failed r then (r, x) else F r) (if cu_failed r' then (r', x) else F r')"
    if rel: "in_step m (r, ()) (r', ())" for r r'
  proof -
    consider "cu_failed r" | "stuck reasonTruncatedBody r'" | "\<not> cu_failed r" "\<not> cu_failed r'"
      using rel by (cases "cu_failed r"; cases "cu_failed r'") (auto simp: in_step_def)
    then show ?thesis
      using assms rel by cases (auto simp: follows_def in_step_def stuck_def)
  qed
  then show ?thesis using assms by (auto simp: follows_def sticky_def stuck_def)
qed

definition back_to_front :: "'a \<times> 'b \<Rightarrow> 'b \<times> 'a" where
  "back_to_front p = (snd p, fst p)"

lemma follows_take: "follows m (\<lambda>r. back_to_front (cu_take n r))"
  using in_step_take [where m = m and n = n and n' = n and x = "()" and x' = "()"]
  by (auto simp: follows_def sticky_def back_to_front_def in_step_def)

lemma follows_uint: "follows m (\<lambda>r. back_to_front (cu_uint n r))"
  using follows_take [of m n] by (auto simp: follows_def sticky_def back_to_front_def in_step_def cu_uint_def split_beta Let_def)

lemma follows_u2: "follows m (\<lambda>r. back_to_front (cu_u2 r))"
  using follows_uint [of m 2] by (simp add: cu_u2_def)

lemma follows_fail: "follows m (\<lambda>r. (cu_fail reason r, x))"
  by (auto simp: follows_def sticky_def in_step_def) (auto simp: cu_fail_def)

lemmas follows_reads = follows_take follows_uint follows_u2

lemma follows_let:
  assumes "follows m (\<lambda>r. back_to_front (F r))" "\<And>y. follows m (G y)"
  shows "follows m (\<lambda>r. let (y, r1) = F r in G y r1)"
  using follows_bind [OF assms] by (simp add: back_to_front_def split_beta)

lemma follows_after:
  assumes "follows m (\<lambda>r. back_to_front (F r))" "follows m G"
  shows "follows m (\<lambda>r. G (snd (F r)))"
  using follows_let [OF assms(1), of "\<lambda>_. G"] assms(2) by (simp add: split_beta)

definition visitor_follows :: "nat \<Rightarrow> 'r visitor \<Rightarrow> bool" where
  "visitor_follows m visit \<longleftrightarrow> (\<forall>k b x. follows m (\<lambda>r. visit k b (r, x)))"

lemma attr_step_follows:
  assumes "visitor_follows m visit"
  shows "follows m (\<lambda>r. attr_step kinds visit (r, x))"
proof -
  have step: "attr_step kinds visit (r, x) = (let (index, r1) = cu_u2 r in let (len, r2) = cu_uint 4 r1 in
      let (body, r3) = cu_take len r2 in visit (kind_at kinds index) body (r3, x))" for r
    by (simp add: attr_step_def kind_at_def)
  show ?thesis
    unfolding step using assms by (intro follows_let follows_reads) (simp add: visitor_follows_def)
qed

lemma attr_loop_follows:
  assumes "visitor_follows m visit"
  shows "follows m (\<lambda>r. attr_loop kinds visit n (r, x))"
proof (induction n arbitrary: x)
  case 0
  show ?case by (simp add: follows_return)
next
  case (Suc n)
  let ?F = "\<lambda>r. let (r1, y) = attr_step kinds visit (r, x) in attr_loop kinds visit n (r1, y)"
  have F: "follows m ?F" by (rule follows_bind [OF attr_step_follows [OF assms] Suc.IH])
  have loop: "attr_loop kinds visit (Suc n) (r, x) = (if cu_failed r then (r, x) else ?F r)" for r
    by (simp add: split_beta)
  show ?case unfolding loop by (rule follows_unless [OF F])
qed

lemma attributes_follows:
  assumes "visitor_follows m visit"
  shows "follows m (\<lambda>r. attributes kinds visit (r, x))"
  unfolding attributes_def fst_conv snd_conv
  by (intro follows_let follows_u2 attr_loop_follows assms)

lemma codeHasLVT_follows: "follows m (\<lambda>r. back_to_front (codeHasLVT kinds body r))"
proof -
  obtain found reason bad where "\<And>r. back_to_front (codeHasLVT kinds body r) = (if bad then cu_fail reason r else r, found)"
    by (simp add: codeHasLVT_def Let_def split_beta back_to_front_def)
  then show ?thesis by (cases bad) (simp_all add: follows_fail follows_return)
qed

lemma member_visit_follows: "visitor_follows m (member_visit methods kinds)"
proof -
  have "follows m (\<lambda>r. let (has, r') = codeHasLVT kinds body r in (r', found \<or> has))" for body found
    by (intro follows_let codeHasLVT_follows follows_return)
  then show ?thesis
    unfolding visitor_follows_def member_visit_def prod.case Let_def [of "(_, _)"]
    by (intro allI follows_if follows_return) simp_all
qed

lemma member_loop_follows: "follows m (\<lambda>r. member_loop methods kinds n (r, found))"
proof (induction n arbitrary: found)
  case 0
  show ?case by (simp add: follows_return)
next
  case (Suc n)
  let ?F = "\<lambda>r. let (_, r0) = cu_take 6 r in
      let (r1, y) = attributes kinds (member_visit methods kinds) (r0, found) in member_loop methods kinds n (r1, y)"
  have F: "follows m ?F"
    by (intro follows_let follows_take follows_bind [OF attributes_follows] member_visit_follows Suc.IH)
  have loop: "member_loop methods kinds (Suc n) (r, found) = (if cu_failed r then (r, found) else ?F r)" for r
    by (simp add: split_beta)
  show ?case unfolding loop by (rule follows_unless [OF F])
qed

lemma members_follows: "follows m (\<lambda>r. members methods kinds (r, found))"
  unfolding members_def fst_conv snd_conv by (intro follows_let follows_u2 member_loop_follows)

lemma pool_entry_follows: "follows m (\<lambda>r. pool_entry index tag (r, kinds))"
proof -
  have entry: "pool_entry index tag (r, kinds) =
      (if tag = cpUTF8 then
         let (len, r1) = cu_u2 r in let (name, r2) = cu_take len r1 in (r2, kinds[index := utf8_kind name (kinds ! index)])
       else if tag < length cpFixed \<and> cpFixed ! tag \<noteq> 0 then let (_, r1) = cu_take (cpFixed ! tag) r in (r1, kinds)
       else (cu_fail reasonBadPoolTag r, kinds))" for r
    by (simp add: pool_entry_def split_beta)
  show ?thesis
    unfolding entry by (intro follows_if follows_let follows_u2 follows_take follows_return follows_fail)
qed

lemma pool_loop_follows: "follows m (\<lambda>r. pool_loop slots index (r, kinds))"
proof (induction "slots - index" arbitrary: index kinds rule: less_induct)
  case less
  let ?next = "\<lambda>tag. if tag = 5 \<or> tag = 6 then index + 2 else index + 1"
  let ?F = "\<lambda>r. let (tag, r1) = cu_uint 1 r in
      let (r2, ks) = pool_entry index tag (r1, kinds) in pool_loop slots (?next tag) (r2, ks)"
  show ?case
  proof (cases "index < slots")
    case True
    have F: "follows m ?F"
      by (intro follows_let follows_uint follows_bind [OF pool_entry_follows] less) (use True in auto)
    have loop: "pool_loop slots index (r, kinds) = (if cu_failed r then (r, kinds) else ?F r)" for r
      using True by (subst pool_loop.simps) (simp add: split_beta)
    show ?thesis unfolding loop by (rule follows_unless [OF F])
  next
    case False
    then have "pool_loop slots index (r, kinds) = (r, kinds)" for r by (simp add: pool_loop.simps)
    then show ?thesis by (simp add: follows_return)
  qed
qed

definition scan_run :: "cursor \<Rightarrow> cursor \<times> bool" where
  "scan_run r =
     (let (slots, r1) = cu_u2 r in
      let (r2, kinds) = pool_loop slots 1 (r1, replicate slots kindOther) in
      let (_, r3) = cu_take 6 r2 in
      let (interfaces, r4) = cu_u2 r3 in
      let (_, r5) = cu_take (2 * interfaces) r4 in
      let (r6, no) = members False kinds (r5, False) in
      let (r7, found) = members True kinds (r6, no) in
      let (r8, _) = attributes kinds (\<lambda>_ _ st. st) (r7, ())
      in (r8, found))"

lemma scan_end_run: "scan_end data = scan_run (cursor_at data classHeaderLen)"
  by (simp add: scan_end_def scan_run_def Let_def split_beta)

lemma scan_run_follows: "follows m scan_run"
proof -
  have visit: "visitor_follows m (\<lambda>_ _ st. st)" by (simp add: visitor_follows_def follows_return)
  show ?thesis
    unfolding scan_run_def
    by (intro follows_let follows_u2 follows_take follows_bind [OF pool_loop_follows] follows_bind [OF members_follows]
        follows_bind [OF attributes_follows [OF visit]] follows_return)
qed

lemma scan_truncated:
  assumes "class_ok c" "length head = 8" "8 \<le> m" "m < length (head @ class_body c)"
  shows "cu_reason (fst (scan_end (take m (head @ class_body c)))) = reasonTruncatedBody"
proof -
  let ?data = "head @ class_body c"
  obtain r where r: "scan_end ?data = (r, class_has_lvt c)" "cu_at r []" "cu_b r = ?data"
    using scan_end_at [OF assms(1,2), of "[]"] by auto
  have pos: "\<not> cu_failed r" "m < cu_pos r" using r(2,3) assms(4) by (auto simp: cu_at_def)
  have "in_step m (cursor_at ?data classHeaderLen, ()) (cursor_at (take m ?data) classHeaderLen, ())"
    using assms(3,4) by (simp add: in_step_def cursor_at_def classHeaderLen_def)
  then have "in_step m (scan_end ?data) (scan_end (take m ?data))"
    using scan_run_follows [of m] by (simp add: scan_end_run follows_def)
  then show ?thesis using pos r(1) by (auto simp: in_step_def stuck_def)
qed

text \<open>What the facts of a class are.\<close>

definition header_facts :: "java_class \<Rightarrow> facts" where
  "header_facts c = nullFacts\<lparr>majorKnown := True, major := jc_major c\<rparr>"

lemma classFacts_header:
  assumes "class_ok c" "8 \<le> m"
  shows "classFacts (take m (encode_class c @ rest)) =
    (let (found, reason) = scanLocalVariableTable (take m (encode_class c @ rest))
     in if reason = [] then (header_facts c)\<lparr>lvtKnown := True, lvt := found\<rparr>
        else (header_facts c)\<lparr>fpartial := True, freason := reason\<rparr>)"
proof -
  let ?head = "classMagic @ jc_minor c @ put16 (jc_major c)" and ?data = "take m (encode_class c @ rest)"
  have len: "length ?head = 8" using assms(1) by (simp add: class_ok_def classMagic_def)
  have data: "?data = ?head @ take (m - 8) (class_body c @ rest)"
    using assms(2) len take_append [of m ?head "class_body c @ rest"] by (simp add: encode_class_def)
  have "jc_major c < 65536" "length (jc_minor c) = 2" using assms(1) by (auto simp: class_ok_def)
  moreover have "jc_major c div 256 < 256" using \<open>jc_major c < 65536\<close> by simp
  ultimately have major: "unat (?data ! 6) * 256 + unat (?data ! 7) = jc_major c"
    unfolding data by (simp add: nth_append classMagic_def put16_def unat_byte)
  have "take 4 ?data = classMagic" "\<not> length ?data < classHeaderLen"
    unfolding data using len by (simp_all add: classMagic_def classHeaderLen_def)
  then show ?thesis using major by (simp add: classFacts_def header_facts_def Let_def split: prod.split)
qed

text \<open>
  C16. The facts of a class file are exact. For every well-formed class, whatever follows it in the file, the walk
  reports its major version and whether some method has a local variable table; and a file cut anywhere after the
  header keeps the major version and is reported as partial, with the reason truncated-body, never with a wrong fact
  about the table.
\<close>

theorem class_facts_exact:
  assumes "class_ok c" and "8 \<le> m"
  shows "classFacts (take m (encode_class c @ rest)) =
    (if m < length (encode_class c) then (header_facts c)\<lparr>fpartial := True, freason := reasonTruncatedBody\<rparr>
     else (header_facts c)\<lparr>lvtKnown := True, lvt := class_has_lvt c\<rparr>)"
proof -
  define head where "head = classMagic @ jc_minor c @ put16 (jc_major c)"
  have len: "length head = 8" using assms(1) by (simp add: head_def class_ok_def classMagic_def)
  have enc: "encode_class c = head @ class_body c" by (simp add: encode_class_def head_def)
  show ?thesis
  proof (cases "m < length (encode_class c)")
    case True
    then have cut: "take m (encode_class c @ rest) = take m (head @ class_body c)" by (simp add: enc)
    have reason: "cu_reason (fst (scan_end (take m (head @ class_body c)))) = reasonTruncatedBody"
      using scan_truncated [OF assms(1) len assms(2)] True by (simp add: enc)
    show ?thesis
      by (subst classFacts_header [OF assms]) (simp only: scan_scan_end cut reason Let_def prod.case True if_True,
        simp add: reasonTruncatedBody_def)
  next
    case False
    let ?rest = "take (m - length (encode_class c)) rest"
    have cut: "take m (encode_class c @ rest) = head @ class_body c @ ?rest" using False by (simp add: enc)
    obtain r where "scan_end (head @ class_body c @ ?rest) = (r, class_has_lvt c)" "cu_reason r = []"
      using scan_end_at [OF assms(1) len] by (metis cu_at_def)
    then show ?thesis
      by (subst classFacts_header [OF assms]) (simp only: scan_scan_end cut Let_def prod.case False if_False fst_conv snd_conv, simp)
  qed
qed

definition demo_class :: java_class where
  "demo_class = \<lparr>jc_minor = [0, 0], jc_major = 61,
     jc_pool = [Utf8 [67, 111, 100, 101], Const 5 [0, 0, 0, 0, 0, 0, 0, 1],
       Utf8 [76, 111, 99, 97, 108, 86, 97, 114, 105, 97, 98, 108, 101, 84, 97, 98, 108, 101]],
     jc_names = [0, 1, 0, 1, 0, 1], jc_interfaces = [0, 1], jc_fields = [([0, 0, 0, 1, 0, 1], [(1, Bytes [7])])],
     jc_methods = [([0, 0, 0, 1, 0, 1], [(1, CodeBody [0, 1, 0, 1] [0xB1] [] [(4, [0, 0])])])], jc_attrs = []\<rparr>"

lemma demo_class_ok: "class_ok demo_class" "class_has_lvt demo_class" "length (encode_class demo_class) = 113"
  by code_simp+

theorem class_facts_exact_witness:
  "classFacts (encode_class demo_class) = (header_facts demo_class)\<lparr>lvtKnown := True, lvt := True\<rparr> \<and>
   classFacts (take 40 (encode_class demo_class)) = (header_facts demo_class)\<lparr>fpartial := True, freason := ''truncated-body''\<rparr>"
  using class_facts_exact [OF demo_class_ok(1), of 200 "[]"] class_facts_exact [OF demo_class_ok(1), of 40 "[]"] demo_class_ok
  by (simp add: reasonTruncatedBody_def)

section \<open>The two summaries\<close>

text \<open>The invariant of the facts of a class, read or not.\<close>

definition facts_inv :: "facts \<Rightarrow> bool" where
  "facts_inv f \<longleftrightarrow>
     (lvtKnown f \<longleftrightarrow> majorKnown f \<and> \<not> fpartial f) \<and> (fpartial f \<longrightarrow> majorKnown f) \<and>
     (majorKnown f \<longrightarrow> (freason f = [] \<longleftrightarrow> \<not> fpartial f)) \<and> major f < 65536"

lemma nullWith_inv: "facts_inv (nullWith reason)" "facts_inv nullFacts"
  by (simp_all add: facts_inv_def nullWith_def nullFacts_def)

lemma classFacts_inv: "facts_inv (classFacts data)"
proof -
  have "unat (data ! 6) * 256 + unat (data ! 7) < 65536"
    using unsigned_less [of "data ! 6", where 'a=nat] unsigned_less [of "data ! 7", where 'a=nat] by simp
  then show ?thesis
    by (auto simp: classFacts_def nullWith_inv Let_def split: prod.split) (auto simp: facts_inv_def nullFacts_def)
qed

text \<open>The CLASSFILE line of \<open>classfile.go\<close>.\<close>

record tally =
  ta_classes :: nat
  ta_risky :: nat
  ta_unreadable :: nat
  ta_partial :: nat
  ta_lo :: nat
  ta_hi :: nat
  ta_haveMajor :: bool
  ta_lvtYes :: bool
  ta_lvtNo :: bool

definition tally_start :: tally where
  "tally_start = \<lparr>ta_classes = 0, ta_risky = 0, ta_unreadable = 0, ta_partial = 0, ta_lo = 0, ta_hi = 0,
     ta_haveMajor = False, ta_lvtYes = False, ta_lvtNo = False\<rparr>"

definition tally_step :: "tally \<Rightarrow> facts \<Rightarrow> tally" where
  "tally_step t0 r =
     (let t = t0\<lparr>ta_classes := ta_classes t0 + 1\<rparr>;
          t = (if majorKnown r then
                 (let t = (if ta_haveMajor t then t\<lparr>ta_lo := min (ta_lo t) (major r), ta_hi := max (ta_hi t) (major r)\<rparr>
                           else t\<lparr>ta_lo := major r, ta_hi := major r, ta_haveMajor := True\<rparr>);
                      t = (if resugarRisk r then t\<lparr>ta_risky := ta_risky t + 1\<rparr> else t)
                  in if fpartial r then t\<lparr>ta_partial := ta_partial t + 1\<rparr> else t)
               else t\<lparr>ta_unreadable := ta_unreadable t + 1\<rparr>)
      in if lvtKnown r then t\<lparr>ta_lvtYes := ta_lvtYes t \<or> lvt r, ta_lvtNo := ta_lvtNo t \<or> \<not> lvt r\<rparr> else t)"

definition lvt_state :: "bool \<Rightarrow> bool \<Rightarrow> string" where
  "lvt_state yes no = (if yes \<and> no then ''mixed'' else if yes then ''yes'' else if no then ''no'' else ''unknown'')"

definition truncNone :: string where "truncNone = ''none''"
definition truncEntryCap :: string where "truncEntryCap = ''entry-cap''"
definition truncByteCap :: string where "truncByteCap = ''byte-cap''"

definition classfile_line :: "tally \<Rightarrow> string \<Rightarrow> string" where
  "classfile_line t truncated =
     (let major = (if \<not> ta_haveMajor t then ''unknown''
                   else if ta_lo t \<noteq> ta_hi t then dec_str (ta_lo t) @ ''-'' @ dec_str (ta_hi t) else dec_str (ta_lo t));
          risk = (if \<not> ta_haveMajor t then ''unknown'' else if 0 < ta_risky t then ''yes'' else ''no'');
          line = ''CLASSFILE major='' @ major @ '' lvt='' @ lvt_state (ta_lvtYes t) (ta_lvtNo t) @ '' classes='' @
            dec_str (ta_classes t) @ '' resugar_risk='' @ risk @ '' unreadable='' @ dec_str (ta_unreadable t) @
            '' partial='' @ dec_str (ta_partial t) @ '' truncated='' @ truncated
      in if truncated \<noteq> truncNone then line @ '' reason=facts-truncated:'' @ truncated else line)"

definition summarize :: "facts list \<Rightarrow> string \<Rightarrow> string" where
  "summarize records truncated = classfile_line (foldl tally_step tally_start records) truncated"

text \<open>The report's side, \<open>jar.go\<close>: a fact with absent parts, and its summary.\<close>

record fact =
  fa_major :: "nat option"
  fa_lvt :: "bool option"
  fa_risk :: "bool option"
  fa_reason :: string

definition public :: "facts \<Rightarrow> fact" where
  "public f = \<lparr>fa_major = (if majorKnown f then Some (major f) else None),
     fa_lvt = (if lvtKnown f then Some (lvt f) else None),
     fa_risk = (if majorKnown f then Some (resugarRisk f) else None), fa_reason = freason f\<rparr>"

definition ReadFacts :: "bytes \<Rightarrow> fact" where
  "ReadFacts data = public (classFacts data)"

definition or_null :: "('a \<Rightarrow> jval) \<Rightarrow> 'a option \<Rightarrow> jval" where
  "or_null f x = (case x of None \<Rightarrow> JNull | Some v \<Rightarrow> f v)"

definition fact_map :: "bytes \<Rightarrow> fact \<Rightarrow> jval" where
  "fact_map entry f = JMap [(asc ''entry'', JStr entry), (asc ''major_version'', or_null (\<lambda>m. JInt (int m)) (fa_major f)),
     (asc ''has_LocalVariableTable'', or_null JBool (fa_lvt f)), (asc ''resugar_risk'', or_null JBool (fa_risk f)),
     (asc ''reason'', if fa_reason f = [] then JNull else JStr (asc (fa_reason f)))]"

record java_summary =
  js_classes :: nat
  js_majors :: "nat list"
  js_lvt :: string
  js_risk :: nat
  js_unreadable :: nat
  js_partial :: nat

record census =
  ce_seen :: "nat set"
  ce_yes :: bool
  ce_no :: bool
  ce_risk :: nat
  ce_unreadable :: nat
  ce_partial :: nat

definition census_start :: census where
  "census_start = \<lparr>ce_seen = {}, ce_yes = False, ce_no = False, ce_risk = 0, ce_unreadable = 0, ce_partial = 0\<rparr>"

definition census_step :: "census \<Rightarrow> fact \<Rightarrow> census" where
  "census_step c0 r =
     (let c = (case fa_major r of
                 Some m \<Rightarrow> (let c = c0\<lparr>ce_seen := insert m (ce_seen c0)\<rparr>
                           in if fa_reason r \<noteq> [] then c\<lparr>ce_partial := ce_partial c + 1\<rparr> else c)
               | None \<Rightarrow> c0\<lparr>ce_unreadable := ce_unreadable c0 + 1\<rparr>);
          c = (case fa_lvt r of Some l \<Rightarrow> c\<lparr>ce_yes := ce_yes c \<or> l, ce_no := ce_no c \<or> \<not> l\<rparr> | None \<Rightarrow> c)
      in if fa_risk r = Some True then c\<lparr>ce_risk := ce_risk c + 1\<rparr> else c)"

definition Summarize :: "fact list \<Rightarrow> java_summary" where
  "Summarize records =
     (let c = foldl census_step census_start records
      in \<lparr>js_classes = length records, js_majors = sorted_list_of_set (ce_seen c), js_lvt = lvt_state (ce_yes c) (ce_no c),
          js_risk = ce_risk c, js_unreadable = ce_unreadable c, js_partial = ce_partial c\<rparr>)"

definition summary_object :: "java_summary \<Rightarrow> jval" where
  "summary_object s = JMap [(asc ''classes'', JInt (int (js_classes s))),
     (asc ''major_versions'', JList (map (\<lambda>m. JInt (int m)) (js_majors s))), (asc ''lvt'', JStr (asc (js_lvt s))),
     (asc ''resugar_risk_classes'', JInt (int (js_risk s))), (asc ''unreadable_classes'', JInt (int (js_unreadable s))),
     (asc ''partial_classes'', JInt (int (js_partial s)))]"

text \<open>The line as a function of the report's summary.\<close>

definition line_of_summary :: "java_summary \<Rightarrow> string \<Rightarrow> string" where
  "line_of_summary s truncated =
     (let ms = js_majors s;
          major = (if ms = [] then ''unknown'' else if length ms = 1 then dec_str (hd ms)
                   else dec_str (hd ms) @ ''-'' @ dec_str (last ms));
          risk = (if ms = [] then ''unknown'' else if 0 < js_risk s then ''yes'' else ''no'')
      in ''CLASSFILE major='' @ major @ '' lvt='' @ js_lvt s @ '' classes='' @ dec_str (js_classes s) @ '' resugar_risk='' @ risk @
         '' unreadable='' @ dec_str (js_unreadable s) @ '' partial='' @ dec_str (js_partial s) @ '' truncated='' @ truncated @
         (if truncated = ''none'' then [] else '' reason=facts-truncated:'' @ truncated))"

lemma tally_census:
  assumes "list_all facts_inv records"
  shows "let t = foldl tally_step tally_start records; c = foldl census_step census_start (map public records)
    in ta_classes t = length records \<and> ta_risky t = ce_risk c \<and> ta_unreadable t = ce_unreadable c \<and>
       ta_partial t = ce_partial c \<and> ta_lvtYes t = ce_yes c \<and> ta_lvtNo t = ce_no c \<and> finite (ce_seen c) \<and>
       (ta_haveMajor t \<longleftrightarrow> ce_seen c \<noteq> {}) \<and>
       (ta_haveMajor t \<longrightarrow> ta_lo t = Min (ce_seen c) \<and> ta_hi t = Max (ce_seen c))"
  using assms
proof (induction records rule: rev_induct)
  case Nil
  then show ?case by (simp add: tally_start_def census_start_def)
next
  case (snoc r rs)
  have inv: "facts_inv r" using snoc.prems by simp
  have IH: "let t = foldl tally_step tally_start rs; c = foldl census_step census_start (map public rs)
    in ta_classes t = length rs \<and> ta_risky t = ce_risk c \<and> ta_unreadable t = ce_unreadable c \<and>
       ta_partial t = ce_partial c \<and> ta_lvtYes t = ce_yes c \<and> ta_lvtNo t = ce_no c \<and> finite (ce_seen c) \<and>
       (ta_haveMajor t \<longleftrightarrow> ce_seen c \<noteq> {}) \<and>
       (ta_haveMajor t \<longrightarrow> ta_lo t = Min (ce_seen c) \<and> ta_hi t = Max (ce_seen c))"
    using snoc by simp
  define t where "t = foldl tally_step tally_start rs"
  define c where "c = foldl census_step census_start (map public rs)"
  have min_max: "Min (insert m S) = (if S = {} then m else min (Min S) m)" "Max (insert m S) = (if S = {} then m else max (Max S) m)"
    if "finite S" for m :: nat and S
    using that by (auto simp: min.commute max.commute)
  show ?case
    using IH inv unfolding Let_def foldl_append map_append foldl_Cons foldl_Nil list.map t_def [symmetric] c_def [symmetric]
    by (cases "majorKnown r"; cases "fpartial r"; cases "resugarRisk r"; cases "ta_haveMajor t")
      (auto simp: tally_step_def census_step_def public_def facts_inv_def Let_def min_max resugarRisk_def)
qed

lemma sorted_list_ends:
  fixes S :: "nat set"
  assumes "finite S" "S \<noteq> {}"
  shows "hd (sorted_list_of_set S) = Min S" "last (sorted_list_of_set S) = Max S"
    "length (sorted_list_of_set S) = 1 \<longleftrightarrow> Min S = Max S"
proof -
  show "hd (sorted_list_of_set S) = Min S" using assms by (metis sorted_list_of_set_nonempty list.sel(1))
  have ne: "sorted_list_of_set S \<noteq> []" and set: "set (sorted_list_of_set S) = S" using assms by auto
  show "last (sorted_list_of_set S) = Max S"
  proof (rule Max_eqI [symmetric])
    show "last (sorted_list_of_set S) \<in> S" using last_in_set [OF ne] set by simp
    show "y \<le> last (sorted_list_of_set S)" if "y \<in> S" for y
      using that ne set sorted_sorted_list_of_set [of S]
      by (metis append_butlast_last_id in_set_conv_nth length_append_singleton less_Suc_eq_le nth_append_length sorted_nth_mono lessI)
  qed (use assms in simp)
  have "Min S = Max S \<longleftrightarrow> S = {Min S}"
    using assms by (metis Max_ge Max_singleton Min_in Min_le antisym singletonD singletonI subsetI subset_antisym empty_subsetI insert_subset)
  then show "length (sorted_list_of_set S) = 1 \<longleftrightarrow> Min S = Max S"
    using assms by (auto simp: card_1_singleton_iff)
qed

text \<open>
  The two summaries agree. The CLASSFILE line, whose counts and bounds are kept class by class, is the one its
  format gives for the summary the corroboration report makes of the same classes: the same number of classes,
  unreadable and partial ones, the least and the greatest major version, the same table state and the same risk; and
  every fact the reader makes satisfies what the agreement needs.
\<close>

theorem class_summaries_agree:
  assumes "list_all facts_inv records"
  shows "summarize records truncated = line_of_summary (Summarize (map public records)) truncated \<and>
    facts_inv (classFacts data) \<and> facts_inv (nullWith reason)"
proof -
  define t where "t = foldl tally_step tally_start records"
  define c where "c = foldl census_step census_start (map public records)"
  have agree: "ta_classes t = length records" "ta_risky t = ce_risk c" "ta_unreadable t = ce_unreadable c"
    "ta_partial t = ce_partial c" "ta_lvtYes t = ce_yes c" "ta_lvtNo t = ce_no c" "finite (ce_seen c)"
    "ta_haveMajor t \<longleftrightarrow> ce_seen c \<noteq> {}" "ta_haveMajor t \<longrightarrow> ta_lo t = Min (ce_seen c) \<and> ta_hi t = Max (ce_seen c)"
    using tally_census [OF assms] by (simp_all add: t_def c_def Let_def)
  have "classfile_line t truncated = line_of_summary (Summarize (map public records)) truncated"
    using agree sorted_list_ends [of "ce_seen c"] unfolding Summarize_def c_def [symmetric]
    by (cases "ce_seen c = {}") (auto simp: classfile_line_def line_of_summary_def Let_def truncNone_def)
  then show ?thesis by (simp add: summarize_def t_def classFacts_inv nullWith_inv)
qed

theorem class_summaries_agree_witness:
  "summarize [classFacts [0xCA], classFacts (encode_class demo_class), nullFacts] ''none'' =
   line_of_summary (Summarize (map public [classFacts [0xCA], classFacts (encode_class demo_class), nullFacts])) ''none''"
  using class_summaries_agree [of "[classFacts [0xCA], classFacts (encode_class demo_class), nullFacts]" "''none''" "[]" "[]"]
  by (simp add: classFacts_inv nullWith_inv)

lemma cursor_reads_after_failure:
  "let r = snd (cu_take 9 (cursor_at [0, 7] 0)) in cu_failed r \<and> fst (cu_u2 r) = 7"
  by code_simp

end
