(* ===== verification/Class_Jar.thy ===== *)
theory Class_Jar
  imports Class_Facts Zip_Read "HOL-Library.List_Lexorder"
begin

text \<open>
  The second ZIP reader, \<open>internal/corroborate/classfile/zip.go\<close>, which reads class files out of a jar the way
  Python's \<open>zipfile\<close> does, and the commands over it (\<open>classfile.go\<close>, \<open>jar.go\<close>). A Go pointer to an entry is the
  entry's index; offsets are integers, wrapped to \<open>int64\<close> where the code converts from \<open>uint64\<close>. \<open>compress/flate\<close> is
  a parameter: what it writes for a source that delivers some bytes and ends with some error.
\<close>

section \<open>Records and reads\<close>

datatype jar_err =
    PyError string \<comment> \<open>\<open>pyError\<close>: the archive, by the class of the exception\<close>
  | EntryError string \<comment> \<open>\<open>entryError\<close>: one entry\<close>
  | ErrCrash
  | OSErr string

type_synonym 'a jar_res = "(jar_err, 'a) res"

record jar_entry =
  je_orig :: bytes
  je_name :: bytes
  je_flags :: u16
  je_method :: u16
  je_crc :: u32
  je_extAttr :: u32
  je_csize :: u64
  je_usize :: u64
  je_hoff :: int
  je_endOff :: int

record archive =
  ar_r :: reader_at
  ar_size :: int
  ar_entries :: "jar_entry list"
  ar_byName :: "bytes \<Rightarrow> nat option"

record eocd =
  eo_size :: u64
  eo_offset :: u64
  eo_location :: int

definition eocdLen :: int where "eocdLen = 22"
definition endSearchWindow :: int where "endSearchWindow = 65536 + eocdLen"
definition eocd64LocatorLen :: int where "eocd64LocatorLen = 20"
definition eocd64Len :: int where "eocd64Len = 56"
definition cdHeaderLen :: nat where "cdHeaderLen = 46"
definition localHeaderLen :: nat where "localHeaderLen = 30"
definition maxExtractMajor :: byte where "maxExtractMajor = 63"
definition flagEncrypted :: u16 where "flagEncrypted = 0x1"
definition flagPatched :: u16 where "flagPatched = 0x20"
definition flagStrongEnc :: u16 where "flagStrongEnc = 0x40"
definition flagUTF8Name :: u16 where "flagUTF8Name = 0x800"
definition methodStored :: u16 where "methodStored = 0"
definition methodDeflated :: u16 where "methodDeflated = 8"
definition sigEOCD :: bytes where "sigEOCD = [0x50, 0x4B, 5, 6]"
definition sigEOCD64 :: bytes where "sigEOCD64 = [0x50, 0x4B, 6, 6]"
definition sigEOCD64Loc :: bytes where "sigEOCD64Loc = [0x50, 0x4B, 6, 7]"
definition sigCentralDir :: bytes where "sigCentralDir = [0x50, 0x4B, 1, 2]"
definition sigLocalHeader :: bytes where "sigLocalHeader = [0x50, 0x4B, 3, 4]"
definition zip64Sentinel32 :: u64 where "zip64Sentinel32 = 0xFFFFFFFF"

definition jar_readAt :: "reader_at \<Rightarrow> int \<Rightarrow> nat \<Rightarrow> bytes" where
  "jar_readAt r off n = fst (r off n)"

definition readPadded :: "reader_at \<Rightarrow> int \<Rightarrow> nat \<Rightarrow> bytes" where
  "readPadded r off n = fst (r off n) @ replicate (n - length (fst (r off n))) 0"

section \<open>The end record\<close>

definition eocdOf :: "bytes \<Rightarrow> int \<Rightarrow> eocd" where
  "eocdOf hdr location = \<lparr>eo_size = ucast (le32 hdr 12), eo_offset = ucast (le32 hdr 16), eo_location = location\<rparr>"

definition withZip64 :: "reader_at \<Rightarrow> eocd \<Rightarrow> eocd option" where
  "withZip64 r hdr =
     (let at = eo_location hdr - eocd64LocatorLen; loc = readPadded r at (nat eocd64LocatorLen)
      in if take 4 loc \<noteq> sigEOCD64Loc then Some hdr
         else
           let reloff = le64 loc 8
           in if le32 loc 4 \<noteq> 0 \<or> le32 loc 16 > 1 then None
              else
                let at = at - eocd64Len
                in if at < 0 \<or> int (unat reloff) > at then None
                   else
                     let data0 = readPadded r (int (unat reloff)) (nat eocd64Len);
                         moved = (take 4 data0 \<noteq> sigEOCD64 \<and> int (unat reloff) \<noteq> at);
                         extra = (if moved then 0 else at - int (unat reloff));
                         data = (if moved then readPadded r at (nat eocd64Len) else data0)
                     in if take 4 data \<noteq> sigEOCD64 then None
                        else
                          let dirsize = le64 data 40; diroffset = le64 data 48
                          in if unat diroffset + unat dirsize \<noteq> unat reloff \<or>
                                le64 data 4 \<noteq> word_of_int (eocd64Len - 12 + extra)
                             then None
                             else Some \<lparr>eo_size = dirsize, eo_offset = diroffset, eo_location = at - extra\<rparr>)"

definition jar_findEOCD :: "reader_at \<Rightarrow> int \<Rightarrow> eocd option" where
  "jar_findEOCD r fsize =
     (let tail = jar_readAt r (fsize - eocdLen) (nat eocdLen)
      in if int (length tail) = eocdLen \<and> take 4 tail = sigEOCD \<and> tail ! 20 = 0 \<and> tail ! 21 = 0
         then withZip64 r (eocdOf tail (fsize - eocdLen))
         else
           let base = max (fsize - endSearchWindow) 0; data = jar_readAt r base (nat (fsize - base))
           in case last_index_of data sigEOCD of
                None \<Rightarrow> None
              | Some at \<Rightarrow>
                  if int (length data - at) < eocdLen then None
                  else withZip64 r (eocdOf (bslice data at (at + nat eocdLen)) (base + int at)))"

section \<open>The directory\<close>

text \<open>The high half of the code page, \<open>cp437.go\<close>.\<close>

definition cp437High :: "rune list" where
  "cp437High = [
     0x00c7, 0x00fc, 0x00e9, 0x00e2, 0x00e4, 0x00e0, 0x00e5, 0x00e7,
     0x00ea, 0x00eb, 0x00e8, 0x00ef, 0x00ee, 0x00ec, 0x00c4, 0x00c5,
     0x00c9, 0x00e6, 0x00c6, 0x00f4, 0x00f6, 0x00f2, 0x00fb, 0x00f9,
     0x00ff, 0x00d6, 0x00dc, 0x00a2, 0x00a3, 0x00a5, 0x20a7, 0x0192,
     0x00e1, 0x00ed, 0x00f3, 0x00fa, 0x00f1, 0x00d1, 0x00aa, 0x00ba,
     0x00bf, 0x2310, 0x00ac, 0x00bd, 0x00bc, 0x00a1, 0x00ab, 0x00bb,
     0x2591, 0x2592, 0x2593, 0x2502, 0x2524, 0x2561, 0x2562, 0x2556,
     0x2555, 0x2563, 0x2551, 0x2557, 0x255d, 0x255c, 0x255b, 0x2510,
     0x2514, 0x2534, 0x252c, 0x251c, 0x2500, 0x253c, 0x255e, 0x255f,
     0x255a, 0x2554, 0x2569, 0x2566, 0x2560, 0x2550, 0x256c, 0x2567,
     0x2568, 0x2564, 0x2565, 0x2559, 0x2558, 0x2552, 0x2553, 0x256b,
     0x256a, 0x2518, 0x250c, 0x2588, 0x2584, 0x258c, 0x2590, 0x2580,
     0x03b1, 0x00df, 0x0393, 0x03c0, 0x03a3, 0x03c3, 0x00b5, 0x03c4,
     0x03a6, 0x0398, 0x03a9, 0x03b4, 0x221e, 0x03c6, 0x03b5, 0x2229,
     0x2261, 0x00b1, 0x2265, 0x2264, 0x2320, 0x2321, 0x00f7, 0x2248,
     0x00b0, 0x2219, 0x00b7, 0x221a, 0x207f, 0x00b2, 0x25a0, 0x00a0]"

definition decodeName :: "bytes \<Rightarrow> bool \<Rightarrow> bytes jar_res" where
  "decodeName raw utf8Flag =
     (if utf8Flag then (if \<not> utf8_valid raw then Fail ErrCrash else Ok raw)
      else Ok (bytes_of (map (\<lambda>c. if c < 0x80 then unat c else cp437High ! unat (c AND 0x7f)) raw)))"

definition sanitize :: "bytes \<Rightarrow> bytes" where
  "sanitize name = takeWhile (\<lambda>c. c \<noteq> 0) name"

definition errBad :: "'a jar_res" where
  "errBad = Fail (PyError ''BadZipFile'')"

text \<open>One ZIP64 field: the value it replaces when the header holds the sentinel, and the data left.\<close>

definition zip64_field :: "(u64 \<Rightarrow> bool) \<Rightarrow> u64 \<Rightarrow> bytes \<Rightarrow> (u64 \<times> bytes) jar_res" where
  "zip64_field wanted v data =
     (if \<not> wanted v then Ok (v, data)
      else if length data < 8 then errBad
      else Ok (le64 data 0, drop 8 data))"

definition extra_field :: "u16 \<Rightarrow> bytes \<Rightarrow> u32 \<Rightarrow> jar_entry \<times> u64 \<Rightarrow> (jar_entry \<times> u64) jar_res" where
  "extra_field tp data nameCRC st =
     (let (e, hoff) = st
      in if tp = 0x0001 then
           andthen (zip64_field (\<lambda>v. v = zip64Sentinel32 \<or> v = NOT 0) (je_usize e) data) (\<lambda>(usize, data).
           andthen (zip64_field (\<lambda>v. v = zip64Sentinel32) (je_csize e) data) (\<lambda>(csize, data).
           andthen (zip64_field (\<lambda>v. v = zip64Sentinel32) hoff data) (\<lambda>(hoff, data).
             Ok (e\<lparr>je_usize := usize, je_csize := csize\<rparr>, hoff))))
         else if tp = 0x7075 then
           (if length data < 5 then errBad
            else if data ! 0 = 1 \<and> le32 data 1 = nameCRC then
              (if \<not> utf8_valid (drop 5 data) then errBad
               else if 5 < length data then Ok (e\<lparr>je_name := sanitize (drop 5 data)\<rparr>, hoff)
               else Ok (e, hoff))
            else Ok (e, hoff))
         else Ok (e, hoff))"

function decodeExtra :: "bytes \<Rightarrow> u32 \<Rightarrow> jar_entry \<times> u64 \<Rightarrow> (jar_entry \<times> u64) jar_res" where
  "decodeExtra extra nameCRC st =
     (if length extra < 4 then Ok st
      else
        let tp = le16 extra 0; ln = unat (le16 extra 2)
        in if length extra < ln + 4 then errBad
           else case extra_field tp (bslice extra 4 (4 + ln)) nameCRC st of
                  Ok st' \<Rightarrow> decodeExtra (drop (ln + 4) extra) nameCRC st'
                | Fail e \<Rightarrow> Fail e
                | Panic \<Rightarrow> Panic)"
  by pat_completeness auto
termination
  by (relation "measure (\<lambda>(extra, _). length extra)") auto

declare decodeExtra.simps [simp del]

text \<open>One entry of the directory, without the offset where its data must end; and what it takes of the directory.\<close>

definition cd_entry :: "u64 \<Rightarrow> bytes \<Rightarrow> (jar_entry \<times> bytes \<times> nat) jar_res" where
  "cd_entry concat_off dir0 =
     (if length dir0 < cdHeaderLen then errBad
      else
        let hdr = take cdHeaderLen dir0; dir1 = drop cdHeaderLen dir0
        in if take 4 hdr \<noteq> sigCentralDir then errBad
           else
             let n1 = unat (le16 hdr 28); n2 = unat (le16 hdr 30); n3 = unat (le16 hdr 32);
                 rawName = take n1 dir1; dir2 = drop n1 dir1;
                 extra = take n2 dir2; dir3 = drop n3 (drop n2 dir2);
                 flags = le16 hdr 8
             in andthen (decodeName rawName (flags AND flagUTF8Name \<noteq> 0)) (\<lambda>orig.
                  let e = \<lparr>je_orig = orig, je_name = sanitize orig, je_flags = flags, je_method = le16 hdr 10,
                           je_crc = le32 hdr 16, je_extAttr = le32 hdr 38, je_csize = ucast (le32 hdr 20),
                           je_usize = ucast (le32 hdr 24), je_hoff = 0, je_endOff = 0\<rparr>
                  in if maxExtractMajor < hdr ! 6 then Fail (PyError ''NotImplementedError'')
                     else andthen (decodeExtra extra (crc32 rawName) (e, ucast (le32 hdr 42))) (\<lambda>(e, hoff).
                       Ok (e\<lparr>je_hoff := sint (hoff + concat_off)\<rparr>, dir3, cdHeaderLen + n1 + n2 + n3))))"

lemma cd_entry_shrinks: "cd_entry off dir = Ok (e, dir', n) \<Longrightarrow> length dir' < length dir"
  by (auto simp: cd_entry_def errBad_def cdHeaderLen_def Let_def res_simps split: if_splits)

function cd_loop :: "u64 \<Rightarrow> nat \<Rightarrow> bytes \<Rightarrow> nat \<Rightarrow> jar_entry list \<Rightarrow> jar_entry list jar_res" where
  "cd_loop off dsize dir done es =
     (if dsize \<le> done then Ok es
      else case cd_entry off dir of
             Ok (e, dir', n) \<Rightarrow> cd_loop off dsize dir' (done + n) (es @ [e])
           | Fail e \<Rightarrow> Fail e
           | Panic \<Rightarrow> Panic)"
  by pat_completeness auto
termination
  by (relation "measure (\<lambda>(_, _, dir, _). length dir)") (auto dest: cd_entry_shrinks)

declare cd_loop.simps [simp del]

text \<open>Where an entry's data must end: the next header, going down from the directory; ties keep the directory's order.\<close>

definition end_order :: "jar_entry list \<Rightarrow> nat list" where
  "end_order es = sort_key (\<lambda>i. - je_hoff (es ! i)) [0..<length es]"

definition set_ends :: "jar_entry list \<Rightarrow> int \<Rightarrow> nat list \<Rightarrow> jar_entry list \<times> int" where
  "set_ends es start order =
     foldl (\<lambda>(es, end) i. (es[i := (es ! i)\<lparr>je_endOff := end\<rparr>], je_hoff (es ! i))) (es, start) order"

definition openArchive :: "reader_at \<Rightarrow> int \<Rightarrow> eocd \<Rightarrow> archive jar_res" where
  "openArchive r fsize hdr =
     (let start = eo_location hdr - sint (eo_size hdr);
          off = word_of_int (eo_location hdr) - eo_size hdr - eo_offset hdr;
          dir = jar_readAt r start (min (unat (eo_size hdr)) (unat (word_of_int fsize :: u64)))
      in andthen (cd_loop off (unat (eo_size hdr)) dir 0 []) (\<lambda>es.
           Ok \<lparr>ar_r = r, ar_size = fsize, ar_entries = fst (set_ends es start (end_order es)),
               ar_byName = foldl (\<lambda>m i. m(je_name (es ! i) \<mapsto> i)) Map.empty [0..<length es]\<rparr>))"

definition hasSuffix :: "bytes \<Rightarrow> bytes \<Rightarrow> bool" where
  "hasSuffix s suffix \<longleftrightarrow> length suffix \<le> length s \<and> drop (length s - length suffix) s = suffix"

definition classNames :: "archive \<Rightarrow> bytes list" where
  "classNames a = sort (filter (\<lambda>name. hasSuffix name (asc ''.class'')) (map je_name (ar_entries a)))"

section \<open>Reading an entry\<close>

type_synonym inflate = "bytes \<times> io_err option \<Rightarrow> bytes list \<times> io_err option"

definition cap_write :: "nat \<Rightarrow> bytes \<Rightarrow> bytes \<Rightarrow> bytes" where
  "cap_write limit buf p = buf @ take (min (length p) (limit - length buf)) p"

definition entry_bad :: "string \<Rightarrow> 'a jar_res" where
  "entry_bad s = Fail (EntryError s)"

definition entry_data :: "inflate \<Rightarrow> archive \<Rightarrow> jar_entry \<Rightarrow> int \<Rightarrow> nat \<Rightarrow> bytes jar_res" where
  "entry_data inflate a e pos got =
     (if je_method e = methodStored then
        (if unat (je_csize e) \<noteq> got \<and> got < unat (je_usize e) then entry_bad ''EOFError''
         else Ok (jar_readAt (ar_r a) pos (min (unat (je_usize e)) got)))
      else if je_method e = methodDeflated then
        (let (chunks, err) = inflate (ar_r a pos got); buf = foldl (cap_write (unat (je_usize e))) [] chunks
         in if err \<noteq> None \<and> err \<noteq> Some UnexpectedEOF then entry_bad ''error''
            else if err \<noteq> None \<and> unat (je_csize e) \<noteq> got \<and> length buf < unat (je_usize e) then entry_bad ''EOFError''
            else Ok buf)
      else entry_bad ''NotImplementedError'')"

text \<open>Where an entry's data starts: past its local header, which must carry the directory's name.\<close>

definition jar_locate :: "archive \<Rightarrow> jar_entry \<Rightarrow> int jar_res" where
  "jar_locate a e =
     (if je_hoff e < 0 then entry_bad ''OSError''
      else
        let hdr = jar_readAt (ar_r a) (je_hoff e) localHeaderLen
        in if length hdr \<noteq> localHeaderLen \<or> take 4 hdr \<noteq> sigLocalHeader then entry_bad ''BadZipFile''
           else
             let fname = jar_readAt (ar_r a) (je_hoff e + int localHeaderLen) (unat (le16 hdr 26));
                 pos = je_hoff e + int localHeaderLen + int (length fname) + int (unat (le16 hdr 28))
             in if je_flags e AND (flagPatched OR flagStrongEnc) \<noteq> 0 then entry_bad ''NotImplementedError''
                else case decodeName fname (le16 hdr 6 AND flagUTF8Name \<noteq> 0) of
                  Panic \<Rightarrow> Panic
                | Fail _ \<Rightarrow> Fail ErrCrash
                | Ok local \<Rightarrow> if local \<noteq> je_orig e then entry_bad ''BadZipFile'' else Ok pos)"

definition jar_read :: "inflate \<Rightarrow> archive \<Rightarrow> jar_entry \<Rightarrow> bytes jar_res" where
  "jar_read inflate a e =
     andthen (jar_locate a e) (\<lambda>pos.
       if uint (word_of_int (je_endOff e) :: u64) < pos + int (unat (je_csize e)) then entry_bad ''BadZipFile''
       else if je_flags e AND flagEncrypted \<noteq> 0 then entry_bad ''RuntimeError''
       else
         let avail = max (ar_size a - pos) 0; got = nat (min (int (unat (je_csize e))) avail)
         in if 0 < unat (je_csize e) \<and> got = 0 then entry_bad ''EOFError''
            else andthen (entry_data inflate a e pos got) (\<lambda>data.
              if crc32 data \<noteq> je_crc e then entry_bad ''BadZipFile'' else Ok data))"

section \<open>The commands\<close>

definition entryFacts :: "inflate \<Rightarrow> archive \<Rightarrow> jar_entry \<Rightarrow> nat \<Rightarrow> facts jar_res" where
  "entryFacts inflate a e maxClass =
     (if maxClass < unat (je_usize e) then Ok (nullWith reasonEntryTooLarge)
      else case jar_read inflate a e of
             Ok data \<Rightarrow> Ok (classFacts data)
           | Fail (EntryError cls) \<Rightarrow>
               (if cls = ''RuntimeError'' \<or> cls = ''OSError'' then Ok (nullWith reasonUnreadableEntry)
                else Ok (nullWith reasonCorruptEntry))
           | Fail e \<Rightarrow> Fail e
           | Panic \<Rightarrow> Panic)"

fun facts_loop ::
  "inflate \<Rightarrow> archive \<Rightarrow> nat \<Rightarrow> nat \<Rightarrow> bytes list \<Rightarrow> nat \<Rightarrow> string \<Rightarrow> facts list \<Rightarrow> (facts list \<times> string) jar_res"
where
  "facts_loop inflate a maxExpanded maxClass [] spent truncated records = Ok (records, truncated)"
| "facts_loop inflate a maxExpanded maxClass (name # names) spent truncated records =
     (case ar_byName a name of
        None \<Rightarrow> Panic \<comment> \<open>a nil entry\<close>
      | Some i \<Rightarrow>
          (let e = ar_entries a ! i
           in if maxExpanded - spent < unat (je_usize e) then Ok (records, truncByteCap)
              else andthen (entryFacts inflate a e maxClass) (\<lambda>f.
                facts_loop inflate a maxExpanded maxClass names (spent + unat (je_usize e)) truncated (records @ [f]))))"

definition collectArchive ::
  "inflate \<Rightarrow> reader_at \<Rightarrow> int \<Rightarrow> eocd \<Rightarrow> nat \<Rightarrow> nat \<Rightarrow> nat \<Rightarrow> (facts list \<times> string) jar_res" where
  "collectArchive inflate r fsize hdr maxEntries maxExpanded maxClass =
     andthen (openArchive r fsize hdr) (\<lambda>a.
       let names = classNames a
       in if maxEntries < length names
          then facts_loop inflate a maxExpanded maxClass (take maxEntries names) 0 truncEntryCap []
          else facts_loop inflate a maxExpanded maxClass names 0 truncNone [])"

text \<open>What the operating system answers for a path: an open file with its size, its status, its bytes.\<close>

record os_path =
  op_open :: "(reader_at \<times> int) option"
  op_stat :: "(string, int) res"
  op_read :: "(string, bytes) res"

definition classfile_collect ::
  "inflate \<Rightarrow> os_path \<Rightarrow> nat \<Rightarrow> nat \<Rightarrow> nat \<Rightarrow> (facts list \<times> string) jar_res" where
  "classfile_collect inflate os maxEntries maxExpanded maxClass =
     (let plain =
        (case op_stat os of
           Fail cls \<Rightarrow> Fail (OSErr cls)
         | Panic \<Rightarrow> Panic
         | Ok fsize \<Rightarrow>
             if maxClass < unat (word_of_int fsize :: u64) then Ok ([nullFacts], truncNone)
             else case op_read os of
                    Fail cls \<Rightarrow> Fail (OSErr cls)
                  | Panic \<Rightarrow> Panic
                  | Ok data \<Rightarrow> Ok ([classFacts data], truncNone))
      in case op_open os of
           None \<Rightarrow> plain
         | Some (r, fsize) \<Rightarrow>
             (case jar_findEOCD r fsize of
                Some hdr \<Rightarrow> collectArchive inflate r fsize hdr maxEntries maxExpanded maxClass
              | None \<Rightarrow> plain))"

text \<open>\<open>Run\<close> after its arguments: the exit code and the line it prints.\<close>

definition classfile_run :: "inflate \<Rightarrow> os_path \<Rightarrow> nat \<Rightarrow> nat \<Rightarrow> nat \<Rightarrow> (jar_err, nat \<times> string option) res" where
  "classfile_run inflate os maxEntries maxExpanded maxClass =
     (let unreadable = (\<lambda>cls. Ok (0, Some (''CLASSFILE major=unknown lvt=unknown classes=unknown resugar_risk=unknown '' @
        ''unreadable=unknown partial=unknown truncated=unknown reason=unreadable-input('' @ cls @ '')'')))
      in case classfile_collect inflate os maxEntries maxExpanded maxClass of
           Ok (records, truncated) \<Rightarrow> Ok (0, Some (summarize records truncated))
         | Fail ErrCrash \<Rightarrow> Ok (1, None)
         | Fail (PyError cls) \<Rightarrow> unreadable cls
         | Fail (EntryError cls) \<Rightarrow> unreadable ''OSError''
         | Fail (OSErr cls) \<Rightarrow> unreadable cls
         | Panic \<Rightarrow> Panic)"

text \<open>The slice of \<open>zipfile.ZipFile\<close> the corroboration report uses.\<close>

record entry_info =
  ei_Name :: bytes
  ei_Size :: nat
  ei_Mode :: u32

definition IsDir :: "entry_info \<Rightarrow> bool" where
  "IsDir e \<longleftrightarrow> hasSuffix (ei_Name e) [47]"

definition IsSymlink :: "entry_info \<Rightarrow> bool" where
  "IsSymlink e \<longleftrightarrow> ei_Mode e AND 0xF000 = 0xA000"

definition jar_Entries :: "archive \<Rightarrow> entry_info list" where
  "jar_Entries a = map (\<lambda>e. \<lparr>ei_Name = je_name e, ei_Size = unat (je_usize e),
     ei_Mode = drop_bit 16 (je_extAttr e) AND 0xFFFF\<rparr>) (ar_entries a)"

definition PyClass :: "jar_err \<Rightarrow> string" where
  "PyClass e = (case e of PyError cls \<Rightarrow> cls | EntryError cls \<Rightarrow> cls | _ \<Rightarrow> [])"

fun testzip_loop :: "inflate \<Rightarrow> archive \<Rightarrow> jar_entry list \<Rightarrow> bytes jar_res" where
  "testzip_loop inflate a [] = Ok []"
| "testzip_loop inflate a (e # es) =
     (case ar_byName a (je_name e) of
        None \<Rightarrow> Panic
      | Some i \<Rightarrow>
          (case jar_read inflate a (ar_entries a ! i) of
             Ok _ \<Rightarrow> testzip_loop inflate a es
           | Fail err \<Rightarrow> (if PyClass err = ''BadZipFile'' then Ok (je_name e) else Fail err)
           | Panic \<Rightarrow> Panic))"

definition TestZip :: "inflate \<Rightarrow> archive \<Rightarrow> bytes jar_res" where
  "TestZip inflate a = testzip_loop inflate a (ar_entries a)"

definition jar_Facts :: "inflate \<Rightarrow> archive \<Rightarrow> bytes \<Rightarrow> nat \<Rightarrow> fact jar_res" where
  "jar_Facts inflate a entry maxClass =
     (case ar_byName a entry of
        None \<Rightarrow> Ok (public (nullWith reasonUnreadableEntry))
      | Some i \<Rightarrow> andthen (entryFacts inflate a (ar_entries a ! i) maxClass) (\<lambda>f. Ok (public f)))"

section \<open>Where entries end\<close>

lemma set_ends_Cons:
  "set_ends es start (i # order) = set_ends (es[i := (es ! i)\<lparr>je_endOff := start\<rparr>]) (je_hoff (es ! i)) order"
  by (simp add: set_ends_def)

lemma set_ends_length: "length (fst (set_ends es start order)) = length es"
proof (induction order arbitrary: es start)
  case (Cons i order)
  then show ?case by (simp add: set_ends_Cons)
qed (simp add: set_ends_def)

lemma set_ends_other: "j \<notin> set order \<Longrightarrow> fst (set_ends es start order) ! j = es ! j"
proof (induction order arbitrary: es start)
  case (Cons i order)
  then show ?case by (simp add: set_ends_Cons)
qed (simp add: set_ends_def)

lemma set_ends_nth:
  assumes "distinct order" "set order \<subseteq> {..<length es}" "k < length order"
  shows "fst (set_ends es start order) ! (order ! k) =
    (es ! (order ! k))\<lparr>je_endOff := (if k = 0 then start else je_hoff (es ! (order ! (k - 1))))\<rparr>"
  using assms
proof (induction order arbitrary: es start k)
  case (Cons i order)
  let ?es = "es[i := (es ! i)\<lparr>je_endOff := start\<rparr>]"
  show ?case
  proof (cases k)
    case 0
    then show ?thesis using Cons.prems by (simp add: set_ends_Cons set_ends_other)
  next
    case (Suc k')
    have ne: "i \<noteq> order ! j" if "j < length order" for j using Cons.prems(1) that nth_mem by fastforce
    have "fst (set_ends ?es (je_hoff (es ! i)) order) ! (order ! k') =
      (?es ! (order ! k'))\<lparr>je_endOff := (if k' = 0 then je_hoff (es ! i) else je_hoff (?es ! (order ! (k' - 1))))\<rparr>"
      using Cons.IH [of ?es k' "je_hoff (es ! i)"] Cons.prems Suc by simp
    then show ?thesis using Suc ne Cons.prems(3) by (cases k') (simp_all add: set_ends_Cons)
  qed
qed simp

lemma end_order_perm: "distinct (end_order es)" "set (end_order es) = {..<length es}" "length (end_order es) = length es"
  by (auto simp: end_order_def)

lemma end_order_down:
  assumes "k \<le> l" "l < length es"
  shows "je_hoff (es ! (end_order es ! l)) \<le> je_hoff (es ! (end_order es ! k))"
proof -
  have "sorted (map (\<lambda>i. - je_hoff (es ! i)) (end_order es))" by (simp add: end_order_def)
  then have "map (\<lambda>i. - je_hoff (es ! i)) (end_order es) ! k \<le> map (\<lambda>i. - je_hoff (es ! i)) (end_order es) ! l"
    using assms end_order_perm(3) [of es] by (intro sorted_nth_mono) simp_all
  then show ?thesis using assms end_order_perm(3) [of es] by simp
qed

text \<open>An entry's data ends where another one's header starts, or where the directory does.\<close>

lemma ends_bound:
  fixes start :: int
  assumes "i < length es" "j < length es" "i \<noteq> j"
  defines "es' \<equiv> fst (set_ends es start (end_order es))"
  shows "je_hoff (es' ! i) = je_hoff (es ! i)"
    and "je_endOff (es' ! i) \<le> je_hoff (es ! j) \<or> je_endOff (es' ! j) \<le> je_hoff (es ! i)"
    and "0 \<le> start \<Longrightarrow> 0 \<le> je_hoff (es ! i) \<Longrightarrow> 0 \<le> je_endOff (es' ! i)"
proof -
  have perm: "\<exists>k < length es. end_order es ! k = i" if "i < length es" for i
    using that end_order_perm [of es] by (metis in_set_conv_nth lessThan_iff)
  have at: "es' ! (end_order es ! k) =
      (es ! (end_order es ! k))\<lparr>je_endOff := (if k = 0 then start else je_hoff (es ! (end_order es ! (k - 1))))\<rparr>"
    if "k < length es" for k
    unfolding es'_def using that end_order_perm [of es] by (intro set_ends_nth) auto
  obtain k l where k: "k < length es" "end_order es ! k = i" and l: "l < length es" "end_order es ! l = j"
    using perm assms(1,2) by blast
  show "je_hoff (es' ! i) = je_hoff (es ! i)" using at [OF k(1)] k(2) by simp
  have "k \<noteq> l" using assms(3) k l by auto
  then consider "k < l" | "l < k" by linarith
  then show "je_endOff (es' ! i) \<le> je_hoff (es ! j) \<or> je_endOff (es' ! j) \<le> je_hoff (es ! i)"
  proof cases
    case 1
    then have "je_endOff (es' ! j) \<le> je_hoff (es ! i)"
      using at [OF l(1)] end_order_down [of k "l - 1" es] k l by simp
    then show ?thesis ..
  next
    case 2
    then have "je_endOff (es' ! i) \<le> je_hoff (es ! j)"
      using at [OF k(1)] end_order_down [of l "k - 1" es] k l by simp
    then show ?thesis ..
  qed
  show "0 \<le> je_endOff (es' ! i)" if "0 \<le> start" "0 \<le> je_hoff (es ! i)"
  proof (cases "k = 0")
    case False
    have "je_hoff (es ! i) \<le> je_hoff (es ! (end_order es ! (k - 1)))" using end_order_down [of "k - 1" k es] k by simp
    then show ?thesis using at [OF k(1)] k(2) False that(2) by simp
  qed (use at [OF k(1)] k(2) that(1) in simp)
qed

section \<open>What a read entry is\<close>

definition span_end :: "archive \<Rightarrow> jar_entry \<Rightarrow> int" where
  \<comment> \<open>the end of the entry: its local header, its name and extra fields, its compressed data\<close>
  "span_end a e = (case jar_locate a e of Ok pos \<Rightarrow> pos + int (unat (je_csize e)) | _ \<Rightarrow> je_hoff e)"

lemma jar_locate_Ok: "jar_locate a e = Ok pos \<Longrightarrow> 0 \<le> je_hoff e \<and> je_hoff e + int localHeaderLen \<le> pos"
  by (auto simp: jar_locate_def Let_def entry_bad_def not_less split: if_split_asm res.split_asm)

lemma cap_write_fold:
  "length buf \<le> limit \<Longrightarrow> foldl (cap_write limit) buf chunks = take limit (buf @ concat chunks)"
proof (induction chunks arbitrary: buf)
  case (Cons p chunks)
  have "length (cap_write limit buf p) \<le> limit" using Cons.prems by (simp add: cap_write_def)
  from Cons.IH [OF this] show ?case using Cons.prems by (simp add: cap_write_def min_def)
qed simp

lemma jar_read_Ok:
  assumes "jar_read inflate a e = Ok data" "reads_at (ar_r a)"
  shows "0 \<le> je_hoff e" "span_end a e \<le> uint (word_of_int (je_endOff e) :: u64)" "crc32 data = je_crc e"
    "length data \<le> unat (je_usize e)"
proof -
  obtain pos got where pos: "jar_locate a e = Ok pos" and data: "entry_data inflate a e pos got = Ok data"
      and crc: "crc32 data = je_crc e" and fits: "pos + int (unat (je_csize e)) \<le> uint (word_of_int (je_endOff e) :: u64)"
    using assms(1) by (auto simp: jar_read_def entry_bad_def Let_def andthen_Ok_iff not_less split: if_split_asm)
  show "0 \<le> je_hoff e" "span_end a e \<le> uint (word_of_int (je_endOff e) :: u64)" "crc32 data = je_crc e"
    using jar_locate_Ok [OF pos] pos fits crc by (simp_all add: span_end_def)
  note data
  moreover have "length (jar_readAt (ar_r a) pos n) \<le> n" for n
    using reads_at.read_le [OF assms(2)] by (simp add: jar_readAt_def)
  ultimately show "length data \<le> unat (je_usize e)"
    by (auto simp: entry_data_def entry_bad_def Let_def cap_write_fold split: if_split_asm prod.split_asm
        intro: order_trans [OF _ min.cobounded1])
qed

lemma openArchive_parts:
  assumes "openArchive r fsize hdr = Ok a"
  obtains es where "ar_r a = r" "ar_size a = fsize"
    "ar_entries a = fst (set_ends es (eo_location hdr - sint (eo_size hdr)) (end_order es))"
    "cd_loop (word_of_int (eo_location hdr) - eo_size hdr - eo_offset hdr) (unat (eo_size hdr))
       (jar_readAt r (eo_location hdr - sint (eo_size hdr)) (min (unat (eo_size hdr)) (unat (word_of_int fsize :: u64)))) 0 [] = Ok es"
    "ar_byName a = foldl (\<lambda>m i. m(je_name (es ! i) \<mapsto> i)) Map.empty [0..<length es]"
  using assms by (auto simp: openArchive_def Let_def res_simps)

lemma directory_start:
  assumes "openArchive (bytes_reader data) fsize hdr = Ok a" "ar_entries a \<noteq> []"
  shows "0 \<le> eo_location hdr - sint (eo_size hdr)"
proof (rule ccontr)
  assume "\<not> 0 \<le> eo_location hdr - sint (eo_size hdr)"
  then have none: "jar_readAt (bytes_reader data) (eo_location hdr - sint (eo_size hdr)) n = []" for n
    by (simp add: jar_readAt_def bytes_reader_def)
  obtain es where es: "ar_entries a = fst (set_ends es (eo_location hdr - sint (eo_size hdr)) (end_order es))"
    "cd_loop (word_of_int (eo_location hdr) - eo_size hdr - eo_offset hdr) (unat (eo_size hdr)) [] 0 [] = Ok es"
    by (rule openArchive_parts [OF assms(1), unfolded none])
  have "es = []" using es(2) by (simp add: cd_loop.simps [of _ _ "[]"] cd_entry_def cdHeaderLen_def errBad_def split: if_splits)
  then show False using es(1) assms(2) set_ends_length [of "[]"] by simp
qed

text \<open>
  C18. The members of a jar never overlap. Whatever bytes an archive holds (ZIP64 fields, names cut at a NUL,
  headers at any offset), two entries that can both be read occupy disjoint byte ranges from their local header
  to the end of their data; and what is read has the declared CRC-32 and no more bytes than
  declared. So no archive makes the reader decompress the same bytes for two entries.
\<close>

theorem jar_members_disjoint:
  assumes "openArchive (bytes_reader data) fsize hdr = Ok a"
    and "i < length (ar_entries a)" "j < length (ar_entries a)" "i \<noteq> j"
    and "jar_read inflate a (ar_entries a ! i) = Ok di" "jar_read inflate a (ar_entries a ! j) = Ok dj"
  shows "(span_end a (ar_entries a ! i) \<le> je_hoff (ar_entries a ! j) \<or>
          span_end a (ar_entries a ! j) \<le> je_hoff (ar_entries a ! i)) \<and>
    0 \<le> je_hoff (ar_entries a ! i) \<and> crc32 di = je_crc (ar_entries a ! i) \<and> length di \<le> unat (je_usize (ar_entries a ! i))"
proof -
  let ?start = "eo_location hdr - sint (eo_size hdr)"
  obtain es where r: "ar_r a = bytes_reader data" and es: "ar_entries a = fst (set_ends es ?start (end_order es))"
    using openArchive_parts [OF assms(1)] by metis
  have len: "length es = length (ar_entries a)" by (simp add: es set_ends_length)
  have reads: "reads_at (ar_r a)" unfolding r by (rule bytes_reader.reads_at_axioms)
  have ij: "i < length es" "j < length es" using assms(2,3) len by simp_all
  have ne: "ar_entries a \<noteq> []" using assms(2) by auto
  have start: "0 \<le> ?start" by (rule directory_start [OF assms(1) ne])
  note i = jar_read_Ok [OF assms(5) reads] and j = jar_read_Ok [OF assms(6) reads]
  note bi = ends_bound [OF ij assms(4), of ?start, folded es]
    and bj = ends_bound [OF ij(2,1) assms(4) [symmetric], of ?start, folded es]
  have le: "uint (word_of_int x :: u64) \<le> x" if "0 \<le> x" for x
    using that by (simp add: uint_word_of_int_eq take_bit_eq_mod zmod_le_nonneg_dividend)
  have ei: "0 \<le> je_endOff (ar_entries a ! i)" using bi(1) bi(3) [OF start] i(1) by simp
  have ej: "0 \<le> je_endOff (ar_entries a ! j)" using bj(1) bj(3) [OF start] j(1) by simp
  have si: "span_end a (ar_entries a ! i) \<le> je_endOff (ar_entries a ! i)" using i(2) le [OF ei] by linarith
  have sj: "span_end a (ar_entries a ! j) \<le> je_endOff (ar_entries a ! j)" using j(2) le [OF ej] by linarith
  have "span_end a (ar_entries a ! i) \<le> je_hoff (ar_entries a ! j) \<or> span_end a (ar_entries a ! j) \<le> je_hoff (ar_entries a ! i)"
    using bi(2) si sj unfolding bi(1) bj(1) by (meson order_trans)
  then show ?thesis using i(1,3,4) by simp
qed

section \<open>The limits of a run\<close>

lemma cd_entry_no_panic: "no_panic (cd_entry off dir)"
proof -
  have name: "no_panic (decodeName raw flag)" for raw flag by (simp add: decodeName_def)
  have field: "no_panic (zip64_field w v data)" for w v data by (simp add: zip64_field_def errBad_def)
  have extra: "no_panic (extra_field tp data c st)" for tp data c st
    by (cases st) (auto simp: extra_field_def errBad_def Let_def split: prod.split intro!: no_panic_andthen field)
  have loop: "no_panic (decodeExtra ex c st)" for ex c st
  proof (induction ex c st rule: decodeExtra.induct)
    case (1 ex c st)
    show ?case
      using 1 extra by (subst decodeExtra.simps) (auto simp: errBad_def Let_def no_panic_def split: res.split)
  qed
  show ?thesis
    by (auto simp: cd_entry_def errBad_def Let_def split: prod.split intro!: no_panic_andthen name loop)
qed

lemma openArchive_no_panic: "no_panic (openArchive r fsize hdr)"
proof -
  have "no_panic (cd_loop off dsize dir n es)" for off dsize dir n es
  proof (induction off dsize dir n es rule: cd_loop.induct)
    case (1 off dsize dir n es)
    show ?case
      using 1 cd_entry_no_panic [of off dir] by (subst cd_loop.simps) (auto simp: no_panic_def split: res.split)
  qed
  then show ?thesis by (auto simp: openArchive_def Let_def intro!: no_panic_andthen)
qed

lemma jar_read_no_panic: "no_panic (jar_read inflate a e)"
proof -
  have "no_panic (jar_locate a e)"
    by (auto simp: jar_locate_def decodeName_def entry_bad_def Let_def no_panic_def split: res.split)
  moreover have "no_panic (entry_data inflate a e pos got)" for pos got
    by (auto simp: entry_data_def entry_bad_def Let_def split: prod.split)
  ultimately show ?thesis
    by (auto simp: jar_read_def entry_bad_def Let_def intro!: no_panic_andthen)
qed

lemma entryFacts_no_panic: "no_panic (entryFacts inflate a e maxClass)"
  using jar_read_no_panic [of inflate a e] by (auto simp: entryFacts_def no_panic_def split: res.split jar_err.split)

text \<open>The entry a name stands for is the last one of that name.\<close>

lemma last_of_name:
  "foldl (\<lambda>m i. m(f i \<mapsto> i)) Map.empty [0..<n] name = find (\<lambda>i. f i = name) (rev [0..<n])" for f :: "nat \<Rightarrow> 'a"
  by (induction n) auto

lemma set_ends_name: "i < length es \<Longrightarrow> je_name (fst (set_ends es start order) ! i) = je_name (es ! i)"
proof (induction order arbitrary: es start)
  case (Cons k order)
  then show ?case by (cases "k = i") (simp_all add: set_ends_Cons)
qed (simp add: set_ends_def)

lemma byName_last:
  assumes "openArchive r fsize hdr = Ok a"
  shows "ar_byName a name = find (\<lambda>i. je_name (ar_entries a ! i) = name) (rev [0..<length (ar_entries a)])"
proof -
  obtain es where es: "ar_entries a = fst (set_ends es (eo_location hdr - sint (eo_size hdr)) (end_order es))"
      "ar_byName a = foldl (\<lambda>m i. m(je_name (es ! i) \<mapsto> i)) Map.empty [0..<length es]"
    by (rule openArchive_parts [OF assms])
  have "find (\<lambda>i. je_name (es ! i) = name) (rev [0..<length es]) =
      find (\<lambda>i. je_name (ar_entries a ! i) = name) (rev [0..<length es])"
    by (rule find_cong) (auto simp: es(1) set_ends_name)
  then show ?thesis by (simp add: es(2) last_of_name) (simp add: es(1) set_ends_length)
qed

lemma byName_entry:
  assumes "openArchive r fsize hdr = Ok a" "name \<in> set (map je_name (ar_entries a))"
  obtains i where "ar_byName a name = Some i" "i < length (ar_entries a)" "je_name (ar_entries a ! i) = name"
    "\<And>j. i < j \<Longrightarrow> j < length (ar_entries a) \<Longrightarrow> je_name (ar_entries a ! j) \<noteq> name"
proof -
  have "find (\<lambda>i. je_name (ar_entries a ! i) = name) (rev [0..<length (ar_entries a)]) \<noteq> None"
    using assms(2) by (auto simp: find_rev_upt_None in_set_conv_nth)
  then show thesis using byName_last [OF assms(1), of name] that by (auto simp: find_rev_upt_Some)
qed

definition entry_named :: "archive \<Rightarrow> bytes \<Rightarrow> jar_entry" where
  "entry_named a name = (case ar_byName a name of Some i \<Rightarrow> ar_entries a ! i | None \<Rightarrow> hd (ar_entries a))"

definition named_size :: "archive \<Rightarrow> bytes \<Rightarrow> nat" where
  "named_size a name = unat (je_usize (entry_named a name))"

definition limits_kept ::
  "inflate \<Rightarrow> archive \<Rightarrow> nat \<Rightarrow> nat \<Rightarrow> nat \<Rightarrow> facts list \<Rightarrow> string \<Rightarrow> bool" where
  "limits_kept inflate a maxEntries maxExpanded maxClass records truncated \<longleftrightarrow>
     (let names = classNames a; k = length records; capped = min maxEntries (length names)
      in k \<le> capped \<and> sum_list (map (named_size a) (take k names)) \<le> maxExpanded \<and>
         list_all2 (\<lambda>name f. entryFacts inflate a (entry_named a name) maxClass = Ok f) (take k names) records \<and>
         truncated = (if k < capped then truncByteCap else if capped < length names then truncEntryCap else truncNone) \<and>
         (if k < capped then maxExpanded < sum_list (map (named_size a) (take (k + 1) names)) else True))"

lemma facts_loop_spec:
  assumes "facts_loop inflate a maxExpanded maxClass names spent t records = Ok (rs, t')" "spent \<le> maxExpanded"
    and "\<And>name. name \<in> set names \<Longrightarrow> ar_byName a name \<noteq> None"
  obtains fs where "rs = records @ fs" "length fs \<le> length names"
    "list_all2 (\<lambda>name f. entryFacts inflate a (entry_named a name) maxClass = Ok f) (take (length fs) names) fs"
    "spent + sum_list (map (named_size a) (take (length fs) names)) \<le> maxExpanded"
    "t' = (if length fs < length names then truncByteCap else t)"
    "length fs < length names \<Longrightarrow> maxExpanded < spent + sum_list (map (named_size a) (take (length fs + 1) names))"
  using assms
proof (induction names arbitrary: spent records thesis)
  case Nil
  then show ?case by simp
next
  case (Cons name names)
  obtain i where i: "ar_byName a name = Some i" using Cons.prems(4) [of name] by auto
  have e: "entry_named a name = ar_entries a ! i" using i by (simp add: entry_named_def)
  have sz: "named_size a name = unat (je_usize (ar_entries a ! i))" by (simp add: named_size_def e)
  show ?case
  proof (cases "maxExpanded - spent < unat (je_usize (ar_entries a ! i))")
    case True
    then show ?thesis using Cons.prems(1) [of "[]"] Cons.prems(2,3) i by (simp add: sz)
  next
    case False
    then obtain f where f: "entryFacts inflate a (ar_entries a ! i) maxClass = Ok f"
        "facts_loop inflate a maxExpanded maxClass names (spent + unat (je_usize (ar_entries a ! i))) t (records @ [f]) = Ok (rs, t')"
      using Cons.prems(2) i by (auto simp: andthen_Ok_iff Let_def)
    have room: "spent + unat (je_usize (ar_entries a ! i)) \<le> maxExpanded" using False Cons.prems(3) by simp
    have known: "ar_byName a n \<noteq> None" if "n \<in> set names" for n using Cons.prems(4) [of n] that by simp
    show ?thesis
    proof (rule Cons.IH [OF _ f(2) room known])
      fix fs
      assume fs: "rs = (records @ [f]) @ fs" "length fs \<le> length names"
        "list_all2 (\<lambda>name f. entryFacts inflate a (entry_named a name) maxClass = Ok f) (take (length fs) names) fs"
        "spent + unat (je_usize (ar_entries a ! i)) + sum_list (map (named_size a) (take (length fs) names)) \<le> maxExpanded"
        "t' = (if length fs < length names then truncByteCap else t)"
        "length fs < length names \<Longrightarrow>
          maxExpanded < spent + unat (je_usize (ar_entries a ! i)) + sum_list (map (named_size a) (take (length fs + 1) names))"
      show thesis
        by (rule Cons.prems(1) [of "f # fs"]) (use fs f(1) in \<open>simp_all add: e sz add.assoc\<close>)
    qed simp_all
  qed
qed

lemma facts_loop_no_panic:
  assumes "\<And>name. name \<in> set names \<Longrightarrow> ar_byName a name \<noteq> None"
  shows "no_panic (facts_loop inflate a maxExpanded maxClass names spent t records)"
  using assms
proof (induction names arbitrary: spent records)
  case (Cons name names)
  then obtain i where "ar_byName a name = Some i" by fastforce
  then show ?case using Cons entryFacts_no_panic by (auto simp: Let_def intro!: no_panic_andthen)
qed simp

text \<open>
  Reading a jar for its facts respects its limits and says so. The classes read are the first ones of the sorted
  class names, as many as the entry cap and the byte cap allow: their declared sizes add up to at most the byte cap,
  the next one would exceed it when the scan stops early, and the truncation token tells exactly which cap cut
  the scan; every record is what reading that entry (the last one of its name) gives; and no archive makes the
  scan panic.
\<close>

theorem classfile_limits:
  "case collectArchive inflate r fsize hdr maxEntries maxExpanded maxClass of
     Ok (records, truncated) \<Rightarrow>
       (case openArchive r fsize hdr of
          Ok a \<Rightarrow> limits_kept inflate a maxEntries maxExpanded maxClass records truncated
        | _ \<Rightarrow> False)
   | Fail _ \<Rightarrow> True
   | Panic \<Rightarrow> False"
proof (cases "openArchive r fsize hdr")
  case (Ok a)
  let ?names = "classNames a"
  have known: "ar_byName a name \<noteq> None" if "name \<in> set (classNames a)" for name
  proof -
    have "name \<in> set (map je_name (ar_entries a))" using that by (auto simp: classNames_def)
    then show ?thesis using byName_entry [OF Ok] by blast
  qed
  have part: "ar_byName a name \<noteq> None" if "name \<in> set (take n (classNames a))" for name n
    by (rule known [OF in_set_takeD [OF that]])
  have run: "collectArchive inflate r fsize hdr maxEntries maxExpanded maxClass =
      facts_loop inflate a maxExpanded maxClass (take maxEntries ?names) 0 (if maxEntries < length ?names then truncEntryCap else truncNone) []"
    using Ok by (simp add: collectArchive_def Let_def)
  have "limits_kept inflate a maxEntries maxExpanded maxClass records truncated"
    if "collectArchive inflate r fsize hdr maxEntries maxExpanded maxClass = Ok (records, truncated)" for records truncated
  proof (rule facts_loop_spec [OF that [unfolded run] _ part])
    fix fs
    assume fs: "records = [] @ fs" "length fs \<le> length (take maxEntries ?names)"
      "list_all2 (\<lambda>name f. entryFacts inflate a (entry_named a name) maxClass = Ok f) (take (length fs) (take maxEntries ?names)) fs"
      "0 + sum_list (map (named_size a) (take (length fs) (take maxEntries ?names))) \<le> maxExpanded"
      "truncated = (if length fs < length (take maxEntries ?names) then truncByteCap
         else if maxEntries < length ?names then truncEntryCap else truncNone)"
      "length fs < length (take maxEntries ?names) \<Longrightarrow>
        maxExpanded < 0 + sum_list (map (named_size a) (take (length fs + 1) (take maxEntries ?names)))"
    have cut: "take (length fs) (take maxEntries ?names) = take (length fs) ?names"
      "length fs < length (take maxEntries ?names) \<Longrightarrow> take (length fs + 1) (take maxEntries ?names) = take (length fs + 1) ?names"
      using fs(2) by (auto simp: min_def split: if_splits)
    have size: "length (take maxEntries ?names) = min maxEntries (length ?names)" by (simp add: min.commute)
    show ?thesis
      using fs cut unfolding limits_kept_def Let_def size by (simp add: min_less_iff_disj)
  qed simp_all
  moreover have "no_panic (collectArchive inflate r fsize hdr maxEntries maxExpanded maxClass)"
    unfolding run by (rule facts_loop_no_panic [OF part])
  ultimately show ?thesis unfolding Ok by (simp add: no_panic_def split: res.split)
qed (use openArchive_no_panic [of r fsize hdr] in \<open>auto simp: collectArchive_def no_panic_def\<close>)

section \<open>A jar with two empty members\<close>

definition demo_jar_local :: "byte \<Rightarrow> bytes" where
  "demo_jar_local name = [0x50, 0x4B, 3, 4, 10, 0, 0, 0, 0, 0, 0, 0, 0, 0, 0, 0, 0, 0, 0, 0, 0, 0, 0, 0, 0, 0, 1, 0, 0, 0, name]"

definition demo_jar_central :: "byte \<Rightarrow> byte \<Rightarrow> bytes" where
  "demo_jar_central name off = [0x50, 0x4B, 1, 2, 10, 0, 10, 0, 0, 0, 0, 0, 0, 0, 0, 0, 0, 0, 0, 0, 0, 0, 0, 0, 0, 0, 0, 0, 1, 0, 0, 0, 0, 0,
     0, 0, 0, 0, 0, 0, 0, 0, off, 0, 0, 0, name]"

definition demo_jar :: bytes where
  "demo_jar = demo_jar_local 97 @ demo_jar_local 98 @ demo_jar_central 97 0 @ demo_jar_central 98 31 @
     [0x50, 0x4B, 5, 6, 0, 0, 0, 0, 2, 0, 2, 0, 94, 0, 0, 0, 62, 0, 0, 0, 0, 0]"

definition demo_member :: "bytes \<Rightarrow> int \<Rightarrow> int \<Rightarrow> jar_entry" where
  "demo_member name off end = \<lparr>je_orig = name, je_name = name, je_flags = 0, je_method = 0, je_crc = 0, je_extAttr = 0,
     je_csize = 0, je_usize = 0, je_hoff = off, je_endOff = end\<rparr>"

definition demo_eocd :: eocd where
  "demo_eocd = \<lparr>eo_size = 94, eo_offset = 62, eo_location = 156\<rparr>"

lemma demo_jar_entries:
  "cd_entry 0 (demo_jar_central 97 0 @ rest) = Ok (demo_member [97] 0 0, rest, 47)"
  "cd_entry 0 (demo_jar_central 98 31 @ rest) = Ok (demo_member [98] 31 0, rest, 47)"
  by (simp_all add: cd_entry_def demo_jar_central_def cdHeaderLen_def sigCentralDir_def le16_def le32_def bslice_def Let_def
    decodeName_def sanitize_def maxExtractMajor_def decodeExtra.simps demo_member_def encode_rune_def flagUTF8Name_def)

definition demo_archive :: archive where
  "demo_archive = \<lparr>ar_r = bytes_reader demo_jar, ar_size = 178,
     ar_entries = [demo_member [97] 0 31, demo_member [98] 31 62], ar_byName = [[97] \<mapsto> 0, [98] \<mapsto> 1]\<rparr>"

lemma demo_jar_find: "jar_findEOCD (bytes_reader demo_jar) 178 = Some demo_eocd"
  by code_simp

lemma demo_jar_dir: "jar_readAt (bytes_reader demo_jar) 62 94 = demo_jar_central 97 0 @ demo_jar_central 98 31 @ []"
  by (simp add: jar_readAt_def bytes_reader_def demo_jar_def demo_jar_local_def demo_jar_central_def)

lemma demo_jar_open: "openArchive (bytes_reader demo_jar) 178 demo_eocd = Ok demo_archive"
proof -
  have loop: "cd_loop 0 94 (demo_jar_central 97 0 @ demo_jar_central 98 31 @ []) 0 [] =
      Ok [demo_member [97] 0 0, demo_member [98] 31 0]"
    by (simp add: cd_loop.simps demo_jar_entries del: append_Nil2)
  have order: "end_order [demo_member [97] 0 0, demo_member [98] 31 0] = [1, 0]"
    by (simp add: end_order_def demo_member_def upt_rec)
  show ?thesis
    using loop
    by (simp add: openArchive_def demo_eocd_def demo_jar_dir [simplified] order set_ends_def)
      (simp add: demo_archive_def demo_member_def upt_rec)
qed

lemma demo_jar_reads: "jar_read inflate demo_archive (demo_member [97] 0 31) = Ok []"
  "jar_read inflate demo_archive (demo_member [98] 31 62) = Ok []"
  by (simp_all add: jar_read_def jar_locate_def entry_data_def demo_archive_def demo_member_def localHeaderLen_def sigLocalHeader_def
    jar_readAt_def bytes_reader_def demo_jar_def demo_jar_local_def le16_def bslice_def decodeName_def encode_rune_def flagUTF8Name_def
    methodStored_def crc32_def Let_def)

theorem jar_members_disjoint_witness:
  "jar_findEOCD (bytes_reader demo_jar) 178 = Some demo_eocd \<and>
   openArchive (bytes_reader demo_jar) 178 demo_eocd = Ok demo_archive \<and>
   (span_end demo_archive (demo_member [97] 0 31) \<le> 31 \<or> span_end demo_archive (demo_member [98] 31 62) \<le> 0)"
  using jar_members_disjoint [OF demo_jar_open, of 0 1 "\<lambda>_. ([], None)" "[]" "[]"] demo_jar_open demo_jar_find
    demo_jar_reads [of "\<lambda>_. ([], None)"]
  by (simp add: demo_archive_def) (simp add: demo_member_def)

section \<open>The command line\<close>

text \<open>\<open>strconv.ParseUint(s, 10, 64)\<close>: the number, or which error came first, reading from the left.\<close>

datatype parse_uint_result = UintOk nat | UintSyntax | UintRange

fun uint_loop :: "nat \<Rightarrow> string \<Rightarrow> parse_uint_result" where
  "uint_loop n [] = UintOk n"
| "uint_loop n (c # cs) =
     (case digit_val c of
        None \<Rightarrow> UintSyntax
      | Some d \<Rightarrow>
          if 10 \<le> d then UintSyntax
          else if 2 ^ 64 \<le> n * 10 + d then UintRange
          else uint_loop (n * 10 + d) cs)"

definition ParseUint64 :: "string \<Rightarrow> parse_uint_result" where
  "ParseUint64 s = (if s = [] then UintSyntax else uint_loop 0 s)"

text \<open>The limit an environment variable sets, and whether it is warned about.\<close>

definition envLimit :: "string \<Rightarrow> nat \<Rightarrow> nat \<times> bool" where
  "envLimit raw def =
     (if raw = [] then (def, False)
      else
        let v = (case ParseUint64 raw of UintOk n \<Rightarrow> n | UintRange \<Rightarrow> 2 ^ 64 - 1 | UintSyntax \<Rightarrow> 0)
        in if v = 0 then (def, True) else (v, False))"

definition defaultMaxEntries :: nat where "defaultMaxEntries = 20000"
definition defaultMaxExpanded :: nat where "defaultMaxExpanded = 2 ^ 30"
definition defaultMaxClass :: nat where "defaultMaxClass = 64 * 2 ^ 20"
definition envMaxEntries :: string where "envMaxEntries = ''RSDD_CLASSFACTS_MAX_ENTRIES''"
definition envMaxExpanded :: string where "envMaxExpanded = ''RSDD_CLASSFACTS_MAX_BYTES''"
definition envMaxClass :: string where "envMaxClass = ''RSDD_CLASSFACTS_MAX_CLASS_BYTES''"

text \<open>A path as \<open>pathlib.Path\<close> normalizes it.\<close>

definition pyPath :: "string \<Rightarrow> string" where
  "pyPath p =
     (let out = join_with ''/'' (filter (\<lambda>c. c \<noteq> [] \<and> c \<noteq> ''.'') (split_on (CHR ''/'') p))
      in if take 1 p = ''/'' then CHR ''/'' # out else if out = [] then ''.'' else out)"

definition classfile_main ::
  "inflate \<Rightarrow> (string \<Rightarrow> os_path) \<Rightarrow> (string \<Rightarrow> string) \<Rightarrow> string list \<Rightarrow> (jar_err, nat \<times> string option) res" where
  "classfile_main inflate os env args =
     (case args of
        [path] \<Rightarrow> classfile_run inflate (os (pyPath path)) (fst (envLimit (env envMaxEntries) defaultMaxEntries))
          (fst (envLimit (env envMaxExpanded) defaultMaxExpanded)) (fst (envLimit (env envMaxClass) defaultMaxClass))
      | _ \<Rightarrow> Ok (2, None))"

lemma uint_loop_digits: "digits_val 10 n s = Some v \<Longrightarrow> n < 2 ^ 64 \<Longrightarrow> uint_loop n s = (if v < 2 ^ 64 then UintOk v else UintRange)"
proof (induction s arbitrary: n)
  case (Cons c s)
  have mono: "digits_val 10 m t = Some w \<Longrightarrow> m \<le> w" for m t w
  proof (induction t arbitrary: m)
    case (Cons c t)
    then show ?case by (fastforce split: option.splits if_splits)
  qed simp
  show ?case
  proof (cases "digit_val c")
    case None
    then show ?thesis using Cons.prems by simp
  next
    case (Some d)
    then have d: "d < 10" "digits_val 10 (10 * n + d) s = Some v" using Cons.prems by (auto split: if_splits)
    show ?thesis
    proof (cases "2 ^ 64 \<le> n * 10 + d")
      case True
      then show ?thesis using Some d mono [OF d(2)] by simp
    next
      case False
      then show ?thesis using Some d Cons.IH [of "10 * n + d"] by (simp add: mult.commute)
    qed
  qed
qed simp

text \<open>An override of decimal digits: its value, at most 64 bits of it, or the default with a warning for zero.\<close>

lemma envLimit_digits:
  assumes "digits_val 10 0 raw = Some v" "raw \<noteq> []"
  shows "envLimit raw def = (if v = 0 then (def, True) else (min v (2 ^ 64 - 1), False))"
  using assms uint_loop_digits [OF assms(1)] by (auto simp: envLimit_def ParseUint64_def Let_def min_def)

text \<open>A malformed override whose digits already overflow is taken as the greatest limit, without a warning.\<close>

lemma envLimit_overflow_hides_syntax: "envLimit ''99999999999999999999x'' def = (2 ^ 64 - 1, False)"
  by (simp add: envLimit_def ParseUint64_def digit_val_def)

end
