(* ===== verification/Registry.thy ===== *)
theory Registry
  imports Go_Std
begin

text \<open>
  The markdown tables of a research target: the table reader every instrument shares (\<open>core/gfm\<close>) and the registry
  of preserved sources, SOURCES.md (\<open>core/srcregistry\<close>), which has a grammar of its own. A Go string is a list of
  characters, one per byte.
\<close>

section \<open>Strings\<close>

abbreviation pipe :: char where "pipe \<equiv> CHR ''|''"
abbreviation backslash :: char where "backslash \<equiv> CHR 0x5C"
abbreviation newline_char :: char where "newline_char \<equiv> CHR 0x0A"

text \<open>\<open>strings.TrimLeft\<close>, \<open>strings.Trim\<close>, \<open>strings.TrimSuffix\<close> and \<open>strings.TrimPrefix\<close>.\<close>

definition trim_left :: "char list \<Rightarrow> string \<Rightarrow> string" where
  "trim_left cutset s = dropWhile (\<lambda>c. c \<in> set cutset) s"

definition trim_right :: "char list \<Rightarrow> string \<Rightarrow> string" where
  "trim_right cutset s = rev (dropWhile (\<lambda>c. c \<in> set cutset) (rev s))"

definition trim :: "char list \<Rightarrow> string \<Rightarrow> string" where
  "trim cutset s = trim_right cutset (trim_left cutset s)"

definition has_prefix :: "string \<Rightarrow> string \<Rightarrow> bool" where
  "has_prefix s p \<longleftrightarrow> take (length p) s = p"

definition trim_prefix :: "string \<Rightarrow> string \<Rightarrow> string" where
  "trim_prefix s p = (if has_prefix s p then drop (length p) s else s)"

definition trim_suffix1 :: "string \<Rightarrow> char \<Rightarrow> string" where
  "trim_suffix1 s c = (if s \<noteq> [] \<and> last s = c then butlast s else s)"

definition blanks :: "char list" where "blanks = [CHR '' '', CHR 0x09]"

definition trimmed :: "string \<Rightarrow> bool" where
  \<comment> \<open>no blank at either end\<close>
  "trimmed s \<longleftrightarrow> (s = [] \<or> (hd s \<notin> set blanks \<and> last s \<notin> set blanks))"

lemma trim_left_id: "s = [] \<or> hd s \<notin> set cutset \<Longrightarrow> trim_left cutset s = s"
  by (cases s) (auto simp: trim_left_def)

lemma trim_right_id: "s = [] \<or> last s \<notin> set cutset \<Longrightarrow> trim_right cutset s = s"
  by (cases s rule: rev_cases) (auto simp: trim_right_def)

lemma trim_id: "s = [] \<or> (hd s \<notin> set cutset \<and> last s \<notin> set cutset) \<Longrightarrow> trim cutset s = s"
  by (auto simp: trim_def trim_left_id trim_right_id)

lemma trim_pad: "trimmed s \<Longrightarrow> trim blanks (CHR '' '' # s @ [CHR '' '']) = s"
proof -
  assume s: "trimmed s"
  have "trim blanks (CHR '' '' # s @ [CHR '' '']) = trim blanks s"
  proof (cases "s = []")
    case False
    then have hd: "hd s \<notin> set blanks" using s by (simp add: trimmed_def)
    have "trim_left blanks (s @ [CHR '' '']) = s @ [CHR '' '']" "trim_left blanks s = s"
      using hd False by (simp_all add: trim_left_id)
    then show ?thesis by (simp add: trim_def trim_left_def trim_right_def blanks_def)
  qed (simp add: trim_def trim_left_def trim_right_def blanks_def)
  also have "\<dots> = s" using s by (intro trim_id) (simp add: trimmed_def)
  finally show ?thesis .
qed

section \<open>The table reader\<close>

datatype table_shape = ShapeLeadingPipe | ShapeAnyPipe

record table_options =
  Shape :: table_shape
  KeepCR :: bool

definition default_options :: table_options where
  "default_options = \<lparr>Shape = ShapeLeadingPipe, KeepCR = False\<rparr>"

record gfm_row =
  gr_Line :: nat
  gr_Source :: string
  gr_Padded :: "string list"
  gr_Sep :: bool

definition trimBlanks :: "string \<Rightarrow> string" where
  "trimBlanks s = trim blanks s"

text \<open>\<open>strings.ReplaceAll(s, "\|", "|")\<close> and its inverse.\<close>

fun Unescape :: "string \<Rightarrow> string" where
  "Unescape [] = []"
| "Unescape [c] = [c]"
| "Unescape (c # d # s) = (if c = backslash \<and> d = pipe then pipe # Unescape s else c # Unescape (d # s))"

definition Escape :: "string \<Rightarrow> string" where
  "Escape s = concat (map (\<lambda>c. if c = pipe then [backslash, pipe] else [c]) s)"

definition gfm_Raw :: "gfm_row \<Rightarrow> string list" where
  "gfm_Raw r = map trimBlanks (gr_Padded r)"

definition gfm_Text :: "gfm_row \<Rightarrow> string list" where
  "gfm_Text r = map (\<lambda>c. Unescape (trimBlanks c)) (gr_Padded r)"

definition separator_cell :: "string \<Rightarrow> bool" where
  "separator_cell c =
     (let c = trim_suffix1 (trim_prefix (trimBlanks c) '':'') (CHR '':'')
      in c \<noteq> [] \<and> trim ''-'' c = [])"

definition gfm_IsSeparator :: "string list \<Rightarrow> bool" where
  "gfm_IsSeparator cells \<longleftrightarrow> cells \<noteq> [] \<and> list_all separator_cell cells"

text \<open>The first pass of \<open>SplitRow\<close>: whether the last character is a pipe that no backslash escapes.\<close>

fun closing :: "string \<Rightarrow> bool" where
  "closing [] = False"
| "closing [c] = (c = pipe)"
| "closing (c # d # s) = (if c = backslash \<and> d = pipe then closing s else closing (d # s))"

text \<open>The second pass: the text between bare pipes.\<close>

definition onto_first :: "string \<Rightarrow> string list \<Rightarrow> string list" where
  "onto_first p cells = (p @ hd cells) # tl cells"

fun split_cells :: "string \<Rightarrow> string list" where
  "split_cells [] = [[]]"
| "split_cells [c] = (if c = pipe then [[], []] else [[c]])"
| "split_cells (c # d # s) =
     (if c = backslash \<and> d = pipe then onto_first [c, d] (split_cells s)
      else if c = pipe then [] # split_cells (d # s)
      else onto_first [c] (split_cells (d # s)))"

definition SplitRow :: "string \<Rightarrow> table_options \<Rightarrow> string list option" where
  "SplitRow line0 opt =
     (let line = (if KeepCR opt then line0 else trim_suffix1 line0 (CHR 0x0D));
          s = trimBlanks line
      in if (case Shape opt of ShapeAnyPipe \<Rightarrow> pipe \<notin> set s | ShapeLeadingPipe \<Rightarrow> \<not> has_prefix s [pipe]) then None
         else
           let s = trim_prefix s [pipe]; s = (if closing s then butlast s else s)
           in if s = [] then Some [] else Some (split_cells s))"

text \<open>The lines of a source: a last line without a newline is a line, and there is none after a last newline.\<close>

fun gfm_rows :: "nat \<Rightarrow> string list \<Rightarrow> table_options \<Rightarrow> gfm_row list" where
  "gfm_rows n [] opt = []"
| "gfm_rows n (text # rest) opt =
     (case SplitRow text opt of
        None \<Rightarrow> gfm_rows (n + 1) rest opt
      | Some cells \<Rightarrow>
          \<lparr>gr_Line = n + 1, gr_Source = (if KeepCR opt then text else trim_suffix1 text (CHR 0x0D)), gr_Padded = cells,
            gr_Sep = gfm_IsSeparator (map trimBlanks cells)\<rparr> # gfm_rows (n + 1) rest opt)"

definition text_lines :: "string \<Rightarrow> string list" where
  "text_lines src = (if src = [] then [] else split_on newline_char (trim_suffix1 src newline_char))"

definition Rows :: "string \<Rightarrow> table_options \<Rightarrow> gfm_row list" where
  "Rows src opt = gfm_rows 0 (text_lines src) opt"

datatype gfm_state = StateEmptyInput | StateNoTables | StateTables

record gfm_table =
  gt_Header :: "gfm_row option"
  gt_Separator :: "gfm_row option"
  gt_Rows :: "gfm_row list"

record gfm_document =
  gd_State :: gfm_state
  gd_Lines :: nat
  gd_Tables :: "gfm_table list"

definition gfm_flush :: "gfm_row list \<Rightarrow> gfm_table list" where
  "gfm_flush block =
     (case block of
        [] \<Rightarrow> []
      | h # s # rest \<Rightarrow>
          if \<not> gr_Sep h \<and> gr_Sep s then [\<lparr>gt_Header = Some h, gt_Separator = Some s, gt_Rows = rest\<rparr>]
          else [\<lparr>gt_Header = None, gt_Separator = None, gt_Rows = block\<rparr>]
      | _ \<Rightarrow> [\<lparr>gt_Header = None, gt_Separator = None, gt_Rows = block\<rparr>])"

fun gfm_blocks :: "gfm_row list \<Rightarrow> gfm_row list \<Rightarrow> gfm_table list" where
  \<comment> \<open>the block being collected, and the rows left\<close>
  "gfm_blocks block [] = gfm_flush block"
| "gfm_blocks block (r # rs) =
     (if block \<noteq> [] \<and> gr_Line (last block) + 1 \<noteq> gr_Line r then gfm_flush block @ gfm_blocks [r] rs
      else gfm_blocks (block @ [r]) rs)"

definition ParseWith :: "string \<Rightarrow> table_options \<Rightarrow> gfm_document" where
  "ParseWith src opt =
     (let newlines = length (filter (\<lambda>c. c = newline_char) src);
          lines = (if src \<noteq> [] \<and> last src \<noteq> newline_char then newlines + 1 else newlines)
      in if src = [] then \<lparr>gd_State = StateEmptyInput, gd_Lines = lines, gd_Tables = []\<rparr>
         else
           let tables = gfm_blocks [] (Rows src opt)
           in \<lparr>gd_State = (if tables \<noteq> [] then StateTables else StateNoTables), gd_Lines = lines, gd_Tables = tables\<rparr>)"

definition gfm_Parse :: "string \<Rightarrow> gfm_document" where
  "gfm_Parse src = ParseWith src default_options"

section \<open>The registry of sources\<close>

definition spaceChars :: "char list" where
  "spaceChars = [CHR '' '', CHR 0x09, CHR 0x0A, CHR 0x0B, CHR 0x0C, CHR 0x0D]"

definition splitLines :: "string \<Rightarrow> string list" where
  "splitLines md = (if md = [] then [] else split_on newline_char (trim_suffix1 md newline_char))"

definition joinLines :: "string list \<Rightarrow> string" where
  "joinLines ls = concat (map (\<lambda>l. l @ [newline_char]) ls)"

definition isRow :: "string \<Rightarrow> bool" where
  "isRow l \<longleftrightarrow> has_prefix (trim_left spaceChars l) [pipe]"

definition row_cells :: "string \<Rightarrow> string list" where
  "row_cells l =
     (let parts = split_on pipe l
      in map (\<lambda>i. if i < length parts then trim blanks (parts ! i) else []) [0..<7])"

record registry_row =
  rr_Line :: nat
  rr_File :: string
  rr_Type :: string
  rr_Origin :: string
  rr_Date :: string
  rr_SHA :: string
  rr_Citing :: string

definition row_of :: "nat \<Rightarrow> string \<Rightarrow> registry_row" where
  "row_of n l =
     (let c = row_cells l
      in \<lparr>rr_Line = n, rr_File = c ! 1, rr_Type = c ! 2, rr_Origin = c ! 3, rr_Date = c ! 4, rr_SHA = c ! 5, rr_Citing = c ! 6\<rparr>)"

fun parse_rows :: "nat \<Rightarrow> string list \<Rightarrow> registry_row list" where
  "parse_rows n [] = []"
| "parse_rows n (l # ls) = (if isRow l then row_of (n + 1) l # parse_rows (n + 1) ls else parse_rows (n + 1) ls)"

definition ParseRows :: "string \<Rightarrow> registry_row list" where
  "ParseRows md = parse_rows 0 (splitLines md)"

definition IsHeader :: "registry_row \<Rightarrow> bool" where
  "IsHeader r \<longleftrightarrow> rr_File r = ''File''"

definition IsSeparator :: "registry_row \<Rightarrow> bool" where
  "IsSeparator r \<longleftrightarrow> rr_File r \<noteq> [] \<and> trim ''-: '' (rr_File r) = []"

definition FormatRow :: "string \<Rightarrow> string \<Rightarrow> string \<Rightarrow> string \<Rightarrow> string \<Rightarrow> string" where
  "FormatRow name kind origin date sha =
     ''| '' @ name @ '' | '' @ kind @ '' | '' @ origin @ '' | '' @ date @ '' | '' @ sha @ '' | |''"

definition SafeCell :: "string \<Rightarrow> string" where
  "SafeCell s = concat (map (\<lambda>c. if c = pipe then ''%7C'' else [c]) s)"

definition HasRow :: "string \<Rightarrow> string \<Rightarrow> string \<Rightarrow> bool" where
  "HasRow md name sha = list_ex (\<lambda>r. rr_File r = name \<and> (sha = [] \<or> rr_SHA r = sha)) (ParseRows md)"

definition registry_header :: string where
  "registry_header = ''# External sources preserved'' @ [newline_char, newline_char] @
     ''| File | Type | Origin (URL) | Date (UTC) | sha256 | Citing blocks |'' @ [newline_char] @
     ''|---|---|---|---|---|---|'' @ [newline_char]"

text \<open>The scan for the last line of the first table: the index after it, whether a table is open, whether it is closed.\<close>

fun table_scan :: "nat \<Rightarrow> string list \<Rightarrow> nat option \<times> bool \<times> bool \<Rightarrow> nat option" where
  "table_scan i [] (final, intable, shut) = final"
| "table_scan i (l # ls) (final, intable, shut) =
     (if isRow l then table_scan (i + 1) ls (if \<not> shut then (Some i, True, shut) else (final, intable, shut))
      else if trim_left spaceChars l \<noteq> [] then table_scan (i + 1) ls (final, intable, shut \<or> intable)
      else table_scan (i + 1) ls (final, intable, shut))"

definition insert_at :: "string list \<Rightarrow> nat" where
  "insert_at ls = (case table_scan 0 ls (None, False, False) of Some i \<Rightarrow> i + 1 | None \<Rightarrow> length ls)"

definition InsertRow :: "string \<Rightarrow> string \<Rightarrow> string" where
  "InsertRow md row =
     (let ls = splitLines md; k = insert_at ls in joinLines (take k ls @ row # drop k ls))"

definition retarget_line :: "string \<Rightarrow> string \<Rightarrow> string \<Rightarrow> string \<Rightarrow> string" where
  "retarget_line oldFile newFile sha l =
     (if isRow l \<and> row_cells l ! 1 = oldFile \<and> row_cells l ! 5 = sha
      then join_with [pipe] ((split_on pipe l)[1 := '' '' @ newFile @ '' '']) else l)"

definition RetargetFile :: "string \<Rightarrow> string \<Rightarrow> string \<Rightarrow> string \<Rightarrow> string \<times> nat" where
  "RetargetFile md oldFile newFile sha =
     (let ls = splitLines md
      in (joinLines (map (retarget_line oldFile newFile sha) ls),
          length (filter (\<lambda>l. isRow l \<and> row_cells l ! 1 = oldFile \<and> row_cells l ! 5 \<noteq> sha) ls)))"

section \<open>Reading tables back\<close>

lemma Unescape_Escape: "Unescape (Escape s) = s"
proof (induction s)
  case (Cons c s)
  show ?case
  proof (cases "c = pipe")
    case False
    have "Unescape (c # Escape s) = c # Unescape (Escape s)"
    proof (cases "Escape s")
      case (Cons d t)
      then have "d \<noteq> pipe \<or> c \<noteq> backslash"
        by (cases s) (auto simp: Escape_def split: if_splits)
      then show ?thesis using Cons by auto
    qed simp
    then show ?thesis using False Cons by (simp add: Escape_def)
  qed (use Cons in \<open>simp add: Escape_def\<close>)
qed (simp add: Escape_def)

text \<open>Every pipe of a cell is escaped.\<close>

fun escaped :: "string \<Rightarrow> bool" where
  "escaped [] = True"
| "escaped [c] = (c \<noteq> pipe)"
| "escaped (c # d # s) = (if c = backslash \<and> d = pipe then escaped s else c \<noteq> pipe \<and> escaped (d # s))"

lemma split_cells_ne [simp]: "split_cells s \<noteq> []"
  by (induction s rule: split_cells.induct) (auto simp: onto_first_def)

lemma first_cell: "hd (split_cells s) = [] \<or> hd (hd (split_cells s)) \<noteq> pipe"
  by (induction s rule: split_cells.induct) (auto simp: onto_first_def)

lemma escaped_Cons: "c \<noteq> pipe \<Longrightarrow> t = [] \<or> hd t \<noteq> pipe \<Longrightarrow> escaped (c # t) = escaped t"
  by (cases t) auto

lemma split_cells_escaped: "list_all escaped (split_cells s)"
proof (induction s rule: split_cells.induct)
  case (3 c d s)
  have front: "list_all escaped (onto_first [c] (split_cells t))" if "c \<noteq> pipe" "list_all escaped (split_cells t)" for t
    using that first_cell [of t] by (cases "split_cells t") (auto simp: onto_first_def escaped_Cons)
  show ?case
  proof (cases "c = backslash \<and> d = pipe")
    case True
    then show ?thesis using 3 by (cases "split_cells s") (auto simp: onto_first_def)
  next
    case False
    then show ?thesis using 3 front by auto
  qed
qed auto

lemma Escape_Unescape: "escaped x \<Longrightarrow> Escape (Unescape x) = x"
proof (induction x rule: escaped.induct)
  case (3 c d s)
  show ?case
  proof (cases "c = backslash \<and> d = pipe")
    case False
    then have "c \<noteq> pipe" "Escape (Unescape (d # s)) = d # s" using 3 by simp_all
    then show ?thesis using False by (simp only: Unescape.simps if_False) (simp add: Escape_def)
  qed (use 3 in \<open>simp add: Escape_def\<close>)
qed (simp_all add: Escape_def)

lemma Escape_simps: "Escape [] = []" "Escape (c # s) = (if c = pipe then backslash # pipe # Escape s else c # Escape s)"
  by (simp_all add: Escape_def)

lemma escaped_Escape: "escaped (Escape s)"
proof (induction s)
  case (Cons c s)
  have "Escape s = [] \<or> hd (Escape s) \<noteq> pipe" by (cases s) (auto simp: Escape_simps)
  then show ?case using Cons by (auto simp: Escape_simps escaped_Cons)
qed (simp add: Escape_simps)

lemma split_cells_one: "escaped x \<Longrightarrow> split_cells x = [x]"
  by (induction x rule: escaped.induct) (auto simp: onto_first_def split: if_splits)

lemma split_cells_pipe: "escaped x \<Longrightarrow> x = [] \<or> last x \<noteq> backslash \<Longrightarrow> split_cells (x @ pipe # y) = x # split_cells y"
proof (induction x rule: escaped.induct)
  case 1
  show ?case by (cases y) auto
next
  case (2 c)
  then show ?case by (cases y) (auto simp: onto_first_def)
next
  case (3 c d s)
  then show ?case by (cases s) (auto simp: onto_first_def split: if_splits)
qed

lemma escaped_pad: "escaped x \<Longrightarrow> escaped (CHR '' '' # x @ [CHR '' ''])"
proof -
  have "escaped (y @ [CHR '' ''])" if "escaped y" for y
    using that by (induction y rule: escaped.induct) auto
  moreover assume "escaped x"
  ultimately have "escaped (x @ [CHR '' ''])" by blast
  then show ?thesis by (cases x) auto
qed

definition render_cell :: "string \<Rightarrow> string" where
  "render_cell c = CHR '' '' # Escape c @ [CHR '' '']"

definition render_row :: "string list \<Rightarrow> string" where
  \<comment> \<open>a table row holding these cells\<close>
  "render_row cs = pipe # concat (map (\<lambda>c. render_cell c @ [pipe]) cs)"

lemma render_split: "cs \<noteq> [] \<Longrightarrow> split_cells (butlast (concat (map (\<lambda>c. render_cell c @ [pipe]) cs))) = map render_cell cs"
proof (induction cs)
  case (Cons c cs)
  have esc: "escaped (render_cell c)" by (simp add: render_cell_def escaped_pad escaped_Escape)
  show ?case
  proof (cases "cs = []")
    case True
    then show ?thesis using split_cells_one [OF esc] by simp
  next
    case False
    then have ne: "concat (map (\<lambda>c. render_cell c @ [pipe]) cs) \<noteq> []" by auto
    have "split_cells (render_cell c @ pipe # butlast (concat (map (\<lambda>c. render_cell c @ [pipe]) cs))) =
        render_cell c # map render_cell cs"
      using split_cells_pipe [OF esc] Cons.IH [OF False] by (simp add: render_cell_def)
    then show ?thesis using ne by (simp add: butlast_append)
  qed
qed simp

lemma closing_pad: "closing (x @ [CHR '' '', pipe])"
  by (induction x rule: closing.induct) (auto split: if_splits)

text \<open>A trimmed text stays trimmed when its pipes are escaped.\<close>

lemma trimmed_Escape: "trimmed s \<Longrightarrow> trimmed (Escape s)"
proof (cases "s = []")
  case False
  assume "trimmed s"
  then have "hd s \<notin> set blanks" "last s \<notin> set blanks" using False by (auto simp: trimmed_def)
  moreover have "hd (Escape s) = (if hd s = pipe then backslash else hd s)" using False by (cases s) (auto simp: Escape_def)
  moreover have "last (Escape s) = last s" using False by (cases s rule: rev_cases) (auto simp: Escape_def)
  ultimately show ?thesis by (auto simp: trimmed_def blanks_def)
qed (simp add: Escape_def)

text \<open>
  C37. A table row is read back. Whatever the texts of its cells (pipes, backslashes, any mix of both), a row rendered
  with escaped pipes is one row whose texts are these cells, for both shapes of table; and for every cell of every
  line the reader accepts, escaping its text gives the cell back.
\<close>

theorem table_row_roundtrip:
  assumes "cs \<noteq> []" and "list_all trimmed cs"
  shows "map_option (map (\<lambda>c. Unescape (trimBlanks c))) (SplitRow (render_row cs) opt) = Some cs \<and>
    (case SplitRow line opt of None \<Rightarrow> True | Some cells \<Rightarrow> list_all (\<lambda>x. Escape (Unescape x) = x) cells)"
proof
  obtain body where body: "concat (map (\<lambda>c. render_cell c @ [pipe]) cs) = body @ [CHR '' '', pipe]"
    using assms(1) by (cases cs rule: rev_cases) (auto simp: render_cell_def)
  have row: "render_row cs = pipe # body @ [CHR '' '', pipe]" by (simp add: render_row_def body)
  have cr: "trim_suffix1 (render_row cs) (CHR 0x0D) = render_row cs" by (simp add: trim_suffix1_def row)
  have trim: "trimBlanks (render_row cs) = render_row cs"
    unfolding trimBlanks_def by (rule trim_id) (simp add: row blanks_def)
  have close: "closing (body @ [CHR '' '', pipe])" by (rule closing_pad)
  have split: "split_cells (butlast (body @ [CHR '' '', pipe])) = map render_cell cs"
    using render_split [OF assms(1)] by (simp only: body)
  have "SplitRow (render_row cs) opt = Some (map render_cell cs)"
    using close split by (simp add: SplitRow_def cr trim Let_def split: table_shape.split)
      (simp add: row has_prefix_def trim_prefix_def butlast_append)
  moreover have "Unescape (trimBlanks (render_cell c)) = c" if "c \<in> set cs" for c
    using assms(2) that trim_pad [OF trimmed_Escape, of c]
    by (auto simp: list_all_iff trimBlanks_def render_cell_def Unescape_Escape)
  ultimately show "map_option (map (\<lambda>c. Unescape (trimBlanks c))) (SplitRow (render_row cs) opt) = Some cs"
    by (simp add: map_idI)
  show "case SplitRow line opt of None \<Rightarrow> True | Some cells \<Rightarrow> list_all (\<lambda>x. Escape (Unescape x) = x) cells"
    using split_cells_escaped by (auto simp: SplitRow_def Let_def list_all_iff Escape_Unescape split: option.split if_splits)
qed

theorem table_row_roundtrip_witness:
  "map_option (map (\<lambda>c. Unescape (trimBlanks c))) (SplitRow (render_row [[pipe], [], [backslash, pipe, backslash]]) default_options) =
   Some [[pipe], [], [backslash, pipe, backslash]]"
  using table_row_roundtrip [of "[[pipe], [], [backslash, pipe, backslash]]" default_options "[]"]
  by (simp add: trimmed_def blanks_def)

section \<open>Editing the registry\<close>

definition no_newline :: "string \<Rightarrow> bool" where
  "no_newline l \<longleftrightarrow> newline_char \<notin> set l"

lemma splitLines_no_newline: "list_all no_newline (splitLines md)"
  using split_on_parts [of _ newline_char] by (auto simp: splitLines_def no_newline_def list_all_iff)

lemma joinLines_join: "ls \<noteq> [] \<Longrightarrow> joinLines ls = join_with [newline_char] ls @ [newline_char]"
  by (induction "[newline_char]" ls rule: join_with.induct) (auto simp: joinLines_def)

lemma splitLines_joinLines: "list_all no_newline ls \<Longrightarrow> splitLines (joinLines ls) = ls"
proof (cases "ls = []")
  case False
  assume "list_all no_newline ls"
  then have "split_on newline_char (join_with [newline_char] ls) = ls"
    using False by (intro split_join) (auto simp: list_all_iff no_newline_def)
  then show ?thesis by (simp add: splitLines_def joinLines_join [OF False] trim_suffix1_def)
qed (simp add: splitLines_def joinLines_def)

definition row_matches :: "string \<Rightarrow> string \<Rightarrow> string \<Rightarrow> bool" where
  "row_matches name sha l \<longleftrightarrow> isRow l \<and> row_cells l ! 1 = name \<and> (sha = [] \<or> row_cells l ! 5 = sha)"

lemma HasRow_lines: "HasRow md name sha \<longleftrightarrow> list_ex (row_matches name sha) (splitLines md)"
proof -
  have "list_ex (\<lambda>r. rr_File r = name \<and> (sha = [] \<or> rr_SHA r = sha)) (parse_rows n ls) = list_ex (row_matches name sha) ls" for n ls
    by (induction ls arbitrary: n) (auto simp: row_matches_def row_of_def Let_def)
  then show ?thesis by (simp add: HasRow_def ParseRows_def)
qed

lemma InsertRow_lines:
  assumes "no_newline row"
  shows "splitLines (InsertRow md row) =
    take (insert_at (splitLines md)) (splitLines md) @ row # drop (insert_at (splitLines md)) (splitLines md)"
proof -
  have "list_all no_newline (take k (splitLines md) @ row # drop k (splitLines md))" for k
    using assms splitLines_no_newline [of md] by (auto simp: list_all_iff dest: in_set_takeD in_set_dropD)
  then show ?thesis by (simp add: InsertRow_def Let_def splitLines_joinLines)
qed

definition cell_ok :: "string \<Rightarrow> bool" where
  "cell_ok s \<longleftrightarrow> trimmed s \<and> pipe \<notin> set s \<and> newline_char \<notin> set s"

lemma FormatRow_cells:
  assumes "cell_ok name" "cell_ok kind" "cell_ok origin" "cell_ok date" "cell_ok sha"
  shows "row_cells (FormatRow name kind origin date sha) = [[], name, kind, origin, date, sha, []]"
    "isRow (FormatRow name kind origin date sha)" "no_newline (FormatRow name kind origin date sha)"
proof -
  let ?pad = "\<lambda>s. CHR '' '' # s @ [CHR '' '']"
  have "FormatRow name kind origin date sha =
      join_with [pipe] [[], ?pad name, ?pad kind, ?pad origin, ?pad date, ?pad sha, [CHR '' ''], []]"
    by (simp add: FormatRow_def)
  moreover have "split_on pipe (join_with [pipe] [[], ?pad name, ?pad kind, ?pad origin, ?pad date, ?pad sha, [CHR '' ''], []]) =
      [[], ?pad name, ?pad kind, ?pad origin, ?pad date, ?pad sha, [CHR '' ''], []]"
    using assms by (intro split_join) (auto simp: cell_ok_def)
  ultimately have "split_on pipe (FormatRow name kind origin date sha) =
      [[], ?pad name, ?pad kind, ?pad origin, ?pad date, ?pad sha, [CHR '' ''], []]" by simp
  moreover have "[0..<7] = [0, 1, 2, 3, 4, 5, 6::nat]" by (simp add: upt_rec)
  ultimately show "row_cells (FormatRow name kind origin date sha) = [[], name, kind, origin, date, sha, []]"
    using assms by (simp add: row_cells_def cell_ok_def trim_pad) (simp add: trim_def trim_left_def trim_right_def blanks_def)
  show "isRow (FormatRow name kind origin date sha)"
    by (simp add: isRow_def FormatRow_def trim_left_def spaceChars_def has_prefix_def)
  show "no_newline (FormatRow name kind origin date sha)"
    using assms by (auto simp: no_newline_def FormatRow_def cell_ok_def)
qed

text \<open>The end of the first table, as a specification: its rows and the blank lines between them.\<close>

definition upto_last_row :: "string list \<Rightarrow> string list" where
  "upto_last_row ls = rev (dropWhile (\<lambda>l. \<not> isRow l) (rev ls))"

definition first_table :: "string list \<Rightarrow> string list" where
  "first_table ls = upto_last_row (takeWhile (\<lambda>l. isRow l \<or> trim_left spaceChars l = []) (dropWhile (\<lambda>l. \<not> isRow l) ls))"

definition table_end :: "string list \<Rightarrow> nat" where
  "table_end ls =
     (if list_ex isRow ls then length (takeWhile (\<lambda>l. \<not> isRow l) ls) + length (first_table ls) else length ls)"

lemma upto_last_row_simps [simp]:
  "upto_last_row [] = []"
  "upto_last_row (l # ls) = (if upto_last_row ls = [] then (if isRow l then [l] else []) else l # upto_last_row ls)"
proof -
  have "upto_last_row (l # ls) = (if list_ex isRow ls then l # upto_last_row ls else if isRow l then [l] else [])"
    by (auto simp: upto_last_row_def dropWhile_append dropWhile_eq_Nil_conv list_ex_iff)
  moreover have "upto_last_row ls = [] \<longleftrightarrow> \<not> list_ex isRow ls"
    by (auto simp: upto_last_row_def dropWhile_eq_Nil_conv list_ex_iff)
  ultimately show "upto_last_row (l # ls) = (if upto_last_row ls = [] then (if isRow l then [l] else []) else l # upto_last_row ls)"
    by simp
qed (simp add: upto_last_row_def)

lemma table_scan_shut: "table_scan i ls (final, t, True) = final"
  by (induction ls arbitrary: i) auto

lemma table_scan_open:
  "table_scan i ls (Some j, True, False) =
     (let rows = upto_last_row (takeWhile (\<lambda>l. isRow l \<or> trim_left spaceChars l = []) ls)
      in if rows = [] then Some j else Some (i + length rows - 1))"
proof (induction ls arbitrary: i j)
  case (Cons l ls)
  consider "isRow l" | "\<not> isRow l" "trim_left spaceChars l = []" | "\<not> isRow l" "trim_left spaceChars l \<noteq> []" by blast
  then show ?case
  proof cases
    case 1
    then show ?thesis using Cons.IH [of "i + 1" i] by (simp add: Let_def)
  next
    case 2
    then show ?thesis using Cons.IH [of "i + 1" j] by (simp add: Let_def)
  qed (simp add: table_scan_shut Let_def)
qed (simp add: Let_def)

lemma table_scan_start:
  "table_scan i ls (None, False, False) =
    (if list_ex isRow ls then Some (i + table_end ls - 1) else None) \<and> (list_ex isRow ls \<longrightarrow> 0 < table_end ls)"
proof (induction ls arbitrary: i)
  case (Cons l ls)
  show ?case
  proof (cases "isRow l")
    case True
    then show ?thesis by (simp add: table_scan_open table_end_def first_table_def Let_def)
  next
    case False
    have "table_end (l # ls) = Suc (table_end ls)" if "list_ex isRow ls"
      using that False by (simp add: table_end_def first_table_def)
    then show ?thesis using False Cons.IH [of "i + 1"] by auto
  qed
qed simp

lemma insert_at_table_end: "insert_at ls = table_end ls"
  using table_scan_start [of 0 ls] by (auto simp: insert_at_def table_end_def split: if_splits)

text \<open>A row is a line with only white space before its first pipe.\<close>

lemma isRow_parts: "isRow l \<longleftrightarrow> (\<exists>p q rest. split_on pipe l = p # q # rest \<and> set p \<subseteq> set spaceChars)"
proof -
  have pipe: "pipe \<notin> set spaceChars" by (simp add: spaceChars_def)
  show ?thesis
  proof (induction l)
    case Nil
    show ?case by (simp add: isRow_def trim_left_def has_prefix_def)
  next
    case (Cons c l)
    have step: "isRow (c # l) \<longleftrightarrow> (if c \<in> set spaceChars then isRow l else c = pipe)"
      by (simp add: isRow_def trim_left_def has_prefix_def)
    show ?case
      using Cons pipe unfolding step by (cases "split_on pipe l" rule: remdups_adj.cases) (auto split: list.splits)
  qed
qed

text \<open>
  C29. Registering a source adds exactly its row. After a row with clean cells is inserted, a file (with a digest or
  any) has a row exactly if it had one or it is the new one; every line of the document is kept in order, and the new
  one stands right after the last row of the first table (at the end when there is none).
\<close>

theorem registry_insert_exact:
  assumes "cell_ok name" "cell_ok kind" "cell_ok origin" "cell_ok date" "cell_ok sha"
  shows "(HasRow (InsertRow md (FormatRow name kind origin date sha)) name' sha' \<longleftrightarrow>
      HasRow md name' sha' \<or> (name' = name \<and> (sha' = [] \<or> sha' = sha))) \<and>
    splitLines (InsertRow md (FormatRow name kind origin date sha)) =
      take (table_end (splitLines md)) (splitLines md) @ FormatRow name kind origin date sha #
      drop (table_end (splitLines md)) (splitLines md)"
proof -
  let ?row = "FormatRow name kind origin date sha" and ?k = "table_end (splitLines md)"
  note row = FormatRow_cells [OF assms]
  have lines: "splitLines (InsertRow md ?row) = take ?k (splitLines md) @ ?row # drop ?k (splitLines md)"
    using InsertRow_lines [OF row(3)] by (simp add: insert_at_table_end)
  have "list_ex P (splitLines md) \<longleftrightarrow> list_ex P (take ?k (splitLines md)) \<or> list_ex P (drop ?k (splitLines md))" for P
    by (metis append_take_drop_id list_ex_append)
  moreover have "row_matches name' sha' ?row \<longleftrightarrow> name' = name \<and> (sha' = [] \<or> sha' = sha)"
    using row(1,2) by (auto simp: row_matches_def)
  ultimately show ?thesis by (auto simp: HasRow_lines lines)
qed

theorem registry_insert_exact_witness:
  "HasRow (InsertRow registry_header (FormatRow ''m/a.pdf'' ''m'' ''https://h/a'' ''2026'' ''ab'')) ''m/a.pdf'' ''ab''"
  using registry_insert_exact [of "''m/a.pdf''" "''m''" "''https://h/a''" "''2026''" "''ab''" registry_header "''m/a.pdf''" "''ab''"]
  by (simp add: cell_ok_def trimmed_def blanks_def)

lemma join_with_chars: "set (join_with [c] ps) \<subseteq> insert c (\<Union> (set ` set ps))"
  by (induction "[c]" ps rule: join_with.induct) auto

lemma parts_chars: "p \<in> set (split_on c l) \<Longrightarrow> set p \<subseteq> set l"
proof -
  have "\<Union> (set ` set ps) \<subseteq> set (join_with [c] ps)" for ps
    by (induction "[c]" ps rule: join_with.induct) auto
  from this [of "split_on c l"] show "p \<in> set (split_on c l) \<Longrightarrow> set p \<subseteq> set l" by (auto simp: join_split)
qed

lemma replaced_cell:
  assumes "cell_ok new" "isRow l" "no_newline l"
  defines "l' \<equiv> join_with [pipe] ((split_on pipe l)[1 := CHR '' '' # new @ [CHR '' '']])"
  shows "row_cells l' = (row_cells l)[1 := new]" "isRow l'" "no_newline l'"
proof -
  let ?new = "CHR '' '' # new @ [CHR '' '']"
  obtain p q rest where l: "split_on pipe l = p # q # rest" "set p \<subseteq> set spaceChars" using assms(2) by (auto simp: isRow_parts)
  have no: "pipe \<notin> set x" if "x \<in> set (p # ?new # rest)" for x
    using that split_on_parts [of x pipe l] assms(1) l(1) by (auto simp: cell_ok_def)
  have split: "split_on pipe l' = p # ?new # rest"
    using split_join [of "p # ?new # rest" pipe] no by (simp add: l'_def l(1))
  then show "isRow l'" using l(2) by (auto simp: isRow_parts)
  have trim: "trim blanks ?new = new" using assms(1) by (simp add: trim_pad cell_ok_def)
  show "row_cells l' = (row_cells l)[1 := new]"
  proof -
    have idx: "[0..<7] = 0 # 1 # [2..<7::nat]" by (simp add: upt_rec)
    have "map (\<lambda>i. if i < length (p # ?new # rest) then trim blanks ((p # ?new # rest) ! i) else []) [2..<7] =
        map (\<lambda>i. if i < length (p # q # rest) then trim blanks ((p # q # rest) ! i) else []) [2..<7]"
      by (rule map_cong) (auto simp: nth_Cons')
    then show ?thesis by (simp add: row_cells_def split l(1) idx trim)
  qed
  have clean: "newline_char \<notin> set x" if "x \<in> set (p # ?new # rest)" for x
    using that parts_chars [of x pipe l] assms(1,3) l(1) by (auto simp: cell_ok_def no_newline_def)
  have "set l' \<subseteq> insert pipe (\<Union> (set ` set (p # ?new # rest)))"
    using join_with_chars [of pipe "p # ?new # rest"] by (simp add: l'_def l(1))
  then have "newline_char \<in> set l' \<Longrightarrow> \<exists>x \<in> set (p # ?new # rest). newline_char \<in> set x" by blast
  then show "no_newline l'" using clean unfolding no_newline_def by blast
qed

lemma row_cells_length [simp]: "length (row_cells l) = 7"
  by (simp add: row_cells_def Let_def)

lemma retarget_line_row:
  assumes "cell_ok newFile" "no_newline l"
  shows "no_newline (retarget_line oldFile newFile sha l)" "isRow (retarget_line oldFile newFile sha l) \<longleftrightarrow> isRow l"
    "isRow l \<Longrightarrow> row_of n (retarget_line oldFile newFile sha l) =
      (if rr_File (row_of n l) = oldFile \<and> rr_SHA (row_of n l) = sha then (row_of n l)\<lparr>rr_File := newFile\<rparr> else row_of n l)"
  using replaced_cell [OF assms(1) _ assms(2)] assms(2)
  by (auto simp: retarget_line_def row_of_def Let_def)

text \<open>The rows of a retargeted document.\<close>

lemma RetargetFile_rows:
  assumes "cell_ok newFile"
  shows "ParseRows (fst (RetargetFile md oldFile newFile sha)) =
      map (\<lambda>r. if rr_File r = oldFile \<and> rr_SHA r = sha then r\<lparr>rr_File := newFile\<rparr> else r) (ParseRows md) \<and>
    snd (RetargetFile md oldFile newFile sha) =
      length (filter (\<lambda>r. rr_File r = oldFile \<and> rr_SHA r \<noteq> sha) (ParseRows md))"
proof -
  have "parse_rows n (map (retarget_line oldFile newFile sha) ls) =
      map (\<lambda>r. if rr_File r = oldFile \<and> rr_SHA r = sha then r\<lparr>rr_File := newFile\<rparr> else r) (parse_rows n ls)"
    if "list_all no_newline ls" for n ls
    using that
  proof (induction ls arbitrary: n)
    case (Cons l ls)
    then show ?case using retarget_line_row [OF assms, of l] by simp
  qed simp
  moreover have "list_all no_newline (map (retarget_line oldFile newFile sha) (splitLines md))"
    using splitLines_no_newline [of md] retarget_line_row(1) [OF assms] by (auto simp: list_all_iff)
  moreover have "length (filter (\<lambda>l. isRow l \<and> row_cells l ! 1 = oldFile \<and> row_cells l ! 5 \<noteq> sha) ls) =
      length (filter (\<lambda>r. rr_File r = oldFile \<and> rr_SHA r \<noteq> sha) (parse_rows n ls))" for n ls
    by (induction ls arbitrary: n) (auto simp: row_of_def Let_def)
  ultimately show ?thesis
    using splitLines_no_newline [of md] by (simp add: RetargetFile_def ParseRows_def splitLines_joinLines Let_def)
qed

text \<open>
  Retargeting a file rewrites exactly the rows of that file and digest. The rows of the document afterwards are
  the rows before, in order and with their line numbers, with only the File cell replaced and only in the rows whose File
  and sha256 cells are the given ones; and the count returned is the number of rows of the file with another digest.
\<close>

theorem registry_retarget_exact:
  assumes "cell_ok newFile"
  shows "ParseRows (fst (RetargetFile md oldFile newFile sha)) =
      map (\<lambda>r. if rr_File r = oldFile \<and> rr_SHA r = sha then r\<lparr>rr_File := newFile\<rparr> else r) (ParseRows md) \<and>
    snd (RetargetFile md oldFile newFile sha) =
      length (filter (\<lambda>r. rr_File r = oldFile \<and> rr_SHA r \<noteq> sha) (ParseRows md))"
  using RetargetFile_rows [OF assms] by blast

theorem registry_retarget_exact_witness:
  "ParseRows (fst (RetargetFile registry_header ''File'' ''m/b.pdf'' ''sha256'')) =
   map (\<lambda>r. if rr_File r = ''File'' \<and> rr_SHA r = ''sha256'' then r\<lparr>rr_File := ''m/b.pdf''\<rparr> else r) (ParseRows registry_header)"
  using registry_retarget_exact [of "''m/b.pdf''" registry_header "''File''" "''sha256''"]
  by (simp add: cell_ok_def trimmed_def blanks_def)

text \<open>
  What the code does with a name that ends in a blank, which the command line accepts: its row reads back without the
  blank, so the file is never found registered.
\<close>

lemma blank_name_not_found:
  "HasRow (InsertRow registry_header (FormatRow ''m/a '' ''m'' ''u'' ''d'' ''s'')) ''m/a '' [] = False"
  "HasRow (InsertRow registry_header (FormatRow ''m/a '' ''m'' ''u'' ''d'' ''s'')) ''m/a'' ''s''"
  by code_simp+

end
