(* ===== verification/Fetch_Doc.thy ===== *)
theory Fetch_Doc
  imports Registry
begin

text \<open>
  Preserving a source, \<open>rsdd sources fetch-doc\<close>: the redirect walk (\<open>sources/redirect\<close>), the snapshot name
  (\<open>sources/slug\<close>), the download into a part file (\<open>sources/download\<close>), the overwrite policy (\<open>sources/place\<close>) and the
  command that composes them and registers the result (\<open>sources/fetchdoc\<close>). The world is what the run can change: the
  files, by path, and SOURCES.md. Whether a call of the operating system is refused, what a tool prints and leaves
  in the part file, what the clock says and when a signal arrives are parameters; SHA-256 is a parameter.
\<close>

section \<open>The world\<close>

datatype fnode =
    FileNode string
  | LinkNode bool \<comment> \<open>a symbolic link, and whether it leads somewhere\<close>
  | DirNode bool \<comment> \<open>a directory, and whether it is empty\<close>

type_synonym files = "string \<Rightarrow> fnode option"

datatype registry_file = RegAbsent | RegText string | RegUnreadable

record world =
  w_files :: files
  w_reg :: registry_file

record os_calls =
  os_rename :: "string \<Rightarrow> string \<Rightarrow> bool" \<comment> \<open>whether a rename is let through\<close>
  os_links :: bool \<comment> \<open>whether the file system has hard links\<close>
  os_reads :: "string \<Rightarrow> bool"
  os_reg_write :: "string \<Rightarrow> bool" \<comment> \<open>whether SOURCES.md can be replaced by a text\<close>
  os_mkdir :: bool

type_synonym hash = "string \<Rightarrow> string" \<comment> \<open>the 64 hexadecimal digits of the SHA-256\<close>

definition isLink :: "files \<Rightarrow> string \<Rightarrow> bool" where
  "isLink fs path = (case fs path of Some (LinkNode _) \<Rightarrow> True | _ \<Rightarrow> False)"

definition exists_path :: "files \<Rightarrow> string \<Rightarrow> bool" where
  "exists_path fs path = (case fs path of None \<Rightarrow> False | Some (LinkNode leads) \<Rightarrow> leads | Some _ \<Rightarrow> True)"

text \<open>\<open>os.Remove\<close> takes a file, a link or an empty directory away; a directory with entries stays.\<close>

definition fs_remove :: "string \<Rightarrow> files \<Rightarrow> files" where
  "fs_remove path fs = (if fs path = Some (DirNode False) then fs else fs(path := None))"

definition fs_rename :: "string \<Rightarrow> string \<Rightarrow> files \<Rightarrow> files" where
  "fs_rename src dst fs = (if src = dst then fs else fs(dst := fs src, src := None))"

definition FileSHA256 :: "os_calls \<Rightarrow> hash \<Rightarrow> files \<Rightarrow> string \<Rightarrow> string option" where
  "FileSHA256 os sha fs path =
     (case fs path of Some (FileNode b) \<Rightarrow> if os_reads os path then Some (sha b) else None | _ \<Rightarrow> None)"

section \<open>SOURCES.md\<close>

definition registry_Has :: "world \<Rightarrow> string \<Rightarrow> string \<Rightarrow> bool option" where
  "registry_Has w name sha =
     (case w_reg w of RegAbsent \<Rightarrow> Some False | RegText md \<Rightarrow> Some (HasRow md name sha) | RegUnreadable \<Rightarrow> None)"

definition registry_Append :: "os_calls \<Rightarrow> string \<Rightarrow> world \<Rightarrow> world option" where
  "registry_Append os row w =
     (case w_reg w of
        RegUnreadable \<Rightarrow> None
      | RegAbsent \<Rightarrow> 
          if os_reg_write os (InsertRow registry_header row) then Some (w\<lparr>w_reg := RegText (InsertRow registry_header row)\<rparr>) else None
      | RegText md \<Rightarrow>
          if os_reg_write os (InsertRow md row) then Some (w\<lparr>w_reg := RegText (InsertRow md row)\<rparr>) else None)"

definition registry_Retarget :: "os_calls \<Rightarrow> string \<Rightarrow> string \<Rightarrow> string \<Rightarrow> world \<Rightarrow> (nat \<times> world) option" where
  "registry_Retarget os oldFile newFile sha w =
     (case w_reg w of
        RegUnreadable \<Rightarrow> None
      | RegAbsent \<Rightarrow> Some (0, w)
      | RegText md \<Rightarrow>
          (let (out, others) = RetargetFile md oldFile newFile sha
           in if os_reg_write os out then Some (others, w\<lparr>w_reg := RegText out\<rparr>) else None))"

section \<open>Names\<close>

definition last_index_char :: "char \<Rightarrow> string \<Rightarrow> nat option" where
  "last_index_char c s = find (\<lambda>i. s ! i = c) (rev [0..<length s])"

definition versionedSHALen :: nat where "versionedSHALen = 12"

definition versionedName :: "string \<Rightarrow> string \<Rightarrow> string" where
  "versionedName base sha =
     (let (stem, ext) = (case last_index_char (CHR ''.'') base of Some i \<Rightarrow> (take i base, drop i base) | None \<Rightarrow> (base, []))
      in stem @ ''.'' @ take versionedSHALen sha @ ext)"

definition sibling :: "string \<Rightarrow> string \<Rightarrow> string" where
  "sibling rel vname =
     (case last_index_char (CHR ''/'') rel of Some i \<Rightarrow> take i rel @ ''/'' @ vname | None \<Rightarrow> vname)"

text \<open>\<open>filepath.Base\<close> of a path that does not end in a slash, and the path of a name in the same directory.\<close>

definition path_base :: "string \<Rightarrow> string" where
  "path_base path = (case last_index_char (CHR ''/'') path of Some i \<Rightarrow> drop (i + 1) path | None \<Rightarrow> path)"

section \<open>The overwrite policy\<close>

record placer =
  pl_SDir :: string
  pl_Replace :: bool

definition ExitFailure :: int where "ExitFailure = 1"
definition ExitExists :: int where "ExitExists = 4"
definition ExitSymlink :: int where "ExitSymlink = 5"

definition place_Rel :: "placer \<Rightarrow> string \<Rightarrow> string" where
  "place_Rel p dest = trim_prefix dest (pl_SDir p @ ''/'')"

definition Preflight :: "placer \<Rightarrow> string \<Rightarrow> world \<Rightarrow> int" where
  "Preflight p dest w =
     (if isLink (w_files w) dest then ExitSymlink
      else if exists_path (w_files w) dest \<and> \<not> pl_Replace p then ExitExists
      else 0)"

definition move_old :: "os_calls \<Rightarrow> hash \<Rightarrow> string \<Rightarrow> string \<Rightarrow> string \<Rightarrow> world \<Rightarrow> world option" where
  "move_old os sha dest vpath oldSHA w =
     (if exists_path (w_files w) vpath then
        (if FileSHA256 os sha (w_files w) vpath \<noteq> Some oldSHA then None
         else Some (w\<lparr>w_files := fs_remove dest (w_files w)\<rparr>))
      else if os_rename os dest vpath then Some (w\<lparr>w_files := fs_rename dest vpath (w_files w)\<rparr>)
      else None)"

text \<open>The step that keeps the old bytes: whether nothing is left to do, the exit code, and the world.\<close>

definition archive_old :: "os_calls \<Rightarrow> hash \<Rightarrow> placer \<Rightarrow> string \<Rightarrow> string \<Rightarrow> string \<Rightarrow> world \<Rightarrow> (bool \<times> int) \<times> world" where
  "archive_old os sha p part dest rel w =
     (case FileSHA256 os sha (w_files w) dest of
        None \<Rightarrow> ((False, ExitFailure), w)
      | Some oldSHA \<Rightarrow>
     (case FileSHA256 os sha (w_files w) part of
        None \<Rightarrow> ((False, ExitFailure), w)
      | Some newSHA \<Rightarrow>
     (case registry_Has w rel newSHA of
        None \<Rightarrow> ((False, ExitFailure), w)
      | Some has \<Rightarrow>
          if oldSHA = newSHA then
            (if has then ((True, 0), w\<lparr>w_files := fs_remove part (w_files w)\<rparr>) else ((False, 0), w))
          else
            let vname = versionedName (path_base dest) oldSHA; vpath = sibling dest vname
            in if isLink (w_files w) vpath then ((False, ExitFailure), w)
               else
                 case move_old os sha dest vpath oldSHA w of
                   None \<Rightarrow> ((False, ExitFailure), w)
                 | Some w1 \<Rightarrow>
                     (case registry_Retarget os rel (sibling rel vname) oldSHA w1 of
                        None \<Rightarrow> ((False, ExitFailure), w1)
                      | Some (others, w2) \<Rightarrow> ((False, 0), w2)))))"

definition move_into_place :: "os_calls \<Rightarrow> string \<Rightarrow> string \<Rightarrow> world \<Rightarrow> (bool \<times> int) \<times> world" where
  "move_into_place os part dest w =
     (if w_files w part \<noteq> None \<and> os_rename os part dest then ((False, 0), w\<lparr>w_files := fs_rename part dest (w_files w)\<rparr>)
      else ((False, ExitFailure), w\<lparr>w_files := fs_remove part (w_files w)\<rparr>))"

definition Install :: "os_calls \<Rightarrow> hash \<Rightarrow> placer \<Rightarrow> string \<Rightarrow> string \<Rightarrow> world \<Rightarrow> (bool \<times> int) \<times> world" where
  "Install os sha p part dest w =
     (let rel = place_Rel p dest
      in if isLink (w_files w) dest then ((False, ExitSymlink), w)
         else
           let ((same, code), w1) =
             (if pl_Replace p \<and> exists_path (w_files w) dest then archive_old os sha p part dest rel w else ((False, 0), w))
           in if same \<or> code \<noteq> 0 then ((same, code), w1)
              else if \<not> pl_Replace p then
                (if os_links os \<and> w_files w1 dest = None \<and> w_files w1 part \<notin> {None, Some (DirNode True), Some (DirNode False)} then
                   ((False, 0), w1\<lparr>w_files := fs_remove part ((w_files w1)(dest := w_files w1 part))\<rparr>)
                 else if exists_path (w_files w1) dest \<or> isLink (w_files w1) dest then ((False, ExitExists), w1)
                 else move_into_place os part dest w1)
              else move_into_place os part dest w1)"

text \<open>The sweep of part files whose process is dead.\<close>

definition partMarker :: string where "partMarker = ''.fetchdoc-part.''"

definition last_marker :: "string \<Rightarrow> nat option" where
  "last_marker name = find (\<lambda>i. take (length partMarker) (drop i name) = partMarker) (rev [0..<length name])"

definition partPid :: "string \<Rightarrow> string option" where
  "partPid name =
     (if take 1 name = ''.'' then None
      else case last_marker name of
             None \<Rightarrow> None
           | Some i \<Rightarrow>
               (let pid = drop (i + length partMarker) name
                in if pid = [] \<or> trim ''0123456789'' pid \<noteq> [] then None else Some pid))"

fun sweep_loop :: "placer \<Rightarrow> string \<Rightarrow> (string \<Rightarrow> bool) \<Rightarrow> string list \<Rightarrow> world \<Rightarrow> int \<times> world" where
  "sweep_loop p dir alive [] w = (0, w)"
| "sweep_loop p dir alive (name # names) w =
     (case partPid name of
        None \<Rightarrow> sweep_loop p dir alive names w
      | Some pid \<Rightarrow>
          (let f = dir @ ''/'' @ name
           in if \<not> exists_path (w_files w) f then sweep_loop p dir alive names w
              else case registry_Has w (place_Rel p f) [] of
                     None \<Rightarrow> (ExitFailure, w)
                   | Some True \<Rightarrow> sweep_loop p dir alive names w
                   | Some False \<Rightarrow>
                       sweep_loop p dir alive names
                         (if alive pid then w else w\<lparr>w_files := fs_remove f (w_files w)\<rparr>)))"

definition SweepStale :: "placer \<Rightarrow> string \<Rightarrow> (string \<Rightarrow> bool) \<Rightarrow> string list option \<Rightarrow> world \<Rightarrow> int \<times> world" where
  \<comment> \<open>the sorted names of the directory, \<open>None\<close> when it cannot be read\<close>
  "SweepStale p dir alive names w = (case names of None \<Rightarrow> (0, w) | Some ns \<Rightarrow> sweep_loop p dir alive ns w)"

section \<open>The redirect walk\<close>

definition MaxHops :: nat where "MaxHops = 10"

definition before_sep :: "string \<Rightarrow> string" where
  "before_sep s = takeWhile (\<lambda>c. c \<noteq> CHR '' '') s"

definition after_sep :: "string \<Rightarrow> string" where
  "after_sep s = (if CHR '' '' \<in> set s then tl (dropWhile (\<lambda>c. c \<noteq> CHR '' '') s) else s)"

definition neverReachedHost :: "nat \<Rightarrow> string \<Rightarrow> bool" where
  "neverReachedHost rc timeConnect \<longleftrightarrow>
     rc = 6 \<or> rc = 7 \<or> (rc = 28 \<and> timeConnect \<in> {''0'', ''0.000000'', ''0.000000000'', ''''})"

text \<open>What \<open>curl\<close> prints and returns for a HEAD and for a GET of no bytes.\<close>

record probes =
  pr_head :: "string \<Rightarrow> string \<times> nat"
  pr_get :: "string \<Rightarrow> string \<times> nat"

definition trim_newlines :: "string \<Rightarrow> string" where
  "trim_newlines s = trim_right [newline_char] s"

definition probe :: "probes \<Rightarrow> string \<Rightarrow> string \<times> string" where
  "probe pr cur =
     (let (raw, rc) = pr_head pr cur; out = trim_newlines raw;
          (out, timeConnect) =
            (if out \<noteq> [] then
               (let rest = after_sep out in (before_sep out @ '' '' @ after_sep rest, before_sep rest))
             else (out, ''0''));
          c = before_sep out;
          out = (if c \<in> {''301'', ''302'', ''303'', ''307'', ''308''} \<or> (length c = 3 \<and> c ! 0 = CHR ''2'') then out
                 else if neverReachedHost rc timeConnect then []
                 else let (raw2, rc2) = pr_get pr cur in if rc2 \<noteq> 0 then [] else trim_newlines raw2)
      in (before_sep out, after_sep out))"

definition http_url :: "string \<Rightarrow> bool" where
  "http_url u \<longleftrightarrow> has_prefix u ''http://'' \<or> has_prefix u ''https://''"

fun resolve_loop :: "probes \<Rightarrow> (nat \<Rightarrow> bool) \<Rightarrow> nat \<Rightarrow> string \<Rightarrow> string" where
  \<comment> \<open>the hops left; \<open>cancelled n\<close> is the context after the probe with \<open>n\<close> hops left\<close>
  "resolve_loop pr cancelled 0 cur = cur"
| "resolve_loop pr cancelled (Suc n) cur =
     (let (code, loc) = probe pr cur
      in if cancelled n then cur
         else if code \<noteq> ''301'' \<and> code \<noteq> ''308'' then cur
         else if loc = [] then cur
         else if \<not> http_url loc then cur
         else resolve_loop pr cancelled n (SafeCell loc))"

definition Resolve :: "probes \<Rightarrow> (nat \<Rightarrow> bool) \<Rightarrow> string \<Rightarrow> string" where
  "Resolve pr cancelled url = resolve_loop pr cancelled MaxHops url"

section \<open>The snapshot name\<close>

definition maxPlain :: nat where "maxPlain = 80"

definition safe_char :: "char \<Rightarrow> bool" where
  "safe_char c \<longleftrightarrow> (CHR ''a'' \<le> c \<and> c \<le> CHR ''z'') \<or> (CHR ''A'' \<le> c \<and> c \<le> CHR ''Z'') \<or> (CHR ''0'' \<le> c \<and> c \<le> CHR ''9'') \<or>
     c = CHR ''.'' \<or> c = CHR ''_'' \<or> c = CHR ''-''"

definition bytewise :: "string \<Rightarrow> string" where
  "bytewise s = map (\<lambda>c. if safe_char c then c else CHR ''_'') s"

fun replaceFirst :: "string \<Rightarrow> string" where
  \<comment> \<open>drops the first \<open>https?://\<close>\<close>
  "replaceFirst [] = []"
| "replaceFirst (c # s) =
     (if has_prefix (c # s) ''http://'' then drop 7 (c # s)
      else if has_prefix (c # s) ''https://'' then drop 8 (c # s)
      else c # replaceFirst s)"

definition slug_Web :: "hash \<Rightarrow> string \<Rightarrow> string" where
  "slug_Web sha url =
     (let s = bytewise (replaceFirst url)
      in if length s \<le> maxPlain then s
         else take 46 s @ ''_'' @ drop (length s - 20) s @ ''-'' @ take 12 (sha url))"

section \<open>The download\<close>

text \<open>
  The points at which the run looks at its context: after each redirect probe, after the transfers, between the
  stages. A signal recorded there decides the exit status.
\<close>

datatype stop_signal = SIGINT | SIGTERM

definition exitInterrupted :: int where "exitInterrupted = 130"
definition exitTerminated :: int where "exitTerminated = 143"

definition signal_exit :: "stop_signal \<Rightarrow> int" where
  "signal_exit sg = (if sg = SIGINT then exitInterrupted else exitTerminated)"

datatype checkpoint = AfterProbe nat | AfterResolve | AfterCurl | AfterWget | BeforeFetch | AfterFetch | BeforeConvert | AfterConvert | AtBlock

type_synonym signals = "checkpoint \<Rightarrow> stop_signal option"

text \<open>The tools: which are installed, and what a transfer returns and leaves in the part file.\<close>

record tools =
  to_have :: "string \<Rightarrow> bool"
  to_probes :: probes
  to_curl :: "string \<Rightarrow> nat \<times> string option"
  to_wget :: "string \<Rightarrow> nat \<times> string option"
  to_pandoc :: "string \<Rightarrow> nat \<times> string option"

definition PartPath :: "string \<Rightarrow> nat \<Rightarrow> string" where
  "PartPath final pid = final @ partMarker @ dec_str pid"

definition Cancelled :: int where "Cancelled = - 1"

definition put_file :: "string \<Rightarrow> string option \<Rightarrow> world \<Rightarrow> world" where
  \<comment> \<open>what a tool told to write a file leaves there\<close>
  "put_file path content w = (case content of None \<Rightarrow> w | Some b \<Rightarrow> w\<lparr>w_files := (w_files w)(path \<mapsto> FileNode b)\<rparr>)"

definition remove_file :: "string \<Rightarrow> world \<Rightarrow> world" where
  "remove_file path w = w\<lparr>w_files := fs_remove path (w_files w)\<rparr>"

definition nonEmpty :: "world \<Rightarrow> string \<Rightarrow> bool" where
  "nonEmpty w path = (case w_files w path of Some (FileNode b) \<Rightarrow> b \<noteq> [] | _ \<Rightarrow> False)"

definition fetch_wget :: "tools \<Rightarrow> signals \<Rightarrow> string \<Rightarrow> string \<Rightarrow> world \<Rightarrow> (string \<times> int) \<times> world" where
  "fetch_wget t sig url part w =
     (if \<not> to_have t ''wget'' then (([], 1), remove_file part w)
      else
        let (rc, content) = to_wget t url; w1 = put_file part content w
        in if sig AfterWget \<noteq> None then (([], Cancelled), remove_file part w1)
           else if rc = 0 \<and> nonEmpty w1 part then ((url, 0), w1)
           else (([], 1), remove_file part w1))"

text \<open>\<open>Fetch\<close> with \<open>keepPart\<close>, as both modes call it.\<close>

definition Fetch :: "tools \<Rightarrow> signals \<Rightarrow> string \<Rightarrow> string \<Rightarrow> world \<Rightarrow> (string \<times> int) \<times> world" where
  "Fetch t sig url part w =
     (if to_have t ''curl'' then
        (let effective = Resolve (to_probes t) (\<lambda>n. sig (AfterProbe n) \<noteq> None) url
         in if sig AfterResolve \<noteq> None then (([], Cancelled), w)
            else
              let (rc, content) = to_curl t effective; w1 = put_file part content w
              in if sig AfterCurl \<noteq> None then (([], Cancelled), w1)
                 else if rc = 0 then
                   (if \<not> nonEmpty w1 part then (([], 1), remove_file part w1) else ((effective, 0), w1))
                 else fetch_wget t sig url part (remove_file part w1))
      else fetch_wget t sig url part (remove_file part w))"

section \<open>The command\<close>

definition exitFailure :: int where "exitFailure = 1"
definition exitUsage :: int where "exitUsage = 2"
definition exitMissing :: int where "exitMissing = 3"
definition defaultSub :: string where "defaultSub = ''datasheets''"

record request =
  rq_replace :: bool
  rq_mode :: string
  rq_pos :: "string list"

definition parse_args :: "string list \<Rightarrow> request" where
  "parse_args args =
     (let rest = filter (\<lambda>a. a \<noteq> ''--replace'') args
      in \<lparr>rq_replace = ''--replace'' \<in> set args, rq_mode = (if rest = [] then [] else hd rest), rq_pos = tl rest\<rparr>)"

definition rq_arg :: "request \<Rightarrow> nat \<Rightarrow> string" where
  "rq_arg r i = (if i < length (rq_pos r) then rq_pos r ! i else [])"

definition control_char :: "char \<Rightarrow> bool" where
  "control_char c \<longleftrightarrow> c < CHR 0x20 \<or> c = CHR 0x7F"

text \<open>The refusals: whether a value is refused (its message is left out).\<close>

definition badChars :: "string \<Rightarrow> bool" where
  "badChars s \<longleftrightarrow> list_ex (\<lambda>c. c = pipe \<or> control_char c) s"

definition checkURL :: "string \<Rightarrow> bool" where
  "checkURL url \<longleftrightarrow> has_prefix url ''-'' \<or> list_ex control_char url"

definition checkSub :: "string \<Rightarrow> bool" where
  "checkSub sub \<longleftrightarrow> has_prefix sub ''/'' \<or> ''..'' \<in> set (split_on (CHR ''/'') sub) \<or> badChars sub"

definition checkName :: "string \<Rightarrow> bool" where
  "checkName name \<longleftrightarrow> name = [] \<or> name = ''.'' \<or> name = ''..'' \<or> CHR ''/'' \<in> set name \<or> badChars name"

definition baseName :: "string \<Rightarrow> string" where
  "baseName url0 =
     (let url = trim_right ''/'' (takeWhile (\<lambda>c. c \<noteq> CHR ''?'') url0)
      in case last_index_char (CHR ''/'') url of Some i \<Rightarrow> drop (i + 1) url | None \<Rightarrow> url)"

text \<open>
  One stage under the session: a signal before or after it wins over its status.
\<close>

definition cancellable :: "signals \<Rightarrow> checkpoint \<Rightarrow> checkpoint \<Rightarrow> (world \<Rightarrow> ('a \<times> int) \<times> world) \<Rightarrow> 'a \<Rightarrow> world \<Rightarrow> ('a \<times> int) \<times> world" where
  "cancellable sig before after fn none w =
     (case sig before of
        Some sg \<Rightarrow> ((none, signal_exit sg), w)
      | None \<Rightarrow>
          (let ((x, code), w1) = fn w
           in case sig after of Some sg \<Rightarrow> ((x, signal_exit sg), w1) | None \<Rightarrow> ((x, code), w1)))"

definition asExit :: "int \<Rightarrow> int" where
  \<comment> \<open>a cancelled stage whose signal is not recorded is a failure\<close>
  "asExit code = (if code = Cancelled then exitFailure else code)"

definition stage :: "os_calls \<Rightarrow> hash \<Rightarrow> signals \<Rightarrow> string \<Rightarrow> world \<Rightarrow> string \<times> int" where
  "stage os sha sig staged w =
     (case sig AtBlock of
        Some sg \<Rightarrow> ([], signal_exit sg)
      | None \<Rightarrow> (case FileSHA256 os sha (w_files w) staged of None \<Rightarrow> ([], exitFailure) | Some h \<Rightarrow> (h, 0)))"

definition register :: "os_calls \<Rightarrow> string \<Rightarrow> string \<Rightarrow> string \<Rightarrow> string \<Rightarrow> string \<Rightarrow> string \<Rightarrow> world \<Rightarrow> int \<times> world" where
  "register os sdir dest kind origin date sha w =
     (case registry_Append os (FormatRow (trim_prefix dest (sdir @ ''/'')) kind (SafeCell origin) date sha) w of
        None \<Rightarrow> (exitFailure, w)
      | Some w' \<Rightarrow> (0, w'))"

text \<open>From a staged part file to its row: what both modes do after the point of no return.\<close>

definition settle_source :: "os_calls \<Rightarrow> hash \<Rightarrow> signals \<Rightarrow> placer \<Rightarrow> string \<Rightarrow> string \<Rightarrow> string \<Rightarrow> string \<Rightarrow> string \<Rightarrow> world \<Rightarrow> int \<times> world" where
  "settle_source os sha sig p part dest kind origin date w =
     (let (h, code) = stage os sha sig part w
      in if code \<noteq> 0 then (code, w)
         else
           let ((same, code), w1) = Install os sha p part dest w
           in if code \<noteq> 0 then (code, w1)
              else if same then (0, w1)
              else register os (pl_SDir p) dest kind origin date h w1)"

text \<open>The document mode: the sub-directory and the name, the run between the checks and the cleanup, the command.\<close>

definition rq_sub :: "request \<Rightarrow> string" where
  "rq_sub r = (if rq_arg r 2 = [] then defaultSub else rq_arg r 2)"

definition rq_name :: "request \<Rightarrow> string" where
  "rq_name r = (if rq_arg r 3 = [] then baseName (rq_arg r 0) else rq_arg r 3)"

definition doc_run :: "os_calls \<Rightarrow> hash \<Rightarrow> tools \<Rightarrow> signals \<Rightarrow> nat \<Rightarrow> string \<Rightarrow> (string \<Rightarrow> bool) \<Rightarrow> (string \<Rightarrow> string list option) \<Rightarrow>
    placer \<Rightarrow> string \<Rightarrow> string \<Rightarrow> string \<Rightarrow> world \<Rightarrow> int \<times> world" where
  "doc_run os sha t sig pid date alive listing p sub url dest w =
     (if Preflight p dest w \<noteq> 0 then (Preflight p dest w, w)
      else
        let (code, w1) = SweepStale p (pl_SDir p @ ''/'' @ sub) alive (listing (pl_SDir p @ ''/'' @ sub)) w
        in if code \<noteq> 0 then (code, w1)
           else
             let ((effective, code), w2) = cancellable sig BeforeFetch AfterFetch (Fetch t sig url (PartPath dest pid)) [] w1
             in if code \<noteq> 0 then (asExit code, w2)
                else settle_source os sha sig p (PartPath dest pid) dest sub effective date w2)"

definition doc_refusal :: "os_calls \<Rightarrow> tools \<Rightarrow> request \<Rightarrow> int" where
  \<comment> \<open>the exit code of the checks that come before anything is changed, 0 when they pass\<close>
  "doc_refusal os t r =
     (if rq_arg r 0 = [] \<or> rq_arg r 1 = [] then exitUsage
      else if checkURL (rq_arg r 0) \<or> checkSub (rq_sub r) \<or> checkName (rq_name r) then exitUsage
      else if \<not> to_have t ''curl'' \<and> \<not> to_have t ''wget'' then exitMissing
      else if \<not> os_mkdir os then exitFailure
      else 0)"

definition doc_placer :: "request \<Rightarrow> placer" where
  "doc_placer r = \<lparr>pl_SDir = rq_arg r 1 @ ''/sources'', pl_Replace = rq_replace r\<rparr>"

definition doc_dest :: "request \<Rightarrow> string" where
  "doc_dest r = pl_SDir (doc_placer r) @ ''/'' @ rq_sub r @ ''/'' @ rq_name r"

definition fetch_doc :: "os_calls \<Rightarrow> hash \<Rightarrow> tools \<Rightarrow> signals \<Rightarrow> nat \<Rightarrow> string \<Rightarrow> (string \<Rightarrow> bool) \<Rightarrow> (string \<Rightarrow> string list option) \<Rightarrow>
    request \<Rightarrow> world \<Rightarrow> int \<times> world" where
  "fetch_doc os sha t sig pid date alive listing r w =
     (if doc_refusal os t r \<noteq> 0 then (doc_refusal os t r, w)
      else
        let (code, w') = doc_run os sha t sig pid date alive listing (doc_placer r) (rq_sub r) (rq_arg r 0) (doc_dest r) w
        in (code, remove_file (PartPath (doc_dest r) pid) w'))"

text \<open>The page mode: the page is staged outside the target (a file of the temporary directory), converted, and moved into place.\<close>

definition convert_page :: "tools \<Rightarrow> signals \<Rightarrow> string \<Rightarrow> string \<Rightarrow> world \<Rightarrow> (unit \<times> int) \<times> world" where
  "convert_page t sig html out w =
     (let (rc, content) = (if to_have t ''pandoc'' then to_pandoc t html else (1, None)); w1 = put_file out content w
      in if rc = 0 then (((), 0), w1)
         else if to_have t ''pandoc'' \<and> sig AfterConvert \<noteq> None then (((), exitFailure), w1)
         else case w_files w1 html of
                Some (FileNode b) \<Rightarrow> (((), 0), put_file out (Some b) w1)
              | _ \<Rightarrow> (((), exitFailure), w1))"

definition web_run :: "os_calls \<Rightarrow> hash \<Rightarrow> tools \<Rightarrow> signals \<Rightarrow> nat \<Rightarrow> string \<Rightarrow> placer \<Rightarrow> string \<Rightarrow> string \<Rightarrow> string \<Rightarrow> world \<Rightarrow> int \<times> world" where
  \<comment> \<open>from the staged page's empty file on\<close>
  "web_run os sha t sig pid date p url dest page w =
     (let hpart = PartPath page pid; wpart = PartPath dest pid;
          ((effective, code), w2) = cancellable sig BeforeFetch AfterFetch (Fetch t sig url hpart) [] w
      in if code \<noteq> 0 then (asExit code, w2)
         else if w_files w2 hpart = None \<or> \<not> os_rename os hpart page then (exitFailure, w2)
         else
           let w3 = w2\<lparr>w_files := fs_rename hpart page (w_files w2)\<rparr>;
               ((_, code), w4) = cancellable sig BeforeConvert AfterConvert (convert_page t sig page wpart) () w3
           in if code \<noteq> 0 then (asExit code, w4)
              else settle_source os sha sig p wpart dest ''web-snapshot'' effective date w4)"

definition web_refusal :: "os_calls \<Rightarrow> tools \<Rightarrow> request \<Rightarrow> int" where
  "web_refusal os t r =
     (if rq_arg r 0 = [] \<or> rq_arg r 1 = [] then exitUsage
      else if checkURL (rq_arg r 0) then exitUsage
      else if \<not> to_have t ''curl'' \<and> \<not> to_have t ''wget'' then exitMissing
      else if \<not> os_mkdir os then exitFailure
      else 0)"

definition web_cell :: "hash \<Rightarrow> request \<Rightarrow> string" where
  "web_cell sha r = ''web-snapshots/'' @ slug_Web sha (rq_arg r 0) @ ''.md''"

text \<open>The path of the temporary page is what the system chose, or nothing when it chose none.\<close>

definition fetch_web :: "os_calls \<Rightarrow> hash \<Rightarrow> tools \<Rightarrow> signals \<Rightarrow> nat \<Rightarrow> string \<Rightarrow> (string \<Rightarrow> bool) \<Rightarrow> (string \<Rightarrow> string list option) \<Rightarrow>
    string option \<Rightarrow> request \<Rightarrow> world \<Rightarrow> int \<times> world" where
  "fetch_web os sha t sig pid date alive listing html r w =
     (if web_refusal os t r \<noteq> 0 then (web_refusal os t r, w)
      else
        let p = doc_placer r; dir = pl_SDir p @ ''/web-snapshots''; dest = pl_SDir p @ ''/'' @ web_cell sha r
        in if Preflight p dest w \<noteq> 0 then (Preflight p dest w, w)
           else
             let (code, w1) = SweepStale p dir alive (listing dir) w
             in if code \<noteq> 0 then (code, w1)
                else case html of
                  None \<Rightarrow> (exitFailure, w1)
                | Some page \<Rightarrow>
                    (let (code, w') = web_run os sha t sig pid date p (rq_arg r 0) dest page (put_file page (Some []) w1)
                     in (code, remove_file (PartPath dest pid) (remove_file (PartPath page pid) (remove_file page w')))))"

definition Execute :: "(request \<Rightarrow> world \<Rightarrow> int \<times> world) \<Rightarrow> (request \<Rightarrow> world \<Rightarrow> int \<times> world) \<Rightarrow> (request \<Rightarrow> world \<Rightarrow> int \<times> world) \<Rightarrow>
    string list \<Rightarrow> world \<Rightarrow> int \<times> world" where
  "Execute doc web ocr args w =
     (let r = parse_args args
      in if rq_mode r = [] then (exitUsage, w)
         else if rq_mode r = ''doc'' then doc r w
         else if rq_mode r = ''web'' then web r w
         else if rq_mode r = ''ocr'' then ocr r w
         else (exitUsage, w))"

section \<open>Paths\<close>

lemma last_index_char_Some: "last_index_char c s = Some i \<Longrightarrow> i < length s \<and> s ! i = c"
proof -
  assume "last_index_char c s = Some i"
  then have "i \<in> set (rev [0..<length s])" "s ! i = c"
    by (auto simp: last_index_char_def find_Some_iff simp del: set_rev intro: nth_mem)
  then show ?thesis by simp
qed

lemma last_index_char_None: "last_index_char c s = None \<longleftrightarrow> c \<notin> set s"
  by (auto simp: last_index_char_def find_None_iff in_set_conv_nth)

definition path_dir :: "string \<Rightarrow> string" where
  "path_dir path = (case last_index_char (CHR ''/'') path of Some i \<Rightarrow> take (i + 1) path | None \<Rightarrow> [])"

lemma path_split: "path = path_dir path @ path_base path"
  by (simp add: path_dir_def path_base_def split: option.split)

lemma sibling_dir: "sibling path v = path_dir path @ v"
  by (auto simp: sibling_def path_dir_def split: option.split dest!: last_index_char_Some simp: take_Suc_conv_app_nth)

text \<open>The versioned name adds a dot and the first digits of the digest, so it is longer than the name.\<close>

lemma versionedName_parts:
  obtains stem ext where "base = stem @ ext" "versionedName base d = stem @ ''.'' @ take versionedSHALen d @ ext"
  by (cases "last_index_char (CHR ''.'') base")
    (auto simp: versionedName_def intro: that [of base "[]"] that [of "take (the (last_index_char (CHR ''.'') base)) base"
      "drop (the (last_index_char (CHR ''.'') base)) base"])

definition versioned_path :: "string \<Rightarrow> string \<Rightarrow> string" where
  "versioned_path dest d = sibling dest (versionedName (path_base dest) d)"

lemma versioned_path_ne [simp]: "versioned_path dest d \<noteq> dest"
proof
  assume eq: "versioned_path dest d = dest"
  obtain stem ext where "path_base dest = stem @ ext"
    "versionedName (path_base dest) d = stem @ ''.'' @ take versionedSHALen d @ ext" by (rule versionedName_parts)
  then have "length (versionedName (path_base dest) d) > length (path_base dest)" by simp
  moreover have "path_dir dest @ versionedName (path_base dest) d = path_dir dest @ path_base dest"
    using eq path_split [of dest] by (simp add: versioned_path_def sibling_dir)
  ultimately show False by simp
qed

definition hex_digests :: "hash \<Rightarrow> bool" where
  \<comment> \<open>what the digest is known to be: 64 hexadecimal digits\<close>
  "hex_digests sha \<longleftrightarrow> (\<forall>b. length (sha b) = 64 \<and> set (sha b) \<subseteq> set ''0123456789abcdef'')"

text \<open>The part file is never the destination or the versioned name: only its marker holds one more hyphen.\<close>

lemma part_ne [simp]: "PartPath dest pid \<noteq> dest" "dest \<noteq> PartPath dest pid"
  by (auto simp: PartPath_def partMarker_def)

lemma part_ne_versioned:
  assumes "hex_digests sha"
  shows "versioned_path dest (sha b) \<noteq> PartPath dest pid"
proof -
  let ?n = "\<lambda>s. length (filter (\<lambda>c. c = CHR ''-'') s)"
  have no: "?n (take k (sha b)) = 0" for k
    using assms unfolding hex_digests_def by (fastforce simp: filter_empty_conv dest: in_set_takeD)
  obtain stem ext where parts: "path_base dest = stem @ ext"
    "versionedName (path_base dest) (sha b) = stem @ ''.'' @ take versionedSHALen (sha b) @ ext" by (rule versionedName_parts)
  then have "?n (versioned_path dest (sha b)) = ?n (path_dir dest @ path_base dest)"
    by (simp add: versioned_path_def sibling_dir no)
  then have "?n (versioned_path dest (sha b)) = ?n dest" by (simp only: path_split [symmetric])
  moreover have "?n (PartPath dest pid) \<ge> ?n dest + 1" by (simp add: PartPath_def partMarker_def)
  ultimately show ?thesis by auto
qed

section \<open>What the install does\<close>

text \<open>The old bytes set aside: the destination is gone, and the versioned name holds bytes of the same digest.\<close>

definition set_aside :: "hash \<Rightarrow> string \<Rightarrow> string \<Rightarrow> files \<Rightarrow> files \<Rightarrow> bool" where
  "set_aside sha dest b fs fs' \<longleftrightarrow>
     (let v = versioned_path dest (sha b)
      in fs' = fs(dest := None, v := fs' v) \<and> (\<exists>b'. fs' v = Some (FileNode b') \<and> sha b' = sha b) \<and>
         (fs v = None \<or> fs v = fs' v))"

lemma FileSHA256_Some: "FileSHA256 os sha fs path = Some s \<longleftrightarrow> (\<exists>b. fs path = Some (FileNode b) \<and> os_reads os path \<and> sha b = s)"
  by (auto simp: FileSHA256_def split: option.splits fnode.splits if_splits)

lemma registry_Retarget_files: "registry_Retarget os f g s w = Some (n, w') \<Longrightarrow> w_files w' = w_files w"
  by (auto simp: registry_Retarget_def split: registry_file.splits prod.splits if_splits)

lemma registry_Has_reg: "w_reg w' = w_reg w \<Longrightarrow> registry_Has w' = registry_Has w"
  by (simp add: registry_Has_def fun_eq_iff)

lemma move_old_Some:
  assumes "move_old os sha dest (versioned_path dest (sha b)) (sha b) w = Some w'"
    and "w_files w dest = Some (FileNode b)" and "\<not> isLink (w_files w) (versioned_path dest (sha b))"
  shows "set_aside sha dest b (w_files w) (w_files w')" "w_reg w' = w_reg w"
proof -
  let ?v = "versioned_path dest (sha b)"
  have "set_aside sha dest b (w_files w) (w_files w') \<and> w_reg w' = w_reg w"
  proof (cases "exists_path (w_files w) ?v")
    case True
    then obtain b' where "w_files w ?v = Some (FileNode b')" "sha b' = sha b" "w' = w\<lparr>w_files := (w_files w)(dest := None)\<rparr>"
      using assms(1,2) by (auto simp: move_old_def FileSHA256_Some fs_remove_def split: if_splits)
    then show ?thesis by (auto simp: set_aside_def Let_def fun_eq_iff)
  next
    case False
    then have "w_files w ?v = None" "w' = w\<lparr>w_files := (w_files w)(?v := Some (FileNode b), dest := None)\<rparr>"
      using assms
      by (auto simp: move_old_def fs_rename_def isLink_def exists_path_def versioned_path_ne [symmetric]
          split: if_splits option.splits fnode.splits bool.splits)
    then show ?thesis by (auto simp: set_aside_def Let_def fun_eq_iff)
  qed
  then show "set_aside sha dest b (w_files w) (w_files w')" "w_reg w' = w_reg w" by simp_all
qed

text \<open>
  The four ways the archive step ends: it fails and touches nothing; the bytes are the registered ones and only the
  part file goes; they are the same bytes but unregistered and nothing changes; or the old bytes are set aside and the
  rows retargeted (unless the registry cannot be written).
\<close>

definition retarget_old :: "os_calls \<Rightarrow> hash \<Rightarrow> string \<Rightarrow> string \<Rightarrow> string \<Rightarrow> world \<Rightarrow> (nat \<times> world) option" where
  "retarget_old os sha dest rel b w =
     registry_Retarget os rel (sibling rel (versionedName (path_base dest) (sha b))) (sha b) w"

lemma archive_old_cases:
  assumes "archive_old os sha p part dest rel w = ((same, code), w1)"
  obtains (fails) "code = ExitFailure" "\<not> same" "w1 = w"
  | (same) b c where "same" "code = 0" "w1 = remove_file part w" "w_files w dest = Some (FileNode b)"
      "w_files w part = Some (FileNode c)" "sha b = sha c" "registry_Has w rel (sha c) = Some True"
  | (unregistered) b c where "\<not> same" "code = 0" "w1 = w" "w_files w dest = Some (FileNode b)"
      "w_files w part = Some (FileNode c)" "sha b = sha c"
  | (aside) b c w2 where "\<not> same" "w_files w dest = Some (FileNode b)"
      "w_files w part = Some (FileNode c)" "sha b \<noteq> sha c" "set_aside sha dest b (w_files w) (w_files w2)" "w_reg w2 = w_reg w"
      "(code = ExitFailure \<and> w1 = w2 \<and> retarget_old os sha dest rel b w2 = None) \<or>
       (code = 0 \<and> (\<exists>n. retarget_old os sha dest rel b w2 = Some (n, w1)))"
proof (cases "FileSHA256 os sha (w_files w) dest = None \<or> FileSHA256 os sha (w_files w) part = None")
  case True
  then show ?thesis using fails assms by (auto simp: archive_old_def split: option.splits)
next
  case False
  then obtain b c where dest: "FileSHA256 os sha (w_files w) dest = Some (sha b)" "w_files w dest = Some (FileNode b)"
    and part: "FileSHA256 os sha (w_files w) part = Some (sha c)" "w_files w part = Some (FileNode c)"
    by (auto simp: FileSHA256_Some)
  show ?thesis
  proof (cases "registry_Has w rel (sha c)")
    case None
    then show ?thesis using fails assms dest part by (simp add: archive_old_def)
  next
    case (Some has)
    note ar = assms [unfolded archive_old_def dest part Some Let_def option.case, folded versioned_path_def]
    show ?thesis
    proof (cases "sha b = sha c")
      case True
      then show ?thesis using ar same unregistered dest part Some by (cases has) (auto simp: remove_file_def)
    next
      case diff: False
      show ?thesis
      proof (cases "isLink (w_files w) (versioned_path dest (sha b)) \<or> move_old os sha dest (versioned_path dest (sha b)) (sha b) w = None")
        case True
        then show ?thesis using ar diff fails by (auto split: option.splits)
      next
        case False
        then obtain w2 where w2: "move_old os sha dest (versioned_path dest (sha b)) (sha b) w = Some w2"
          and nolink: "\<not> isLink (w_files w) (versioned_path dest (sha b))" by blast
        have "(case retarget_old os sha dest rel b w2 of
            None \<Rightarrow> ((False, ExitFailure), w2) | Some (others, w3) \<Rightarrow> ((False, 0), w3)) = ((same, code), w1)"
          using ar diff nolink w2 by (simp add: retarget_old_def)
        then show ?thesis
          using aside [of b c w2] dest(2) part(2) diff move_old_Some [OF w2 dest(2) nolink] by (auto split: option.splits prod.splits)
      qed
    qed
  qed
qed

text \<open>
  The world in which the new bytes are moved: unchanged, or with the old ones set aside and their rows retargeted
  (or not, when the registry cannot be written).
\<close>

definition prepared :: "os_calls \<Rightarrow> hash \<Rightarrow> placer \<Rightarrow> string \<Rightarrow> world \<Rightarrow> bool \<Rightarrow> world \<Rightarrow> bool" where
  "prepared os sha p dest w written w1 \<longleftrightarrow> w1 = w \<or>
     (pl_Replace p \<and> (\<exists>b w2. w_files w dest = Some (FileNode b) \<and> set_aside sha dest b (w_files w) (w_files w2) \<and> w_reg w2 = w_reg w \<and>
        (if written then \<exists>n. retarget_old os sha dest (place_Rel p dest) b w2 = Some (n, w1)
         else w1 = w2 \<and> retarget_old os sha dest (place_Rel p dest) b w2 = None)))"

lemma prepared_same [simp, intro]: "prepared os sha p dest w written w"
  by (simp add: prepared_def)

lemma preparedD:
  "prepared os sha p dest w written w1 \<Longrightarrow> w1 = w \<or> (pl_Replace p \<and> (\<exists>b. w_files w dest = Some (FileNode b) \<and> set_aside sha dest b (w_files w) (w_files w1)))"
  by (auto simp: prepared_def retarget_old_def dest: registry_Retarget_files split: if_splits)

lemma set_aside_dest: "set_aside sha dest b fs fs' \<Longrightarrow> fs' dest = None"
proof -
  assume "set_aside sha dest b fs fs'"
  then have "fs' = fs(dest := None, versioned_path dest (sha b) := fs' (versioned_path dest (sha b)))"
    by (simp add: set_aside_def Let_def)
  from fun_cong [OF this, of dest] show ?thesis by (simp add: versioned_path_ne [symmetric])
qed

text \<open>The new bytes in place: the part file has become the destination.\<close>

definition moved_to :: "string \<Rightarrow> string \<Rightarrow> world \<Rightarrow> world \<Rightarrow> bool" where
  "moved_to part dest w1 w' \<longleftrightarrow> w_files w1 part \<noteq> None \<and>
     w' = w1\<lparr>w_files := (w_files w1)(dest := w_files w1 part, part := None)\<rparr>"

lemma move_into_place_cases:
  assumes "move_into_place os part dest w1 = ((same, code), w')" and "part \<noteq> dest"
  shows "\<not> same \<and> (code = 0 \<and> moved_to part dest w1 w' \<or> code = ExitFailure \<and> w' = remove_file part w1)"
  using assms by (auto simp: move_into_place_def fs_rename_def remove_file_def moved_to_def split: if_splits)

definition same_bytes :: "hash \<Rightarrow> string \<Rightarrow> string \<Rightarrow> world \<Rightarrow> bool" where
  "same_bytes sha part dest w \<longleftrightarrow> (\<exists>b c. w_files w dest = Some (FileNode b) \<and> w_files w part = Some (FileNode c) \<and> sha b = sha c)"

text \<open>How an install ends: stopped, with nothing new in place; the same registered bytes; the new bytes in place.\<close>

definition install_stopped where
  "install_stopped os sha p part dest w same code w' \<longleftrightarrow> \<not> same \<and> code \<in> {ExitFailure, ExitExists, ExitSymlink} \<and>
     (\<exists>written w1. prepared os sha p dest w written w1 \<and> (w' = w1 \<or> w' = remove_file part w1))"

definition install_same where
  "install_same sha p part dest w same code w' \<longleftrightarrow> same \<and> code = (0::int) \<and> w' = remove_file part w \<and> pl_Replace p \<and>
     same_bytes sha part dest w \<and>
     (\<exists>c. w_files w part = Some (FileNode c) \<and> registry_Has w (place_Rel p dest) (sha c) = Some True)"

definition install_placed where
  "install_placed os sha p part dest w same code w' \<longleftrightarrow> \<not> same \<and> code = (0::int) \<and>
     (\<exists>w1. prepared os sha p dest w True w1 \<and> moved_to part dest w1 w' \<and>
        (w_files w1 dest = None \<or> w1 = w \<and> pl_Replace p \<and> same_bytes sha part dest w))"

lemma stopped_now: "\<not> same \<Longrightarrow> code \<in> {ExitFailure, ExitExists, ExitSymlink} \<Longrightarrow> install_stopped os sha p part dest w same code w"
  unfolding install_stopped_def by blast

lemma install_replace:
  assumes "archive_old os sha p part dest (place_Rel p dest) w = ((same0, code0), w1)" and "part \<noteq> dest" and "pl_Replace p"
    and "(if same0 \<or> code0 \<noteq> 0 then ((same0, code0), w1) else move_into_place os part dest w1) = ((same, code), w')"
  shows "install_stopped os sha p part dest w same code w' \<or> install_same sha p part dest w same code w' \<or>
    install_placed os sha p part dest w same code w'"
  using assms(1)
proof (cases rule: archive_old_cases)
  case fails
  then have "\<not> same" "code = ExitFailure" "w' = w" using assms(4) by (auto simp: ExitFailure_def)
  then show ?thesis using stopped_now by simp
next
  case (same b c)
  then show ?thesis using assms(3,4) by (auto simp: install_same_def same_bytes_def)
next
  case (unregistered b c)
  then have "move_into_place os part dest w = ((same, code), w')" "same_bytes sha part dest w"
    using assms(4) by (auto simp: same_bytes_def)
  then show ?thesis using move_into_place_cases [OF _ assms(2), of os w same code w'] assms(3)
    unfolding install_placed_def install_stopped_def by blast
next
  case (aside b c w2)
  from aside(7) show ?thesis
  proof
    assume "code0 = ExitFailure \<and> w1 = w2 \<and> retarget_old os sha dest (place_Rel p dest) b w2 = None"
    then have "prepared os sha p dest w False w1" "\<not> same" "code = ExitFailure" "w' = w1"
      using aside assms(3,4) by (auto simp: prepared_def ExitFailure_def)
    then show ?thesis by (auto simp: install_stopped_def)
  next
    assume ok: "code0 = 0 \<and> (\<exists>n. retarget_old os sha dest (place_Rel p dest) b w2 = Some (n, w1))"
    then have pr: "prepared os sha p dest w True w1" using aside assms(3) by (auto simp: prepared_def)
    have "w_files w1 = w_files w2" using ok by (auto simp: retarget_old_def dest: registry_Retarget_files)
    then have none: "w_files w1 dest = None" using aside(5) set_aside_dest by simp
    have "move_into_place os part dest w1 = ((same, code), w')" using ok aside(1) assms(4) by simp
    then show ?thesis using move_into_place_cases [OF _ assms(2), of os w1 same code w'] pr none
      by (auto simp: install_placed_def install_stopped_def)
  qed
qed

lemma install_cases:
  assumes "Install os sha p part dest w = ((same, code), w')" and "part \<noteq> dest"
  shows "install_stopped os sha p part dest w same code w' \<or> install_same sha p part dest w same code w' \<or>
    install_placed os sha p part dest w same code w'"
proof (cases "isLink (w_files w) dest")
  case True
  then have "\<not> same" "code = ExitSymlink" "w' = w" using assms(1) by (auto simp: Install_def)
  then show ?thesis using stopped_now by simp
next
  case nolink: False
  show ?thesis
  proof (cases "pl_Replace p \<and> exists_path (w_files w) dest")
    case True
    obtain same0 code0 w1 where ar: "archive_old os sha p part dest (place_Rel p dest) w = ((same0, code0), w1)"
      by (metis prod.collapse)
    have "(if same0 \<or> code0 \<noteq> 0 then ((same0, code0), w1) else move_into_place os part dest w1) = ((same, code), w')"
      using assms(1) nolink True ar by (cases "same0 \<or> code0 \<noteq> 0") (auto simp: Install_def)
    then show ?thesis using install_replace [OF ar assms(2)] True by blast
  next
    case no: False
    have none: "w_files w dest = None" if "\<not> exists_path (w_files w) dest"
      using that nolink by (auto simp: exists_path_def isLink_def split: option.splits fnode.splits)
    have move: ?thesis if "move_into_place os part dest w = ((same, code), w')" "\<not> exists_path (w_files w) dest"
      using move_into_place_cases [OF that(1) assms(2)] none [OF that(2)]
      unfolding install_placed_def install_stopped_def by blast
    have link: ?thesis if "w' = w\<lparr>w_files := fs_remove part ((w_files w)(dest := w_files w part))\<rparr>" "\<not> same" "code = 0"
      "w_files w dest = None" "w_files w part \<notin> {None, Some (DirNode True), Some (DirNode False)}"
      using that assms(2) by (auto simp: install_placed_def moved_to_def fs_remove_def)
    show ?thesis
    proof (cases "pl_Replace p")
      case True
      then show ?thesis using assms(1) no nolink by (intro move) (simp_all add: Install_def)
    next
      case excl: False
      show ?thesis
      proof (cases "os_links os \<and> w_files w dest = None \<and> w_files w part \<notin> {None, Some (DirNode True), Some (DirNode False)}")
        case True
        then show ?thesis using assms(1) excl nolink by (intro link) (auto simp: Install_def)
      next
        case no_link: False
        show ?thesis
        proof (cases "exists_path (w_files w) dest")
          case True
          then have "\<not> same" "code = ExitExists" "w' = w" using assms(1) excl nolink no_link by (auto simp: Install_def)
          then show ?thesis using stopped_now by simp
        next
          case False
          then show ?thesis using assms(1) excl nolink no_link by (intro move) (auto simp: Install_def split: if_splits)
        qed
      qed
    qed
  qed
qed

lemma set_aside_other:
  assumes "set_aside sha dest b fs fs'" "path \<noteq> dest"
  shows "path \<noteq> versioned_path dest (sha b) \<Longrightarrow> fs' path = fs path" "fs path \<noteq> None \<Longrightarrow> fs' path = fs path"
proof -
  have eq: "fs' = fs(dest := None, versioned_path dest (sha b) := fs' (versioned_path dest (sha b)))"
    using assms(1) by (simp add: set_aside_def Let_def)
  show "path \<noteq> versioned_path dest (sha b) \<Longrightarrow> fs' path = fs path" using fun_cong [OF eq, of path] assms(2) by simp
  then show "fs path \<noteq> None \<Longrightarrow> fs' path = fs path"
    using assms(1) by (cases "path = versioned_path dest (sha b)") (auto simp: set_aside_def Let_def)
qed

lemma set_aside_kept: "set_aside sha dest b fs fs' \<Longrightarrow> \<exists>b'. fs' (versioned_path dest (sha b)) = Some (FileNode b') \<and> sha b' = sha b"
  by (simp add: set_aside_def Let_def)

lemma prepared_files:
  assumes "prepared os sha p dest w written w1"
  shows "path = dest \<or> w_files w path = None \<or> w_files w1 path = w_files w path"
  using preparedD [OF assms] set_aside_other(2) [of sha dest _ "w_files w" "w_files w1" path] by metis

lemma prepared_part:
  assumes "prepared os sha p dest w written w1" "hex_digests sha"
  shows "w_files w1 (PartPath dest pid) = w_files w (PartPath dest pid)"
  using preparedD [OF assms(1)] set_aside_other(1) [of sha dest _ "w_files w" "w_files w1" "PartPath dest pid"]
    part_ne_versioned [OF assms(2), of dest _ pid] by (metis part_ne(1))

text \<open>The bytes of a file, by their digest, are at the destination or under the versioned name.\<close>

definition kept_bytes :: "hash \<Rightarrow> string \<Rightarrow> string \<Rightarrow> files \<Rightarrow> bool" where
  "kept_bytes sha dest b fs \<longleftrightarrow>
     (\<exists>path \<in> {dest, versioned_path dest (sha b)}. \<exists>b'. fs path = Some (FileNode b') \<and> sha b' = sha b)"

lemma kept_bytesI: "fs path = Some (FileNode b') \<Longrightarrow> sha b' = sha b \<Longrightarrow> path = dest \<or> path = versioned_path dest (sha b) \<Longrightarrow> kept_bytes sha dest b fs"
  by (auto simp: kept_bytes_def)

lemma prepared_kept:
  assumes "prepared os sha p dest w written w1" "w_files w dest = Some (FileNode b)"
  shows "kept_bytes sha dest b (w_files w1) \<and> (w1 = w \<or> (\<exists>b'. w_files w1 (versioned_path dest (sha b)) = Some (FileNode b') \<and> sha b' = sha b))"
  using preparedD [OF assms(1)]
proof
  assume "pl_Replace p \<and> (\<exists>b. w_files w dest = Some (FileNode b) \<and> set_aside sha dest b (w_files w) (w_files w1))"
  then have "set_aside sha dest b (w_files w) (w_files w1)" using assms(2) by auto
  from set_aside_kept [OF this] show ?thesis by (auto intro: kept_bytesI)
qed (use assms(2) in \<open>auto intro: kept_bytesI\<close>)

lemma placed_kept:
  assumes sha: "hex_digests sha" and pr: "prepared os sha p dest w True w1"
    and free: "w_files w1 dest = None \<or> w1 = w \<and> pl_Replace p \<and> same_bytes sha (PartPath dest pid) dest w"
    and files: "fs' = (w_files w1)(dest := w_files w (PartPath dest pid), PartPath dest pid := None)"
    and b: "w_files w dest = Some (FileNode b)"
  shows "kept_bytes sha dest b fs'"
proof (cases "w_files w1 dest = None")
  case True
  then have "w1 \<noteq> w" using b by auto
  then obtain b' where "w_files w1 (versioned_path dest (sha b)) = Some (FileNode b')" "sha b' = sha b"
    using prepared_kept [OF pr b] by blast
  then show ?thesis using files part_ne_versioned [OF sha, of dest b pid]
    by (intro kept_bytesI [of _ "versioned_path dest (sha b)" b']) auto
next
  case False
  then show ?thesis using free b files by (auto simp: same_bytes_def intro!: kept_bytesI)
qed

text \<open>
  C11. An install never loses evidence. Whatever the operating system lets through: every other path that existed keeps
  its node; a file at the destination keeps its bytes there or under the versioned name, which never changes what it
  already held; a symbolic link at the destination, and without \<open>--replace\<close> anything at all there, is left as it is;
  and an install that succeeds leaves at the destination a file with the digest of the downloaded bytes.
\<close>

theorem install_keeps_evidence:
  assumes "hex_digests sha" and "part = PartPath dest pid" and "Install os sha p part dest w = ((same, code), w')"
  shows "(\<forall>path. path = dest \<or> path = part \<or> w_files w path = None \<or> w_files w' path = w_files w path) \<and>
    (\<forall>b. w_files w dest \<noteq> Some (FileNode b) \<or> kept_bytes sha dest b (w_files w')) \<and>
    (isLink (w_files w) dest \<or> \<not> pl_Replace p \<and> w_files w dest \<noteq> None \<longrightarrow> code \<noteq> 0 \<and> w_files w' dest = w_files w dest) \<and>
    (\<forall>c. code \<noteq> 0 \<or> w_files w part \<noteq> Some (FileNode c) \<or> (\<exists>c'. w_files w' dest = Some (FileNode c') \<and> sha c' = sha c))"
proof -
  have ne: "part \<noteq> dest" by (simp add: assms(2))
  consider (stopped) "install_stopped os sha p part dest w same code w'" | (same) "install_same sha p part dest w same code w'"
    | (placed) "install_placed os sha p part dest w same code w'" using install_cases [OF assms(3) ne] by blast
  then show ?thesis
  proof cases
    case stopped
    then obtain written w1 where pr: "prepared os sha p dest w written w1" and w': "w' = w1 \<or> w' = remove_file part w1"
      and code: "code \<noteq> 0" by (auto simp: install_stopped_def ExitFailure_def ExitExists_def ExitSymlink_def)
    have eq: "path \<noteq> part \<Longrightarrow> w_files w' path = w_files w1 path" for path using w' by (auto simp: remove_file_def fs_remove_def)
    have "w_files w1 dest = w_files w dest" if "isLink (w_files w) dest \<or> \<not> pl_Replace p \<and> w_files w dest \<noteq> None"
      using preparedD [OF pr] that by (auto simp: isLink_def)
    moreover have "kept_bytes sha dest b (w_files w')" if "w_files w dest = Some (FileNode b)" for b
      using prepared_kept [OF pr that] eq ne part_ne_versioned [OF assms(1), of dest _ pid] assms(2) unfolding kept_bytes_def by auto
    moreover have "path = dest \<or> path = part \<or> w_files w path = None \<or> w_files w' path = w_files w path" for path
      using prepared_files [OF pr, of path] eq [of path] by metis
    moreover have "w_files w' dest = w_files w1 dest" using eq [of dest] ne by blast
    ultimately show ?thesis using code by simp
  next
    case same
    then show ?thesis using ne
      by (auto simp: install_same_def same_bytes_def remove_file_def fs_remove_def isLink_def intro!: kept_bytesI)
  next
    case placed
    then obtain w1 where pr: "prepared os sha p dest w True w1" and mv: "moved_to part dest w1 w'"
      and free: "w_files w1 dest = None \<or> w1 = w \<and> pl_Replace p \<and> same_bytes sha part dest w"
      by (auto simp: install_placed_def)
    have part: "w_files w1 part = w_files w part" using prepared_part [OF pr assms(1)] by (simp add: assms(2))
    have files: "w_files w' = (w_files w1)(dest := w_files w part, part := None)" using mv part by (simp add: moved_to_def)
    have "kept_bytes sha dest b (w_files w')" if "w_files w dest = Some (FileNode b)" for b
      by (rule placed_kept [OF assms(1) pr free [unfolded assms(2)] _ that]) (simp add: files assms(2))
    moreover have "\<not> (isLink (w_files w) dest \<or> \<not> pl_Replace p \<and> w_files w dest \<noteq> None)"
      using free preparedD [OF pr] by (auto simp: isLink_def same_bytes_def)
    moreover have "path = dest \<or> path = part \<or> w_files w path = None \<or> w_files w' path = w_files w path" for path
      using prepared_files [OF pr, of path] files by (metis fun_upd_other)
    ultimately show ?thesis using files ne by auto
  qed
qed

theorem install_keeps_evidence_witness:
  "(case Install \<lparr>os_rename = (\<lambda>_ _. True), os_links = True, os_reads = (\<lambda>_. True), os_reg_write = (\<lambda>_. True), os_mkdir = True\<rparr>
      (\<lambda>b. if b = ''old'' then replicate 64 (CHR ''0'') else replicate 64 (CHR ''1'')) \<lparr>pl_SDir = ''s'', pl_Replace = True\<rparr>
      (PartPath ''s/m/a.pdf'' 7) ''s/m/a.pdf''
      \<lparr>w_files = [''s/m/a.pdf'' \<mapsto> FileNode ''old'', PartPath ''s/m/a.pdf'' 7 \<mapsto> FileNode ''new''], w_reg = RegAbsent\<rparr> of
     ((same, code), w') \<Rightarrow> kept_bytes (\<lambda>b. if b = ''old'' then replicate 64 (CHR ''0'') else replicate 64 (CHR ''1''))
       ''s/m/a.pdf'' ''old'' (w_files w'))"
proof -
  have "hex_digests (\<lambda>b. if b = ''old'' then replicate 64 (CHR ''0'') else replicate 64 (CHR ''1''))"
    by (simp add: hex_digests_def)
  from install_keeps_evidence [OF this refl] show ?thesis by (auto split: prod.split)
qed

section \<open>The registry and the files\<close>

text \<open>What \<open>verify-sources\<close> recomputes: every row of the registry names a file with the digest of the row.\<close>

definition holds_digest :: "hash \<Rightarrow> files \<Rightarrow> string \<Rightarrow> string \<Rightarrow> bool" where
  "holds_digest sha fs path s = (case fs path of Some (FileNode b) \<Rightarrow> sha b = s | _ \<Rightarrow> False)"

lemma holds_digest_iff: "holds_digest sha fs path s \<longleftrightarrow> (\<exists>b. fs path = Some (FileNode b) \<and> sha b = s)"
  by (simp add: holds_digest_def split: option.split fnode.split)

definition rows_hold :: "hash \<Rightarrow> string \<Rightarrow> files \<Rightarrow> string \<Rightarrow> bool" where
  "rows_hold sha sdir fs md \<longleftrightarrow>
     (\<forall>r \<in> set (ParseRows md). IsHeader r \<or> IsSeparator r \<or> holds_digest sha fs (sdir @ ''/'' @ rr_File r) (rr_SHA r))"

definition registry_consistent :: "hash \<Rightarrow> string \<Rightarrow> world \<Rightarrow> bool" where
  "registry_consistent sha sdir w \<longleftrightarrow> (case w_reg w of RegText md \<Rightarrow> rows_hold sha sdir (w_files w) md | _ \<Rightarrow> True)"

lemma HasRow_rows: "HasRow md f s \<longleftrightarrow> (\<exists>r \<in> set (ParseRows md). rr_File r = f \<and> (s = [] \<or> rr_SHA r = s))"
  by (auto simp: HasRow_def list_ex_iff)

lemma parse_rows_fields: "r \<in> set (parse_rows n ls) \<Longrightarrow> \<exists>l \<in> set ls. isRow l \<and> rr_File r = row_cells l ! 1 \<and> rr_SHA r = row_cells l ! 5"
  by (induction ls arbitrary: n) (force simp: row_of_def Let_def split: if_splits)+

lemma fields_parse_rows: "l \<in> set ls \<Longrightarrow> isRow l \<Longrightarrow> \<exists>r \<in> set (parse_rows n ls). rr_File r = row_cells l ! 1 \<and> rr_SHA r = row_cells l ! 5"
  by (induction ls arbitrary: n) (force simp: row_of_def Let_def split: if_splits)+

lemma rows_hold_lines:
  "rows_hold sha sdir fs md \<longleftrightarrow> (\<forall>l \<in> set (splitLines md). isRow l \<longrightarrow>
     row_cells l ! 1 = ''File'' \<or> (row_cells l ! 1 \<noteq> [] \<and> trim ''-: '' (row_cells l ! 1) = []) \<or>
     holds_digest sha fs (sdir @ ''/'' @ row_cells l ! 1) (row_cells l ! 5))"
  (is "_ = ?R")
proof
  assume "rows_hold sha sdir fs md"
  then show ?R using fields_parse_rows [of _ "splitLines md" 0] unfolding rows_hold_def ParseRows_def IsHeader_def IsSeparator_def
    by metis
next
  assume ?R
  then show "rows_hold sha sdir fs md" using parse_rows_fields [of _ 0 "splitLines md"]
    unfolding rows_hold_def ParseRows_def IsHeader_def IsSeparator_def by metis
qed

lemma InsertRow_set: "no_newline row \<Longrightarrow> set (splitLines (InsertRow md row)) = insert row (set (splitLines md))"
  by (simp add: InsertRow_lines) (metis Un_insert_left append_take_drop_id set_append sup_commute)

lemma FormatRow_file_sha:
  assumes "list_all (\<lambda>c. pipe \<notin> set c \<and> newline_char \<notin> set c) [name, kind, origin, date, sha]" "trimmed name" "trimmed sha"
  defines "row \<equiv> FormatRow name kind origin date sha"
  shows "row_cells row ! 1 = name" "row_cells row ! 5 = sha" "isRow row" "no_newline row"
proof -
  let ?pad = "\<lambda>s. CHR '' '' # s @ [CHR '' '']"
  have "row = join_with [pipe] [[], ?pad name, ?pad kind, ?pad origin, ?pad date, ?pad sha, [CHR '' ''], []]"
    by (simp add: row_def FormatRow_def)
  moreover have "split_on pipe (join_with [pipe] [[], ?pad name, ?pad kind, ?pad origin, ?pad date, ?pad sha, [CHR '' ''], []]) =
      [[], ?pad name, ?pad kind, ?pad origin, ?pad date, ?pad sha, [CHR '' ''], []]"
    using assms(1) by (intro split_join) auto
  ultimately have "split_on pipe row = [[], ?pad name, ?pad kind, ?pad origin, ?pad date, ?pad sha, [CHR '' ''], []]" by simp
  then show "row_cells row ! 1 = name" "row_cells row ! 5 = sha" using assms(2,3) by (simp_all add: row_cells_def trim_pad)
  show "isRow row" by (simp add: row_def isRow_def FormatRow_def trim_left_def spaceChars_def has_prefix_def)
  show "no_newline row" using assms(1) by (auto simp: row_def no_newline_def FormatRow_def)
qed

section \<open>Rows and paths\<close>

lemma last_index_char_snoc: "last_index_char c (s @ [d]) = (if d = c then Some (length s) else last_index_char c s)"
proof -
  have "find (\<lambda>i. (s @ [d]) ! i = c) (rev [0..<length s]) = find (\<lambda>i. s ! i = c) (rev [0..<length s])"
    by (rule find_cong) (auto simp: nth_append)
  then show ?thesis by (simp add: last_index_char_def)
qed

lemma path_dir_snoc: "path_dir (s @ [d]) = (if d = CHR ''/'' then s @ [d] else path_dir s)"
  by (auto simp: path_dir_def last_index_char_snoc split: option.split dest: last_index_char_Some)

lemma path_dir_unique:
  assumes "d = [] \<or> last d = CHR ''/''"
  shows "CHR ''/'' \<notin> set n \<Longrightarrow> path_dir (d @ n) = d"
proof (induction n rule: rev_induct)
  case Nil
  show ?case using assms
    by (cases d rule: rev_cases) (simp_all add: path_dir_snoc, simp add: path_dir_def last_index_char_def)
next
  case (snoc x n)
  then show ?case using path_dir_snoc [of "d @ n" x] by auto
qed

text \<open>The directory of a path under another is the directory of the rest.\<close>

lemma path_dir_under: "path_dir (s @ CHR ''/'' # rest) = s @ CHR ''/'' # path_dir rest"
  by (induction rest rule: rev_induct)
    (use path_dir_snoc [of s "CHR ''/''"] path_dir_snoc [of "s @ CHR ''/'' # _"] in \<open>auto simp: path_dir_snoc path_dir_def [of "[]"] last_index_char_def\<close>)

lemma sibling_under: "sibling (s @ ''/'' @ rest) v = s @ ''/'' @ sibling rest v"
  by (simp add: sibling_dir path_dir_under)

lemma place_Rel_under: "place_Rel p (pl_SDir p @ ''/'' @ rest) = rest"
  by (simp add: place_Rel_def trim_prefix_def has_prefix_def)

section \<open>Each step keeps the registry consistent\<close>

text \<open>A change of the files that no row relies on.\<close>

lemma rows_hold_mono:
  assumes "rows_hold sha sdir fs md"
    and "\<And>f s. HasRow md f [] \<Longrightarrow> holds_digest sha fs (sdir @ ''/'' @ f) s \<Longrightarrow> holds_digest sha fs' (sdir @ ''/'' @ f) s"
  shows "rows_hold sha sdir fs' md"
  unfolding rows_hold_def
proof
  fix r assume r: "r \<in> set (ParseRows md)"
  then have "HasRow md (rr_File r) []" by (auto simp: HasRow_rows)
  then show "IsHeader r \<or> IsSeparator r \<or> holds_digest sha fs' (sdir @ ''/'' @ rr_File r) (rr_SHA r)"
    using assms r unfolding rows_hold_def by blast
qed

definition unregistered :: "world \<Rightarrow> string \<Rightarrow> bool" where
  "unregistered w rel \<longleftrightarrow> registry_Has w rel [] \<noteq> Some True"

lemma unregistered_text: "w_reg w = RegText md \<Longrightarrow> unregistered w rel \<longleftrightarrow> \<not> HasRow md rel []"
  by (simp add: unregistered_def registry_Has_def)

lemma consistent_change:
  assumes "registry_consistent sha sdir w" "w_reg w' = w_reg w"
    and "\<And>path. w_files w' path = w_files w path \<or> (\<exists>rel. path = sdir @ ''/'' @ rel \<and> unregistered w rel) \<or> (\<forall>rel. path \<noteq> sdir @ ''/'' @ rel)"
  shows "registry_consistent sha sdir w'"
proof (cases "w_reg w")
  case (RegText md)
  have "rows_hold sha sdir (w_files w') md"
  proof (rule rows_hold_mono)
    show "rows_hold sha sdir (w_files w) md" using assms(1) RegText by (simp add: registry_consistent_def)
    fix f s assume row: "HasRow md f []" and held: "holds_digest sha (w_files w) (sdir @ ''/'' @ f) s"
    have "w_files w' (sdir @ ''/'' @ f) = w_files w (sdir @ ''/'' @ f)"
      using assms(3) [of "sdir @ ''/'' @ f"] row unregistered_text [OF RegText] by auto
    then show "holds_digest sha (w_files w') (sdir @ ''/'' @ f) s" using held by (simp add: holds_digest_iff)
  qed
  then show ?thesis using assms(2) RegText by (simp add: registry_consistent_def)
qed (use assms(2) in \<open>simp_all add: registry_consistent_def\<close>)

text \<open>The sweep removes only unregistered part files of dead processes.\<close>

definition swept :: "placer \<Rightarrow> string \<Rightarrow> (string \<Rightarrow> bool) \<Rightarrow> string list \<Rightarrow> world \<Rightarrow> string \<Rightarrow> bool" where
  "swept p dir alive names w path \<longleftrightarrow>
     (\<exists>name \<in> set names. \<exists>pid. path = dir @ ''/'' @ name \<and> partPid name = Some pid \<and> \<not> alive pid \<and>
        registry_Has w (place_Rel p path) [] = Some False)"

lemma sweep_loop_reg: "sweep_loop p dir alive names w = (code, w') \<Longrightarrow> w_reg w' = w_reg w"
  by (induction names arbitrary: w)
    (auto simp: Let_def split: option.splits if_splits bool.splits)

lemma sweep_loop_files:
  "sweep_loop p dir alive names w = (code, w') \<Longrightarrow>
    w_files w' path = w_files w path \<or> w_files w' path = None \<and> swept p dir alive names w path"
proof (induction names arbitrary: w)
  case (Cons name names)
  have mono: "swept p dir alive names w2 path \<Longrightarrow> w_reg w2 = w_reg w \<Longrightarrow> swept p dir alive (name # names) w path" for w2
    using registry_Has_reg [of w2 w] by (auto simp: swept_def)
  let ?f = "dir @ ''/'' @ name"
  show ?case
  proof (cases "\<exists>pid. partPid name = Some pid \<and> exists_path (w_files w) ?f \<and> registry_Has w (place_Rel p ?f) [] = Some False \<and> \<not> alive pid")
    case True
    then obtain pid where pid: "partPid name = Some pid" "exists_path (w_files w) ?f" "registry_Has w (place_Rel p ?f) [] = Some False"
      "\<not> alive pid" by blast
    let ?w = "w\<lparr>w_files := fs_remove ?f (w_files w)\<rparr>"
    have "sweep_loop p dir alive names ?w = (code, w')" using Cons.prems pid by (simp add: Let_def)
    from Cons.IH [OF this] show ?thesis
      using mono [of ?w] pid by (auto simp: fs_remove_def swept_def split: if_splits)
  next
    case False
    then have "sweep_loop p dir alive names w = (code, w') \<or> w' = w"
      using Cons.prems by (auto simp: Let_def split: option.splits if_splits bool.splits)
    then show ?thesis using Cons.IH [of w] mono [of w] by auto
  qed
qed simp

lemma SweepStale_reg: "SweepStale p dir alive names w = (code, w') \<Longrightarrow> w_reg w' = w_reg w"
  by (auto simp: SweepStale_def sweep_loop_reg split: option.splits)

text \<open>
  The sweep of stale part files removes only debris: a path changes only by its removal, and only if its name is a
  part file's (not hidden, digits after the last marker), the process with that number is dead, and the registry could
  be read and has no row for it.
\<close>

theorem sweep_removes_only_debris:
  "w_reg (snd (SweepStale p dir alive names w)) = w_reg w \<and>
   (w_files (snd (SweepStale p dir alive names w)) path = w_files w path \<or>
    w_files (snd (SweepStale p dir alive names w)) path = None \<and> swept p dir alive (case names of None \<Rightarrow> [] | Some ns \<Rightarrow> ns) w path)"
  using sweep_loop_files [of p dir alive _ w] sweep_loop_reg [of p dir alive _ w]
  by (cases names) (auto simp: SweepStale_def, (metis prod.collapse)+)

text \<open>The name of an archived copy is as clean a cell as the name was.\<close>

lemma archived_name_ok:
  assumes "hex_digests sha" "cell_ok rel" "CHR ''/'' \<in> set rel"
  shows "cell_ok (sibling rel (versionedName (path_base rel) (sha b)))"
proof -
  let ?h = "take versionedSHALen (sha b)"
  obtain stem ext where parts: "path_base rel = stem @ ext" "versionedName (path_base rel) (sha b) = stem @ ''.'' @ ?h @ ext"
    by (rule versionedName_parts)
  have rel: "rel = path_dir rel @ stem @ ext" unfolding parts(1) [symmetric] by (rule path_split)
  have digest: "length (sha b) = 64" "set (sha b) \<subseteq> set ''0123456789abcdef''" using assms(1) by (simp_all only: hex_digests_def)
  have len: "length ?h = 12" using digest(1) by (simp add: versionedSHALen_def)
  have hex: "set ?h \<subseteq> set ''0123456789abcdef''" using digest(2) set_take_subset [of versionedSHALen "sha b"] by (rule order_trans [rotated])
  have dir: "path_dir rel \<noteq> []" using assms(3) last_index_char_None [of "CHR ''/''" rel]
    by (auto simp: path_dir_def split: option.splits)
  have new: "sibling rel (versionedName (path_base rel) (sha b)) = path_dir rel @ stem @ ''.'' @ ?h @ ext"
    by (simp only: sibling_dir parts(2))
  have "rel \<noteq> []" using assms(3) by auto
  then have "hd rel \<notin> set blanks" "last rel \<notin> set blanks" using assms(2) by (auto simp: cell_ok_def trimmed_def)
  moreover have "hd rel = hd (path_dir rel)" using rel dir by (metis hd_append2)
  moreover have "ext \<noteq> [] \<Longrightarrow> last rel = last ext" using rel by (metis append_assoc last_appendR)
  moreover have ne: "?h \<noteq> []"
  proof
    assume "?h = []"
    then have "length ?h = 0" by (simp only: list.size)
    then show False using len by simp
  qed
  moreover have "last ?h \<in> set ''0123456789abcdef''" using last_in_set [OF ne] hex by blast
  then have "last ?h \<notin> set blanks" by (auto simp: blanks_def)
  ultimately have "trimmed (path_dir rel @ stem @ ''.'' @ ?h @ ext)" using dir by (cases "ext = []") (auto simp: trimmed_def)
  moreover have "set (path_dir rel) \<union> set stem \<union> set ext \<subseteq> set rel" using arg_cong [OF rel, of set] by auto
  moreover have "pipe \<notin> set ?h \<and> newline_char \<notin> set ?h" using hex by auto
  ultimately show ?thesis using assms(2) by (auto simp: cell_ok_def new)
qed

lemma dropWhile_keeps: "x \<in> set l \<Longrightarrow> \<not> P x \<Longrightarrow> x \<in> set (dropWhile P l)"
  by (induction l) auto

lemma slash_row: "CHR ''/'' \<in> set f \<Longrightarrow> f \<noteq> ''File'' \<and> trim ''-: '' f \<noteq> []"
proof
  assume slash: "CHR ''/'' \<in> set f"
  then show "f \<noteq> ''File''" by auto
  have "CHR ''/'' \<in> set (trim ''-: '' f)" unfolding trim_def trim_right_def trim_left_def set_rev
    by (rule dropWhile_keeps, subst set_rev, rule dropWhile_keeps [OF slash]) auto
  then show "trim ''-: '' f \<noteq> []" by auto
qed

lemma path_base_under: "CHR ''/'' \<in> set rel \<Longrightarrow> path_base (s @ ''/'' @ rel) = path_base rel"
  using path_split [of "s @ ''/'' @ rel"] path_split [of rel] by (simp add: path_dir_under) (metis append_eq_append_conv same_append_eq)

text \<open>Setting the old bytes aside and retargeting their rows.\<close>

lemma aside_rows_hold:
  assumes "rows_hold sha sdir fs md" "fs (sdir @ ''/'' @ rel) = Some (FileNode b)" "set_aside sha (sdir @ ''/'' @ rel) b fs fs'"
    and "hex_digests sha" "cell_ok rel" "CHR ''/'' \<in> set rel"
  shows "rows_hold sha sdir fs' (fst (RetargetFile md rel (sibling rel (versionedName (path_base (sdir @ ''/'' @ rel)) (sha b))) (sha b)))"
proof -
  let ?dest = "sdir @ ''/'' @ rel" and ?new = "sibling rel (versionedName (path_base rel) (sha b))"
  have ok: "cell_ok ?new" by (rule archived_name_ok [OF assms(4-6)])
  have new: "versioned_path ?dest (sha b) = sdir @ ''/'' @ ?new"
    using sibling_under [of sdir rel] path_base_under [OF assms(6), of sdir] by (simp add: versioned_path_def)
  have held: "holds_digest sha fs' (sdir @ ''/'' @ ?new) (sha b)"
    using set_aside_kept [OF assms(3)] unfolding holds_digest_iff new .
  have each: "IsHeader r' \<or> IsSeparator r' \<or> holds_digest sha fs' (sdir @ ''/'' @ rr_File r') (rr_SHA r')"
    if r: "r \<in> set (ParseRows md)" and r': "r' = (if rr_File r = rel \<and> rr_SHA r = sha b then r\<lparr>rr_File := ?new\<rparr> else r)" for r r'
  proof (cases "rr_File r = rel \<and> rr_SHA r = sha b")
    case True
    then show ?thesis using held r' by simp
  next
    case False
    have old: "IsHeader r \<or> IsSeparator r \<or> holds_digest sha fs (sdir @ ''/'' @ rr_File r) (rr_SHA r)"
      using assms(1) r by (auto simp: rows_hold_def)
    have "holds_digest sha fs' (sdir @ ''/'' @ rr_File r) (rr_SHA r)" if h: "holds_digest sha fs (sdir @ ''/'' @ rr_File r) (rr_SHA r)"
    proof -
      have "rr_File r \<noteq> rel" using h False assms(2) by (auto simp: holds_digest_iff)
      then have "sdir @ ''/'' @ rr_File r \<noteq> ?dest" by simp
      then show ?thesis using h set_aside_other(2) [OF assms(3)] by (auto simp: holds_digest_iff)
    qed
    then show ?thesis using old r' False by auto
  qed
  have rows: "ParseRows (fst (RetargetFile md rel ?new (sha b))) =
      map (\<lambda>r. if rr_File r = rel \<and> rr_SHA r = sha b then r\<lparr>rr_File := ?new\<rparr> else r) (ParseRows md)"
    using RetargetFile_rows [OF ok, of md rel "sha b"] by (rule conjunct1)
  show ?thesis
    unfolding rows_hold_def path_base_under [OF assms(6), of sdir] rows
  proof
    fix x assume "x \<in> set (map (\<lambda>r. if rr_File r = rel \<and> rr_SHA r = sha b then r\<lparr>rr_File := ?new\<rparr> else r) (ParseRows md))"
    then obtain r where "r \<in> set (ParseRows md)" "x = (if rr_File r = rel \<and> rr_SHA r = sha b then r\<lparr>rr_File := ?new\<rparr> else r)"
      by (simp only: set_map) blast
    then show "IsHeader x \<or> IsSeparator x \<or> holds_digest sha fs' (sdir @ ''/'' @ rr_File x) (rr_SHA x)" by (rule each)
  qed
qed

text \<open>A step that touches one path only, and not the registry.\<close>

definition only_at :: "string \<Rightarrow> world \<Rightarrow> world \<Rightarrow> bool" where
  "only_at part w w' \<longleftrightarrow> w_reg w' = w_reg w \<and> (\<forall>path. path = part \<or> w_files w' path = w_files w path)"

lemma only_at_steps [simp]:
  "only_at part w w" "only_at part w (put_file part c w')  = only_at part w w'" "only_at part w (remove_file part w') = only_at part w w'"
  by (auto simp: only_at_def put_file_def remove_file_def fs_remove_def split: option.splits)

lemma only_at_trans: "only_at part w w' \<Longrightarrow> only_at part w' w'' \<Longrightarrow> only_at part w w''"
  unfolding only_at_def by metis

lemma fetch_wget_only: "fetch_wget t sig url part w = (r, w') \<Longrightarrow> only_at part w w'"
  by (auto simp: fetch_wget_def Let_def split: prod.splits if_splits)

lemma Fetch_only: "Fetch t sig url part w = (r, w') \<Longrightarrow> only_at part w w'"
  by (auto simp: Fetch_def Let_def split: prod.splits if_splits dest: fetch_wget_only intro: only_at_trans [rotated])

lemma Fetch_nonempty: "Fetch t sig url part w = ((u, 0), w') \<Longrightarrow> nonEmpty w' part"
  by (auto simp: Fetch_def fetch_wget_def Cancelled_def Let_def split: prod.splits if_splits)

lemma consistent_only_at:
  assumes "registry_consistent sha sdir w" "only_at (sdir @ ''/'' @ rel) w w'" "unregistered w rel"
  shows "registry_consistent sha sdir w'"
  using assms(2,3) by (intro consistent_change [OF assms(1)]) (auto simp: only_at_def)

lemma unregistered_only_at: "only_at part w w' \<Longrightarrow> unregistered w' rel = unregistered w rel"
  using registry_Has_reg [of w' w] by (simp add: unregistered_def only_at_def)

lemma holds_part: "holds_digest sha fs' path s" if "holds_digest sha fs path s" "fs' path = fs path"
  using that by (simp add: holds_digest_iff)

text \<open>The new bytes moved over a free destination, or over the same bytes.\<close>

lemma moved_consistent:
  assumes "registry_consistent sha sdir w" "moved_to (sdir @ ''/'' @ prel) (sdir @ ''/'' @ rel) w w'" "unregistered w prel"
    and "w_files w (sdir @ ''/'' @ rel) = None \<or> same_bytes sha (sdir @ ''/'' @ prel) (sdir @ ''/'' @ rel) w"
  shows "registry_consistent sha sdir w'"
proof (cases "w_reg w")
  case (RegText md)
  let ?part = "sdir @ ''/'' @ prel" and ?dest = "sdir @ ''/'' @ rel"
  have files: "w_files w' = (w_files w)(?dest := w_files w ?part, ?part := None)" and reg: "w_reg w' = w_reg w"
    using assms(2) by (simp_all add: moved_to_def)
  have "rows_hold sha sdir (w_files w') md"
  proof (rule rows_hold_mono)
    show "rows_hold sha sdir (w_files w) md" using assms(1) RegText by (simp add: registry_consistent_def)
    fix f s assume "HasRow md f []" and held: "holds_digest sha (w_files w) (sdir @ ''/'' @ f) s"
    then have np: "f \<noteq> prel" using assms(3) unregistered_text [OF RegText] by auto
    show "holds_digest sha (w_files w') (sdir @ ''/'' @ f) s"
    proof (cases "f = rel")
      case True
      then show ?thesis using held assms(4) np files by (auto simp: holds_digest_iff same_bytes_def)
    next
      case False
      then show ?thesis using np files by (intro holds_part [OF held]) simp
    qed
  qed
  then show ?thesis using reg RegText by (simp add: registry_consistent_def)
qed (use assms(2) in \<open>simp_all add: registry_consistent_def moved_to_def\<close>)

lemma HasRow_retarget:
  assumes "cell_ok new" "HasRow (fst (RetargetFile md old new s)) f []"
  shows "HasRow md f [] \<or> f = new"
proof -
  have "ParseRows (fst (RetargetFile md old new s)) =
      map (\<lambda>r. if rr_File r = old \<and> rr_SHA r = s then r\<lparr>rr_File := new\<rparr> else r) (ParseRows md)"
    using RetargetFile_rows [OF assms(1), of md old s] by (rule conjunct1)
  then show ?thesis using assms(2) by (auto simp: HasRow_rows split: if_splits)
qed

text \<open>The row of new bytes.\<close>

lemma header_rows: "rows_hold sha sdir fs registry_header"
proof -
  have "map (\<lambda>r. (IsHeader r, IsSeparator r)) (ParseRows registry_header) = [(True, False), (False, True)]" by code_simp
  then have "\<forall>x \<in> set (map (\<lambda>r. (IsHeader r, IsSeparator r)) (ParseRows registry_header)). fst x \<or> snd x" by simp
  then show ?thesis by (auto simp: rows_hold_def)
qed

lemma register_consistent:
  assumes "registry_consistent sha sdir w" "register os sdir (sdir @ ''/'' @ rel) kind origin date h w = (code, w')"
    and "list_all (\<lambda>c. pipe \<notin> set c \<and> newline_char \<notin> set c) [rel, kind, SafeCell origin, date, h]" "trimmed rel" "trimmed h"
    and "holds_digest sha (w_files w) (sdir @ ''/'' @ rel) h"
  shows "registry_consistent sha sdir w' \<and> w_files w' = w_files w \<and> (code \<noteq> 0 \<and> w' = w \<or> registry_Has w' rel h = Some True)"
proof (cases "registry_Append os (FormatRow rel kind (SafeCell origin) date h) w")
  case None
  then show ?thesis using assms(1,2) by (simp add: register_def trim_prefix_def has_prefix_def exitFailure_def)
next
  case (Some w2)
  let ?row = "FormatRow rel kind (SafeCell origin) date h"
  note row = FormatRow_file_sha [OF assms(3-5)]
  obtain md where md: "w' = w\<lparr>w_reg := RegText (InsertRow md ?row)\<rparr>" "rows_hold sha sdir (w_files w) md"
    using assms(1,2) Some header_rows
    by (auto simp: register_def registry_Append_def registry_consistent_def trim_prefix_def has_prefix_def split: registry_file.splits if_splits)
  have "rows_hold sha sdir (w_files w) (InsertRow md ?row)"
    using md(2) row(1,2) assms(6) by (simp add: rows_hold_lines InsertRow_set [OF row(4)])
  moreover have "HasRow (InsertRow md ?row) rel h"
    using row(1-3) by (simp add: HasRow_lines list_ex_iff InsertRow_set [OF row(4)] row_matches_def)
  ultimately show ?thesis by (simp add: md(1) registry_consistent_def registry_Has_def)
qed

text \<open>What \<open>curl\<close> prints for a probe is one line.\<close>

definition one_line_probes :: "probes \<Rightarrow> bool" where
  "one_line_probes pr \<longleftrightarrow> (\<forall>u. no_newline (trim_newlines (fst (pr_head pr u))) \<and> no_newline (trim_newlines (fst (pr_get pr u))))"

lemma sep_chars: "set (before_sep s) \<subseteq> set s" "set (after_sep s) \<subseteq> set s"
proof -
  show "set (before_sep s) \<subseteq> set s" by (auto simp: before_sep_def dest: set_takeWhileD)
  have "x \<in> set (tl l) \<Longrightarrow> x \<in> set l" for x and l :: string by (cases l) auto
  then show "set (after_sep s) \<subseteq> set s" by (auto simp: after_sep_def dest: set_dropWhileD)
qed

lemma no_newline_simps: "no_newline []" "no_newline (a @ b) \<longleftrightarrow> no_newline a \<and> no_newline b" "no_newline (c # a) \<longleftrightarrow> c \<noteq> newline_char \<and> no_newline a"
  by (auto simp: no_newline_def)

lemma no_newline_sep: "no_newline s \<Longrightarrow> no_newline (before_sep s)" "no_newline s \<Longrightarrow> no_newline (after_sep s)"
  using sep_chars [of s] by (auto simp: no_newline_def)

lemma probe_no_newline:
  assumes "one_line_probes pr"
  shows "no_newline (snd (probe pr cur))"
proof -
  obtain raw rc raw2 rc2 where runs: "pr_head pr cur = (raw, rc)" "pr_get pr cur = (raw2, rc2)" by fastforce
  then have "no_newline (trim_newlines raw)" "no_newline (trim_newlines raw2)"
    using assms unfolding one_line_probes_def by (metis fst_conv)+
  then show ?thesis by (simp add: probe_def runs Let_def no_newline_sep no_newline_simps)
qed

lemma SafeCell_chars: "pipe \<notin> set (SafeCell s)" "no_newline s \<Longrightarrow> no_newline (SafeCell s)"
  by (auto simp: SafeCell_def no_newline_def split: if_splits)

lemma resolve_no_newline: "one_line_probes pr \<Longrightarrow> no_newline cur \<Longrightarrow> no_newline (resolve_loop pr cancelled n cur)"
proof (induction n arbitrary: cur)
  case (Suc n)
  obtain code loc where pr: "probe pr cur = (code, loc)" by fastforce
  then have "no_newline (SafeCell loc)" using probe_no_newline [OF Suc.prems(1), of cur] by (simp add: SafeCell_chars)
  then show ?case using Suc pr by (simp add: Let_def)
qed simp

lemma Fetch_no_newline:
  assumes "one_line_probes (to_probes t)" "no_newline url" "Fetch t sig url part w = ((effective, code), w')"
  shows "no_newline effective"
proof -
  have "no_newline (Resolve (to_probes t) c url)" for c using resolve_no_newline assms(1,2) by (simp add: Resolve_def)
  then show ?thesis using assms(2,3) no_newline_simps(1)
    by (auto simp: Fetch_def fetch_wget_def Let_def split: prod.splits if_splits)
qed

section \<open>A whole run\<close>

lemma remove_file_reg: "w_reg (remove_file path w) = w_reg w" "(remove_file path w)\<lparr>w_reg := t\<rparr> = remove_file path (w\<lparr>w_reg := t\<rparr>)"
  by (simp_all add: remove_file_def)

text \<open>The text of SOURCES.md in which the rows of the set-aside bytes name the versioned file.\<close>

definition retargeted :: "string \<Rightarrow> string \<Rightarrow> string \<Rightarrow> string" where
  "retargeted md rel old = fst (RetargetFile md rel (sibling rel (versionedName (path_base rel) old)) old)"

text \<open>
  What a refused write leaves: SOURCES.md is as it was, and the text that could not be written is true of the files. So the
  only stale rows are those of the run's own cell with the old digest, and the old bytes are under the versioned name.
\<close>

definition retarget_refused :: "os_calls \<Rightarrow> hash \<Rightarrow> string \<Rightarrow> string \<Rightarrow> registry_file \<Rightarrow> world \<Rightarrow> bool" where
  "retarget_refused os sha sdir rel reg w \<longleftrightarrow> (\<exists>md old. reg = RegText md \<and> w_reg w = RegText md \<and>
     \<not> os_reg_write os (retargeted md rel old) \<and> registry_consistent sha sdir (w\<lparr>w_reg := RegText (retargeted md rel old)\<rparr>))"

lemma remove_consistent: "registry_consistent sha sdir w \<Longrightarrow> unregistered w rel \<Longrightarrow> registry_consistent sha sdir (remove_file (sdir @ ''/'' @ rel) w)"
  by (rule consistent_only_at) simp_all

lemma prepared_consistent:
  assumes "registry_consistent sha sdir w" "prepared os sha p (sdir @ ''/'' @ rel) w written w1" "pl_SDir p = sdir"
    and "unregistered w prel" "hex_digests sha" "cell_ok rel" "CHR ''/'' \<in> set rel"
    and "sdir @ ''/'' @ prel = PartPath (sdir @ ''/'' @ rel) pid"
  shows "unregistered w1 prel" "registry_consistent sha sdir w1 \<or> \<not> written \<and> retarget_refused os sha sdir rel (w_reg w) w1 \<and>
     retarget_refused os sha sdir rel (w_reg w) (remove_file (sdir @ ''/'' @ prel) w1)"
proof -
  let ?dest = "sdir @ ''/'' @ rel"
  let ?refused = "retarget_refused os sha sdir rel (w_reg w)"
  have "unregistered w1 prel \<and> (registry_consistent sha sdir w1 \<or> \<not> written \<and> ?refused w1 \<and> ?refused (remove_file (sdir @ ''/'' @ prel) w1))"
  proof (cases "w1 = w")
    case False
    obtain b w2 where b: "w_files w ?dest = Some (FileNode b)" and aside: "set_aside sha ?dest b (w_files w) (w_files w2)"
      and reg: "w_reg w2 = w_reg w"
      and ret: "if written then \<exists>n. retarget_old os sha ?dest (place_Rel p ?dest) b w2 = Some (n, w1)
         else w1 = w2 \<and> retarget_old os sha ?dest (place_Rel p ?dest) b w2 = None"
      using assms(2) False by (auto simp: prepared_def)
    let ?new = "sibling rel (versionedName (path_base ?dest) (sha b))"
    have rel: "place_Rel p ?dest = rel" using place_Rel_under [of p rel] assms(3) by simp
    show ?thesis
    proof (cases "w_reg w")
      case (RegText md)
      define fixed where "fixed = w2\<lparr>w_reg := RegText (retargeted md rel (sha b))\<rparr>"
      have eqn: "retargeted md rel (sha b) = fst (RetargetFile md rel ?new (sha b))"
        using path_base_under [OF assms(7), of sdir] by (simp add: retargeted_def)
      have w1: "if written then w1 = fixed else w1 = w2 \<and> \<not> os_reg_write os (retargeted md rel (sha b))"
        using ret reg RegText rel unfolding fixed_def eqn
        by (auto simp: retarget_old_def registry_Retarget_def Let_def split: if_splits prod.splits)
      have "rows_hold sha sdir (w_files w) md" using assms(1) RegText by (simp add: registry_consistent_def)
      from aside_rows_hold [OF this b aside assms(5-7)] have con: "registry_consistent sha sdir fixed"
        unfolding fixed_def eqn by (simp add: registry_consistent_def)
      have "prel \<noteq> ?new"
        using part_ne_versioned [OF assms(5), of ?dest b pid] sibling_under [of sdir rel] assms(8)
        by (auto simp: versioned_path_def)
      moreover have "cell_ok ?new" using archived_name_ok [OF assms(5-7)] path_base_under [OF assms(7), of sdir] by simp
      ultimately have un: "unregistered fixed prel"
        using HasRow_retarget [of ?new md rel "sha b" prel] assms(4) unregistered_text [OF RegText]
        unfolding fixed_def eqn by (auto simp: unregistered_def registry_Has_def)
      have refused: "retarget_refused os sha sdir rel (RegText md) v" if "w_reg v = RegText md" "registry_consistent sha sdir (v\<lparr>w_reg := RegText (retargeted md rel (sha b))\<rparr>)"
        "\<not> written" for v
        using that w1 by (auto simp: retarget_refused_def)
      have "unregistered w2 prel" using assms(4) registry_Has_reg [OF reg] by (simp add: unregistered_def)
      moreover have "?refused w2 \<and> ?refused (remove_file (sdir @ ''/'' @ prel) w2)" if "\<not> written"
        using con remove_consistent [OF con un] reg RegText that
        by (auto intro!: refused simp: fixed_def remove_file_reg)
      ultimately show ?thesis using w1 con un by (cases written) auto
    qed (use ret reg in \<open>auto simp: retarget_old_def registry_Retarget_def registry_consistent_def unregistered_def registry_Has_def split: if_splits\<close>)
  qed (use assms in simp)
  then show "unregistered w1 prel" "registry_consistent sha sdir w1 \<or> \<not> written \<and> ?refused w1 \<and> ?refused (remove_file (sdir @ ''/'' @ prel) w1)"
    by simp_all
qed

lemma remove_absent: "w_files w path = None \<Longrightarrow> remove_file path w = w"
  by (simp add: remove_file_def fs_remove_def fun_upd_idem)

lemma sweep_consistent:
  assumes "registry_consistent sha (pl_SDir p) w" "SweepStale p (pl_SDir p @ ''/'' @ sub) alive names w = (code, w')"
  shows "registry_consistent sha (pl_SDir p) w'" "w_reg w' = w_reg w"
proof -
  show reg: "w_reg w' = w_reg w" by (rule SweepStale_reg [OF assms(2)])
  show "registry_consistent sha (pl_SDir p) w'"
  proof (rule consistent_change [OF assms(1) reg])
    fix path
    obtain ns where ns: "w_files w' path = w_files w path \<or> swept p (pl_SDir p @ ''/'' @ sub) alive ns w path"
      using assms(2) sweep_loop_files [of p "pl_SDir p @ ''/'' @ sub" alive _ w code w' path]
      by (auto simp: SweepStale_def split: option.splits)
    show "w_files w' path = w_files w path \<or> (\<exists>rel. path = pl_SDir p @ ''/'' @ rel \<and> unregistered w rel) \<or>
        (\<forall>rel. path \<noteq> pl_SDir p @ ''/'' @ rel)"
    proof (cases "w_files w' path = w_files w path")
      case False
      then obtain name where path: "path = pl_SDir p @ ''/'' @ (sub @ ''/'' @ name)" and "registry_Has w (place_Rel p path) [] = Some False"
        using ns by (auto simp: swept_def)
      then have "unregistered w (sub @ ''/'' @ name)" using place_Rel_under [of p "sub @ ''/'' @ name"] by (simp add: unregistered_def)
      then show ?thesis using path by blast
    qed simp
  qed
qed

text \<open>The cells of the row of a digest and of a destination.\<close>

lemma digest_cell: "hex_digests sha \<Longrightarrow> trimmed (sha b) \<and> pipe \<notin> set (sha b) \<and> newline_char \<notin> set (sha b) \<and> sha b \<noteq> []"
proof -
  assume sha: "hex_digests sha"
  have hex: "set (sha b) \<subseteq> set ''0123456789abcdef''" and len: "length (sha b) = 64" using sha by (simp_all only: hex_digests_def)
  have ne: "sha b \<noteq> []" using len by auto
  have "x \<notin> set blanks \<and> x \<noteq> pipe \<and> x \<noteq> newline_char" if "x \<in> set ''0123456789abcdef''" for x
    using that by (auto simp: blanks_def)
  then show ?thesis using hex ne hd_in_set [OF ne] last_in_set [OF ne] unfolding trimmed_def by blast
qed

lemma signal_exit_ne [simp]: "signal_exit sg \<noteq> 0"
  by (simp add: signal_exit_def exitInterrupted_def exitTerminated_def)

lemma settle_consistent:
  assumes run: "settle_source os sha sig p part dest kind origin date w = (code, w')"
    and ok: "registry_consistent sha (pl_SDir p) w" "unregistered w prel" "hex_digests sha"
    and names: "dest = pl_SDir p @ ''/'' @ rel" "part = pl_SDir p @ ''/'' @ prel" "part = PartPath dest pid"
    and cells: "cell_ok rel" "CHR ''/'' \<in> set rel" "pipe \<notin> set kind" "no_newline kind" "no_newline origin" "pipe \<notin> set date" "no_newline date"
  shows "(registry_consistent sha (pl_SDir p) (remove_file part w') \<or>
      code \<noteq> 0 \<and> retarget_refused os sha (pl_SDir p) rel (w_reg w) (remove_file part w')) \<and>
    (code \<noteq> 0 \<or> (\<exists>b. w_files (remove_file part w') dest = Some (FileNode b) \<and> registry_Has w' rel (sha b) = Some True))"
proof (cases "snd (stage os sha sig part w) = 0")
  case False
  then have "code \<noteq> 0" "w' = w" using run by (auto simp: settle_source_def Let_def split: prod.splits)
  then show ?thesis using remove_consistent [OF ok(1,2)] names(2) by simp
next
  case True
  then obtain c where c: "w_files w part = Some (FileNode c)" and st: "stage os sha sig part w = (sha c, 0)"
    by (auto simp: stage_def FileSHA256_def exitFailure_def split: option.splits fnode.splits if_splits)
  have ne: "part \<noteq> dest" by (simp add: names(3))
  note partd = names(3) [unfolded names(1)]
  obtain same code0 w1 where inst: "Install os sha p part dest w = ((same, code0), w1)" by (metis prod.collapse)
  have run': "(if code0 \<noteq> 0 then (code0, w1) else if same then (0, w1)
      else register os (pl_SDir p) dest kind origin date (sha c) w1) = (code, w')"
    using run st inst by (simp add: settle_source_def)
  consider (stopped) "install_stopped os sha p part dest w same code0 w1" | (same) "install_same sha p part dest w same code0 w1"
    | (placed) "install_placed os sha p part dest w same code0 w1" using install_cases [OF inst ne] by blast
  then show ?thesis
  proof cases
    case stopped
    then obtain written w2 where pr: "prepared os sha p dest w written w2" and w1: "w1 = w2 \<or> w1 = remove_file part w2" and "code0 \<noteq> 0"
      by (auto simp: install_stopped_def ExitFailure_def ExitExists_def ExitSymlink_def)
    then have "code \<noteq> 0" "w' = w1" using run' by auto
    moreover note prep = prepared_consistent [OF ok(1) pr [unfolded names(1)] refl ok(2-3) cells(1,2) partd [unfolded names(2)]]
    moreover have "registry_consistent sha (pl_SDir p) w2 \<Longrightarrow> registry_consistent sha (pl_SDir p) (remove_file part w2)"
      using remove_consistent prep(1) names(2) by blast
    moreover have "remove_file part (remove_file part w2) = remove_file part w2" by (simp add: remove_file_def fs_remove_def)
    moreover note prep(2) [folded names(2)]
    ultimately show ?thesis using w1 by auto
  next
    case same
    then obtain b where "w_files w dest = Some (FileNode b)" "sha b = sha c" and w1: "w1 = remove_file part w" "code0 = 0" "same"
      and has: "registry_Has w (place_Rel p dest) (sha c) = Some True"
      using c by (auto simp: install_same_def same_bytes_def)
    moreover have "w' = w1" "code = 0" using run' w1 by auto
    moreover have "place_Rel p dest = rel" using place_Rel_under [of p rel] names(1) by simp
    moreover have "registry_consistent sha (pl_SDir p) (remove_file part w)" using remove_consistent [OF ok(1,2)] names(2) by simp
    moreover have "remove_file part (remove_file part w) = remove_file part w" by (simp add: remove_file_def fs_remove_def)
    moreover have "registry_Has w1 = registry_Has w" using w1 by (intro registry_Has_reg) (simp add: remove_file_def)
    moreover have "w_files (remove_file part w) dest = w_files w dest" using ne by (simp add: remove_file_def fs_remove_def)
    ultimately show ?thesis by auto
  next
    case placed
    then obtain w2 where pr: "prepared os sha p dest w True w2" and mv: "moved_to part dest w2 w1" and code0: "code0 = 0" "\<not> same"
      and free: "w_files w2 dest = None \<or> w2 = w \<and> same_bytes sha part dest w" by (auto simp: install_placed_def)
    have w2: "registry_consistent sha (pl_SDir p) w2 \<and> unregistered w2 prel"
      using prepared_consistent [OF ok(1) pr [unfolded names(1)] refl ok(2-3) cells(1,2) partd [unfolded names(2)]] by blast
    have w1: "registry_consistent sha (pl_SDir p) w1"
      using free by (intro moved_consistent [OF conjunct1 [OF w2] mv [unfolded names(1,2)] conjunct2 [OF w2]]) (auto simp: names(1,2))
    have "w_files w2 part = Some (FileNode c)" using prepared_part [OF pr ok(3)] c by (simp add: names(3))
    then have dest: "w_files w1 dest = Some (FileNode c)" "w_files w1 part = None" using mv ne by (auto simp: moved_to_def)
    have reg: "register os (pl_SDir p) (pl_SDir p @ ''/'' @ rel) kind origin date (sha c) w1 = (code, w')"
      using run' code0 by (simp add: names(1))
    have "registry_consistent sha (pl_SDir p) w' \<and> w_files w' = w_files w1 \<and> (code \<noteq> 0 \<and> w' = w1 \<or> registry_Has w' rel (sha c) = Some True)"
      using cells digest_cell [OF ok(3), of c] SafeCell_chars [of origin] dest(1)
      by (intro register_consistent [OF w1 reg]) (auto simp: cell_ok_def no_newline_def holds_digest_iff names(1))
    then show ?thesis using dest remove_absent [of w' part] by auto
  qed
qed

text \<open>The File cell of a doc run.\<close>

definition doc_cell :: "request \<Rightarrow> string" where
  "doc_cell r = rq_sub r @ ''/'' @ rq_name r"

lemma checked_chars: "\<not> badChars s \<Longrightarrow> pipe \<notin> set s \<and> newline_char \<notin> set s"
proof -
  have "control_char newline_char" by code_simp
  then show "\<not> badChars s \<Longrightarrow> pipe \<notin> set s \<and> newline_char \<notin> set s" by (auto simp: badChars_def list_ex_iff)
qed

lemma checked_url: "\<not> checkURL s \<Longrightarrow> no_newline s"
proof -
  have "control_char newline_char" by code_simp
  then show "\<not> checkURL s \<Longrightarrow> no_newline s" by (auto simp: checkURL_def list_ex_iff no_newline_def)
qed

lemma doc_checked:
  assumes "doc_refusal os t r = 0"
  shows "pipe \<notin> set (doc_cell r)" "newline_char \<notin> set (doc_cell r)" "pipe \<notin> set (rq_sub r)" "no_newline (rq_sub r)" "no_newline (rq_arg r 0)"
proof -
  have "\<not> badChars (rq_sub r)" "\<not> badChars (rq_name r)" "\<not> checkURL (rq_arg r 0)"
    using assms by (auto simp: doc_refusal_def checkSub_def checkName_def exitUsage_def split: if_splits)
  then have "pipe \<notin> set (rq_sub r) \<and> newline_char \<notin> set (rq_sub r)" "pipe \<notin> set (rq_name r) \<and> newline_char \<notin> set (rq_name r)"
    "no_newline (rq_arg r 0)"
    using checked_chars checked_url by blast+
  then show "pipe \<notin> set (doc_cell r)" "newline_char \<notin> set (doc_cell r)" "pipe \<notin> set (rq_sub r)" "no_newline (rq_sub r)" "no_newline (rq_arg r 0)"
    by (auto simp: doc_cell_def no_newline_def)
qed

lemma cancellable_Fetch:
  assumes "cancellable sig before after (Fetch t sig url part) [] w = ((effective, code), w')" "one_line_probes (to_probes t)" "no_newline url"
  shows "only_at part w w'" "no_newline effective"
  using assms Fetch_only [of t sig url part w] Fetch_no_newline [of t url sig part w] no_newline_simps(1)
  by (auto simp: cancellable_def Let_def split: option.splits prod.splits)

lemma registered_removed:
  assumes "registry_consistent sha sdir v" "w_reg v = w_reg w" "unregistered w rel"
  shows "registry_consistent sha sdir (remove_file (sdir @ ''/'' @ rel) v)"
  using remove_consistent [OF assms(1)] assms(3) registry_Has_reg [OF assms(2)] by (simp add: unregistered_def)

text \<open>What is known of a run, for its files to stay registered.\<close>

definition run_ok where
  "run_ok os sha t p sub url rel pid date w \<longleftrightarrow> hex_digests sha \<and> one_line_probes (to_probes t) \<and>
     no_newline date \<and> pipe \<notin> set date \<and> no_newline url \<and> pipe \<notin> set sub \<and> no_newline sub \<and>
     cell_ok rel \<and> CHR ''/'' \<in> set rel \<and> unregistered w (PartPath rel pid)"

definition run_registered :: "os_calls \<Rightarrow> hash \<Rightarrow> placer \<Rightarrow> string \<Rightarrow> registry_file \<Rightarrow> int \<Rightarrow> world \<Rightarrow> bool" where
  "run_registered os sha p rel reg code w \<longleftrightarrow>
     (registry_consistent sha (pl_SDir p) w \<or> code \<noteq> 0 \<and> retarget_refused os sha (pl_SDir p) rel reg w) \<and>
     (code \<noteq> 0 \<or> (\<exists>b. w_files w (pl_SDir p @ ''/'' @ rel) = Some (FileNode b) \<and> registry_Has w rel (sha b) = Some True))"

lemma fetched_registered:
  fixes p rel pid
  defines "part \<equiv> PartPath (pl_SDir p @ ''/'' @ rel) pid"
  assumes ok: "run_ok os sha t p sub url rel pid date w" and w2: "registry_consistent sha (pl_SDir p) w2" "w_reg w2 = w_reg w"
    and ca: "cancellable sig BeforeFetch AfterFetch (Fetch t sig url part) [] w2 = ((effective, code2), w3)"
    and run: "(if code2 \<noteq> 0 then (asExit code2, w3)
      else settle_source os sha sig p part (pl_SDir p @ ''/'' @ rel) sub effective date w3) = (code, w1)"
  shows "run_registered os sha p rel (w_reg w) code (remove_file part w1)"
proof -
  note oks = ok [unfolded run_ok_def]
  have part: "part = pl_SDir p @ ''/'' @ PartPath rel pid" by (simp add: part_def PartPath_def)
  note ca' = cancellable_Fetch [OF ca]
  have only: "only_at part w2 w3" and eff: "no_newline effective" using ca' oks by simp_all
  have unreg: "unregistered w2 (PartPath rel pid)" using oks registry_Has_reg [OF w2(2)] by (simp add: unregistered_def)
  have w3: "registry_consistent sha (pl_SDir p) w3" by (rule consistent_only_at [OF w2(1) only [unfolded part] unreg])
  have unreg3: "unregistered w3 (PartPath rel pid)" using unregistered_only_at [OF only] unreg by simp
  show ?thesis
  proof (cases "code2 = 0")
    case False
    then have "code = asExit code2" "w1 = w3" using run by auto
    moreover have "asExit code2 \<noteq> 0" using False by (simp add: asExit_def exitFailure_def)
    ultimately have "code \<noteq> 0" "w1 = w3" by simp_all
    then show ?thesis using remove_consistent [OF w3 unreg3] by (simp add: run_registered_def part)
  next
    case True
    then have settle: "settle_source os sha sig p part (pl_SDir p @ ''/'' @ rel) sub effective date w3 = (code, w1)" using run by simp
    have "registry_Has (remove_file part w1) = registry_Has w1" by (rule registry_Has_reg) (simp add: remove_file_def)
    then show ?thesis
      using settle_consistent [OF settle w3 unreg3 _ refl part meta_eq_to_obj_eq [OF part_def]] oks eff only w2(2) by (simp add: run_registered_def only_at_def)
  qed
qed

lemma doc_run_registered:
  fixes p rel pid
  defines "part \<equiv> PartPath (pl_SDir p @ ''/'' @ rel) pid"
  assumes ok: "run_ok os sha t p sub url rel pid date w" and w: "registry_consistent sha (pl_SDir p) w"
    and run: "doc_run os sha t sig pid date alive listing p sub url (pl_SDir p @ ''/'' @ rel) w = (code, w1)"
  shows "run_registered os sha p rel (w_reg w) code (remove_file part w1)"
proof -
  let ?dest = "pl_SDir p @ ''/'' @ rel"
  have part: "part = pl_SDir p @ ''/'' @ PartPath rel pid" by (simp add: part_def PartPath_def)
  have unreg: "unregistered w (PartPath rel pid)" using ok by (simp add: run_ok_def)
  obtain code1 w2 where sw: "SweepStale p (pl_SDir p @ ''/'' @ sub) alive (listing (pl_SDir p @ ''/'' @ sub)) w = (code1, w2)" by fastforce
  note w2 = sweep_consistent [OF w sw]
  consider "Preflight p ?dest w \<noteq> 0" | "Preflight p ?dest w = 0" "code1 \<noteq> 0" | "Preflight p ?dest w = 0" "code1 = 0" by blast
  then show ?thesis
  proof cases
    case 1
    then have "code \<noteq> 0" "w1 = w" using run by (auto simp: doc_run_def)
    then show ?thesis using remove_consistent [OF w unreg] by (simp add: run_registered_def part)
  next
    case 2
    then have "code \<noteq> 0" "w1 = w2" using run sw by (auto simp: doc_run_def)
    then show ?thesis using registered_removed [OF w2 unreg] by (simp add: run_registered_def part)
  next
    case 3
    obtain effective code2 w3 where ca: "cancellable sig BeforeFetch AfterFetch (Fetch t sig url part) [] w2 = ((effective, code2), w3)"
      by (metis prod.collapse)
    show ?thesis
      using run sw 3 ca unfolding part_def
      by (intro fetched_registered [OF ok w2 ca [unfolded part_def]]) (cases "code2 = 0"; simp add: doc_run_def)
  qed
qed


definition demo_os :: os_calls where
  "demo_os = \<lparr>os_rename = (\<lambda>_ _. True), os_links = True, os_reads = (\<lambda>_. True), os_reg_write = (\<lambda>_. True), os_mkdir = True\<rparr>"

definition demo_sha :: hash where
  "demo_sha b = (if b = ''old'' then replicate 64 (CHR ''0'') else replicate 64 (CHR ''1''))"

definition demo_tools :: tools where
  "demo_tools = \<lparr>to_have = (\<lambda>x. x = ''curl''), to_probes = \<lparr>pr_head = (\<lambda>u. (''200 0.1 '', 0)), pr_get = (\<lambda>u. ([], 0))\<rparr>,
     to_curl = (\<lambda>u. (0, Some ''new'')), to_wget = (\<lambda>u. (1, None)), to_pandoc = (\<lambda>u. (1, None))\<rparr>"

definition demo_request :: request where
  "demo_request = parse_args [''doc'', ''--replace'', ''http://h/a.pdf'', ''t'']"

definition demo_world :: world where
  "demo_world = \<lparr>w_files = [''t/sources/datasheets/a.pdf'' \<mapsto> FileNode ''old''],
     w_reg = RegText (registry_header @ FormatRow ''datasheets/a.pdf'' ''datasheets'' ''http://h/a.pdf'' ''2025'' (demo_sha ''old'') @ [newline_char])\<rparr>"

definition demo_run :: "int \<times> world" where
  "demo_run = fetch_doc demo_os demo_sha demo_tools (\<lambda>_. None) 7 ''2026'' (\<lambda>_. False) (\<lambda>_. None) demo_request demo_world"

lemma demo_run_ends: "fst demo_run = 0" "registry_consistent demo_sha ''t/sources'' demo_world"
  by code_simp+

lemma demo_hypotheses:
  "hex_digests demo_sha" "one_line_probes (to_probes demo_tools)" "no_newline ''2026''" "pipe \<notin> set ''2026''"
  "trimmed (doc_cell demo_request)" "unregistered demo_world (PartPath (doc_cell demo_request) 7)"
  "rq_name demo_request \<noteq> ''SOURCES.md''"
proof -
  show "hex_digests demo_sha" by (simp add: hex_digests_def demo_sha_def)
  have "no_newline (trim_newlines ''200 0.1 '')" "no_newline (trim_newlines [])" by code_simp+
  then show "one_line_probes (to_probes demo_tools)" by (simp add: one_line_probes_def demo_tools_def)
  show "no_newline ''2026''" "pipe \<notin> set ''2026''" by (simp_all add: no_newline_def)
  show "trimmed (doc_cell demo_request)" "unregistered demo_world (PartPath (doc_cell demo_request) 7)"
    "rq_name demo_request \<noteq> ''SOURCES.md''" by code_simp+
qed


section \<open>The redirect walk, as a relation\<close>

text \<open>One permanent redirect: 301 or 308 to an http(s) address, written so that it fits one cell.\<close>

inductive permanent :: "probes \<Rightarrow> string \<Rightarrow> string \<Rightarrow> bool" for pr where
  hop: "probe pr cur = (code, loc) \<Longrightarrow> code \<in> {''301'', ''308''} \<Longrightarrow> http_url loc \<Longrightarrow> permanent pr cur (SafeCell loc)"

definition chain_ends :: "probes \<Rightarrow> string \<Rightarrow> bool" where
  "chain_ends pr u \<longleftrightarrow> (\<nexists>nxt. permanent pr u nxt)"

inductive_simps permanent_iff: "permanent pr cur next"

lemma http_url_ne: "http_url u \<Longrightarrow> u \<noteq> []"
  by (auto simp: http_url_def has_prefix_def)

lemma permanent_step:
  "permanent pr cur nxt \<Longrightarrow> \<not> cancelled n \<Longrightarrow> resolve_loop pr cancelled (Suc n) cur = resolve_loop pr cancelled n nxt"
  by (auto simp: permanent_iff Let_def dest: http_url_ne)

lemma permanent_stop:
  "\<nexists>nxt. permanent pr cur nxt \<Longrightarrow> resolve_loop pr cancelled n cur = cur"
  by (cases n) (auto simp: permanent_iff Let_def split: prod.split)

lemma resolve_chain:
  "\<exists>k \<le> n. (permanent pr ^^ k) cur (resolve_loop pr cancelled n cur) \<and>
     (k = n \<or> cancelled (n - Suc k) \<or> (\<nexists>nxt. permanent pr (resolve_loop pr cancelled n cur) nxt))"
proof (induction n arbitrary: cur)
  case (Suc n)
  consider "cancelled n" | "\<nexists>nxt. permanent pr cur nxt" | nxt where "\<not> cancelled n" "permanent pr cur nxt" by blast
  then show ?case
  proof cases
    case 1
    then have "resolve_loop pr cancelled (Suc n) cur = cur" by (simp add: Let_def split: prod.split)
    then show ?thesis using 1 by (intro exI [of _ 0]) simp
  next
    case 2
    then show ?thesis using permanent_stop [OF 2, of cancelled "Suc n"] by (intro exI [of _ 0]) (simp del: resolve_loop.simps)
  next
    case 3
    note step = permanent_step [where cancelled = cancelled and n = n, OF 3(2) 3(1)]
    obtain k where "k \<le> n" "(permanent pr ^^ k) nxt (resolve_loop pr cancelled n nxt)"
      "k = n \<or> cancelled (n - Suc k) \<or> (\<nexists>u. permanent pr (resolve_loop pr cancelled n nxt) u)"
      using Suc.IH [of nxt] by blast
    then show ?thesis using relpowp_Suc_I2 [where P = "permanent pr", OF 3(2)] by (intro exI [of _ "Suc k"]) (auto simp only: step Suc_le_mono diff_Suc_Suc)
  qed
qed (auto intro: exI [of _ 0])

text \<open>
  C36. The registered URL is reached by permanent redirects only. It is the typed URL or is reached from it by at most
  ten hops, each a 301 or 308 to an http(s) address; and the walk stops early only where the chain ends or when the run
  is cancelled.
\<close>

theorem resolve_follows_permanent_only:
  "\<exists>k. k \<le> MaxHops \<and> (permanent pr ^^ k) url (Resolve pr cancelled url) \<and>
     (k = MaxHops \<or> cancelled (MaxHops - Suc k) \<or> chain_ends pr (Resolve pr cancelled url))"
  unfolding Resolve_def chain_ends_def by (rule resolve_chain)

section \<open>The snapshot name\<close>

lemma safe_hex: "hex_digests sha \<Longrightarrow> list_all safe_char (take 12 (sha u)) \<and> length (take 12 (sha u)) = 12"
proof -
  assume sha: "hex_digests sha"
  have hex: "set (sha u) \<subseteq> set ''0123456789abcdef''" and len: "length (sha u) = 64" using sha by (simp_all only: hex_digests_def)
  have "list_all safe_char ''0123456789abcdef''" by code_simp
  then show ?thesis using hex len by (auto simp: list_all_iff dest!: in_set_takeD)
qed

lemma bytewise_safe: "list_all safe_char (bytewise s)"
proof -
  have "safe_char (CHR ''_'')" by code_simp
  then show ?thesis by (auto simp: bytewise_def list_all_iff)
qed

text \<open>
  A snapshot name is a plain file name of at most 80 bytes: letters, digits, dots, underscores and hyphens only; and
  a URL whose safe form is short keeps that form.
\<close>

theorem slug_is_a_file_name:
  assumes "hex_digests sha"
  shows "list_all safe_char (slug_Web sha url) \<and> length (slug_Web sha url) \<le> maxPlain \<and>
    (length (replaceFirst url) \<le> maxPlain \<longrightarrow> slug_Web sha url = bytewise (replaceFirst url)) \<and>
    (maxPlain < length (replaceFirst url) \<longrightarrow> length (slug_Web sha url) = maxPlain)"
proof -
  have plain: "safe_char (CHR ''_'')" "safe_char (CHR ''-'')" by code_simp+
  define s where "s = bytewise (replaceFirst url)"
  have len: "length s = length (replaceFirst url)" by (simp add: s_def bytewise_def)
  have safe: "list_all safe_char s" by (simp add: s_def bytewise_safe)
  then have "list_all safe_char (take 46 s)" "list_all safe_char (drop (length s - 20) s)"
    by (auto simp: list_all_iff dest: in_set_takeD in_set_dropD)
  moreover have "slug_Web sha url = (if length s \<le> maxPlain then s
      else take 46 s @ ''_'' @ drop (length s - 20) s @ ''-'' @ take 12 (sha url))"
    by (simp add: slug_Web_def Let_def s_def)
  ultimately show ?thesis using safe safe_hex [OF assms, of url] plain len s_def by (simp add: maxPlain_def)
qed

theorem slug_is_a_file_name_witness:
  "length (slug_Web demo_sha (''http://h/'' @ replicate 100 (CHR ''a''))) = 80"
  using slug_is_a_file_name [OF demo_hypotheses(1), of "''http://h/'' @ replicate 100 (CHR ''a'')"]
  by (simp add: maxPlain_def has_prefix_def)

section \<open>Cancelled runs\<close>

lemma only_at_file: "only_at part w w' \<Longrightarrow> path \<noteq> part \<Longrightarrow> w_files w' path = w_files w path"
  by (auto simp: only_at_def)

lemma cancelled_fetch:
  assumes "sig AtBlock \<noteq> None"
    and "(let ((effective, code), w2) = cancellable sig BeforeFetch AfterFetch (Fetch t sig url part) [] w1
      in if code \<noteq> 0 then (asExit code, w2) else settle_source os sha sig p part dest sub effective date w2) = (code, w')"
  shows "code \<noteq> 0" "only_at part w1 w'"
proof -
  obtain effective code2 w2 where ca: "cancellable sig BeforeFetch AfterFetch (Fetch t sig url part) [] w1 = ((effective, code2), w2)"
    by (metis prod.collapse)
  have only: "only_at part w1 w2"
    using ca Fetch_only [of t sig url part w1] by (auto simp: cancellable_def Let_def split: option.splits prod.splits)
  obtain sg where "sig AtBlock = Some sg" using assms(1) by blast
  then have "settle_source os sha sig p part dest sub effective date w2 = (signal_exit sg, w2)" by (simp add: settle_source_def stage_def)
  then have "code \<noteq> 0 \<and> w' = w2" using assms(2) ca by (auto simp: asExit_def exitFailure_def split: if_splits)
  then show "code \<noteq> 0" "only_at part w1 w'" using only by simp_all
qed

text \<open>
  A cancelled run registers nothing. If a signal was recorded by the point of no return, the exit status is not 0,
  SOURCES.md is untouched, and no file but the run's own part file changes, except for stale part files swept away.
\<close>

theorem cancelled_run_registers_nothing:
  assumes "sig AtBlock \<noteq> None" and "fetch_doc os sha t sig pid date alive listing r w = (code, w')"
  shows "code \<noteq> 0 \<and> w_reg w' = w_reg w \<and>
    (\<forall>path. path = PartPath (doc_dest r) pid \<or> w_files w' path = w_files w path \<or>
      w_files w' path = None \<and> (\<exists>dir names. swept (doc_placer r) dir alive names w path))"
proof (cases "doc_refusal os t r = 0 \<and> Preflight (doc_placer r) (doc_dest r) w = 0")
  case False
  then have "code \<noteq> 0 \<and> only_at (PartPath (doc_dest r) pid) w w'" using assms(2) by (auto simp: fetch_doc_def doc_run_def split: if_splits)
  then show ?thesis by (auto simp: only_at_def)
next
  case pre: True
  let ?p = "doc_placer r" and ?part = "PartPath (doc_dest r) pid"
  let ?dir = "pl_SDir ?p @ ''/'' @ rq_sub r"
  obtain w1 where run: "doc_run os sha t sig pid date alive listing ?p (rq_sub r) (rq_arg r 0) (doc_dest r) w = (code, w1)"
    and w': "w' = remove_file ?part w1" using assms(2) pre by (auto simp: fetch_doc_def split: prod.splits)
  obtain code1 w2 where sw: "SweepStale ?p ?dir alive (listing ?dir) w = (code1, w2)" by fastforce
  have "code \<noteq> 0 \<and> only_at ?part w2 w1"
  proof (cases "code1 = 0")
    case False
    then show ?thesis using run sw pre by (simp add: doc_run_def)
  next
    case True
    have eq: "(let ((effective, code), w3) = cancellable sig BeforeFetch AfterFetch (Fetch t sig (rq_arg r 0) ?part) [] w2
        in if code \<noteq> 0 then (asExit code, w3)
           else settle_source os sha sig ?p ?part (doc_dest r) (rq_sub r) effective date w3) = (code, w1)"
      using run sw True pre by (simp add: doc_run_def)
    show ?thesis by (intro conjI cancelled_fetch [where sig = sig, OF assms(1) eq])
  qed
  then have only: "only_at ?part w2 w'" and "code \<noteq> 0" by (simp_all add: w')
  moreover have "w_files w2 path = w_files w path \<or> w_files w2 path = None \<and> (\<exists>dir names. swept ?p dir alive names w path)" for path
    using sw sweep_loop_files [of ?p ?dir alive _ w code1 w2 path] by (auto simp: SweepStale_def split: option.splits)
  moreover have "w_reg w' = w_reg w" using SweepStale_reg [OF sw] only by (simp add: only_at_def)
  ultimately show ?thesis using only_at_file [OF only] by metis
qed

theorem cancelled_run_registers_nothing_witness:
  "fst (fetch_doc demo_os demo_sha demo_tools (\<lambda>_. Some SIGTERM) 7 ''2026'' (\<lambda>_. False) (\<lambda>_. None) demo_request demo_world) \<noteq> 0"
proof -
  have "(\<lambda>_. Some SIGTERM) AtBlock \<noteq> None" by simp
  from cancelled_run_registers_nothing [OF this prod.collapse [symmetric]] show ?thesis by blast
qed

section \<open>The page mode\<close>

lemma safe_sep: "safe_char (CHR ''_'')" "safe_char (CHR ''-'')"
  by code_simp+

definition outside :: "string \<Rightarrow> string \<Rightarrow> bool" where
  "outside sdir path \<longleftrightarrow> \<not> has_prefix path (sdir @ ''/'')"

lemma outside_ne: "outside sdir path \<Longrightarrow> path \<noteq> sdir @ ''/'' @ rel"
  by (auto simp: outside_def has_prefix_def)

text \<open>A step that touches only paths outside the sources directory.\<close>

definition only_outside :: "string \<Rightarrow> world \<Rightarrow> world \<Rightarrow> bool" where
  "only_outside sdir w w' \<longleftrightarrow> w_reg w' = w_reg w \<and> (\<forall>path. outside sdir path \<or> w_files w' path = w_files w path)"

lemma only_outside_steps:
  "only_at part w w' \<Longrightarrow> outside sdir part \<Longrightarrow> only_outside sdir w w'"
  "outside sdir a \<Longrightarrow> outside sdir b \<Longrightarrow> only_outside sdir w (w\<lparr>w_files := fs_rename a b (w_files w)\<rparr>)"
  by (auto simp: only_outside_def only_at_def fs_rename_def)

lemma only_outside_consistent:
  assumes "registry_consistent sha sdir w" "only_outside sdir w w'"
  shows "registry_consistent sha sdir w'"
  using assms outside_ne [of sdir] unfolding only_outside_def by (intro consistent_change [OF assms(1)]) blast+

lemma only_outside_file: "only_outside sdir w w' \<Longrightarrow> w_files w' (sdir @ ''/'' @ rel) = w_files w (sdir @ ''/'' @ rel)"
  using outside_ne [of sdir] unfolding only_outside_def by blast

lemma convert_only: "convert_page t sig html out w = (r, w') \<Longrightarrow> only_at out w w'"
  by (auto simp: convert_page_def Let_def split: prod.splits if_splits option.splits fnode.splits)

lemma cancellable_convert:
  "cancellable sig before after (convert_page t sig html out) u w = (r, w') \<Longrightarrow> only_at out w w'"
  using convert_only [of t sig html out w] by (auto simp: cancellable_def Let_def split: option.splits prod.splits)

lemma remove_file_comm: "a \<noteq> b \<Longrightarrow> remove_file a (remove_file b w) = remove_file b (remove_file a w)"
  by (auto simp: remove_file_def fs_remove_def fun_upd_twist)

lemma refused_outside:
  assumes "retarget_refused os sha sdir rel reg w" "only_outside sdir w w'"
  shows "retarget_refused os sha sdir rel reg w'"
proof -
  obtain md old where w: "reg = RegText md" "w_reg w = RegText md" "\<not> os_reg_write os (retargeted md rel old)"
    "registry_consistent sha sdir (w\<lparr>w_reg := RegText (retargeted md rel old)\<rparr>)" using assms(1) by (auto simp: retarget_refused_def)
  have "only_outside sdir (w\<lparr>w_reg := RegText (retargeted md rel old)\<rparr>) (w'\<lparr>w_reg := RegText (retargeted md rel old)\<rparr>)"
    using assms(2) by (simp add: only_outside_def)
  from only_outside_consistent [OF w(4) this] show ?thesis using w assms(2) by (auto simp: retarget_refused_def only_outside_def)
qed

lemma registered_outside:
  assumes "run_registered os sha p rel reg code w" "only_outside (pl_SDir p) w w'"
  shows "run_registered os sha p rel reg code w'"
  using assms only_outside_consistent refused_outside only_outside_file [OF assms(2)] registry_Has_reg [of w' w]
  by (auto simp: run_registered_def only_outside_def)

lemma web_cell_ok:
  assumes "hex_digests sha"
  shows "cell_ok (web_cell sha r)" "CHR ''/'' \<in> set (web_cell sha r)"
proof -
  have safe: "list_all safe_char (slug_Web sha (rq_arg r 0))"
    using safe_hex [OF assms, of "rq_arg r 0"] bytewise_safe [of "replaceFirst (rq_arg r 0)"] safe_sep
    by (auto simp: slug_Web_def Let_def list_all_iff dest: in_set_takeD in_set_dropD)
  have "\<not> safe_char pipe" "\<not> safe_char newline_char" by code_simp+
  then have "pipe \<notin> set (slug_Web sha (rq_arg r 0))" "newline_char \<notin> set (slug_Web sha (rq_arg r 0))"
    using safe by (auto simp: list_all_iff)
  then show "cell_ok (web_cell sha r)" by (simp add: cell_ok_def web_cell_def trimmed_def blanks_def)
qed (simp add: web_cell_def)

lemma web_url: "\<not> checkURL url \<Longrightarrow> newline_char \<notin> set url"
  using checked_url by (simp add: no_newline_def)

lemma web_run_registered:
  fixes p rel pid
  defines "part \<equiv> PartPath (pl_SDir p @ ''/'' @ rel) pid"
  assumes ok: "run_ok os sha t p ''web-snapshot'' url rel pid date w" and w: "registry_consistent sha (pl_SDir p) w"
    and page: "outside (pl_SDir p) page" "outside (pl_SDir p) (PartPath page pid)"
    and run: "web_run os sha t sig pid date p url (pl_SDir p @ ''/'' @ rel) page w = (code, w1)"
  shows "run_registered os sha p rel (w_reg w) code (remove_file part w1)"
proof -
  note oks = ok [unfolded run_ok_def]
  have part: "part = pl_SDir p @ ''/'' @ PartPath rel pid" by (simp add: part_def PartPath_def)
  let ?hpart = "PartPath page pid"
  have keeps: "run_registered os sha p rel (w_reg w) c (remove_file part v)" if "registry_consistent sha (pl_SDir p) v" "w_reg v = w_reg w" "c \<noteq> 0" for c v
    using registered_removed [OF that(1,2)] oks that(3) by (simp add: run_registered_def part)
  obtain effective code2 w2 where ca: "cancellable sig BeforeFetch AfterFetch (Fetch t sig url ?hpart) [] w = ((effective, code2), w2)"
    by (metis prod.collapse)
  have w2: "only_at ?hpart w w2" "no_newline effective" using cancellable_Fetch [OF ca] oks by simp_all
  then have out2: "only_outside (pl_SDir p) w w2" using page by (auto intro: only_outside_steps)
  note con2 = only_outside_consistent [OF w out2]
  have reg2: "w_reg w2 = w_reg w" using out2 by (simp add: only_outside_def)
  have exit_ne: "c \<noteq> 0 \<Longrightarrow> asExit c \<noteq> 0" for c by (simp add: asExit_def exitFailure_def)
  show ?thesis
  proof (cases "code2 \<noteq> 0 \<or> w_files w2 ?hpart = None \<or> \<not> os_rename os ?hpart page")
    case True
    then have "code \<noteq> 0 \<and> w1 = w2"
      using run ca exit_ne by (cases "code2 = 0") (auto simp: web_run_def exitFailure_def)
    then show ?thesis using keeps [OF con2 reg2] by simp
  next
    case False
    define w3 where "w3 = w2\<lparr>w_files := fs_rename ?hpart page (w_files w2)\<rparr>"
    have out3: "only_outside (pl_SDir p) w2 w3" unfolding w3_def by (rule only_outside_steps(2) [OF page(2,1)])
    obtain u code4 w4 where cv: "cancellable sig BeforeConvert AfterConvert (convert_page t sig page part) () w3 = ((u, code4), w4)"
      by (metis prod.collapse)
    have only4: "only_at part w3 w4" by (rule cancellable_convert [OF cv])
    have reg4: "w_reg w4 = w_reg w" using reg2 only4 by (simp add: only_at_def w3_def)
    have unreg: "unregistered w3 (PartPath rel pid)" "unregistered w4 (PartPath rel pid)"
      using oks registry_Has_reg [of w3 w] registry_Has_reg [OF reg4] reg2 by (simp_all add: unregistered_def w3_def)
    have con4: "registry_consistent sha (pl_SDir p) w4"
      by (rule consistent_only_at [OF only_outside_consistent [OF con2 out3] only4 [unfolded part] unreg(1)])
    have run4: "(if code4 \<noteq> 0 then (asExit code4, w4)
        else settle_source os sha sig p part (pl_SDir p @ ''/'' @ rel) ''web-snapshot'' effective date w4) = (code, w1)"
      using run ca cv False unfolding part_def w3_def by (auto simp: web_run_def Let_def split: if_splits)
    show ?thesis
    proof (cases "code4 = 0")
      case False
      then have "code \<noteq> 0" "w1 = w4" using run4 exit_ne by auto
      then show ?thesis using keeps [OF con4 reg4] by simp
    next
      case True
      then have settle: "settle_source os sha sig p part (pl_SDir p @ ''/'' @ rel) ''web-snapshot'' effective date w4 = (code, w1)"
        using run4 by simp
      have "registry_Has (remove_file part w1) = registry_Has w1" by (rule registry_Has_reg) (simp add: remove_file_def)
      then show ?thesis
        using settle_consistent [OF settle con4 unreg(2) _ refl part meta_eq_to_obj_eq [OF part_def]] oks w2(2) reg4
        by (simp add: run_registered_def)
    qed
  qed
qed

text \<open>
  C20. A page run keeps the registry true, as a document run does: with the page staged outside the sources directory,
  every row still names a file with its digest after the run, unless SOURCES.md could not be rewritten after the old
  snapshot was renamed; then the run fails, SOURCES.md is as it was, and the text that could not be written is true of the
  files. And a run that exits with 0 leaves the snapshot registered under the digest of its bytes.
\<close>

theorem web_run_keeps_registry_true:
  assumes "hex_digests sha" "one_line_probes (to_probes t)" "no_newline date" "pipe \<notin> set date"
    and "unregistered w (PartPath (web_cell sha r) pid)" "registry_consistent sha (rq_arg r 1 @ ''/sources'') w"
    and "\<And>page. html = Some page \<Longrightarrow> outside (rq_arg r 1 @ ''/sources'') page \<and> outside (rq_arg r 1 @ ''/sources'') (PartPath page pid)"
    and "fetch_web os sha t sig pid date alive listing html r w = (code, w')"
  shows "(registry_consistent sha (rq_arg r 1 @ ''/sources'') w' \<or>
      code \<noteq> 0 \<and> retarget_refused os sha (rq_arg r 1 @ ''/sources'') (web_cell sha r) (w_reg w) w') \<and>
    (code \<noteq> 0 \<or> (\<exists>b. w_files w' (rq_arg r 1 @ ''/sources/'' @ web_cell sha r) = Some (FileNode b) \<and>
       registry_Has w' (web_cell sha r) (sha b) = Some True))"
proof -
  let ?p = "doc_placer r" and ?rel = "web_cell sha r"
  have sdir: "pl_SDir ?p = rq_arg r 1 @ ''/sources''" by (simp add: doc_placer_def)
  let ?dest = "pl_SDir ?p @ ''/'' @ ?rel" and ?dir = "pl_SDir ?p @ ''/web-snapshots''"
  have w: "registry_consistent sha (pl_SDir ?p) w" using assms(6) by (simp add: sdir)
  have fails: "run_registered os sha ?p ?rel (w_reg w) c v" if "registry_consistent sha (pl_SDir ?p) v" "c \<noteq> 0" for c v
    using that by (simp add: run_registered_def)
  obtain code1 w2 where sw: "SweepStale ?p (pl_SDir ?p @ ''/'' @ ''web-snapshots'') alive (listing ?dir) w = (code1, w2)" by fastforce
  note w2 = sweep_consistent [OF w sw]
  have "run_registered os sha ?p ?rel (w_reg w) code w'"
  proof (cases "web_refusal os t r \<noteq> 0 \<or> Preflight ?p ?dest w \<noteq> 0 \<or> code1 \<noteq> 0 \<or> html = None")
    case True
    have "code \<noteq> 0 \<and> (w' = w \<or> w' = w2)"
    proof (cases "web_refusal os t r \<noteq> 0 \<or> Preflight ?p ?dest w \<noteq> 0")
      case False
      then show ?thesis using True assms(8) sw by (cases "code1 = 0") (auto simp: fetch_web_def exitFailure_def)
    qed (use assms(8) in \<open>auto simp: fetch_web_def Let_def split: if_splits\<close>)
    then show ?thesis using fails w w2(1) by auto
  next
    case False
    then obtain page where page: "html = Some page" by blast
    let ?w3 = "put_file page (Some []) w2"
    have out: "outside (pl_SDir ?p) page" "outside (pl_SDir ?p) (PartPath page pid)" using assms(7) page by (simp_all add: sdir)
    have o3: "only_outside (pl_SDir ?p) w2 ?w3" by (rule only_outside_steps(1) [OF _ out(1)]) simp
    have reg3: "w_reg ?w3 = w_reg w" using o3 w2(2) by (simp add: only_outside_def)
    then have ok: "run_ok os sha t ?p ''web-snapshot'' (rq_arg r 0) ?rel pid date ?w3"
      using assms(1-5) False web_cell_ok [OF assms(1), of r] registry_Has_reg [of ?w3 w]
      by (auto simp: run_ok_def unregistered_def no_newline_def web_refusal_def exitUsage_def dest: web_url split: if_splits)
    obtain w4 where run: "web_run os sha t sig pid date ?p (rq_arg r 0) ?dest page ?w3 = (code, w4)"
      and w': "w' = remove_file (PartPath ?dest pid) (remove_file (PartPath page pid) (remove_file page w4))"
      using assms(8) False sw page by (auto simp: fetch_web_def Let_def split: prod.splits)
    have reg: "run_registered os sha ?p ?rel (w_reg w) code (remove_file (PartPath ?dest pid) w4)"
      using web_run_registered [OF ok only_outside_consistent [OF w2(1) o3] out run] reg3 by simp
    have ne: "PartPath ?dest pid \<noteq> PartPath page pid" "PartPath ?dest pid \<noteq> page"
      using outside_ne [OF out(1), of "PartPath ?rel pid"] outside_ne [OF out(2), of "PartPath ?rel pid"] by (auto simp: PartPath_def)
    have "w' = remove_file (PartPath page pid) (remove_file page (remove_file (PartPath ?dest pid) w4))"
      using remove_file_comm [OF ne(1)] remove_file_comm [OF ne(2)] by (simp add: w')
    then show ?thesis
      using registered_outside [OF registered_outside [OF reg only_outside_steps(1) [of page _ "remove_file page (remove_file (PartPath ?dest pid) w4)"]]
        only_outside_steps(1) [of "PartPath page pid" _ w']] out by simp
  qed
  then show ?thesis by (simp add: run_registered_def sdir)
qed

definition demo_page_run :: "int \<times> world" where
  "demo_page_run = fetch_web demo_os demo_sha demo_tools (\<lambda>_. None) 7 ''2026'' (\<lambda>_. False) (\<lambda>_. None) (Some ''/tmp/tmp.1'')
     demo_request demo_world"

theorem web_run_keeps_registry_true_witness:
  "registry_consistent demo_sha ''t/sources'' (snd demo_page_run) \<and>
   (\<exists>b. w_files (snd demo_page_run) ''t/sources/web-snapshots/h_a.pdf.md'' = Some (FileNode b) \<and>
      registry_Has (snd demo_page_run) ''web-snapshots/h_a.pdf.md'' (demo_sha b) = Some True)"
proof -
  have arg: "rq_arg demo_request 1 = ''t''" and cell: "web_cell demo_sha demo_request = ''web-snapshots/h_a.pdf.md''" by code_simp+
  have exit: "fst demo_page_run = 0" and un: "unregistered demo_world (PartPath (web_cell demo_sha demo_request) 7)" by code_simp+
  have "outside ''t/sources'' ''/tmp/tmp.1''" "outside ''t/sources'' (PartPath ''/tmp/tmp.1'' 7)" by code_simp+
  then have out: "\<And>page. Some ''/tmp/tmp.1'' = Some page \<Longrightarrow>
      outside (rq_arg demo_request 1 @ ''/sources'') page \<and> outside (rq_arg demo_request 1 @ ''/sources'') (PartPath page 7)"
    by (simp add: arg [unfolded One_nat_def])
  have con: "registry_consistent demo_sha (rq_arg demo_request 1 @ ''/sources'') demo_world" using demo_run_ends(2) by (simp add: arg [unfolded One_nat_def])
  from web_run_keeps_registry_true [OF demo_hypotheses(1-4) un con out prod.collapse [symmetric, of demo_page_run, unfolded demo_page_run_def]]
  show ?thesis using exit by (simp add: demo_page_run_def arg [unfolded One_nat_def] cell)
qed

end
