(* ===== verification/Session.thy ===== *)
theory Session
  imports Fetch_Doc
begin

text \<open>
  The signal session of a fetch-doc run (\<open>sources/fetchdoc/session.go\<close>). Two goroutines share atomics and channels: the
  listener, which receives INT and TERM and the request to block them, and the run, which blocks, asks whether it was
  interrupted and closes. Every operation on a shared variable or a channel is a step of its own, and the interleavings are a
  step relation on the shared state and the two program counters. What is shown: the recorded status never changes once set,
  nor after the session is blocked; the context is cancelled only after the status is set; a signal that reached the channel
  before the drain ended is never lost; a requested block can always return.
\<close>

section \<open>The shared state and its steps\<close>

text \<open>
  Where the listener is: at its select; in \<open>record\<close> before the test of \<open>blocked\<close>, before the compare-and-swap or before
  \<open>cancel\<close>, called from the select or from the drain; at the select of the drain, before the store, before \<open>close(ack)\<close>; or
  returned.
\<close>

datatype listener =
    LSelect
  | LRecord stop_signal bool \<comment> \<open>the signal received, and whether the drain received it\<close>
  | LSwap stop_signal bool
  | LCancel bool
  | LDrain
  | LStore
  | LAck
  | LEnd

text \<open>Where \<open>Block\<close> is: not called; at its select; waiting for the acknowledgement; before its own store.\<close>

datatype blocker = BIdle | BOffer | BWait | BLate

record session =
  se_code :: int
  se_cancelled :: bool
  se_blocked :: bool
  se_chan :: "stop_signal list" \<comment> \<open>signals delivered to the channel and not yet received\<close>
  se_done :: bool
  se_closing :: bool \<comment> \<open>\<open>Close\<close> has closed \<open>done\<close> and not yet cancelled the context\<close>
  se_listener :: listener
  se_blocker :: blocker

definition newSession :: session where
  "newSession = \<lparr>se_code = 0, se_cancelled = False, se_blocked = False, se_chan = [], se_done = False, se_closing = False,
     se_listener = LSelect, se_blocker = BIdle\<rparr>"

definition resume :: "bool \<Rightarrow> listener" where
  "resume draining = (if draining then LDrain else LSelect)"

definition interrupted :: "session \<Rightarrow> int option" where
  "interrupted s = (if se_code s \<noteq> 0 then Some (se_code s) else None)"

text \<open>The channel of \<open>Run\<close> holds two signals; one that finds it full is dropped, as \<open>signal.Notify\<close> documents.\<close>

definition channel_capacity :: nat where "channel_capacity = 2"

text \<open>\<open>record\<close>, operation by operation: the load of \<open>blocked\<close>, the compare-and-swap of the status, the cancellation.\<close>

inductive record_step :: "session \<Rightarrow> session \<Rightarrow> bool" where
  ignore: "se_listener s = LRecord sg d \<Longrightarrow> se_blocked s \<Longrightarrow> record_step s (s\<lparr>se_listener := resume d\<rparr>)"
| test: "se_listener s = LRecord sg d \<Longrightarrow> \<not> se_blocked s \<Longrightarrow> record_step s (s\<lparr>se_listener := LSwap sg d\<rparr>)"
| swap: "se_listener s = LSwap sg d \<Longrightarrow>
    record_step s (s\<lparr>se_code := (if se_code s = 0 then signal_exit sg else se_code s), se_listener := LCancel d\<rparr>)"
| cancel: "se_listener s = LCancel d \<Longrightarrow> record_step s (s\<lparr>se_cancelled := True, se_listener := resume d\<rparr>)"

inductive listen_step :: "session \<Rightarrow> session \<Rightarrow> bool" where
  recording: "record_step s s' \<Longrightarrow> listen_step s s'"
| receive: "se_listener s = LSelect \<Longrightarrow> se_chan s = sg # rest \<Longrightarrow> listen_step s (s\<lparr>se_chan := rest, se_listener := LRecord sg False\<rparr>)"
| freeze: "se_listener s = LSelect \<Longrightarrow> se_blocker s = BOffer \<Longrightarrow> listen_step s (s\<lparr>se_listener := LDrain, se_blocker := BWait\<rparr>)"
| finished: "se_listener s = LSelect \<Longrightarrow> se_done s \<Longrightarrow> listen_step s (s\<lparr>se_listener := LEnd\<rparr>)"
| drain: "se_listener s = LDrain \<Longrightarrow> se_chan s = sg # rest \<Longrightarrow> listen_step s (s\<lparr>se_chan := rest, se_listener := LRecord sg True\<rparr>)"
| drained: "se_listener s = LDrain \<Longrightarrow> se_chan s = [] \<Longrightarrow> listen_step s (s\<lparr>se_listener := LStore\<rparr>)"
| store: "se_listener s = LStore \<Longrightarrow> listen_step s (s\<lparr>se_blocked := True, se_listener := LAck\<rparr>)"
| ack: "se_listener s = LAck \<Longrightarrow> listen_step s (s\<lparr>se_listener := LSelect, se_blocker := BIdle\<rparr>)"

text \<open>The second case of the select of \<open>Block\<close>: the listener is gone, or may be.\<close>

inductive block_step :: "session \<Rightarrow> session \<Rightarrow> bool" where
  abandoned: "se_blocker s = BOffer \<Longrightarrow> se_done s \<Longrightarrow> block_step s (s\<lparr>se_blocker := BLate\<rparr>)"
| late: "se_blocker s = BLate \<Longrightarrow> block_step s (s\<lparr>se_blocked := True, se_blocker := BIdle\<rparr>)"

text \<open>A signal arrives (or finds the channel full), the listener moves, \<open>Block\<close> is called or moves, \<open>Close\<close> makes one of its two steps.\<close>

inductive session_step :: "session \<Rightarrow> session \<Rightarrow> bool" where
  deliver: "length (se_chan s) < channel_capacity \<Longrightarrow> session_step s (s\<lparr>se_chan := se_chan s @ [sg]\<rparr>)"
| dropped: "length (se_chan s) = channel_capacity \<Longrightarrow> session_step s s"
| listening: "listen_step s s' \<Longrightarrow> session_step s s'"
| request: "se_blocker s = BIdle \<Longrightarrow> session_step s (s\<lparr>se_blocker := BOffer\<rparr>)"
| blocking: "block_step s s' \<Longrightarrow> session_step s s'"
| closes: "\<not> se_done s \<Longrightarrow> session_step s (s\<lparr>se_done := True, se_closing := True\<rparr>)"
| release: "se_closing s \<Longrightarrow> session_step s (s\<lparr>se_cancelled := True, se_closing := False\<rparr>)"

inductive_cases record_stepE: "record_step s s'"
inductive_cases listen_stepE: "listen_step s s'"
inductive_cases block_stepE: "block_step s s'"
inductive_cases session_stepE: "session_step s s'"

abbreviation session_steps :: "session \<Rightarrow> session \<Rightarrow> bool" where
  "session_steps \<equiv> session_step\<^sup>*\<^sup>*"

section \<open>What every interleaving keeps\<close>

lemma signal_exit_range [simp]: "signal_exit sg \<noteq> 0" "signal_exit sg = 130 \<or> signal_exit sg = 143"
  by (auto simp: signal_exit_def exitInterrupted_def exitTerminated_def split: if_splits)

text \<open>The drain is the part of the listener \<open>Block\<close> waits for.\<close>

fun draining :: "listener \<Rightarrow> bool" where
  "draining (LRecord sg d) = d"
| "draining (LSwap sg d) = d"
| "draining (LCancel d) = d"
| "draining LSelect = False"
| "draining LEnd = False"
| "draining l = True"

fun swapping :: "listener \<Rightarrow> bool" where
  "swapping (LSwap sg d) = True"
| "swapping l = False"

fun cancelling :: "listener \<Rightarrow> bool" where
  "cancelling (LCancel d) = True"
| "cancelling l = False"

lemma back_simps [simp]: "draining (resume d) = d" "\<not> swapping (resume d)" "\<not> cancelling (resume d)" "resume d \<noteq> LStore" "resume d \<noteq> LEnd" "resume d \<noteq> LAck"
  by (simp_all add: resume_def)

definition session_ok :: "session \<Rightarrow> bool" where
  "session_ok s \<longleftrightarrow> se_code s \<in> {0, 130, 143} \<and> length (se_chan s) \<le> channel_capacity \<and>
     (se_blocker s = BLate \<longrightarrow> se_done s) \<and> (se_closing s \<longrightarrow> se_done s) \<and> (se_listener s = LEnd \<longrightarrow> se_done s) \<and>
     (se_blocker s = BWait \<longleftrightarrow> draining (se_listener s)) \<and>
     (se_cancelled s \<longrightarrow> se_code s \<noteq> 0 \<or> se_done s) \<and>
     (se_code s \<noteq> 0 \<longrightarrow> se_cancelled s \<or> cancelling (se_listener s)) \<and>
     (cancelling (se_listener s) \<longrightarrow> se_code s \<noteq> 0) \<and>
     (se_listener s = LAck \<longrightarrow> se_blocked s) \<and>
     (se_blocked s \<longrightarrow> se_done s \<or> \<not> swapping (se_listener s))"

lemma record_step_ok: "record_step s s' \<Longrightarrow> session_ok s \<Longrightarrow> session_ok s'"
  by (erule record_stepE; simp add: session_ok_def; blast?)

lemma listen_step_ok: "listen_step s s' \<Longrightarrow> session_ok s \<Longrightarrow> session_ok s'"
  by (erule listen_stepE) (simp_all add: record_step_ok, auto simp: session_ok_def)

lemma block_step_ok: "block_step s s' \<Longrightarrow> session_ok s \<Longrightarrow> session_ok s'"
  by (erule block_stepE) (auto simp: session_ok_def)

lemma session_step_ok: "session_step s s' \<Longrightarrow> session_ok s \<Longrightarrow> session_ok s'"
  by (erule session_stepE) (simp_all add: listen_step_ok block_step_ok, auto simp: session_ok_def channel_capacity_def)

lemma session_steps_ok: "session_steps s s' \<Longrightarrow> session_ok s \<Longrightarrow> session_ok s'"
  by (induction rule: rtranclp_induct) (auto intro: session_step_ok)

lemma newSession_ok: "session_ok newSession"
  by (simp add: session_ok_def newSession_def)

definition frozen :: "session \<Rightarrow> bool" where
  "frozen s \<longleftrightarrow> se_blocked s \<and> \<not> swapping (se_listener s)"

lemma session_step_keeps:
  assumes "session_step s s'"
  shows "se_code s \<noteq> 0 \<Longrightarrow> se_code s' = se_code s" "frozen s \<Longrightarrow> se_code s' = se_code s \<and> frozen s'"
  using assms by (auto elim!: session_stepE block_stepE listen_stepE record_stepE simp: frozen_def)

lemma session_steps_keep:
  assumes "session_steps s s'"
  shows "(se_code s \<noteq> 0 \<longrightarrow> se_code s' = se_code s) \<and> (frozen s \<longrightarrow> se_code s' = se_code s \<and> frozen s')"
  using assms by (induction rule: rtranclp_induct) (use session_step_keeps in \<open>blast | metis\<close>)+

lemma session_steps_done: "session_steps s s' \<Longrightarrow> se_done s \<Longrightarrow> se_done s'"
  by (induction rule: rtranclp_induct) (auto elim!: session_stepE block_stepE listen_stepE record_stepE)

text \<open>A signal on its way: in the channel with the drain not yet over, or in the hands of \<open>record\<close> while signals count.\<close>

fun carrying :: "listener \<Rightarrow> bool" where
  "carrying (LRecord sg d) = True"
| "carrying (LSwap sg d) = True"
| "carrying l = False"

definition pending :: "session \<Rightarrow> bool" where
  "pending s \<longleftrightarrow> se_code s \<noteq> 0 \<or> \<not> se_blocked s \<and> (carrying (se_listener s) \<or> se_chan s \<noteq> [] \<and> se_listener s \<noteq> LStore)"

lemma pending_record: "record_step s s' \<Longrightarrow> session_ok s \<Longrightarrow> pending s \<Longrightarrow> pending s'"
  by (erule record_stepE) (auto simp: pending_def session_ok_def resume_def)

lemma pending_listen: "listen_step s s' \<Longrightarrow> session_ok s \<Longrightarrow> pending s \<Longrightarrow> \<not> se_done s' \<Longrightarrow> pending s'"
  by (erule listen_stepE) (simp_all add: pending_record, auto simp: pending_def session_ok_def)

lemma pending_block: "block_step s s' \<Longrightarrow> session_ok s \<Longrightarrow> pending s \<Longrightarrow> \<not> se_done s' \<Longrightarrow> pending s'"
  by (erule block_stepE) (simp_all add: pending_def session_ok_def)

lemma pending_step:
  assumes "session_step s s'" and "session_ok s" and "pending s" and "\<not> se_done s'"
  shows "pending s'"
  using assms(1)
proof (cases rule: session_step.cases)
  case listening
  then show ?thesis using pending_listen assms by blast
next
  case blocking
  then show ?thesis using pending_block assms by blast
qed (use assms in \<open>auto simp: pending_def\<close>)

lemma pending_steps: "session_steps s s' \<Longrightarrow> session_ok s \<Longrightarrow> pending s \<Longrightarrow> \<not> se_done s' \<Longrightarrow> pending s'"
proof (induction rule: rtranclp_induct)
  case (step s' s'')
  then show ?case using pending_step session_steps_ok session_steps_done r_into_rtranclp[of session_step s' s''] by blast
qed

text \<open>
  C21. The recorded status is stable. In every reachable state it is 0, 130 or 143; a cancelled context has a status or a
  closed session, and a status has a cancelled context or a listener on its way to cancel it. Once set, no later step changes
  it; and once the open session is blocked, no later step sets it.
\<close>

theorem session_status_is_stable:
  assumes "session_steps newSession s" and "session_steps s s'"
  shows "se_code s \<in> {0, 130, 143} \<and> (\<not> se_cancelled s \<or> interrupted s \<noteq> None \<or> se_done s) \<and>
    (interrupted s = None \<or> se_cancelled s \<or> (\<exists>d. se_listener s = LCancel d)) \<and>
    (interrupted s = None \<or> interrupted s' = interrupted s) \<and> (\<not> se_blocked s \<or> se_done s \<or> interrupted s' = interrupted s)"
proof -
  have ok: "session_ok s" using session_steps_ok [OF assms(1) newSession_ok] .
  have keep: "(se_code s \<noteq> 0 \<longrightarrow> se_code s' = se_code s) \<and> (frozen s \<longrightarrow> se_code s' = se_code s \<and> frozen s')"
    using session_steps_keep [OF assms(2)] .
  have "cancelling (se_listener s) \<longleftrightarrow> (\<exists>d. se_listener s = LCancel d)" by (cases "se_listener s") auto
  then show ?thesis using ok keep by (auto simp: session_ok_def interrupted_def frozen_def)
qed

text \<open>A run interrupted by INT, up to the point where the status is set and the context not yet cancelled.\<close>

definition demo_interrupted :: session where
  "demo_interrupted = newSession\<lparr>se_code := 130, se_listener := LCancel False\<rparr>"

lemma record_steps: "record_step s s' \<Longrightarrow> session_step s s'"
  by (simp add: listening recording)

lemma demo_interrupted_reached: "session_steps newSession demo_interrupted"
proof -
  let ?s1 = "newSession\<lparr>se_chan := [SIGINT]\<rparr>" and ?s2 = "newSession\<lparr>se_listener := LRecord SIGINT False\<rparr>"
    and ?s3 = "newSession\<lparr>se_listener := LSwap SIGINT False\<rparr>"
  have "session_step newSession ?s1"
    using deliver [of newSession SIGINT] by (simp add: newSession_def channel_capacity_def)
  moreover have "session_step ?s1 ?s2"
    using listening [OF receive [of ?s1 SIGINT "[]"]] by (simp add: newSession_def)
  moreover have "session_step ?s2 ?s3"
    using record_steps [OF test [of ?s2 SIGINT False]] by (simp add: newSession_def)
  moreover have "session_step ?s3 demo_interrupted"
    using record_steps [OF swap [of ?s3 SIGINT False]]
    by (simp add: newSession_def demo_interrupted_def signal_exit_def exitInterrupted_def)
  ultimately show ?thesis by (meson converse_rtranclp_into_rtranclp rtranclp.rtrancl_refl)
qed

theorem session_status_is_stable_witness:
  "interrupted (demo_interrupted\<lparr>se_chan := [SIGTERM]\<rparr>) = Some 130 \<and> \<not> se_cancelled demo_interrupted"
proof -
  have "session_steps demo_interrupted (demo_interrupted\<lparr>se_chan := [SIGTERM]\<rparr>)"
    using deliver [of demo_interrupted SIGTERM]
    by (simp add: demo_interrupted_def newSession_def channel_capacity_def r_into_rtranclp)
  from session_status_is_stable [OF demo_interrupted_reached this] show ?thesis
    by (simp add: interrupted_def demo_interrupted_def newSession_def)
qed

section \<open>A requested block returns\<close>

text \<open>The steps of the two goroutines themselves, without any signal, call or close.\<close>

definition own_step :: "session \<Rightarrow> session \<Rightarrow> bool" where
  "own_step s s' \<longleftrightarrow> listen_step s s' \<or> block_step s s'"

lemma own_steps: "own_step\<^sup>*\<^sup>* s s' \<Longrightarrow> session_steps s s'"
  by (induction rule: rtranclp_induct) (auto simp: own_step_def intro: listening blocking rtranclp.rtrancl_into_rtrancl)

lemma own_steps_open: "own_step\<^sup>*\<^sup>* s s' \<Longrightarrow> se_done s' = se_done s"
  by (induction rule: rtranclp_induct) (auto simp: own_step_def elim!: block_stepE listen_stepE record_stepE)

definition returned :: "session \<Rightarrow> bool" where
  "returned s \<longleftrightarrow> se_blocked s \<and> se_blocker s = BIdle"

lemma own_stepI: "listen_step s s' \<Longrightarrow> own_step s s'" "block_step s s' \<Longrightarrow> own_step s s'" "record_step s s' \<Longrightarrow> own_step s s'"
  by (auto simp: own_step_def intro: listen_step.intros)

definition reaches_return :: "session \<Rightarrow> bool" where
  "reaches_return s \<longleftrightarrow> (\<exists>s'. own_step\<^sup>*\<^sup>* s s' \<and> returned s')"

lemma reaches_step: "own_step s s' \<Longrightarrow> reaches_return s' \<Longrightarrow> reaches_return s"
  by (auto simp: reaches_return_def intro: converse_rtranclp_into_rtranclp)

lemma reaches_now: "se_blocked s \<Longrightarrow> se_blocker s = BIdle \<Longrightarrow> reaches_return s"
  by (auto simp: reaches_return_def returned_def)

lemma reaches_late: "se_blocker s = BLate \<Longrightarrow> reaches_return s"
  by (rule reaches_step [OF own_stepI(2) [OF late]]) (auto intro: reaches_now)

lemma reaches_ack: "se_listener s = LAck \<Longrightarrow> se_blocked s \<Longrightarrow> reaches_return s"
  by (rule reaches_step [OF own_stepI(1) [OF ack]]) (auto intro: reaches_now)

lemma reaches_store: "se_listener s = LStore \<Longrightarrow> reaches_return s"
  by (rule reaches_step [OF own_stepI(1) [OF store]]) (auto intro: reaches_ack)

text \<open>Whatever the listener does inside \<open>record\<close>, it comes back to its select with the channel as it was.\<close>

lemma reaches_record:
  assumes "\<And>s'. se_listener s' = resume d \<Longrightarrow> se_chan s' = se_chan s \<Longrightarrow> se_blocker s' = se_blocker s \<Longrightarrow> reaches_return s'"
  shows "se_listener s = LCancel d \<Longrightarrow> reaches_return s" "se_listener s = LSwap sg d \<Longrightarrow> reaches_return s"
    "se_listener s = LRecord sg d \<Longrightarrow> reaches_return s"
proof -
  have cancelled: "reaches_return s'" if "se_listener s' = LCancel d" "se_chan s' = se_chan s" "se_blocker s' = se_blocker s" for s'
    by (rule reaches_step [OF own_stepI(3) [OF cancel [OF that(1)]]]) (auto intro!: assms simp: that)
  have swapped: "reaches_return s'" if "se_listener s' = LSwap sg d" "se_chan s' = se_chan s" "se_blocker s' = se_blocker s" for s'
    by (rule reaches_step [OF own_stepI(3) [OF swap [OF that(1)]]]) (auto intro!: cancelled simp: that)
  show "se_listener s = LCancel d \<Longrightarrow> reaches_return s" "se_listener s = LSwap sg d \<Longrightarrow> reaches_return s"
    by (auto intro: cancelled swapped)
  show "reaches_return s" if "se_listener s = LRecord sg d"
  proof (cases "se_blocked s")
    case True
    show ?thesis by (rule reaches_step [OF own_stepI(3) [OF ignore [OF that True]]]) (auto intro!: assms)
  next
    case False
    show ?thesis by (rule reaches_step [OF own_stepI(3) [OF test [OF that False]]]) (auto intro!: swapped)
  qed
qed

lemma reaches_drain: "se_listener s = LDrain \<Longrightarrow> reaches_return s"
proof (induction "se_chan s" arbitrary: s)
  case Nil
  show ?case by (rule reaches_step [OF own_stepI(1) [OF drained]]) (use Nil in \<open>auto intro: reaches_store\<close>)
next
  case (Cons sg rest)
  show ?case
  proof (rule reaches_step [OF own_stepI(1) [OF drain]])
    show "reaches_return (s\<lparr>se_chan := rest, se_listener := LRecord sg True\<rparr>)"
      by (rule reaches_record(3) [where d = True and sg = sg]) (auto simp: resume_def intro: Cons.hyps)
  qed (use Cons in auto)
qed

lemma reaches_select:
  assumes "se_listener s = LSelect" and "se_blocker s = BOffer"
  shows "reaches_return s"
  by (rule reaches_step [OF own_stepI(1) [OF freeze]]) (use assms in \<open>auto intro: reaches_drain\<close>)

lemma reaches_recording:
  assumes "carrying (se_listener s) \<or> cancelling (se_listener s)" and "se_blocker s = BOffer \<or> draining (se_listener s)"
  shows "reaches_return s"
proof -
  have resumed: "reaches_return s'"
    if "se_listener s' = resume (draining (se_listener s))" "se_chan s' = se_chan s" "se_blocker s' = se_blocker s" for s'
    using that assms(2) by (cases "draining (se_listener s)") (auto simp: resume_def intro: reaches_drain reaches_select)
  show ?thesis
    using assms(1) by (cases "se_listener s") (use reaches_record [of "draining (se_listener s)" s] resumed in auto)
qed

lemma requested_block_returns:
  assumes ok: "session_ok s" and asked: "se_blocker s \<noteq> BIdle"
  shows "reaches_return s"
proof (cases "se_blocker s = BLate")
  case True
  then show ?thesis by (rule reaches_late)
next
  case False
  then have wait: "se_blocker s = BOffer \<or> draining (se_listener s)" using ok asked by (cases "se_blocker s") (auto simp: session_ok_def)
  show ?thesis
  proof (cases "se_listener s")
    case LSelect
    then show ?thesis using wait reaches_select by simp
  next
    case LEnd
    then have "se_done s" and "se_blocker s = BOffer" using ok wait by (auto simp: session_ok_def)
    then show ?thesis by - (rule reaches_step [OF own_stepI(2) [OF abandoned]], auto intro: reaches_late)
  next
    case LAck
    then show ?thesis using ok reaches_ack by (simp add: session_ok_def)
  next
    case LStore
    then show ?thesis by (rule reaches_store)
  next
    case LDrain
    then show ?thesis by (rule reaches_drain)
  qed (use reaches_recording wait in auto)
qed

text \<open>
  C22. No signal is lost at the point of no return. Take any reachable state with a signal in the channel while signals are
  not yet blocked and the drain is not over: every later state in which the session is blocked (and still open) reports an
  interruption. And from every reachable state in which a block is requested the steps of the two goroutines alone, whatever
  else is pending, can lead to its return, with the session blocked.
\<close>

theorem block_never_loses_a_signal:
  assumes "session_steps newSession s" and "se_chan s \<noteq> []" and "\<not> se_blocked s" and "se_listener s \<noteq> LStore"
  shows "(\<forall>s'. \<not> session_steps s s' \<or> \<not> se_blocked s' \<or> se_done s' \<or> interrupted s' \<noteq> None) \<and>
    (\<forall>s'. \<not> session_steps s s' \<or> se_blocker s' = BIdle \<or>
      (\<exists>s''. own_step\<^sup>*\<^sup>* s' s'' \<and> se_blocked s'' \<and> se_blocker s'' = BIdle))"
proof (intro conjI allI)
  fix s'
  have ok: "session_ok s" using session_steps_ok [OF assms(1) newSession_ok] .
  have "pending s" using assms by (simp add: pending_def)
  then show "\<not> session_steps s s' \<or> \<not> se_blocked s' \<or> se_done s' \<or> interrupted s' \<noteq> None"
    using pending_steps [of s s'] ok by (auto simp: pending_def interrupted_def)
  show "\<not> session_steps s s' \<or> se_blocker s' = BIdle \<or>
      (\<exists>s''. own_step\<^sup>*\<^sup>* s' s'' \<and> se_blocked s'' \<and> se_blocker s'' = BIdle)"
    using requested_block_returns [of s'] session_steps_ok [of s s'] ok by (auto simp: reaches_return_def returned_def)
qed

theorem block_never_loses_a_signal_witness:
  "\<exists>s. own_step\<^sup>*\<^sup>* (newSession\<lparr>se_chan := [SIGTERM], se_blocker := BOffer\<rparr>) s \<and> se_blocked s \<and> interrupted s \<noteq> None"
proof -
  let ?s = "newSession\<lparr>se_chan := [SIGTERM]\<rparr>" and ?t = "newSession\<lparr>se_chan := [SIGTERM], se_blocker := BOffer\<rparr>"
  have reach: "session_steps newSession ?s" and ask: "session_steps ?s ?t"
    using deliver [of newSession SIGTERM] request [of ?s] by (simp_all add: newSession_def channel_capacity_def r_into_rtranclp)
  note both = block_never_loses_a_signal [OF reach]
  obtain s where s: "own_step\<^sup>*\<^sup>* ?t s" "se_blocked s"
    using both ask by (force simp: newSession_def)
  have "\<not> se_done s" using own_steps_open [OF s(1)] by (simp add: newSession_def)
  moreover have "session_steps ?s s" using ask own_steps [OF s(1)] by (rule rtranclp_trans)
  ultimately show ?thesis using both s by (force simp: newSession_def)
qed

end
