(* ===== verification/Kit_Run.thy ===== *)
theory Kit_Run
  imports Registry
begin

text \<open>
  The run of a kit tool (\<open>core/kitmaint\<close>, \<open>core/kitwait\<close>, \<open>core/kitgate\<close>): a program that asks the world (git, gh, the
  gate, the merge gate, the operating system) and decides on the answers. A run is a function of the environment, which
  answers every question from the questions asked so far; what it leaves is the history of questions and answers. The
  text of the messages is left out; the typed state of a stop is kept.
\<close>

section \<open>Programs\<close>

datatype action =
    Git string "string list" \<comment> \<open>the directory and the arguments\<close>
  | Gh string "string list"
  | GhBounded string "string list" \<comment> \<open>gh under the bound of the closure-evidence step\<close>
  | GentleAI "string list"
  | Os string string \<comment> \<open>a question to the operating system about a path or a name\<close>
  | Bash string
  | Lock string int \<comment> \<open>the lock file and the seconds to wait\<close>
  | GateRun string string \<comment> \<open>the gate command and its worktree\<close>
  | MergeGate "string list"
  | RddStart "string list"
  | RddDrive "string list"
  | Sleep int
  | Print "string list" \<comment> \<open>lines of a child passed on\<close>

record reply =
  rp_out :: string
  rp_err :: string
  rp_rc :: int
  rp_signal :: bool \<comment> \<open>a signal arrived while the child ran\<close>

type_synonym history = "(action \<times> reply) list"

record kit_env =
  ke_reply :: "history \<Rightarrow> action \<Rightarrow> reply"
  ke_pending :: "history \<Rightarrow> bool" \<comment> \<open>whether a poll finds a signal\<close>
  ke_getenv :: "string \<Rightarrow> string"

record 's kit =
  kt_state :: 's
  kt_hist :: history

datatype 'a outcome = Value 'a | Stopped int string

type_synonym ('s, 'a) prog = "'s kit \<Rightarrow> 'a outcome \<times> 's kit"

definition return_k :: "'a \<Rightarrow> ('s, 'a) prog" where
  "return_k x k = (Value x, k)"

definition stop_k :: "int \<Rightarrow> string \<Rightarrow> ('s, 'a) prog" where
  "stop_k code state k = (Stopped code state, k)"

definition bind_k :: "('s, 'a) prog \<Rightarrow> ('a \<Rightarrow> ('s, 'b) prog) \<Rightarrow> ('s, 'b) prog" where
  "bind_k m f k = (case m k of (Value x, k') \<Rightarrow> f x k' | (Stopped code state, k') \<Rightarrow> (Stopped code state, k'))"

definition get_k :: "('s, 's) prog" where
  "get_k k = (Value (kt_state k), k)"

definition modify_k :: "('s \<Rightarrow> 's) \<Rightarrow> ('s, unit) prog" where
  "modify_k f k = (Value (), k\<lparr>kt_state := f (kt_state k)\<rparr>)"

definition ask :: "kit_env \<Rightarrow> action \<Rightarrow> ('s, reply) prog" where
  "ask e a k = (let r = ke_reply e (kt_hist k) a in (Value r, k\<lparr>kt_hist := kt_hist k @ [(a, r)]\<rparr>))"

text \<open>A poll ends a train that was interrupted; the other tools never poll, so nothing is pending for them.\<close>

definition poll :: "kit_env \<Rightarrow> ('s, unit) prog" where
  "poll e k = (if ke_pending e (kt_hist k) then (Stopped 29 ''train-error'', k) else (Value (), k))"

definition child :: "kit_env \<Rightarrow> action \<Rightarrow> ('s, reply) prog" where
  "child e a = bind_k (ask e a) (\<lambda>r. bind_k (poll e) (\<lambda>_. return_k r))"

abbreviation git :: "kit_env \<Rightarrow> string \<Rightarrow> string list \<Rightarrow> ('s, reply) prog" where
  "git e dir args \<equiv> child e (Git dir args)"

abbreviation gh :: "kit_env \<Rightarrow> string \<Rightarrow> string list \<Rightarrow> ('s, reply) prog" where
  "gh e dir args \<equiv> child e (Gh dir args)"

definition reply_ok :: "reply \<Rightarrow> bool" where
  "reply_ok r \<longleftrightarrow> rp_rc r = 0"

definition os_ok :: "kit_env \<Rightarrow> string \<Rightarrow> string \<Rightarrow> ('s, bool) prog" where
  "os_ok e what path = bind_k (ask e (Os what path)) (\<lambda>r. return_k (reply_ok r))"

section \<open>Numbers and text\<close>

definition all_digits :: "string \<Rightarrow> bool" where
  "all_digits s \<longleftrightarrow> trim ''0123456789'' s = []"

definition is_hex :: "string \<Rightarrow> bool" where
  "is_hex s \<longleftrightarrow> s \<noteq> [] \<and> trim ''0123456789abcdefABCDEF'' s = []"

text \<open>\<open>strconv.Atoi\<close>: an optional sign, digits, within 64 bits.\<close>

definition atoi :: "string \<Rightarrow> int option" where
  "atoi s =
     (let neg = has_prefix s ''-''; digits = (if neg \<or> has_prefix s ''+'' then tl s else s)
      in if digits = [] \<or> \<not> all_digits digits then None
         else case digits_val 10 0 digits of
                None \<Rightarrow> None
              | Some n \<Rightarrow> if neg then (if n \<le> 2 ^ 63 then Some (- int n) else None)
                          else if n < 2 ^ 63 then Some (int n) else None)"

text \<open>\<open>strings.TrimSpace\<close>: Unicode white space, by its encodings.\<close>

definition space_encodings :: "string list" where
  "space_encodings = map (\<lambda>c. [c]) spaceChars @ [[CHR 0xC2, CHR 0x85], [CHR 0xC2, CHR 0xA0], [CHR 0xE1, CHR 0x9A, CHR 0x80]] @
     map (\<lambda>c. [CHR 0xE2, CHR 0x80, c]) [CHR 0x80, CHR 0x81, CHR 0x82, CHR 0x83, CHR 0x84, CHR 0x85, CHR 0x86, CHR 0x87, CHR 0x88, CHR 0x89,
       CHR 0x8A, CHR 0xA8, CHR 0xA9, CHR 0xAF] @ [[CHR 0xE2, CHR 0x81, CHR 0x9F], [CHR 0xE3, CHR 0x80, CHR 0x80]]"

function drop_spaces :: "string list \<Rightarrow> string \<Rightarrow> string" where
  "drop_spaces encs s =
     (case find (\<lambda>enc. enc \<noteq> [] \<and> has_prefix s enc) encs of None \<Rightarrow> s | Some enc \<Rightarrow> drop_spaces encs (drop (length enc) s))"
  by pat_completeness auto
termination
proof (relation "measure (\<lambda>(encs, s). length s)", simp, unfold in_measure prod.case)
  fix encs s enc
  assume "find (\<lambda>enc. enc \<noteq> [] \<and> has_prefix s enc) encs = Some enc"
  then have "enc \<noteq> []" "has_prefix s enc"
    by (auto simp: find_Some_iff)
  then show "length (drop (length enc) s) < length s"
    by (cases s) (auto simp: has_prefix_def)
qed

declare drop_spaces.simps [simp del]

definition TrimSpace :: "string \<Rightarrow> string" where
  "TrimSpace s = rev (drop_spaces (map rev space_encodings) (rev (drop_spaces space_encodings s)))"

definition IntOr :: "string \<Rightarrow> int \<Rightarrow> int" where
  "IntOr v def = (if v = [] then def else case atoi (TrimSpace v) of None \<Rightarrow> 0 | Some n \<Rightarrow> n)"

definition chomp :: "string \<Rightarrow> string" where
  "chomp s = trim_right [newline_char] s"

definition str_contains :: "string \<Rightarrow> string \<Rightarrow> bool" where
  "str_contains s sub \<longleftrightarrow> list_ex (\<lambda>i. has_prefix (drop i s) sub) [0..<length s + 1]"

definition word_char :: "char \<Rightarrow> bool" where
  "word_char c \<longleftrightarrow> c \<in> set ''abcdefghijklmnopqrstuvwxyzABCDEFGHIJKLMNOPQRSTUVWXYZ0123456789_''"

definition failWord :: "string \<Rightarrow> bool" where
  \<comment> \<open>\<open>\bfail\b\<close>\<close>
  "failWord s \<longleftrightarrow> list_ex (\<lambda>i. has_prefix (drop i s) ''fail'' \<and> (i = 0 \<or> \<not> word_char (s ! (i - 1))) \<and>
     (i + 4 = length s \<or> \<not> word_char (s ! (i + 4)))) [0..<length s]"

section \<open>Retries and paths\<close>

primrec retry_loop :: "kit_env \<Rightarrow> ('s, reply) prog \<Rightarrow> nat \<Rightarrow> nat \<Rightarrow> string \<Rightarrow> ('s, reply) prog" where
  \<comment> \<open>the attempts left after this one, its number, and the output so far\<close>
  "retry_loop e f 0 n out = bind_k f (\<lambda>r. return_k (r\<lparr>rp_out := out @ rp_out r\<rparr>))"
| "retry_loop e f (Suc left) n out =
     bind_k f (\<lambda>r.
       if rp_rc r = 0 then return_k (r\<lparr>rp_out := out @ rp_out r\<rparr>)
       else bind_k (ask e (Sleep (IntOr (ke_getenv e ''KIT_RETRY_SLEEP'') 5 * int n)))
         (\<lambda>_. retry_loop e f left (n + 1) (out @ rp_out r)))"

definition Retry :: "kit_env \<Rightarrow> nat \<Rightarrow> ('s, reply) prog \<Rightarrow> ('s, reply) prog" where
  "Retry e tries f = retry_loop e f (tries - 1) 1 []"

definition kit_Abs :: "string \<Rightarrow> string \<Rightarrow> string" where
  "kit_Abs cwd p = (if has_prefix p ''/'' then p else cwd @ ''/'' @ p)"

definition Inside :: "string \<Rightarrow> string \<Rightarrow> bool" where
  "Inside p dir \<longleftrightarrow> has_prefix (p @ ''/'') (dir @ ''/'')"

definition StateDir :: "kit_env \<Rightarrow> string" where
  "StateDir e =
     (let base = ke_getenv e ''XDG_STATE_HOME''
      in (if base = [] then ke_getenv e ''HOME'' @ ''/.local/state'' else base) @ ''/research-sdd/pipeline'')"

text \<open>\<open>filepath.EvalSymlinks\<close> of the cleaned path is a question; its answer is the physical path.\<close>

definition ResolveDir :: "kit_env \<Rightarrow> string \<Rightarrow> string \<Rightarrow> ('s, string option) prog" where
  "ResolveDir e cwd p =
     bind_k (ask e (Os ''evalsymlinks'' (kit_Abs cwd p))) (\<lambda>r. return_k (if reply_ok r then Some (rp_out r) else None))"

definition last_slash :: "string \<Rightarrow> nat" where
  "last_slash p = length p - 1 - length (takeWhile (\<lambda>c. c \<noteq> CHR ''/'') (rev p))"

primrec phys_loop :: "kit_env \<Rightarrow> nat \<Rightarrow> string \<Rightarrow> string \<Rightarrow> ('s, string \<times> string) prog" where
  \<comment> \<open>the nearest existing ancestor and the rest; the path gets shorter at every step, so its length is fuel enough\<close>
  "phys_loop e 0 p rest = return_k (p, rest)"
| "phys_loop e (Suc n) p rest =
     bind_k (os_ok e ''isdir'' p) (\<lambda>dir.
       if dir \<or> p = ''/'' then return_k (p, rest)
       else
         let i = last_slash p; q = take i p
         in phys_loop e n (if q = [] then ''/'' else q) (''/'' @ drop (i + 1) p @ rest))"

definition PhysPath :: "kit_env \<Rightarrow> string \<Rightarrow> string \<Rightarrow> ('s, string option) prog" where
  "PhysPath e cwd p0 =
     (let p = kit_Abs cwd p0
      in bind_k (phys_loop e (length p + 1) p []) (\<lambda>(q, rest).
           bind_k (ask e (Os ''evalsymlinks'' q)) (\<lambda>r.
             return_k (if reply_ok r then Some (trim_suffix1 (rp_out r) (CHR ''/'') @ rest) else None))))"

primrec missing_deps :: "kit_env \<Rightarrow> string list \<Rightarrow> ('s, string list) prog" where
  "missing_deps e [] = return_k []"
| "missing_deps e (d # ds) =
     bind_k (os_ok e ''lookpath'' d) (\<lambda>found. bind_k (missing_deps e ds) (\<lambda>ms. return_k (if found then ms else d # ms)))"

section \<open>The gate\<close>

definition DefaultLockTimeout :: string where "DefaultLockTimeout = ''14400''"
definition maxLockSeconds :: int where "maxLockSeconds = 2 ^ 31 - 1"
definition DefaultCmd :: string where "DefaultCmd = ''bash research-sdd/toolbelt/tests/run-all.sh -j 4 --prove-teeth''"
definition SerialCmd :: string where "SerialCmd = ''bash research-sdd/toolbelt/tests/run-all.sh --prove-teeth''"

definition gExitPassed :: int where "gExitPassed = 0"
definition gExitUsage :: int where "gExitUsage = 2"
definition gExitDegraded :: int where "gExitDegraded = 3"
definition ExitGateFailed :: int where "ExitGateFailed = 16"
definition ExitLockTimeout :: int where "ExitLockTimeout = 22"

definition ValidLockTimeout :: "string \<Rightarrow> bool" where
  "ValidLockTimeout v \<longleftrightarrow> v \<noteq> [] \<and> all_digits v"

definition lockSeconds :: "string \<Rightarrow> bool \<Rightarrow> int" where
  "lockSeconds v overflowTriesOnce =
     (case atoi v of None \<Rightarrow> if overflowTriesOnce then 0 else maxLockSeconds | Some n \<Rightarrow> min n maxLockSeconds)"

record gate_opts =
  go_Cwd :: string
  go_Wt :: string
  go_Label :: string
  go_State :: string
  go_Cmd :: string
  go_Serial :: bool
  go_LockTimeout :: string
  go_OverflowTriesOnce :: bool
  go_Probe :: "string list" \<comment> \<open>what the caller's probe looks for on the path\<close>

record gate_result =
  gr_Code :: int
  gr_GateRC :: int
  gr_Interrupted :: bool

definition gate_code :: "int \<Rightarrow> gate_result" where
  "gate_code c = \<lparr>gr_Code = c, gr_GateRC = 0, gr_Interrupted = False\<rparr>"

text \<open>With the lock held: the log, the gate command and its verdict.\<close>

definition runLocked :: "kit_env \<Rightarrow> gate_opts \<Rightarrow> string \<Rightarrow> string \<Rightarrow> string \<Rightarrow> ('s, gate_result) prog" where
  "runLocked e o' cmd wt state =
     (let log = state @ ''/gate-'' @ go_Label o' @ ''.log''
      in bind_k (git e wt [''rev-parse'', ''--short'', ''HEAD'']) (\<lambda>_.
         bind_k (os_ok e ''write'' log) (\<lambda>written.
         if \<not> written then return_k (gate_code gExitUsage)
         else bind_k (os_ok e ''append'' log) (\<lambda>opened.
         if \<not> opened then return_k (gate_code gExitUsage)
         else bind_k (os_ok e ''lookpath'' ''bash'') (\<lambda>bash.
         if \<not> bash then return_k (gate_code gExitDegraded)
         else bind_k (ask e (GateRun cmd wt)) (\<lambda>r.
         if rp_signal r then return_k \<lparr>gr_Code = ExitGateFailed, gr_GateRC = rp_rc r, gr_Interrupted = True\<rparr>
         else if rp_rc r \<noteq> 0 then return_k \<lparr>gr_Code = ExitGateFailed, gr_GateRC = rp_rc r, gr_Interrupted = False\<rparr>
         else return_k (gate_code gExitPassed)))))))"

definition kitgate_Run :: "kit_env \<Rightarrow> gate_opts \<Rightarrow> ('s, gate_result) prog" where
  "kitgate_Run e o' =
     (let lockTimeout = (if go_LockTimeout o' = [] then DefaultLockTimeout else go_LockTimeout o');
          cmd = (if go_Cmd o' \<noteq> [] then go_Cmd o' else if go_Serial o' then SerialCmd else DefaultCmd)
      in if \<not> ValidLockTimeout lockTimeout then return_k (gate_code gExitUsage)
         else bind_k (os_ok e ''isdir'' (kit_Abs (go_Cwd o') (go_Wt o'))) (\<lambda>dir.
         if \<not> dir then return_k (gate_code gExitUsage)
         else bind_k (missing_deps e (go_Probe o')) (\<lambda>missing.
         if missing \<noteq> [] then return_k (gate_code gExitDegraded)
         else bind_k (ResolveDir e (go_Cwd o') (go_Wt o')) (\<lambda>phys. case phys of None \<Rightarrow> return_k (gate_code gExitUsage) | Some wt \<Rightarrow>
         bind_k (PhysPath e (go_Cwd o') (go_State o')) (\<lambda>sp. case sp of None \<Rightarrow> return_k (gate_code gExitUsage) | Some state \<Rightarrow>
         if Inside state wt then return_k (gate_code gExitUsage)
         else bind_k (os_ok e ''mkdir'' state) (\<lambda>made.
         if \<not> made then return_k (gate_code gExitUsage)
         else bind_k (os_ok e ''openlock'' (state @ ''/gate.lock'')) (\<lambda>opened.
         if \<not> opened then return_k (gate_code gExitUsage)
         else bind_k (ask e (Lock (state @ ''/gate.lock'') (lockSeconds lockTimeout (go_OverflowTriesOnce o')))) (\<lambda>l.
         if \<not> reply_ok l then return_k (gate_code ExitLockTimeout)
         else runLocked e o' cmd wt state))))))))"

section \<open>Waiting for CI and merging\<close>

definition wExitMerged :: int where "wExitMerged = 0"
definition wExitDegraded :: int where "wExitDegraded = 3"
definition ExitCIFailed :: int where "ExitCIFailed = 17"
definition ExitMergeDegraded :: int where "ExitMergeDegraded = 18"
definition ExitNotMerged :: int where "ExitNotMerged = 19"
definition ExitMergedOutOfBand :: int where "ExitMergedOutOfBand = 33"

definition defPollMax :: int where "defPollMax = 120"
definition defPollSleep :: int where "defPollSleep = 60"
definition defTries :: int where "defTries = 3"
definition defMergeWait :: int where "defMergeWait = 30"
definition ghTries :: nat where "ghTries = 3"

record wait_opts =
  wo_Wt :: string
  wo_PR :: string
  wo_Base :: string
  wo_ExpectHead :: string

primrec ci_loop :: "kit_env \<Rightarrow> wait_opts \<Rightarrow> nat \<Rightarrow> ('s, int) prog" where
  "ci_loop e o' 0 = return_k 0"
| "ci_loop e o' (Suc n) =
     bind_k (gh e (wo_Wt o') [''pr'', ''checks'', wo_PR o']) (\<lambda>c.
       if rp_rc c = 0 then return_k 0
       else if failWord (rp_out c @ rp_err c) then return_k ExitCIFailed
       else bind_k (ask e (Sleep (IntOr (ke_getenv e ''KIT_POLL_SLEEP'') defPollSleep))) (\<lambda>_. ci_loop e o' n))"

definition waitCI :: "kit_env \<Rightarrow> wait_opts \<Rightarrow> ('s, int) prog" where
  "waitCI e o' = ci_loop e o' (nat (IntOr (ke_getenv e ''KIT_POLL_MAX'') defPollMax))"

definition view :: "kit_env \<Rightarrow> wait_opts \<Rightarrow> string \<Rightarrow> string \<Rightarrow> ('s, string) prog" where
  "view e o' flds expr =
     bind_k (Retry e ghTries (gh e (wo_Wt o') [''pr'', ''view'', wo_PR o', ''--json'', flds, ''-q'', expr])) (\<lambda>r.
       return_k (chomp (rp_out r)))"

definition confirmMerged :: "kit_env \<Rightarrow> wait_opts \<Rightarrow> ('s, int) prog" where
  "confirmMerged e o' =
     (if wo_ExpectHead o' = [] then return_k wExitMerged
      else bind_k (view e o' ''headRefOid,mergeCommit'' ''.headRefOid + \" \" + (.mergeCommit.oid // \"\")'') (\<lambda>info.
        if info = [] then return_k ExitMergeDegraded
        else if takeWhile (\<lambda>c. c \<noteq> CHR '' '') info \<noteq> wo_ExpectHead o' then return_k ExitMergedOutOfBand
        else return_k wExitMerged))"

definition merge_final :: "string \<Rightarrow> int" where
  "merge_final last' = (if last' = ''degraded'' then ExitMergeDegraded else ExitNotMerged)"

primrec merge_loop :: "kit_env \<Rightarrow> wait_opts \<Rightarrow> nat \<Rightarrow> string \<Rightarrow> ('s, int) prog" where
  "merge_loop e o' 0 last' = return_k (merge_final last')"
| "merge_loop e o' (Suc n) last' =
     bind_k (child e (MergeGate [''--cwd'', wo_Wt o', ''--base-ref'', wo_Base o', ''--merge'', wo_PR o'])) (\<lambda>m.
     bind_k (view e o' ''state'' ''.state'') (\<lambda>state.
       if state = ''MERGED'' then confirmMerged e o'
       else
         let now = (if rp_rc m = wExitDegraded then ''degraded''
                    else if rp_rc m = 0 \<or> str_contains (chomp (rp_out m)) ''refuse: ci_pending'' then ''pending''
                    else ''refused'')
         in if now = ''refused'' then return_k (merge_final now)
            else bind_k (ask e (Sleep (IntOr (ke_getenv e ''KIT_MERGE_SLEEP'') defMergeWait))) (\<lambda>_. merge_loop e o' n now)))"

definition mergeLoop :: "kit_env \<Rightarrow> wait_opts \<Rightarrow> ('s, int) prog" where
  "mergeLoop e o' = merge_loop e o' (nat (IntOr (ke_getenv e ''KIT_MERGE_TRIES'') defTries)) []"

definition kitwait_Run :: "kit_env \<Rightarrow> wait_opts \<Rightarrow> ('s, int) prog" where
  "kitwait_Run e o' = bind_k (waitCI e o') (\<lambda>code. if code \<noteq> 0 then return_k code else mergeLoop e o')"

definition Knobs :: "string list" where
  "Knobs = [''KIT_POLL_MAX'', ''KIT_POLL_SLEEP'', ''KIT_MERGE_TRIES'', ''KIT_MERGE_SLEEP'', ''KIT_RETRY_SLEEP'']"

definition BadKnob :: "kit_env \<Rightarrow> string" where
  "BadKnob e = (case find (\<lambda>k. ke_getenv e k \<noteq> [] \<and> \<not> all_digits (ke_getenv e k)) Knobs of None \<Rightarrow> [] | Some k \<Rightarrow> k)"

definition MergeGateMissing :: "kit_env \<Rightarrow> string \<Rightarrow> string \<Rightarrow> string \<Rightarrow> ('s, bool) prog" where
  \<comment> \<open>whether the merge gate is missing\<close>
  "MergeGateMissing e script self base =
     (if script \<noteq> [] then bind_k (os_ok e ''isfile'' (kit_Abs base script)) (\<lambda>ok. return_k (\<not> ok))
      else if self = [] then return_k True
      else bind_k (os_ok e ''isfile'' self) (\<lambda>ok. return_k (\<not> ok)))"

section \<open>Reasoning about runs\<close>

text \<open>
  The weakest precondition of a program, with one postcondition for a value and one for a stop. The equations push it
  through the combinators; \<open>wp_ask\<close> forgets which environment answered.
\<close>

definition wp :: "('s, 'a) prog \<Rightarrow> ('a \<Rightarrow> 's kit \<Rightarrow> bool) \<Rightarrow> (int \<Rightarrow> string \<Rightarrow> 's kit \<Rightarrow> bool) \<Rightarrow> 's kit \<Rightarrow> bool" where
  "wp m Q E k = (case m k of (Value x, k') \<Rightarrow> Q x k' | (Stopped c s, k') \<Rightarrow> E c s k')"

definition noted :: "'s kit \<Rightarrow> history \<Rightarrow> 's kit" where
  "noted k h = k\<lparr>kt_hist := kt_hist k @ h\<rparr>"

lemma kt_hist_noted [simp]: "kt_hist (noted k h) = kt_hist k @ h"
  by (simp add: noted_def)

lemma kt_state_noted [simp]: "kt_state (noted k h) = kt_state k"
  by (simp add: noted_def)

lemma noted_noted [simp]: "noted (noted k h) h' = noted k (h @ h')"
  by (simp add: noted_def)

lemma noted_Nil [simp]: "noted k [] = k"
  by (simp add: noted_def)

lemma wp_return [simp]: "wp (return_k x) Q E k = Q x k"
  by (simp add: wp_def return_k_def)

lemma wp_stop [simp]: "wp (stop_k c s) Q E k = E c s k"
  by (simp add: wp_def stop_k_def)

lemma wp_bind [simp]: "wp (bind_k m f) Q E k = wp m (\<lambda>x. wp (f x) Q E) E k"
  by (simp add: wp_def bind_k_def split: prod.splits outcome.splits)

lemma wp_get [simp]: "wp get_k Q E k = Q (kt_state k) k"
  by (simp add: wp_def get_k_def)

lemma wp_modify [simp]: "wp (modify_k f) Q E k = Q () (k\<lparr>kt_state := f (kt_state k)\<rparr>)"
  by (simp add: wp_def modify_k_def)

lemma wp_poll [simp]: "wp (poll e) Q E k = (if ke_pending e (kt_hist k) then E 29 ''train-error'' k else Q () k)"
  by (simp add: wp_def poll_def)

lemma wp_if [simp]: "wp (if b then m else n) Q E k = (if b then wp m Q E k else wp n Q E k)"
  by simp

lemma wp_ask: "(\<And>r. Q r (noted k [(a, r)])) \<Longrightarrow> wp (ask e a) Q E k"
  by (simp add: wp_def ask_def noted_def Let_def)

lemma wp_branch: "(b \<Longrightarrow> wp m Q E k) \<Longrightarrow> (\<not> b \<Longrightarrow> wp n Q E k) \<Longrightarrow> wp (if b then m else n) Q E k"
  by simp

lemma wp_guard: "(b \<Longrightarrow> Q x k) \<Longrightarrow> (\<not> b \<Longrightarrow> wp n Q E k) \<Longrightarrow> wp (if b then return_k x else n) Q E k"
  by simp

lemma wp_option: "(v = None \<Longrightarrow> wp m Q E k) \<Longrightarrow> (\<And>x. v = Some x \<Longrightarrow> wp (f x) Q E k) \<Longrightarrow>
    wp (case v of None \<Rightarrow> m | Some x \<Rightarrow> f x) Q E k"
  by (simp split: option.split)

lemma wp_seq: "wp m (\<lambda>x. wp (f x) Q E) E k \<Longrightarrow> wp (bind_k m f) Q E k"
  by simp

lemma wp_mono: "wp m Q E k \<Longrightarrow> (\<And>x k'. Q x k' \<Longrightarrow> Q' x k') \<Longrightarrow> (\<And>c s k'. E c s k' \<Longrightarrow> E' c s k') \<Longrightarrow> wp m Q' E' k"
  by (auto simp: wp_def split: prod.splits outcome.splits)

lemma wp_value: "wp m Q E k \<Longrightarrow> m k = (Value x, k') \<Longrightarrow> Q x k'"
  by (simp add: wp_def)

lemma wp_stopped: "wp m Q E k \<Longrightarrow> m k = (Stopped c s, k') \<Longrightarrow> E c s k'"
  by (simp add: wp_def)

text \<open>What a run has asked, in order: \<open>in_order ps h\<close> finds the steps \<open>ps\<close> as a subsequence of the history.\<close>

fun in_order :: "(action \<Rightarrow> reply \<Rightarrow> bool) list \<Rightarrow> history \<Rightarrow> bool" where
  "in_order [] h = True"
| "in_order (p # ps) [] = False"
| "in_order (p # ps) ((a, r) # h) = (p a r \<and> in_order ps h \<or> in_order (p # ps) h)"

lemma in_order_skip: "in_order ps h \<Longrightarrow> in_order ps (x # h)"
  by (cases ps; cases x) auto

lemma in_order_append1: "in_order ps h \<Longrightarrow> in_order ps (h @ h')"
  by (induction ps h rule: in_order.induct) auto

lemma in_order_append2: "in_order ps h' \<Longrightarrow> in_order ps (h @ h')"
  by (induction h) (auto intro: in_order_skip)

lemma in_order_tl: "in_order (p # ps) h \<Longrightarrow> in_order ps h"
proof (induction h)
  case (Cons x h)
  then show ?case by (cases x) (auto intro: in_order_skip)
qed simp

lemma in_order_append: "in_order ps h \<Longrightarrow> in_order qs h' \<Longrightarrow> in_order (ps @ qs) (h @ h')"
proof (induction ps h rule: in_order.induct)
  case (1 h)
  then show ?case by (simp add: in_order_append2)
qed auto

lemma in_order_snoc: "in_order ps h \<Longrightarrow> p a r \<Longrightarrow> in_order (ps @ [p]) (h @ [(a, r)])"
  by (rule in_order_append) simp_all

text \<open>A run whose questions all satisfy \<open>A\<close>, whatever its outcome.\<close>

definition only :: "(action \<Rightarrow> bool) \<Rightarrow> history \<Rightarrow> bool" where
  "only A h \<longleftrightarrow> list_all (\<lambda>x. A (fst x)) h"

lemma only_simps [simp]: "only A []" "only A (x # h) = (A (fst x) \<and> only A h)" "only A (h @ h') = (only A h \<and> only A h')"
  by (simp_all add: only_def)

lemma only_mono: "only A h \<Longrightarrow> (\<And>a. A a \<Longrightarrow> B a) \<Longrightarrow> only B h"
  by (simp add: only_def list_all_iff)

definition asks :: "(action \<Rightarrow> bool) \<Rightarrow> ('s, 'a) prog \<Rightarrow> bool" where
  "asks A m \<longleftrightarrow> (\<forall>k. \<exists>h. kt_hist (snd (m k)) = kt_hist k @ h \<and> only A h)"

named_theorems asks

lemma asks_return [asks]: "asks A (return_k x)"
  by (auto simp: asks_def return_k_def)

lemma asks_stop [asks]: "asks A (stop_k c s)"
  by (auto simp: asks_def stop_k_def)

lemma asks_get [asks]: "asks A get_k"
  by (auto simp: asks_def get_k_def)

lemma asks_modify [asks]: "asks A (modify_k f)"
  by (auto simp: asks_def modify_k_def)

lemma asks_poll [asks]: "asks A (poll e)"
  by (auto simp: asks_def poll_def)

lemma asks_ask [asks]: "A a \<Longrightarrow> asks A (ask e a)"
  by (auto simp: asks_def ask_def Let_def)

lemma asks_bind [asks]: "asks A m \<Longrightarrow> (\<And>x. asks A (f x)) \<Longrightarrow> asks A (bind_k m f)"
  unfolding asks_def bind_k_def
proof (intro allI)
  fix k
  assume m: "\<forall>k. \<exists>h. kt_hist (snd (m k)) = kt_hist k @ h \<and> only A h"
    and f: "\<And>x. \<forall>k. \<exists>h. kt_hist (snd (f x k)) = kt_hist k @ h \<and> only A h"
  obtain out k1 where mk: "m k = (out, k1)" by (cases "m k")
  obtain h1 where h1: "kt_hist k1 = kt_hist k @ h1" "only A h1"
    using m[rule_format, of k] mk by auto
  show "\<exists>h. kt_hist (snd (case m k of (Value x, k') \<Rightarrow> f x k' | (Stopped code state, k') \<Rightarrow> (Stopped code state, k'))) = kt_hist k @ h \<and>
      only A h"
  proof (cases out)
    case (Value x)
    obtain h2 where h2: "kt_hist (snd (f x k1)) = kt_hist k1 @ h2" "only A h2"
      using f[of x, rule_format, of k1] by auto
    show ?thesis
      using mk Value h1 h2 by (intro exI[where x = "h1 @ h2"]) auto
  qed (use mk h1 in auto)
qed

lemma asks_if [asks]: "(b \<Longrightarrow> asks A m) \<Longrightarrow> (\<not> b \<Longrightarrow> asks A n) \<Longrightarrow> asks A (if b then m else n)"
  by simp

lemma asks_option [asks]: "asks A m \<Longrightarrow> (\<And>x. asks A (f x)) \<Longrightarrow> asks A (case v of None \<Rightarrow> m | Some x \<Rightarrow> f x)"
  by (simp split: option.split)

lemma asks_pair [asks]: "(\<And>x y. asks A (f x y)) \<Longrightarrow> asks A (case v of (x, y) \<Rightarrow> f x y)"
  by (simp split: prod.split)

lemma asks_mono: "asks A m \<Longrightarrow> (\<And>a. A a \<Longrightarrow> B a) \<Longrightarrow> asks B m"
  unfolding asks_def using only_mono by blast

lemma asks_child [asks]: "A a \<Longrightarrow> asks A (child e a)"
  unfolding child_def by (intro asks)

lemma asks_os_ok [asks]: "A (Os what p) \<Longrightarrow> asks A (os_ok e what p)"
  unfolding os_ok_def by (intro asks)

lemma asks_wp:
  assumes "asks A m" "\<And>x h k'. kt_hist k' = kt_hist k @ h \<Longrightarrow> only A h \<Longrightarrow> Q x k'"
    "\<And>c s h k'. kt_hist k' = kt_hist k @ h \<Longrightarrow> only A h \<Longrightarrow> E c s k'"
  shows "wp m Q E k"
proof -
  obtain out k1 where mk: "m k = (out, k1)" by (cases "m k")
  obtain h1 where "kt_hist k1 = kt_hist k @ h1" "only A h1"
    using assms(1) mk unfolding asks_def by (metis snd_conv)
  then show ?thesis
    using assms(2,3) mk by (simp add: wp_def split: outcome.split)
qed

section \<open>What the shared steps do\<close>

definition joined :: "action \<Rightarrow> history \<Rightarrow> string" where
  "joined a h = concat (map (\<lambda>(b, r). if b = a then rp_out r else []) h)"

definition went_well :: "action \<Rightarrow> action \<Rightarrow> reply \<Rightarrow> bool" where
  "went_well a b r \<longleftrightarrow> b = a \<and> rp_rc r = 0"

fun is_sleep :: "action \<Rightarrow> bool" where
  "is_sleep (Sleep n) = True"
| "is_sleep a = False"

lemma joined_append [simp]: "joined a (h @ h') = joined a h @ joined a h'"
  by (simp add: joined_def)

lemma joined_Nil [simp]: "joined a [] = []"
  by (simp add: joined_def)

lemma joined_Cons [simp]: "joined a ((b, r) # h) = (if b = a then rp_out r else []) @ joined a h"
  by (simp add: joined_def)

lemma wp_child:
  assumes "\<And>r. ke_pending e (kt_hist k @ [(a, r)]) \<Longrightarrow> E 29 ''train-error'' (noted k [(a, r)])"
    "\<And>r. \<not> ke_pending e (kt_hist k @ [(a, r)]) \<Longrightarrow> Q r (noted k [(a, r)])"
  shows "wp (child e a) Q E k"
  unfolding child_def by (simp, rule wp_ask, simp add: assms)

lemma wp_os_ok: "(\<And>r. Q (reply_ok r) (noted k [(Os what p, r)])) \<Longrightarrow> wp (os_ok e what p) Q E k"
  unfolding os_ok_def by (simp, rule wp_ask, simp)

text \<open>A retried child: only the child and the pauses are in the history, its output is the output of every attempt, and
  a result of 0 is the reply of one of them.\<close>

definition attempts :: "action \<Rightarrow> history \<Rightarrow> bool" where
  "attempts a h \<longleftrightarrow> (\<forall>(b, r) \<in> set h. b = a \<or> is_sleep b)"

definition retried :: "action \<Rightarrow> nat \<Rightarrow> reply \<Rightarrow> history \<Rightarrow> bool" where
  "retried a n r h \<longleftrightarrow> attempts a h \<and> length (filter (\<lambda>(b, r). b = a) h) \<le> n \<and> rp_out r = joined a h \<and>
     (rp_rc r = 0 \<longrightarrow> in_order [went_well a] h)"

lemma wp_retry_loop:
  assumes "\<not> is_sleep a"
    "\<And>h r. attempts a h \<Longrightarrow> length (filter (\<lambda>(b, r). b = a) h) \<le> Suc left \<Longrightarrow> rp_out r = out @ joined a h \<Longrightarrow>
       (rp_rc r = 0 \<longrightarrow> in_order [went_well a] h) \<Longrightarrow> Q r (noted k h)"
    "\<And>h. attempts a h \<Longrightarrow> ke_pending e (kt_hist k @ h) \<Longrightarrow> E 29 ''train-error'' (noted k h)"
  shows "wp (retry_loop e (child e a) left n out) Q E k"
  using assms(2,3)
proof (induction left arbitrary: n out k)
  case 0
  show ?case
    unfolding retry_loop.simps wp_bind
    by (rule wp_child) (auto intro!: 0 simp: attempts_def went_well_def)
next
  case (Suc left)
  show ?case
    unfolding retry_loop.simps wp_bind
  proof (rule wp_child)
    fix r assume "\<not> ke_pending e (kt_hist k @ [(a, r)])"
    show "wp (if rp_rc r = 0 then return_k (r\<lparr>rp_out := out @ rp_out r\<rparr>)
        else bind_k (ask e (Sleep (IntOr (ke_getenv e ''KIT_RETRY_SLEEP'') 5 * int n)))
          (\<lambda>_. retry_loop e (child e a) left (n + 1) (out @ rp_out r))) Q E (noted k [(a, r)])"
    proof (cases "rp_rc r = 0")
      case True
      then show ?thesis
        by (simp) (rule Suc.prems(1); simp add: attempts_def went_well_def)
    next
      case False
      have "wp (retry_loop e (child e a) left (n + 1) (out @ rp_out r)) Q E (noted k [(a, r), (Sleep s, r')])" for s r'
      proof (rule Suc.IH)
        fix h and r'' :: reply
        assume h: "attempts a h" "length (filter (\<lambda>(b, r). b = a) h) \<le> Suc left" "rp_out r'' = (out @ rp_out r) @ joined a h"
          "rp_rc r'' = 0 \<longrightarrow> in_order [went_well a] h"
        have "Q r'' (noted k ([(a, r), (Sleep s, r')] @ h))"
          by (rule Suc.prems(1)) (use h assms(1) in \<open>auto simp: attempts_def intro: in_order_skip\<close>)
        then show "Q r'' (noted (noted k [(a, r), (Sleep s, r')]) h)" by simp
      next
        fix h assume h: "attempts a h" "ke_pending e (kt_hist (noted k [(a, r), (Sleep s, r')]) @ h)"
        have "E 29 ''train-error'' (noted k ([(a, r), (Sleep s, r')] @ h))"
          by (rule Suc.prems(2)) (use h in \<open>auto simp: attempts_def\<close>)
        then show "E 29 ''train-error'' (noted (noted k [(a, r), (Sleep s, r')]) h)" by simp
      qed
      then show ?thesis
        using False by (simp) (rule wp_ask, simp)
    qed
  qed (rule Suc.prems(2); simp add: attempts_def)
qed

lemma attempts_only: "attempts a h \<Longrightarrow> A a \<Longrightarrow> (\<And>n. A (Sleep n)) \<Longrightarrow> only A h"
  by (induction h) (auto simp: attempts_def elim!: is_sleep.elims(2))

lemma wp_Retry:
  assumes "\<not> is_sleep a" "0 < tries"
    "\<And>h r. retried a tries r h \<Longrightarrow> Q r (noted k h)"
    "\<And>h. attempts a h \<Longrightarrow> ke_pending e (kt_hist k @ h) \<Longrightarrow> E 29 ''train-error'' (noted k h)"
  shows "wp (Retry e tries (child e a)) Q E k"
  unfolding Retry_def
  by (rule wp_retry_loop) (use assms in \<open>auto simp: retried_def\<close>)

lemma asks_retry_loop [asks]:
  assumes "A a" "\<And>n. A (Sleep n)"
  shows "asks A (retry_loop e (child e a) left n out)"
  by (induction left arbitrary: n out) (auto intro!: asks assms)

lemma asks_Retry [asks]: "A a \<Longrightarrow> (\<And>n. A (Sleep n)) \<Longrightarrow> asks A (Retry e tries (child e a))"
  unfolding Retry_def by (rule asks_retry_loop)

lemma asks_phys_loop [asks]: "(\<And>w q. A (Os w q)) \<Longrightarrow> asks A (phys_loop e n p rest)"
  by (induction n arbitrary: p rest) (auto simp: Let_def intro!: asks)

lemma asks_PhysPath [asks]: "(\<And>w q. A (Os w q)) \<Longrightarrow> asks A (PhysPath e cwd p)"
  unfolding PhysPath_def Let_def by (intro asks)

lemma asks_ResolveDir [asks]: "(\<And>w q. A (Os w q)) \<Longrightarrow> asks A (ResolveDir e cwd p)"
  unfolding ResolveDir_def by (intro asks)

lemma asks_missing_deps [asks]: "(\<And>w q. A (Os w q)) \<Longrightarrow> asks A (missing_deps e ds)"
  by (induction ds) (auto intro!: asks)

lemma asks_MergeGateMissing [asks]: "(\<And>w q. A (Os w q)) \<Longrightarrow> asks A (MergeGateMissing e script self base)"
  unfolding MergeGateMissing_def by (auto intro!: asks)

lemma asks_view [asks]: "(\<And>d as. A (Gh d as)) \<Longrightarrow> (\<And>n. A (Sleep n)) \<Longrightarrow> asks A (view e o' flds expr)"
  unfolding view_def by (intro asks)

lemma asks_ci_loop [asks]: "(\<And>d as. A (Gh d as)) \<Longrightarrow> (\<And>n. A (Sleep n)) \<Longrightarrow> asks A (ci_loop e o' n)"
  by (induction n) (auto intro!: asks)

lemma asks_waitCI [asks]: "(\<And>d as. A (Gh d as)) \<Longrightarrow> (\<And>n. A (Sleep n)) \<Longrightarrow> asks A (waitCI e o')"
  unfolding waitCI_def by (intro asks)

section \<open>The lock, the gate and the merge loop\<close>

text \<open>Programs that only ask leave the state as it is.\<close>

definition still :: "('s, 'a) prog \<Rightarrow> bool" where
  "still m \<longleftrightarrow> (\<forall>k. kt_state (snd (m k)) = kt_state k)"

named_theorems still

lemma still_return [still]: "still (return_k x)"
  by (simp add: still_def return_k_def)

lemma still_stop [still]: "still (stop_k c s)"
  by (simp add: still_def stop_k_def)

lemma still_poll [still]: "still (poll e)"
  by (simp add: still_def poll_def)

lemma still_ask [still]: "still (ask e a)"
  by (simp add: still_def ask_def Let_def)

lemma still_bind [still]: "still m \<Longrightarrow> (\<And>x. still (f x)) \<Longrightarrow> still (bind_k m f)"
  unfolding still_def bind_k_def by (metis (mono_tags, lifting) case_prod_beta outcome.exhaust outcome.simps(5,6) snd_conv)

lemma still_if [still]: "(b \<Longrightarrow> still m) \<Longrightarrow> (\<not> b \<Longrightarrow> still n) \<Longrightarrow> still (if b then m else n)"
  by simp

lemma still_option [still]: "still m \<Longrightarrow> (\<And>x. still (f x)) \<Longrightarrow> still (case v of None \<Rightarrow> m | Some x \<Rightarrow> f x)"
  by (simp split: option.split)

lemma still_pair [still]: "(\<And>x y. still (f x y)) \<Longrightarrow> still (case v of (x, y) \<Rightarrow> f x y)"
  by (simp split: prod.split)

lemma still_child [still]: "still (child e a)"
  unfolding child_def by (intro still)

lemma still_os_ok [still]: "still (os_ok e w p)"
  unfolding os_ok_def by (intro still)

lemma still_retry_loop [still]: "still f \<Longrightarrow> still (retry_loop e f left n out)"
  by (induction left arbitrary: n out) (auto intro!: still)

lemma still_Retry [still]: "still f \<Longrightarrow> still (Retry e tries f)"
  unfolding Retry_def by (rule still_retry_loop)

lemma still_phys_loop [still]: "still (phys_loop e n p rest)"
  by (induction n arbitrary: p rest) (auto simp: Let_def intro!: still)

lemma still_PhysPath [still]: "still (PhysPath e cwd p)"
  unfolding PhysPath_def Let_def by (intro still)

lemma still_ResolveDir [still]: "still (ResolveDir e cwd p)"
  unfolding ResolveDir_def by (intro still)

lemma still_missing_deps [still]: "still (missing_deps e ds)"
  by (induction ds) (auto intro!: still)

lemma still_MergeGateMissing [still]: "still (MergeGateMissing e script self base)"
  unfolding MergeGateMissing_def by (auto intro!: still)

lemma still_view [still]: "still (view e o' flds expr)"
  unfolding view_def by (intro still)

lemma still_ci_loop [still]: "still (ci_loop e o' n)"
  by (induction n) (auto intro!: still)

lemma still_waitCI [still]: "still (waitCI e o')"
  unfolding waitCI_def by (intro still)

lemma wp_queries:
  assumes "asks A m" "still m" "\<And>x h. only A h \<Longrightarrow> Q x (noted k h)"
    "\<And>c s h. only A h \<Longrightarrow> E c s (noted k h)"
  shows "wp m Q E k"
proof -
  obtain out k1 where mk: "m k = (out, k1)" by (cases "m k")
  obtain h1 where h1: "kt_hist k1 = kt_hist k @ h1" "only A h1"
    using assms(1) mk unfolding asks_def by (metis snd_conv)
  have "kt_state k1 = kt_state k"
    using assms(2) mk unfolding still_def by (metis snd_conv)
  then have "k1 = noted k h1"
    using h1(1) by (simp add: noted_def)
  then show ?thesis
    using assms(3,4) mk h1(2) by (simp add: wp_def split: outcome.split)
qed

fun is_os :: "action \<Rightarrow> bool" where
  "is_os (Os w p) = True"
| "is_os a = False"

text \<open>Programs that only ask the operating system never stop.\<close>

lemma wp_physical:
  assumes "\<And>x h. only is_os h \<Longrightarrow> Q x (noted k h)"
  shows "wp (ResolveDir e cwd p) Q E k"
  unfolding ResolveDir_def by (simp, rule wp_ask, auto intro!: assms)

lemma wp_phys_loop:
  assumes "\<And>x h. only is_os h \<Longrightarrow> Q x (noted k h)"
  shows "wp (phys_loop e n p rest) Q E k"
  using assms
proof (induction n arbitrary: p rest k)
  case 0
  then show ?case using 0[of "[]"] by simp
next
  case (Suc n)
  show ?case
    unfolding phys_loop.simps wp_bind
  proof (rule wp_os_ok)
    fix r
    have base: "Q x (noted k ((Os ''isdir'' p, r) # h))" if "only is_os h" for x h
      using Suc.prems[of "(Os ''isdir'' p, r) # h"] that by simp
    have "wp (phys_loop e n q rest') Q E (noted k [(Os ''isdir'' p, r)])" for q rest'
      by (rule Suc.IH) (simp add: base)
    then show "wp (if reply_ok r \<or> p = ''/'' then return_k (p, rest)
        else let i = last_slash p; q = take i p in phys_loop e n (if q = [] then ''/'' else q) (''/'' @ drop (i + 1) p @ rest)) Q E
        (noted k [(Os ''isdir'' p, r)])"
      using base[where h = "[]"] by (simp add: Let_def)
  qed
qed

lemma wp_PhysPath:
  assumes "\<And>x h. only is_os h \<Longrightarrow> Q x (noted k h)"
  shows "wp (PhysPath e cwd p) Q E k"
  unfolding PhysPath_def Let_def wp_bind
  by (rule wp_phys_loop) (auto intro!: wp_ask assms split: prod.split)

lemma wp_missing_deps:
  assumes "\<And>x h. only is_os h \<Longrightarrow> Q x (noted k h)"
  shows "wp (missing_deps e ds) Q E k"
  using assms
proof (induction ds arbitrary: k Q)
  case Nil
  then show ?case using Nil[of "[]"] by simp
next
  case (Cons d ds)
  show ?case
    unfolding missing_deps.simps wp_bind
    by (rule wp_os_ok, rule Cons.IH) (auto intro!: Cons.prems)
qed

text \<open>Every question of a kind comes after the steps \<open>ps\<close>.\<close>

definition guarded :: "(action \<Rightarrow> bool) \<Rightarrow> (action \<Rightarrow> reply \<Rightarrow> bool) list \<Rightarrow> history \<Rightarrow> bool" where
  "guarded P ps h \<longleftrightarrow> (\<forall>i < length h. P (fst (h ! i)) \<longrightarrow> in_order ps (take i h))"

lemma guarded_none: "only (\<lambda>a. \<not> P a) h \<Longrightarrow> guarded P ps h"
  by (auto simp: guarded_def only_def list_all_length)

lemma guarded_append_none:
  assumes "guarded P ps h" "only (\<lambda>a. \<not> P a) h'"
  shows "guarded P ps (h @ h')"
  unfolding guarded_def
proof (intro allI impI)
  fix i assume i: "i < length (h @ h')" "P (fst ((h @ h') ! i))"
  show "in_order ps (take i (h @ h'))"
    using assms i by (cases "i < length h") (auto simp: guarded_def nth_append only_def list_all_length)
qed

lemma guarded_append_done:
  assumes "guarded P ps h" "in_order ps h"
  shows "guarded P ps (h @ h')"
  unfolding guarded_def
proof (intro allI impI)
  fix i assume i: "i < length (h @ h')" "P (fst ((h @ h') ! i))"
  show "in_order ps (take i (h @ h'))"
    using assms i by (cases "i < length h") (auto simp: guarded_def nth_append intro: in_order_append1)
qed

lemma guarded_snoc: "guarded P ps h \<Longrightarrow> (P a \<Longrightarrow> in_order ps h) \<Longrightarrow> guarded P ps (h @ [(a, r)])"
  by (cases "P a") (auto intro: guarded_append_done guarded_append_none)

fun gate_action :: "action \<Rightarrow> bool" where
  "gate_action (Os w p) = True"
| "gate_action (Git d as) = (as = [''rev-parse'', ''--short'', ''HEAD''])"
| "gate_action (Lock f n) = True"
| "gate_action (GateRun c w) = True"
| "gate_action a = False"

fun runs_gate :: "action \<Rightarrow> bool" where
  "runs_gate (GateRun c w) = True"
| "runs_gate a = False"

fun locked :: "action \<Rightarrow> reply \<Rightarrow> bool" where
  "locked (Lock f n) r = (rp_rc r = 0)"
| "locked a r = False"

fun gate_green :: "action \<Rightarrow> reply \<Rightarrow> bool" where
  "gate_green (GateRun c w) r = (rp_rc r = 0 \<and> \<not> rp_signal r)"
| "gate_green a r = False"

lemma is_os_gate_action: "only is_os h \<Longrightarrow> only gate_action h"
  by (erule only_mono) (auto elim: is_os.elims(2))

lemma is_os_no_gate: "only is_os h \<Longrightarrow> only (\<lambda>a. \<not> runs_gate a) h"
  by (erule only_mono) (auto elim: is_os.elims(2))

definition asked :: "(action \<Rightarrow> bool) \<Rightarrow> history \<Rightarrow> nat" where
  "asked P h = length (filter (\<lambda>x. P (fst x)) h)"

lemma asked_simps [simp]: "asked P [] = 0" "asked P (x # h) = (if P (fst x) then 1 else 0) + asked P h"
  "asked P (h @ h') = asked P h + asked P h'"
  by (simp_all add: asked_def)

lemma asked_none: "only (\<lambda>a. \<not> P a) h \<Longrightarrow> asked P h = 0"
  by (induction h) auto

text \<open>The gate with a label ran with a verdict: its log was written and opened and the command run, one after the other.\<close>

definition gate_verdict :: "string \<Rightarrow> bool \<Rightarrow> history \<Rightarrow> bool" where
  "gate_verdict l v h \<longleftrightarrow> (\<exists>st cmd wt h1 r1 r2 r3 r h2.
     h = h1 @ [(Os ''write'' (st @ ''/gate-'' @ l @ ''.log''), r1), (Os ''append'' (st @ ''/gate-'' @ l @ ''.log''), r2),
       (Os ''lookpath'' ''bash'', r3), (GateRun cmd wt, r)] @ h2 \<and> \<not> rp_signal r \<and> (rp_rc r = 0) = v)"

lemma gate_verdictI: "\<not> rp_signal r \<Longrightarrow> gate_verdict l (rp_rc r = 0) (h1 @ [(Os ''write'' (st @ ''/gate-'' @ l @ ''.log''), r1),
    (Os ''append'' (st @ ''/gate-'' @ l @ ''.log''), r2), (Os ''lookpath'' ''bash'', r3), (GateRun cmd wt, r)] @ h2)"
  unfolding gate_verdict_def by blast

lemma gate_verdict_append1: "gate_verdict l v h \<Longrightarrow> gate_verdict l v (h @ h')"
  unfolding gate_verdict_def by (metis append.assoc)

lemma gate_verdict_append2: "gate_verdict l v h \<Longrightarrow> gate_verdict l v (h' @ h)"
  unfolding gate_verdict_def by (metis append.assoc)

definition gate_facts :: "string \<Rightarrow> gate_result \<Rightarrow> history \<Rightarrow> bool" where
  "gate_facts l res h \<longleftrightarrow> only gate_action h \<and> guarded runs_gate [locked] h \<and> gr_Code res \<in> {0, 2, 3, 16, 22} \<and>
     (gr_Interrupted res \<longrightarrow> gr_Code res = 16) \<and> (gr_Code res = 0 \<longrightarrow> in_order [locked, gate_green] h) \<and>
     (gr_Code res \<in> {0, 16} \<longrightarrow> gr_Interrupted res \<or> gate_verdict l (gr_Code res = 0) h) \<and> asked runs_gate h \<le> 1"

lemma gate_code_sel [simp]: "gr_Code (gate_code c) = c" "gr_Interrupted (gate_code c) = False"
  by (simp_all add: gate_code_def)

lemma gate_facts_code: "only is_os h \<Longrightarrow> c \<in> {2, 3} \<Longrightarrow> gate_facts l (gate_code c) h"
  by (auto simp: gate_facts_def is_os_no_gate asked_none intro: guarded_none is_os_gate_action)

lemmas gate_consts = gExitPassed_def gExitUsage_def gExitDegraded_def ExitGateFailed_def ExitLockTimeout_def

text \<open>The verdict of a gate that was run with the lock held.\<close>

lemma gate_facts_ran:
  assumes h: "only gate_action h" "only (\<lambda>a. \<not> runs_gate a) h" "in_order [locked] h" and g: "gate_action g" "\<not> runs_gate g"
    and r: "gr_Code res = (if rp_rc r = 0 \<and> \<not> rp_signal r then 0 else 16)" "gr_Interrupted res = rp_signal r"
  shows "gate_facts l res (h @ [(g, r0)] @ [(Os ''write'' (st @ ''/gate-'' @ l @ ''.log''), r1)] @ [(Os ''append'' (st @ ''/gate-'' @ l @ ''.log''), r2)] @
       [(Os ''lookpath'' ''bash'', r3)] @ [(GateRun cmd wt, r)])" (is "gate_facts l res (h @ ?t)")
proof -
  have green: "in_order [locked, gate_green] (h @ ?t)" if "gr_Code res = 0"
    using in_order_append[OF h(3), of "[gate_green]" ?t] that r by (simp split: if_splits)
  have "gate_verdict l (rp_rc r = 0) ((h @ [(g, r0)]) @ tl ?t @ [])" if "\<not> rp_signal r"
    using gate_verdictI[OF that, of l "h @ [(g, r0)]" st r1 r2 r3 cmd wt "[]"] by simp
  then have verdict: "gate_verdict l (gr_Code res = 0) (h @ ?t)" if "\<not> rp_signal r"
    using that r(1) by (cases "rp_rc r = 0") simp_all
  show ?thesis
    using h g r green verdict asked_none[OF h(2)] guarded_append_done[OF guarded_none[OF h(2)] h(3), of ?t]
    by (auto simp: gate_facts_def)
qed

lemma runLocked_facts:
  assumes "only gate_action h" "only (\<lambda>a. \<not> runs_gate a) h" "in_order [locked] h"
    "\<And>res h'. gate_facts (go_Label o') res (h @ h') \<Longrightarrow> Q res (noted k (h @ h'))"
    "\<And>h'. only gate_action (h @ h') \<Longrightarrow> ke_pending e (kt_hist k @ h @ h') \<Longrightarrow> E 29 ''train-error'' (noted k (h @ h'))"
  shows "wp (runLocked e o' cmd wt state) Q E (noted k h)"
proof -
  have other: "gate_facts l (gate_code c) (h @ h')" if "only gate_action h'" "only (\<lambda>a. \<not> runs_gate a) h'" "c \<in> {2, 3}" for l c h'
    using that assms(1-3) by (auto simp: gate_facts_def asked_none intro: guarded_append_done guarded_none)
  show ?thesis
    unfolding runLocked_def Let_def
    apply (rule wp_seq, rule wp_child)
     apply (auto intro!: assms(5) simp: assms(1))[1]
    apply (rule wp_seq, rule wp_os_ok, rule wp_guard, simp only: noted_noted append_assoc, rule assms(4), rule other)
       apply (simp_all add: gate_consts(2,3))[3]
    apply (rule wp_seq, rule wp_os_ok, rule wp_guard, simp only: noted_noted append_assoc, rule assms(4), rule other)
       apply (simp_all add: gate_consts(2,3))[3]
    apply (rule wp_seq, rule wp_os_ok, rule wp_guard, simp only: noted_noted append_assoc, rule assms(4), rule other)
       apply (simp_all add: gate_consts(2,3))[3]
    apply (rule wp_seq, rule wp_ask)
    apply (intro wp_guard; simp only: wp_return noted_noted append_assoc)
      apply (rule assms(4), rule gate_facts_ran[OF assms(1-3)]; simp add: gate_consts)+
    done
qed

lemma wp_kitgate:
  assumes Q: "\<And>res h. gate_facts (go_Label o') res h \<Longrightarrow> Q res (noted k h)"
    and E: "\<And>h. only gate_action h \<Longrightarrow> ke_pending e (kt_hist k @ h) \<Longrightarrow> E 29 ''train-error'' (noted k h)"
  shows "wp (kitgate_Run e o') Q E k"
proof -
  have code: "Q (gate_code c) (noted k h)" if "only is_os h" "c \<in> {2, 3}" for c h
    by (rule Q, rule gate_facts_code) (use that in auto)
  have code0: "Q (gate_code 2) k"
    using code[of "[]" 2] by simp
  have lock: "wp (bind_k (ask e (Lock f n)) (\<lambda>l. if \<not> reply_ok l then return_k (gate_code ExitLockTimeout)
      else runLocked e o' cmd wt state)) Q E (noted k h)" if h: "only is_os h" for f n cmd wt state h
    unfolding wp_bind
  proof (rule wp_ask)
    fix l
    let ?h = "h @ [(Lock f n, l)]"
    have "wp (runLocked e o' cmd wt state) Q E (noted k ?h)" if "reply_ok l"
    proof (rule runLocked_facts)
      show "only gate_action ?h" "only (\<lambda>a. \<not> runs_gate a) ?h"
        using h by (auto intro: is_os_gate_action is_os_no_gate)
      show "in_order [locked] ?h"
        by (rule in_order_append2) (use that in \<open>simp add: reply_ok_def\<close>)
    qed (auto intro: Q E)
    moreover have "Q (gate_code 22) (noted k ?h)"
      by (rule Q) (use h in \<open>auto simp: gate_facts_def asked_none intro!: guarded_append_none[OF guarded_none] dest: is_os_gate_action is_os_no_gate\<close>)
    ultimately show "wp (if \<not> reply_ok l then return_k (gate_code ExitLockTimeout) else runLocked e o' cmd wt state) Q E
        (noted (noted k h) [(Lock f n, l)])"
      by (simp add: ExitLockTimeout_def)
  qed
  show ?thesis
    unfolding kitgate_Run_def Let_def gate_consts(1-3)
    apply (rule wp_guard, rule code0, rule wp_seq)
    apply (rule wp_os_ok, rule wp_guard, (rule code; simp), rule wp_seq)
    apply (rule wp_missing_deps, rule wp_guard, simp only: noted_noted, (rule code; simp), rule wp_seq)
    apply (rule wp_physical, rule wp_option, simp only: noted_noted wp_return, (rule code; simp), rule wp_seq)
    apply (rule wp_PhysPath, rule wp_option, simp only: noted_noted wp_return, (rule code; simp))
    apply (rule wp_guard, simp only: noted_noted, (rule code; simp), rule wp_seq)
    apply (rule wp_os_ok, rule wp_guard, simp only: noted_noted, (rule code; simp), rule wp_seq)
    apply (rule wp_os_ok, rule wp_guard, simp only: noted_noted, (rule code; simp))
    apply (simp only: noted_noted, rule lock, simp)
    done
qed

fun is_merge :: "action \<Rightarrow> bool" where
  "is_merge (MergeGate as) = True"
| "is_merge a = False"

fun wait_action :: "action \<Rightarrow> bool" where
  "wait_action (Gh d as) = True"
| "wait_action (MergeGate as) = True"
| "wait_action (Sleep n) = True"
| "wait_action a = False"

definition state_query :: "wait_opts \<Rightarrow> action" where
  "state_query o' = Gh (wo_Wt o') [''pr'', ''view'', wo_PR o', ''--json'', ''state'', ''-q'', ''.state'']"

definition head_query :: "wait_opts \<Rightarrow> action" where
  "head_query o' = Gh (wo_Wt o') [''pr'', ''view'', wo_PR o', ''--json'', ''headRefOid,mergeCommit'', ''-q'',
     ''.headRefOid + \" \" + (.mergeCommit.oid // \"\")'']"

text \<open>
  The history ends, after a merge request, with the reads of the state (its attempts and the pauses between them), which say
  MERGED, and then the reads of the head, which is the expected one where a head is expected. So the last state read is MERGED.
\<close>

definition confirmed :: "wait_opts \<Rightarrow> history \<Rightarrow> bool" where
  "confirmed o' h \<longleftrightarrow> (\<exists>h1 h2 h3. h = h1 @ h2 @ h3 \<and> h1 \<noteq> [] \<and> is_merge (fst (last h1)) \<and>
     attempts (state_query o') h2 \<and> chomp (joined (state_query o') h2) = ''MERGED'' \<and> attempts (head_query o') h3 \<and>
     (wo_ExpectHead o' = [] \<or> takeWhile (\<lambda>c. c \<noteq> CHR '' '') (chomp (joined (head_query o') h3)) = wo_ExpectHead o'))"

definition wait_tries :: "kit_env \<Rightarrow> nat" where
  "wait_tries e = nat (IntOr (ke_getenv e ''KIT_MERGE_TRIES'') defTries)"

definition wait_facts :: "kit_env \<Rightarrow> wait_opts \<Rightarrow> int \<Rightarrow> history \<Rightarrow> bool" where
  "wait_facts e o' c h \<longleftrightarrow> only wait_action h \<and> c \<in> {0, 17, 18, 19, 33} \<and> (c = 0 \<longrightarrow> confirmed o' h) \<and>
     (c = 17 \<longrightarrow> asked is_merge h = 0) \<and> (c = 33 \<longrightarrow> wo_ExpectHead o' \<noteq> []) \<and> asked is_merge h \<le> wait_tries e"

lemmas wait_consts = wExitMerged_def wExitDegraded_def ExitCIFailed_def ExitMergeDegraded_def ExitNotMerged_def
  ExitMergedOutOfBand_def

lemma confirmed_prefix: "confirmed o' h \<Longrightarrow> confirmed o' (h' @ h)"
  unfolding confirmed_def by (metis append.assoc append_is_Nil_conv last_appendR)

lemma attempts_wait: "attempts (Gh d as) h \<Longrightarrow> only wait_action h \<and> asked is_merge h = 0"
  by (induction h) (auto simp: attempts_def elim!: is_sleep.elims(2))

lemma wp_view:
  assumes "\<And>h out. only wait_action h \<Longrightarrow> asked is_merge h = 0 \<Longrightarrow>
      attempts (Gh (wo_Wt o') [''pr'', ''view'', wo_PR o', ''--json'', flds, ''-q'', expr]) h \<Longrightarrow>
      out = chomp (joined (Gh (wo_Wt o') [''pr'', ''view'', wo_PR o', ''--json'', flds, ''-q'', expr]) h) \<Longrightarrow> Q out (noted k h)"
    "\<And>h. only wait_action h \<Longrightarrow> ke_pending e (kt_hist k @ h) \<Longrightarrow> E 29 ''train-error'' (noted k h)"
  shows "wp (view e o' flds expr) Q E k"
  unfolding view_def
  apply (rule wp_seq, rule wp_Retry)
     apply (auto simp: ghTries_def retried_def dest: attempts_wait intro!: assms)
  done

lemma wp_ci_loop:
  assumes "\<And>h c. only wait_action h \<Longrightarrow> asked is_merge h = 0 \<Longrightarrow> c \<in> {0, 17} \<Longrightarrow> Q c (noted k h)"
    "\<And>h. only wait_action h \<Longrightarrow> ke_pending e (kt_hist k @ h) \<Longrightarrow> E 29 ''train-error'' (noted k h)"
  shows "wp (ci_loop e o' n) Q E k"
  using assms
proof (induction n arbitrary: k)
  case 0
  then show ?case using 0(1)[of "[]" 0] by simp
next
  case (Suc n)
  show ?case
    unfolding ci_loop.simps
  proof (rule wp_seq, rule wp_child)
    fix r
    let ?a = "Gh (wo_Wt o') [''pr'', ''checks'', wo_PR o']"
    show "E 29 ''train-error'' (noted k [(?a, r)])" if "ke_pending e (kt_hist k @ [(?a, r)])"
      by (rule Suc.prems) (use that in simp_all)
    have "wp (ci_loop e o' n) Q E (noted k [(?a, r), (Sleep s, r')])" for s r'
      by (rule Suc.IH) (simp_all add: Suc.prems )
    then show "wp (if rp_rc r = 0 then return_k 0 else if failWord (rp_out r @ rp_err r) then return_k ExitCIFailed
        else bind_k (ask e (Sleep (IntOr (ke_getenv e ''KIT_POLL_SLEEP'') defPollSleep))) (\<lambda>_. ci_loop e o' n))
        Q E (noted k [(?a, r)])"
      by (auto intro!: Suc.prems wp_ask simp: wait_consts)
  qed
qed

lemma wp_confirm:
  assumes "\<And>h c. only wait_action h \<Longrightarrow> asked is_merge h = 0 \<Longrightarrow> c \<in> {0, 18, 33} \<Longrightarrow> (c = 33 \<Longrightarrow> wo_ExpectHead o' \<noteq> []) \<Longrightarrow>
      attempts (head_query o') h \<Longrightarrow>
      (c = 0 \<Longrightarrow> wo_ExpectHead o' = [] \<or> takeWhile (\<lambda>c. c \<noteq> CHR '' '') (chomp (joined (head_query o') h)) = wo_ExpectHead o') \<Longrightarrow>
      Q c (noted k h)"
    "\<And>h. only wait_action h \<Longrightarrow> ke_pending e (kt_hist k @ h) \<Longrightarrow> E 29 ''train-error'' (noted k h)"
  shows "wp (confirmMerged e o') Q E k"
  unfolding confirmMerged_def wait_consts
  apply (rule wp_branch)
   apply (use assms(1)[of "[]" 0] in \<open>simp add: attempts_def\<close>)
  apply (rule wp_seq, rule wp_view)
   apply (auto intro!: assms simp: head_query_def)
  done

lemma wp_merge_loop:
  assumes "\<And>h c. only wait_action h \<Longrightarrow> asked is_merge h \<le> n \<Longrightarrow> c \<in> {0, 18, 19, 33} \<Longrightarrow> (c = 33 \<Longrightarrow> wo_ExpectHead o' \<noteq> []) \<Longrightarrow>
      (c = 0 \<Longrightarrow> confirmed o' h) \<Longrightarrow> Q c (noted k h)"
    "\<And>h. only wait_action h \<Longrightarrow> ke_pending e (kt_hist k @ h) \<Longrightarrow> E 29 ''train-error'' (noted k h)"
  shows "wp (merge_loop e o' n last') Q E k"
  using assms
proof (induction n arbitrary: k last')
  case 0
  have "merge_final last' \<in> {18, 19}" by (simp add: merge_final_def wait_consts)
  then have "Q (merge_final last') (noted k [])" by (intro 0(1)) auto
  then show ?case by simp
next
  case (Suc n)
  let ?a = "MergeGate [''--cwd'', wo_Wt o', ''--base-ref'', wo_Base o', ''--merge'', wo_PR o']"
  show ?case
    unfolding merge_loop.simps
  proof (rule wp_seq, rule wp_child)
    fix m
    show "E 29 ''train-error'' (noted k [(?a, m)])" if "ke_pending e (kt_hist k @ [(?a, m)])"
      by (rule Suc.prems) (use that in simp_all)
    show "wp (bind_k (view e o' ''state'' ''.state'') (\<lambda>state.
       if state = ''MERGED'' then confirmMerged e o'
       else let now = (if rp_rc m = wExitDegraded then ''degraded''
                    else if rp_rc m = 0 \<or> str_contains (chomp (rp_out m)) ''refuse: ci_pending'' then ''pending''
                    else ''refused'')
         in if now = ''refused'' then return_k (merge_final now)
            else bind_k (ask e (Sleep (IntOr (ke_getenv e ''KIT_MERGE_SLEEP'') defMergeWait))) (\<lambda>_. merge_loop e o' n now)))
       Q E (noted k [(?a, m)])" (is "wp (bind_k _ ?rest) Q E _")
    proof (rule wp_seq, rule wp_view)
      fix h state
      assume h: "only wait_action h" "asked is_merge h = 0"
        and reads: "attempts (Gh (wo_Wt o') [''pr'', ''view'', wo_PR o', ''--json'', ''state'', ''-q'', ''.state'']) h"
        and state: "state = chomp (joined (Gh (wo_Wt o') [''pr'', ''view'', wo_PR o', ''--json'', ''state'', ''-q'', ''.state'']) h)"
      have "wp (confirmMerged e o') Q E (noted k ((?a, m) # h))" if m: "state = ''MERGED''"
      proof (rule wp_confirm)
        fix h' and c :: int
        assume h': "only wait_action h'" "asked is_merge h' = 0" and c: "c \<in> {0, 18, 33}" "c = 33 \<Longrightarrow> wo_ExpectHead o' \<noteq> []"
          and heads: "attempts (head_query o') h'"
          and hd: "c = 0 \<Longrightarrow> wo_ExpectHead o' = [] \<or>
            takeWhile (\<lambda>c. c \<noteq> CHR '' '') (chomp (joined (head_query o') h')) = wo_ExpectHead o'"
        have "confirmed o' ([(?a, m)] @ h @ h')" if "c = 0"
          unfolding confirmed_def
          by (intro exI[of _ "[(?a, m)]"] exI[of _ h] exI[of _ h']) (use state m hd that reads heads in \<open>simp add: state_query_def\<close>)
        then have "Q c (noted k ([(?a, m)] @ h @ h'))"
          by (intro Suc.prems(1)) (use h h' c in \<open>auto\<close>)
        then show "Q c (noted (noted k ((?a, m) # h)) h')" by simp
      next
        fix h' assume "only wait_action h'" "ke_pending e (kt_hist (noted k ((?a, m) # h)) @ h')"
        then have "E 29 ''train-error'' (noted k ((?a, m) # h @ h'))"
          by (intro Suc.prems(2)) (use h in \<open>auto\<close>)
        then show "E 29 ''train-error'' (noted (noted k ((?a, m) # h)) h')" by simp
      qed
      moreover have "Q (merge_final now) (noted k ((?a, m) # h))" for now
        by (rule Suc.prems(1)) (use h in \<open>auto simp: merge_final_def wait_consts split: if_splits\<close>)
      moreover have "wp (merge_loop e o' n now) Q E (noted k ((?a, m) # h @ [(Sleep s, r)]))" for now s r
      proof (rule Suc.IH)
        fix h' and c :: int
        assume h': "only wait_action h'" "asked is_merge h' \<le> n" and c: "c \<in> {0, 18, 19, 33}" "c = 33 \<Longrightarrow> wo_ExpectHead o' \<noteq> []"
          and ok: "c = 0 \<Longrightarrow> confirmed o' h'"
        have "Q c (noted k (((?a, m) # h @ [(Sleep s, r)]) @ h'))"
          by (rule Suc.prems(1)) (use h h' c ok in \<open>auto intro!: confirmed_prefix[of _ h' "(?a, m) # h @ [(Sleep s, r)]", simplified]\<close>)
        then show "Q c (noted (noted k ((?a, m) # h @ [(Sleep s, r)])) h')" by simp
      next
        fix h' assume "only wait_action h'" "ke_pending e (kt_hist (noted k ((?a, m) # h @ [(Sleep s, r)])) @ h')"
        then have "E 29 ''train-error'' (noted k (((?a, m) # h @ [(Sleep s, r)]) @ h'))"
          by (intro Suc.prems(2)) (use h in \<open>auto\<close>)
        then show "E 29 ''train-error'' (noted (noted k ((?a, m) # h @ [(Sleep s, r)])) h')" by simp
      qed
      ultimately show "wp (?rest state) Q E (noted (noted k [(?a, m)]) h)"
        by (auto simp: Let_def intro!: wp_ask)
    next
      fix h assume "only wait_action h" "ke_pending e (kt_hist (noted k [(?a, m)]) @ h)"
      then have "E 29 ''train-error'' (noted k ((?a, m) # h))"
        by (intro Suc.prems(2)) auto
      then show "E 29 ''train-error'' (noted (noted k [(?a, m)]) h)" by simp
    qed
  qed
qed

lemma wp_kitwait:
  assumes "\<And>h c. wait_facts e o' c h \<Longrightarrow> Q c (noted k h)"
    "\<And>h. only wait_action h \<Longrightarrow> ke_pending e (kt_hist k @ h) \<Longrightarrow> E 29 ''train-error'' (noted k h)"
  shows "wp (kitwait_Run e o') Q E k"
  unfolding kitwait_Run_def waitCI_def
proof (rule wp_seq, rule wp_ci_loop)
  fix h and c :: int
  assume h: "only wait_action h" "asked is_merge h = 0" "c \<in> {0, 17}"
  have "wp (mergeLoop e o') Q E (noted k h)"
    unfolding mergeLoop_def
    by (rule wp_merge_loop) (use h assms in \<open>auto simp: wait_facts_def wait_tries_def intro!: assms(1) intro: confirmed_prefix\<close>)
  then show "wp (if c \<noteq> 0 then return_k c else mergeLoop e o') Q E (noted k h)"
    using h by (auto simp: wait_facts_def intro!: assms)
qed (rule assms)

text \<open>A history without a merge.\<close>

definition quiet :: "history \<Rightarrow> bool" where
  "quiet h \<longleftrightarrow> only (\<lambda>a. \<not> is_merge a) h"

lemma quiet_simps [simp]: "quiet []" "quiet (x # h) \<longleftrightarrow> \<not> is_merge (fst x) \<and> quiet h" "quiet (h @ h') \<longleftrightarrow> quiet h \<and> quiet h'"
  by (simp_all add: quiet_def)

lemma quiet_only: "only A h \<Longrightarrow> (\<And>a. A a \<Longrightarrow> \<not> is_merge a) \<Longrightarrow> quiet h"
  unfolding quiet_def by (rule only_mono)

lemma quiet_os: "only is_os h \<Longrightarrow> quiet h"
  by (erule quiet_only) (auto elim!: is_os.elims(2))

lemma quiet_gate: "only gate_action h \<Longrightarrow> quiet h"
  by (erule quiet_only) (auto elim!: gate_action.elims(2))

lemma quiet_asked: "quiet h \<Longrightarrow> asked is_merge h = 0"
  by (simp add: quiet_def asked_none)

text \<open>
  A concrete run is computed by the simplifier: the definitions of the combinators, a congruence that leaves the
  continuation of a bind alone until its argument is known, and the loops unfolded only when they are run.
\<close>

lemmas numeral_loops =
  retry_loop.simps(2)[of _ _ "pred_numeral v" for v, folded numeral_eq_Suc, THEN fun_cong]
  phys_loop.simps(2)[of _ "pred_numeral v" for v, folded numeral_eq_Suc, THEN fun_cong]
  ci_loop.simps(2)[of _ _ "pred_numeral v" for v, folded numeral_eq_Suc, THEN fun_cong]
  merge_loop.simps(2)[of _ _ "pred_numeral v" for v, folded numeral_eq_Suc, THEN fun_cong]

lemma bind_run_cong: "k = k' \<Longrightarrow> bind_k m f k = bind_k m f k'"
  by simp

definition plain_reply :: "string \<Rightarrow> int \<Rightarrow> reply" where
  "plain_reply out rc = \<lparr>rp_out = out, rp_err = [], rp_rc = rc, rp_signal = False\<rparr>"

lemmas run_defs = bind_k_def return_k_def stop_k_def ask_def child_def poll_def os_ok_def get_k_def modify_k_def reply_ok_def Retry_def
  IntOr_def ResolveDir_def kit_Abs_def Inside_def StateDir_def PhysPath_def BadKnob_def Knobs_def trim_suffix1_def has_prefix_def
  view_def confirmMerged_def MergeGateMissing_def chomp_def trim_right_def plain_reply_def Let_def

lemmas gate_run_defs = kitgate_Run_def runLocked_def ValidLockTimeout_def DefaultLockTimeout_def all_digits_def trim_def trim_left_def gate_consts

lemmas wait_run_defs = kitwait_Run_def waitCI_def mergeLoop_def wait_consts defPollMax_def defTries_def ghTries_def

section \<open>Invariants of a run\<close>

definition keeps :: "('s kit \<Rightarrow> bool) \<Rightarrow> ('s, 'a) prog \<Rightarrow> bool" where
  "keeps I m \<longleftrightarrow> (\<forall>k. I k \<longrightarrow> I (snd (m k)))"

named_theorems keeps

lemma keeps_return [keeps]: "keeps I (return_k x)"
  by (simp add: keeps_def return_k_def)

lemma keeps_stop [keeps]: "keeps I (stop_k c s)"
  by (simp add: keeps_def stop_k_def)

lemma keeps_get [keeps]: "keeps I get_k"
  by (simp add: keeps_def get_k_def)

lemma keeps_poll [keeps]: "keeps I (poll e)"
  by (simp add: keeps_def poll_def)

lemma keeps_bind [keeps]: "keeps I m \<Longrightarrow> (\<And>x. keeps I (f x)) \<Longrightarrow> keeps I (bind_k m f)"
  unfolding keeps_def bind_k_def by (auto split: prod.splits outcome.splits)

lemma keeps_if [keeps]: "(b \<Longrightarrow> keeps I m) \<Longrightarrow> (\<not> b \<Longrightarrow> keeps I n) \<Longrightarrow> keeps I (if b then m else n)"
  by simp

lemma keeps_option [keeps]: "keeps I m \<Longrightarrow> (\<And>x. keeps I (f x)) \<Longrightarrow> keeps I (case v of None \<Rightarrow> m | Some x \<Rightarrow> f x)"
  by (simp split: option.split)

lemma keeps_modify: "(\<And>k. I k \<Longrightarrow> I (k\<lparr>kt_state := f (kt_state k)\<rparr>)) \<Longrightarrow> keeps I (modify_k f)"
  by (simp add: keeps_def modify_k_def)

lemma keeps_wp_iff: "keeps I m \<longleftrightarrow> (\<forall>k. I k \<longrightarrow> wp m (\<lambda>x. I) (\<lambda>c s. I) k)"
proof -
  have "wp m (\<lambda>x. I) (\<lambda>c s. I) k \<longleftrightarrow> I (snd (m k))" for k
    by (simp add: wp_def split: prod.split outcome.split)
  then show ?thesis by (simp add: keeps_def)
qed

lemma keeps_wp: "keeps I m \<Longrightarrow> I k \<Longrightarrow> wp m (\<lambda>x. I) (\<lambda>c s. I) k"
  by (simp add: keeps_wp_iff)

lemma wp_keeps: "(\<And>k. I k \<Longrightarrow> wp m (\<lambda>x. I) (\<lambda>c s. I) k) \<Longrightarrow> keeps I m"
  by (simp add: keeps_wp_iff)

text \<open>
  An invariant that the questions of a kind \<open>A\<close> cannot break is kept by every program that only asks such questions and
  leaves the state alone; the programs shared by the tools are kept once and for all.
\<close>

locale run_invariant =
  fixes A :: "action \<Rightarrow> bool" and I :: "'s kit \<Rightarrow> bool"
  assumes step: "I k \<Longrightarrow> A a \<Longrightarrow> I (noted k [(a, r)])"
begin

lemma steps: "only A h \<Longrightarrow> I k \<Longrightarrow> I (noted k h)"
proof (induction h rule: rev_induct)
  case (snoc x h)
  then show ?case
    using step[of "noted k h" "fst x" "snd x"] by simp
qed simp

lemma ask: "A a \<Longrightarrow> keeps I (ask e a)"
  by (simp add: keeps_def ask_def Let_def) (metis noted_def step)

lemma child: "A a \<Longrightarrow> keeps I (child e a)"
  unfolding child_def by (intro keeps ask)

lemma os_ok: "A (Os w p) \<Longrightarrow> keeps I (os_ok e w p)"
  unfolding os_ok_def by (intro keeps ask)

lemma queries: "asks A m \<Longrightarrow> still m \<Longrightarrow> keeps I m"
  by (rule wp_keeps, rule wp_queries) (auto intro: steps)

lemma Retry: "A a \<Longrightarrow> (\<And>n. A (Sleep n)) \<Longrightarrow> keeps I (Retry e n (child e a))"
  by (intro queries asks still)

lemma gate:
  assumes "\<And>a. gate_action a \<Longrightarrow> A a"
  shows "keeps I (kitgate_Run e o')"
  by (rule wp_keeps, rule wp_kitgate) (auto simp: gate_facts_def intro!: steps elim!: only_mono intro: assms)

lemma wait:
  assumes "\<And>a. wait_action a \<Longrightarrow> A a"
  shows "keeps I (kitwait_Run e o')"
  by (rule wp_keeps, rule wp_kitwait) (auto simp: wait_facts_def intro!: steps elim!: only_mono intro: assms)

end

end
