(* ===== verification/Pr_Pipeline.thy ===== *)
theory Pr_Pipeline
  imports Kit_Run Go_Utf8
begin

text \<open>
  \<open>rsdd maint pr-pipeline\<close> (\<open>internal/maint/prpipeline\<close>): restack, push, size check, native review, one gate under the
  lock, CI wait and merge; \<open>rsdd maint gate\<close> and \<open>rsdd maint wait-merge\<close>, the same gate and wait as commands. Each step
  is a program over the world of \<open>Kit_Run\<close>; a step that ends the run stops with the typed state and its exit code. The
  lines the tools print are left out, except the review driver's lines that the pipeline passes on.
\<close>

section \<open>The command lines\<close>

record pr_opts =
  po_dryRun :: bool
  po_serial :: bool
  po_noGate :: bool
  po_consent :: string
  po_gateCmd :: string
  po_sizeCheck :: string
  po_state :: string
  po_base :: string
  po_remote :: string
  po_wt :: string
  po_pr :: string
  po_branch :: string

definition pr_defaults :: pr_opts where
  "pr_defaults = \<lparr>po_dryRun = False, po_serial = False, po_noGate = False, po_consent = [], po_gateCmd = [],
     po_sizeCheck = [], po_state = [], po_base = ''origin/main'', po_remote = ''origin'', po_wt = [], po_pr = [], po_branch = []\<rparr>"

text \<open>A command line is refused with a message, asks for help, or gives options and the words that are left.\<close>

datatype 'o parsed = Refused string | Help | Parsed 'o "string list"

text \<open>A flag with a value takes the next word, whatever it is.\<close>

definition flag_value :: "string \<Rightarrow> string list \<Rightarrow> (string \<Rightarrow> 'o) \<Rightarrow> ('o \<Rightarrow> string list \<Rightarrow> 'o parsed) \<Rightarrow> 'o parsed" where
  "flag_value flag rest set_value go = (case rest of [] \<Rightarrow> Refused (flag @ '' needs a value'') | v # rest' \<Rightarrow> go (set_value v) rest')"

lemma flag_value_cong [fundef_cong]:
  assumes "flag = flag'" "rest = rest'" "set_value = set_value'" "\<And>v ws. rest' = v # ws \<Longrightarrow> go (set_value' v) ws = go' (set_value' v) ws"
  shows "flag_value flag rest set_value go = flag_value flag' rest' set_value' go'"
  using assms by (simp add: flag_value_def split: list.split)

fun pr_flags :: "pr_opts \<Rightarrow> string list \<Rightarrow> pr_opts parsed" where
  "pr_flags o' [] = Parsed o' []"
| "pr_flags o' (a # rest) =
     (if a = ''--dry-run'' then pr_flags (o'\<lparr>po_dryRun := True\<rparr>) rest
      else if a = ''--consent'' then
        (case rest of [] \<Rightarrow> Refused ''--consent takes the single value: granted''
         | v # rest' \<Rightarrow> if v = ''granted'' then pr_flags (o'\<lparr>po_consent := ''granted''\<rparr>) rest'
                       else Refused ''--consent takes the single value: granted'')
      else if a = ''--serial'' then pr_flags (o'\<lparr>po_serial := True\<rparr>) rest
      else if a = ''--no-gate'' then pr_flags (o'\<lparr>po_noGate := True\<rparr>) rest
      else if a = ''--gate-cmd'' then flag_value a rest (\<lambda>v. o'\<lparr>po_gateCmd := v\<rparr>) pr_flags
      else if a = ''--size-check'' then flag_value a rest (\<lambda>v. o'\<lparr>po_sizeCheck := v\<rparr>) pr_flags
      else if a = ''--state-dir'' then flag_value a rest (\<lambda>v. o'\<lparr>po_state := v\<rparr>) pr_flags
      else if a = ''--base-ref'' then flag_value a rest (\<lambda>v. o'\<lparr>po_base := v\<rparr>) pr_flags
      else if a = ''--remote'' then flag_value a rest (\<lambda>v. o'\<lparr>po_remote := v\<rparr>) pr_flags
      else if a = ''-h'' \<or> a = ''--help'' then Help
      else if a = ''--'' then Parsed o' rest
      else if has_prefix a ''-'' then Refused (''unknown option '' @ a)
      else Parsed o' (a # rest))"

definition pr_usageLine :: string where
  "pr_usageLine = ''kit-pr-pipeline.sh [options] <worktree> <pr> <remote-branch>''"

definition pr_parse :: "string list \<Rightarrow> pr_opts parsed" where
  "pr_parse args =
     (case pr_flags pr_defaults args of
        Parsed o' [wt, pr, branch] \<Rightarrow>
          if po_serial o' \<and> po_gateCmd o' \<noteq> [] then Refused ''--serial cannot be combined with --gate-cmd''
          else if pr = [] \<or> \<not> all_digits pr then Refused (''pr must be a number: '' @ pr)
          else Parsed (o'\<lparr>po_wt := wt, po_pr := pr, po_branch := branch\<rparr>) []
      | Parsed o' _ \<Rightarrow> Refused pr_usageLine
      | other \<Rightarrow> other)"

fun wm_flags :: "wait_opts \<Rightarrow> string list \<Rightarrow> wait_opts parsed" where
  "wm_flags o' [] = Parsed o' []"
| "wm_flags o' (a # rest) =
     (if a = ''--base-ref'' then flag_value a rest (\<lambda>v. o'\<lparr>wo_Base := v\<rparr>) wm_flags
      else if a = ''--expect-head'' then flag_value a rest (\<lambda>v. o'\<lparr>wo_ExpectHead := v\<rparr>) wm_flags
      else if a = ''-h'' \<or> a = ''--help'' then Help
      else if a = ''--'' then Parsed o' rest
      else if has_prefix a ''-'' then Refused (''unknown option '' @ a)
      else Parsed o' (a # rest))"

definition wm_parse :: "string list \<Rightarrow> wait_opts parsed" where
  "wm_parse args =
     (case wm_flags \<lparr>wo_Wt = [], wo_PR = [], wo_Base = ''origin/main'', wo_ExpectHead = []\<rparr> args of
        Parsed o' [wt, pr] \<Rightarrow>
          if pr = [] \<or> \<not> all_digits pr then Refused (''pr must be a number: '' @ pr)
          else Parsed (o'\<lparr>wo_Wt := wt, wo_PR := pr\<rparr>) []
      | Parsed o' _ \<Rightarrow> Refused ''kit-wait-merge.sh [--base-ref REF] <worktree> <pr>''
      | other \<Rightarrow> other)"

record kg_opts =
  kg_cmd :: string
  kg_state :: string
  kg_serial :: bool
  kg_cmdGiven :: bool
  kg_lockTimeout :: string
  kg_wt :: string
  kg_label :: string

fun kg_flags :: "kg_opts \<Rightarrow> string list \<Rightarrow> kg_opts parsed" where
  "kg_flags o' [] = Parsed o' []"
| "kg_flags o' (a # rest) =
     (if a = ''--cmd'' then flag_value a rest (\<lambda>v. o'\<lparr>kg_cmd := v, kg_cmdGiven := True\<rparr>) kg_flags
      else if a = ''--lock-timeout'' then flag_value a rest (\<lambda>v. o'\<lparr>kg_lockTimeout := v\<rparr>) kg_flags
      else if a = ''--state-dir'' then flag_value a rest (\<lambda>v. o'\<lparr>kg_state := v\<rparr>) kg_flags
      else if a = ''--serial'' then kg_flags (o'\<lparr>kg_serial := True\<rparr>) rest
      else if a = ''-h'' \<or> a = ''--help'' then Help
      else if a = ''--'' then Parsed o' rest
      else if has_prefix a ''-'' then Refused (''unknown option '' @ a)
      else Parsed o' (a # rest))"

definition label_chars :: "char list" where
  "label_chars = ''ABCDEFGHIJKLMNOPQRSTUVWXYZabcdefghijklmnopqrstuvwxyz0123456789._-''"

definition kg_parse :: "string list \<Rightarrow> string \<Rightarrow> kg_opts parsed" where
  "kg_parse args lockEnv =
     (case kg_flags \<lparr>kg_cmd = [], kg_state = [], kg_serial = False, kg_cmdGiven = False,
          kg_lockTimeout = (if lockEnv = [] then DefaultLockTimeout else lockEnv), kg_wt = [], kg_label = []\<rparr> args of
        Parsed o' [wt, label'] \<Rightarrow>
          if label' = [] \<or> trim label_chars label' \<noteq> [] then Refused ''label must match [A-Za-z0-9._-]+''
          else if \<not> ValidLockTimeout (kg_lockTimeout o') then Refused ''--lock-timeout must be a number of seconds''
          else if kg_serial o' \<and> kg_cmdGiven o' then Refused ''--serial cannot be combined with --cmd''
          else Parsed (o'\<lparr>kg_wt := wt, kg_label := label'\<rparr>) []
      | Parsed o' _ \<Rightarrow> Refused ''kit-gate.sh [--cmd CMD] [--state-dir DIR] <worktree> <label>''
      | other \<Rightarrow> other)"

section \<open>The review driver's lines\<close>

definition bytes_in :: "string \<Rightarrow> bytes" where
  "bytes_in s = map (\<lambda>c. word_of_nat (of_char c)) s"

definition bytes_out :: "bytes \<Rightarrow> string" where
  "bytes_out bs = map (\<lambda>b. char_of (unat b)) bs"

definition driveTail :: nat where "driveTail = 6"
definition driveLineMax :: nat where "driveLineMax = 300"

definition driveNoise :: "string \<Rightarrow> bool" where
  "driveNoise s \<longleftrightarrow> has_prefix s ''RUN'' \<or> has_prefix s ''LAUNCH''"

definition cut :: "string \<Rightarrow> nat \<Rightarrow> string" where
  "cut s n = bytes_out (bytes_of (take n (runes_of (bytes_in s))))"

definition tailLines :: "string \<Rightarrow> string list" where
  "tailLines log =
     (let keep = (if log = [] then []
                  else map (\<lambda>ln. cut ln driveLineMax) (filter (\<lambda>ln. \<not> driveNoise ln) (split_on newline_char (trim_suffix1 log newline_char))))
      in drop (length keep - driveTail) keep)"

section \<open>The steps\<close>

text \<open>What the command takes from outside besides the world: the working directory and the path of its own binary.\<close>

record pr_env =
  pe_kit :: kit_env
  pe_Cwd :: string
  pe_self :: string

text \<open>The runner of the kit tools has no signal poll; only the gate takes signals.\<close>

definition world :: "pr_env \<Rightarrow> kit_env" where
  "world e = (pe_kit e)\<lparr>ke_pending := \<lambda>_. False\<rparr>"

definition exitRestackConflict :: int where "exitRestackConflict = 11"
definition exitPushFailed :: int where "exitPushFailed = 12"
definition exitRDDNotApprov :: int where "exitRDDNotApprov = 13"
definition exitRDDStartErr :: int where "exitRDDStartErr = 14"
definition exitConsent :: int where "exitConsent = 15"
definition exitSizeCheck :: int where "exitSizeCheck = 20"
definition exitFetchFailed :: int where "exitFetchFailed = 21"
definition exitBadBaseRef :: int where "exitBadBaseRef = 23"
definition exitDirtyTree :: int where "exitDirtyTree = 24"
definition exitRestackError :: int where "exitRestackError = 25"
definition rddNotDue :: int where "rddNotDue = 10"
definition rddConsent :: int where "rddConsent = 15"

type_synonym 'a step = "(unit, 'a) prog"

definition retryGit :: "pr_env \<Rightarrow> string \<Rightarrow> string list \<Rightarrow> reply step" where
  "retryGit e wt args = Retry (world e) 3 (git (world e) wt args)"

definition mergeFailed :: "pr_env \<Rightarrow> string \<Rightarrow> unit step" where
  "mergeFailed e wt =
     bind_k (git (world e) wt [''ls-files'', ''-u'']) (\<lambda>u.
       if chomp (rp_out u) \<noteq> [] then
         bind_k (git (world e) wt [''merge'', ''--abort'']) (\<lambda>_. stop_k exitRestackConflict ''restack-conflict'')
       else stop_k exitRestackError ''restack-error'')"

text \<open>Restack, from the merge-base question on: merge the base in only when the branch is behind it.\<close>

definition restack_onto :: "pr_env \<Rightarrow> pr_opts \<Rightarrow> string \<Rightarrow> unit step" where
  "restack_onto e o' wt =
     bind_k (git (world e) wt [''merge-base'', ''--is-ancestor'', po_base o', ''HEAD'']) (\<lambda>anc.
       if rp_rc anc > 1 then stop_k exitBadBaseRef ''bad-base-ref''
       else if rp_rc anc = 1 then
         bind_k (git (world e) wt [''merge'', ''-q'', ''--no-edit'', po_base o']) (\<lambda>m.
           if rp_rc m \<noteq> 0 then mergeFailed e wt else return_k ())
       else return_k ())"

definition restack :: "pr_env \<Rightarrow> pr_opts \<Rightarrow> string \<Rightarrow> unit step" where
  "restack e o' wt =
     bind_k (git (world e) wt [''status'', ''--porcelain'', ''--untracked-files=no'']) (\<lambda>st.
       if rp_rc st \<noteq> 0 then stop_k exitRestackError ''restack-error''
       else if chomp (rp_out st) \<noteq> [] then stop_k exitDirtyTree ''dirty-tree''
       else bind_k (retryGit e wt [''fetch'', ''-q'', po_remote o']) (\<lambda>f.
         if rp_rc f \<noteq> 0 then stop_k exitFetchFailed ''fetch-failed'' else restack_onto e o' wt))"

definition push :: "pr_env \<Rightarrow> pr_opts \<Rightarrow> string \<Rightarrow> unit step" where
  "push e o' wt =
     bind_k (retryGit e wt [''push'', ''-q'', po_remote o', ''HEAD:'' @ po_branch o']) (\<lambda>p.
       if rp_rc p \<noteq> 0 then stop_k exitPushFailed ''push-failed''
       else bind_k (git (world e) wt [''rev-parse'', ''--short'', ''HEAD'']) (\<lambda>_. return_k ()))"

definition sizeCheck :: "pr_env \<Rightarrow> pr_opts \<Rightarrow> unit step" where
  "sizeCheck e o' =
     (if po_sizeCheck o' = [] then return_k ()
      else bind_k (os_ok (world e) ''lookpath'' ''bash'') (\<lambda>found.
        if \<not> found then stop_k exitSizeCheck ''size-check-failed''
        else bind_k (ask (world e) (Bash (po_sizeCheck o'))) (\<lambda>r.
          if rp_rc r \<noteq> 0 then stop_k exitSizeCheck ''size-check-failed'' else return_k ())))"

text \<open>Step 4 of the plan: rdd-start, and rdd-drive when it has started a review. The driver's output is one buffer.\<close>

definition drive :: "pr_env \<Rightarrow> pr_opts \<Rightarrow> string \<Rightarrow> string \<Rightarrow> string \<Rightarrow> unit step" where
  "drive e o' wt state doc =
     bind_k (ask (world e) (RddDrive [wt, doc])) (\<lambda>d.
     bind_k (os_ok (world e) ''write'' (state @ ''/rdd-drive-'' @ po_pr o' @ ''.log'')) (\<lambda>_.
     bind_k (ask (world e) (Print (if rp_rc d = rddConsent then [rp_out d] else tailLines (rp_out d)))) (\<lambda>_.
       if rp_rc d = 0 then return_k ()
       else if rp_rc d = 3 then stop_k 3 ''degraded''
       else if rp_rc d = rddConsent then stop_k exitConsent ''consent-required''
       else stop_k exitRDDNotApprov ''rdd-not-approved'')))"

definition rdd :: "pr_env \<Rightarrow> pr_opts \<Rightarrow> string \<Rightarrow> string \<Rightarrow> unit step" where
  "rdd e o' wt state =
     (let doc = state @ ''/rdd-'' @ po_pr o' @ ''.json'';
          args = [''--base-ref'', po_base o'] @ (if po_consent o' = ''granted'' then [''--consent'', ''granted''] else [])
      in bind_k (ask (world e) (RddStart (args @ [wt, doc]))) (\<lambda>s.
           if rp_rc s = 0 then drive e o' wt state doc
           else if rp_rc s = rddNotDue then return_k ()
           else if rp_rc s = rddConsent then stop_k exitConsent ''consent-required''
           else if rp_rc s = 3 then stop_k 3 ''degraded''
           else stop_k exitRDDStartErr ''rdd-start-error''))"

definition pr_lockTimeout :: "kit_env \<Rightarrow> string" where
  "pr_lockTimeout e = (if ke_getenv e ''KIT_GATE_LOCK_TIMEOUT'' \<noteq> [] then ke_getenv e ''KIT_GATE_LOCK_TIMEOUT'' else DefaultLockTimeout)"

definition pr_gate_opts :: "pr_env \<Rightarrow> pr_opts \<Rightarrow> string \<Rightarrow> string \<Rightarrow> gate_opts" where
  "pr_gate_opts e o' wt state =
     \<lparr>go_Cwd = wt, go_Wt = wt, go_Label = ''pr'' @ po_pr o', go_State = state, go_Cmd = po_gateCmd o', go_Serial = po_serial o',
      go_LockTimeout = pr_lockTimeout (world e), go_OverflowTriesOnce = False, go_Probe = []\<rparr>"

definition pr_gate :: "pr_env \<Rightarrow> pr_opts \<Rightarrow> string \<Rightarrow> string \<Rightarrow> unit step" where
  "pr_gate e o' wt state =
     (if po_noGate o' then return_k ()
      else bind_k (kitgate_Run (world e) (pr_gate_opts e o' wt state)) (\<lambda>res.
        if gr_Interrupted res then stop_k ExitGateFailed ''interrupted''
        else if gr_Code res = 0 then return_k ()
        else if gr_Code res = gExitUsage then stop_k 2 ''usage''
        else if gr_Code res = gExitDegraded then stop_k 3 ''degraded''
        else if gr_Code res = ExitLockTimeout then stop_k ExitLockTimeout ''gate-lock-timeout''
        else stop_k ExitGateFailed ''gate-failed''))"

definition pr_wait_opts :: "pr_opts \<Rightarrow> string \<Rightarrow> wait_opts" where
  "pr_wait_opts o' wt = \<lparr>wo_Wt = wt, wo_PR = po_pr o', wo_Base = po_base o', wo_ExpectHead = []\<rparr>"

definition pr_wait :: "pr_env \<Rightarrow> pr_opts \<Rightarrow> string \<Rightarrow> unit step" where
  "pr_wait e o' wt =
     bind_k (MergeGateMissing (world e) (ke_getenv (world e) ''KIT_MERGE_GATE'') (pe_self e) wt) (\<lambda>missing.
       if missing then stop_k 3 ''degraded''
       else bind_k (kitwait_Run (world e) (pr_wait_opts o' wt)) (\<lambda>rc.
         if rc = 0 then return_k ()
         else if rc = 3 then stop_k 3 ''degraded''
         else if rc = ExitCIFailed then stop_k ExitCIFailed ''ci-failed''
         else if rc = ExitMergeDegraded then stop_k ExitMergeDegraded ''merge-degraded''
         else stop_k ExitNotMerged ''not-merged''))"

section \<open>The run\<close>

text \<open>The physical worktree and state directory.\<close>

definition prepare :: "pr_env \<Rightarrow> pr_opts \<Rightarrow> (string \<times> string) step" where
  "prepare e o' =
     bind_k (os_ok (world e) ''isdir'' (kit_Abs (pe_Cwd e) (po_wt o'))) (\<lambda>dir.
     if \<not> dir then stop_k 2 ''usage''
     else bind_k (ResolveDir (world e) (pe_Cwd e) (po_wt o')) (\<lambda>phys. case phys of None \<Rightarrow> stop_k 2 ''usage'' | Some wt \<Rightarrow>
     bind_k (missing_deps (world e) ([''git'', ''gh'', ''gentle-ai''] @ (if po_noGate o' then [] else [''flock'']))) (\<lambda>missing.
     if missing \<noteq> [] then stop_k 3 ''degraded''
     else bind_k (PhysPath (world e) (pe_Cwd e) (if po_state o' = [] then StateDir (world e) else po_state o')) (\<lambda>sp.
       case sp of None \<Rightarrow> stop_k 2 ''usage'' | Some state \<Rightarrow>
       if Inside state wt then stop_k 2 ''usage'' else return_k (wt, state)))))"

datatype finished = Helped | Planned | Merged

definition pr_steps :: "pr_env \<Rightarrow> pr_opts \<Rightarrow> string \<Rightarrow> string \<Rightarrow> finished step" where
  "pr_steps e o' wt state =
     bind_k (os_ok (world e) ''mkdir'' state) (\<lambda>made.
     if \<not> made then stop_k 2 ''usage''
     else bind_k (restack e o' wt) (\<lambda>_. bind_k (push e o' wt) (\<lambda>_. bind_k (sizeCheck e o') (\<lambda>_.
       bind_k (rdd e o' wt state) (\<lambda>_. bind_k (pr_gate e o' wt state) (\<lambda>_. bind_k (pr_wait e o' wt) (\<lambda>_. return_k Merged)))))))"

definition pr_run :: "pr_env \<Rightarrow> string list \<Rightarrow> finished step" where
  "pr_run e args =
     (case pr_parse args of
        Refused msg \<Rightarrow> stop_k 2 ''usage''
      | Help \<Rightarrow> return_k Helped
      | Parsed o' _ \<Rightarrow>
          if BadKnob (world e) \<noteq> [] then stop_k 2 ''usage''
          else bind_k (prepare e o') (\<lambda>(wt, state). if po_dryRun o' then return_k Planned else pr_steps e o' wt state))"

definition start_kit :: "unit kit" where
  "start_kit = \<lparr>kt_state = (), kt_hist = []\<rparr>"

text \<open>\<open>rsdd maint wait-merge\<close> and \<open>rsdd maint gate\<close>.\<close>

definition wm_run :: "pr_env \<Rightarrow> string list \<Rightarrow> int step" where
  "wm_run e args =
     (case wm_parse args of
        Refused msg \<Rightarrow> return_k 2
      | Help \<Rightarrow> return_k 0
      | Parsed o' _ \<Rightarrow>
          if BadKnob (world e) \<noteq> [] then return_k 2
          else bind_k (os_ok (world e) ''isdir'' (kit_Abs (pe_Cwd e) (wo_Wt o'))) (\<lambda>dir.
            if \<not> dir then return_k 2
            else bind_k (missing_deps (world e) [''gh'']) (\<lambda>missing.
              if missing \<noteq> [] then return_k 3
              else bind_k (MergeGateMissing (world e) (ke_getenv (world e) ''KIT_MERGE_GATE'') (pe_self e) (pe_Cwd e)) (\<lambda>nogate.
                if nogate then return_k 3
                else kitwait_Run (world e) (o'\<lparr>wo_Wt := kit_Abs (pe_Cwd e) (wo_Wt o')\<rparr>)))))"

definition kg_run :: "pr_env \<Rightarrow> string list \<Rightarrow> int step" where
  "kg_run e args =
     (case kg_parse args (ke_getenv (world e) ''KIT_GATE_LOCK_TIMEOUT'') of
        Refused msg \<Rightarrow> return_k 2
      | Help \<Rightarrow> return_k 0
      | Parsed o' _ \<Rightarrow>
          bind_k (kitgate_Run (world e) \<lparr>go_Cwd = pe_Cwd e, go_Wt = kg_wt o', go_Label = kg_label o',
              go_State = (if kg_state o' = [] then StateDir (world e) else kg_state o'),
              go_Cmd = (if kg_cmdGiven o' \<and> kg_cmd o' = [] then '':'' else kg_cmd o'), go_Serial = kg_serial o',
              go_LockTimeout = kg_lockTimeout o', go_OverflowTriesOnce = False, go_Probe = [''flock'', ''git'']\<rparr>)
            (\<lambda>res. return_k (gr_Code res)))"

section \<open>What each step has asked\<close>

lemma world_pending [simp]: "\<not> ke_pending (world e) h"
  by (simp add: world_def)

fun is_push :: "action \<Rightarrow> bool" where
  "is_push (Git d as) = (take 1 as = [''push''])"
| "is_push a = False"

fun before_push :: "action \<Rightarrow> bool" where
  "before_push (Git d as) = (take 1 as \<noteq> [''push''])"
| "before_push (Sleep n) = True"
| "before_push (Os w p) = True"
| "before_push a = False"

definition clean :: "string \<Rightarrow> action \<Rightarrow> reply \<Rightarrow> bool" where
  "clean wt a r \<longleftrightarrow> a = Git wt [''status'', ''--porcelain'', ''--untracked-files=no''] \<and> rp_rc r = 0 \<and> chomp (rp_out r) = []"

definition fetched :: "pr_opts \<Rightarrow> string \<Rightarrow> action \<Rightarrow> reply \<Rightarrow> bool" where
  "fetched o' wt = went_well (Git wt [''fetch'', ''-q'', po_remote o'])"

definition based :: "pr_opts \<Rightarrow> string \<Rightarrow> action \<Rightarrow> reply \<Rightarrow> bool" where
  "based o' wt a r \<longleftrightarrow> a = Git wt [''merge-base'', ''--is-ancestor'', po_base o', ''HEAD''] \<and> rp_rc r \<le> 0 \<or>
     went_well (Git wt [''merge'', ''-q'', ''--no-edit'', po_base o']) a r"

definition aborted :: "string \<Rightarrow> history \<Rightarrow> bool" where
  "aborted wt h \<longleftrightarrow> in_order [\<lambda>a r. a = Git wt [''ls-files'', ''-u''] \<and> chomp (rp_out r) \<noteq> [], \<lambda>a r. a = Git wt [''merge'', ''--abort'']] h"

definition restack_stops :: "(int \<times> string) set" where
  "restack_stops = {(25, ''restack-error''), (24, ''dirty-tree''), (21, ''fetch-failed''), (23, ''bad-base-ref''), (11, ''restack-conflict'')}"

lemma wp_retryGit:
  assumes "\<And>h r. only (\<lambda>b. b = Git wt args \<or> is_sleep b) h \<Longrightarrow> (rp_rc r = 0 \<Longrightarrow> in_order [went_well (Git wt args)] h) \<Longrightarrow>
      asked (\<lambda>b. b = Git wt args) h \<le> 3 \<Longrightarrow> Q r (noted k h)"
  shows "wp (retryGit e wt args) Q E k"
  unfolding retryGit_def Retry_def
proof (rule wp_retry_loop)
  show "\<not> is_sleep (Git wt args)" by simp
next
  fix h and r :: reply
  assume h: "attempts (Git wt args) h" "length (filter (\<lambda>(b, r). b = Git wt args) h) \<le> Suc (3 - 1)"
    and ok: "rp_rc r = 0 \<longrightarrow> in_order [went_well (Git wt args)] h"
  have "asked (\<lambda>b. b = Git wt args) h \<le> 3"
    using h(2) by (simp add: asked_def case_prod_unfold)
  then show "Q r (noted k h)"
    using attempts_only[OF h(1), of "\<lambda>b. b = Git wt args \<or> is_sleep b"] ok by (intro assms) auto
qed simp

lemma wp_world: "(\<And>r. Q r (noted k [(a, r)])) \<Longrightarrow> wp (child (world e) a) Q E k"
  by (rule wp_child) simp_all

lemmas pr_consts = exitRestackConflict_def exitPushFailed_def exitRDDNotApprov_def exitRDDStartErr_def exitConsent_def
  exitSizeCheck_def exitFetchFailed_def exitBadBaseRef_def exitDirtyTree_def exitRestackError_def rddNotDue_def rddConsent_def

definition restack_facts :: "pr_opts \<Rightarrow> string \<Rightarrow> history \<Rightarrow> bool" where
  "restack_facts o' wt h \<longleftrightarrow> only before_push h \<and> asked (\<lambda>b. b = Git wt [''fetch'', ''-q'', po_remote o']) h \<le> 3"

lemma wp_mergeFailed:
  assumes "\<And>c s h. only before_push h \<Longrightarrow> asked (\<lambda>b. b = Git wt [''fetch'', ''-q'', po_remote o']) h = 0 \<Longrightarrow>
      (c, s) \<in> restack_stops \<Longrightarrow> (c = 11 \<Longrightarrow> aborted wt h) \<Longrightarrow> E c s (noted k h)"
  shows "wp (mergeFailed e wt) Q E k"
  unfolding mergeFailed_def
  apply (rule wp_seq, rule wp_world, rule wp_branch)
   apply (rule wp_seq, rule wp_world, simp only: wp_stop noted_noted, rule assms)
      apply (simp_all add: restack_stops_def pr_consts aborted_def)
  apply (rule assms)
     apply (simp_all add: restack_stops_def)
  done

abbreviation fetch_of :: "pr_opts \<Rightarrow> string \<Rightarrow> action" where
  "fetch_of o' wt \<equiv> Git wt [''fetch'', ''-q'', po_remote o']"

lemma wp_restack_onto:
  assumes Q: "\<And>h. only before_push h \<Longrightarrow> asked (\<lambda>b. b = fetch_of o' wt) h = 0 \<Longrightarrow> in_order [based o' wt] h \<Longrightarrow> Q () (noted k h)"
    and E: "\<And>c s h. only before_push h \<Longrightarrow> asked (\<lambda>b. b = fetch_of o' wt) h = 0 \<Longrightarrow> (c, s) \<in> restack_stops \<Longrightarrow>
      (c = 11 \<Longrightarrow> aborted wt h) \<Longrightarrow> E c s (noted k h)"
  shows "wp (restack_onto e o' wt) Q E k"
  unfolding restack_onto_def
proof (rule wp_seq, rule wp_world)
  fix anc :: reply
  let ?B = "(Git wt [''merge-base'', ''--is-ancestor'', po_base o', ''HEAD''], anc)"
  let ?M = "\<lambda>m. (Git wt [''merge'', ''-q'', ''--no-edit'', po_base o'], m :: reply)"
  have "wp (mergeFailed e wt) Q E (noted k [?B, ?M m])" for m
  proof (rule wp_mergeFailed)
    fix c s h
    assume h: "only before_push h" "asked (\<lambda>b. b = fetch_of o' wt) h = 0" "(c, s) \<in> restack_stops" "c = 11 \<Longrightarrow> aborted wt h"
    have "aborted wt ([?B, ?M m] @ h)" if "c = 11"
      using h(4)[OF that] unfolding aborted_def by (rule in_order_append2)
    then have "E c s (noted k ([?B, ?M m] @ h))"
      by (intro E) (use h in auto)
    then show "E c s (noted (noted k [?B, ?M m]) h)" by simp
  qed
  moreover have "rp_rc m = 0 \<Longrightarrow> Q () (noted k [?B, ?M m])" for m
    by (rule Q) (simp_all add: based_def went_well_def)
  moreover have "rp_rc anc \<le> 0 \<Longrightarrow> Q () (noted k [?B])"
    by (rule Q) (simp_all add: based_def)
  moreover have "E 23 ''bad-base-ref'' (noted k [?B])"
    by (rule E) (simp_all add: restack_stops_def)
  ultimately show "wp (if rp_rc anc > 1 then stop_k exitBadBaseRef ''bad-base-ref''
       else if rp_rc anc = 1 then
         bind_k (git (world e) wt [''merge'', ''-q'', ''--no-edit'', po_base o']) (\<lambda>m.
           if rp_rc m \<noteq> 0 then mergeFailed e wt else return_k ())
       else return_k ()) Q E (noted k [?B])"
    by (intro wp_branch wp_seq wp_world) (simp_all add: pr_consts)
qed

lemma wp_restack:
  assumes Q: "\<And>h. restack_facts o' wt h \<Longrightarrow> in_order [clean wt, fetched o' wt, based o' wt] h \<Longrightarrow> Q () (noted k h)"
    and E: "\<And>c s h. restack_facts o' wt h \<Longrightarrow> (c, s) \<in> restack_stops \<Longrightarrow> (c = 11 \<Longrightarrow> aborted wt h) \<Longrightarrow> E c s (noted k h)"
  shows "wp (restack e o' wt) Q E k"
proof -
  let ?st = "\<lambda>st. (Git wt [''status'', ''--porcelain'', ''--untracked-files=no''], st :: reply)"
  have early: "E 25 ''restack-error'' (noted k [?st st])" "E 24 ''dirty-tree'' (noted k [?st st])" for st
    by (rule E; simp add: restack_facts_def restack_stops_def)+
  have fetched: "wp (if rp_rc f \<noteq> 0 then stop_k exitFetchFailed ''fetch-failed'' else restack_onto e o' wt) Q E (noted (noted k [?st st]) hf)"
    if st: "clean wt (fst (?st st)) st" and hf: "only before_push hf" "asked (\<lambda>b. b = fetch_of o' wt) hf \<le> 3"
      and ok: "rp_rc f = 0 \<Longrightarrow> in_order [went_well (fetch_of o' wt)] hf" for st hf and f :: reply
  proof (rule wp_branch)
    show "wp (stop_k exitFetchFailed ''fetch-failed'') Q E (noted (noted k [?st st]) hf)"
      by (simp, rule E) (use hf in \<open>simp_all add: restack_facts_def restack_stops_def pr_consts\<close>)
    assume "\<not> rp_rc f \<noteq> 0"
    then have up: "in_order [clean wt, fetched o' wt] (?st st # hf)"
      using ok st by (simp add: fetched_def)
    show "wp (restack_onto e o' wt) Q E (noted (noted k [?st st]) hf)"
      unfolding noted_noted
    proof (rule wp_restack_onto)
      fix h assume h: "only before_push h" "asked (\<lambda>b. b = fetch_of o' wt) h = 0" "in_order [based o' wt] h"
      show "Q () (noted (noted k ([?st st] @ hf)) h)"
        unfolding noted_noted by (rule Q) (use h hf in_order_append[OF up h(3)] in \<open>simp_all add: restack_facts_def\<close>)
    next
      fix c s h
      assume h: "only before_push h" "asked (\<lambda>b. b = fetch_of o' wt) h = 0" "(c, s) \<in> restack_stops" "c = 11 \<Longrightarrow> aborted wt h"
      have "aborted wt (([?st st] @ hf) @ h)" if "c = 11"
        using h(4)[OF that] unfolding aborted_def by (rule in_order_append2)
      then show "E c s (noted (noted k ([?st st] @ hf)) h)"
        unfolding noted_noted by (intro E) (use h hf in \<open>simp_all add: restack_facts_def\<close>)
    qed
  qed
  have noise: "only before_push hf" if "only (\<lambda>b. b = fetch_of o' wt \<or> is_sleep b) hf" for hf
    using that by (rule only_mono) (auto elim!: is_sleep.elims(2))
  show ?thesis
    unfolding restack_def
    apply (rule wp_seq, rule wp_world, rule wp_branch)
     apply (simp add: early pr_consts)
    apply (rule wp_branch)
     apply (simp add: early pr_consts)
    apply (rule wp_seq, rule wp_retryGit, rule fetched)
       apply (simp_all add: clean_def noise)
    done
qed

lemma quiet_before_push: "only before_push h \<Longrightarrow> quiet h"
  by (erule quiet_only) (auto elim!: before_push.elims(2))

definition pushed :: "pr_opts \<Rightarrow> string \<Rightarrow> action \<Rightarrow> reply \<Rightarrow> bool" where
  "pushed o' wt = went_well (Git wt [''push'', ''-q'', po_remote o', ''HEAD:'' @ po_branch o'])"

definition sized :: "pr_opts \<Rightarrow> action \<Rightarrow> reply \<Rightarrow> bool" where
  "sized o' = went_well (Bash (po_sizeCheck o'))"

fun reviewed :: "action \<Rightarrow> reply \<Rightarrow> bool" where
  "reviewed (RddStart as) r = (rp_rc r = 10)"
| "reviewed (RddDrive as) r = (rp_rc r = 0)"
| "reviewed a r = False"

lemma wp_push:
  assumes Q: "\<And>h. quiet h \<Longrightarrow> in_order [pushed o' wt] h \<Longrightarrow> Q () (noted k h)"
    and E: "\<And>h. quiet h \<Longrightarrow> E 12 ''push-failed'' (noted k h)"
  shows "wp (push e o' wt) Q E k"
proof -
  have noise: "quiet h" if "only (\<lambda>b. b = Git wt as \<or> is_sleep b) h" for h as
    by (rule quiet_only[OF that]) (auto elim!: is_sleep.elims(2))
  show ?thesis
    unfolding push_def
    apply (rule wp_seq, rule wp_retryGit, rule wp_branch)
     apply (simp add: pr_consts, rule E, erule noise)
    apply (rule wp_seq, rule wp_world, simp, rule Q)
     apply (simp add: noise)
    apply (simp add: pushed_def in_order_append1)
    done
qed

lemma wp_sizeCheck:
  assumes Q: "\<And>h. quiet h \<Longrightarrow> in_order (if po_sizeCheck o' = [] then [] else [sized o']) h \<Longrightarrow> Q () (noted k h)"
    and E: "\<And>h. quiet h \<Longrightarrow> E 20 ''size-check-failed'' (noted k h)"
  shows "wp (sizeCheck e o') Q E k"
proof -
  have none: "Q () k" if "po_sizeCheck o' = []"
    using Q[of "[]"] that by simp
  show ?thesis
    unfolding sizeCheck_def
    apply (rule wp_branch, simp add: none)
    apply (rule wp_seq, rule wp_os_ok, rule wp_branch)
     apply (simp add: pr_consts E)
    apply (rule wp_seq, rule wp_ask, rule wp_branch)
     apply (simp add: pr_consts E)
    apply (simp, rule Q)
     apply (simp_all add: sized_def went_well_def)
    done
qed

definition rdd_stops :: "(int \<times> string) set" where
  "rdd_stops = {(3, ''degraded''), (15, ''consent-required''), (13, ''rdd-not-approved''), (14, ''rdd-start-error'')}"

lemma wp_drive:
  assumes Q: "\<And>h. quiet h \<Longrightarrow> in_order [reviewed] h \<Longrightarrow> Q () (noted k h)"
    and E: "\<And>c s h. quiet h \<Longrightarrow> (c, s) \<in> rdd_stops \<Longrightarrow> E c s (noted k h)"
  shows "wp (drive e o' wt state doc) Q E k"
  unfolding drive_def
  apply (rule wp_seq, rule wp_ask, rule wp_seq, rule wp_os_ok, rule wp_seq, rule wp_ask)
  apply (auto simp: pr_consts rdd_stops_def intro!: Q E)
  done

lemma wp_rdd:
  assumes Q: "\<And>h. quiet h \<Longrightarrow> in_order [reviewed] h \<Longrightarrow> Q () (noted k h)"
    and E: "\<And>c s h. quiet h \<Longrightarrow> (c, s) \<in> rdd_stops \<Longrightarrow> E c s (noted k h)"
  shows "wp (rdd e o' wt state) Q E k"
  unfolding rdd_def Let_def
  apply (rule wp_seq, rule wp_ask, rule wp_branch)
   apply (rule wp_drive)
    apply (unfold noted_noted, rule Q, simp, rule in_order_append2, assumption)
   apply (rule E, simp, assumption)
  apply (auto simp: pr_consts rdd_stops_def intro!: Q E)
  done

definition pr_gate_stops :: "(int \<times> string) set" where
  "pr_gate_stops = {(16, ''interrupted''), (2, ''usage''), (3, ''degraded''), (22, ''gate-lock-timeout''), (16, ''gate-failed'')}"

lemma wp_pr_gate:
  assumes Q: "\<And>h. quiet h \<Longrightarrow> in_order (if po_noGate o' then [] else [locked, gate_green]) h \<Longrightarrow> guarded runs_gate [locked] h \<Longrightarrow>
      Q () (noted k h)"
    and E: "\<And>c s h. quiet h \<Longrightarrow> (c, s) \<in> pr_gate_stops \<Longrightarrow> guarded runs_gate [locked] h \<Longrightarrow> E c s (noted k h)"
  shows "wp (pr_gate e o' wt state) Q E k"
proof -
  have none: "Q () k" if "po_noGate o'"
    using Q[of "[]"] that by (simp add: guarded_def)
  show ?thesis
    unfolding pr_gate_def
    apply (rule wp_branch, simp add: none)
    apply (rule wp_seq, rule wp_kitgate)
     apply (auto simp: gate_consts gate_facts_def pr_gate_stops_def intro!: Q E dest: quiet_gate)
    done
qed

definition pr_wait_stops :: "(int \<times> string) set" where
  "pr_wait_stops = {(3, ''degraded''), (17, ''ci-failed''), (18, ''merge-degraded''), (19, ''not-merged'')}"

lemma wp_pr_wait:
  assumes Q: "\<And>h. confirmed (pr_wait_opts o' wt) h \<Longrightarrow> asked is_merge h \<le> wait_tries (world e) \<Longrightarrow> Q () (noted k h)"
    and E: "\<And>c s h. (c, s) \<in> pr_wait_stops \<Longrightarrow> asked is_merge h \<le> wait_tries (world e) \<Longrightarrow> E c s (noted k h)"
  shows "wp (pr_wait e o' wt) Q E k"
proof -
  have probe: "wp (MergeGateMissing (world e) script self wt) Q' E' k'"
    if "\<And>x h. only is_os h \<Longrightarrow> Q' x (noted k' h)" for script self Q' E' k'
    unfolding MergeGateMissing_def
    using that[of "[]" True] that by (auto intro!: wp_os_ok)
  have none: "asked is_merge h = 0" if "only is_os h" for h
    using quiet_os[OF that] by (auto simp: quiet_def intro: asked_none)
  show ?thesis
    unfolding pr_wait_def
    apply (rule wp_seq, rule probe, rule wp_branch)
     apply (simp, rule E; simp add: pr_wait_stops_def none)
    apply (rule wp_seq, rule wp_kitwait)
     apply (auto simp: wait_consts wait_facts_def pr_wait_stops_def none intro!: Q E dest: none intro: confirmed_prefix)
    done
qed

section \<open>The whole pipeline\<close>

definition earned :: "pr_opts \<Rightarrow> string \<Rightarrow> (action \<Rightarrow> reply \<Rightarrow> bool) list" where
  "earned o' wt = [clean wt, fetched o' wt, based o' wt] @ [pushed o' wt] @ (if po_sizeCheck o' = [] then [] else [sized o']) @
     [reviewed] @ (if po_noGate o' then [] else [locked, gate_green])"

definition pr_stops :: "(int \<times> string) set" where
  "pr_stops = {(2, ''usage''), (12, ''push-failed''), (20, ''size-check-failed'')} \<union> restack_stops \<union> rdd_stops \<union> pr_gate_stops \<union> pr_wait_stops"

definition pr_facts :: "pr_env \<Rightarrow> pr_opts \<Rightarrow> string \<Rightarrow> history \<Rightarrow> bool" where
  "pr_facts e o' wt h \<longleftrightarrow> guarded is_merge (earned o' wt) h \<and> asked is_merge h \<le> wait_tries (world e)"

definition pr_stop_facts :: "pr_env \<Rightarrow> pr_opts \<Rightarrow> string \<Rightarrow> int \<Rightarrow> string \<Rightarrow> history \<Rightarrow> bool" where
  "pr_stop_facts e o' wt c s h \<longleftrightarrow> pr_facts e o' wt h \<and> (c, s) \<in> pr_stops \<and> ((c, s) \<in> restack_stops \<longrightarrow> only before_push h) \<and>
     (c = 11 \<longrightarrow> aborted wt h)"

lemma quiet_facts: "quiet h \<Longrightarrow> pr_facts e o' wt h"
  by (simp add: pr_facts_def quiet_asked) (simp add: quiet_def guarded_none)

lemma quiet_stop: "quiet h \<Longrightarrow> (c, s) \<in> pr_stops \<Longrightarrow> (c, s) \<notin> restack_stops \<Longrightarrow> c \<noteq> 11 \<Longrightarrow> pr_stop_facts e o' wt c s h"
  by (simp add: pr_stop_facts_def quiet_facts)

lemmas stop_tables = pr_stops_def restack_stops_def rdd_stops_def pr_gate_stops_def pr_wait_stops_def

lemma earned_facts: "quiet h \<Longrightarrow> in_order (earned o' wt) h \<Longrightarrow> asked is_merge h' \<le> wait_tries (world e) \<Longrightarrow> pr_facts e o' wt (h @ h')"
  unfolding pr_facts_def by (auto simp: quiet_asked quiet_def intro: guarded_append_done guarded_none)

lemma wp_pr_tail:
  assumes h: "quiet h" "in_order (earned o' wt) h"
    and Q: "\<And>h'. pr_facts e o' wt (h @ h') \<Longrightarrow> confirmed (pr_wait_opts o' wt) (h @ h') \<Longrightarrow> Q () (noted k (h @ h'))"
    and E: "\<And>c s h'. pr_stop_facts e o' wt c s (h @ h') \<Longrightarrow> E c s (noted k (h @ h'))"
  shows "wp (pr_wait e o' wt) Q E (noted k h)"
proof (rule wp_pr_wait)
  fix h' assume h': "confirmed (pr_wait_opts o' wt) h'" "asked is_merge h' \<le> wait_tries (world e)"
  show "Q () (noted (noted k h) h')"
    unfolding noted_noted by (rule Q) (use h h' in \<open>auto intro: earned_facts confirmed_prefix\<close>)
next
  fix c s h' assume h': "(c, s) \<in> pr_wait_stops" "asked is_merge h' \<le> wait_tries (world e)"
  have "(c, s) \<in> pr_stops" "(c, s) \<notin> restack_stops" "c \<noteq> 11"
    using h'(1) by (auto simp: stop_tables)
  then show "E c s (noted (noted k h) h')"
    unfolding noted_noted by (intro E) (use h h' in \<open>simp add: pr_stop_facts_def earned_facts\<close>)
qed

lemma os_before_push: "only is_os h \<Longrightarrow> only before_push h"
  by (erule only_mono) (auto elim!: is_os.elims(2))

lemma early_stop: "quiet h \<Longrightarrow> (c, s) \<in> pr_stops - restack_stops \<Longrightarrow> c \<noteq> 11 \<Longrightarrow> pr_stop_facts e o' wt c s h"
  by (simp add: quiet_stop)

lemma restack_stop: "only before_push h \<Longrightarrow> (c, s) \<in> restack_stops \<Longrightarrow> (c = 11 \<Longrightarrow> aborted wt h) \<Longrightarrow> pr_stop_facts e o' wt c s h"
  by (simp add: pr_stop_facts_def pr_stops_def quiet_facts quiet_before_push)

lemma aborted_prefix: "aborted wt h \<Longrightarrow> aborted wt (h' @ h)"
  unfolding aborted_def by (rule in_order_append2)

abbreviation "restacked o' wt \<equiv> [clean wt, fetched o' wt, based o' wt]"
abbreviation "checked o' \<equiv> (if po_sizeCheck o' = [] then [] else [sized o'])"

definition pr_review :: "pr_env \<Rightarrow> pr_opts \<Rightarrow> string \<Rightarrow> string \<Rightarrow> finished step" where
  "pr_review e o' wt state =
     bind_k (rdd e o' wt state) (\<lambda>_. bind_k (pr_gate e o' wt state) (\<lambda>_. bind_k (pr_wait e o' wt) (\<lambda>_. return_k Merged)))"

lemma wp_pr_review:
  assumes h: "quiet h" "in_order (restacked o' wt @ [pushed o' wt] @ checked o') h"
    and Q: "\<And>h. pr_facts e o' wt h \<Longrightarrow> confirmed (pr_wait_opts o' wt) h \<Longrightarrow> Q Merged (noted k h)"
    and E: "\<And>c s h. pr_stop_facts e o' wt c s h \<Longrightarrow> E c s (noted k h)"
  shows "wp (pr_review e o' wt state) Q E (noted k h)"
  unfolding pr_review_def
proof (rule wp_seq, rule wp_rdd, rule wp_seq, rule wp_pr_gate)
  fix h1 h2
  assume "quiet h1" "in_order [reviewed] h1" "quiet h2" "in_order (if po_noGate o' then [] else [locked, gate_green]) h2"
  then have "quiet (h @ h1 @ h2)" "in_order (earned o' wt) (h @ h1 @ h2)"
    using in_order_append[OF in_order_append[OF h(2), of "[reviewed]" h1]] h(1) by (simp_all add: earned_def)
  then have "wp (pr_wait e o' wt) (\<lambda>_. wp (return_k Merged) Q E) E (noted k (h @ h1 @ h2))"
    by (rule wp_pr_tail) (simp_all add: Q E)
  then show "wp (bind_k (pr_wait e o' wt) (\<lambda>_. return_k Merged)) Q E (noted (noted (noted k h) h1) h2)"
    by simp
qed (use h in \<open>auto simp: stop_tables intro!: E early_stop\<close>)

lemma wp_pr_push:
  assumes h: "quiet h" "in_order (restacked o' wt) h"
    and Q: "\<And>h. pr_facts e o' wt h \<Longrightarrow> confirmed (pr_wait_opts o' wt) h \<Longrightarrow> Q Merged (noted k h)"
    and E: "\<And>c s h. pr_stop_facts e o' wt c s h \<Longrightarrow> E c s (noted k h)"
  shows "wp (bind_k (push e o' wt) (\<lambda>_. bind_k (sizeCheck e o') (\<lambda>_. pr_review e o' wt state))) Q E (noted k h)"
proof (rule wp_seq, rule wp_push, rule wp_seq, rule wp_sizeCheck)
  fix h1 h2
  assume h1: "quiet h1" "in_order [pushed o' wt] h1" and h2: "quiet h2" "in_order (checked o') h2"
  have "in_order (restacked o' wt @ [pushed o' wt] @ checked o') (h @ h1 @ h2)"
    by (intro in_order_append h h1 h2)
  then have "wp (pr_review e o' wt state) Q E (noted k (h @ h1 @ h2))"
    by (intro wp_pr_review) (use h h1 h2 Q E in simp_all)
  then show "wp (pr_review e o' wt state) Q E (noted (noted (noted k h) h1) h2)" by simp
qed (use h in \<open>auto simp: stop_tables intro!: E early_stop\<close>)

lemma wp_pr_steps:
  assumes h0: "only is_os h0"
    and Q: "\<And>h. pr_facts e o' wt h \<Longrightarrow> confirmed (pr_wait_opts o' wt) h \<Longrightarrow> Q Merged (noted k h)"
    and E: "\<And>c s h. pr_stop_facts e o' wt c s h \<Longrightarrow> E c s (noted k h)"
  shows "wp (pr_steps e o' wt state) Q E (noted k h0)"
  unfolding pr_steps_def pr_review_def[symmetric]
proof (rule wp_seq, rule wp_os_ok, rule wp_branch)
  fix r
  let ?h = "h0 @ [(Os ''mkdir'' state, r)]"
  have os: "quiet ?h" "only before_push ?h"
    using h0 by (simp_all add: quiet_os os_before_push)
  have "E 2 ''usage'' (noted k ?h)"
    by (rule E, rule early_stop) (use os in \<open>simp_all add: stop_tables\<close>)
  then show "wp (stop_k 2 ''usage'') Q E (noted (noted k h0) [(Os ''mkdir'' state, r)])" by simp
  show "wp (bind_k (restack e o' wt) (\<lambda>_. bind_k (push e o' wt) (\<lambda>_. bind_k (sizeCheck e o') (\<lambda>_. pr_review e o' wt state)))) Q E
      (noted (noted k h0) [(Os ''mkdir'' state, r)])"
    unfolding noted_noted
  proof (rule wp_seq, rule wp_restack; unfold noted_noted)
    fix h1 assume h1: "restack_facts o' wt h1" "in_order (restacked o' wt) h1"
    show "wp (bind_k (push e o' wt) (\<lambda>_. bind_k (sizeCheck e o') (\<lambda>_. pr_review e o' wt state))) Q E (noted k (?h @ h1))"
      by (rule wp_pr_push) (use os h1 Q E in \<open>simp_all add: restack_facts_def quiet_before_push in_order_append2\<close>)
  next
    fix c s h1 assume h1: "restack_facts o' wt h1" "(c, s) \<in> restack_stops" "c = 11 \<Longrightarrow> aborted wt h1"
    have "c = 11 \<Longrightarrow> aborted wt (?h @ h1)"
      by (rule aborted_prefix, rule h1(3))
    then show "E c s (noted k (?h @ h1))"
      by (intro E restack_stop) (use os h1 in \<open>simp_all add: restack_facts_def\<close>)
  qed
qed

text \<open>Everything up to the start of the steps: refused command lines, the plan, and a run.\<close>

lemma wp_prepare:
  assumes "\<And>p h. only is_os h \<Longrightarrow> Q p (noted k h)" "\<And>c s h. only is_os h \<Longrightarrow> (c, s) \<in> {(2, ''usage''), (3, ''degraded'')} \<Longrightarrow> E c s (noted k h)"
  shows "wp (prepare e o') Q E k"
  unfolding prepare_def
  apply (rule wp_seq, rule wp_os_ok, rule wp_branch, simp add: assms)
  apply (rule wp_seq, rule wp_physical, rule wp_option, simp add: assms)
  apply (rule wp_seq, rule wp_missing_deps, rule wp_branch, simp add: assms)
  apply (rule wp_seq, rule wp_PhysPath, rule wp_option, simp add: assms)
  apply (rule wp_branch)
   apply (simp_all add: assms)
  done

lemma wp_pr_run:
  assumes "pr_parse args = Parsed o' ws"
  shows "wp (pr_run e args) (\<lambda>x k'. \<exists>wt. pr_facts e o' wt (kt_hist k') \<and> (x = Merged \<longrightarrow> confirmed (pr_wait_opts o' wt) (kt_hist k')))
      (\<lambda>c s k'. \<exists>wt. pr_stop_facts e o' wt c s (kt_hist k')) start_kit"
proof -
  have start: "noted start_kit h = \<lparr>kt_state = (), kt_hist = h\<rparr>" for h
    by (simp add: noted_def start_kit_def)
  have steps: "wp (pr_steps e o' wt state) (\<lambda>x k'. \<exists>wt. pr_facts e o' wt (kt_hist k') \<and> (x = Merged \<longrightarrow> confirmed (pr_wait_opts o' wt) (kt_hist k')))
      (\<lambda>c s k'. \<exists>wt. pr_stop_facts e o' wt c s (kt_hist k')) (noted start_kit h)" if "only is_os h" for wt state h
    by (rule wp_pr_steps[OF that, of e o' wt]) (auto simp: start)
  show ?thesis
    unfolding pr_run_def assms parsed.case
    apply (rule wp_branch)
     apply (simp add: start_kit_def stop_tables early_stop)
    apply (rule wp_seq, rule wp_prepare)
     apply (auto simp: steps[unfolded start] quiet_facts quiet_os start stop_tables intro!: early_stop)
    done
qed

section \<open>What the commands promise\<close>

text \<open>
  C8. Nothing reaches the merge gate unearned. Whatever git, gh, the review and the gate answer, every time the pipeline
  asks the merge gate to merge, it has before that, in this order and in the same worktree: read a clean tree, fetched
  the remote, found the base merged in (or merged it), pushed the head, passed the size check if there is one, had the
  review finish or declared not due, and, unless the gate is switched off, taken the lock and seen the gate end green
  and not interrupted. It asks at most KIT_MERGE_TRIES times.
\<close>

theorem pipeline_merge_is_earned:
  assumes "pr_parse args = Parsed o' ws"
  shows "\<exists>wt. guarded is_merge (earned o' wt) (kt_hist (snd (pr_run e args start_kit))) \<and>
    asked is_merge (kt_hist (snd (pr_run e args start_kit))) \<le> wait_tries (world e)"
  using wp_pr_run[OF assms, of e]
  by (auto simp: wp_def pr_facts_def pr_stop_facts_def split: prod.splits outcome.splits)

text \<open>
  A pipeline that reports merged has read it back: when the run ends as merged, the last state it read from gh for
  this pull request, over all attempts, is MERGED, read after the merge gate was asked.
\<close>

theorem pipeline_success_is_merged:
  assumes "pr_parse args = Parsed o' ws" "fst (pr_run e args start_kit) = Value Merged"
  shows "\<exists>wt. confirmed (pr_wait_opts o' wt) (kt_hist (snd (pr_run e args start_kit)))"
  using wp_pr_run[OF assms(1), of e] assms(2)
  by (auto simp: wp_def split: prod.splits)

text \<open>
  C15. The typed stops. A run that does not merge ends with a state and an exit code of the table; the states of the
  restack (dirty tree, fetch failed, bad base, conflict, error) end it before anything was pushed, and exit 11 only
  after git listed unmerged files and the merge was aborted.
\<close>

theorem pipeline_stops_are_typed:
  assumes "pr_parse args = Parsed o' ws" "fst (pr_run e args start_kit) = Stopped c s"
  shows "(c, s) \<in> pr_stops \<and>
    (if (c, s) \<in> restack_stops then asked is_push (kt_hist (snd (pr_run e args start_kit))) = 0 else True) \<and>
    (if c = 11 then \<exists>wt. aborted wt (kt_hist (snd (pr_run e args start_kit))) else True)"
proof -
  have nopush: "asked is_push h = 0" if "only before_push h" for h
    using that by (intro asked_none only_mono[OF that]) (auto elim!: before_push.elims(2))
  show ?thesis
    using wp_pr_run[OF assms(1), of e] assms(2)
    by (auto simp: wp_def pr_stop_facts_def nopush split: prod.splits)
qed

text \<open>
  C14. The merge wait keeps its word. When \<open>wait-merge\<close>, run with arguments it accepts (and not asked for help), exits with 0,
  its history ends as \<open>confirmed\<close> says: after the last merge request come only the reads of the state, which say MERGED, and
  then, when a head was expected, the reads of the head, which is the expected one.
\<close>

theorem wait_merge_confirms_head:
  assumes "wm_parse args = Parsed o' ws" "fst (wm_run e args start_kit) = Value 0"
  shows "confirmed (o'\<lparr>wo_Wt := kit_Abs (pe_Cwd e) (wo_Wt o')\<rparr>) (kt_hist (snd (wm_run e args start_kit)))"
proof -
  let ?o = "o'\<lparr>wo_Wt := kit_Abs (pe_Cwd e) (wo_Wt o')\<rparr>"
  have missing: "wp (MergeGateMissing (world e) script self base) Q' E' k'"
    if "\<And>x h. only is_os h \<Longrightarrow> Q' x (noted k' h)" for script self base Q' E' k'
    unfolding MergeGateMissing_def
    using that[of "[]" True] that by (auto intro!: wp_os_ok)
  have "wp (wm_run e args) (\<lambda>c k'. c = 0 \<longrightarrow> confirmed ?o (kt_hist k')) (\<lambda>c s k'. True) start_kit"
    unfolding wm_run_def assms(1) parsed.case
    apply (rule wp_guard, simp)
    apply (rule wp_seq, rule wp_os_ok, rule wp_guard, simp)
    apply (rule wp_seq, rule wp_missing_deps, rule wp_guard, simp)
    apply (rule wp_seq, rule missing, rule wp_guard, simp)
    apply (rule wp_kitwait)
     apply (auto simp: wait_facts_def intro: confirmed_prefix confirmed_prefix[where h' = "[x]" for x, simplified])
    done
  then show ?thesis
    using assms(2) by (auto simp: wp_def split: prod.splits)
qed

text \<open>\<open>rsdd maint gate\<close> runs its command only with the lock in hand.\<close>

lemma gate_runs_only_locked: "guarded runs_gate [locked] (kt_hist (snd (kitgate_Run (world e) o' start_kit)))"
proof -
  have start: "kt_hist start_kit = []"
    by (simp add: start_kit_def)
  have "wp (kitgate_Run (world e) o') (\<lambda>x k'. guarded runs_gate [locked] (kt_hist k')) (\<lambda>c s k'. guarded runs_gate [locked] (kt_hist k')) start_kit"
    by (rule wp_kitgate) (simp_all add: start gate_facts_def)
  then show ?thesis
    by (auto simp: wp_def split: prod.splits outcome.splits)
qed

section \<open>Concrete runs\<close>

text \<open>A world for the examples: every question is answered 0 except where the table says otherwise.\<close>

fun demo_answer :: "action \<Rightarrow> reply" where
  "demo_answer (Os w p) = (if w = ''isdir'' then plain_reply [] 0 else plain_reply p 0)"
| "demo_answer (Gh d as) = plain_reply (if take 2 as \<noteq> [''pr'', ''view''] then [] else if as ! 4 = ''state'' then ''MERGED'' else ''abc def'') 0"
| "demo_answer (RddStart as) = plain_reply [] 10"
| "demo_answer a = plain_reply [] 0"

definition demo_world :: pr_env where
  "demo_world = \<lparr>pe_kit = \<lparr>ke_reply = \<lambda>h a. demo_answer a, ke_pending = \<lambda>h. False,
      ke_getenv = \<lambda>v. if v = ''HOME'' then ''/h'' else []\<rparr>, pe_Cwd = ''/w'', pe_self = ''/bin/rsdd''\<rparr>"


definition conflict_world :: pr_env where
  "conflict_world = demo_world\<lparr>pe_kit := (pe_kit demo_world)\<lparr>ke_reply := \<lambda>h a.
     if a = Git ''/w/wt'' [''merge-base'', ''--is-ancestor'', ''origin/main'', ''HEAD''] then plain_reply [] 1
     else if a = Git ''/w/wt'' [''merge'', ''-q'', ''--no-edit'', ''origin/main''] then plain_reply [] 1
     else if a = Git ''/w/wt'' [''ls-files'', ''-u''] then plain_reply ''100644 a 1 f'' 0
     else demo_answer a\<rparr>\<rparr>"

lemma parse_demo: "pr_parse [''wt'', ''7'', ''topic''] = Parsed (pr_defaults\<lparr>po_wt := ''wt'', po_pr := ''7'', po_branch := ''topic''\<rparr>) []"
  by code_simp

lemmas pr_run_defs = pr_run_def prepare_def pr_steps_def restack_def restack_onto_def mergeFailed_def retryGit_def push_def sizeCheck_def rdd_def
  drive_def pr_gate_def pr_wait_def pr_consts pr_lockTimeout_def pr_gate_opts_def pr_wait_opts_def world_def start_kit_def pr_defaults_def


lemma demo_merges: "fst (pr_run demo_world [''wt'', ''7'', ''topic''] start_kit) = Value Merged"
  "asked is_merge (kt_hist (snd (pr_run demo_world [''wt'', ''7'', ''topic''] start_kit))) = 1"
  by (simp_all add: run_defs gate_run_defs wait_run_defs pr_run_defs numeral_loops parse_demo demo_world_def cong: bind_run_cong)

lemma conflict_stops: "fst (pr_run conflict_world [''wt'', ''7'', ''topic''] start_kit) = Stopped 11 ''restack-conflict''"
  by (simp add: run_defs pr_run_defs numeral_loops parse_demo demo_world_def conflict_world_def cong: bind_run_cong)

lemma parse_wait_demo: "wm_parse [''--expect-head'', ''abc'', ''wt'', ''7''] =
    Parsed \<lparr>wo_Wt = ''wt'', wo_PR = ''7'', wo_Base = ''origin/main'', wo_ExpectHead = ''abc''\<rparr> []"
  by code_simp

lemma demo_waits: "fst (wm_run demo_world [''--expect-head'', ''abc'', ''wt'', ''7''] start_kit) = Value 0"
  by (simp add: run_defs wait_run_defs wm_run_def world_def start_kit_def numeral_loops parse_wait_demo demo_world_def cong: bind_run_cong)

theorem pipeline_merge_is_earned_witness:
  "(\<exists>wt. guarded is_merge (earned (pr_defaults\<lparr>po_wt := ''wt'', po_pr := ''7'', po_branch := ''topic''\<rparr>) wt)
      (kt_hist (snd (pr_run demo_world [''wt'', ''7'', ''topic''] start_kit)))) \<and>
    asked is_merge (kt_hist (snd (pr_run demo_world [''wt'', ''7'', ''topic''] start_kit))) = 1"
  using pipeline_merge_is_earned[OF parse_demo, of demo_world] demo_merges by blast

theorem pipeline_success_is_merged_witness:
  "\<exists>wt. confirmed (pr_wait_opts (pr_defaults\<lparr>po_wt := ''wt'', po_pr := ''7'', po_branch := ''topic''\<rparr>) wt)
      (kt_hist (snd (pr_run demo_world [''wt'', ''7'', ''topic''] start_kit)))"
  using pipeline_success_is_merged[OF parse_demo, of demo_world] demo_merges by blast

theorem pipeline_stops_are_typed_witness:
  "asked is_push (kt_hist (snd (pr_run conflict_world [''wt'', ''7'', ''topic''] start_kit))) = 0 \<and>
    (\<exists>wt. aborted wt (kt_hist (snd (pr_run conflict_world [''wt'', ''7'', ''topic''] start_kit))))"
  using pipeline_stops_are_typed[OF parse_demo, of conflict_world] conflict_stops by (simp add: restack_stops_def)

theorem wait_merge_confirms_head_witness:
  "confirmed \<lparr>wo_Wt = ''/w/wt'', wo_PR = ''7'', wo_Base = ''origin/main'', wo_ExpectHead = ''abc''\<rparr>
     (kt_hist (snd (wm_run demo_world [''--expect-head'', ''abc'', ''wt'', ''7''] start_kit)))"
  using wait_merge_confirms_head[OF parse_wait_demo, of demo_world] demo_waits by (simp add: demo_world_def kit_Abs_def has_prefix_def)

end
