(* ===== verification/Merge_Train.thy ===== *)
theory Merge_Train
  imports Kit_Run "HOL-Library.List_Lexorder"
begin

text \<open>
  \<open>rsdd gate merge-train\<close> (\<open>internal/gate/mergetrain*.go\<close>): gate a batch of approved pull requests once on a combined
  local head, then merge them in order. The mutable fields of the Go \<open>train\<close> are a record that the programs of \<open>Kit_Run\<close>
  carry; the fields fixed before the run starts are a second record. Every \<open>finish\<close> of the code is a stop, and the run
  handles the stop where the code unwinds: it writes the receipt, cleans up and ends with the state and exit code.
  Reading gh's JSON (\<open>encoding/json\<close>) and the clock and pid of the run stamp are parameters.
\<close>

section \<open>Data\<close>

record mt_row =
  mr_head :: string
  mr_status :: string
  mr_reason :: string

definition empty_row :: mt_row where
  "empty_row = \<lparr>mr_head = [], mr_status = [], mr_reason = []\<rparr>"

record mt_receipt =
  rcpt_State :: string
  rcpt_BaseSHA :: string
  rcpt_TrainBranch :: string
  rcpt_TrainSHA :: string
  rcpt_RC :: "int option"
  rcpt_Log :: string
  rcpt_Cmd :: string
  rcpt_Culprit :: "int option"
  rcpt_PRs :: "(int \<times> mt_row) list"

text \<open>The options, and what is fixed before the first fetch.\<close>

record mt_opts =
  mo_repo :: string
  mo_base :: string
  mo_state :: string
  mo_gateCmd :: string
  mo_serial :: bool
  mo_bisect :: bool
  mo_dryRun :: bool
  mo_pin :: "string \<Rightarrow> string"
  mo_pcwd :: "string \<Rightarrow> string"
  mo_pcwdKeys :: "string list"
  mo_prs :: "string list"
  mo_remote :: string
  mo_baseBranch :: string
  mo_wtroot :: string
  mo_ts :: string

record train =
  tr_pcwd :: "string \<Rightarrow> string"
  tr_rows :: "string \<Rightarrow> mt_row"
  tr_baseSHA :: string
  tr_trainSHA :: string
  tr_gateRC :: "int option"
  tr_gateLog :: string
  tr_culprit :: string
  tr_started :: bool
  tr_madeWts :: "string list"
  tr_keep :: "string list"
  tr_merged :: "string list"
  tr_mergedOK :: "string list"
  tr_expTip :: string
  tr_stopped :: string
  tr_stopRC :: int
  tr_receipt :: "mt_receipt option"

text \<open>A member of the object gh prints; a value that is not null, a string or a boolean keeps its JSON text.\<close>

datatype jval = JNull | JString string | JBool bool | JText string

record mt_env =
  me_kit :: kit_env
  me_Cwd :: string
  me_member :: "string \<Rightarrow> string \<Rightarrow> jval option" \<comment> \<open>the text, the key\<close>
  me_ts :: string

type_synonym 'a mt = "(train, 'a) prog"

section \<open>The command line\<close>

definition cut_at :: "char \<Rightarrow> string \<Rightarrow> (string \<times> string) option" where
  "cut_at c s = (if c \<in> set s then Some (takeWhile (\<lambda>d. d \<noteq> c) s, tl (dropWhile (\<lambda>d. d \<noteq> c) s)) else None)"

definition mt_split :: "string \<Rightarrow> string \<times> string" where
  "mt_split v = (case cut_at (CHR ''='') v of Some p \<Rightarrow> p | None \<Rightarrow> (v, v))"

definition mt_defaults :: mt_opts where
  "mt_defaults = \<lparr>mo_repo = ''.'', mo_base = ''origin/main'', mo_state = [], mo_gateCmd = [], mo_serial = False, mo_bisect = False,
     mo_dryRun = False, mo_pin = (\<lambda>_. []), mo_pcwd = (\<lambda>_. []), mo_pcwdKeys = [], mo_prs = [], mo_remote = [], mo_baseBranch = [],
     mo_wtroot = [], mo_ts = []\<rparr>"

datatype mt_parsed = MRefused string | MHelp | MParsed mt_opts "string list"

text \<open>The value of \<open>--rdd-ok\<close>: a number, \<open>=\<close>, and seven or more hex characters.\<close>

definition bad_pin :: "string \<Rightarrow> string option" where
  "bad_pin v =
     (let (k, sha) = mt_split v
      in if k = [] \<or> \<not> all_digits k then Some (''--rdd-ok PR must be a number: '' @ v)
         else if \<not> is_hex sha then Some (''--rdd-ok SHA must be hex: '' @ v)
         else if length sha < 7 \<or> k @ ''='' @ sha \<noteq> v then Some (''--rdd-ok wants PR=SHA with 7+ hex chars: '' @ v)
         else None)"

definition bad_pcwd :: "string \<Rightarrow> string option" where
  "bad_pcwd v =
     (let (k, dir) = mt_split v
      in if k = [] \<or> \<not> all_digits k then Some (''--pr-cwd PR must be a number: '' @ v)
         else if dir = [] \<or> k @ ''='' @ dir \<noteq> v then Some (''--pr-cwd wants PR=DIR: '' @ v)
         else None)"

fun mt_flags :: "mt_opts \<Rightarrow> string list \<Rightarrow> mt_parsed" where
  "mt_flags o' [] = MParsed o' []"
| "mt_flags o' (a # rest) =
     (if a = ''--rdd-ok'' then
        (case rest of [] \<Rightarrow> MRefused ''--rdd-ok needs PR=SHA''
         | v # rest' \<Rightarrow> (case bad_pin v of Some msg \<Rightarrow> MRefused msg
             | None \<Rightarrow> mt_flags (o'\<lparr>mo_pin := (mo_pin o')(fst (mt_split v) := snd (mt_split v))\<rparr>) rest'))
      else if a = ''--pr-cwd'' then
        (case rest of [] \<Rightarrow> MRefused ''--pr-cwd needs PR=DIR''
         | v # rest' \<Rightarrow> (case bad_pcwd v of Some msg \<Rightarrow> MRefused msg
             | None \<Rightarrow> mt_flags (o'\<lparr>mo_pcwd := (mo_pcwd o')(fst (mt_split v) := snd (mt_split v)),
                 mo_pcwdKeys := List.insert (fst (mt_split v)) (mo_pcwdKeys o')\<rparr>) rest'))
      else if a = ''--repo'' then (case rest of [] \<Rightarrow> MRefused ''--repo needs a value'' | v # rest' \<Rightarrow> mt_flags (o'\<lparr>mo_repo := v\<rparr>) rest')
      else if a = ''--base-ref'' then
        (case rest of [] \<Rightarrow> MRefused ''--base-ref needs a value'' | v # rest' \<Rightarrow> mt_flags (o'\<lparr>mo_base := v\<rparr>) rest')
      else if a = ''--state-dir'' then
        (case rest of [] \<Rightarrow> MRefused ''--state-dir needs a value'' | v # rest' \<Rightarrow> mt_flags (o'\<lparr>mo_state := v\<rparr>) rest')
      else if a = ''--gate-cmd'' then
        (case rest of [] \<Rightarrow> MRefused ''--gate-cmd needs a value'' | v # rest' \<Rightarrow> mt_flags (o'\<lparr>mo_gateCmd := v\<rparr>) rest')
      else if a = ''--serial'' then mt_flags (o'\<lparr>mo_serial := True\<rparr>) rest
      else if a = ''--bisect'' then mt_flags (o'\<lparr>mo_bisect := True\<rparr>) rest
      else if a = ''--dry-run'' then mt_flags (o'\<lparr>mo_dryRun := True\<rparr>) rest
      else if a = ''-h'' \<or> a = ''--help'' then MHelp
      else if a = ''--'' then MParsed o' rest
      else if has_prefix a ''-'' then MRefused (''unknown option '' @ a)
      else MParsed o' (a # rest))"

text \<open>The checks on the words that are left, in the order of the code.\<close>

definition mt_usage :: "mt_opts \<Rightarrow> string list \<Rightarrow> string option" where
  "mt_usage o' prs =
     (if prs = [] then Some ''kit-merge-train.sh [options] <pr> [<pr>...]''
      else case find (\<lambda>p. p = [] \<or> \<not> all_digits p) prs of
             Some p \<Rightarrow> Some (''pr must be a number: '' @ p)
           | None \<Rightarrow>
               if \<not> distinct prs then Some ''a PR is listed twice''
               else case find (\<lambda>k. k \<notin> set prs) (sort (mo_pcwdKeys o')) of
                      Some k \<Rightarrow> Some (''--pr-cwd names #'' @ k @ '', which is not in the batch'')
                    | None \<Rightarrow>
                        if mo_serial o' \<and> mo_gateCmd o' \<noteq> [] then Some ''--serial cannot be combined with --gate-cmd''
                        else if cut_at (CHR ''/'') (mo_base o') = None then Some (''--base-ref must be <remote>/<branch>: '' @ mo_base o')
                        else None)"

section \<open>Reading gh\<close>

definition mtJqRaw :: "jval option \<Rightarrow> bool \<Rightarrow> string" where
  "mtJqRaw v alt =
     (if alt \<and> (v = None \<or> v = Some JNull \<or> v = Some (JBool False)) then []
      else case v of
             None \<Rightarrow> ''null'' | Some JNull \<Rightarrow> ''null'' | Some (JString t) \<Rightarrow> t
           | Some (JBool b) \<Rightarrow> if b then ''true'' else ''false'' | Some (JText t) \<Rightarrow> t)"

definition ascii_lower :: "string \<Rightarrow> string" where
  "ascii_lower s = map (\<lambda>c. if c \<in> set ''ABCDEFGHIJKLMNOPQRSTUVWXYZ'' then char_of (of_char c + 32 :: nat) else c) s"

definition mtPinMatches :: "string \<Rightarrow> string \<Rightarrow> bool" where
  "mtPinMatches oid pin = has_prefix (ascii_lower oid) (ascii_lower pin)"

section \<open>Children, rows and the receipt\<close>

definition mt_dir :: "mt_env \<Rightarrow> string \<Rightarrow> string" where
  "mt_dir e d = (if d = [] then [] else kit_Abs (me_Cwd e) d)"

abbreviation mt_git :: "mt_env \<Rightarrow> string \<Rightarrow> string list \<Rightarrow> reply mt" where
  "mt_git e dir args \<equiv> child (me_kit e) (Git (mt_dir e dir) args)"

definition mt_fetch :: "mt_env \<Rightarrow> mt_opts \<Rightarrow> reply mt" where
  "mt_fetch e c = Retry (me_kit e) 3 (mt_git e (mo_repo c) [''fetch'', ''-q'', mo_remote c])"

definition set_row :: "string \<Rightarrow> (mt_row \<Rightarrow> mt_row) \<Rightarrow> unit mt" where
  "set_row p f = modify_k (\<lambda>s. s\<lparr>tr_rows := (tr_rows s)(p := f (tr_rows s p))\<rparr>)"

definition row_status :: "string \<Rightarrow> string \<Rightarrow> string \<Rightarrow> unit mt" where
  "row_status p status reason = set_row p (\<lambda>r. r\<lparr>mr_status := status, mr_reason := reason\<rparr>)"

definition mt_branch :: "mt_opts \<Rightarrow> string" where "mt_branch c = ''train/'' @ mo_ts c"
definition mt_wt :: "mt_opts \<Rightarrow> string" where "mt_wt c = mo_wtroot c @ ''/train-'' @ mo_ts c"
definition mt_ref :: "mt_opts \<Rightarrow> string \<Rightarrow> string" where "mt_ref c p = ''refs/train/'' @ mo_ts c @ ''/'' @ p"
definition mt_receiptPath :: "mt_opts \<Rightarrow> string" where "mt_receiptPath c = mo_state c @ ''/train-'' @ mo_ts c @ ''.json''"

definition prNum :: "string \<Rightarrow> int" where
  \<comment> \<open>a number beyond 64 bits is the largest one\<close>
  "prNum p = (case atoi p of None \<Rightarrow> 2 ^ 63 - 1 | Some n \<Rightarrow> n)"

definition receipt_of :: "mt_opts \<Rightarrow> train \<Rightarrow> string \<Rightarrow> mt_receipt" where
  "receipt_of c s state =
     \<lparr>rcpt_State = state, rcpt_BaseSHA = tr_baseSHA s, rcpt_TrainBranch = mt_branch c, rcpt_TrainSHA = tr_trainSHA s,
      rcpt_RC = tr_gateRC s, rcpt_Log = tr_gateLog s, rcpt_Cmd = (if mo_gateCmd c = [] then ''default'' else mo_gateCmd c),
      rcpt_Culprit = (if tr_culprit s = [] then None else atoi (tr_culprit s)),
      rcpt_PRs = map (\<lambda>p. (prNum p, let r = tr_rows s p in if mr_status r = [] then r\<lparr>mr_status := ''pending''\<rparr> else r)) (mo_prs c)\<rparr>"

definition writeReceipt :: "mt_env \<Rightarrow> mt_opts \<Rightarrow> string \<Rightarrow> unit mt" where
  "writeReceipt e c state =
     bind_k (modify_k (\<lambda>s. s\<lparr>tr_receipt := Some (receipt_of c s state)\<rparr>)) (\<lambda>_.
     bind_k (os_ok (me_kit e) ''write'' (mt_receiptPath c)) (\<lambda>_. return_k ()))"

text \<open>Signals are not looked at once the run is finishing: the children of the cleanup are asked without a poll.\<close>

primrec ask_all :: "kit_env \<Rightarrow> action list \<Rightarrow> unit mt" where
  "ask_all e [] = return_k ()"
| "ask_all e (a # as) = bind_k (ask e a) (\<lambda>_. ask_all e as)"

definition cleanup_actions :: "mt_env \<Rightarrow> mt_opts \<Rightarrow> train \<Rightarrow> action list" where
  "cleanup_actions e c s =
     map (\<lambda>w. Git (mt_dir e (mo_repo c)) [''worktree'', ''remove'', ''--force'', w]) (tr_madeWts s) @
     (if tr_started s then [Git (mt_dir e (mo_repo c)) [''branch'', ''-D'', mt_branch c]] else []) @
     map (\<lambda>p. Git (mt_dir e (mo_repo c)) [''update-ref'', ''-d'', mt_ref c p]) (mo_prs c) @
     [Git (mt_dir e (mo_repo c)) [''worktree'', ''prune'']]"

definition cleanup :: "mt_env \<Rightarrow> mt_opts \<Rightarrow> unit mt" where
  "cleanup e c = bind_k get_k (\<lambda>s. ask_all (me_kit e) (cleanup_actions e c s))"

definition finish :: "mt_env \<Rightarrow> mt_opts \<Rightarrow> int \<Rightarrow> string \<Rightarrow> unit mt" where
  "finish e c code state =
     bind_k (writeReceipt e c state) (\<lambda>_. bind_k (cleanup e c) (\<lambda>_. stop_k code state))"

definition finishing :: "mt_env \<Rightarrow> mt_opts \<Rightarrow> unit mt \<Rightarrow> unit mt" where
  "finishing e c m k = (case m k of (Value x, k') \<Rightarrow> (Value x, k') | (Stopped code state, k') \<Rightarrow> finish e c code state k')"

section \<open>The checks of each pull request\<close>

definition git_out :: "reply \<Rightarrow> string" where
  "git_out r = chomp (rp_out r)"

definition prCwdOK :: "mt_env \<Rightarrow> mt_opts \<Rightarrow> string \<Rightarrow> string \<Rightarrow> bool mt" where
  "prCwdOK e c p oid =
     bind_k get_k (\<lambda>s. let d = tr_pcwd s p; common = [''rev-parse'', ''--path-format=absolute'', ''--git-common-dir''] in
     bind_k (os_ok (me_kit e) ''isdir'' (kit_Abs (me_Cwd e) d)) (\<lambda>dir.
     if \<not> dir then return_k False
     else bind_k (mt_git e d common) (\<lambda>a.
     if rp_rc a \<noteq> 0 then return_k False
     else bind_k (mt_git e (mo_repo c) common) (\<lambda>b.
     if rp_rc b \<noteq> 0 then return_k False
     else if git_out a = [] \<or> git_out a \<noteq> git_out b then return_k False
     else bind_k (mt_git e d [''rev-parse'', ''HEAD'']) (\<lambda>h.
     if rp_rc h \<noteq> 0 \<or> git_out h \<noteq> oid then return_k False
     else bind_k (ResolveDir (me_kit e) (me_Cwd e) d) (\<lambda>phys. case phys of None \<Rightarrow> return_k False
       | Some w \<Rightarrow> bind_k (modify_k (\<lambda>s. s\<lparr>tr_pcwd := (tr_pcwd s)(p := w)\<rparr>)) (\<lambda>_. return_k True)))))))"

definition fetch_pr :: "mt_env \<Rightarrow> mt_opts \<Rightarrow> string \<Rightarrow> string \<Rightarrow> string mt" where
  \<comment> \<open>the last check: the head fetched into the train's own ref is gh's head; the reason, or nothing\<close>
  "fetch_pr e c p oid =
     bind_k (Retry (me_kit e) 3 (mt_git e (mo_repo c) [''fetch'', ''-q'', mo_remote c, ''+refs/pull/'' @ p @ ''/head:'' @ mt_ref c p])) (\<lambda>f.
       if rp_rc f \<noteq> 0 then return_k ''head-moved''
       else bind_k (mt_git e (mo_repo c) [''rev-parse'', mt_ref c p]) (\<lambda>h.
         return_k (if git_out h \<noteq> oid then ''head-moved'' else [])))"

text \<open>The checks in the order of the code; the reason to refuse the pull request, or nothing.\<close>

definition check_reason :: "mt_env \<Rightarrow> mt_opts \<Rightarrow> string \<Rightarrow> string \<Rightarrow> (string \<Rightarrow> jval option) \<Rightarrow> train \<Rightarrow> string mt" where
  "check_reason e c p oid field s =
     (if mtJqRaw (field ''state'') True \<noteq> ''OPEN'' then return_k ''not-open''
      else if mtJqRaw (field ''isDraft'') False \<noteq> ''false'' then return_k ''draft''
      else if mtJqRaw (field ''baseRefName'') True \<noteq> mo_baseBranch c then return_k (''base-not-'' @ mo_baseBranch c)
      else if oid = [] then return_k ''no-head''
      else if mo_pin c p = [] then return_k ''rdd-unconfirmed''
      else if \<not> mtPinMatches oid (mo_pin c p) then return_k ''rdd-head-mismatch''
      else bind_k (if tr_pcwd s p = [] then return_k True else prCwdOK e c p oid) (\<lambda>ok.
        if \<not> ok then return_k ''pr-cwd-mismatch'' else fetch_pr e c p oid))"

definition checkPR :: "mt_env \<Rightarrow> mt_opts \<Rightarrow> string \<Rightarrow> unit mt" where
  "checkPR e c p =
     bind_k (Retry (me_kit e) 3 (gh (me_kit e) (me_Cwd e) [''pr'', ''view'', p, ''--json'', ''state,isDraft,headRefOid,baseRefName''])) (\<lambda>info.
       if rp_rc info \<noteq> 0 \<or> git_out info = [] then row_status p ''refused'' ''gh-view-failed''
       else let field = me_member e (git_out info); oid = mtJqRaw (field ''headRefOid'') True in
         bind_k (set_row p (\<lambda>r. r\<lparr>mr_head := oid\<rparr>)) (\<lambda>_. bind_k get_k (\<lambda>s. bind_k (check_reason e c p oid field s)
           (\<lambda>why. if why \<noteq> [] then row_status p ''refused'' why else modify_k (\<lambda>s. s\<lparr>tr_keep := tr_keep s @ [p]\<rparr>)))))"

primrec each_k :: "('b \<Rightarrow> ('s, unit) prog) \<Rightarrow> 'b list \<Rightarrow> ('s, unit) prog" where
  "each_k f [] = return_k ()"
| "each_k f (x # xs) = bind_k (f x) (\<lambda>_. each_k f xs)"

definition checkPRs :: "mt_env \<Rightarrow> mt_opts \<Rightarrow> unit mt" where
  "checkPRs e c = each_k (checkPR e c) (mo_prs c)"

section \<open>Building and gating the train\<close>

definition mergeNoFF :: "mt_env \<Rightarrow> mt_opts \<Rightarrow> string \<Rightarrow> reply mt" where
  "mergeNoFF e c p =
     bind_k get_k (\<lambda>s. mt_git e (mt_wt c) [''merge'', ''-q'', ''--no-ff'', ''-m'', ''train: merge #'' @ p, mr_head (tr_rows s p)])"

definition build_one :: "mt_env \<Rightarrow> mt_opts \<Rightarrow> string \<Rightarrow> unit mt" where
  "build_one e c p =
     bind_k (mergeNoFF e c p) (\<lambda>m.
       if rp_rc m = 0 then modify_k (\<lambda>s. s\<lparr>tr_merged := tr_merged s @ [p]\<rparr>)
       else bind_k (mt_git e (mt_wt c) [''ls-files'', ''-u'']) (\<lambda>u.
            bind_k (mt_git e (mt_wt c) [''merge'', ''--abort'']) (\<lambda>_.
              if git_out u = [] then stop_k 29 ''train-error'' else row_status p ''dropped'' ''train-conflict'')))"

definition buildTrain :: "mt_env \<Rightarrow> mt_opts \<Rightarrow> unit mt" where
  "buildTrain e c =
     bind_k (os_ok (me_kit e) ''mkdir'' (mo_wtroot c)) (\<lambda>made. if \<not> made then stop_k 29 ''train-error'' else
     bind_k get_k (\<lambda>s0.
     bind_k (mt_git e (mo_repo c) [''worktree'', ''add'', ''-q'', ''-b'', mt_branch c, mt_wt c, tr_baseSHA s0]) (\<lambda>w.
     if rp_rc w \<noteq> 0 then stop_k 29 ''train-error'' else
     bind_k (modify_k (\<lambda>s. s\<lparr>tr_started := True, tr_madeWts := tr_madeWts s @ [mt_wt c]\<rparr>)) (\<lambda>_.
     bind_k (each_k (build_one e c) (tr_keep s0)) (\<lambda>_. bind_k get_k (\<lambda>s1.
     if tr_merged s1 = [] then stop_k 28 ''train-empty'' else
     bind_k (mt_git e (mt_wt c) [''rev-parse'', ''HEAD'']) (\<lambda>h. modify_k (\<lambda>s. s\<lparr>tr_trainSHA := git_out h\<rparr>))))))))"

definition mt_gate_opts :: "mt_env \<Rightarrow> mt_opts \<Rightarrow> string \<Rightarrow> gate_opts" where
  "mt_gate_opts e c label' =
     \<lparr>go_Cwd = me_Cwd e, go_Wt = mt_wt c, go_Label = label', go_State = mo_state c, go_Cmd = mo_gateCmd c, go_Serial = mo_serial c,
      go_LockTimeout = ke_getenv (me_kit e) ''KIT_GATE_LOCK_TIMEOUT'', go_OverflowTriesOnce = True, go_Probe = []\<rparr>"

text \<open>0 green, 16 red, and 22 for a lock timeout inside a bisect; everything else ends the run.\<close>

definition runGate :: "mt_env \<Rightarrow> mt_opts \<Rightarrow> string \<Rightarrow> bool \<Rightarrow> int mt" where
  "runGate e c label' inBisect =
     bind_k (modify_k (\<lambda>s. s\<lparr>tr_gateLog := mo_state c @ ''/gate-'' @ label' @ ''.log''\<rparr>)) (\<lambda>_.
     bind_k (kitgate_Run (me_kit e) (mt_gate_opts e c label')) (\<lambda>res.
     if gr_Interrupted res then stop_k 29 ''train-error'' else
     bind_k (poll (me_kit e)) (\<lambda>_.
     if gr_Code res = 0 then bind_k (modify_k (\<lambda>s. s\<lparr>tr_gateRC := Some 0\<rparr>)) (\<lambda>_. return_k 0)
     else if gr_Code res = 16 then bind_k (modify_k (\<lambda>s. s\<lparr>tr_gateRC := Some (gr_GateRC res)\<rparr>)) (\<lambda>_. return_k 16)
     else if gr_Code res = 22 then (if inBisect then return_k 22 else stop_k 22 ''gate-lock-timeout'')
     else stop_k 29 ''train-error'')))"

text \<open>The train worktree is rebuilt as the base and the first pull requests of the list.\<close>

definition rebuild :: "mt_env \<Rightarrow> mt_opts \<Rightarrow> string list \<Rightarrow> unit mt" where
  "rebuild e c ps =
     bind_k get_k (\<lambda>s. bind_k (mt_git e (mt_wt c) [''reset'', ''-q'', ''--hard'', tr_baseSHA s]) (\<lambda>r.
       if rp_rc r \<noteq> 0 then stop_k 29 ''train-error''
       else each_k (\<lambda>p. bind_k (mergeNoFF e c p) (\<lambda>m. if rp_rc m \<noteq> 0 then stop_k 29 ''train-error'' else return_k ())) ps))"

definition bisect_label :: "mt_opts \<Rightarrow> nat \<Rightarrow> string" where
  "bisect_label c mid = ''train-'' @ mo_ts c @ ''-bisect-'' @ dec_str mid"

function bisect_loop :: "mt_env \<Rightarrow> mt_opts \<Rightarrow> string list \<Rightarrow> nat \<Rightarrow> nat \<Rightarrow> (nat option) mt" where
  \<comment> \<open>the length of the first red prefix, or nothing when the lock was lost\<close>
  "bisect_loop e c merged lo hi =
     (if hi - lo > 1 then
        let mid = (lo + hi) div 2
        in bind_k (rebuild e c (take mid merged)) (\<lambda>_.
           bind_k (runGate e c (bisect_label c mid) True) (\<lambda>r.
             if r = 0 then bisect_loop e c merged mid hi
             else if r = 22 then return_k None
             else bisect_loop e c merged lo mid))
      else return_k (Some hi))"
  by pat_completeness auto
termination
  by (relation "measure (\<lambda>(e, c, merged, lo, hi). hi - lo)") auto

text \<open>The full gate's verdict stays the gate result, whatever the bisect runs did.\<close>

definition bisect_train :: "mt_env \<Rightarrow> mt_opts \<Rightarrow> unit mt" where
  "bisect_train e c =
     bind_k get_k (\<lambda>s. bind_k (bisect_loop e c (tr_merged s) 0 (length (tr_merged s))) (\<lambda>red.
       bind_k (modify_k (\<lambda>s'. s'\<lparr>tr_gateRC := tr_gateRC s, tr_gateLog := tr_gateLog s\<rparr>)) (\<lambda>_.
       case red of
         None \<Rightarrow> return_k ()
       | Some hi \<Rightarrow> bind_k (modify_k (\<lambda>s'. s'\<lparr>tr_culprit := tr_merged s ! (hi - 1)\<rparr>)) (\<lambda>_.
           row_status (tr_merged s ! (hi - 1)) ''culprit'' ''first-red-prefix''))))"

definition runTrainGate :: "mt_env \<Rightarrow> mt_opts \<Rightarrow> unit mt" where
  "runTrainGate e c =
     bind_k (runGate e c (''train-'' @ mo_ts c) False) (\<lambda>r.
     if r = 0 then return_k ()
     else bind_k (if mo_bisect c then bisect_train e c else return_k ()) (\<lambda>_. stop_k 26 ''train-gate-failed''))"

section \<open>Merging\<close>

definition mt_rev :: "mt_env \<Rightarrow> string \<Rightarrow> string \<Rightarrow> string mt" where
  "mt_rev e dir rev' = bind_k (mt_git e dir [''rev-parse'', rev']) (\<lambda>r. return_k (git_out r))"

definition preMerge :: "mt_env \<Rightarrow> mt_opts \<Rightarrow> unit mt" where
  "preMerge e c =
     bind_k (mt_fetch e c) (\<lambda>f. if rp_rc f \<noteq> 0 then stop_k 21 ''fetch-failed'' else
     bind_k (mt_rev e (mo_repo c) (mo_base c @ ''^{commit}'')) (\<lambda>cur. bind_k get_k (\<lambda>s.
     if cur \<noteq> tr_baseSHA s then stop_k 30 ''base-moved''
     else modify_k (\<lambda>s. s\<lparr>tr_expTip := tr_baseSHA s\<rparr>))))"

definition verifyTree :: "mt_env \<Rightarrow> mt_opts \<Rightarrow> unit mt" where
  "verifyTree e c =
     bind_k get_k (\<lambda>s.
     if tr_mergedOK s = [] then return_k ()
     else bind_k (if length (tr_mergedOK s) = length (tr_merged s) then mt_rev e (mt_wt c) (tr_trainSHA s @ ''^{tree}'')
                  else bind_k (rebuild e c (tr_mergedOK s)) (\<lambda>_. mt_rev e (mt_wt c) ''HEAD^{tree}''))
       (\<lambda>want. bind_k (mt_rev e (mo_repo c) (mo_base c @ ''^{tree}'')) (\<lambda>got.
         if got \<noteq> want then stop_k 32 ''tree-mismatch'' else return_k ())))"

definition mt_wait_opts :: "mt_opts \<Rightarrow> string \<Rightarrow> string \<Rightarrow> string \<Rightarrow> wait_opts" where
  "mt_wait_opts c pw p expectHead = \<lparr>wo_Wt = pw, wo_PR = p, wo_Base = mo_base c, wo_ExpectHead = expectHead\<rparr>"

definition stop_train :: "string \<Rightarrow> int \<Rightarrow> unit mt" where
  "stop_train p rc = modify_k (\<lambda>s. s\<lparr>tr_stopped := p, tr_stopRC := rc\<rparr>)"

text \<open>After a merge: the base must have moved from the expected tip by exactly this merge.\<close>

definition after_merge :: "mt_env \<Rightarrow> mt_opts \<Rightarrow> string \<Rightarrow> unit mt" where
  "after_merge e c p =
     bind_k (set_row p (\<lambda>r. r\<lparr>mr_status := ''merged''\<rparr>)) (\<lambda>_.
     bind_k (modify_k (\<lambda>s. s\<lparr>tr_mergedOK := tr_mergedOK s @ [p]\<rparr>)) (\<lambda>_.
     bind_k (mt_fetch e c) (\<lambda>f.
     if rp_rc f \<noteq> 0 then
       bind_k (stop_train p 21) (\<lambda>_. set_row p (\<lambda>r. r\<lparr>mr_reason := ''fetch after the merge failed''\<rparr>))
     else bind_k (mt_rev e (mo_repo c) (mo_base c @ ''^{commit}'')) (\<lambda>cur.
          bind_k (mt_rev e (mo_repo c) (mo_base c @ ''^'')) (\<lambda>parent. bind_k get_k (\<lambda>s.
       if parent \<noteq> tr_expTip s then
         bind_k (stop_train p 31) (\<lambda>_. set_row p (\<lambda>r. r\<lparr>mr_reason := ''main-raced: '' @ mo_base c @ ''^ is not the expected tip '' @ tr_expTip s\<rparr>))
       else modify_k (\<lambda>s. s\<lparr>tr_expTip := cur\<rparr>)))))))"

definition mergePR :: "mt_env \<Rightarrow> mt_opts \<Rightarrow> string \<Rightarrow> string \<Rightarrow> bool \<Rightarrow> unit mt" where
  \<comment> \<open>in the worktree of the pull request, which the train removes again when it made it\<close>
  "mergePR e c p pw own =
     bind_k get_k (\<lambda>s.
     bind_k (kitwait_Run (me_kit e) (mt_wait_opts c pw p (mr_head (tr_rows s p)))) (\<lambda>mrc.
     bind_k (if own then bind_k (mt_git e (mo_repo c) [''worktree'', ''remove'', ''--force'', pw]) (\<lambda>_. return_k ()) else return_k ()) (\<lambda>_.
       if mrc = 0 then after_merge e c p
       else if mrc = 33 then bind_k (stop_train p 33) (\<lambda>_. row_status p ''out-of-band'' (''MERGED with a head other than the gated '' @ mr_head (tr_rows s p)))
       else bind_k (stop_train p mrc) (\<lambda>_. row_status p ''pending'' (''stopped: kit-wait-merge rc='' @ dec_str (nat mrc))))))"

definition merge_one :: "mt_env \<Rightarrow> mt_opts \<Rightarrow> string \<Rightarrow> unit mt" where
  "merge_one e c p =
     bind_k get_k (\<lambda>s.
     if tr_stopped s \<noteq> [] then row_status p ''pending'' (''after #'' @ tr_stopped s)
     else if tr_pcwd s p \<noteq> [] then mergePR e c p (tr_pcwd s p) False
     else let pw = mo_wtroot c @ ''/train-'' @ mo_ts c @ ''-pr'' @ p in
       bind_k (mt_git e (mo_repo c) [''worktree'', ''add'', ''-q'', ''--detach'', pw, mr_head (tr_rows s p)]) (\<lambda>w.
       if rp_rc w \<noteq> 0 then bind_k (stop_train p 29) (\<lambda>_. row_status p ''pending'' ''worktree-failed'')
       else bind_k (modify_k (\<lambda>s. s\<lparr>tr_madeWts := tr_madeWts s @ [pw]\<rparr>)) (\<lambda>_. mergePR e c p pw True)))"

definition stop_state :: "int \<Rightarrow> int \<times> string" where
  "stop_state rc =
     (if rc = 17 then (17, ''ci-failed'') else if rc = 18 then (18, ''merge-degraded'') else if rc = 21 then (21, ''fetch-failed'')
      else if rc = 29 then (29, ''train-error'') else if rc = 31 then (31, ''main-raced'') else if rc = 33 then (33, ''merged-out-of-band'')
      else (19, ''not-merged''))"

definition mergeAll :: "mt_env \<Rightarrow> mt_opts \<Rightarrow> unit mt" where
  "mergeAll e c =
     bind_k get_k (\<lambda>s0. bind_k (each_k (merge_one e c) (tr_merged s0)) (\<lambda>_. bind_k get_k (\<lambda>s.
     if tr_stopped s \<noteq> [] then
       (let (code, state) = stop_state (tr_stopRC s)
        in bind_k (if state \<in> set [''not-merged'', ''ci-failed'', ''merge-degraded''] then verifyTree e c else return_k ())
             (\<lambda>_. stop_k code state))
     else bind_k (verifyTree e c) (\<lambda>_.
       if list_ex (\<lambda>p. mr_status (tr_rows s p) \<noteq> ''merged'') (mo_prs c) then stop_k 27 ''train-partial''
       else stop_k 0 ''merged''))))"

section \<open>The run\<close>

definition mt_train :: "mt_env \<Rightarrow> mt_opts \<Rightarrow> unit mt" where
  "mt_train e c =
     bind_k (mt_fetch e c) (\<lambda>f. if rp_rc f \<noteq> 0 then stop_k 21 ''fetch-failed'' else
     bind_k (mt_git e (mo_repo c) [''rev-parse'', mo_base c @ ''^{commit}'']) (\<lambda>b. if rp_rc b \<noteq> 0 then stop_k 29 ''train-error'' else
     bind_k (modify_k (\<lambda>s. s\<lparr>tr_baseSHA := git_out b\<rparr>)) (\<lambda>_.
     bind_k (checkPRs e c) (\<lambda>_. bind_k get_k (\<lambda>s. if tr_keep s = [] then stop_k 28 ''train-empty'' else
     bind_k (buildTrain e c) (\<lambda>_. bind_k (runTrainGate e c) (\<lambda>_. bind_k (preMerge e c) (\<lambda>_. mergeAll e c))))))))"

definition dir_of :: "string \<Rightarrow> string" where
  "dir_of p = (if last_slash p = 0 then ''/'' else take (last_slash p) p)"

definition base_of :: "string \<Rightarrow> string" where
  "base_of p = (if p = ''/'' then ''/'' else drop (last_slash p + 1) p)"

definition new_train :: "mt_opts \<Rightarrow> train" where
  "new_train c =
     \<lparr>tr_pcwd = mo_pcwd c, tr_rows = (\<lambda>_. empty_row), tr_baseSHA = [], tr_trainSHA = [], tr_gateRC = None, tr_gateLog = [],
      tr_culprit = [], tr_started = False, tr_madeWts = [], tr_keep = [], tr_merged = [], tr_mergedOK = [], tr_expTip = [],
      tr_stopped = [], tr_stopRC = 0, tr_receipt = None\<rparr>"

text \<open>Everything before the signal handler is installed: nothing here polls, and a failure ends the run without a receipt.\<close>

definition mt_resolve :: "mt_env \<Rightarrow> mt_opts \<Rightarrow> string list \<Rightarrow> mt_opts mt" where
  "mt_resolve e o' prs =
     bind_k (os_ok (me_kit e) ''isdir'' (kit_Abs (me_Cwd e) (mo_repo o'))) (\<lambda>dir. if \<not> dir then stop_k 2 ''usage'' else
     bind_k (ResolveDir (me_kit e) (me_Cwd e) (mo_repo o')) (\<lambda>r. case r of None \<Rightarrow> stop_k 2 ''usage'' | Some repo \<Rightarrow>
     bind_k (PhysPath (me_kit e) (me_Cwd e) (if mo_state o' = [] then StateDir (me_kit e) else mo_state o')) (\<lambda>sp.
     case sp of None \<Rightarrow> stop_k 2 ''usage'' | Some state \<Rightarrow>
     if Inside state repo then stop_k 2 ''usage''
     else let (remote, branch) = the (cut_at (CHR ''/'') (mo_base o'))
       in return_k (o'\<lparr>mo_repo := repo, mo_state := state, mo_prs := prs, mo_remote := remote, mo_baseBranch := branch,
            mo_wtroot := dir_of repo @ ''/'' @ base_of repo @ ''-worktrees'', mo_ts := me_ts e\<rparr>))))"

definition mt_run :: "mt_env \<Rightarrow> string list \<Rightarrow> unit mt" where
  "mt_run e args =
     (case mt_flags mt_defaults args of
        MRefused msg \<Rightarrow> stop_k 2 ''usage''
      | MHelp \<Rightarrow> stop_k 0 ''help''
      | MParsed o' prs \<Rightarrow>
          if mt_usage o' prs \<noteq> None then stop_k 2 ''usage''
          else bind_k (mt_resolve e o' prs) (\<lambda>c.
            if mo_dryRun c then stop_k 0 ''plan''
            else bind_k (missing_deps (me_kit e) [''git'', ''gh'', ''jq'', ''flock'']) (\<lambda>missing.
            if missing \<noteq> [] then stop_k 3 ''degraded''
            else bind_k (ask (me_kit e) (Git (mt_dir e (mo_repo c)) [''rev-parse'', ''--git-dir''])) (\<lambda>g.
            if rp_rc g \<noteq> 0 then stop_k 2 ''usage''
            else bind_k (os_ok (me_kit e) ''mkdir'' (mo_state c)) (\<lambda>made.
            if \<not> made then stop_k 2 ''usage''
            else bind_k (modify_k (\<lambda>_. new_train c)) (\<lambda>_. finishing e c (mt_train e c)))))))"

section \<open>What each part asks\<close>

lemma asks_each [asks]: "(\<And>x. asks A (f x)) \<Longrightarrow> asks A (each_k f xs)"
  by (induction xs) (auto intro!: asks)

lemma asks_each_gh [asks]: "asks A (set_row p f)" "asks A (row_status p s t)" "asks A (stop_train p rc)"
  by (simp_all add: set_row_def row_status_def stop_train_def asks)

lemma asks_kitgate [asks]: "(\<And>a. gate_action a \<Longrightarrow> A a) \<Longrightarrow> asks A (kitgate_Run e o')"
  unfolding kitgate_Run_def runLocked_def Let_def by (auto intro!: asks)

lemma asks_kitwait [asks]:
  assumes "\<And>a. wait_action a \<Longrightarrow> A a"
  shows "asks A (kitwait_Run e o')"
proof -
  have "asks A (merge_loop e o' n l)" for n l
    by (induction n arbitrary: l) (auto simp: Let_def confirmMerged_def intro!: asks assms)
  then show ?thesis
    unfolding kitwait_Run_def mergeLoop_def by (auto intro!: asks assms)
qed

text \<open>Everything before the merges asks no merge; everything else only adds to the history.\<close>

abbreviation quiet_prog :: "'a mt \<Rightarrow> bool" where
  "quiet_prog m \<equiv> asks (\<lambda>a. \<not> is_merge a) m"

lemma gate_not_merge: "gate_action a \<Longrightarrow> \<not> is_merge a"
  by (cases a) auto

lemma quiet_mt_fetch: "quiet_prog (mt_fetch e c)"
  unfolding mt_fetch_def by (intro asks) simp_all

lemma quiet_prCwdOK: "quiet_prog (prCwdOK e c p oid)"
  unfolding prCwdOK_def Let_def by (intro asks) simp_all

lemma quiet_checkPR: "quiet_prog (checkPR e c p)"
  unfolding checkPR_def check_reason_def fetch_pr_def Let_def by (intro asks quiet_prCwdOK) simp_all

lemma quiet_rebuild: "quiet_prog (rebuild e c ps)"
  unfolding rebuild_def mergeNoFF_def by (intro asks) simp_all

lemma quiet_buildTrain: "quiet_prog (buildTrain e c)"
  unfolding buildTrain_def build_one_def mergeNoFF_def by (intro asks) simp_all

lemma quiet_runGate: "quiet_prog (runGate e c label' b)"
  unfolding runGate_def by (intro asks gate_not_merge)

lemma quiet_bisect: "quiet_prog (bisect_loop e c merged lo hi)"
proof (induction e c merged lo hi rule: bisect_loop.induct)
  case (1 e c merged lo hi)
  then show ?case
    by (subst bisect_loop.simps) (auto simp: Let_def intro!: asks quiet_rebuild quiet_runGate)
qed

lemma quiet_bisect_train: "quiet_prog (bisect_train e c)"
  unfolding bisect_train_def by (intro asks quiet_bisect)

lemma quiet_runTrainGate: "quiet_prog (runTrainGate e c)"
  unfolding runTrainGate_def by (intro asks quiet_runGate quiet_bisect_train)

lemma quiet_preMerge: "quiet_prog (preMerge e c)"
  unfolding preMerge_def mt_rev_def by (intro asks quiet_mt_fetch) simp_all

section \<open>No merge before the combined gate\<close>

lemma keeps_each: "(\<And>x. keeps I (f x)) \<Longrightarrow> keeps I (each_k f xs)"
  by (induction xs) (auto intro!: keeps)

text \<open>The base the train was built on is read once and kept.\<close>

interpretation base_kept: run_invariant "\<lambda>_. True" "\<lambda>k :: train kit. tr_baseSHA (kt_state k) = sha" for sha
  by unfold_locales simp

abbreviation based_on :: "string \<Rightarrow> train kit \<Rightarrow> bool" where
  "based_on sha k \<equiv> tr_baseSHA (kt_state k) = sha"

lemma base_modify: "(\<And>s. tr_baseSHA (f s) = tr_baseSHA s) \<Longrightarrow> keeps (based_on sha) (modify_k f)"
  by (rule keeps_modify) simp

lemma base_rows: "keeps (based_on sha) (set_row p f)" "keeps (based_on sha) (row_status p s t)"
  by (simp_all add: set_row_def row_status_def base_modify)

lemmas base_keeps = keeps keeps_each base_rows base_kept.child base_kept.os_ok base_kept.Retry base_kept.gate base_modify

lemma base_prCwdOK: "keeps (based_on sha) (prCwdOK e c p oid)"
proof -
  have "keeps (based_on sha) (ResolveDir e' cwd d)" for e' cwd d
    by (rule base_kept.queries) (auto intro!: asks still)
  then show ?thesis
    unfolding prCwdOK_def Let_def by (intro base_keeps) simp_all
qed

lemma base_checkPRs: "keeps (based_on sha) (checkPRs e c)"
  unfolding checkPRs_def checkPR_def check_reason_def fetch_pr_def Let_def by (intro base_keeps base_prCwdOK) simp_all

lemma base_build_one: "keeps (based_on sha) (build_one e c p)"
  unfolding build_one_def mergeNoFF_def by (intro base_keeps) simp_all

text \<open>
  A phase asks its steps \<open>ps\<close> in order when it gets through, asks no merge either way, and leaves the base alone. The
  steps may depend on the base.
\<close>

definition phase :: "(string \<Rightarrow> (action \<Rightarrow> reply \<Rightarrow> bool) list) \<Rightarrow> unit mt \<Rightarrow> bool" where
  "phase ps m \<longleftrightarrow> (\<forall>k. wp m
     (\<lambda>_ k'. based_on (tr_baseSHA (kt_state k)) k' \<and> (\<exists>h. kt_hist k' = kt_hist k @ h \<and> quiet h \<and> in_order (ps (tr_baseSHA (kt_state k))) h))
     (\<lambda>_ _ k'. \<exists>h. kt_hist k' = kt_hist k @ h \<and> quiet h) k)"

lemma phase_quiet: "quiet_prog m \<Longrightarrow> (\<And>sha. keeps (based_on sha) m) \<Longrightarrow> phase (\<lambda>_. []) m"
  unfolding phase_def asks_def keeps_def wp_def quiet_def by (auto split: prod.split outcome.split) (metis snd_conv)+

lemma phase_bind:
  assumes "phase ps m" "phase qs n"
  shows "phase (\<lambda>s. ps s @ qs s) (bind_k m (\<lambda>_. n))"
  unfolding phase_def
proof (intro allI)
  fix k :: "train kit"
  let ?s = "tr_baseSHA (kt_state k)"
  show "wp (bind_k m (\<lambda>_. n)) (\<lambda>_ k'. based_on ?s k' \<and> (\<exists>h. kt_hist k' = kt_hist k @ h \<and> quiet h \<and> in_order (ps ?s @ qs ?s) h))
      (\<lambda>_ _ k'. \<exists>h. kt_hist k' = kt_hist k @ h \<and> quiet h) k"
  proof (rule wp_seq, rule wp_mono[OF assms(1)[unfolded phase_def, rule_format, of k]])
    fix k1
    assume "based_on ?s k1 \<and> (\<exists>h. kt_hist k1 = kt_hist k @ h \<and> quiet h \<and> in_order (ps ?s) h)"
    then obtain h1 where h1: "based_on ?s k1" "kt_hist k1 = kt_hist k @ h1" "quiet h1" "in_order (ps ?s) h1" by blast
    show "wp n (\<lambda>_ k'. based_on ?s k' \<and> (\<exists>h. kt_hist k' = kt_hist k @ h \<and> quiet h \<and> in_order (ps ?s @ qs ?s) h))
        (\<lambda>_ _ k'. \<exists>h. kt_hist k' = kt_hist k @ h \<and> quiet h) k1"
    proof (rule wp_mono[OF assms(2)[unfolded phase_def, rule_format, of k1]])
      fix k2
      assume "based_on (tr_baseSHA (kt_state k1)) k2 \<and> (\<exists>h. kt_hist k2 = kt_hist k1 @ h \<and> quiet h \<and> in_order (qs (tr_baseSHA (kt_state k1))) h)"
      then obtain h2 where h2: "based_on ?s k2" "kt_hist k2 = kt_hist k1 @ h2" "quiet h2" "in_order (qs ?s) h2"
        using h1(1) by auto
      show "based_on ?s k2 \<and> (\<exists>h. kt_hist k2 = kt_hist k @ h \<and> quiet h \<and> in_order (ps ?s @ qs ?s) h)"
        using h1 h2 by (intro conjI exI[of _ "h1 @ h2"]) (auto intro: in_order_append)
    next
      fix c s k2 assume "\<exists>h. kt_hist k2 = kt_hist k1 @ h \<and> quiet h"
      then show "\<exists>h. kt_hist k2 = kt_hist k @ h \<and> quiet h"
        using h1 by auto
    qed
  qed
qed

declare bisect_loop.simps [simp del]

definition fetch_done :: "mt_env \<Rightarrow> mt_opts \<Rightarrow> action \<Rightarrow> reply \<Rightarrow> bool" where
  "fetch_done e c = went_well (Git (mt_dir e (mo_repo c)) [''fetch'', ''-q'', mo_remote c])"

definition base_read :: "mt_env \<Rightarrow> mt_opts \<Rightarrow> string \<Rightarrow> action \<Rightarrow> reply \<Rightarrow> bool" where
  "base_read e c sha a r \<longleftrightarrow> a = Git (mt_dir e (mo_repo c)) [''rev-parse'', mo_base c @ ''^{commit}''] \<and> git_out r = sha"

definition train_added :: "mt_env \<Rightarrow> mt_opts \<Rightarrow> string \<Rightarrow> action \<Rightarrow> reply \<Rightarrow> bool" where
  "train_added e c sha = went_well (Git (mt_dir e (mo_repo c)) [''worktree'', ''add'', ''-q'', ''-b'', mt_branch c, mt_wt c, sha])"

lemma wp_quiet_rest:
  assumes m: "quiet_prog m" "\<And>sha. keeps (based_on sha) m"
    and k1: "kt_hist k1 = kt_hist k @ h1" "quiet h1" "in_order ps h1" "tr_baseSHA (kt_state k1) = s"
  shows "wp m (\<lambda>_ k'. based_on s k' \<and> (\<exists>h. kt_hist k' = kt_hist k @ h \<and> quiet h \<and> in_order ps h))
    (\<lambda>_ _ k'. \<exists>h. kt_hist k' = kt_hist k @ h \<and> quiet h) k1"
proof -
  obtain h2 where h2: "kt_hist (snd (m k1)) = kt_hist k1 @ h2" "quiet h2"
    using m(1) unfolding asks_def quiet_def by metis
  have "tr_baseSHA (kt_state (snd (m k1))) = s"
    using m(2) k1(4) unfolding keeps_def by blast
  then show ?thesis
    using h2 k1 unfolding wp_def by (auto split: prod.split outcome.split intro: in_order_append1)
qed

lemma phase_buildTrain: "phase (\<lambda>s. [train_added e c s]) (buildTrain e c)"
  unfolding phase_def
proof (intro allI)
  fix k :: "train kit"
  let ?s = "tr_baseSHA (kt_state k)"
  let ?rest = "bind_k (modify_k (\<lambda>s. s\<lparr>tr_started := True, tr_madeWts := tr_madeWts s @ [mt_wt c]\<rparr>)) (\<lambda>_.
     bind_k (each_k (build_one e c) (tr_keep (kt_state k))) (\<lambda>_. bind_k get_k (\<lambda>s1.
     if tr_merged s1 = [] then stop_k 28 ''train-empty'' else
     bind_k (mt_git e (mt_wt c) [''rev-parse'', ''HEAD'']) (\<lambda>h. modify_k (\<lambda>s. s\<lparr>tr_trainSHA := git_out h\<rparr>)))))"
  have "quiet_prog ?rest"
    unfolding build_one_def mergeNoFF_def by (intro asks) simp_all
  moreover have "keeps (based_on sha) ?rest" for sha
    by (intro base_keeps base_build_one) simp_all
  ultimately have rest: "wp ?rest (\<lambda>_ k'. based_on ?s k' \<and> (\<exists>h. kt_hist k' = kt_hist k @ h \<and> quiet h \<and> in_order [train_added e c ?s] h))
      (\<lambda>_ _ k'. \<exists>h. kt_hist k' = kt_hist k @ h \<and> quiet h) (noted k h)" if "quiet h" "in_order [train_added e c ?s] h" for h
    using that by (intro wp_quiet_rest) simp_all
  show "wp (buildTrain e c) (\<lambda>_ k'. based_on ?s k' \<and> (\<exists>h. kt_hist k' = kt_hist k @ h \<and> quiet h \<and> in_order [train_added e c ?s] h))
      (\<lambda>_ _ k'. \<exists>h. kt_hist k' = kt_hist k @ h \<and> quiet h) k"
    unfolding buildTrain_def
    apply (rule wp_seq, rule wp_os_ok, rule wp_branch, simp)
    apply (rule wp_seq, simp only: wp_get kt_state_noted, rule wp_seq, rule wp_child, simp)
    apply (rule wp_branch, simp)
    apply (simp only: noted_noted, rule rest)
     apply (simp_all add: train_added_def went_well_def)
    done
qed

abbreviation quietly :: "train kit \<Rightarrow> train kit \<Rightarrow> bool" where
  "quietly k k' \<equiv> \<exists>h. kt_hist k' = kt_hist k @ h \<and> quiet h"

lemma wp_quiet: "quiet_prog m \<Longrightarrow> quietly k0 k \<Longrightarrow> wp m (\<lambda>_. quietly k0) (\<lambda>_ _. quietly k0) k"
  by (rule asks_wp) (auto simp: quiet_def)

lemma wp_runGate:
  "wp (runGate e c label' b) (\<lambda>r k'. \<exists>h. kt_hist k' = kt_hist k @ h \<and> quiet h \<and> tr_baseSHA (kt_state k') = tr_baseSHA (kt_state k) \<and>
     (r = 0 \<longrightarrow> in_order [locked, gate_green] h)) (\<lambda>_ _. quietly k) k"
  unfolding runGate_def
  apply (rule wp_seq, simp only: wp_modify, rule wp_seq, rule wp_kitgate)
   apply (auto simp: gate_facts_def quiet_gate noted_def)
  done

lemma phase_runTrainGate: "phase (\<lambda>_. [locked, gate_green]) (runTrainGate e c)"
  unfolding phase_def
proof (intro allI)
  fix k :: "train kit"
  have red: "wp (bind_k (if mo_bisect c then bisect_train e c else return_k ()) (\<lambda>_. stop_k 26 ''train-gate-failed'')) Q (\<lambda>_ _. quietly k) k1"
    if "quietly k k1" for Q k1
    apply (rule wp_seq, rule wp_branch, rule wp_mono[OF wp_quiet[OF quiet_bisect_train that]])
      apply (use that in auto)
    done
  show "wp (runTrainGate e c) (\<lambda>_ k'. based_on (tr_baseSHA (kt_state k)) k' \<and> (\<exists>h. kt_hist k' = kt_hist k @ h \<and> quiet h \<and> in_order [locked, gate_green] h))
      (\<lambda>_ _. quietly k) k"
    unfolding runTrainGate_def
    apply (rule wp_seq, rule wp_mono[OF wp_runGate])
     apply (rule wp_guard)
      apply auto[1]
     apply (rule red, blast)
    apply assumption
    done
qed

text \<open>The fetch is retried; when it gets through, one of its attempts did.\<close>

lemma wp_mt_fetch:
  "wp (mt_fetch e c) (\<lambda>r k'. \<exists>h. k' = noted k h \<and> quiet h \<and> (rp_rc r = 0 \<longrightarrow> in_order [fetch_done e c] h)) (\<lambda>_ _. quietly k) k"
proof -
  have noise: "quiet h" if "attempts (Git d as) h" for d as h
    by (rule quiet_only[OF attempts_only[OF that, of "\<lambda>b. b = Git d as \<or> is_sleep b"]]) (auto elim!: is_sleep.elims(2))
  show ?thesis
    unfolding mt_fetch_def
    by (rule wp_Retry) (auto simp: retried_def fetch_done_def intro!: noise)
qed

lemma phase_preMerge: "phase (\<lambda>s. [fetch_done e c, base_read e c s]) (preMerge e c)"
  unfolding phase_def preMerge_def
proof (intro allI, rule wp_seq, rule wp_mono[OF wp_mt_fetch])
  fix k k' :: "train kit" and f
  assume "\<exists>h. k' = noted k h \<and> quiet h \<and> (rp_rc f = 0 \<longrightarrow> in_order [fetch_done e c] h)"
  then obtain h where k': "k' = noted k h" "quiet h" "rp_rc f = 0 \<longrightarrow> in_order [fetch_done e c] h" by blast
  have read: "in_order [fetch_done e c, base_read e c s] (h @ [(Git (mt_dir e (mo_repo c)) [''rev-parse'', mo_base c @ ''^{commit}''], r)])"
    if "rp_rc f = 0" "git_out r = s" for r s
    using in_order_append[of "[fetch_done e c]" h "[base_read e c s]"] k'(3) that by (simp add: base_read_def)
  show "wp (if rp_rc f \<noteq> 0 then stop_k 21 ''fetch-failed'' else
     bind_k (mt_rev e (mo_repo c) (mo_base c @ ''^{commit}'')) (\<lambda>cur. bind_k get_k (\<lambda>s.
     if cur \<noteq> tr_baseSHA s then stop_k 30 ''base-moved''
     else modify_k (\<lambda>s. s\<lparr>tr_expTip := tr_baseSHA s\<rparr>))))
     (\<lambda>_ k'. based_on (tr_baseSHA (kt_state k)) k' \<and>
        (\<exists>h. kt_hist k' = kt_hist k @ h \<and> quiet h \<and> in_order [fetch_done e c, base_read e c (tr_baseSHA (kt_state k))] h))
     (\<lambda>_ _. quietly k) k'"
    unfolding k'(1) mt_rev_def
    apply (rule wp_branch)
     apply (use k'(2) in simp)
    apply (rule wp_seq, rule wp_seq, rule wp_child)
     apply (use k'(2) in simp)
    apply (auto simp: k'(2) intro!: read)
    done
qed (rule wp_quiet | simp)+

text \<open>The steps a merge of the train has behind it; \<open>sha\<close> is the base the train was built on.\<close>

definition train_earned :: "mt_env \<Rightarrow> mt_opts \<Rightarrow> string \<Rightarrow> (action \<Rightarrow> reply \<Rightarrow> bool) list" where
  "train_earned e c sha = [fetch_done e c, base_read e c sha, train_added e c sha, locked, gate_green, fetch_done e c, base_read e c sha]"

lemma bind_assoc: "bind_k (bind_k m f) g = bind_k m (\<lambda>x. bind_k (f x) g)"
  by (rule ext) (simp add: bind_k_def split: prod.split outcome.split)

lemma guarded_prefix: "quiet h0 \<Longrightarrow> guarded is_merge ps h \<Longrightarrow> guarded is_merge ps (h0 @ h)"
  unfolding guarded_def quiet_def only_def
  by (auto simp: nth_append list_all_length intro: in_order_append2)

definition gated_from :: "mt_env \<Rightarrow> mt_opts \<Rightarrow> train kit \<Rightarrow> train kit \<Rightarrow> bool" where
  "gated_from e c k k' \<longleftrightarrow> (\<exists>h sha. kt_hist k' = kt_hist k @ h \<and> guarded is_merge (train_earned e c sha) h)"

lemma quietly_gated: "quietly k k' \<Longrightarrow> gated_from e c k k'"
  unfolding gated_from_def quiet_def by (blast intro: guarded_none)

lemma gated_quiet_prefix: "quietly k k1 \<Longrightarrow> gated_from e c k1 k' \<Longrightarrow> gated_from e c k k'"
  unfolding gated_from_def by (metis append.assoc guarded_prefix)

lemma gated_more: "gated_from e c k k1 \<Longrightarrow> kt_hist k' = kt_hist k1 @ h \<Longrightarrow> quiet h \<Longrightarrow> gated_from e c k k'"
  unfolding gated_from_def quiet_def by (metis append.assoc guarded_append_none)

lemma mergeAll_asks: "asks (\<lambda>_. True) (mergeAll e c)"
proof -
  have "asks (\<lambda>_. True) (verifyTree e c)" for e c
    unfolding verifyTree_def mt_rev_def by (intro asks asks_mono[OF quiet_rebuild]) simp_all
  moreover have "asks (\<lambda>_. True) (after_merge e c p)" for e c p
    unfolding after_merge_def mt_rev_def by (intro asks asks_mono[OF quiet_mt_fetch]) simp_all
  ultimately show ?thesis
    unfolding mergeAll_def merge_one_def mergePR_def Let_def by (intro asks) simp_all
qed

text \<open>Either no merge at all, or the steps first and anything after.\<close>

definition steps_first :: "(action \<Rightarrow> reply \<Rightarrow> bool) list \<Rightarrow> history \<Rightarrow> bool" where
  "steps_first ps h \<longleftrightarrow> quiet h \<or> (\<exists>h1 h2. h = h1 @ h2 \<and> quiet h1 \<and> in_order ps h1)"

lemma steps_first_quiet: "quiet h \<Longrightarrow> steps_first ps h"
  by (simp add: steps_first_def)

lemma steps_first_done: "quiet h1 \<Longrightarrow> in_order ps h1 \<Longrightarrow> steps_first ps (h1 @ h2)"
  unfolding steps_first_def by blast

lemma steps_first_guarded:
  assumes "quiet h0" "in_order qs h0" "steps_first ps h"
  shows "guarded is_merge (qs @ ps) (h0 @ h)"
  using assms(3) unfolding steps_first_def
proof
  assume "quiet h"
  then show ?thesis
    using assms(1) by (intro guarded_none) (simp add: quiet_def)
next
  assume "\<exists>h1 h2. h = h1 @ h2 \<and> quiet h1 \<and> in_order ps h1"
  then obtain h1 h2 where h: "h = h1 @ h2" "quiet h1" "in_order ps h1" by blast
  have "guarded is_merge (qs @ ps) ((h0 @ h1) @ h2)"
    by (intro guarded_append_done guarded_none in_order_append) (use assms h in \<open>simp_all add: quiet_def\<close>)
  then show ?thesis by (simp add: h(1))
qed

definition steps_after :: "(action \<Rightarrow> reply \<Rightarrow> bool) list \<Rightarrow> train kit \<Rightarrow> train kit \<Rightarrow> bool" where
  "steps_after ps k k' \<longleftrightarrow> (\<exists>h. kt_hist k' = kt_hist k @ h \<and> steps_first ps h)"

lemma wp_phase_then:
  assumes "phase ps m" "asks (\<lambda>_. True) n" "tr_baseSHA (kt_state k) = s"
  shows "wp (bind_k m (\<lambda>_. n)) (\<lambda>_. steps_after (ps s) k) (\<lambda>_ _. steps_after (ps s) k) k"
proof (rule wp_seq, rule wp_mono[OF assms(1)[unfolded phase_def, rule_format, of k]])
  fix k1
  assume "based_on (tr_baseSHA (kt_state k)) k1 \<and> (\<exists>h. kt_hist k1 = kt_hist k @ h \<and> quiet h \<and> in_order (ps (tr_baseSHA (kt_state k))) h)"
  then obtain h where h: "kt_hist k1 = kt_hist k @ h" "quiet h" "in_order (ps s) h"
    using assms(3) by blast
  have "steps_after (ps s) k k'" if "kt_hist k' = kt_hist k1 @ h'" for k' h'
    unfolding steps_after_def using h that by (intro exI[of _ "h @ h'"]) (simp add: steps_first_done)
  then show "wp n (\<lambda>_. steps_after (ps s) k) (\<lambda>_ _. steps_after (ps s) k) k1"
    by (intro asks_wp[OF assms(2)])
next
  fix c s' k1 assume "quietly k k1"
  then show "steps_after (ps s) k k1"
    unfolding steps_after_def by (blast intro: steps_first_quiet)
qed

lemma wp_checked:
  fixes e :: mt_env and c :: mt_opts
  assumes "tr_baseSHA (kt_state k) = s"
  defines "ps \<equiv> [train_added e c s, locked, gate_green, fetch_done e c, base_read e c s]"
  shows "wp (bind_k (checkPRs e c) (\<lambda>_. bind_k get_k (\<lambda>s. if tr_keep s = [] then stop_k 28 ''train-empty'' else
     bind_k (buildTrain e c) (\<lambda>_. bind_k (runTrainGate e c) (\<lambda>_. bind_k (preMerge e c) (\<lambda>_. mergeAll e c))))))
     (\<lambda>_. steps_after ps k) (\<lambda>_ _. steps_after ps k) k"
proof -
  have quiet: "phase (\<lambda>_. []) (checkPRs e c)"
    unfolding checkPRs_def by (rule phase_quiet) (intro asks quiet_checkPR, rule base_checkPRs[unfolded checkPRs_def])
  have "phase (\<lambda>_. []) (bind_k get_k (\<lambda>s. if tr_keep s = [] then stop_k 28 ''train-empty'' else return_k ()))"
    by (rule phase_quiet) (intro asks keeps)+
  then have "phase (\<lambda>s. [] @ [] @ [train_added e c s] @ [locked, gate_green] @ [fetch_done e c, base_read e c s])
      (bind_k (checkPRs e c) (\<lambda>_. bind_k (bind_k get_k (\<lambda>s. if tr_keep s = [] then stop_k 28 ''train-empty'' else return_k ()))
        (\<lambda>_. bind_k (buildTrain e c) (\<lambda>_. bind_k (runTrainGate e c) (\<lambda>_. preMerge e c)))))"
    by (intro phase_bind quiet phase_buildTrain phase_runTrainGate phase_preMerge)
  note p = wp_phase_then[OF this mergeAll_asks assms(1), where e1 = e and c1 = c]
  have split: "bind_k (if b then stop_k a t else m) f = (if b then stop_k a t else bind_k m f)" "bind_k (return_k ()) (\<lambda>_. n) = n"
    for a t b and m n :: "unit mt" and f :: "unit \<Rightarrow> unit mt"
    by (rule ext, simp add: bind_k_def return_k_def stop_k_def)+
  show ?thesis
    using p by (simp only: bind_assoc split ps_def append_Cons append_Nil)
qed

lemma wp_mt_train: "wp (mt_train e c) (\<lambda>_. gated_from e c k) (\<lambda>_ _. gated_from e c k) k"
  unfolding mt_train_def
proof (rule wp_seq, rule wp_mono[OF wp_mt_fetch])
  fix f k1
  assume "\<exists>h. k1 = noted k h \<and> quiet h \<and> (rp_rc f = 0 \<longrightarrow> in_order [fetch_done e c] h)"
  then obtain h where k1: "k1 = noted k h" and h: "quiet h" "rp_rc f = 0 \<longrightarrow> in_order [fetch_done e c] h" by blast
  let ?rev = "\<lambda>b. (Git (mt_dir e (mo_repo c)) [''rev-parse'', mo_base c @ ''^{commit}''], b :: reply)"
  let ?rest = "bind_k (checkPRs e c) (\<lambda>_. bind_k get_k (\<lambda>s. if tr_keep s = [] then stop_k 28 ''train-empty'' else
     bind_k (buildTrain e c) (\<lambda>_. bind_k (runTrainGate e c) (\<lambda>_. bind_k (preMerge e c) (\<lambda>_. mergeAll e c)))))"
  have stop: "gated_from e c k (noted k h')" if "quiet h'" for h'
    by (rule quietly_gated) (use that in auto)
  have rest: "wp ?rest (\<lambda>_. gated_from e c k) (\<lambda>_ _. gated_from e c k) k2"
    if "rp_rc f = 0" "kt_hist k2 = kt_hist k @ h @ [?rev b]" "tr_baseSHA (kt_state k2) = git_out b" for b k2
  proof -
    have "in_order [fetch_done e c, base_read e c (git_out b)] (h @ [?rev b])"
      using in_order_append[of "[fetch_done e c]" h "[base_read e c (git_out b)]" "[?rev b]"] h(2) that(1)
      by (simp add: base_read_def)
    then have done': "gated_from e c k k'" if "steps_after [train_added e c (git_out b), locked, gate_green, fetch_done e c, base_read e c (git_out b)] k2 k'" for k'
      using that steps_first_guarded[of "h @ [?rev b]"] h(1) \<open>kt_hist k2 = kt_hist k @ h @ [?rev b]\<close>
      unfolding steps_after_def gated_from_def train_earned_def by fastforce
    show ?thesis
      by (rule wp_mono[OF wp_checked[OF that(3)]]) (rule done', assumption)+
  qed
  show "wp (if rp_rc f \<noteq> 0 then stop_k 21 ''fetch-failed'' else
     bind_k (mt_git e (mo_repo c) [''rev-parse'', mo_base c @ ''^{commit}'']) (\<lambda>b. if rp_rc b \<noteq> 0 then stop_k 29 ''train-error'' else
     bind_k (modify_k (\<lambda>s. s\<lparr>tr_baseSHA := git_out b\<rparr>)) (\<lambda>_. ?rest)))
     (\<lambda>_. gated_from e c k) (\<lambda>_ _. gated_from e c k) k1"
    unfolding k1
    apply (rule wp_branch)
     apply (simp add: stop h)
    apply (rule wp_seq, rule wp_child)
     apply (simp add: stop h)
    apply (rule wp_branch)
     apply (simp add: stop h)
    apply (rule wp_seq, simp only: wp_modify, rule rest)
      apply simp_all
    done
qed (rule quietly_gated)

lemma cleanup_not_merge: "a \<in> set (cleanup_actions e c s) \<Longrightarrow> \<not> is_merge a"
  by (auto simp: cleanup_actions_def split: if_splits)

lemma asks_ask_all [asks]: "(\<And>a. a \<in> set as \<Longrightarrow> A a) \<Longrightarrow> asks A (ask_all e as)"
  by (induction as) (auto intro!: asks)

lemma quiet_finish: "quiet_prog (finish e c code s)"
  unfolding finish_def writeReceipt_def cleanup_def by (intro asks) (auto dest: cleanup_not_merge)

lemma wp_finishing:
  "wp (finishing e c (mt_train e c)) (\<lambda>_. gated_from e c k) (\<lambda>_ _. gated_from e c k) k"
proof -
  obtain out k1 where m: "mt_train e c k = (out, k1)" by (cases "mt_train e c k")
  have g: "gated_from e c k k1"
    using wp_mt_train[of e c k] m by (simp add: wp_def split: outcome.splits)
  have "wp (finish e c code s) (\<lambda>_. gated_from e c k) (\<lambda>_ _. gated_from e c k) k1" for code s
    by (rule asks_wp[OF quiet_finish]) (auto simp: quiet_def intro: gated_more[OF g])
  then show ?thesis
    using m g by (auto simp: finishing_def wp_def split: outcome.splits)
qed

text \<open>The way to the train: what is asked before it, and the configuration it is given.\<close>

fun prelude_action :: "action \<Rightarrow> bool" where
  "prelude_action (Os w p) = True"
| "prelude_action (Git d as) = (take 1 as = [''rev-parse''])"
| "prelude_action a = False"

lemma quiet_prelude: "only prelude_action h \<Longrightarrow> quiet h"
  by (erule quiet_only) (auto elim!: prelude_action.elims(2))

lemma os_prelude: "only is_os h \<Longrightarrow> only prelude_action h"
  by (erule only_mono) (auto elim!: is_os.elims(2))

definition start_train :: "train kit" where
  "start_train = \<lparr>kt_state = new_train mt_defaults, kt_hist = []\<rparr>"

section \<open>The culprit of a bisect\<close>

text \<open>The train worktree rebuilt: reset to the base, then the heads merged one by one, each with success.\<close>

abbreviation merge_action :: "mt_env \<Rightarrow> mt_opts \<Rightarrow> train \<Rightarrow> string \<Rightarrow> action" where
  "merge_action e c s p \<equiv> Git (mt_dir e (mt_wt c)) [''merge'', ''-q'', ''--no-ff'', ''-m'', ''train: merge #'' @ p, mr_head (tr_rows s p)]"

definition rebuild_actions :: "mt_env \<Rightarrow> mt_opts \<Rightarrow> train \<Rightarrow> string list \<Rightarrow> action list" where
  "rebuild_actions e c s ps = Git (mt_dir e (mt_wt c)) [''reset'', ''-q'', ''--hard'', tr_baseSHA s] #
     map (merge_action e c s) ps"

definition all_well :: "action list \<Rightarrow> history \<Rightarrow> bool" where
  "all_well as h \<longleftrightarrow> map fst h = as \<and> list_all (\<lambda>x. rp_rc (snd x) = 0) h"

lemma all_well_Cons: "all_well as h \<Longrightarrow> rp_rc r = 0 \<Longrightarrow> all_well (a # as) ((a, r) # h)"
  by (simp add: all_well_def)

lemma wp_mergeNoFF:
  assumes "\<And>r. Q r (noted k [(merge_action e c (kt_state k) p, r)])"
  shows "wp (mergeNoFF e c p) Q (\<lambda>code _ _. code \<noteq> 26) k"
  unfolding mergeNoFF_def
  by (rule wp_seq, simp only: wp_get, rule wp_child, simp, rule assms)

lemma wp_pollI: "(\<not> ke_pending e (kt_hist k) \<Longrightarrow> Q () k) \<Longrightarrow> wp (poll e) Q (\<lambda>code _ _. code \<noteq> 26) k"
  by simp

lemma wp_merge_each:
  assumes "\<And>h. all_well (map (merge_action e c (kt_state k)) ps) h \<Longrightarrow>
    Q () (noted k h)"
  shows "wp (each_k (\<lambda>p. bind_k (mergeNoFF e c p) (\<lambda>m. if rp_rc m \<noteq> 0 then stop_k 29 ''train-error'' else return_k ())) ps) Q (\<lambda>code _ _. code \<noteq> 26) k"
  using assms
proof (induction ps arbitrary: k)
  case Nil
  then show ?case
    using Nil[of "[]"] by (simp add: all_well_def)
next
  case (Cons p ps)
  show ?case
    unfolding each_k.simps
    apply (rule wp_seq, rule wp_seq, rule wp_mergeNoFF, rule wp_branch, simp)
    apply (simp only: wp_return, rule Cons.IH, simp only: noted_noted, rule Cons.prems)
    apply (simp add: all_well_Cons)
    done
qed

lemma wp_rebuild:
  assumes "\<And>h. all_well (rebuild_actions e c (kt_state k) ps) h \<Longrightarrow> Q () (noted k h)"
  shows "wp (rebuild e c ps) Q (\<lambda>code _ _. code \<noteq> 26) k"
  unfolding rebuild_def
  apply (rule wp_seq, simp only: wp_get, rule wp_seq, rule wp_child, simp)
  apply (rule wp_branch, simp)
  apply (rule wp_merge_each, simp only: noted_noted, rule assms)
  apply (simp add: rebuild_actions_def all_well_Cons)
  done

text \<open>The first \<open>m\<close> pull requests were put on the base and gated, with the verdict \<open>v\<close>.\<close>

definition prefix_gated :: "mt_env \<Rightarrow> mt_opts \<Rightarrow> train \<Rightarrow> string list \<Rightarrow> nat \<Rightarrow> bool \<Rightarrow> history \<Rightarrow> bool" where
  "prefix_gated e c s merged m v h \<longleftrightarrow> (\<exists>h1 hb hg h2. h = h1 @ hb @ hg @ h2 \<and>
     all_well (rebuild_actions e c s (take m merged)) hb \<and> gate_verdict (bisect_label c m) v hg)"

lemma prefix_gated_more: "prefix_gated e c s merged m v h \<Longrightarrow> prefix_gated e c s merged m v (h0 @ h)"
  unfolding prefix_gated_def by (metis append.assoc)

lemma prefix_gated_more2: "prefix_gated e c s merged m v h \<Longrightarrow> prefix_gated e c s merged m v (h @ h0)"
  unfolding prefix_gated_def by (metis append.assoc)

definition same_core :: "train \<Rightarrow> train \<Rightarrow> bool" where
  "same_core s s' \<longleftrightarrow> tr_baseSHA s' = tr_baseSHA s \<and> tr_rows s' = tr_rows s \<and> tr_merged s' = tr_merged s \<and> tr_culprit s' = tr_culprit s"

lemma same_core_rebuild: "same_core s s' \<Longrightarrow> rebuild_actions e c s' ps = rebuild_actions e c s ps"
  by (simp add: same_core_def rebuild_actions_def)

lemma wp_runGate_verdict:
  assumes "\<And>r h k'. kt_hist k' = kt_hist k @ h \<Longrightarrow> same_core (kt_state k) (kt_state k') \<Longrightarrow> asked runs_gate h \<le> 1 \<Longrightarrow>
      r \<in> {0, 16, 22} \<Longrightarrow> (r = 22 \<Longrightarrow> b) \<Longrightarrow> (r \<noteq> 22 \<Longrightarrow> gate_verdict l (r = 0) h) \<Longrightarrow> Q r k'"
  shows "wp (runGate e c l b) Q (\<lambda>code _ _. code \<noteq> 26) k"
proof -
  let ?k = "k\<lparr>kt_state := (kt_state k)\<lparr>tr_gateLog := mo_state c @ ''/gate-'' @ l @ ''.log''\<rparr>\<rparr>"
  have Q: "Q r ((noted ?k h)\<lparr>kt_state := f (kt_state (noted ?k h))\<rparr>)"
    if "gate_facts l res h" "\<not> gr_Interrupted res" "gr_Code res = r" "r \<in> {0, 16, 22}" "\<And>s. same_core s (f s)" "r = 22 \<Longrightarrow> b" for r h res f
  proof (rule assms)
    show "kt_hist ((noted ?k h)\<lparr>kt_state := f (kt_state (noted ?k h))\<rparr>) = kt_hist k @ h"
      by (simp add: noted_def)
    show "same_core (kt_state k) (kt_state ((noted ?k h)\<lparr>kt_state := f (kt_state (noted ?k h))\<rparr>))"
      using that(5)[of "kt_state ?k"] by (simp add: same_core_def)
  qed (use that in \<open>auto simp: gate_facts_def\<close>)
  have lab: "go_Label (mt_gate_opts e c l) = l"
    by (simp add: mt_gate_opts_def)
  have id: "k'\<lparr>kt_state := kt_state k'\<rparr> = k'" for k' :: "train kit" by simp
  have set: "wp (bind_k (modify_k f) (\<lambda>_. return_k r)) Q (\<lambda>code _ _. code \<noteq> 26) (noted ?k h)"
    if "gate_facts l res h" "\<not> gr_Interrupted res" "gr_Code res = r" "r \<in> {0, 16, 22}" "\<And>s. same_core s (f s)" "r = 22 \<Longrightarrow> b" for r h res f
    unfolding wp_bind wp_modify wp_return by (rule Q[OF that])
  have asis: "Q 22 (noted ?k h)" if "gate_facts l res h" "\<not> gr_Interrupted res" "gr_Code res = 22" b for h res
    using Q[where f = "\<lambda>s. s", OF that(1-3)] that(4) unfolding id by (simp add: same_core_def)
  show ?thesis
    unfolding runGate_def
    apply (rule wp_seq, simp only: wp_modify, rule wp_seq, rule wp_kitgate)
     apply (rule wp_branch, simp only: wp_stop)
     apply (rule wp_seq, rule wp_pollI)
     apply (simp only: lab)
     apply (rule wp_branch, rule set, assumption+, simp, simp add: same_core_def, simp)
     apply (rule wp_branch, rule set, assumption+, simp, simp add: same_core_def, simp)
     apply (rule wp_branch, rule wp_branch, simp only: wp_return, rule asis, assumption+)
      apply simp_all
    done
qed

text \<open>
  What a bisect between \<open>lo\<close> and \<open>hi\<close> finds: a prefix that was gated red (or the whole list) whose predecessor was gated
  green (or is the lower end), with at most \<open>n\<close> gates when at most \<open>2 ^ n\<close> prefixes are in question.
\<close>

definition found_red :: "mt_env \<Rightarrow> mt_opts \<Rightarrow> train \<Rightarrow> string list \<Rightarrow> nat \<Rightarrow> nat \<Rightarrow> nat option \<Rightarrow> history \<Rightarrow> bool" where
  "found_red e c s merged lo hi red h \<longleftrightarrow> (case red of None \<Rightarrow> True | Some m \<Rightarrow> lo < m \<and> m \<le> hi \<and>
     (m = hi \<or> prefix_gated e c s merged m False h) \<and> (m = lo + 1 \<or> prefix_gated e c s merged (m - 1) True h))"

lemma rebuild_no_gate:
  assumes "all_well (rebuild_actions e c s ps) h"
  shows "asked runs_gate h = 0"
proof -
  have "only (\<lambda>a. \<not> runs_gate a) h \<longleftrightarrow> list_all (\<lambda>a. \<not> runs_gate a) (map fst h)"
    by (simp add: only_def list.pred_map comp_def)
  also have "map fst h = rebuild_actions e c s ps"
    using assms by (simp add: all_well_def)
  also have "list_all (\<lambda>a. \<not> runs_gate a) (rebuild_actions e c s ps)"
    by (simp add: rebuild_actions_def list.pred_map comp_def list_all_iff)
  finally show ?thesis
    by (simp add: asked_none)
qed

lemma wp_bisect:
  assumes "same_core s (kt_state k)" "lo < hi" "hi - lo \<le> 2 ^ n"
    and "\<And>red h k'. kt_hist k' = kt_hist k @ h \<Longrightarrow> same_core s (kt_state k') \<Longrightarrow> asked runs_gate h \<le> n \<Longrightarrow>
      found_red e c s merged lo hi red h \<Longrightarrow> Q red k'"
  shows "wp (bisect_loop e c merged lo hi) Q (\<lambda>code _ _. code \<noteq> 26) k"
  using assms
proof (induction e c merged lo hi arbitrary: n k Q rule: bisect_loop.induct)
  case (1 e c merged lo hi)
  show ?case
  proof (cases "hi - lo > 1")
    case False
    then have "hi = lo + 1" using "1.prems"(2) by simp
    then have "Q (Some hi) k"
      by (intro "1.prems"(4)[of k "[]"]) (simp_all add: "1.prems"(1) found_red_def)
    then show ?thesis
      using False by (simp add: bisect_loop.simps)
  next
    case True
    define mid where "mid = (lo + hi) div 2"
    obtain n' where n: "n = Suc n'"
      using True "1.prems"(3) by (cases n) auto
    have mid: "lo < mid" "mid < hi" "hi - mid \<le> 2 ^ n'" "mid - lo \<le> 2 ^ n'"
      using True "1.prems"(3) by (auto simp: mid_def n)
    show ?thesis
      unfolding bisect_loop.simps[of e c merged lo hi] if_P[OF True] Let_def mid_def[symmetric]
    proof (rule wp_seq, rule wp_rebuild, rule wp_seq, rule wp_runGate_verdict)
      fix hb and r :: int and hg and k1 :: "train kit"
      assume hb: "all_well (rebuild_actions e c (kt_state k) (take mid merged)) hb"
        and k1: "kt_hist k1 = kt_hist (noted k hb) @ hg" "same_core (kt_state (noted k hb)) (kt_state k1)"
        and g: "asked runs_gate hg \<le> 1" "r \<in> {0, 16, 22}" "r = 22 \<Longrightarrow> True" "r \<noteq> 22 \<Longrightarrow> gate_verdict (bisect_label c mid) (r = 0) hg"
      have core: "same_core s (kt_state k1)"
        using "1.prems"(1) k1(2) by (simp add: same_core_def)
      have hb': "all_well (rebuild_actions e c s (take mid merged)) hb"
        using hb same_core_rebuild[OF "1.prems"(1)] by simp
      have verdict: "prefix_gated e c s merged mid (r = 0) ((hb @ hg) @ h)" if "r \<noteq> 22" for h
        unfolding prefix_gated_def using hb' g(4)[OF that] by (metis append.assoc append_Nil)
      have count: "asked runs_gate ((hb @ hg) @ h) \<le> n" if "asked runs_gate h \<le> n'" for h
        using that g(1) rebuild_no_gate[OF hb'] by (simp add: n)
      have up: "wp (bisect_loop e c merged mid hi) Q (\<lambda>code _ _. code \<noteq> 26) k1" if r: "r = 0"
      proof (rule "1.IH"(1)[OF True mid_def r core mid(2,3)])
        fix red h and k' :: "train kit"
        assume h: "kt_hist k' = kt_hist k1 @ h" "same_core s (kt_state k')" "asked runs_gate h \<le> n'" "found_red e c s merged mid hi red h"
        show "Q red k'"
        proof (rule "1.prems"(4)[of k' "(hb @ hg) @ h"])
          show "found_red e c s merged lo hi red ((hb @ hg) @ h)"
            using h(4) verdict[of h] r mid by (auto simp: found_red_def split: option.splits intro: prefix_gated_more)
        qed (use h k1 count in simp_all)
      qed
      have down: "wp (bisect_loop e c merged lo mid) Q (\<lambda>code _ _. code \<noteq> 26) k1" if r: "r \<noteq> 0" "r \<noteq> 22"
      proof (rule "1.IH"(2)[OF True mid_def r core mid(1,4)])
        fix red h and k' :: "train kit"
        assume h: "kt_hist k' = kt_hist k1 @ h" "same_core s (kt_state k')" "asked runs_gate h \<le> n'" "found_red e c s merged lo mid red h"
        show "Q red k'"
        proof (rule "1.prems"(4)[of k' "(hb @ hg) @ h"])
          show "found_red e c s merged lo hi red ((hb @ hg) @ h)"
            using h(4) verdict[of h] r mid by (auto simp: found_red_def split: option.splits intro: prefix_gated_more)
        qed (use h k1 count in simp_all)
      qed
      have lost: "Q None k1"
        by (rule "1.prems"(4)[of k1 "(hb @ hg) @ []"]) (use k1 core count[of "[]"] in \<open>simp_all add: found_red_def\<close>)
      show "wp (if r = 0 then bisect_loop e c merged mid hi else if r = 22 then return_k None else bisect_loop e c merged lo mid)
          Q (\<lambda>code _ _. code \<noteq> 26) k1"
        using up down lost by simp
    qed
  qed
qed

lemma wp_not26: "wp m Q (\<lambda>code _ _. code \<noteq> 26) k \<Longrightarrow> wp m Q (\<lambda>code s k'. code = 26 \<longrightarrow> R k') k"
  by (erule wp_mono) auto

lemma found_red_more: "found_red e c s merged lo hi red h \<Longrightarrow> found_red e c s merged lo hi red (h0 @ h)"
  unfolding found_red_def by (auto split: option.splits intro: prefix_gated_more)

lemma found_red_core: "same_core s s' \<Longrightarrow> found_red e c s' merged lo hi red h = found_red e c s merged lo hi red h"
  using same_core_rebuild[of s s' e c] by (cases red) (simp_all add: found_red_def prefix_gated_def)

lemma wp_bisect_train:
  assumes "tr_merged (kt_state k) \<noteq> []" "length (tr_merged (kt_state k)) \<le> 2 ^ n" "tr_culprit (kt_state k) = []"
  shows "wp (bisect_train e c) (\<lambda>_ k'. tr_culprit (kt_state k') \<noteq> [] \<longrightarrow> (\<exists>m h. kt_hist k' = kt_hist k @ h \<and> asked runs_gate h \<le> n \<and>
      tr_culprit (kt_state k') = tr_merged (kt_state k) ! (m - 1) \<and>
      found_red e c (kt_state k) (tr_merged (kt_state k)) 0 (length (tr_merged (kt_state k))) (Some m) h)) (\<lambda>code _ _. code \<noteq> 26) k"
  unfolding bisect_train_def
proof (rule wp_seq, simp only: wp_get, rule wp_seq, rule wp_bisect[where s = "kt_state k"])
  fix found h and k2 :: "train kit"
  assume h: "kt_hist k2 = kt_hist k @ h" "same_core (kt_state k) (kt_state k2)" "asked runs_gate h \<le> n"
    "found_red e c (kt_state k) (tr_merged (kt_state k)) 0 (length (tr_merged (kt_state k))) found h"
  have "tr_culprit (kt_state k2) = []"
    using h(2) assms(3) by (simp add: same_core_def)
  then show "wp (bind_k (modify_k (\<lambda>s'. s'\<lparr>tr_gateRC := tr_gateRC (kt_state k), tr_gateLog := tr_gateLog (kt_state k)\<rparr>)) (\<lambda>_.
       case found of
         None \<Rightarrow> return_k ()
       | Some hi \<Rightarrow> bind_k (modify_k (\<lambda>s'. s'\<lparr>tr_culprit := tr_merged (kt_state k) ! (hi - 1)\<rparr>)) (\<lambda>_.
           row_status (tr_merged (kt_state k) ! (hi - 1)) ''culprit'' ''first-red-prefix'')))
      (\<lambda>_ k'. tr_culprit (kt_state k') \<noteq> [] \<longrightarrow> (\<exists>m h. kt_hist k' = kt_hist k @ h \<and> asked runs_gate h \<le> n \<and>
        tr_culprit (kt_state k') = tr_merged (kt_state k) ! (m - 1) \<and>
        found_red e c (kt_state k) (tr_merged (kt_state k)) 0 (length (tr_merged (kt_state k))) (Some m) h)) (\<lambda>code _ _. code \<noteq> 26) k2"
    using h by (cases found) (auto simp: row_status_def set_row_def)
qed (use assms in \<open>simp_all add: same_core_def\<close>)

text \<open>
  C13. The culprit is the end of the first red prefix. When the combined gate of a train was red and a bisect names a pull
  request, then that request ends a prefix of the merged list that was itself rebuilt on the base, pull request by pull
  request, and gated red (or is the whole train, whose gate was red), and the prefix before it was rebuilt and gated
  green (or is empty). A train of at most
  \<open>2 ^ n\<close> pull requests costs at most \<open>n + 1\<close> gates.
\<close>

theorem bisect_names_first_red_prefix:
  assumes "tr_merged (kt_state k) \<noteq> []" "length (tr_merged (kt_state k)) \<le> 2 ^ n" "mo_bisect c" "tr_culprit (kt_state k) = []"
    "runTrainGate e c k = (Stopped 26 state, k')" "tr_culprit (kt_state k') \<noteq> []"
  shows "\<exists>m h. kt_hist k' = kt_hist k @ h \<and> gate_verdict (''train-'' @ mo_ts c) False h \<and>
    0 < m \<and> m \<le> length (tr_merged (kt_state k)) \<and> tr_culprit (kt_state k') = tr_merged (kt_state k) ! (m - 1) \<and>
    (m = length (tr_merged (kt_state k)) \<or> prefix_gated e c (kt_state k) (tr_merged (kt_state k)) m False h) \<and>
    (m = 1 \<or> prefix_gated e c (kt_state k) (tr_merged (kt_state k)) (m - 1) True h) \<and>
    asked runs_gate h \<le> n + 1"
proof -
  let ?s = "kt_state k"
  let ?P = "\<lambda>k'. tr_culprit (kt_state k') \<noteq> [] \<longrightarrow> (\<exists>m h. kt_hist k' = kt_hist k @ h \<and> gate_verdict (''train-'' @ mo_ts c) False h \<and>
    asked runs_gate h \<le> n + 1 \<and> tr_culprit (kt_state k') = tr_merged ?s ! (m - 1) \<and>
    found_red e c ?s (tr_merged ?s) 0 (length (tr_merged ?s)) (Some m) h)"
  have "wp (runTrainGate e c) (\<lambda>_ _. True) (\<lambda>code _ k'. code = 26 \<longrightarrow> ?P k') k"
    unfolding runTrainGate_def
  proof (rule wp_seq, rule wp_not26, rule wp_runGate_verdict, rule wp_guard, simp, rule wp_seq)
    fix r h and k1 :: "train kit"
    assume full: "kt_hist k1 = kt_hist k @ h" "same_core ?s (kt_state k1)" "asked runs_gate h \<le> 1"
      "r \<in> {0, 16, 22}" "r = 22 \<Longrightarrow> False" "r \<noteq> 22 \<Longrightarrow> gate_verdict (''train-'' @ mo_ts c) (r = 0) h" "r \<noteq> 0"
    then have red: "gate_verdict (''train-'' @ mo_ts c) False h" by auto
    have s: "tr_merged (kt_state k1) = tr_merged ?s" "tr_culprit (kt_state k1) = []"
      using full(2) assms(4) by (simp_all add: same_core_def)
    have "wp (bisect_train e c) (\<lambda>_. ?P) (\<lambda>code _ _. code \<noteq> 26) k1"
    proof (rule wp_mono[OF wp_bisect_train])
      fix k2 :: "train kit"
      assume b: "tr_culprit (kt_state k2) \<noteq> [] \<longrightarrow> (\<exists>m h. kt_hist k2 = kt_hist k1 @ h \<and> asked runs_gate h \<le> n \<and>
          tr_culprit (kt_state k2) = tr_merged (kt_state k1) ! (m - 1) \<and>
          found_red e c (kt_state k1) (tr_merged (kt_state k1)) 0 (length (tr_merged (kt_state k1))) (Some m) h)"
      show "?P k2"
      proof
        assume "tr_culprit (kt_state k2) \<noteq> []"
        then obtain m h2 where m: "kt_hist k2 = kt_hist k1 @ h2" "asked runs_gate h2 \<le> n" "tr_culprit (kt_state k2) = tr_merged ?s ! (m - 1)"
          "found_red e c (kt_state k1) (tr_merged ?s) 0 (length (tr_merged ?s)) (Some m) h2"
          using b s by auto
        have "found_red e c ?s (tr_merged ?s) 0 (length (tr_merged ?s)) (Some m) (h @ h2)"
          using m(4) found_red_core[OF full(2)] by (blast intro: found_red_more)
        then show "\<exists>m h. kt_hist k2 = kt_hist k @ h \<and> gate_verdict (''train-'' @ mo_ts c) False h \<and> asked runs_gate h \<le> n + 1 \<and>
            tr_culprit (kt_state k2) = tr_merged ?s ! (m - 1) \<and> found_red e c ?s (tr_merged ?s) 0 (length (tr_merged ?s)) (Some m) h"
          using m full(1,3) red by (intro exI[of _ m] exI[of _ "h @ h2"]) (simp add: gate_verdict_append1)
      qed
    qed (use s assms in auto)
    then show "wp (if mo_bisect c then bisect_train e c else return_k ())
        (\<lambda>_. wp (stop_k 26 ''train-gate-failed'') (\<lambda>_ _. True) (\<lambda>code _ k'. code = 26 \<longrightarrow> ?P k')) (\<lambda>code _ k'. code = 26 \<longrightarrow> ?P k') k1"
      unfolding if_P[OF assms(3)] wp_stop by (rule wp_mono) (assumption | rule impI | erule notE)+
  qed
  then have "?P k'"
    using assms(5) by (auto simp: wp_def)
  then show ?thesis
    using assms(6) by (auto simp: found_red_def)
qed

section \<open>How a train stops\<close>

definition stops :: "(int \<Rightarrow> string \<Rightarrow> bool) \<Rightarrow> ('s, 'a) prog \<Rightarrow> bool" where
  "stops S m \<longleftrightarrow> (\<forall>k. wp m (\<lambda>_ _. True) (\<lambda>c s _. S c s) k)"

named_theorems stops

lemma stops_simple [stops]: "stops S (return_k x)" "stops S get_k" "stops S (modify_k f)" "stops S (ask e a)"
  by (auto simp: stops_def intro: wp_ask)

lemma stops_stop [stops]: "S c s \<Longrightarrow> stops S (stop_k c s)"
  by (simp add: stops_def)

lemma stops_bind [stops]: "stops S m \<Longrightarrow> (\<And>x. stops S (f x)) \<Longrightarrow> stops S (bind_k m f)"
  unfolding stops_def by (blast intro: wp_seq wp_mono)

lemma stops_if [stops]: "(b \<Longrightarrow> stops S m) \<Longrightarrow> (\<not> b \<Longrightarrow> stops S n) \<Longrightarrow> stops S (if b then m else n)"
  by simp

lemma stops_option [stops]: "stops S m \<Longrightarrow> (\<And>x. stops S (f x)) \<Longrightarrow> stops S (case v of None \<Rightarrow> m | Some x \<Rightarrow> f x)"
  by (simp split: option.split)

lemma stops_poll [stops]: "S 29 ''train-error'' \<Longrightarrow> stops S (poll e)"
  by (simp add: stops_def)

lemma stops_child [stops]: "S 29 ''train-error'' \<Longrightarrow> stops S (child e a)"
  unfolding child_def by (intro stops)

lemma stops_os_ok [stops]: "stops S (os_ok e w p)"
  unfolding os_ok_def by (intro stops)

lemma stops_Retry [stops]: "S 29 ''train-error'' \<Longrightarrow> \<not> is_sleep a \<Longrightarrow> stops S (Retry e 3 (child e a))"
  unfolding stops_def by (auto intro: wp_Retry)

lemma stops_kitgate [stops]: "S 29 ''train-error'' \<Longrightarrow> stops S (kitgate_Run e o')"
  unfolding stops_def by (auto intro: wp_kitgate)

lemma stops_kitwait [stops]: "S 29 ''train-error'' \<Longrightarrow> stops S (kitwait_Run e o')"
  unfolding stops_def by (auto intro: wp_kitwait)

lemma stops_ResolveDir [stops]: "stops S (ResolveDir e cwd p)"
  unfolding stops_def by (auto intro: wp_physical)

lemma stops_PhysPath [stops]: "stops S (PhysPath e cwd p)"
  unfolding stops_def by (auto intro: wp_PhysPath)

lemma stops_missing_deps [stops]: "stops S (missing_deps e ds)"
  unfolding stops_def by (auto intro: wp_missing_deps)

lemma stops_each [stops]: "(\<And>x. stops S (f x)) \<Longrightarrow> stops S (each_k f xs)"
  by (induction xs) (auto intro!: stops)

lemma stops_rows [stops]: "stops S (set_row p f)" "stops S (row_status p s t)" "stops S (stop_train p rc)"
  by (simp_all add: set_row_def row_status_def stop_train_def stops)

text \<open>The states a train can end in once it has started, with their exit codes.\<close>

definition train_stops :: "(int \<times> string) set" where
  "train_stops = {(0, ''merged''), (17, ''ci-failed''), (18, ''merge-degraded''), (19, ''not-merged''), (21, ''fetch-failed''),
     (22, ''gate-lock-timeout''), (26, ''train-gate-failed''), (27, ''train-partial''), (28, ''train-empty''), (29, ''train-error''),
     (30, ''base-moved''), (31, ''main-raced''), (32, ''tree-mismatch''), (33, ''merged-out-of-band'')}"

definition train_fails :: "int \<Rightarrow> string \<Rightarrow> bool" where
  "train_fails c s \<longleftrightarrow> (c, s) \<in> train_stops - {(0, ''merged'')}"

lemma train_fails_simps [simp]: "train_fails 29 ''train-error''" "train_fails 28 ''train-empty''" "train_fails 26 ''train-gate-failed''"
  "train_fails 22 ''gate-lock-timeout''" "train_fails 21 ''fetch-failed''" "train_fails 30 ''base-moved''" "train_fails 32 ''tree-mismatch''"
  "train_fails 27 ''train-partial''"
  by (simp_all add: train_fails_def train_stops_def)

lemma stops_mt_fetch [stops]: "stops train_fails (mt_fetch e c)"
  unfolding mt_fetch_def by (intro stops) simp_all

lemma stops_checkPRs [stops]: "stops train_fails (checkPRs e c)"
  unfolding checkPRs_def checkPR_def check_reason_def fetch_pr_def prCwdOK_def Let_def by (intro stops) simp_all

lemma stops_mergeNoFF [stops]: "stops train_fails (mergeNoFF e c p)"
  unfolding mergeNoFF_def by (intro stops) simp_all

lemma stops_buildTrain [stops]: "stops train_fails (buildTrain e c)"
  unfolding buildTrain_def build_one_def by (intro stops) simp_all

lemma stops_runGate [stops]: "stops train_fails (runGate e c label' b)"
  unfolding runGate_def by (intro stops) simp_all

lemma stops_rebuild [stops]: "stops train_fails (rebuild e c ps)"
  unfolding rebuild_def by (intro stops) simp_all

lemma stops_bisect [stops]: "stops train_fails (bisect_loop e c merged lo hi)"
proof (induction e c merged lo hi rule: bisect_loop.induct)
  case (1 e c merged lo hi)
  then show ?case
    by (subst bisect_loop.simps) (auto simp: Let_def intro!: stops)
qed

lemma stops_runTrainGate [stops]: "stops train_fails (runTrainGate e c)"
  unfolding runTrainGate_def bisect_train_def by (intro stops) simp_all

lemma stops_mt_rev [stops]: "stops train_fails (mt_rev e d r)"
  unfolding mt_rev_def by (intro stops) simp_all

lemma stops_preMerge [stops]: "stops train_fails (preMerge e c)"
  unfolding preMerge_def by (intro stops) simp_all

lemma stops_verifyTree [stops]: "stops train_fails (verifyTree e c)"
  unfolding verifyTree_def by (intro stops) simp_all

lemma stops_merge_one [stops]: "stops train_fails (merge_one e c p)"
  unfolding merge_one_def mergePR_def after_merge_def Let_def by (intro stops) simp_all

section \<open>What has been merged\<close>

text \<open>A pull request is pinned when gh's head of it starts with the operator's pin; it has landed when it was read back as merged at that head.\<close>

definition pinned :: "mt_opts \<Rightarrow> string \<Rightarrow> string \<Rightarrow> bool" where
  "pinned c p head \<longleftrightarrow> head \<noteq> [] \<and> mo_pin c p \<noteq> [] \<and> mtPinMatches head (mo_pin c p)"

definition landed :: "mt_opts \<Rightarrow> string \<Rightarrow> string \<Rightarrow> history \<Rightarrow> bool" where
  "landed c p head h \<longleftrightarrow> (\<exists>pw h1 h2. h = h1 @ h2 \<and> confirmed (mt_wait_opts c pw p head) h1)"

lemma landed_append: "landed c p head h \<Longrightarrow> landed c p head (h @ h')"
  unfolding landed_def by (metis append.assoc)

lemma landed_now: "confirmed (mt_wait_opts c pw p head) h \<Longrightarrow> landed c p head (h0 @ h)"
  unfolding landed_def by (metis append.right_neutral confirmed_prefix)

definition train_true :: "mt_opts \<Rightarrow> train kit \<Rightarrow> bool" where
  "train_true c k \<longleftrightarrow>
     (\<forall>p \<in> set (tr_keep (kt_state k)). pinned c p (mr_head (tr_rows (kt_state k) p))) \<and>
     set (tr_merged (kt_state k)) \<subseteq> set (tr_keep (kt_state k)) \<and>
     set (tr_mergedOK (kt_state k)) \<subseteq> set (tr_merged (kt_state k)) \<and>
     (\<forall>p \<in> set (tr_mergedOK (kt_state k)). landed c p (mr_head (tr_rows (kt_state k) p)) (kt_hist k)) \<and>
     (\<forall>p. mr_status (tr_rows (kt_state k) p) = ''merged'' \<longrightarrow> p \<in> set (tr_mergedOK (kt_state k)))"

interpretation true_kept: run_invariant "\<lambda>_. True" "\<lambda>k. train_true c k \<and> tr_keep (kt_state k) = K" for c K
  by unfold_locales (auto simp: train_true_def intro: landed_append)

interpretation merging: run_invariant "\<lambda>_. True" "\<lambda>k. train_true c k \<and> tr_merged (kt_state k) = M" for c M
  by unfold_locales (auto simp: train_true_def intro: landed_append)

abbreviation true_keep :: "mt_opts \<Rightarrow> string list \<Rightarrow> train kit \<Rightarrow> bool" where
  "true_keep c K k \<equiv> train_true c k \<and> tr_keep (kt_state k) = K"

abbreviation true_merged :: "mt_opts \<Rightarrow> string list \<Rightarrow> train kit \<Rightarrow> bool" where
  "true_merged c M k \<equiv> train_true c k \<and> tr_merged (kt_state k) = M"

text \<open>A row whose status is not the merged one, with the head it had, changes nothing of this.\<close>

definition plain_row :: "(mt_row \<Rightarrow> mt_row) \<Rightarrow> bool" where
  "plain_row f \<longleftrightarrow> (\<forall>r. mr_head (f r) = mr_head r \<and> (mr_status (f r) = ''merged'' \<longrightarrow> mr_status r = ''merged''))"

lemma train_true_row: "train_true c k \<Longrightarrow> plain_row f \<Longrightarrow>
    train_true c (k\<lparr>kt_state := (kt_state k)\<lparr>tr_rows := (tr_rows (kt_state k))(p := f (tr_rows (kt_state k) p))\<rparr>\<rparr>)"
  by (auto simp: train_true_def plain_row_def)

lemma true_set_row:
  assumes "plain_row f"
  shows "keeps (true_keep c K) (set_row p f)" "keeps (true_merged c M) (set_row p f)"
  unfolding set_row_def by (rule keeps_modify, use train_true_row[OF _ assms] in auto)+

lemma true_row_status:
  assumes "status \<noteq> ''merged''"
  shows "keeps (true_keep c K) (row_status p status reason)" "keeps (true_merged c M) (row_status p status reason)"
  unfolding row_status_def by (rule true_set_row, simp add: plain_row_def assms)+

lemma true_modify:
  assumes "\<And>s. tr_rows (f s) = tr_rows s" "\<And>s. tr_keep (f s) = tr_keep s" "\<And>s. tr_merged (f s) = tr_merged s" "\<And>s. tr_mergedOK (f s) = tr_mergedOK s"
  shows "keeps (true_keep c K) (modify_k f)" "keeps (true_merged c M) (modify_k f)"
  by (rule keeps_modify, auto simp: train_true_def assms)+

lemmas true_keeps = keeps keeps_each true_row_status true_modify true_kept.child true_kept.os_ok true_kept.Retry true_kept.gate
  merging.child merging.os_ok merging.Retry merging.gate

lemma true_mergeNoFF: "keeps (true_keep c K) (mergeNoFF e c' p)" "keeps (true_merged c M) (mergeNoFF e c' p)"
  unfolding mergeNoFF_def by (intro true_keeps TrueI)+

lemma true_rebuild: "keeps (true_keep c K) (rebuild e c' ps)" "keeps (true_merged c M) (rebuild e c' ps)"
  unfolding rebuild_def by (intro true_keeps true_mergeNoFF TrueI)+

lemma true_runGate: "keeps (true_keep c K) (runGate e c' l b)"
  unfolding runGate_def by (intro true_keeps TrueI) simp_all

lemma true_bisect: "keeps (true_keep c K) (bisect_loop e c' merged lo hi)"
proof (induction e c' merged lo hi rule: bisect_loop.induct)
  case (1 e c' merged lo hi)
  then show ?case
    by (subst bisect_loop.simps) (auto simp: Let_def intro!: keeps true_rebuild true_runGate)
qed

lemma true_runTrainGate: "keeps (true_keep c K) (runTrainGate e c')"
  unfolding runTrainGate_def bisect_train_def by (intro true_keeps true_runGate true_bisect) simp_all

lemma true_build_one: "p \<in> set K \<Longrightarrow> keeps (true_keep c K) (build_one e c' p)"
proof -
  assume p: "p \<in> set K"
  have "keeps (true_keep c K) (modify_k (\<lambda>s. s\<lparr>tr_merged := tr_merged s @ [p]\<rparr>))"
    by (rule keeps_modify) (use p in \<open>auto simp: train_true_def\<close>)
  then show ?thesis
    unfolding build_one_def by (intro keeps true_mergeNoFF true_kept.child true_row_status TrueI) simp_all
qed

lemma keeps_each_in: "(\<And>x. x \<in> set xs \<Longrightarrow> keeps I (f x)) \<Longrightarrow> keeps I (each_k f xs)"
  by (induction xs) (auto intro!: keeps)

lemma keeps_get_with: "(\<And>k. I k \<Longrightarrow> keeps I (f (kt_state k))) \<Longrightarrow> keeps I (bind_k get_k f)"
  by (simp add: keeps_def bind_k_def get_k_def)

lemma true_buildTrain: "keeps (true_keep c K) (buildTrain e c')"
  unfolding buildTrain_def
  apply (rule keeps_bind[OF true_kept.os_ok[OF TrueI]], rule keeps_if, rule keeps_stop, rule keeps_get_with)
  apply (intro keeps true_kept.child true_modify TrueI; simp?)
  apply (rule keeps_each_in, rule true_build_one, simp)
  done

text \<open>While the pull requests are checked, those kept so far are among the ones done.\<close>

abbreviation in_check :: "mt_opts \<Rightarrow> string set \<Rightarrow> ((string \<Rightarrow> mt_row) \<Rightarrow> bool) \<Rightarrow> train kit \<Rightarrow> bool" where
  "in_check c D R k \<equiv> train_true c k \<and> set (tr_keep (kt_state k)) \<subseteq> D \<and> R (tr_rows (kt_state k))"

interpretation checks: run_invariant "\<lambda>_. True" "in_check c D R" for c D R
  by unfold_locales (auto simp: train_true_def intro: landed_append)

lemma checks_prCwdOK: "keeps (in_check c D R) (prCwdOK e c' p oid)"
proof -
  have "keeps (in_check c D R) (ResolveDir e' cwd d)" for e' cwd d
    by (rule checks.queries) (auto intro!: asks still)
  moreover have "keeps (in_check c D R) (modify_k (\<lambda>s. s\<lparr>tr_pcwd := (tr_pcwd s)(p := w)\<rparr>))" for w
    by (rule keeps_modify) (simp add: train_true_def)
  ultimately show ?thesis
    unfolding prCwdOK_def Let_def by (intro keeps checks.os_ok checks.child) simp_all
qed

lemma checks_fetch_pr: "keeps (in_check c D R) (fetch_pr e c' p oid)"
  unfolding fetch_pr_def by (intro keeps checks.Retry checks.child) simp_all

lemma checks_refuse:
  assumes "status \<noteq> ''merged''"
  shows "keeps (in_check c D (\<lambda>_. True)) (row_status p status why)"
  unfolding row_status_def set_row_def
  by (rule keeps_modify) (use train_true_row[of c _ "\<lambda>r. r\<lparr>mr_status := status, mr_reason := why\<rparr>"] assms in \<open>auto simp: plain_row_def\<close>)

lemma checks_head:
  assumes "p \<notin> D" "in_check c D (\<lambda>_. True) k"
  shows "wp (set_row p (\<lambda>r. r\<lparr>mr_head := oid\<rparr>)) (\<lambda>_. in_check c D (\<lambda>rows. mr_head (rows p) = oid)) E k"
proof -
  have "p \<notin> set (tr_keep (kt_state k))" "p \<notin> set (tr_mergedOK (kt_state k))"
    using assms by (auto simp: train_true_def)
  then show ?thesis
    using assms by (auto simp: set_row_def train_true_def)
qed

text \<open>The reason a pull request is refused is empty only for one that is pinned.\<close>

lemma wp_check_reason:
  assumes "in_check c D R k"
  shows "wp (check_reason e c p oid field s) (\<lambda>why k'. in_check c D R k' \<and> (why = [] \<longrightarrow> pinned c p oid)) (\<lambda>_ _. in_check c D R) k"
proof (cases "pinned c p oid")
  case True
  have "keeps (in_check c D R) (check_reason e c p oid field s)"
    unfolding check_reason_def by (intro keeps checks_prCwdOK checks_fetch_pr)
  then show ?thesis
    using True by (auto intro!: wp_mono[OF keeps_wp[of "in_check c D R", OF _ assms]])
next
  case False
  then show ?thesis
    unfolding check_reason_def using assms
    by (cases "oid = []"; cases "mo_pin c p = []"; cases "mtPinMatches oid (mo_pin c p)") (simp_all add: pinned_def)
qed

lemma wp_checkPR:
  assumes "p \<notin> D" "in_check c D (\<lambda>_. True) k"
  shows "wp (checkPR e c p) (\<lambda>_. in_check c (insert p D) (\<lambda>_. True)) (\<lambda>_ _. in_check c (insert p D) (\<lambda>_. True)) k"
proof -
  let ?I = "in_check c D (\<lambda>_. True)" and ?J = "in_check c (insert p D) (\<lambda>_. True)"
  have more: "?J k'" if "in_check c D R k'" for R k'
    using that by auto
  have refuse: "wp (row_status p ''refused'' why) (\<lambda>_. ?J) (\<lambda>_ _. ?J) k'" if "in_check c D R k'" for why R k'
    by (rule wp_mono[OF keeps_wp[where I = ?I, OF checks_refuse[of "''refused''" c D]]]) (use that in auto)
  have keep: "?J (k'\<lparr>kt_state := (kt_state k')\<lparr>tr_keep := tr_keep (kt_state k') @ [p]\<rparr>\<rparr>)"
    if "in_check c D (\<lambda>rows. mr_head (rows p) = oid) k'" "pinned c p oid" for oid k'
    using that by (auto simp: train_true_def)
  have rest: "wp (bind_k (set_row p (\<lambda>r. r\<lparr>mr_head := oid\<rparr>)) (\<lambda>_. bind_k get_k (\<lambda>s. bind_k (check_reason e c p oid field s)
           (\<lambda>why. if why \<noteq> [] then row_status p ''refused'' why else modify_k (\<lambda>s. s\<lparr>tr_keep := tr_keep s @ [p]\<rparr>)))))
       (\<lambda>_. ?J) (\<lambda>_ _. ?J) k'" if "?I k'" for oid field k'
  proof (rule wp_seq, rule wp_mono[OF checks_head[OF assms(1) that]], rule wp_seq, simp only: wp_get, rule wp_seq)
    fix k1 assume k1: "in_check c D (\<lambda>rows. mr_head (rows p) = oid) k1"
    show "wp (check_reason e c p oid field (kt_state k1)) (\<lambda>why. wp (if why \<noteq> [] then row_status p ''refused'' why
        else modify_k (\<lambda>s. s\<lparr>tr_keep := tr_keep s @ [p]\<rparr>)) (\<lambda>_. ?J) (\<lambda>_ _. ?J)) (\<lambda>_ _. ?J) k1"
    proof (rule wp_mono[OF wp_check_reason[where R = "\<lambda>rows. mr_head (rows p) = oid" and D = D and c = c, OF k1]])
      fix why :: string and k2 assume k2: "in_check c D (\<lambda>rows. mr_head (rows p) = oid) k2 \<and> (why = [] \<longrightarrow> pinned c p oid)"
      show "wp (if why \<noteq> [] then row_status p ''refused'' why else modify_k (\<lambda>s. s\<lparr>tr_keep := tr_keep s @ [p]\<rparr>)) (\<lambda>_. ?J) (\<lambda>_ _. ?J) k2"
        unfolding wp_if wp_modify using refuse[where R = "\<lambda>rows. mr_head (rows p) = oid" and k' = k2 and why = why] keep[where oid = oid and k' = k2] k2 by simp
    qed (rule more)
  qed
  show ?thesis
    unfolding checkPR_def Let_def
    apply (rule wp_seq, rule wp_mono[OF keeps_wp[OF checks.Retry[OF TrueI TrueI, of c D "\<lambda>_. True"] assms(2)]])
     apply (rule wp_branch, erule refuse, erule rest)
    apply (erule more)
    done
qed

lemma wp_checkPRs:
  assumes "distinct ps" "set ps \<inter> D = {}" "in_check c D (\<lambda>_. True) k"
  shows "wp (each_k (checkPR e c) ps) (\<lambda>_. train_true c) (\<lambda>_ _. train_true c) k"
  using assms
proof (induction ps arbitrary: D k)
  case (Cons p ps)
  have next': "wp (each_k (checkPR e c) ps) (\<lambda>_. train_true c) (\<lambda>_ _. train_true c) k'" if "in_check c (insert p D) (\<lambda>_. True) k'" for k'
    by (rule Cons.IH[OF _ _ that]) (use Cons.prems in auto)
  show ?case
    unfolding each_k.simps
    by (rule wp_seq, rule wp_mono[OF wp_checkPR[of p D]]) (use Cons.prems in \<open>auto intro: next'\<close>)
qed simp

lemma true_mt_fetch: "keeps (true_merged c M) (mt_fetch e c')" "keeps (true_keep c K) (mt_fetch e c')"
  unfolding mt_fetch_def by (rule merging.Retry true_kept.Retry; simp)+

lemma true_mt_rev: "keeps (true_merged c M) (mt_rev e d r)" "keeps (true_keep c K) (mt_rev e d r)"
  unfolding mt_rev_def by (intro keeps merging.child true_kept.child TrueI)+

lemma true_verifyTree: "keeps (true_merged c M) (verifyTree e c')"
  unfolding verifyTree_def by (intro keeps true_mt_rev true_rebuild)

lemma true_preMerge: "keeps (true_keep c K) (preMerge e c')"
  unfolding preMerge_def by (intro keeps true_mt_fetch true_mt_rev true_modify) simp_all

lemma true_stop_train: "keeps (true_merged c M) (stop_train p rc)"
  unfolding stop_train_def by (rule true_modify) simp_all

lemma true_reason: "keeps (true_merged c M) (set_row p (\<lambda>r. r\<lparr>mr_reason := why\<rparr>))"
  by (rule true_set_row) (simp add: plain_row_def)

text \<open>A merge that was confirmed is entered in the rows and the list of merged pull requests together.\<close>

lemma wp_after_merge:
  assumes "true_merged c M k" "p \<in> set M" "landed c p (mr_head (tr_rows (kt_state k) p)) (kt_hist k)"
  shows "wp (after_merge e c p) (\<lambda>_. true_merged c M) (\<lambda>_ _. true_merged c M) k"
proof -
  let ?rest = "bind_k (mt_fetch e c) (\<lambda>f.
     if rp_rc f \<noteq> 0 then
       bind_k (stop_train p 21) (\<lambda>_. set_row p (\<lambda>r. r\<lparr>mr_reason := ''fetch after the merge failed''\<rparr>))
     else bind_k (mt_rev e (mo_repo c) (mo_base c @ ''^{commit}'')) (\<lambda>cur.
          bind_k (mt_rev e (mo_repo c) (mo_base c @ ''^'')) (\<lambda>parent. bind_k get_k (\<lambda>s.
       if parent \<noteq> tr_expTip s then
         bind_k (stop_train p 31) (\<lambda>_. set_row p (\<lambda>r. r\<lparr>mr_reason := ''main-raced: '' @ mo_base c @ ''^ is not the expected tip '' @ tr_expTip s\<rparr>))
       else modify_k (\<lambda>s. s\<lparr>tr_expTip := cur\<rparr>)))))"
  let ?s = "(kt_state k)\<lparr>tr_rows := (tr_rows (kt_state k))(p := (tr_rows (kt_state k) p)\<lparr>mr_status := ''merged''\<rparr>)\<rparr>"
  have "keeps (true_merged c M) ?rest"
    by (intro keeps true_mt_fetch true_mt_rev true_stop_train true_reason true_modify) simp_all
  moreover have "true_merged c M (k\<lparr>kt_state := ?s\<lparr>tr_mergedOK := tr_mergedOK ?s @ [p]\<rparr>\<rparr>)"
    using assms by (auto simp: train_true_def)
  ultimately have "wp ?rest (\<lambda>_. true_merged c M) (\<lambda>_ _. true_merged c M) (k\<lparr>kt_state := ?s\<lparr>tr_mergedOK := tr_mergedOK ?s @ [p]\<rparr>\<rparr>)"
    by (rule keeps_wp)
  moreover have "wp (after_merge e c p) Q E k = wp ?rest Q E (k\<lparr>kt_state := ?s\<lparr>tr_mergedOK := tr_mergedOK ?s @ [p]\<rparr>\<rparr>)" for Q E
    by (simp add: after_merge_def set_row_def)
  ultimately show ?thesis by simp
qed

lemma landed_within: "confirmed (mt_wait_opts c pw p head) h \<Longrightarrow> landed c p head (h0 @ h @ h')"
  using landed_append[OF landed_now[of c pw p head h h0], of h'] by simp

lemma true_mergePR:
  assumes "p \<in> set M"
  shows "keeps (true_merged c M) (mergePR e c p pw own)"
proof (rule wp_keeps)
  fix k :: "train kit" assume k: "true_merged c M k"
  let ?head = "mr_head (tr_rows (kt_state k) p)"
  have status: "keeps (true_merged c M) (row_status p ''out-of-band'' why)" "keeps (true_merged c M) (row_status p ''pending'' why)" for why
    by (rule true_row_status, simp)+
  have verdict: "wp (if mrc = 0 then after_merge e c p
       else if mrc = 33 then bind_k (stop_train p 33) (\<lambda>_. row_status p ''out-of-band'' why1)
       else bind_k (stop_train p mrc) (\<lambda>_. row_status p ''pending'' why2)) (\<lambda>_. true_merged c M) (\<lambda>_ _. true_merged c M) k'"
    if "true_merged c M k'" "mrc = 0 \<longrightarrow> landed c p (mr_head (tr_rows (kt_state k') p)) (kt_hist k')" for mrc why1 why2 k'
  proof (cases "mrc = 0")
    case True
    then show ?thesis
      using wp_after_merge[OF that(1) assms] that(2) by simp
  next
    case False
    have "keeps (true_merged c M) (if mrc = 33 then bind_k (stop_train p 33) (\<lambda>_. row_status p ''out-of-band'' why1)
       else bind_k (stop_train p mrc) (\<lambda>_. row_status p ''pending'' why2))"
      by (intro keeps true_stop_train status)
    then show ?thesis
      unfolding if_not_P[OF False] by (rule keeps_wp[where I = "true_merged c M", OF _ that(1)])
  qed
  have more: "true_merged c M (noted k h)" for h
    using k by (auto simp: train_true_def intro: landed_append)
  show "wp (mergePR e c p pw own) (\<lambda>_. true_merged c M) (\<lambda>_ _. true_merged c M) k"
    unfolding mergePR_def
    apply (rule wp_seq, simp only: wp_get, rule wp_seq, rule wp_kitwait)
     apply (rule wp_seq, rule wp_branch, rule wp_seq, rule wp_child)
        apply (simp only: noted_noted more)
       apply (simp only: wp_return noted_noted, rule verdict, rule more)
       apply (auto simp: wait_facts_def intro: landed_within)[1]
      apply (simp only: wp_return, rule verdict, rule more)
      apply (auto simp: wait_facts_def intro: landed_now)[1]
     apply (simp only: more)
    done
qed

lemma true_merge_one: "p \<in> set M \<Longrightarrow> keeps (true_merged c M) (merge_one e c p)"
proof -
  assume p: "p \<in> set M"
  have status: "keeps (true_merged c M) (row_status p ''pending'' why)" for why
    by (rule true_row_status) simp
  show ?thesis
    unfolding merge_one_def Let_def
    by (intro keeps merging.child true_mergePR[OF p] true_stop_train status true_modify TrueI) simp_all
qed

definition all_landed :: "mt_opts \<Rightarrow> history \<Rightarrow> bool" where
  "all_landed c h \<longleftrightarrow> (\<forall>p \<in> set (mo_prs c). \<exists>head. pinned c p head \<and> landed c p head h)"

lemma true_all_landed:
  assumes "train_true c k" "\<forall>p \<in> set (mo_prs c). mr_status (tr_rows (kt_state k) p) = ''merged''"
  shows "all_landed c (kt_hist k)"
  unfolding all_landed_def
proof
  fix p assume "p \<in> set (mo_prs c)"
  then have "p \<in> set (tr_mergedOK (kt_state k))"
    using assms by (simp add: train_true_def)
  then show "\<exists>head. pinned c p head \<and> landed c p head (kt_hist k)"
    using assms(1) unfolding train_true_def by blast
qed

lemma stops_wp: "stops S m \<Longrightarrow> keeps I m \<Longrightarrow> I k \<Longrightarrow> wp m (\<lambda>_. I) (\<lambda>c s k'. S c s \<and> I k') k"
proof -
  assume m: "stops S m" "keeps I m" "I k"
  have "wp m (\<lambda>_ _. True) (\<lambda>c s _. S c s) k" "I (snd (m k))"
    using m by (auto simp: stops_def keeps_def)
  then show ?thesis
    by (cases "fst (m k)") (simp_all add: wp_def split_beta)
qed

lemma keeps_landed: "asks (\<lambda>_. True) m \<Longrightarrow> keeps (\<lambda>k. b \<longrightarrow> all_landed c (kt_hist k)) m"
proof -
  assume m: "asks (\<lambda>_. True) m"
  have "all_landed c h \<Longrightarrow> all_landed c (h @ h')" for h h'
    unfolding all_landed_def by (blast intro: landed_append)
  moreover have "\<exists>h. kt_hist (snd (m k)) = kt_hist k @ h" for k
    using m by (auto simp: asks_def)
  ultimately show ?thesis
    unfolding keeps_def by metis
qed

lemma asks_verifyTree: "asks (\<lambda>_. True) (verifyTree e c)"
  unfolding verifyTree_def mt_rev_def by (intro asks asks_mono[OF quiet_rebuild]) simp_all

lemma train_fails_stop: "train_fails c s \<Longrightarrow> (c, s) \<in> train_stops \<and> s \<noteq> ''merged''"
  by (auto simp: train_fails_def train_stops_def)

lemma wp_mergeAll:
  assumes "train_true c k"
  shows "wp (mergeAll e c) (\<lambda>_ _. False) (\<lambda>code s k'. (code, s) \<in> train_stops \<and> (s = ''merged'' \<longrightarrow> all_landed c (kt_hist k'))) k"
proof -
  let ?M = "tr_merged (kt_state k)" and ?E = "\<lambda>code s k'. (code, s) \<in> train_stops \<and> (s = ''merged'' \<longrightarrow> all_landed c (kt_hist k'))"
  have each: "wp (each_k (merge_one e c) ?M) (\<lambda>_. true_merged c ?M) (\<lambda>code s k'. train_fails code s \<and> true_merged c ?M k') k"
    by (rule stops_wp, intro stops, rule keeps_each_in, erule true_merge_one) (simp add: assms)
  have fails: "?E code s k'" if "train_fails code s" for code s k'
    using train_fails_stop[OF that] by blast
  have verify: "wp (verifyTree e c) (\<lambda>_ k'. b \<longrightarrow> all_landed c (kt_hist k')) ?E k'"
    if "b \<longrightarrow> all_landed c (kt_hist k')" for b k'
    by (rule wp_mono[OF stops_wp[OF stops_verifyTree keeps_landed[OF asks_verifyTree] that]]) (assumption | drule conjunct1, erule fails)+
  have stopped: "stop_state rc \<in> train_stops - {(0, ''merged'')}" "snd (stop_state rc) \<noteq> ''merged''" for rc
    by (simp_all add: stop_state_def train_stops_def)
  have last': "wp (let (code, state) = stop_state rc
        in bind_k (if state \<in> set [''not-merged'', ''ci-failed'', ''merge-degraded''] then verifyTree e c else return_k ()) (\<lambda>_. stop_k code state))
      (\<lambda>_ _. False) ?E k'" for rc k'
  proof -
    obtain code state where st: "stop_state rc = (code, state)" by force
    then have end': "?E code state k''" for k''
      using stopped[of rc] by auto
    show ?thesis
      unfolding st Let_def prod.case
      apply (rule wp_seq, rule wp_branch, rule wp_mono[OF verify[of False]])
         apply (rule impI, erule FalseE)
        apply (simp only: wp_stop, rule end')
       apply assumption
      apply (simp only: wp_return wp_stop, rule end')
      done
  qed
  show ?thesis
    unfolding mergeAll_def
  proof (rule wp_seq, simp only: wp_get, rule wp_seq, rule wp_mono[OF each])
    fix k1 assume k1: "true_merged c ?M k1"
    let ?s = "kt_state k1"
    have "wp (bind_k (verifyTree e c) (\<lambda>_. if list_ex (\<lambda>p. mr_status (tr_rows ?s p) \<noteq> ''merged'') (mo_prs c)
        then stop_k 27 ''train-partial'' else stop_k 0 ''merged'')) (\<lambda>_ _. False) ?E k1"
      by (rule wp_seq, rule wp_mono[OF verify[of "\<not> list_ex (\<lambda>p. mr_status (tr_rows ?s p) \<noteq> ''merged'') (mo_prs c)"]])
        (use k1 in \<open>simp_all add: list_ex_iff train_stops_def true_all_landed\<close>)
    then show "wp (bind_k get_k (\<lambda>s. if tr_stopped s \<noteq> [] then
          let (code, state) = stop_state (tr_stopRC s)
          in bind_k (if state \<in> set [''not-merged'', ''ci-failed'', ''merge-degraded''] then verifyTree e c else return_k ()) (\<lambda>_. stop_k code state)
        else bind_k (verifyTree e c) (\<lambda>_. if list_ex (\<lambda>p. mr_status (tr_rows s p) \<noteq> ''merged'') (mo_prs c)
          then stop_k 27 ''train-partial'' else stop_k 0 ''merged''))) (\<lambda>_ _. False) ?E k1"
      by (intro wp_seq, simp only: wp_get, intro wp_branch last') (simp only: wp_bind)
  qed (drule conjunct1, erule fails)
qed

text \<open>The run up to the merges keeps the truth of the rows; the merges end it.\<close>

lemma wp_built:
  assumes "train_true c k"
  shows "wp (bind_k (buildTrain e c) (\<lambda>_. bind_k (runTrainGate e c) (\<lambda>_. bind_k (preMerge e c) (\<lambda>_. mergeAll e c))))
    (\<lambda>_ _. False) (\<lambda>code s k'. (code, s) \<in> train_stops \<and> (s = ''merged'' \<longrightarrow> all_landed c (kt_hist k'))) k"
proof -
  let ?E = "\<lambda>code s k'. (code, s) \<in> train_stops \<and> (s = ''merged'' \<longrightarrow> all_landed c (kt_hist k'))"
  let ?I = "true_keep c (tr_keep (kt_state k))"
  have step: "wp m (\<lambda>_. ?I) ?E k'" if "stops train_fails m" "keeps ?I m" "?I k'" for m :: "unit mt" and k'
    by (rule wp_mono[OF stops_wp[OF that]]) (auto simp: train_fails_def train_stops_def)
  show ?thesis
    apply (rule wp_seq, rule wp_mono[OF step[OF stops_buildTrain true_buildTrain]], simp add: assms)
     apply (rule wp_seq, rule wp_mono[OF step[OF stops_runTrainGate true_runTrainGate]], assumption)
      apply (rule wp_seq, rule wp_mono[OF step[OF stops_preMerge true_preMerge]], assumption)
       apply (rule wp_mergeAll, blast)
      apply assumption+
    done
qed

lemma wp_mt_train_stop:
  assumes "train_true c k" "tr_keep (kt_state k) = []" "distinct (mo_prs c)"
  shows "wp (mt_train e c) (\<lambda>_ _. False) (\<lambda>code s k'. (code, s) \<in> train_stops \<and> (s = ''merged'' \<longrightarrow> all_landed c (kt_hist k'))) k"
proof -
  let ?E = "\<lambda>code s k'. (code, s) \<in> train_stops \<and> (s = ''merged'' \<longrightarrow> all_landed c (kt_hist k'))"
  have step: "wp m (\<lambda>_. true_keep c []) ?E k'" if "stops train_fails m" "keeps (true_keep c []) m" "true_keep c [] k'" for m :: "'a mt" and k'
    by (rule wp_mono[OF stops_wp[OF that]]) (auto simp: train_fails_def train_stops_def)
  have rest: "wp (bind_k (checkPRs e c) (\<lambda>_. bind_k get_k (\<lambda>s. if tr_keep s = [] then stop_k 28 ''train-empty'' else
     bind_k (buildTrain e c) (\<lambda>_. bind_k (runTrainGate e c) (\<lambda>_. bind_k (preMerge e c) (\<lambda>_. mergeAll e c))))))
     (\<lambda>_ _. False) ?E k'" if "true_keep c [] k'" for k'
  proof (rule wp_seq)
    have "wp (checkPRs e c) (\<lambda>_. train_true c) (\<lambda>_ _. train_true c) k'"
      unfolding checkPRs_def by (rule wp_checkPRs[of _ "{}"]) (use assms(3) that in auto)
    moreover have "wp (checkPRs e c) (\<lambda>_ _. True) (\<lambda>c s _. train_fails c s) k'"
      using stops_checkPRs unfolding stops_def by blast
    ultimately have "wp (checkPRs e c) (\<lambda>_. train_true c) ?E k'"
      by (auto simp: wp_def train_fails_def train_stops_def split: prod.splits outcome.splits)
    then show "wp (checkPRs e c) (\<lambda>_. wp (bind_k get_k (\<lambda>s. if tr_keep s = [] then stop_k 28 ''train-empty'' else
       bind_k (buildTrain e c) (\<lambda>_. bind_k (runTrainGate e c) (\<lambda>_. bind_k (preMerge e c) (\<lambda>_. mergeAll e c)))))
       (\<lambda>_ _. False) ?E) ?E k'"
    proof (rule wp_mono)
      fix k1 assume "train_true c k1"
      then show "wp (bind_k get_k (\<lambda>s. if tr_keep s = [] then stop_k 28 ''train-empty'' else
         bind_k (buildTrain e c) (\<lambda>_. bind_k (runTrainGate e c) (\<lambda>_. bind_k (preMerge e c) (\<lambda>_. mergeAll e c)))))
         (\<lambda>_ _. False) ?E k1"
        by (intro wp_seq[of get_k], simp only: wp_get, intro wp_branch, simp add: train_stops_def, intro wp_built)
    qed
  qed
  have base: "true_keep c [] (k1\<lparr>kt_state := (kt_state k1)\<lparr>tr_baseSHA := b\<rparr>\<rparr>)" if "true_keep c [] k1" for k1 b
    using that by (auto simp: train_true_def)
  show ?thesis
    unfolding mt_train_def
    apply (rule wp_seq, rule wp_mono[OF step[OF stops_mt_fetch true_mt_fetch(2)]])
      apply (simp add: assms)
     apply (rule wp_branch, simp add: train_stops_def)
     apply (rule wp_seq, rule wp_mono[OF step[OF stops_child true_kept.child]], simp, simp, assumption)
      apply (rule wp_branch, simp add: train_stops_def)
      apply (rule wp_seq, simp only: wp_modify, rule rest, rule base, assumption)
     apply assumption+
    done
qed

text \<open>What the resolved configuration keeps of the command line.\<close>

definition resolved :: "mt_opts \<Rightarrow> string list \<Rightarrow> mt_opts \<Rightarrow> bool" where
  "resolved o' prs c \<longleftrightarrow> mo_base c = mo_base o' \<and> mo_prs c = prs \<and> mo_pin c = mo_pin o' \<and> mo_gateCmd c = mo_gateCmd o' \<and>
     mo_remote c @ ''/'' @ mo_baseBranch c = mo_base o'"

lemma cut_at_join:
  assumes "cut_at ch s = Some (a, b)"
  shows "a @ [ch] @ b = s"
proof -
  have "ch \<in> set s \<Longrightarrow> takeWhile (\<lambda>d. d \<noteq> ch) s @ [ch] @ tl (dropWhile (\<lambda>d. d \<noteq> ch) s) = s"
    by (induction s) auto
  then show ?thesis
    using assms by (auto simp: cut_at_def split: if_splits)
qed

lemma wp_resolved:
  assumes "cut_at (CHR ''/'') (mo_base o') \<noteq> None"
  shows "wp (mt_resolve e o' prs) (\<lambda>c _. resolved o' prs c) (\<lambda>_ _ _. True) k"
proof -
  obtain remote branch where cut: "cut_at (CHR ''/'') (mo_base o') = Some (remote, branch)"
    using assms by auto
  show ?thesis
    unfolding mt_resolve_def
    apply (rule wp_seq, rule wp_os_ok, rule wp_branch, simp)
    apply (rule wp_seq, rule wp_physical, rule wp_option, simp)
    apply (rule wp_seq, rule wp_PhysPath, rule wp_option, simp)
    apply (rule wp_branch, simp)
    apply (simp add: cut resolved_def cut_at_join[OF cut, simplified])
    done
qed

section \<open>The whole train\<close>

lemma wp_conj: "wp m Q E k \<Longrightarrow> wp m Q' E' k \<Longrightarrow> wp m (\<lambda>x k. Q x k \<and> Q' x k) (\<lambda>c s k. E c s k \<and> E' c s k) k"
  by (auto simp: wp_def split: prod.splits outcome.splits)

lemma usage_fine: "mt_usage o' prs = None \<Longrightarrow> cut_at (CHR ''/'') (mo_base o') \<noteq> None \<and> distinct prs"
  by (auto simp: mt_usage_def split: if_splits option.splits)

lemma all_landed_append: "all_landed c h \<Longrightarrow> all_landed c (h @ h')"
  unfolding all_landed_def by (blast intro: landed_append)

lemma wp_ask_all: "wp (ask_all e as) (\<lambda>_ k'. \<exists>h. k' = noted k h \<and> map fst h = as) (\<lambda>_ _ _. False) k"
proof (induction as arbitrary: k)
  case Nil
  show ?case by (simp add: exI[of _ "[]"])
next
  case (Cons a as)
  show ?case
    unfolding ask_all.simps
    by (rule wp_seq, rule wp_ask, rule wp_mono[OF Cons.IH]) (auto intro: exI[of _ "(a, r) # h" for r h])
qed

text \<open>The end of a run: the receipt, then everything that was made removed, then the state it ends in.\<close>

lemma wp_finish: "wp (finish e c code s) (\<lambda>_ _. False)
    (\<lambda>code' s' k'. code' = code \<and> s' = s \<and> (\<exists>h r. kt_hist k' = kt_hist k @ (Os ''write'' (mt_receiptPath c), r) # h \<and>
       map fst h = cleanup_actions e c (kt_state k)) \<and> tr_receipt (kt_state k') = Some (receipt_of c (kt_state k) s)) k"
proof -
  let ?k = "k\<lparr>kt_state := (kt_state k)\<lparr>tr_receipt := Some (receipt_of c (kt_state k) s)\<rparr>\<rparr>"
  have same: "cleanup_actions e c (kt_state ?k) = cleanup_actions e c (kt_state k)"
    by (simp add: cleanup_actions_def)
  show ?thesis
    unfolding finish_def writeReceipt_def cleanup_def
    apply (rule wp_seq, rule wp_seq, simp only: wp_modify, rule wp_seq, rule wp_os_ok, simp only: wp_return)
    apply (rule wp_seq, rule wp_seq, simp only: wp_get, rule wp_mono[OF wp_ask_all])
     apply (use same in \<open>auto simp: noted_def\<close>)
    done
qed

lemma wp_finishing_result:
  assumes "wp m (\<lambda>_ _. False) (\<lambda>code s k'. \<exists>h. kt_hist k' = kt_hist k @ h \<and> R code s k') k"
  shows "wp (finishing e c m) (\<lambda>_ _. False) (\<lambda>code s k'. \<exists>k1 h r. R code s k1 \<and> kt_hist k' = kt_hist k1 @ (Os ''write'' (mt_receiptPath c), r) # h \<and>
      map fst h = cleanup_actions e c (kt_state k1) \<and> tr_receipt (kt_state k') = Some (receipt_of c (kt_state k1) s)) k"
proof -
  obtain out k1 where m: "m k = (out, k1)" by (cases "m k")
  then obtain code s where out: "out = Stopped code s" "R code s k1"
    using assms by (cases out) (auto simp: wp_def)
  show ?thesis
    using wp_finish[of e c code s k1] out unfolding wp_def finishing_def m by (auto split: prod.splits outcome.splits)
qed

definition all_stops :: "(int \<times> string) set" where
  "all_stops = train_stops \<union> {(2, ''usage''), (3, ''degraded''), (0, ''plan''), (0, ''help'')}"

text \<open>
  The run as a whole: refused, planned, degraded, or a train whose every stop went through the end of the run. What holds
  of a train that starts from a fresh state with resolved options holds of the run.
\<close>

lemma wp_mt_run:
  assumes parse: "mt_flags mt_defaults args = MParsed o' prs"
    and train: "\<And>c k. resolved o' prs c \<Longrightarrow> distinct prs \<Longrightarrow> only prelude_action (kt_hist k) \<Longrightarrow> kt_state k = new_train c \<Longrightarrow>
      wp (finishing e c (mt_train e c)) (\<lambda>_ _. False) E k"
    and early: "\<And>code s k. (code, s) \<in> {(2, ''usage''), (3, ''degraded''), (0, ''plan'')} \<Longrightarrow> only prelude_action (kt_hist k) \<Longrightarrow> E code s k"
  shows "wp (mt_run e args) (\<lambda>_ _. False) E start_train"
proof (cases "mt_usage o' prs")
  case (Some msg)
  then show ?thesis
    unfolding mt_run_def parse mt_parsed.case by (simp add: early start_train_def)
next
  case None
  note fine = usage_fine[OF None]
  have resolve: "wp (mt_resolve e o' prs) (\<lambda>c k. resolved o' prs c \<and> only prelude_action (kt_hist k)) (\<lambda>code s k. (code, s) = (2, ''usage'') \<and> only prelude_action (kt_hist k)) start_train"
  proof -
    have "wp (mt_resolve e o' prs) (\<lambda>_ k. only prelude_action (kt_hist k)) (\<lambda>_ _ k. only prelude_action (kt_hist k)) start_train"
      by (rule asks_wp[of prelude_action]) (simp_all add: start_train_def mt_resolve_def Let_def asks)
    moreover have st: "stops (\<lambda>code s. (code, s) = (2, ''usage'')) (mt_resolve e o' prs)"
      unfolding mt_resolve_def Let_def by (intro stops) (auto intro!: stops split: prod.split)
    ultimately show ?thesis
      using wp_resolved[of o' e prs start_train] fine st[unfolded stops_def, rule_format, of start_train]
      by (auto simp: wp_def split: prod.splits outcome.splits)
  qed
  show ?thesis
    unfolding mt_run_def parse mt_parsed.case
    apply (rule wp_branch, simp add: None)
    apply (rule wp_seq, rule wp_mono[OF resolve])
     apply (rule wp_branch, simp add: early)
     apply (rule wp_seq, rule wp_missing_deps, rule wp_branch)
      apply (simp add: early os_prelude)
     apply (rule wp_seq, rule wp_ask, rule wp_branch)
      apply (simp add: early os_prelude)
     apply (rule wp_seq, rule wp_os_ok, rule wp_branch)
      apply (simp add: early os_prelude)
     apply (rule wp_seq, simp only: wp_modify, rule train)
        apply (auto simp: fine os_prelude early)
    done
qed

lemma wp_fresh_train:
  assumes "resolved o' prs c" "distinct prs" "kt_state k = new_train c"
  shows "wp (finishing e c (mt_train e c)) (\<lambda>_ _. False)
    (\<lambda>code s k'. (code, s) \<in> train_stops \<and> (s = ''merged'' \<longrightarrow> all_landed c (kt_hist k'))) k"
proof -
  have fresh: "train_true c k" "tr_keep (kt_state k) = []" "distinct (mo_prs c)"
    using assms by (simp_all add: train_true_def new_train_def empty_row_def resolved_def)
  have "wp (mt_train e c) (\<lambda>_ _. False) (\<lambda>code s k'. \<exists>h. kt_hist k' = kt_hist k @ h \<and>
      (code, s) \<in> train_stops \<and> (s = ''merged'' \<longrightarrow> all_landed c (kt_hist k'))) k"
    by (rule wp_mono[OF wp_conj[OF wp_mt_train_stop[OF fresh] wp_mt_train]]) (auto simp: gated_from_def)
  then show ?thesis
    by (rule wp_mono[OF wp_finishing_result]) (auto intro: all_landed_append)
qed

text \<open>
  C1. The train merges nothing it has not gated. Whatever git, gh, the gate and the operating system answer and whenever
  a signal arrives, every time the train asks the merge gate to merge a pull request it has before that, in this order:
  fetched the remote and read the commit of the base named on the command line, added the train worktree at that commit,
  taken the gate lock, seen the combined gate end green and not interrupted, fetched again, and read the very same base
  commit.
\<close>

theorem train_merges_only_gated:
  assumes "mt_flags mt_defaults args = MParsed o' prs"
  shows "\<exists>c sha. mo_base c = mo_base o' \<and> guarded is_merge (train_earned e c sha) (kt_hist (snd (mt_run e args start_train)))"
proof -
  let ?G = "\<lambda>k. \<exists>c sha. mo_base c = mo_base o' \<and> guarded is_merge (train_earned e c sha) (kt_hist k)"
  have none: "?G k" if "only prelude_action (kt_hist k)" for k :: "train kit"
    by (intro exI[of _ o'] exI[of _ "[]"] conjI guarded_none) (use quiet_prelude[OF that] in \<open>simp_all add: quiet_def\<close>)
  have "wp (mt_run e args) (\<lambda>_ _. False) (\<lambda>_ _. ?G) start_train"
  proof (rule wp_mt_run[OF assms])
    fix c and k :: "train kit"
    assume c: "resolved o' prs c" "only prelude_action (kt_hist k)" "distinct prs" "kt_state k = new_train c"
    have "?G k'" if "gated_from e c k k'" for k'
      using that c quiet_prelude[OF c(2)] unfolding gated_from_def resolved_def by (metis guarded_prefix)
    moreover have "wp (finishing e c (mt_train e c)) (\<lambda>_. gated_from e c k) (\<lambda>_ _. gated_from e c k) k"
      by (rule wp_finishing)
    moreover have "wp (finishing e c (mt_train e c)) (\<lambda>_ _. False) (\<lambda>_ _ _. True) k"
      by (rule wp_mono[OF wp_fresh_train[OF c(1) c(3,4)]]) auto
    ultimately show "wp (finishing e c (mt_train e c)) (\<lambda>_ _. False) (\<lambda>_ _. ?G) k"
      by (auto simp: wp_def split: prod.splits outcome.splits)
  qed (rule none)
  then show ?thesis
    by (auto simp: wp_def split: prod.splits outcome.splits)
qed

lemma train_stop_0: "(code, s) \<in> train_stops \<Longrightarrow> code \<noteq> 0 \<or> s = ''merged''"
  by (auto simp: train_stops_def)

text \<open>
  C9. Exit 0 is earned by every pull request of the batch. A run that was not asked for help and exits with 0 either only
  printed its plan, and then nothing was asked to merge, or ends as merged: and then it has, for each pull request on its
  command line, read back from gh that it is MERGED at a head that starts with the head the operator pinned for it.
\<close>

theorem train_success_is_complete:
  assumes "mt_flags mt_defaults args = MParsed o' prs" "fst (mt_run e args start_train) = Stopped 0 s"
  shows "s = ''plan'' \<and> asked is_merge (kt_hist (snd (mt_run e args start_train))) = 0 \<or>
    s = ''merged'' \<and> (\<exists>c. resolved o' prs c \<and> all_landed c (kt_hist (snd (mt_run e args start_train))))"
proof -
  let ?E = "\<lambda>code s k'. code \<noteq> 0 \<or> s = ''plan'' \<and> asked is_merge (kt_hist k') = 0 \<or>
    s = ''merged'' \<and> (\<exists>c. resolved o' prs c \<and> all_landed c (kt_hist k'))"
  have "wp (mt_run e args) (\<lambda>_ _. False) ?E start_train"
  proof (rule wp_mt_run[OF assms(1)])
    fix c and k :: "train kit"
    assume c: "resolved o' prs c" "distinct prs" "kt_state k = new_train c"
    show "wp (finishing e c (mt_train e c)) (\<lambda>_ _. False) ?E k"
      by (rule wp_mono[OF wp_fresh_train[OF c]]) (use c(1) train_stop_0 in blast)+
  qed (auto simp: quiet_asked [OF quiet_prelude])
  then show ?thesis
    using assms(2) by (auto simp: wp_def split: prod.splits)
qed

section \<open>What the train leaves behind\<close>

text \<open>The worktree a git command adds.\<close>

definition added :: "action \<Rightarrow> string option" where
  "added a = (case a of Git d as \<Rightarrow> if take 2 as = [''worktree'', ''add''] then Some (if length as = 7 then as ! 5 else as ! 4) else None
     | _ \<Rightarrow> None)"

definition tracked :: "mt_env \<Rightarrow> train kit \<Rightarrow> bool" where
  "tracked e k \<longleftrightarrow> (\<forall>i < length (kt_hist k). \<forall>w. added (fst (kt_hist k ! i)) = Some w \<and> rp_rc (snd (kt_hist k ! i)) = 0 \<and>
     \<not> ke_pending (me_kit e) (take (Suc i) (kt_hist k)) \<longrightarrow> w \<in> set (tr_madeWts (kt_state k)))"

lemma tracked_snoc:
  assumes "tracked e k" "added a = None \<or> rp_rc r \<noteq> 0 \<or> ke_pending (me_kit e) (kt_hist k @ [(a, r)])"
  shows "tracked e (noted k [(a, r)])"
  using assms unfolding tracked_def by (auto simp: nth_append less_Suc_eq split: if_splits)

interpretation made: run_invariant "\<lambda>a. added a = None" "tracked e" for e
  by unfold_locales (rule tracked_snoc, simp_all)

lemma made_modify: "(\<And>s. tr_madeWts (f s) = tr_madeWts s) \<Longrightarrow> keeps (tracked e) (modify_k f)"
  by (rule keeps_modify) (simp add: tracked_def)

lemma added_simps [simp]: "added (Os w p) = None" "added (Gh d as) = None" "added (Sleep n) = None" "added (MergeGate as) = None"
  "added (GateRun c d) = None" "added (Lock f n) = None" "added (Git d []) = None" "added (Git d [x]) = None"
  "added (Git d (x # y # as)) = (if x = ''worktree'' \<and> y = ''add'' then Some (if length as = 5 then as ! 3 else as ! 2) else None)"
  by (auto simp: added_def)

lemma made_gate: "keeps (tracked e) (kitgate_Run e' o')"
  by (rule made.gate) (auto elim!: gate_action.elims(2))

lemma made_wait: "keeps (tracked e) (kitwait_Run e' o')"
  by (rule made.wait) (auto elim!: wait_action.elims(2))

lemma made_rows: "keeps (tracked e) (set_row p f)" "keeps (tracked e) (row_status p s t)" "keeps (tracked e) (stop_train p rc)"
  by (simp_all add: set_row_def row_status_def stop_train_def made_modify)

lemmas made_keeps = keeps keeps_each made_rows made_gate made_wait made_modify made.child made.os_ok made.Retry

lemma made_mt_fetch: "keeps (tracked e) (mt_fetch e' c)"
  unfolding mt_fetch_def by (intro made_keeps) simp_all

lemma made_mt_rev: "keeps (tracked e) (mt_rev e' d r)"
  unfolding mt_rev_def by (intro made_keeps) simp_all

lemma made_prCwdOK: "keeps (tracked e) (prCwdOK e' c p oid)"
proof -
  have "keeps (tracked e) (ResolveDir e'' cwd d)" for e'' cwd d
    by (rule made.queries) (auto intro!: asks still)
  then show ?thesis
    unfolding prCwdOK_def Let_def by (intro made_keeps) simp_all
qed

lemma made_checkPRs: "keeps (tracked e) (checkPRs e' c)"
  unfolding checkPRs_def checkPR_def check_reason_def fetch_pr_def Let_def by (intro made_keeps made_prCwdOK) simp_all

lemma made_mergeNoFF: "keeps (tracked e) (mergeNoFF e' c p)"
  unfolding mergeNoFF_def by (intro made_keeps) simp_all

lemma made_rebuild: "keeps (tracked e) (rebuild e' c ps)"
  unfolding rebuild_def by (intro made_keeps made_mergeNoFF) simp_all

lemma made_runGate: "keeps (tracked e) (runGate e' c l b)"
  unfolding runGate_def by (intro made_keeps) simp_all

lemma made_bisect: "keeps (tracked e) (bisect_loop e' c merged lo hi)"
proof (induction e' c merged lo hi rule: bisect_loop.induct)
  case (1 e' c merged lo hi)
  then show ?case
    by (subst bisect_loop.simps) (auto simp: Let_def intro!: keeps made_rebuild made_runGate)
qed

lemma made_runTrainGate: "keeps (tracked e) (runTrainGate e' c)"
  unfolding runTrainGate_def bisect_train_def by (intro made_keeps made_runGate made_bisect) simp_all

lemma made_preMerge: "keeps (tracked e) (preMerge e' c)"
  unfolding preMerge_def by (intro made_keeps made_mt_fetch made_mt_rev) simp_all

lemma made_verifyTree: "keeps (tracked e) (verifyTree e' c)"
  unfolding verifyTree_def by (intro made_keeps made_mt_rev made_rebuild)

lemma made_mergePR: "keeps (tracked e) (mergePR e' c p pw own)"
  unfolding mergePR_def after_merge_def by (intro made_keeps made_mt_fetch made_mt_rev) simp_all

text \<open>A worktree that was added is entered before anything else is asked, unless a signal ends the run in between.\<close>

lemma made_add:
  assumes "added a = Some w" "\<And>s. tr_madeWts (f s) = tr_madeWts s @ [w]" "keeps (tracked e) X" "keeps (tracked e) Y"
  shows "keeps (tracked e) (bind_k (child (me_kit e) a) (\<lambda>r. if rp_rc r \<noteq> 0 then X else bind_k (modify_k f) (\<lambda>_. Y)))"
proof (rule wp_keeps, rule wp_seq, rule wp_child)
  fix k r assume k: "tracked e k"
  show "tracked e (noted k [(a, r)])" if "ke_pending (me_kit e) (kt_hist k @ [(a, r)])"
    by (rule tracked_snoc) (use k that in auto)
  have new: "tracked e ((noted k [(a, r)])\<lparr>kt_state := f (kt_state (noted k [(a, r)]))\<rparr>)"
    using k assms(1,2) unfolding tracked_def by (auto simp: nth_append less_Suc_eq split: if_splits)
  have refused: "tracked e (noted k [(a, r)])" if "rp_rc r \<noteq> 0"
    by (rule tracked_snoc) (use k that in auto)
  show "wp (if rp_rc r \<noteq> 0 then X else bind_k (modify_k f) (\<lambda>_. Y)) (\<lambda>_. tracked e) (\<lambda>_ _. tracked e) (noted k [(a, r)])"
    apply (rule wp_branch)
     apply (rule keeps_wp[OF assms(3)], erule refused)
    apply (rule wp_seq, simp only: wp_modify, rule keeps_wp[OF assms(4) new])
    done
qed

lemma made_buildTrain: "keeps (tracked e) (buildTrain e c)"
  unfolding buildTrain_def build_one_def
  apply (rule keeps_bind[OF made.os_ok], simp, rule keeps_if, rule keeps_stop, rule keeps_bind[OF keeps_get], rule made_add[where w = "mt_wt c"])
     apply (simp, simp, rule keeps_stop)
  apply (intro made_keeps made_mergeNoFF; simp)
  done

lemma made_merge_one: "keeps (tracked e) (merge_one e c p)"
  unfolding merge_one_def Let_def
  apply (rule keeps_bind[OF keeps_get], rule keeps_if, rule made_rows, rule keeps_if, rule made_mergePR, rule made_add)
     apply (simp, simp)
   apply (intro made_keeps)
  apply (rule made_mergePR)
  done

lemma made_mergeAll: "keeps (tracked e) (mergeAll e c)"
  unfolding mergeAll_def Let_def by (intro keeps keeps_each made_merge_one made_verifyTree) (auto intro!: keeps made_verifyTree split: prod.split)

lemma made_mt_train: "keeps (tracked e) (mt_train e c)"
  unfolding mt_train_def
  by (intro keeps made_mt_fetch made_checkPRs made_buildTrain made_runTrainGate made_preMerge made_mergeAll made_modify made.child) simp_all

definition cleaned :: "mt_env \<Rightarrow> mt_opts \<Rightarrow> history \<Rightarrow> bool" where
  "cleaned e c h \<longleftrightarrow> (\<forall>i < length h. \<forall>w. added (fst (h ! i)) = Some w \<and> rp_rc (snd (h ! i)) = 0 \<and> \<not> ke_pending (me_kit e) (take (Suc i) h) \<longrightarrow>
     (\<exists>j < length h. i < j \<and> fst (h ! j) = Git (mt_dir e (mo_repo c)) [''worktree'', ''remove'', ''--force'', w]))"

lemma cleanup_adds_nothing: "a \<in> set (cleanup_actions e c s) \<Longrightarrow> added a = None"
  by (auto simp: cleanup_actions_def split: if_splits)

lemma cleaned_none: "only (\<lambda>a. added a = None) h \<Longrightarrow> cleaned e c h"
  by (auto simp: cleaned_def only_def list_all_length)

lemma prelude_adds_nothing: "prelude_action a \<Longrightarrow> added a = None"
proof (cases a)
  fix d as assume "prelude_action a" "a = Git d as"
  then show "added a = None"
    by (cases as; cases "tl as") auto
qed auto

lemma tracked_cleaned:
  assumes "tracked e k" "map fst h = cleanup_actions e c (kt_state k)"
  shows "cleaned e c (kt_hist k @ (Os w' p, r) # h)" (is "cleaned e c ?h")
  unfolding cleaned_def
proof (intro allI impI)
  fix i w
  assume i: "i < length ?h" and a: "added (fst (?h ! i)) = Some w \<and> rp_rc (snd (?h ! i)) = 0 \<and> \<not> ke_pending (me_kit e) (take (Suc i) ?h)"
  have none: "added (fst x) = None" if "x \<in> set h" for x
  proof (rule cleanup_adds_nothing)
    show "fst x \<in> set (cleanup_actions e c (kt_state k))"
      using that unfolding assms(2)[symmetric] by simp
  qed
  have old: "i < length (kt_hist k)"
  proof (rule ccontr)
    assume "\<not> i < length (kt_hist k)"
    then obtain j where j: "i = length (kt_hist k) + j"
      by (metis le_add_diff_inverse not_less)
    then have "?h ! i \<in> set ((Os w' p, r) # h)"
      using i nth_mem[of j "(Os w' p, r) # h"] by (simp add: nth_append)
    then have "?h ! i = (Os w' p, r) \<or> ?h ! i \<in> set h"
      by (simp only: list.set insert_iff)
    then have "added (fst (?h ! i)) = None"
      using none[of "?h ! i"] by (elim disjE) (simp_all only: fst_conv added_simps)
    then show False using a by simp
  qed
  then have "w \<in> set (tr_madeWts (kt_state k))"
    using assms(1) a unfolding tracked_def by (simp add: nth_append)
  then have "Git (mt_dir e (mo_repo c)) [''worktree'', ''remove'', ''--force'', w] \<in> set (map fst h)"
    unfolding assms(2) by (simp add: cleanup_actions_def)
  then obtain j where "j < length h" "fst (h ! j) = Git (mt_dir e (mo_repo c)) [''worktree'', ''remove'', ''--force'', w]"
    by (auto simp: in_set_conv_nth)
  then show "\<exists>j < length ?h. i < j \<and> fst (?h ! j) = Git (mt_dir e (mo_repo c)) [''worktree'', ''remove'', ''--force'', w]"
    using old by (intro exI[of _ "length (kt_hist k) + Suc j"]) (simp add: nth_append)
qed

text \<open>
  C6. The train cleans up after itself, however it ends. For every worktree it added, if no signal was pending at the
  moment git had added it, the run later asks git to remove that worktree by force: after a merge, a refusal, a red gate, a
  lock timeout, a moved base, a failed command, or an interrupt.
\<close>

theorem train_cleans_up:
  assumes "mt_flags mt_defaults args = MParsed o' prs"
  shows "\<exists>c. mo_base c = mo_base o' \<and> cleaned e c (kt_hist (snd (mt_run e args start_train)))"
proof -
  let ?E = "\<lambda>k. \<exists>c. mo_base c = mo_base o' \<and> cleaned e c (kt_hist k)"
  have prelude: "only (\<lambda>a. added a = None) h" if "only prelude_action h" for h
    using that by (rule only_mono) (rule prelude_adds_nothing)
  have "wp (mt_run e args) (\<lambda>_ _. False) (\<lambda>_ _. ?E) start_train"
  proof (rule wp_mt_run[OF assms])
    fix c and k :: "train kit"
    assume c: "resolved o' prs c" "distinct prs" "only prelude_action (kt_hist k)" "kt_state k = new_train c"
    have fresh: "train_true c k" "tr_keep (kt_state k) = []" "distinct (mo_prs c)"
      using c by (simp_all add: train_true_def new_train_def empty_row_def resolved_def)
    have "tracked e k"
      using prelude[OF c(3)] by (auto simp: tracked_def only_def list_all_length)
    then have "wp (mt_train e c) (\<lambda>_. tracked e) (\<lambda>_ _. tracked e) k"
      by (intro keeps_wp[OF made_mt_train])
    then have "wp (mt_train e c) (\<lambda>_ _. False) (\<lambda>_ _ k'. \<exists>h. kt_hist k' = kt_hist k @ h \<and> tracked e k') k"
      using wp_mt_train_stop[OF fresh, of e] wp_mt_train[of e c k]
      by (auto simp: wp_def gated_from_def split: prod.splits outcome.splits)
    then show "wp (finishing e c (mt_train e c)) (\<lambda>_ _. False) (\<lambda>_ _. ?E) k"
      by (rule wp_mono[OF wp_finishing_result]) (use c(1) in \<open>auto simp: resolved_def intro!: tracked_cleaned\<close>)
  next
    fix k :: "train kit"
    assume "only prelude_action (kt_hist k)"
    then show "?E k"
      by (intro exI[of _ o']) (simp add: cleaned_none prelude)
  qed
  then show ?thesis
    by (auto simp: wp_def split: prod.splits outcome.splits)
qed

section \<open>Concrete runs\<close>

text \<open>
  A train of one pull request, whose head is pinned: gh reports it open against main, every git revision other than the
  fetched head is one commit, the gate is green and the merge is confirmed.
\<close>

fun train_answer :: "action \<Rightarrow> reply" where
  "train_answer (Os w p) = (if w = ''isdir'' then plain_reply [] 0 else plain_reply p 0)"
| "train_answer (Gh d as) = plain_reply (if as ! 4 = ''state,isDraft,headRefOid,baseRefName'' then ''view''
     else if as ! 4 = ''state'' then ''MERGED'' else ''abcdef01 2'') 0"
| "train_answer (Git d as) = plain_reply (if as = [''rev-parse'', ''refs/train/T/7''] then ''abcdef01''
     else if as ! 0 = ''rev-parse'' then ''b'' else []) 0"
| "train_answer a = plain_reply [] 0"

fun train_view :: "string \<Rightarrow> string \<Rightarrow> jval option" where
  "train_view text' key = (if key = ''state'' then Some (JString ''OPEN'') else if key = ''isDraft'' then Some (JBool False)
     else if key = ''headRefOid'' then Some (JString ''abcdef01'') else if key = ''baseRefName'' then Some (JString ''main'') else None)"

definition train_world :: mt_env where
  "train_world = \<lparr>me_kit = \<lparr>ke_reply = \<lambda>h. train_answer, ke_pending = \<lambda>h. False, ke_getenv = \<lambda>v. if v = ''HOME'' then ''/h'' else []\<rparr>,
     me_Cwd = ''/w'', me_member = train_view, me_ts = ''T''\<rparr>"

definition train_args :: "string list" where
  "train_args = [''--repo'', ''r'', ''--rdd-ok'', ''7=abcdef0'', ''7'']"

definition train_o :: mt_opts where
  "train_o = mt_defaults\<lparr>mo_repo := ''r'', mo_pin := (\<lambda>_. [])(''7'' := ''abcdef0'')\<rparr>"

lemma parse_train: "mt_flags mt_defaults train_args = MParsed train_o [''7'']"
  by (simp add: train_args_def train_o_def mt_defaults_def bad_pin_def mt_split_def cut_at_def all_digits_def is_hex_def has_prefix_def trim_def trim_left_def trim_right_def)

lemma usage_train: "mt_usage train_o [''7''] = None"
  by (simp add: mt_usage_def train_o_def mt_defaults_def cut_at_def all_digits_def trim_def trim_left_def trim_right_def)

lemmas train_run_defs = mt_resolve_def mt_train_def finishing_def finish_def writeReceipt_def cleanup_def mt_fetch_def
  checkPRs_def checkPR_def check_reason_def fetch_pr_def set_row_def row_status_def buildTrain_def build_one_def mergeNoFF_def
  runTrainGate_def runGate_def mt_gate_opts_def preMerge_def mt_rev_def mergeAll_def merge_one_def mergePR_def after_merge_def
  verifyTree_def mt_wait_opts_def stop_train_def new_train_def start_train_def empty_row_def missing_deps_def mt_branch_def mt_wt_def mt_ref_def
  mt_receiptPath_def mt_dir_def git_out_def mtJqRaw_def mtPinMatches_def ascii_lower_def cleanup_actions_def dir_of_def base_of_def last_slash_def
  receipt_of_def rebuild_def

lemma train_merges: "fst (mt_run train_world train_args start_train) = Stopped 0 ''merged''"
  unfolding mt_run_def parse_train mt_parsed.case usage_train
  by (simp add: train_run_defs run_defs gate_run_defs wait_run_defs numeral_loops parse_train usage_train train_world_def train_o_def mt_defaults_def
      cut_at_def cong: bind_run_cong)

lemma train_asks: "asked is_merge (kt_hist (snd (mt_run train_world train_args start_train))) = 1"
  "length (filter (\<lambda>x. added (fst x) \<noteq> None) (kt_hist (snd (mt_run train_world train_args start_train)))) = 2"
  unfolding mt_run_def parse_train mt_parsed.case usage_train
  by (simp_all add: train_run_defs run_defs gate_run_defs wait_run_defs numeral_loops train_world_def train_o_def mt_defaults_def
      cut_at_def asked_def cong: bind_run_cong)

theorem train_merges_only_gated_witness:
  "(\<exists>c sha. mo_base c = ''origin/main'' \<and> guarded is_merge (train_earned train_world c sha) (kt_hist (snd (mt_run train_world train_args start_train)))) \<and>
    asked is_merge (kt_hist (snd (mt_run train_world train_args start_train))) = 1"
  using train_merges_only_gated[OF parse_train, of train_world] train_asks by (simp add: train_o_def mt_defaults_def)

theorem train_success_is_complete_witness:
  "\<exists>c. resolved train_o [''7''] c \<and> all_landed c (kt_hist (snd (mt_run train_world train_args start_train)))"
  using train_success_is_complete[OF parse_train train_merges] by simp

theorem train_cleans_up_witness:
  "(\<exists>c. mo_base c = ''origin/main'' \<and> cleaned train_world c (kt_hist (snd (mt_run train_world train_args start_train)))) \<and>
    length (filter (\<lambda>x. added (fst x) \<noteq> None) (kt_hist (snd (mt_run train_world train_args start_train)))) = 2"
  using train_cleans_up[OF parse_train, of train_world] train_asks by (simp add: train_o_def mt_defaults_def)

definition hit_world :: mt_env where
  "hit_world = train_world\<lparr>me_kit := (me_kit train_world)\<lparr>ke_pending := \<lambda>h. h \<noteq> [] \<and> added (fst (last h)) \<noteq> None\<rparr>\<rparr>"

text \<open>
  An interrupt can leave a worktree behind. When a signal is pending at the moment git has added the train's worktree,
  the run ends with exit 29 before the worktree is entered in the list of those to remove: git has created it and is never
  asked to remove it, nor the train's branch.
\<close>

lemma interrupt_leaves_worktree:
  "fst (mt_run hit_world train_args start_train) = Stopped 29 ''train-error'' \<and>
    (\<exists>x \<in> set (kt_hist (snd (mt_run hit_world train_args start_train))). added (fst x) = Some ''/w/r-worktrees/train-T'' \<and> rp_rc (snd x) = 0) \<and>
    asked (\<lambda>a. case a of Git d as \<Rightarrow> take 2 as = [''worktree'', ''remove''] \<or> take 2 as = [''branch'', ''-D''] | _ \<Rightarrow> False)
      (kt_hist (snd (mt_run hit_world train_args start_train))) = 0"
  unfolding mt_run_def parse_train mt_parsed.case usage_train
  by (simp add: train_run_defs run_defs gate_run_defs wait_run_defs numeral_loops hit_world_def train_world_def train_o_def mt_defaults_def
      cut_at_def asked_def cong: bind_run_cong)

text \<open>A train of two whose gate is red for both and green for the first alone: the second is the culprit.\<close>

definition red_world :: mt_env where
  "red_world = train_world\<lparr>me_kit := (me_kit train_world)\<lparr>ke_reply := \<lambda>h a.
     if runs_gate a then plain_reply [] (if asked runs_gate h = 0 then 1 else 0) else train_answer a\<rparr>\<rparr>"

definition red_opts :: mt_opts where
  "red_opts = train_o\<lparr>mo_repo := ''/w/r'', mo_state := ''/s'', mo_bisect := True, mo_prs := [''7'', ''8''], mo_remote := ''origin'',
     mo_baseBranch := ''main'', mo_wtroot := ''/w/r-worktrees'', mo_ts := ''T''\<rparr>"

definition red_train :: "train kit" where
  "red_train = \<lparr>kt_state = (new_train red_opts)\<lparr>tr_keep := [''7'', ''8''], tr_merged := [''7'', ''8'']\<rparr>, kt_hist = []\<rparr>"

lemma one_str: "dec_str (Suc 0) = ''1''" "dec_str 1 = ''1''"
  by code_simp+

lemmas two_loops = bisect_loop.simps[of _ _ _ 0 2] bisect_loop.simps[of _ _ _ 0 "Suc (Suc 0)"] bisect_loop.simps[of _ _ _ 1 2] bisect_loop.simps[of _ _ _ "Suc 0" 2]
  bisect_loop.simps[of _ _ _ "Suc 0" "Suc (Suc 0)"]



definition red_mid :: "train kit" where
  "red_mid = snd (runGate red_world red_opts ''train-T'' False red_train)"

lemma red_gate: "fst (runGate red_world red_opts ''train-T'' False red_train) = Value 16"
  by (simp add: train_run_defs run_defs gate_run_defs numeral_loops red_world_def red_opts_def red_train_def train_world_def train_o_def
      mt_defaults_def asked_def cong: bind_run_cong)

lemma red_mid: "kt_state red_mid = (kt_state red_train)\<lparr>tr_gateLog := ''/s/gate-train-T.log'', tr_gateRC := Some 1\<rparr>"
  "asked runs_gate (kt_hist red_mid) = 1"
  by (simp_all add: red_mid_def train_run_defs run_defs gate_run_defs numeral_loops red_world_def red_opts_def red_train_def train_world_def train_o_def
      mt_defaults_def asked_def cong: bind_run_cong)

lemma red_bisect: "(case bisect_train red_world red_opts red_mid of (r, k) \<Rightarrow> (r, tr_culprit (kt_state k))) = (Value (), ''8'')"
  by (simp add: red_mid bisect_train_def two_loops one_str bisect_label_def train_run_defs run_defs gate_run_defs numeral_loops red_world_def red_opts_def red_train_def train_world_def train_o_def
      mt_defaults_def cong: bind_run_cong)

lemma red_run: "fst (runTrainGate red_world red_opts red_train) = Stopped 26 ''train-gate-failed''"
  "tr_culprit (kt_state (snd (runTrainGate red_world red_opts red_train))) = ''8''"
  using red_gate red_bisect unfolding red_mid_def runTrainGate_def
  by (auto simp: bind_k_def stop_k_def red_opts_def mt_defaults_def train_o_def split: prod.splits outcome.splits)


theorem bisect_names_first_red_prefix_witness:
  "tr_culprit (kt_state (snd (runTrainGate red_world red_opts red_train))) = ''8'' \<and>
    (\<exists>h. kt_hist (snd (runTrainGate red_world red_opts red_train)) = kt_hist red_train @ h \<and> asked runs_gate h \<le> 2)"
proof -
  have "runTrainGate red_world red_opts red_train = (Stopped 26 ''train-gate-failed'', snd (runTrainGate red_world red_opts red_train))"
    using red_run(1) by (metis prod.collapse)
  from bisect_names_first_red_prefix[OF _ _ _ _ this, of 1] red_run(2) show ?thesis
    by (auto simp: red_train_def red_opts_def new_train_def train_o_def mt_defaults_def)
qed

end
