(* ===== verification/Jq.thy ===== *)
theory Jq
  imports Kit_Run Complex_Main "HOL-Library.List_Lexorder" "HOL-Library.Char_ord"
begin

text \<open>
  The JSON values of the merge gate and the jq behaviours it depends on (\<open>internal/gate/mergejq.go\<close>). A value keeps what
  the code keeps of it (\<open>json.RawMessage\<close>): the text of a number and of a string as written, and the members of an object
  in their order, duplicates included. Parsing a text into values (\<open>encoding/json\<close>) and the float of a number literal
  (\<open>strconv.ParseFloat\<close>) are parameters.
\<close>

section \<open>Values\<close>

datatype json =
    QNull
  | QBool bool
  | QNum string \<comment> \<open>the literal\<close>
  | QStr string string \<comment> \<open>the literal and the string it denotes\<close>
  | QArr "json list"
  | QObj "(string \<times> string \<times> json) list" \<comment> \<open>the literal of the key, the key, the value\<close>

text \<open>The float of a literal out of range is infinite, with an error.\<close>

datatype flt = NegInf | Fin rat | PosInf

record jq_env =
  jq_decode :: "string \<Rightarrow> json list \<times> bool" \<comment> \<open>the values of a text, and whether all of it was read\<close>
  jq_float :: "string \<Rightarrow> flt \<times> bool" \<comment> \<open>the float of a text, and whether there was no error\<close>

definition stripNUL :: "string \<Rightarrow> string" where
  "stripNUL s = filter (\<lambda>c. c \<noteq> CHR 0x00) s"

definition cmdSub :: "string \<Rightarrow> string" where
  "cmdSub s = chomp (stripNUL s)"

definition jqStream :: "jq_env \<Rightarrow> string \<Rightarrow> json list \<times> bool" where
  "jqStream j data = jq_decode j (trim_prefix (stripNUL data) [CHR 0xEF, CHR 0xBB, CHR 0xBF])"

definition hookReadable :: "json list \<times> bool \<Rightarrow> bool" where
  "hookReadable vs = (case vs of (vals, ok) \<Rightarrow> ok \<and> vals \<noteq> [] \<and> last vals \<noteq> QNull \<and> last vals \<noteq> QBool False)"

fun jqType :: "json \<Rightarrow> string" where
  "jqType QNull = ''null''"
| "jqType (QBool b) = ''boolean''"
| "jqType (QNum t) = ''number''"
| "jqType (QStr t s) = ''string''"
| "jqType (QArr vs) = ''array''"
| "jqType (QObj kvs) = ''object''"

text \<open>Go's map keeps the last of equal keys.\<close>

definition obj_get :: "(string \<times> 'a) list \<Rightarrow> string \<Rightarrow> 'a option" where
  "obj_get kvs key = map_option snd (find (\<lambda>(k, v). k = key) (rev kvs))"

fun jqIndex :: "json \<Rightarrow> string \<Rightarrow> json option" where
  "jqIndex QNull key = Some QNull"
| "jqIndex (QObj kvs) key = Some (case obj_get (map snd kvs) key of None \<Rightarrow> QNull | Some v \<Rightarrow> v)"
| "jqIndex v key = None"

primrec jqPath :: "json \<Rightarrow> string list \<Rightarrow> json option" where
  "jqPath v [] = Some v"
| "jqPath v (k # ks) = (case jqIndex v k of None \<Rightarrow> None | Some w \<Rightarrow> jqPath w ks)"

definition jqAbsent :: "json \<Rightarrow> bool" where
  "jqAbsent v \<longleftrightarrow> v = QNull \<or> v = QBool False"

fun jqString :: "json \<Rightarrow> string option" where
  "jqString (QStr t s) = Some s"
| "jqString v = None"

fun jqNumber :: "jq_env \<Rightarrow> json \<Rightarrow> flt option" where
  "jqNumber j (QNum t) = (case jq_float j t of (f, ok) \<Rightarrow> if ok then Some f else None)"
| "jqNumber j v = None"

section \<open>Printing\<close>

definition spaces_of :: "nat \<Rightarrow> string" where
  "spaces_of n = newline_char # replicate (2 * n) (CHR '' '')"

fun indent_json :: "nat \<Rightarrow> json \<Rightarrow> string" where
  "indent_json n QNull = ''null''"
| "indent_json n (QBool b) = (if b then ''true'' else ''false'')"
| "indent_json n (QNum t) = t"
| "indent_json n (QStr t s) = t"
| "indent_json n (QArr vs) =
     (if vs = [] then ''[]''
      else ''['' @ spaces_of (n + 1) @ join_with ('','' @ spaces_of (n + 1)) (map (indent_json (n + 1)) vs) @ spaces_of n @ '']'')"
| "indent_json n (QObj kvs) =
     (if kvs = [] then ''{}''
      else ''{'' @ spaces_of (n + 1) @ join_with ('','' @ spaces_of (n + 1)) (map (\<lambda>(t, k, v). t @ '': '' @ indent_json (n + 1) v) kvs) @
        spaces_of n @ ''}'')"

fun compact_json :: "json \<Rightarrow> string" where
  "compact_json QNull = ''null''"
| "compact_json (QBool b) = (if b then ''true'' else ''false'')"
| "compact_json (QNum t) = t"
| "compact_json (QStr t s) = t"
| "compact_json (QArr vs) = ''['' @ join_with '','' (map compact_json vs) @ '']''"
| "compact_json (QObj kvs) = ''{'' @ join_with '','' (map (\<lambda>(t, k, v). t @ '':'' @ compact_json v) kvs) @ ''}''"

definition jqRaw :: "json \<Rightarrow> string" where
  "jqRaw v = (case jqString v of Some s \<Rightarrow> s | None \<Rightarrow> indent_json 0 v)"

definition jqToString :: "json \<Rightarrow> string" where
  "jqToString v = (case jqString v of Some s \<Rightarrow> s | None \<Rightarrow> compact_json v)"

text \<open>A filter gives a line or nothing for each value of a stream.\<close>

definition jqEach :: "json list \<Rightarrow> (json \<Rightarrow> string option) \<Rightarrow> string" where
  "jqEach vals f = cmdSub (concat (map (\<lambda>v. case f v of None \<Rightarrow> [] | Some l \<Rightarrow> l @ [newline_char]) vals))"

definition jqOptKey :: "string \<Rightarrow> json \<Rightarrow> string option" where
  "jqOptKey key v = (case jqIndex v key of None \<Rightarrow> None | Some f \<Rightarrow> if jqAbsent f then None else Some (jqRaw f))"

definition pathRaw :: "string list \<Rightarrow> json \<Rightarrow> string option" where
  "pathRaw keys v = map_option jqRaw (jqPath v keys)"

section \<open>The order of jq\<close>

text \<open>
  null, false, true, numbers, strings, arrays, objects; arrays element by element, objects by their sorted keys, then
  by the values in that order. A sort key holds what the comparison looks at.
\<close>

definition sgn_cmp :: "'a::linorder \<Rightarrow> 'a \<Rightarrow> int" where
  "sgn_cmp a b = (if a < b then -1 else if b < a then 1 else 0)"

fun flt_rank :: "flt \<Rightarrow> int \<times> rat" where
  "flt_rank NegInf = (-1, 0)" | "flt_rank (Fin q) = (0, q)" | "flt_rank PosInf = (1, 0)"

instantiation flt :: linorder
begin

definition less_eq_flt :: "flt \<Rightarrow> flt \<Rightarrow> bool" where
  "less_eq_flt a b \<longleftrightarrow> fst (flt_rank a) < fst (flt_rank b) \<or> fst (flt_rank a) = fst (flt_rank b) \<and> snd (flt_rank a) \<le> snd (flt_rank b)"

definition less_flt :: "flt \<Rightarrow> flt \<Rightarrow> bool" where
  "less_flt a b \<longleftrightarrow> a \<le> b \<and> \<not> b \<le> (a :: flt)"

instance
proof
  fix a b c :: flt
  show "a < b \<longleftrightarrow> a \<le> b \<and> \<not> b \<le> a" by (simp add: less_flt_def)
  show "a \<le> a" by (simp add: less_eq_flt_def)
  show "a \<le> c" if "a \<le> b" "b \<le> c" using that by (auto simp: less_eq_flt_def)
  show "a = b" if "a \<le> b" "b \<le> a" using that by (cases a; cases b) (auto simp: less_eq_flt_def)
  show "a \<le> b \<or> b \<le> a" by (auto simp: less_eq_flt_def)
qed

end

datatype jkey = KNull | KFalse | KTrue | KNum flt | KStr string | KArr "jkey list" | KObj "string list" "jkey list"

definition obj_keys :: "(string \<times> 'a) list \<Rightarrow> string list" where
  "obj_keys kvs = sort (remdups (map fst kvs))"

fun jq_key :: "jq_env \<Rightarrow> json \<Rightarrow> jkey" where
  "jq_key j QNull = KNull"
| "jq_key j (QBool b) = (if b then KTrue else KFalse)"
| "jq_key j (QNum t) = KNum (fst (jq_float j t))"
| "jq_key j (QStr t s) = KStr s"
| "jq_key j (QArr vs) = KArr (map (jq_key j) vs)"
| "jq_key j (QObj kvs) =
     (let ks = map (\<lambda>(t, k, v). (k, jq_key j v)) kvs
      in KObj (obj_keys ks) (map (\<lambda>k. the (obj_get ks k)) (obj_keys ks)))"

fun jqOrderRank :: "jkey \<Rightarrow> int" where
  "jqOrderRank KNull = 0" | "jqOrderRank KFalse = 1" | "jqOrderRank KTrue = 2" | "jqOrderRank (KNum f) = 3" |
  "jqOrderRank (KStr s) = 4" | "jqOrderRank (KArr vs) = 5" | "jqOrderRank (KObj ks vs) = 6"

fun keys_cmp :: "string list \<Rightarrow> string list \<Rightarrow> int" where
  "keys_cmp [] [] = 0"
| "keys_cmp [] (b # bs) = -1"
| "keys_cmp (a # as) [] = 1"
| "keys_cmp (a # as) (b # bs) = (if sgn_cmp a b \<noteq> 0 then sgn_cmp a b else keys_cmp as bs)"

fun key_cmp :: "jkey \<Rightarrow> jkey \<Rightarrow> int" and key_cmps :: "jkey list \<Rightarrow> jkey list \<Rightarrow> int" where
  "key_cmp a b =
     (if jqOrderRank a \<noteq> jqOrderRank b then sgn_cmp (jqOrderRank a) (jqOrderRank b)
      else case a of
             KNum f \<Rightarrow> (case b of KNum g \<Rightarrow> sgn_cmp f g | _ \<Rightarrow> 0)
           | KStr s \<Rightarrow> (case b of KStr t \<Rightarrow> sgn_cmp s t | _ \<Rightarrow> 0)
           | KArr vs \<Rightarrow> (case b of KArr ws \<Rightarrow> key_cmps vs ws | _ \<Rightarrow> 0)
           | KObj ks vs \<Rightarrow> (case b of KObj ls ws \<Rightarrow> if keys_cmp ks ls \<noteq> 0 then keys_cmp ks ls else key_cmps vs ws | _ \<Rightarrow> 0)
           | _ \<Rightarrow> 0)"
| "key_cmps [] [] = 0"
| "key_cmps [] (b # bs) = -1"
| "key_cmps (a # as) [] = 1"
| "key_cmps (a # as) (b # bs) = (if key_cmp a b \<noteq> 0 then key_cmp a b else key_cmps as bs)"

declare key_cmp.simps [simp del]

definition jqCmp :: "jq_env \<Rightarrow> json \<Rightarrow> json \<Rightarrow> int" where
  "jqCmp j a b = key_cmp (jq_key j a) (jq_key j b)"

text \<open>The comparison is a linear order on sort keys: it is 0 only for equal keys, antisymmetric and transitive.\<close>

lemma sgn_cmp_simps [simp]: "sgn_cmp a b = 0 \<longleftrightarrow> a = b" "sgn_cmp a b < 0 \<longleftrightarrow> a < b"
  by (auto simp: sgn_cmp_def)

lemma sgn_cmp_swap: "sgn_cmp b a = - sgn_cmp a b"
  by (auto simp: sgn_cmp_def)

lemma keys_cmp_zero [simp]: "keys_cmp as bs = 0 \<longleftrightarrow> as = bs"
  by (induction as bs rule: keys_cmp.induct) auto

lemma keys_cmp_refl [simp]: "keys_cmp as as = 0"
  by simp

lemma keys_cmp_swap: "keys_cmp bs as = - keys_cmp as bs"
proof (induction as bs rule: keys_cmp.induct)
  case (4 a as b bs)
  then show ?case
    using sgn_cmp_swap[of b a] by simp
qed simp_all

lemma keys_cmp_trans: "keys_cmp as bs < 0 \<Longrightarrow> keys_cmp bs cs < 0 \<Longrightarrow> keys_cmp as cs < 0"
proof (induction as arbitrary: bs cs)
  case Nil
  then show ?case by (cases bs; cases cs) auto
next
  case (Cons a as)
  then obtain b bs' where bs: "bs = b # bs'" by (cases bs) auto
  then obtain c cs' where cs: "cs = c # cs'" using Cons.prems(2) by (cases cs) auto
  show ?case
    using Cons.prems Cons.IH[of bs' cs'] unfolding bs cs
    by (auto split: if_splits)
qed

lemma key_cmp_cases:
  "key_cmp KNull b = sgn_cmp 0 (jqOrderRank b)" "key_cmp KFalse b = sgn_cmp 1 (jqOrderRank b)" "key_cmp KTrue b = sgn_cmp 2 (jqOrderRank b)"
  "key_cmp (KNum f) b = (case b of KNum g \<Rightarrow> sgn_cmp f g | _ \<Rightarrow> sgn_cmp 3 (jqOrderRank b))"
  "key_cmp (KStr s) b = (case b of KStr t \<Rightarrow> sgn_cmp s t | _ \<Rightarrow> sgn_cmp 4 (jqOrderRank b))"
  "key_cmp (KArr vs) b = (case b of KArr ws \<Rightarrow> key_cmps vs ws | _ \<Rightarrow> sgn_cmp 5 (jqOrderRank b))"
  "key_cmp (KObj ks vs) b = (case b of KObj ls ws \<Rightarrow> if keys_cmp ks ls \<noteq> 0 then keys_cmp ks ls else key_cmps vs ws | _ \<Rightarrow> sgn_cmp 6 (jqOrderRank b))"
  by (cases b; simp add: key_cmp.simps sgn_cmp_def)+

lemma jqOrderRank_eq [simp]: "jqOrderRank b = 0 \<longleftrightarrow> b = KNull" "jqOrderRank b = 1 \<longleftrightarrow> b = KFalse" "jqOrderRank b = 2 \<longleftrightarrow> b = KTrue"
  by (cases b; simp)+

lemma key_cmps_zero: "(\<And>x b. x \<in> set as \<Longrightarrow> key_cmp x b = 0 \<longleftrightarrow> x = b) \<Longrightarrow> key_cmps as bs = 0 \<longleftrightarrow> as = bs"
proof (induction as arbitrary: bs)
  case Nil
  then show ?case by (cases bs) auto
next
  case (Cons a as)
  then show ?case by (cases bs) auto
qed

lemma key_cmp_zero [simp]: "key_cmp a b = 0 \<longleftrightarrow> a = b"
proof (induction a arbitrary: b)
  case (KArr vs)
  then show ?case
    by (simp add: key_cmp_cases key_cmps_zero split: jkey.split)
next
  case (KObj ks vs)
  then show ?case
    by (simp add: key_cmp_cases key_cmps_zero split: jkey.split)
qed (auto simp: key_cmp_cases sgn_cmp_def split: jkey.split if_splits)

lemma key_cmp_refl [simp]: "key_cmp a a = 0"
  by simp

lemma key_cmps_swap: "(\<And>x b. x \<in> set as \<Longrightarrow> key_cmp b x = - key_cmp x b) \<Longrightarrow> key_cmps bs as = - key_cmps as bs"
proof (induction as arbitrary: bs)
  case Nil
  then show ?case by (cases bs) auto
next
  case (Cons a as)
  then show ?case
  proof (cases bs)
    case (Cons b bs')
    then show ?thesis
      using Cons.prems[of a b] Cons.IH[of bs'] Cons.prems by (auto simp del: key_cmp_zero)
  qed simp
qed

lemma key_cmp_swap: "key_cmp b a = - key_cmp a b"
proof (induction a arbitrary: b)
  case (KArr vs)
  then show ?case
    by (cases b) (simp_all add: key_cmp_cases key_cmps_swap sgn_cmp_def)
next
  case (KObj ks vs)
  then show ?case
  proof (cases b)
    case (KObj ls ws)
    then show ?thesis
      using key_cmps_swap[of vs ws] KObj.IH keys_cmp_swap[of ks ls] by (auto simp: key_cmp_cases)
  qed (simp_all add: key_cmp_cases sgn_cmp_def)
next
  case KNull
  then show ?case by (cases b) (simp_all add: key_cmp_cases sgn_cmp_def)
next
  case KFalse
  then show ?case by (cases b) (simp_all add: key_cmp_cases sgn_cmp_def)
next
  case KTrue
  then show ?case by (cases b) (simp_all add: key_cmp_cases sgn_cmp_def)
next
  case (KNum f)
  then show ?case by (cases b) (auto simp: key_cmp_cases sgn_cmp_def dest: less_asym)
next
  case (KStr t)
  then show ?case by (cases b) (auto simp: key_cmp_cases sgn_cmp_def dest: less_asym)
qed

lemma key_cmps_trans:
  assumes "\<And>x b c. x \<in> set as \<Longrightarrow> key_cmp x b < 0 \<Longrightarrow> key_cmp b c < 0 \<Longrightarrow> key_cmp x c < 0"
    and "key_cmps as bs < 0" "key_cmps bs cs < 0"
  shows "key_cmps as cs < 0"
  using assms
proof (induction as arbitrary: bs cs)
  case Nil
  show ?case
    using Nil.prems(2,3) by (cases bs; cases cs) auto
next
  case (Cons a as)
  obtain b bs' where bs: "bs = b # bs'"
    using Cons.prems(2) by (cases bs) auto
  obtain c cs' where cs: "cs = c # cs'"
    using Cons.prems(3) unfolding bs by (cases cs) auto
  have rest: "key_cmps as cs' < 0" if "key_cmps as bs' < 0" "key_cmps bs' cs' < 0"
  proof (rule Cons.IH[of bs' cs'])
    fix x y z
    assume "x \<in> set as" "key_cmp x y < 0" "key_cmp y z < 0"
    then show "key_cmp x z < 0"
      using Cons.prems(1)[of x y z] by simp
  qed (fact that)+
  have first: "key_cmp a c < 0" if "key_cmp a b < 0" "key_cmp b c < 0"
    by (rule Cons.prems(1)[OF _ that]) simp
  show ?case
    using Cons.prems(2,3) rest first unfolding bs cs key_cmps.simps
    by (cases "a = b"; cases "b = c") (auto split: if_splits)
qed

lemma key_cmp_rank: "key_cmp a b < 0 \<Longrightarrow> jqOrderRank a \<le> jqOrderRank b"
  by (auto simp: key_cmp.simps[of a b] sgn_cmp_def split: if_splits)

lemma key_cmp_rank_less: "jqOrderRank a < jqOrderRank b \<Longrightarrow> key_cmp a b < 0"
  by (simp add: key_cmp.simps[of a b])

lemma key_cmp_trans_rank:
  assumes "key_cmp a b < 0" "key_cmp b c < 0" "jqOrderRank a \<noteq> jqOrderRank c"
  shows "key_cmp a c < 0"
  using key_cmp_rank[OF assms(1)] key_cmp_rank[OF assms(2)] assms(3) by (intro key_cmp_rank_less) simp

lemma key_cmp_same:
  assumes "jqOrderRank a = jqOrderRank b" "key_cmp a b < 0"
  obtains f g where "a = KNum f" "b = KNum g" "f < g" | s t where "a = KStr s" "b = KStr t" "s < t"
  | vs ws where "a = KArr vs" "b = KArr ws" "key_cmps vs ws < 0"
  | ks vs ls ws where "a = KObj ks vs" "b = KObj ls ws" "keys_cmp ks ls < 0 \<or> ks = ls \<and> key_cmps vs ws < 0"
  using assms by (cases a; cases b) (auto simp: key_cmp.simps split: if_splits)

lemma key_cmp_trans: "key_cmp a b < 0 \<Longrightarrow> key_cmp b c < 0 \<Longrightarrow> key_cmp a c < 0"
proof (induction a arbitrary: b c)
  case (KArr vs)
  show ?case
  proof (cases "jqOrderRank (KArr vs) = jqOrderRank c")
    case True
    then have r: "jqOrderRank (KArr vs) = jqOrderRank b" "jqOrderRank b = jqOrderRank c"
      using key_cmp_rank[OF KArr.prems(1)] key_cmp_rank[OF KArr.prems(2)] by simp_all
    obtain ws where b: "b = KArr ws" "key_cmps vs ws < 0"
      using r(1) KArr.prems(1) by (elim key_cmp_same) simp_all
    obtain us where c: "c = KArr us" "key_cmps ws us < 0"
      using r(2) KArr.prems(2) unfolding b by (elim key_cmp_same) simp_all
    have "key_cmps vs us < 0"
      by (rule key_cmps_trans[of vs ws us, OF KArr.IH b(2) c(2)])
    then show ?thesis
      by (simp add: c key_cmp_cases)
  qed (rule key_cmp_trans_rank[OF KArr.prems])
next
  case (KObj ks vs)
  show ?case
  proof (cases "jqOrderRank (KObj ks vs) = jqOrderRank c")
    case True
    then have r: "jqOrderRank (KObj ks vs) = jqOrderRank b" "jqOrderRank b = jqOrderRank c"
      using key_cmp_rank[OF KObj.prems(1)] key_cmp_rank[OF KObj.prems(2)] by simp_all
    obtain ls ws where b: "b = KObj ls ws" "keys_cmp ks ls < 0 \<or> ks = ls \<and> key_cmps vs ws < 0"
      using r(1) KObj.prems(1) by (elim key_cmp_same) simp_all
    obtain ms us where c: "c = KObj ms us" "keys_cmp ls ms < 0 \<or> ls = ms \<and> key_cmps ws us < 0"
      using r(2) KObj.prems(2) unfolding b(1) by (elim key_cmp_same) simp_all
    have "key_cmps vs us < 0" if "key_cmps vs ws < 0" "key_cmps ws us < 0"
      by (rule key_cmps_trans[of vs ws us, OF KObj.IH that])
    then have "keys_cmp ks ms < 0 \<or> ks = ms \<and> key_cmps vs us < 0"
      using b(2) c(2) keys_cmp_trans[of ks ls ms] by auto
    then show ?thesis
      by (auto simp: c key_cmp_cases)
  qed (rule key_cmp_trans_rank[OF KObj.prems])
next
  case (KNum f)
  then show ?case by (cases b; cases c) (auto simp: key_cmp_cases)
next
  case (KStr t)
  then show ?case by (cases b; cases c) (auto simp: key_cmp_cases)
next
  case KNull
  then show ?case using key_cmp_trans_rank[OF KNull] key_cmp_rank[OF KNull(1)] key_cmp_rank[OF KNull(2)] by (auto simp: key_cmp_cases)
next
  case KFalse
  then show ?case using key_cmp_trans_rank[OF KFalse] key_cmp_rank[OF KFalse(1)] key_cmp_rank[OF KFalse(2)] by (auto simp: key_cmp_cases)
next
  case KTrue
  then show ?case using key_cmp_trans_rank[OF KTrue] key_cmp_rank[OF KTrue(1)] key_cmp_rank[OF KTrue(2)] by (auto simp: key_cmp_cases)
qed

instantiation jkey :: linorder
begin

definition less_eq_jkey :: "jkey \<Rightarrow> jkey \<Rightarrow> bool" where
  "less_eq_jkey a b \<longleftrightarrow> key_cmp a b \<le> 0"

definition less_jkey :: "jkey \<Rightarrow> jkey \<Rightarrow> bool" where
  "less_jkey a b \<longleftrightarrow> key_cmp a b < 0"

instance
proof
  fix a b c :: jkey
  have le: "a \<le> b \<longleftrightarrow> key_cmp a b < 0 \<or> a = b" for a b :: jkey
    using key_cmp_zero[of a b] unfolding less_eq_jkey_def by (auto simp del: key_cmp_zero)
  show "a < b \<longleftrightarrow> a \<le> b \<and> \<not> b \<le> a"
    using key_cmp_swap[of b a] by (auto simp: less_jkey_def less_eq_jkey_def)
  show "a \<le> a" by (simp add: le)
  show "a \<le> c" if "a \<le> b" "b \<le> c" using that key_cmp_trans[of a b c] by (auto simp: le)
  show "a = b" if "a \<le> b" "b \<le> a" using that key_cmp_swap[of b a] by (auto simp: le)
  show "a \<le> b \<or> b \<le> a" using key_cmp_swap[of b a] by (auto simp: less_eq_jkey_def)
qed

end

end
