(* ===== verification/Check_Runs.thy ===== *)
theory Check_Runs
  imports Jq "HOL-Library.Product_Lexorder"
begin

text \<open>
  The check runs of a head and their verdict (\<open>internal/gate/{mergeci,mergeciverdict}.go\<close>): reading the paginated answer, the
  latest run of every check, the required checks, and the four refusals.
\<close>

section \<open>Check runs\<close>

record ci_run =
  cr_name :: string
  cr_status :: string
  cr_conclusion :: json
  cr_app :: json
  cr_id :: json
  cr_num :: flt

definition ciAppID :: "json \<Rightarrow> json" where
  "ciAppID r =
     (case jqIndex r ''app'' of
        Some app \<Rightarrow> (case jqIndex app ''id'' of Some v \<Rightarrow> if jqAbsent v then QNull else v | None \<Rightarrow> QNull)
      | None \<Rightarrow> QNull)"

definition page_runs :: "json \<Rightarrow> json list option" where
  "page_runs p = (case p of QObj _ \<Rightarrow> (case jqIndex p ''check_runs'' of Some (QArr items) \<Rightarrow> Some items | _ \<Rightarrow> None) | _ \<Rightarrow> None)"

definition member :: "json \<Rightarrow> string \<Rightarrow> json" where
  "member r key = the (jqIndex r key)"

definition read_run :: "jq_env \<Rightarrow> json \<Rightarrow> ci_run option" where
  "read_run j r =
     (case r of
        QObj _ \<Rightarrow>
          (case (jqString (member r ''name''), jqString (member r ''status''), jqNumber j (member r ''id'')) of
             (Some n, Some st, Some num) \<Rightarrow>
               Some \<lparr>cr_name = n, cr_status = st, cr_conclusion = member r ''conclusion'', cr_app = ciAppID r,
                 cr_id = member r ''id'', cr_num = num\<rparr>
           | _ \<Rightarrow> None)
      | _ \<Rightarrow> None)"

definition parseCheckRuns :: "jq_env \<Rightarrow> string \<Rightarrow> ci_run list option" where
  "parseCheckRuns j raw =
     (case jqStream j raw of (pages, ok) \<Rightarrow>
        if \<not> ok \<or> pages = [] then None
        else case those (map page_runs pages) of None \<Rightarrow> None
             | Some items \<Rightarrow> those (map (read_run j) (concat items)))"

definition ci_key :: "jq_env \<Rightarrow> ci_run \<Rightarrow> string \<times> jkey" where
  "ci_key j r = (cr_name r, jq_key j (cr_app r))"

definition ciKeyCmp :: "jq_env \<Rightarrow> ci_run \<Rightarrow> ci_run \<Rightarrow> int" where
  "ciKeyCmp j a b = (let c = sgn_cmp (cr_name a) (cr_name b) in if c \<noteq> 0 then c else jqCmp j (cr_app a) (cr_app b))"

text \<open>The groups of a list sorted by key: adjacent elements with the same key.\<close>

fun split_groups :: "('a \<Rightarrow> 'k) \<Rightarrow> 'a list \<Rightarrow> 'a list list" where
  "split_groups f [] = []"
| "split_groups f [x] = [[x]]"
| "split_groups f (x # y # xs) =
     (if f x = f y then (case split_groups f (y # xs) of g # gs \<Rightarrow> (x # g) # gs | [] \<Rightarrow> [[x]]) else [x] # split_groups f (y # xs))"

definition ciGroup :: "jq_env \<Rightarrow> ci_run list \<Rightarrow> ci_run list list" where
  \<comment> \<open>\<open>sort.SliceStable\<close> by the comparison, which is the order of the keys (\<open>ciKeyCmp_key\<close>)\<close>
  "ciGroup j runs = split_groups (ci_key j) (sort_key (ci_key j) runs)"

definition ciLatest :: "ci_run list \<Rightarrow> ci_run" where
  "ciLatest g = foldl (\<lambda>l r. if cr_num l \<le> cr_num r then r else l) (hd g) (tl g)"

definition superseded_note :: "ci_run \<Rightarrow> ci_run \<Rightarrow> string" where
  "superseded_note r l = ''superseded cancelled run of '' @ cr_name r @ '' (check-run id '' @ jqRaw (cr_id r) @ '', superseded by id '' @ jqRaw (cr_id l) @ '')''"

definition ciNormalize :: "jq_env \<Rightarrow> ci_run list \<Rightarrow> ci_run list \<times> string list" where
  "ciNormalize j runs =
     (let gs = ciGroup j runs
      in (map ciLatest gs,
          concat (map (\<lambda>g. let l = ciLatest g in map (\<lambda>r. superseded_note r l)
            (filter (\<lambda>r. cr_status r = ''completed'' \<and> jqString (cr_conclusion r) = Some ''cancelled'' \<and> cr_num r \<noteq> cr_num l) g)) gs)))"

definition ciRequired :: "string \<Rightarrow> string list" where
  "ciRequired s = (if s = [] then [] else filter (\<lambda>p. p \<noteq> []) (map TrimSpace (split_on (CHR '','') s)))"

definition ciSeen :: "ci_run list \<Rightarrow> string \<Rightarrow> bool" where
  "ciSeen latest name \<longleftrightarrow> list_ex (\<lambda>r. cr_name r = name) latest"

definition ciAbsent :: "ci_run list \<Rightarrow> string list \<Rightarrow> string list" where
  "ciAbsent latest req = filter (\<lambda>r. \<not> ciSeen latest r) req"

definition uniqueSorted :: "string list \<Rightarrow> string list" where
  "uniqueSorted xs = remdups_adj (sort xs)"

definition run_pending :: "ci_run \<Rightarrow> bool" where
  "run_pending r \<longleftrightarrow> cr_status r \<noteq> ''completed''"

definition run_failed :: "ci_run \<Rightarrow> bool" where
  "run_failed r \<longleftrightarrow> \<not> run_pending r \<and> (case jqString (cr_conclusion r) of None \<Rightarrow> True | Some c \<Rightarrow> c \<notin> set [''success'', ''skipped'', ''neutral''])"

definition run_skipped :: "string list \<Rightarrow> ci_run \<Rightarrow> bool" where
  "run_skipped req r \<longleftrightarrow> \<not> run_pending r \<and> \<not> run_failed r \<and> jqString (cr_conclusion r) \<noteq> Some ''success'' \<and> list_ex (\<lambda>n. n = cr_name r) req"

definition verdict_of :: "string \<Rightarrow> string list \<Rightarrow> string" where
  "verdict_of what names = what @ '' ('' @ join_with '','' names @ '')''"

definition ciVerdict :: "ci_run list \<Rightarrow> string list \<Rightarrow> string" where
  "ciVerdict latest req =
     (let failed = map cr_name (filter run_failed latest);
          pending = map cr_name (filter run_pending latest);
          skipped = map cr_name (filter (run_skipped req) latest)
      in if failed \<noteq> [] then verdict_of ''ci_failed'' (uniqueSorted failed)
         else if pending \<noteq> [] then verdict_of ''ci_pending'' (uniqueSorted pending)
         else if latest = [] then ''ci_pending (no check runs reported)''
         else if skipped \<noteq> [] then verdict_of ''ci_skipped'' (uniqueSorted skipped)
         else let missing = ciAbsent latest req
              in if missing \<noteq> [] then verdict_of ''ci_missing'' missing else ''ok'')"

section \<open>What the verdict means\<close>

lemma ciKeyCmp_key: "ciKeyCmp j a b < 0 \<longleftrightarrow> ci_key j a < ci_key j b"
  by (auto simp: ciKeyCmp_def ci_key_def jqCmp_def less_prod_def' less_jkey_def Let_def)

definition green :: "ci_run list \<Rightarrow> string list \<Rightarrow> bool" where
  "green latest req \<longleftrightarrow> latest \<noteq> [] \<and>
     (\<forall>r \<in> set latest. cr_status r = ''completed'' \<and>
        (\<exists>c \<in> {''success'', ''skipped'', ''neutral''}. jqString (cr_conclusion r) = Some c \<and> (cr_name r \<in> set req \<longrightarrow> c = ''success''))) \<and>
     set req \<subseteq> cr_name ` set latest"

lemma verdict_of_not_ok: "verdict_of what names = ''ok'' \<longleftrightarrow> False"
proof -
  have "length (verdict_of what names) \<ge> 3 + length what"
    by (simp add: verdict_of_def)
  moreover have "what = [] \<Longrightarrow> hd (verdict_of what names) = CHR '' ''"
    by (simp add: verdict_of_def)
  ultimately show ?thesis
    by (cases "what") auto
qed

lemma ci_ok_green: "ciVerdict latest req = ''ok'' \<longleftrightarrow> green latest req"
proof -
  have run: "\<not> run_failed r \<and> \<not> run_pending r \<and> \<not> run_skipped req r \<longleftrightarrow>
      cr_status r = ''completed'' \<and> (\<exists>c \<in> {''success'', ''skipped'', ''neutral''}. jqString (cr_conclusion r) = Some c \<and>
        (cr_name r \<in> set req \<longrightarrow> c = ''success''))" for r
    by (auto simp: run_failed_def run_pending_def run_skipped_def list_ex_iff split: option.splits)
  have "ciVerdict latest req = ''ok'' \<longleftrightarrow> latest \<noteq> [] \<and>
      (\<forall>r \<in> set latest. \<not> run_failed r \<and> \<not> run_pending r \<and> \<not> run_skipped req r) \<and> ciAbsent latest req = []"
    by (simp add: ciVerdict_def Let_def verdict_of_not_ok filter_empty_conv ball_conj_distrib)
  also have "ciAbsent latest req = [] \<longleftrightarrow> set req \<subseteq> cr_name ` set latest"
    by (auto simp: ciAbsent_def ciSeen_def list_ex_iff filter_empty_conv)
  finally show ?thesis
    by (simp only: run green_def)
qed

text \<open>
  C40. The verdict on the checks of a head is ok exactly when at least one check run is reported, the latest run of every
  check is completed with success, skipped or neutral, a required check has concluded with success, and every required
  check is among them.
\<close>

theorem ci_verdict_ok_iff_green: "ciVerdict latest req = ''ok'' \<longleftrightarrow> green latest req"
  by (rule ci_ok_green)

text \<open>Grouping a sorted list by its keys.\<close>

lemma distinct_remdups_adj: "sorted xs \<Longrightarrow> distinct (remdups_adj xs)"
proof (induction xs rule: remdups_adj.induct)
  case (3 x y xs)
  then show ?case
    by (cases "x = y") (auto simp: less_le_not_le)
qed auto

lemma split_groups_sorted:
  assumes "sorted (map f xs)"
  shows "split_groups f xs = map (\<lambda>k. filter (\<lambda>x. f x = k) xs) (remdups_adj (map f xs))"
  using assms
proof (induction f xs rule: split_groups.induct)
  case (3 f x y xs)
  let ?gs = "map (\<lambda>k. filter (\<lambda>z. f z = k) (y # xs)) (remdups_adj (map f (y # xs)))"
  have IH: "split_groups f (y # xs) = ?gs"
    using 3 by (cases "f x = f y") auto
  show ?case
  proof (cases "f x = f y")
    case True
    obtain ks where ks: "remdups_adj (map f (y # xs)) = f y # ks"
      by (metis list.simps(9) remdups_adj_Cons_alt)
    have "f y \<notin> set ks"
      using ks "3.prems" by (metis distinct.simps(2) distinct_remdups_adj list.simps(9) sorted_simps(2))
    then have rest: "map (\<lambda>k. filter (\<lambda>z. f z = k) (y # xs)) ks = map (\<lambda>k. filter (\<lambda>z. f z = k) (x # y # xs)) ks"
      using True by (intro map_cong) auto
    have "remdups_adj (map f (x # y # xs)) = f y # ks"
      using True ks by simp
    then show ?thesis
      using True IH ks rest by simp
  next
    case False
    have "f x < f z" if "z \<in> set (y # xs)" for z
      using that "3.prems" False by (force simp: order.order_iff_strict)
    then have ne: "f z \<noteq> f x" if "z \<in> set (y # xs)" for z
      using that by force
    have none: "filter (\<lambda>z. f z = f x) (y # xs) = []"
      using ne by (auto simp: filter_empty_conv)
    have other: "map (\<lambda>k. filter (\<lambda>z. f z = k) (y # xs)) (remdups_adj (map f (y # xs))) =
        map (\<lambda>k. filter (\<lambda>z. f z = k) (x # y # xs)) (remdups_adj (map f (y # xs)))"
    proof (intro map_cong refl)
      fix k assume "k \<in> set (remdups_adj (map f (y # xs)))"
      then have "f x \<noteq> k"
        using ne by fastforce
      then show "filter (\<lambda>z. f z = k) (y # xs) = filter (\<lambda>z. f z = k) (x # y # xs)"
        by simp
    qed
    show ?thesis
      using False IH none other by simp
  qed
qed auto

lemma ciGroup_keys: "ciGroup j runs = map (\<lambda>k. filter (\<lambda>r. ci_key j r = k) runs) (sort (remdups (map (ci_key j) runs)))"
proof -
  let ?f = "ci_key j"
  have "remdups_adj (map ?f (sort_key ?f runs)) = sort (remdups (map ?f runs))"
    by (rule sorted_distinct_set_unique) (simp_all add: distinct_remdups_adj)
  then show ?thesis
    unfolding ciGroup_def by (subst split_groups_sorted) (simp_all add: sort_key_stable)
qed

lemma ciLatest_snoc: "g \<noteq> [] \<Longrightarrow> ciLatest (g @ [r]) = (if cr_num (ciLatest g) \<le> cr_num r then r else ciLatest g)"
  by (cases g) (simp_all add: ciLatest_def)

text \<open>The latest of a group: the last listed among those with the highest id.\<close>

lemma ciLatest_last:
  assumes "g \<noteq> []"
  shows "ciLatest g = last (filter (\<lambda>r. \<forall>r' \<in> set g. cr_num r' \<le> cr_num r) g) \<and> (\<forall>r' \<in> set g. cr_num r' \<le> cr_num (ciLatest g)) \<and> ciLatest g \<in> set g"
  using assms
proof (induction g rule: rev_nonempty_induct)
  case (single x)
  then show ?case by (simp add: ciLatest_def)
next
  case (snoc r g)
  let ?l = "ciLatest g"
  have l: "\<forall>r' \<in> set g. cr_num r' \<le> cr_num ?l" "?l \<in> set g" "?l = last (filter (\<lambda>r. \<forall>r' \<in> set g. cr_num r' \<le> cr_num r) g)"
    using snoc.IH by auto
  show ?case
  proof (cases "cr_num ?l \<le> cr_num r")
    case True
    then show ?thesis
      using l by (auto simp: ciLatest_snoc[OF snoc.hyps])
  next
    case False
    have "filter (\<lambda>x. \<forall>r' \<in> set (g @ [r]). cr_num r' \<le> cr_num x) g = filter (\<lambda>x. \<forall>r' \<in> set g. cr_num r' \<le> cr_num x) g"
      using l False by (intro filter_cong) force+
    then show ?thesis
      using l False by (auto simp: ciLatest_snoc[OF snoc.hyps])
  qed
qed

text \<open>The latest run of every check, by name and app: in the order of the keys, the last listed of the highest id.\<close>

definition latest_of :: "jq_env \<Rightarrow> ci_run list \<Rightarrow> string \<times> jkey \<Rightarrow> ci_run" where
  "latest_of j runs k = (let g = filter (\<lambda>r. ci_key j r = k) runs in last (filter (\<lambda>r. \<forall>r' \<in> set g. cr_num r' \<le> cr_num r) g))"

lemma ciNormalize_latest: "fst (ciNormalize j runs) = map (latest_of j runs) (sort (remdups (map (ci_key j) runs)))"
proof -
  have "ciLatest (filter (\<lambda>r. ci_key j r = k) runs) = latest_of j runs k" if "k \<in> ci_key j ` set runs" for k
    using that ciLatest_last[of "filter (\<lambda>r. ci_key j r = k) runs"] by (auto simp: latest_of_def Let_def filter_empty_conv)
  then show ?thesis
    by (simp add: ciNormalize_def ciGroup_keys Let_def)
qed

lemma latest_of_facts:
  assumes "k \<in> ci_key j ` set runs"
  shows "latest_of j runs k \<in> set runs" "ci_key j (latest_of j runs k) = k" "\<And>r. r \<in> set runs \<Longrightarrow> ci_key j r = k \<Longrightarrow> cr_num r \<le> cr_num (latest_of j runs k)"
proof -
  let ?g = "filter (\<lambda>r. ci_key j r = k) runs"
  have "?g \<noteq> []"
    using assms by (auto simp: filter_empty_conv)
  note last' = ciLatest_last[OF this]
  have eq: "latest_of j runs k = ciLatest ?g"
    unfolding latest_of_def Let_def by (rule last'[THEN conjunct1, symmetric])
  note last'' = last'[THEN conjunct2, folded eq]
  note l = last''[THEN conjunct2] last''[THEN conjunct1]
  show "latest_of j runs k \<in> set runs" "ci_key j (latest_of j runs k) = k" "\<And>r. r \<in> set runs \<Longrightarrow> ci_key j r = k \<Longrightarrow> cr_num r \<le> cr_num (latest_of j runs k)"
    using l by auto
qed

text \<open>
  A rerun decides. Of the reported check runs the gate judges, for every check and app that reported, exactly one: the
  last listed of those with the highest id, wherever the answer lists it; no check is judged twice and none is lost.
\<close>

theorem ci_latest_decides:
  "map (ci_key j) (fst (ciNormalize j runs)) = sort (remdups (map (ci_key j) runs)) \<and>
   fst (ciNormalize j runs) = map (latest_of j runs) (sort (remdups (map (ci_key j) runs)))"
proof
  have "map (ci_key j \<circ> latest_of j runs) ks = ks" if "set ks \<subseteq> ci_key j ` set runs" for ks
    using that by (induction ks) (simp_all add: latest_of_facts(2))
  then show "map (ci_key j) (fst (ciNormalize j runs)) = sort (remdups (map (ci_key j) runs))"
    by (simp add: ciNormalize_latest)
qed (rule ciNormalize_latest)

end
