(* ===== verification/Path_Filter.thy ===== *)
theory Path_Filter
  imports Jq
begin

text \<open>
  Path filters (\<open>internal/gate/mergepf.go\<close>): a required check whose workflow never ran for the changed files is not missing.
  The scanner of workflow files as a fold over lines with an explicit state, the path patterns and their translation to a
  regular expression, and the judgement over the two trees, which asks git.
\<close>

section \<open>Text\<close>

fun strip_comment :: "string \<Rightarrow> string" where
  "strip_comment [] = []"
| "strip_comment (c # s) =
     (if c \<in> set blanks \<and> has_prefix (trim_left blanks s) ''#'' then [] else c # strip_comment s)"

definition quoted :: "char \<Rightarrow> string \<Rightarrow> bool" where
  "quoted q v \<longleftrightarrow> length v \<ge> 2 \<and> hd v = q \<and> last v = q"

definition pfStrip :: "string \<Rightarrow> string" where
  "pfStrip v0 =
     (let v = trim blanks (strip_comment v0)
      in if quoted (CHR 0x22) v \<or> quoted (CHR 0x27) v then butlast (tl v) else v)"

definition afterColon :: "string \<Rightarrow> string" where
  "afterColon s = (if CHR '':'' \<in> set s then tl (dropWhile (\<lambda>c. c \<noteq> CHR '':'') s) else s)"

definition beforeColon :: "string \<Rightarrow> string" where
  "beforeColon s = takeWhile (\<lambda>c. c \<noteq> CHR '':'') s"

definition key_chars :: "char list" where
  "key_chars = ''ABCDEFGHIJKLMNOPQRSTUVWXYZabcdefghijklmnopqrstuvwxyz0123456789_-''"

definition pfJobKey :: "string \<Rightarrow> bool" where
  "pfJobKey line \<longleftrightarrow> takeWhile (\<lambda>c. c \<in> set key_chars) line \<noteq> [] \<and> has_prefix (dropWhile (\<lambda>c. c \<in> set key_chars) line) '':''"

section \<open>The scanner\<close>

record pf_scan =
  sc_pats :: "string list"
  sc_job :: bool
  sc_pr :: bool
  sc_ignore :: bool
  sc_flow :: bool
  sc_other :: string
  sc_unsup :: string

record pf_state = pf_scan +
  ps_sec :: string
  ps_ev :: string
  ps_mode :: string
  ps_cur :: string
  ps_eind :: nat
  ps_kind :: nat
  ps_jind :: nat
  ps_cind :: nat
  ps_seenJobs :: bool
  ps_ids :: "string list"
  ps_name :: "string \<Rightarrow> string"

definition pf_start :: pf_state where
  "pf_start = \<lparr>sc_pats = [], sc_job = False, sc_pr = False, sc_ignore = False, sc_flow = False, sc_other = [], sc_unsup = [],
     ps_sec = [], ps_ev = [], ps_mode = [], ps_cur = [], ps_eind = 0, ps_kind = 0, ps_jind = 0, ps_cind = 0, ps_seenJobs = False,
     ps_ids = [], ps_name = \<lambda>_. []\<rparr>"

definition set_unsup :: "string \<Rightarrow> pf_state \<Rightarrow> pf_state" where
  \<comment> \<open>the first reason stays\<close>
  "set_unsup w st = (if sc_unsup st = [] then st\<lparr>sc_unsup := w\<rparr> else st)"

text \<open>A line without indentation opens a section.\<close>

definition top_line :: "string \<Rightarrow> pf_state \<Rightarrow> pf_state" where
  "top_line line st0 =
     (let st = st0\<lparr>ps_sec := [], ps_eind := 0, ps_ev := [], ps_kind := 0, ps_mode := [], ps_jind := 0, ps_cur := [], ps_cind := 0\<rparr>
      in if has_prefix line ''on:'' then
           (let rest = pfStrip (drop 3 line); st = st\<lparr>ps_sec := ''on''\<rparr>
            in if rest = ''pull_request'' then st\<lparr>sc_pr := True\<rparr>
               else if str_contains rest ''pull_request'' \<or> str_contains rest ''merge_group'' then
                 st\<lparr>sc_pr := True, sc_other := ''pull_request or merge_group inside an inline on: value''\<rparr>
               else st)
         else if has_prefix line ''jobs:'' then
           (let st = st\<lparr>ps_sec := ''jobs'', ps_seenJobs := True\<rparr>
            in if pfStrip (drop 5 line) \<noteq> [] then set_unsup ''jobs is not a block mapping'' st else st)
         else st)"

definition event_line :: "string \<Rightarrow> pf_state \<Rightarrow> pf_state" where
  "event_line line st0 =
     (let ev = pfStrip (beforeColon line); st = st0\<lparr>ps_ev := ev, ps_mode := [], ps_kind := 0\<rparr>
      in if ev = ''pull_request'' then
           (if pfStrip (afterColon line) \<noteq> [] then st\<lparr>sc_pr := True, sc_flow := True\<rparr> else st\<lparr>sc_pr := True\<rparr>)
         else if ev = ''pull_request_target'' \<or> ev = ''merge_group'' then st\<lparr>sc_other := ev @ '' trigger''\<rparr>
         else st)"

definition filter_line :: "string \<Rightarrow> pf_state \<Rightarrow> pf_state" where
  "filter_line line st0 =
     (let key = beforeColon line; val = pfStrip (afterColon line); st = st0\<lparr>ps_mode := []\<rparr>
      in if key = ''paths'' then (if val \<noteq> [] then st\<lparr>sc_flow := True\<rparr> else st\<lparr>ps_mode := ''paths''\<rparr>)
         else if key = ''paths-ignore'' then st\<lparr>sc_ignore := True\<rparr>
         else st)"

definition on_line :: "nat \<Rightarrow> string \<Rightarrow> pf_state \<Rightarrow> pf_state" where
  "on_line ind line st0 =
     (let st = (if ps_eind st0 = 0 then st0\<lparr>ps_eind := ind\<rparr> else st0)
      in if ind = ps_eind st then event_line line st
         else if ps_ev st \<noteq> ''pull_request'' then st
         else
           let isItem = has_prefix line ''-'';
               st = (if ps_kind st = 0 \<and> \<not> isItem then st\<lparr>ps_kind := ind\<rparr> else st)
           in if ind = ps_kind st \<and> \<not> isItem then filter_line line st
              else if ps_mode st = ''paths'' \<and> isItem then st\<lparr>sc_pats := sc_pats st @ [pfStrip (trim_left blanks (tl line))]\<rparr>
              else st)"

definition job_name_line :: "string \<Rightarrow> pf_state \<Rightarrow> pf_state" where
  "job_name_line line st =
     (let v = pfStrip (drop 5 line)
      in if v = [] \<or> str_contains v ''${{'' \<or> hd v \<in> set ''>|&*!'' then set_unsup (''job name shape of '' @ ps_cur st) st
         else st\<lparr>ps_name := (ps_name st)(ps_cur st := v)\<rparr>)"

definition jobs_line :: "nat \<Rightarrow> string \<Rightarrow> pf_state \<Rightarrow> pf_state" where
  "jobs_line ind line st0 =
     (let st = (if ps_jind st0 = 0 then st0\<lparr>ps_jind := ind\<rparr> else st0)
      in if ind = ps_jind st then
           (if \<not> pfJobKey line then (set_unsup (''job key shape: '' @ line) st)\<lparr>ps_cur := []\<rparr>
            else let id' = beforeColon line
                 in st\<lparr>ps_name := (ps_name st)(id' := id'), ps_ids := ps_ids st @ [id'], ps_cur := id', ps_cind := 0\<rparr>)
         else if ps_cur st \<noteq> [] then
           (let st = (if ps_cind st = 0 then st\<lparr>ps_cind := ind\<rparr> else st)
            in if ind = ps_cind st \<and> has_prefix line ''name:'' then job_name_line line st else st)
         else st)"

definition scan_line :: "string \<Rightarrow> pf_state \<Rightarrow> pf_state" where
  "scan_line raw st =
     (let t = trim_left blanks raw; ind = length raw - length (trim_left '' '' raw); line = drop ind raw
      in if t = [] \<or> hd t = CHR ''#'' then st
         else if ind = 0 then top_line line st
         else if ps_sec st = ''on'' then on_line ind line st
         else if ps_sec st = ''jobs'' then jobs_line ind line st
         else st)"

definition pfScanWorkflow :: "string \<Rightarrow> string \<Rightarrow> pf_scan" where
  "pfScanWorkflow src chk =
     (let st = fold scan_line (split_on newline_char src) pf_start;
          st = (if list_ex (\<lambda>i. ps_name st i = chk) (ps_ids st) then st\<lparr>sc_job := True\<rparr> else st);
          st = (if \<not> ps_seenJobs st then set_unsup ''no jobs: block'' st else st)
      in pf_scan.truncate st)"

fun awk_escape :: "char \<Rightarrow> char" where
  "awk_escape c = (if c = CHR ''n'' then CHR 0x0A else if c = CHR ''t'' then CHR 0x09 else if c = CHR ''r'' then CHR 0x0D
     else if c = CHR ''a'' then CHR 0x07 else if c = CHR ''b'' then CHR 0x08 else if c = CHR ''f'' then CHR 0x0C
     else if c = CHR ''v'' then CHR 0x0B else c)"

fun awkVar :: "string \<Rightarrow> string" where
  "awkVar [] = []"
| "awkVar [c] = [c]"
| "awkVar (c # d # s) = (if c = CHR 0x5C then awk_escape d # awkVar s else c # awkVar (d # s))"

section \<open>Path patterns\<close>

definition pat_chars :: "char list" where
  "pat_chars = ''ABCDEFGHIJKLMNOPQRSTUVWXYZabcdefghijklmnopqrstuvwxyz0123456789_.*/@-''"

definition has_suffix :: "string \<Rightarrow> string \<Rightarrow> bool" where
  "has_suffix s t \<longleftrightarrow> has_prefix (rev s) (rev t)"

definition trim_suffix :: "string \<Rightarrow> string \<Rightarrow> string" where
  "trim_suffix s t = (if has_suffix s t then take (length s - length t) s else s)"

definition pfPatOK :: "string \<Rightarrow> bool" where
  "pfPatOK p \<longleftrightarrow> p \<noteq> [] \<and> list_all (\<lambda>c. c \<in> set pat_chars) p \<and> \<not> str_contains (trim_suffix p ''/**'') ''**''"

text \<open>\<open>strings.ReplaceAll\<close> of a text that is not empty.\<close>

function replace_all :: "string \<Rightarrow> string \<Rightarrow> string \<Rightarrow> string" where
  "replace_all old new s =
     (if s = [] \<or> old = [] then s
      else if has_prefix s old then new @ replace_all old new (drop (length old) s)
      else hd s # replace_all old new (tl s))"
  by pat_completeness auto
termination
  by (relation "measure (\<lambda>(old, new, s). length s)") (auto simp: length_greater_0_conv[symmetric] simp del: length_greater_0_conv)

declare replace_all.simps [simp del]

definition re_special :: "char list" where
  "re_special = ''[](){}.+^$|?'' @ [CHR 0x5C]"

definition re_escape :: "char \<Rightarrow> string" where
  "re_escape c = (if c \<in> set re_special then [CHR 0x5C, c] else [c])"

definition ds_marker :: string where "ds_marker = ''@@DS@@''"

definition pfGlobRE :: "string \<Rightarrow> string" where
  \<comment> \<open>the text between the anchors\<close>
  "pfGlobRE p = replace_all ds_marker ''.*'' (replace_all ''*'' ''[^/]*'' (replace_all ''**'' ds_marker (concat (map re_escape p))))"

text \<open>The regular expressions the translation produces: characters and two kinds of runs. \<open>.\<close> is any character but a newline.\<close>

datatype re_atom = RChar char | RNoSlash | RAny

function parse_re :: "string \<Rightarrow> re_atom list" where
  "parse_re s =
     (if s = [] then []
      else if hd s = CHR 0x5C \<and> tl s \<noteq> [] then RChar (hd (tl s)) # parse_re (drop 2 s)
      else if has_prefix s ''[^/]*'' then RNoSlash # parse_re (drop 5 s)
      else if has_prefix s ''.*'' then RAny # parse_re (drop 2 s)
      else RChar (hd s) # parse_re (tl s))"
  by pat_completeness auto
termination
  by (relation "measure length") (auto simp: length_greater_0_conv[symmetric] simp del: length_greater_0_conv)

declare parse_re.simps [simp del]

fun re_match :: "re_atom list \<Rightarrow> string \<Rightarrow> bool" where
  "re_match [] s \<longleftrightarrow> s = []"
| "re_match (RChar c # r) s \<longleftrightarrow> (case s of [] \<Rightarrow> False | d # s' \<Rightarrow> c = d \<and> re_match r s')"
| "re_match (RNoSlash # r) s \<longleftrightarrow> re_match r s \<or> (case s of [] \<Rightarrow> False | d # s' \<Rightarrow> d \<noteq> CHR ''/'' \<and> re_match (RNoSlash # r) s')"
| "re_match (RAny # r) s \<longleftrightarrow> re_match r s \<or> (case s of [] \<Rightarrow> False | d # s' \<Rightarrow> d \<noteq> newline_char \<and> re_match (RAny # r) s')"

definition pfAnyLine :: "string \<Rightarrow> string \<Rightarrow> bool" where
  "pfAnyLine pat files \<longleftrightarrow> list_ex (re_match (parse_re (pfGlobRE pat))) (split_on newline_char files)"

section \<open>What a pattern means\<close>

text \<open>A pattern as written: two stars for any text of a line, one star for any text without a slash, the rest for itself.\<close>

datatype glob_tok = TLit char | TStar | TDeep

fun glob_toks :: "string \<Rightarrow> glob_tok list" where
  "glob_toks [] = []"
| "glob_toks [c] = [if c = CHR ''*'' then TStar else TLit c]"
| "glob_toks (c # d # s) =
     (if c = CHR ''*'' \<and> d = CHR ''*'' then TDeep # glob_toks s
      else (if c = CHR ''*'' then TStar else TLit c) # glob_toks (d # s))"

inductive glob_matches :: "glob_tok list \<Rightarrow> string \<Rightarrow> bool" where
  glob_nil: "glob_matches [] []"
| glob_lit: "glob_matches ts s \<Longrightarrow> glob_matches (TLit c # ts) (c # s)"
| glob_star: "glob_matches ts s \<Longrightarrow> CHR ''/'' \<notin> set u \<Longrightarrow> glob_matches (TStar # ts) (u @ s)"
| glob_deep: "glob_matches ts s \<Longrightarrow> newline_char \<notin> set u \<Longrightarrow> glob_matches (TDeep # ts) (u @ s)"

inductive_cases glob_cases: "glob_matches [] s" "glob_matches (TLit c # ts) s" "glob_matches (TStar # ts) s" "glob_matches (TDeep # ts) s"

fun tok_atom :: "glob_tok \<Rightarrow> re_atom" where
  "tok_atom (TLit c) = RChar c" | "tok_atom TStar = RNoSlash" | "tok_atom TDeep = RAny"

lemma re_match_step:
  "re_match (RNoSlash # r) [] \<longleftrightarrow> re_match r []" "re_match (RAny # r) [] \<longleftrightarrow> re_match r []"
  "re_match (RNoSlash # r) (c # s) \<longleftrightarrow> re_match r (c # s) \<or> c \<noteq> CHR ''/'' \<and> re_match (RNoSlash # r) s"
  "re_match (RAny # r) (c # s) \<longleftrightarrow> re_match r (c # s) \<or> c \<noteq> newline_char \<and> re_match (RAny # r) s"
  by (subst re_match.simps, simp)+

declare re_match.simps(3,4) [simp del] re_match_step [simp]

lemma re_match_star: "re_match (RNoSlash # r) s \<longleftrightarrow> (\<exists>u v. s = u @ v \<and> CHR ''/'' \<notin> set u \<and> re_match r v)"
proof (induction s)
  case (Cons c s)
  show ?case
  proof
    assume "re_match (RNoSlash # r) (c # s)"
    then consider "re_match r (c # s)" | "c \<noteq> CHR ''/''" "re_match (RNoSlash # r) s"
      unfolding re_match_step by blast
    then show "\<exists>u v. c # s = u @ v \<and> CHR ''/'' \<notin> set u \<and> re_match r v"
    proof cases
      case 1
      then show ?thesis by - (rule exI[of _ "[]"], simp)
    next
      case 2
      then obtain u v where "s = u @ v" "CHR ''/'' \<notin> set u" "re_match r v" using Cons by auto
      then show ?thesis using 2 by (intro exI[of _ "c # u"] exI[of _ v]) auto
    qed
  next
    assume "\<exists>u v. c # s = u @ v \<and> CHR ''/'' \<notin> set u \<and> re_match r v"
    then obtain u v where uv: "c # s = u @ v" "CHR ''/'' \<notin> set u" "re_match r v" by blast
    then show "re_match (RNoSlash # r) (c # s)"
      using Cons by (cases u) auto
  qed
qed simp

lemma re_match_any: "re_match (RAny # r) s \<longleftrightarrow> (\<exists>u v. s = u @ v \<and> newline_char \<notin> set u \<and> re_match r v)"
proof (induction s)
  case (Cons c s)
  show ?case
  proof
    assume "re_match (RAny # r) (c # s)"
    then consider "re_match r (c # s)" | "c \<noteq> newline_char" "re_match (RAny # r) s"
      unfolding re_match_step by blast
    then show "\<exists>u v. c # s = u @ v \<and> newline_char \<notin> set u \<and> re_match r v"
    proof cases
      case 1
      then show ?thesis by - (rule exI[of _ "[]"], simp)
    next
      case 2
      then obtain u v where "s = u @ v" "newline_char \<notin> set u" "re_match r v" using Cons by auto
      then show ?thesis using 2 by (intro exI[of _ "c # u"] exI[of _ v]) auto
    qed
  next
    assume "\<exists>u v. c # s = u @ v \<and> newline_char \<notin> set u \<and> re_match r v"
    then obtain u v where uv: "c # s = u @ v" "newline_char \<notin> set u" "re_match r v" by blast
    then show "re_match (RAny # r) (c # s)"
      using Cons by (cases u) auto
  qed
qed simp

lemma re_match_toks: "re_match (map tok_atom ts) s \<longleftrightarrow> glob_matches ts s"
proof (induction ts arbitrary: s)
  case Nil
  then show ?case by (auto elim: glob_cases intro: glob_matches.intros)
next
  case (Cons t ts)
  show ?case
  proof (cases t)
    case (TLit c)
    then show ?thesis
      using Cons by (cases s) (auto elim: glob_cases intro: glob_matches.intros)
  next
    case TStar
    then show ?thesis
      using Cons by (auto simp: re_match_star elim!: glob_cases intro: glob_matches.intros)
  next
    case TDeep
    then show ?thesis
      using Cons by (auto simp: re_match_any elim!: glob_cases intro: glob_matches.intros)
  qed
qed

text \<open>The three replacements, token by token.\<close>

lemma replace_all_cons:
  "\<not> has_prefix (c # s) old \<Longrightarrow> replace_all old new (c # s) = c # replace_all old new s"
  "old \<noteq> [] \<Longrightarrow> replace_all old new (old @ s) = new @ replace_all old new s"
  "replace_all old new [] = []"
  by (subst replace_all.simps; cases old; auto simp: has_prefix_def)+

definition tok1 :: "glob_tok \<Rightarrow> string" where
  "tok1 t = (case t of TLit c \<Rightarrow> re_escape c | TStar \<Rightarrow> ''*'' | TDeep \<Rightarrow> ds_marker)"

definition tok2 :: "glob_tok \<Rightarrow> string" where
  "tok2 t = (case t of TLit c \<Rightarrow> re_escape c | TStar \<Rightarrow> ''[^/]*'' | TDeep \<Rightarrow> ds_marker)"

definition tok3 :: "glob_tok \<Rightarrow> string" where
  "tok3 t = (case t of TLit c \<Rightarrow> re_escape c | TStar \<Rightarrow> ''[^/]*'' | TDeep \<Rightarrow> ''.*'')"

lemma replace_keeps: "CHR ''*'' \<notin> set u \<Longrightarrow> replace_all ''**'' new (u @ s) = u @ replace_all ''**'' new s"
proof (induction u)
  case (Cons c u)
  then have "\<not> has_prefix (c # u @ s) ''**''"
    by (auto simp: has_prefix_def)
  then show ?case
    using Cons by (simp add: replace_all_cons(1))
qed simp

lemma re_escape_star: "re_escape (CHR ''*'') = ''*''" "c \<noteq> CHR ''*'' \<Longrightarrow> CHR ''*'' \<notin> set (re_escape c)"
  by (auto simp: re_escape_def re_special_def)

lemma glob_stage1: "replace_all ''**'' ds_marker (concat (map re_escape p)) = concat (map tok1 (glob_toks p))"
proof (induction p rule: glob_toks.induct)
  case (2 c)
  show ?case
  proof (cases "c = CHR ''*''")
    case True
    then show ?thesis by (simp add: re_escape_star tok1_def replace_all_cons has_prefix_def)
  next
    case False
    then show ?thesis
      using replace_keeps[OF re_escape_star(2)[OF False], of ds_marker "[]"] by (simp add: tok1_def replace_all_cons)
  qed
next
  case (3 c d s)
  consider "c = CHR ''*'' \<and> d = CHR ''*''" | "c = CHR ''*''" "d \<noteq> CHR ''*''" | "c \<noteq> CHR ''*''" by blast
  then show ?case
  proof cases
    case 1
    then show ?thesis
      using 3(1) replace_all_cons(2)[of "''**''" ds_marker] by (simp add: re_escape_star tok1_def)
  next
    case 2
    have "\<not> has_prefix (CHR ''*'' # re_escape d @ concat (map re_escape s)) ''**''"
      using re_escape_star(2)[OF 2(2)] by (auto simp: has_prefix_def re_escape_def split: if_splits)
    then show ?thesis
      using 2 3(2) by (simp add: re_escape_star tok1_def replace_all_cons(1))
  next
    case c: 3
    then show ?thesis
      using 3(2) replace_keeps[OF re_escape_star(2)[OF c]] by (simp add: tok1_def)
  qed
qed (simp add: replace_all_cons)

lemma replace_star: "replace_all ''*'' new s = concat (map (\<lambda>c. if c = CHR ''*'' then new else [c]) s)"
proof (induction s)
  case (Cons c s)
  show ?case
  proof (cases "c = CHR ''*''")
    case True
    then show ?thesis
      using Cons replace_all_cons(2)[of "''*''" new s] by simp
  next
    case False
    then show ?thesis
      using Cons by (simp add: replace_all_cons(1) has_prefix_def)
  qed
qed (simp add: replace_all_cons)

lemma no_star_same: "CHR ''*'' \<notin> set u \<Longrightarrow> concat (map (\<lambda>c. if c = CHR ''*'' then new else [c]) u) = u"
  by (induction u) auto

lemma glob_stage2: "replace_all ''*'' ''[^/]*'' (concat (map tok1 ts)) = concat (map tok2 ts)" if "TLit (CHR ''*'') \<notin> set ts"
  using that
proof (induction ts)
  case (Cons t ts)
  then show ?case
    by (cases t) (auto simp: replace_star tok1_def tok2_def ds_marker_def re_escape_star no_star_same)
qed (simp add: replace_all_cons)

lemma glob_toks_lit: "TLit (CHR ''*'') \<notin> set (glob_toks p)"
  by (induction p rule: glob_toks.induct) auto

text \<open>Patterns without \<open>**\<close> are read one character at a time.\<close>

definition char_tok :: "char \<Rightarrow> glob_tok" where
  "char_tok c = (if c = CHR ''*'' then TStar else TLit c)"

lemma str_contains_iff: "str_contains s sub \<longleftrightarrow> (\<exists>i \<le> length s. has_prefix (drop i s) sub)"
  unfolding str_contains_def by (simp add: list_ex_iff Bex_def less_Suc_eq_le del: upt_Suc)

lemma str_contains_simps [simp]: "str_contains (c # s) sub \<longleftrightarrow> has_prefix (c # s) sub \<or> str_contains s sub"
  "str_contains [] sub \<longleftrightarrow> sub = []"
proof -
  have "(\<exists>i \<le> Suc n. P i) \<longleftrightarrow> P 0 \<or> (\<exists>i \<le> n. P (Suc i))" for P n
    by (metis Suc_le_mono not0_implies_Suc zero_le)
  then show "str_contains (c # s) sub \<longleftrightarrow> has_prefix (c # s) sub \<or> str_contains s sub"
    unfolding str_contains_iff by simp
qed (auto simp: str_contains_def has_prefix_def)

lemma str_contains_append: "str_contains q sub \<Longrightarrow> str_contains (q @ r) sub"
proof -
  assume "str_contains q sub"
  then obtain i where "i \<le> length q" "take (length sub) (drop i q) = sub"
    unfolding str_contains_iff has_prefix_def by blast
  then have "take (length sub) (drop i (q @ r)) = sub"
    by (metis append_Nil2 diff_is_0_eq' drop_0 drop_append length_append take_append take_eq_Nil length_take min_def take_all_iff diff_le_self nle_le)
  then show ?thesis
    unfolding str_contains_iff has_prefix_def using \<open>i \<le> length q\<close> by (intro exI[of _ i]) simp
qed

lemma glob_toks_flat: "\<not> str_contains q ''**'' \<Longrightarrow> glob_toks q = map char_tok q"
  by (induction q rule: glob_toks.induct) (auto simp: char_tok_def has_prefix_def)

lemma glob_toks_tail: "\<not> str_contains q ''**'' \<Longrightarrow> glob_toks (q @ ''/**'') = map char_tok q @ [TLit (CHR ''/''), TDeep]"
  by (induction q rule: glob_toks.induct) (auto simp: char_tok_def has_prefix_def)

lemma marker_prefix:
  assumes "has_prefix (concat (map (\<lambda>c. tok2 (char_tok c)) q) @ r) n" "set n \<subseteq> set ds_marker" "r = [] \<or> hd r = CHR ''/''"
  shows "has_prefix q n"
  using assms
proof (induction n arbitrary: q)
  case (Cons c n)
  have c: "c \<in> set ''@DS''"
    using Cons.prems(2) by (auto simp: ds_marker_def)
  obtain d q' where q: "q = d # q'"
    using Cons.prems(1,3) c by (cases q; cases r) (auto simp: has_prefix_def)
  have d: "tok2 (char_tok d) = [d]" "d = c"
    using Cons.prems(1) c by (auto simp: q has_prefix_def tok2_def char_tok_def re_escape_def re_special_def split: if_splits)
  have "has_prefix (concat (map (\<lambda>c. tok2 (char_tok c)) q') @ r) n"
    using Cons.prems(1) d by (simp add: q has_prefix_def comp_def)
  then show ?case
    using Cons.IH[of q'] Cons.prems(2,3) d by (simp add: q has_prefix_def)
qed (simp add: has_prefix_def)

lemma replace_marker_keeps: "CHR ''@'' \<notin> set u \<Longrightarrow> replace_all ds_marker new (u @ s) = u @ replace_all ds_marker new s"
proof (induction u)
  case (Cons c u)
  then have "\<not> has_prefix (c # u @ s) ds_marker"
    by (auto simp: has_prefix_def ds_marker_def)
  then show ?case
    using Cons by (simp add: replace_all_cons(1))
qed simp

lemma replace_marker_flat:
  assumes "\<not> str_contains q ds_marker" "r = [] \<or> hd r = CHR ''/''"
  shows "replace_all ds_marker new (concat (map (\<lambda>c. tok2 (char_tok c)) q) @ r) = concat (map (\<lambda>c. tok2 (char_tok c)) q) @ replace_all ds_marker new r"
  using assms(1)
proof (induction q)
  case (Cons d q)
  show ?case
  proof (cases "tok2 (char_tok d) = [d]")
    case True
    have "\<not> has_prefix (concat (map (\<lambda>c. tok2 (char_tok c)) (d # q)) @ r) ds_marker"
      using marker_prefix[of "d # q" r ds_marker] Cons.prems assms(2) by simp blast
    then have "\<not> has_prefix (d # concat (map (\<lambda>c. tok2 (char_tok c)) q) @ r) ds_marker"
      by (simp add: True)
    then show ?thesis
      using Cons.IH Cons.prems by (simp add: True replace_all_cons(1))
  next
    case False
    then have "CHR ''@'' \<notin> set (tok2 (char_tok d))"
      by (auto simp: tok2_def char_tok_def re_escape_def re_special_def split: if_splits)
    then show ?thesis
      using Cons.IH Cons.prems replace_marker_keeps[of "tok2 (char_tok d)" new] by simp
  qed
qed simp

lemma glob_stage3:
  assumes "pfPatOK p" "\<not> str_contains p ds_marker"
  shows "replace_all ds_marker ''.*'' (concat (map tok2 (glob_toks p))) = concat (map tok3 (glob_toks p))"
proof -
  have flat: "tok3 (char_tok c) = tok2 (char_tok c)" for c
    by (simp add: tok2_def tok3_def char_tok_def)
  show ?thesis
  proof (cases "has_suffix p ''/**''")
    case True
    define q where "q = trim_suffix p ''/**''"
    have "rev p = rev ''/**'' @ drop 3 (rev p)"
      using True append_take_drop_id[of 3 "rev p"] by (simp add: has_suffix_def has_prefix_def numeral_3_eq_3)
    then have "p = rev (drop 3 (rev p)) @ ''/**''"
      by (metis rev_append rev_rev_ident)
    then have p: "p = q @ ''/**''"
      using True by (simp add: q_def trim_suffix_def rev_drop numeral_3_eq_3)
    have q: "\<not> str_contains q ''**''"
      using assms(1) by (simp add: pfPatOK_def q_def)
    have "\<not> str_contains q ds_marker"
      using assms(2) str_contains_append by (auto simp: p)
    then show ?thesis
      unfolding p glob_toks_tail[OF q] using replace_marker_flat[of q "CHR ''/'' # ds_marker" "''.*''"]
        replace_marker_keeps[of "''/''" "''.*''" ds_marker] replace_all_cons(2)[of ds_marker "''.*''" "[]"]
      by (simp add: flat tok2_def[of "TLit _"] tok2_def[of TDeep] tok3_def[of "TLit _"] tok3_def[of TDeep] re_escape_def re_special_def replace_all_cons(3) ds_marker_def comp_def)
  next
    case False
    then have "\<not> str_contains p ''**''"
      using assms(1) by (simp add: pfPatOK_def trim_suffix_def)
    then show ?thesis
      using replace_marker_flat[of p "[]" "''.*''"] assms(2) by (simp add: flat glob_toks_flat replace_all_cons(3) comp_def)
  qed
qed

lemma parse_toks: "TLit (CHR ''*'') \<notin> set ts \<Longrightarrow> parse_re (concat (map tok3 ts)) = map tok_atom ts"
proof (induction ts)
  case (Cons t ts)
  have "parse_re (tok3 t @ s) = tok_atom t # parse_re s" for s
  proof (cases t)
    case (TLit c)
    then show ?thesis
      by (subst parse_re.simps) (auto simp: tok3_def re_escape_def re_special_def has_prefix_def)
  qed (subst parse_re.simps; simp add: tok3_def has_prefix_def)+
  then show ?case
    using Cons by simp
qed (simp add: parse_re.simps)

lemma pattern_exact:
  assumes "pfPatOK p" "\<not> str_contains p ds_marker"
  shows "re_match (parse_re (pfGlobRE p)) l \<longleftrightarrow> glob_matches (glob_toks p) l"
  unfolding pfGlobRE_def glob_stage1 glob_stage2[OF glob_toks_lit] glob_stage3[OF assms] parse_toks[OF glob_toks_lit] re_match_toks ..



text \<open>The marker is a pattern the gate accepts, and then it is not taken for itself.\<close>

lemma marker_pattern: "pfPatOK ''a@@DS@@b'' \<and> re_match (parse_re (pfGlobRE ''a@@DS@@b'')) ''axb'' \<and> \<not> glob_matches (glob_toks ''a@@DS@@b'') ''axb''"
proof -
  have "\<not> glob_matches (glob_toks ''a@@DS@@b'') ''axb''"
    by (auto elim: glob_cases)
  moreover have "pfPatOK ''a@@DS@@b''"
    by code_simp
  moreover have "re_match (parse_re (pfGlobRE ''a@@DS@@b'')) ''axb''"
    by code_simp
  ultimately show ?thesis
    by blast
qed

section \<open>The judgement\<close>

definition lines_of :: "string \<Rightarrow> string list" where
  "lines_of s = split_on newline_char s"

text \<open>What one workflow file says of a check: nothing, that it ran, that it was skipped, or something not evaluable.\<close>

datatype wf_verdict = WfOther | WfRun | WfSkip | WfUnknown string

primrec pats_loop :: "string \<Rightarrow> string list \<Rightarrow> string \<Rightarrow> bool \<times> string" where
  \<comment> \<open>whether a pattern hits, and the first unsupported one before it\<close>
  "pats_loop files [] bad = (False, bad)"
| "pats_loop files (p # ps) bad =
     (if p = [] then pats_loop files ps bad
      else if \<not> pfPatOK p then pats_loop files ps (if bad = [] then p else bad)
      else if pfAnyLine p files then (True, bad)
      else pats_loop files ps bad)"

definition judge_paths :: "string \<Rightarrow> string \<Rightarrow> string \<Rightarrow> string list \<Rightarrow> wf_verdict" where
  "judge_paths label wfl files pats0 =
     (let pats = cmdSub (join_with [newline_char] pats0)
      in if pats = [] then WfRun
         else case pats_loop files (lines_of pats) [] of (hit, bad) \<Rightarrow>
           if hit then WfRun
           else if bad \<noteq> [] then WfUnknown (wfl @ '' has an unsupported path pattern ('' @ bad @ '', '' @ label @ '' tree)'')
           else WfSkip)"

definition judge_workflow :: "string \<Rightarrow> string \<Rightarrow> string \<Rightarrow> string \<Rightarrow> string \<Rightarrow> wf_verdict" where
  "judge_workflow label chk files wfl src =
     (let sc = pfScanWorkflow (cmdSub src) (awkVar chk)
      in if sc_unsup sc \<noteq> [] then WfUnknown (''cannot parse the jobs of '' @ wfl @ '' ('' @ sc_unsup sc @ '', '' @ label @ '' tree)'')
         else if \<not> sc_job sc then WfOther
         else if sc_other sc \<noteq> [] then WfUnknown (wfl @ '' has another PR-like trigger ('' @ sc_other sc @ '', '' @ label @ '' tree)'')
         else if \<not> sc_pr sc then WfUnknown (''no pull_request trigger in '' @ wfl @ '' ('' @ label @ '' tree)'')
         else if sc_ignore sc then WfUnknown (wfl @ '' uses paths-ignore ('' @ label @ '' tree)'')
         else if sc_flow sc then WfUnknown (wfl @ '' lists its paths inline (flow style, '' @ label @ '' tree)'')
         else judge_paths label wfl files (sc_pats sc))"

definition LsTree :: "kit_env \<Rightarrow> string \<Rightarrow> string \<Rightarrow> ('s, string list) prog" where
  "LsTree e cwd tree =
     bind_k (ask e (Git cwd [''ls-tree'', ''--name-only'', tree, ''.github/workflows/''])) (\<lambda>r.
       return_k (let out = cmdSub (rp_out r) in if out = [] then [] else lines_of out))"

definition Show :: "kit_env \<Rightarrow> string \<Rightarrow> string \<Rightarrow> string \<Rightarrow> ('s, string option) prog" where
  "Show e cwd tree path =
     bind_k (ask e (Git cwd [''show'', tree @ '':'' @ path])) (\<lambda>r. return_k (if rp_rc r = 0 then Some (rp_out r) else None))"

datatype pf_verdict = PFSkip "string list" | PFRun | PFUnknown string | PFNone

primrec wf_loop :: "kit_env \<Rightarrow> string \<Rightarrow> string \<Rightarrow> string \<Rightarrow> string \<Rightarrow> string \<Rightarrow> string list \<Rightarrow> bool \<Rightarrow> bool \<Rightarrow> string list \<Rightarrow> ('s, pf_verdict) prog" where
  \<comment> \<open>whether some workflow carries the check, whether some one ran it, and the ones that skipped it\<close>
  "wf_loop e cwd tree label chk files [] carried anyRun skipped =
     return_k (if \<not> carried then PFUnknown (''no workflow job named '' @ chk @ '' in the '' @ label @ '' tree'')
       else if anyRun then PFRun else PFSkip skipped)"
| "wf_loop e cwd tree label chk files (wfl # wfs) carried anyRun skipped =
     bind_k (Show e cwd tree wfl) (\<lambda>src. case src of
       None \<Rightarrow> return_k (PFUnknown (''cannot read '' @ wfl @ '' in the '' @ label @ '' tree''))
     | Some s \<Rightarrow>
         (case judge_workflow label chk files wfl s of
            WfOther \<Rightarrow> wf_loop e cwd tree label chk files wfs carried anyRun skipped
          | WfRun \<Rightarrow> wf_loop e cwd tree label chk files wfs True True skipped
          | WfSkip \<Rightarrow> wf_loop e cwd tree label chk files wfs True anyRun (skipped @ [wfl])
          | WfUnknown why \<Rightarrow> return_k (PFUnknown why)))"

definition yamlName :: "string \<Rightarrow> bool" where
  "yamlName l \<longleftrightarrow> has_suffix l ''.yml'' \<or> has_suffix l ''.yaml''"

definition pfTree :: "kit_env \<Rightarrow> string \<Rightarrow> string \<Rightarrow> string \<Rightarrow> string \<Rightarrow> string \<Rightarrow> ('s, pf_verdict) prog" where
  "pfTree e cwd tree label chk files =
     bind_k (LsTree e cwd tree) (\<lambda>ls.
       let wfs = cmdSub (join_with [newline_char] (filter yamlName ls))
       in if wfs = [] then return_k (PFUnknown (''no workflow files in the '' @ label @ '' tree (.github/workflows)''))
          else wf_loop e cwd tree label chk files (lines_of wfs) False False [])"

fun is_skip :: "pf_verdict \<Rightarrow> bool" where
  "is_skip (PFSkip ws) = True" | "is_skip v = False"

definition pfEval :: "kit_env \<Rightarrow> string \<Rightarrow> string \<Rightarrow> string \<Rightarrow> bool \<Rightarrow> string \<Rightarrow> string \<Rightarrow> ('s, pf_verdict) prog" where
  "pfEval e cwd head prBase havePRBase chk files =
     (if list_ex (\<lambda>l. has_prefix l ''.github/workflows/'') (lines_of files)
      then return_k (PFUnknown ''the PR changes .github/workflows (its own filters cannot exempt it)'')
      else bind_k (pfTree e cwd head ''head'' chk files) (\<lambda>h.
        if \<not> is_skip h then return_k h
        else bind_k (if havePRBase then pfTree e cwd prBase ''base'' chk files else return_k PFNone) (\<lambda>b.
          return_k (if \<not> is_skip b then b else h))))"

section \<open>An exemption is earned\<close>

text \<open>A workflow that carries the check and does not run it for these files.\<close>

definition exempts :: "string \<Rightarrow> string \<Rightarrow> string \<Rightarrow> bool" where
  "exempts chk files src \<longleftrightarrow>
     (let sc = pfScanWorkflow (cmdSub src) (awkVar chk); pats = filter (\<lambda>p. p \<noteq> []) (lines_of (cmdSub (join_with [newline_char] (sc_pats sc))))
      in sc_job sc \<and> sc_pr sc \<and> sc_unsup sc = [] \<and> sc_other sc = [] \<and> \<not> sc_ignore sc \<and> \<not> sc_flow sc \<and> pats \<noteq> [] \<and>
         (\<forall>p \<in> set pats. pfPatOK p \<and> (\<not> str_contains p ds_marker \<longrightarrow> (\<forall>l \<in> set (lines_of files). \<not> glob_matches (glob_toks p) l))))"

definition unrelated :: "string \<Rightarrow> string \<Rightarrow> bool" where
  "unrelated chk src \<longleftrightarrow> sc_unsup (pfScanWorkflow (cmdSub src) (awkVar chk)) = [] \<and> \<not> sc_job (pfScanWorkflow (cmdSub src) (awkVar chk))"

definition shown :: "string \<Rightarrow> string \<Rightarrow> string \<Rightarrow> history \<Rightarrow> string \<Rightarrow> bool" where
  "shown cwd tree wfl h src \<longleftrightarrow> (\<exists>r. (Git cwd [''show'', tree @ '':'' @ wfl], r) \<in> set h \<and> rp_rc r = 0 \<and> rp_out r = src)"

definition listed :: "string \<Rightarrow> string \<Rightarrow> history \<Rightarrow> string list \<Rightarrow> bool" where
  "listed cwd tree h wfs \<longleftrightarrow>
     (\<exists>r. (Git cwd [''ls-tree'', ''--name-only'', tree, ''.github/workflows/''], r) \<in> set h \<and>
        wfs = lines_of (cmdSub (join_with [newline_char] (filter yamlName (lines_of (cmdSub (rp_out r)))))))"

text \<open>Every workflow of the tree was read; each carries the check and does not run it, or has nothing to do with it; one carries it.\<close>

definition tree_exempts :: "string \<Rightarrow> string \<Rightarrow> string \<Rightarrow> string \<Rightarrow> history \<Rightarrow> bool" where
  "tree_exempts cwd tree chk files h \<longleftrightarrow>
     (\<exists>wfs. listed cwd tree h wfs \<and> (\<forall>wfl \<in> set wfs. \<exists>src. shown cwd tree wfl h src \<and> (exempts chk files src \<or> unrelated chk src)) \<and>
        (\<exists>wfl \<in> set wfs. \<exists>src. shown cwd tree wfl h src \<and> exempts chk files src))"

lemma pats_loop_clean: "pats_loop files ps bad = (False, []) \<Longrightarrow> bad = [] \<and> (\<forall>p \<in> set ps. p \<noteq> [] \<longrightarrow> pfPatOK p \<and> \<not> pfAnyLine p files)"
  by (induction ps arbitrary: bad) (auto split: if_splits)

lemma chomp_lines: "chomp s \<noteq> [] \<Longrightarrow> filter (\<lambda>p. p \<noteq> []) (lines_of (chomp s)) \<noteq> []"
proof -
  have part: "x \<in> set s \<Longrightarrow> x \<noteq> c \<Longrightarrow> \<exists>p \<in> set (split_on c s). x \<in> set p" for x c :: char and s
    by (induction s) (auto split: list.splits)
  assume ne: "chomp s \<noteq> []"
  then have "last (chomp s) \<noteq> newline_char"
    using hd_dropWhile[of "\<lambda>c. c \<in> set [newline_char]" "rev s"] by (simp add: chomp_def trim_right_def trim_left_def last_rev)
  then obtain p where "p \<in> set (lines_of (chomp s))" "last (chomp s) \<in> set p"
    using part[of "last (chomp s)" "chomp s" newline_char] ne by (auto simp: lines_of_def)
  then have "p \<in> set (filter (\<lambda>p. p \<noteq> []) (lines_of (chomp s)))"
    by auto
  then show ?thesis
    by (metis empty_iff set_empty)
qed

lemma judge_skip: "judge_workflow label chk files wfl src = WfSkip \<Longrightarrow> exempts chk files src"
proof -
  assume j: "judge_workflow label chk files wfl src = WfSkip"
  define sc where "sc = pfScanWorkflow (cmdSub src) (awkVar chk)"
  define pats where "pats = cmdSub (join_with [newline_char] (sc_pats sc))"
  have sc: "sc_job sc" "sc_pr sc" "sc_unsup sc = []" "sc_other sc = []" "\<not> sc_ignore sc" "\<not> sc_flow sc"
    and p: "judge_paths label wfl files (sc_pats sc) = WfSkip"
    using j by (auto simp: judge_workflow_def sc_def Let_def split: if_splits)
  then have "pats \<noteq> []" "pats_loop files (lines_of pats) [] = (False, [])"
    by (auto simp: judge_paths_def pats_def Let_def split: if_splits prod.splits)
  moreover from this(2) have "\<forall>p \<in> set (lines_of pats). p \<noteq> [] \<longrightarrow> pfPatOK p \<and> \<not> pfAnyLine p files"
    using pats_loop_clean by blast
  ultimately show ?thesis
    using sc chomp_lines unfolding exempts_def Let_def sc_def[symmetric] pats_def[symmetric]
    by (auto simp: pfAnyLine_def list_ex_iff lines_of_def pattern_exact pats_def cmdSub_def)
qed

lemma judge_other: "judge_workflow label chk files wfl src = WfOther \<Longrightarrow> unrelated chk src"
  by (auto simp: judge_workflow_def unrelated_def judge_paths_def Let_def split: if_splits prod.splits)


text \<open>The questions of the judgement read a tree.\<close>

fun reads_tree :: "action \<Rightarrow> bool" where
  "reads_tree (Git d as) \<longleftrightarrow> as \<noteq> [] \<and> hd as \<in> set [''ls-tree'', ''show'']"
| "reads_tree a = False"

definition judged :: "string \<Rightarrow> string \<Rightarrow> string \<Rightarrow> string \<Rightarrow> string list \<Rightarrow> bool \<Rightarrow> history \<Rightarrow> bool" where
  "judged cwd tree chk files wfs carried h \<longleftrightarrow>
     (\<forall>wfl \<in> set wfs. \<exists>src. shown cwd tree wfl h src \<and> (exempts chk files src \<or> unrelated chk src)) \<and>
     (carried \<or> (\<exists>wfl \<in> set wfs. \<exists>src. shown cwd tree wfl h src \<and> exempts chk files src))"

lemma shown_Cons: "shown cwd tree w h' s \<Longrightarrow> shown cwd tree w (x # h') s"
  by (auto simp: shown_def)

lemma judged_other: "shown cwd tree w h' s \<Longrightarrow> unrelated chk s \<Longrightarrow> judged cwd tree chk files wfs carried h' \<Longrightarrow>
    judged cwd tree chk files (w # wfs) carried h'"
  unfolding judged_def by auto

lemma judged_skip: "shown cwd tree w h' s \<Longrightarrow> exempts chk files s \<Longrightarrow> judged cwd tree chk files wfs True h' \<Longrightarrow>
    judged cwd tree chk files (w # wfs) carried h'"
  unfolding judged_def by auto

lemma judged_Cons: "judged cwd tree chk files wfs carried h' \<Longrightarrow> judged cwd tree chk files wfs carried (x # h')"
  unfolding judged_def by (blast intro: shown_Cons)

lemma wp_wf_loop:
  assumes "\<And>v h'. only reads_tree h' \<Longrightarrow> (\<And>ws. v = PFSkip ws \<Longrightarrow> judged cwd tree chk files wfs carried h' \<and> \<not> anyRun) \<Longrightarrow> Q v (noted k h')"
  shows "wp (wf_loop e cwd tree label chk files wfs carried anyRun skipped) Q E k"
  using assms
proof (induction wfs arbitrary: k carried anyRun skipped)
  case Nil
  show ?case
    using Nil[of "[]"] by (auto simp: judged_def)
next
  case (Cons wfl wfs)
  note Q = Cons.prems
  define a where "a = Git cwd [''show'', tree @ '':'' @ wfl]"
  have a: "reads_tree a" by (simp add: a_def)
  have seen: "shown cwd tree wfl ((a, r) # h') (rp_out r)" if "rp_rc r = 0" for r h'
    using that by (auto simp: shown_def a_def)
  have next': "wp (wf_loop e cwd tree label chk files wfs c n sk) Q E (noted k [(a, r)])"
    if "\<And>h'. judged cwd tree chk files wfs c h' \<Longrightarrow> \<not> n \<Longrightarrow> judged cwd tree chk files (wfl # wfs) carried ((a, r) # h') \<and> \<not> anyRun" for c n sk r
  proof (rule Cons.IH)
    fix v h'
    assume "only reads_tree h'" "\<And>ws. v = PFSkip ws \<Longrightarrow> judged cwd tree chk files wfs c h' \<and> \<not> n"
    then show "Q v (noted (noted k [(a, r)]) h')"
      using Q[of "(a, r) # h'" v] that[of h'] a by simp
  qed
  have stop: "Q (PFUnknown w) (noted k [(a, r)])" for w r
    by (rule Q) (use a in simp_all)
  let ?rest = "\<lambda>src. case src of None \<Rightarrow> return_k (PFUnknown (''cannot read '' @ wfl @ '' in the '' @ label @ '' tree''))
     | Some s \<Rightarrow>
         (case judge_workflow label chk files wfl s of
            WfOther \<Rightarrow> wf_loop e cwd tree label chk files wfs carried anyRun skipped
          | WfRun \<Rightarrow> wf_loop e cwd tree label chk files wfs True True skipped
          | WfSkip \<Rightarrow> wf_loop e cwd tree label chk files wfs True anyRun (skipped @ [wfl])
          | WfUnknown why \<Rightarrow> return_k (PFUnknown why))"
  have "wp (?rest (if rp_rc r = 0 then Some (rp_out r) else None)) Q E (noted k [(a, r)])" for r
  proof (cases "rp_rc r = 0")
    case True
    show ?thesis
    proof (cases "judge_workflow label chk files wfl (rp_out r)")
      case WfOther
      then have "wp (wf_loop e cwd tree label chk files wfs carried anyRun skipped) Q E (noted k [(a, r)])"
        by (intro next') (metis judge_other judged_other judged_Cons seen True)
      then show ?thesis using WfOther True by simp
    next
      case WfRun
      have "wp (wf_loop e cwd tree label chk files wfs True True skipped) Q E (noted k [(a, r)])"
        by (rule next') blast
      then show ?thesis using WfRun True by simp
    next
      case WfSkip
      have "wp (wf_loop e cwd tree label chk files wfs True anyRun (skipped @ [wfl])) Q E (noted k [(a, r)])"
        by (intro next') (metis judge_skip WfSkip judged_skip judged_Cons seen True)
      then show ?thesis using WfSkip True by simp
    next
      case (WfUnknown why)
      then show ?thesis using True stop[of why r] by simp
    qed
  next
    case False
    then show ?thesis using stop[of "''cannot read '' @ wfl @ '' in the '' @ label @ '' tree''" r] by simp
  qed
  then show ?case
    unfolding wf_loop.simps Show_def wp_bind wp_return a_def by (intro wp_ask)
qed

lemma wp_pfTree:
  assumes "\<And>v h'. only reads_tree h' \<Longrightarrow> (\<And>ws. v = PFSkip ws \<Longrightarrow> tree_exempts cwd tree chk files h') \<Longrightarrow> Q v (noted k h')"
  shows "wp (pfTree e cwd tree label chk files) Q E k"
proof -
  let ?a = "Git cwd [''ls-tree'', ''--name-only'', tree, ''.github/workflows/'']"
  have "wp (wf_loop e cwd tree label chk files (lines_of w) False False []) Q E (noted k [(?a, r)])"
    if "w = cmdSub (join_with [newline_char] (filter yamlName (lines_of (cmdSub (rp_out r)))))" for r w
  proof (rule wp_wf_loop)
    fix v h'
    assume h: "only reads_tree h'" "\<And>ws. v = PFSkip ws \<Longrightarrow> judged cwd tree chk files (lines_of w) False h' \<and> \<not> False"
    have "tree_exempts cwd tree chk files ((?a, r) # h')" if "v = PFSkip ws" for ws
      using judged_Cons[of cwd tree chk files "lines_of w" False h' "(?a, r)"] h(2)[OF that] \<open>w = _\<close>
      unfolding tree_exempts_def judged_def listed_def by (intro exI[of _ "lines_of w"]) auto
    then show "Q v (noted (noted k [(?a, r)]) h')"
      using assms[of "(?a, r) # h'" v] h(1) by simp
  qed
  moreover have "Q (PFUnknown w) (noted k [(?a, r)])" for w r
    by (rule assms) simp_all
  ultimately show ?thesis
    unfolding pfTree_def LsTree_def wp_bind
    by (intro wp_ask) (auto simp: Let_def cmdSub_def stripNUL_def chomp_def trim_right_def lines_of_def yamlName_def has_suffix_def has_prefix_def)
qed

lemma tree_exempts_mono:
  assumes "set h \<subseteq> set h'" "tree_exempts cwd tree chk files h"
  shows "tree_exempts cwd tree chk files h'"
proof -
  have "shown cwd tree w h s \<Longrightarrow> shown cwd tree w h' s" "listed cwd tree h ws \<Longrightarrow> listed cwd tree h' ws" for w s ws
    using assms(1) unfolding shown_def listed_def by blast+
  then show ?thesis
    using assms(2) unfolding tree_exempts_def by blast
qed

lemma tree_exempts_append: "tree_exempts cwd tree chk files h1 \<Longrightarrow> tree_exempts cwd tree chk files (h1 @ h2)"
  "tree_exempts cwd tree chk files h2 \<Longrightarrow> tree_exempts cwd tree chk files (h1 @ h2)"
  by (erule tree_exempts_mono[rotated], simp)+

definition exempted :: "string \<Rightarrow> string \<Rightarrow> string \<Rightarrow> string \<Rightarrow> string \<Rightarrow> history \<Rightarrow> bool" where
  "exempted cwd head prBase chk files h \<longleftrightarrow>
     (\<forall>l \<in> set (lines_of files). \<not> has_prefix l ''.github/workflows/'') \<and> tree_exempts cwd head chk files h \<and> tree_exempts cwd prBase chk files h"

lemma exempted_append: "exempted cwd head prBase chk files h1 \<Longrightarrow> exempted cwd head prBase chk files (h1 @ h2)"
  "exempted cwd head prBase chk files h2 \<Longrightarrow> exempted cwd head prBase chk files (h1 @ h2)"
  by (auto simp: exempted_def tree_exempts_append)

lemma wp_pfEval:
  assumes "\<And>v h'. only reads_tree h' \<Longrightarrow> (\<And>ws. v = PFSkip ws \<Longrightarrow> have' \<and> exempted cwd head prBase chk files h') \<Longrightarrow> Q v (noted k h')"
  shows "wp (pfEval e cwd head prBase have' chk files) Q E k"
proof (cases "list_ex (\<lambda>l. has_prefix l ''.github/workflows/'') (lines_of files)")
  case True
  have "Q (PFUnknown w) k" for w
    using assms[of "[]" "PFUnknown w"] by simp
  then show ?thesis
    using True by (simp add: pfEval_def)
next
  case False
  then have fl: "\<forall>l \<in> set (lines_of files). \<not> has_prefix l ''.github/workflows/''"
    by (simp add: list_ex_iff)
  have Q: "Q v (noted k h')" if "only reads_tree h'" "\<not> is_skip v" for v h'
    by (rule assms) (use that in auto)
  have base: "wp (pfTree e cwd prBase ''base'' chk files) (\<lambda>b. wp (return_k (if \<not> is_skip b then b else v)) Q E) E (noted k h')"
    if h': "only reads_tree h'" "tree_exempts cwd head chk files h'" and "have'" for v h'
  proof (rule wp_pfTree)
    fix b h2
    assume h2: "only reads_tree h2" "\<And>ws. b = PFSkip ws \<Longrightarrow> tree_exempts cwd prBase chk files h2"
    show "wp (return_k (if \<not> is_skip b then b else v)) Q E (noted (noted k h') h2)"
    proof (cases b)
      case (PFSkip ws)
      then have "exempted cwd head prBase chk files (h' @ h2)"
        using h' h2 fl by (auto simp: exempted_def tree_exempts_append)
      then show ?thesis
        using PFSkip h' h2 \<open>have'\<close> by (auto intro!: assms)
    qed (use h' h2 in \<open>auto intro!: Q\<close>)
  qed
  show ?thesis
    unfolding pfEval_def if_not_P[OF False] wp_bind
  proof (rule wp_pfTree)
    fix v h'
    assume h': "only reads_tree h'" "\<And>ws. v = PFSkip ws \<Longrightarrow> tree_exempts cwd head chk files h'"
    show "wp (if \<not> is_skip v then return_k v else bind_k (if have' then pfTree e cwd prBase ''base'' chk files else return_k PFNone)
        (\<lambda>b. return_k (if \<not> is_skip b then b else v))) Q E (noted k h')"
    proof (cases v)
      case (PFSkip ws)
      then show ?thesis
        using base[of h' v] h' Q[of h' PFNone] by auto
    qed (use h' in \<open>auto intro!: Q\<close>)
  qed
qed


text \<open>
  C4. An exemption is earned. When the path filters excuse a required check, the run has a PR base, no changed file is a
  workflow, and in the head tree and in the base tree alike every workflow file was read: each carries no job of that name
  or carries it for pull requests only under path patterns of the supported forms none of which matches a changed file, and
  one does carry it. Everything else keeps the check required, and the judgement only reads the trees.
\<close>

theorem exemption_earned:
  assumes "pfEval e cwd head prBase have' chk files k = (Value (PFSkip ws), k')"
  shows "have' \<and> (\<exists>h. k' = noted k h \<and> only reads_tree h \<and> exempted cwd head prBase chk files h)"
proof -
  have "wp (pfEval e cwd head prBase have' chk files)
      (\<lambda>v k'. is_skip v \<longrightarrow> have' \<and> (\<exists>h. k' = noted k h \<and> only reads_tree h \<and> exempted cwd head prBase chk files h)) (\<lambda>c s k'. True) k"
    by (rule wp_pfEval) (auto elim: is_skip.elims)
  then show ?thesis
    unfolding wp_def assms by simp
qed

definition demo_workflow :: string where
  "demo_workflow = ''on:'' @ [newline_char] @ ''  pull_request:'' @ [newline_char] @ ''    paths:'' @ [newline_char] @ ''      - src/**'' @ [newline_char] @
     ''jobs:'' @ [newline_char] @ ''  lint:'' @ [newline_char] @ ''    runs-on: x'' @ [newline_char]"

definition demo_trees :: kit_env where
  "demo_trees = \<lparr>ke_reply = (\<lambda>h a. case a of
       Git d as \<Rightarrow> plain_reply (if hd as = ''ls-tree'' then ''ci.yml'' else demo_workflow) 0
     | _ \<Rightarrow> plain_reply [] 1), ke_pending = (\<lambda>h. False), ke_getenv = (\<lambda>v. [])\<rparr>"

lemma demo_judged: "judge_workflow ''head'' ''lint'' ''a.md'' ''ci.yml'' demo_workflow = WfSkip" "judge_workflow ''base'' ''lint'' ''a.md'' ''ci.yml'' demo_workflow = WfSkip"
  by code_simp+

lemma demo_listing: "cmdSub ''ci.yml'' = ''ci.yml''" "lines_of ''ci.yml'' = [''ci.yml'']" "filter yamlName [''ci.yml''] = [''ci.yml'']"
    "list_ex (\<lambda>l. has_prefix l ''.github/workflows/'') (lines_of ''a.md'') = False"
  by code_simp+

lemma demo_exempts:
  "fst (pfEval demo_trees ''w'' ''H'' ''B'' True ''lint'' ''a.md'' \<lparr>kt_state = (), kt_hist = []\<rparr>) = Value (PFSkip [''ci.yml''])"
  unfolding pfEval_def demo_listing pfTree_def LsTree_def Show_def
  by (simp add: demo_listing[simplified] demo_judged[simplified] LsTree_def Show_def run_defs demo_trees_def)

theorem exemption_earned_witness: "\<exists>h. only reads_tree h \<and> exempted ''w'' ''H'' ''B'' ''lint'' ''a.md'' h"
  using exemption_earned[of demo_trees "''w''" "''H''" "''B''" True "''lint''" "''a.md''" _ "[''ci.yml'']", OF prod_eqI] demo_exempts
  by (metis fst_conv snd_conv)

end
