(* ===== verification/Merge_Gate.thy ===== *)
theory Merge_Gate
  imports Check_Runs Path_Filter
begin

text \<open>
  \<open>rsdd gate merge\<close> (\<open>internal/gate/merge{,exec,finish,closure}.go\<close>): never merge a candidate before its review, and merge only
  the exact head whose checks are green. The run of the gate as a program over the answers of git, gh and gentle-ai, and the
  closure evidence posted after a merge. The check runs are in \<open>Check_Runs\<close>, the path filters in \<open>Path_Filter\<close>.
\<close>

section \<open>Arguments\<close>

record mg_opts =
  mo_cwd :: string
  mo_base :: string
  mo_wantHead :: string
  mo_pr :: string
  mo_doMerge :: bool
  mo_noEvidence :: bool
  mo_required :: string

text \<open>The last entry of a variable wins.\<close>

definition environLookup :: "string list \<Rightarrow> string \<Rightarrow> string option" where
  "environLookup environ key =
     map_option (\<lambda>v. drop (length key + 1) v) (find (\<lambda>v. has_prefix v (key @ ''='')) (rev environ))"

definition mg_defaults :: "string list \<Rightarrow> mg_opts" where
  "mg_defaults environ =
     \<lparr>mo_cwd = [], mo_base = [], mo_wantHead = [], mo_pr = [], mo_doMerge = False, mo_noEvidence = False,
      mo_required = (case environLookup environ ''MERGE_GATE_REQUIRED_CHECKS'' of None \<Rightarrow> ''shellcheck,toolbelt-tests'' | Some v \<Rightarrow> v)\<rparr>"

definition value_flags :: "string list" where
  "value_flags = [''--pr'', ''--cwd'', ''--base-ref'', ''--head'', ''--merge'', ''--required-checks'']"

definition set_flag :: "string \<Rightarrow> string \<Rightarrow> mg_opts \<Rightarrow> mg_opts" where
  "set_flag a v g =
     (if a = ''--pr'' then g\<lparr>mo_pr := v\<rparr>
      else if a = ''--cwd'' then g\<lparr>mo_cwd := v\<rparr>
      else if a = ''--base-ref'' then g\<lparr>mo_base := v\<rparr>
      else if a = ''--head'' then g\<lparr>mo_wantHead := v\<rparr>
      else if a = ''--merge'' then g\<lparr>mo_pr := v, mo_doMerge := True\<rparr>
      else g\<lparr>mo_required := v\<rparr>)"

fun parse_flags :: "mg_opts \<Rightarrow> string list \<Rightarrow> mg_opts option" where
  "parse_flags g [] = Some g"
| "parse_flags g (a # rest) =
     (if a \<in> set value_flags then (case rest of [] \<Rightarrow> None | v # rest' \<Rightarrow> parse_flags (set_flag a v g) rest')
      else if a = ''--no-closure-evidence'' then parse_flags (g\<lparr>mo_noEvidence := True\<rparr>) rest
      else None)"

definition mg_parseArgs :: "string list \<Rightarrow> string list \<Rightarrow> mg_opts option" where
  "mg_parseArgs environ args =
     (case parse_flags (mg_defaults environ) args of
        None \<Rightarrow> None
      | Some g \<Rightarrow>
          if mo_cwd g = [] then None
          else if mo_base g = [] then None
          else if mo_pr g \<noteq> [] \<and> \<not> all_digits (mo_pr g) then None
          else Some g)"

section \<open>The run\<close>

text \<open>
  A run stops with its exit code and the verdict: 1 refuse, 2 usage, 3 degraded. A broken instrument is degraded, never an
  allow.
\<close>

definition degraded :: "('s, 'a) prog" where
  "degraded = stop_k 3 ''degraded''"

definition refuse :: "string \<Rightarrow> ('s, 'a) prog" where
  "refuse why = stop_k 1 why"

definition mg_git :: "kit_env \<Rightarrow> mg_opts \<Rightarrow> string list \<Rightarrow> ('s, string \<times> bool) prog" where
  "mg_git e g args = bind_k (ask e (Git (mo_cwd g) args)) (\<lambda>r. return_k (cmdSub (rp_out r), rp_rc r = 0))"

definition need_git :: "kit_env \<Rightarrow> mg_opts \<Rightarrow> string list \<Rightarrow> ('s, string) prog" where
  \<comment> \<open>a git answer the gate cannot do without\<close>
  "need_git e g args = bind_k (mg_git e g args) (\<lambda>(out, ok). if ok then return_k out else degraded)"

primrec mg_probe :: "kit_env \<Rightarrow> string list \<Rightarrow> ('s, unit) prog" where
  "mg_probe e [] = return_k ()"
| "mg_probe e (tool # tools) = bind_k (os_ok e ''lookpath'' tool) (\<lambda>found. if \<not> found then degraded else mg_probe e tools)"

definition mg_ref :: "string \<Rightarrow> string" where
  "mg_ref r = r @ ''^{commit}''"

text \<open>The requested head is the one checked out.\<close>

definition check_head :: "kit_env \<Rightarrow> mg_opts \<Rightarrow> string \<Rightarrow> ('s, unit) prog" where
  "check_head e g head =
     (if mo_wantHead g = [] then return_k ()
      else bind_k (need_git e g [''rev-parse'', ''--verify'', ''--quiet'', mg_ref (mo_wantHead g)]) (\<lambda>full.
        if full \<noteq> head then refuse ''head_mismatch'' else return_k ()))"

definition merge_base :: "kit_env \<Rightarrow> mg_opts \<Rightarrow> ('s, string) prog" where
  "merge_base e g =
     bind_k (need_git e g [''merge-base'', ''HEAD'', mo_base g]) (\<lambda>mb. if mb = [] then degraded else return_k mb)"

definition check_range :: "kit_env \<Rightarrow> mg_opts \<Rightarrow> string \<Rightarrow> ('s, unit) prog" where
  "check_range e g mb =
     bind_k (need_git e g [''rev-list'', ''--count'', mb @ ''..HEAD'']) (\<lambda>ahead.
       if ahead = [] \<or> \<not> all_digits ahead then degraded
       else if trim ''0'' ahead = [] then degraded
       else return_k ())"

definition pr_fields :: string where
  "pr_fields = ''{headRefOid:.head.sha, baseRefOid:.base.sha, baseRefName:.base.ref}''"

definition pr_query :: "mg_opts \<Rightarrow> action" where
  "pr_query g = Gh (mo_cwd g) [''api'', ''repos/{owner}/{repo}/pulls/'' @ mo_pr g, ''--jq'', pr_fields]"

definition pr_values :: "jq_env \<Rightarrow> reply \<Rightarrow> json list option" where
  "pr_values j r =
     (let prJSON = (if rp_rc r = 0 then cmdSub (rp_out r) else []) in if prJSON = [] then None else Some (fst (jqStream j prJSON)))"

text \<open>The head of the PR is the checked head, and the assessed range starts at or before its branch point. The PR base is returned.\<close>

definition bindPR :: "jq_env \<Rightarrow> kit_env \<Rightarrow> mg_opts \<Rightarrow> string \<Rightarrow> string \<Rightarrow> ('s, string) prog" where
  "bindPR j e g head mb =
     bind_k (ask e (pr_query g)) (\<lambda>r. case pr_values j r of
       None \<Rightarrow> degraded
     | Some vals \<Rightarrow>
         let prHead = jqEach vals (jqOptKey ''headRefOid''); prBase = jqEach vals (jqOptKey ''baseRefOid'')
         in if prHead = [] then degraded
            else if prHead \<noteq> head then refuse ''head_mismatch''
            else if prBase = [] then degraded
            else bind_k (need_git e g [''cat-file'', ''-e'', mg_ref prBase]) (\<lambda>_.
                 bind_k (need_git e g [''merge-base'', ''HEAD'', prBase]) (\<lambda>prMB.
                 bind_k (mg_git e g [''merge-base'', ''--is-ancestor'', mb, prMB]) (\<lambda>(_, isAncestor).
                 if \<not> isAncestor then refuse ''base_excludes_pr_commits'' else return_k prBase))))"

section \<open>The assessment\<close>

definition assess_query :: "mg_opts \<Rightarrow> string \<Rightarrow> action" where
  "assess_query g mb = GentleAI [''review'', ''assess'', ''--cwd'', mo_cwd g, ''--base-ref'', mb, ''--committed-only'', ''--json'']"

definition review_due :: "json \<Rightarrow> string option" where
  "review_due v =
     (case jqIndex v ''review_due'' of
        None \<Rightarrow> None
      | Some f \<Rightarrow> Some (if jqType f = ''boolean'' then jqRaw f else ''invalid''))"

definition known_reasons :: "string list" where
  "known_reasons = [''passive'', ''already_reviewed'', ''under_budget'']"

definition assess_schema :: string where "assess_schema = ''gentle-ai.review-assessment/v1''"

definition assess :: "jq_env \<Rightarrow> kit_env \<Rightarrow> mg_opts \<Rightarrow> string \<Rightarrow> string \<Rightarrow> ('s, string) prog" where
  "assess j e g head mb =
     bind_k (ask e (assess_query g mb)) (\<lambda>r.
       if rp_rc r \<noteq> 0 then degraded
       else bind_k (mg_git e g [''rev-parse'', ''--verify'', ''HEAD'']) (\<lambda>(headAfter, _).
         if headAfter \<noteq> head then degraded
         else
           let vals = fst (jqStream j (rp_out r)); due = jqEach vals review_due; reason = jqEach vals (jqOptKey ''review_due_reason'')
           in if \<not> hookReadable (jqStream j (rp_out r)) then degraded
              else if jqEach vals (jqOptKey ''schema'') \<noteq> assess_schema then degraded
              else if due \<noteq> ''true'' \<and> due \<noteq> ''false'' then degraded
              else if reason = [] then degraded
              else if due = ''true'' then refuse ''review_due''
              else if reason \<notin> set known_reasons then degraded
              else return_k reason))"

section \<open>The check runs of the head\<close>

definition runs_query :: "mg_opts \<Rightarrow> string \<Rightarrow> action" where
  "runs_query g head = Gh (mo_cwd g) [''api'', ''repos/{owner}/{repo}/commits/'' @ head @ ''/check-runs?per_page=100'', ''--paginate'']"

definition files_query :: "mg_opts \<Rightarrow> action" where
  "files_query g = Gh (mo_cwd g) [''api'', ''repos/{owner}/{repo}/pulls/'' @ mo_pr g @ ''/files?per_page=100'', ''--paginate'']"

definition page_items :: "json \<Rightarrow> json list option" where
  "page_items p = (case p of QArr items \<Rightarrow> Some items | _ \<Rightarrow> None)"

definition slurp_items :: "jq_env \<Rightarrow> string \<Rightarrow> json list option" where
  \<comment> \<open>the entries of the pages of a paginated array\<close>
  "slurp_items j raw =
     (case jqStream j raw of (pages, ok) \<Rightarrow> if \<not> ok \<or> pages = [] then None else map_option concat (those (map page_items pages)))"

definition file_names :: "json \<Rightarrow> string list option" where
  "file_names v =
     (case (jqIndex v ''filename'', jqIndex v ''previous_filename'') of
        (Some fn, Some prev) \<Rightarrow> Some (jqRaw fn # (if jqAbsent prev then [] else [jqRaw prev]))
      | _ \<Rightarrow> None)"

definition pr_file_list :: "jq_env \<Rightarrow> reply \<Rightarrow> (string \<times> nat) option" where
  "pr_file_list j r =
     (if rp_rc r \<noteq> 0 then None
      else case slurp_items j (cmdSub (rp_out r)) of None \<Rightarrow> None
           | Some entries \<Rightarrow> (case those (map file_names entries) of None \<Rightarrow> None
               | Some names \<Rightarrow> Some (cmdSub (join_with [newline_char] (concat names)), length entries)))"

definition prFiles :: "jq_env \<Rightarrow> kit_env \<Rightarrow> mg_opts \<Rightarrow> ('s, (string \<times> nat) option) prog" where
  "prFiles j e g = bind_k (ask e (files_query g)) (\<lambda>r. return_k (pr_file_list j r))"

primrec exempt_loop :: "kit_env \<Rightarrow> mg_opts \<Rightarrow> string \<Rightarrow> string \<Rightarrow> string \<Rightarrow> string list \<Rightarrow> ('s, string list) prog" where
  \<comment> \<open>the checks the path filters excuse\<close>
  "exempt_loop e g head prBase files [] = return_k []"
| "exempt_loop e g head prBase files (chk # chks) =
     (if chk = [] then exempt_loop e g head prBase files chks
      else bind_k (pfEval e (mo_cwd g) head prBase (mo_pr g \<noteq> []) chk files) (\<lambda>v.
        bind_k (exempt_loop e g head prBase files chks) (\<lambda>sk. return_k (if is_skip v then chk # sk else sk))))"

definition excused :: "jq_env \<Rightarrow> kit_env \<Rightarrow> mg_opts \<Rightarrow> string \<Rightarrow> string \<Rightarrow> string list \<Rightarrow> ('s, string list) prog" where
  "excused j e g head prBase missing =
     (let absent = cmdSub (join_with [newline_char] missing)
      in if absent = [] then return_k []
         else bind_k (prFiles j e g) (\<lambda>fs. case fs of
           None \<Rightarrow> return_k []
         | Some (files, nf) \<Rightarrow>
             if files = [] \<or> nf \<ge> 3000 then return_k [] else exempt_loop e g head prBase files (lines_of absent)))"

definition removeAll_of :: "string list \<Rightarrow> string list \<Rightarrow> string list" where
  "removeAll_of xs drop' = filter (\<lambda>v. v \<notin> set drop') xs"

definition ciGate :: "jq_env \<Rightarrow> kit_env \<Rightarrow> mg_opts \<Rightarrow> string \<Rightarrow> string \<Rightarrow> ('s, unit) prog" where
  "ciGate j e g head prBase =
     bind_k (ask e (runs_query g head)) (\<lambda>r.
       if rp_rc r \<noteq> 0 then degraded
       else case parseCheckRuns j (cmdSub (rp_out r)) of
         None \<Rightarrow> degraded
       | Some runs \<Rightarrow>
           let latest = fst (ciNormalize j runs); req = ciRequired (mo_required g)
           in bind_k (excused j e g head prBase (ciAbsent latest req)) (\<lambda>sk.
              let verdict = ciVerdict latest (removeAll_of req sk)
              in if verdict \<noteq> ''ok'' then refuse verdict else return_k ()))"

section \<open>The merge\<close>

definition asciiLower :: "string \<Rightarrow> string" where
  "asciiLower s = map (\<lambda>c. if CHR ''A'' \<le> c \<and> c \<le> CHR ''Z'' then char_of (of_char c + 32 :: nat) else c) s"

definition merge_query :: "mg_opts \<Rightarrow> string \<Rightarrow> action" where
  "merge_query g head = Gh (mo_cwd g) [''pr'', ''merge'', mo_pr g, ''--squash'', ''--match-head-commit'', head]"

definition head_rejected :: "reply \<Rightarrow> bool" where
  "head_rejected r \<longleftrightarrow>
     (let low = asciiLower (cmdSub (rp_out r @ rp_err r))
      in str_contains low ''head branch was modified'' \<or> str_contains low ''match-head-commit'' \<or> str_contains low ''head sha'')"

section \<open>Closure evidence\<close>

definition closureQuery :: string where
  "closureQuery = ''query($owner:String!,$name:String!,$pr:Int!){repository(owner:$owner,name:$name){nameWithOwner pullRequest(number:$pr){merged state mergeCommit{oid} closingIssuesReferences(first:50){totalCount nodes{number repository{nameWithOwner}}}}}}''"

definition slug_chars :: "char list" where
  "slug_chars = ''ABCDEFGHIJKLMNOPQRSTUVWXYZabcdefghijklmnopqrstuvwxyz0123456789._-''"

definition beforeSlash :: "string \<Rightarrow> string" where
  "beforeSlash s = takeWhile (\<lambda>c. c \<noteq> CHR ''/'') s"

definition afterSlash :: "string \<Rightarrow> string" where
  "afterSlash s = drop (length (beforeSlash s) + 1) s"

definition repoSlug :: "string \<Rightarrow> bool" where
  "repoSlug s \<longleftrightarrow> CHR ''/'' \<in> set s \<and> beforeSlash s \<noteq> [] \<and> set (beforeSlash s) \<subseteq> set slug_chars \<and>
     afterSlash s \<noteq> [] \<and> set (afterSlash s) \<subseteq> set slug_chars"

definition sha40 :: "string \<Rightarrow> bool" where
  "sha40 s \<longleftrightarrow> length s = 40 \<and> set s \<subseteq> set ''0123456789abcdefABCDEF''"

text \<open>The part after the last slash, and the part before it (the whole text when there is none).\<close>

definition lastPart :: "string \<Rightarrow> string" where
  "lastPart s = rev (takeWhile (\<lambda>c. c \<noteq> CHR ''/'') (rev s))"

definition beforeLast :: "string \<Rightarrow> string" where
  "beforeLast s = (if CHR ''/'' \<in> set s then rev (tl (dropWhile (\<lambda>c. c \<noteq> CHR ''/'') (rev s))) else s)"

definition testFile :: "string \<Rightarrow> bool" where
  "testFile n \<longleftrightarrow>
     (let rest = drop 13 n; dir = beforeLast rest; base = lastPart rest
      in has_prefix n ''research-sdd/'' \<and> CHR ''/'' \<in> set rest \<and> has_suffix base ''.test.sh'' \<and> length base > 8 \<and>
         (dir = ''tests'' \<or> has_suffix dir ''/tests'' \<and> length dir > 6))"

definition jsonStringIs :: "json \<Rightarrow> string \<Rightarrow> bool" where
  "jsonStringIs v want \<longleftrightarrow> jqString v = Some want"

text \<open>The verdict over the answer: shape, notmerged, nooid or ok; \<open>None\<close> where jq raises an error.\<close>

definition closureVerdict :: "json \<Rightarrow> string option" where
  "closureVerdict v =
     (case jqPath v [''data'', ''repository''] of None \<Rightarrow> None | Some r \<Rightarrow>
      case jqIndex r ''pullRequest'' of None \<Rightarrow> None | Some p \<Rightarrow>
      case jqIndex r ''nameWithOwner'' of None \<Rightarrow> None | Some nwo \<Rightarrow>
      if jqType nwo \<noteq> ''string'' \<or> jqType p \<noteq> ''object'' then Some ''shape''
      else case jqPath p [''closingIssuesReferences'', ''nodes''] of None \<Rightarrow> None | Some nodes \<Rightarrow>
      if jqType nodes \<noteq> ''array'' then Some ''shape''
      else case jqPath p [''closingIssuesReferences'', ''totalCount''] of None \<Rightarrow> None | Some count \<Rightarrow>
      if jqType count \<noteq> ''number'' then Some ''shape''
      else if member p ''merged'' \<noteq> QBool True \<or> \<not> jsonStringIs (member p ''state'') ''MERGED'' then Some ''notmerged''
      else case jqPath p [''mergeCommit'', ''oid''] of None \<Rightarrow> None | Some oid \<Rightarrow>
      let text = (if jqAbsent oid then [] else jqToString oid)
      in if \<not> sha40 (trim_suffix1 text newline_char) then Some ''nooid'' else Some ''ok'')"

definition whole :: "flt \<Rightarrow> bool" where
  \<comment> \<open>at least 1, and its own floor\<close>
  "whole f = (case f of NegInf \<Rightarrow> False | PosInf \<Rightarrow> True | Fin q \<Rightarrow> q \<ge> 1 \<and> of_int \<lfloor>q\<rfloor> = q)"

fun issue_lines :: "jq_env \<Rightarrow> string \<Rightarrow> bool \<Rightarrow> json list \<Rightarrow> string list" where
  "issue_lines j repo cross [] = []"
| "issue_lines j repo cross (n # ns) =
     (case jqPath n [''repository'', ''nameWithOwner''] of None \<Rightarrow> [] | Some nwo \<Rightarrow>
        let same = asciiLower (jqToString nwo) = asciiLower repo; num = member n ''number''
        in (if cross then (if same then [] else [jqToString nwo @ ''#'' @ jqToString num])
            else if same \<and> (case jqNumber j num of None \<Rightarrow> False | Some f \<Rightarrow> whole f) then [jqRaw num] else [])
           @ issue_lines j repo cross ns)"

definition closureIssues :: "jq_env \<Rightarrow> string \<Rightarrow> bool \<Rightarrow> json \<Rightarrow> string option" where
  "closureIssues j repo cross v =
     (case jqPath v [''data'', ''repository'', ''pullRequest'', ''closingIssuesReferences'', ''nodes''] of
        Some (QArr items) \<Rightarrow>
          (let out = issue_lines j repo cross items in if out = [] then None else Some (join_with [newline_char] out))
      | _ \<Rightarrow> None)"

fun uniq_by :: "('a \<Rightarrow> 'k) \<Rightarrow> 'a list \<Rightarrow> 'a list" where
  "uniq_by f [] = []"
| "uniq_by f [x] = [x]"
| "uniq_by f (x # y # xs) = (if f x = f y then uniq_by f (x # xs) else x # uniq_by f (y # xs))"

definition sortUniqNumeric :: "jq_env \<Rightarrow> string \<Rightarrow> string list" where
  "sortUniqNumeric j text =
     (let val = (\<lambda>s. fst (jq_float j (TrimSpace s)))
      in if text = [] then [] else uniq_by val (sort_key val (lines_of text)))"

definition changed_name :: "json \<Rightarrow> string list option" where
  "changed_name v =
     (case (jqIndex v ''status'', jqIndex v ''filename'') of
        (Some status, Some fn) \<Rightarrow> Some (if jsonStringIs status ''removed'' then [] else [jqRaw fn])
      | _ \<Rightarrow> None)"

definition changedTestFiles :: "jq_env \<Rightarrow> string \<Rightarrow> string list option" where
  "changedTestFiles j raw =
     (case slurp_items j raw of None \<Rightarrow> None
      | Some entries \<Rightarrow> (case those (map changed_name entries) of None \<Rightarrow> None
          | Some names \<Rightarrow> Some (sort (remdups (filter testFile (lines_of (cmdSub (join_with [newline_char] (concat names)))))))))"

text \<open>One repository for the whole step: the one the merge used.\<close>

definition merge_repo :: "kit_env \<Rightarrow> string list \<Rightarrow> mg_opts \<Rightarrow> ('s, string option) prog" where
  "merge_repo e environ g =
     (let ghRepo = (case environLookup environ ''GH_REPO'' of None \<Rightarrow> [] | Some v \<Rightarrow> v)
      in if ghRepo \<noteq> [] then return_k (Some (lastPart (beforeLast ghRepo) @ ''/'' @ lastPart ghRepo))
         else bind_k (ask e (GhBounded (mo_cwd g) [''repo'', ''view'', ''--json'', ''nameWithOwner'', ''-q'', ''.nameWithOwner''])) (\<lambda>r.
           return_k (if rp_rc r = 0 then Some (cmdSub (rp_out r)) else None)))"

definition evidence_query :: "mg_opts \<Rightarrow> string \<Rightarrow> action" where
  "evidence_query g repo =
     GhBounded (mo_cwd g) [''api'', ''graphql'', ''-F'', ''owner='' @ beforeSlash repo, ''-F'', ''name='' @ afterSlash repo, ''-F'', ''pr='' @ mo_pr g,
       ''-f'', ''query='' @ closureQuery]"

definition evidence_text :: "mg_opts \<Rightarrow> string \<Rightarrow> string list \<Rightarrow> string" where
  "evidence_text g msha tests =
     ''Closure evidence (merge-gate, PR #'' @ mo_pr g @ ''):'' @ [newline_char] @ ''- commit: '' @ msha @ [newline_char] @
     cmdSub (join_with [newline_char] (map (\<lambda>f. ''- test: '' @ f) (take 10 tests)))"

definition comment_on :: "mg_opts \<Rightarrow> string \<Rightarrow> string \<Rightarrow> string \<Rightarrow> action" where
  "comment_on g repo text issue = Gh (mo_cwd g) [''issue'', ''comment'', issue, ''--repo'', repo, ''--body'', text]"

primrec post_loop :: "kit_env \<Rightarrow> mg_opts \<Rightarrow> string \<Rightarrow> string \<Rightarrow> string list \<Rightarrow> ('s, string list) prog" where
  \<comment> \<open>the issues that could not be commented on\<close>
  "post_loop e g repo text [] = return_k []"
| "post_loop e g repo text (issue # issues) =
     bind_k (ask e (comment_on g repo text issue)) (\<lambda>r.
       bind_k (post_loop e g repo text issues) (\<lambda>failed. return_k (if rp_rc r = 0 then failed else issue # failed)))"

definition repo_files_query :: "mg_opts \<Rightarrow> string \<Rightarrow> action" where
  "repo_files_query g repo = Gh (mo_cwd g) [''api'', ''repos/'' @ repo @ ''/pulls/'' @ mo_pr g @ ''/files?per_page=100'', ''--paginate'']"

definition name_of_answer :: "json list \<Rightarrow> string" where
  "name_of_answer vals = jqEach vals (pathRaw [''data'', ''repository'', ''nameWithOwner''])"

definition merge_sha :: "json list \<Rightarrow> string" where
  "merge_sha vals = jqEach vals (pathRaw [''data'', ''repository'', ''pullRequest'', ''mergeCommit'', ''oid''])"

definition closed_issues :: "jq_env \<Rightarrow> string \<Rightarrow> json list \<Rightarrow> string list" where
  "closed_issues j repo vals = sortUniqNumeric j (jqEach vals (closureIssues j repo False))"

text \<open>The step never fails the run: it returns how it ended.\<close>

definition post_evidence :: "jq_env \<Rightarrow> kit_env \<Rightarrow> mg_opts \<Rightarrow> string \<Rightarrow> json list \<Rightarrow> ('s, string) prog" where
  "post_evidence j e g repo vals =
     (let issues = closed_issues j repo vals
      in if issues = [] then return_k ''none''
         else bind_k (ask e (repo_files_query g repo)) (\<lambda>fc.
           if rp_rc fc \<noteq> 0 then return_k ''degraded''
           else case changedTestFiles j (cmdSub (rp_out fc)) of None \<Rightarrow> return_k ''degraded'' | Some tests \<Rightarrow>
             if tests = [] then return_k ''not posted''
             else bind_k (post_loop e g repo (evidence_text g (merge_sha vals) tests) issues) (\<lambda>failed.
               return_k (if failed = [] then ''posted'' else ''degraded''))))"

definition closureEvidence :: "jq_env \<Rightarrow> kit_env \<Rightarrow> string list \<Rightarrow> mg_opts \<Rightarrow> ('s, string) prog" where
  "closureEvidence j e environ g =
     (if mo_noEvidence g then return_k ''skipped''
      else bind_k (merge_repo e environ g) (\<lambda>mr. case mr of None \<Rightarrow> return_k ''degraded'' | Some repo \<Rightarrow>
        if \<not> repoSlug repo then return_k ''degraded''
        else bind_k (ask e (evidence_query g repo)) (\<lambda>c.
          if rp_rc c \<noteq> 0 then return_k ''degraded''
          else let vals = fst (jqStream j (rp_out c))
            in if jqEach vals closureVerdict \<noteq> ''ok'' then return_k ''degraded''
               else if asciiLower (name_of_answer vals) \<noteq> asciiLower repo then return_k ''degraded''
               else post_evidence j e g repo vals)))"

section \<open>The whole run\<close>

definition mg_finish :: "jq_env \<Rightarrow> kit_env \<Rightarrow> string list \<Rightarrow> mg_opts \<Rightarrow> string \<Rightarrow> string \<Rightarrow> ('s, string) prog" where
  "mg_finish j e environ g head prBase =
     bind_k (if mo_doMerge g then ciGate j e g head prBase else return_k ()) (\<lambda>_.
       if mo_pr g = [] then return_k ''allow''
       else if \<not> mo_doMerge g then return_k ''allow''
       else bind_k (ask e (merge_query g head)) (\<lambda>c.
         if rp_rc c \<noteq> 0 then (if head_rejected c then refuse ''head_mismatch'' else degraded)
         else bind_k (closureEvidence j e environ g) (\<lambda>_. return_k ''merged'')))"

definition mg_tools :: "mg_opts \<Rightarrow> string list" where
  "mg_tools g = [''git'', ''jq'', ''gentle-ai''] @ (if mo_pr g \<noteq> [] then [''gh''] else [])"

definition mg_run :: "jq_env \<Rightarrow> kit_env \<Rightarrow> string list \<Rightarrow> string list \<Rightarrow> ('s, string) prog" where
  \<comment> \<open>the verdict of a run that ends with exit code 0: allow or merged\<close>
  "mg_run j e environ args =
     (case mg_parseArgs environ args of None \<Rightarrow> stop_k 2 ''usage'' | Some g \<Rightarrow>
      bind_k (mg_probe e (mg_tools g)) (\<lambda>_.
      bind_k (need_git e g [''rev-parse'', ''--git-dir'']) (\<lambda>_.
      bind_k (need_git e g [''rev-parse'', ''--verify'', ''HEAD'']) (\<lambda>head.
      bind_k (need_git e g [''rev-parse'', ''--verify'', ''--quiet'', mg_ref (mo_base g)]) (\<lambda>_.
      bind_k (check_head e g head) (\<lambda>_.
      bind_k (merge_base e g) (\<lambda>mb.
      bind_k (check_range e g mb) (\<lambda>_.
      bind_k (if mo_pr g \<noteq> [] then bindPR j e g head mb else return_k []) (\<lambda>prBase.
      bind_k (assess j e g head mb) (\<lambda>_.
      mg_finish j e environ g head prBase))))))))))"

section \<open>Stages\<close>

text \<open>The gate reads until it merges: git and REST reads, the probes and the assessment.\<close>

fun mg_reads :: "action \<Rightarrow> bool" where
  "mg_reads (Git d as) \<longleftrightarrow> as \<noteq> [] \<and> hd as \<in> set [''rev-parse'', ''merge-base'', ''rev-list'', ''cat-file'', ''ls-tree'', ''show'']"
| "mg_reads (Gh d as) \<longleftrightarrow> as \<noteq> [] \<and> hd as = ''api''"
| "mg_reads (GhBounded d as) \<longleftrightarrow> as \<noteq> [] \<and> hd as \<in> set [''api'', ''repo'']"
| "mg_reads (GentleAI as) = True"
| "mg_reads (Os what p) = True"
| "mg_reads a = False"

text \<open>A stage reads, stops with a refusal or a degraded verdict, or ends with a value its history justifies.\<close>

definition mg_stage :: "('s, 'a) prog \<Rightarrow> ('a \<Rightarrow> history \<Rightarrow> bool) \<Rightarrow> bool" where
  "mg_stage m P \<longleftrightarrow>
     (\<forall>k. wp m (\<lambda>x k'. \<exists>h. k' = noted k h \<and> only mg_reads h \<and> P x h) (\<lambda>c s k'. \<exists>h. k' = noted k h \<and> only mg_reads h \<and> c \<in> {1, 3}) k)"

lemma mgstage_return: "P x [] \<Longrightarrow> mg_stage (return_k x) P"
  unfolding mg_stage_def by (auto intro: exI[of _ "[]"])

lemma mgstage_refuse: "mg_stage (refuse s) P" "mg_stage degraded P"
  unfolding mg_stage_def refuse_def degraded_def by (auto intro: exI[of _ "[]"])

lemma mgstage_ask: "mg_reads a \<Longrightarrow> (\<And>r. P r [(a, r)]) \<Longrightarrow> mg_stage (ask e a) P"
  unfolding mg_stage_def by (auto intro!: wp_ask)

lemma mgstage_bind:
  assumes m: "mg_stage m P" and f: "\<And>x h. P x h \<Longrightarrow> mg_stage (f x) (\<lambda>y h'. Q y (h @ h'))"
  shows "mg_stage (bind_k m f) Q"
  unfolding mg_stage_def wp_bind
proof
  fix k
  have "wp (f x) (\<lambda>y k'. \<exists>h. k' = noted k h \<and> only mg_reads h \<and> Q y h) (\<lambda>c s k'. \<exists>h. k' = noted k h \<and> only mg_reads h \<and> c \<in> {1, 3}) (noted k h)"
    if "only mg_reads h" "P x h" for x h
    using f[OF that(2)] that(1) unfolding mg_stage_def
    by (elim allE[of _ "noted k h"], elim wp_mono) (metis noted_noted only_simps(3))+
  then show "wp m (\<lambda>x. wp (f x) (\<lambda>x k'. \<exists>h. k' = noted k h \<and> only mg_reads h \<and> Q x h) (\<lambda>c s k'. \<exists>h. k' = noted k h \<and> only mg_reads h \<and> c \<in> {1, 3}))
      (\<lambda>c s k'. \<exists>h. k' = noted k h \<and> only mg_reads h \<and> c \<in> {1, 3}) k"
    using m unfolding mg_stage_def by (elim allE[of _ k], elim wp_mono) auto
qed

lemma mgstage_if: "(b \<Longrightarrow> mg_stage m P) \<Longrightarrow> (\<not> b \<Longrightarrow> mg_stage n P) \<Longrightarrow> mg_stage (if b then m else n) P"
  by simp

lemma mgstage_option: "(v = None \<Longrightarrow> mg_stage m P) \<Longrightarrow> (\<And>x. v = Some x \<Longrightarrow> mg_stage (f x) P) \<Longrightarrow> mg_stage (case v of None \<Rightarrow> m | Some x \<Rightarrow> f x) P"
  by (cases v) auto

lemma mgstage_mono: "mg_stage m P \<Longrightarrow> (\<And>x h. P x h \<Longrightarrow> Q x h) \<Longrightarrow> mg_stage m Q"
  unfolding mg_stage_def by (blast intro: wp_mono)

section \<open>What a merge rests on\<close>

definition git_said :: "mg_opts \<Rightarrow> string list \<Rightarrow> string \<Rightarrow> action \<Rightarrow> reply \<Rightarrow> bool" where
  "git_said g args out a r \<longleftrightarrow> a = Git (mo_cwd g) args \<and> cmdSub (rp_out r) = out"

definition git_told :: "mg_opts \<Rightarrow> string list \<Rightarrow> string \<Rightarrow> action \<Rightarrow> reply \<Rightarrow> bool" where
  "git_told g args out a r \<longleftrightarrow> git_said g args out a r \<and> rp_rc r = 0"

definition pr_is :: "jq_env \<Rightarrow> mg_opts \<Rightarrow> string \<Rightarrow> string \<Rightarrow> action \<Rightarrow> reply \<Rightarrow> bool" where
  "pr_is j g head prBase a r \<longleftrightarrow> a = pr_query g \<and>
     (\<exists>vals. pr_values j r = Some vals \<and> jqEach vals (jqOptKey ''headRefOid'') = head \<and> jqEach vals (jqOptKey ''baseRefOid'') = prBase)"

definition not_due :: "jq_env \<Rightarrow> mg_opts \<Rightarrow> string \<Rightarrow> action \<Rightarrow> reply \<Rightarrow> bool" where
  "not_due j g mb a r \<longleftrightarrow> a = assess_query g mb \<and> rp_rc r = 0 \<and> hookReadable (jqStream j (rp_out r)) \<and>
     (let vals = fst (jqStream j (rp_out r))
      in jqEach vals (jqOptKey ''schema'') = assess_schema \<and> jqEach vals review_due = ''false'' \<and>
         jqEach vals (jqOptKey ''review_due_reason'') \<in> set known_reasons)"

definition checks_green :: "jq_env \<Rightarrow> mg_opts \<Rightarrow> string \<Rightarrow> string list \<Rightarrow> action \<Rightarrow> reply \<Rightarrow> bool" where
  "checks_green j g head sk a r \<longleftrightarrow> a = runs_query g head \<and> rp_rc r = 0 \<and>
     (\<exists>runs. parseCheckRuns j (cmdSub (rp_out r)) = Some runs \<and>
        green (fst (ciNormalize j runs)) (removeAll_of (ciRequired (mo_required g)) sk))"

definition excused_by :: "mg_opts \<Rightarrow> string \<Rightarrow> string \<Rightarrow> string list \<Rightarrow> history \<Rightarrow> bool" where
  "excused_by g head prBase sk h \<longleftrightarrow> (\<forall>c \<in> set sk. mo_pr g \<noteq> [] \<and> (\<exists>files. exempted (mo_cwd g) head prBase c files h))"

text \<open>
  HEAD, the merge base, the PR at that head, its base and branch point with the assessed range no later, an assessment from
  the merge base that is not due, HEAD unmoved, and the check runs of that head green except for the excused checks.
\<close>

definition bound_to :: "jq_env \<Rightarrow> mg_opts \<Rightarrow> string \<Rightarrow> string \<Rightarrow> string \<Rightarrow> (action \<Rightarrow> reply \<Rightarrow> bool) list" where
  "bound_to j g head mb prBase =
     [pr_is j g head prBase, \<lambda>a r. \<exists>prMB. git_told g [''merge-base'', ''HEAD'', prBase] prMB a r,
      \<lambda>a r. \<exists>prMB out. git_told g [''merge-base'', ''--is-ancestor'', mb, prMB] out a r]"

definition assessed :: "jq_env \<Rightarrow> mg_opts \<Rightarrow> string \<Rightarrow> string \<Rightarrow> (action \<Rightarrow> reply \<Rightarrow> bool) list" where
  "assessed j g head mb = [not_due j g mb, git_said g [''rev-parse'', ''--verify'', ''HEAD''] head]"

definition approved :: "jq_env \<Rightarrow> mg_opts \<Rightarrow> string \<Rightarrow> history \<Rightarrow> bool" where
  "approved j g head h \<longleftrightarrow>
     (\<exists>mb prBase sk.
        in_order ([git_told g [''rev-parse'', ''--verify'', ''HEAD''] head, git_told g [''merge-base'', ''HEAD'', mo_base g] mb] @
          bound_to j g head mb prBase @ assessed j g head mb @ [checks_green j g head sk]) h \<and>
        excused_by g head prBase sk h)"

lemma mgstage_git: "hd args \<in> set [''rev-parse'', ''merge-base'', ''rev-list'', ''cat-file'', ''ls-tree'', ''show''] \<Longrightarrow> args \<noteq> [] \<Longrightarrow>
    (\<And>r. P (cmdSub (rp_out r), rp_rc r = 0) [(Git (mo_cwd g) args, r)]) \<Longrightarrow> mg_stage (mg_git e g args) P"
  unfolding mg_git_def by (rule mgstage_bind[OF mgstage_ask[where P = "\<lambda>r h. h = [(Git (mo_cwd g) args, r)]"]]) (auto intro: mgstage_return)

lemma mgstage_need_git: "hd args \<in> set [''rev-parse'', ''merge-base'', ''rev-list'', ''cat-file'', ''ls-tree'', ''show''] \<Longrightarrow> args \<noteq> [] \<Longrightarrow>
    (\<And>r. rp_rc r = 0 \<Longrightarrow> P (cmdSub (rp_out r)) [(Git (mo_cwd g) args, r)]) \<Longrightarrow> mg_stage (need_git e g args) P"
  unfolding need_git_def
  by (rule mgstage_bind[OF mgstage_git[where P = "\<lambda>(out, ok) h. \<exists>r. out = cmdSub (rp_out r) \<and> ok = (rp_rc r = 0) \<and> h = [(Git (mo_cwd g) args, r)]"]])
    (auto intro!: mgstage_return mgstage_refuse split: prod.split)

lemma mgstage_probe: "mg_stage (mg_probe e tools) (\<lambda>_ h. True)"
proof (induction tools)
  case (Cons t tools)
  show ?case
    unfolding mg_probe.simps os_ok_def
    by (rule mgstage_bind[where P = "\<lambda>_ h. True"], rule mgstage_bind[OF mgstage_ask[where P = "\<lambda>_ h. True"]])
      (auto intro: mgstage_return mgstage_refuse mgstage_mono[OF Cons])
qed (auto intro: mgstage_return)

lemma mgstage_check_head: "mg_stage (check_head e g head) (\<lambda>_ h. True)"
  unfolding check_head_def
  by (intro mgstage_if mgstage_return mgstage_bind[OF mgstage_need_git[where P = "\<lambda>_ h. True"]]) (auto intro: mgstage_return mgstage_refuse)

lemma mgstage_merge_base: "mg_stage (merge_base e g) (\<lambda>mb h. in_order [git_told g [''merge-base'', ''HEAD'', mo_base g] mb] h)"
  unfolding merge_base_def
  by (rule mgstage_bind[OF mgstage_need_git[where P = "\<lambda>mb h. in_order [git_told g [''merge-base'', ''HEAD'', mo_base g] mb] h"]])
    (auto intro!: mgstage_return mgstage_refuse simp: git_told_def git_said_def)

lemma mgstage_check_range: "mg_stage (check_range e g mb) (\<lambda>_ h. True)"
  unfolding check_range_def
  by (rule mgstage_bind[OF mgstage_need_git[where P = "\<lambda>_ h. True"]]) (auto intro: mgstage_return mgstage_refuse)

lemma in_order_one: "p a r \<Longrightarrow> in_order [p] [(a, r)]"
  by simp

lemma in_order_join: "in_order ps h \<Longrightarrow> in_order qs h' \<Longrightarrow> rs = ps @ qs \<Longrightarrow> in_order rs (h @ h')"
  by (simp add: in_order_append)

lemma mgstage_bindPR: "mg_stage (bindPR j e g head mb) (\<lambda>prBase h. in_order (bound_to j g head mb prBase) h)"
proof -
  have tail: "mg_stage (bind_k (need_git e g [''cat-file'', ''-e'', mg_ref prBase]) (\<lambda>_.
      bind_k (need_git e g [''merge-base'', ''HEAD'', prBase]) (\<lambda>prMB.
      bind_k (mg_git e g [''merge-base'', ''--is-ancestor'', mb, prMB]) (\<lambda>(_, isAncestor).
      if \<not> isAncestor then refuse ''base_excludes_pr_commits'' else return_k prBase))))
      (\<lambda>pb h. pb = prBase \<and> in_order (tl (bound_to j g head mb prBase)) h)" for prBase
  proof (rule mgstage_bind[OF mgstage_need_git[where P = "\<lambda>_ h. True"]], simp, simp, simp,
      rule mgstage_bind[OF mgstage_need_git[where P = "\<lambda>prMB h. in_order [git_told g [''merge-base'', ''HEAD'', prBase] prMB] h"]], simp, simp)
    fix prMB h1 h2
    assume h: "in_order [git_told g [''merge-base'', ''HEAD'', prBase] prMB] h2"
    show "mg_stage (bind_k (mg_git e g [''merge-base'', ''--is-ancestor'', mb, prMB]) (\<lambda>(_, isAncestor).
        if \<not> isAncestor then refuse ''base_excludes_pr_commits'' else return_k prBase))
        (\<lambda>y h'. y = prBase \<and> in_order (tl (bound_to j g head mb prBase)) (h1 @ h2 @ h'))"
    proof (rule mgstage_bind[OF mgstage_git[where P = "\<lambda>(_, ok) h. ok \<longrightarrow> in_order [\<lambda>a r. \<exists>prMB out. git_told g [''merge-base'', ''--is-ancestor'', mb, prMB] out a r] h"]],
        simp, simp, force simp: git_told_def git_said_def, clarsimp, rule conjI, blast intro: mgstage_refuse, clarsimp, rule mgstage_return, clarsimp)
      fix h3
      assume "in_order [\<lambda>a r. \<exists>prMB out. git_told g [''merge-base'', ''--is-ancestor'', mb, prMB] out a r] h3"
      moreover have "in_order [\<lambda>a r. \<exists>prMB. git_told g [''merge-base'', ''HEAD'', prBase] prMB a r] h2"
        using h by (induction h2) auto
      ultimately show "in_order (tl (bound_to j g head mb prBase)) (h1 @ h2 @ h3)"
        by (simp only: bound_to_def list.sel) (rule in_order_append2, rule in_order_join, assumption+, simp)
    qed
  qed (simp add: git_told_def git_said_def)
  show ?thesis
    unfolding bindPR_def
  proof (rule mgstage_bind[OF mgstage_ask[where P = "\<lambda>r h. h = [(pr_query g, r)]"]], goal_cases)
    case (3 r h)
    have "mg_stage (bind_k (need_git e g [''cat-file'', ''-e'', mg_ref prBase]) (\<lambda>_.
      bind_k (need_git e g [''merge-base'', ''HEAD'', prBase]) (\<lambda>prMB.
      bind_k (mg_git e g [''merge-base'', ''--is-ancestor'', mb, prMB]) (\<lambda>(_, isAncestor).
      if \<not> isAncestor then refuse ''base_excludes_pr_commits'' else return_k prBase))))
      (\<lambda>pb h'. in_order (bound_to j g head mb pb) (h @ h'))"
      if "pr_values j r = Some vals" "jqEach vals (jqOptKey ''headRefOid'') = head" "jqEach vals (jqOptKey ''baseRefOid'') = prBase" for vals prBase
      by (rule mgstage_mono[OF tail]) (use that 3 in \<open>auto simp: bound_to_def pr_is_def\<close>)
    then show ?case
      unfolding Let_def by (intro mgstage_option mgstage_refuse mgstage_if) auto
  qed (simp_all add: pr_query_def)
qed

lemma mgstage_assess: "mg_stage (assess j e g head mb) (\<lambda>_ h. in_order (assessed j g head mb) h)"
  unfolding assess_def
proof (rule mgstage_bind[OF mgstage_ask[where P = "\<lambda>r h. h = [(assess_query g mb, r)]"]], goal_cases)
  case (3 r h)
  have P: "mg_stage (mg_git e g [''rev-parse'', ''--verify'', ''HEAD''])
      (\<lambda>(out, _) h. in_order [git_said g [''rev-parse'', ''--verify'', ''HEAD''] out] h)"
    by (rule mgstage_git) (simp_all add: git_said_def)
  show ?case
  proof (intro mgstage_if mgstage_refuse, rule mgstage_bind[OF P], goal_cases)
    case outer: (1 x h')
    obtain after ok where x: "x = (after, ok)" by (cases x)
    show ?case
      unfolding x prod.case Let_def
    proof (intro mgstage_if mgstage_refuse mgstage_return, goal_cases)
      case 1
      then have "not_due j g mb (assess_query g mb) r"
        using outer by (auto simp: not_due_def Let_def)
      then show ?case
        using 1 3 outer by (auto simp: x assessed_def)
    qed
  qed
qed (simp_all add: assess_query_def)

lemma reads_tree_mg: "only reads_tree h \<Longrightarrow> only mg_reads h"
  by (erule only_mono, erule reads_tree.elims) auto

lemma mgstage_pfEval: "mg_stage (pfEval e cwd head prBase have' chk files) (\<lambda>v h. is_skip v \<longrightarrow> have' \<and> exempted cwd head prBase chk files h)"
  unfolding mg_stage_def
  by (auto intro!: wp_pfEval intro: reads_tree_mg elim!: is_skip.elims(2))

lemma excused_by_append: "excused_by g head prBase sk h1 \<Longrightarrow> excused_by g head prBase sk (h1 @ h2)"
  "excused_by g head prBase sk h2 \<Longrightarrow> excused_by g head prBase sk (h1 @ h2)"
  unfolding excused_by_def by (meson exempted_append)+

lemma mgstage_exempt_loop: "mg_stage (exempt_loop e g head prBase files chks) (excused_by g head prBase)"
proof (induction chks)
  case Nil
  show ?case by (simp add: mgstage_return excused_by_def)
next
  case (Cons c chks)
  show ?case
    unfolding exempt_loop.simps
  proof (rule mgstage_if[OF Cons], rule mgstage_bind[OF mgstage_pfEval], rule mgstage_bind[where P = "excused_by g head prBase", OF Cons], rule mgstage_return)
    fix v h sk h'
    assume "is_skip v \<longrightarrow> mo_pr g \<noteq> [] \<and> exempted (mo_cwd g) head prBase c files h" "excused_by g head prBase sk h'"
    then show "excused_by g head prBase (if is_skip v then c # sk else sk) (h @ h' @ [])"
      using excused_by_append(2)[of g head prBase sk h' h] exempted_append(1)[of "mo_cwd g" head prBase c files h h'] by (auto simp: excused_by_def)
  qed
qed

lemma mgstage_excused: "mg_stage (excused j e g head prBase missing) (excused_by g head prBase)"
proof -
  have nil: "mg_stage (return_k []) (\<lambda>sk h'. excused_by g head prBase sk (h @ h'))" for h
    by (rule mgstage_return) (simp add: excused_by_def)
  show ?thesis
    unfolding excused_def Let_def prFiles_def
    by (intro mgstage_if, use nil[of "[]"] in simp, rule mgstage_bind[OF mgstage_bind[OF mgstage_ask[where P = "\<lambda>_ h. True"], where Q = "\<lambda>_ h. True"]])
      (auto simp: files_query_def intro!: mgstage_return nil mgstage_if mgstage_mono[OF mgstage_exempt_loop] excused_by_append(2) split: option.split)
qed

lemma mgstage_ciGate: "mg_stage (ciGate j e g head prBase) (\<lambda>_ h. \<exists>sk. in_order [checks_green j g head sk] h \<and> excused_by g head prBase sk h)"
  unfolding ciGate_def
proof (rule mgstage_bind[OF mgstage_ask[where P = "\<lambda>r h. h = [(runs_query g head, r)]"]], goal_cases)
  case (3 r h)
  show ?case
    unfolding Let_def
  proof (intro mgstage_if mgstage_option mgstage_refuse, rule mgstage_bind[OF mgstage_excused], intro mgstage_if mgstage_refuse mgstage_return, goal_cases)
    case (1 runs sk h')
    then have "checks_green j g head sk (runs_query g head) r"
      by (auto simp: checks_green_def ci_ok_green)
    then show ?case
      using 1 3 by (intro exI[of _ sk]) (use excused_by_append(2)[of g head prBase sk h' h] in simp)
  qed
qed (simp_all add: runs_query_def)

section \<open>The run up to the merge\<close>

text \<open>\<open>mg_run\<close> as a stage that reads, and what follows it: the merge and the evidence.\<close>

definition mg_verdict :: "jq_env \<Rightarrow> kit_env \<Rightarrow> mg_opts \<Rightarrow> ('s, string) prog" where
  \<comment> \<open>the head, when nothing speaks against the merge\<close>
  "mg_verdict j e g =
     bind_k (mg_probe e (mg_tools g)) (\<lambda>_.
      bind_k (need_git e g [''rev-parse'', ''--git-dir'']) (\<lambda>_.
      bind_k (need_git e g [''rev-parse'', ''--verify'', ''HEAD'']) (\<lambda>head.
      bind_k (need_git e g [''rev-parse'', ''--verify'', ''--quiet'', mg_ref (mo_base g)]) (\<lambda>_.
      bind_k (check_head e g head) (\<lambda>_.
      bind_k (merge_base e g) (\<lambda>mb.
      bind_k (check_range e g mb) (\<lambda>_.
      bind_k (if mo_pr g \<noteq> [] then bindPR j e g head mb else return_k []) (\<lambda>prBase.
      bind_k (assess j e g head mb) (\<lambda>_.
      bind_k (if mo_doMerge g then ciGate j e g head prBase else return_k ()) (\<lambda>_. return_k head))))))))))"

definition mg_merge :: "jq_env \<Rightarrow> kit_env \<Rightarrow> string list \<Rightarrow> mg_opts \<Rightarrow> string \<Rightarrow> ('s, string) prog" where
  "mg_merge j e environ g head =
     (if mo_pr g = [] then return_k ''allow''
      else if \<not> mo_doMerge g then return_k ''allow''
      else bind_k (ask e (merge_query g head)) (\<lambda>c.
         if rp_rc c \<noteq> 0 then (if head_rejected c then refuse ''head_mismatch'' else degraded)
         else bind_k (closureEvidence j e environ g) (\<lambda>_. return_k ''merged'')))"

lemma bind_k_assoc: "bind_k (bind_k m f) h = bind_k m (\<lambda>x. bind_k (f x) h)"
  by (rule ext) (simp add: bind_k_def split: prod.split outcome.split)

lemma bind_value: "bind_k (return_k x) f = f x"
  by (rule ext) (simp add: bind_k_def return_k_def)

lemma mg_run_split:
  "mg_run j e environ args =
     (case mg_parseArgs environ args of None \<Rightarrow> stop_k 2 ''usage''
      | Some g \<Rightarrow> bind_k (mg_verdict j e g) (mg_merge j e environ g))"
  unfolding mg_run_def mg_verdict_def mg_finish_def mg_merge_def bind_k_assoc bind_value
  ..

definition ready :: "jq_env \<Rightarrow> mg_opts \<Rightarrow> string \<Rightarrow> history \<Rightarrow> bool" where
  \<comment> \<open>what an allow rests on: without a PR, without the last two\<close>
  "ready j g head h \<longleftrightarrow>
     (\<exists>mb prBase sk.
        in_order ([git_told g [''rev-parse'', ''--verify'', ''HEAD''] head, git_told g [''merge-base'', ''HEAD'', mo_base g] mb] @
          (if mo_pr g \<noteq> [] then bound_to j g head mb prBase else []) @ assessed j g head mb @
          (if mo_doMerge g then [checks_green j g head sk] else [])) h \<and>
        excused_by g head prBase sk h)"

lemma ready_approved: "ready j g head h \<Longrightarrow> mo_pr g \<noteq> [] \<Longrightarrow> mo_doMerge g \<Longrightarrow> approved j g head h"
  by (simp add: ready_def approved_def)

lemma mgstage_verdict: "mg_stage (mg_verdict j e g) (ready j g)"
  unfolding mg_verdict_def
proof (rule mgstage_bind[OF mgstage_probe], rule mgstage_bind[OF mgstage_need_git[where P = "\<lambda>_ h. True"]], simp, simp, simp,
    rule mgstage_bind[OF mgstage_need_git[where P = "\<lambda>head h. in_order [git_told g [''rev-parse'', ''--verify'', ''HEAD''] head] h"]], simp, simp, simp add: git_told_def git_said_def,
    rule mgstage_bind[OF mgstage_need_git[where P = "\<lambda>_ h. True"]], simp, simp, simp, rule mgstage_bind[OF mgstage_check_head], rule mgstage_bind[OF mgstage_merge_base],
    rule mgstage_bind[OF mgstage_check_range], goal_cases)
  case (1 _ h0 _ h1 head h2 _ h3 _ h4 mb h5 _ h6)
  let ?pr = "\<lambda>prBase. if mo_pr g \<noteq> [] then bound_to j g head mb prBase else []"
  have pr: "mg_stage (if mo_pr g \<noteq> [] then bindPR j e g head mb else return_k []) (\<lambda>prBase h. in_order (?pr prBase) h)"
    by (auto intro: mgstage_bindPR mgstage_return)
  have ci: "mg_stage (if mo_doMerge g then ciGate j e g head prBase else return_k ())
      (\<lambda>_ h. \<exists>sk. in_order (if mo_doMerge g then [checks_green j g head sk] else []) h \<and> excused_by g head prBase sk h)" for prBase
    by (cases "mo_doMerge g") (simp_all add: mgstage_ciGate mgstage_return excused_by_def[of _ _ _ "[]"] exI[of _ "[]"])
  show ?case
  proof (rule mgstage_bind[OF pr], rule mgstage_bind[OF mgstage_assess], rule mgstage_bind[OF ci], rule mgstage_return, elim exE conjE, goal_cases)
    case (1 prBase h7 r h8 _ h9 sk)
    have "in_order ([git_told g [''rev-parse'', ''--verify'', ''HEAD''] head] @ [git_told g [''merge-base'', ''HEAD'', mo_base g] mb] @
        ?pr prBase @ assessed j g head mb @ (if mo_doMerge g then [checks_green j g head sk] else []))
        (h2 @ (h3 @ h4 @ h5) @ (h6 @ h7) @ h8 @ h9 @ [])"
      by (intro in_order_append in_order_append1 in_order_append2) (use 1 \<open>in_order _ h2\<close> \<open>in_order _ h5\<close> in auto)
    then have "in_order ([git_told g [''rev-parse'', ''--verify'', ''HEAD''] head, git_told g [''merge-base'', ''HEAD'', mo_base g] mb] @
        ?pr prBase @ assessed j g head mb @ (if mo_doMerge g then [checks_green j g head sk] else []))
        (h0 @ h1 @ h2 @ h3 @ h4 @ h5 @ h6 @ h7 @ h8 @ h9 @ [])"
      by (intro in_order_append2[of _ _ h0] in_order_append2[of _ _ h1]) simp
    moreover have "excused_by g head prBase sk (h0 @ h1 @ h2 @ h3 @ h4 @ h5 @ h6 @ h7 @ h8 @ h9 @ [])"
      using excused_by_append(2)[of g head prBase sk h9 "h0 @ h1 @ h2 @ h3 @ h4 @ h5 @ h6 @ h7 @ h8"] 1 by simp
    ultimately show ?case
      unfolding ready_def by blast
  qed
qed

section \<open>The evidence\<close>

fun is_pr_merge :: "action \<Rightarrow> bool" where
  "is_pr_merge (Gh d as) \<longleftrightarrow> take 2 as = [''pr'', ''merge'']"
| "is_pr_merge a = False"

fun is_comment :: "action \<Rightarrow> bool" where
  "is_comment (Gh d as) \<longleftrightarrow> take 2 as = [''issue'', ''comment'']"
| "is_comment a = False"

lemma mg_reads_only: "mg_reads a \<Longrightarrow> \<not> is_pr_merge a \<and> \<not> is_comment a"
  by (cases a) (auto simp: take_Suc numeral_2_eq_2)

definition merge_confirmed :: "jq_env \<Rightarrow> mg_opts \<Rightarrow> string \<Rightarrow> json list \<Rightarrow> action \<Rightarrow> reply \<Rightarrow> bool" where
  "merge_confirmed j g repo vals a r \<longleftrightarrow> a = evidence_query g repo \<and> rp_rc r = 0 \<and> vals = fst (jqStream j (rp_out r)) \<and>
     jqEach vals closureVerdict = ''ok'' \<and> asciiLower (name_of_answer vals) = asciiLower repo"

text \<open>Only reads; or, after GitHub confirmed the merge, one comment on each issue the PR closes in that repository.\<close>

definition evidence_ok :: "jq_env \<Rightarrow> mg_opts \<Rightarrow> history \<Rightarrow> bool" where
  "evidence_ok j g h \<longleftrightarrow> only mg_reads h \<or>
     (\<exists>repo vals tests h1 h2. h = h1 @ h2 \<and> only mg_reads h1 \<and> in_order [merge_confirmed j g repo vals] h1 \<and>
        repoSlug repo \<and> tests \<noteq> [] \<and> list_all testFile tests \<and>
        map fst h2 = map (comment_on g repo (evidence_text g (merge_sha vals) tests)) (closed_issues j repo vals))"

lemma wp_post_loop:
  "(\<And>failed h. map fst h = map (comment_on g repo text) issues \<Longrightarrow> Q failed (noted k h)) \<Longrightarrow> wp (post_loop e g repo text issues) Q E k"
proof (induction issues arbitrary: k Q)
  case Nil
  then show ?case
    using Nil[of "[]"] by simp
next
  case (Cons i issues)
  have "wp (post_loop e g repo text issues) (\<lambda>failed. wp (return_k (if rp_rc r = 0 then failed else i # failed)) Q E) E
      (noted k [(comment_on g repo text i, r)])" for r
    by (rule Cons.IH) (use Cons.prems[of "(comment_on g repo text i, r) # _"] in simp)
  then show ?case
    by (auto intro!: wp_ask)
qed

lemma changed_tests: "changedTestFiles j raw = Some tests \<Longrightarrow> list_all testFile tests"
  by (auto simp: changedTestFiles_def list_all_iff split: option.splits)

lemma wp_post_evidence:
  assumes "\<And>v h. evidence_ok j g (h0 @ h) \<Longrightarrow> Q v (noted k (h0 @ h))"
    and h0: "only mg_reads h0" "in_order [merge_confirmed j g repo vals] h0" and slug: "repoSlug repo"
  shows "wp (post_evidence j e g repo vals) Q E (noted k h0)"
proof -
  let ?q = "repo_files_query g repo"
  have stop: "Q v (noted k (h0 @ h))" if "only mg_reads h" for v h
    by (rule assms(1)) (use that h0 in \<open>simp add: evidence_ok_def\<close>)
  have q: "mg_reads ?q"
    by (simp add: repo_files_query_def)
  have post: "wp (post_loop e g repo (evidence_text g (merge_sha vals) tests) (closed_issues j repo vals))
      (\<lambda>failed. wp (return_k (f failed)) Q E) E (noted k (h0 @ [(?q, r)]))"
    if "tests \<noteq> []" "list_all testFile tests" for f r tests
  proof (rule wp_post_loop)
    fix failed and h :: history
    assume h: "map fst h = map (comment_on g repo (evidence_text g (merge_sha vals) tests)) (closed_issues j repo vals)"
    have "evidence_ok j g (h0 @ (?q, r) # h)"
      unfolding evidence_ok_def
      by (intro disjI2 exI[of _ repo] exI[of _ vals] exI[of _ tests] exI[of _ "h0 @ [(?q, r)]"] exI[of _ h])
        (use that h h0 q slug in \<open>simp add: in_order_append1\<close>)
    then show "wp (return_k (f failed)) Q E (noted (noted k (h0 @ [(?q, r)])) h)"
      using assms(1)[of "(?q, r) # h"] by simp
  qed
  show ?thesis
    unfolding post_evidence_def Let_def
    by (rule wp_branch) (use stop[of "[]"] stop q post changed_tests in \<open>auto intro!: wp_seq wp_ask wp_option\<close>)
qed

lemma wp_closureEvidence:
  assumes "\<And>v h. evidence_ok j g h \<Longrightarrow> Q v (noted k h)"
  shows "wp (closureEvidence j e environ g) Q E k"
proof -
  have stop: "Q v (noted k h)" if "only mg_reads h" for v h
    by (rule assms) (use that in \<open>simp add: evidence_ok_def\<close>)
  have ev: "wp (bind_k (ask e (evidence_query g repo)) (\<lambda>c.
          if rp_rc c \<noteq> 0 then return_k ''degraded''
          else let vals = fst (jqStream j (rp_out c))
            in if jqEach vals closureVerdict \<noteq> ''ok'' then return_k ''degraded''
               else if asciiLower (name_of_answer vals) \<noteq> asciiLower repo then return_k ''degraded''
               else post_evidence j e g repo vals)) Q E (noted k h)" if h: "only mg_reads h" "repoSlug repo" for repo h
  proof (rule wp_seq, rule wp_ask, unfold noted_noted Let_def, goal_cases)
    case (1 r)
    have "only mg_reads (h @ [(evidence_query g repo, r)])"
      using h by (simp add: evidence_query_def)
    then show ?case
      using stop h
      by (intro wp_branch) (auto intro!: wp_post_evidence assms in_order_append2 simp: merge_confirmed_def)
  qed
  have repo: "wp (merge_repo e environ g) (\<lambda>mr. wp (case mr of None \<Rightarrow> return_k ''degraded'' | Some repo \<Rightarrow>
        if \<not> repoSlug repo then return_k ''degraded'' else m repo) Q E) E k"
    if "\<And>h repo. only mg_reads h \<Longrightarrow> repoSlug repo \<Longrightarrow> wp (m repo) Q E (noted k h)" for m
    unfolding merge_repo_def Let_def using stop[of "[]"] stop that[of "[]"] that
    by (auto intro!: wp_ask split: option.split)
  show ?thesis
    unfolding closureEvidence_def wp_if wp_bind using stop[of "[]"] repo[OF ev] by simp
qed

section \<open>The run\<close>

definition merge_asked :: "jq_env \<Rightarrow> mg_opts \<Rightarrow> history \<Rightarrow> reply \<Rightarrow> history \<Rightarrow> bool" where
  \<comment> \<open>the reads that approve the merge, and the one merge request, of the head they approve\<close>
  "merge_asked j g h1 r h \<longleftrightarrow> mo_doMerge g \<and> mo_pr g \<noteq> [] \<and> only mg_reads h1 \<and>
     (\<exists>head. approved j g head h1 \<and> h = h1 @ [(merge_query g head, r)])"

definition run_allowed :: "jq_env \<Rightarrow> mg_opts \<Rightarrow> string \<Rightarrow> history \<Rightarrow> bool" where
  "run_allowed j g v h \<longleftrightarrow>
     v = ''allow'' \<and> (mo_pr g = [] \<or> \<not> mo_doMerge g) \<and> only mg_reads h \<and> (\<exists>head. ready j g head h) \<or>
     v = ''merged'' \<and> (\<exists>h1 r h2 h3. merge_asked j g h1 r h2 \<and> rp_rc r = 0 \<and> evidence_ok j g h3 \<and> h = h2 @ h3)"

definition run_stopped :: "jq_env \<Rightarrow> mg_opts option \<Rightarrow> int \<Rightarrow> history \<Rightarrow> bool" where
  "run_stopped j og c h \<longleftrightarrow>
     (case og of None \<Rightarrow> c = 2 \<and> h = []
      | Some g \<Rightarrow> c \<in> {1, 3} \<and> (only mg_reads h \<or> (\<exists>h1 r. merge_asked j g h1 r h \<and> rp_rc r \<noteq> 0)))"

lemma wp_mg_merge:
  assumes r: "ready j g head h0" "only mg_reads h0"
  shows "wp (mg_merge j e environ g head) (\<lambda>v k'. \<exists>h. k' = noted k h \<and> run_allowed j g v h)
    (\<lambda>c s k'. \<exists>h. k' = noted k h \<and> run_stopped j (Some g) c h) (noted k h0)" (is "wp _ ?Q ?E _")
proof -
  have allow: "?Q ''allow'' (noted k h0)" if "mo_pr g = [] \<or> \<not> mo_doMerge g"
    using that r by (auto simp: run_allowed_def)
  have asked: "merge_asked j g h0 c (h0 @ [(merge_query g head, c)])" if "mo_doMerge g" "mo_pr g \<noteq> []" for c
    using that r ready_approved by (auto simp: merge_asked_def intro!: exI[of _ head])
  have stop: "?E n s (noted k (h0 @ [(merge_query g head, c)]))"
    if "rp_rc c \<noteq> 0" "n \<in> {1, 3}" "mo_doMerge g" "mo_pr g \<noteq> []" for n s c
    using that asked[of c] by (auto simp: run_stopped_def)
  have ev: "wp (closureEvidence j e environ g) (\<lambda>_. wp (return_k ''merged'') ?Q ?E) ?E (noted k (h0 @ [(merge_query g head, c)]))"
    if "rp_rc c = 0" "mo_doMerge g" "mo_pr g \<noteq> []" for c
  proof (rule wp_closureEvidence)
    fix v h
    assume "evidence_ok j g h"
    then have "run_allowed j g ''merged'' ((h0 @ [(merge_query g head, c)]) @ h)"
      using that asked[of c] unfolding run_allowed_def by blast
    then show "wp (return_k ''merged'') ?Q ?E (noted (noted k (h0 @ [(merge_query g head, c)])) h)"
      by (auto simp del: append_assoc)
  qed
  have rest: "wp (bind_k (ask e (merge_query g head)) (\<lambda>c.
         if rp_rc c \<noteq> 0 then (if head_rejected c then refuse ''head_mismatch'' else degraded)
         else bind_k (closureEvidence j e environ g) (\<lambda>_. return_k ''merged''))) ?Q ?E (noted k h0)" if "mo_doMerge g" "mo_pr g \<noteq> []"
  proof (rule wp_seq, rule wp_ask, unfold noted_noted, rule wp_branch, goal_cases)
    case (1 r)
    then show ?case
      using stop[of r] that by (simp add: refuse_def degraded_def)
  next
    case (2 r)
    then show ?case
      unfolding wp_bind using that by (intro ev) simp_all
  qed
  show ?thesis
    unfolding mg_merge_def using allow rest by (intro wp_branch) simp_all
qed

lemma wp_mg_run:
  "wp (mg_run j e environ args) (\<lambda>v k'. \<exists>h. k' = noted k h \<and> (\<exists>g. mg_parseArgs environ args = Some g \<and> run_allowed j g v h))
    (\<lambda>c s k'. \<exists>h. k' = noted k h \<and> run_stopped j (mg_parseArgs environ args) c h) k"
proof (cases "mg_parseArgs environ args")
  case None
  then show ?thesis
    by (auto simp: mg_run_split run_stopped_def intro: exI[of _ "[]"])
next
  case (Some g)
  have "wp (mg_verdict j e g) (\<lambda>x k'. \<exists>h. k' = noted k h \<and> only mg_reads h \<and> ready j g x h)
      (\<lambda>c s k'. \<exists>h. k' = noted k h \<and> only mg_reads h \<and> c \<in> {1, 3}) k"
    using mgstage_verdict[of j e g] unfolding mg_stage_def by blast
  then have "wp (mg_verdict j e g)
      (\<lambda>x. wp (mg_merge j e environ g x) (\<lambda>v k'. \<exists>h. k' = noted k h \<and> run_allowed j g v h)
        (\<lambda>c s k'. \<exists>h. k' = noted k h \<and> run_stopped j (Some g) c h))
      (\<lambda>c s k'. \<exists>h. k' = noted k h \<and> run_stopped j (Some g) c h) k"
  proof (rule wp_mono)
    fix x k'
    assume "\<exists>h. k' = noted k h \<and> only mg_reads h \<and> ready j g x h"
    then show "wp (mg_merge j e environ g x) (\<lambda>v k'. \<exists>h. k' = noted k h \<and> run_allowed j g v h)
        (\<lambda>c s k'. \<exists>h. k' = noted k h \<and> run_stopped j (Some g) c h) k'"
      using wp_mg_merge by blast
  qed (auto simp: run_stopped_def)
  then show ?thesis
    by (simp add: mg_run_split Some)
qed

definition merges_approved :: "jq_env \<Rightarrow> mg_opts option \<Rightarrow> history \<Rightarrow> bool" where
  "merges_approved j og h \<longleftrightarrow> asked is_pr_merge h \<le> 1 \<and>
     (\<forall>i < length h. is_pr_merge (fst (h ! i)) \<longrightarrow>
        (\<exists>g head. og = Some g \<and> mo_doMerge g \<and> mo_pr g \<noteq> [] \<and> fst (h ! i) = merge_query g head \<and> approved j g head (take i h) \<and> only mg_reads (take i h)))"


lemma reads_no_merge: "only mg_reads h \<Longrightarrow> only (\<lambda>a. \<not> is_pr_merge a) h" "only mg_reads h \<Longrightarrow> only (\<lambda>a. \<not> is_comment a) h"
  by (auto elim!: only_mono dest: mg_reads_only)

lemma comments_no_merge: "map fst h = map (comment_on g repo text) issues \<Longrightarrow> only (\<lambda>a. \<not> is_pr_merge a) (h :: history)"
  by (induction h arbitrary: issues) (auto simp: comment_on_def numeral_2_eq_2)

lemma evidence_no_merge: "evidence_ok j g h \<Longrightarrow> only (\<lambda>a. \<not> is_pr_merge a) h"
  unfolding evidence_ok_def by (auto intro: reads_no_merge(1) comments_no_merge)

lemma no_merges_approved: "only (\<lambda>a. \<not> is_pr_merge a) h \<Longrightarrow> merges_approved j og h"
  by (auto simp: merges_approved_def asked_none only_def list_all_length)

lemma one_merge_approved:
  assumes "merge_asked j g h1 r h2" "only (\<lambda>a. \<not> is_pr_merge a) h3"
  shows "merges_approved j (Some g) (h2 @ h3)"
proof -
  obtain head where h: "mo_doMerge g" "mo_pr g \<noteq> []" "only mg_reads h1" "approved j g head h1" "h2 = h1 @ [(merge_query g head, r)]"
    using assms(1) by (auto simp: merge_asked_def)
  have no: "\<not> is_pr_merge (fst (h1 ! i))" if "i < length h1" for i
    using reads_no_merge(1)[OF h(3)] that by (auto simp: only_def list_all_length)
  have no3: "\<not> is_pr_merge (fst (h3 ! i))" if "i < length h3" for i
    using assms(2) that by (auto simp: only_def list_all_length)
  have "asked is_pr_merge (h2 @ h3) \<le> 1"
    using asked_none[OF reads_no_merge(1)[OF h(3)]] asked_none[OF assms(2)] by (simp add: h(5))
  moreover have at: "fst ((h2 @ h3) ! i) = merge_query g head \<and> take i (h2 @ h3) = h1" if "i < length (h2 @ h3)" "is_pr_merge (fst ((h2 @ h3) ! i))" for i
  proof (cases i "length h1" rule: linorder_cases)
    case greater
    then have "i - Suc (length h1) < length h3"
      using that(1) by (simp add: h(5))
    then show ?thesis
      using no3 that greater by (simp add: h(5) nth_append)
  next
    case equal
    then show ?thesis by (simp add: h(5))
  next
    case less
    then have "(h2 @ h3) ! i = h1 ! i" by (simp add: h(5) nth_append)
    then show ?thesis using no[OF less] that(2) by simp
  qed
  ultimately show ?thesis
    unfolding merges_approved_def
    by (intro conjI allI impI exI[of _ g] exI[of _ head]) (use h(1-4) at in simp_all)
qed

lemma run_merges_approved:
  "run_allowed j g v h \<Longrightarrow> merges_approved j (Some g) h"
  "run_stopped j og c h \<Longrightarrow> merges_approved j og h"
proof -
  show "merges_approved j (Some g) h" if "run_allowed j g v h"
    using that unfolding run_allowed_def
    by (auto intro: one_merge_approved evidence_no_merge no_merges_approved reads_no_merge)
  show "merges_approved j og h" if "run_stopped j og c h"
    using that one_merge_approved[of j _ _ _ h "[]"] unfolding run_stopped_def
    by (auto intro: no_merges_approved reads_no_merge split: option.splits)
qed

lemma run_history: "\<exists>h. snd (mg_run j e environ args k) = noted k h \<and>
    (case fst (mg_run j e environ args k) of
       Value v \<Rightarrow> \<exists>g. mg_parseArgs environ args = Some g \<and> run_allowed j g v h
     | Stopped c s \<Rightarrow> run_stopped j (mg_parseArgs environ args) c h)"
  using wp_mg_run[of j e environ args k] unfolding wp_def by (auto split: prod.splits outcome.splits)

text \<open>
  C2. Never merge before the review, and only the head that was checked. In every run of the merge gate, whatever git, gh and
  gentle-ai answer and whatever the outcome, a request to merge names the PR of the arguments and a head such that before it,
  in this order: HEAD was that head, the merge base with the base ref was found, the PR was read with that head and a base
  whose branch point the assessed range does not exclude, the assessment from the merge base succeeded with the known schema,
  review_due false and a known reason, HEAD was still that head, and the check runs of that head were green, except for
  required checks the path filters of both trees excuse. It is asked at most once, and before it the run only reads.
\<close>


theorem merge_only_approved:
  "\<exists>h. kt_hist (snd (mg_run j e environ args k)) = kt_hist k @ h \<and> merges_approved j (mg_parseArgs environ args) h"
  using run_history[of j e environ args k] run_merges_approved by (force split: outcome.splits)

text \<open>
  C38. How a run of the merge gate ends. Arguments it does not accept end it with exit code 2 before anything is asked. Every
  other stop has exit code 1 or 3, and either the run has only read or its one merge request was approved and failed. Exit
  code 0 is an allow, of a range or PR that was assessed as not due without merging, or a merge: the request was approved and
  answered with success, and what follows it is the evidence step, which never changes the outcome.
\<close>

theorem merge_gate_outcome:
  "\<exists>h. snd (mg_run j e environ args k) = noted k h \<and>
    (case fst (mg_run j e environ args k) of
       Value v \<Rightarrow> \<exists>g. mg_parseArgs environ args = Some g \<and> run_allowed j g v h
     | Stopped c s \<Rightarrow> run_stopped j (mg_parseArgs environ args) c h)"
  by (rule run_history)

section \<open>Comments\<close>

lemma uniq_by_subset: "set (uniq_by f xs) \<subseteq> set xs"
  by (induction f xs rule: uniq_by.induct) auto

lemma uniq_by_distinct: "sorted (map f xs) \<Longrightarrow> distinct (map f (uniq_by f xs))" for f :: "'a \<Rightarrow> 'k::linorder"
proof (induction f xs rule: uniq_by.induct)
  case (3 f x y xs)
  show ?case
  proof (cases "f x = f y")
    case True
    then show ?thesis using 3 by auto
  next
    case False
    then have "f x < f z" if "z \<in> set (y # xs)" for z
      using 3(3) that by fastforce
    then have "f x \<notin> f ` set (uniq_by f (y # xs))"
      using uniq_by_subset[of f "y # xs"] by fastforce
    then show ?thesis
      using 3 False by auto
  qed
qed auto

lemma closed_issues_distinct: "distinct (closed_issues j repo vals)"
proof -
  have "distinct (map (\<lambda>s. fst (jq_float j (TrimSpace s))) (sortUniqNumeric j t))" for t
    unfolding sortUniqNumeric_def Let_def by (auto intro!: uniq_by_distinct)
  then show ?thesis
    unfolding closed_issues_def distinct_map by blast
qed

text \<open>The comments of a history, and what each rests on.\<close>

definition comments :: "history \<Rightarrow> action list" where
  "comments h = filter is_comment (map fst h)"

definition comments_earned :: "jq_env \<Rightarrow> mg_opts option \<Rightarrow> history \<Rightarrow> bool" where
  "comments_earned j og h \<longleftrightarrow> comments h = [] \<or>
     (\<exists>g head repo vals tests h1 r h2 h3. og = Some g \<and> h = h1 @ [(merge_query g head, r)] @ h2 @ h3 \<and> rp_rc r = 0 \<and>
        comments (h1 @ [(merge_query g head, r)] @ h2) = [] \<and> in_order [merge_confirmed j g repo vals] h2 \<and> tests \<noteq> [] \<and> list_all testFile tests \<and>
        comments h3 = map (comment_on g repo (evidence_text g (merge_sha vals) tests)) (closed_issues j repo vals) \<and> distinct (closed_issues j repo vals))"

lemma no_comments: "only mg_reads h \<Longrightarrow> comments h = []"
  using reads_no_merge(2) by (force simp: comments_def filter_empty_conv only_def list_all_iff)

lemma comments_append: "comments (h @ h') = comments h @ comments h'"
  by (simp add: comments_def)

lemma comments_all: "map fst h = map (comment_on g repo text) issues \<Longrightarrow> comments h = map (comment_on g repo text) issues"
  unfolding comments_def by (simp add: filter_id_conv comment_on_def numeral_2_eq_2)

lemma merge_no_comment: "comments [(merge_query g head, r)] = []"
  by (simp add: comments_def merge_query_def numeral_2_eq_2)

lemma asked_no_comment: "merge_asked j g h1 r h2 \<Longrightarrow> comments h2 = []"
  by (auto simp: merge_asked_def no_comments comments_append merge_no_comment)

lemma merged_comments_earned:
  assumes "merge_asked j g h1 r h2" "rp_rc r = 0" "evidence_ok j g h3"
  shows "comments_earned j (Some g) (h2 @ h3)"
proof -
  obtain head where h: "only mg_reads h1" "h2 = h1 @ [(merge_query g head, r)]"
    using assms(1) by (auto simp: merge_asked_def)
  show ?thesis
    using assms(3) unfolding evidence_ok_def
  proof (elim disjE exE conjE, goal_cases)
    case 1
    then show ?case
      using asked_no_comment[OF assms(1)] by (simp add: comments_earned_def comments_append no_comments)
  next
    case (2 repo vals tests h4 h5)
    have "comments (h1 @ [(merge_query g head, r)] @ h4) = []"
      using h 2 by (simp only: comments_append no_comments merge_no_comment append_Nil)
    then show ?case
      unfolding comments_earned_def using 2 h assms(2) comments_all[OF 2(7)] closed_issues_distinct
      by (intro disjI2 exI[of _ g] exI[of _ head] exI[of _ repo] exI[of _ vals] exI[of _ tests] exI[of _ h1] exI[of _ r] exI[of _ h4] exI[of _ h5]) simp
  qed
qed

text \<open>
  C3. Evidence only after a confirmed merge. In every run of the merge gate the comments it posts come after its merge
  request was answered with success and after GitHub's answer, for the same repository, that the PR is merged with a 40-hex
  commit; they are one comment, never two, on each issue of that repository the answer lists as closed, in numeric order, all
  with the same text: the commit and the changed test files, of which there is at least one.
\<close>

theorem evidence_after_merge:
  "\<exists>h. kt_hist (snd (mg_run j e environ args k)) = kt_hist k @ h \<and> comments_earned j (mg_parseArgs environ args) h"
proof -
  have stop: "comments h = [] \<Longrightarrow> comments_earned j og h" for og h
    by (simp add: comments_earned_def)
  have "comments_earned j (Some g) h" if "run_allowed j g v h" for g v h
    using that merged_comments_earned unfolding run_allowed_def by (auto intro: stop no_comments)
  moreover have "comments_earned j og h" if "run_stopped j og c h" for og c h
    using that asked_no_comment unfolding run_stopped_def by (auto intro!: stop intro: no_comments simp: comments_def split: option.splits)
  ultimately show ?thesis
    using run_history[of j e environ args k] by (force split: outcome.splits)
qed

section \<open>A run that merges\<close>

definition demo_str :: "string \<Rightarrow> json" where
  "demo_str s = QStr s s"

definition demo_obj :: "(string \<times> json) list \<Rightarrow> json" where
  "demo_obj kvs = QObj (map (\<lambda>(k, v). (k, k, v)) kvs)"

definition demo_answers :: "(string \<times> json) list" where
  "demo_answers =
     [(''P'', demo_obj [(''headRefOid'', demo_str ''H''), (''baseRefOid'', demo_str ''B'')]),
      (''A'', demo_obj [(''schema'', demo_str assess_schema), (''review_due'', QBool False), (''review_due_reason'', demo_str ''passive'')]),
      (''R'', demo_obj [(''check_runs'', QArr [demo_obj [(''name'', demo_str ''lint''), (''status'', demo_str ''completed''),
         (''conclusion'', demo_str ''success''), (''id'', QNum ''5'')]])]),
      (''E'', demo_obj [(''data'', demo_obj [(''repository'', demo_obj [(''nameWithOwner'', demo_str ''o/r''), (''pullRequest'', demo_obj
         [(''merged'', QBool True), (''state'', demo_str ''MERGED''), (''mergeCommit'', demo_obj [(''oid'', demo_str (replicate 40 (CHR ''0'')))]),
          (''closingIssuesReferences'', demo_obj [(''totalCount'', QNum ''1''), (''nodes'', QArr [demo_obj
            [(''number'', QNum ''5''), (''repository'', demo_obj [(''nameWithOwner'', demo_str ''o/r'')])]])])])])])]),
      (''F'', QArr [demo_obj [(''status'', demo_str ''added''), (''filename'', demo_str ''research-sdd/tests/a.test.sh'')]])]"

definition demo_jq :: jq_env where
  "demo_jq = \<lparr>jq_decode = (\<lambda>s. case map_of demo_answers s of None \<Rightarrow> ([], False) | Some v \<Rightarrow> ([v], True)),
     jq_float = (\<lambda>t. (Fin (of_nat (length t)), True))\<rparr>"

definition demo_reply :: "action \<Rightarrow> reply" where
  "demo_reply a =
     (case a of
        Git d as \<Rightarrow> plain_reply (if hd as = ''rev-parse'' then ''H'' else if hd as = ''rev-list'' then ''1'' else ''M'') 0
      | Gh d as \<Rightarrow> plain_reply (if hd as \<noteq> ''api'' then [] else if last as = pr_fields then ''P''
          else if has_prefix (as ! 1) ''repos/{owner}/{repo}/commits/'' then ''R'' else ''F'') 0
      | GentleAI as \<Rightarrow> plain_reply ''A'' 0
      | GhBounded d as \<Rightarrow> plain_reply ''E'' 0
      | _ \<Rightarrow> plain_reply [] 0)"

definition demo_merge_env :: kit_env where
  "demo_merge_env = \<lparr>ke_reply = (\<lambda>h a. demo_reply a), ke_pending = (\<lambda>h. False), ke_getenv = (\<lambda>v. [])\<rparr>"

definition demo_gate_run :: "string outcome \<times> unit kit" where
  "demo_gate_run = mg_run demo_jq demo_merge_env [''MERGE_GATE_REQUIRED_CHECKS=lint'', ''GH_REPO=o/r'']
     [''--cwd'', ''w'', ''--base-ref'', ''B'', ''--merge'', ''7'', ''--no-closure-evidence''] \<lparr>kt_state = (), kt_hist = []\<rparr>"

lemma demo_run_merges: "fst demo_gate_run = Value ''merged''"
  by code_simp

text \<open>The evidence of that merge: one comment.\<close>

lemma demo_evidence_parts:
  "environLookup [''GH_REPO=o/r''] ''GH_REPO'' = Some ''o/r''" "lastPart (beforeLast ''o/r'') @ ''/'' @ lastPart ''o/r'' = ''o/r''" "repoSlug ''o/r''"
  "fst (jqStream demo_jq ''E'') = [snd (demo_answers ! 3)]" "jqEach [snd (demo_answers ! 3)] closureVerdict = ''ok''"
  "asciiLower (name_of_answer [snd (demo_answers ! 3)]) = asciiLower ''o/r''" "closed_issues demo_jq ''o/r'' [snd (demo_answers ! 3)] = [''5'']"
  "changedTestFiles demo_jq (cmdSub ''F'') = Some [''research-sdd/tests/a.test.sh'']"
  by code_simp+

definition demo_opts :: mg_opts where
  "demo_opts = \<lparr>mo_cwd = ''w'', mo_base = ''B'', mo_wantHead = [], mo_pr = ''7'', mo_doMerge = True, mo_noEvidence = False, mo_required = ''lint''\<rparr>"

lemma demo_replies:
  "demo_reply (evidence_query g repo) = plain_reply ''E'' 0" "demo_reply (repo_files_query demo_opts ''o/r'') = plain_reply ''F'' 0"
  "demo_reply (comment_on g repo t i) = plain_reply [] 0"
  by (simp_all add: demo_reply_def evidence_query_def repo_files_query_def comment_on_def demo_opts_def has_prefix_def pr_fields_def)

lemma demo_evidence:
  "\<exists>r1 r2 r3. closureEvidence demo_jq demo_merge_env [''GH_REPO=o/r''] demo_opts \<lparr>kt_state = (), kt_hist = []\<rparr> =
     (Value ''posted'', \<lparr>kt_state = (), kt_hist = [(evidence_query demo_opts ''o/r'', r1), (repo_files_query demo_opts ''o/r'', r2),
       (comment_on demo_opts ''o/r'' (evidence_text demo_opts (merge_sha [snd (demo_answers ! 3)]) [''research-sdd/tests/a.test.sh'']) ''5'', r3)]\<rparr>)"
proof -
  have opts: "\<not> mo_noEvidence demo_opts"
    by (simp add: demo_opts_def)
  have env: "ke_reply demo_merge_env h a = demo_reply a" for h a
    by (simp add: demo_merge_env_def)
  have repo: "merge_repo demo_merge_env [''GH_REPO=o/r''] demo_opts = return_k (Some ''o/r'')"
    unfolding merge_repo_def demo_evidence_parts(1) by (simp add: demo_evidence_parts(2)[simplified])
  show ?thesis
    unfolding closureEvidence_def repo post_evidence_def
    by (simp add: opts demo_evidence_parts bind_k_def return_k_def ask_def env demo_replies plain_reply_def Let_def)
qed

end
